(* ===== verification/Prelude.thy ===== *)
theory Prelude
  imports Complex_Main "HOL-Library.AList" "HOL-Library.Char_ord"
begin

text \<open>
  What every component of the model shares.

  \<^item> Python values: \<open>pyval\<close> for the dynamically typed contents of messages, \<open>exn\<close> for the
    exceptions the code raises or catches. A \<open>string\<close> is a list of code points below 256
    (the Latin-1 range): \<open>strip\<close> and \<open>lower\<close> are exact there. Time stamps are
    real numbers of seconds, as the floats of \<open>time.time\<close> and \<open>time.monotonic\<close>.
  \<^item> Python dictionaries: insertion-ordered association lists with distinct keys, so that
    iteration order (which the code observes) is part of the model. The contract of a
    dictionary is the locale \<open>keyed_store\<close>; \<open>named_store\<close> adds a name normalisation.
  \<^item> Effects: an \<open>act\<close> is a computation over a mutable state that may raise. The state
    survives an exception, as it does in Python. \<open>keeps\<close> is the invariant calculus for it.
\<close>

named_theorems py_simps "evaluation of the Python value operations"
named_theorems keeps_intros "composition rules of the invariant calculus"

section \<open>Exceptions and values\<close>

text \<open>
  \<open>ServiceError n m\<close> is any exception a service method raises: class name \<open>n\<close>, message
  \<open>m\<close>. \<open>PyException m\<close> is a plain \<open>Exception(m)\<close>.
\<close>

datatype pyval =
    PNone
  | PBool bool
  | PInt int
  | PFloat real
  | PStr string
  | PBytes string
  | PList "pyval list"
  | PDict "(string \<times> pyval) list"
  | PExc exn
and exn =
    AttributeError
  | TypeError
  | ValueError
  | ValidationError
  | PyException string
  | ServiceError string string
  | MethodNotFound "string option" "string option"
  | RPCTimeout string int
  | NoRouteToHost "string option"
  | ConnectionClosed
  | UnknownPackTypeError pyval
  | FrameDecodeError
  | WebSocketDisconnect
  | TimeoutError
  | CancelledError
  | StopAsyncIteration
  | QueueFull

fun truthy :: "pyval \<Rightarrow> bool" where
  "truthy PNone = False"
| "truthy (PBool b) = b"
| "truthy (PInt n) = (n \<noteq> 0)"
| "truthy (PFloat x) = (x \<noteq> 0)"
| "truthy (PStr s) = (s \<noteq> [])"
| "truthy (PBytes s) = (s \<noteq> [])"
| "truthy (PList xs) = (xs \<noteq> [])"
| "truthy (PDict d) = (d \<noteq> [])"
| "truthy (PExc e) = True"

text \<open>\<open>a or b\<close> of Python.\<close>

definition py_or :: "pyval \<Rightarrow> pyval \<Rightarrow> pyval" where
  "py_or a b = (if truthy a then a else b)"

lemma py_or_simps [simp]:
  "py_or PNone b = b"
  "py_or (PStr []) b = b"
  "py_or (PDict []) b = b"
  "py_or (PDict (kv # d)) b = PDict (kv # d)"
  "py_or (PStr (c # s)) b = PStr (c # s)"
  by (simp_all add: py_or_def)

text \<open>One computation that may raise after another, without a state.\<close>

definition bind_sum :: "exn + 'a \<Rightarrow> ('a \<Rightarrow> exn + 'b) \<Rightarrow> exn + 'b" where
  "bind_sum m f = (case m of Inl x \<Rightarrow> Inl x | Inr a \<Rightarrow> f a)"

lemma bind_sum_simps [simp]: "bind_sum (Inl x) f = Inl x" "bind_sum (Inr a) f = f a"
  by (simp_all add: bind_sum_def)

lemma bind_sum_InrE: "bind_sum m f = Inr b \<Longrightarrow> (\<And>a. m = Inr a \<Longrightarrow> f a = Inr b \<Longrightarrow> P) \<Longrightarrow> P"
  by (cases m) auto

section \<open>Strings and canonical names\<close>

definition py_isspace :: "char \<Rightarrow> bool" where
  "py_isspace c \<longleftrightarrow>
     (let n = of_char c :: nat in 9 \<le> n \<and> n \<le> 13 \<or> 28 \<le> n \<and> n \<le> 32 \<or> n = 133 \<or> n = 160)"

definition py_lower_char :: "char \<Rightarrow> char" where
  "py_lower_char c =
     (let n = of_char c :: nat
      in if 65 \<le> n \<and> n \<le> 90 \<or> 192 \<le> n \<and> n \<le> 222 \<and> n \<noteq> 215 then char_of (n + 32) else c)"

definition py_strip :: "string \<Rightarrow> string" where
  "py_strip s = rev (dropWhile py_isspace (rev (dropWhile py_isspace s)))"

definition py_lower :: "string \<Rightarrow> string" where
  "py_lower s = map py_lower_char s"

text \<open>The canonical node name: \<open>s.strip().lower()\<close>; values that are not strings pass through.\<close>

definition canon :: "string \<Rightarrow> string" where
  "canon s = py_lower (py_strip s)"

fun canon_val :: "pyval \<Rightarrow> pyval" where
  "canon_val (PStr s) = PStr (canon s)"
| "canon_val v = v"

lemma of_char_less_256: "(of_char c :: nat) < 256"
  by (cases c) (auto simp: of_char_def)

lemma py_isspace_lower_char [simp]: "py_isspace (py_lower_char c) = py_isspace c"
  using of_char_less_256 [of c] by (auto simp: py_isspace_def py_lower_char_def Let_def)

lemma py_lower_char_idem [simp]: "py_lower_char (py_lower_char c) = py_lower_char c"
proof -
  let ?n = "of_char c :: nat"
  show ?thesis
  proof (cases "65 \<le> ?n \<and> ?n \<le> 90 \<or> 192 \<le> ?n \<and> ?n \<le> 222 \<and> ?n \<noteq> 215")
    case True
    then have "(?n + 32) mod 256 = ?n + 32" by auto
    with True show ?thesis by (auto simp: py_lower_char_def Let_def)
  qed (auto simp: py_lower_char_def Let_def)
qed

lemma py_lower_idem [simp]: "py_lower (py_lower s) = py_lower s"
  by (simp add: py_lower_def)

lemma dropWhile_lower: "dropWhile py_isspace (map py_lower_char s) = map py_lower_char (dropWhile py_isspace s)"
  by (induction s) auto

lemma py_strip_lower: "py_strip (py_lower s) = py_lower (py_strip s)"
  by (simp add: py_strip_def py_lower_def rev_map dropWhile_lower)

lemma dropWhile_rev_dropWhile_idem:
  "dropWhile P (rev (dropWhile P (rev (dropWhile P s)))) = rev (dropWhile P (rev (dropWhile P s)))"
proof (cases "dropWhile P s")
  case (Cons x xs)
  then have "\<not> P x" by (metis dropWhile_eq_Cons_conv)
  with Cons show ?thesis by (simp add: dropWhile_append)
qed (simp del: dropWhile_eq_Nil_conv)

lemma py_strip_idem [simp]: "py_strip (py_strip s) = py_strip s"
proof -
  let ?a = "dropWhile py_isspace (rev (dropWhile py_isspace s))"
  have "dropWhile py_isspace ?a = ?a" by simp
  then show ?thesis
    using dropWhile_rev_dropWhile_idem [of py_isspace s] by (simp add: py_strip_def)
qed

lemma canon_idem [simp]: "canon (canon s) = canon s"
  by (simp add: canon_def py_strip_lower)

lemma canon_fixed: "canon x = y \<Longrightarrow> canon y = y"
  using canon_idem by blast

lemma canon_Nil [simp]: "canon [] = []"
  by (simp add: canon_def py_strip_def py_lower_def)

lemma canon_val_idem [simp]: "canon_val (canon_val v) = canon_val v"
  by (cases v) auto

lemma canon_val_PStr_iff: "canon_val v = PStr s \<longleftrightarrow> (\<exists>t. v = PStr t \<and> canon t = s)"
  by (cases v) auto

section \<open>Conversions\<close>

text \<open>\<open>int(s)\<close> in base ten: surrounding blanks, a sign, digits with single underscores.\<close>

fun digits_val :: "string \<Rightarrow> int \<Rightarrow> bool \<Rightarrow> int option" where
  "digits_val [] acc ok = (if ok then Some acc else None)"
| "digits_val (c # cs) acc ok =
     (let n = of_char c :: nat
      in if 48 \<le> n \<and> n \<le> 57 then digits_val cs (acc * 10 + int n - 48) True
         else if c = CHR ''_'' \<and> ok then digits_val cs acc False
         else None)"

fun signed_val :: "string \<Rightarrow> int option" where
  "signed_val [] = None"
| "signed_val (c # cs) =
     (if c = CHR ''-'' then map_option uminus (digits_val cs 0 False)
      else if c = CHR ''+'' then digits_val cs 0 False
      else digits_val (c # cs) 0 False)"

definition int_of_string :: "string \<Rightarrow> exn + int" where
  "int_of_string s = (case signed_val (py_strip s) of None \<Rightarrow> Inl ValueError | Some n \<Rightarrow> Inr n)"

text \<open>\<open>int(v)\<close>; a float is truncated towards zero.\<close>

fun py_int :: "pyval \<Rightarrow> exn + int" where
  "py_int (PInt n) = Inr n"
| "py_int (PBool b) = Inr (if b then 1 else 0)"
| "py_int (PFloat x) = Inr (if x < 0 then - \<lfloor>- x\<rfloor> else \<lfloor>x\<rfloor>)"
| "py_int (PStr s) = int_of_string s"
| "py_int (PBytes s) = int_of_string s"
| "py_int _ = Inl TypeError"

text \<open>\<open>round(x)\<close>: to the nearest integer, a half to the even one.\<close>

definition py_round :: "real \<Rightarrow> int" where
  "py_round x =
     (let f = \<lfloor>x\<rfloor>; r = x - of_int f
      in if r < 1 / 2 then f else if r > 1 / 2 then f + 1 else if even f then f else f + 1)"

text \<open>The items a \<open>for\<close> loop sees; texts and byte strings give one item per element.\<close>

fun py_iter :: "pyval \<Rightarrow> exn + pyval list" where
  "py_iter (PList vs) = Inr vs"
| "py_iter (PDict d) = Inr (map (PStr \<circ> fst) d)"
| "py_iter (PStr s) = Inr (map (\<lambda>c. PStr [c]) s)"
| "py_iter (PBytes s) = Inr (map (\<lambda>c. PInt (int (of_char c))) s)"
| "py_iter _ = Inl TypeError"

text \<open>\<open>str(n)\<close> for a natural number.\<close>

definition digit_char :: "nat \<Rightarrow> char" where
  "digit_char d = char_of (48 + d)"

fun string_of_nat :: "nat \<Rightarrow> string" where
  "string_of_nat n =
     (if n < 10 then [digit_char n] else string_of_nat (n div 10) @ [digit_char (n mod 10)])"

declare string_of_nat.simps [simp del]

lemma of_char_digit [simp]: "d < 10 \<Longrightarrow> (of_char (digit_char d) :: nat) = 48 + d"
  by (simp add: digit_char_def)

lemma digits_val_append_digit:
  assumes "d < 10"
  shows "digits_val s acc ok = Some n \<Longrightarrow> digits_val (s @ [digit_char d]) acc ok = Some (n * 10 + int d)"
proof (induction s arbitrary: acc ok)
  case Nil
  then have "acc = n" by (cases ok) simp_all
  with assms show ?case by (simp add: Let_def)
next
  case (Cons c cs)
  consider (digit) "48 \<le> (of_char c :: nat) \<and> (of_char c :: nat) \<le> 57"
    | (blank) "\<not> (48 \<le> (of_char c :: nat) \<and> (of_char c :: nat) \<le> 57)" "c = CHR ''_'' \<and> ok"
    | (bad) "\<not> (48 \<le> (of_char c :: nat) \<and> (of_char c :: nat) \<le> 57)" "\<not> (c = CHR ''_'' \<and> ok)"
    by blast
  then show ?case
  proof cases
    case digit
    with Cons show ?thesis by (simp del: of_char_eq_iff)
  next
    case blank
    with Cons show ?thesis by (simp only: digits_val.simps append_Cons Let_def if_True if_False simp_thms)
  next
    case bad
    with Cons.prems show ?thesis by (simp only: digits_val.simps Let_def if_False option.distinct)
  qed
qed

lemma digits_val_string_of_nat: "digits_val (string_of_nat n) 0 False = Some (int n)"
proof (induction n rule: string_of_nat.induct)
  case (1 n)
  show ?case
  proof (cases "n < 10")
    case True
    then show ?thesis using string_of_nat.simps [of n] by (simp add: Let_def)
  next
    case False
    with 1 have "digits_val (string_of_nat (n div 10)) 0 False = Some (int (n div 10))" by simp
    then have "digits_val (string_of_nat (n div 10) @ [digit_char (n mod 10)]) 0 False
      = Some (int (n div 10) * 10 + int (n mod 10))"
      by (intro digits_val_append_digit) simp_all
    moreover have "string_of_nat n = string_of_nat (n div 10) @ [digit_char (n mod 10)]"
      using False string_of_nat.simps [of n] by simp
    moreover have "int (n div 10) * 10 + int (n mod 10) = int n"
      by (metis div_mult_mod_eq of_nat_add of_nat_mult of_nat_numeral)
    ultimately show ?thesis by simp
  qed
qed

lemma string_of_nat_inject: "string_of_nat m = string_of_nat n \<Longrightarrow> m = n"
  by (metis digits_val_string_of_nat of_nat_eq_iff option.inject)

lemma string_of_nat_digits: "c \<in> set (string_of_nat n) \<Longrightarrow> \<exists>d<10. c = digit_char d"
proof (induction n rule: string_of_nat.induct)
  case (1 n)
  show ?case
  proof (cases "n < 10")
    case True
    with "1.prems" show ?thesis by (subst (asm) string_of_nat.simps) auto
  next
    case False
    with "1.prems" have "c \<in> set (string_of_nat (n div 10)) \<or> c = digit_char (n mod 10)"
      by (subst (asm) string_of_nat.simps) auto
    then show ?thesis
    proof
      assume "c \<in> set (string_of_nat (n div 10))"
      with "1.IH" False show ?thesis by simp
    next
      assume "c = digit_char (n mod 10)"
      then show ?thesis by (intro exI [of _ "n mod 10"]) simp
    qed
  qed
qed

text \<open>\<open>str(n)\<close> for an integer.\<close>

definition string_of_int :: "int \<Rightarrow> string" where
  "string_of_int n = (if n < 0 then ''-'' @ string_of_nat (nat (- n)) else string_of_nat (nat n))"

text \<open>A text of the source outside Latin-1 stands as the list of its UTF-8 bytes.\<close>

definition utf8 :: "nat list \<Rightarrow> string" where
  "utf8 = map char_of"

text \<open>\<open>needle in hay\<close> on texts.\<close>

fun begins :: "'a list \<Rightarrow> 'a list \<Rightarrow> bool" where
  "begins [] ys = True"
| "begins (x # xs) [] = False"
| "begins (x # xs) (y # ys) = (x = y \<and> begins xs ys)"

fun contains :: "'a list \<Rightarrow> 'a list \<Rightarrow> bool" where
  "contains needle [] = (needle = [])"
| "contains needle (y # ys) = (begins needle (y # ys) \<or> contains needle ys)"

lemma begins_iff: "begins xs ys \<longleftrightarrow> (\<exists>zs. ys = xs @ zs)"
  by (induction xs ys rule: begins.induct) auto

lemma contains_iff: "contains xs ys \<longleftrightarrow> (\<exists>us zs. ys = us @ xs @ zs)"
proof (induction ys)
  case (Cons y ys)
  have "(\<exists>us zs. y # ys = us @ xs @ zs) \<longleftrightarrow> begins xs (y # ys) \<or> (\<exists>us zs. ys = us @ xs @ zs)"
    unfolding begins_iff by (metis append_Cons append_Nil list.exhaust list.inject)
  with Cons show ?case by simp
qed simp

text \<open>\<open>s.split(c)\<close> at a character and \<open>sep.join(parts)\<close>.\<close>

fun split_on :: "char \<Rightarrow> string \<Rightarrow> string list" where
  "split_on s [] = [[]]"
| "split_on s (c # cs) =
     (if c = s then [] # split_on s cs
      else case split_on s cs of [] \<Rightarrow> [[c]] | w # ws \<Rightarrow> (c # w) # ws)"

fun join :: "string \<Rightarrow> string list \<Rightarrow> string" where
  "join sep [] = []"
| "join sep [s] = s"
| "join sep (s # t # ss) = s @ sep @ join sep (t # ss)"

lemma split_on_nonempty [simp]: "split_on c s \<noteq> []"
  by (induction s) (auto split: list.splits)

lemma split_on_plain: "c \<notin> set s \<Longrightarrow> split_on c s = [s]"
  by (induction s) auto

lemma split_on_append: "c \<notin> set s \<Longrightarrow> split_on c (s @ c # t) = s # split_on c t"
  by (induction s) auto

lemma split_on_join: "ps \<noteq> [] \<Longrightarrow> \<forall>p \<in> set ps. c \<notin> set p \<Longrightarrow> split_on c (join [c] ps) = ps"
  by (induction "[c]" ps rule: join.induct) (auto simp: split_on_plain split_on_append)

section \<open>Dictionaries\<close>

type_synonym ('k, 'v) dict = "('k \<times> 'v) list"

definition dict_get :: "('k, 'v) dict \<Rightarrow> 'k \<Rightarrow> 'v option" where
  "dict_get d k = map_of d k"

definition dict_set :: "'k \<Rightarrow> 'v \<Rightarrow> ('k, 'v) dict \<Rightarrow> ('k, 'v) dict" where
  "dict_set k v d = AList.update k v d"

definition dict_pop :: "'k \<Rightarrow> ('k, 'v) dict \<Rightarrow> ('k, 'v) dict" where
  "dict_pop k d = AList.delete k d"

definition dict_keys :: "('k, 'v) dict \<Rightarrow> 'k list" where
  "dict_keys d = map fst d"

definition dict_values :: "('k, 'v) dict \<Rightarrow> 'v list" where
  "dict_values d = map snd d"

definition dict_ok :: "('k, 'v) dict \<Rightarrow> bool" where
  "dict_ok d \<longleftrightarrow> distinct (map fst d)"

definition get_default :: "('k, 'v) dict \<Rightarrow> 'k \<Rightarrow> 'v \<Rightarrow> 'v" where
  "get_default d k v = (case dict_get d k of None \<Rightarrow> v | Some w \<Rightarrow> w)"

text \<open>\<open>d.get(k)\<close> with a key that may be \<open>None\<close> (\<open>None\<close> is never a key of these tables).\<close>

definition get_opt :: "('k, 'v) dict \<Rightarrow> 'k option \<Rightarrow> 'v option" where
  "get_opt d k = Option.bind k (dict_get d)"

text \<open>\<open>v.get(k, default)\<close> on a value that should be a dictionary.\<close>

fun val_get :: "pyval \<Rightarrow> string \<Rightarrow> pyval \<Rightarrow> exn + pyval" where
  "val_get (PDict d) k dflt = Inr (get_default d k dflt)"
| "val_get _ k dflt = Inl AttributeError"

lemma dict_get_Nil [simp]: "dict_get [] k = None"
  by (simp add: dict_get_def)

lemma dict_get_Cons [simp]: "dict_get ((k, v) # d) k' = (if k' = k then Some v else dict_get d k')"
  by (simp add: dict_get_def)

lemma dict_get_set [simp]: "dict_get (dict_set k v d) k' = (if k' = k then Some v else dict_get d k')"
  by (simp add: dict_get_def dict_set_def update_conv')

lemma dict_get_pop [simp]: "dict_get (dict_pop k d) k' = (if k' = k then None else dict_get d k')"
  by (simp add: dict_get_def dict_pop_def delete_conv')

lemma dict_set_simps:
  "dict_set k v [] = [(k, v)]"
  "dict_set k v ((j, w) # d) = (if j = k then (j, v) # d else (j, w) # dict_set k v d)"
  by (simp_all add: dict_set_def)

lemma set_dict_set: "set (dict_set k v d) \<subseteq> insert (k, v) (set d)"
  by (induction d) (auto simp: dict_set_simps split: if_split_asm)

lemma dict_get_in: "dict_get d k = Some v \<Longrightarrow> (k, v) \<in> set d"
  by (simp add: dict_get_def map_of_SomeD)

lemma dict_get_values: "dict_get d k = Some v \<Longrightarrow> v \<in> set (dict_values d)"
  by (force simp: dict_values_def dest: dict_get_in)

lemma set_dict_keys: "set (dict_keys d) = {k. dict_get d k \<noteq> None}"
  by (auto simp: dict_keys_def dict_get_def map_of_eq_None_iff)

lemma dict_ok_Nil [simp, intro]: "dict_ok []"
  by (simp add: dict_ok_def)

lemma dict_ok_set [simp, intro]: "dict_ok d \<Longrightarrow> dict_ok (dict_set k v d)"
  by (simp add: dict_ok_def dict_set_def distinct_update)

lemma dict_ok_pop [simp, intro]: "dict_ok d \<Longrightarrow> dict_ok (dict_pop k d)"
  by (simp add: dict_ok_def dict_pop_def distinct_delete)

lemma dict_ok_filter [simp, intro]: "dict_ok d \<Longrightarrow> dict_ok (filter P d)"
  by (simp add: dict_ok_def distinct_map_filter)

lemma dict_in_set_iff: "dict_ok d \<Longrightarrow> (k, v) \<in> set d \<longleftrightarrow> dict_get d k = Some v"
  by (simp add: dict_ok_def dict_get_def)

lemma dict_get_filter:
  "dict_ok d \<Longrightarrow> dict_get (filter P d) k =
     (case dict_get d k of Some v \<Rightarrow> if P (k, v) then Some v else None | None \<Rightarrow> None)"
proof (induction d)
  case (Cons kv d)
  then have ok: "dict_ok d" and new: "fst kv \<notin> fst ` set d"
    by (auto simp: dict_ok_def)
  from new have "dict_get d (fst kv) = None"
    by (simp add: dict_get_def map_of_eq_None_iff)
  with Cons.IH [OF ok] show ?case
    by (cases kv) (auto split: option.splits)
qed simp

lemma dict_get_map_values:
  "dict_get (map (\<lambda>(k, v). (k, f v)) d) k = map_option f (dict_get d k)"
  by (induction d) auto

lemma dict_ok_map_values: "dict_ok (map (\<lambda>(k, v). (k, f v)) d) = dict_ok d"
  by (simp add: dict_ok_def comp_def case_prod_unfold)

lemma get_opt_simps [simp]:
  "get_opt d None = None"
  "get_opt d (Some k) = dict_get d k"
  by (simp_all add: get_opt_def)

subsection \<open>The contract of a keyed table\<close>

text \<open>
  What the components rely on when they keep a table: the lookup after an insertion and after
  a removal, the key list, and that every operation keeps the well-formedness of the table.
\<close>

locale keyed_store =
  fixes lookup :: "'m \<Rightarrow> 'k \<Rightarrow> 'v option"
    and insert_at :: "'k \<Rightarrow> 'v \<Rightarrow> 'm \<Rightarrow> 'm"
    and remove_at :: "'k \<Rightarrow> 'm \<Rightarrow> 'm"
    and keys_of :: "'m \<Rightarrow> 'k list"
    and invar :: "'m \<Rightarrow> bool"
  assumes lookup_insert: "lookup (insert_at k v m) k' = (if k' = k then Some v else lookup m k')"
    and lookup_remove: "lookup (remove_at k m) k' = (if k' = k then None else lookup m k')"
    and keys_lookup: "set (keys_of m) = {k. lookup m k \<noteq> None}"
    and invar_insert: "invar m \<Longrightarrow> invar (insert_at k v m)"
    and invar_remove: "invar m \<Longrightarrow> invar (remove_at k m)"
begin

lemma lookup_reinsert: "lookup (insert_at k v (remove_at k m)) = lookup (insert_at k v m)"
  by (rule ext) (simp add: lookup_insert lookup_remove)

lemma lookup_remove_absent: "lookup m k = None \<Longrightarrow> lookup (remove_at k m) = lookup m"
  by (rule ext) (simp add: lookup_remove)

lemma keys_insert: "set (keys_of (insert_at k v m)) = insert k (set (keys_of m))"
  by (auto simp: keys_lookup lookup_insert)

lemma keys_remove: "set (keys_of (remove_at k m)) = set (keys_of m) - {k}"
  by (auto simp: keys_lookup lookup_remove)

lemma invar_fold_remove: "invar m \<Longrightarrow> invar (fold remove_at ks m)"
  by (induction ks arbitrary: m) (simp_all add: invar_remove)

lemma lookup_fold_remove:
  "lookup (fold remove_at ks m) k = (if k \<in> set ks then None else lookup m k)"
  by (induction ks arbitrary: m) (auto simp: lookup_remove)

end

text \<open>
  A store whose callers spell the keys differently: every operation normalises the name first.
  Two spellings of one node address the same row.
\<close>

locale named_store = keyed_store lookup insert_at remove_at keys_of invar
  for lookup :: "'m \<Rightarrow> 'k \<Rightarrow> 'v option"
    and insert_at :: "'k \<Rightarrow> 'v \<Rightarrow> 'm \<Rightarrow> 'm"
    and remove_at :: "'k \<Rightarrow> 'm \<Rightarrow> 'm"
    and keys_of :: "'m \<Rightarrow> 'k list"
    and invar :: "'m \<Rightarrow> bool" +
  fixes norm :: "'k \<Rightarrow> 'k"
  assumes norm_idem: "norm (norm k) = norm k"
begin

lemma lookup_insert_spelling:
  "norm k = norm k' \<Longrightarrow> lookup (insert_at (norm k) v m) (norm k') = Some v"
  by (simp add: lookup_insert)

lemma lookup_insert_other:
  "norm k \<noteq> norm k' \<Longrightarrow> lookup (insert_at (norm k) v m) (norm k') = lookup m (norm k')"
  by (simp add: lookup_insert)

lemma lookup_remove_spelling:
  "norm k = norm k' \<Longrightarrow> lookup (remove_at (norm k) m) (norm k') = None"
  by (simp add: lookup_remove)

text \<open>Only normalised names are ever stored.\<close>

lemma keys_stay_normal:
  assumes "\<forall>k\<in>set (keys_of m). norm k = k"
  shows "\<forall>k\<in>set (keys_of (insert_at (norm a) v m)). norm k = k"
    and "\<forall>k\<in>set (keys_of (remove_at (norm a) m)). norm k = k"
  using assms by (auto simp: keys_insert keys_remove norm_idem)

end

interpretation dict: keyed_store dict_get dict_set dict_pop dict_keys dict_ok
  by unfold_locales (auto simp: set_dict_keys)

interpretation node_dict: named_store dict_get dict_set dict_pop dict_keys dict_ok canon
  by unfold_locales simp

section \<open>Computations with state and exceptions\<close>

text \<open>
  A computation returns, raises, or is suspended: an \<open>await\<close> that cannot go on (a full or an
  empty queue). What it did before it stopped is in the state.
\<close>

datatype 'a outcome = Ret 'a | Raise exn | Suspended

type_synonym ('s, 'a) act = "'s \<Rightarrow> 'a outcome \<times> 's"

definition act_ret :: "'a \<Rightarrow> ('s, 'a) act" where
  "act_ret a = (\<lambda>s. (Ret a, s))"

definition act_raise :: "exn \<Rightarrow> ('s, 'a) act" where
  "act_raise e = (\<lambda>s. (Raise e, s))"

definition act_bind :: "('s, 'a) act \<Rightarrow> ('a \<Rightarrow> ('s, 'b) act) \<Rightarrow> ('s, 'b) act" where
  "act_bind m f = (\<lambda>s.
     case m s of
       (Ret a, s') \<Rightarrow> f a s'
     | (Raise e, s') \<Rightarrow> (Raise e, s')
     | (Suspended, s') \<Rightarrow> (Suspended, s'))"

definition act_seq :: "('s, 'a) act \<Rightarrow> ('s, 'b) act \<Rightarrow> ('s, 'b) act" where
  "act_seq m n = act_bind m (\<lambda>_. n)"

text \<open>\<open>act_catch m h\<close> is \<open>try: m except e: h e\<close>.\<close>

definition act_catch :: "('s, 'a) act \<Rightarrow> (exn \<Rightarrow> ('s, 'a) act) \<Rightarrow> ('s, 'a) act" where
  "act_catch m h = (\<lambda>s.
     case m s of
       (Ret a, s') \<Rightarrow> (Ret a, s')
     | (Raise e, s') \<Rightarrow> h e s'
     | (Suspended, s') \<Rightarrow> (Suspended, s'))"

definition act_suspend :: "('s, 'a) act" where
  "act_suspend = (\<lambda>s. (Suspended, s))"

definition act_modify :: "('s \<Rightarrow> 's) \<Rightarrow> ('s, unit) act" where
  "act_modify f = (\<lambda>s. (Ret (), f s))"

definition act_gets :: "('s \<Rightarrow> 'a) \<Rightarrow> ('s, 'a) act" where
  "act_gets f = (\<lambda>s. (Ret (f s), s))"

fun act_mapM :: "('x \<Rightarrow> ('s, unit) act) \<Rightarrow> 'x list \<Rightarrow> ('s, unit) act" where
  "act_mapM f [] = act_ret ()"
| "act_mapM f (x # xs) = act_seq (f x) (act_mapM f xs)"

lemmas act_defs = act_ret_def act_raise_def act_suspend_def act_bind_def act_seq_def act_catch_def
  act_modify_def act_gets_def

lemma act_bind_ret [simp]: "act_bind (act_ret a) f = f a"
  by (simp add: act_defs)

lemma act_bind_assoc: "act_bind (act_bind m f) g = act_bind m (\<lambda>a. act_bind (f a) g)"
  by (rule ext) (auto simp: act_defs split: prod.splits outcome.splits)

lemma act_bind_raise [simp]: "act_bind (act_raise e) f = act_raise e"
  by (simp add: act_defs)

lemma act_catch_ret [simp]: "act_catch (act_ret a) h = act_ret a"
  by (simp add: act_defs)

subsection \<open>Invariants of computations\<close>

text \<open>
  \<open>keeps P m\<close>: from a state with \<open>P\<close>, the computation ends in a state with \<open>P\<close>,
  whether it returns or raises.
\<close>

definition keeps :: "('s \<Rightarrow> bool) \<Rightarrow> ('s, 'a) act \<Rightarrow> bool" where
  "keeps P m \<longleftrightarrow> (\<forall>s. P s \<longrightarrow> P (snd (m s)))"

lemma keepsI: "(\<And>s. P s \<Longrightarrow> P (snd (m s))) \<Longrightarrow> keeps P m"
  by (simp add: keeps_def)

lemma keepsD: "keeps P m \<Longrightarrow> P s \<Longrightarrow> P (snd (m s))"
  by (simp add: keeps_def)

lemma keepsE: "keeps P m \<Longrightarrow> m s = (x, s') \<Longrightarrow> P s \<Longrightarrow> P s'"
  by (force simp: keeps_def)

lemma keeps_ret [keeps_intros]: "keeps P (act_ret a)"
  by (simp add: keeps_def act_ret_def)

lemma keeps_raise [keeps_intros]: "keeps P (act_raise e)"
  by (simp add: keeps_def act_raise_def)

lemma keeps_suspend [keeps_intros]: "keeps P act_suspend"
  by (simp add: keeps_def act_suspend_def)

lemma keeps_gets [keeps_intros]: "keeps P (act_gets f)"
  by (simp add: keeps_def act_gets_def)

lemma keeps_modify: "(\<And>s. P s \<Longrightarrow> P (f s)) \<Longrightarrow> keeps P (act_modify f)"
  by (simp add: keeps_def act_modify_def)

lemma keeps_bind [keeps_intros]: "keeps P m \<Longrightarrow> (\<And>a. keeps P (f a)) \<Longrightarrow> keeps P (act_bind m f)"
  by (auto simp: keeps_def act_bind_def split: prod.splits outcome.splits)

lemma keeps_seq [keeps_intros]: "keeps P m \<Longrightarrow> keeps P n \<Longrightarrow> keeps P (act_seq m n)"
  by (simp add: act_seq_def keeps_bind)

lemma keeps_catch [keeps_intros]: "keeps P m \<Longrightarrow> (\<And>e. keeps P (h e)) \<Longrightarrow> keeps P (act_catch m h)"
  by (auto simp: keeps_def act_catch_def split: prod.splits outcome.splits)

lemma keeps_mapM [keeps_intros]: "(\<And>x. keeps P (f x)) \<Longrightarrow> keeps P (act_mapM f xs)"
  by (induction xs) (auto intro: keeps_intros)

lemma keeps_if [keeps_intros]:
  "(b \<Longrightarrow> keeps P m) \<Longrightarrow> (\<not> b \<Longrightarrow> keeps P n) \<Longrightarrow> keeps P (if b then m else n)"
  by simp

lemma keeps_case_option [keeps_intros]:
  "(x = None \<Longrightarrow> keeps P m) \<Longrightarrow> (\<And>a. x = Some a \<Longrightarrow> keeps P (f a)) \<Longrightarrow>
     keeps P (case x of None \<Rightarrow> m | Some a \<Rightarrow> f a)"
  by (cases x) auto

lemma keeps_case_sum [keeps_intros]:
  "(\<And>a. x = Inl a \<Longrightarrow> keeps P (m a)) \<Longrightarrow> (\<And>a. x = Inr a \<Longrightarrow> keeps P (f a)) \<Longrightarrow>
     keeps P (case x of Inl a \<Rightarrow> m a | Inr a \<Rightarrow> f a)"
  by (cases x) auto

end
