(* ===== verification/Protocol.thy ===== *)
theory Protocol
  imports Prelude "HOL-Library.Sublist"
begin

text \<open>
  The wire protocol of the mesh: \<open>networking/protocol.py\<close> (packet kinds, the packet
  record, its dictionary form, encoding and decoding) and \<open>networking/mesh_auth.py\<close>
  (the HELLO signature).

  The packet class is a model of the validation library: text fields take texts only (the byte
  strings the library would decode are left out), integer fields also take what it reads as
  an integer. The msgpack library is a parameter: \<open>packb\<close> turns a value into the bytes of a frame,
  \<open>unpackb\<close> reads them back or raises. The HMAC of the standard library is the parameter
  \<open>mac\<close> (key, message, base64 text of the digest).
\<close>

section \<open>Packet kinds\<close>

datatype pack_type =
    REQUEST | RESPONSE | FORWARDED
  | STREAM_OPEN | STREAM_READY | STREAM_CHUNK | STREAM_ACK | STREAM_EOF
  | ERROR | PING | PONG | HELLO | HELLO_ACK | HELLO_REJECT
  | GOSSIP | ANNOUNCE | CERT_SYNC

fun pack_value :: "pack_type \<Rightarrow> string" where
  "pack_value REQUEST = ''request''"
| "pack_value RESPONSE = ''response''"
| "pack_value FORWARDED = ''forwarded''"
| "pack_value STREAM_OPEN = ''stream_open''"
| "pack_value STREAM_READY = ''stream_ready''"
| "pack_value STREAM_CHUNK = ''stream_chunk''"
| "pack_value STREAM_ACK = ''stream_ack''"
| "pack_value STREAM_EOF = ''stream_eof''"
| "pack_value ERROR = ''error''"
| "pack_value PING = ''ping''"
| "pack_value PONG = ''pong''"
| "pack_value HELLO = ''hello''"
| "pack_value HELLO_ACK = ''hello_ack''"
| "pack_value HELLO_REJECT = ''hello_reject''"
| "pack_value GOSSIP = ''gossip''"
| "pack_value ANNOUNCE = ''announce''"
| "pack_value CERT_SYNC = ''cert_sync''"

text \<open>The members in the order the class lists them; iterating the enumeration uses this list.\<close>

definition pack_types :: "pack_type list" where
  "pack_types = [REQUEST, RESPONSE, FORWARDED, STREAM_OPEN, STREAM_READY, STREAM_CHUNK,
     STREAM_ACK, STREAM_EOF, ERROR, PING, PONG, HELLO, HELLO_ACK, HELLO_REJECT, GOSSIP,
     ANNOUNCE, CERT_SYNC]"

instantiation pack_type :: enum
begin

definition enum_pack_type_def: "enum_class.enum = pack_types"

definition enum_all_pack_type_def: "enum_class.enum_all P = list_all P pack_types"

definition enum_ex_pack_type_def: "enum_class.enum_ex P = list_ex P pack_types"

lemma pack_types_all: "t \<in> set pack_types"
  by (cases t) (simp_all add: pack_types_def)

instance
proof
  show "(UNIV :: pack_type set) = set enum_class.enum"
    using pack_types_all by (auto simp: enum_pack_type_def)
  show "distinct (enum_class.enum :: pack_type list)"
    by (simp add: enum_pack_type_def pack_types_def)
  show "enum_class.enum_all P \<longleftrightarrow> Ball UNIV P" for P :: "pack_type \<Rightarrow> bool"
    using pack_types_all by (auto simp: enum_all_pack_type_def list_all_iff)
  show "enum_class.enum_ex P \<longleftrightarrow> Bex UNIV P" for P :: "pack_type \<Rightarrow> bool"
    using pack_types_all by (auto simp: enum_ex_pack_type_def list_ex_iff)
qed

end

definition known_types :: "string list" where
  "known_types = map pack_value pack_types"

definition pack_of_value :: "string \<Rightarrow> pack_type option" where
  "pack_of_value s = find (\<lambda>t. pack_value t = s) pack_types"

lemma pack_of_value_value [simp]: "pack_of_value (pack_value t) = Some t"
  by (cases t) (simp_all add: pack_of_value_def pack_types_def)

lemma pack_value_known [simp]: "pack_value t \<in> set known_types"
  using pack_types_all [of t] by (simp add: known_types_def)

lemma pack_of_value_None_iff: "pack_of_value s = None \<longleftrightarrow> s \<notin> set known_types"
  by (auto simp: pack_of_value_def find_None_iff known_types_def)

section \<open>Packets\<close>

record MsgPack =
  ptype :: pack_type
  source :: string
  dst :: "string option"
  service :: "string option"
  meth :: "string option"
  data :: pyval
  label :: string
  error :: "string option"
  path :: "string list"
  ttl :: int

text \<open>A packet with the default of every field that has one; \<open>lbl\<close> is the fresh UUID.\<close>

definition new_pack :: "pack_type \<Rightarrow> string \<Rightarrow> string option \<Rightarrow> string \<Rightarrow> MsgPack" where
  "new_pack t src d lbl =
     \<lparr>ptype = t, source = src, dst = d, service = None, meth = None, data = PNone,
      label = lbl, error = None, path = [], ttl = 16\<rparr>"

fun val_opt_str :: "string option \<Rightarrow> pyval" where
  "val_opt_str None = PNone"
| "val_opt_str (Some s) = PStr s"

definition model_dump :: "MsgPack \<Rightarrow> (string, pyval) dict" where
  "model_dump p =
     [(''type'', PStr (pack_value (ptype p))), (''source'', PStr (source p)),
      (''dst'', val_opt_str (dst p)), (''service'', val_opt_str (service p)),
      (''method'', val_opt_str (meth p)), (''data'', data p), (''label'', PStr (label p)),
      (''error'', val_opt_str (error p)), (''path'', PList (map PStr (path p))),
      (''ttl'', PInt (ttl p))]"

fun as_str :: "pyval \<Rightarrow> string option" where
  "as_str (PStr s) = Some s"
| "as_str _ = None"

fun as_opt_str :: "pyval \<Rightarrow> string option option" where
  "as_opt_str PNone = Some None"
| "as_opt_str (PStr s) = Some (Some s)"
| "as_opt_str _ = None"

text \<open>An integer field also takes what the validator reads as an integer.\<close>

fun as_int :: "pyval \<Rightarrow> int option" where
  "as_int (PInt n) = Some n"
| "as_int (PBool b) = Some (if b then 1 else 0)"
| "as_int (PFloat x) = (if x = real_of_int \<lfloor>x\<rfloor> then Some \<lfloor>x\<rfloor> else None)"
| "as_int (PStr s) = signed_val (py_strip s)"
| "as_int _ = None"

fun as_str_list :: "pyval \<Rightarrow> string list option" where
  "as_str_list (PList vs) = those (map as_str vs)"
| "as_str_list _ = None"

fun as_ptype :: "pyval \<Rightarrow> pack_type option" where
  "as_ptype (PStr s) = pack_of_value s"
| "as_ptype _ = None"

text \<open>One declared field: absent, it has its default (\<open>None\<close> where it is required).\<close>

definition field_of :: "(string, pyval) dict \<Rightarrow> string \<Rightarrow> 'a option \<Rightarrow> (pyval \<Rightarrow> 'a option) \<Rightarrow> 'a option" where
  "field_of d k dflt conv = (case dict_get d k of None \<Rightarrow> dflt | Some v \<Rightarrow> conv v)"

text \<open>A field that does not validate ends the construction.\<close>

definition need :: "'a option \<Rightarrow> ('a \<Rightarrow> exn + 'b) \<Rightarrow> exn + 'b" where
  "need x f = (case x of None \<Rightarrow> Inl ValidationError | Some a \<Rightarrow> f a)"

lemma need_Inr_iff [simp]: "need x f = Inr r \<longleftrightarrow> (\<exists>a. x = Some a \<and> f a = Inr r)"
  by (cases x) (auto simp: need_def)

lemma need_Some [simp]: "need (Some a) f = f a"
  by (simp add: need_def)

text \<open>\<open>MsgPack(**d)\<close>; \<open>fresh\<close> is what \<open>uuid.uuid4()\<close> gives when the label is absent.\<close>

definition build_pack :: "string \<Rightarrow> (string, pyval) dict \<Rightarrow> exn + MsgPack" where
  "build_pack fresh d =
     need (field_of d ''type'' (Some REQUEST) as_ptype) (\<lambda>t.
     need (field_of d ''source'' None as_str) (\<lambda>src.
     need (field_of d ''dst'' (Some None) as_opt_str) (\<lambda>ds.
     need (field_of d ''service'' (Some None) as_opt_str) (\<lambda>sv.
     need (field_of d ''method'' (Some None) as_opt_str) (\<lambda>mt.
     need (field_of d ''label'' (Some fresh) as_str) (\<lambda>lb.
     need (field_of d ''error'' (Some None) as_opt_str) (\<lambda>er.
     need (field_of d ''path'' (Some []) as_str_list) (\<lambda>pa.
     need (field_of d ''ttl'' (Some 16) as_int) (\<lambda>tt.
       Inr \<lparr>ptype = t, source = src, dst = ds, service = sv, meth = mt,
            data = get_default d ''data'' PNone, label = lb, error = er, path = pa, ttl = tt\<rparr>)))))))))"

lemma build_pack_type:
  "build_pack fresh d = Inr p \<Longrightarrow> field_of d ''type'' (Some REQUEST) as_ptype = Some (ptype p)"
  by (auto simp: build_pack_def)

definition encode_pack :: "(pyval \<Rightarrow> string) \<Rightarrow> MsgPack \<Rightarrow> string" where
  "encode_pack packb p = packb (PDict (model_dump p))"

fun hashable :: "pyval \<Rightarrow> bool" where
  "hashable (PList _) = False"
| "hashable (PDict _) = False"
| "hashable _ = True"

text \<open>
  A frame that is not a dictionary is a \<open>ValueError\<close> (the connection is closed); an unknown
  kind is an \<open>UnknownPackTypeError\<close> (the packet is dropped, the connection lives).
\<close>

definition decode_pack :: "(string \<Rightarrow> exn + pyval) \<Rightarrow> string \<Rightarrow> string \<Rightarrow> exn + MsgPack" where
  "decode_pack unpackb fresh raw =
     (case unpackb raw of
        Inl e \<Rightarrow> Inl e
      | Inr v \<Rightarrow>
          (case v of
             PDict d \<Rightarrow>
               (let t = get_default d ''type'' PNone
                in if \<not> hashable t then Inl TypeError
                   else if t \<notin> PStr ` set known_types then Inl (UnknownPackTypeError t)
                   else build_pack fresh d)
           | _ \<Rightarrow> Inl ValueError))"

lemma as_opt_str_val [simp]: "as_opt_str (val_opt_str x) = Some x"
  by (cases x) auto

lemma those_map_as_str [simp]: "those (map (as_str \<circ> PStr) xs) = Some xs"
  by (induction xs) auto

lemma build_pack_dump: "build_pack fresh (model_dump p) = Inr p"
  by (simp add: build_pack_def model_dump_def field_of_def get_default_def)

lemma decode_pack_dict:
  assumes "unpackb raw = Inr (PDict d)" "dict_get d ''type'' = Some (PStr s)" "s \<in> set known_types"
  shows "decode_pack unpackb fresh raw = build_pack fresh d"
  using assms by (auto simp: decode_pack_def get_default_def Let_def)

lemma decode_encode:
  assumes "unpackb (packb (PDict (model_dump p))) = Inr (PDict (model_dump p))"
  shows "decode_pack unpackb fresh (encode_pack packb p) = Inr p"
proof -
  have "dict_get (model_dump p) ''type'' = Some (PStr (pack_value (ptype p)))"
    by (simp add: model_dump_def)
  with assms show ?thesis
    unfolding encode_pack_def by (simp add: decode_pack_dict build_pack_dump)
qed

text \<open>Unknown kinds never reach the packet constructor, and every decoded packet has a known one.\<close>

lemma decode_unknown_type:
  assumes "unpackb raw = Inr (PDict d)" "get_default d ''type'' PNone = t" "hashable t"
    "t \<notin> PStr ` set known_types"
  shows "decode_pack unpackb fresh raw = Inl (UnknownPackTypeError t)"
  using assms by (simp add: decode_pack_def Let_def)

lemma decode_not_dict:
  assumes "unpackb raw = Inr v" "\<forall>d. v \<noteq> PDict d"
  shows "decode_pack unpackb fresh raw = Inl ValueError"
  using assms by (cases v) (auto simp: decode_pack_def)

lemma decode_needs_type:
  assumes "decode_pack unpackb fresh raw = Inr p"
  shows "\<exists>d. unpackb raw = Inr (PDict d) \<and> dict_get d ''type'' = Some (PStr (pack_value (ptype p)))"
proof -
  from assms obtain v where v: "unpackb raw = Inr v"
    by (auto simp: decode_pack_def split: sum.splits)
  from assms v obtain d where d: "v = PDict d"
    by (cases v) (auto simp: decode_pack_def)
  from assms v d obtain s where s: "get_default d ''type'' PNone = PStr s" "s \<in> set known_types"
    and b: "build_pack fresh d = Inr p"
    by (auto simp: decode_pack_def Let_def split: if_splits)
  from s have g: "dict_get d ''type'' = Some (PStr s)"
    by (auto simp: get_default_def split: option.splits)
  with build_pack_type [OF b] have "pack_of_value s = Some (ptype p)"
    by (simp add: field_of_def)
  then have "pack_value (ptype p) = s"
    by (auto simp: pack_of_value_def find_Some_iff)
  with v d g show ?thesis by auto
qed

section \<open>HELLO signatures\<close>

definition newline :: string where
  "newline = [char_of (10 :: nat)]"

definition sign_hello :: "(string \<Rightarrow> string \<Rightarrow> string) \<Rightarrow> string \<Rightarrow> string \<Rightarrow> string option \<Rightarrow> string option" where
  "sign_hello mac node_id session_id secret =
     (case secret of
        None \<Rightarrow> None
      | Some k \<Rightarrow> if k = [] then None else Some (mac k (node_id @ newline @ session_id)))"

definition is_ascii :: "string \<Rightarrow> bool" where
  "is_ascii s \<longleftrightarrow> (\<forall>c\<in>set s. (of_char c :: nat) < 128)"

text \<open>
  The comparison encodes the offered text as ASCII, which raises for other characters, and
  a value that is not a text has no \<open>encode\<close>.
\<close>

definition verify_sig ::
  "(string \<Rightarrow> string \<Rightarrow> string) \<Rightarrow> string \<Rightarrow> string \<Rightarrow> string option \<Rightarrow> pyval \<Rightarrow> exn + bool" where
  "verify_sig mac node_id session_id secret provided =
     (if secret = None \<or> secret = Some [] then Inr True
      else if \<not> truthy provided then Inr False
      else
        (case sign_hello mac node_id session_id secret of
           None \<Rightarrow> Inr False
         | Some expected \<Rightarrow>
             if expected = [] then Inr False
             else
               (case provided of
                  PStr s \<Rightarrow> if is_ascii s then Inr (expected = s) else Inl ValueError
                | _ \<Rightarrow> Inl AttributeError)))"

lemma verify_open_mesh [simp]: "verify_sig mac n s None v = Inr True"
  by (simp add: verify_sig_def)

lemma verify_own_signature:
  assumes "sign_hello mac n s secret = Some sg" "sg \<noteq> []" "is_ascii sg"
  shows "verify_sig mac n s secret (PStr sg) = Inr True"
  using assms by (auto simp: verify_sig_def)

lemma verify_accepts_only_mac:
  assumes "verify_sig mac n s (Some k) v = Inr True" "k \<noteq> []"
  shows "v = PStr (mac k (n @ newline @ s))"
  using assms by (cases v) (auto simp: verify_sig_def sign_hello_def split: if_splits)

lemma verify_missing_signature: "k \<noteq> [] \<Longrightarrow> verify_sig mac n s (Some k) PNone = Inr False"
  by (simp add: verify_sig_def)

end
