(* ===== verification/Neighbor_Table.thy ===== *)
theory Neighbor_Table
  imports Protocol
begin

text \<open>
  The table of mesh neighbours: \<open>networking/neighbor_table.py\<close>. A row is a
  \<open>neighbor\<close>; the fields the routing decisions read are typed, the advertised metadata
  (host, port, version, services, role) stay Python values, since gossip assigns them
  unchecked. The table is an insertion-ordered dictionary from canonical names to rows.
  The wall clock is the parameter \<open>now\<close>.
\<close>

section \<open>Rows and the table\<close>

definition protocol_version :: string where
  "protocol_version = ''2.0''"

definition role_node :: string where
  "role_node = ''node''"

datatype nb_state = CONNECTED | KNOWN | UNREACHABLE

fun nb_state_value :: "nb_state \<Rightarrow> string" where
  "nb_state_value CONNECTED = ''connected''"
| "nb_state_value KNOWN = ''known''"
| "nb_state_value UNREACHABLE = ''unreachable''"

record neighbor =
  nb_id :: string
  nb_host :: pyval
  nb_port :: pyval
  nb_status :: nb_state
  nb_via :: "string option"
  nb_hops :: int
  nb_last_ts :: real
  nb_session_id :: pyval
  nb_version :: pyval
  nb_services :: pyval
  nb_role :: pyval

record neighbor_table =
  own_id :: string
  rows :: "(string, neighbor) dict"

definition new_table :: "string \<Rightarrow> neighbor_table" where
  "new_table own = \<lparr>own_id = canon own, rows = []\<rparr>"

definition is_str :: "pyval \<Rightarrow> bool" where
  "is_str v \<longleftrightarrow> as_str v \<noteq> None"

text \<open>The constructor \<open>NeighborInfo(...)\<close> checks the declared types.\<close>

definition make_neighbor ::
  "pyval \<Rightarrow> pyval \<Rightarrow> pyval \<Rightarrow> nb_state \<Rightarrow> string option \<Rightarrow> int \<Rightarrow> real \<Rightarrow> pyval \<Rightarrow> pyval \<Rightarrow> pyval \<Rightarrow> pyval
    \<Rightarrow> exn + neighbor" where
  "make_neighbor nid host port st via hops ts sid ver svcs role =
     need (as_str nid) (\<lambda>n. need (as_int port) (\<lambda>p.
       if is_str host \<and> as_opt_str sid \<noteq> None \<and> is_str ver
          \<and> as_str_list svcs \<noteq> None \<and> is_str role
       then Inr \<lparr>nb_id = n, nb_host = host, nb_port = PInt p, nb_status = st, nb_via = via,
                 nb_hops = hops, nb_last_ts = ts, nb_session_id = sid, nb_version = ver,
                 nb_services = svcs, nb_role = role\<rparr>
       else Inl ValidationError))"

section \<open>Registration and single-row updates\<close>

definition register_connected ::
  "real \<Rightarrow> string \<Rightarrow> pyval \<Rightarrow> pyval \<Rightarrow> pyval \<Rightarrow> pyval \<Rightarrow> pyval \<Rightarrow> pyval \<Rightarrow> (neighbor_table, neighbor) act" where
  "register_connected now nid host port sid ver svcs role t =
     (case make_neighbor (PStr (canon nid)) host port CONNECTED None 1 now sid ver
             (py_or svcs (PList [])) role of
        Inl e \<Rightarrow> (Raise e, t)
      | Inr info \<Rightarrow> (Ret info, t\<lparr>rows := dict_set (canon nid) info (rows t)\<rparr>))"

definition register_known ::
  "real \<Rightarrow> string \<Rightarrow> pyval \<Rightarrow> pyval \<Rightarrow> string option \<Rightarrow> pyval \<Rightarrow> pyval \<Rightarrow> pyval \<Rightarrow> (neighbor_table, neighbor) act" where
  "register_known now nid host port via ver svcs role t =
     (case dict_get (rows t) (canon nid) of
        Some ex \<Rightarrow>
          if nb_status ex = CONNECTED then (Ret ex, t)
          else
            (case make_neighbor (PStr (canon nid)) host port KNOWN (map_option canon via) 2 now PNone
                    ver (py_or svcs (PList [])) role of
               Inl e \<Rightarrow> (Raise e, t)
             | Inr info \<Rightarrow> (Ret info, t\<lparr>rows := dict_set (canon nid) info (rows t)\<rparr>))
      | None \<Rightarrow>
          (case make_neighbor (PStr (canon nid)) host port KNOWN (map_option canon via) 2 now PNone
                  ver (py_or svcs (PList [])) role of
             Inl e \<Rightarrow> (Raise e, t)
           | Inr info \<Rightarrow> (Ret info, t\<lparr>rows := dict_set (canon nid) info (rows t)\<rparr>)))"

text \<open>The row objects are shared and mutated in place: an update of the row under its key.\<close>

definition update_row :: "string \<Rightarrow> (neighbor \<Rightarrow> neighbor) \<Rightarrow> neighbor_table \<Rightarrow> neighbor_table" where
  "update_row k f t =
     (case dict_get (rows t) k of
        None \<Rightarrow> t
      | Some i \<Rightarrow> t\<lparr>rows := dict_set k (f i) (rows t)\<rparr>)"

definition touch :: "real \<Rightarrow> string \<Rightarrow> neighbor_table \<Rightarrow> neighbor_table" where
  "touch now nid = update_row (canon nid) (nb_last_ts_update (\<lambda>_. now))"

definition mark_unreachable :: "string \<Rightarrow> neighbor_table \<Rightarrow> neighbor_table" where
  "mark_unreachable nid = update_row (canon nid) (nb_status_update (\<lambda>_. UNREACHABLE))"

definition update_services :: "string \<Rightarrow> pyval \<Rightarrow> neighbor_table \<Rightarrow> neighbor_table" where
  "update_services nid svcs = update_row (canon nid) (nb_services_update (\<lambda>_. svcs))"

section \<open>Queries\<close>

definition nt_get :: "neighbor_table \<Rightarrow> string option \<Rightarrow> neighbor option" where
  "nt_get t nid = get_opt (rows t) (map_option canon nid)"

definition nt_all :: "neighbor_table \<Rightarrow> neighbor list" where
  "nt_all t = dict_values (rows t)"

definition nt_connected :: "neighbor_table \<Rightarrow> neighbor list" where
  "nt_connected t = filter (\<lambda>n. nb_status n = CONNECTED) (nt_all t)"

definition nt_known :: "neighbor_table \<Rightarrow> neighbor list" where
  "nt_known t = filter (\<lambda>n. nb_status n = KNOWN) (nt_all t)"

text \<open>\<open>service in n.services\<close>: membership in a list, a key of a dictionary, a part of a text.\<close>

fun py_contains :: "pyval \<Rightarrow> string \<Rightarrow> exn + bool" where
  "py_contains (PList vs) s = Inr (PStr s \<in> set vs)"
| "py_contains (PDict d) s = Inr (s \<in> set (map fst d))"
| "py_contains (PStr t) s = Inr (sublist s t)"
| "py_contains _ s = Inl TypeError"

fun find_services :: "string \<Rightarrow> neighbor list \<Rightarrow> exn + neighbor list" where
  "find_services s [] = Inr []"
| "find_services s (n # ns) =
     (case py_contains (nb_services n) s of
        Inl e \<Rightarrow> Inl e
      | Inr b \<Rightarrow>
          (case find_services s ns of
             Inl e \<Rightarrow> Inl e
           | Inr found \<Rightarrow> Inr (if b then n # found else found)))"

definition find_by_service :: "neighbor_table \<Rightarrow> string \<Rightarrow> exn + neighbor list" where
  "find_by_service t s = find_services s (nt_all t)"

definition neighbor_dump :: "neighbor \<Rightarrow> (string, pyval) dict" where
  "neighbor_dump n =
     [(''node_id'', PStr (nb_id n)), (''host'', nb_host n), (''port'', nb_port n),
      (''status'', PStr (nb_state_value (nb_status n))), (''via'', val_opt_str (nb_via n)),
      (''hops'', PInt (nb_hops n)), (''last_ts'', PFloat (nb_last_ts n)),
      (''session_id'', nb_session_id n), (''version'', nb_version n),
      (''services'', nb_services n), (''role'', nb_role n)]"

definition to_gossip :: "neighbor_table \<Rightarrow> pyval list" where
  "to_gossip t =
     map (\<lambda>n. PDict (neighbor_dump n))
       (filter (\<lambda>n. nb_status n \<noteq> UNREACHABLE \<and> nb_id n \<noteq> own_id t) (nt_all t))"

section \<open>Merging gossip\<close>

text \<open>A lookup under a value from the wire: only texts can be keys, unhashable values raise.\<close>

definition row_of_val :: "neighbor_table \<Rightarrow> pyval \<Rightarrow> exn + neighbor option" where
  "row_of_val t v =
     (case v of
        PStr s \<Rightarrow> Inr (dict_get (rows t) s)
      | _ \<Rightarrow> if hashable v then Inr None else Inl TypeError)"

definition val_key :: "pyval \<Rightarrow> string" where
  "val_key v = (case v of PStr s \<Rightarrow> s | _ \<Rightarrow> [])"

text \<open>The fields every refresh takes from the entry, each keeping its value when absent.\<close>

definition refresh_meta :: "real \<Rightarrow> (string, pyval) dict \<Rightarrow> neighbor \<Rightarrow> neighbor" where
  "refresh_meta now d ex =
     ex\<lparr>nb_host := get_default d ''host'' (nb_host ex),
        nb_port := get_default d ''port'' (nb_port ex),
        nb_version := get_default d ''version'' (nb_version ex),
        nb_services := get_default d ''services'' (nb_services ex),
        nb_role := get_default d ''role'' (nb_role ex),
        nb_last_ts := now\<rparr>"

text \<open>The update of a row that is not directly connected, by the hop count of the entry.\<close>

definition refresh_row :: "real \<Rightarrow> string option \<Rightarrow> (string, pyval) dict \<Rightarrow> int \<Rightarrow> neighbor \<Rightarrow> neighbor" where
  "refresh_row now frm d incoming ex =
     (let fresh = refresh_meta now d ex;
          dead = (nb_status ex = UNREACHABLE)
      in if incoming < nb_hops ex
         then fresh\<lparr>nb_via := frm, nb_hops := incoming,
                     nb_status := if dead then KNOWN else nb_status ex\<rparr>
         else if incoming = nb_hops ex
              \<and> canon_val (get_default d ''via'' PNone) \<noteq> canon_val (val_opt_str (nb_via ex))
         then (if dead then fresh\<lparr>nb_via := frm, nb_hops := incoming, nb_status := KNOWN\<rparr> else fresh)
         else fresh\<lparr>nb_status := if dead \<and> incoming \<le> nb_hops ex + 2 then KNOWN else nb_status ex\<rparr>)"

definition points_to_self :: "neighbor_table \<Rightarrow> neighbor option \<Rightarrow> bool" where
  "points_to_self t r =
     (case r of
        None \<Rightarrow> False
      | Some i \<Rightarrow> map_option canon (nb_via i) = Some (canon (own_id t)))"

text \<open>An accepted entry: a new row, a refresh, or nothing for a direct connection.\<close>

definition apply_entry ::
  "real \<Rightarrow> string option \<Rightarrow> (string, pyval) dict \<Rightarrow> pyval \<Rightarrow> int \<Rightarrow> (neighbor_table, unit) act" where
  "apply_entry now frm d nid incoming t =
     (case row_of_val t nid of
        Inl e \<Rightarrow> (Raise e, t)
      | Inr None \<Rightarrow>
          (case make_neighbor nid (get_default d ''host'' (PStr []))
                  (get_default d ''port'' (PInt 9000)) KNOWN frm incoming now
                  PNone (get_default d ''version'' (PStr protocol_version))
                  (get_default d ''services'' (PList []))
                  (get_default d ''role'' (PStr role_node)) of
             Inl e \<Rightarrow> (Raise e, t)
           | Inr info \<Rightarrow> (Ret (), t\<lparr>rows := dict_set (val_key nid) info (rows t)\<rparr>))
      | Inr (Some ex) \<Rightarrow>
          if nb_status ex = CONNECTED then (Ret (), t)
          else (Ret (), update_row (val_key nid) (\<lambda>_. refresh_row now frm d incoming ex) t))"

text \<open>
  The loop body: the entries about this node, through this node, or through a row that points
  back to this node are skipped.
\<close>

definition merge_entry :: "real \<Rightarrow> string option \<Rightarrow> pyval \<Rightarrow> (neighbor_table, unit) act" where
  "merge_entry now frm entry t =
     (case entry of
        PDict d \<Rightarrow>
          (let nid = canon_val (get_default d ''node_id'' PNone);
               self = PStr (canon (own_id t));
               ev = get_default d ''via'' PNone
           in if \<not> truthy nid \<or> nid = self then (Ret (), t)
              else if canon_val ev = self then (Ret (), t)
              else
                (case row_of_val t (canon_val (py_or ev (PStr []))) of
                   Inl e \<Rightarrow> (Raise e, t)
                 | Inr via_info \<Rightarrow>
                     if points_to_self t via_info then (Ret (), t)
                     else
                       (case py_int (py_or (get_default d ''hops'' PNone) (PInt 1)) of
                          Inl e \<Rightarrow> (Raise e, t)
                        | Inr h \<Rightarrow> apply_entry now frm d nid (h + 1) t)))
      | _ \<Rightarrow> (Raise AttributeError, t))"

definition merge_gossip :: "real \<Rightarrow> pyval \<Rightarrow> string option \<Rightarrow> (neighbor_table, unit) act" where
  "merge_gossip now neighbors frm =
     (case py_iter neighbors of
        Inl e \<Rightarrow> act_raise e
      | Inr es \<Rightarrow> act_mapM (merge_entry now (map_option canon frm)) es)"

section \<open>Ageing\<close>

definition sweep_row :: "real \<Rightarrow> real \<Rightarrow> neighbor \<Rightarrow> neighbor" where
  "sweep_row now ttl_known n =
     (if nb_status n = KNOWN \<and> now - nb_last_ts n > ttl_known then n\<lparr>nb_status := UNREACHABLE\<rparr> else n)"

definition sweep_dead :: "real \<Rightarrow> real \<Rightarrow> neighbor \<Rightarrow> bool" where
  "sweep_dead now ttl_unreach n \<longleftrightarrow> nb_status n = UNREACHABLE \<and> now - nb_last_ts n > ttl_unreach"

text \<open>One step of the cascade, for the key the loop is at.\<close>

definition cascade_step :: "string \<Rightarrow> neighbor_table \<Rightarrow> neighbor_table" where
  "cascade_step k t =
     (case dict_get (rows t) k of
        None \<Rightarrow> t
      | Some i \<Rightarrow>
          if nb_status i = KNOWN
             \<and> (case nb_via i of
                  None \<Rightarrow> False
                | Some v \<Rightarrow> v \<noteq> [] \<and> (case dict_get (rows t) v of
                                        None \<Rightarrow> False
                                      | Some vi \<Rightarrow> nb_status vi = UNREACHABLE))
          then update_row k (nb_status_update (\<lambda>_. UNREACHABLE)) t
          else t)"

definition sweep :: "real \<Rightarrow> real \<Rightarrow> real \<Rightarrow> neighbor_table \<Rightarrow> neighbor_table" where
  "sweep now ttl_known ttl_unreach t =
     (let doomed = map fst (filter (\<lambda>(k, n). sweep_dead now ttl_unreach n) (rows t));
          aged = t\<lparr>rows := map (\<lambda>(k, n). (k, sweep_row now ttl_known n)) (rows t)\<rparr>;
          pruned = aged\<lparr>rows := fold dict_pop doomed (rows aged)\<rparr>
      in fold cascade_step (dict_keys (rows pruned)) pruned)"

section \<open>Single rows\<close>

lemma own_id_update_row [simp]: "own_id (update_row k f t) = own_id t"
  by (simp add: update_row_def split: option.splits)

lemma get_update_row [simp]:
  "dict_get (rows (update_row k f t)) k' =
     (if k' = k then map_option f (dict_get (rows t) k) else dict_get (rows t) k')"
  by (simp add: update_row_def split: option.splits)

lemma dict_ok_update_row [simp, intro]: "dict_ok (rows t) \<Longrightarrow> dict_ok (rows (update_row k f t))"
  by (simp add: update_row_def split: option.splits)

lemma make_neighbor_Inr:
  "make_neighbor nid host port st via hops ts sid ver svcs role = Inr i \<Longrightarrow>
     nid = PStr (nb_id i) \<and> nb_status i = st \<and> nb_via i = via \<and> nb_hops i = hops \<and> nb_last_ts i = ts"
  by (cases nid) (auto simp: make_neighbor_def split: if_splits)

lemma refresh_meta_simps [simp]:
  "nb_id (refresh_meta now d ex) = nb_id ex"
  "nb_status (refresh_meta now d ex) = nb_status ex"
  "nb_via (refresh_meta now d ex) = nb_via ex"
  "nb_hops (refresh_meta now d ex) = nb_hops ex"
  "nb_last_ts (refresh_meta now d ex) = now"
  by (simp_all add: refresh_meta_def)

lemma refresh_row_id [simp]: "nb_id (refresh_row now frm d inc ex) = nb_id ex"
  by (simp add: refresh_row_def Let_def)

lemma refresh_row_ts [simp]: "nb_last_ts (refresh_row now frm d inc ex) = now"
  by (simp add: refresh_row_def Let_def)

lemma refresh_row_hops: "nb_hops (refresh_row now frm d inc ex) = min inc (nb_hops ex)"
  by (auto simp: refresh_row_def Let_def)

section \<open>What gossip may do to a row\<close>

text \<open>
  The transitions of one row under one gossip entry: it keeps its value, it is learned, or it
  is refreshed, and the last only when it is not a direct connection.
\<close>

inductive row_step :: "real \<Rightarrow> string option \<Rightarrow> string \<Rightarrow> string \<Rightarrow> neighbor option \<Rightarrow> neighbor option \<Rightarrow> bool"
  for now frm own k where
  row_keep: "row_step now frm own k r r"
| row_learn: "nb_id i = k \<Longrightarrow> canon k = k \<Longrightarrow> k \<noteq> own \<Longrightarrow> nb_status i = KNOWN \<Longrightarrow> nb_via i = frm \<Longrightarrow>
    nb_last_ts i = now \<Longrightarrow> row_step now frm own k None (Some i)"
| row_refresh: "nb_status ex \<noteq> CONNECTED \<Longrightarrow> k \<noteq> own \<Longrightarrow>
    row_step now frm own k (Some ex) (Some (refresh_row now frm d inc ex))"

inductive_cases row_step_NoneE: "row_step now frm own k None r"
inductive_cases row_step_SomeE: "row_step now frm own k (Some i) r"
inductive_simps row_step_to_None: "row_step now frm own k r None"

lemma row_of_val_None_key: "row_of_val t v = Inr (Some ex) \<Longrightarrow> \<exists>s. v = PStr s \<and> dict_get (rows t) s = Some ex"
  by (cases v) (auto simp: row_of_val_def)

lemma apply_entry_own [simp]: "own_id (snd (apply_entry now frm d nid inc t)) = own_id t"
  by (simp add: apply_entry_def split: sum.split option.split)

text \<open>An entry either leaves the table alone or is applied, under a name that is not this node's.\<close>

lemma merge_entry_applies:
  obtains (skip) "snd (merge_entry now frm e t) = t"
  | (applied) d nid h where "e = PDict d" "nid = canon_val (get_default d ''node_id'' PNone)"
      "truthy nid" "nid \<noteq> PStr (canon (own_id t))"
      "canon_val (get_default d ''via'' PNone) \<noteq> PStr (canon (own_id t))"
      "py_int (py_or (get_default d ''hops'' PNone) (PInt 1)) = Inr h"
      "merge_entry now frm e t = apply_entry now frm d nid (h + 1) t"
proof (cases e)
  case (PDict d)
  define nid where "nid = canon_val (get_default d ''node_id'' PNone)"
  have "snd (merge_entry now frm e t) = t \<or>
      (truthy nid \<and> nid \<noteq> PStr (canon (own_id t))
       \<and> canon_val (get_default d ''via'' PNone) \<noteq> PStr (canon (own_id t))
       \<and> (\<exists>h. py_int (py_or (get_default d ''hops'' PNone) (PInt 1)) = Inr h
            \<and> merge_entry now frm e t = apply_entry now frm d nid (h + 1) t))"
    unfolding PDict nid_def by (simp add: merge_entry_def Let_def split: sum.split)
  with PDict nid_def show thesis using skip applied by blast
qed (simp_all add: merge_entry_def)

lemma apply_entry_row:
  assumes "canon_val nid = nid" "nid \<noteq> PStr own"
  shows "row_step now frm own k (dict_get (rows t) k) (dict_get (rows (snd (apply_entry now frm d nid inc t))) k)"
proof (cases "row_of_val t nid")
  case (Inr r)
  note found = this
  show ?thesis
  proof (cases r)
    case None
    show ?thesis
    proof (cases "nid = PStr k")
      case True
      with None found assms have "dict_get (rows t) k = None" "canon k = k" "k \<noteq> own"
        by (auto simp: row_of_val_def)
      with True None found show ?thesis
        by (auto simp: apply_entry_def val_key_def dest!: make_neighbor_Inr
              intro: row_step.intros split: sum.split)
    next
      case False
      with None found show ?thesis
        by (auto simp: apply_entry_def val_key_def dest!: make_neighbor_Inr
              intro: row_keep split: sum.split)
    qed
  next
    case (Some ex)
    with found obtain s where "nid = PStr s" "dict_get (rows t) s = Some ex"
      using row_of_val_None_key by blast
    with Some found assms show ?thesis
      by (auto simp: apply_entry_def val_key_def intro: row_step.intros)
  qed
qed (simp add: apply_entry_def row_keep)

lemma merge_entry_own [simp]: "own_id (snd (merge_entry now frm e t)) = own_id t"
  by (rule merge_entry_applies [of now frm e t]) simp_all

lemma merge_entry_row:
  "row_step now frm (canon (own_id t)) k (dict_get (rows t) k)
     (dict_get (rows (snd (merge_entry now frm e t))) k)"
  by (rule merge_entry_applies [of now frm e t]) (simp_all add: row_keep apply_entry_row)

text \<open>
  The routing contract of a refresh. A direct connection is untouched. The distance never
  grows, a row is never declared unreachable by gossip, and the next hop changes only to the
  sender, for a strictly shorter distance or, at an equal one, when the row was unreachable.
\<close>

definition route_step :: "string option \<Rightarrow> neighbor \<Rightarrow> neighbor \<Rightarrow> bool" where
  "route_step frm i j \<longleftrightarrow>
     nb_id j = nb_id i \<and> nb_hops j \<le> nb_hops i
     \<and> (nb_status j = CONNECTED \<longleftrightarrow> nb_status i = CONNECTED)
     \<and> (nb_status i = CONNECTED \<longrightarrow> j = i)
     \<and> (nb_status j = UNREACHABLE \<longrightarrow> nb_status i = UNREACHABLE)
     \<and> (nb_via j \<noteq> nb_via i \<or> nb_hops j \<noteq> nb_hops i \<longrightarrow>
          nb_via j = frm \<and> (nb_hops j < nb_hops i \<or> nb_hops j = nb_hops i \<and> nb_status i = UNREACHABLE))"

lemma route_step_refl [simp, intro]: "route_step frm i i"
  by (simp add: route_step_def)

lemma route_step_trans: "route_step frm i j \<Longrightarrow> route_step frm j k \<Longrightarrow> route_step frm i k"
  unfolding route_step_def by (smt (verit))

lemma route_step_refresh: "nb_status i \<noteq> CONNECTED \<Longrightarrow> route_step frm i (refresh_row now frm d inc i)"
  by (cases "nb_status i") (auto simp: route_step_def refresh_row_def Let_def)

text \<open>The same for a row that may be absent: a learned row is known through the sender.\<close>

definition route_change :: "string option \<Rightarrow> string \<Rightarrow> string \<Rightarrow> neighbor option \<Rightarrow> neighbor option \<Rightarrow> bool" where
  "route_change frm own k r r' \<longleftrightarrow>
     (case r of
        Some i \<Rightarrow> \<exists>j. r' = Some j \<and> route_step frm i j
      | None \<Rightarrow> \<forall>j. r' = Some j \<longrightarrow> k \<noteq> own \<and> nb_status j = KNOWN \<and> nb_via j = frm)"

lemma route_change_refl: "route_change frm own k r r"
  by (auto simp: route_change_def split: option.splits)

lemma route_change_trans:
  assumes "route_change frm own k r r'" "route_change frm own k r' r''"
  shows "route_change frm own k r r''"
proof (cases r)
  case (Some i)
  with assms show ?thesis by (auto simp: route_change_def) (blast intro: route_step_trans)
next
  case None
  show ?thesis
  proof (cases r')
    case (Some j)
    with None assms obtain j' where "r'' = Some j'" "route_step frm j j'" "k \<noteq> own"
      "nb_status j = KNOWN" "nb_via j = frm"
      by (auto simp: route_change_def)
    moreover from this have "nb_via j' = frm" unfolding route_step_def by metis
    moreover have "nb_status j' = KNOWN"
      using \<open>route_step frm j j'\<close> \<open>nb_status j = KNOWN\<close> by (cases "nb_status j'") (simp_all add: route_step_def)
    ultimately show ?thesis using None by (simp add: route_change_def)
  next
    case None': None
    with assms(2) None show ?thesis by (simp add: route_change_def)
  qed
qed

lemma row_step_route_change: "row_step now frm own k r r' \<Longrightarrow> route_change frm own k r r'"
  by (induction rule: row_step.induct)
    (auto simp: route_change_refl route_step_refresh, simp_all add: route_change_def route_step_refresh)

lemma own_id_mapM_merge [simp]: "own_id (snd (act_mapM (merge_entry now frm) es t)) = own_id t"
  by (induction es arbitrary: t)
    (auto simp: act_ret_def act_seq_def act_bind_def split: prod.splits outcome.splits,
      (metis merge_entry_own snd_conv)+)

lemma mapM_merge_route_change:
  "route_change frm (canon (own_id t)) k (dict_get (rows t) k)
     (dict_get (rows (snd (act_mapM (merge_entry now frm) es t))) k)"
proof (induction es arbitrary: t)
  case Nil
  show ?case by (simp add: act_ret_def route_change_refl)
next
  case (Cons e es)
  obtain o' u where step: "merge_entry now frm e t = (o', u)"
    by (cases "merge_entry now frm e t")
  have one: "route_change frm (canon (own_id t)) k (dict_get (rows t) k) (dict_get (rows u) k)"
    and own: "own_id u = own_id t"
    using row_step_route_change [OF merge_entry_row [of now frm t k e]]
      merge_entry_own [of now frm e t] step by simp_all
  show ?case
  proof (cases o')
    case (Ret x)
    have "route_change frm (canon (own_id t)) k (dict_get (rows u) k)
        (dict_get (rows (snd (act_mapM (merge_entry now frm) es u))) k)"
      using Cons.IH [of u] own by simp
    with one have "route_change frm (canon (own_id t)) k (dict_get (rows t) k)
        (dict_get (rows (snd (act_mapM (merge_entry now frm) es u))) k)"
      by (rule route_change_trans)
    then show ?thesis by (simp add: act_seq_def act_bind_def step Ret)
  next
    case (Raise x)
    with one show ?thesis by (simp add: act_seq_def act_bind_def step)
  next
    case Suspended
    with one show ?thesis by (simp add: act_seq_def act_bind_def step)
  qed
qed

lemma merge_gossip_own [simp]: "own_id (snd (merge_gossip now ns frm t)) = own_id t"
  by (simp add: merge_gossip_def act_raise_def split: sum.split)

lemma merge_gossip_route_change:
  "route_change (map_option canon frm) (canon (own_id t)) k (dict_get (rows t) k)
     (dict_get (rows (snd (merge_gossip now ns frm t))) k)"
  by (auto simp: merge_gossip_def act_raise_def route_change_refl mapM_merge_route_change split: sum.split)

section \<open>Well-formed tables\<close>

definition row_ok :: "string \<Rightarrow> neighbor \<Rightarrow> bool" where
  "row_ok k i \<longleftrightarrow>
     nb_id i = k \<and> canon k = k \<and> (\<forall>v. nb_via i = Some v \<longrightarrow> canon v = v)
     \<and> (nb_status i = CONNECTED \<longrightarrow> nb_via i = None \<and> nb_hops i = 1)"

definition table_ok :: "neighbor_table \<Rightarrow> bool" where
  "table_ok t \<longleftrightarrow>
     dict_ok (rows t) \<and> canon (own_id t) = own_id t
     \<and> (\<forall>k i. dict_get (rows t) k = Some i \<longrightarrow> row_ok k i)"

lemma table_okD:
  "table_ok t \<Longrightarrow> dict_ok (rows t)"
  "table_ok t \<Longrightarrow> canon (own_id t) = own_id t"
  "table_ok t \<Longrightarrow> dict_get (rows t) k = Some i \<Longrightarrow> row_ok k i"
  by (simp_all add: table_ok_def)

lemma new_table_ok [simp, intro]: "table_ok (new_table own)"
  by (simp add: table_ok_def new_table_def)

lemma table_ok_set:
  "table_ok t \<Longrightarrow> row_ok k i \<Longrightarrow> table_ok (t\<lparr>rows := dict_set k i (rows t)\<rparr>)"
  by (auto simp: table_ok_def)

lemma table_ok_update_row:
  "table_ok t \<Longrightarrow> (\<And>i. dict_get (rows t) k = Some i \<Longrightarrow> row_ok k i \<Longrightarrow> row_ok k (f i)) \<Longrightarrow>
     table_ok (update_row k f t)"
  by (auto simp: update_row_def table_okD intro: table_ok_set split: option.split)

lemma touch_ok: "table_ok t \<Longrightarrow> table_ok (touch now nid t)"
  by (auto simp: touch_def row_ok_def intro: table_ok_update_row)

lemma mark_unreachable_ok: "table_ok t \<Longrightarrow> table_ok (mark_unreachable nid t)"
  by (auto simp: mark_unreachable_def row_ok_def intro: table_ok_update_row)

lemma update_services_ok: "table_ok t \<Longrightarrow> table_ok (update_services nid svcs t)"
  by (auto simp: update_services_def row_ok_def intro: table_ok_update_row)

lemma register_connected_ok: "keeps table_ok (register_connected now nid host port sid ver svcs role)"
  by (rule keepsI)
    (auto simp: register_connected_def row_ok_def intro!: table_ok_set dest!: make_neighbor_Inr
      dest: canon_fixed split: sum.split)

lemma register_known_ok: "keeps table_ok (register_known now nid host port via ver svcs role)"
  by (rule keepsI)
    (auto simp: register_known_def row_ok_def intro!: table_ok_set dest!: make_neighbor_Inr
      dest: canon_fixed split: sum.split option.split)

lemma refresh_row_ok:
  "row_ok k ex \<Longrightarrow> nb_status ex \<noteq> CONNECTED \<Longrightarrow> (\<forall>v. frm = Some v \<longrightarrow> canon v = v) \<Longrightarrow>
     row_ok k (refresh_row now frm d inc ex)"
  by (cases "nb_status ex") (auto simp: row_ok_def refresh_row_def Let_def)

lemma apply_entry_ok:
  assumes "table_ok t" "canon_val nid = nid" "\<forall>v. frm = Some v \<longrightarrow> canon v = v"
  shows "table_ok (snd (apply_entry now frm d nid inc t))"
proof (cases "row_of_val t nid")
  case (Inr r)
  show ?thesis
  proof (cases r)
    case None
    with Inr assms show ?thesis
      by (cases nid)
        (auto simp: apply_entry_def val_key_def row_ok_def intro!: table_ok_set
          dest!: make_neighbor_Inr split: sum.split)
  next
    case (Some ex)
    with Inr obtain s where s: "nid = PStr s" "dict_get (rows t) s = Some ex"
      using row_of_val_None_key by blast
    then have "row_ok s ex" using assms(1) by (simp add: table_okD)
    with s Some Inr assms(1,3) show ?thesis
      by (auto simp: apply_entry_def val_key_def intro!: table_ok_update_row refresh_row_ok)
  qed
qed (simp add: apply_entry_def assms(1))

lemma merge_entry_ok:
  assumes "\<forall>v. frm = Some v \<longrightarrow> canon v = v"
  shows "keeps table_ok (merge_entry now frm e)"
proof (rule keepsI)
  fix t
  assume "table_ok t"
  then show "table_ok (snd (merge_entry now frm e t))"
    using assms by - (rule merge_entry_applies [of now frm e t], simp_all add: apply_entry_ok)
qed

lemma merge_gossip_ok: "keeps table_ok (merge_gossip now ns frm)"
  unfolding merge_gossip_def
  by (intro keeps_intros merge_entry_ok) auto

section \<open>Properties of the sweep\<close>

text \<open>What the cascade may do to a row: declare a known one unreachable.\<close>

definition demoted :: "neighbor \<Rightarrow> neighbor \<Rightarrow> bool" where
  "demoted i j \<longleftrightarrow> j = i \<or> nb_status i = KNOWN \<and> j = i\<lparr>nb_status := UNREACHABLE\<rparr>"

definition row_dead :: "neighbor_table \<Rightarrow> string \<Rightarrow> bool" where
  "row_dead t v \<longleftrightarrow> (\<exists>i. dict_get (rows t) v = Some i \<and> nb_status i = UNREACHABLE)"

lemma cascade_step_get:
  "dict_get (rows (cascade_step k t)) k' =
     (case dict_get (rows t) k' of
        None \<Rightarrow> None
      | Some i \<Rightarrow>
          Some (if k' = k \<and> nb_status i = KNOWN \<and> (\<exists>v. nb_via i = Some v \<and> v \<noteq> [] \<and> row_dead t v)
                then i\<lparr>nb_status := UNREACHABLE\<rparr> else i))"
  by (auto simp: cascade_step_def row_dead_def split: option.splits)

lemma cascade_step_dead_mono: "row_dead t v \<Longrightarrow> row_dead (cascade_step k t) v"
  by (auto simp: row_dead_def cascade_step_get)

lemma cascade_dead_mono: "row_dead t v \<Longrightarrow> row_dead (fold cascade_step ks t) v"
  by (induction ks arbitrary: t) (auto intro: cascade_step_dead_mono)

lemma cascade_get:
  "dict_get (rows (fold cascade_step ks t)) k = None \<longleftrightarrow> dict_get (rows t) k = None"
  by (induction ks arbitrary: t) (auto simp: cascade_step_get split: option.splits)

lemma cascade_demoted:
  "dict_get (rows t) k = Some i \<Longrightarrow>
     \<exists>j. dict_get (rows (fold cascade_step ks t)) k = Some j \<and> demoted i j
       \<and> (j \<noteq> i \<longrightarrow> (\<exists>v. nb_via i = Some v \<and> row_dead (fold cascade_step ks t) v))"
proof (induction ks arbitrary: t i)
  case Nil
  then show ?case by (simp add: demoted_def)
next
  case (Cons a ks)
  let ?i = "if k = a \<and> nb_status i = KNOWN \<and> (\<exists>v. nb_via i = Some v \<and> v \<noteq> [] \<and> row_dead t v)
            then i\<lparr>nb_status := UNREACHABLE\<rparr> else i"
  have "dict_get (rows (cascade_step a t)) k = Some ?i"
    using Cons.prems by (simp add: cascade_step_get)
  from Cons.IH [OF this] obtain j where j:
    "dict_get (rows (fold cascade_step ks (cascade_step a t))) k = Some j" "demoted ?i j"
    "j \<noteq> ?i \<longrightarrow> (\<exists>v. nb_via ?i = Some v \<and> row_dead (fold cascade_step ks (cascade_step a t)) v)"
    by blast
  show ?case
  proof (cases "?i = i")
    case True
    with j show ?thesis by auto
  next
    case False
    then obtain v where v: "nb_status i = KNOWN" "nb_via i = Some v" "row_dead t v"
      and i: "?i = i\<lparr>nb_status := UNREACHABLE\<rparr>"
      by (auto split: if_splits)
    from j(2) i have "j = i\<lparr>nb_status := UNREACHABLE\<rparr>"
      by (simp add: demoted_def)
    moreover have "row_dead (fold cascade_step ks (cascade_step a t)) v"
      using v(3) by (intro cascade_dead_mono cascade_step_dead_mono)
    ultimately show ?thesis using j(1) v by (auto simp: demoted_def)
  qed
qed

lemma cascade_complete:
  assumes "k \<in> set ks" "dict_get (rows (fold cascade_step ks t)) k = Some j"
    "nb_status j = KNOWN" "nb_via j = Some v" "v \<noteq> []"
  shows "\<not> row_dead t v"
proof
  assume dead: "row_dead t v"
  from assms(1) obtain as bs where ks: "ks = as @ k # bs"
    by (meson split_list)
  let ?u = "fold cascade_step as t"
  have du: "row_dead ?u v" using dead by (rule cascade_dead_mono)
  obtain i where i: "dict_get (rows ?u) k = Some i"
    using assms(2) ks cascade_get [of "k # bs" ?u k] by (cases "dict_get (rows ?u) k") auto
  let ?i = "if nb_status i = KNOWN \<and> (\<exists>v. nb_via i = Some v \<and> v \<noteq> [] \<and> row_dead ?u v)
            then i\<lparr>nb_status := UNREACHABLE\<rparr> else i"
  have "dict_get (rows (cascade_step k ?u)) k = Some ?i"
    using i by (simp add: cascade_step_get)
  from cascade_demoted [OF this, of bs] have "demoted ?i j"
    using assms(2) ks by auto
  with assms(3-5) du show False
    by (auto simp: demoted_def split: if_splits)
qed

lemma own_id_cascade [simp]: "own_id (fold cascade_step ks t) = own_id t"
proof (induction ks arbitrary: t)
  case (Cons k ks)
  have "own_id (cascade_step k t) = own_id t"
    by (simp add: cascade_step_def split: option.split)
  with Cons.IH show ?case by simp
qed simp

text \<open>The table between the two loops of the sweep.\<close>

definition aged_table :: "real \<Rightarrow> real \<Rightarrow> real \<Rightarrow> neighbor_table \<Rightarrow> neighbor_table" where
  "aged_table now ttl_known ttl_unreach t =
     t\<lparr>rows := fold dict_pop (map fst (filter (\<lambda>(k, n). sweep_dead now ttl_unreach n) (rows t)))
                (map (\<lambda>(k, n). (k, sweep_row now ttl_known n)) (rows t))\<rparr>"

lemma sweep_cascade: "sweep now tk tu t = fold cascade_step (dict_keys (rows (aged_table now tk tu t))) (aged_table now tk tu t)"
  by (simp add: sweep_def aged_table_def Let_def)

lemma aged_table_get:
  assumes "dict_ok (rows t)"
  shows "dict_get (rows (aged_table now tk tu t)) k =
     (case dict_get (rows t) k of
        None \<Rightarrow> None
      | Some i \<Rightarrow> if sweep_dead now tu i then None else Some (sweep_row now tk i))"
proof -
  have "k \<in> set (map fst (filter (\<lambda>(k, n). sweep_dead now tu n) (rows t))) \<longleftrightarrow>
      (\<exists>i. dict_get (rows t) k = Some i \<and> sweep_dead now tu i)"
    using dict_in_set_iff [OF assms] by force
  then show ?thesis
    by (auto simp: aged_table_def dict.lookup_fold_remove dict_get_map_values split: option.split)
qed

lemma aged_table_dict_ok: "dict_ok (rows t) \<Longrightarrow> dict_ok (rows (aged_table now tk tu t))"
  by (simp add: aged_table_def dict.invar_fold_remove dict_ok_map_values)

lemma sweep_own [simp]: "own_id (sweep now tk tu t) = own_id t"
  by (simp add: sweep_cascade) (simp add: aged_table_def)

lemma sweep_row_simps [simp]:
  "nb_via (sweep_row now tk i) = nb_via i"
  "nb_last_ts (sweep_row now tk i) = nb_last_ts i"
  "nb_status (sweep_row now tk i) = CONNECTED \<longleftrightarrow> nb_status i = CONNECTED"
  by (auto simp: sweep_row_def)

text \<open>The row a sweep leaves under a name, compared with the row before.\<close>

lemma sweep_get:
  assumes "dict_ok (rows t)"
  shows "case dict_get (rows t) k of
           None \<Rightarrow> dict_get (rows (sweep now tk tu t)) k = None
         | Some i \<Rightarrow>
             if sweep_dead now tu i then dict_get (rows (sweep now tk tu t)) k = None
             else \<exists>j. dict_get (rows (sweep now tk tu t)) k = Some j \<and> demoted (sweep_row now tk i) j
                    \<and> (j \<noteq> sweep_row now tk i \<longrightarrow>
                        (\<exists>v. nb_via i = Some v \<and> row_dead (sweep now tk tu t) v))"
  using cascade_get cascade_demoted [of "aged_table now tk tu t" k _ "dict_keys (rows (aged_table now tk tu t))"]
  by (auto simp: sweep_cascade aged_table_get [OF assms] split: option.split)

lemma demoted_simps:
  assumes "demoted i j"
  shows "nb_last_ts j = nb_last_ts i" "nb_via j = nb_via i" "nb_hops j = nb_hops i" "nb_id j = nb_id i"
    "nb_status j = CONNECTED \<longleftrightarrow> nb_status i = CONNECTED"
    "nb_status j = KNOWN \<Longrightarrow> j = i"
  using assms by (auto simp: demoted_def)

lemma sweep_ok: "table_ok t \<Longrightarrow> table_ok (sweep now tk tu t)"
proof -
  assume t: "table_ok t"
  have "dict_ok (rows (fold cascade_step ks u))" if "dict_ok (rows u)" for ks u
    using that
  proof (induction ks arbitrary: u)
    case (Cons k ks)
    have "dict_ok (rows (cascade_step k u))"
      using Cons.prems by (auto simp: cascade_step_def split: option.split)
    with Cons.IH show ?case by simp
  qed simp
  then have "dict_ok (rows (sweep now tk tu t))"
    using t by (simp add: sweep_cascade aged_table_dict_ok table_okD)
  moreover have "row_ok k j" if j: "dict_get (rows (sweep now tk tu t)) k = Some j" for k j
  proof (cases "dict_get (rows t) k")
    case None
    with j sweep_get [OF table_okD(1) [OF t], where k = k and now = now and tk = tk and tu = tu] show ?thesis by simp
  next
    case (Some i)
    with j sweep_get [OF table_okD(1) [OF t], where k = k and now = now and tk = tk and tu = tu]
    have "demoted (sweep_row now tk i) j" by (auto split: if_splits)
    with table_okD(3) [OF t Some] show ?thesis
      by (auto simp: demoted_def sweep_row_def row_ok_def split: if_splits)
  qed
  ultimately show "table_ok (sweep now tk tu t)"
    using t by (simp add: table_ok_def)
qed

section \<open>Which rows are direct connections\<close>

definition conn :: "neighbor_table \<Rightarrow> string set" where
  "conn t = {k. \<exists>i. dict_get (rows t) k = Some i \<and> nb_status i = CONNECTED}"

lemma conn_new_table [simp]: "conn (new_table own) = {}"
  by (simp add: conn_def new_table_def)

lemma conn_update_row:
  "(\<And>i. nb_status (f i) = nb_status i) \<Longrightarrow> conn (update_row k f t) = conn t"
  by (auto simp: conn_def update_row_def split: option.splits if_splits)

lemma conn_touch [simp]: "conn (touch now nid t) = conn t"
  by (simp add: touch_def conn_update_row)

lemma conn_update_services [simp]: "conn (update_services nid svcs t) = conn t"
  by (simp add: update_services_def conn_update_row)

lemma conn_mark_unreachable [simp]: "conn (mark_unreachable nid t) = conn t - {canon nid}"
  by (auto simp: mark_unreachable_def conn_def update_row_def split: option.splits if_splits)

lemma conn_merge_gossip: "conn (snd (merge_gossip now ns frm t)) \<subseteq> conn t"
proof
  fix k assume "k \<in> conn (snd (merge_gossip now ns frm t))"
  then show "k \<in> conn t"
    using merge_gossip_route_change [of frm t k now ns]
    by (cases "dict_get (rows t) k") (auto simp: conn_def route_change_def route_step_def)
qed

lemma conn_sweep: "dict_ok (rows t) \<Longrightarrow> conn (sweep now tk tu t) \<subseteq> conn t"
proof
  fix k assume "dict_ok (rows t)" "k \<in> conn (sweep now tk tu t)"
  then show "k \<in> conn t"
    using sweep_get [where t = t and k = k and now = now and tk = tk and tu = tu]
    by (auto simp: conn_def demoted_simps split: option.splits if_splits)
qed

lemma conn_register: "conn (snd (register_connected now nid host port sid ver svcs role t)) \<subseteq> insert (canon nid) (conn t)"
  by (auto simp: conn_def register_connected_def split: sum.splits if_splits)

section \<open>Histories of a table\<close>

text \<open>Every way the node changes its table.\<close>

datatype nt_event =
    Ev_connected real string pyval pyval pyval pyval pyval pyval
  | Ev_known real string pyval pyval "string option" pyval pyval pyval
  | Ev_touch real string
  | Ev_unreachable string
  | Ev_services string pyval
  | Ev_gossip real pyval "string option"
  | Ev_sweep real real real

fun nt_apply :: "nt_event \<Rightarrow> neighbor_table \<Rightarrow> neighbor_table" where
  "nt_apply (Ev_connected now n h p sid v sv r) t = snd (register_connected now n h p sid v sv r t)"
| "nt_apply (Ev_known now n h p via v sv r) t = snd (register_known now n h p via v sv r t)"
| "nt_apply (Ev_touch now n) t = touch now n t"
| "nt_apply (Ev_unreachable n) t = mark_unreachable n t"
| "nt_apply (Ev_services n sv) t = update_services n sv t"
| "nt_apply (Ev_gossip now ns frm) t = snd (merge_gossip now ns frm t)"
| "nt_apply (Ev_sweep now tk tu) t = sweep now tk tu t"

inductive nt_reachable :: "string \<Rightarrow> neighbor_table \<Rightarrow> bool" for own where
  nt_init: "nt_reachable own (new_table own)"
| nt_step: "nt_reachable own t \<Longrightarrow> nt_reachable own (nt_apply e t)"

lemma nt_apply_ok: "table_ok t \<Longrightarrow> table_ok (nt_apply e t)"
  by (cases e)
    (auto simp: touch_ok mark_unreachable_ok update_services_ok sweep_ok
      intro: keepsD [OF register_connected_ok] keepsD [OF register_known_ok] keepsD [OF merge_gossip_ok])

lemma nt_reachable_ok: "nt_reachable own t \<Longrightarrow> table_ok t"
  by (induction rule: nt_reachable.induct) (auto intro: nt_apply_ok)

section \<open>Properties\<close>

text \<open>C18: Gossip respects the routing contract on every row: a direct connection is untouched, a
  distance never grows, a row whose next hop or distance changes points to the sender and got a shorter route or,
  at the same distance, comes away from an unreachable one; a new row is known through the sender and
  never has this node's own name.\<close>

theorem gossip_routing_contract:
  "route_change (map_option canon frm) (canon (own_id t)) k (dict_get (rows t) k)
     (dict_get (rows (snd (merge_gossip now ns frm t))) k)"
  by (rule merge_gossip_route_change)

text \<open>In every table the node can reach, keys are the canonical names of their rows, next hops
  are canonical, and a directly connected row has distance one and no next hop.\<close>

theorem reachable_table_invariant:
  assumes "nt_reachable own t"
  shows "distinct (map fst (rows t)) \<and>
    (\<forall>k i. dict_get (rows t) k = Some i \<longrightarrow>
       nb_id i = k \<and> canon k = k \<and> (\<forall>v. nb_via i = Some v \<longrightarrow> canon v = v)
       \<and> (nb_status i = CONNECTED \<longrightarrow> nb_via i = None \<and> nb_hops i = 1))"
  using nt_reachable_ok [OF assms] by (auto simp: table_ok_def row_ok_def dict_ok_def)

text \<open>A peer that connected and whose link was lost.\<close>

definition ex_peer_lost :: neighbor_table where
  "ex_peer_lost =
     nt_apply (Ev_unreachable ''peer'')
       (nt_apply (Ev_connected 0 ''Peer'' (PStr ''10.0.0.2'') (PInt 9000) (PStr ''s1'')
                    (PStr ''2.0'') (PList []) (PStr ''node'')) (new_table ''own''))"

theorem reachable_table_invariant_witness:
  "nt_reachable ''own'' ex_peer_lost \<and> distinct (map fst (rows ex_peer_lost))"
proof -
  have r: "nt_reachable ''own'' ex_peer_lost"
    unfolding ex_peer_lost_def by (intro nt_reachable.intros)
  with reachable_table_invariant [OF r] show ?thesis by simp
qed

text \<open>A sweep removes exactly the rows that were unreachable for longer than their limit, changes
  nothing of the others but the status, never touches a direct connection, leaves no known row
  older than its limit and no known row whose next hop was unreachable before the cascade, and
  declares a fresh row unreachable only because its next hop is.\<close>

theorem sweep_effect:
  assumes ok: "dict_ok (rows t)" and old: "dict_get (rows t) k = Some i"
  shows "if nb_status i = UNREACHABLE \<and> now - nb_last_ts i > tu then dict_get (rows (sweep now tk tu t)) k = None
    else \<exists>j. dict_get (rows (sweep now tk tu t)) k = Some j
       \<and> j = i\<lparr>nb_status := nb_status j\<rparr>
       \<and> (nb_status i = CONNECTED \<longrightarrow> j = i)
       \<and> (nb_status i = UNREACHABLE \<longrightarrow> j = i)
       \<and> (nb_status j = KNOWN \<longrightarrow> now - nb_last_ts j \<le> tk
            \<and> (\<forall>v. nb_via j = Some v \<and> v \<noteq> [] \<longrightarrow> \<not> row_dead (aged_table now tk tu t) v))
       \<and> (nb_status i = KNOWN \<and> nb_status j = UNREACHABLE \<and> now - nb_last_ts i \<le> tk \<longrightarrow>
            (\<exists>v. nb_via i = Some v \<and> row_dead (sweep now tk tu t) v))"
proof (cases "sweep_dead now tu i")
  case True
  with old sweep_get [OF ok, where k = k and now = now and tk = tk and tu = tu] show ?thesis
    by (auto simp: sweep_dead_def)
next
  case False
  with old sweep_get [OF ok, where k = k and now = now and tk = tk and tu = tu] obtain j where
    j: "dict_get (rows (sweep now tk tu t)) k = Some j" "demoted (sweep_row now tk i) j"
      "j \<noteq> sweep_row now tk i \<longrightarrow> (\<exists>v. nb_via i = Some v \<and> row_dead (sweep now tk tu t) v)"
    by auto
  have key: "k \<in> set (dict_keys (rows (aged_table now tk tu t)))"
    using False old by (simp add: set_dict_keys aged_table_get [OF ok])
  have "\<not> row_dead (aged_table now tk tu t) v"
    if "nb_status j = KNOWN" "nb_via j = Some v" "v \<noteq> []" for v
    using cascade_complete [OF key _ that] j(1) by (simp add: sweep_cascade)
  moreover have "j = i\<lparr>nb_status := nb_status j\<rparr>"
    using j(2) by (auto simp: demoted_def sweep_row_def)
  ultimately show ?thesis
    using False j by (auto simp: demoted_def sweep_row_def sweep_dead_def split: if_splits)
qed

lemma ex_peer_lost_rows:
  "rows ex_peer_lost =
     [(''peer'', \<lparr>nb_id = ''peer'', nb_host = PStr ''10.0.0.2'', nb_port = PInt 9000,
        nb_status = UNREACHABLE, nb_via = None, nb_hops = 1, nb_last_ts = 0,
        nb_session_id = PStr ''s1'', nb_version = PStr ''2.0'', nb_services = PList [],
        nb_role = PStr ''node''\<rparr>)]"
  by code_simp

theorem sweep_effect_witness:
  "dict_get (rows ex_peer_lost) ''peer'' \<noteq> None \<and> dict_get (rows (sweep 400 90 300 ex_peer_lost)) ''peer'' = None"
proof -
  obtain i where i: "dict_get (rows ex_peer_lost) ''peer'' = Some i" "nb_status i = UNREACHABLE" "nb_last_ts i = 0"
    by (simp add: ex_peer_lost_rows)
  have ok: "dict_ok (rows ex_peer_lost)"
    by (simp add: ex_peer_lost_rows dict_ok_def)
  from sweep_effect [OF ok i(1), where now = 400 and tk = 90 and tu = 300] i show ?thesis by simp
qed

text \<open>A registered peer is found under every spelling of its name, and no other row changes.\<close>

theorem register_connected_lookup:
  assumes "register_connected now nid host port sid ver svcs role t = (Ret info, t')"
  shows "nt_get t' (Some s) = (if canon s = canon nid then Some info else nt_get t (Some s))
    \<and> nb_status info = CONNECTED \<and> nb_via info = None \<and> nb_hops info = 1 \<and> nb_last_ts info = now"
  using assms
  by (auto simp: register_connected_def nt_get_def split: sum.splits dest!: make_neighbor_Inr)

theorem register_connected_lookup_witness:
  "nt_get ex_peer_lost (Some '' PEER '') \<noteq> None
   \<and> (\<exists>info t'. register_connected 5 ''PEER'' (PStr []) (PInt 9000) (PStr ''s2'') (PStr ''2.0'') (PList [])
        (PStr ''node'') ex_peer_lost = (Ret info, t') \<and> nt_get t' (Some '' Peer'') = Some info)"
proof -
  have "\<exists>info t'. register_connected 5 ''PEER'' (PStr []) (PInt 9000) (PStr ''s2'') (PStr ''2.0'') (PList [])
        (PStr ''node'') ex_peer_lost = (Ret info, t')"
    by (simp add: register_connected_def make_neighbor_def is_str_def py_or_def)
  then obtain info t' where r: "register_connected 5 ''PEER'' (PStr []) (PInt 9000) (PStr ''s2'') (PStr ''2.0'')
      (PList []) (PStr ''node'') ex_peer_lost = (Ret info, t')" by blast
  have same: "canon '' Peer'' = canon ''PEER''" "canon '' PEER '' = ''peer''" by code_simp+
  have "nt_get t' (Some '' Peer'') = Some info"
    using register_connected_lookup [OF r, of "'' Peer''"] same by simp
  moreover have "nt_get ex_peer_lost (Some '' PEER '') \<noteq> None"
    using same by (simp add: nt_get_def ex_peer_lost_rows)
  ultimately show ?thesis using r by blast
qed

section \<open>Exchanging rows\<close>

text \<open>The rows whose metadata has the declared types.\<close>

definition meta_ok :: "neighbor \<Rightarrow> bool" where
  "meta_ok n \<longleftrightarrow> is_str (nb_host n) \<and> (\<exists>p. nb_port n = PInt p) \<and> is_str (nb_version n)
     \<and> as_str_list (nb_services n) \<noteq> None \<and> is_str (nb_role n)"

text \<open>A row as the receiver of an advertisement stores it.\<close>

definition relayed :: "real \<Rightarrow> string option \<Rightarrow> neighbor \<Rightarrow> neighbor" where
  "relayed now frm n =
     n\<lparr>nb_status := KNOWN, nb_via := frm, nb_hops := nb_hops n + 1, nb_last_ts := now,
       nb_session_id := PNone\<rparr>"

lemma relayed_fields:
  "relayed now frm n =
     \<lparr>nb_id = nb_id n, nb_host = nb_host n, nb_port = nb_port n, nb_status = KNOWN, nb_via = frm,
      nb_hops = nb_hops n + 1, nb_last_ts = now, nb_session_id = PNone, nb_version = nb_version n,
      nb_services = nb_services n, nb_role = nb_role n\<rparr>"
  by (cases n) (simp add: relayed_def)

lemma dump_get [simp]:
  "get_default (neighbor_dump n) ''node_id'' v = PStr (nb_id n)"
  "get_default (neighbor_dump n) ''host'' v = nb_host n"
  "get_default (neighbor_dump n) ''port'' v = nb_port n"
  "get_default (neighbor_dump n) ''via'' v = val_opt_str (nb_via n)"
  "get_default (neighbor_dump n) ''hops'' v = PInt (nb_hops n)"
  "get_default (neighbor_dump n) ''version'' v = nb_version n"
  "get_default (neighbor_dump n) ''services'' v = nb_services n"
  "get_default (neighbor_dump n) ''role'' v = nb_role n"
  by (simp_all add: neighbor_dump_def get_default_def)

text \<open>The entry passes the loop guards of the receiver.\<close>

definition admissible :: "neighbor_table \<Rightarrow> neighbor \<Rightarrow> bool" where
  "admissible t n \<longleftrightarrow>
     canon (nb_id n) \<noteq> [] \<and> canon (nb_id n) \<noteq> canon (own_id t) \<and> nb_hops n \<noteq> 0
     \<and> (\<forall>v. nb_via n = Some v \<longrightarrow> canon v \<noteq> canon (own_id t))
     \<and> \<not> points_to_self t (dict_get (rows t) (case nb_via n of None \<Rightarrow> [] | Some v \<Rightarrow> canon v))"

lemma merge_admissible:
  assumes "admissible t n"
  shows "merge_entry now frm (PDict (neighbor_dump n)) t =
    apply_entry now frm (neighbor_dump n) (PStr (canon (nb_id n))) (nb_hops n + 1) t"
proof (cases "nb_via n")
  case None
  with assms show ?thesis
    by (simp add: merge_entry_def Let_def admissible_def row_of_val_def py_or_def)
next
  case (Some v)
  with assms show ?thesis
    by (cases v) (simp_all add: merge_entry_def Let_def admissible_def row_of_val_def py_or_def)
qed

text \<open>An advertised row and a table that knows it at a longer distance.\<close>

definition ex_row :: neighbor where
  "ex_row = \<lparr>nb_id = ''far'', nb_host = PStr ''10.0.0.9'', nb_port = PInt 9000, nb_status = CONNECTED,
     nb_via = None, nb_hops = 1, nb_last_ts = 3, nb_session_id = PStr ''s9'', nb_version = PStr ''2.0'',
     nb_services = PList [PStr ''files''], nb_role = PStr ''node''\<rparr>"

definition ex_far_table :: neighbor_table where
  "ex_far_table = (new_table ''own'')\<lparr>rows := [(''far'', (relayed 1 (Some ''old'') ex_row)\<lparr>nb_hops := 7\<rparr>)]\<rparr>"

lemma ex_names: "canon ''far'' = ''far''" "canon ''own'' = ''own''" "canon ''peer'' = ''peer''"
  by code_simp+

lemma ex_row_ok:
  "meta_ok ex_row" "canon (nb_id ex_row) = nb_id ex_row"
  "admissible (new_table ''own'') ex_row" "admissible ex_far_table ex_row"
  "dict_get (rows (new_table ''own'')) (nb_id ex_row) = None"
  by (simp_all add: ex_row_def ex_far_table_def new_table_def ex_names meta_ok_def is_str_def
      admissible_def points_to_self_def)

text \<open>A row one node advertises is stored by a node that does not know it with the same
  metadata, one hop further away, through the sender.\<close>

theorem gossip_roundtrip:
  assumes "meta_ok n" "canon (nb_id n) = nb_id n" "admissible t n" "dict_get (rows t) (nb_id n) = None"
  shows "merge_gossip now (PList [PDict (neighbor_dump n)]) frm t =
    (Ret (), t\<lparr>rows := dict_set (nb_id n) (relayed now (map_option canon frm) n) (rows t)\<rparr>)"
  using assms
  by (auto simp: merge_gossip_def act_defs merge_admissible apply_entry_def row_of_val_def
      make_neighbor_def meta_ok_def val_key_def relayed_fields)

theorem gossip_roundtrip_witness:
  "snd (merge_gossip 9 (PList [PDict (neighbor_dump ex_row)]) (Some ''Peer'') (new_table ''own''))
     = (new_table ''own'')\<lparr>rows := [(''far'', relayed 9 (Some ''peer'') ex_row)]\<rparr>"
proof -
  have "canon ''Peer'' = ''peer''" by code_simp
  then show ?thesis
    using gossip_roundtrip [OF ex_row_ok(1,2,3,5), of 9 "Some ''Peer''"]
    by (simp add: dict_set_def new_table_def) (simp add: ex_row_def)
qed

text \<open>A shorter route replaces the next hop and the distance of a row that is not directly
  connected, and brings an unreachable row back.\<close>

theorem shorter_route_adopted:
  assumes "admissible t n" "canon (nb_id n) = nb_id n" "dict_get (rows t) (nb_id n) = Some ex"
    "nb_status ex \<noteq> CONNECTED" "nb_hops n + 1 < nb_hops ex"
  shows "\<exists>t' j. merge_gossip now (PList [PDict (neighbor_dump n)]) frm t = (Ret (), t')
    \<and> nt_get t' (Some (nb_id n)) = Some j \<and> nb_via j = map_option canon frm
    \<and> nb_hops j = nb_hops n + 1 \<and> nb_status j = KNOWN \<and> nb_last_ts j = now
    \<and> nb_services j = nb_services n \<and> nb_host j = nb_host n"
  using assms
  by (cases "nb_status ex")
    (auto simp: merge_gossip_def act_defs merge_admissible apply_entry_def row_of_val_def
      val_key_def nt_get_def refresh_row_def refresh_meta_def Let_def)

theorem shorter_route_adopted_witness:
  "\<exists>t' j. merge_gossip 9 (PList [PDict (neighbor_dump ex_row)]) (Some ''peer'') ex_far_table = (Ret (), t')
     \<and> nt_get t' (Some ''far'') = Some j \<and> nb_via j = Some ''peer'' \<and> nb_hops j = 2"
proof -
  define ex where "ex = (relayed 1 (Some ''old'') ex_row)\<lparr>nb_hops := 7\<rparr>"
  have g: "dict_get (rows ex_far_table) (nb_id ex_row) = Some ex"
    by (simp add: ex_far_table_def ex_def ex_row_def)
  have st: "nb_status ex \<noteq> CONNECTED" and h: "nb_hops ex_row + 1 < nb_hops ex"
    by (simp_all add: ex_def relayed_def ex_row_def)
  show ?thesis
    using shorter_route_adopted [OF ex_row_ok(4,2) g st h, of 9 "Some ''peer''"]
    by (auto simp: ex_names) (simp add: ex_row_def)
qed

section \<open>A lost direct peer\<close>

text \<open>The distance an entry advertises, when it has one.\<close>

definition advertised_hops :: "pyval \<Rightarrow> int option" where
  "advertised_hops e =
     (case e of
        PDict d \<Rightarrow>
          (case py_int (py_or (get_default d ''hops'' PNone) (PInt 1)) of Inl _ \<Rightarrow> None | Inr h \<Rightarrow> Some h)
      | _ \<Rightarrow> None)"

lemma merge_entry_keeps_direct:
  assumes "dict_get (rows t) k = Some i" "nb_hops i = 1"
    "\<forall>h. advertised_hops e = Some h \<longrightarrow> 1 \<le> h"
  shows "\<exists>j. dict_get (rows (snd (merge_entry now frm e t))) k = Some j \<and> nb_via j = nb_via i \<and> nb_hops j = 1"
proof (rule merge_entry_applies [of now frm e t])
  fix d nid h
  assume e: "e = PDict d" and h: "py_int (py_or (get_default d ''hops'' PNone) (PInt 1)) = Inr h"
    and run: "merge_entry now frm e t = apply_entry now frm d nid (h + 1) t"
  from e h assms(3) have "1 \<le> h" by (simp add: advertised_hops_def)
  then have "nb_via (refresh_row now frm d (h + 1) i) = nb_via i \<and> nb_hops (refresh_row now frm d (h + 1) i) = 1"
    using assms(2) by (simp add: refresh_row_def Let_def)
  with assms(1,2) run show ?thesis
    by (cases nid)
      (auto simp: apply_entry_def row_of_val_def val_key_def dest!: make_neighbor_Inr
        split: option.split sum.split)
qed (use assms in auto)

text \<open>A row left by a direct connection (distance one, no next hop) never gets a next hop from
  gossip, whatever routes to that node the neighbours advertise.\<close>

theorem lost_peer_gets_no_next_hop:
  assumes "dict_get (rows t) k = Some i" "nb_hops i = 1"
    "\<forall>e\<in>set es. \<forall>h. advertised_hops e = Some h \<longrightarrow> 1 \<le> h"
  shows "\<exists>j. dict_get (rows (snd (merge_gossip now (PList es) frm t))) k = Some j
           \<and> nb_via j = nb_via i \<and> nb_hops j = 1"
  using assms
proof (induction es arbitrary: t i)
  case Nil
  then show ?case by (simp add: merge_gossip_def act_ret_def)
next
  case (Cons e es)
  obtain out u where step: "merge_entry now (map_option canon frm) e t = (out, u)"
    by fastforce
  obtain j where j: "dict_get (rows u) k = Some j" "nb_via j = nb_via i" "nb_hops j = 1"
    using merge_entry_keeps_direct [OF Cons.prems(1,2), of e now "map_option canon frm"] Cons.prems(3) step
    by auto
  from Cons.IH [OF j(1,3)] Cons.prems(3) j(2)
  have "\<exists>j. dict_get (rows (snd (merge_gossip now (PList es) frm u))) k = Some j \<and> nb_via j = nb_via i \<and> nb_hops j = 1"
    by simp
  with j step show ?case
    by (cases out) (simp_all add: merge_gossip_def act_seq_def act_bind_def)
qed

theorem lost_peer_gets_no_next_hop_witness:
  "\<exists>j. dict_get (rows (snd (merge_gossip 9
        (PList [PDict [(''node_id'', PStr ''Peer''), (''hops'', PInt 1)]]) (Some ''relay'') ex_peer_lost))) ''peer''
      = Some j \<and> nb_via j = None \<and> nb_hops j = 1"
proof -
  obtain i where i: "dict_get (rows ex_peer_lost) ''peer'' = Some i" "nb_hops i = 1" "nb_via i = None"
    by (simp add: ex_peer_lost_rows)
  have es: "\<forall>e\<in>set [PDict [(''node_id'', PStr ''Peer''), (''hops'', PInt 1)]].
      \<forall>h. advertised_hops e = Some h \<longrightarrow> 1 \<le> h"
    by (simp add: advertised_hops_def get_default_def py_or_def)
  show ?thesis
    using lost_peer_gets_no_next_hop [OF i(1,2) es, of 9 "Some ''relay''"] i(3) by simp
qed

end
