(* ===== verification/Sessions.thy ===== *)
theory Sessions
  imports Prelude
begin

text \<open>
  The table of pending requests: \<open>networking/sessions.py\<close>. Futures and queues are objects
  the caller keeps after the table forgets them, so the table holds references into an explicit
  store of futures and queues. The interface the router relies on is the locale
  \<open>request_table\<close>; \<open>sess\<close> is its interpretation on the code's operations.
\<close>

section \<open>State and operations\<close>

datatype session = S_Future nat | S_Queue nat

datatype fut = Pending | Done pyval | Cancelled

record session_table =
  s_table :: "(string, session) dict"
  s_meta :: "(string, string option \<times> string option) dict"
  s_futs :: "(nat, fut) dict"
  s_queues :: "(nat, pyval list) dict"
  s_next :: nat

definition new_sessions :: session_table where
  "new_sessions = \<lparr>s_table = [], s_meta = [], s_futs = [], s_queues = [], s_next = 0\<rparr>"

definition register_single ::
  "string \<Rightarrow> string option \<Rightarrow> string option \<Rightarrow> session_table \<Rightarrow> nat \<times> session_table" where
  "register_single lbl svc meth st =
     (let f = s_next st
      in (f, st\<lparr>s_table := dict_set lbl (S_Future f) (s_table st),
                s_meta := dict_set lbl (svc, meth) (s_meta st),
                s_futs := dict_set f Pending (s_futs st),
                s_next := Suc f\<rparr>))"

definition resolve :: "string \<Rightarrow> pyval \<Rightarrow> session_table \<Rightarrow> session_table" where
  "resolve lbl v st =
     (case dict_get (s_table st) lbl of
        None \<Rightarrow> st
      | Some (S_Future f) \<Rightarrow>
          if dict_get (s_futs st) f = Some Pending
          then st\<lparr>s_futs := dict_set f (Done v) (s_futs st),
                  s_table := dict_pop lbl (s_table st),
                  s_meta := dict_pop lbl (s_meta st)\<rparr>
          else st
      | Some (S_Queue q) \<Rightarrow>
          st\<lparr>s_queues := dict_set q (get_default (s_queues st) q [] @ [v]) (s_queues st)\<rparr>)"

text \<open>A queue session is drained and its consumer gets \<open>None\<close>.\<close>

definition cancel :: "string \<Rightarrow> session_table \<Rightarrow> session_table" where
  "cancel lbl st =
     (let st' = st\<lparr>s_meta := dict_pop lbl (s_meta st), s_table := dict_pop lbl (s_table st)\<rparr>
      in case dict_get (s_table st) lbl of
           None \<Rightarrow> st'
         | Some (S_Future f) \<Rightarrow>
             if dict_get (s_futs st) f = Some Pending
             then st'\<lparr>s_futs := dict_set f Cancelled (s_futs st)\<rparr> else st'
         | Some (S_Queue q) \<Rightarrow> st'\<lparr>s_queues := dict_set q [PNone] (s_queues st)\<rparr>)"

definition service_labels :: "string \<Rightarrow> session_table \<Rightarrow> string list" where
  "service_labels svc st = map fst (filter (\<lambda>(l, m). fst m = Some svc) (s_meta st))"

definition cancel_by_service :: "string \<Rightarrow> session_table \<Rightarrow> nat \<times> session_table" where
  "cancel_by_service svc st =
     (length (service_labels svc st), fold cancel (service_labels svc st) st)"

text \<open>The event loop cancels a future whose waiter timed out; the table is not told.\<close>

definition expire :: "nat \<Rightarrow> session_table \<Rightarrow> session_table" where
  "expire f st =
     (if dict_get (s_futs st) f = Some Pending
      then st\<lparr>s_futs := dict_set f Cancelled (s_futs st)\<rparr> else st)"

definition fut_state :: "session_table \<Rightarrow> nat \<Rightarrow> fut option" where
  "fut_state st f = dict_get (s_futs st) f"

definition waits_on :: "session_table \<Rightarrow> string \<Rightarrow> nat option" where
  "waits_on st lbl =
     (case dict_get (s_table st) lbl of Some (S_Future f) \<Rightarrow> Some f | _ \<Rightarrow> None)"

section \<open>Well-formed tables\<close>

text \<open>
  Futures are allocated below the counter, no two labels share one, and every label with
  metadata is in the table.
\<close>

definition sess_ok :: "session_table \<Rightarrow> bool" where
  "sess_ok st \<longleftrightarrow>
     dict_ok (s_table st) \<and> dict_ok (s_meta st)
     \<and> (\<forall>f s. fut_state st f = Some s \<longrightarrow> f < s_next st)
     \<and> (\<forall>l f. waits_on st l = Some f \<longrightarrow> fut_state st f \<noteq> None)
     \<and> (\<forall>l l' f. waits_on st l = Some f \<longrightarrow> waits_on st l' = Some f \<longrightarrow> l = l')
     \<and> (\<forall>l. dict_get (s_meta st) l \<noteq> None \<longrightarrow> dict_get (s_table st) l \<noteq> None)"

lemma sess_okI:
  assumes "dict_ok (s_table st)" "dict_ok (s_meta st)"
    "\<And>f s. fut_state st f = Some s \<Longrightarrow> f < s_next st"
    "\<And>l f. waits_on st l = Some f \<Longrightarrow> fut_state st f \<noteq> None"
    "\<And>l l' f. waits_on st l = Some f \<Longrightarrow> waits_on st l' = Some f \<Longrightarrow> l = l'"
    "\<And>l. dict_get (s_table st) l = None \<Longrightarrow> dict_get (s_meta st) l = None"
  shows "sess_ok st"
  unfolding sess_ok_def by (intro conjI allI impI; use assms in metis)

lemma sess_okD:
  assumes "sess_ok st"
  shows "dict_ok (s_table st)" "dict_ok (s_meta st)"
    and "fut_state st f = Some s \<Longrightarrow> f < s_next st"
    and "waits_on st l = Some f \<Longrightarrow> fut_state st f \<noteq> None"
    and "waits_on st l = Some f \<Longrightarrow> waits_on st l' = Some f \<Longrightarrow> l = l'"
    and "dict_get (s_table st) l = None \<Longrightarrow> dict_get (s_meta st) l = None"
  using assms unfolding sess_ok_def by blast+

lemma waits_on_less: "sess_ok st \<Longrightarrow> waits_on st l = Some f \<Longrightarrow> f < s_next st"
  using sess_okD(3,4) by blast

lemma waits_on_register [simp]:
  "waits_on (snd (register_single lbl svc m st)) l = (if l = lbl then Some (s_next st) else waits_on st l)"
  by (simp add: register_single_def waits_on_def Let_def)

lemma fut_register [simp]:
  "fut_state (snd (register_single lbl svc m st)) f = (if f = s_next st then Some Pending else fut_state st f)"
  by (simp add: register_single_def fut_state_def Let_def)

lemma fst_register [simp]: "fst (register_single lbl svc m st) = s_next st"
  by (simp add: register_single_def Let_def)

lemma waits_on_resolve:
  "waits_on (resolve lbl v st) l =
     (if l = lbl \<and> (\<exists>f. waits_on st lbl = Some f \<and> fut_state st f = Some Pending) then None
      else waits_on st l)"
  by (auto simp: resolve_def waits_on_def fut_state_def split: option.split session.split)

lemma fut_resolve:
  "fut_state (resolve lbl v st) f =
     (if waits_on st lbl = Some f \<and> fut_state st f = Some Pending then Some (Done v) else fut_state st f)"
  by (auto simp: resolve_def waits_on_def fut_state_def split: option.split session.split)

lemma waits_on_cancel [simp]: "waits_on (cancel lbl st) l = (if l = lbl then None else waits_on st l)"
  by (auto simp: cancel_def waits_on_def Let_def split: option.split session.split)

lemma fut_cancel:
  "fut_state (cancel lbl st) f =
     (if waits_on st lbl = Some f \<and> fut_state st f = Some Pending then Some Cancelled else fut_state st f)"
  by (auto simp: cancel_def waits_on_def fut_state_def Let_def split: option.split session.split)

lemma waits_on_expire [simp]: "waits_on (expire f st) l = waits_on st l"
  by (simp add: expire_def waits_on_def)

lemma fut_expire:
  "fut_state (expire f st) g = (if g = f \<and> fut_state st f = Some Pending then Some Cancelled else fut_state st g)"
  by (simp add: expire_def fut_state_def)

lemma s_next_simps [simp]:
  "s_next (snd (register_single lbl svc m st)) = Suc (s_next st)"
  "s_next (resolve lbl v st) = s_next st"
  "s_next (cancel lbl st) = s_next st"
  "s_next (expire f st) = s_next st"
  by (simp_all add: register_single_def resolve_def cancel_def expire_def Let_def
      split: option.split session.split)

lemma expire_tables [simp]:
  "s_table (expire f st) = s_table st"
  "s_meta (expire f st) = s_meta st"
  by (simp_all add: expire_def)

lemma new_sessions_ok [simp, intro]: "sess_ok new_sessions"
  by (simp add: sess_ok_def new_sessions_def waits_on_def fut_state_def)

lemma register_ok:
  assumes "sess_ok st"
  shows "sess_ok (snd (register_single lbl svc m st))"
proof (rule sess_okI)
  fix l l' f
  assume "waits_on (snd (register_single lbl svc m st)) l = Some f"
    and "waits_on (snd (register_single lbl svc m st)) l' = Some f"
  then show "l = l'"
    using waits_on_less [OF assms, of l] waits_on_less [OF assms, of l'] sess_okD(5) [OF assms]
    by (auto split: if_splits)
qed (use sess_okD [OF assms] waits_on_less [OF assms] in
      \<open>auto simp: less_Suc_eq split: if_splits\<close>,
     auto simp: register_single_def Let_def less_Suc_eq split: if_splits)

lemma resolve_ok:
  assumes "sess_ok st"
  shows "sess_ok (resolve lbl v st)"
proof (rule sess_okI)
  show "f < s_next (resolve lbl v st)" if "fut_state (resolve lbl v st) f = Some s" for f s
    using that sess_okD(3) [OF assms, of f]
    by (auto simp: fut_resolve split: if_splits)
qed (use sess_okD [OF assms] in
      \<open>auto simp: fut_resolve waits_on_resolve split: if_splits\<close>,
     auto simp: resolve_def split: option.splits session.splits if_splits)

lemma cancel_ok:
  assumes "sess_ok st"
  shows "sess_ok (cancel lbl st)"
proof (rule sess_okI)
  show "f < s_next (cancel lbl st)" if "fut_state (cancel lbl st) f = Some s" for f s
    using that sess_okD(3) [OF assms, of f]
    by (auto simp: fut_cancel split: if_splits)
qed (use sess_okD [OF assms] in \<open>auto simp: fut_cancel split: if_splits\<close>,
     auto simp: cancel_def Let_def split: option.splits session.splits if_splits)

lemma expire_ok:
  assumes "sess_ok st"
  shows "sess_ok (expire f st)"
proof (rule sess_okI)
  show "g < s_next (expire f st)" if "fut_state (expire f st) g = Some s" for g s
    using that sess_okD(3) [OF assms] by (auto simp: fut_expire split: if_splits)
qed (use sess_okD [OF assms] in \<open>auto simp: fut_expire split: if_splits\<close>)

section \<open>The request interface\<close>

text \<open>
  What a caller relies on: opening a request gives a fresh pending answer under its label,
  answers and cancellations of other labels do not disturb it, and an answer is final.
\<close>

locale request_table =
  fixes open_req :: "'l \<Rightarrow> 's \<Rightarrow> 'f \<times> 's"
    and answer :: "'l \<Rightarrow> 'd \<Rightarrow> 's \<Rightarrow> 's"
    and drop_req :: "'l \<Rightarrow> 's \<Rightarrow> 's"
    and waiting :: "'s \<Rightarrow> 'l \<Rightarrow> 'f option"
    and pending :: "'s \<Rightarrow> 'f \<Rightarrow> bool"
    and result :: "'s \<Rightarrow> 'f \<Rightarrow> 'd option"
    and ok :: "'s \<Rightarrow> bool"
  assumes open_ok: "ok s \<Longrightarrow> open_req l s = (f, s') \<Longrightarrow> ok s' \<and> waiting s' l = Some f \<and> pending s' f"
    and answer_ok: "ok s \<Longrightarrow> ok (answer l v s)"
    and drop_ok: "ok s \<Longrightarrow> ok (drop_req l s)"
    and answer_delivers: "ok s \<Longrightarrow> waiting s l = Some f \<Longrightarrow> pending s f \<Longrightarrow>
      waiting (answer l v s) l = None \<and> result (answer l v s) f = Some v"
    and answer_other: "ok s \<Longrightarrow> waiting s l = Some f \<Longrightarrow> l' \<noteq> l \<Longrightarrow>
      waiting (answer l' v s) l = Some f \<and> (pending (answer l' v s) f \<longleftrightarrow> pending s f)"
    and drop_other: "ok s \<Longrightarrow> waiting s l = Some f \<Longrightarrow> l' \<noteq> l \<Longrightarrow>
      waiting (drop_req l' s) l = Some f \<and> (pending (drop_req l' s) f \<longleftrightarrow> pending s f)"
    and answer_final: "result s f = Some v \<Longrightarrow> result (answer l w s) f = Some v"
    and drop_final: "result s f = Some v \<Longrightarrow> result (drop_req l s) f = Some v"
begin

lemma drops_other:
  assumes "ok s" "waiting s l = Some f" "l \<notin> set ls"
  shows "ok (fold drop_req ls s) \<and> waiting (fold drop_req ls s) l = Some f
    \<and> (pending (fold drop_req ls s) f \<longleftrightarrow> pending s f)"
  using assms
proof (induction ls arbitrary: s)
  case (Cons k ls)
  then have "ok (drop_req k s)" "waiting (drop_req k s) l = Some f" "pending (drop_req k s) f \<longleftrightarrow> pending s f"
    using drop_other [of s l f k] drop_ok by auto
  with Cons.IH [of "drop_req k s"] Cons.prems(3) show ?case by simp
qed simp

lemma drops_final: "result s f = Some v \<Longrightarrow> result (fold drop_req ls s) f = Some v"
  by (induction ls arbitrary: s) (auto intro: drop_final)

end

definition fut_result :: "session_table \<Rightarrow> nat \<Rightarrow> pyval option" where
  "fut_result st f = (case fut_state st f of Some (Done v) \<Rightarrow> Some v | _ \<Rightarrow> None)"

interpretation sess: request_table
  "\<lambda>l. register_single l svc meth" resolve cancel waits_on "\<lambda>st f. fut_state st f = Some Pending"
  fut_result sess_ok
proof
  fix s l f s' assume "sess_ok s" "register_single l svc meth s = (f, s')"
  then show "sess_ok s' \<and> waits_on s' l = Some f \<and> fut_state s' f = Some Pending"
    using register_ok [of s l svc meth] waits_on_register [of l svc meth s l] fut_register [of l svc meth s f]
      fst_register [of l svc meth s]
    by simp
next
  fix s l f l' v assume s: "sess_ok s" "waits_on s l = Some f" "l' \<noteq> l"
  then have "waits_on s l' \<noteq> Some f"
    using sess_okD(5) by blast
  then show "waits_on (resolve l' v s) l = Some f \<and>
      (fut_state (resolve l' v s) f = Some Pending \<longleftrightarrow> fut_state s f = Some Pending)"
    and "waits_on (cancel l' s) l = Some f \<and>
      (fut_state (cancel l' s) f = Some Pending \<longleftrightarrow> fut_state s f = Some Pending)"
    using s by (auto simp: waits_on_resolve fut_resolve fut_cancel)
qed (auto simp: resolve_ok cancel_ok waits_on_resolve fut_resolve fut_cancel fut_result_def
      split: option.splits fut.splits if_splits)

section \<open>Histories\<close>

datatype sess_event =
    Se_register string "string option" "string option"
  | Se_resolve string pyval
  | Se_cancel string
  | Se_cancel_service string
  | Se_expire nat

fun sess_apply :: "sess_event \<Rightarrow> session_table \<Rightarrow> session_table" where
  "sess_apply (Se_register l svc m) st = snd (register_single l svc m st)"
| "sess_apply (Se_resolve l v) st = resolve l v st"
| "sess_apply (Se_cancel l) st = cancel l st"
| "sess_apply (Se_cancel_service svc) st = snd (cancel_by_service svc st)"
| "sess_apply (Se_expire f) st = expire f st"

inductive sess_reachable :: "session_table \<Rightarrow> bool" where
  sess_init: "sess_reachable new_sessions"
| sess_step: "sess_reachable st \<Longrightarrow> sess_reachable (sess_apply e st)"

lemma fold_cancel_ok: "sess_ok st \<Longrightarrow> sess_ok (fold cancel ls st)"
  by (induction ls arbitrary: st) (simp_all add: cancel_ok)

lemma sess_apply_ok: "sess_ok st \<Longrightarrow> sess_ok (sess_apply e st)"
  by (cases e) (simp_all add: register_ok resolve_ok cancel_ok expire_ok cancel_by_service_def fold_cancel_ok)

lemma sess_reachable_ok: "sess_reachable st \<Longrightarrow> sess_ok st"
  by (induction rule: sess_reachable.induct) (auto intro: sess_apply_ok)

lemma cancel_tables [simp]:
  "s_table (cancel l st) = dict_pop l (s_table st)"
  "s_meta (cancel l st) = dict_pop l (s_meta st)"
  by (simp_all add: cancel_def Let_def split: option.split session.split)

lemma fold_cancel_tables:
  "s_table (fold cancel ls st) = fold dict_pop ls (s_table st)"
  "s_meta (fold cancel ls st) = fold dict_pop ls (s_meta st)"
  by (induction ls arbitrary: st) simp_all

lemma service_labels_iff:
  "sess_ok st \<Longrightarrow> l \<in> set (service_labels svc st) \<longleftrightarrow> (\<exists>m. dict_get (s_meta st) l = Some (Some svc, m))"
  by (force simp: service_labels_def dict_in_set_iff [symmetric] sess_okD(2))

section \<open>What becomes of a request\<close>

text \<open>
  The caller's future after a sequence of events: the first event that concerns its label, its
  service or the future itself decides it. A second registration under the same label takes the
  label away: no answer reaches the first caller any more, only its own time limit.
\<close>

fun fate :: "string \<Rightarrow> string option \<Rightarrow> nat \<Rightarrow> sess_event list \<Rightarrow> fut" where
  "fate l svc f [] = Pending"
| "fate l svc f (Se_resolve l' v # es) = (if l' = l then Done v else fate l svc f es)"
| "fate l svc f (Se_cancel l' # es) = (if l' = l then Cancelled else fate l svc f es)"
| "fate l svc f (Se_cancel_service s # es) = (if svc = Some s then Cancelled else fate l svc f es)"
| "fate l svc f (Se_expire g # es) = (if g = f then Cancelled else fate l svc f es)"
| "fate l svc f (Se_register l' s m # es) =
     (if l' = l then (if Se_expire f \<in> set es then Cancelled else Pending) else fate l svc f es)"

lemma fut_fold_cancel:
  "fut_state (fold cancel ls st) f =
     (if (\<exists>l\<in>set ls. waits_on st l = Some f) \<and> fut_state st f = Some Pending then Some Cancelled else fut_state st f)"
  by (induction ls arbitrary: st) (auto simp: fut_cancel)

lemma waits_on_fold_cancel: "waits_on (fold cancel ls st) l = (if l \<in> set ls then None else waits_on st l)"
  by (induction ls arbitrary: st) auto

lemma meta_fold_cancel: "dict_get (fold dict_pop ls d) l = (if l \<in> set ls then None else dict_get d l)"
  by (simp add: dict.lookup_fold_remove)

lemma s_next_fold_cancel: "s_next (fold cancel ls st) = s_next st"
  by (induction ls arbitrary: st) simp_all

text \<open>A settled future stays as it is.\<close>

lemma apply_settled:
  assumes "sess_ok st" "fut_state st f = Some x" "x \<noteq> Pending"
  shows "fut_state (sess_apply e st) f = Some x"
  using assms sess_okD(3) [OF assms(1,2)]
  by (cases e) (auto simp: fut_resolve fut_cancel fut_expire cancel_by_service_def fut_fold_cancel)

lemma settled_stays:
  assumes "sess_ok st" "fut_state st f = Some x" "x \<noteq> Pending"
  shows "fut_state (fold sess_apply es st) f = Some x"
  using assms by (induction es arbitrary: st) (simp_all add: apply_settled sess_apply_ok)

text \<open>A future no label waits on is never waited on again.\<close>

lemma apply_lost:
  assumes "sess_ok st" "f < s_next st" "\<forall>l. waits_on st l \<noteq> Some f"
  shows "f < s_next (sess_apply e st) \<and> (\<forall>l. waits_on (sess_apply e st) l \<noteq> Some f)"
  using assms
  by (cases e) (auto simp: waits_on_resolve cancel_by_service_def waits_on_fold_cancel s_next_fold_cancel)

lemma lost_stays:
  assumes "sess_ok st" "f < s_next st" "\<forall>l. waits_on st l \<noteq> Some f"
  shows "waits_on (fold sess_apply es st) l \<noteq> Some f"
  using assms
proof (induction es arbitrary: st)
  case (Cons e es)
  then show ?case using apply_lost [OF Cons.prems, of e] sess_apply_ok [OF Cons.prems(1), of e] by simp
qed simp

lemma lost_fate:
  assumes "sess_ok st" "fut_state st f = Some Pending" "\<forall>l. waits_on st l \<noteq> Some f"
  shows "fut_state (fold sess_apply es st) f = Some (if Se_expire f \<in> set es then Cancelled else Pending)"
  using assms
proof (induction es arbitrary: st)
  case (Cons e es)
  have lt: "f < s_next st" using sess_okD(3) [OF Cons.prems(1,2)] .
  note ok = sess_apply_ok [OF Cons.prems(1), of e] and lost = apply_lost [OF Cons.prems(1) lt Cons.prems(3), of e]
  show ?case
  proof (cases "e = Se_expire f")
    case True
    then have "fut_state (sess_apply e st) f = Some Cancelled" using Cons.prems(2) by (simp add: fut_expire)
    from settled_stays [OF ok this, of es] True show ?thesis by simp
  next
    case False
    then have "fut_state (sess_apply e st) f = Some Pending"
      using Cons.prems(2,3) lt
      by (cases e) (auto simp: fut_resolve fut_cancel fut_expire cancel_by_service_def fut_fold_cancel)
    with Cons.IH [OF ok] lost False show ?thesis by auto
  qed
qed simp

text \<open>While the label waits on the future, an event either leaves it waiting or decides it.\<close>

definition open_request :: "string \<Rightarrow> string option \<Rightarrow> nat \<Rightarrow> session_table \<Rightarrow> bool" where
  "open_request l svc f st \<longleftrightarrow> sess_ok st \<and> waits_on st l = Some f \<and> fut_state st f = Some Pending
     \<and> (\<exists>m. dict_get (s_meta st) l = Some (svc, m))"

lemma register_opens:
  assumes "sess_ok st" "register_single l svc m st = (f, st')"
  shows "open_request l svc f st'"
  using sess.open_ok [OF assms] assms(2)
  by (auto simp: open_request_def register_single_def Let_def)

lemma open_request_other:
  assumes "open_request l svc f st"
    "\<And>v. e \<noteq> Se_resolve l v" "e \<noteq> Se_cancel l" "\<And>s. svc = Some s \<Longrightarrow> e \<noteq> Se_cancel_service s"
    "e \<noteq> Se_expire f" "\<And>s m. e \<noteq> Se_register l s m"
  shows "open_request l svc f (sess_apply e st)"
proof -
  from assms(1) obtain m where o: "sess_ok st" "waits_on st l = Some f" "fut_state st f = Some Pending"
    "dict_get (s_meta st) l = Some (svc, m)"
    by (auto simp: open_request_def)
  have "waits_on (sess_apply e st) l = Some f \<and> fut_state (sess_apply e st) f = Some Pending
      \<and> dict_get (s_meta (sess_apply e st)) l = Some (svc, m)"
  proof (cases e)
    case (Se_register l' s' m')
    with assms(6) have "l' \<noteq> l" by blast
    moreover have "f < s_next st" using waits_on_less [OF o(1,2)] .
    ultimately show ?thesis using o Se_register
      by simp (simp add: register_single_def Let_def)
  next
    case (Se_resolve l' v)
    with assms(2) have "l' \<noteq> l" by blast
    with sess.answer_other [OF o(1,2), of l' v] o Se_resolve show ?thesis
      by simp (simp add: resolve_def split: option.split session.split)
  next
    case (Se_cancel l')
    with assms(3) have "l' \<noteq> l" by blast
    with sess.drop_other [OF o(1,2), of l'] o Se_cancel show ?thesis by simp
  next
    case (Se_cancel_service s)
    with assms(4) o(4) have "l \<notin> set (service_labels s st)"
      by (auto simp: service_labels_iff [OF o(1)])
    with sess.drops_other [OF o(1,2) this] o Se_cancel_service show ?thesis
      by (simp add: cancel_by_service_def fold_cancel_tables meta_fold_cancel)
  next
    case (Se_expire g)
    with assms(5) o show ?thesis by (simp add: fut_expire)
  qed
  with sess_apply_ok [OF o(1)] show ?thesis by (auto simp: open_request_def)
qed

lemma resolved_is_gone:
  assumes "open_request l svc f st"
  shows "fut_state (resolve l v st) f = Some (Done v)" "waits_on (resolve l v st) l' \<noteq> Some f"
  using assms sess_okD(5) [of st l' f l]
  by (auto simp: open_request_def fut_resolve waits_on_resolve)

lemma request_fate:
  assumes "open_request l svc f st"
  shows "fut_state (fold sess_apply es st) f = Some (fate l svc f es)
    \<and> (\<forall>v l'. fate l svc f es = Done v \<longrightarrow> waits_on (fold sess_apply es st) l' \<noteq> Some f)"
  using assms
proof (induction es arbitrary: st)
  case Nil
  then show ?case by (simp add: open_request_def)
next
  case (Cons e es)
  have o: "sess_ok st" "waits_on st l = Some f" "fut_state st f = Some Pending"
    using Cons.prems by (simp_all add: open_request_def)
  note ok = sess_apply_ok [OF o(1), of e]
  have cancelled: ?case if "fate l svc f (e # es) = Cancelled" "fut_state (sess_apply e st) f = Some Cancelled"
    using settled_stays [OF ok that(2), of es] that(1) by simp
  consider (first) v where "e = Se_resolve l v" | (cancel) "e = Se_cancel l"
    | (service) s where "svc = Some s" "e = Se_cancel_service s" | (limit) "e = Se_expire f"
    | (again) s m where "e = Se_register l s m"
    | (other) "\<And>v. e \<noteq> Se_resolve l v" "e \<noteq> Se_cancel l" "\<And>s. svc = Some s \<Longrightarrow> e \<noteq> Se_cancel_service s"
        "e \<noteq> Se_expire f" "\<And>s m. e \<noteq> Se_register l s m"
    by blast
  then show ?case
  proof cases
    case first
    have s: "fut_state (sess_apply e st) f = Some (Done v)" "\<forall>l'. waits_on (sess_apply e st) l' \<noteq> Some f"
      using resolved_is_gone [OF Cons.prems] first by simp_all
    have "f < s_next (sess_apply e st)" using sess_okD(3) [OF ok s(1)] .
    with settled_stays [OF ok s(1), of es] lost_stays [OF ok _ s(2), of es] first show ?thesis by simp
  next
    case cancel
    with o show ?thesis by (intro cancelled) (simp_all add: fut_cancel)
  next
    case service
    then have "l \<in> set (service_labels s st)"
      using Cons.prems service_labels_iff [OF o(1)] by (auto simp: open_request_def)
    with service o show ?thesis
      by (intro cancelled) (auto simp: cancel_by_service_def fut_fold_cancel)
  next
    case limit
    with o show ?thesis by (intro cancelled) (simp_all add: fut_expire)
  next
    case again
    have "f < s_next st" using waits_on_less [OF o(1,2)] .
    then have p: "fut_state (sess_apply e st) f = Some Pending" using o(3) again by simp
    have "waits_on (sess_apply e st) l' \<noteq> Some f" for l'
      using sess_okD(5) [OF o(1) _ o(2), of l'] waits_on_less [OF o(1,2)] again by auto
    then have "\<forall>l'. waits_on (sess_apply e st) l' \<noteq> Some f" by simp
    from lost_fate [OF ok p this, of es] again show ?thesis by simp
  next
    case other
    from open_request_other [OF Cons.prems other] Cons.IH
    have "fut_state (fold sess_apply es (sess_apply e st)) f = Some (fate l svc f es)
      \<and> (\<forall>v l'. fate l svc f es = Done v \<longrightarrow> waits_on (fold sess_apply es (sess_apply e st)) l' \<noteq> Some f)" by blast
    moreover have "fate l svc f (e # es) = fate l svc f es" using other by (cases e) auto
    ultimately show ?thesis by simp
  qed
qed

section \<open>Properties\<close>

text \<open>C31: What a caller gets for its request is decided once, by the first event that concerns it.
  Whatever other requests, answers, cancellations and time limits come before and after, the
  caller's future holds the first answer to its label if that comes first, and is cancelled if its
  label or its service is cancelled or its time limit passes first; nothing later changes it, and an
  answered request is no longer waited on. Only when the label is registered again before any of
  this does the answer not reach the first caller, who then waits for its own time limit.\<close>

theorem reply_delivered_once:
  assumes "sess_ok st" "register_single l svc m st = (f, st')"
  shows "fut_state (fold sess_apply es st') f = Some (fate l svc f es)
    \<and> (\<forall>v l'. fate l svc f es = Done v \<longrightarrow> waits_on (fold sess_apply es st') l' \<noteq> Some f)"
  by (rule request_fate [OF register_opens [OF assms]])

theorem reply_delivered_once_witness:
  "fut_state (fold sess_apply [Se_resolve ''a'' (PInt 1), Se_cancel_service ''files'', Se_resolve ''b'' (PInt 2),
        Se_cancel ''b'', Se_expire 1, Se_resolve ''b'' (PInt 3)]
      (snd (register_single ''b'' None None (snd (register_single ''a'' None None new_sessions))))) 1
   = Some (Done (PInt 2))"
proof -
  let ?s = "snd (register_single ''a'' None None new_sessions)"
  have ok: "sess_ok ?s" by (simp add: register_ok)
  have r: "register_single ''b'' None None ?s = (1, snd (register_single ''b'' None None ?s))"
    by (simp add: register_single_def new_sessions_def Let_def)
  show ?thesis
    using reply_delivered_once [OF ok r, of "[Se_resolve ''a'' (PInt 1), Se_cancel_service ''files'',
        Se_resolve ''b'' (PInt 2), Se_cancel ''b'', Se_expire 1, Se_resolve ''b'' (PInt 3)]"] by simp
qed

text \<open>In every reachable session table the references are consistent: a waiting label refers to an
  allocated future, no two labels share one, and no label keeps metadata after it left the table.\<close>

theorem sessions_never_leak:
  assumes "sess_reachable st"
  shows "(\<forall>l. dict_get (s_meta st) l \<noteq> None \<longrightarrow> dict_get (s_table st) l \<noteq> None)
    \<and> (\<forall>l f. waits_on st l = Some f \<longrightarrow> fut_state st f \<noteq> None)
    \<and> (\<forall>l l' f. waits_on st l = Some f \<and> waits_on st l' = Some f \<longrightarrow> l = l')"
  using sess_reachable_ok [OF assms] by (simp add: sess_ok_def)

theorem sessions_never_leak_witness:
  "sess_reachable (sess_apply (Se_resolve ''a'' PNone) (sess_apply (Se_register ''a'' None None) new_sessions))
   \<and> s_meta (sess_apply (Se_resolve ''a'' PNone) (sess_apply (Se_register ''a'' None None) new_sessions)) = []"
proof -
  let ?s = "sess_apply (Se_resolve ''a'' PNone) (sess_apply (Se_register ''a'' None None) new_sessions)"
  have r: "sess_reachable ?s" by (intro sess_reachable.intros)
  have "dict_get (s_meta ?s) l = None" for l
    using sessions_never_leak [OF r]
    by (auto simp: register_single_def resolve_def new_sessions_def Let_def dict_set_def dict_pop_def)
  moreover have "s_meta ?s = []"
    by (simp add: register_single_def resolve_def new_sessions_def Let_def dict_set_def dict_pop_def)
  ultimately show ?thesis using r by simp
qed

text \<open>Cancelling by service removes exactly the requests of that service, and returns how many there
  were; the requests of other services keep waiting.\<close>

theorem cancel_by_service_exact:
  assumes "sess_ok st" "cancel_by_service svc st = (n, st')"
  shows "n = card {l. \<exists>m. dict_get (s_meta st) l = Some (Some svc, m)}
    \<and> (\<forall>l. waits_on st' l = (if \<exists>m. dict_get (s_meta st) l = Some (Some svc, m) then None else waits_on st l))
    \<and> (\<forall>l. dict_get (s_meta st') l =
          (if \<exists>m. dict_get (s_meta st) l = Some (Some svc, m) then None else dict_get (s_meta st) l))"
proof -
  let ?ls = "service_labels svc st"
  have set: "set ?ls = {l. \<exists>m. dict_get (s_meta st) l = Some (Some svc, m)}"
    using service_labels_iff [OF assms(1)] by blast
  have "distinct ?ls"
    using sess_okD(2) [OF assms(1)] by (simp add: service_labels_def dict_ok_def distinct_map_filter)
  moreover have n: "n = length ?ls" and st': "st' = fold cancel ?ls st"
    using assms(2) by (simp_all add: cancel_by_service_def)
  ultimately have "n = card (set ?ls)" by (simp add: distinct_card)
  moreover have "waits_on st' l = (if l \<in> set ?ls then None else waits_on st l)" for l
    by (simp add: st' waits_on_def fold_cancel_tables dict.lookup_fold_remove)
  moreover have "dict_get (s_meta st') l = (if l \<in> set ?ls then None else dict_get (s_meta st) l)" for l
    by (simp add: st' fold_cancel_tables dict.lookup_fold_remove)
  ultimately show ?thesis by (simp add: set)
qed

text \<open>Two requests of one service and one of another.\<close>

definition ex_sessions :: session_table where
  "ex_sessions =
     snd (register_single ''c'' (Some ''files'') None
       (snd (register_single ''b'' (Some ''nmap'') None
         (snd (register_single ''a'' (Some ''files'') None new_sessions)))))"

theorem cancel_by_service_exact_witness:
  "\<exists>st'. cancel_by_service ''files'' ex_sessions = (2, st') \<and> waits_on st' ''a'' = None
     \<and> waits_on st' ''b'' = Some 1 \<and> waits_on st' ''c'' = None"
proof -
  have ok: "sess_ok ex_sessions" by (simp add: ex_sessions_def register_ok)
  obtain n st' where r: "cancel_by_service ''files'' ex_sessions = (n, st')" by fastforce
  have "n = 2"
    using r by (simp add: cancel_by_service_def service_labels_def ex_sessions_def register_single_def
        new_sessions_def Let_def dict_set_def)
  moreover have "dict_get (s_meta ex_sessions) ''a'' = Some (Some ''files'', None)"
    "dict_get (s_meta ex_sessions) ''b'' = Some (Some ''nmap'', None)"
    "dict_get (s_meta ex_sessions) ''c'' = Some (Some ''files'', None)" "waits_on ex_sessions ''b'' = Some 1"
    by (simp_all add: ex_sessions_def register_single_def new_sessions_def Let_def waits_on_def)
  ultimately show ?thesis
    using cancel_by_service_exact [OF ok r] r by auto
qed

end
