(* ===== verification/Services.thy ===== *)
theory Services
  imports Protocol
begin

text \<open>
  The registry of services of a node: the discovery of decorated methods
  (\<open>services/rpc.py\<close>), the two-level table of \<open>services/manager.py\<close> and the call of a local
  method (\<open>LocalExecutor.execute\<close> of \<open>internal_modules/executor.py\<close>).

  A service object is its name and the attributes of its class in the order of \<open>dir\<close>. What a
  method does is the parameter \<open>invoke\<close>: the service, the attribute and the arguments to a
  value, an exception, or the items of an asynchronous generator and how it ended.
\<close>

section \<open>Decorated methods\<close>

record attr =
  at_name :: string
  at_callable :: bool
  at_rpc :: bool
  at_generator :: bool
  at_wrapper :: "string option"
  at_consumer :: "string option"
  at_params :: bool

record service_obj =
  sv_name :: string
  sv_attrs :: "attr list"

text \<open>A bound method: the service name, the attribute and whether it takes the data.\<close>

datatype bound = Bound string string bool

definition bind_attr :: "service_obj \<Rightarrow> attr \<Rightarrow> bound" where
  "bind_attr s a = Bound (sv_name s) (at_name a) (at_params a)"

definition public_attr :: "attr \<Rightarrow> bool" where
  "public_attr a \<longleftrightarrow> take 1 (at_name a) \<noteq> ''_'' \<and> at_callable a"

definition get_generators :: "service_obj \<Rightarrow> (string, bound) dict" where
  "get_generators s =
     fold (\<lambda>a d. if public_attr a \<and> at_generator a then dict_set (at_name a) (bind_attr s a) d else d)
       (sv_attrs s) []"

definition get_rpc_methods :: "service_obj \<Rightarrow> (string, bound) dict" where
  "get_rpc_methods s =
     fold (\<lambda>a d. if public_attr a \<and> at_rpc a then dict_set (at_name a) (bind_attr s a) d else d)
       (sv_attrs s) []"

record handler =
  h_wrapper :: "bound option"
  h_consumer :: "bound option"

definition no_handler :: handler where
  "no_handler = \<lparr>h_wrapper = None, h_consumer = None\<rparr>"

text \<open>
  One attribute: the wrapper decorator and then the consumer decorator. A stream name that was
  already seen keeps its other half.
\<close>

definition add_handler :: "service_obj \<Rightarrow> attr \<Rightarrow> (string, handler) dict \<Rightarrow> (string, handler) dict" where
  "add_handler s a d =
     (if \<not> public_attr a then d
      else
        (let d1 = (case at_wrapper a of
                     None \<Rightarrow> d
                   | Some n \<Rightarrow> dict_set n ((get_default d n no_handler)\<lparr>h_wrapper := Some (bind_attr s a)\<rparr>) d)
         in case at_consumer a of
              None \<Rightarrow> d1
            | Some n \<Rightarrow> dict_set n ((get_default d1 n no_handler)\<lparr>h_consumer := Some (bind_attr s a)\<rparr>) d1))"

definition get_stream_handlers :: "service_obj \<Rightarrow> (string, handler) dict" where
  "get_stream_handlers s = fold (add_handler s) (sv_attrs s) []"

section \<open>The service table\<close>

text \<open>The row of a service holds the object under \<open>self\<close> and its methods.\<close>

datatype entry = E_Self service_obj | E_Method bound

type_synonym manager = "(string, (string, entry) dict) dict"

definition gen_prefix :: string where
  "gen_prefix = ''__gen__''"

definition mgr_set :: "string \<Rightarrow> string \<Rightarrow> entry \<Rightarrow> manager \<Rightarrow> manager" where
  "mgr_set svc k e m = dict_set svc (dict_set k e (get_default m svc [])) m"

definition mgr_get :: "manager \<Rightarrow> string option \<Rightarrow> string \<Rightarrow> entry option" where
  "mgr_get m svc k = Option.bind (get_opt m svc) (\<lambda>row. dict_get row k)"

definition register_service :: "service_obj \<Rightarrow> manager \<Rightarrow> manager" where
  "register_service s m =
     fold (\<lambda>(n, f). mgr_set (sv_name s) (gen_prefix @ n) (E_Method f)) (get_generators s)
       (mgr_set (sv_name s) ''self'' (E_Self s) m)"

definition get_service :: "manager \<Rightarrow> string option \<Rightarrow> entry option" where
  "get_service m svc = mgr_get m svc ''self''"

definition remove_service :: "service_obj \<Rightarrow> manager \<Rightarrow> manager" where
  "remove_service s m = dict_pop (sv_name s) m"

definition replace_service :: "service_obj \<Rightarrow> manager \<Rightarrow> manager" where
  "replace_service s m = register_service s (dict_set (sv_name s) [] m)"

definition register_method :: "service_obj \<Rightarrow> string \<Rightarrow> bound \<Rightarrow> manager \<Rightarrow> manager" where
  "register_method s name f m = mgr_set (sv_name s) name (E_Method f) m"

definition get_method :: "manager \<Rightarrow> string option \<Rightarrow> string \<Rightarrow> entry option" where
  "get_method m svc name = mgr_get m svc name"

definition get_generator :: "manager \<Rightarrow> string option \<Rightarrow> string \<Rightarrow> entry option" where
  "get_generator m svc name = mgr_get m svc (gen_prefix @ name)"

definition starts_with :: "string \<Rightarrow> string \<Rightarrow> bool" where
  "starts_with p s \<longleftrightarrow> take (length p) s = p"

definition list_generators :: "manager \<Rightarrow> string option \<Rightarrow> string list" where
  "list_generators m svc =
     map (drop (length gen_prefix))
       (filter (starts_with gen_prefix) (dict_keys (case get_opt m svc of None \<Rightarrow> [] | Some row \<Rightarrow> row)))"

section \<open>Local calls\<close>

datatype reply = Value pyval | Failure exn | Items "pyval list" "exn option"

type_synonym invoker = "string \<Rightarrow> string \<Rightarrow> pyval list \<Rightarrow> reply"

datatype result = Response MsgPack | Async_gen "pyval list" "exn option"

text \<open>
  Without a method name the object of the service is looked up; it is not callable, so
  inspecting its signature is a \<open>TypeError\<close>.
\<close>

definition find_method :: "manager \<Rightarrow> MsgPack \<Rightarrow> entry option" where
  "find_method m p =
     (case meth p of
        None \<Rightarrow> get_service m (service p)
      | Some n \<Rightarrow> if n = [] then get_service m (service p) else get_method m (service p) n)"

definition response_pack :: "string \<Rightarrow> MsgPack \<Rightarrow> pyval \<Rightarrow> exn + MsgPack" where
  "response_pack fresh p v =
     (case dst p of
        None \<Rightarrow> Inl ValidationError
      | Some d \<Rightarrow>
          Inr ((new_pack RESPONSE d (Some (source p)) fresh)
                 \<lparr>service := service p, meth := meth p, label := label p, data := v\<rparr>))"

definition execute :: "invoker \<Rightarrow> string \<Rightarrow> manager \<Rightarrow> MsgPack \<Rightarrow> exn + result" where
  "execute invoke fresh m p =
     (case find_method m p of
        None \<Rightarrow> Inl (MethodNotFound (service p) (meth p))
      | Some (E_Self s) \<Rightarrow> Inl TypeError
      | Some (E_Method (Bound svc name params)) \<Rightarrow>
          (case invoke svc name (if params then [data p] else []) of
             Failure e \<Rightarrow> Inl e
           | Items vs e \<Rightarrow> Inr (Async_gen vs e)
           | Value v \<Rightarrow> map_sum id Response (response_pack fresh p v)))"

section \<open>Lookups\<close>

lemma mgr_get_set [simp]:
  "mgr_get (mgr_set svc k e m) svc' k' = (if svc' = Some svc \<and> k' = k then Some e else mgr_get m svc' k')"
  by (cases svc') (auto simp: mgr_get_def mgr_set_def get_default_def split: option.split)

lemma starts_with_append [simp]: "starts_with p (p @ s)"
  by (simp add: starts_with_def)

lemma starts_with_iff: "starts_with p s \<longleftrightarrow> (\<exists>t. s = p @ t)"
  by (metis append_take_drop_id starts_with_append starts_with_def)

lemma mgr_get_gens:
  "dict_ok gs \<Longrightarrow>
    mgr_get (fold (\<lambda>(n, f). mgr_set svc (gen_prefix @ n) (E_Method f)) gs m) svc' k =
      (if svc' = Some svc \<and> starts_with gen_prefix k \<and> dict_get gs (drop (length gen_prefix) k) \<noteq> None
       then map_option E_Method (dict_get gs (drop (length gen_prefix) k)) else mgr_get m svc' k)"
proof (induction gs arbitrary: m)
  case (Cons g gs)
  obtain n f where g: "g = (n, f)" by (cases g)
  from Cons.prems have ok: "dict_ok gs" by (simp add: dict_ok_def)
  have new: "dict_get gs n = None"
    using Cons.prems g by (simp add: dict_ok_def dict_get_def map_of_eq_None_iff)
  show ?case
    using Cons.IH [OF ok, of "mgr_set svc (gen_prefix @ n) (E_Method f) m"] new g
    by (auto simp: starts_with_iff)
qed simp

lemma dict_ok_fold_if:
  "dict_ok d \<Longrightarrow> dict_ok (fold (\<lambda>a d. if P a then dict_set (key a) (val a) d else d) as d)"
  by (induction as arbitrary: d) auto

lemma get_generators_ok: "dict_ok (get_generators s)"
  unfolding get_generators_def by (rule dict_ok_fold_if) simp

lemma mgr_get_emptied:
  "mgr_get (dict_set svc [] m) svc' k = (if svc' = Some svc then None else mgr_get m svc' k)"
  by (cases svc') (simp_all add: mgr_get_def)

lemma self_not_generator: "\<not> starts_with gen_prefix ''self''"
  by (simp add: starts_with_def gen_prefix_def)

text \<open>Hot reload is exact: after a service is registered again, its row holds the new object and the
  generators of the new object, nothing of the old one, and the other services are as before.\<close>

theorem replace_service_exact:
  "mgr_get (replace_service s m) svc k =
     (if svc = Some (sv_name s)
      then (if k = ''self'' then Some (E_Self s)
            else if starts_with gen_prefix k
            then map_option E_Method (dict_get (get_generators s) (drop (length gen_prefix) k))
            else None)
      else mgr_get m svc k)"
  using self_not_generator
  by (auto simp: replace_service_def register_service_def mgr_get_gens get_generators_ok mgr_get_emptied)

lemma row_gens:
  assumes "dict_ok gs"
  shows "get_opt (fold (\<lambda>(n, f). mgr_set svc (gen_prefix @ n) (E_Method f)) gs m) (Some svc)
    = (if gs = [] then get_opt m (Some svc)
       else Some (fold (\<lambda>(n, f). dict_set (gen_prefix @ n) (E_Method f)) gs (get_default m svc [])))"
proof (induction gs arbitrary: m)
  case (Cons g gs)
  show ?case
  proof (cases "gs = []")
    case True
    then show ?thesis by (cases g) (simp add: mgr_set_def)
  next
    case False
    with Cons show ?thesis
      by (cases g) (simp add: mgr_set_def get_default_def)
  qed
qed simp

lemma keys_fold_new:
  "distinct (map f xs) \<Longrightarrow> f ` set xs \<inter> fst ` set d = {} \<Longrightarrow>
     dict_keys (fold (\<lambda>x. dict_set (f x) (g x)) xs d) = dict_keys d @ map f xs"
proof (induction xs arbitrary: d)
  case (Cons x xs)
  have keys: "dict_keys (dict_set (f x) (g x) d) = dict_keys d @ [f x]"
    using Cons.prems(2) by (auto simp: dict_keys_def dict_set_def update_keys)
  then have "fst ` set (dict_set (f x) (g x) d) = insert (f x) (fst ` set d)"
    by (metis dict_keys_def list.set(1) list.set(2) list.set_map set_append sup_bot.right_neutral Un_insert_right)
  with Cons.prems have "f ` set xs \<inter> fst ` set (dict_set (f x) (g x) d) = {}" by auto
  with Cons keys show ?case by simp
qed simp

text \<open>The generators listed for a freshly registered service are the generators found on its
  object, under their own names and in the order of the object.\<close>

theorem list_generators_complete:
  "list_generators (replace_service s m) (Some (sv_name s)) = dict_keys (get_generators s)"
proof -
  let ?gs = "get_generators s"
  have "distinct (map ((@) gen_prefix) (map fst ?gs))"
    using get_generators_ok [of s] unfolding dict_ok_def by (subst distinct_map) (simp add: inj_on_def)
  then have d: "distinct (map (\<lambda>g. gen_prefix @ fst g) ?gs)" by (simp add: comp_def)
  have row: "get_opt (replace_service s m) (Some (sv_name s)) =
      Some (fold (\<lambda>g. dict_set (gen_prefix @ fst g) (E_Method (snd g))) ?gs [(''self'', E_Self s)])"
    using row_gens [OF get_generators_ok [of s], of "sv_name s"
        "mgr_set (sv_name s) ''self'' (E_Self s) (dict_set (sv_name s) [] m)"]
    unfolding replace_service_def register_service_def
    by (simp add: mgr_set_def get_default_def dict_set_simps case_prod_unfold)
  have "dict_keys (fold (\<lambda>g. dict_set (gen_prefix @ fst g) (E_Method (snd g))) ?gs [(''self'', E_Self s)]) =
      ''self'' # map (\<lambda>g. gen_prefix @ fst g) ?gs"
    using keys_fold_new [OF d, of "[(''self'', E_Self s)]" "\<lambda>g. E_Method (snd g)"]
    by (auto simp: dict_keys_def gen_prefix_def)
  then have "list_generators (replace_service s m) (Some (sv_name s)) =
      map (drop (length gen_prefix)) (filter (starts_with gen_prefix) (map (\<lambda>g. gen_prefix @ fst g) ?gs))"
    using self_not_generator by (simp add: list_generators_def row del: get_opt_simps)
  also have "\<dots> = dict_keys ?gs"
    by (simp add: dict_keys_def filter_map comp_def)
  finally show ?thesis .
qed

text \<open>The consumer of a stream is the last public method decorated for that stream, and the wrapper
  likewise; neither decorator disturbs the other half of the entry.\<close>

theorem stream_handlers_found:
  "Option.bind (dict_get (get_stream_handlers s) n) h_consumer =
      map_option (bind_attr s) (find (\<lambda>a. public_attr a \<and> at_consumer a = Some n) (rev (sv_attrs s)))
   \<and> Option.bind (dict_get (get_stream_handlers s) n) h_wrapper =
      map_option (bind_attr s) (find (\<lambda>a. public_attr a \<and> at_wrapper a = Some n) (rev (sv_attrs s)))"
proof -
  have "Option.bind (dict_get (fold (add_handler s) as []) n) h_consumer =
      map_option (bind_attr s) (find (\<lambda>a. public_attr a \<and> at_consumer a = Some n) (rev as))
    \<and> Option.bind (dict_get (fold (add_handler s) as []) n) h_wrapper =
      map_option (bind_attr s) (find (\<lambda>a. public_attr a \<and> at_wrapper a = Some n) (rev as))" for as
  proof (induction as rule: rev_induct)
    case (snoc a as)
    then show ?case
      by (cases "dict_get (fold (add_handler s) as []) n")
        (auto simp: add_handler_def Let_def get_default_def no_handler_def split: option.split)
  qed simp
  then show ?thesis by (simp add: get_stream_handlers_def)
qed

lemma execute_response:
  assumes "execute invoke fresh m p = Inr (Response r)"
  shows "ptype r = RESPONSE \<and> label r = label p \<and> dst r = Some (source p) \<and> dst p = Some (source r)
        \<and> path r = []
        \<and> (\<exists>svc name params. find_method m p = Some (E_Method (Bound svc name params))
              \<and> invoke svc name (if params then [data p] else []) = Value (data r))"
proof -
  from assms obtain svc name params v where f: "find_method m p = Some (E_Method (Bound svc name params))"
    and v: "invoke svc name (if params then [data p] else []) = Value v"
    and r: "response_pack fresh p v = Inr r"
    unfolding execute_def
    by (auto split: option.splits entry.splits bound.splits reply.splits sum.splits simp: map_sum_def)
  from r have "dst p = Some (source r)" "ptype r = RESPONSE" "label r = label p" "dst r = Some (source p)"
    "path r = []" "data r = v"
    by (auto simp: response_pack_def new_pack_def split: option.splits)
  with f v show ?thesis by blast
qed

text \<open>A local call never invents a method, and its answer goes back to the caller: an unknown
  method or service is reported by name, and a response carries the label of the request, names the
  caller as its destination and the request's destination as its source, with the value of the
  method as data.\<close>

theorem execute_contract:
  "(find_method m p = None \<longrightarrow> execute invoke fresh m p = Inl (MethodNotFound (service p) (meth p)))
   \<and> (\<forall>r. execute invoke fresh m p = Inr (Response r) \<longrightarrow>
        ptype r = RESPONSE \<and> label r = label p \<and> dst r = Some (source p) \<and> dst p = Some (source r)
        \<and> path r = []
        \<and> (\<exists>svc name params. find_method m p = Some (E_Method (Bound svc name params))
              \<and> invoke svc name (if params then [data p] else []) = Value (data r)))"
  using execute_response [of invoke fresh m p] by (simp add: execute_def)

definition ex_echo :: manager where
  "ex_echo = register_method \<lparr>sv_name = ''util'', sv_attrs = []\<rparr> ''echo'' (Bound ''util'' ''echo'' True) []"

definition ex_ask :: "string \<Rightarrow> MsgPack" where
  "ex_ask name = (new_pack REQUEST ''a'' (Some ''b'') ''l'')\<lparr>service := Some ''util'', meth := Some name, data := PInt 7\<rparr>"

theorem execute_contract_witness:
  "execute (\<lambda>s n as. Value (PList as)) ''u'' ex_echo (ex_ask ''gone'') = Inl (MethodNotFound (Some ''util'') (Some ''gone''))
   \<and> (\<exists>r. execute (\<lambda>s n as. Value (PList as)) ''u'' ex_echo (ex_ask ''echo'') = Inr (Response r)
        \<and> ptype r = RESPONSE \<and> label r = ''l'' \<and> dst r = Some ''a'')"
proof -
  let ?inv = "\<lambda>s n as. Value (PList as)"
  have none: "find_method ex_echo (ex_ask ''gone'') = None"
    by (simp add: find_method_def get_method_def mgr_get_def ex_echo_def ex_ask_def register_method_def mgr_set_def
        get_default_def new_pack_def)
  obtain r where r: "execute ?inv ''u'' ex_echo (ex_ask ''echo'') = Inr (Response r)"
    by (simp add: execute_def find_method_def get_method_def mgr_get_def ex_echo_def ex_ask_def register_method_def
        mgr_set_def get_default_def response_pack_def new_pack_def)
  from r none execute_contract [of ex_echo "ex_ask ''gone''" ?inv "''u''"]
    execute_contract [of ex_echo "ex_ask ''echo''" ?inv "''u''"]
  show ?thesis by (simp add: ex_ask_def new_pack_def)
qed

text \<open>
  A request without a destination is handled locally, but its response cannot be built: the
  source field of a packet is required.
\<close>

lemma execute_without_dst:
  assumes "find_method m p = Some (E_Method (Bound svc name params))" "dst p = None"
    "invoke svc name (if params then [data p] else []) = Value v"
  shows "execute invoke fresh m p = Inl ValidationError"
  using assms by (cases params) (simp_all add: execute_def response_pack_def)

end
