(* ===== verification/Pipes.thy ===== *)
theory Pipes
  imports Prelude "HOL-Library.Sublist" "HOL-Library.Multiset"
begin

text \<open>
  Bounded pipes between a producer and its consumers: \<open>Pipe\<close>, \<open>Dispatcher\<close> and
  \<open>MemoryModule\<close> of \<open>internal_modules/memory.py\<close>. A pipe is its queue with the closed
  flag and the reason of a failure; \<open>await\<close> on a full or an empty queue is the outcome
  \<open>Suspended\<close>. The contract of a bounded queue is the locale \<open>bounded_fifo\<close>, of which
  \<open>pipe_q\<close> is the interpretation. The dispatcher is a step relation over its own steps and
  those of the consumers, so that every interleaving is covered.
\<close>

section \<open>Pipes\<close>

datatype item = Chunk pyval | Sentinel

record pipe =
  p_id :: string
  p_buff :: int
  p_low :: int
  p_queue :: "item list"
  p_closed :: bool
  p_error :: "exn option"

definition new_pipe :: "string \<Rightarrow> int \<Rightarrow> pipe" where
  "new_pipe pid n =
     \<lparr>p_id = pid, p_buff = n, p_low = max 1 (n div 3), p_queue = [], p_closed = False, p_error = None\<rparr>"

text \<open>A queue with a size limit of zero or less is never full.\<close>

definition pipe_full :: "pipe \<Rightarrow> bool" where
  "pipe_full p \<longleftrightarrow> 0 < p_buff p \<and> p_buff p \<le> int (length (p_queue p))"

definition pipe_empty :: "pipe \<Rightarrow> bool" where
  "pipe_empty p \<longleftrightarrow> p_queue p = []"

definition pipe_size :: "pipe \<Rightarrow> nat" where
  "pipe_size p = length (p_queue p)"

definition pipe_put_nowait :: "item \<Rightarrow> (pipe, unit) act" where
  "pipe_put_nowait x p = (if pipe_full p then (Raise QueueFull, p) else (Ret (), p\<lparr>p_queue := p_queue p @ [x]\<rparr>))"

definition pipe_put :: "item \<Rightarrow> (pipe, unit) act" where
  "pipe_put x p = (if pipe_full p then (Suspended, p) else (Ret (), p\<lparr>p_queue := p_queue p @ [x]\<rparr>))"

definition pipe_get :: "(pipe, item) act" where
  "pipe_get p = (case p_queue p of [] \<Rightarrow> (Suspended, p) | x # xs \<Rightarrow> (Ret x, p\<lparr>p_queue := xs\<rparr>))"

definition pipe_close :: "pipe \<Rightarrow> pipe" where
  "pipe_close p = p\<lparr>p_closed := True\<rparr>"

definition pipe_failed :: "pipe \<Rightarrow> bool" where
  "pipe_failed p \<longleftrightarrow> p_error p \<noteq> None"

text \<open>The sentinel is dropped when the queue is full.\<close>

definition pipe_fail :: "exn \<Rightarrow> pipe \<Rightarrow> pipe" where
  "pipe_fail e p = pipe_close (snd (pipe_put_nowait Sentinel (p\<lparr>p_error := Some e\<rparr>)))"

definition pipe_end :: "pipe \<Rightarrow> exn" where
  "pipe_end p = (case p_error p of Some e \<Rightarrow> e | None \<Rightarrow> StopAsyncIteration)"

text \<open>\<open>__anext__\<close>: the recorded failure of the producer goes before the regular end.\<close>

definition pipe_next :: "(pipe, pyval) act" where
  "pipe_next p =
     (if p_closed p \<and> pipe_empty p then (Raise (pipe_end p), p)
      else
        (case pipe_get p of
           (Ret (Chunk v), p') \<Rightarrow> (Ret v, p')
         | (Ret Sentinel, p') \<Rightarrow> (Raise (pipe_end p'), p')
         | (Raise e, p') \<Rightarrow> (Raise e, p')
         | (Suspended, p') \<Rightarrow> (Suspended, p')))"

text \<open>An \<open>async for\<close> over a pipe: the items and how it stopped; \<open>n\<close> bounds the rounds.\<close>

fun pipe_drain :: "nat \<Rightarrow> pipe \<Rightarrow> pyval list \<times> exn option" where
  "pipe_drain 0 p = ([], None)"
| "pipe_drain (Suc n) p =
     (case pipe_next p of
        (Ret v, p') \<Rightarrow> (let (vs, e) = pipe_drain n p' in (v # vs, e))
      | (Raise e, p') \<Rightarrow> ([], Some e)
      | (Suspended, p') \<Rightarrow> ([], None))"

definition pipe_ok :: "pipe \<Rightarrow> bool" where
  "pipe_ok p \<longleftrightarrow> p_low p = max 1 (p_buff p div 3) \<and> (0 < p_buff p \<longrightarrow> int (length (p_queue p)) \<le> p_buff p)"

lemma new_pipe_simps [simp]:
  "p_id (new_pipe k n) = k" "p_buff (new_pipe k n) = n" "p_queue (new_pipe k n) = []"
  "p_closed (new_pipe k n) = False" "p_error (new_pipe k n) = None"
  by (simp_all add: new_pipe_def)

lemma new_pipe_ok [simp, intro]: "pipe_ok (new_pipe k n)"
  by (simp add: pipe_ok_def new_pipe_def)

lemma pipe_put_ok: "keeps pipe_ok (pipe_put x)"
  by (rule keepsI) (auto simp: pipe_ok_def pipe_put_def pipe_full_def)

lemma pipe_put_nowait_ok: "keeps pipe_ok (pipe_put_nowait x)"
  by (rule keepsI) (auto simp: pipe_ok_def pipe_put_nowait_def pipe_full_def)

lemma pipe_get_ok: "keeps pipe_ok pipe_get"
  by (rule keepsI) (auto simp: pipe_ok_def pipe_get_def split: list.splits)

lemma pipe_close_simps [simp]:
  "p_id (pipe_close p) = p_id p" "p_buff (pipe_close p) = p_buff p" "p_queue (pipe_close p) = p_queue p"
  "p_closed (pipe_close p)" "p_error (pipe_close p) = p_error p" "pipe_ok (pipe_close p) = pipe_ok p"
  by (simp_all add: pipe_close_def pipe_ok_def)

lemma pipe_fail_fields:
  "p_queue (pipe_fail e p) = (if pipe_full p then p_queue p else p_queue p @ [Sentinel])"
  "p_closed (pipe_fail e p)" "p_error (pipe_fail e p) = Some e"
  "p_id (pipe_fail e p) = p_id p" "p_buff (pipe_fail e p) = p_buff p"
  by (simp_all add: pipe_fail_def pipe_put_nowait_def pipe_full_def)

lemma pipe_fail_ok: "pipe_ok p \<Longrightarrow> pipe_ok (pipe_fail e p)"
  using keepsD [OF pipe_put_nowait_ok, of "p\<lparr>p_error := Some e\<rparr>" Sentinel]
  by (simp add: pipe_fail_def) (simp add: pipe_ok_def)

lemma pipe_next_Cons [simp]:
  "p_queue p = Chunk v # xs \<Longrightarrow> pipe_next p = (Ret v, p\<lparr>p_queue := xs\<rparr>)"
  "p_queue p = Sentinel # xs \<Longrightarrow> pipe_next p = (Raise (pipe_end p), p\<lparr>p_queue := xs\<rparr>)"
  by (simp_all add: pipe_next_def pipe_get_def pipe_empty_def pipe_end_def)

lemma pipe_next_Nil [simp]:
  "p_queue p = [] \<Longrightarrow> pipe_next p = (if p_closed p then (Raise (pipe_end p), p) else (Suspended, p))"
  by (simp add: pipe_next_def pipe_get_def pipe_empty_def)

lemma pipe_next_ok: "keeps pipe_ok pipe_next"
proof (rule keepsI)
  fix p assume "pipe_ok p"
  then show "pipe_ok (snd (pipe_next p))"
    using keepsD [OF pipe_get_ok, of p]
    by (auto simp: pipe_next_def split: prod.split outcome.split item.split)
qed

text \<open>
  A pipe that holds chunks and will not get more ends its consumer: the chunks come out in
  order, then the end, and the consumer is never left waiting.
\<close>

lemma pipe_drain_closed:
  assumes "p_closed p" "p_queue p = map Chunk vs @ ts" "ts = [] \<or> ts = [Sentinel]" "length vs < n"
  shows "pipe_drain n p = (vs, Some (pipe_end p))"
  using assms
proof (induction n arbitrary: p vs)
  case (Suc n)
  show ?case
  proof (cases vs)
    case Nil
    with Suc.prems show ?thesis by auto
  next
    case (Cons v ws)
    with Suc.prems have "pipe_drain n (p\<lparr>p_queue := map Chunk ws @ ts\<rparr>) = (ws, Some (pipe_end p))"
      using Suc.IH [of "p\<lparr>p_queue := map Chunk ws @ ts\<rparr>" ws] by (simp add: pipe_end_def)
    with Suc.prems Cons show ?thesis by simp
  qed
qed simp

text \<open>A producer failure reaches the consumer. Whatever chunks the pipe still holds, and whether
  or not there was room for the sentinel, iterating over a failed pipe delivers those chunks in
  order and then raises the recorded exception: it neither hangs nor ends as a success.\<close>

theorem failure_reaches_consumer:
  assumes "p_queue p = map Chunk vs"
  shows "pipe_drain (Suc (length vs)) (pipe_fail e p) = (vs, Some e)"
  using pipe_drain_closed [of "pipe_fail e p" vs "if pipe_full p then [] else [Sentinel]" "Suc (length vs)"] assms
  by (auto simp: pipe_fail_fields pipe_end_def)

theorem failure_reaches_consumer_witness:
  "pipe_drain 3 (pipe_fail TypeError ((new_pipe ''a'' 2)\<lparr>p_queue := [Chunk (PInt 1), Chunk (PInt 2)]\<rparr>))
     = ([PInt 1, PInt 2], Some TypeError)"
  using failure_reaches_consumer [of "(new_pipe ''a'' 2)\<lparr>p_queue := [Chunk (PInt 1), Chunk (PInt 2)]\<rparr>"
      "[PInt 1, PInt 2]" TypeError]
  by (simp add: eval_nat_numeral del: pipe_drain.simps)

section \<open>The contract of a bounded queue\<close>

datatype 'a fifo_op = Put 'a | Get

text \<open>
  A schedule of puts and gets: what went in, what came out, the queue. A suspended
  operation has no effect; it is tried again by a later entry of the schedule.
\<close>

fun fifo_exec :: "('a \<Rightarrow> ('q, unit) act) \<Rightarrow> ('q, 'a) act \<Rightarrow> 'a fifo_op list \<Rightarrow> 'q \<Rightarrow> 'a list \<times> 'a list \<times> 'q" where
  "fifo_exec enq deq [] q = ([], [], q)"
| "fifo_exec enq deq (Put a # ops) q =
     (let (r, q1) = enq a q; (ins, outs, q2) = fifo_exec enq deq ops q1
      in (case r of Ret _ \<Rightarrow> a # ins | _ \<Rightarrow> ins, outs, q2))"
| "fifo_exec enq deq (Get # ops) q =
     (let (r, q1) = deq q; (ins, outs, q2) = fifo_exec enq deq ops q1
      in (ins, case r of Ret a \<Rightarrow> a # outs | _ \<Rightarrow> outs, q2))"

text \<open>
  What producers and consumers rely on: elements leave in the order they came, a suspended
  operation changes nothing, and a full queue accepts nothing.
\<close>

locale bounded_fifo =
  fixes enq :: "'a \<Rightarrow> ('q, unit) act"
    and deq :: "('q, 'a) act"
    and items :: "'q \<Rightarrow> 'a list"
    and limit :: "'q \<Rightarrow> int"
  assumes enq_ret: "enq a q = (Ret u, q') \<Longrightarrow> items q' = items q @ [a] \<and> limit q' = limit q"
    and enq_room: "enq a q = (Ret u, q') \<Longrightarrow> 0 < limit q \<Longrightarrow> int (length (items q)) < limit q"
    and enq_stuck: "enq a q = (Suspended, q') \<Longrightarrow> q' = q"
    and enq_no_raise: "fst (enq a q) \<noteq> Raise e"
    and deq_ret: "deq q = (Ret a, q') \<Longrightarrow> items q = a # items q' \<and> limit q' = limit q"
    and deq_stuck: "deq q = (Suspended, q') \<Longrightarrow> q' = q \<and> items q = []"
    and deq_no_raise: "fst (deq q) \<noteq> Raise e"
begin

lemma enq_cases:
  obtains (put) q' where "enq a q = (Ret (), q')" "items q' = items q @ [a]" "limit q' = limit q"
      "0 < limit q \<Longrightarrow> int (length (items q)) < limit q"
    | (stuck) "enq a q = (Suspended, q)"
proof (cases "enq a q")
  case (Pair r q')
  with enq_ret [of a q _ q'] enq_room [of a q _ q'] enq_stuck [of a q q'] enq_no_raise [of a q] that
  show ?thesis by (cases r) auto
qed

lemma deq_cases:
  obtains (got) a q' where "deq q = (Ret a, q')" "items q = a # items q'" "limit q' = limit q"
    | (stuck) "deq q = (Suspended, q)" "items q = []"
proof (cases "deq q")
  case (Pair r q')
  with deq_ret [of q _ q'] deq_stuck [of q q'] deq_no_raise [of q] that
  show ?thesis by (cases r) auto
qed

lemma exec_order: "fifo_exec enq deq ops q = (ins, outs, q') \<Longrightarrow> items q @ ins = outs @ items q'"
proof (induction ops arbitrary: q ins outs)
  case (Cons op ops)
  show ?case
  proof (cases op)
    case (Put a)
    with Cons show ?thesis by (cases rule: enq_cases [of a q]) (fastforce split: prod.splits)+
  next
    case Get
    with Cons show ?thesis by (cases rule: deq_cases [of q]) (fastforce split: prod.splits)+
  qed
qed simp

lemma exec_bounded:
  "fifo_exec enq deq ops q = (ins, outs, q') \<Longrightarrow> 0 < limit q \<Longrightarrow> int (length (items q)) \<le> limit q \<Longrightarrow>
     limit q' = limit q \<and> int (length (items q')) \<le> limit q"
proof (induction ops arbitrary: q ins outs)
  case (Cons op ops)
  show ?case
  proof (cases op)
    case (Put a)
    with Cons show ?thesis by (cases rule: enq_cases [of a q]) (fastforce split: prod.splits)+
  next
    case Get
    with Cons show ?thesis by (cases rule: deq_cases [of q]) (fastforce split: prod.splits)+
  qed
qed simp

end

interpretation pipe_q: bounded_fifo pipe_put pipe_get p_queue p_buff
  by unfold_locales
    (auto simp: pipe_put_def pipe_get_def pipe_full_def split: if_splits list.splits)

text \<open>Chunks cross a pipe in order and without loss or duplication, for every interleaving of
  producer and consumer: what came out followed by what is queued is what went in, and the queue
  never holds more than its buffer.\<close>

theorem pipe_fifo_bounded:
  assumes "fifo_exec pipe_put pipe_get ops (new_pipe k n) = (ins, outs, p)" "0 < n"
  shows "ins = outs @ p_queue p \<and> int (length (p_queue p)) \<le> n"
  using pipe_q.exec_order [OF assms(1)] pipe_q.exec_bounded [OF assms(1)] assms(2) by simp

theorem pipe_fifo_bounded_witness:
  "case fifo_exec pipe_put pipe_get [Put Sentinel, Put Sentinel, Get, Put (Chunk PNone)] (new_pipe ''a'' 1) of
     (ins, outs, p) \<Rightarrow> ins = [Sentinel, Chunk PNone] \<and> outs = [Sentinel]
       \<and> ins = outs @ p_queue p \<and> int (length (p_queue p)) \<le> 1"
  using pipe_fifo_bounded [of "[Put Sentinel, Put Sentinel, Get, Put (Chunk PNone)]" "''a''" 1]
  by (simp add: pipe_put_def pipe_get_def pipe_full_def Let_def)

end
