(* ===== verification/Dispatch.thy ===== *)
theory Dispatch
  imports Pipes
begin

text \<open>
  The fan-out of one generator over several pipes and the owner of the pipes:
  \<open>Dispatcher\<close> and \<open>MemoryModule\<close> of \<open>internal_modules/memory.py\<close>. The producer thread
  and the thread-safe queue behind it are the list of items still to come (\<open>d_source\<close>) and
  the exception it ends with (\<open>d_fault\<close>). An event is one step of the coroutine between two
  suspension points, of a consumer, or a call of \<open>stop\<close>; the schedule of events is arbitrary.
  \<open>d_taken\<close>, \<open>d_log\<close> and \<open>d_lost\<close> are history: what was read from the producer, what each
  consumer received, what was dropped.
\<close>

section \<open>The dispatcher\<close>

record disp =
  d_pipes :: "(string, pipe) dict"
  d_running :: bool
  d_finished :: bool
  d_source :: "pyval list"
  d_fault :: "exn option"
  d_hand :: "pyval option"
  d_taken :: "pyval list"
  d_log :: "(string \<times> pyval) list"
  d_lost :: "pyval list"

definition start_dispatcher :: "pipe list \<Rightarrow> pyval list \<Rightarrow> exn option \<Rightarrow> disp" where
  "start_dispatcher ps src flt =
     \<lparr>d_pipes = fold (\<lambda>p. dict_set (p_id p) p) ps [], d_running = True, d_finished = False,
      d_source = src, d_fault = flt, d_hand = None, d_taken = [], d_log = [], d_lost = []\<rparr>"

text \<open>\<open>min(xs, key=f)\<close> gives the first of the minimal elements.\<close>

fun first_min :: "('a \<Rightarrow> nat) \<Rightarrow> 'a list \<Rightarrow> 'a option" where
  "first_min f [] = None"
| "first_min f (x # xs) =
     (case first_min f xs of None \<Rightarrow> Some x | Some y \<Rightarrow> if f x \<le> f y then Some x else Some y)"

definition least_loaded :: "(string, pipe) dict \<Rightarrow> pipe option" where
  "least_loaded ps = first_min pipe_size (filter (\<lambda>p. \<not> pipe_full p) (dict_values ps))"

definition put_pipe :: "pipe \<Rightarrow> (string, pipe) dict \<Rightarrow> (string, pipe) dict" where
  "put_pipe p ps = dict_set (p_id p) p ps"

text \<open>The last action of the dispatcher on every pipe: the failure, or the sentinel and the end.\<close>

definition end_pipe :: "exn option \<Rightarrow> pipe \<Rightarrow> pipe" where
  "end_pipe flt p =
     (case flt of Some e \<Rightarrow> pipe_fail e p | None \<Rightarrow> pipe_close (snd (pipe_put_nowait Sentinel p)))"

datatype disp_event =
    D_fetch
  | D_place
  | D_discard
  | D_stop
  | D_finish bool
  | D_consume string

text \<open>
  \<open>None\<close>: the event cannot happen in this state. \<open>D_finish b\<close> ends the loop; when it was
  stopped early, \<open>b\<close> tells whether the producer thread had already failed.
\<close>

fun disp_step :: "disp_event \<Rightarrow> disp \<Rightarrow> disp option" where
  "disp_step D_fetch d =
     (case d_source d of
        x # xs \<Rightarrow>
          if d_running d \<and> d_hand d = None \<and> \<not> d_finished d
          then Some (d\<lparr>d_source := xs, d_hand := Some x, d_taken := d_taken d @ [x]\<rparr>) else None
      | [] \<Rightarrow> None)"
| "disp_step D_place d =
     (case d_hand d of
        Some x \<Rightarrow>
          if d_running d
          then (case least_loaded (d_pipes d) of
                  None \<Rightarrow> None
                | Some t \<Rightarrow>
                    (case pipe_put (Chunk x) t of
                       (Ret _, t') \<Rightarrow> Some (d\<lparr>d_pipes := put_pipe t' (d_pipes d), d_hand := None\<rparr>)
                     | _ \<Rightarrow> None))
          else None
      | None \<Rightarrow> None)"
| "disp_step D_discard d =
     (case d_hand d of
        Some x \<Rightarrow> if d_running d then None else Some (d\<lparr>d_hand := None, d_lost := d_lost d @ [x]\<rparr>)
      | None \<Rightarrow> None)"
| "disp_step D_stop d = Some (d\<lparr>d_running := False\<rparr>)"
| "disp_step (D_finish b) d =
     (if d_hand d = None \<and> \<not> d_finished d \<and> (d_source d = [] \<or> \<not> d_running d) \<and> (d_running d \<longrightarrow> b)
      then Some (d\<lparr>d_pipes := map (\<lambda>(k, p). (k, end_pipe (if b then d_fault d else None) p)) (d_pipes d),
                   d_finished := True\<rparr>)
      else None)"
| "disp_step (D_consume k) d =
     (case dict_get (d_pipes d) k of
        None \<Rightarrow> None
      | Some p \<Rightarrow>
          (case pipe_next p of
             (Ret v, p') \<Rightarrow> Some (d\<lparr>d_pipes := dict_set k p' (d_pipes d), d_log := d_log d @ [(k, v)]\<rparr>)
           | (Raise e, p') \<Rightarrow> Some (d\<lparr>d_pipes := dict_set k p' (d_pipes d)\<rparr>)
           | (Suspended, p') \<Rightarrow> None))"

fun disp_run :: "disp_event list \<Rightarrow> disp \<Rightarrow> disp option" where
  "disp_run [] d = Some d"
| "disp_run (e # es) d = Option.bind (disp_step e d) (disp_run es)"

section \<open>Choice of the pipe\<close>

lemma first_min_None [simp]: "first_min f xs = None \<longleftrightarrow> xs = []"
  by (cases xs) (auto split: option.splits)

lemma first_min_Some: "first_min f xs = Some x \<Longrightarrow> x \<in> set xs \<and> (\<forall>y\<in>set xs. f x \<le> f y)"
proof (induction xs arbitrary: x)
  case (Cons a xs)
  then show ?case
    by (cases "first_min f xs") (fastforce split: if_splits)+
qed simp

lemma least_loaded_Some:
  assumes "least_loaded ps = Some t"
  shows "t \<in> set (dict_values ps)" "\<not> pipe_full t"
    "p \<in> set (dict_values ps) \<Longrightarrow> \<not> pipe_full p \<Longrightarrow> pipe_size t \<le> pipe_size p"
  using first_min_Some [OF assms [unfolded least_loaded_def]] by auto

lemma least_loaded_None: "least_loaded ps = None \<longleftrightarrow> (\<forall>p\<in>set (dict_values ps). pipe_full p)"
  by (simp add: least_loaded_def filter_empty_conv)

section \<open>Invariant\<close>

definition chunks :: "pipe \<Rightarrow> pyval list" where
  "chunks p = concat (map (\<lambda>x. case x of Chunk v \<Rightarrow> [v] | Sentinel \<Rightarrow> []) (p_queue p))"

definition received :: "disp \<Rightarrow> string \<Rightarrow> pyval list" where
  "received d k = map snd (filter (\<lambda>(j, v). j = k) (d_log d))"

definition queued :: "disp \<Rightarrow> string \<Rightarrow> pyval list" where
  "queued d k = (case dict_get (d_pipes d) k of None \<Rightarrow> [] | Some p \<Rightarrow> chunks p)"

definition in_flight :: "disp \<Rightarrow> pyval multiset" where
  "in_flight d = sum_list (map (\<lambda>(k, p). mset (chunks p)) (d_pipes d))"

definition hand_list :: "disp \<Rightarrow> pyval list" where
  "hand_list d = (case d_hand d of None \<Rightarrow> [] | Some x \<Rightarrow> [x])"

definition keyed_pipes :: "(string, pipe) dict \<Rightarrow> bool" where
  "keyed_pipes ps \<longleftrightarrow> dict_ok ps \<and> (\<forall>k p. dict_get ps k = Some p \<longrightarrow> p_id p = k)"

lemma sum_dict_set:
  "dict_ok d \<Longrightarrow> dict_get d k = Some p \<Longrightarrow>
     sum_list (map (\<lambda>(k, p). f p) (dict_set k q d)) + (f p :: 'b :: comm_monoid_add)
       = sum_list (map (\<lambda>(k, p). f p) d) + f q"
proof (induction d)
  case (Cons a d)
  obtain j r where a: "a = (j, r)" by (cases a)
  show ?case
  proof (cases "j = k")
    case True
    with Cons.prems a show ?thesis by (simp add: dict_set_def add.commute add.left_commute)
  next
    case False
    with Cons a have "sum_list (map (\<lambda>(k, p). f p) (dict_set k q d)) + f p = sum_list (map (\<lambda>(k, p). f p) d) + f q"
      by (simp add: dict_ok_def)
    with False a show ?thesis by (simp add: dict_set_def add.assoc)
  qed
qed simp

lemma chunks_put: "pipe_put (Chunk x) p = (Ret u, p') \<Longrightarrow> chunks p' = chunks p @ [x] \<and> p_id p' = p_id p"
  by (auto simp: pipe_put_def chunks_def split: if_splits)

lemma chunks_end [simp]: "chunks (end_pipe flt p) = chunks p" "p_id (end_pipe flt p) = p_id p"
  by (auto simp: end_pipe_def pipe_fail_fields pipe_put_nowait_def chunks_def split: option.split)

lemma pipe_next_cases:
  obtains (chunk) v xs where "p_queue p = Chunk v # xs" "pipe_next p = (Ret v, p\<lparr>p_queue := xs\<rparr>)"
    | (sentinel) xs where "p_queue p = Sentinel # xs" "pipe_next p = (Raise (pipe_end p), p\<lparr>p_queue := xs\<rparr>)"
    | (over) "p_queue p = []" "pipe_next p = (Raise (pipe_end p), p)"
    | (wait) "p_queue p = []" "pipe_next p = (Suspended, p)"
proof (cases "p_queue p")
  case Nil
  with that(3,4) show ?thesis by (cases "p_closed p") simp_all
next
  case (Cons x xs)
  with that(1,2) show ?thesis by (cases x) simp_all
qed

lemma chunks_queue [simp]:
  "chunks (p\<lparr>p_queue := Chunk v # xs\<rparr>) = v # chunks (p\<lparr>p_queue := xs\<rparr>)"
  "chunks (p\<lparr>p_queue := Sentinel # xs\<rparr>) = chunks (p\<lparr>p_queue := xs\<rparr>)"
  by (simp_all add: chunks_def)

lemma chunks_next_ret:
  assumes "pipe_next p = (Ret v, p')"
  shows "chunks p = v # chunks p'" "p_id p' = p_id p"
proof -
  from assms obtain xs where q: "p_queue p = Chunk v # xs" "p' = p\<lparr>p_queue := xs\<rparr>"
    by (cases rule: pipe_next_cases [of p]) simp_all
  from q(1) show "chunks p = v # chunks p'"
    by (simp add: q(2) chunks_def)
  show "p_id p' = p_id p" by (simp add: q(2))
qed

lemma chunks_next_raise:
  assumes "pipe_next p = (Raise e, p')"
  shows "chunks p' = chunks p" "p_id p' = p_id p"
proof -
  consider xs where "p_queue p = Sentinel # xs" "p' = p\<lparr>p_queue := xs\<rparr>" | "p' = p"
    using assms by (cases rule: pipe_next_cases [of p]) simp_all
  then have "chunks p' = chunks p \<and> p_id p' = p_id p"
  proof cases
    case (1 xs)
    then show ?thesis by (simp only: 1(2)) (simp add: chunks_def)
  qed simp
  then show "chunks p' = chunks p" "p_id p' = p_id p" by simp_all
qed

lemma keyed_pipesD:
  "keyed_pipes ps \<Longrightarrow> dict_ok ps"
  "keyed_pipes ps \<Longrightarrow> dict_get ps k = Some p \<Longrightarrow> p_id p = k"
  by (simp_all add: keyed_pipes_def)

lemma keyed_pipes_value:
  assumes "keyed_pipes ps" "p \<in> set (dict_values ps)"
  shows "dict_get ps (p_id p) = Some p"
proof -
  from assms(2) obtain k where "(k, p) \<in> set ps" by (auto simp: dict_values_def)
  with assms(1) have "dict_get ps k = Some p" by (simp add: keyed_pipes_def dict_in_set_iff)
  with keyed_pipesD(2) [OF assms(1) this] show ?thesis by simp
qed

lemma keyed_pipes_set: "keyed_pipes ps \<Longrightarrow> p_id p = k \<Longrightarrow> keyed_pipes (dict_set k p ps)"
  by (auto simp: keyed_pipes_def split: if_split_asm)

lemma keyed_pipes_map:
  "keyed_pipes ps \<Longrightarrow> (\<And>p. p_id (f p) = p_id p) \<Longrightarrow> keyed_pipes (map (\<lambda>(k, p). (k, f p)) ps)"
  by (auto simp: keyed_pipes_def dict_ok_map_values dict_get_map_values)

lemma keyed_pipes_start: "keyed_pipes (d_pipes (start_dispatcher ps src flt))"
proof -
  have "keyed_pipes qs \<Longrightarrow> keyed_pipes (fold (\<lambda>p. dict_set (p_id p) p) ps qs)" for qs
    by (induction ps arbitrary: qs) (simp_all add: keyed_pipes_set)
  moreover have "keyed_pipes []" by (simp add: keyed_pipes_def)
  ultimately show ?thesis by (simp add: start_dispatcher_def)
qed

text \<open>
  Every item read from the producer is in exactly one place, and each consumer sees its
  items in the order they were produced.
\<close>

definition disp_inv :: "pyval list \<Rightarrow> disp \<Rightarrow> bool" where
  "disp_inv src d \<longleftrightarrow>
     keyed_pipes (d_pipes d)
     \<and> d_taken d @ d_source d = src
     \<and> mset (d_taken d) = in_flight d + mset (map snd (d_log d)) + mset (hand_list d) + mset (d_lost d)
     \<and> (\<exists>placed. d_taken d = placed @ hand_list d
           \<and> (\<forall>k. subseq (received d k @ queued d k) placed))
     \<and> (d_running d \<longrightarrow> d_lost d = [])"

lemma start_pipes_empty:
  "\<forall>p\<in>set ps. p_queue p = [] \<Longrightarrow> (k, p) \<in> set (d_pipes (start_dispatcher ps src flt)) \<Longrightarrow> p_queue p = []"
proof -
  have "\<forall>p\<in>set ps. p_queue p = [] \<Longrightarrow> \<forall>(k, p)\<in>set qs. p_queue p = [] \<Longrightarrow>
      \<forall>(k, p)\<in>set (fold (\<lambda>p. dict_set (p_id p) p) ps qs). p_queue p = []" for qs :: "(string, pipe) dict"
  proof (induction ps arbitrary: qs)
    case (Cons p ps)
    have "\<forall>(k, q)\<in>set (dict_set (p_id p) p qs). p_queue q = []"
      using Cons.prems set_dict_set [of "p_id p" p qs] by fastforce
    with Cons show ?case by simp
  qed simp
  from this [of "[]"] show "\<forall>p\<in>set ps. p_queue p = [] \<Longrightarrow>
      (k, p) \<in> set (d_pipes (start_dispatcher ps src flt)) \<Longrightarrow> p_queue p = []"
    by (auto simp: start_dispatcher_def)
qed

lemma no_chunks: "p_queue p = [] \<Longrightarrow> chunks p = []"
  by (simp add: chunks_def)

lemma sum_no_chunks:
  "\<forall>(k, p)\<in>set ps. p_queue p = [] \<Longrightarrow> sum_list (map (\<lambda>(k, p). mset (chunks p)) ps) = {#}"
  by (induction ps) (auto simp: no_chunks)

lemma disp_inv_start:
  assumes "\<forall>p\<in>set ps. p_queue p = []"
  shows "disp_inv src (start_dispatcher ps src flt)"
proof -
  let ?d = "start_dispatcher ps src flt"
  have "\<forall>(k, p)\<in>set (d_pipes ?d). p_queue p = []"
    using start_pipes_empty [OF assms] by blast
  then have "in_flight ?d = {#}" by (simp add: in_flight_def sum_no_chunks)
  moreover have "queued ?d k = []" for k
    using start_pipes_empty [OF assms, of k] by (auto simp: queued_def no_chunks split: option.split dest: dict_get_in)
  moreover have "keyed_pipes (d_pipes ?d)" by (rule keyed_pipes_start)
  moreover have "d_taken ?d = []" "d_source ?d = src" "d_hand ?d = None" "d_log ?d = []" "d_lost ?d = []"
    by (simp_all add: start_dispatcher_def)
  ultimately show ?thesis
    by (simp add: disp_inv_def received_def hand_list_def)
qed

lemma queued_set:
  "queued (d\<lparr>d_pipes := dict_set k p (d_pipes d), d_log := l, d_hand := h\<rparr>) j = (if j = k then chunks p else queued d j)"
  by (simp add: queued_def)

lemma subseq_append_right: "subseq xs ys \<Longrightarrow> subseq xs (ys @ zs)"
  by (rule subseq_rev_drop_many)

lemma subseq_snoc: "subseq xs ys \<Longrightarrow> subseq xs (ys @ [x])"
  by (rule subseq_append_right)

text \<open>Placing the item in hand.\<close>

lemma disp_inv_place:
  assumes inv: "disp_inv src d" and step: "disp_step D_place d = Some d'"
  shows "disp_inv src d'"
proof -
  from step obtain x t t' u where h: "d_hand d = Some x" "d_running d" and t: "least_loaded (d_pipes d) = Some t"
    and put: "pipe_put (Chunk x) t = (Ret u, t')"
    and d': "d' = d\<lparr>d_pipes := put_pipe t' (d_pipes d), d_hand := None\<rparr>"
    by (auto split: option.splits if_splits prod.splits outcome.splits)
  from inv have keyed: "keyed_pipes (d_pipes d)" by (simp add: disp_inv_def)
  have get: "dict_get (d_pipes d) (p_id t) = Some t"
    by (rule keyed_pipes_value [OF keyed least_loaded_Some(1) [OF t]])
  note t' = chunks_put [OF put]
  have "in_flight d' + mset (chunks t) = in_flight d + mset (chunks t')"
    using sum_dict_set [OF keyed_pipesD(1) [OF keyed] get, of "\<lambda>p. mset (chunks p)" t'] t'
    by (simp add: in_flight_def d' put_pipe_def)
  then have flight: "in_flight d' = in_flight d + {#x#}" using t' by simp
  have q: "queued d' k = (if k = p_id t then queued d k @ [x] else queued d k)" for k
    using t' get by (simp add: queued_def d' put_pipe_def)
  from inv obtain placed where placed: "d_taken d = placed @ [x]" "\<And>k. subseq (received d k @ queued d k) placed"
    using h by (auto simp: disp_inv_def hand_list_def)
  have "subseq (received d' k @ queued d' k) (placed @ [x])" for k
    using placed(2) [of k] subseq_snoc [OF placed(2) [of k], of x] q [of k]
    by (auto simp: received_def d' simp flip: append_assoc)
  with placed inv h t' flight show ?thesis
    by (auto simp: disp_inv_def hand_list_def d' put_pipe_def keyed_pipes_set)
qed

lemma disp_inv_consume:
  assumes inv: "disp_inv src d" and step: "disp_step (D_consume k) d = Some d'"
  shows "disp_inv src d'"
proof -
  from step obtain p where get: "dict_get (d_pipes d) k = Some p" by (auto split: option.splits)
  from inv have keyed: "keyed_pipes (d_pipes d)" by (simp add: disp_inv_def)
  from keyed_pipesD(2) [OF keyed get] have pk: "p_id p = k" .
  obtain r p' where next_: "pipe_next p = (r, p')" by (cases "pipe_next p")
  have sum: "sum_list (map (\<lambda>(k, p). mset (chunks p)) (dict_set k p' (d_pipes d))) + mset (chunks p)
      = in_flight d + mset (chunks p')"
    using sum_dict_set [OF keyed_pipesD(1) [OF keyed] get, of "\<lambda>p. mset (chunks p)" p']
    by (simp add: in_flight_def)
  from inv obtain placed where placed: "d_taken d = placed @ hand_list d"
    "\<And>k. subseq (received d k @ queued d k) placed"
    by (auto simp: disp_inv_def)
  show ?thesis
  proof (cases r)
    case (Ret v)
    with step get next_ have d': "d' = d\<lparr>d_pipes := dict_set k p' (d_pipes d), d_log := d_log d @ [(k, v)]\<rparr>"
      by simp
    note c = chunks_next_ret [OF next_ [unfolded Ret]]
    have flight: "add_mset v (in_flight d') = in_flight d"
      using sum c by (simp add: in_flight_def d')
    have "received d' j @ queued d' j = received d j @ queued d j" for j
      using get c by (simp add: received_def queued_def d')
    with placed inv flight c pk show ?thesis
      by (auto simp: disp_inv_def hand_list_def keyed_pipes_set d')
  next
    case (Raise e)
    with step get next_ have d': "d' = d\<lparr>d_pipes := dict_set k p' (d_pipes d)\<rparr>" by simp
    note c = chunks_next_raise [OF next_ [unfolded Raise]]
    have "in_flight d' = in_flight d" using sum c by (simp add: in_flight_def d')
    moreover have "received d' j @ queued d' j = received d j @ queued d j" for j
      using get c by (simp add: received_def queued_def d')
    ultimately show ?thesis
      using placed inv c pk by (auto simp: disp_inv_def hand_list_def keyed_pipes_set d')
  qed (use step get next_ in simp)
qed

lemma disp_inv_finish:
  assumes inv: "disp_inv src d" and step: "disp_step (D_finish b) d = Some d'"
  shows "disp_inv src d'"
proof -
  let ?f = "end_pipe (if b then d_fault d else None)"
  from step have d': "d' = d\<lparr>d_pipes := map (\<lambda>(k, p). (k, ?f p)) (d_pipes d), d_finished := True\<rparr>"
    by (auto split: if_splits)
  have "in_flight d' = in_flight d"
    by (simp add: in_flight_def d' comp_def case_prod_unfold)
  moreover have "received d' j @ queued d' j = received d j @ queued d j" for j
    by (simp add: received_def queued_def d' dict_get_map_values split: option.split)
  ultimately show ?thesis
    using inv by (auto simp: disp_inv_def hand_list_def keyed_pipes_map d')
qed

lemma disp_inv_simple:
  assumes inv: "disp_inv src d" and step: "disp_step e d = Some d'" and "e \<in> {D_fetch, D_discard, D_stop}"
  shows "disp_inv src d'"
proof -
  from inv obtain placed where placed: "d_taken d = placed @ hand_list d"
    "\<And>k. subseq (received d k @ queued d k) placed"
    by (auto simp: disp_inv_def)
  have same: "received d' = received d" "queued d' = queued d" "in_flight d' = in_flight d" "d_pipes d' = d_pipes d"
    "d_log d' = d_log d"
    using assms(2,3) by (auto simp: received_def queued_def in_flight_def fun_eq_iff split: list.splits option.splits if_splits)
  from assms(3) consider "e = D_fetch" | "e = D_discard" | "e = D_stop" by blast
  then show ?thesis
  proof cases
    case 1
    with step inv same placed show ?thesis
      by (auto simp: disp_inv_def hand_list_def split: list.splits if_splits)
  next
    case 2
    with step inv same placed(1) subseq_order.trans [OF placed(2) subseq_rev_drop_many [OF subseq_order.refl]] show ?thesis
      by (auto simp: disp_inv_def hand_list_def subseq_snoc split: option.splits if_splits)
  next
    case 3
    with step inv same placed show ?thesis
      by (auto simp: disp_inv_def hand_list_def)
  qed
qed

lemma disp_inv_step:
  assumes "disp_inv src d" "disp_step e d = Some d'"
  shows "disp_inv src d'"
  using assms disp_inv_place disp_inv_consume disp_inv_finish disp_inv_simple
  by (cases e) blast+

lemma disp_inv_run: "disp_inv src d \<Longrightarrow> disp_run es d = Some d' \<Longrightarrow> disp_inv src d'"
  by (induction es arbitrary: d) (auto simp: bind_eq_Some_conv intro: disp_inv_step)

section \<open>Properties of the dispatcher\<close>

text \<open>The dispatcher neither loses nor duplicates: whatever the schedule, what it read from
  the producer is what the consumers received plus what the pipes hold plus the item in hand, plus
  (only after \<open>stop\<close>) one dropped item; and each consumer receives its items in the order they
  were produced.\<close>

theorem dispatch_conserves:
  assumes "\<forall>p\<in>set ps. p_queue p = []" "disp_run es (start_dispatcher ps src flt) = Some d"
  shows "d_taken d @ d_source d = src
    \<and> mset (d_taken d) = in_flight d + mset (map snd (d_log d)) + mset (hand_list d) + mset (d_lost d)
    \<and> (\<forall>k. subseq (received d k @ queued d k) (d_taken d))
    \<and> (d_running d \<longrightarrow> d_lost d = [])"
proof -
  have "disp_inv src d" by (rule disp_inv_run [OF disp_inv_start [OF assms(1)] assms(2)])
  then have "\<exists>placed. d_taken d = placed @ hand_list d \<and> (\<forall>k. subseq (received d k @ queued d k) placed)"
    and rest: "d_taken d @ d_source d = src" "d_running d \<longrightarrow> d_lost d = []"
      "mset (d_taken d) = in_flight d + mset (map snd (d_log d)) + mset (hand_list d) + mset (d_lost d)"
    by (simp_all add: disp_inv_def)
  then have "\<forall>k. subseq (received d k @ queued d k) (d_taken d)"
    using subseq_append_right by metis
  with rest show ?thesis by blast
qed

theorem dispatch_conserves_witness:
  "\<exists>d. disp_run [D_fetch, D_place, D_fetch, D_place, D_consume ''a'', D_fetch, D_stop, D_discard]
       (start_dispatcher [new_pipe ''a'' 1, new_pipe ''b'' 1] [PInt 1, PInt 2, PInt 3] None) = Some d
     \<and> mset (d_taken d) = in_flight d + mset (map snd (d_log d)) + mset (hand_list d) + mset (d_lost d)
     \<and> received d ''a'' = [PInt 1] \<and> queued d ''b'' = [PInt 2] \<and> d_lost d = [PInt 3]"
proof -
  let ?ps = "[new_pipe ''a'' 1, new_pipe ''b'' 1]"
  let ?es = "[D_fetch, D_place, D_fetch, D_place, D_consume ''a'', D_fetch, D_stop, D_discard]"
  let ?s = "start_dispatcher ?ps [PInt 1, PInt 2, PInt 3] None"
  have run: "\<exists>d. disp_run ?es ?s = Some d
      \<and> received d ''a'' = [PInt 1] \<and> queued d ''b'' = [PInt 2] \<and> d_lost d = [PInt 3]"
    by (simp add: start_dispatcher_def new_pipe_def dict_set_simps least_loaded_def dict_values_def
        pipe_full_def pipe_size_def pipe_put_def put_pipe_def received_def queued_def chunks_def)
  then obtain d where d: "disp_run ?es ?s = Some d" "received d ''a'' = [PInt 1]" "queued d ''b'' = [PInt 2]"
    "d_lost d = [PInt 3]"
    by blast
  with dispatch_conserves [OF _ d(1)] show ?thesis by auto
qed

text \<open>An item goes to a pipe that is not full and that no other open pipe undercuts; the
  dispatcher waits exactly when every pipe is full.\<close>

theorem dispatch_least_loaded:
  assumes "keyed_pipes (d_pipes d)" "d_hand d = Some x" "d_running d"
  shows "(disp_step D_place d = None \<longleftrightarrow> (\<forall>k p. dict_get (d_pipes d) k = Some p \<longrightarrow> pipe_full p))
    \<and> (\<forall>d'. disp_step D_place d = Some d' \<longrightarrow>
         (\<exists>k t. dict_get (d_pipes d) k = Some t \<and> \<not> pipe_full t
            \<and> (\<forall>j p. dict_get (d_pipes d) j = Some p \<longrightarrow> \<not> pipe_full p \<longrightarrow> pipe_size t \<le> pipe_size p)
            \<and> dict_get (d_pipes d') k = Some (t\<lparr>p_queue := p_queue t @ [Chunk x]\<rparr>)
            \<and> (\<forall>j. j \<noteq> k \<longrightarrow> dict_get (d_pipes d') j = dict_get (d_pipes d) j)))"
proof (cases "least_loaded (d_pipes d)")
  case None
  then have full: "\<forall>p\<in>set (dict_values (d_pipes d)). pipe_full p"
    by (simp add: least_loaded_None)
  have "\<forall>k p. dict_get (d_pipes d) k = Some p \<longrightarrow> pipe_full p"
  proof (intro allI impI)
    fix k p assume "dict_get (d_pipes d) k = Some p"
    with full dict_get_values [of "d_pipes d" k p] show "pipe_full p" by simp
  qed
  with None assms show ?thesis by simp
next
  case (Some t)
  note t = least_loaded_Some [OF Some]
  have get: "dict_get (d_pipes d) (p_id t) = Some t" by (rule keyed_pipes_value [OF assms(1) t(1)])
  let ?t = "t\<lparr>p_queue := p_queue t @ [Chunk x]\<rparr>"
  have step: "disp_step D_place d = Some (d\<lparr>d_pipes := dict_set (p_id t) ?t (d_pipes d), d_hand := None\<rparr>)"
    using Some assms t(2) by (simp add: pipe_put_def put_pipe_def)
  have min: "\<forall>j p. dict_get (d_pipes d) j = Some p \<longrightarrow> \<not> pipe_full p \<longrightarrow> pipe_size t \<le> pipe_size p"
  proof (intro allI impI)
    fix j p assume "dict_get (d_pipes d) j = Some p" "\<not> pipe_full p"
    with t(3) [of p] dict_get_values [of "d_pipes d" j p] show "pipe_size t \<le> pipe_size p" by simp
  qed
  show ?thesis
  proof (intro conjI allI impI)
    show "disp_step D_place d = None \<longleftrightarrow> (\<forall>k p. dict_get (d_pipes d) k = Some p \<longrightarrow> pipe_full p)"
      using get t(2) by (auto simp: step simp del: disp_step.simps)
  next
    fix d' assume "disp_step D_place d = Some d'"
    then have "d_pipes d' = dict_set (p_id t) ?t (d_pipes d)" by (auto simp: step simp del: disp_step.simps)
    with get t(2) min show "\<exists>k t. dict_get (d_pipes d) k = Some t \<and> \<not> pipe_full t
        \<and> (\<forall>j p. dict_get (d_pipes d) j = Some p \<longrightarrow> \<not> pipe_full p \<longrightarrow> pipe_size t \<le> pipe_size p)
        \<and> dict_get (d_pipes d') k = Some (t\<lparr>p_queue := p_queue t @ [Chunk x]\<rparr>)
        \<and> (\<forall>j. j \<noteq> k \<longrightarrow> dict_get (d_pipes d') j = dict_get (d_pipes d) j)"
      by (intro exI [of _ "p_id t"] exI [of _ t]) simp
  qed
qed

theorem dispatch_least_loaded_witness:
  "\<exists>d'. disp_step D_place ((start_dispatcher [new_pipe ''a'' 2, new_pipe ''b'' 2] [] None)\<lparr>d_hand := Some PNone\<rparr>)
     = Some d' \<and> queued d' ''a'' = [PNone] \<and> queued d' ''b'' = []"
proof -
  let ?d = "(start_dispatcher [new_pipe ''a'' 2, new_pipe ''b'' 2] [] None)\<lparr>d_hand := Some PNone\<rparr>"
  have "keyed_pipes (d_pipes ?d)" using keyed_pipes_start by simp
  from dispatch_least_loaded [OF this, of PNone]
  have "disp_step D_place ?d \<noteq> None"
    by (auto simp: start_dispatcher_def dict_set_simps pipe_full_def)
  then show ?thesis
    by (simp add: start_dispatcher_def dict_set_simps least_loaded_def dict_values_def pipe_full_def
        pipe_size_def pipe_put_def put_pipe_def queued_def chunks_def new_pipe_def)
qed

text \<open>Before the end, the pipes hold chunks only and carry no failure.\<close>

definition live_pipe :: "pipe \<Rightarrow> bool" where
  "live_pipe p \<longleftrightarrow> p_error p = None \<and> p_queue p = map Chunk (chunks p)"

definition live_disp :: "exn option \<Rightarrow> disp \<Rightarrow> bool" where
  "live_disp flt d \<longleftrightarrow>
     d_fault d = flt \<and> (\<not> d_finished d \<longrightarrow> (\<forall>k p. dict_get (d_pipes d) k = Some p \<longrightarrow> live_pipe p))"

lemma live_pipe_put: "live_pipe p \<Longrightarrow> pipe_put (Chunk x) p = (Ret u, p') \<Longrightarrow> live_pipe p'"
  using chunks_put [of x p u p'] by (auto simp: live_pipe_def pipe_put_def split: if_split_asm)

lemma live_pipe_next: "live_pipe p \<Longrightarrow> pipe_next p = (r, p') \<Longrightarrow> live_pipe p'"
  by (cases rule: pipe_next_cases [of p]) (auto simp: live_pipe_def chunks_def)

lemma live_disp_step:
  assumes live: "live_disp flt d" and step: "disp_step e d = Some d'" and keyed: "keyed_pipes (d_pipes d)"
  shows "live_disp flt d'"
proof (cases e)
  case D_place
  with step obtain x t t' u where t: "least_loaded (d_pipes d) = Some t" "pipe_put (Chunk x) t = (Ret u, t')"
    and d': "d' = d\<lparr>d_pipes := put_pipe t' (d_pipes d), d_hand := None\<rparr>"
    by (auto split: option.splits if_splits prod.splits outcome.splits)
  have "dict_get (d_pipes d) (p_id t) = Some t"
    by (rule keyed_pipes_value [OF keyed least_loaded_Some(1) [OF t(1)]])
  with live live_pipe_put [OF _ t(2)] show ?thesis
    by (auto simp: live_disp_def d' put_pipe_def)
next
  case (D_consume k)
  with step obtain p p' r where p: "dict_get (d_pipes d) k = Some p" "pipe_next p = (r, p')"
    and d': "d_pipes d' = dict_set k p' (d_pipes d)" "d_fault d' = d_fault d" "d_finished d' = d_finished d"
    by (auto split: option.splits prod.splits outcome.splits)
  with live live_pipe_next [OF _ p(2)] show ?thesis
    by (auto simp: live_disp_def)
qed (use live step in \<open>auto simp: live_disp_def split: list.splits option.splits if_splits\<close>)

lemma live_disp_run:
  assumes "live_disp flt d" "disp_inv src d" "disp_run es d = Some d'"
  shows "live_disp flt d'"
  using assms
proof (induction es arbitrary: d)
  case (Cons e es)
  then obtain d1 where d1: "disp_step e d = Some d1" "disp_run es d1 = Some d'"
    by (auto simp: bind_eq_Some_conv)
  from Cons.prems(2) have "keyed_pipes (d_pipes d)" by (simp add: disp_inv_def)
  from live_disp_step [OF Cons.prems(1) d1(1) this] disp_inv_step [OF Cons.prems(2) d1(1)] d1(2)
  show ?case by (rule Cons.IH)
qed simp

lemma start_pipes_from:
  "(k, p) \<in> set (d_pipes (start_dispatcher ps src flt)) \<Longrightarrow> p \<in> set ps"
proof -
  have "snd ` set (fold (\<lambda>p. dict_set (p_id p) p) ps qs) \<subseteq> set ps \<union> snd ` set qs"
    for qs :: "(string, pipe) dict"
  proof (induction ps arbitrary: qs)
    case (Cons p ps)
    have "snd ` set (dict_set (p_id p) p qs) \<subseteq> insert p (snd ` set qs)"
      using set_dict_set [of "p_id p" p qs] by force
    with Cons.IH [of "dict_set (p_id p) p qs"] show ?case by auto
  qed simp
  from this [of "[]"] show "(k, p) \<in> set (d_pipes (start_dispatcher ps src flt)) \<Longrightarrow> p \<in> set ps"
    by (force simp: start_dispatcher_def)
qed

lemma live_disp_start:
  assumes "\<forall>p\<in>set ps. p_queue p = [] \<and> p_error p = None"
  shows "live_disp flt (start_dispatcher ps src flt)"
proof -
  have "live_pipe p" if "dict_get (d_pipes (start_dispatcher ps src flt)) k = Some p" for k p
    using assms start_pipes_from [OF dict_get_in [OF that]] by (simp add: live_pipe_def no_chunks)
  moreover have "d_fault (start_dispatcher ps src flt) = flt" by (simp add: start_dispatcher_def)
  ultimately show ?thesis by (simp add: live_disp_def)
qed

text \<open>When the dispatcher ends, every consumer ends too: it still receives the chunks its pipe
  holds, in order, and then the exception of the producer, or the regular end when the producer
  did not fail. No consumer is left waiting, also when its pipe was full at the end.\<close>

theorem dispatch_ends_consumers:
  assumes "\<forall>p\<in>set ps. p_queue p = [] \<and> p_error p = None"
    "disp_run es (start_dispatcher ps src flt) = Some d" "disp_step (D_finish b) d = Some d'"
    "dict_get (d_pipes d') k = Some p"
  shows "pipe_drain (Suc (length (chunks p))) p
    = (chunks p, Some (case flt of Some e \<Rightarrow> if b then e else StopAsyncIteration | None \<Rightarrow> StopAsyncIteration))"
proof -
  have "disp_inv src (start_dispatcher ps src flt)" using assms(1) by (simp add: disp_inv_start)
  from live_disp_run [OF live_disp_start [OF assms(1)] this assms(2)] have live: "live_disp flt d" .
  let ?f = "end_pipe (if b then d_fault d else None)"
  from assms(3) have d': "d_pipes d' = map (\<lambda>(k, p). (k, ?f p)) (d_pipes d)" and "\<not> d_finished d"
    by (auto split: if_split_asm)
  with assms(4) live obtain q where q: "p = ?f q" "live_pipe q" "d_fault d = flt"
    by (auto simp: dict_get_map_values live_disp_def)
  have e: "p_closed p" "p_queue p = map Chunk (chunks q) @ (if pipe_full q then [] else [Sentinel])"
    "pipe_end p = (case flt of Some e \<Rightarrow> if b then e else StopAsyncIteration | None \<Rightarrow> StopAsyncIteration)"
    using q by (auto simp: end_pipe_def pipe_fail_fields pipe_put_nowait_def pipe_end_def live_pipe_def split: option.split)
  have c: "chunks p = chunks q" using q(1) by simp
  show ?thesis
    using pipe_drain_closed [OF e(1,2), of "Suc (length (chunks p))"] e(3) c by simp
qed

theorem dispatch_ends_consumers_witness:
  "\<exists>d d' p. disp_run [D_fetch, D_place] (start_dispatcher [new_pipe ''a'' 1] [PInt 1] (Some TypeError)) = Some d
     \<and> disp_step (D_finish True) d = Some d' \<and> dict_get (d_pipes d') ''a'' = Some p
     \<and> chunks p = [PInt 1] \<and> pipe_drain (Suc (length (chunks p))) p = (chunks p, Some TypeError)"
proof -
  let ?s = "start_dispatcher [new_pipe ''a'' 1] [PInt 1] (Some TypeError)"
  have "\<exists>d d' p. disp_run [D_fetch, D_place] ?s = Some d
     \<and> disp_step (D_finish True) d = Some d' \<and> dict_get (d_pipes d') ''a'' = Some p \<and> chunks p = [PInt 1]"
    by (simp add: start_dispatcher_def new_pipe_def dict_set_simps least_loaded_def dict_values_def
        pipe_full_def pipe_size_def pipe_put_def put_pipe_def end_pipe_def pipe_fail_def pipe_put_nowait_def
        pipe_close_def chunks_def)
  then obtain d d' p where d: "disp_run [D_fetch, D_place] ?s = Some d"
    "disp_step (D_finish True) d = Some d'" "dict_get (d_pipes d') ''a'' = Some p" "chunks p = [PInt 1]"
    by blast
  have "\<forall>p\<in>set [new_pipe ''a'' 1]. p_queue p = [] \<and> p_error p = None" by simp
  from dispatch_ends_consumers [OF this d(1,2,3)]
  have "pipe_drain (Suc (length (chunks p))) p = (chunks p, Some TypeError)" by simp
  with d show ?thesis by (intro exI [of _ d] exI [of _ d'] exI [of _ p] conjI)
qed

section \<open>The memory module\<close>

text \<open>
  The owner of the pipes of a node. A dispatcher is listed with the ids of its pipes and its
  running flag, a network transport with the id of its pipe and whether its task is alive.
\<close>

record memory =
  m_name :: string
  m_pipes :: "(string, pipe) dict"
  m_counter :: nat
  m_dispatchers :: "(string list \<times> bool) list"
  m_transports :: "(string \<times> bool) list"

definition new_memory :: "string \<Rightarrow> memory" where
  "new_memory name = \<lparr>m_name = name, m_pipes = [], m_counter = 0, m_dispatchers = [], m_transports = []\<rparr>"

definition pipe_name :: "string \<Rightarrow> nat \<Rightarrow> string" where
  "pipe_name name n = name @ ''_'' @ string_of_nat n"

definition create_pipe :: "int \<Rightarrow> memory \<Rightarrow> pipe \<times> memory" where
  "create_pipe buff m =
     (let n = Suc (m_counter m); p = new_pipe (pipe_name (m_name m) n) buff
      in (p, m\<lparr>m_counter := n, m_pipes := dict_set (p_id p) p (m_pipes m)\<rparr>))"

definition create_dispatcher :: "string list \<Rightarrow> memory \<Rightarrow> memory" where
  "create_dispatcher ids m = m\<lparr>m_dispatchers := m_dispatchers m @ [(ids, True)]\<rparr>"

definition attach_transport :: "string \<Rightarrow> memory \<Rightarrow> memory" where
  "attach_transport pid m = m\<lparr>m_transports := m_transports m @ [(pid, True)]\<rparr>"

definition memory_stop :: "memory \<Rightarrow> memory" where
  "memory_stop m =
     m\<lparr>m_transports := map (\<lambda>(i, _). (i, False)) (m_transports m),
       m_dispatchers := map (\<lambda>(is, _). (is, False)) (m_dispatchers m),
       m_pipes := map (\<lambda>(k, p). (k, pipe_close p)) (m_pipes m)\<rparr>"

lemma pipe_name_inject: "pipe_name a m = pipe_name a n \<Longrightarrow> m = n"
  by (simp add: pipe_name_def string_of_nat_inject)

fun create_pipes :: "int list \<Rightarrow> memory \<Rightarrow> pipe list \<times> memory" where
  "create_pipes [] m = ([], m)"
| "create_pipes (b # bs) m =
     (let (p, m1) = create_pipe b m; (ps, m2) = create_pipes bs m1 in (p # ps, m2))"

lemma create_pipes_ids:
  "create_pipes bs m = (ps, m') \<Longrightarrow>
     map p_id ps = map (pipe_name (m_name m)) [Suc (m_counter m)..<Suc (m_counter m + length bs)]
     \<and> map p_buff ps = bs"
proof (induction bs arbitrary: m ps)
  case (Cons b bs)
  obtain p m1 where c: "create_pipe b m = (p, m1)" by (cases "create_pipe b m")
  then have p: "p_id p = pipe_name (m_name m) (Suc (m_counter m))" "p_buff p = b"
    and m1: "m_name m1 = m_name m" "m_counter m1 = Suc (m_counter m)"
    by (auto simp: create_pipe_def Let_def)
  from Cons.prems c obtain qs where qs: "create_pipes bs m1 = (qs, m')" "ps = p # qs"
    by (auto split: prod.splits)
  from Cons.IH [OF qs(1)] p m1 qs(2) show ?case by (simp add: upt_conv_Cons del: upt_Suc)
qed simp

text \<open>The pipes a node creates have pairwise different names, for any number of pipes, so no pipe
  replaces another in the table of the node or of a dispatcher.\<close>

theorem pipe_names_distinct:
  assumes "create_pipes bs m = (ps, m')"
  shows "distinct (map p_id ps) \<and> length ps = length bs"
proof -
  from create_pipes_ids [OF assms] have ids: "map p_id ps =
      map (pipe_name (m_name m)) [Suc (m_counter m)..<Suc (m_counter m + length bs)]" by blast
  have "inj_on (pipe_name (m_name m)) A" for A by (auto intro: inj_onI pipe_name_inject)
  then have "distinct (map p_id ps)" unfolding ids by (simp add: distinct_map)
  moreover have "length (map p_id ps) = length bs" unfolding ids by (simp del: upt_Suc)
  ultimately show ?thesis by simp
qed

theorem pipe_names_distinct_witness:
  "distinct (map p_id (fst (create_pipes [1, 2, 3] (new_memory ''mem''))))
     \<and> length (fst (create_pipes [1, 2, 3] (new_memory ''mem''))) = 3"
  using pipe_names_distinct [of "[1, 2, 3]" "new_memory ''mem''"]
  by (cases "create_pipes [1, 2, 3] (new_memory ''mem'')") simp

end
