(* ===== verification/Streams.thy ===== *)
theory Streams
  imports Services Dispatch
begin

text \<open>
  Inbound streams: \<open>networking/stream_registry.py\<close> and \<open>LocalExecutor.open_stream\<close> of
  \<open>internal_modules/executor.py\<close>. The registry maps the label of a stream to its pipe. The
  consumer keeps the pipe after the registry forgets the label, so pipes live in a heap
  (\<open>sr_heap\<close>) and the registry holds references. A started consumer is a \<open>consumer_task\<close>.
\<close>

record inbound =
  in_label :: string
  in_pipe :: nat
  in_ready :: bool

record stream_reg =
  sr_streams :: "(string, inbound) dict"
  sr_heap :: "(nat, pipe) dict"
  sr_next :: nat

definition new_stream_reg :: stream_reg where
  "new_stream_reg = \<lparr>sr_streams = [], sr_heap = [], sr_next = 0\<rparr>"

definition alloc_pipe :: "pipe \<Rightarrow> stream_reg \<Rightarrow> nat \<times> stream_reg" where
  "alloc_pipe p s = (sr_next s, s\<lparr>sr_heap := dict_set (sr_next s) p (sr_heap s), sr_next := Suc (sr_next s)\<rparr>)"

text \<open>An operation of the pipe at a reference; there is one for every registered stream.\<close>

definition on_pipe :: "nat \<Rightarrow> (pipe, 'a) act \<Rightarrow> (stream_reg, 'a) act" where
  "on_pipe r f s =
     (case dict_get (sr_heap s) r of
        None \<Rightarrow> (Raise AttributeError, s)
      | Some p \<Rightarrow> (let (x, p') = f p in (x, s\<lparr>sr_heap := dict_set r p' (sr_heap s)\<rparr>)))"

definition stream_register :: "string \<Rightarrow> nat \<Rightarrow> stream_reg \<Rightarrow> stream_reg" where
  "stream_register lbl r s =
     s\<lparr>sr_streams := dict_set lbl \<lparr>in_label = lbl, in_pipe = r, in_ready = False\<rparr> (sr_streams s)\<rparr>"

definition stream_get :: "stream_reg \<Rightarrow> string \<Rightarrow> inbound option" where
  "stream_get s lbl = dict_get (sr_streams s) lbl"

definition stream_remove :: "string \<Rightarrow> stream_reg \<Rightarrow> stream_reg" where
  "stream_remove lbl s = s\<lparr>sr_streams := dict_pop lbl (sr_streams s)\<rparr>"

definition stream_feed :: "string \<Rightarrow> pyval \<Rightarrow> (stream_reg, unit) act" where
  "stream_feed lbl v s =
     (case stream_get s lbl of
        None \<Rightarrow> (Ret (), s)
      | Some i \<Rightarrow> on_pipe (in_pipe i) (pipe_put (Chunk v)) s)"

definition stream_close :: "string \<Rightarrow> (stream_reg, unit) act" where
  "stream_close lbl s =
     (case stream_get s lbl of
        None \<Rightarrow> (Ret (), s)
      | Some i \<Rightarrow>
          act_seq (on_pipe (in_pipe i) (act_seq (pipe_put Sentinel) (act_modify pipe_close)))
            (act_modify (stream_remove lbl)) s)"

definition stream_fail :: "string \<Rightarrow> exn \<Rightarrow> (stream_reg, unit) act" where
  "stream_fail lbl e s =
     (case stream_get s lbl of
        None \<Rightarrow> (Ret (), s)
      | Some i \<Rightarrow>
          act_seq (on_pipe (in_pipe i) (act_modify (pipe_fail e))) (act_modify (stream_remove lbl)) s)"

section \<open>Opening a stream\<close>

record consumer_task =
  ct_wrapper :: "bound option"
  ct_consumer :: bound
  ct_pipe :: nat
  ct_data :: pyval
  ct_label :: string

definition inbound_name :: "string \<Rightarrow> string" where
  "inbound_name lbl = ''inbound_'' @ take 8 lbl"

definition opt_text :: "string option \<Rightarrow> string" where
  "opt_text x = (case x of None \<Rightarrow> ''None'' | Some s \<Rightarrow> s)"

definition find_handler :: "manager \<Rightarrow> MsgPack \<Rightarrow> exn + (bound option \<times> bound)" where
  "find_handler m p =
     (case get_service m (service p) of
        None \<Rightarrow> Inl (MethodNotFound (service p) (meth p))
      | Some e \<Rightarrow>
          (case Option.bind (meth p) (dict_get (case e of E_Self s \<Rightarrow> get_stream_handlers s | E_Method b \<Rightarrow> [])) of
             None \<Rightarrow> Inl (MethodNotFound (service p) (Some (''stream:'' @ opt_text (meth p))))
           | Some h \<Rightarrow>
               (case h_consumer h of
                  None \<Rightarrow> Inl (MethodNotFound (service p) (Some (''stream:'' @ opt_text (meth p))))
                | Some c \<Rightarrow> Inr (h_wrapper h, c))))"

text \<open>
  The stream is registered and its consumer started before the reply is built; the reply
  needs the destination of the request as its source.
\<close>

definition open_stream ::
  "manager \<Rightarrow> string \<Rightarrow> int \<Rightarrow> MsgPack \<Rightarrow> stream_reg \<Rightarrow> (exn + MsgPack) \<times> consumer_task option \<times> stream_reg" where
  "open_stream m fresh buff p s =
     (case find_handler m p of
        Inl e \<Rightarrow> (Inl e, None, s)
      | Inr (w, c) \<Rightarrow>
          (let (r, s1) = alloc_pipe (new_pipe (inbound_name (label p)) buff) s;
               s2 = stream_register (label p) r s1;
               t = \<lparr>ct_wrapper = w, ct_consumer = c, ct_pipe = r, ct_data = data p, ct_label = label p\<rparr>
           in (case dst p of
                 None \<Rightarrow> (Inl ValidationError, Some t, s2)
               | Some d \<Rightarrow>
                   (Inr ((new_pack STREAM_READY d (Some (source p)) fresh)
                           \<lparr>label := label p, data := PStr ''ready''\<rparr>), Some t, s2))))"

section \<open>Delivery\<close>

definition inbound_pipe :: "stream_reg \<Rightarrow> string \<Rightarrow> pipe option" where
  "inbound_pipe s lbl = Option.bind (stream_get s lbl) (\<lambda>i. dict_get (sr_heap s) (in_pipe i))"

text \<open>References are allocated below the counter, and every stream has its pipe.\<close>

definition reg_ok :: "stream_reg \<Rightarrow> bool" where
  "reg_ok s \<longleftrightarrow>
     (\<forall>r p. dict_get (sr_heap s) r = Some p \<longrightarrow> r < sr_next s)
     \<and> (\<forall>l i. stream_get s l = Some i \<longrightarrow> in_label i = l \<and> dict_get (sr_heap s) (in_pipe i) \<noteq> None)"

lemma new_stream_reg_ok [simp, intro]: "reg_ok new_stream_reg"
  by (simp add: reg_ok_def new_stream_reg_def stream_get_def)

lemma stream_get_simps [simp]:
  "stream_get (snd (alloc_pipe p s)) l = stream_get s l"
  "stream_get (stream_register lbl r s) l =
     (if l = lbl then Some \<lparr>in_label = lbl, in_pipe = r, in_ready = False\<rparr> else stream_get s l)"
  "stream_get (stream_remove lbl s) l = (if l = lbl then None else stream_get s l)"
  "stream_get (s\<lparr>sr_heap := h\<rparr>) l = stream_get s l"
  by (simp_all add: stream_get_def alloc_pipe_def stream_register_def stream_remove_def)

lemma sr_heap_simps [simp]:
  "sr_heap (stream_register lbl r s) = sr_heap s"
  "sr_heap (stream_remove lbl s) = sr_heap s"
  "sr_next (stream_register lbl r s) = sr_next s"
  "sr_next (stream_remove lbl s) = sr_next s"
  by (simp_all add: stream_register_def stream_remove_def)

lemma on_pipe_keeps: "keeps reg_ok (on_pipe r f)"
  by (rule keepsI) (auto simp: on_pipe_def reg_ok_def Let_def split: option.split prod.split)

lemma stream_remove_keeps: "keeps reg_ok (act_modify (stream_remove lbl))"
  by (rule keeps_modify) (auto simp: reg_ok_def)

lemma stream_feed_keeps: "keeps reg_ok (stream_feed lbl v)"
  by (rule keepsI) (auto simp: stream_feed_def split: option.split intro: keepsD [OF on_pipe_keeps])

lemma stream_close_keeps: "keeps reg_ok (stream_close lbl)"
  by (rule keepsI)
    (auto simp: stream_close_def split: option.split
      intro!: keepsD [OF keeps_seq [OF on_pipe_keeps stream_remove_keeps]])

lemma stream_fail_keeps: "keeps reg_ok (stream_fail lbl e)"
  by (rule keepsI)
    (auto simp: stream_fail_def split: option.split
      intro!: keepsD [OF keeps_seq [OF on_pipe_keeps stream_remove_keeps]])

lemma alloc_register_ok:
  assumes "reg_ok s" "alloc_pipe p s = (r, s1)"
  shows "reg_ok (stream_register lbl r s1)" "r = sr_next s" "dict_get (sr_heap s1) r = Some p"
  using assms by (auto simp: reg_ok_def alloc_pipe_def stream_get_def stream_register_def less_Suc_eq)

lemma open_stream_ok:
  assumes "reg_ok s" "open_stream m fresh buff p s = (res, t, s')"
  shows "reg_ok s'"
proof (cases "find_handler m p")
  case (Inr h)
  obtain r s1 where a: "alloc_pipe (new_pipe (inbound_name (label p)) buff) s = (r, s1)"
    by (cases "alloc_pipe (new_pipe (inbound_name (label p)) buff) s")
  with assms Inr have "s' = stream_register (label p) r s1"
    by (auto simp: open_stream_def Let_def split: option.splits prod.splits)
  with alloc_register_ok(1) [OF assms(1) a] show ?thesis by simp
qed (use assms in \<open>simp add: open_stream_def\<close>)

text \<open>The traffic of one stream: chunks arriving, and the consumer asking for the next one.\<close>

datatype st_event = St_feed pyval | St_next

fun stream_exec :: "string \<Rightarrow> nat \<Rightarrow> st_event list \<Rightarrow> stream_reg \<Rightarrow> pyval list \<times> pyval list \<times> stream_reg" where
  "stream_exec lbl r [] s = ([], [], s)"
| "stream_exec lbl r (St_feed v # es) s =
     (let (x, s1) = stream_feed lbl v s; (fed, got, s2) = stream_exec lbl r es s1
      in (case x of Ret _ \<Rightarrow> v # fed | _ \<Rightarrow> fed, got, s2))"
| "stream_exec lbl r (St_next # es) s =
     (let (x, s1) = on_pipe r pipe_next s; (fed, got, s2) = stream_exec lbl r es s1
      in (fed, case x of Ret v \<Rightarrow> v # got | _ \<Rightarrow> got, s2))"

text \<open>A stream that is open: registered under its label, its pipe live and not closed.\<close>

definition open_at :: "string \<Rightarrow> nat \<Rightarrow> stream_reg \<Rightarrow> pipe \<Rightarrow> bool" where
  "open_at lbl r s p \<longleftrightarrow>
     (\<exists>i. stream_get s lbl = Some i \<and> in_pipe i = r) \<and> dict_get (sr_heap s) r = Some p
     \<and> live_pipe p \<and> \<not> p_closed p"

lemma open_at_feed:
  assumes "open_at lbl r s p"
  obtains (fed) s1 p1 where "stream_feed lbl v s = (Ret (), s1)" "open_at lbl r s1 p1"
      "chunks p1 = chunks p @ [v]" "p_buff p1 = p_buff p"
    | (stuck) "stream_feed lbl v s = (Suspended, s)"
proof (cases "pipe_full p")
  case True
  with assms have "stream_feed lbl v s = (Suspended, s\<lparr>sr_heap := dict_set r p (sr_heap s)\<rparr>)"
    by (auto simp: open_at_def stream_feed_def on_pipe_def pipe_put_def)
  moreover have "dict_set r p (sr_heap s) = sr_heap s"
    using assms by (simp add: open_at_def dict_get_def dict_set_def update_triv)
  ultimately show ?thesis by (intro stuck) simp
next
  case False
  let ?p = "p\<lparr>p_queue := p_queue p @ [Chunk v]\<rparr>"
  have put: "pipe_put (Chunk v) p = (Ret (), ?p)" using False by (simp add: pipe_put_def)
  have live: "live_pipe p" using assms by (simp add: open_at_def)
  show ?thesis
  proof (rule fed)
    show "stream_feed lbl v s = (Ret (), s\<lparr>sr_heap := dict_set r ?p (sr_heap s)\<rparr>)"
      using assms put by (auto simp: open_at_def stream_feed_def on_pipe_def)
    show "open_at lbl r (s\<lparr>sr_heap := dict_set r ?p (sr_heap s)\<rparr>) ?p"
      using assms live_pipe_put [OF live put] by (simp add: open_at_def)
  qed (use chunks_put [OF put] in simp_all)
qed

lemma open_at_next:
  assumes "open_at lbl r s p"
  obtains (got) v s1 p1 where "on_pipe r pipe_next s = (Ret v, s1)" "open_at lbl r s1 p1"
      "chunks p = v # chunks p1" "p_buff p1 = p_buff p"
    | (starved) "on_pipe r pipe_next s = (Suspended, s)"
proof (cases rule: pipe_next_cases [of p])
  case (chunk v xs)
  let ?p = "p\<lparr>p_queue := xs\<rparr>"
  have live: "live_pipe p" using assms by (simp add: open_at_def)
  show ?thesis
  proof (rule got)
    show "on_pipe r pipe_next s = (Ret v, s\<lparr>sr_heap := dict_set r ?p (sr_heap s)\<rparr>)"
      using assms chunk(2) by (auto simp: open_at_def on_pipe_def)
    show "open_at lbl r (s\<lparr>sr_heap := dict_set r ?p (sr_heap s)\<rparr>) ?p"
      using assms live_pipe_next [OF live chunk(2)] by (simp add: open_at_def)
    show "chunks p = v # chunks ?p" using chunks_next_ret(1) [OF chunk(2)] .
  qed simp
next
  case (sentinel xs)
  with assms show ?thesis by (auto simp: open_at_def live_pipe_def)
next
  case over
  with assms show ?thesis by (auto simp: open_at_def)
next
  case wait
  have "dict_set r p (sr_heap s) = sr_heap s"
    using assms by (simp add: open_at_def dict_get_def dict_set_def update_triv)
  with wait assms show ?thesis by (intro starved) (auto simp: open_at_def on_pipe_def)
qed

lemma exec_open:
  "open_at lbl r s p \<Longrightarrow> stream_exec lbl r es s = (fed, got, s') \<Longrightarrow>
     \<exists>p'. open_at lbl r s' p' \<and> chunks p @ fed = got @ chunks p' \<and> p_buff p' = p_buff p"
proof (induction es arbitrary: s p fed got)
  case (Cons e es)
  show ?case
  proof (cases e)
    case (St_feed v)
    from Cons.prems(1) show ?thesis
    proof (cases rule: open_at_feed [where v = v])
      case (fed s1 p1)
      with Cons.prems(2) St_feed obtain fed1 where "stream_exec lbl r es s1 = (fed1, got, s')" "fed = v # fed1"
        by (auto split: prod.splits)
      with Cons.IH [OF fed(2)] fed show ?thesis by force
    next
      case stuck
      with Cons St_feed show ?thesis by (auto split: prod.splits)
    qed
  next
    case St_next
    from Cons.prems(1) show ?thesis
    proof (cases rule: open_at_next)
      case (got v s1 p1)
      with Cons.prems(2) St_next obtain got1 where "stream_exec lbl r es s1 = (fed, got1, s')" "got = v # got1"
        by (auto split: prod.splits)
      with Cons.IH [OF got(2)] got show ?thesis by force
    next
      case starved
      with Cons St_next show ?thesis by (auto split: prod.splits)
    qed
  qed
qed auto

lemma open_at_start:
  assumes "reg_ok s" "alloc_pipe (new_pipe k n) s = (r, s1)"
  shows "open_at lbl r (stream_register lbl r s1) (new_pipe k n)"
  using alloc_register_ok(3) [OF assms] by (simp add: open_at_def live_pipe_def chunks_def)

text \<open>A stream that ends regularly is delivered completely: after any interleaving of arriving
  chunks and reads, once the end of the stream was accepted, what the consumer read followed by
  what it still reads is exactly what was fed, in order, and then the iteration stops; the registry
  has forgotten the label.\<close>

theorem stream_delivered_on_eof:
  assumes "reg_ok s" "alloc_pipe (new_pipe k n) s = (r, s1)"
    "stream_exec lbl r es (stream_register lbl r s1) = (fed, got, s2)" "stream_close lbl s2 = (Ret (), s3)"
  shows "\<exists>p rest. dict_get (sr_heap s3) r = Some p \<and> fed = got @ rest
    \<and> pipe_drain (Suc (length rest)) p = (rest, Some StopAsyncIteration) \<and> stream_get s3 lbl = None"
proof -
  from exec_open [OF open_at_start [OF assms(1,2)] assms(3)] obtain p where
    p: "open_at lbl r s2 p" "fed = got @ chunks p"
    by (auto simp: chunks_def)
  let ?p = "pipe_close (p\<lparr>p_queue := p_queue p @ [Sentinel]\<rparr>)"
  have "\<not> pipe_full p"
    using p(1) assms(4) by (auto simp: open_at_def stream_close_def on_pipe_def act_defs pipe_put_def)
  with p(1) assms(4) have "s3 = stream_remove lbl (s2\<lparr>sr_heap := dict_set r ?p (sr_heap s2)\<rparr>)"
    by (auto simp: open_at_def stream_close_def on_pipe_def act_defs pipe_put_def)
  moreover have "pipe_drain (Suc (length (chunks p))) ?p = (chunks p, Some (pipe_end ?p))"
    by (rule pipe_drain_closed [where ts = "[Sentinel]"]) (use p(1) in \<open>simp_all add: open_at_def live_pipe_def\<close>)
  moreover have "pipe_end ?p = StopAsyncIteration"
    using p(1) by (simp add: open_at_def live_pipe_def pipe_end_def)
  ultimately show ?thesis
    using p(2) by (intro exI [of _ ?p] exI [of _ "chunks p"]) simp
qed

theorem stream_delivered_on_eof_witness:
  "\<exists>s2 s3 p. stream_exec ''s'' 0 [St_feed (PInt 1), St_next, St_next, St_feed (PInt 2)]
       (stream_register ''s'' 0 (snd (alloc_pipe (new_pipe ''a'' 2) new_stream_reg)))
         = ([PInt 1, PInt 2], [PInt 1], s2)
     \<and> stream_close ''s'' s2 = (Ret (), s3) \<and> dict_get (sr_heap s3) 0 = Some p
     \<and> pipe_drain 2 p = ([PInt 2], Some StopAsyncIteration) \<and> stream_get s3 ''s'' = None"
proof -
  let ?s1 = "snd (alloc_pipe (new_pipe ''a'' 2) new_stream_reg)"
  let ?es = "[St_feed (PInt 1), St_next, St_next, St_feed (PInt 2)]"
  have a: "alloc_pipe (new_pipe ''a'' 2) new_stream_reg = (0, ?s1)"
    by (simp add: alloc_pipe_def new_stream_reg_def)
  obtain s2 s3 where e: "stream_exec ''s'' 0 ?es (stream_register ''s'' 0 ?s1) = ([PInt 1, PInt 2], [PInt 1], s2)"
    and c: "stream_close ''s'' s2 = (Ret (), s3)"
    by (simp add: stream_register_def alloc_pipe_def new_stream_reg_def stream_feed_def stream_get_def
        stream_close_def on_pipe_def pipe_put_def pipe_full_def dict_set_simps new_pipe_def act_defs)
  from stream_delivered_on_eof [OF new_stream_reg_ok a e c] obtain p rest where
    p: "dict_get (sr_heap s3) 0 = Some p" "[PInt 1, PInt 2] = [PInt 1] @ rest"
    "pipe_drain (Suc (length rest)) p = (rest, Some StopAsyncIteration)" "stream_get s3 ''s'' = None"
    by blast
  from p(2) have rest: "rest = [PInt 2]" by simp
  from p(3) have "pipe_drain 2 p = ([PInt 2], Some StopAsyncIteration)"
    unfolding rest by (simp only: numeral_2_eq_2 list.size add_0 One_nat_def plus_nat.simps)
  with e c p show ?thesis by blast
qed

text \<open>A stream whose producer fails is never taken for a complete one: after any interleaving, the
  consumer that iterates over the pipe gets the chunks that arrived and then the error, and the
  registry has forgotten the label. This holds whether or not the pipe was full.\<close>

theorem stream_failure_delivered:
  assumes "reg_ok s" "alloc_pipe (new_pipe k n) s = (r, s1)"
    "stream_exec lbl r es (stream_register lbl r s1) = (fed, got, s2)"
  shows "\<exists>s3 p rest. stream_fail lbl e s2 = (Ret (), s3) \<and> dict_get (sr_heap s3) r = Some p \<and> fed = got @ rest
    \<and> pipe_drain (Suc (length rest)) p = (rest, Some e) \<and> stream_get s3 lbl = None"
proof -
  from exec_open [OF open_at_start [OF assms(1,2)] assms(3)] obtain p where
    p: "open_at lbl r s2 p" "fed = got @ chunks p"
    by (auto simp: chunks_def)
  let ?s3 = "stream_remove lbl (s2\<lparr>sr_heap := dict_set r (pipe_fail e p) (sr_heap s2)\<rparr>)"
  have "stream_fail lbl e s2 = (Ret (), ?s3)"
    using p(1) by (auto simp: open_at_def stream_fail_def on_pipe_def act_defs)
  moreover have "pipe_drain (Suc (length (chunks p))) (pipe_fail e p) = (chunks p, Some (pipe_end (pipe_fail e p)))"
    by (rule pipe_drain_closed [where ts = "if pipe_full p then [] else [Sentinel]"])
      (use p(1) in \<open>auto simp: open_at_def live_pipe_def pipe_fail_fields\<close>)
  moreover have "pipe_end (pipe_fail e p) = e" by (simp add: pipe_end_def pipe_fail_fields)
  ultimately show ?thesis
    using p(2) by (intro exI [of _ ?s3] exI [of _ "pipe_fail e p"] exI [of _ "chunks p"]) simp
qed

theorem stream_failure_delivered_witness:
  "\<exists>s2 s3 p. stream_exec ''s'' 0 [St_feed (PInt 1)]
       (stream_register ''s'' 0 (snd (alloc_pipe (new_pipe ''a'' 1) new_stream_reg))) = ([PInt 1], [], s2)
     \<and> stream_fail ''s'' TypeError s2 = (Ret (), s3) \<and> dict_get (sr_heap s3) 0 = Some p
     \<and> pipe_drain 2 p = ([PInt 1], Some TypeError)"
proof -
  let ?s1 = "snd (alloc_pipe (new_pipe ''a'' 1) new_stream_reg)"
  have a: "alloc_pipe (new_pipe ''a'' 1) new_stream_reg = (0, ?s1)"
    by (simp add: alloc_pipe_def new_stream_reg_def)
  obtain s2 where e: "stream_exec ''s'' 0 [St_feed (PInt 1)] (stream_register ''s'' 0 ?s1) = ([PInt 1], [], s2)"
    by (simp add: stream_register_def alloc_pipe_def new_stream_reg_def stream_feed_def stream_get_def
        on_pipe_def pipe_put_def pipe_full_def dict_set_simps new_pipe_def)
  from stream_failure_delivered [OF new_stream_reg_ok a e, of TypeError] obtain s3 p rest where
    p: "stream_fail ''s'' TypeError s2 = (Ret (), s3)" "dict_get (sr_heap s3) 0 = Some p"
    "[PInt 1] = [] @ rest" "pipe_drain (Suc (length rest)) p = (rest, Some TypeError)"
    by blast
  from p(3) have rest: "rest = [PInt 1]" by simp
  from p(4) have "pipe_drain 2 p = ([PInt 1], Some TypeError)"
    unfolding rest by (simp only: numeral_2_eq_2 list.size add_0 One_nat_def plus_nat.simps)
  with e p show ?thesis by blast
qed

text \<open>Opening a stream registers it only when the service has a consumer of that name; then the
  reply announces readiness to the requester under the label of the stream, and the consumer task
  reads the pipe the registry feeds. Otherwise nothing is registered and no task is started.\<close>

theorem open_stream_contract:
  assumes "reg_ok s" "open_stream m fresh buff p s = (res, task, s')"
  shows "(case find_handler m p of
      Inl e \<Rightarrow> res = Inl e \<and> task = None \<and> s' = s
    | Inr (w, c) \<Rightarrow>
        (\<exists>t. task = Some t \<and> ct_consumer t = c \<and> ct_label t = label p
           \<and> open_at (label p) (ct_pipe t) s' (new_pipe (inbound_name (label p)) buff))
        \<and> (case dst p of
             None \<Rightarrow> res = Inl ValidationError
           | Some d \<Rightarrow> (\<exists>r. res = Inr r \<and> ptype r = STREAM_READY \<and> source r = d
                 \<and> dst r = Some (source p) \<and> label r = label p)))"
proof (cases "find_handler m p")
  case (Inl e)
  with assms(2) show ?thesis by (simp add: open_stream_def)
next
  case (Inr h)
  obtain w c where h: "h = (w, c)" by (cases h)
  obtain r s1 where a: "alloc_pipe (new_pipe (inbound_name (label p)) buff) s = (r, s1)"
    by (cases "alloc_pipe (new_pipe (inbound_name (label p)) buff) s")
  from assms(2) Inr h a have s': "s' = stream_register (label p) r s1"
    and t: "task = Some \<lparr>ct_wrapper = w, ct_consumer = c, ct_pipe = r, ct_data = data p, ct_label = label p\<rparr>"
    and res: "res = (case dst p of None \<Rightarrow> Inl ValidationError
        | Some d \<Rightarrow> Inr ((new_pack STREAM_READY d (Some (source p)) fresh)
             \<lparr>label := label p, data := PStr ''ready''\<rparr>))"
    by (auto simp: open_stream_def Let_def split: option.splits)
  have "open_at (label p) r s' (new_pipe (inbound_name (label p)) buff)"
    unfolding s' by (rule open_at_start [OF assms(1) a])
  with Inr h t res show ?thesis by (auto simp: new_pack_def split: option.split)
qed

definition ex_service :: service_obj where
  "ex_service = \<lparr>sv_name = ''data'', sv_attrs =
     [\<lparr>at_name = ''on_range'', at_callable = True, at_rpc = False, at_generator = False, at_wrapper = None,
       at_consumer = Some ''range'', at_params = True\<rparr>]\<rparr>"

definition ex_open :: MsgPack where
  "ex_open = (new_pack STREAM_OPEN ''a'' (Some ''b'') ''l1'')\<lparr>service := Some ''data'', meth := Some ''range''\<rparr>"

theorem open_stream_contract_witness:
  "\<exists>res t s'. open_stream (register_service ex_service []) ''u'' 4 ex_open new_stream_reg = (Inr res, Some t, s')
     \<and> ptype res = STREAM_READY \<and> dst res = Some ''a''
     \<and> open_at ''l1'' (ct_pipe t) s' (new_pipe (inbound_name ''l1'') 4)"
proof -
  obtain res t s' where o: "open_stream (register_service ex_service []) ''u'' 4 ex_open new_stream_reg = (res, t, s')"
    by (cases "open_stream (register_service ex_service []) ''u'' 4 ex_open new_stream_reg")
  have "find_handler (register_service ex_service []) ex_open = Inr (None, Bound ''data'' ''on_range'' True)"
    by code_simp
  with open_stream_contract [OF new_stream_reg_ok o] o show ?thesis
    by (auto simp: ex_open_def new_pack_def)
qed

end
