(* ===== verification/Certs_Index.thy ===== *)
theory Certs_Index
  imports Protocol
begin

text \<open>
  The index of certificates seen in the mesh: \<open>internal_modules/certs_index.py\<close>. Thumbprints,
  names and versions come from the wire unchecked, so they are Python values; comparing
  versions that are not numbers raises. Times are readings of the monotonic clock.
\<close>

section \<open>State\<close>

definition stale_ttl :: real where
  "stale_ttl = 180"

record cert_entry =
  ce_thumbprint :: pyval
  ce_subject_cn :: pyval
  ce_valid_to :: pyval
  ce_available_on :: "string list"
  ce_installed :: bool
  ce_last_updated :: real
  ce_version :: pyval

record certs_index =
  ci_own :: string
  ci_entries :: "(pyval, cert_entry) dict"
  ci_version :: pyval

definition new_certs_index :: "string \<Rightarrow> certs_index" where
  "new_certs_index own = \<lparr>ci_own = own, ci_entries = [], ci_version = PInt 0\<rparr>"

definition cert_stale :: "real \<Rightarrow> cert_entry \<Rightarrow> bool" where
  "cert_stale now e \<longleftrightarrow> now - ce_last_updated e > stale_ttl"

fun py_num :: "pyval \<Rightarrow> real option" where
  "py_num (PInt n) = Some (of_int n)"
| "py_num (PBool b) = Some (if b then 1 else 0)"
| "py_num (PFloat x) = Some x"
| "py_num _ = None"

text \<open>\<open>a > b\<close> on numbers; other operands of a number are a \<open>TypeError\<close>.\<close>

definition py_gt :: "pyval \<Rightarrow> pyval \<Rightarrow> exn + bool" where
  "py_gt a b =
     (case (py_num a, py_num b) of (Some x, Some y) \<Rightarrow> Inr (x > y) | _ \<Rightarrow> Inl TypeError)"

section \<open>Synchronisation with a remote node\<close>

text \<open>The sender is taken off every entry first; its digest puts it back.\<close>

definition drop_source :: "string \<Rightarrow> certs_index \<Rightarrow> certs_index" where
  "drop_source node c =
     c\<lparr>ci_entries := map (\<lambda>(k, e). (k, e\<lparr>ce_available_on := remove1 node (ce_available_on e)\<rparr>)) (ci_entries c)\<rparr>"

definition add_source :: "string \<Rightarrow> cert_entry \<Rightarrow> cert_entry" where
  "add_source node e =
     (if node \<in> set (ce_available_on e) then e else e\<lparr>ce_available_on := ce_available_on e @ [node]\<rparr>)"

definition refresh_cert :: "real \<Rightarrow> (string, pyval) dict \<Rightarrow> pyval \<Rightarrow> cert_entry \<Rightarrow> exn + cert_entry" where
  "refresh_cert now d ver e =
     map_sum id (\<lambda>newer.
       (if newer
        then e\<lparr>ce_subject_cn := get_default d ''subject_cn'' (ce_subject_cn e),
               ce_valid_to := get_default d ''valid_to'' (ce_valid_to e), ce_version := ver\<rparr>
        else e)\<lparr>ce_last_updated := now\<rparr>)
       (py_gt ver (ce_version e))"

definition new_cert :: "real \<Rightarrow> (string, pyval) dict \<Rightarrow> pyval \<Rightarrow> pyval \<Rightarrow> cert_entry" where
  "new_cert now d tp ver =
     \<lparr>ce_thumbprint = tp, ce_subject_cn = get_default d ''subject_cn'' (PStr ''?''),
      ce_valid_to = get_default d ''valid_to'' (PStr []), ce_available_on = [], ce_installed = False,
      ce_last_updated = now, ce_version = ver\<rparr>"

definition merge_cert :: "real \<Rightarrow> string \<Rightarrow> pyval \<Rightarrow> pyval \<Rightarrow> (certs_index, unit) act" where
  "merge_cert now node ver v c =
     (case v of
        PDict d \<Rightarrow>
          (let tp = get_default d ''thumbprint'' (PStr [])
           in if \<not> truthy tp then (Ret (), c)
              else if \<not> hashable tp then (Raise TypeError, c)
              else
                (case dict_get (ci_entries c) tp of
                   None \<Rightarrow>
                     (Ret (), c\<lparr>ci_entries := dict_set tp (add_source node (new_cert now d tp ver)) (ci_entries c)\<rparr>)
                 | Some e \<Rightarrow>
                     (case refresh_cert now d ver e of
                        Inl x \<Rightarrow> (Raise x, c)
                      | Inr e' \<Rightarrow> (Ret (), c\<lparr>ci_entries := dict_set tp (add_source node e') (ci_entries c)\<rparr>))))
      | _ \<Rightarrow> (Raise AttributeError, c))"

text \<open>\<open>max(self._sync_version, sync_version)\<close>.\<close>

definition bump_version :: "pyval \<Rightarrow> (certs_index, unit) act" where
  "bump_version ver c =
     (case py_gt ver (ci_version c) of
        Inl x \<Rightarrow> (Raise x, c)
      | Inr b \<Rightarrow> (Ret (), if b then c\<lparr>ci_version := ver\<rparr> else c))"

definition merge_cert_sync :: "real \<Rightarrow> string \<Rightarrow> pyval \<Rightarrow> pyval \<Rightarrow> (certs_index, unit) act" where
  "merge_cert_sync now node digest ver =
     act_seq (act_modify (drop_source node))
       (case py_iter digest of
          Inl e \<Rightarrow> act_raise e
        | Inr vs \<Rightarrow> act_seq (act_mapM (merge_cert now node ver) vs) (bump_version ver))"

section \<open>The local list\<close>

text \<open>
  The fourth spelling of the expiry field is Russian; it is written as its UTF-8 bytes.
\<close>

definition valid_to_ru :: string where
  "valid_to_ru = map char_of [208, 148, 208, 181, 208, 185, 209, 129, 209, 130, 208, 178, 208, 184,
     209, 130, 208, 181, 208, 187, 208, 181, 208, 189, 32, 208, 180, 208, 190 :: nat]"

definition dget :: "(string, pyval) dict \<Rightarrow> string \<Rightarrow> pyval" where
  "dget d k = get_default d k (PStr [])"

definition local_fields :: "(string, pyval) dict \<Rightarrow> pyval \<times> pyval \<times> pyval" where
  "local_fields d =
     (py_or (dget d ''Thumbprint'') (dget d ''thumbprint''),
      py_or (dget d ''Subject_CN'') (get_default d ''subject_cn'' (PStr ''?'')),
      py_or (py_or (py_or (dget d ''ValidTo'') (dget d ''valid_to'')) (dget d ''Not valid after''))
        (dget d valid_to_ru))"

text \<open>One item of the local list; the thumbprints seen so far travel with the state.\<close>

definition local_cert :: "real \<Rightarrow> pyval \<Rightarrow> (pyval list \<times> certs_index, unit) act" where
  "local_cert now v = (\<lambda>(seen, c).
     case v of
       PDict d \<Rightarrow>
         (let (tp, cn, vt) = local_fields d
          in if \<not> truthy tp then (Ret (), (seen, c))
             else if \<not> hashable tp then (Raise TypeError, (seen, c))
             else
               (case dict_get (ci_entries c) tp of
                  None \<Rightarrow>
                    (Ret (), (tp # seen, c\<lparr>ci_entries := dict_set tp
                       \<lparr>ce_thumbprint = tp, ce_subject_cn = cn, ce_valid_to = vt, ce_available_on = [],
                        ce_installed = True, ce_last_updated = now, ce_version = PInt 0\<rparr> (ci_entries c)\<rparr>))
                | Some e \<Rightarrow>
                    (Ret (), (tp # seen, c\<lparr>ci_entries := dict_set tp
                       (e\<lparr>ce_installed := True, ce_last_updated := now\<rparr>) (ci_entries c)\<rparr>))))
     | _ \<Rightarrow> (Ret (), (seen, c)))"

fun cert_values :: "pyval \<Rightarrow> exn + pyval list" where
  "cert_values (PList vs) = Inr vs"
| "cert_values (PDict d) = Inr (dict_values d)"
| "cert_values _ = Inl AttributeError"

text \<open>The version is advanced by one; it is a number as long as only numbers were merged.\<close>

fun py_succ :: "pyval \<Rightarrow> exn + pyval" where
  "py_succ (PInt n) = Inr (PInt (n + 1))"
| "py_succ (PBool b) = Inr (PInt (if b then 2 else 1))"
| "py_succ (PFloat x) = Inr (PFloat (x + 1))"
| "py_succ _ = Inl TypeError"

definition unmark_missing :: "pyval list \<Rightarrow> certs_index \<Rightarrow> certs_index" where
  "unmark_missing seen c =
     c\<lparr>ci_entries := map (\<lambda>(k, e). (k, if ce_installed e \<and> k \<notin> set seen then e\<lparr>ce_installed := False\<rparr> else e))
        (ci_entries c)\<rparr>"

definition update_local :: "real \<Rightarrow> pyval \<Rightarrow> (certs_index, unit) act" where
  "update_local now certs c =
     (case cert_values certs of
        Inl e \<Rightarrow> (Raise e, c)
      | Inr vs \<Rightarrow>
          (case act_mapM (local_cert now) vs ([], c) of
             (Ret _, (seen, c1)) \<Rightarrow>
               (let c2 = unmark_missing seen c1
                in case py_succ (ci_version c2) of
                     Inl e \<Rightarrow> (Raise e, c2)
                   | Inr v \<Rightarrow> (Ret (), c2\<lparr>ci_version := v\<rparr>))
           | (Raise e, (seen, c1)) \<Rightarrow> (Raise e, c1)
           | (Suspended, (seen, c1)) \<Rightarrow> (Suspended, c1)))"

section \<open>Queries\<close>

definition network_available :: "real \<Rightarrow> certs_index \<Rightarrow> cert_entry list" where
  "network_available now c =
     filter (\<lambda>e. \<not> ce_installed e \<and> ce_available_on e \<noteq> [] \<and> \<not> cert_stale now e) (dict_values (ci_entries c))"

definition by_thumbprint :: "certs_index \<Rightarrow> pyval \<Rightarrow> cert_entry option" where
  "by_thumbprint c tp = dict_get (ci_entries c) tp"

definition digest_for_sync :: "certs_index \<Rightarrow> pyval list" where
  "digest_for_sync c =
     map (\<lambda>e. PDict [(''thumbprint'', ce_thumbprint e), (''subject_cn'', ce_subject_cn e),
                     (''valid_to'', ce_valid_to e)])
       (filter ce_installed (dict_values (ci_entries c)))"

section \<open>What the index promises\<close>

text \<open>
  The abstract index: which nodes offer a certificate. Merging a digest is a pointwise update
  of it.
\<close>

definition offered_by :: "certs_index \<Rightarrow> pyval \<Rightarrow> string set option" where
  "offered_by c k = map_option (\<lambda>e. set (ce_available_on e)) (by_thumbprint c k)"

definition thumb_of :: "pyval \<Rightarrow> pyval option" where
  "thumb_of v =
     (case v of
        PDict d \<Rightarrow> (let tp = get_default d ''thumbprint'' (PStr []) in if truthy tp then Some tp else None)
      | _ \<Rightarrow> None)"

definition thumbs :: "pyval list \<Rightarrow> pyval set" where
  "thumbs vs = {tp. \<exists>v\<in>set vs. thumb_of v = Some tp}"

definition certs_ok :: "certs_index \<Rightarrow> bool" where
  "certs_ok c \<longleftrightarrow>
     dict_ok (ci_entries c)
     \<and> (\<forall>k e. by_thumbprint c k = Some e \<longrightarrow>
           ce_thumbprint e = k \<and> truthy k \<and> hashable k \<and> distinct (ce_available_on e))"

lemma thumbs_simps [simp]:
  "thumbs [] = {}"
  "thumbs (v # vs) = (case thumb_of v of None \<Rightarrow> thumbs vs | Some tp \<Rightarrow> insert tp (thumbs vs))"
  by (auto simp: thumbs_def split: option.split)

lemma add_source_simps [simp]:
  "set (ce_available_on (add_source n e)) = insert n (set (ce_available_on e))"
  "ce_thumbprint (add_source n e) = ce_thumbprint e"
  "ce_subject_cn (add_source n e) = ce_subject_cn e"
  "ce_valid_to (add_source n e) = ce_valid_to e"
  "ce_installed (add_source n e) = ce_installed e"
  "ce_version (add_source n e) = ce_version e"
  "distinct (ce_available_on e) \<Longrightarrow> distinct (ce_available_on (add_source n e))"
  by (auto simp: add_source_def)

lemma refresh_cert_Inr:
  assumes "refresh_cert now d ver e = Inr e'"
  shows "ce_thumbprint e' = ce_thumbprint e" "ce_available_on e' = ce_available_on e"
    "ce_installed e' = ce_installed e" "ce_last_updated e' = now"
    "py_gt ver (ce_version e) = Inr False \<Longrightarrow>
       ce_subject_cn e' = ce_subject_cn e \<and> ce_valid_to e' = ce_valid_to e \<and> ce_version e' = ce_version e"
  using assms by (auto simp: refresh_cert_def map_sum_def split: sum.splits if_splits)

lemma by_thumbprint_set [simp]:
  "by_thumbprint (c\<lparr>ci_entries := dict_set k e (ci_entries c)\<rparr>) k' = (if k' = k then Some e else by_thumbprint c k')"
  by (simp add: by_thumbprint_def)

lemma drop_source_get:
  "by_thumbprint (drop_source n c) k =
     map_option (\<lambda>e. e\<lparr>ce_available_on := remove1 n (ce_available_on e)\<rparr>) (by_thumbprint c k)"
  by (simp add: drop_source_def by_thumbprint_def dict_get_map_values)

text \<open>One item of a digest that was accepted.\<close>

lemma merge_cert_cases:
  assumes "merge_cert now n ver v c = (Ret u, c')"
  obtains (skip) "thumb_of v = None" "c' = c"
    | (fresh) d tp where "v = PDict d" "thumb_of v = Some tp" "hashable tp" "by_thumbprint c tp = None"
        "c' = c\<lparr>ci_entries := dict_set tp (add_source n (new_cert now d tp ver)) (ci_entries c)\<rparr>"
    | (known) d tp e e' where "v = PDict d" "thumb_of v = Some tp" "hashable tp" "by_thumbprint c tp = Some e"
        "refresh_cert now d ver e = Inr e'"
        "c' = c\<lparr>ci_entries := dict_set tp (add_source n e') (ci_entries c)\<rparr>"
proof (cases v)
  case (PDict d)
  define tp where "tp = get_default d ''thumbprint'' (PStr [])"
  show ?thesis
  proof (cases "truthy tp")
    case False
    with assms PDict show ?thesis by (intro skip) (simp_all add: merge_cert_def thumb_of_def tp_def)
  next
    case True
    then have th: "thumb_of v = Some tp" by (simp add: thumb_of_def PDict tp_def)
    from assms PDict True have h: "hashable tp"
      by (simp add: merge_cert_def Let_def tp_def split: if_splits)
    show ?thesis
    proof (cases "dict_get (ci_entries c) tp")
      case None
      with assms PDict True h show ?thesis
        by (intro fresh [OF PDict th h]) (simp_all add: merge_cert_def Let_def by_thumbprint_def flip: tp_def)
    next
      case (Some e)
      with assms PDict True h obtain e' where "refresh_cert now d ver e = Inr e'"
        "c' = c\<lparr>ci_entries := dict_set tp (add_source n e') (ci_entries c)\<rparr>"
        by (auto simp: merge_cert_def Let_def simp flip: tp_def split: sum.splits)
      with Some show ?thesis by (intro known [OF PDict th h]) (simp_all add: by_thumbprint_def)
    qed
  qed
qed (use assms in \<open>simp_all add: merge_cert_def\<close>)

lemma merge_cert_offered:
  assumes "merge_cert now n ver v c = (Ret u, c')"
  shows "offered_by c' k =
    (if thumb_of v = Some k then Some (insert n (case offered_by c k of None \<Rightarrow> {} | Some A \<Rightarrow> A))
     else offered_by c k)"
  using assms
  by (cases rule: merge_cert_cases) (auto simp: offered_by_def new_cert_def refresh_cert_Inr)

lemma merge_certs_offered:
  "act_mapM (merge_cert now n ver) vs c = (Ret u, c') \<Longrightarrow>
     offered_by c' k =
       (if k \<in> thumbs vs then Some (insert n (case offered_by c k of None \<Rightarrow> {} | Some A \<Rightarrow> A))
        else offered_by c k)"
proof (induction vs arbitrary: c)
  case Nil
  then show ?case by (simp add: act_ret_def)
next
  case (Cons v vs)
  then obtain u1 c1 where s: "merge_cert now n ver v c = (Ret u1, c1)" "act_mapM (merge_cert now n ver) vs c1 = (Ret u, c')"
    by (auto simp: act_seq_def act_bind_def split: prod.splits outcome.splits)
  from Cons.IH [OF s(2)] merge_cert_offered [OF s(1), of k] show ?case
    by (auto split: option.splits)
qed

lemma merge_cert_ok:
  assumes "certs_ok c" "merge_cert now n ver v c = (Ret u, c')"
  shows "certs_ok c'"
  using assms(2)
proof (cases rule: merge_cert_cases)
  case (fresh d tp)
  have "truthy tp" using fresh(1,2) by (auto simp: thumb_of_def Let_def split: if_splits)
  with fresh assms(1) show ?thesis
    by (auto simp: certs_ok_def new_cert_def by_thumbprint_def)
next
  case (known d tp e e')
  with assms(1) refresh_cert_Inr [OF known(5)] show ?thesis
    by (auto simp: certs_ok_def by_thumbprint_def)
qed (use assms in simp)

lemma bump_version_same:
  "bump_version ver c = (r, c') \<Longrightarrow> ci_entries c' = ci_entries c"
  by (auto simp: bump_version_def split: sum.splits if_splits)

lemma merge_sync_split:
  assumes "merge_cert_sync now n (PList vs) ver c = (Ret u, c')"
  obtains c1 u1 where "act_mapM (merge_cert now n ver) vs (drop_source n c) = (Ret u1, c1)"
    "bump_version ver c1 = (Ret u, c')"
  using assms
  by (auto simp: merge_cert_sync_def act_seq_def act_bind_def act_modify_def split: prod.splits outcome.splits)

text \<open>A certificate digest is authoritative for its sender: after it was merged, a certificate is
  offered by the sender exactly when the digest lists it, what the other nodes offer is unchanged,
  and listed certificates that were unknown are added.\<close>

theorem cert_sync_authoritative:
  assumes "certs_ok c" "merge_cert_sync now n (PList vs) ver c = (Ret u, c')"
  shows "offered_by c' k =
    (if k \<in> thumbs vs then Some (insert n (case offered_by c k of None \<Rightarrow> {} | Some A \<Rightarrow> A))
     else map_option (\<lambda>A. A - {n}) (offered_by c k))"
proof -
  have drop: "offered_by (drop_source n c) k = map_option (\<lambda>A. A - {n}) (offered_by c k)"
    using assms(1) by (cases "by_thumbprint c k") (auto simp: offered_by_def drop_source_get certs_ok_def)
  from assms(2) obtain c1 u1 where c1: "act_mapM (merge_cert now n ver) vs (drop_source n c) = (Ret u1, c1)"
    "bump_version ver c1 = (Ret u, c')"
    by (rule merge_sync_split)
  have "offered_by c' k = offered_by c1 k"
    using bump_version_same [OF c1(2)] by (simp add: offered_by_def by_thumbprint_def)
  with merge_certs_offered [OF c1(1), of k] drop show ?thesis
    by (auto split: option.splits)
qed

text \<open>A synchronisation that is not newer than what is stored never rewrites the name, the
  expiry or the version of a known certificate, nor the local installation mark.\<close>

theorem cert_sync_respects_version:
  assumes "merge_cert_sync now n (PList vs) ver c = (Ret u, c')" "by_thumbprint c k = Some e"
    "py_gt ver (ce_version e) = Inr False"
  shows "\<exists>e'. by_thumbprint c' k = Some e' \<and> ce_subject_cn e' = ce_subject_cn e
    \<and> ce_valid_to e' = ce_valid_to e \<and> ce_version e' = ce_version e \<and> ce_installed e' = ce_installed e"
proof -
  define same where "same e' \<longleftrightarrow> ce_subject_cn e' = ce_subject_cn e \<and> ce_valid_to e' = ce_valid_to e
    \<and> ce_version e' = ce_version e \<and> ce_installed e' = ce_installed e" for e' :: cert_entry
  have step: "\<exists>e'. by_thumbprint b' k = Some e' \<and> same e'"
    if "merge_cert now n ver v b = (Ret u1, b')" "by_thumbprint b k = Some e1" "same e1" for v b b' u1 e1
    using that(1)
  proof (cases rule: merge_cert_cases)
    case (known d tp e2 e3)
    show ?thesis
    proof (cases "k = tp")
      case True
      with known that have "e2 = e1" by simp
      with known that(3) assms(3) refresh_cert_Inr [OF known(5)] True show ?thesis by (simp add: same_def)
    qed (use known that in simp)
  qed (use that in auto)
  have all: "\<exists>e'. by_thumbprint b' k = Some e' \<and> same e'"
    if "act_mapM (merge_cert now n ver) vs b = (Ret u1, b')" "by_thumbprint b k = Some e1" "same e1" for vs b b' u1 e1
    using that
  proof (induction vs arbitrary: b e1)
    case (Cons v vs)
    then obtain u2 b1 where s: "merge_cert now n ver v b = (Ret u2, b1)" "act_mapM (merge_cert now n ver) vs b1 = (Ret u1, b')"
      by (auto simp: act_seq_def act_bind_def split: prod.splits outcome.splits)
    from step [OF s(1) Cons.prems(2,3)] Cons.IH [OF s(2)] show ?case by blast
  qed (auto simp: act_ret_def)
  from assms(1) obtain c1 u1 where c1: "act_mapM (merge_cert now n ver) vs (drop_source n c) = (Ret u1, c1)"
    "bump_version ver c1 = (Ret u, c')"
    by (rule merge_sync_split)
  have "by_thumbprint (drop_source n c) k = Some (e\<lparr>ce_available_on := remove1 n (ce_available_on e)\<rparr>)"
    using assms(2) by (simp add: drop_source_get)
  from all [OF c1(1) this] bump_version_same [OF c1(2)] show ?thesis
    by (auto simp: same_def by_thumbprint_def)
qed

section \<open>Examples and the local list\<close>

definition ex_digest :: "pyval list" where
  "ex_digest = [PDict [(''thumbprint'', PStr ''AB''), (''subject_cn'', PStr ''web''), (''valid_to'', PStr ''2030'')]]"

definition ex_certs :: certs_index where
  "ex_certs = (new_certs_index ''own'')\<lparr>ci_entries := [(PStr ''AB'',
     \<lparr>ce_thumbprint = PStr ''AB'', ce_subject_cn = PStr ''old'', ce_valid_to = PStr ''2029'',
      ce_available_on = [''m'', ''n''], ce_installed = False, ce_last_updated = 0, ce_version = PInt 7\<rparr>)]\<rparr>"

lemma ex_certs_ok: "certs_ok ex_certs"
  by (auto simp: certs_ok_def ex_certs_def by_thumbprint_def new_certs_index_def dict_ok_def split: if_splits)

lemma ex_digest_merge:
  "merge_cert_sync 5 ''n'' (PList ex_digest) (PInt 3) ex_certs =
     (Ret (), ex_certs\<lparr>ci_version := PInt 3, ci_entries := [(PStr ''AB'',
       \<lparr>ce_thumbprint = PStr ''AB'', ce_subject_cn = PStr ''old'', ce_valid_to = PStr ''2029'',
        ce_available_on = [''m'', ''n''], ce_installed = False, ce_last_updated = 5, ce_version = PInt 7\<rparr>)]\<rparr>)"
  by (simp add: merge_cert_sync_def act_defs ex_digest_def merge_cert_def drop_source_def ex_certs_def
      new_certs_index_def get_default_def refresh_cert_def py_gt_def add_source_def dict_set_simps
      bump_version_def Let_def)

theorem cert_sync_authoritative_witness:
  "\<exists>c'. merge_cert_sync 5 ''n'' (PList ex_digest) (PInt 3) ex_certs = (Ret (), c')
     \<and> offered_by c' (PStr ''AB'') = Some {''n'', ''m''}"
proof -
  have "PStr ''AB'' \<in> thumbs ex_digest"
    by (simp add: ex_digest_def thumb_of_def get_default_def)
  moreover have "offered_by ex_certs (PStr ''AB'') = Some {''m'', ''n''}"
    by (simp add: offered_by_def by_thumbprint_def ex_certs_def)
  ultimately show ?thesis
    using cert_sync_authoritative [OF ex_certs_ok ex_digest_merge, of "PStr ''AB''"] ex_digest_merge
    by (simp add: insert_absorb insert_commute)
qed

theorem cert_sync_respects_version_witness:
  "\<exists>c' e'. merge_cert_sync 5 ''n'' (PList ex_digest) (PInt 3) ex_certs = (Ret (), c')
     \<and> by_thumbprint c' (PStr ''AB'') = Some e' \<and> ce_subject_cn e' = PStr ''old''"
proof -
  obtain e where e: "by_thumbprint ex_certs (PStr ''AB'') = Some e" "py_gt (PInt 3) (ce_version e) = Inr False"
    "ce_subject_cn e = PStr ''old''"
    by (simp add: by_thumbprint_def ex_certs_def py_gt_def)
  from cert_sync_respects_version [OF ex_digest_merge e(1,2)] e(3) ex_digest_merge show ?thesis by metis
qed

text \<open>The thumbprints a local list names.\<close>

definition local_thumb :: "pyval \<Rightarrow> pyval option" where
  "local_thumb v =
     (case v of PDict d \<Rightarrow> (if truthy (fst (local_fields d)) then Some (fst (local_fields d)) else None) | _ \<Rightarrow> None)"

definition local_thumbs :: "pyval list \<Rightarrow> pyval set" where
  "local_thumbs vs = {tp. \<exists>v\<in>set vs. local_thumb v = Some tp}"

definition installed_at :: "certs_index \<Rightarrow> pyval \<Rightarrow> bool option" where
  "installed_at c k = map_option ce_installed (by_thumbprint c k)"

lemma local_cert_cases:
  assumes "local_cert now v (seen, c) = (Ret u, (seen', c'))"
  obtains (skip) "local_thumb v = None" "seen' = seen" "c' = c"
    | (mark) tp e where "local_thumb v = Some tp" "seen' = tp # seen" "ce_installed e"
        "ce_available_on e = (case by_thumbprint c tp of None \<Rightarrow> [] | Some e0 \<Rightarrow> ce_available_on e0)"
        "c' = c\<lparr>ci_entries := dict_set tp e (ci_entries c)\<rparr>"
proof (cases v)
  case (PDict d)
  obtain tp cn vt where f: "local_fields d = (tp, cn, vt)" by (cases "local_fields d")
  show ?thesis
  proof (cases "truthy tp")
    case False
    with assms PDict f show ?thesis by (intro skip) (simp_all add: local_cert_def local_thumb_def)
  next
    case True
    with f PDict have th: "local_thumb v = Some tp" by (simp add: local_thumb_def)
    show ?thesis
      using assms PDict f True
      by (intro mark [OF th, of "case by_thumbprint c tp of
              None \<Rightarrow> \<lparr>ce_thumbprint = tp, ce_subject_cn = cn, ce_valid_to = vt, ce_available_on = [],
                        ce_installed = True, ce_last_updated = now, ce_version = PInt 0\<rparr>
            | Some e \<Rightarrow> e\<lparr>ce_installed := True, ce_last_updated := now\<rparr>"])
        (auto simp: local_cert_def by_thumbprint_def split: option.splits if_splits)
  qed
qed (use assms skip in \<open>simp_all add: local_cert_def local_thumb_def\<close>)

lemma local_certs_list:
  "act_mapM (local_cert now) vs (seen, c) = (Ret u, (seen', c')) \<Longrightarrow>
     set seen' = set seen \<union> local_thumbs vs \<and> ci_version c' = ci_version c
     \<and> installed_at c' k = (if k \<in> local_thumbs vs then Some True else installed_at c k)
     \<and> offered_by c' k = (if k \<in> local_thumbs vs \<and> offered_by c k = None then Some {} else offered_by c k)"
proof (induction vs arbitrary: seen c)
  case Nil
  then show ?case by (simp add: act_ret_def local_thumbs_def)
next
  case (Cons v vs)
  then obtain u1 seen1 c1 where s: "local_cert now v (seen, c) = (Ret u1, (seen1, c1))"
    "act_mapM (local_cert now) vs (seen1, c1) = (Ret u, (seen', c'))"
    by (auto simp: act_seq_def act_bind_def split: prod.splits outcome.splits)
  have th: "local_thumbs (v # vs) = (case local_thumb v of None \<Rightarrow> local_thumbs vs | Some tp \<Rightarrow> insert tp (local_thumbs vs))"
    by (auto simp: local_thumbs_def split: option.split)
  from s(1) show ?case
  proof (cases rule: local_cert_cases)
    case skip
    with Cons.IH [OF s(2)] th show ?thesis by simp
  next
    case (mark tp e)
    have "ci_version c1 = ci_version c" "installed_at c1 k = (if k = tp then Some True else installed_at c k)"
      "offered_by c1 k = (if k = tp \<and> offered_by c k = None then Some {} else offered_by c k)"
      using mark by (auto simp: installed_at_def offered_by_def split: option.split)
    with Cons.IH [OF s(2)] mark th show ?thesis by auto
  qed
qed

lemma unmark_get:
  "installed_at (unmark_missing seen c) k = map_option (\<lambda>b. b \<and> k \<in> set seen) (installed_at c k)"
  "offered_by (unmark_missing seen c) k = offered_by c k"
proof -
  have g: "dict_get (map (\<lambda>(k, e). (k, f k e)) d) k = map_option (f k) (dict_get d k)" for f and d :: "('k, 'v) dict" and k
    by (induction d) auto
  have "by_thumbprint (unmark_missing seen c) k =
      map_option (\<lambda>e. if ce_installed e \<and> k \<notin> set seen then e\<lparr>ce_installed := False\<rparr> else e) (by_thumbprint c k)"
    by (simp add: unmark_missing_def by_thumbprint_def g)
  then show "installed_at (unmark_missing seen c) k = map_option (\<lambda>b. b \<and> k \<in> set seen) (installed_at c k)"
    and "offered_by (unmark_missing seen c) k = offered_by c k"
    by (cases "by_thumbprint c k"; auto simp: installed_at_def offered_by_def)+
qed

text \<open>The local list decides which certificates count as installed: after an update, a known
  certificate is marked exactly when the list names it, what other nodes offer does not change, and
  the version the node announces has grown, so that its peers accept the change.\<close>

theorem local_update_exact:
  assumes "update_local now (PList vs) c = (Ret u, c')" "ci_version c = PInt n"
  shows "installed_at c' k = (if k \<in> local_thumbs vs then Some True else map_option (\<lambda>_. False) (installed_at c k))
    \<and> offered_by c' k = (if k \<in> local_thumbs vs \<and> offered_by c k = None then Some {} else offered_by c k)
    \<and> ci_version c' = PInt (n + 1) \<and> py_gt (ci_version c') (ci_version c) = Inr True"
proof -
  obtain r seen c1 where m: "act_mapM (local_cert now) vs ([], c) = (r, (seen, c1))"
    by (metis surj_pair)
  with assms(1) obtain u1 where r: "r = Ret u1"
    by (cases r) (auto simp: update_local_def)
  note l = local_certs_list [OF m [unfolded r], of k]
  have v: "ci_version (unmark_missing seen c1) = PInt n" using l assms(2) by (simp add: unmark_missing_def)
  with assms(1) m r have c': "c' = (unmark_missing seen c1)\<lparr>ci_version := PInt (n + 1)\<rparr>"
    by (simp add: update_local_def)
  have "installed_at c' k = installed_at (unmark_missing seen c1) k" "offered_by c' k = offered_by (unmark_missing seen c1) k"
    by (simp_all add: c' installed_at_def offered_by_def by_thumbprint_def)
  moreover have "installed_at c1 k = map_option (\<lambda>b. b) (installed_at c1 k)" by (cases "installed_at c1 k") simp_all
  ultimately show ?thesis
    using l assms(2) c' by (auto simp: unmark_get py_gt_def map_option.identity split: if_splits)
qed

theorem local_update_exact_witness:
  "\<exists>c'. update_local 5 (PList [PDict [(''Thumbprint'', PStr ''CD'')]]) ex_certs = (Ret (), c')
     \<and> installed_at c' (PStr ''CD'') = Some True \<and> ci_version c' = PInt 1"
proof -
  have "\<exists>c'. update_local 5 (PList [PDict [(''Thumbprint'', PStr ''CD'')]]) ex_certs = (Ret (), c')"
    by (simp add: update_local_def local_cert_def local_fields_def dget_def get_default_def act_defs
        ex_certs_def new_certs_index_def Let_def unmark_missing_def)
  then obtain c' where c': "update_local 5 (PList [PDict [(''Thumbprint'', PStr ''CD'')]]) ex_certs = (Ret (), c')"
    by blast
  have "PStr ''CD'' \<in> local_thumbs [PDict [(''Thumbprint'', PStr ''CD'')]]"
    by (simp add: local_thumbs_def local_thumb_def local_fields_def dget_def get_default_def)
  with local_update_exact [OF c', of 0 "PStr ''CD''"] c' show ?thesis
    by (simp add: ex_certs_def new_certs_index_def)
qed

end
