(* ===== verification/Router.thy ===== *)
theory Router
  imports Neighbor_Table Sessions Streams Certs_Index
begin

text \<open>
  Packet handling on one node: \<open>networking/router.py\<close> with the transports of
  \<open>networking/transport.py\<close>. A \<open>node\<close> is the state the handlers touch: the tables of the
  other components, the sockets registered by the server side (\<open>n_nodes\<close>) and by outgoing
  connectors (\<open>n_client\<close>), the transport cache, the pending answers of local clients, the cached
  stream routes and the consumers started. A socket is a number; \<open>n_out\<close> is the sequence of
  packets written so far with the socket of each; writing to a socket of \<open>n_dead\<close> raises.
  Every handler is a computation over this state.
\<close>

section \<open>State\<close>

definition default_ttl :: int where
  "default_ttl = 16"

definition stream_route_ttl :: real where
  "stream_route_ttl = 300"

record stream_route =
  rt_label :: string
  rt_source :: string
  rt_dst :: string
  rt_forward :: "string list"
  rt_backward :: "string list"
  rt_at :: real

record node =
  n_id :: string
  n_alias :: string
  n_buff :: int
  n_nodes :: "(string, nat) dict"
  n_table :: neighbor_table
  n_certs :: certs_index
  n_services :: manager
  n_sessions :: session_table
  n_streams :: stream_reg
  n_pending :: "(string, nat \<times> real) dict"
  n_client :: "(string, nat) dict"
  n_routes :: "(string, stream_route) dict"
  n_cache :: "(string, nat) dict"
  n_tasks :: "consumer_task list"
  n_out :: "(nat \<times> MsgPack) list"
  n_dead :: "nat list"

text \<open>
  What a handler reads from outside: the wall clock, the monotonic clock, a fresh UUID, the
  service methods and the text of an exception.
\<close>

record env =
  e_wall :: real
  e_mono :: real
  e_fresh :: string
  e_invoke :: invoker
  e_text :: "exn \<Rightarrow> string"

definition new_node :: "string \<Rightarrow> string \<Rightarrow> int \<Rightarrow> node" where
  "new_node nid alias buff =
     \<lparr>n_id = nid, n_alias = alias, n_buff = buff, n_nodes = [], n_table = new_table nid,
      n_certs = new_certs_index nid, n_services = [], n_sessions = new_sessions,
      n_streams = new_stream_reg, n_pending = [], n_client = [], n_routes = [], n_cache = [],
      n_tasks = [], n_out = [], n_dead = []\<rparr>"

subsection \<open>Computations on a part of the node\<close>

definition act_on :: "('s \<Rightarrow> 'p) \<Rightarrow> ('p \<Rightarrow> 's \<Rightarrow> 's) \<Rightarrow> ('p, 'a) act \<Rightarrow> ('s, 'a) act" where
  "act_on g u m s = (let (r, p) = m (g s) in (r, u p s))"

definition on_table :: "(neighbor_table, 'a) act \<Rightarrow> (node, 'a) act" where
  "on_table = act_on n_table (\<lambda>t. n_table_update (\<lambda>_. t))"

definition on_certs :: "(certs_index, 'a) act \<Rightarrow> (node, 'a) act" where
  "on_certs = act_on n_certs (\<lambda>c. n_certs_update (\<lambda>_. c))"

definition on_streams :: "(stream_reg, 'a) act \<Rightarrow> (node, 'a) act" where
  "on_streams = act_on n_streams (\<lambda>s. n_streams_update (\<lambda>_. s))"

definition resolve_session :: "string \<Rightarrow> pyval \<Rightarrow> (node, unit) act" where
  "resolve_session lbl v = act_modify (\<lambda>n. n\<lparr>n_sessions := resolve lbl v (n_sessions n)\<rparr>)"

definition cancel_session :: "string \<Rightarrow> (node, unit) act" where
  "cancel_session lbl = act_modify (\<lambda>n. n\<lparr>n_sessions := cancel lbl (n_sessions n)\<rparr>)"

section \<open>Transports\<close>

definition ws_send :: "nat \<Rightarrow> MsgPack \<Rightarrow> (node, unit) act" where
  "ws_send ws p n =
     (if ws \<in> set (n_dead n) then (Raise ConnectionClosed, n)
      else (Ret (), n\<lparr>n_out := n_out n @ [(ws, p)]\<rparr>))"

definition invalidate_transport :: "string \<Rightarrow> node \<Rightarrow> node" where
  "invalidate_transport nid n = n\<lparr>n_cache := dict_pop (canon nid) (n_cache n)\<rparr>"

definition register_client_ws :: "string \<Rightarrow> nat \<Rightarrow> node \<Rightarrow> node" where
  "register_client_ws nid ws n =
     invalidate_transport (canon nid) (n\<lparr>n_client := dict_set (canon nid) ws (n_client n)\<rparr>)"

definition unregister_client_ws :: "string \<Rightarrow> node \<Rightarrow> node" where
  "unregister_client_ws nid n =
     invalidate_transport (canon nid) (n\<lparr>n_client := dict_pop (canon nid) (n_client n)\<rparr>)"

definition has_client_ws :: "string \<Rightarrow> node \<Rightarrow> bool" where
  "has_client_ws nid n \<longleftrightarrow> dict_get (n_client n) (canon nid) \<noteq> None"

definition cleanup_ws_pending :: "nat \<Rightarrow> node \<Rightarrow> node" where
  "cleanup_ws_pending ws n =
     n\<lparr>n_pending := fold dict_pop (map fst (filter (\<lambda>(l, w, t). w = ws) (n_pending n))) (n_pending n)\<rparr>"

definition sweep_ws_pending :: "real \<Rightarrow> real \<Rightarrow> node \<Rightarrow> node" where
  "sweep_ws_pending now max_age n =
     n\<lparr>n_pending := fold dict_pop (map fst (filter (\<lambda>(l, w, t). now - t > max_age) (n_pending n))) (n_pending n)\<rparr>"

text \<open>The cached transport, else the socket of the server side, else that of a connector.\<close>

definition get_transport_to :: "string option \<Rightarrow> (node, nat option) act" where
  "get_transport_to nid n =
     (case map_option canon nid of
        None \<Rightarrow> (Ret None, n)
      | Some k \<Rightarrow>
          (case dict_get (n_cache n) k of
             Some ws \<Rightarrow> (Ret (Some ws), n)
           | None \<Rightarrow>
               (case dict_get (n_nodes n) k of
                  Some ws \<Rightarrow> (Ret (Some ws), n\<lparr>n_cache := dict_set k ws (n_cache n)\<rparr>)
                | None \<Rightarrow>
                    (case dict_get (n_client n) k of
                       Some ws \<Rightarrow> (Ret (Some ws), n\<lparr>n_cache := dict_set k ws (n_cache n)\<rparr>)
                     | None \<Rightarrow> (Ret None, n)))))"

section \<open>Forwarding\<close>

definition is_local_name :: "node \<Rightarrow> string \<Rightarrow> bool" where
  "is_local_name n x \<longleftrightarrow> canon x = canon (n_id n)"

text \<open>\<open>pack.dst and _canon(pack.dst) != _canon(NODE)\<close>\<close>

definition is_remote :: "node \<Rightarrow> MsgPack \<Rightarrow> bool" where
  "is_remote n p \<longleftrightarrow> (case dst p of None \<Rightarrow> False | Some d \<Rightarrow> d \<noteq> [] \<and> \<not> is_local_name n d)"

text \<open>Leaving this node: it is on the path, under its id or its alias, and a hop is used up.\<close>

definition hop_out :: "node \<Rightarrow> MsgPack \<Rightarrow> MsgPack" where
  "hop_out n p =
     p\<lparr>path := (if path p = [] \<or> canon (last (path p)) \<noteq> canon (n_id n) \<and> canon (last (path p)) \<noteq> canon (n_alias n)
                then path p @ [n_id n] else path p),
       ttl := ttl p - 1\<rparr>"

definition in_transit :: "MsgPack \<Rightarrow> MsgPack" where
  "in_transit p = (if ptype p = REQUEST then p\<lparr>ptype := FORWARDED\<rparr> else p)"

definition resolve_by_host :: "node \<Rightarrow> string option \<Rightarrow> string option" where
  "resolve_by_host n host =
     map_option nb_id (find (\<lambda>i. nb_host i = val_opt_str host) (nt_all (n_table n)))"

text \<open>A next hop of a row: \<open>if neighbor and neighbor.via\<close>.\<close>

definition via_of :: "neighbor option \<Rightarrow> string option" where
  "via_of r = (case r of None \<Rightarrow> None | Some i \<Rightarrow> (case nb_via i of None \<Rightarrow> None | Some v \<Rightarrow> if v = [] then None else Some v))"

definition forward_by_host :: "MsgPack \<Rightarrow> (node, unit) act" where
  "forward_by_host p n =
     (case resolve_by_host n (dst p) of
        None \<Rightarrow> (Raise (NoRouteToHost (dst p)), n)
      | Some rid \<Rightarrow>
          if rid = [] \<or> nt_get (n_table n) (Some rid) = None then (Raise (NoRouteToHost (dst p)), n)
          else
            (case via_of (nt_get (n_table n) (Some rid)) of
               Some v \<Rightarrow>
                 act_bind (get_transport_to (Some v)) (\<lambda>t.
                   case t of
                     Some ws \<Rightarrow> ws_send ws (in_transit (hop_out n p))
                   | None \<Rightarrow> act_raise (NoRouteToHost (dst p))) n
             | None \<Rightarrow>
                 (case dict_get (n_nodes n) (canon rid) of
                    Some ws \<Rightarrow> ws_send ws (hop_out n p) n
                  | None \<Rightarrow>
                      (case dict_get (n_client n) (canon rid) of
                         Some ws \<Rightarrow> ws_send ws (hop_out n p) n
                       | None \<Rightarrow> (Raise (NoRouteToHost (dst p)), n)))))"

definition forward_via :: "MsgPack \<Rightarrow> (node, unit) act" where
  "forward_via p n =
     (case via_of (nt_get (n_table n) (dst p)) of
        None \<Rightarrow> forward_by_host p n
      | Some v \<Rightarrow>
          act_bind (get_transport_to (Some v)) (\<lambda>t.
            case t of
              Some ws \<Rightarrow> ws_send ws (in_transit (hop_out n p))
            | None \<Rightarrow> forward_by_host p) n)"

definition forward :: "MsgPack \<Rightarrow> (node, unit) act" where
  "forward p n =
     (case get_opt (n_nodes n) (map_option canon (dst p)) of
        Some ws \<Rightarrow> ws_send ws (hop_out n p) n
      | None \<Rightarrow>
          (case get_opt (n_client n) (map_option canon (dst p)) of
             Some ws \<Rightarrow> ws_send ws (hop_out n p) n
           | None \<Rightarrow> forward_via p n))"

section \<open>The way back\<close>

definition resolve_payload :: "MsgPack \<Rightarrow> pyval" where
  "resolve_payload p =
     (if ptype p = ERROR
      then PExc (PyException (case error p of None \<Rightarrow> ''unknown error'' | Some e \<Rightarrow> if e = [] then ''unknown error'' else e))
      else data p)"

text \<open>A node at the end of the path takes itself off before it looks for the next hop.\<close>

definition pop_self :: "node \<Rightarrow> string list \<Rightarrow> string list" where
  "pop_self n xs = (if xs \<noteq> [] \<and> is_local_name n (last xs) then butlast xs else xs)"

definition route_back :: "MsgPack \<Rightarrow> (node, unit) act" where
  "route_back p n =
     (let rest = pop_self n (path p)
      in if rest = [] then resolve_session (label p) (resolve_payload p) n
         else
           act_bind (get_transport_to (Some (last rest))) (\<lambda>t.
             case t of
               None \<Rightarrow> act_ret ()
             | Some ws \<Rightarrow> ws_send ws (p\<lparr>path := rest\<rparr>)) n)"

definition send_pack :: "MsgPack \<Rightarrow> (node, unit) act" where
  "send_pack p =
     (if path p \<noteq> [] then route_back p
      else act_bind (get_transport_to (dst p)) (\<lambda>t.
             case t of None \<Rightarrow> act_ret () | Some ws \<Rightarrow> ws_send ws p))"

definition send_back :: "MsgPack \<Rightarrow> MsgPack \<Rightarrow> (node, unit) act" where
  "send_back response original =
     (if path original \<noteq> [] then route_back (response\<lparr>path := path original\<rparr>)
      else act_bind (get_transport_to (dst response)) (\<lambda>t.
             case t of None \<Rightarrow> act_ret () | Some ws \<Rightarrow> ws_send ws response))"

section \<open>Requests for this node\<close>

definition error_pack :: "node \<Rightarrow> MsgPack \<Rightarrow> string \<Rightarrow> MsgPack" where
  "error_pack n p txt =
     (new_pack ERROR (n_id n) (Some (source p)) [])\<lparr>label := label p, error := Some txt, path := path p\<rparr>"

definition chunk_pack :: "node \<Rightarrow> MsgPack \<Rightarrow> pyval \<Rightarrow> MsgPack" where
  "chunk_pack n p v =
     (new_pack STREAM_CHUNK (n_id n) (Some (source p)) [])\<lparr>label := label p, data := v, path := path p\<rparr>"

definition eof_pack :: "node \<Rightarrow> MsgPack \<Rightarrow> MsgPack" where
  "eof_pack n p = (new_pack STREAM_EOF (n_id n) (Some (source p)) [])\<lparr>label := label p, path := path p\<rparr>"

definition not_found_text :: "string option \<Rightarrow> string option \<Rightarrow> string" where
  "not_found_text s m = ''Method not found: '' @ opt_text s @ ''.'' @ opt_text m"

text \<open>The body of the \<open>try\<close>: sending is inside it, so a failed send is an error of the request.\<close>

definition request_body :: "env \<Rightarrow> MsgPack \<Rightarrow> (node, unit) act" where
  "request_body env p n =
     (case execute (e_invoke env) (e_fresh env) (n_services n) p of
        Inl e \<Rightarrow> (Raise e, n)
      | Inr (Response r) \<Rightarrow> send_pack (r\<lparr>path := path p\<rparr>) n
      | Inr (Async_gen vs e) \<Rightarrow>
          act_seq (act_mapM (\<lambda>v. send_pack (chunk_pack n p v)) vs)
            (case e of None \<Rightarrow> send_pack (eof_pack n p) | Some x \<Rightarrow> act_raise x) n)"

definition request_failed :: "env \<Rightarrow> MsgPack \<Rightarrow> exn \<Rightarrow> (node, unit) act" where
  "request_failed env p e n =
     (case e of
        MethodNotFound s m \<Rightarrow> send_pack (error_pack n p (not_found_text s m)) n
      | CancelledError \<Rightarrow> (Raise CancelledError, n)
      | _ \<Rightarrow> send_pack (error_pack n p (e_text env e)) n)"

definition on_request :: "env \<Rightarrow> MsgPack \<Rightarrow> (node, unit) act" where
  "on_request env p = act_catch (request_body env p) (request_failed env p)"

definition no_route_pack :: "node \<Rightarrow> MsgPack \<Rightarrow> MsgPack" where
  "no_route_pack n p =
     (new_pack ERROR (n_id n) (Some (source p)) [])
       \<lparr>label := label p, error := Some (''No route to host: '' @ opt_text (dst p))\<rparr>"

definition on_remote_request :: "env \<Rightarrow> nat \<Rightarrow> MsgPack \<Rightarrow> (node, unit) act" where
  "on_remote_request env ws p n =
     act_catch (forward (p\<lparr>path := path p @ [n_id n], ttl := ttl p - 1\<rparr>))
       (\<lambda>e. case e of
              NoRouteToHost d \<Rightarrow>
                act_seq (act_modify (\<lambda>n. n\<lparr>n_pending := dict_pop (label p) (n_pending n)\<rparr>))
                  (ws_send ws (no_route_pack n p))
            | _ \<Rightarrow> act_raise e)
       (n\<lparr>n_pending := dict_set (label p) (ws, e_mono env) (n_pending n)\<rparr>)"

text \<open>A packet in transit: dropped when its hops are used up or when it has been here before.\<close>

definition seen_here :: "node \<Rightarrow> MsgPack \<Rightarrow> bool" where
  "seen_here n p \<longleftrightarrow> canon (n_id n) \<in> set (map canon (path p))"

definition on_forwarded :: "env \<Rightarrow> MsgPack \<Rightarrow> (node, unit) act" where
  "on_forwarded env p n =
     (if ttl p \<le> 0 then (Ret (), n)
      else if seen_here n p then (Ret (), n)
      else
        (let q = p\<lparr>path := path p @ [n_id n]\<rparr>
         in if map_option canon (dst p) = Some (canon (n_id n)) then on_request env (q\<lparr>ptype := REQUEST\<rparr>) n
            else forward q n))"

section \<open>Streams\<close>

text \<open>A reply to \<open>STREAM_OPEN\<close>: readiness, or the error as a packet.\<close>

definition stream_error_pack :: "node \<Rightarrow> MsgPack \<Rightarrow> string \<Rightarrow> MsgPack" where
  "stream_error_pack n p txt =
     (new_pack ERROR (n_id n) (Some (source p)) [])\<lparr>label := label p, error := Some txt\<rparr>"

definition on_stream_open :: "env \<Rightarrow> MsgPack \<Rightarrow> (node, MsgPack) act" where
  "on_stream_open env p n =
     (let (res, task, reg) = open_stream (n_services n) (e_fresh env) (n_buff n) p (n_streams n);
          n' = n\<lparr>n_streams := reg, n_tasks := n_tasks n @ (case task of None \<Rightarrow> [] | Some t \<Rightarrow> [t])\<rparr>
      in case res of
           Inr r \<Rightarrow> (Ret r, n')
         | Inl e \<Rightarrow>
             (case e of
                MethodNotFound s m \<Rightarrow> (Ret (stream_error_pack n p (not_found_text s m)), n')
              | CancelledError \<Rightarrow> (Raise CancelledError, n')
              | _ \<Rightarrow> (Ret (stream_error_pack n p (e_text env e)), n')))"

definition route_complete :: "MsgPack \<Rightarrow> bool" where
  "route_complete p \<longleftrightarrow> path p \<noteq> [] \<and> source p \<noteq> [] \<and> dst p \<noteq> None \<and> dst p \<noteq> Some []"

definition cache_route_on_open :: "env \<Rightarrow> MsgPack \<Rightarrow> node \<Rightarrow> node" where
  "cache_route_on_open env p n =
     (if \<not> route_complete p then n
      else n\<lparr>n_routes := dict_set (label p)
        \<lparr>rt_label = label p, rt_source = canon (source p), rt_dst = canon (opt_text (dst p)),
         rt_forward = map canon (rev (path p)), rt_backward = map canon (path p), rt_at = e_mono env\<rparr>
        (n_routes n)\<rparr>)"

definition cache_route_on_ready :: "env \<Rightarrow> MsgPack \<Rightarrow> node \<Rightarrow> node" where
  "cache_route_on_ready env p n =
     (if \<not> route_complete p then n
      else n\<lparr>n_routes := dict_set (label p)
        \<lparr>rt_label = label p, rt_source = canon (opt_text (dst p)), rt_dst = canon (source p),
         rt_forward = map canon (rev (path p)), rt_backward = map canon (path p), rt_at = e_mono env\<rparr>
        (n_routes n)\<rparr>)"

definition route_expired :: "real \<Rightarrow> stream_route \<Rightarrow> bool" where
  "route_expired now r \<longleftrightarrow> now - rt_at r > stream_route_ttl"

text \<open>Reading a route renews it; an expired one is dropped.\<close>

definition get_stream_route :: "env \<Rightarrow> string \<Rightarrow> (node, stream_route option) act" where
  "get_stream_route env lbl n =
     (case dict_get (n_routes n) lbl of
        None \<Rightarrow> (Ret None, n)
      | Some r \<Rightarrow>
          if route_expired (e_mono env) r
          then (Ret None, n\<lparr>n_routes := dict_pop lbl (n_routes n)\<rparr>)
          else (let r' = r\<lparr>rt_at := e_mono env\<rparr>
                in (Ret (Some r'), n\<lparr>n_routes := dict_set lbl r' (n_routes n)\<rparr>)))"

definition cache_transit_route :: "env \<Rightarrow> MsgPack \<Rightarrow> node \<Rightarrow> node" where
  "cache_transit_route env p n =
     (if source p = [] \<or> dst p = None \<or> dst p = Some [] \<or> dict_get (n_routes n) (label p) \<noteq> None then n
      else n\<lparr>n_routes := dict_set (label p)
        \<lparr>rt_label = label p, rt_source = canon (source p), rt_dst = canon (opt_text (dst p)),
         rt_forward = map canon (path p), rt_backward = [], rt_at = e_mono env\<rparr> (n_routes n)\<rparr>)"

definition forward_stream_open :: "env \<Rightarrow> MsgPack \<Rightarrow> (node, unit) act" where
  "forward_stream_open env p n =
     (let q = p\<lparr>path := path p @ [n_id n], ttl := ttl p - 1\<rparr>
      in forward q (cache_transit_route env q n))"

text \<open>The element after the first occurrence.\<close>

fun next_after :: "string \<Rightarrow> string list \<Rightarrow> string option" where
  "next_after x [] = None"
| "next_after x (y # ys) = (if y = x then (case ys of [] \<Rightarrow> None | z # zs \<Rightarrow> Some z) else next_after x ys)"

definition forward_stream_data :: "env \<Rightarrow> MsgPack \<Rightarrow> (node, unit) act" where
  "forward_stream_data env p =
     act_bind (get_stream_route env (label p)) (\<lambda>r n.
       case Option.bind r (\<lambda>r. next_after (n_id n) (rt_forward r)) of
         None \<Rightarrow> forward p n
       | Some h \<Rightarrow>
           act_bind (get_transport_to (Some h)) (\<lambda>t.
             case t of Some ws \<Rightarrow> ws_send ws p | None \<Rightarrow> forward p) n)"

text \<open>The acknowledgement of a consumer: along the cached route, or straight to the producer.\<close>

definition send_stream_ack :: "env \<Rightarrow> string \<Rightarrow> int \<Rightarrow> (node, unit) act" where
  "send_stream_ack env lbl buff =
     act_bind (get_stream_route env lbl) (\<lambda>r n.
       (let a = (new_pack STREAM_ACK (n_id n) (map_option rt_source r) [])
                  \<lparr>label := lbl, data := PInt buff, path := (case r of None \<Rightarrow> [] | Some x \<Rightarrow> rt_backward x)\<rparr>
        in if path a \<noteq> [] then route_back a n
           else if dst a = None \<or> dst a = Some [] then (Ret (), n)
           else act_bind (get_transport_to (dst a)) (\<lambda>t.
                  case t of None \<Rightarrow> act_ret () | Some ws \<Rightarrow> ws_send ws a) n))"

section \<open>Dispatch of a packet\<close>

definition ack_label :: "string \<Rightarrow> string" where
  "ack_label lbl = ''ack_'' @ lbl"

text \<open>An answer for a local client: its entry is taken out before the send.\<close>

definition answer_client :: "MsgPack \<Rightarrow> nat \<Rightarrow> (node, unit) act" where
  "answer_client p ws =
     act_seq (act_modify (\<lambda>n. n\<lparr>n_pending := dict_pop (label p) (n_pending n)\<rparr>)) (ws_send ws p)"

definition on_response :: "MsgPack \<Rightarrow> (node, unit) act" where
  "on_response p n =
     (case dict_get (n_pending n) (label p) of
        Some (ws, t) \<Rightarrow> answer_client p ws n
      | None \<Rightarrow> if path p \<noteq> [] then route_back p n else resolve_session (label p) (data p) n)"

definition on_error :: "MsgPack \<Rightarrow> (node, unit) act" where
  "on_error p n =
     (if stream_get (n_streams n) (label p) \<noteq> None
      then on_streams (stream_fail (label p)
             (PyException (case error p of None \<Rightarrow> ''producer failed'' | Some e \<Rightarrow> if e = [] then ''producer failed'' else e))) n
      else
        (case dict_get (n_pending n) (label p) of
           Some (ws, t) \<Rightarrow> answer_client p ws n
         | None \<Rightarrow>
             if path p \<noteq> [] then route_back p n
             else resolve_session (label p) (PExc (PyException (opt_text (error p)))) n))"

text \<open>
  \<open>(pack.data or {}).get(k, d)\<close>; data that is not a dictionary raises. A sender name that is
  neither a text nor \<open>None\<close> is rejected where it would be stored.
\<close>

definition body_get :: "MsgPack \<Rightarrow> string \<Rightarrow> pyval \<Rightarrow> exn + pyval" where
  "body_get p k dflt = val_get (py_or (data p) (PDict [])) k dflt"

definition with_body :: "MsgPack \<Rightarrow> string \<Rightarrow> pyval \<Rightarrow> (pyval \<Rightarrow> (node, unit) act) \<Rightarrow> (node, unit) act" where
  "with_body p k dflt f = (case body_get p k dflt of Inl e \<Rightarrow> act_raise e | Inr v \<Rightarrow> f v)"

definition on_gossip :: "env \<Rightarrow> MsgPack \<Rightarrow> (node, unit) act" where
  "on_gossip env p =
     with_body p ''neighbors'' (PList []) (\<lambda>nbs.
     with_body p ''from'' (PStr (source p)) (\<lambda>frm.
       case as_opt_str frm of
         None \<Rightarrow> act_raise ValidationError
       | Some f \<Rightarrow> on_table (merge_gossip (e_wall env) nbs f)))"

definition on_announce :: "MsgPack \<Rightarrow> (node, unit) act" where
  "on_announce p =
     with_body p ''services'' (PList []) (\<lambda>svcs.
     with_body p ''from'' (PStr (source p)) (\<lambda>frm.
       case frm of
         PStr f \<Rightarrow> act_modify (\<lambda>n. n\<lparr>n_table := update_services f svcs (n_table n)\<rparr>)
       | _ \<Rightarrow> if hashable frm then act_ret () else act_raise TypeError))"

definition on_cert_sync :: "env \<Rightarrow> MsgPack \<Rightarrow> (node, unit) act" where
  "on_cert_sync env p =
     with_body p ''certs'' (PList []) (\<lambda>cs.
     with_body p ''sync_version'' (PInt 0) (\<lambda>ver.
       on_certs (merge_cert_sync (e_mono env) (source p) cs ver)))"

definition pong_pack :: "node \<Rightarrow> MsgPack \<Rightarrow> MsgPack" where
  "pong_pack n p = (new_pack PONG (n_id n) (Some (source p)) [])\<lparr>label := label p, path := path p\<rparr>"

definition touch_source :: "env \<Rightarrow> MsgPack \<Rightarrow> node \<Rightarrow> node" where
  "touch_source env p n =
     (if source p = [] then n else n\<lparr>n_table := touch (e_wall env) (source p) (n_table n)\<rparr>)"

definition dispatch_pack :: "env \<Rightarrow> nat \<Rightarrow> MsgPack \<Rightarrow> (node, unit) act" where
  "dispatch_pack env ws p n =
     (case ptype p of
        FORWARDED \<Rightarrow> on_forwarded env p n
      | REQUEST \<Rightarrow> if is_remote n p then on_remote_request env ws p n else on_request env p n
      | RESPONSE \<Rightarrow> on_response p n
      | STREAM_OPEN \<Rightarrow>
          if is_remote n p then forward_stream_open env p n
          else act_bind (on_stream_open env p) (\<lambda>r.
                 act_seq (act_modify (cache_route_on_open env p)) (send_back r p)) n
      | STREAM_READY \<Rightarrow>
          act_seq (act_modify (cache_route_on_ready env p))
            (if path p \<noteq> [] then route_back p else resolve_session (label p) (data p)) n
      | STREAM_CHUNK \<Rightarrow>
          if is_remote n p then forward_stream_data env p n
          else on_streams (stream_feed (label p) (data p)) n
      | STREAM_ACK \<Rightarrow>
          if is_remote n p then route_back p n
          else resolve_session (ack_label (label p)) (PStr ''ack'') n
      | STREAM_EOF \<Rightarrow>
          if is_remote n p then forward_stream_data env p n
          else act_seq (on_streams (stream_close (label p)))
                 (act_modify (\<lambda>n. n\<lparr>n_routes := dict_pop (label p) (n_routes n)\<rparr>)) n
      | ERROR \<Rightarrow> on_error p n
      | GOSSIP \<Rightarrow> on_gossip env p n
      | ANNOUNCE \<Rightarrow> on_announce p n
      | CERT_SYNC \<Rightarrow> on_cert_sync env p n
      | PING \<Rightarrow> send_back (pong_pack n p) p n
      | PONG \<Rightarrow> resolve_session (label p) (PStr ''pong'') n
      | HELLO \<Rightarrow> (Ret (), n)
      | HELLO_ACK \<Rightarrow> (Ret (), n)
      | HELLO_REJECT \<Rightarrow> (Ret (), n))"

definition handle :: "env \<Rightarrow> nat \<Rightarrow> MsgPack \<Rightarrow> (node, unit) act" where
  "handle env ws p n = dispatch_pack env ws p (touch_source env p n)"

section \<open>Calls made by this node\<close>

datatype call_state = Call_done pyval | Call_waits nat

definition call_pack :: "env \<Rightarrow> node \<Rightarrow> string \<Rightarrow> string \<Rightarrow> string \<Rightarrow> pyval \<Rightarrow> MsgPack" where
  "call_pack env n d svc m v =
     (new_pack REQUEST (n_id n) (Some d) (e_fresh env))
       \<lparr>service := Some svc, meth := Some m, data := v, path := [n_id n], ttl := default_ttl\<rparr>"

text \<open>The request is for this node: by its id, its alias, or a host that resolves to its id.\<close>

definition calls_self :: "node \<Rightarrow> string \<Rightarrow> bool" where
  "calls_self n d \<longleftrightarrow>
     canon d = canon (n_id n) \<or> canon d = canon (n_alias n) \<or> resolve_by_host n (Some d) = Some (n_id n)"

definition local_call :: "env \<Rightarrow> MsgPack \<Rightarrow> (node, call_state) act" where
  "local_call env p n =
     (case execute (e_invoke env) (e_fresh env) (n_services n) p of
        Inl e \<Rightarrow> (Raise e, n)
      | Inr (Response r) \<Rightarrow> (Ret (Call_done (data r)), n)
      | Inr (Async_gen vs e) \<Rightarrow> (Raise AttributeError, n))"

definition open_session :: "MsgPack \<Rightarrow> (node, nat) act" where
  "open_session p n =
     (let (f, st) = register_single (label p) (service p) (meth p) (n_sessions n)
      in (Ret f, n\<lparr>n_sessions := st\<rparr>))"

text \<open>Up to the wait for the answer. Only a missing route cancels the session.\<close>

definition call_start :: "env \<Rightarrow> string \<Rightarrow> string \<Rightarrow> string \<Rightarrow> pyval \<Rightarrow> (node, call_state) act" where
  "call_start env d svc m v n =
     (let p = call_pack env n d svc m v
      in if calls_self n d then local_call env p n
         else
           act_bind (open_session p) (\<lambda>f.
             act_bind
               (act_catch (forward p)
                 (\<lambda>e. case e of
                    NoRouteToHost x \<Rightarrow> act_seq (cancel_session (label p)) (act_raise (NoRouteToHost x))
                  | _ \<Rightarrow> act_raise e))
               (\<lambda>_. act_ret (Call_waits f))) n)"

text \<open>The wait ends: with the answer (an exception is raised), or with the time limit.\<close>

definition call_finish :: "nat \<Rightarrow> (node, pyval) act" where
  "call_finish f n =
     (case fut_state (n_sessions n) f of
        Some (Done v) \<Rightarrow> (case v of PExc e \<Rightarrow> (Raise e, n) | _ \<Rightarrow> (Ret v, n))
      | Some Cancelled \<Rightarrow> (Raise CancelledError, n)
      | _ \<Rightarrow> (Suspended, n))"

definition call_timeout :: "string \<Rightarrow> nat \<Rightarrow> int \<Rightarrow> (node, pyval) act" where
  "call_timeout lbl f limit n =
     (Raise (RPCTimeout lbl limit), n\<lparr>n_sessions := cancel lbl (expire f (n_sessions n))\<rparr>)"

subsection \<open>Streams opened by this node\<close>

definition mesh_pipe_name :: "string \<Rightarrow> string" where
  "mesh_pipe_name lbl = ''mesh_'' @ take 8 lbl"

definition register_pipe :: "string \<Rightarrow> pipe \<Rightarrow> (node, nat) act" where
  "register_pipe lbl p n =
     (let (r, s) = alloc_pipe p (n_streams n) in (Ret r, n\<lparr>n_streams := stream_register lbl r s\<rparr>))"

definition forget_stream :: "string \<Rightarrow> (node, unit) act" where
  "forget_stream lbl = act_modify (\<lambda>n. n\<lparr>n_streams := stream_remove lbl (n_streams n)\<rparr>)"

text \<open>The pipe is registered before the request leaves, so early chunks are kept.\<close>

definition stream_start :: "env \<Rightarrow> string \<Rightarrow> string \<Rightarrow> string \<Rightarrow> pyval \<Rightarrow> (node, nat \<times> nat) act" where
  "stream_start env d svc m v n =
     (let p = (call_pack env n d svc m v)\<lparr>ptype := STREAM_OPEN\<rparr>
      in act_bind (open_session p) (\<lambda>f.
           act_bind (register_pipe (label p) (new_pipe (mesh_pipe_name (label p)) (n_buff n))) (\<lambda>r.
             act_bind
               (act_catch (forward p)
                 (\<lambda>e. case e of
                    NoRouteToHost x \<Rightarrow>
                      act_seq (cancel_session (label p))
                        (act_seq (forget_stream (label p)) (act_raise (NoRouteToHost x)))
                  | _ \<Rightarrow> act_raise e))
               (\<lambda>_. act_ret (f, r)))) n)"

definition stream_timeout :: "string \<Rightarrow> nat \<Rightarrow> int \<Rightarrow> (node, unit) act" where
  "stream_timeout lbl f limit n =
     (Raise (RPCTimeout lbl limit),
      n\<lparr>n_sessions := cancel lbl (expire f (n_sessions n)), n_streams := stream_remove lbl (n_streams n),
        n_routes := dict_pop lbl (n_routes n)\<rparr>)"

record mesh_iter =
  it_label :: string
  it_pipe :: nat
  it_buff :: int
  it_since :: int

text \<open>
  \<open>__anext__\<close> reads the queue of the pipe itself: every \<open>it_buff\<close> chunks it acknowledges.
\<close>

definition mesh_next :: "env \<Rightarrow> mesh_iter \<Rightarrow> (node, pyval \<times> mesh_iter) act" where
  "mesh_next env it =
     act_bind (on_streams (on_pipe (it_pipe it) pipe_get)) (\<lambda>x.
       case x of
         Sentinel \<Rightarrow> act_raise StopAsyncIteration
       | Chunk v \<Rightarrow>
           if it_since it + 1 \<ge> it_buff it
           then act_seq (send_stream_ack env (it_label it) (it_buff it)) (act_ret (v, it\<lparr>it_since := 0\<rparr>))
           else act_ret (v, it\<lparr>it_since := it_since it + 1\<rparr>))"

section \<open>Invariant of a node\<close>

text \<open>
  The invariants of the parts, and: a cached transport is always a socket that is registered
  for that node now, and a row marked as a direct connection has a registered socket.
\<close>

definition cache_ok :: "node \<Rightarrow> bool" where
  "cache_ok n \<longleftrightarrow>
     (\<forall>k ws. dict_get (n_cache n) k = Some ws \<longrightarrow> dict_get (n_nodes n) k = Some ws \<or> dict_get (n_client n) k = Some ws)"

definition linked_ok :: "node \<Rightarrow> bool" where
  "linked_ok n \<longleftrightarrow>
     (\<forall>k \<in> conn (n_table n). dict_get (n_nodes n) k \<noteq> None \<or> dict_get (n_client n) k \<noteq> None)"

definition node_ok :: "node \<Rightarrow> bool" where
  "node_ok n \<longleftrightarrow> table_ok (n_table n) \<and> sess_ok (n_sessions n) \<and> reg_ok (n_streams n) \<and> cache_ok n \<and> linked_ok n"

lemma new_node_ok [simp, intro]: "node_ok (new_node nid alias buff)"
  by (simp add: node_ok_def new_node_def cache_ok_def linked_ok_def)

lemma node_ok_table: "node_ok n \<Longrightarrow> table_ok t \<Longrightarrow> conn t \<subseteq> conn (n_table n) \<Longrightarrow> node_ok (n\<lparr>n_table := t\<rparr>)"
  by (auto simp: node_ok_def cache_ok_def linked_ok_def)

lemma node_ok_sessions: "node_ok n \<Longrightarrow> sess_ok st \<Longrightarrow> node_ok (n\<lparr>n_sessions := st\<rparr>)"
  and node_ok_streams: "node_ok n \<Longrightarrow> reg_ok s \<Longrightarrow> node_ok (n\<lparr>n_streams := s\<rparr>)"
  and node_ok_other: "node_ok (n\<lparr>n_out := out\<rparr>) = node_ok n" "node_ok (n\<lparr>n_pending := pend\<rparr>) = node_ok n"
    "node_ok (n\<lparr>n_routes := rts\<rparr>) = node_ok n" "node_ok (n\<lparr>n_certs := cs\<rparr>) = node_ok n"
    "node_ok (n\<lparr>n_tasks := ts\<rparr>) = node_ok n" "node_ok (n\<lparr>n_dead := ds\<rparr>) = node_ok n"
    "node_ok (n\<lparr>n_services := ss\<rparr>) = node_ok n"
  by (simp_all add: node_ok_def cache_ok_def linked_ok_def)

lemma on_table_keeps:
  assumes "keeps table_ok m" "\<And>t. conn (snd (m t)) \<subseteq> conn t"
  shows "keeps node_ok (on_table m)"
proof (rule keepsI)
  fix n assume ok: "node_ok n"
  then have "table_ok (snd (m (n_table n)))" by (auto simp: node_ok_def intro: keepsD [OF assms(1)])
  from node_ok_table [OF ok this assms(2)] show "node_ok (snd (on_table m n))"
    by (simp add: on_table_def act_on_def Let_def split_beta)
qed

lemma on_streams_keeps: "keeps reg_ok m \<Longrightarrow> keeps node_ok (on_streams m)"
  by (rule keepsI) (auto simp: on_streams_def act_on_def Let_def node_ok_def cache_ok_def linked_ok_def keeps_def split: prod.split dest: spec)

lemma on_certs_keeps: "keeps node_ok (on_certs m)"
  by (rule keepsI) (auto simp: on_certs_def act_on_def Let_def node_ok_other split: prod.split)

lemma resolve_session_keeps: "keeps node_ok (resolve_session lbl v)"
  unfolding resolve_session_def by (rule keeps_modify) (simp add: node_ok_def cache_ok_def linked_ok_def resolve_ok)

lemma cancel_session_keeps: "keeps node_ok (cancel_session lbl)"
  unfolding cancel_session_def by (rule keeps_modify) (simp add: node_ok_def cache_ok_def linked_ok_def cancel_ok)

lemma ws_send_keeps: "keeps node_ok (ws_send ws p)"
  by (rule keepsI) (simp add: ws_send_def node_ok_other)

lemma get_transport_keeps: "keeps node_ok (get_transport_to nid)"
  by (rule keepsI) (auto simp: get_transport_to_def node_ok_def cache_ok_def linked_ok_def split: option.split)

lemmas transport_keeps = ws_send_keeps get_transport_keeps resolve_session_keeps cancel_session_keeps

end
