(* ===== verification/Router_Facts.thy ===== *)
theory Router_Facts
  imports Router
begin

text \<open>
  What packet handling guarantees on one node: the invariant of the node under every packet,
  what leaves the node when a packet is forwarded, dropped, answered or sent back, and the life
  of the pending answers. The handlers are those of \<open>Router\<close>.
\<close>

section \<open>The invariant is kept by every handler\<close>

lemma keeps_send_on: "keeps node_ok (act_bind (get_transport_to d) (\<lambda>t. case t of None \<Rightarrow> act_ret () | Some ws \<Rightarrow> ws_send ws p))"
  by (intro keeps_intros transport_keeps)

lemma forward_by_host_keeps: "keeps node_ok (forward_by_host p)"
proof (rule keepsI)
  fix n assume ok: "node_ok n"
  have "keeps node_ok (act_bind (get_transport_to (Some v)) (\<lambda>t. case t of
          Some ws \<Rightarrow> ws_send ws (in_transit (hop_out n p)) | None \<Rightarrow> act_raise (NoRouteToHost (dst p))))" for v
    by (intro keeps_intros transport_keeps)
  from keepsD [OF this ok] keepsD [OF ws_send_keeps ok] ok show "node_ok (snd (forward_by_host p n))"
    by (auto simp: forward_by_host_def split: option.split)
qed

lemma forward_via_keeps: "keeps node_ok (forward_via p)"
proof (rule keepsI)
  fix n assume ok: "node_ok n"
  have "keeps node_ok (act_bind (get_transport_to (Some v)) (\<lambda>t. case t of
          Some ws \<Rightarrow> ws_send ws (in_transit (hop_out n p)) | None \<Rightarrow> forward_by_host p))" for v
    by (intro keeps_intros transport_keeps forward_by_host_keeps)
  from keepsD [OF this ok] keepsD [OF forward_by_host_keeps ok] show "node_ok (snd (forward_via p n))"
    by (auto simp: forward_via_def split: option.split)
qed

lemma forward_keeps: "keeps node_ok (forward p)"
  by (rule keepsI)
    (auto simp: forward_def split: option.split intro: keepsD [OF ws_send_keeps] keepsD [OF forward_via_keeps])

lemma route_back_keeps: "keeps node_ok (route_back p)"
proof (rule keepsI)
  fix n assume ok: "node_ok n"
  have "keeps node_ok (act_bind (get_transport_to d) (\<lambda>t. case t of
          None \<Rightarrow> act_ret () | Some ws \<Rightarrow> ws_send ws q))" for d q
    by (rule keeps_send_on)
  from keepsD [OF this ok] keepsD [OF resolve_session_keeps ok] show "node_ok (snd (route_back p n))"
    by (auto simp: route_back_def Let_def)
qed

lemma send_pack_keeps: "keeps node_ok (send_pack p)"
  unfolding send_pack_def by (intro keeps_intros transport_keeps route_back_keeps)

lemma send_back_keeps: "keeps node_ok (send_back r p)"
  unfolding send_back_def by (intro keeps_intros transport_keeps route_back_keeps)

lemma request_body_keeps: "keeps node_ok (request_body env p)"
proof (rule keepsI)
  fix n assume ok: "node_ok n"
  have "keeps node_ok (act_seq (act_mapM (\<lambda>v. send_pack (chunk_pack n p v)) vs)
            (case e of None \<Rightarrow> send_pack (eof_pack n p) | Some x \<Rightarrow> act_raise x))" for vs e
    by (intro keeps_intros send_pack_keeps)
  from keepsD [OF this ok] keepsD [OF send_pack_keeps ok] ok show "node_ok (snd (request_body env p n))"
    by (auto simp: request_body_def split: sum.split result.split)
qed

lemma request_failed_keeps: "keeps node_ok (request_failed env p e)"
proof (rule keepsI)
  fix n assume ok: "node_ok n"
  then show "node_ok (snd (request_failed env p e n))"
    unfolding request_failed_def by (cases e) (auto intro: keepsD [OF send_pack_keeps])
qed

lemma on_request_keeps: "keeps node_ok (on_request env p)"
  unfolding on_request_def by (intro keeps_intros request_body_keeps request_failed_keeps)

lemma pending_keeps: "keeps node_ok (act_modify (\<lambda>n. n\<lparr>n_pending := f n\<rparr>))"
  by (rule keeps_modify) (simp add: node_ok_other)

lemma on_remote_request_keeps: "keeps node_ok (on_remote_request env ws p)"
proof (rule keepsI)
  fix n assume ok: "node_ok n"
  define h where "h e = (case e of
      NoRouteToHost d \<Rightarrow> act_seq (act_modify (\<lambda>n. n\<lparr>n_pending := dict_pop (label p) (n_pending n)\<rparr>))
        (ws_send ws (no_route_pack n p))
    | _ \<Rightarrow> act_raise e)" for e
  have h: "keeps node_ok (h e)" for e
    unfolding h_def by (cases e) (auto intro: keeps_intros transport_keeps pending_keeps)
  have "keeps node_ok (act_catch (forward q) h)" for q
    by (intro keeps_intros forward_keeps h)
  moreover have "node_ok (n\<lparr>n_pending := x\<rparr>)" for x using ok by (simp add: node_ok_other)
  ultimately show "node_ok (snd (on_remote_request env ws p n))"
    unfolding on_remote_request_def h_def [symmetric] by (blast intro: keepsD)
qed

lemma on_forwarded_keeps: "keeps node_ok (on_forwarded env p)"
  by (rule keepsI)
    (auto simp: on_forwarded_def Let_def intro: keepsD [OF forward_keeps] keepsD [OF on_request_keeps])

lemma on_stream_open_keeps: "keeps node_ok (on_stream_open env p)"
proof (rule keepsI)
  fix n assume ok: "node_ok n"
  obtain res task reg where o: "open_stream (n_services n) (e_fresh env) (n_buff n) p (n_streams n) = (res, task, reg)"
    by (cases "open_stream (n_services n) (e_fresh env) (n_buff n) p (n_streams n)")
  have "reg_ok reg" using open_stream_ok [OF _ o] ok by (simp add: node_ok_def)
  with ok have "node_ok (n\<lparr>n_streams := reg, n_tasks := ts\<rparr>)" for ts
    by (simp add: node_ok_def cache_ok_def linked_ok_def)
  with o show "node_ok (snd (on_stream_open env p n))"
    by (cases res) (auto simp: on_stream_open_def Let_def split: exn.split)
qed

lemma cache_routes_ok:
  "node_ok n \<Longrightarrow> node_ok (cache_route_on_open env p n)"
  "node_ok n \<Longrightarrow> node_ok (cache_route_on_ready env p n)"
  "node_ok n \<Longrightarrow> node_ok (cache_transit_route env p n)"
  by (simp_all add: cache_route_on_open_def cache_route_on_ready_def cache_transit_route_def node_ok_other)

lemma get_stream_route_keeps: "keeps node_ok (get_stream_route env lbl)"
  by (rule keepsI) (auto simp: get_stream_route_def node_ok_other Let_def split: option.split)

lemma forward_stream_open_keeps: "keeps node_ok (forward_stream_open env p)"
  by (rule keepsI) (auto simp: forward_stream_open_def Let_def intro: keepsD [OF forward_keeps] cache_routes_ok)

lemma forward_stream_data_keeps: "keeps node_ok (forward_stream_data env p)"
  unfolding forward_stream_data_def
proof (intro keeps_bind get_stream_route_keeps)
  fix r
  show "keeps node_ok (\<lambda>n. case Option.bind r (\<lambda>r. next_after (n_id n) (rt_forward r)) of
         None \<Rightarrow> forward p n
       | Some h \<Rightarrow>
           act_bind (get_transport_to (Some h)) (\<lambda>t.
             case t of Some ws \<Rightarrow> ws_send ws p | None \<Rightarrow> forward p) n)"
  proof (rule keepsI)
    fix n assume ok: "node_ok n"
    have "keeps node_ok (act_bind (get_transport_to (Some h)) (\<lambda>t.
             case t of Some ws \<Rightarrow> ws_send ws p | None \<Rightarrow> forward p))" for h
      by (intro keeps_intros transport_keeps forward_keeps)
    from keepsD [OF this ok] keepsD [OF forward_keeps ok]
    show "node_ok (snd (case Option.bind r (\<lambda>r. next_after (n_id n) (rt_forward r)) of
         None \<Rightarrow> forward p n
       | Some h \<Rightarrow>
           act_bind (get_transport_to (Some h)) (\<lambda>t.
             case t of Some ws \<Rightarrow> ws_send ws p | None \<Rightarrow> forward p) n))"
      by (auto split: option.split)
  qed
qed

lemma answer_client_keeps: "keeps node_ok (answer_client p ws)"
  unfolding answer_client_def by (intro keeps_intros pending_keeps transport_keeps)

lemma on_response_keeps: "keeps node_ok (on_response p)"
  by (rule keepsI)
    (auto simp: on_response_def split: option.split
      intro: keepsD [OF answer_client_keeps] keepsD [OF route_back_keeps] keepsD [OF resolve_session_keeps])

lemma on_error_keeps: "keeps node_ok (on_error p)"
  by (rule keepsI)
    (auto simp: on_error_def split: option.split
      intro: keepsD [OF on_streams_keeps [OF stream_fail_keeps]] keepsD [OF answer_client_keeps]
        keepsD [OF route_back_keeps] keepsD [OF resolve_session_keeps])

lemma with_body_keeps: "(\<And>v. keeps P (f v)) \<Longrightarrow> keeps P (with_body p k d f)"
  unfolding with_body_def by (intro keeps_intros)

lemma merge_gossip_keeps: "keeps table_ok (merge_gossip now v frm)"
  by (rule merge_gossip_ok)

lemma on_gossip_keeps: "keeps node_ok (on_gossip env p)"
  unfolding on_gossip_def by (intro with_body_keeps keeps_intros on_table_keeps merge_gossip_keeps conn_merge_gossip)

lemma on_announce_keeps: "keeps node_ok (on_announce p)"
proof -
  have "keeps node_ok (act_modify (\<lambda>n. n\<lparr>n_table := update_services f v (n_table n)\<rparr>))" for f v
    by (rule keeps_modify) (simp add: node_ok_def cache_ok_def linked_ok_def update_services_ok)
  then have "keeps node_ok (case frm of
        PStr f \<Rightarrow> act_modify (\<lambda>n. n\<lparr>n_table := update_services f v (n_table n)\<rparr>)
      | _ \<Rightarrow> if hashable frm then act_ret () else act_raise TypeError)" for frm v
    by (cases frm) (auto intro: keeps_intros)
  then show ?thesis unfolding on_announce_def by (intro with_body_keeps)
qed

lemma on_cert_sync_keeps: "keeps node_ok (on_cert_sync env p)"
  unfolding on_cert_sync_def by (intro with_body_keeps on_certs_keeps)

lemma stream_eof_keeps:
  "keeps node_ok (act_seq (on_streams (stream_close lbl)) (act_modify (\<lambda>n. n\<lparr>n_routes := dict_pop lbl (n_routes n)\<rparr>)))"
  by (intro keeps_intros on_streams_keeps stream_close_keeps keeps_modify) (simp add: node_ok_other)

lemma stream_open_keeps:
  "keeps node_ok (act_bind (on_stream_open env p) (\<lambda>r. act_seq (act_modify (cache_route_on_open env p)) (send_back r p)))"
  by (intro keeps_intros on_stream_open_keeps send_back_keeps keeps_modify) (rule cache_routes_ok)

lemma stream_ready_keeps:
  "keeps node_ok (act_seq (act_modify (cache_route_on_ready env p))
      (if path p \<noteq> [] then route_back p else resolve_session (label p) (data p)))"
  by (intro keeps_intros route_back_keeps resolve_session_keeps keeps_modify) (rule cache_routes_ok)

lemmas handler_keeps = on_forwarded_keeps on_remote_request_keeps on_request_keeps on_response_keeps
  forward_stream_open_keeps stream_open_keeps stream_ready_keeps forward_stream_data_keeps
  on_streams_keeps [OF stream_feed_keeps] route_back_keeps resolve_session_keeps stream_eof_keeps
  on_error_keeps on_gossip_keeps on_announce_keeps on_cert_sync_keeps send_back_keeps

lemma dispatch_keeps: "keeps node_ok (dispatch_pack env ws p)"
proof (rule keepsI)
  fix n assume ok: "node_ok n"
  note k = handler_keeps [THEN keepsD, OF ok]
  show "node_ok (snd (dispatch_pack env ws p n))"
    by (cases "ptype p") (simp_all add: dispatch_pack_def k ok)
qed

lemma touch_source_ok: "node_ok n \<Longrightarrow> node_ok (touch_source env p n)"
  by (simp add: touch_source_def node_ok_def cache_ok_def linked_ok_def touch_ok)

text \<open>No packet breaks a node: whatever arrives, of any kind and with any contents, and whether
  handling it returns, raises or suspends, the neighbour table, the request sessions and the stream
  registry stay well-formed, every cached transport is still a socket registered for its node, and every row
  marked as a direct connection still has a registered socket.\<close>

theorem handle_keeps_node_ok:
  assumes "node_ok n"
  shows "node_ok (snd (handle env ws p n))"
  unfolding handle_def by (rule keepsD [OF dispatch_keeps touch_source_ok [OF assms]])

definition ex_env :: env where
  "ex_env = \<lparr>e_wall = 100, e_mono = 50, e_fresh = ''u1'',
     e_invoke = (\<lambda>svc m args. if m = ''echo'' then Value (PList args) else Failure ValueError), e_text = (\<lambda>_. ''boom'')\<rparr>"

theorem handle_keeps_node_ok_witness:
  "node_ok (snd (handle ex_env 3 (new_pack GOSSIP ''peer'' None ''l'') (new_node ''own'' ''me'' 4)))"
  by (rule handle_keeps_node_ok) simp

section \<open>Transports\<close>

definition socket_of :: "node \<Rightarrow> string \<Rightarrow> nat option" where
  "socket_of n k =
     (case dict_get (n_cache n) k of
        Some ws \<Rightarrow> Some ws
      | None \<Rightarrow> (case dict_get (n_nodes n) k of Some ws \<Rightarrow> Some ws | None \<Rightarrow> dict_get (n_client n) k))"

definition linked :: "node \<Rightarrow> string \<Rightarrow> nat \<Rightarrow> bool" where
  "linked n k ws \<longleftrightarrow> dict_get (n_nodes n) k = Some ws \<or> dict_get (n_client n) k = Some ws"

lemma socket_linked: "cache_ok n \<Longrightarrow> socket_of n k = Some ws \<Longrightarrow> linked n k ws"
  by (auto simp: socket_of_def linked_def cache_ok_def split: option.splits)

lemma socket_None: "socket_of n k = None \<Longrightarrow> \<not> linked n k ws"
  by (auto simp: socket_of_def linked_def split: option.splits)

lemma get_transport_cases:
  obtains (found) ws c where "socket_of n (canon k) = Some ws" "get_transport_to (Some k) n = (Ret (Some ws), n\<lparr>n_cache := c\<rparr>)"
    | (absent) "socket_of n (canon k) = None" "get_transport_to (Some k) n = (Ret None, n)"
proof (cases "socket_of n (canon k)")
  case None
  then show ?thesis by (intro absent) (auto simp: socket_of_def get_transport_to_def split: option.splits)
next
  case (Some ws)
  have "\<exists>c. get_transport_to (Some k) n = (Ret (Some ws), n\<lparr>n_cache := c\<rparr>)"
  proof (cases "dict_get (n_cache n) (canon k)")
    case None
    with Some show ?thesis by (auto simp: socket_of_def get_transport_to_def split: option.splits)
  next
    case cached: (Some w)
    with Some show ?thesis
      by (intro exI [of _ "n_cache n"]) (simp add: socket_of_def get_transport_to_def)
  qed
  with Some found show ?thesis by blast
qed

lemma send_on_transport:
  assumes "socket_of n (canon k) = Some ws" "ws \<notin> set (n_dead n)"
  shows "\<exists>c. act_bind (get_transport_to (Some k)) (\<lambda>t. case t of None \<Rightarrow> m | Some w \<Rightarrow> ws_send w p) n
    = (Ret (), n\<lparr>n_cache := c, n_out := n_out n @ [(ws, p)]\<rparr>)"
proof -
  from assms(1) obtain c where "get_transport_to (Some k) n = (Ret (Some ws), n\<lparr>n_cache := c\<rparr>)"
    by (cases rule: get_transport_cases [of n k]) simp_all
  with assms(2) show ?thesis
    by (intro exI [of _ c]) (simp add: act_bind_def ws_send_def)
qed

section \<open>What forwarding does\<close>

text \<open>One packet leaves, on a registered socket; or the socket is closed; or there is no route.\<close>

definition forward_outcome :: "MsgPack \<Rightarrow> node \<Rightarrow> unit outcome \<times> node \<Rightarrow> bool" where
  "forward_outcome p n r \<longleftrightarrow>
     (\<exists>k ws c q. linked n k ws \<and> r = (Ret (), n\<lparr>n_cache := c, n_out := n_out n @ [(ws, q)]\<rparr>)
        \<and> (q = hop_out n p \<or> q = in_transit (hop_out n p)))
     \<or> (\<exists>c. r = (Raise ConnectionClosed, n\<lparr>n_cache := c\<rparr>))
     \<or> r = (Raise (NoRouteToHost (dst p)), n)"

lemma forward_outcome_send:
  assumes "linked n k ws" "q = hop_out n p \<or> q = in_transit (hop_out n p)"
  shows "forward_outcome p n (ws_send ws q (n\<lparr>n_cache := c\<rparr>))"
proof (cases "ws \<in> set (n_dead n)")
  case True
  then show ?thesis
    unfolding forward_outcome_def by (intro disjI2 disjI1 exI [of _ c]) (simp add: ws_send_def)
next
  case False
  with assms show ?thesis
    unfolding forward_outcome_def
    by (intro disjI1 exI [of _ k] exI [of _ ws] exI [of _ c] exI [of _ q]) (simp add: ws_send_def)
qed

lemma forward_outcome_direct:
  "dict_get (n_nodes n) k = Some ws \<Longrightarrow> forward_outcome p n (ws_send ws (hop_out n p) n)"
  "dict_get (n_client n) k = Some ws \<Longrightarrow> forward_outcome p n (ws_send ws (hop_out n p) n)"
  using forward_outcome_send [of n k ws "hop_out n p" p "n_cache n"] by (simp_all add: linked_def)

lemma forward_outcome_noroute: "forward_outcome p n (Raise (NoRouteToHost (dst p)), n)"
  by (simp add: forward_outcome_def)

lemma forward_outcome_transport:
  assumes "cache_ok n" "forward_outcome p n (m n)"
  shows "forward_outcome p n (act_bind (get_transport_to (Some v)) (\<lambda>t. case t of
      None \<Rightarrow> m | Some ws \<Rightarrow> ws_send ws (in_transit (hop_out n p))) n)"
proof (cases rule: get_transport_cases [of n v])
  case (found ws c)
  with forward_outcome_send [OF socket_linked [OF assms(1) found(1)], of "in_transit (hop_out n p)" p c]
  show ?thesis by (simp add: act_bind_def)
next
  case absent
  with assms(2) show ?thesis by (simp add: act_bind_def)
qed

lemma forward_by_host_outcome:
  assumes "cache_ok n"
  shows "forward_outcome p n (forward_by_host p n)"
proof -
  have t: "forward_outcome p n (act_bind (get_transport_to (Some v)) (\<lambda>t. case t of
      None \<Rightarrow> act_raise (NoRouteToHost (dst p)) | Some ws \<Rightarrow> ws_send ws (in_transit (hop_out n p))) n)" for v
    by (rule forward_outcome_transport [OF assms]) (simp add: act_raise_def forward_outcome_noroute)
  show ?thesis
    unfolding forward_by_host_def
    using t by (auto intro: forward_outcome_direct forward_outcome_noroute split: option.split)
qed

lemma forward_outcome_holds:
  assumes "cache_ok n"
  shows "forward_outcome p n (forward p n)"
proof -
  have "forward_outcome p n (forward_via p n)"
    unfolding forward_via_def
    using forward_outcome_transport [of n p "forward_by_host p", OF assms forward_by_host_outcome [OF assms]]
      forward_by_host_outcome [OF assms]
    by (simp split: option.split)
  then show ?thesis
    unfolding forward_def
    by (cases "map_option canon (dst p)") (auto intro: forward_outcome_direct split: option.split)
qed

lemma hop_out_simps [simp]:
  "ttl (hop_out n p) = ttl p - 1" "dst (hop_out n p) = dst p" "label (hop_out n p) = label p"
  "data (hop_out n p) = data p" "source (hop_out n p) = source p" "ptype (hop_out n p) = ptype p"
  "service (hop_out n p) = service p" "meth (hop_out n p) = meth p"
  by (simp_all add: hop_out_def)

lemma in_transit_simps [simp]:
  "ttl (in_transit p) = ttl p" "dst (in_transit p) = dst p" "label (in_transit p) = label p"
  "data (in_transit p) = data p" "source (in_transit p) = source p" "path (in_transit p) = path p"
  "service (in_transit p) = service p" "meth (in_transit p) = meth p"
  by (simp_all add: in_transit_def)

lemma hop_out_path:
  "path (hop_out n p) = path p \<or> path (hop_out n p) = path p @ [n_id n]"
  by (simp add: hop_out_def)

text \<open>Forwarding writes at most one packet. It goes to a socket that is registered for some node
  now, is the same request with one hop less, and its path still ends here; otherwise nothing is
  written and the caller learns that there is no route or that the socket is closed.\<close>

theorem forward_effect:
  assumes "cache_ok n" "forward p n = (r, n')"
  shows "(r = Ret () \<and> (\<exists>k ws q. linked n k ws \<and> n_out n' = n_out n @ [(ws, q)] \<and> ttl q = ttl p - 1
           \<and> label q = label p \<and> source q = source p \<and> dst q = dst p \<and> data q = data p
           \<and> service q = service p \<and> meth q = meth p
           \<and> (path q = path p \<or> path q = path p @ [n_id n])
           \<and> (canon (last (path q)) = canon (n_id n) \<or> canon (last (path q)) = canon (n_alias n))
           \<and> (ptype q = ptype p \<or> ptype p = REQUEST \<and> ptype q = FORWARDED)))
    \<or> (r = Raise ConnectionClosed \<and> n_out n' = n_out n)
    \<or> (r = Raise (NoRouteToHost (dst p)) \<and> n' = n)"
proof -
  have last: "canon (last (path (hop_out n p))) = canon (n_id n) \<or> canon (last (path (hop_out n p))) = canon (n_alias n)"
    by (auto simp: hop_out_def)
  have "forward_outcome p n (r, n')" using forward_outcome_holds [OF assms(1), of p] assms(2) by simp
  then consider
      (out) k ws c q where "linked n k ws" "r = Ret ()" "n' = n\<lparr>n_cache := c, n_out := n_out n @ [(ws, q)]\<rparr>"
        "q = hop_out n p \<or> q = in_transit (hop_out n p)"
    | (closed) c where "r = Raise ConnectionClosed" "n' = n\<lparr>n_cache := c\<rparr>"
    | (lost) "r = Raise (NoRouteToHost (dst p))" "n' = n"
    unfolding forward_outcome_def prod.inject by blast
  then show ?thesis
  proof cases
    case out
    have "ptype q = ptype p \<or> ptype p = REQUEST \<and> ptype q = FORWARDED"
      using out(4) by (auto simp: in_transit_def split: if_splits)
    moreover have "n_out n' = n_out n @ [(ws, q)]" using out(3) by simp
    moreover have "ttl q = ttl p - 1 \<and> label q = label p \<and> source q = source p \<and> dst q = dst p \<and> data q = data p
        \<and> service q = service p \<and> meth q = meth p \<and> path q = path (hop_out n p)"
      using out(4) by (elim disjE) simp_all
    ultimately show ?thesis
      using out(1,2) hop_out_path [of n p] last
      by - (rule disjI1, intro conjI exI [of _ k] exI [of _ ws] exI [of _ q], simp_all)
  qed auto
qed

definition ex_relay :: node where
  "ex_relay = (new_node ''b'' ''bee'' 4)\<lparr>n_nodes := [(''a'', 1), (''c'', 2)]\<rparr>"

lemma ex_relay_ok: "node_ok ex_relay" "cache_ok ex_relay"
  by (simp_all add: ex_relay_def node_ok_def new_node_def cache_ok_def linked_ok_def)

lemma ex_canon: "canon ''a'' = ''a''" "canon ''b'' = ''b''" "canon ''c'' = ''c''" "canon ''bee'' = ''bee''"
  by code_simp+

theorem forward_effect_witness:
  "\<exists>n' q. forward ((new_pack FORWARDED ''a'' (Some ''c'') ''l'')\<lparr>path := [''a'', ''b'']\<rparr>) ex_relay = (Ret (), n')
     \<and> n_out n' = [(2, q)] \<and> ttl q = 15 \<and> path q = [''a'', ''b'']"
proof -
  let ?p = "(new_pack FORWARDED ''a'' (Some ''c'') ''l'')\<lparr>path := [''a'', ''b'']\<rparr>"
  obtain r n' where f: "forward ?p ex_relay = (r, n')" by (cases "forward ?p ex_relay")
  then have "r = Ret ()" "n_out n' = [(2, hop_out ex_relay ?p)]"
    by (auto simp: forward_def ex_relay_def new_node_def new_pack_def ex_canon ws_send_def)
  with forward_effect [OF ex_relay_ok(2) f] f show ?thesis
    by (auto simp: hop_out_def new_pack_def ex_relay_def new_node_def ex_canon)
qed

section \<open>Packets in transit\<close>

lemma act_mapM_ret: "(\<And>x s. f x s = (Ret (), g x s)) \<Longrightarrow> act_mapM f xs s = (Ret (), fold g xs s)"
  by (induction xs arbitrary: s) (simp_all add: act_defs)

text \<open>A packet in transit always makes progress or dies. Out of hops, or back at a node it has
  visited under any spelling, it is dropped and nothing is written. Otherwise what leaves an
  intermediate node is the same packet with one hop less, at least zero, and a path extended by this
  node, on which no node occurs twice if none did before.\<close>

theorem forwarded_progress_or_drop:
  assumes "cache_ok n" "on_forwarded env p n = (r, n')" "\<not> is_local_name n (opt_text (dst p))"
    "dst p \<noteq> None" "distinct (map canon (path p))"
  shows "(ttl p \<le> 0 \<or> seen_here n p \<longrightarrow> r = Ret () \<and> n' = n)
    \<and> (n_out n' = n_out n
       \<or> (0 < ttl p \<and> \<not> seen_here n p
          \<and> (\<exists>ws q. n_out n' = n_out n @ [(ws, q)] \<and> 0 \<le> ttl q \<and> ttl q = ttl p - 1 \<and> label q = label p
              \<and> path q = path p @ [n_id n] \<and> distinct (map canon (path q)))))"
proof (cases "ttl p \<le> 0 \<or> seen_here n p")
  case True
  with assms(2) have "r = Ret () \<and> n' = n" by (auto simp: on_forwarded_def split: if_splits)
  then show ?thesis by simp
next
  case False
  let ?q = "p\<lparr>path := path p @ [n_id n]\<rparr>"
  from assms(3,4) have "(map_option canon (dst p) = Some (canon (n_id n))) = False"
    by (auto simp: is_local_name_def opt_text_def)
  with False assms(2) have f: "forward ?q n = (r, n')" by (simp add: on_forwarded_def Let_def del: map_option_eq_Some)
  have hop: "path (hop_out n ?q) = path p @ [n_id n]" by (simp add: hop_out_def)
  have "forward_outcome ?q n (r, n')" using forward_outcome_holds [OF assms(1), of ?q] f by simp
  then consider (out) ws q where "n_out n' = n_out n @ [(ws, q)]" "q = hop_out n ?q \<or> q = in_transit (hop_out n ?q)"
    | (none) "n_out n' = n_out n"
    unfolding forward_outcome_def by fastforce
  then show ?thesis
  proof cases
    case out
    from False assms(5) have "distinct (map canon (path p @ [n_id n]))" by (simp add: seen_here_def)
    moreover have "ttl q = ttl p - 1" "label q = label p" "path q = path p @ [n_id n]"
      using out(2) hop by (elim disjE; simp)+
    ultimately show ?thesis using False out(1) by simp
  qed (use False in simp)
qed

definition ex_transit :: MsgPack where
  "ex_transit = (new_pack FORWARDED ''a'' (Some ''c'') ''l'')\<lparr>path := [''a'']\<rparr>"

theorem forwarded_progress_or_drop_witness:
  "\<exists>n' ws q. on_forwarded ex_env ex_transit ex_relay = (Ret (), n') \<and> n_out n' = [(ws, q)]
     \<and> path q = [''a'', ''b''] \<and> ttl q = 15"
proof -
  obtain r n' where f: "on_forwarded ex_env ex_transit ex_relay = (r, n')"
    by (cases "on_forwarded ex_env ex_transit ex_relay")
  then have "r = Ret ()" "n_out n' \<noteq> n_out ex_relay" "n_out ex_relay = []"
    by (auto simp: on_forwarded_def seen_here_def forward_def ex_transit_def ex_relay_def new_node_def
        new_pack_def ex_canon ws_send_def Let_def)
  with forwarded_progress_or_drop [OF ex_relay_ok(2) f] f show ?thesis
    by (auto simp: ex_transit_def new_pack_def ex_relay_def new_node_def is_local_name_def opt_text_def ex_canon)
qed

section \<open>Answers\<close>

text \<open>Sending along a path that ends here: to the neighbour before, with this node taken off.\<close>

lemma route_back_sends:
  assumes "pop_self n (path q) = xs @ [h]" "socket_of n (canon h) = Some ws" "ws \<notin> set (n_dead n)"
  shows "\<exists>c. route_back q n = (Ret (), n\<lparr>n_cache := c, n_out := n_out n @ [(ws, q\<lparr>path := xs @ [h]\<rparr>)]\<rparr>)"
  using send_on_transport [OF assms(2,3), of "act_ret ()" "q\<lparr>path := xs @ [h]\<rparr>"] assms(1)
  by (simp add: route_back_def)

lemma pop_self_path: "pop_self n (path p) = xs @ [h] \<Longrightarrow> path p \<noteq> []"
  by (auto simp: pop_self_def)

lemma send_pack_sends:
  assumes "pop_self n (path q) = xs @ [h]" "socket_of n (canon h) = Some ws" "ws \<notin> set (n_dead n)"
  shows "\<exists>c. send_pack q n = (Ret (), n\<lparr>n_cache := c, n_out := n_out n @ [(ws, q\<lparr>path := xs @ [h]\<rparr>)]\<rparr>)"
  using route_back_sends [OF assms] pop_self_path [OF assms(1)] by (simp add: send_pack_def)

lemma ptype_simps [simp]:
  "ptype (new_pack t s d l) = t" "source (new_pack t s d l) = s" "dst (new_pack t s d l) = d"
  "label (new_pack t s d l) = l" "path (new_pack t s d l) = []" "ttl (new_pack t s d l) = 16"
  by (simp_all add: new_pack_def)

lemma response_no_error:
  "execute iv fr m p = Inr (Response r) \<Longrightarrow> error r = None"
  unfolding execute_def
  by (auto split: option.splits entry.splits bound.splits reply.splits sum.splits
      simp: map_sum_def response_pack_def new_pack_def)

text \<open>The packets a request is answered with: type, data and error, in order. A generator is answered
  by its items; a cancelled call by nothing.\<close>

definition failure_answer :: "env \<Rightarrow> exn \<Rightarrow> (pack_type \<times> pyval \<times> string option) list" where
  "failure_answer env e =
     (case e of
        MethodNotFound s m \<Rightarrow> [(ERROR, PNone, Some (not_found_text s m))]
      | CancelledError \<Rightarrow> []
      | _ \<Rightarrow> [(ERROR, PNone, Some (e_text env e))])"

definition request_answers :: "env \<Rightarrow> exn + result \<Rightarrow> (pack_type \<times> pyval \<times> string option) list" where
  "request_answers env res =
     (case res of
        Inl e \<Rightarrow> failure_answer env e
      | Inr (Response r) \<Rightarrow> [(RESPONSE, data r, None)]
      | Inr (Async_gen vs e) \<Rightarrow> map (\<lambda>v. (STREAM_CHUNK, v, None)) vs
          @ (case e of None \<Rightarrow> [(STREAM_EOF, PNone, None)] | Some x \<Rightarrow> failure_answer env x))"

definition request_outcome :: "exn + result \<Rightarrow> unit outcome" where
  "request_outcome res =
     (case res of
        Inl CancelledError \<Rightarrow> Raise CancelledError
      | Inr (Async_gen vs (Some CancelledError)) \<Rightarrow> Raise CancelledError
      | _ \<Rightarrow> Ret ())"

text \<open>Every packet of the answer goes to the neighbour the request came from.\<close>

definition answered :: "MsgPack \<Rightarrow> string list \<Rightarrow> nat \<Rightarrow> node \<Rightarrow> (pack_type \<times> pyval \<times> string option) list
    \<Rightarrow> node \<Rightarrow> bool" where
  "answered p rest ws n as n' \<longleftrightarrow>
     (\<exists>qs c. n' = n\<lparr>n_cache := c, n_out := n_out n @ map (Pair ws) qs\<rparr>
        \<and> map (\<lambda>q. (ptype q, data q, error q)) qs = as
        \<and> list_all (\<lambda>q. label q = label p \<and> dst q = Some (source p) \<and> path q = rest) qs)"

definition way_back :: "MsgPack \<Rightarrow> string list \<Rightarrow> nat \<Rightarrow> node \<Rightarrow> bool" where
  "way_back p rest ws n \<longleftrightarrow>
     pop_self n (path p) = rest \<and> rest \<noteq> [] \<and> socket_of n (canon (last rest)) = Some ws \<and> ws \<notin> set (n_dead n)"

lemma get_transport_socket: "socket_of (snd (get_transport_to d n)) k = socket_of n k"
  by (auto simp: get_transport_to_def socket_of_def split: option.split)

lemma send_pack_answers:
  assumes "way_back p rest ws n" "path q = path p" "label q = label p" "dst q = Some (source p)"
  shows "\<exists>n'. send_pack q n = (Ret (), n') \<and> answered p rest ws n [(ptype q, data q, error q)] n' \<and> way_back p rest ws n'"
proof -
  have w: "pop_self n (path p) = rest" "rest \<noteq> []" "socket_of n (canon (last rest)) = Some ws" "ws \<notin> set (n_dead n)"
    using assms(1) by (simp_all add: way_back_def)
  from w(3) obtain c where g: "get_transport_to (Some (last rest)) n = (Ret (Some ws), n\<lparr>n_cache := c\<rparr>)"
    by (cases rule: get_transport_cases [of n "last rest"]) simp_all
  let ?n = "n\<lparr>n_cache := c, n_out := n_out n @ [(ws, q\<lparr>path := rest\<rparr>)]\<rparr>"
  have "path q \<noteq> []" using w(1,2) assms(2) by (auto simp: pop_self_def)
  with w g assms(2) have s: "send_pack q n = (Ret (), ?n)"
    by (simp add: send_pack_def route_back_def act_bind_def ws_send_def)
  have "socket_of (n\<lparr>n_cache := c\<rparr>) (canon (last rest)) = Some ws"
    using get_transport_socket [of "Some (last rest)" n "canon (last rest)"] g w(3) by simp
  moreover have "socket_of ?n k = socket_of (n\<lparr>n_cache := c\<rparr>) k" for k
    by (auto simp: socket_of_def split: option.split)
  ultimately have "way_back p rest ws ?n"
    using w by (simp add: way_back_def pop_self_def is_local_name_def)
  moreover have "answered p rest ws n [(ptype q, data q, error q)] ?n"
    unfolding answered_def using assms(2-4)
    by (intro exI [of _ "[q\<lparr>path := rest\<rparr>]"] exI [of _ c]) simp
  ultimately show ?thesis using s by blast
qed

lemma answered_trans:
  assumes "answered p rest ws n as n1" "answered p rest ws n1 bs n2"
  shows "answered p rest ws n (as @ bs) n2"
proof -
  from assms obtain qs c qs' c' where
    "n1 = n\<lparr>n_cache := c, n_out := n_out n @ map (Pair ws) qs\<rparr>" "map (\<lambda>q. (ptype q, data q, error q)) qs = as"
    "list_all (\<lambda>q. label q = label p \<and> dst q = Some (source p) \<and> path q = rest) qs"
    "n2 = n1\<lparr>n_cache := c', n_out := n_out n1 @ map (Pair ws) qs'\<rparr>" "map (\<lambda>q. (ptype q, data q, error q)) qs' = bs"
    "list_all (\<lambda>q. label q = label p \<and> dst q = Some (source p) \<and> path q = rest) qs'"
    unfolding answered_def by blast
  then show ?thesis unfolding answered_def
    by (intro exI [of _ "qs @ qs'"] exI [of _ c']) simp
qed

lemma answered_none: "answered p rest ws n [] n"
  unfolding answered_def by (intro exI [of _ "[]"] exI [of _ "n_cache n"]) simp

lemma failure_answered:
  assumes "way_back p rest ws n"
  shows "\<exists>n'. request_failed env p e n = (if e = CancelledError then Raise CancelledError else Ret (), n')
    \<and> answered p rest ws n (failure_answer env e) n'"
proof -
  have msg: "\<exists>n'. send_pack (error_pack n p t) n = (Ret (), n') \<and> answered p rest ws n [(ERROR, PNone, Some t)] n'" for t
    using send_pack_answers [OF assms, of "error_pack n p t"] by (auto simp: error_pack_def new_pack_def)
  show ?thesis
  proof (cases "e = CancelledError")
    case True
    then show ?thesis using answered_none [of p rest ws n] by (simp add: request_failed_def failure_answer_def)
  next
    case False
    have "request_failed env p e n = send_pack (error_pack n p (case e of MethodNotFound s m \<Rightarrow> not_found_text s m | _ \<Rightarrow> e_text env e)) n"
      "failure_answer env e = [(ERROR, PNone, Some (case e of MethodNotFound s m \<Rightarrow> not_found_text s m | _ \<Rightarrow> e_text env e))]"
      using False by (cases e; simp add: request_failed_def failure_answer_def)+
    with msg False show ?thesis by simp
  qed
qed

lemma chunks_answered:
  assumes "way_back p rest ws n" "n_id m = n_id n"
  shows "\<exists>n'. act_mapM (\<lambda>v. send_pack (chunk_pack m p v)) vs n = (Ret (), n')
    \<and> answered p rest ws n (map (\<lambda>v. (STREAM_CHUNK, v, None)) vs) n' \<and> way_back p rest ws n'"
  using assms
proof (induction vs arbitrary: n)
  case Nil
  then show ?case using answered_none [of p rest ws n] by (simp add: act_ret_def)
next
  case (Cons v vs)
  from send_pack_answers [OF Cons.prems(1), of "chunk_pack m p v"] obtain n1 where
    s: "send_pack (chunk_pack m p v) n = (Ret (), n1)" "answered p rest ws n [(STREAM_CHUNK, v, None)] n1"
      "way_back p rest ws n1"
    by (auto simp: chunk_pack_def new_pack_def)
  then have "n_id n1 = n_id n" by (auto simp: answered_def)
  with Cons.prems(2) Cons.IH [OF s(3)] obtain n2 where
    r: "act_mapM (\<lambda>v. send_pack (chunk_pack m p v)) vs n1 = (Ret (), n2)"
      "answered p rest ws n1 (map (\<lambda>v. (STREAM_CHUNK, v, None)) vs) n2" "way_back p rest ws n2"
    by auto
  from answered_trans [OF s(2) r(2)] s(1) r show ?case by (simp add: act_seq_def act_bind_def)
qed

text \<open>C13: A request with a live way back is answered along that way, to the neighbour it came from
  and under its label: with one response that carries the value of the method; with one chunk for each
  item of a generator and then the end of the stream or the error it raised; or with one error that
  names the missing method or carries the text of the exception. Only a cancelled call is left without
  its last packet, and only then does the handler raise. The way back is the path recorded in the
  request without this node, not empty, whose last name has a live socket.\<close>

theorem request_answered_once:
  assumes "pop_self n (path p) = xs @ [h]" "socket_of n (canon h) = Some ws" "ws \<notin> set (n_dead n)"
  shows "\<exists>n' qs. on_request env p n
        = (request_outcome (execute (e_invoke env) (e_fresh env) (n_services n) p), n')
    \<and> n_out n' = n_out n @ map (Pair ws) qs
    \<and> map (\<lambda>q. (ptype q, data q, error q)) qs
        = request_answers env (execute (e_invoke env) (e_fresh env) (n_services n) p)
    \<and> list_all (\<lambda>q. label q = label p \<and> dst q = Some (source p) \<and> path q = xs @ [h]) qs"
proof -
  let ?res = "execute (e_invoke env) (e_fresh env) (n_services n) p" and ?rest = "xs @ [h]"
  have w: "way_back p ?rest ws n" using assms by (simp add: way_back_def)
  have "\<exists>n'. on_request env p n = (request_outcome ?res, n') \<and> answered p ?rest ws n (request_answers env ?res) n'"
  proof (cases ?res)
    case (Inl e)
    then have "on_request env p n = request_failed env p e n"
      by (simp add: on_request_def request_body_def act_catch_def)
    with failure_answered [OF w, of env e] Inl show ?thesis
      by (cases "e = CancelledError") (auto simp: request_outcome_def request_answers_def split: exn.splits)
  next
    case (Inr x)
    show ?thesis
    proof (cases x)
      case (Response r)
      with Inr have e: "?res = Inr (Response r)" by simp
      from send_pack_answers [OF w, of "r\<lparr>path := path p\<rparr>"] execute_response [OF e] response_no_error [OF e]
      obtain n' where "send_pack (r\<lparr>path := path p\<rparr>) n = (Ret (), n')"
        "answered p ?rest ws n [(RESPONSE, data r, None)] n'" by auto
      with e show ?thesis
        by (simp add: on_request_def request_body_def act_catch_def request_outcome_def request_answers_def)
    next
      case (Async_gen vs e)
      with Inr have r: "?res = Inr (Async_gen vs e)" by simp
      from chunks_answered [OF w refl, of vs] obtain n1 where
        c: "act_mapM (\<lambda>v. send_pack (chunk_pack n p v)) vs n = (Ret (), n1)"
          "answered p ?rest ws n (map (\<lambda>v. (STREAM_CHUNK, v, None)) vs) n1" "way_back p ?rest ws n1" by blast
      show ?thesis
      proof (cases e)
        case None
        from send_pack_answers [OF c(3), of "eof_pack n p"] obtain n2 where
          "send_pack (eof_pack n p) n1 = (Ret (), n2)" "answered p ?rest ws n1 [(STREAM_EOF, PNone, None)] n2"
          by (auto simp: eof_pack_def new_pack_def)
        with r None c(1) answered_trans [OF c(2)] show ?thesis
          by (simp add: on_request_def request_body_def act_catch_def act_seq_def act_bind_def
              request_outcome_def request_answers_def)
      next
        case (Some y)
        then have "on_request env p n = request_failed env p y n1"
          using r c(1) by (simp add: on_request_def request_body_def act_catch_def act_seq_def act_bind_def act_raise_def)
        with failure_answered [OF c(3), of env y] answered_trans [OF c(2)] r Some show ?thesis
          by (cases "y = CancelledError") (auto simp: request_outcome_def request_answers_def split: exn.splits)
      qed
    qed
  qed
  then show ?thesis unfolding answered_def by fastforce
qed

definition ex_svc :: service_obj where
  "ex_svc = \<lparr>sv_name = ''util'', sv_attrs = []\<rparr>"

definition ex_server :: node where
  "ex_server = ex_relay\<lparr>n_services := register_method ex_svc ''echo'' (Bound ''util'' ''echo'' True) []\<rparr>"

definition ex_request :: MsgPack where
  "ex_request = (new_pack REQUEST ''a'' (Some ''b'') ''l'')
     \<lparr>service := Some ''util'', meth := Some ''echo'', data := PInt 7, path := [''a'', ''b'']\<rparr>"

theorem request_answered_once_witness:
  "\<exists>n' q. on_request ex_env ex_request ex_server = (Ret (), n') \<and> n_out n' = [(1, q)]
     \<and> ptype q = RESPONSE \<and> label q = ''l'' \<and> data q = PList [PInt 7] \<and> path q = [''a'']"
proof -
  have p: "pop_self ex_server (path ex_request) = [] @ [''a'']"
    by (simp add: pop_self_def ex_request_def ex_server_def ex_relay_def new_node_def is_local_name_def)
  have s: "socket_of ex_server (canon ''a'') = Some 1" "1 \<notin> set (n_dead ex_server)" "n_out ex_server = []"
    by (simp_all add: socket_of_def ex_server_def ex_relay_def new_node_def ex_canon)
  obtain r where r: "execute (e_invoke ex_env) (e_fresh ex_env) (n_services ex_server) ex_request = Inr (Response r)"
    and v: "data r = PList [PInt 7]"
    by (simp add: execute_def find_method_def get_method_def mgr_get_def ex_server_def register_method_def
        mgr_set_def ex_svc_def dict_set_simps get_default_def ex_request_def ex_env_def response_pack_def
        new_pack_def)
  from request_answered_once [OF p s(1,2), of ex_env, unfolded r] obtain n' qs where
    o: "on_request ex_env ex_request ex_server = (request_outcome (Inr (Response r)), n')"
      "n_out n' = n_out ex_server @ map (Pair 1) qs"
      "map (\<lambda>q. (ptype q, data q, error q)) qs = request_answers ex_env (Inr (Response r))"
      "list_all (\<lambda>q. label q = label ex_request \<and> dst q = Some (source ex_request) \<and> path q = [] @ [''a'']) qs"
    by blast
  from o(3) v obtain q where "qs = [q]" "ptype q = RESPONSE" "data q = PList [PInt 7]"
    by (auto simp: request_answers_def)
  with o s(3) show ?thesis by (auto simp: ex_request_def new_pack_def request_outcome_def)
qed

end
