(* ===== verification/Network.thy ===== *)
theory Network
  imports Router_Facts "HOL-Library.List_Lexorder"
begin

text \<open>
  The server side of the mesh: \<open>NodesManager\<close> and \<open>NetworkModule\<close> of
  \<open>networking/network.py\<close>. The websocket endpoint is split at its suspension points: the
  first frame (\<open>greet\<close>), one frame of the main loop (\<open>serve_frame\<close>) and the \<open>finally\<close> block
  (\<open>disconnect\<close>); the periodic loops are one round each. The tasks the endpoint starts are
  reported in the result of the handshake.
\<close>

section \<open>Environment\<close>

record net_env = env +
  e_unpackb :: "string \<Rightarrow> exn + pyval"
  e_mac :: "string \<Rightarrow> string \<Rightarrow> string"
  e_secret :: "string option"
  e_ip :: string
  e_port :: int
  e_repr :: "pyval \<Rightarrow> string"
  e_session :: string

definition base_env :: "net_env \<Rightarrow> env" where
  "base_env e = env.truncate e"

section \<open>Connected nodes\<close>

definition nodes_register :: "string \<Rightarrow> nat \<Rightarrow> node \<Rightarrow> node" where
  "nodes_register nid ws n = n\<lparr>n_nodes := dict_set (canon nid) ws (n_nodes n)\<rparr>"

definition nodes_remove :: "string \<Rightarrow> node \<Rightarrow> node" where
  "nodes_remove nid n = n\<lparr>n_nodes := dict_pop (canon nid) (n_nodes n)\<rparr>"

definition nodes_get :: "string \<Rightarrow> node \<Rightarrow> nat option" where
  "nodes_get nid n = dict_get (n_nodes n) (canon nid)"

definition close_ws :: "nat \<Rightarrow> node \<Rightarrow> node" where
  "close_ws ws n = n\<lparr>n_dead := ws # n_dead n\<rparr>"

section \<open>Handshake\<close>

datatype greeting = G_timeout | G_disconnect | G_text | G_bytes string

datatype handshake =
    Rejected
  | Malformed
  | Gone
  | Accepted bool bool  \<comment> \<open>dial the peer in reverse; ask it for its certificates\<close>

definition reject_pack :: "net_env \<Rightarrow> node \<Rightarrow> string \<Rightarrow> (string, pyval) dict \<Rightarrow> MsgPack" where
  "reject_pack e n nid d = (new_pack HELLO_REJECT (n_id n) (Some nid) (e_fresh e))\<lparr>data := PDict d\<rparr>"

definition reject :: "net_env \<Rightarrow> nat \<Rightarrow> string \<Rightarrow> (string, pyval) dict \<Rightarrow> (node, handshake) act" where
  "reject e ws nid d n =
     act_seq (ws_send ws (reject_pack e n nid d)) (act_seq (act_modify (close_ws ws)) (act_ret Rejected)) n"

definition py_str :: "net_env \<Rightarrow> pyval \<Rightarrow> string" where
  "py_str e v = (case v of PStr s \<Rightarrow> s | _ \<Rightarrow> e_repr e v)"

definition addressed_here :: "node \<Rightarrow> MsgPack \<Rightarrow> bool" where
  "addressed_here n p \<longleftrightarrow>
     (case dst p of None \<Rightarrow> False | Some d \<Rightarrow> canon d = canon (n_id n) \<or> canon d = canon (n_alias n))"

definition upgrade_text :: string where
  "upgrade_text = ''upgrade required: this node speaks msgpack binary frames (protocol '' @ protocol_version @ '')''"

definition address_text :: "net_env \<Rightarrow> node \<Rightarrow> MsgPack \<Rightarrow> string" where
  "address_text e n p =
     ''HELLO addressed to '' @ e_repr e (val_opt_str (dst p)) @ '', this node is '' @ e_repr e (PStr (n_id n))
       @ '' | '' @ e_repr e (PStr (n_alias n)) @ ''  '' @ [char_of (226 :: nat), char_of (128 :: nat), char_of (148 :: nat)]
       @ '' check peer URI/node_id''"

text \<open>The new socket replaces the old one before the old one is closed.\<close>

definition take_connection :: "string \<Rightarrow> nat \<Rightarrow> node \<Rightarrow> node" where
  "take_connection nid ws n =
     invalidate_transport nid
       (case nodes_get nid n of
          None \<Rightarrow> nodes_register nid ws n
        | Some old \<Rightarrow> close_ws old (nodes_register nid ws n))"

definition service_names :: "node \<Rightarrow> pyval" where
  "service_names n = PList (map PStr (dict_keys (n_services n)))"

definition ack_pack :: "net_env \<Rightarrow> node \<Rightarrow> string \<Rightarrow> (string, pyval) dict \<Rightarrow> MsgPack" where
  "ack_pack e n nid h =
     (new_pack HELLO_ACK (n_id n) (Some nid) (e_fresh e))\<lparr>data := PDict
       [(''host'', PStr (e_ip e)), (''port'', PInt (e_port e)), (''version'', PStr protocol_version),
        (''session_id'', PStr (e_session e)), (''services'', service_names n),
        (''role'', get_default h ''role'' (PStr role_node)), (''neighbors'', PList (to_gossip (n_table n)))]\<rparr>"

definition lex_reverse :: "node \<Rightarrow> string \<Rightarrow> bool" where
  "lex_reverse n nid \<longleftrightarrow> canon nid < canon (n_id n) \<and> \<not> has_client_ws nid n"

definition register_peer :: "net_env \<Rightarrow> string \<Rightarrow> (string, pyval) dict \<Rightarrow> (node, unit) act" where
  "register_peer e nid h =
     act_seq (on_table (register_connected (e_wall e) nid (get_default h ''host'' (PStr []))
                (get_default h ''port'' (PInt 9000)) (PStr (e_session e))
                (get_default h ''version'' (PStr protocol_version))
                (get_default h ''services'' (PList [])) (get_default h ''role'' (PStr role_node))))
       (act_ret ())"

text \<open>An authenticated HELLO: registration, the acknowledgement, and the tasks to start.\<close>

definition accept_hello :: "net_env \<Rightarrow> nat \<Rightarrow> string \<Rightarrow> (string, pyval) dict \<Rightarrow> (node, handshake) act" where
  "accept_hello e ws nid h =
     act_seq (act_modify (take_connection nid ws))
     (act_seq (register_peer e nid h)
     (act_seq (\<lambda>n. ws_send ws (ack_pack e n nid h) n)
     (\<lambda>n. case py_contains (get_default h ''services'' (PList [])) ''certstool'' of
            Inl x \<Rightarrow> (Raise x, n)
          | Inr c \<Rightarrow> (Ret (Accepted (lex_reverse n nid) c), n))))"

text \<open>The body of a HELLO; data that is not a dictionary has no \<open>get\<close>.\<close>

definition check_hello :: "net_env \<Rightarrow> nat \<Rightarrow> string \<Rightarrow> MsgPack \<Rightarrow> (node, handshake) act" where
  "check_hello e ws nid p =
     (case py_or (data p) (PDict []) of
        PDict h \<Rightarrow>
          (case verify_sig (e_mac e) nid (py_str e (get_default h ''session_id'' (PStr []))) (e_secret e)
                  (get_default h ''sig'' PNone) of
             Inl x \<Rightarrow> act_raise x
           | Inr ok \<Rightarrow>
               if ok then accept_hello e ws nid h
               else reject e ws nid [(''reason'', PStr ''invalid HELLO signature'')])
      | _ \<Rightarrow> act_raise AttributeError)"

definition greet :: "net_env \<Rightarrow> nat \<Rightarrow> string \<Rightarrow> greeting \<Rightarrow> (node, handshake) act" where
  "greet e ws nid g n =
     (case g of
        G_timeout \<Rightarrow> (Ret Gone, n)
      | G_disconnect \<Rightarrow> (Ret Gone, n)
      | G_text \<Rightarrow> reject e ws nid [(''reason'', PStr upgrade_text)] n
      | G_bytes raw \<Rightarrow>
          (case decode_pack (e_unpackb e) (e_fresh e) raw of
             Inl x \<Rightarrow> (Ret Malformed, close_ws ws n)
           | Inr p \<Rightarrow>
               if ptype p \<noteq> HELLO
               then reject e ws nid [(''reason'', PStr (''expected HELLO, got '' @ pack_value (ptype p)))] n
               else if \<not> addressed_here n p
               then reject e ws nid
                 [(''reason'', PStr (address_text e n p)), (''expected'', PStr (n_id n)), (''got'', val_opt_str (dst p))] n
               else check_hello e ws nid p n))"

section \<open>The main loop and the end of a connection\<close>

datatype loop = Continue | Stop

text \<open>
  One frame: an unknown kind is dropped, a broken frame closes the connection, an exception of
  the handler is logged. Requests and stream openings run in a task of their own; any other
  handler that waits keeps the loop waiting.
\<close>

definition in_background :: "MsgPack \<Rightarrow> bool" where
  "in_background p \<longleftrightarrow> ptype p \<in> {REQUEST, FORWARDED, STREAM_OPEN}"

definition serve_frame :: "net_env \<Rightarrow> nat \<Rightarrow> greeting \<Rightarrow> (node, loop) act" where
  "serve_frame e ws g n =
     (case g of
        G_bytes raw \<Rightarrow>
          (case decode_pack (e_unpackb e) (e_fresh e) raw of
             Inl (UnknownPackTypeError v) \<Rightarrow> (Ret Continue, n)
           | Inl x \<Rightarrow> (Ret Stop, close_ws ws n)
           | Inr p \<Rightarrow>
               (case handle (base_env e) ws p n of
                  (Ret _, n') \<Rightarrow> (Ret Continue, n')
                | (Raise x, n') \<Rightarrow> (Ret Continue, n')
                | (Suspended, n') \<Rightarrow> (if in_background p then Ret Continue else Suspended, n')))
      | G_text \<Rightarrow> (Ret Stop, close_ws ws n)
      | _ \<Rightarrow> (Ret Stop, n))"

text \<open>Only the current socket of a node takes the node off; a replaced one only drops its answers.\<close>

definition disconnect :: "nat \<Rightarrow> string \<Rightarrow> node \<Rightarrow> node" where
  "disconnect ws nid n =
     cleanup_ws_pending ws
       (if nodes_get nid n = Some ws
        then invalidate_transport nid
               ((nodes_remove nid n)\<lparr>n_table := mark_unreachable nid (n_table n)\<rparr>)
        else n)"

section \<open>Periodic rounds\<close>

text \<open>Writes to all targets; a failing one does not keep the others from being written.\<close>

fun send_all :: "MsgPack \<Rightarrow> string list \<Rightarrow> node \<Rightarrow> node" where
  "send_all p [] n = n"
| "send_all p (k # ks) n =
     send_all p ks (snd (act_bind (get_transport_to (Some k)) (\<lambda>t.
       case t of None \<Rightarrow> act_ret () | Some ws \<Rightarrow> ws_send ws p) n))"

definition gossip_pack :: "net_env \<Rightarrow> node \<Rightarrow> MsgPack" where
  "gossip_pack e n =
     (new_pack GOSSIP (n_id n) None (e_fresh e))
       \<lparr>data := PDict [(''neighbors'', PList (to_gossip (n_table n))), (''from'', PStr (n_id n))]\<rparr>"

definition announce_pack :: "net_env \<Rightarrow> node \<Rightarrow> MsgPack" where
  "announce_pack e n =
     (new_pack ANNOUNCE (n_id n) None (e_fresh e))
       \<lparr>data := PDict [(''services'', service_names n), (''from'', PStr (n_id n))]\<rparr>"

definition connected_ids :: "node \<Rightarrow> string list" where
  "connected_ids n = map nb_id (nt_connected (n_table n))"

definition gossip_round :: "net_env \<Rightarrow> node \<Rightarrow> node" where
  "gossip_round e n =
     (let n1 = sweep_ws_pending (e_mono e) 180 n;
          n2 = n1\<lparr>n_table := sweep (e_wall e) 90 300 (n_table n1)\<rparr>
      in if to_gossip (n_table n2) = [] then n2 else send_all (gossip_pack e n2) (connected_ids n2) n2)"

definition announce_round :: "net_env \<Rightarrow> node \<Rightarrow> node" where
  "announce_round e n = send_all (announce_pack e n) (connected_ids n) n"

section \<open>Certificates on connect\<close>

text \<open>The answer of the peer to \<open>get_cert_sync_digest\<close>; what is not a dictionary is ignored.\<close>

definition take_digest :: "net_env \<Rightarrow> string \<Rightarrow> pyval \<Rightarrow> (node, unit) act" where
  "take_digest e nid v =
     (case v of
        PDict d \<Rightarrow>
          if d = [] then act_ret ()
          else on_certs (merge_cert_sync (e_mono e) nid (get_default d ''certs'' (PList []))
                 (get_default d ''sync_version'' (PInt 0)))
      | _ \<Rightarrow> act_ret ())"

definition cert_pack :: "net_env \<Rightarrow> node \<Rightarrow> MsgPack" where
  "cert_pack e n =
     (new_pack CERT_SYNC (n_id n) None (e_fresh e))
       \<lparr>data := PDict [(''certs'', PList (digest_for_sync (n_certs n))), (''sync_version'', ci_version (n_certs n))]\<rparr>"

text \<open>Both halves swallow their exceptions; a failed request does not keep the own digest back.\<close>

definition exchange_certs :: "net_env \<Rightarrow> string \<Rightarrow> exn + pyval \<Rightarrow> node \<Rightarrow> node" where
  "exchange_certs e nid answer n =
     (let n1 = (case answer of Inl x \<Rightarrow> n | Inr v \<Rightarrow> snd (take_digest e nid v n))
      in send_all (cert_pack e n1) [nid] n1)"

section \<open>The session snapshot\<close>

definition direction :: "node \<Rightarrow> string \<Rightarrow> string" where
  "direction n nid =
     (if has_client_ws nid n \<and> nodes_get nid n \<noteq> None then ''inbound+outbound''
      else if has_client_ws nid n then ''outbound''
      else if nodes_get nid n \<noteq> None then ''inbound''
      else [])"

definition session_row :: "real \<Rightarrow> node \<Rightarrow> neighbor \<Rightarrow> (string, pyval) dict" where
  "session_row now n i =
     neighbor_dump i
       @ [(''direction'', PStr (direction n (nb_id i))),
          (''age_sec'', if nb_last_ts i = 0 then PNone else PInt (py_round (now - nb_last_ts i)))]"

definition local_sessions :: "real \<Rightarrow> node \<Rightarrow> (string, pyval) dict list" where
  "local_sessions now n = map (session_row now n) (nt_all (n_table n))"

end
