(* ===== verification/Network_Facts.thy ===== *)
theory Network_Facts
  imports Network
begin

text \<open>
  What the server side guarantees: who gets connected, what a rejected or lost connection leaves
  behind, that periodic packets reach every live neighbour, and the invariant of a node over every
  history of connections, frames, losses and periodic rounds.
\<close>

section \<open>Sockets and sending\<close>

lemma socket_of_upd [simp]:
  "socket_of (n\<lparr>n_out := a\<rparr>) = socket_of n" "socket_of (n\<lparr>n_pending := b\<rparr>) = socket_of n"
  "socket_of (n\<lparr>n_table := c\<rparr>) = socket_of n" "socket_of (n\<lparr>n_dead := d\<rparr>) = socket_of n"
  by (simp_all add: fun_eq_iff socket_of_def split: option.split)

lemma socket_of_cached:
  assumes "dict_get (n_cache n) k = None" "socket_of n k = Some ws"
  shows "socket_of (n\<lparr>n_cache := dict_set k ws (n_cache n)\<rparr>) = socket_of n"
proof
  fix j
  show "socket_of (n\<lparr>n_cache := dict_set k ws (n_cache n)\<rparr>) j = socket_of n j"
    using assms by (cases "j = k") (simp_all add: socket_of_def split: option.split)
qed

lemma socket_of_transport:
  assumes "get_transport_to (Some k) n = (Ret t, n')"
  shows "socket_of n' = socket_of n"
proof (cases "dict_get (n_cache n) (canon k)")
  case cached: (Some ws)
  with assms show ?thesis by (simp add: get_transport_to_def)
next
  case new: None
  show ?thesis
  proof (cases "socket_of n (canon k)")
    case None
    with assms show ?thesis by (cases rule: get_transport_cases [of n k]) simp_all
  next
    case (Some ws)
    have "n' = n\<lparr>n_cache := dict_set (canon k) ws (n_cache n)\<rparr>"
      using assms new Some by (simp add: get_transport_to_def socket_of_def split: option.splits)
    with socket_of_cached [OF new Some] show ?thesis by simp
  qed
qed

lemma socket_of_cache:
  assumes "get_transport_to (Some k) n = (Ret t, n')"
  shows "t = socket_of n (canon k)" "n_out n' = n_out n" "n_dead n' = n_dead n"
proof -
  have "t = socket_of n (canon k) \<and> n_out n' = n_out n \<and> n_dead n' = n_dead n"
    using assms by (cases rule: get_transport_cases [of n k]) auto
  then show "t = socket_of n (canon k)" "n_out n' = n_out n" "n_dead n' = n_dead n" by blast+
qed

definition live_sockets :: "string list \<Rightarrow> node \<Rightarrow> nat list" where
  "live_sockets ks n =
     concat (map (\<lambda>k. case socket_of n (canon k) of
                        None \<Rightarrow> [] | Some ws \<Rightarrow> if ws \<in> set (n_dead n) then [] else [ws]) ks)"

lemma live_sockets_cong:
  "socket_of n' = socket_of n \<Longrightarrow> n_dead n' = n_dead n \<Longrightarrow> live_sockets ks n' = live_sockets ks n"
  by (simp add: live_sockets_def cong: option.case_cong)

lemma live_sockets_Cons: "live_sockets (k # ks) n = live_sockets [k] n @ live_sockets ks n"
  by (simp add: live_sockets_def)

definition send_one :: "MsgPack \<Rightarrow> string \<Rightarrow> node \<Rightarrow> node" where
  "send_one p k n = snd (act_bind (get_transport_to (Some k)) (\<lambda>t. case t of None \<Rightarrow> act_ret () | Some ws \<Rightarrow> ws_send ws p) n)"

lemma send_one_effect:
  "n_out (send_one p k n) = n_out n @ map (\<lambda>ws. (ws, p)) (live_sockets [k] n)"
  "socket_of (send_one p k n) = socket_of n" "n_dead (send_one p k n) = n_dead n"
proof -
  obtain t n1 where g: "get_transport_to (Some k) n = (Ret t, n1)"
    by (cases rule: get_transport_cases [of n k]) blast+
  note s = socket_of_cache [OF g] socket_of_transport [OF g]
  have e: "send_one p k n = (case t of None \<Rightarrow> n1 | Some ws \<Rightarrow> if ws \<in> set (n_dead n) then n1 else n1\<lparr>n_out := n_out n1 @ [(ws, p)]\<rparr>)"
    using s(3) by (simp add: send_one_def act_bind_def g act_ret_def ws_send_def split: option.split)
  show "n_out (send_one p k n) = n_out n @ map (\<lambda>ws. (ws, p)) (live_sockets [k] n)"
    using s by (simp add: e live_sockets_def split: option.split)
  show "socket_of (send_one p k n) = socket_of n" "n_dead (send_one p k n) = n_dead n"
    using s by (simp_all add: e split: option.split)
qed

lemma send_all_out: "n_out (send_all p ks n) = n_out n @ map (\<lambda>ws. (ws, p)) (live_sockets ks n)"
proof (induction ks arbitrary: n)
  case (Cons k ks)
  have "live_sockets ks (send_one p k n) = live_sockets ks n"
    by (rule live_sockets_cong) (simp_all add: send_one_effect)
  then show ?case
    using Cons.IH [of "send_one p k n"] live_sockets_Cons [of k ks n]
    by (simp add: send_one_effect(1) flip: send_one_def)
qed (simp add: live_sockets_def)

lemma send_all_keeps: "node_ok n \<Longrightarrow> node_ok (send_all p ks n)"
proof (induction ks arbitrary: n)
  case (Cons k ks)
  have "keeps node_ok (act_bind (get_transport_to (Some k)) (\<lambda>t. case t of None \<Rightarrow> act_ret () | Some ws \<Rightarrow> ws_send ws p))"
    by (rule keeps_send_on)
  from Cons.IH [OF keepsD [OF this Cons.prems]] show ?case by simp
qed simp

text \<open>The periodic advertisement reaches every live neighbour once: after ageing its table, a node
  that has something to tell writes the same packet, its table without unreachable rows, to the socket
  of each connected neighbour that has a live one, in table order, and nothing else.\<close>

theorem gossip_reaches_neighbours:
  "(let aged = (sweep_ws_pending (e_mono e) 180 n)\<lparr>n_table := sweep (e_wall e) 90 300 (n_table n)\<rparr>
    in n_out (gossip_round e n) = n_out n @
         (if to_gossip (n_table aged) = [] then []
          else map (\<lambda>ws. (ws, gossip_pack e aged)) (live_sockets (connected_ids aged) n)))"
proof -
  let ?aged = "(sweep_ws_pending (e_mono e) 180 n)\<lparr>n_table := sweep (e_wall e) 90 300 (n_table n)\<rparr>"
  have same: "n_table (sweep_ws_pending (e_mono e) 180 n) = n_table n" "n_out (sweep_ws_pending (e_mono e) 180 n) = n_out n"
    by (simp_all add: sweep_ws_pending_def)
  have "live_sockets ks ?aged = live_sockets ks n" for ks
    by (rule live_sockets_cong) (simp_all add: sweep_ws_pending_def)
  then show ?thesis
    by (simp add: gossip_round_def Let_def same send_all_out)
qed

section \<open>Handshake\<close>

lemma reject_result:
  "reject e ws nid d n = (r, n') \<Longrightarrow>
     r = Raise ConnectionClosed \<and> n' = n
     \<or> r = Ret Rejected \<and> n' = n\<lparr>n_out := n_out n @ [(ws, reject_pack e n nid d)], n_dead := ws # n_dead n\<rparr>"
  by (auto simp: reject_def act_defs ws_send_def close_ws_def split: if_splits)

lemma greet_accepted:
  assumes "greet e ws nid g n = (Ret (Accepted rv c), n')"
  obtains raw p h where "g = G_bytes raw" "decode_pack (e_unpackb e) (e_fresh e) raw = Inr p" "ptype p = HELLO"
    "addressed_here n p" "py_or (data p) (PDict []) = PDict h"
    "verify_sig (e_mac e) nid (py_str e (get_default h ''session_id'' (PStr []))) (e_secret e) (get_default h ''sig'' PNone) = Inr True"
    "accept_hello e ws nid h n = (Ret (Accepted rv c), n')"
proof -
  have rj: "reject e ws nid d n \<noteq> (Ret (Accepted rv c), n')" for d
    using reject_result [of e ws nid d n "Ret (Accepted rv c)" n'] by auto
  from assms rj obtain raw p where g: "g = G_bytes raw" "decode_pack (e_unpackb e) (e_fresh e) raw = Inr p"
    "ptype p = HELLO" "addressed_here n p" "check_hello e ws nid p n = (Ret (Accepted rv c), n')"
    by (auto simp: greet_def split: greeting.splits sum.splits if_splits)
  from g(5) obtain h where h: "py_or (data p) (PDict []) = PDict h"
    by (auto simp: check_hello_def act_raise_def split: pyval.splits)
  with g(5) rj have "verify_sig (e_mac e) nid (py_str e (get_default h ''session_id'' (PStr []))) (e_secret e)
      (get_default h ''sig'' PNone) = Inr True" "accept_hello e ws nid h n = (Ret (Accepted rv c), n')"
    by (auto simp: check_hello_def act_raise_def split: sum.splits if_splits)
  with g h that show ?thesis by blast
qed

definition ex_net :: net_env where
  "ex_net = \<lparr>e_wall = 100, e_mono = 50, e_fresh = ''u1'',
     e_invoke = (\<lambda>svc m args. Failure ValueError), e_text = (\<lambda>_. ''boom''),
     e_unpackb = (\<lambda>raw. if raw = ''hello'' then Inr (PDict [(''type'', PStr ''hello''), (''source'', PStr ''z''), (''dst'', PStr ''b''),
          (''data'', PDict [(''sig'', PStr ''k-z:s''), (''session_id'', PStr ''s'')])]) else Inl ValueError),
     e_mac = (\<lambda>k m. k @ ''-'' @ map (\<lambda>c. if c = char_of (10 :: nat) then CHR '':'' else c) m), e_secret = Some ''k'',
     e_ip = ''10.0.0.1'', e_port = 9000, e_repr = (\<lambda>_. ''?''), e_session = ''s2''\<rparr>"

lemma ex_canon_z: "canon ''z'' = ''z''"
  by code_simp

definition ex_b :: node where
  "ex_b = (new_node ''b'' ''bee'' 4)\<lparr>n_nodes := [(''z'', 3)]\<rparr>"

lemma ex_greet: "\<exists>n'. greet ex_net 7 ''z'' (G_bytes ''hello'') ex_b = (Ret (Accepted False False), n')"
proof -
  have "fst (greet ex_net 7 ''z'' (G_bytes ''hello'') ex_b) = Ret (Accepted False False)" by code_simp
  then show ?thesis by (cases "greet ex_net 7 ''z'' (G_bytes ''hello'') ex_b") auto
qed

text \<open>C15: In a mesh with a shared secret nobody is connected without it: a connection is accepted only
  when its first frame is a HELLO for this node that carries the code of the announced node name and
  session under the secret.\<close>

theorem accepted_peer_knows_secret:
  assumes "greet e ws nid g n = (Ret (Accepted rv c), n')" "e_secret e = Some k" "k \<noteq> []"
  shows "\<exists>raw p h. g = G_bytes raw \<and> decode_pack (e_unpackb e) (e_fresh e) raw = Inr p \<and> ptype p = HELLO
    \<and> addressed_here n p \<and> data p = PDict h
    \<and> dict_get h ''sig'' = Some (PStr (e_mac e k (nid @ newline @ py_str e (get_default h ''session_id'' (PStr [])))))"
proof -
  from assms(1) obtain raw p h where g: "g = G_bytes raw" "decode_pack (e_unpackb e) (e_fresh e) raw = Inr p"
    "ptype p = HELLO" "addressed_here n p" "py_or (data p) (PDict []) = PDict h"
    and v: "verify_sig (e_mac e) nid (py_str e (get_default h ''session_id'' (PStr []))) (e_secret e) (get_default h ''sig'' PNone) = Inr True"
    by (rule greet_accepted)
  from verify_accepts_only_mac [OF v [unfolded assms(2)] assms(3)]
  have "get_default h ''sig'' PNone = PStr (e_mac e k (nid @ newline @ py_str e (get_default h ''session_id'' (PStr []))))" .
  then have s: "dict_get h ''sig'' = Some (PStr (e_mac e k (nid @ newline @ py_str e (get_default h ''session_id'' (PStr [])))))"
    by (simp add: get_default_def split: option.splits)
  then have "h \<noteq> []" by auto
  then have "data p = PDict h" using g(5) by (simp add: py_or_def split: if_splits)
  with g s show ?thesis by blast
qed

theorem accepted_peer_knows_secret_witness:
  "\<exists>p h. decode_pack (e_unpackb ex_net) (e_fresh ex_net) ''hello'' = Inr p \<and> data p = PDict h
     \<and> dict_get h ''sig'' = Some (PStr (e_mac ex_net ''k'' (''z'' @ newline @ py_str ex_net (get_default h ''session_id'' (PStr [])))))"
proof -
  obtain n' where g: "greet ex_net 7 ''z'' (G_bytes ''hello'') ex_b = (Ret (Accepted False False), n')"
    using ex_greet by blast
  have "e_secret ex_net = Some ''k''" "''k'' \<noteq> []" by (simp_all add: ex_net_def)
  from accepted_peer_knows_secret [OF g this] show ?thesis by blast
qed

text \<open>A connection that is not accepted changes nothing but its own socket: the tables, the
  registered sockets, the sessions and the streams stay as they were, and at most one packet is
  written, a rejection to the peer.\<close>

theorem rejected_peer_leaves_no_trace:
  assumes "greet e ws nid g n = (Ret r, n')" "r \<in> {Rejected, Malformed, Gone}"
  shows "n' = n\<lparr>n_out := n_out n', n_dead := n_dead n'\<rparr> \<and> (n_dead n' = n_dead n \<or> n_dead n' = ws # n_dead n)
    \<and> (n_out n' = n_out n \<or> (\<exists>q. n_out n' = n_out n @ [(ws, q)] \<and> ptype q = HELLO_REJECT \<and> dst q = Some nid))"
proof -
  have quiet: "accept_hello e ws nid h n \<noteq> (Ret r, n')" for h
    using assms(2) by (auto simp: accept_hello_def act_defs split: prod.splits outcome.splits sum.splits)
  have rj: "?thesis" if "reject e ws nid d n = (Ret r, n')" for d
    using reject_result [OF that] by (auto simp: reject_pack_def)
  from assms(1) consider "n' = n" | "n' = close_ws ws n" | d where "reject e ws nid d n = (Ret r, n')"
    using quiet unfolding greet_def check_hello_def
    by (auto simp: act_raise_def split: greeting.splits sum.splits if_splits pyval.splits)
  then show ?thesis
    by cases (use rj in \<open>auto simp: close_ws_def\<close>)
qed

theorem rejected_peer_leaves_no_trace_witness:
  "\<exists>n'. greet ex_net 7 ''z'' G_text ex_b = (Ret Rejected, n') \<and> n_nodes n' = [(''z'', 3)] \<and> n_dead n' \<noteq> []"
proof -
  have "fst (greet ex_net 7 ''z'' G_text ex_b) = Ret Rejected" "n_dead (snd (greet ex_net 7 ''z'' G_text ex_b)) = [7]"
    by code_simp+
  then obtain n' where g: "greet ex_net 7 ''z'' G_text ex_b = (Ret Rejected, n')" and d: "n_dead n' = [7]"
    by (cases "greet ex_net 7 ''z'' G_text ex_b") auto
  from rejected_peer_leaves_no_trace [OF g] have "n' = ex_b\<lparr>n_out := n_out n', n_dead := n_dead n'\<rparr>" by simp
  then have "n_nodes n' = n_nodes (ex_b\<lparr>n_out := n_out n', n_dead := n_dead n'\<rparr>)" by (rule arg_cong)
  with g d show ?thesis by (simp add: ex_b_def)
qed

end
