(* ===== verification/Node_Connector.thy ===== *)
theory Node_Connector
  imports Network_Facts
begin

text \<open>
  The client side of the mesh: \<open>NodeConnector\<close> of \<open>networking/node_connector.py\<close> and the dynamic
  connections of \<open>network.py\<close>. The connect loop is split at its waits: one attempt (\<open>dial\<close>), one
  frame of an open connection (\<open>client_frame\<close>) and the \<open>finally\<close> block (\<open>hang_up\<close>); one round of
  the keepalive loop is \<open>keepalive\<close>. A step of the loop reports how long the loop sleeps next.
\<close>

section \<open>State\<close>

definition keepalive_timeout :: real where "keepalive_timeout = 60"
definition dead_timeout :: real where "dead_timeout = 90"

record connector =
  c_peer :: string
  c_ws :: "nat option"
  c_dialing :: bool       \<comment> \<open>the connect loop was started\<close>
  c_backoff :: int

definition new_connector :: "string \<Rightarrow> connector" where
  "new_connector peer = \<lparr>c_peer = peer, c_ws = None, c_dialing = False, c_backoff = 5\<rparr>"

definition already_connected :: "string \<Rightarrow> (node, bool) act" where
  "already_connected peer n =
     (case nt_get (n_table n) (Some peer) of
        Some i \<Rightarrow> if nb_status i = CONNECTED then (Ret True, n)
                  else act_bind (get_transport_to (Some peer)) (\<lambda>t. act_ret (t \<noteq> None)) n
      | None \<Rightarrow> act_bind (get_transport_to (Some peer)) (\<lambda>t. act_ret (t \<noteq> None)) n)"

text \<open>The loop is only started when there is no connection yet.\<close>

definition connector_start :: "connector \<Rightarrow> (node, connector) act" where
  "connector_start c = act_bind (already_connected (c_peer c)) (\<lambda>b. act_ret (c\<lparr>c_dialing := \<not> b\<rparr>))"

definition connect_to :: "string \<Rightarrow> (node, connector) act" where
  "connect_to nid n =
     (case nt_get (n_table n) (Some nid) of
        Some i \<Rightarrow> if nb_status i = CONNECTED then (Raise ValueError, n) else connector_start (new_connector nid) n
      | None \<Rightarrow> connector_start (new_connector nid) n)"

section \<open>Handshake\<close>

definition hello_pack :: "net_env \<Rightarrow> string \<Rightarrow> node \<Rightarrow> MsgPack" where
  "hello_pack e peer n =
     (new_pack HELLO (n_id n) (Some peer) (e_fresh e))\<lparr>data := PDict
       [(''node_id'', PStr (n_id n)), (''host'', PStr (e_ip e)), (''port'', PInt (e_port e)),
        (''version'', PStr protocol_version), (''session_id'', PStr (e_session e)),
        (''services'', service_names n), (''enc'', PStr ''msgpack''),
        (''sig'', PStr (opt_text (sign_hello (e_mac e) (n_id n) (e_session e) (e_secret e))))]\<rparr>"

definition on_hello_ack :: "net_env \<Rightarrow> string \<Rightarrow> MsgPack \<Rightarrow> (node, unit) act" where
  "on_hello_ack e peer p =
     (case py_or (data p) (PDict []) of
        PDict d \<Rightarrow>
          act_seq (on_table (register_connected (e_wall e) peer (get_default d ''host'' (PStr []))
                     (get_default d ''port'' (PInt 9000)) (get_default d ''session_id'' (PStr []))
                     (get_default d ''version'' (PStr protocol_version))
                     (get_default d ''services'' (PList [])) (get_default d ''role'' (PStr role_node))))
            (on_table (merge_gossip (e_wall e) (get_default d ''neighbors'' (PList [])) (Some peer)))
      | _ \<Rightarrow> act_raise AttributeError)"

text \<open>What the peer answers within ten seconds; a text frame is no bytes for msgpack.\<close>

definition await_ack :: "net_env \<Rightarrow> string \<Rightarrow> greeting \<Rightarrow> (node, bool \<times> bool) act" where
  "await_ack e peer reply =
     (case reply of
        G_timeout \<Rightarrow> act_ret (False, False)
      | G_disconnect \<Rightarrow> act_raise ConnectionClosed
      | G_text \<Rightarrow> act_raise TypeError
      | G_bytes raw \<Rightarrow>
          (case decode_pack (e_unpackb e) (e_fresh e) raw of
             Inl x \<Rightarrow> act_raise x
           | Inr p \<Rightarrow>
               if ptype p = HELLO_ACK then act_seq (on_hello_ack e peer p) (act_ret (True, False))
               else if ptype p = HELLO_REJECT then
                 (case py_or (data p) (PDict []) of
                    PDict d \<Rightarrow> act_ret (False, truthy (get_default d ''lex_rule'' PNone))
                  | _ \<Rightarrow> act_raise AttributeError)
               else act_ret (False, False)))"

definition hs_client :: "net_env \<Rightarrow> string \<Rightarrow> nat \<Rightarrow> greeting \<Rightarrow> (node, bool \<times> bool) act" where
  "hs_client e peer ws reply n =
     act_seq (ws_send ws (hello_pack e peer n)) (await_ack e peer reply) n"

section \<open>The connect loop\<close>

datatype dial_result =
    Waits          \<comment> \<open>already connected\<close>
  | Open           \<comment> \<open>frames follow\<close>
  | Refused        \<comment> \<open>sleeps inside the attempt, then hangs up\<close>
  | Broken         \<comment> \<open>an exception was logged, then hangs up\<close>

definition hang_up :: "connector \<Rightarrow> node \<Rightarrow> connector \<times> node" where
  "hang_up c n =
     (let (t, n1) = get_transport_to (Some (c_peer c)) (unregister_client_ws (c_peer c) n)
      in (c\<lparr>c_ws := None\<rparr>,
          if t = Ret None then n1\<lparr>n_table := mark_unreachable (c_peer c) (n_table n1)\<rparr> else n1))"

text \<open>
  One attempt on a socket that could be opened: the result, the seconds the loop sleeps before
  its next action, and the new state. A lex rejection is no failure of the peer; the flag for it is
  set by the handshake and cleared right after, so it is passed on as a result.
\<close>

definition attempt :: "net_env \<Rightarrow> nat \<Rightarrow> greeting \<Rightarrow> connector \<Rightarrow> node \<Rightarrow> dial_result \<times> int \<times> connector \<times> node" where
  "attempt e ws reply c n =
     (let c1 = c\<lparr>c_ws := Some ws\<rparr>;
          n1 = register_client_ws (c_peer c) ws n
      in case hs_client e (c_peer c) ws reply n1 of
           (Ret (True, _), n2) \<Rightarrow> (Open, 0, c1\<lparr>c_backoff := 5\<rparr>, n2)
         | (Ret (False, lx), n2) \<Rightarrow>
             if lx then (Refused, 5, c1\<lparr>c_backoff := 5\<rparr>, n2)
             else (let b = min (c_backoff c * 2) 300 in (Refused, b, c1\<lparr>c_backoff := b\<rparr>, n2))
         | (_, n2) \<Rightarrow> (Broken, 0, c1, n2))"

text \<open>A socket that cannot be opened is an attempt that breaks at once.\<close>

definition dial :: "net_env \<Rightarrow> (nat \<times> greeting) option \<Rightarrow> connector \<Rightarrow> node \<Rightarrow> dial_result \<times> int \<times> connector \<times> node" where
  "dial e link c n =
     (case already_connected (c_peer c) n of
        (Ret True, n1) \<Rightarrow> (Waits, 5, c, n1)
      | (_, n1) \<Rightarrow> (case link of None \<Rightarrow> (Broken, 0, c, n1) | Some (ws, reply) \<Rightarrow> attempt e ws reply c n1))"

text \<open>One frame of an open connection: only an unknown kind is skipped, other broken frames end it.\<close>

definition client_frame :: "net_env \<Rightarrow> nat \<Rightarrow> greeting \<Rightarrow> (node, loop) act" where
  "client_frame e ws g n =
     (case g of
        G_bytes raw \<Rightarrow>
          (case decode_pack (e_unpackb e) (e_fresh e) raw of
             Inl (UnknownPackTypeError v) \<Rightarrow> (Ret Continue, n)
           | Inl x \<Rightarrow> (Ret Stop, n)
           | Inr p \<Rightarrow>
               (case handle (base_env e) ws p n of
                  (Ret _, n') \<Rightarrow> (Ret Continue, n')
                | (Raise x, n') \<Rightarrow> (Ret Continue, n')
                | (Suspended, n') \<Rightarrow> (Suspended, n')))
      | _ \<Rightarrow> (Ret Stop, n))"

section \<open>Keepalive\<close>

definition close_local_ws :: "connector \<Rightarrow> node \<Rightarrow> node" where
  "close_local_ws c n = (case c_ws c of None \<Rightarrow> n | Some ws \<Rightarrow> close_ws ws n)"

definition bury :: "connector \<Rightarrow> real \<Rightarrow> node \<Rightarrow> node" where
  "bury c elapsed n =
     (if elapsed > dead_timeout
      then close_local_ws c (n\<lparr>n_table := mark_unreachable (c_peer c) (n_table n)\<rparr>) else n)"

definition ping_pack :: "net_env \<Rightarrow> string \<Rightarrow> node \<Rightarrow> MsgPack" where
  "ping_pack e peer n = new_pack PING (n_id n) (Some peer) (e_fresh e)"

definition keepalive :: "net_env \<Rightarrow> connector \<Rightarrow> node \<Rightarrow> node" where
  "keepalive e c n =
     (case nt_get (n_table n) (Some (c_peer c)) of
        None \<Rightarrow> n
      | Some i \<Rightarrow>
          let elapsed = e_wall e - nb_last_ts i
          in if elapsed \<le> keepalive_timeout then n
             else (case get_transport_to (Some (c_peer c)) n of
                     (Ret (Some ws), n1) \<Rightarrow>
                       (case ws_send ws (ping_pack e (c_peer c) n1) n1 of
                          (Ret _, n2) \<Rightarrow> n2
                        | (_, n2) \<Rightarrow> bury c elapsed n2)
                   | (_, n1) \<Rightarrow> bury c elapsed n1))"

text \<open>Stopping cancels the loop, whose \<open>finally\<close> block still runs, and closes the socket.\<close>

definition connector_stop :: "connector \<Rightarrow> node \<Rightarrow> connector \<times> node" where
  "connector_stop c n =
     (if c_ws c = None then (c\<lparr>c_dialing := False\<rparr>, n)
      else hang_up (c\<lparr>c_dialing := False\<rparr>) (close_local_ws c n))"

end
