(* ===== verification/Connections.thy ===== *)
theory Connections
  imports Node_Connector
begin

text \<open>
  What the two sides of a connection guarantee together: an accepted peer is reachable, a replaced
  socket cannot take its successor down, the retry delay is bounded, a silent peer is pinged before
  it is given up, and the invariant of a node over every history of connections, frames, losses,
  attempts, timers and calls.
\<close>

section \<open>Being accepted\<close>

lemma take_connection_fields [simp]:
  "n_table (take_connection nid ws n) = n_table n" "n_out (take_connection nid ws n) = n_out n"
  "n_client (take_connection nid ws n) = n_client n"
  "n_nodes (take_connection nid ws n) = dict_set (canon nid) ws (n_nodes n)"
  "n_cache (take_connection nid ws n) = dict_pop (canon nid) (n_cache n)"
  "n_dead (take_connection nid ws n) = (case nodes_get nid n of None \<Rightarrow> n_dead n | Some old \<Rightarrow> old # n_dead n)"
  by (simp_all add: take_connection_def invalidate_transport_def nodes_register_def close_ws_def split: option.split)

lemma register_connected_row:
  assumes "register_connected now nid host port sid ver svcs role t = (Ret i, t')"
  shows "dict_get (rows t') k = (if k = canon nid then Some i else dict_get (rows t) k)"
    "nb_status i = CONNECTED" "nb_via i = None" "nb_hops i = 1" "nb_last_ts i = now"
  using assms by (auto simp: register_connected_def split: sum.splits dest!: make_neighbor_Inr)

lemma accept_hello_cases:
  assumes "accept_hello e ws nid h n = (Ret hs, n')"
  obtains i t q rv c where "hs = Accepted rv c" "nb_status i = CONNECTED" "nb_via i = None" "nb_hops i = 1"
    "nb_last_ts i = e_wall e"
    "\<And>k. dict_get (rows t) k = (if k = canon nid then Some i else dict_get (rows (n_table n)) k)"
    "ptype q = HELLO_ACK" "dst q = Some nid" "ws \<notin> set (n_dead (take_connection nid ws n))"
    "n' = (take_connection nid ws n)\<lparr>n_table := t, n_out := n_out n @ [(ws, q)]\<rparr>"
proof -
  let ?m = "take_connection nid ws n"
  let ?reg = "register_connected (e_wall e) nid (get_default h ''host'' (PStr []))
                (get_default h ''port'' (PInt 9000)) (PStr (e_session e))
                (get_default h ''version'' (PStr protocol_version))
                (get_default h ''services'' (PList [])) (get_default h ''role'' (PStr role_node))"
  obtain r t where r: "?reg (n_table n) = (r, t)" by (cases "?reg (n_table n)")
  show ?thesis
  proof (cases r)
    case (Ret i)
    note row = register_connected_row [OF r [unfolded Ret]]
    let ?q = "ack_pack e (?m\<lparr>n_table := t\<rparr>) nid h"
    have "ws \<notin> set (n_dead ?m) \<and> (\<exists>rv c. hs = Accepted rv c)
       \<and> n' = ?m\<lparr>n_table := t, n_out := n_out n @ [(ws, ?q)]\<rparr>"
      using assms r Ret
      by (auto simp: accept_hello_def register_peer_def act_defs on_table_def act_on_def ws_send_def
          simp del: take_connection_fields(6) split: if_splits sum.splits)
    with row that [of _ _ i t ?q] show ?thesis by (auto simp: ack_pack_def new_pack_def)
  next
    case (Raise x)
    with assms r show ?thesis
      by (simp add: accept_hello_def register_peer_def act_defs on_table_def act_on_def)
  next
    case Suspended
    with assms r show ?thesis
      by (simp add: accept_hello_def register_peer_def act_defs on_table_def act_on_def)
  qed
qed

text \<open>An accepted peer is reachable through the new socket, under every spelling of its name: the
  socket is registered and is the one the router uses, the row is a direct connection heard now, the
  socket it replaced is closed, the acknowledgement is the one packet written, and sessions, streams,
  pending answers and the sockets and rows of other peers are as before.\<close>

theorem accepted_peer_reachable:
  assumes "greet e ws nid g n = (Ret (Accepted rv c), n')"
  shows "nodes_get nid n' = Some ws \<and> socket_of n' (canon nid) = Some ws
    \<and> (\<forall>m. canon m \<noteq> canon nid \<longrightarrow> nodes_get m n' = nodes_get m n \<and> nt_get (n_table n') (Some m) = nt_get (n_table n) (Some m)
          \<and> socket_of n' (canon m) = socket_of n (canon m))
    \<and> (\<exists>i. nt_get (n_table n') (Some nid) = Some i \<and> nb_status i = CONNECTED \<and> nb_via i = None
          \<and> nb_hops i = 1 \<and> nb_last_ts i = e_wall e)
    \<and> (\<exists>q. n_out n' = n_out n @ [(ws, q)] \<and> ptype q = HELLO_ACK \<and> dst q = Some nid)
    \<and> n_dead n' = (case nodes_get nid n of None \<Rightarrow> n_dead n | Some old \<Rightarrow> old # n_dead n)
    \<and> n_sessions n' = n_sessions n \<and> n_streams n' = n_streams n \<and> n_pending n' = n_pending n \<and> n_client n' = n_client n"
proof -
  obtain h where h: "accept_hello e ws nid h n = (Ret (Accepted rv c), n')"
    using assms by (rule greet_accepted)
  show ?thesis
  proof (rule accept_hello_cases [OF h])
    fix i t q rv' c'
    assume i: "nb_status i = CONNECTED" "nb_via i = None" "nb_hops i = 1" "nb_last_ts i = e_wall e"
      and rows: "\<And>k. dict_get (rows t) k = (if k = canon nid then Some i else dict_get (rows (n_table n)) k)"
      and q: "ptype q = HELLO_ACK" "dst q = Some nid"
      and n': "n' = (take_connection nid ws n)\<lparr>n_table := t, n_out := n_out n @ [(ws, q)]\<rparr>"
    have sock: "socket_of n' k = (if k = canon nid then Some ws else socket_of n k)" for k
      by (simp add: n' socket_of_def split: option.split)
    have rest: "n_sessions n' = n_sessions n" "n_streams n' = n_streams n" "n_pending n' = n_pending n"
      by (simp_all add: n' take_connection_def invalidate_transport_def nodes_register_def close_ws_def split: option.split)
    show ?thesis
      using i rows q rest sock by (simp add: n' nodes_get_def nt_get_def get_opt_def)
  qed
qed

theorem accepted_peer_reachable_witness:
  "\<exists>n'. greet ex_net 7 ''z'' (G_bytes ''hello'') ex_b = (Ret (Accepted False False), n')
     \<and> nodes_get ''Z '' n' = Some 7 \<and> n_dead n' = [3]"
proof -
  obtain n' where g: "greet ex_net 7 ''z'' (G_bytes ''hello'') ex_b = (Ret (Accepted False False), n')"
    using ex_greet by blast
  have "canon ''Z '' = canon ''z''" by code_simp
  moreover have "nodes_get ''z'' ex_b = Some 3" by (simp add: ex_b_def nodes_get_def ex_canon_z)
  ultimately show ?thesis
    using accepted_peer_reachable [OF g] g by (simp add: nodes_get_def) (simp add: ex_b_def new_node_def)
qed

section \<open>Losing a connection\<close>

lemma disconnect_fields:
  "n_nodes (disconnect ws nid n) = (if nodes_get nid n = Some ws then dict_pop (canon nid) (n_nodes n) else n_nodes n)"
  "n_table (disconnect ws nid n) = (if nodes_get nid n = Some ws then mark_unreachable nid (n_table n) else n_table n)"
  "n_client (disconnect ws nid n) = n_client n" "n_out (disconnect ws nid n) = n_out n"
  "n_dead (disconnect ws nid n) = n_dead n" "n_sessions (disconnect ws nid n) = n_sessions n"
  "n_streams (disconnect ws nid n) = n_streams n"
  "n_cache (disconnect ws nid n) = (if nodes_get nid n = Some ws then dict_pop (canon nid) (n_cache n) else n_cache n)"
  by (simp_all add: disconnect_def cleanup_ws_pending_def invalidate_transport_def nodes_remove_def)

lemma mark_unreachable_get:
  "nt_get (mark_unreachable nid t) (Some m) =
     (if canon m = canon nid then map_option (nb_status_update (\<lambda>_. UNREACHABLE)) (nt_get t (Some m)) else nt_get t (Some m))"
  by (simp add: mark_unreachable_def update_row_def nt_get_def get_opt_def split: option.split)

text \<open>The end of a connection takes its peer down exactly when it was the current one: then the peer
  has no socket of the server side any more, its row is unreachable and nothing else about it changes;
  the late end of a socket that a reconnect replaced leaves the peer connected through the new one. In
  both cases other peers, sessions and streams are untouched.\<close>

theorem disconnect_effect:
  "(if nodes_get nid n = Some ws
    then nodes_get nid (disconnect ws nid n) = None
      \<and> nt_get (n_table (disconnect ws nid n)) (Some nid)
          = map_option (nb_status_update (\<lambda>_. UNREACHABLE)) (nt_get (n_table n) (Some nid))
      \<and> socket_of (disconnect ws nid n) (canon nid) = dict_get (n_client n) (canon nid)
    else nodes_get nid (disconnect ws nid n) = nodes_get nid n
      \<and> nt_get (n_table (disconnect ws nid n)) (Some nid) = nt_get (n_table n) (Some nid)
      \<and> socket_of (disconnect ws nid n) (canon nid) = socket_of n (canon nid))
   \<and> (canon m = canon nid \<or> nodes_get m (disconnect ws nid n) = nodes_get m n
       \<and> nt_get (n_table (disconnect ws nid n)) (Some m) = nt_get (n_table n) (Some m)
       \<and> socket_of (disconnect ws nid n) (canon m) = socket_of n (canon m))
   \<and> n_sessions (disconnect ws nid n) = n_sessions n \<and> n_streams (disconnect ws nid n) = n_streams n"
proof -
  have sock: "socket_of (disconnect ws nid n) k =
      (if nodes_get nid n = Some ws \<and> k = canon nid then dict_get (n_client n) k else socket_of n k)" for k
    by (simp add: socket_of_def disconnect_fields split: option.split)
  show ?thesis
    by (simp add: sock disconnect_fields nodes_get_def mark_unreachable_get)
qed

text \<open>A reconnect survives its predecessor: when a peer is accepted on a new socket while the old one
  is still registered, the end of the old connection, whenever it is noticed, leaves the peer registered
  on the new socket and its row a direct connection.\<close>

theorem reconnect_survives_old_socket:
  assumes "greet e ws nid g n = (Ret (Accepted rv c), n')" "nodes_get nid n = Some old" "old \<noteq> ws"
  shows "nodes_get nid (disconnect old nid n') = Some ws \<and> socket_of (disconnect old nid n') (canon nid) = Some ws
    \<and> (\<exists>i. nt_get (n_table (disconnect old nid n')) (Some nid) = Some i \<and> nb_status i = CONNECTED)"
proof -
  obtain h where h: "accept_hello e ws nid h n = (Ret (Accepted rv c), n')"
    using assms(1) by (rule greet_accepted)
  show ?thesis
  proof (rule accept_hello_cases [OF h])
    fix i t q rv' c'
    assume i: "nb_status i = CONNECTED"
      and rows: "\<And>k. dict_get (rows t) k = (if k = canon nid then Some i else dict_get (rows (n_table n)) k)"
      and n': "n' = (take_connection nid ws n)\<lparr>n_table := t, n_out := n_out n @ [(ws, q)]\<rparr>"
    have reg: "nodes_get nid n' = Some ws" by (simp add: n' nodes_get_def)
    then have same: "n_nodes (disconnect old nid n') = n_nodes n'" "n_table (disconnect old nid n') = n_table n'"
      "n_cache (disconnect old nid n') = n_cache n'"
      using assms(3) by (simp_all add: disconnect_fields)
    have "dict_get (n_nodes n') (canon nid) = Some ws" "dict_get (n_cache n') (canon nid) = None"
      "dict_get (rows (n_table n')) (canon nid) = Some i"
      using rows by (simp_all add: n')
    with i show ?thesis by (simp add: nodes_get_def same nt_get_def socket_of_def)
  qed
qed

theorem reconnect_survives_old_socket_witness:
  "\<exists>n'. greet ex_net 7 ''z'' (G_bytes ''hello'') ex_b = (Ret (Accepted False False), n')
     \<and> nodes_get ''z'' (disconnect 3 ''z'' n') = Some 7"
proof -
  obtain n' where g: "greet ex_net 7 ''z'' (G_bytes ''hello'') ex_b = (Ret (Accepted False False), n')"
    using ex_greet by blast
  have "nodes_get ''z'' ex_b = Some 3" by (simp add: ex_b_def nodes_get_def ex_canon_z)
  from reconnect_survives_old_socket [OF g this] g show ?thesis by simp
qed

section \<open>Retry delays\<close>

text \<open>The delay after each of a series of attempts of one connector.\<close>

fun dials :: "(net_env \<times> (nat \<times> greeting) option) list \<Rightarrow> connector \<Rightarrow> node \<Rightarrow> connector \<times> node" where
  "dials [] c n = (c, n)"
| "dials ((e, link) # ls) c n =
     (case dial e link c n of (_, _, c1, n1) \<Rightarrow> case hang_up c1 n1 of (c2, n2) \<Rightarrow> dials ls c2 n2)"

definition backoff_ok :: "connector \<Rightarrow> bool" where
  "backoff_ok c \<longleftrightarrow> 5 \<le> c_backoff c \<and> c_backoff c \<le> 300"

lemma attempt_cases:
  assumes "attempt e ws reply c n = (r, d, c', n')"
  obtains "r = Open" "d = 0" "c_backoff c' = 5"
  | "r = Refused" "d = 5" "c_backoff c' = 5"
  | "r = Refused" "d = c_backoff c'" "c_backoff c' = min (c_backoff c * 2) 300"
  | "r = Broken" "d = 0" "c_backoff c' = c_backoff c"
  using assms that by (auto simp: attempt_def Let_def split: prod.splits outcome.splits bool.splits if_splits)

lemma dial_cases:
  assumes "dial e link c n = (r, d, c', n')"
  obtains "r = Waits" "d = 5" "c' = c" | "r = Broken" "d = 0" "c' = c"
  | ws reply m where "attempt e ws reply c m = (r, d, c', n')"
  using assms by (auto simp: dial_def split: prod.splits outcome.splits bool.splits option.splits)

lemma dial_delay:
  assumes "dial e link c n = (r, d, c', n')" "backoff_ok c"
  shows "backoff_ok c' \<and> 0 \<le> d \<and> d \<le> 300"
  using assms(1)
proof (cases rule: dial_cases)
  case (3 ws reply m)
  then show ?thesis using assms(2) by (cases rule: attempt_cases) (simp_all add: backoff_ok_def)
qed (use assms(2) in simp_all)

lemma dial_outcome:
  assumes "dial e link c n = (r, d, c', n')"
  shows "(r = Refused \<longrightarrow> d = c_backoff c' \<and> (c_backoff c' = 5 \<or> c_backoff c' = min (c_backoff c * 2) 300))
    \<and> (r = Open \<longrightarrow> c_backoff c' = 5)"
  using assms
proof (cases rule: dial_cases)
  case (3 ws reply m)
  then show ?thesis by (cases rule: attempt_cases) simp_all
qed simp_all

lemma hang_up_backoff [simp]: "c_backoff (fst (hang_up c n)) = c_backoff c"
  by (simp add: hang_up_def split: prod.split)

lemma dials_backoff: "backoff_ok c \<Longrightarrow> backoff_ok (fst (dials ls c n))"
proof (induction ls c n rule: dials.induct)
  case (2 e link ls c n)
  obtain r d c1 n1 where d: "dial e link c n = (r, d, c1, n1)" by (cases "dial e link c n")
  obtain c2 n2 where h: "hang_up c1 n1 = (c2, n2)" by (cases "hang_up c1 n1")
  have "backoff_ok c1" using dial_delay [OF d "2.prems"] by simp
  then have "backoff_ok c2" using hang_up_backoff [of c1 n1] by (simp add: h backoff_ok_def)
  from "2.IH" [OF d [symmetric] refl refl h [symmetric] this] show ?case by (simp add: d h)
qed simp

text \<open>The retry delay of a connector is bounded: after any series of attempts, whatever the peer
  answered, the next attempt never sleeps for more than five minutes and the stored delay stays between
  five seconds and five minutes; a refusal sleeps for the stored delay, which it doubled up to that
  bound or, for a lex rejection, reset to five seconds, and an accepted connection resets it.\<close>

theorem retry_delay_bounds:
  assumes "dials ls (new_connector peer) n0 = (c, n)" "dial e link c n = (r, d, c', n')"
  shows "0 \<le> d \<and> d \<le> 300 \<and> 5 \<le> c_backoff c' \<and> c_backoff c' \<le> 300
    \<and> (r = Refused \<longrightarrow> d = c_backoff c' \<and> (c_backoff c' = 5 \<or> c_backoff c' = min (c_backoff c * 2) 300))
    \<and> (r = Open \<longrightarrow> c_backoff c' = 5)"
proof -
  have "backoff_ok c"
    using dials_backoff [of "new_connector peer" ls n0] assms(1) by (simp add: new_connector_def backoff_ok_def)
  then show ?thesis
    using dial_delay [OF assms(2)] dial_outcome [OF assms(2)] by (simp add: backoff_ok_def)
qed

theorem retry_delay_bounds_witness:
  "fst (dial ex_net (Some (7, G_timeout)) (new_connector ''z'') (new_node ''b'' ''bee'' 4)) = Refused
   \<and> fst (snd (dial ex_net (Some (7, G_timeout)) (new_connector ''z'') (new_node ''b'' ''bee'' 4))) = 10"
proof -
  let ?x = "dial ex_net (Some (7, G_timeout)) (new_connector ''z'') (new_node ''b'' ''bee'' 4)"
  have f: "fst ?x = Refused" "c_backoff (fst (snd (snd ?x))) = 10"
    by (simp_all add: dial_def already_connected_def nt_get_def new_node_def new_table_def act_defs get_transport_to_def
        new_connector_def attempt_def Let_def hs_client_def ws_send_def register_client_ws_def invalidate_transport_def
        await_ack_def)
  obtain r d c' n' where x: "?x = (r, d, c', n')" by (metis prod_cases4)
  with f have "r = Refused" "c_backoff c' = 10" by simp_all
  with retry_delay_bounds [of "[]" "''z''" "new_node ''b'' ''bee'' 4" _ _ ex_net, OF _ x] show ?thesis
    by (simp add: x)
qed

section \<open>Hanging up and keeping alive\<close>

lemma transport_table:
  "get_transport_to k n = (t, n') \<Longrightarrow> n_table n' = n_table n \<and> n_nodes n' = n_nodes n \<and> n_client n' = n_client n"
  by (auto simp: get_transport_to_def split: option.splits)

text \<open>A connector that hangs up takes its peer down only when no socket of the server side is left:
  its own socket is unregistered in any case; a peer that is still connected to this node's server
  keeps its row and is reached through that socket, any other becomes unreachable.\<close>

theorem hang_up_effect:
  assumes "hang_up c n = (c', n')"
  shows "c_ws c' = None \<and> \<not> has_client_ws (c_peer c) n' \<and> n_nodes n' = n_nodes n
    \<and> (case nodes_get (c_peer c) n of
         Some ws \<Rightarrow> n_table n' = n_table n \<and> socket_of n' (canon (c_peer c)) = Some ws
       | None \<Rightarrow> n_table n' = mark_unreachable (c_peer c) (n_table n) \<and> socket_of n' (canon (c_peer c)) = None)"
proof -
  let ?n = "unregister_client_ws (c_peer c) n"
  have u: "dict_get (n_cache ?n) (canon (c_peer c)) = None" "dict_get (n_client ?n) (canon (c_peer c)) = None"
    "n_nodes ?n = n_nodes n" "n_table ?n = n_table n"
    by (simp_all add: unregister_client_ws_def invalidate_transport_def)
  show ?thesis
  proof (cases "nodes_get (c_peer c) n")
    case None
    with u have s: "socket_of ?n (canon (c_peer c)) = None" by (simp add: socket_of_def nodes_get_def)
    then have g: "get_transport_to (Some (c_peer c)) ?n = (Ret None, ?n)"
      by (cases rule: get_transport_cases [of ?n "c_peer c"]) simp_all
    have "n' = ?n\<lparr>n_table := mark_unreachable (c_peer c) (n_table ?n)\<rparr>" "c' = c\<lparr>c_ws := None\<rparr>"
      using assms g by (simp_all add: hang_up_def)
    with u None s show ?thesis
      by (simp add: has_client_ws_def)
  next
    case (Some ws)
    with u have s: "socket_of ?n (canon (c_peer c)) = Some ws" by (simp add: socket_of_def nodes_get_def)
    obtain n1 where g: "get_transport_to (Some (c_peer c)) ?n = (Ret (Some ws), n1)"
      using s by (cases rule: get_transport_cases [of ?n "c_peer c"]) auto
    have "n' = n1" "c' = c\<lparr>c_ws := None\<rparr>" using assms g by (simp_all add: hang_up_def)
    with u Some s transport_table [OF g] socket_of_transport [OF g] show ?thesis
      by (simp add: has_client_ws_def)
  qed
qed

theorem hang_up_effect_witness:
  "socket_of (snd (hang_up ((new_connector ''z'')\<lparr>c_ws := Some 9\<rparr>) (ex_b\<lparr>n_client := [(''z'', 9)]\<rparr>))) ''z'' = Some 3"
proof -
  let ?c = "(new_connector ''z'')\<lparr>c_ws := Some 9\<rparr>" and ?n = "ex_b\<lparr>n_client := [(''z'', 9)]\<rparr>"
  obtain c' n' where h: "hang_up ?c ?n = (c', n')" by (cases "hang_up ?c ?n")
  have "nodes_get ''z'' ?n = Some 3"
    by (simp add: ex_b_def new_node_def nodes_get_def ex_canon_z)
  with hang_up_effect [OF h] h show ?thesis by (simp add: new_connector_def ex_canon_z)
qed

lemma close_local_ws_fields [simp]:
  "n_table (close_local_ws c n) = n_table n" "n_out (close_local_ws c n) = n_out n"
  "n_dead (close_local_ws c n) = (case c_ws c of None \<Rightarrow> n_dead n | Some ws \<Rightarrow> ws # n_dead n)"
  by (simp_all add: close_local_ws_def close_ws_def split: option.split)

text \<open>Keepalive: a peer that is unknown or was heard within a minute costs nothing; a silent peer
  with a live socket, in either direction, gets exactly one ping and keeps its row; a silent peer
  without one is given up after a minute and a half, and then the connector's own socket is closed.\<close>

theorem keepalive_contract:
  "(case nt_get (n_table n) (Some (c_peer c)) of
      None \<Rightarrow> keepalive e c n = n
    | Some i \<Rightarrow>
        if e_wall e - nb_last_ts i \<le> 60 then keepalive e c n = n
        else (case socket_of n (canon (c_peer c)) of
            Some ws \<Rightarrow>
              if ws \<in> set (n_dead n) then n_out (keepalive e c n) = n_out n
                \<and> n_table (keepalive e c n) = (if e_wall e - nb_last_ts i > 90 then mark_unreachable (c_peer c) (n_table n) else n_table n)
              else (\<exists>q. n_out (keepalive e c n) = n_out n @ [(ws, q)] \<and> ptype q = PING \<and> dst q = Some (c_peer c))
                \<and> n_table (keepalive e c n) = n_table n \<and> n_dead (keepalive e c n) = n_dead n
          | None \<Rightarrow> n_out (keepalive e c n) = n_out n
              \<and> n_table (keepalive e c n) = (if e_wall e - nb_last_ts i > 90 then mark_unreachable (c_peer c) (n_table n) else n_table n)
              \<and> n_dead (keepalive e c n) =
                  (case c_ws c of Some ws \<Rightarrow> if e_wall e - nb_last_ts i > 90 then ws # n_dead n else n_dead n | None \<Rightarrow> n_dead n)))"
proof (cases "nt_get (n_table n) (Some (c_peer c))")
  case None
  then show ?thesis by (simp add: keepalive_def)
next
  case (Some i)
  show ?thesis
  proof (cases "socket_of n (canon (c_peer c))")
    case None
    then have g: "get_transport_to (Some (c_peer c)) n = (Ret None, n)"
      by (cases rule: get_transport_cases [of n "c_peer c"]) simp_all
    with Some None show ?thesis
      by (simp add: keepalive_def bury_def keepalive_timeout_def dead_timeout_def split: option.split)
  next
    case s: (Some ws)
    obtain ch where g: "get_transport_to (Some (c_peer c)) n = (Ret (Some ws), n\<lparr>n_cache := ch\<rparr>)"
      using s by (cases rule: get_transport_cases [of n "c_peer c"]) auto
    with Some s show ?thesis
      by (simp add: keepalive_def bury_def keepalive_timeout_def dead_timeout_def ws_send_def ping_pack_def new_pack_def)
  qed
qed

end
