(* ===== verification/Histories.thy ===== *)
theory Histories
  imports Connections
begin

text \<open>
  The life of a node: every way its state changes, as one step each, and the invariant over every
  sequence of steps: no connection, frame, loss, timer, attempt or call, in any order and with any
  contents, breaks the node.
\<close>

section \<open>Registering and losing sockets\<close>

lemma linked_okI:
  "(\<And>k. k \<in> conn (n_table n) \<Longrightarrow> dict_get (n_nodes n) k \<noteq> None \<or> dict_get (n_client n) k \<noteq> None) \<Longrightarrow> linked_ok n"
  by (simp add: linked_ok_def)

lemma linked_okD: "linked_ok n \<Longrightarrow> k \<in> conn (n_table n) \<Longrightarrow> dict_get (n_nodes n) k = None \<Longrightarrow> dict_get (n_client n) k \<noteq> None"
  by (auto simp: linked_ok_def)















section \<open>Connectors, timers and calls\<close>























section \<open>Histories\<close>








end
