(* ===== verification/Router_Calls.thy ===== *)
theory Router_Calls
  imports Router_Facts
begin

text \<open>
  Requests seen from the caller's side, on one node: the pending answers of local clients, the
  futures of calls, and the streams the node opens.
\<close>

section \<open>Local clients\<close>

lemma dict_pop_set_same: "dict_get (dict_pop k (dict_set k v d)) j = (if j = k then None else dict_get d j)"
  by simp

text \<open>A request of a local client to a remote node is answered to that client's socket and then
  forgotten: when the request could be forwarded, the first response or error with its label goes,
  unchanged, to the socket the request came from, and only there.\<close>

theorem remote_request_answered_to_client:
  assumes "on_remote_request env ws p n = (Ret (), n1)" "dict_get (n_pending n1) (label p) = Some (ws, t)"
    "label q = label p" "ws \<notin> set (n_dead n1)" "stream_get (n_streams n1) (label p) = None"
  shows "\<exists>n2. on_response q n1 = (Ret (), n2) \<and> on_error q n1 = (Ret (), n2)
    \<and> n_out n2 = n_out n1 @ [(ws, q)] \<and> dict_get (n_pending n2) (label p) = None
    \<and> (\<forall>l. l \<noteq> label p \<longrightarrow> dict_get (n_pending n2) l = dict_get (n_pending n1) l)"
proof -
  let ?n2 = "n1\<lparr>n_pending := dict_pop (label p) (n_pending n1), n_out := n_out n1 @ [(ws, q)]\<rparr>"
  have "answer_client q ws n1 = (Ret (), ?n2)"
    using assms(3,4) by (simp add: answer_client_def act_defs ws_send_def)
  then have "on_response q n1 = (Ret (), ?n2)" "on_error q n1 = (Ret (), ?n2)"
    using assms(2,3,5) by (simp_all add: on_response_def on_error_def)
  then show ?thesis by (intro exI [of _ ?n2]) simp
qed

text \<open>A local client is told when its request has no route: exactly one packet goes to its socket, an
  error under the label of the request that names the destination, and no entry stays pending.\<close>

theorem remote_request_no_route:
  assumes "cache_ok n" "ws \<notin> set (n_dead n)"
    "fst (forward (p\<lparr>path := path p @ [n_id n], ttl := ttl p - 1\<rparr>) (n\<lparr>n_pending := dict_set (label p) (ws, e_mono env) (n_pending n)\<rparr>))
       = Raise (NoRouteToHost (dst p))"
  shows "\<exists>n' q. on_remote_request env ws p n = (Ret (), n') \<and> n_out n' = n_out n @ [(ws, q)] \<and> ptype q = ERROR
    \<and> label q = label p \<and> error q = Some (''No route to host: '' @ opt_text (dst p))
    \<and> dict_get (n_pending n') (label p) = None"
proof -
  let ?n = "n\<lparr>n_pending := dict_set (label p) (ws, e_mono env) (n_pending n)\<rparr>"
  let ?p = "p\<lparr>path := path p @ [n_id n], ttl := ttl p - 1\<rparr>"
  obtain n1 where f: "forward ?p ?n = (Raise (NoRouteToHost (dst p)), n1)"
    using assms(3) by (cases "forward ?p ?n") simp
  have "cache_ok ?n" using assms(1) by (simp add: cache_ok_def)
  from forward_outcome_holds [OF this, of ?p] f have n1: "n1 = ?n"
    unfolding forward_outcome_def by auto
  let ?n' = "n\<lparr>n_pending := dict_pop (label p) (dict_set (label p) (ws, e_mono env) (n_pending n)),
    n_out := n_out n @ [(ws, no_route_pack n p)]\<rparr>"
  have "on_remote_request env ws p n = (Ret (), ?n')"
    using assms(2) by (simp add: on_remote_request_def act_catch_def f n1 act_seq_def act_bind_def act_modify_def ws_send_def)
  then show ?thesis
    by (intro exI [of _ ?n'] exI [of _ "no_route_pack n p"]) (simp add: no_route_pack_def)
qed

text \<open>Removing the entries a predicate selects.\<close>

lemma fold_pop_selected:
  assumes "dict_ok d"
  shows "dict_get (fold dict_pop (map fst (filter P d)) d) k =
    (case dict_get d k of None \<Rightarrow> None | Some v \<Rightarrow> if P (k, v) then None else Some v)"
proof -
  have "k \<in> set (map fst (filter P d)) \<longleftrightarrow> (\<exists>v. dict_get d k = Some v \<and> P (k, v))"
    using dict_in_set_iff [OF assms] by force
  then show ?thesis
    using dict.lookup_fold_remove [of "map fst (filter P d)" d k] by (auto split: option.split)
qed

text \<open>Pending answers do not accumulate: a disconnect removes exactly the entries of the lost socket,
  and the periodic sweep exactly the entries older than the limit.\<close>

theorem pending_cleanup_exact:
  assumes "dict_ok (n_pending n)"
  shows "dict_get (n_pending (cleanup_ws_pending ws n)) l =
      (case dict_get (n_pending n) l of None \<Rightarrow> None | Some (w, t) \<Rightarrow> if w = ws then None else Some (w, t))
    \<and> dict_get (n_pending (sweep_ws_pending now limit n)) l =
      (case dict_get (n_pending n) l of None \<Rightarrow> None | Some (w, t) \<Rightarrow> if now - t > limit then None else Some (w, t))"
  using fold_pop_selected [OF assms, of "\<lambda>(l, w, t). w = ws" l]
    fold_pop_selected [OF assms, of "\<lambda>(l, w, t). now - t > limit" l]
  by (auto simp: cleanup_ws_pending_def sweep_ws_pending_def split: option.split)

section \<open>Calls\<close>

lemma fut_result_open: "open_session p n = (Ret f, n') \<Longrightarrow>
    f = s_next (n_sessions n) \<and> n_sessions n' = snd (register_single (label p) (service p) (meth p) (n_sessions n))"
  by (cases "register_single (label p) (service p) (meth p) (n_sessions n)")
    (auto simp: open_session_def register_single_def Let_def)

lemma guarded_ret:
  assumes "act_bind (act_catch m h) (\<lambda>_. act_ret c) s = (Ret x, s')" "\<And>e s a. fst (h e s) \<noteq> Ret a"
  shows "\<exists>a. m s = (Ret a, s')" "x = c"
proof -
  obtain o1 s1 where m: "m s = (o1, s1)" by (cases "m s")
  have "(\<exists>a. m s = (Ret a, s')) \<and> x = c"
  proof (cases o1)
    case (Ret a)
    with m assms(1) show ?thesis by (simp add: act_bind_def act_catch_def act_ret_def)
  next
    case (Raise e)
    obtain o2 s2 where h: "h e s1 = (o2, s2)" by (cases "h e s1")
    with assms(2) [of e s1] have "\<forall>a. o2 \<noteq> Ret a" by simp
    with m assms(1) Raise h show ?thesis by (cases o2) (simp_all add: act_bind_def act_catch_def)
  next
    case Suspended
    with m assms(1) show ?thesis by (simp add: act_bind_def act_catch_def)
  qed
  then show "\<exists>a. m s = (Ret a, s')" "x = c" by simp_all
qed

definition call_aborts :: "MsgPack \<Rightarrow> exn \<Rightarrow> (node, unit) act" where
  "call_aborts p e = (case e of
     NoRouteToHost x \<Rightarrow> act_seq (cancel_session (label p)) (act_raise (NoRouteToHost x))
   | _ \<Rightarrow> act_raise e)"

lemma call_aborts_raises: "fst (call_aborts p e n) \<noteq> Ret a"
  by (cases e) (simp_all add: call_aborts_def act_defs cancel_session_def)

lemma call_start_split:
  assumes "call_start env d svc m v n = (Ret (Call_waits f), n')"
  obtains st a where "register_single (e_fresh env) (Some svc) (Some m) (n_sessions n) = (f, st)"
    "forward (call_pack env n d svc m v) (n\<lparr>n_sessions := st\<rparr>) = (Ret a, n')"
proof -
  let ?p = "call_pack env n d svc m v"
  obtain g st where o: "register_single (e_fresh env) (Some svc) (Some m) (n_sessions n) = (g, st)"
    by (cases "register_single (e_fresh env) (Some svc) (Some m) (n_sessions n)")
  then have "open_session ?p n = (Ret g, n\<lparr>n_sessions := st\<rparr>)"
    by (simp add: open_session_def call_pack_def new_pack_def)
  moreover have "\<not> calls_self n d"
    using assms by (auto simp: call_start_def local_call_def Let_def split: sum.splits result.splits)
  ultimately have "act_bind (act_catch (forward ?p) (call_aborts ?p)) (\<lambda>_. act_ret (Call_waits g)) (n\<lparr>n_sessions := st\<rparr>)
      = (Ret (Call_waits f), n')"
    using assms by (simp add: call_start_def Let_def act_bind_def [of "open_session ?p"] call_aborts_def [abs_def])
  from guarded_ret [OF this call_aborts_raises] o that show ?thesis by auto
qed

text \<open>What a call leaves behind when the request is on its way.\<close>

lemma call_start_waits:
  assumes "node_ok n" "call_start env d svc m v n = (Ret (Call_waits f), n')"
  shows "waits_on (n_sessions n') (e_fresh env) = Some f \<and> fut_state (n_sessions n') f = Some Pending \<and> node_ok n'"
proof -
  let ?p = "call_pack env n d svc m v"
  from assms(2) obtain st a where o: "register_single (e_fresh env) (Some svc) (Some m) (n_sessions n) = (f, st)"
    and fwd: "forward ?p (n\<lparr>n_sessions := st\<rparr>) = (Ret a, n')"
    by (rule call_start_split)
  have sok: "sess_ok (n_sessions n)" using assms(1) by (simp add: node_ok_def)
  have st: "st = snd (register_single (e_fresh env) (Some svc) (Some m) (n_sessions n))"
    and f: "f = s_next (n_sessions n)"
    using o fst_register [of "e_fresh env" "Some svc" "Some m" "n_sessions n"] by simp_all
  have ok: "node_ok (n\<lparr>n_sessions := st\<rparr>)"
    using assms(1) register_ok [OF sok] by (simp add: st node_ok_def cache_ok_def linked_ok_def)
  then have "cache_ok (n\<lparr>n_sessions := st\<rparr>)" by (simp add: node_ok_def)
  from forward_outcome_holds [OF this, of ?p] fwd have "n_sessions n' = st"
    unfolding forward_outcome_def by auto
  moreover have "node_ok n'" using keepsE [OF forward_keeps fwd ok] .
  ultimately show ?thesis by (simp add: st f)
qed

text \<open>The request of a call, as it leaves: whether it goes to its destination or to a node on the way.\<close>

definition is_request_of :: "env \<Rightarrow> node \<Rightarrow> string \<Rightarrow> string \<Rightarrow> string \<Rightarrow> pyval \<Rightarrow> MsgPack \<Rightarrow> bool" where
  "is_request_of env n d svc m v q \<longleftrightarrow>
     (ptype q = REQUEST \<or> ptype q = FORWARDED) \<and> source q = n_id n \<and> dst q = Some d \<and> label q = e_fresh env
     \<and> service q = Some svc \<and> meth q = Some m \<and> data q = v \<and> ttl q = default_ttl - 1 \<and> path q = [n_id n]"

lemma call_start_sends:
  assumes "node_ok n" "call_start env d svc m v n = (Ret (Call_waits f), n')"
  shows "n_id n' = n_id n \<and> n_pending n' = n_pending n \<and> n_streams n' = n_streams n
    \<and> (\<exists>ws q. n_out n' = n_out n @ [(ws, q)] \<and> is_request_of env n d svc m v q)"
proof -
  let ?p = "call_pack env n d svc m v"
  from assms(2) obtain st a where o: "register_single (e_fresh env) (Some svc) (Some m) (n_sessions n) = (f, st)"
    and fwd: "forward ?p (n\<lparr>n_sessions := st\<rparr>) = (Ret a, n')"
    by (rule call_start_split)
  let ?n = "n\<lparr>n_sessions := st\<rparr>"
  have "cache_ok ?n" using assms(1) by (simp add: node_ok_def cache_ok_def linked_ok_def)
  from forward_outcome_holds [OF this, of ?p] fwd obtain ws c q where
    n': "n' = ?n\<lparr>n_cache := c, n_out := n_out n @ [(ws, q)]\<rparr>" and q: "q = hop_out ?n ?p \<or> q = in_transit (hop_out ?n ?p)"
    unfolding forward_outcome_def by auto
  from q have "is_request_of env n d svc m v q"
    by (auto simp: is_request_of_def hop_out_def in_transit_def call_pack_def new_pack_def)
  then show ?thesis by (simp add: n')
qed

text \<open>What ends the wait: the payload of the packet, an exception of an error.\<close>

lemma response_ends_wait:
  assumes "dict_get (n_pending n) (label r) = None" "pop_self n (path r) = []" "ptype r = RESPONSE"
  shows "on_response r n = (Ret (), n\<lparr>n_sessions := resolve (label r) (data r) (n_sessions n)\<rparr>)"
  using assms
  by (simp add: on_response_def route_back_def resolve_session_def act_modify_def resolve_payload_def)

lemma error_ends_wait:
  assumes "dict_get (n_pending n) (label r) = None" "stream_get (n_streams n) (label r) = None"
    "pop_self n (path r) = []" "ptype r = ERROR"
  shows "\<exists>t. on_error r n = (Ret (), n\<lparr>n_sessions := resolve (label r) (PExc (PyException t)) (n_sessions n)\<rparr>)
    \<and> (\<forall>x. error r = Some x \<longrightarrow> x \<noteq> [] \<longrightarrow> t = x)"
proof -
  let ?t = "if path r = [] then opt_text (error r)
    else (case error r of None \<Rightarrow> ''unknown error'' | Some e \<Rightarrow> if e = [] then ''unknown error'' else e)"
  have "on_error r n = (Ret (), n\<lparr>n_sessions := resolve (label r) (PExc (PyException ?t)) (n_sessions n)\<rparr>)"
    using assms by (simp add: on_error_def route_back_def resolve_session_def act_modify_def resolve_payload_def)
  then show ?thesis by (intro exI [of _ ?t]) (auto simp: opt_text_def)
qed

text \<open>C14: A call leaves one request and then gets what comes back for it. The one packet a waiting call
  has written carries its label, its service, method and argument, and goes to the destination or
  towards it. When a response with that label ends its path here, its handler gives the caller the
  data; when an error does, the caller gets an exception with its text; in both cases the session is
  gone. When the time limit passes first, the call raises a timeout that names the request, and
  neither a late response nor a late error changes that. The label is fresh: no local client waits
  under it and no stream has it.\<close>

theorem call_gets_its_answer:
  assumes "node_ok n" "call_start env d svc m v n = (Ret (Call_waits f), n1)"
    "dict_get (n_pending n) (e_fresh env) = None" "stream_get (n_streams n) (e_fresh env) = None"
    "label r = e_fresh env" "pop_self n1 (path r) = []"
  shows "(\<exists>ws q. n_out n1 = n_out n @ [(ws, q)] \<and> is_request_of env n d svc m v q)
    \<and> (ptype r = RESPONSE \<longrightarrow> (\<exists>n2. on_response r n1 = (Ret (), n2) \<and> n_out n2 = n_out n1
        \<and> call_finish f n2 = (case data r of PExc e \<Rightarrow> Raise e | x \<Rightarrow> Ret x, n2)
        \<and> waits_on (n_sessions n2) (e_fresh env) = None))
    \<and> (ptype r = ERROR \<longrightarrow> (\<exists>n2 t. on_error r n1 = (Ret (), n2) \<and> n_out n2 = n_out n1
        \<and> call_finish f n2 = (Raise (PyException t), n2) \<and> (\<forall>x. error r = Some x \<longrightarrow> x \<noteq> [] \<longrightarrow> t = x)
        \<and> waits_on (n_sessions n2) (e_fresh env) = None))
    \<and> (\<exists>n2. call_timeout (e_fresh env) f limit n1 = (Raise (RPCTimeout (e_fresh env) limit), n2)
        \<and> waits_on (n_sessions n2) (e_fresh env) = None
        \<and> (ptype r = RESPONSE \<longrightarrow> (\<exists>n3. on_response r n2 = (Ret (), n3) \<and> fut_state (n_sessions n3) f = Some Cancelled))
        \<and> (ptype r = ERROR \<longrightarrow> (\<exists>n3. on_error r n2 = (Ret (), n3) \<and> fut_state (n_sessions n3) f = Some Cancelled)))"
proof -
  note w = call_start_waits [OF assms(1,2)] and s = call_start_sends [OF assms(1,2)]
  have free: "dict_get (n_pending n1) (label r) = None" "stream_get (n_streams n1) (label r) = None"
    using s assms(3-5) by simp_all
  have got: "fut_state (resolve (label r) x (n_sessions n1)) f = Some (Done x)"
    "waits_on (resolve (label r) x (n_sessions n1)) (e_fresh env) = None" for x
    using w assms(5) by (simp_all add: fut_resolve waits_on_resolve)
  let ?n2 = "n1\<lparr>n_sessions := cancel (e_fresh env) (expire f (n_sessions n1))\<rparr>"
  have late: "dict_get (n_pending ?n2) (label r) = None" "stream_get (n_streams ?n2) (label r) = None"
    "pop_self ?n2 (path r) = []"
    using free assms(6) by (simp_all add: pop_self_def is_local_name_def)
  have gone: "fut_state (resolve (label r) x (n_sessions ?n2)) f = Some Cancelled" for x
    using w assms(5) by (simp add: fut_resolve fut_cancel fut_expire)
  have "\<exists>n2. on_response r n1 = (Ret (), n2) \<and> n_out n2 = n_out n1
      \<and> call_finish f n2 = (case data r of PExc e \<Rightarrow> Raise e | x \<Rightarrow> Ret x, n2)
      \<and> waits_on (n_sessions n2) (e_fresh env) = None" if "ptype r = RESPONSE"
    using response_ends_wait [OF free(1) assms(6) that] got [of "data r"]
    by (auto simp: call_finish_def split: pyval.split)
  moreover have "\<exists>n2 t. on_error r n1 = (Ret (), n2) \<and> n_out n2 = n_out n1
      \<and> call_finish f n2 = (Raise (PyException t), n2) \<and> (\<forall>x. error r = Some x \<longrightarrow> x \<noteq> [] \<longrightarrow> t = x)
      \<and> waits_on (n_sessions n2) (e_fresh env) = None" if "ptype r = ERROR"
    using error_ends_wait [OF free assms(6) that] got by (auto simp: call_finish_def)
  moreover have "\<exists>n3. on_response r ?n2 = (Ret (), n3) \<and> fut_state (n_sessions n3) f = Some Cancelled"
    if "ptype r = RESPONSE"
    using response_ends_wait [OF late(1,3) that] gone by auto
  moreover have "\<exists>n3. on_error r ?n2 = (Ret (), n3) \<and> fut_state (n_sessions n3) f = Some Cancelled"
    if "ptype r = ERROR"
    using error_ends_wait [OF late that] gone by auto
  moreover have "waits_on (n_sessions ?n2) (e_fresh env) = None" by simp
  ultimately show ?thesis using s by (auto simp: call_timeout_def)
qed

section \<open>Examples\<close>

definition ex_client_request :: MsgPack where
  "ex_client_request = new_pack REQUEST ''panel'' (Some ''c'') ''q1''"

lemma ex_client_sent:
  "\<exists>n1. on_remote_request ex_env 9 ex_client_request ex_relay = (Ret (), n1)
     \<and> dict_get (n_pending n1) ''q1'' = Some (9, 50) \<and> n_dead n1 = [] \<and> n_streams n1 = new_stream_reg"
  by (simp add: on_remote_request_def act_catch_def forward_def ex_relay_def new_node_def ex_client_request_def
      new_pack_def ex_canon ws_send_def ex_env_def dict_set_simps)

theorem remote_request_answered_to_client_witness:
  "\<exists>n1 n2. on_remote_request ex_env 9 ex_client_request ex_relay = (Ret (), n1)
     \<and> on_response (new_pack RESPONSE ''c'' (Some ''panel'') ''q1'') n1 = (Ret (), n2)
     \<and> n_out n2 = n_out n1 @ [(9, new_pack RESPONSE ''c'' (Some ''panel'') ''q1'')]"
proof -
  from ex_client_sent obtain n1 where n1: "on_remote_request ex_env 9 ex_client_request ex_relay = (Ret (), n1)"
    "dict_get (n_pending n1) (label ex_client_request) = Some (9, 50)" "9 \<notin> set (n_dead n1)"
    "stream_get (n_streams n1) (label ex_client_request) = None"
    by (auto simp: ex_client_request_def stream_get_def new_stream_reg_def)
  have "label (new_pack RESPONSE ''c'' (Some ''panel'') ''q1'') = label ex_client_request"
    by (simp add: ex_client_request_def)
  from remote_request_answered_to_client [OF n1(1,2) this n1(3,4)] n1(1) show ?thesis by blast
qed

definition ex_lost_request :: MsgPack where
  "ex_lost_request = new_pack REQUEST ''panel'' (Some ''z'') ''q2''"

theorem remote_request_no_route_witness:
  "\<exists>n' q. on_remote_request ex_env 9 ex_lost_request ex_relay = (Ret (), n') \<and> n_out n' = [(9, q)]
     \<and> error q = Some ''No route to host: z''"
proof -
  have z: "canon ''z'' = ''z''" by code_simp
  have "fst (forward (ex_lost_request\<lparr>path := path ex_lost_request @ [n_id ex_relay], ttl := ttl ex_lost_request - 1\<rparr>)
      (ex_relay\<lparr>n_pending := dict_set (label ex_lost_request) (9, e_mono ex_env) (n_pending ex_relay)\<rparr>))
      = Raise (NoRouteToHost (dst ex_lost_request))"
    by (simp add: forward_def forward_via_def forward_by_host_def ex_lost_request_def ex_relay_def new_node_def
        new_pack_def z resolve_by_host_def nt_all_def new_table_def dict_values_def nt_get_def via_of_def)
  moreover have "9 \<notin> set (n_dead ex_relay)" "n_out ex_relay = []" by (simp_all add: ex_relay_def new_node_def)
  ultimately show ?thesis
    using remote_request_no_route [OF ex_relay_ok(2), of 9 ex_lost_request ex_env]
    by (auto simp: ex_lost_request_def opt_text_def new_pack_def)
qed

theorem pending_cleanup_exact_witness:
  "n_pending (cleanup_ws_pending 9 (ex_relay\<lparr>n_pending := [(''l1'', 9, 0), (''l2'', 8, 40)]\<rparr>)) = [(''l2'', 8, 40)]
   \<and> dict_get (n_pending (cleanup_ws_pending 9 (ex_relay\<lparr>n_pending := [(''l1'', 9, 0), (''l2'', 8, 40)]\<rparr>))) ''l1'' = None"
proof -
  have "dict_ok (n_pending (ex_relay\<lparr>n_pending := [(''l1'', 9, 0), (''l2'', 8, 40)]\<rparr>))"
    by (simp add: dict_ok_def)
  from pending_cleanup_exact [OF this, of 9 "''l1''"] show ?thesis
    by (simp add: cleanup_ws_pending_def dict_pop_def)
qed

definition ex_answer :: MsgPack where
  "ex_answer = (new_pack RESPONSE ''c'' (Some ''b'') ''u1'')\<lparr>data := PInt 5, path := [''b'']\<rparr>"

theorem call_gets_its_answer_witness:
  "\<exists>f n1 n2. call_start ex_env ''c'' ''util'' ''echo'' PNone ex_relay = (Ret (Call_waits f), n1)
     \<and> length (n_out n1) = 1 \<and> on_response ex_answer n1 = (Ret (), n2) \<and> call_finish f n2 = (Ret (PInt 5), n2)"
proof -
  have "\<exists>f n1. call_start ex_env ''c'' ''util'' ''echo'' PNone ex_relay = (Ret (Call_waits f), n1) \<and> n_id n1 = ''b''"
    by (simp add: call_start_def Let_def calls_self_def ex_relay_def new_node_def ex_canon resolve_by_host_def
        nt_all_def new_table_def dict_values_def open_session_def register_single_def new_sessions_def act_defs
        call_pack_def new_pack_def forward_def ws_send_def)
  then obtain f n1 where c: "call_start ex_env ''c'' ''util'' ''echo'' PNone ex_relay = (Ret (Call_waits f), n1)"
    and b: "n_id n1 = ''b''" by blast
  have free: "dict_get (n_pending ex_relay) (e_fresh ex_env) = None" "stream_get (n_streams ex_relay) (e_fresh ex_env) = None"
    by (simp_all add: ex_relay_def new_node_def stream_get_def new_stream_reg_def)
  have a: "label ex_answer = e_fresh ex_env" "pop_self n1 (path ex_answer) = []" "ptype ex_answer = RESPONSE"
    "data ex_answer = PInt 5" "n_out ex_relay = []"
    by (simp_all add: ex_answer_def ex_env_def pop_self_def is_local_name_def b new_pack_def ex_relay_def new_node_def)
  from call_gets_its_answer [OF ex_relay_ok(1) c free a(1,2), of 0] a(3-5) c show ?thesis by auto
qed

section \<open>Streams opened by the node\<close>

lemma act_bind_ret2: "act_bind m f s = (case m s of (Ret a, s') \<Rightarrow> f a s' | (Raise e, s') \<Rightarrow> (Raise e, s') | (Suspended, s') \<Rightarrow> (Suspended, s'))"
  by (simp add: act_bind_def)

definition stream_aborts :: "MsgPack \<Rightarrow> exn \<Rightarrow> (node, unit) act" where
  "stream_aborts p e = (case e of
     NoRouteToHost x \<Rightarrow>
       act_seq (cancel_session (label p)) (act_seq (forget_stream (label p)) (act_raise (NoRouteToHost x)))
   | _ \<Rightarrow> act_raise e)"

lemma stream_aborts_eq:
  assumes "label p = l"
  shows "(\<lambda>e. case e of
       NoRouteToHost x \<Rightarrow> act_seq (cancel_session l) (act_seq (forget_stream l) (act_raise (NoRouteToHost x)))
     | _ \<Rightarrow> act_raise e) = stream_aborts p"
  using assms by (auto simp: stream_aborts_def fun_eq_iff)

lemma stream_aborts_raises: "fst (stream_aborts p e n) \<noteq> Ret a"
  by (cases e) (simp_all add: stream_aborts_def act_defs cancel_session_def forget_stream_def)

lemma stream_start_split:
  assumes "stream_start env d svc m v n = (Ret (f, r), n')"
  obtains st s1 a where "register_single (e_fresh env) (Some svc) (Some m) (n_sessions n) = (f, st)"
    "alloc_pipe (new_pipe (mesh_pipe_name (e_fresh env)) (n_buff n)) (n_streams n) = (r, s1)"
    "forward ((call_pack env n d svc m v)\<lparr>ptype := STREAM_OPEN\<rparr>)
       (n\<lparr>n_sessions := st, n_streams := stream_register (e_fresh env) r s1\<rparr>) = (Ret a, n')"
proof -
  let ?p = "(call_pack env n d svc m v)\<lparr>ptype := STREAM_OPEN\<rparr>"
  obtain g st where o: "register_single (e_fresh env) (Some svc) (Some m) (n_sessions n) = (g, st)"
    by (cases "register_single (e_fresh env) (Some svc) (Some m) (n_sessions n)")
  obtain r1 s1 where a: "alloc_pipe (new_pipe (mesh_pipe_name (e_fresh env)) (n_buff n)) (n_streams n) = (r1, s1)"
    by (cases "alloc_pipe (new_pipe (mesh_pipe_name (e_fresh env)) (n_buff n)) (n_streams n)")
  have lbl': "label (call_pack env n d svc m v) = e_fresh env" by (simp add: call_pack_def)
  have lbl: "label ?p = e_fresh env" "service ?p = Some svc" "meth ?p = Some m"
    by (simp_all add: call_pack_def new_pack_def)
  have os: "open_session ?p n = (Ret g, n\<lparr>n_sessions := st\<rparr>)"
    using o lbl by (simp add: open_session_def)
  have rp: "register_pipe (e_fresh env) (new_pipe (mesh_pipe_name (e_fresh env)) (n_buff n)) (n\<lparr>n_sessions := st\<rparr>)
      = (Ret r1, n\<lparr>n_sessions := st, n_streams := stream_register (e_fresh env) r1 s1\<rparr>)"
    using a by (simp add: register_pipe_def)
  have "act_bind (act_catch (forward ?p) (stream_aborts ?p)) (\<lambda>_. act_ret (g, r1))
      (n\<lparr>n_sessions := st, n_streams := stream_register (e_fresh env) r1 s1\<rparr>) = (Ret (f, r), n')"
    using assms unfolding stream_start_def Let_def act_bind_ret2 [of "open_session ?p"] os
    unfolding lbl prod.case outcome.case act_bind_ret2 [of "register_pipe (e_fresh env) (new_pipe (mesh_pipe_name (e_fresh env)) (n_buff n))"] rp
    by (simp add: stream_aborts_eq [OF lbl(1)] lbl')
  from guarded_ret [OF this stream_aborts_raises] o a that show ?thesis by auto
qed

text \<open>The reason why a stream was refused never reaches the caller that opened it: while the caller
  waits for readiness, an error packet with its label is taken for a producer failure; it closes the
  pipe, the wait goes on, and only the time limit ends it, with a timeout.\<close>

theorem stream_refusal_lost:
  assumes "node_ok n" "stream_start env d svc m v n = (Ret (f, r), n1)" "label q = e_fresh env"
  shows "\<exists>n2. on_error q n1 = (Ret (), n2) \<and> fut_state (n_sessions n2) f = Some Pending
    \<and> stream_get (n_streams n2) (e_fresh env) = None \<and> fst (call_finish f n2) = Suspended
    \<and> fst (stream_timeout (e_fresh env) f limit n2) = Raise (RPCTimeout (e_fresh env) limit)"
proof -
  from assms(2) obtain st s1 a where s: "register_single (e_fresh env) (Some svc) (Some m) (n_sessions n) = (f, st)"
    "alloc_pipe (new_pipe (mesh_pipe_name (e_fresh env)) (n_buff n)) (n_streams n) = (r, s1)"
    "forward ((call_pack env n d svc m v)\<lparr>ptype := STREAM_OPEN\<rparr>)
       (n\<lparr>n_sessions := st, n_streams := stream_register (e_fresh env) r s1\<rparr>) = (Ret a, n1)"
    by (rule stream_start_split)
  let ?n0 = "n\<lparr>n_sessions := st, n_streams := stream_register (e_fresh env) r s1\<rparr>"
  have "cache_ok ?n0" using assms(1) by (simp add: node_ok_def cache_ok_def linked_ok_def)
  from forward_outcome_holds [OF this] have "forward_outcome ((call_pack env n d svc m v)\<lparr>ptype := STREAM_OPEN\<rparr>) ?n0 (Ret a, n1)"
    using s(3) by metis
  then have "n_sessions n1 = st \<and> n_streams n1 = stream_register (e_fresh env) r s1"
    unfolding forward_outcome_def prod.inject by (elim disjE exE conjE) simp_all
  then have same: "n_sessions n1 = st" "n_streams n1 = stream_register (e_fresh env) r s1" by simp_all
  have "reg_ok (n_streams n)" using assms(1) by (simp add: node_ok_def)
  from open_at_start [OF this s(2)] have open_: "open_at (e_fresh env) r (n_streams n1) (new_pipe (mesh_pipe_name (e_fresh env)) (n_buff n))"
    by (simp add: same)
  then obtain i where i: "stream_get (n_streams n1) (e_fresh env) = Some i" by (auto simp: open_at_def)
  have st: "st = snd (register_single (e_fresh env) (Some svc) (Some m) (n_sessions n))" "f = s_next (n_sessions n)"
    using s(1) fst_register [of "e_fresh env" "Some svc" "Some m" "n_sessions n"] by simp_all
  have pend: "fut_state (n_sessions n1) f = Some Pending" by (simp add: same st)
  define e where "e = PyException (case error q of None \<Rightarrow> ''producer failed'' | Some e \<Rightarrow> if e = [] then ''producer failed'' else e)"
  obtain s2 where f2: "stream_fail (e_fresh env) e (n_streams n1) = (Ret (), s2)" "stream_get s2 (e_fresh env) = None"
    using open_ by (auto simp: open_at_def stream_fail_def on_pipe_def act_defs)
  have "on_error q n1 = (Ret (), n1\<lparr>n_streams := s2\<rparr>)"
    using i f2(1) assms(3) by (simp add: on_error_def on_streams_def act_on_def flip: e_def)
  with pend f2(2) show ?thesis
    by (intro exI [of _ "n1\<lparr>n_streams := s2\<rparr>"]) (simp add: call_finish_def stream_timeout_def)
qed

theorem stream_refusal_lost_witness:
  "\<exists>f r n1 n2. stream_start ex_env ''c'' ''util'' ''missing'' PNone ex_relay = (Ret (f, r), n1)
     \<and> on_error ((new_pack ERROR ''c'' (Some ''b'') ''u1'')\<lparr>error := Some ''Method not found''\<rparr>) n1 = (Ret (), n2)
     \<and> fut_state (n_sessions n2) f = Some Pending"
proof -
  have "\<exists>f r n1. stream_start ex_env ''c'' ''util'' ''missing'' PNone ex_relay = (Ret (f, r), n1)"
    by (simp add: stream_start_def Let_def ex_relay_def new_node_def ex_canon open_session_def register_single_def
        new_sessions_def act_defs call_pack_def new_pack_def forward_def ws_send_def register_pipe_def
        alloc_pipe_def new_stream_reg_def stream_register_def)
  then obtain f r n1 where n1: "stream_start ex_env ''c'' ''util'' ''missing'' PNone ex_relay = (Ret (f, r), n1)"
    by blast
  have "label ((new_pack ERROR ''c'' (Some ''b'') ''u1'')\<lparr>error := Some ''Method not found''\<rparr>) = e_fresh ex_env"
    by (simp add: ex_env_def)
  from stream_refusal_lost [OF ex_relay_ok(1) n1 this] n1 show ?thesis by blast
qed

text \<open>The iterator of a mesh stream hides the failure of the producer: after an error packet for the
  stream, iterating over the pipe would raise the error, but the iterator reads the queue itself and
  ends as if the stream were complete.\<close>

theorem mesh_iterator_hides_failure:
  assumes "open_at (label q) (it_pipe it) (n_streams n) p" "p_queue p = []" "0 < p_buff p" "error q = Some (c # cs)"
  shows "\<exists>n2. on_error q n = (Ret (), n2)
    \<and> fst (on_streams (on_pipe (it_pipe it) pipe_next) n2) = Raise (PyException (c # cs))
    \<and> fst (mesh_next env it n2) = Raise StopAsyncIteration"
proof -
  let ?e = "PyException (c # cs)"
  let ?p = "pipe_fail ?e p"
  have q: "p_queue ?p = [Sentinel]" "p_error ?p = Some ?e"
    using assms(2,3) by (simp_all add: pipe_fail_fields pipe_full_def)
  let ?s = "stream_remove (label q) ((n_streams n)\<lparr>sr_heap := dict_set (it_pipe it) ?p (sr_heap (n_streams n))\<rparr>)"
  have "stream_fail (label q) ?e (n_streams n) = (Ret (), ?s)"
    using assms(1) by (auto simp: open_at_def stream_fail_def on_pipe_def act_defs)
  then have e: "on_error q n = (Ret (), n\<lparr>n_streams := ?s\<rparr>)"
    using assms(1,4) by (auto simp: open_at_def on_error_def on_streams_def act_on_def)
  have g: "dict_get (sr_heap ?s) (it_pipe it) = Some ?p" by simp
  have "pipe_next ?p = (Raise ?e, ?p\<lparr>p_queue := []\<rparr>)" using q by (simp add: pipe_end_def)
  then have "fst (on_streams (on_pipe (it_pipe it) pipe_next) (n\<lparr>n_streams := ?s\<rparr>)) = Raise ?e"
    using g by (simp add: on_streams_def act_on_def on_pipe_def)
  moreover have "pipe_get ?p = (Ret Sentinel, ?p\<lparr>p_queue := []\<rparr>)" using q by (simp add: pipe_get_def)
  then have "fst (mesh_next env it (n\<lparr>n_streams := ?s\<rparr>)) = Raise StopAsyncIteration"
    using g by (simp add: mesh_next_def act_bind_def on_streams_def act_on_def on_pipe_def act_raise_def)
  ultimately show ?thesis using e by blast
qed

definition ex_streaming :: node where
  "ex_streaming = ex_relay\<lparr>n_streams := stream_register ''u1'' 0 (snd (alloc_pipe (new_pipe ''mesh_u1'' 4) new_stream_reg))\<rparr>"

theorem mesh_iterator_hides_failure_witness:
  "\<exists>n2. on_error ((new_pack ERROR ''c'' (Some ''b'') ''u1'')\<lparr>error := Some ''disk''\<rparr>) ex_streaming = (Ret (), n2)
     \<and> fst (mesh_next ex_env \<lparr>it_label = ''u1'', it_pipe = 0, it_buff = 4, it_since = 0\<rparr> n2) = Raise StopAsyncIteration"
proof -
  have "alloc_pipe (new_pipe ''mesh_u1'' 4) new_stream_reg = (0, snd (alloc_pipe (new_pipe ''mesh_u1'' 4) new_stream_reg))"
    by (simp add: alloc_pipe_def new_stream_reg_def)
  from open_at_start [OF new_stream_reg_ok this, of "''u1''"]
  have "open_at (label ((new_pack ERROR ''c'' (Some ''b'') ''u1'')\<lparr>error := Some ''disk''\<rparr>))
      (it_pipe \<lparr>it_label = ''u1'', it_pipe = 0, it_buff = 4, it_since = 0\<rparr>) (n_streams ex_streaming) (new_pipe ''mesh_u1'' 4)"
    by (simp add: ex_streaming_def)
  from mesh_iterator_hides_failure [OF this, where c = "CHR ''d''" and cs = "''isk''" and env = ex_env]
  obtain n2 where "on_error ((new_pack ERROR ''c'' (Some ''b'') ''u1'')\<lparr>error := Some ''disk''\<rparr>) ex_streaming = (Ret (), n2)"
    "fst (mesh_next ex_env \<lparr>it_label = ''u1'', it_pipe = 0, it_buff = 4, it_since = 0\<rparr> n2) = Raise StopAsyncIteration"
    by auto
  then show ?thesis by blast
qed

end
