(* ===== verification/Mesh.thy ===== *)
theory Mesh
  imports Router_Facts
begin

text \<open>
  Several nodes: packets travelling over the sockets between them. A mesh gives the state of
  every node by its name, and \<open>peer a ws\<close> the node at the other end of socket \<open>ws\<close> of node
  \<open>a\<close>. The state of the nodes may differ from one hop to the next (everything else goes on
  meanwhile), so a mesh is indexed by the hop. The bound on forwarding is the locale
  \<open>hop_limited\<close>, interpreted on the packets in transit of \<open>on_forwarded\<close>.
\<close>

section \<open>Runs of a partial step function\<close>

fun trace :: "('s \<Rightarrow> 's option) \<Rightarrow> nat \<Rightarrow> 's \<Rightarrow> 's list" where
  "trace step 0 s = []"
| "trace step (Suc k) s = s # (case step s of None \<Rightarrow> [] | Some t \<Rightarrow> trace step k t)"

text \<open>
  A step uses up a hop and adds the place it leaves to the trail; it is not taken from a place
  that is on the trail already.
\<close>

locale hop_limited =
  fixes step :: "'s \<Rightarrow> 's option"
    and hops :: "'s \<Rightarrow> int"
    and trail :: "'s \<Rightarrow> 'a list"
    and place :: "'s \<Rightarrow> 'a"
  assumes hop_used: "step s = Some t \<Longrightarrow> 0 < hops s \<and> hops t = hops s - 1"
    and trail_grows: "step s = Some t \<Longrightarrow> place s \<notin> set (trail s) \<and> trail t = trail s @ [place s]"
begin

lemma trace_short: "int (length (trace step k s)) \<le> max 0 (hops s) + 1"
proof (induction k arbitrary: s)
  case (Suc k)
  show ?case
  proof (cases "step s")
    case (Some t)
    from hop_used [OF Some] Suc.IH [of t] Some show ?thesis by simp
  qed simp
qed simp

lemma trace_trail:
  "trace step k s \<noteq> [] \<Longrightarrow> trail (last (trace step k s)) = trail s @ map place (butlast (trace step k s))"
proof (induction k arbitrary: s)
  case (Suc k)
  show ?case
  proof (cases "step s")
    case (Some t)
    show ?thesis
    proof (cases "trace step k t = []")
      case False
      with Suc.IH [OF False] trail_grows [OF Some] Some show ?thesis by simp
    qed (use Some in simp)
  qed simp
qed simp

lemma trail_distinct:
  "distinct (trail s) \<Longrightarrow> t \<in> set (trace step k s) \<Longrightarrow> distinct (trail t)"
proof (induction k arbitrary: s)
  case (Suc k)
  show ?case
  proof (cases "step s")
    case None
    with Suc.prems show ?thesis by simp
  next
    case (Some u)
    from trail_grows [OF Some] Suc.prems(1) have "distinct (trail u)" by simp
    with Suc Some show ?thesis by auto
  qed
qed simp

lemma places_distinct:
  assumes "distinct (trail s)"
  shows "distinct (map place (butlast (trace step k s)))"
proof (cases "trace step k s = []")
  case False
  from trail_distinct [OF assms last_in_set [OF False]] trace_trail [OF False] show ?thesis
    by simp
qed simp

end

section \<open>Packets in transit\<close>

type_synonym mesh = "string \<Rightarrow> node"

definition emitted :: "node \<Rightarrow> node \<Rightarrow> (nat \<times> MsgPack) list" where
  "emitted n n' = drop (length (n_out n)) (n_out n')"

text \<open>The packet at a node at a time, and its next node; \<open>None\<close> when it arrived or was dropped.\<close>

definition transit_step ::
  "(nat \<Rightarrow> env) \<Rightarrow> (nat \<Rightarrow> mesh) \<Rightarrow> (string \<Rightarrow> nat \<Rightarrow> string) \<Rightarrow> nat \<times> string \<times> MsgPack
     \<Rightarrow> (nat \<times> string \<times> MsgPack) option" where
  "transit_step env N peer = (\<lambda>(i, a, p).
     if \<not> is_remote (N i a) p then None
     else (case emitted (N i a) (snd (on_forwarded (env i) p (N i a))) of
             [] \<Rightarrow> None
           | (ws, q) # _ \<Rightarrow> Some (Suc i, peer a ws, q)))"

definition mesh_ok :: "mesh \<Rightarrow> bool" where
  "mesh_ok M \<longleftrightarrow> (\<forall>a. canon (n_id (M a)) = canon a \<and> cache_ok (M a))"

lemma on_forwarded_emits:
  assumes "cache_ok n" "is_remote n p" "emitted n (snd (on_forwarded env p n)) = (ws, q) # rest"
  shows "0 < ttl p \<and> ttl q = ttl p - 1 \<and> \<not> seen_here n p \<and> path q = path p @ [n_id n]
    \<and> label q = label p \<and> dst q = dst p \<and> data q = data p \<and> service q = service p \<and> meth q = meth p
    \<and> source q = source p \<and> (ptype p = FORWARDED \<longrightarrow> ptype q = FORWARDED)"
proof -
  have live: "\<not> ttl p \<le> 0" "\<not> seen_here n p"
    using assms(3) by (auto simp: on_forwarded_def emitted_def split: if_splits)
  let ?q = "p\<lparr>path := path p @ [n_id n]\<rparr>"
  from assms(2) have "(map_option canon (dst p) = Some (canon (n_id n))) = False"
    by (auto simp: is_remote_def is_local_name_def split: option.splits)
  with live have f: "on_forwarded env p n = forward ?q n"
    by (simp add: on_forwarded_def Let_def del: map_option_eq_Some)
  have hop: "path (hop_out n ?q) = path p @ [n_id n]" by (simp add: hop_out_def)
  obtain r n' where fr: "forward ?q n = (r, n')" by (cases "forward ?q n")
  have "forward_outcome ?q n (r, n')" using forward_outcome_holds [OF assms(1), of ?q] fr by simp
  then consider (out) w x where "n_out n' = n_out n @ [(w, x)]" "x = hop_out n ?q \<or> x = in_transit (hop_out n ?q)"
    | (none) "n_out n' = n_out n"
    unfolding forward_outcome_def by fastforce
  then show ?thesis
  proof cases
    case out
    with assms(3) f fr have "q = hop_out n ?q \<or> q = in_transit (hop_out n ?q)" by (simp add: emitted_def)
    with live hop show ?thesis by (elim disjE) (simp_all add: in_transit_def)
  next
    case none
    with assms(3) f fr show ?thesis by (simp add: emitted_def)
  qed
qed

text \<open>The step function restricted to well-formed meshes, so that the laws hold without a premise.\<close>

definition mesh_transit ::
  "(nat \<Rightarrow> env) \<Rightarrow> (nat \<Rightarrow> mesh) \<Rightarrow> (string \<Rightarrow> nat \<Rightarrow> string) \<Rightarrow> nat \<times> string \<times> MsgPack
     \<Rightarrow> (nat \<times> string \<times> MsgPack) option" where
  "mesh_transit env N peer = (\<lambda>(i, a, p).
     if canon (n_id (N i a)) = canon a \<and> cache_ok (N i a) then transit_step env N peer (i, a, p) else None)"

lemma mesh_transit_ok: "\<forall>i. mesh_ok (N i) \<Longrightarrow> mesh_transit env N peer = transit_step env N peer"
  by (simp add: mesh_transit_def mesh_ok_def fun_eq_iff)

interpretation transit: hop_limited "mesh_transit env N peer" "\<lambda>(i, a, p). ttl p"
  "\<lambda>(i, a, p). map canon (path p)" "\<lambda>(i, a, p). canon a"
proof
  fix s t assume step: "mesh_transit env N peer s = Some t"
  obtain i a p where s: "s = (i, a, p)" by (cases s)
  obtain j b q where t: "t = (j, b, q)" by (cases t)
  from step s t have ok: "canon (n_id (N i a)) = canon a" "cache_ok (N i a)"
    and st: "transit_step env N peer (i, a, p) = Some (j, b, q)"
    by (auto simp: mesh_transit_def split: if_splits)
  from st obtain ws rest where r: "is_remote (N i a) p"
    and e: "emitted (N i a) (snd (on_forwarded (env i) p (N i a))) = (ws, q) # rest"
    by (auto simp: transit_step_def split: if_splits list.splits)
  note f = on_forwarded_emits [OF ok(2) r e]
  show "0 < (case s of (i, a, p) \<Rightarrow> ttl p) \<and> (case t of (i, a, p) \<Rightarrow> ttl p) = (case s of (i, a, p) \<Rightarrow> ttl p) - 1"
    using f by (simp add: s t)
  show "(case s of (i, a, p) \<Rightarrow> canon a) \<notin> set (case s of (i, a, p) \<Rightarrow> map canon (path p))
      \<and> (case t of (i, a, p) \<Rightarrow> map canon (path p)) =
          (case s of (i, a, p) \<Rightarrow> map canon (path p)) @ [case s of (i, a, p) \<Rightarrow> canon a]"
    using f ok(1) by (auto simp: s t seen_here_def)
qed

text \<open>C9: Forwarding terminates in every mesh: whatever the tables of the nodes say, also when they
  contain loops or change while the packet travels, a packet in transit is written at most as often
  as its hop limit allows, and no node forwards it twice.\<close>

theorem transit_terminates:
  assumes "\<forall>i. mesh_ok (N i)" "distinct (map canon (path p))"
  shows "int (length (trace (transit_step env N peer) k (i, a, p))) \<le> max 0 (ttl p) + 1
    \<and> distinct (map (\<lambda>(i, a, p). canon a) (butlast (trace (transit_step env N peer) k (i, a, p))))"
  using transit.trace_short [where env = env and N = N and peer = peer and k = k and s = "(i, a, p)"]
    transit.places_distinct [where env = env and N = N and peer = peer and k = k and s = "(i, a, p)"] assms(2)
  by (simp add: mesh_transit_ok [OF assms(1)])

text \<open>Two nodes that forward everything to each other: the packet is dropped on its return.\<close>

definition ex_loop :: mesh where
  "ex_loop x = (new_node x x 4)\<lparr>n_client := [(''z'', 1)]\<rparr>"

definition ex_loop_peer :: "string \<Rightarrow> nat \<Rightarrow> string" where
  "ex_loop_peer x ws = (if x = ''a'' then ''b'' else ''a'')"

definition ex_lost :: MsgPack where
  "ex_lost = (new_pack FORWARDED ''c'' (Some ''z'') ''l'')\<lparr>path := [''c'']\<rparr>"

theorem transit_terminates_witness:
  "length (trace (transit_step (\<lambda>_. ex_env) (\<lambda>_. ex_loop) ex_loop_peer) 9 (0, ''a'', ex_lost)) = 3
   \<and> distinct (map (\<lambda>(i, a, p). canon a)
       (butlast (trace (transit_step (\<lambda>_. ex_env) (\<lambda>_. ex_loop) ex_loop_peer) 9 (0, ''a'', ex_lost))))"
proof -
  have c: "canon ''z'' = ''z''" by code_simp
  have "\<forall>i. mesh_ok ((\<lambda>_. ex_loop) (i :: nat))" by (simp add: mesh_ok_def ex_loop_def new_node_def cache_ok_def)
  moreover have "distinct (map canon (path ex_lost))" by (simp add: ex_lost_def)
  ultimately have d: "distinct (map (\<lambda>(i, a, p). canon a)
       (butlast (trace (transit_step (\<lambda>_. ex_env) (\<lambda>_. ex_loop) ex_loop_peer) 9 (0, ''a'', ex_lost))))"
    by (rule transit_terminates [THEN conjunct2])
  have "length (trace (transit_step (\<lambda>_. ex_env) (\<lambda>_. ex_loop) ex_loop_peer) 9 (0, ''a'', ex_lost)) = 3"
    by (simp add: eval_nat_numeral transit_step_def is_remote_def is_local_name_def ex_lost_def ex_loop_def
        ex_loop_peer_def new_node_def new_pack_def emitted_def on_forwarded_def seen_here_def forward_def
        ex_canon c ws_send_def hop_out_def Let_def)
  with d show ?thesis by simp
qed

section \<open>The way back of an answer\<close>

definition back_step :: "mesh \<Rightarrow> (string \<Rightarrow> nat \<Rightarrow> string) \<Rightarrow> string \<times> MsgPack \<Rightarrow> (string \<times> MsgPack) option" where
  "back_step M peer = (\<lambda>(a, p).
     case emitted (M a) (snd (on_response p (M a))) of
       [] \<Rightarrow> None
     | (ws, q) # _ \<Rightarrow> Some (peer a ws, q))"

fun travel :: "('s \<Rightarrow> 's option) \<Rightarrow> nat \<Rightarrow> 's \<Rightarrow> 's" where
  "travel step 0 s = s"
| "travel step (Suc k) s = (case step s of None \<Rightarrow> s | Some t \<Rightarrow> travel step k t)"

text \<open>Node \<open>b\<close> has a live socket to node \<open>a\<close>.\<close>

definition live_link :: "mesh \<Rightarrow> (string \<Rightarrow> nat \<Rightarrow> string) \<Rightarrow> string \<Rightarrow> string \<Rightarrow> bool" where
  "live_link M peer b a \<longleftrightarrow>
     (\<exists>ws. socket_of (M b) (canon a) = Some ws \<and> ws \<notin> set (n_dead (M b)) \<and> peer b ws = a)"

definition quiet :: "mesh \<Rightarrow> string \<Rightarrow> string \<Rightarrow> bool" where
  "quiet M lbl a \<longleftrightarrow> canon (n_id (M a)) = canon a \<and> dict_get (n_pending (M a)) lbl = None"

lemma back_step_hop:
  assumes "path r = zs @ [a, b]" "live_link M peer b a" "quiet M (label r) b"
  shows "back_step M peer (b, r) = Some (a, r\<lparr>path := zs @ [a]\<rparr>)"
proof -
  from assms(2) obtain ws where ws: "socket_of (M b) (canon a) = Some ws" "ws \<notin> set (n_dead (M b))" "peer b ws = a"
    by (auto simp: live_link_def)
  have "pop_self (M b) (path r) = zs @ [a]"
    using assms(1,3) by (simp add: pop_self_def is_local_name_def quiet_def butlast_append)
  from route_back_sends [OF this ws(1,2)] obtain c where
    "route_back r (M b) = (Ret (), (M b)\<lparr>n_cache := c, n_out := n_out (M b) @ [(ws, r\<lparr>path := zs @ [a]\<rparr>)]\<rparr>)"
    by blast
  then have "on_response r (M b) = (Ret (), (M b)\<lparr>n_cache := c, n_out := n_out (M b) @ [(ws, r\<lparr>path := zs @ [a]\<rparr>)]\<rparr>)"
    using assms(1,3) by (simp add: on_response_def quiet_def)
  with ws(3) show ?thesis by (simp add: back_step_def emitted_def)
qed

lemma back_step_home:
  assumes "path r = [a]" "quiet M (label r) a"
  shows "on_response r (M a) = resolve_session (label r) (resolve_payload r) (M a)"
    "back_step M peer (a, r) = None"
proof -
  have "pop_self (M a) (path r) = []"
    using assms by (simp add: pop_self_def is_local_name_def quiet_def)
  then show o: "on_response r (M a) = resolve_session (label r) (resolve_payload r) (M a)"
    using assms by (simp add: on_response_def route_back_def quiet_def)
  show "back_step M peer (a, r) = None"
    by (simp add: back_step_def o resolve_session_def act_modify_def emitted_def)
qed

lemma reply_travels_home:
  "xs \<noteq> [] \<Longrightarrow> successively (\<lambda>a b. live_link M peer b a) xs \<Longrightarrow> \<forall>x\<in>set xs. quiet M (label r) x \<Longrightarrow> path r = xs \<Longrightarrow>
     travel (back_step M peer) (length xs) (last xs, r) = (hd xs, r\<lparr>path := [hd xs]\<rparr>)"
proof (induction xs arbitrary: r rule: rev_induct)
  case (snoc b ys)
  show ?case
  proof (cases ys rule: rev_exhaust)
    case Nil
    with snoc.prems back_step_home(2) [of r b M peer] show ?thesis by simp
  next
    case (snoc zs a)
    let ?r = "r\<lparr>path := ys\<rparr>"
    from snoc snoc.prems have step: "back_step M peer (b, r) = Some (a, ?r)"
      using back_step_hop [of r zs a b M peer] by (simp add: successively_append_iff)
    have "travel (back_step M peer) (length ys) (last ys, ?r) = (hd ys, ?r\<lparr>path := [hd ys]\<rparr>)"
      by (rule snoc.IH) (use snoc snoc.prems in \<open>simp_all add: successively_append_iff\<close>)
    moreover have "ys \<noteq> []" using snoc by simp
    then have "hd (ys @ [b]) = hd ys" by (rule hd_append2)
    moreover have "last ys = a" using snoc by simp
    ultimately show ?thesis using step by simp
  qed
qed simp

text \<open>C6: A remote call comes back to its caller. When a forwarded request reaches its destination over a
  path of nodes whose links are still up, the destination answers it with the value of the method;
  the answer retraces the path, node by node, to the first node of the path, and there it completes
  the session of the request with that value.\<close>

theorem rpc_reply_reaches_caller:
  assumes "path q = xs" "xs \<noteq> []" "dst q = Some d" "0 < ttl q" "canon d \<notin> set (map canon xs)"
    "successively (\<lambda>a b. live_link M peer b a) (xs @ [d])" "\<forall>x\<in>set (xs @ [d]). quiet M (label q) x"
    "execute (e_invoke env) (e_fresh env) (n_services (M d)) (q\<lparr>path := xs @ [n_id (M d)], ptype := REQUEST\<rparr>) = Inr (Response r)"
    "waits_on (n_sessions (M (hd xs))) (label q) = Some f" "fut_state (n_sessions (M (hd xs))) f = Some Pending"
  shows "\<exists>n' ws a. on_forwarded env q (M d) = (Ret (), n') \<and> emitted (M d) n' = [(ws, a)] \<and> peer d ws = last xs
    \<and> (\<exists>b n2. travel (back_step M peer) (length xs) (last xs, a) = (hd xs, b)
         \<and> on_response b (M (hd xs)) = (Ret (), n2)
         \<and> fut_state (n_sessions n2) f = Some (Done (data r)) \<and> waits_on (n_sessions n2) (label q) = None)"
proof -
  let ?n = "M d" and ?p = "q\<lparr>path := xs @ [n_id (M d)], ptype := REQUEST\<rparr>"
  have qd: "canon (n_id ?n) = canon d" using assms(7) by (simp add: quiet_def)
  have here: "on_forwarded env q ?n = on_request env ?p ?n"
    using assms(1,3,4,5) qd by (simp add: on_forwarded_def seen_here_def Let_def)
  obtain zs h where xs: "xs = zs @ [h]" using assms(2) by (cases xs rule: rev_exhaust) auto
  have pop: "pop_self ?n (xs @ [n_id ?n]) = xs" by (simp add: pop_self_def is_local_name_def)
  from assms(6) have "live_link M peer d h" by (simp add: xs successively_append_iff)
  then obtain ws where ws: "socket_of ?n (canon h) = Some ws" "ws \<notin> set (n_dead ?n)" "peer d ws = h"
    by (auto simp: live_link_def)
  have rp: "ptype r = RESPONSE" "label r = label q" using execute_response [OF assms(8)] by simp_all
  let ?a = "r\<lparr>path := xs\<rparr>"
  have "pop_self ?n (path (r\<lparr>path := path ?p\<rparr>)) = zs @ [h]" using pop xs by simp
  from send_pack_sends [OF this ws(1,2)] obtain c where
    "send_pack (r\<lparr>path := path ?p\<rparr>) ?n = (Ret (), ?n\<lparr>n_cache := c, n_out := n_out ?n @ [(ws, ?a)]\<rparr>)"
    using xs by auto
  then have req: "on_forwarded env q ?n = (Ret (), ?n\<lparr>n_cache := c, n_out := n_out ?n @ [(ws, ?a)]\<rparr>)"
    unfolding here by (simp add: on_request_def request_body_def act_catch_def assms(8))
  have links: "successively (\<lambda>a b. live_link M peer b a) xs" using assms(6) by (simp add: successively_append_iff)
  have q: "\<forall>x\<in>set xs. quiet M (label ?a) x" using assms(7) rp by simp
  have home: "travel (back_step M peer) (length xs) (last xs, ?a) = (hd xs, ?a\<lparr>path := [hd xs]\<rparr>)"
    by (rule reply_travels_home [OF assms(2) links q]) simp
  let ?b = "?a\<lparr>path := [hd xs]\<rparr>"
  have "quiet M (label ?b) (hd xs)" using q assms(2) by simp
  from back_step_home(1) [OF _ this] have fin: "on_response ?b (M (hd xs))
      = (Ret (), (M (hd xs))\<lparr>n_sessions := resolve (label q) (data r) (n_sessions (M (hd xs)))\<rparr>)"
    using rp by (simp add: resolve_session_def act_modify_def resolve_payload_def)
  show ?thesis
  proof (intro exI conjI)
    show "on_forwarded env q ?n = (Ret (), ?n\<lparr>n_cache := c, n_out := n_out ?n @ [(ws, ?a)]\<rparr>)" by (rule req)
    show "emitted ?n (?n\<lparr>n_cache := c, n_out := n_out ?n @ [(ws, ?a)]\<rparr>) = [(ws, ?a)]" by (simp add: emitted_def)
    show "peer d ws = last xs" by (simp add: ws(3) xs)
    show "travel (back_step M peer) (length xs) (last xs, ?a) = (hd xs, ?b)" by (rule home)
    show "on_response ?b (M (hd xs)) = (Ret (), (M (hd xs))\<lparr>n_sessions := resolve (label q) (data r) (n_sessions (M (hd xs)))\<rparr>)"
      by (rule fin)
    show "fut_state (n_sessions ((M (hd xs))\<lparr>n_sessions := resolve (label q) (data r) (n_sessions (M (hd xs)))\<rparr>)) f
        = Some (Done (data r))"
      using assms(9,10) by (simp add: fut_resolve)
    show "waits_on (n_sessions ((M (hd xs))\<lparr>n_sessions := resolve (label q) (data r) (n_sessions (M (hd xs)))\<rparr>)) (label q) = None"
      using assms(9,10) by (simp add: waits_on_resolve)
  qed
qed

text \<open>A line of three nodes: \<open>a\<close> calls \<open>c\<close> through \<open>b\<close>.\<close>

definition ex_line :: mesh where
  "ex_line x =
     (if x = ''a'' then (new_node ''a'' ''a'' 4)\<lparr>n_nodes := [(''b'', 1)],
          n_sessions := snd (register_single ''l'' (Some ''util'') (Some ''echo'') new_sessions)\<rparr>
      else if x = ''b'' then (new_node ''b'' ''b'' 4)\<lparr>n_nodes := [(''a'', 1), (''c'', 2)]\<rparr>
      else (new_node x x 4)\<lparr>n_nodes := [(''b'', 1)],
          n_services := register_method ex_svc ''echo'' (Bound ''util'' ''echo'' True) []\<rparr>)"

definition ex_line_peer :: "string \<Rightarrow> nat \<Rightarrow> string" where
  "ex_line_peer x ws = (if x = ''b'' then (if ws = 1 then ''a'' else ''c'') else ''b'')"

definition ex_arrived :: MsgPack where
  "ex_arrived = (new_pack FORWARDED ''a'' (Some ''c'') ''l'')
     \<lparr>service := Some ''util'', meth := Some ''echo'', data := PInt 7, path := [''a'', ''b''], ttl := 14\<rparr>"

theorem rpc_reply_reaches_caller_witness:
  "\<exists>n' ws a b n2. on_forwarded ex_env ex_arrived (ex_line ''c'') = (Ret (), n') \<and> emitted (ex_line ''c'') n' = [(ws, a)]
     \<and> travel (back_step ex_line ex_line_peer) 2 (''b'', a) = (''a'', b)
     \<and> on_response b (ex_line ''a'') = (Ret (), n2) \<and> fut_state (n_sessions n2) 0 = Some (Done (PList [PInt 7]))"
proof -
  have p: "path ex_arrived = [''a'', ''b'']" "dst ex_arrived = Some ''c''" "0 < ttl ex_arrived" "label ex_arrived = ''l''"
    by (simp_all add: ex_arrived_def new_pack_def)
  have n: "canon ''c'' \<notin> set (map canon [''a'', ''b''])" by (simp add: ex_canon)
  have links: "successively (\<lambda>a b. live_link ex_line ex_line_peer b a) ([''a'', ''b''] @ [''c''])"
    by (simp add: live_link_def ex_line_def ex_line_peer_def socket_of_def new_node_def ex_canon)
  have q: "\<forall>x\<in>set ([''a'', ''b''] @ [''c'']). quiet ex_line (label ex_arrived) x"
    by (simp add: quiet_def ex_line_def new_node_def)
  have r: "\<exists>r. execute (e_invoke ex_env) (e_fresh ex_env) (n_services (ex_line ''c''))
      (ex_arrived\<lparr>path := [''a'', ''b''] @ [n_id (ex_line ''c'')], ptype := REQUEST\<rparr>) = Inr (Response r)
      \<and> data r = PList [PInt 7]"
    by (simp add: execute_def find_method_def get_method_def mgr_get_def ex_line_def register_method_def
        mgr_set_def ex_svc_def dict_set_simps get_default_def ex_arrived_def ex_env_def response_pack_def
        new_pack_def)
  then obtain r where r: "execute (e_invoke ex_env) (e_fresh ex_env) (n_services (ex_line ''c''))
      (ex_arrived\<lparr>path := [''a'', ''b''] @ [n_id (ex_line ''c'')], ptype := REQUEST\<rparr>) = Inr (Response r)"
    and v: "data r = PList [PInt 7]" by blast
  have f: "waits_on (n_sessions (ex_line (hd [''a'', ''b'']))) (label ex_arrived) = Some 0"
    "fut_state (n_sessions (ex_line (hd [''a'', ''b'']))) 0 = Some Pending"
    using p by (simp_all add: ex_line_def new_sessions_def)
  from rpc_reply_reaches_caller [OF p(1) _ p(2,3) n links q r f] v show ?thesis
    by (simp add: numeral_2_eq_2) blast
qed

end
