(* ===== verification/Pump.thy ===== *)
theory Pump
  imports Router_Facts
begin

text \<open>
  The outbound side of a stream: \<open>PipeTransport\<close> of \<open>internal_modules/memory.py\<close>. Its task opens the
  stream, then pumps the chunks of a local pipe to the peer in batches of the pipe's size, one
  acknowledgement per batch. The task is a step function over its waits: it advances, a wait ends
  with its time limit, the producer changes the pipe, or the rest of the node changes.
\<close>

section \<open>State\<close>

datatype pump_phase = Opening | Pumping | Awaiting | Ended

record pump =
  pt_tpl :: MsgPack
  pt_size :: int
  pt_phase :: pump_phase
  pt_fut :: nat
  pt_sent :: int
  pt_pipe :: pipe

datatype pump_obs = Took pyval | Acked | Gave_up | Ready | Stored item | Broke exn

section \<open>Opening\<close>

definition open_pack :: "env \<Rightarrow> MsgPack \<Rightarrow> MsgPack" where
  "open_pack env t =
     (new_pack STREAM_OPEN (source t) (dst t) (e_fresh env))
       \<lparr>service := service t, meth := meth t, label := label t, data := data t, path := [source t], ttl := 16\<rparr>"

text \<open>The session is registered before the packet leaves; an error of the router ends the task.\<close>

definition pump_start :: "env \<Rightarrow> MsgPack \<Rightarrow> pipe \<Rightarrow> node \<Rightarrow> pump_obs list \<times> pump \<times> node" where
  "pump_start env t q n =
     (let (f, st) = register_single (label t) (service t) (Some (opt_text (meth t))) (n_sessions n);
          u = \<lparr>pt_tpl = t, pt_size = p_buff q, pt_phase = Opening, pt_fut = f, pt_sent = 0, pt_pipe = q\<rparr>
      in case forward (open_pack env t) (n\<lparr>n_sessions := st\<rparr>) of
           (Raise x, n') \<Rightarrow> ([Broke x], u\<lparr>pt_phase := Ended\<rparr>, n')
         | (_, n') \<Rightarrow> ([], u, n'))"

definition await_batch :: "pump \<Rightarrow> node \<Rightarrow> pump \<times> node" where
  "await_batch u n =
     (let (f, st) = register_single (ack_label (label (pt_tpl u))) (Some []) (Some []) (n_sessions n)
      in (u\<lparr>pt_phase := Pumping, pt_fut := f, pt_sent := 0\<rparr>, n\<lparr>n_sessions := st\<rparr>))"

section \<open>Pumping\<close>

definition out_chunk :: "MsgPack \<Rightarrow> pyval \<Rightarrow> MsgPack" where
  "out_chunk t v = (new_pack STREAM_CHUNK (source t) (dst t) [])\<lparr>label := label t, data := v\<rparr>"

definition out_eof :: "MsgPack \<Rightarrow> MsgPack" where
  "out_eof t = (new_pack STREAM_EOF (source t) (dst t) [])\<lparr>label := label t\<rparr>"

definition out_error :: "(exn \<Rightarrow> string) \<Rightarrow> MsgPack \<Rightarrow> exn \<Rightarrow> MsgPack" where
  "out_error str t e =
     (new_pack ERROR (source t) (dst t) [])\<lparr>label := label t, error := Some (''producer failed: '' @ str e)\<rparr>"

text \<open>After the loop: the open acknowledgement is dropped, then the failure or the end is sent.\<close>

definition pump_finish :: "(exn \<Rightarrow> string) \<Rightarrow> pump \<Rightarrow> node \<Rightarrow> pump_obs list \<times> pump \<times> node" where
  "pump_finish str u n =
     (let t = pt_tpl u;
          n1 = n\<lparr>n_sessions := cancel (ack_label (label t)) (n_sessions n)\<rparr>;
          last = (case p_error (pt_pipe u) of Some e \<Rightarrow> out_error str t e | None \<Rightarrow> out_eof t)
      in case send_pack last n1 of
           (Raise x, n2) \<Rightarrow> ([Broke x], u\<lparr>pt_phase := Ended\<rparr>, n2)
         | (_, n2) \<Rightarrow> ([], u\<lparr>pt_phase := Ended\<rparr>, n2))"

text \<open>An exception in the loop: of a failed producer it is reported, any other ends the task.\<close>

definition pump_broke :: "(exn \<Rightarrow> string) \<Rightarrow> exn \<Rightarrow> pump \<Rightarrow> node \<Rightarrow> pump_obs list \<times> pump \<times> node" where
  "pump_broke str x u n =
     (if pipe_failed (pt_pipe u) then pump_finish str u n else ([Broke x], u\<lparr>pt_phase := Ended\<rparr>, n))"

definition pump_chunk :: "(exn \<Rightarrow> string) \<Rightarrow> pyval \<Rightarrow> pump \<Rightarrow> node \<Rightarrow> pump_obs list \<times> pump \<times> node" where
  "pump_chunk str v u n =
     (case send_pack (out_chunk (pt_tpl u) v) n of
        (Raise x, n1) \<Rightarrow> (let (os, r) = pump_broke str x u n1 in (Took v # os, r))
      | (_, n1) \<Rightarrow>
          (let k = pt_sent u + 1
           in ([Took v], u\<lparr>pt_sent := k, pt_phase := (if k \<ge> pt_size u then Awaiting else Pumping)\<rparr>, n1)))"

datatype pump_event =
    P_advance
  | P_limit              \<comment> \<open>the current wait reaches its time limit\<close>
  | P_put item
  | P_fail exn
  | P_close
  | P_node node          \<comment> \<open>other tasks changed the node\<close>

definition pump_advance :: "(exn \<Rightarrow> string) \<Rightarrow> pump \<Rightarrow> node \<Rightarrow> pump_obs list \<times> pump \<times> node" where
  "pump_advance str u n =
     (case pt_phase u of
        Ended \<Rightarrow> ([], u, n)
      | Opening \<Rightarrow>
          (case fut_state (n_sessions n) (pt_fut u) of
             Some (Done (PExc e)) \<Rightarrow> ([], u\<lparr>pt_phase := Ended\<rparr>, n)
           | Some (Done v) \<Rightarrow> (let (u', n') = await_batch u n in ([Ready], u', n'))
           | Some Cancelled \<Rightarrow> ([Broke CancelledError], u\<lparr>pt_phase := Ended\<rparr>, n)
           | _ \<Rightarrow> ([], u, n))
      | Awaiting \<Rightarrow>
          (case fut_state (n_sessions n) (pt_fut u) of
             Some (Done v) \<Rightarrow> (let (u', n') = await_batch u n in ([Acked], u', n'))
           | Some Cancelled \<Rightarrow> ([Broke CancelledError], u\<lparr>pt_phase := Ended\<rparr>, n)
           | _ \<Rightarrow> ([], u, n))
      | Pumping \<Rightarrow>
          (case pipe_next (pt_pipe u) of
             (Ret v, q) \<Rightarrow> pump_chunk str v (u\<lparr>pt_pipe := q\<rparr>) n
           | (Raise x, q) \<Rightarrow>
               if x = StopAsyncIteration then pump_finish str (u\<lparr>pt_pipe := q\<rparr>) n
               else pump_broke str x (u\<lparr>pt_pipe := q\<rparr>) n
           | (Suspended, q) \<Rightarrow> ([], u, n)))"

text \<open>The limit of the opening just ends the task; the limit of an acknowledgement ends the loop.\<close>

definition pump_limit :: "(exn \<Rightarrow> string) \<Rightarrow> pump \<Rightarrow> node \<Rightarrow> pump_obs list \<times> pump \<times> node" where
  "pump_limit str u n =
     (let n' = n\<lparr>n_sessions := expire (pt_fut u) (n_sessions n)\<rparr>
      in case pt_phase u of
           Opening \<Rightarrow> ([Gave_up], u\<lparr>pt_phase := Ended\<rparr>, n')
         | Awaiting \<Rightarrow> (let (os, r) = pump_finish str u n' in (Gave_up # os, r))
         | _ \<Rightarrow> ([], u, n))"

fun pump_step :: "(exn \<Rightarrow> string) \<Rightarrow> pump_event \<Rightarrow> pump \<times> node \<Rightarrow> pump_obs list \<times> pump \<times> node" where
  "pump_step str P_advance (u, n) = pump_advance str u n"
| "pump_step str P_limit (u, n) = pump_limit str u n"
| "pump_step str (P_put x) (u, n) =
     (case pipe_put x (pt_pipe u) of
        (Ret _, q) \<Rightarrow> ([Stored x], u\<lparr>pt_pipe := q\<rparr>, n)
      | (_, q) \<Rightarrow> ([], u, n))"
| "pump_step str (P_fail e) (u, n) =
     (if pipe_full (pt_pipe u) then [] else [Stored Sentinel], u\<lparr>pt_pipe := pipe_fail e (pt_pipe u)\<rparr>, n)"
| "pump_step str P_close (u, n) = ([], u\<lparr>pt_pipe := pipe_close (pt_pipe u)\<rparr>, n)"
| "pump_step str (P_node n') (u, n) = ([], u, n')"

fun pump_run :: "(exn \<Rightarrow> string) \<Rightarrow> pump_event list \<Rightarrow> pump \<times> node \<Rightarrow> pump_obs list \<times> pump \<times> node" where
  "pump_run str [] s = ([], s)"
| "pump_run str (e # es) s =
     (let (os, s1) = pump_step str e s; (os', s2) = pump_run str es s1 in (os @ os', s2))"

section \<open>The window and the order of a stream\<close>

fun taken :: "pump_obs list \<Rightarrow> pyval list" where
  "taken [] = []"
| "taken (Took v # os) = v # taken os"
| "taken (_ # os) = taken os"

fun stored :: "pump_obs list \<Rightarrow> item list" where
  "stored [] = []"
| "stored (Stored x # os) = x # stored os"
| "stored (_ # os) = stored os"

definition acks :: "pump_obs list \<Rightarrow> nat" where
  "acks os = length (filter (\<lambda>x. x = Acked) os)"

lemma obs_append [simp]:
  "taken (xs @ ys) = taken xs @ taken ys" "stored (xs @ ys) = stored xs @ stored ys" "acks (xs @ ys) = acks xs + acks ys"
proof -
  show "taken (xs @ ys) = taken xs @ taken ys" by (induction xs rule: taken.induct) simp_all
  show "stored (xs @ ys) = stored xs @ stored ys" by (induction xs rule: stored.induct) simp_all
qed (simp add: acks_def)

lemma acks_simps [simp]: "acks [] = 0" "acks (x # os) = (if x = Acked then 1 else 0) + acks os"
  by (simp_all add: acks_def)

text \<open>
  What a pump that observed \<open>os\<close> since it was opened looks like. While it is open the items that were
  put are those taken followed by those queued; the batch counter is what was taken since the last
  acknowledgement.
\<close>

definition pump_inv :: "pump_obs list \<Rightarrow> pump \<Rightarrow> bool" where
  "pump_inv os u \<longleftrightarrow>
     prefix (map Chunk (taken os)) (stored os)
     \<and> int (length (taken os)) \<le> pt_size u * (int (acks os) + 1)
     \<and> (pt_phase u \<noteq> Ended \<longrightarrow> stored os = map Chunk (taken os) @ p_queue (pt_pipe u)
          \<and> int (length (taken os)) = pt_size u * int (acks os) + pt_sent u)
     \<and> (pt_phase u = Opening \<longrightarrow> taken os = [] \<and> acks os = 0 \<and> pt_sent u = 0)
     \<and> (pt_phase u = Pumping \<longrightarrow> pt_sent u < pt_size u)
     \<and> (pt_phase u = Awaiting \<longrightarrow> pt_sent u = pt_size u)"

lemma finish_facts:
  assumes "pump_finish str u n = (os, u', n')"
  shows "u' = u\<lparr>pt_phase := Ended\<rparr>" "taken os = []" "stored os = []" "acks os = 0"
  using assms by (auto simp: pump_finish_def Let_def split: prod.splits outcome.splits)

lemma broke_facts:
  assumes "pump_broke str x u n = (os, u', n')"
  shows "u' = u\<lparr>pt_phase := Ended\<rparr>" "taken os = []" "stored os = []" "acks os = 0"
  using assms finish_facts by (auto simp: pump_broke_def split: if_splits)

lemma await_facts:
  assumes "await_batch u n = (u', n')"
  shows "pt_phase u' = Pumping" "pt_sent u' = 0" "pt_pipe u' = pt_pipe u" "pt_size u' = pt_size u"
  using assms by (auto simp: await_batch_def split: prod.splits)

lemma chunk_facts:
  assumes "pump_chunk str v u n = (os, u', n')"
  obtains "os = [Took v]" "u' = u\<lparr>pt_sent := pt_sent u + 1, pt_phase := (if pt_sent u + 1 \<ge> pt_size u then Awaiting else Pumping)\<rparr>"
  | "taken os = [v]" "stored os = []" "acks os = 0" "u' = u\<lparr>pt_phase := Ended\<rparr>"
proof (cases "send_pack (out_chunk (pt_tpl u) v) n")
  case (Pair r n1)
  show ?thesis
  proof (cases r)
    case (Raise x)
    obtain os1 u1 n2 where b: "pump_broke str x u n1 = (os1, u1, n2)" by (cases "pump_broke str x u n1")
    have "os = Took v # os1" "u' = u1" using assms by (simp_all add: pump_chunk_def Pair Raise b)
    with broke_facts [OF b] that(2) show ?thesis by simp
  qed (use assms that(1) in \<open>simp_all add: pump_chunk_def Pair Let_def\<close>)
qed

lemma pipe_next_chunk:
  assumes "pipe_next q = (Ret v, q')"
  shows "p_queue q = Chunk v # p_queue q'"
  using assms by (auto simp: pipe_next_def pipe_get_def split: if_splits list.splits item.splits)

lemma inv_ended:
  "pump_inv os u \<Longrightarrow> taken os' = [] \<Longrightarrow> stored os' = [] \<Longrightarrow> acks os' = 0 \<Longrightarrow> pt_size u' = pt_size u \<Longrightarrow> pt_phase u' = Ended \<Longrightarrow>
     pump_inv (os @ os') u'"
  by (simp add: pump_inv_def)

lemma inv_await:
  assumes "pump_inv os u" "pt_phase u = Opening \<and> o' = Ready \<or> pt_phase u = Awaiting \<and> o' = Acked"
    "await_batch u n = (u', n')" "0 < pt_size u"
  shows "pump_inv (os @ [o']) u'"
  using assms(2)
proof (elim disjE conjE)
  assume "pt_phase u = Opening" "o' = Ready"
  then show ?thesis using assms(1,4) await_facts [OF assms(3)] by (simp add: pump_inv_def)
next
  assume "pt_phase u = Awaiting" "o' = Acked"
  then show ?thesis using assms(1,4) await_facts [OF assms(3)] by (simp add: pump_inv_def algebra_simps)
qed

lemma inv_chunk:
  assumes inv: "pump_inv os u" and ph: "pt_phase u = Pumping" and q: "pipe_next (pt_pipe u) = (Ret v, q)"
    and c: "pump_chunk str v (u\<lparr>pt_pipe := q\<rparr>) n = (os', u', n')"
  shows "pump_inv (os @ os') u'"
proof -
  have st: "stored os = map Chunk (taken os) @ Chunk v # p_queue q"
    using inv ph pipe_next_chunk [OF q] by (simp add: pump_inv_def)
  then have pre: "prefix (map Chunk (taken os) @ [Chunk v]) (stored os)" by simp
  have n: "int (length (taken os)) = pt_size u * int (acks os) + pt_sent u" "pt_sent u < pt_size u"
    using inv ph by (simp_all add: pump_inv_def)
  then have b: "int (length (taken os)) + 1 \<le> pt_size u * (int (acks os) + 1)" by (simp add: algebra_simps)
  from c show ?thesis
  proof (cases rule: chunk_facts)
    case 1
    then show ?thesis using st pre n b by (auto simp: pump_inv_def)
  next
    case 2
    then show ?thesis using pre b by (simp add: pump_inv_def)
  qed
qed

lemma inv_advance:
  assumes inv: "pump_inv os u" and pos: "0 < pt_size u" and a: "pump_advance str u n = (os', u', n')"
  shows "pump_inv (os @ os') u'"
proof (cases "pt_phase u")
  case Ended
  with inv a show ?thesis by (simp add: pump_advance_def)
next
  case Pumping
  obtain r q where q: "pipe_next (pt_pipe u) = (r, q)" by (cases "pipe_next (pt_pipe u)")
  show ?thesis
  proof (cases r)
    case (Ret v)
    with a Pumping q have "pump_chunk str v (u\<lparr>pt_pipe := q\<rparr>) n = (os', u', n')" by (simp add: pump_advance_def)
    with inv_chunk [OF inv Pumping q [unfolded Ret]] show ?thesis by blast
  next
    case (Raise x)
    with a Pumping q have "pump_finish str (u\<lparr>pt_pipe := q\<rparr>) n = (os', u', n') \<or> pump_broke str x (u\<lparr>pt_pipe := q\<rparr>) n = (os', u', n')"
      by (simp add: pump_advance_def split: if_splits)
    then show ?thesis
    proof
      assume "pump_finish str (u\<lparr>pt_pipe := q\<rparr>) n = (os', u', n')"
      from finish_facts [OF this] show ?thesis by (intro inv_ended [OF inv]) simp_all
    next
      assume "pump_broke str x (u\<lparr>pt_pipe := q\<rparr>) n = (os', u', n')"
      from broke_facts [OF this] show ?thesis by (intro inv_ended [OF inv]) simp_all
    qed
  next
    case Suspended
    with a Pumping q inv show ?thesis by (simp add: pump_advance_def)
  qed
next
  case Opening
  obtain u1 n1 where w: "await_batch u n = (u1, n1)" by (cases "await_batch u n")
  from a Opening w have "os' = [Ready] \<and> u' = u1 \<or> os' = [] \<and> u' = u
      \<or> taken os' = [] \<and> stored os' = [] \<and> acks os' = 0 \<and> u' = u\<lparr>pt_phase := Ended\<rparr>"
    by (auto simp: pump_advance_def split: option.splits fut.splits pyval.splits)
  then show ?thesis
    using inv_await [OF inv _ w pos, of Ready] Opening inv inv_ended [OF inv, of os' u'] by auto
next
  case Awaiting
  obtain u1 n1 where w: "await_batch u n = (u1, n1)" by (cases "await_batch u n")
  from a Awaiting w have "os' = [Acked] \<and> u' = u1 \<or> os' = [] \<and> u' = u
      \<or> taken os' = [] \<and> stored os' = [] \<and> acks os' = 0 \<and> u' = u\<lparr>pt_phase := Ended\<rparr>"
    by (auto simp: pump_advance_def split: option.splits fut.splits pyval.splits)
  then show ?thesis
    using inv_await [OF inv _ w pos, of Acked] Awaiting inv inv_ended [OF inv, of os' u'] by auto
qed

lemma inv_limit:
  assumes inv: "pump_inv os u" and a: "pump_limit str u n = (os', u', n')"
  shows "pump_inv (os @ os') u'"
proof -
  let ?n = "n\<lparr>n_sessions := expire (pt_fut u) (n_sessions n)\<rparr>"
  obtain os1 u1 n1 where f: "pump_finish str u ?n = (os1, u1, n1)" by (cases "pump_finish str u ?n")
  from a f have "os' = [] \<and> u' = u \<or> os' = [Gave_up] \<and> u' = u\<lparr>pt_phase := Ended\<rparr> \<or> os' = Gave_up # os1 \<and> u' = u1"
    by (auto simp: pump_limit_def Let_def split: pump_phase.splits)
  then show ?thesis
    using inv finish_facts [OF f] by (elim disjE conjE) (simp, (rule inv_ended [OF inv]; simp)+)
qed

lemma inv_producer:
  assumes inv: "pump_inv os u"
  shows "pipe_put x (pt_pipe u) = (Ret r, q) \<Longrightarrow> pump_inv (os @ [Stored x]) (u\<lparr>pt_pipe := q\<rparr>)"
    and "pump_inv (os @ (if pipe_full (pt_pipe u) then [] else [Stored Sentinel])) (u\<lparr>pt_pipe := pipe_fail e (pt_pipe u)\<rparr>)"
  using inv by (auto simp: pump_inv_def pipe_put_def pipe_fail_fields split: if_splits intro: prefix_prefix)

lemma advance_size:
  "pump_step str ev (u, n) = (os, u', n') \<Longrightarrow> pt_size u' = pt_size u"
proof (cases ev)
  case P_advance
  assume "pump_step str ev (u, n) = (os, u', n')"
  with P_advance show ?thesis
    by (auto simp: pump_advance_def split: pump_phase.splits option.splits fut.splits pyval.splits prod.splits outcome.splits if_splits
        dest!: finish_facts(1) broke_facts(1) await_facts(4) elim!: chunk_facts)
next
  case P_limit
  assume "pump_step str ev (u, n) = (os, u', n')"
  with P_limit show ?thesis
    by (auto simp: pump_limit_def Let_def split: pump_phase.splits prod.splits dest!: finish_facts(1))
qed (auto split: prod.splits outcome.splits)

lemma step_inv:
  assumes "pump_inv os u" "0 < pt_size u" "pump_step str ev (u, n) = (os', u', n')"
  shows "pump_inv (os @ os') u' \<and> 0 < pt_size u'"
proof -
  have "pump_inv (os @ os') u'"
  proof (cases ev)
    case P_advance
    with assms show ?thesis by (auto intro: inv_advance)
  next
    case P_limit
    with assms show ?thesis by (auto intro: inv_limit)
  next
    case (P_put x)
    with assms show ?thesis by (auto split: prod.splits outcome.splits intro: inv_producer)
  next
    case (P_fail e)
    with assms(3) inv_producer(2) [OF assms(1), of e] show ?thesis by (simp split: if_splits)
  next
    case P_close
    with assms(1,3) show ?thesis by (auto simp: pump_inv_def)
  next
    case (P_node m)
    with assms(1,3) show ?thesis by simp
  qed
  with advance_size [OF assms(3)] assms(2) show ?thesis by simp
qed

lemma run_inv:
  "pump_inv os u \<Longrightarrow> 0 < pt_size u \<Longrightarrow> pump_run str es (u, n) = (os', u', n') \<Longrightarrow> pump_inv (os @ os') u' \<and> pt_size u' = pt_size u"
proof (induction es arbitrary: os u n os')
  case (Cons e es)
  obtain o1 u1 n1 where s: "pump_step str e (u, n) = (o1, u1, n1)" by (cases "pump_step str e (u, n)")
  obtain o2 where r: "pump_run str es (u1, n1) = (o2, u', n')" "os' = o1 @ o2"
    using Cons.prems(3) s by (auto simp: Let_def split: prod.splits)
  from step_inv [OF Cons.prems(1,2) s] Cons.IH [OF _ _ r(1), of "os @ o1"] r(2) advance_size [OF s]
  show ?case by simp
qed simp

text \<open>The window of an outbound stream: over any interleaving of the pump with the producer, the rest of
  the node and its time limits, the chunks taken from the pipe are the first ones the producer put, in
  order, and never more than one batch of them is taken beyond the batches that were acknowledged.\<close>

theorem pump_window:
  assumes "pump_start env t q n = (os0, u, n0)" "p_queue q = []" "0 < p_buff q"
    "pump_run str es (u, n0) = (os, u', n')"
  shows "prefix (map Chunk (taken os)) (stored os) \<and> int (length (taken os)) \<le> p_buff q * (int (acks os) + 1)"
proof -
  have u: "pt_pipe u = q" "pt_size u = p_buff q" "pt_sent u = 0" "pt_phase u \<in> {Opening, Ended}"
    using assms(1) by (auto simp: pump_start_def Let_def split: prod.splits outcome.splits)
  then have "pump_inv [] u" using assms(2,3) by (auto simp: pump_inv_def)
  from run_inv [OF this _ assms(4)] have "pump_inv os u'" "pt_size u' = p_buff q"
    using u assms(3) by simp_all
  then show ?thesis by (simp add: pump_inv_def)
qed

definition ex_tpl :: MsgPack where
  "ex_tpl = (new_pack STREAM_OPEN ''b'' (Some ''c'') ''s1'')\<lparr>service := Some ''work'', meth := Some ''range''\<rparr>"

definition ex_pumping :: "pump_event list" where
  "ex_pumping = [P_put (Chunk (PInt 1)), P_put (Chunk (PInt 2)),
     P_node ((new_node ''b'' ''bee'' 4)\<lparr>n_nodes := [(''c'', 2)], n_sessions := resolve ''s1'' (PStr ''ready'')
       (snd (register_single ''s1'' (Some ''work'') (Some ''range'') new_sessions))\<rparr>), P_advance, P_advance, P_advance]"

theorem pump_window_witness:
  "\<exists>os u' n'. pump_run (\<lambda>_. ''boom'') ex_pumping (snd (pump_start ex_env ex_tpl (new_pipe ''w'' 1) ex_relay)) = (os, u', n')
     \<and> taken os = [PInt 1] \<and> int (length (taken os)) \<le> 1 * (int (acks os) + 1)"
proof -
  obtain os0 u n0 where s: "pump_start ex_env ex_tpl (new_pipe ''w'' 1) ex_relay = (os0, u, n0)"
    by (cases "pump_start ex_env ex_tpl (new_pipe ''w'' 1) ex_relay")
  obtain os u' n' where r: "pump_run (\<lambda>_. ''boom'') ex_pumping (u, n0) = (os, u', n')"
    by (cases "pump_run (\<lambda>_. ''boom'') ex_pumping (u, n0)")
  have "taken (fst (pump_run (\<lambda>_. ''boom'') ex_pumping (snd (pump_start ex_env ex_tpl (new_pipe ''w'' 1) ex_relay)))) = [PInt 1]"
    by code_simp
  then have "taken os = [PInt 1]" using s r by simp
  with pump_window [OF s _ _ r] s r show ?thesis by simp
qed

text \<open>A lost acknowledgement looks like a success to the consumer: when the wait for it reaches its
  limit, the pump ends the stream with the regular end-of-stream packet, whatever chunks are still
  queued behind it and lost.\<close>

theorem pump_limit_ends_as_success:
  assumes "pt_phase u = Awaiting" "p_error (pt_pipe u) = None" "dst (pt_tpl u) = Some d"
    "socket_of n (canon d) = Some ws" "ws \<notin> set (n_dead n)"
  shows "\<exists>q n'. pump_limit str u n = ([Gave_up], u\<lparr>pt_phase := Ended\<rparr>, n') \<and> n_out n' = n_out n @ [(ws, q)]
    \<and> ptype q = STREAM_EOF \<and> label q = label (pt_tpl u) \<and> error q = None"
proof -
  let ?n = "n\<lparr>n_sessions := cancel (ack_label (label (pt_tpl u))) (expire (pt_fut u) (n_sessions n))\<rparr>"
  have so: "socket_of ?n (canon d) = Some ws" "ws \<notin> set (n_dead ?n)"
    using assms(4,5) by (simp_all add: socket_of_def split: option.splits)
  have eof: "dst (out_eof (pt_tpl u)) = Some d" "path (out_eof (pt_tpl u)) = []" "ptype (out_eof (pt_tpl u)) = STREAM_EOF"
    "label (out_eof (pt_tpl u)) = label (pt_tpl u)" "error (out_eof (pt_tpl u)) = None"
    using assms(3) by (simp_all add: out_eof_def new_pack_def)
  obtain c where "send_pack (out_eof (pt_tpl u)) ?n = (Ret (), ?n\<lparr>n_cache := c, n_out := n_out ?n @ [(ws, out_eof (pt_tpl u))]\<rparr>)"
    unfolding send_pack_def using send_on_transport [OF so, of "act_ret ()" "out_eof (pt_tpl u)"] eof(1,2) by auto
  with assms(1,2) eof show ?thesis
    by (simp add: pump_limit_def pump_finish_def Let_def)
qed

theorem pump_limit_ends_as_success_witness:
  "\<exists>q n'. pump_limit (\<lambda>_. ''boom'') \<lparr>pt_tpl = ex_tpl, pt_size = 1, pt_phase = Awaiting, pt_fut = 0, pt_sent = 1,
       pt_pipe = (new_pipe ''w'' 1)\<lparr>p_queue := [Chunk (PInt 2)]\<rparr>\<rparr> ex_relay = ([Gave_up], q, n')
     \<and> p_queue (pt_pipe q) = [Chunk (PInt 2)] \<and> map (\<lambda>(w, p). ptype p) (n_out n') = [STREAM_EOF]"
proof -
  let ?u = "\<lparr>pt_tpl = ex_tpl, pt_size = 1, pt_phase = Awaiting, pt_fut = 0, pt_sent = 1,
       pt_pipe = (new_pipe ''w'' 1)\<lparr>p_queue := [Chunk (PInt 2)]\<rparr>\<rparr>"
  have "socket_of ex_relay (canon ''c'') = Some 2" "2 \<notin> set (n_dead ex_relay)" "n_out ex_relay = []"
    by (simp_all add: socket_of_def ex_relay_def new_node_def ex_canon)
  with pump_limit_ends_as_success [of ?u "''c''" ex_relay 2 "\<lambda>_. ''boom''"] show ?thesis
    by (auto simp: ex_tpl_def new_pack_def)
qed

end
