(* ===== verification/Ws_Frames.thy ===== *)
theory Ws_Frames
  imports Prelude "HOL-Library.Word"
begin

text \<open>
  The hand-written websocket client of \<open>netpulse/mesh.py\<close> (class \<open>_WS\<close>): the frames it sends, the
  frames it reads and the reply of the opening handshake. Bytes are \<open>8 word\<close>. The socket is the list
  of what its next \<open>recv\<close> calls find: bytes, a time limit, or, at the end, the closed connection. RFC
  6455 is the specification of a frame: \<open>rfc_decode\<close> is the reader of the other side.
\<close>

unbundle bit_operations_syntax

type_synonym byte = "8 word"
type_synonym bytes = "byte list"

datatype ws_error = Closed | Timed_out | Too_long | Mesh_error string

section \<open>Numbers in network order\<close>

fun be_bytes :: "nat \<Rightarrow> nat \<Rightarrow> bytes" where
  "be_bytes 0 n = []"
| "be_bytes (Suc k) n = be_bytes k (n div 256) @ [word_of_nat (n mod 256)]"

definition be_nat :: "bytes \<Rightarrow> nat" where
  "be_nat bs = foldl (\<lambda>n b. n * 256 + unat b) 0 bs"

lemma length_be_bytes [simp]: "length (be_bytes k n) = k"
  by (induction k arbitrary: n) simp_all

lemma unat_byte: "unat (word_of_nat (n mod 256) :: byte) = n mod 256"
  by (simp add: unat_of_nat)

lemma be_nat_bytes: "n < 256 ^ k \<Longrightarrow> be_nat (be_bytes k n) = n"
proof (induction k arbitrary: n)
  case (Suc k)
  then have "n div 256 < 256 ^ k" by (simp add: less_mult_imp_div_less mult.commute)
  then show ?case using Suc.IH [of "n div 256"] by (simp add: be_nat_def unat_byte)
qed (simp add: be_nat_def)

section \<open>Sending\<close>

definition apply_mask :: "bytes \<Rightarrow> bytes \<Rightarrow> bytes" where
  "apply_mask m xs = map (\<lambda>(i, b). b XOR m ! (i mod 4)) (List.enumerate 0 xs)"

definition length_header :: "nat \<Rightarrow> bytes" where
  "length_header n =
     (if n \<le> 125 then [0x80 OR word_of_nat n]
      else if n \<le> 0xFFFF then (0x80 OR 126) # be_bytes 2 n
      else (0x80 OR 127) # be_bytes 8 n)"

text \<open>\<open>struct.pack('>Q', n)\<close> accepts numbers below \<open>2 ^ 64\<close>.\<close>

definition send_payload :: "byte \<Rightarrow> bytes \<Rightarrow> bytes \<Rightarrow> ws_error + bytes" where
  "send_payload opcode m payload =
     (if 2 ^ 64 \<le> length payload then Inl Too_long
      else Inr ((0x80 OR opcode) # length_header (length payload) @ m @ apply_mask m payload))"

definition send_text :: "bytes \<Rightarrow> bytes \<Rightarrow> ws_error + bytes" where
  "send_text m encoded = send_payload 0x1 m encoded"

definition send_binary :: "bytes \<Rightarrow> bytes \<Rightarrow> ws_error + bytes" where
  "send_binary m payload = send_payload 0x2 m payload"

section \<open>Reading\<close>

datatype arrival = Bytes bytes | Silence

text \<open>\<open>_read\<close>: what was read before a time limit is dropped with the exception.\<close>

fun ws_read :: "nat \<Rightarrow> arrival list \<Rightarrow> (ws_error + bytes) \<times> arrival list" where
  "ws_read 0 s = (Inr [], s)"
| "ws_read (Suc n) [] = (Inl Closed, [])"
| "ws_read (Suc n) (Silence # s) = (Inl Timed_out, s)"
| "ws_read (Suc n) (Bytes bs # s) =
     (if bs = [] then (Inl Closed, s)
      else if length bs \<le> Suc n
      then (case ws_read (Suc n - length bs) s of (r, s') \<Rightarrow> (map_sum id ((@) bs) r, s'))
      else (Inr (take (Suc n) bs), Bytes (drop (Suc n) bs) # s))"

definition ws_bind :: "(ws_error + bytes) \<times> arrival list \<Rightarrow> (bytes \<Rightarrow> arrival list \<Rightarrow> (ws_error + 'a) \<times> arrival list) \<Rightarrow>
    (ws_error + 'a) \<times> arrival list" where
  "ws_bind x f = (case x of (Inl e, s) \<Rightarrow> (Inl e, s) | (Inr bs, s) \<Rightarrow> f bs s)"

definition recv_length :: "byte \<Rightarrow> arrival list \<Rightarrow> (ws_error + bytes) \<times> arrival list" where
  "recv_length l7 s = (if l7 = 126 then ws_read 2 s else if l7 = 127 then ws_read 8 s else (Inr [l7], s))"

definition recv_frame :: "arrival list \<Rightarrow> (ws_error + byte \<times> byte \<times> bytes) \<times> arrival list" where
  "recv_frame s =
     ws_bind (ws_read 2 s) (\<lambda>b s1.
       ws_bind (recv_length (b ! 1 AND 0x7F) s1) (\<lambda>l s2.
         ws_bind (ws_read (be_nat l) s2) (\<lambda>payload s3.
           (Inr (b ! 0 AND 0x80, b ! 0 AND 0x0F, payload), s3))))"

section \<open>The opening handshake\<close>

definition crlf :: string where "crlf = [char_of (13 :: nat), char_of (10 :: nat)]"

definition text_of :: "bytes \<Rightarrow> string" where "text_of bs = map (\<lambda>b. char_of (unat b)) bs"

text \<open>\<open>s.split(sep, n)\<close> and \<open>partition\<close> for a separator that is not empty.\<close>

fun starts :: "string \<Rightarrow> string \<Rightarrow> bool" where
  "starts [] s = True"
| "starts (c # cs) [] = False"
| "starts (c # cs) (d # ds) = (c = d \<and> starts cs ds)"

fun split_once :: "string \<Rightarrow> string \<Rightarrow> (string \<times> string) option" where
  "split_once sep [] = (if sep = [] then Some ([], []) else None)"
| "split_once sep (c # cs) =
     (if starts sep (c # cs) then Some ([], drop (length sep) (c # cs))
      else map_option (\<lambda>(a, b). (c # a, b)) (split_once sep cs))"

lemma split_once_shorter: "split_once sep s = Some (a, b) \<Longrightarrow> sep \<noteq> [] \<Longrightarrow> length b < length s"
proof (induction sep s arbitrary: a b rule: split_once.induct)
  case (2 sep c cs)
  show ?case
  proof (cases "starts sep (c # cs)")
    case True
    with 2 show ?thesis by (cases sep) auto
  next
    case False
    with "2.prems" obtain a' where "split_once sep cs = Some (a', b)" by auto
    from "2.IH" [OF False this "2.prems"(2)] show ?thesis by simp
  qed
qed simp

function split_all :: "string \<Rightarrow> string \<Rightarrow> string list" where
  "split_all sep s =
     (case split_once sep s of None \<Rightarrow> [s] | Some (a, b) \<Rightarrow> if sep = [] then [s] else a # split_all sep b)"
  by pat_completeness auto
termination
  by (relation "measure (\<lambda>(sep, s). length s)") (auto dest: split_once_shorter)

text \<open>\<open>_read_http\<close>: reads until the blank line or the end; what follows the blank line is dropped.\<close>

definition pending_bytes :: "arrival list \<Rightarrow> nat" where
  "pending_bytes s = sum_list (map (\<lambda>a. case a of Bytes bs \<Rightarrow> Suc (length bs) | Silence \<Rightarrow> 1) s)"

function read_head :: "bytes \<Rightarrow> arrival list \<Rightarrow> (ws_error + bytes) \<times> arrival list" where
  "read_head acc s =
     (if split_once (crlf @ crlf) (text_of acc) \<noteq> None then (Inr acc, s)
      else case s of
        [] \<Rightarrow> (Inr acc, [])
      | Silence # s' \<Rightarrow> (Inl Timed_out, s')
      | Bytes bs # s' \<Rightarrow>
          if bs = [] then (Inr acc, s')
          else if length bs \<le> 4096 then read_head (acc @ bs) s'
          else read_head (acc @ take 4096 bs) (Bytes (drop 4096 bs) # s'))"

  by pat_completeness auto
termination
  by (relation "measure (\<lambda>(acc, s). pending_bytes s)") (auto simp: pending_bytes_def)

declare read_head.simps [simp del]
declare split_all.simps [simp del]

definition colon_header :: "string \<Rightarrow> (string, string) dict \<Rightarrow> (string, string) dict" where
  "colon_header l hs =
     (case split_once '':'' l of None \<Rightarrow> hs | Some (k, v) \<Rightarrow> dict_set (py_lower (py_strip k)) (py_strip v) hs)"

definition status_of :: "string \<Rightarrow> int" where
  "status_of l =
     (case split_once '' '' l of
        None \<Rightarrow> 0
      | Some (_, r) \<Rightarrow>
          (case int_of_string (case split_once '' '' r of None \<Rightarrow> r | Some (a, _) \<Rightarrow> a) of Inl _ \<Rightarrow> 0 | Inr n \<Rightarrow> n))"

definition parse_head :: "bytes \<Rightarrow> (string, string) dict \<times> int" where
  "parse_head bs =
     (let head = (case split_once (crlf @ crlf) (text_of bs) of None \<Rightarrow> text_of bs | Some (a, _) \<Rightarrow> a);
          ls = split_all crlf head
      in (fold colon_header (tl ls) [], status_of (hd ls)))"

text \<open>
  \<open>connect\<close> after the request was written: \<open>accept_key\<close> is the base64 of the SHA-1 of the key
  and the GUID of the protocol.
\<close>

definition upgrade_request :: "string \<Rightarrow> string \<Rightarrow> string \<Rightarrow> string \<Rightarrow> string" where
  "upgrade_request host port pth key =
     ''GET '' @ pth @ '' HTTP/1.1'' @ crlf @ ''Host: '' @ host @ '':'' @ port @ crlf
       @ ''Upgrade: websocket'' @ crlf @ ''Connection: Upgrade'' @ crlf
       @ ''Sec-WebSocket-Key: '' @ key @ crlf @ ''Sec-WebSocket-Version: 13'' @ crlf @ crlf"

definition ws_guid :: string where "ws_guid = ''258EAFA5-E914-47DA-95CA-C5AB0DC85B11''"

definition ws_connect :: "(string \<Rightarrow> string) \<Rightarrow> string \<Rightarrow> arrival list \<Rightarrow> (ws_error + unit) \<times> arrival list" where
  "ws_connect accept_key key s =
     (case read_head [] s of
        (Inl e, s1) \<Rightarrow> (Inl e, s1)
      | (Inr bs, s1) \<Rightarrow>
          (case parse_head bs of (hs, status) \<Rightarrow>
             if status \<noteq> 101 then (Inl (Mesh_error ''status''), s1)
             else if dict_get hs ''sec-websocket-accept'' \<noteq> Some (accept_key (key @ ws_guid))
             then (Inl (Mesh_error ''accept''), s1)
             else (Inr (), s1)))"

section \<open>What the other side reads\<close>

text \<open>
  The reader of RFC 6455, section 5.2, for a whole buffer: final flag, opcode, payload without its
  mask, and the rest of the buffer.
\<close>

definition rfc_length :: "byte \<Rightarrow> bytes \<Rightarrow> (nat \<times> bytes) option" where
  "rfc_length l bs =
     (let n = unat (l AND 0x7F); k = (if n = 126 then 2 else if n = 127 then 8 else 0)
      in if length bs < k then None
         else Some (if k = 0 then n else be_nat (take k bs), drop k bs))"

definition rfc_decode :: "bytes \<Rightarrow> (bool \<times> nat \<times> bytes \<times> bytes) option" where
  "rfc_decode bs =
     (case bs of
        b0 # b1 # bs1 \<Rightarrow>
          (case rfc_length b1 bs1 of
             None \<Rightarrow> None
           | Some (n, bs2) \<Rightarrow>
               (let m = (if bit b1 7 then take 4 bs2 else replicate 4 0);
                    bs3 = (if bit b1 7 then drop 4 bs2 else bs2)
                in if length bs3 < n \<or> length m < 4 then None
                   else Some (bit b0 7, unat (b0 AND 0x0F), apply_mask m (take n bs3), drop n bs3)))
      | _ \<Rightarrow> None)"

lemma length_apply_mask [simp]: "length (apply_mask m xs) = length xs"
  by (simp add: apply_mask_def)

lemma nth_apply_mask [simp]: "i < length xs \<Longrightarrow> apply_mask m xs ! i = xs ! i XOR m ! (i mod 4)"
  by (simp add: apply_mask_def nth_enumerate_eq)

lemma apply_mask_twice: "apply_mask m (apply_mask m xs) = xs"
  by (rule nth_equalityI) (simp_all add: xor.assoc)

lemma apply_mask_zero: "apply_mask (replicate 4 0) xs = xs"
proof (rule nth_equalityI)
  fix i assume "i < length (apply_mask (replicate 4 0) xs)"
  then have i: "i < length xs" by simp
  have "replicate 4 (0 :: byte) ! (i mod 4) = 0" by (rule nth_replicate) simp
  then show "apply_mask (replicate 4 0) xs ! i = xs ! i" by (simp only: nth_apply_mask [OF i] xor.right_neutral)
qed simp

lemma small_byte:
  assumes "n < 128"
  shows "unat ((0x80 OR word_of_nat n :: byte) AND 0x7F) = n" "bit (0x80 OR word_of_nat n :: byte) 7"
proof -
  have e: "(0x80 OR word_of_nat n :: byte) AND 0x7F = word_of_nat n AND 0x7F"
    by (simp add: bit.conj_disj_distrib2)
  have "(word_of_nat n :: byte) AND 0x7F = word_of_nat n mod 128"
    using take_bit_eq_mask [of 7 "word_of_nat n :: byte"] by (simp add: mask_numeral take_bit_eq_mod)
  then have "unat ((word_of_nat n :: byte) AND 0x7F) = n"
    using assms by (simp add: unat_mod unat_of_nat)
  with assms e show "unat ((0x80 OR word_of_nat n :: byte) AND 0x7F) = n" by simp
  show "bit (0x80 OR word_of_nat n :: byte) 7" by (simp add: bit_or_iff)
qed

lemma rfc_length_header:
  assumes "n < 2 ^ 64"
  shows "\<exists>b1 bs. length_header n = b1 # bs \<and> bit b1 7 \<and> rfc_length b1 (bs @ rest) = Some (n, rest)"
proof -
  consider "n \<le> 125" | "125 < n" "n \<le> 0xFFFF" | "0xFFFF < n" by linarith
  then show ?thesis
  proof cases
    case 1
    then show ?thesis
      using small_byte [of n] by (simp add: length_header_def rfc_length_def)
  next
    case 2
    then have "be_nat (be_bytes 2 n) = n" by (intro be_nat_bytes) simp
    with 2 show ?thesis
      using small_byte [of 126] by (simp add: length_header_def rfc_length_def del: be_bytes.simps)
  next
    case 3
    then have "be_nat (be_bytes 8 n) = n" using assms by (intro be_nat_bytes) simp
    with 3 show ?thesis
      using small_byte [of 127] by (simp add: length_header_def rfc_length_def del: be_bytes.simps)
  qed
qed

lemma opcode_byte:
  assumes "op AND 0x0F = (op :: byte)"
  shows "unat ((0x80 OR op) AND 0x0F) = unat op" "bit (0x80 OR op) 7"
proof -
  have "(0x80 OR op) AND 0x0F = op" using assms by (simp add: bit.conj_disj_distrib2)
  then show "unat ((0x80 OR op) AND 0x0F) = unat op" by simp
  show "bit (0x80 OR op) 7" by (simp add: bit_or_iff)
qed

text \<open>C16: Every frame the client sends is read back by the other side: whatever the mask, the payload and
  the bytes that follow, a reader of RFC 6455 finds a final frame with the same opcode and payload, and
  the following bytes untouched, for every length below \<open>2 ^ 64\<close> and so for all three length encodings.\<close>

theorem frame_roundtrip:
  assumes "send_payload op m payload = Inr f" "length m = 4" "op AND 0x0F = op"
  shows "rfc_decode (f @ rest) = Some (True, unat op, payload, rest)"
proof -
  have n: "length payload < 2 ^ 64" and
    f: "f = (0x80 OR op) # length_header (length payload) @ m @ apply_mask m payload"
    using assms(1) by (auto simp: send_payload_def split: if_splits)
  let ?tail = "m @ apply_mask m payload @ rest"
  obtain b1 bs where h: "length_header (length payload) = b1 # bs" "bit b1 7"
    "rfc_length b1 (bs @ ?tail) = Some (length payload, ?tail)"
    using rfc_length_header [OF n, of ?tail] by auto
  have "rfc_decode (f @ rest) = Some (bit (0x80 OR op) 7, unat ((0x80 OR op) AND 0x0F), apply_mask m (apply_mask m payload), rest)"
    using h assms(2) by (simp add: f rfc_decode_def del: rfc_length_def)
  then show ?thesis
    using opcode_byte [OF assms(3)] by (simp only: apply_mask_twice)
qed

theorem frame_roundtrip_witness:
  "rfc_decode (case send_payload 0x2 [1, 2, 3, 4] [65, 66, 67, 68, 69] of Inl _ \<Rightarrow> [] | Inr f \<Rightarrow> f @ [9])
     = Some (True, 2, [65, 66, 67, 68, 69], [9])"
proof -
  obtain f where f: "send_payload 0x2 [1, 2, 3, 4] [65, 66, 67, 68, 69] = Inr f" by (simp add: send_payload_def)
  from frame_roundtrip [OF this, of "[9]"] f show ?thesis by simp
qed

section \<open>Frames of the other side\<close>

text \<open>What arrives before the next time limit, and arrivals without one.\<close>

definition arrived :: "arrival list \<Rightarrow> bytes" where
  "arrived s = concat (map (\<lambda>a. case a of Bytes bs \<Rightarrow> bs | Silence \<Rightarrow> []) s)"

definition steady :: "arrival list \<Rightarrow> bool" where
  "steady s \<longleftrightarrow> Silence \<notin> set s \<and> Bytes [] \<notin> set s"

lemma arrived_simps [simp]: "arrived [] = []" "arrived (Bytes bs # s) = bs @ arrived s" "arrived (Silence # s) = arrived s"
  by (simp_all add: arrived_def)

lemma steady_simps [simp]: "steady []" "steady (Bytes bs # s) \<longleftrightarrow> bs \<noteq> [] \<and> steady s" "\<not> steady (Silence # s)"
  by (auto simp: steady_def)

lemma ws_read_steady:
  "steady s \<Longrightarrow> n \<le> length (arrived s) \<Longrightarrow>
     \<exists>s'. ws_read n s = (Inr (take n (arrived s)), s') \<and> steady s' \<and> arrived s' = drop n (arrived s)"
proof (induction n s rule: ws_read.induct)
  case (4 n bs s)
  show ?case
  proof (cases "length bs \<le> Suc n")
    case True
    have "Suc n - length bs \<le> length (arrived s)" "steady s" "bs \<noteq> []" using 4 True by auto
    with "4.IH" True obtain s' where "ws_read (Suc n - length bs) s = (Inr (take (Suc n - length bs) (arrived s)), s')"
      "steady s'" "arrived s' = drop (Suc n - length bs) (arrived s)" by blast
    with True 4 show ?thesis by simp
  next
    case False
    with 4 show ?thesis by simp
  qed
qed simp_all

definition server_length :: "nat \<Rightarrow> bytes" where
  "server_length n =
     (if n \<le> 125 then [word_of_nat n] else if n \<le> 0xFFFF then 126 # be_bytes 2 n else 127 # be_bytes 8 n)"

definition server_frame :: "byte \<Rightarrow> bytes \<Rightarrow> bytes" where
  "server_frame op payload = (0x80 OR op) # server_length (length payload) @ payload"

lemma low_byte:
  assumes "n < 128"
  shows "(word_of_nat n :: byte) AND 0x7F = word_of_nat n" "unat (word_of_nat n :: byte) = n"
proof -
  show u: "unat (word_of_nat n :: byte) = n" using assms by (simp add: unat_of_nat)
  have "(word_of_nat n :: byte) AND 0x7F = word_of_nat n mod 128"
    using take_bit_eq_mask [of 7 "word_of_nat n :: byte"] by (simp add: mask_numeral take_bit_eq_mod)
  moreover have "(word_of_nat n :: byte) mod 128 = word_of_nat n"
    by (rule word_unat_eq_iff [THEN iffD2]) (use assms u in \<open>simp add: unat_mod\<close>)
  ultimately show "(word_of_nat n :: byte) AND 0x7F = word_of_nat n" by simp
qed

text \<open>The length field as it is read: the first byte, then two or eight more.\<close>

lemma server_length_cases:
  assumes "n < 2 ^ 64"
  obtains b ext where "server_length n = b # ext" "b AND 0x7F = b"
    "(b = 126 \<and> length ext = 2 \<and> be_nat ext = n) \<or> (b = 127 \<and> length ext = 8 \<and> be_nat ext = n)
       \<or> (b \<noteq> 126 \<and> b \<noteq> 127 \<and> ext = [] \<and> be_nat [b] = n)"
proof -
  consider "n \<le> 125" | "125 < n" "n \<le> 0xFFFF" | "0xFFFF < n" by linarith
  then show thesis
  proof cases
    case 1
    have "(word_of_nat n :: byte) \<noteq> 126" "(word_of_nat n :: byte) \<noteq> 127"
      using low_byte(2) [of n] 1 by (auto dest: arg_cong [of _ _ unat])
    with 1 low_byte [of n] show thesis by (intro that [of "word_of_nat n" "[]"]) (simp_all add: server_length_def be_nat_def)
  next
    case 2
    then have "be_nat (be_bytes 2 n) = n" by (intro be_nat_bytes) simp
    with 2 show thesis by (intro that [of 126 "be_bytes 2 n"]) (simp_all add: server_length_def del: be_bytes.simps)
  next
    case 3
    then have "be_nat (be_bytes 8 n) = n" using assms by (intro be_nat_bytes) simp
    with 3 show thesis by (intro that [of 127 "be_bytes 8 n"]) (simp_all add: server_length_def del: be_bytes.simps)
  qed
qed

lemma first_byte:
  assumes "op AND 0x0F = (op :: byte)"
  shows "(0x80 OR op) AND 0x80 = 0x80" "(0x80 OR op) AND 0x0F = op"
proof -
  show "(0x80 OR op) AND 0x80 = 0x80" by (simp add: bit.conj_disj_distrib2)
  show "(0x80 OR op) AND 0x0F = op" using assms by (simp add: bit.conj_disj_distrib2)
qed

lemma ws_bind_simps [simp]:
  "ws_bind (Inr bs, s) f = f bs s" "ws_bind (Inl e, s) f = (Inl e, s)"
  by (simp_all add: ws_bind_def)

lemma read_next:
  assumes "steady s" "arrived s = xs @ ys"
  obtains s' where "ws_read (length xs) s = (Inr xs, s')" "steady s'" "arrived s' = ys"
  using ws_read_steady [OF assms(1), of "length xs"] assms(2) by auto

text \<open>C19: A frame of the other side is read correctly however the network cut it: from any sequence of
  non-empty arrivals that carries it, without a pause, the client reads the final flag, the opcode and
  exactly the payload, and leaves exactly the bytes behind it for the next frame.\<close>

theorem frame_read_any_chunking:
  assumes "steady s" "arrived s = server_frame op payload @ rest" "op AND 0x0F = op" "length payload < 2 ^ 64"
  shows "\<exists>s'. recv_frame s = (Inr (0x80, op, payload), s') \<and> steady s' \<and> arrived s' = rest"
proof -
  obtain b ext where l: "server_length (length payload) = b # ext" "b AND 0x7F = b"
    "(b = 126 \<and> length ext = 2 \<and> be_nat ext = length payload) \<or> (b = 127 \<and> length ext = 8 \<and> be_nat ext = length payload)
       \<or> (b \<noteq> 126 \<and> b \<noteq> 127 \<and> ext = [] \<and> be_nat [b] = length payload)"
    using assms(4) by (rule server_length_cases)
  have a: "arrived s = [0x80 OR op, b] @ ext @ payload @ rest" using assms(2) l(1) by (simp add: server_frame_def)
  obtain s1 where s1: "ws_read 2 s = (Inr [0x80 OR op, b], s1)" "steady s1" "arrived s1 = ext @ payload @ rest"
    by (rule read_next [OF assms(1) a]) (simp add: numeral_2_eq_2)
  obtain l2 s2 where s2: "recv_length b s1 = (Inr l2, s2)" "be_nat l2 = length payload" "steady s2" "arrived s2 = payload @ rest"
  proof (cases "ext = []")
    case True
    with l(3) s1 that [of "[b]" s1] show thesis by (auto simp: recv_length_def)
  next
    case False
    obtain s2 where "ws_read (length ext) s1 = (Inr ext, s2)" "steady s2" "arrived s2 = payload @ rest"
      by (rule read_next [OF s1(2,3)])
    with l(3) False that [of ext s2] show thesis by (auto simp: recv_length_def)
  qed
  obtain s3 where "ws_read (length payload) s2 = (Inr payload, s3)" "steady s3" "arrived s3 = rest"
    by (rule read_next [OF s2(3,4)])
  with s1(1) s2(1,2) l(2) first_byte [OF assms(3)] show ?thesis
    by (simp add: recv_frame_def)
qed

theorem frame_read_any_chunking_witness:
  "\<exists>s'. recv_frame [Bytes [0x82], Bytes [3, 7], Bytes [8, 9, 1, 1]] = (Inr (0x80, 2, [7, 8, 9]), s') \<and> arrived s' = [1, 1]"
proof -
  have "arrived [Bytes [0x82], Bytes [3, 7], Bytes [8, 9, 1, 1]] = server_frame 2 [7, 8, 9] @ [1, 1]"
    by (simp add: server_frame_def server_length_def)
  from frame_read_any_chunking [OF _ this] show ?thesis by simp blast
qed

section \<open>A pause inside a frame\<close>

definition paused :: "bytes \<Rightarrow> arrival list \<Rightarrow> arrival list" where
  "paused bs s = (if bs = [] then Silence # s else Bytes bs # Silence # s)"

lemma read_paused:
  "ws_read n (paused bs s) = (if n \<le> length bs then (Inr (take n bs), paused (drop n bs) s) else (Inl Timed_out, s))"
proof (cases n)
  case (Suc k)
  consider "bs = []" | "bs \<noteq> []" "length bs < Suc k" | "bs \<noteq> []" "length bs = Suc k" | "Suc k < length bs" by linarith
  then show ?thesis
  proof cases
    case 2
    then obtain d where "Suc k - length bs = Suc d" by (metis Suc_diff_Suc)
    with 2 Suc show ?thesis by (simp add: paused_def)
  qed (auto simp: paused_def Suc)
qed (simp add: paused_def)

text \<open>A pause inside a frame breaks the connection's framing: when the time limit of the socket passes
  after a proper prefix of a frame, the read reports a time limit, which the receive loop ignores, but the
  bytes of the prefix are gone: the next read starts in the middle of the frame.\<close>

theorem pause_drops_frame_prefix:
  assumes "k < length (server_frame op payload)" "op AND 0x0F = op" "length payload < 2 ^ 64"
  shows "recv_frame (paused (take k (server_frame op payload)) s) = (Inl Timed_out, s)"
proof -
  obtain b ext where l: "server_length (length payload) = b # ext" "b AND 0x7F = b"
    "(b = 126 \<and> length ext = 2 \<and> be_nat ext = length payload) \<or> (b = 127 \<and> length ext = 8 \<and> be_nat ext = length payload)
       \<or> (b \<noteq> 126 \<and> b \<noteq> 127 \<and> ext = [] \<and> be_nat [b] = length payload)"
    using assms(3) by (rule server_length_cases)
  let ?f = "(0x80 OR op) # b # ext @ payload"
  have f: "server_frame op payload = ?f" using l(1) by (simp add: server_frame_def)
  have k: "k < 2 + length ext + length payload" using assms(1) by (simp add: f)
  show ?thesis
  proof (cases "k < 2")
    case True
    then show ?thesis by (simp add: recv_frame_def read_paused f)
  next
    case False
    then obtain j where j: "k = Suc (Suc j)" by (metis add_2_eq_Suc le_Suc_ex not_less)
    have r2: "ws_read 2 (paused (take k ?f) s) = (Inr [0x80 OR op, b], paused (take j (ext @ payload)) s)"
      using j by (simp add: read_paused numeral_2_eq_2)
    have body: "ws_read (length payload) (paused (take i payload) s) = (Inl Timed_out, s)" if "i < length payload" for i
      using that by (auto simp: read_paused)
    show ?thesis
    proof (cases "ext = []")
      case True
      then have "recv_length b (paused (take j payload) s) = (Inr [b], paused (take j payload) s)" "be_nat [b] = length payload" "j < length payload"
        using l(3) k j by (auto simp: recv_length_def)
      with r2 l(2) body [of j] True show ?thesis by (simp add: recv_frame_def f)
    next
      case False
      then have e: "recv_length b t = ws_read (length ext) t" "be_nat ext = length payload" for t
        using l(3) by (auto simp: recv_length_def)
      show ?thesis
      proof (cases "j < length ext")
        case True
        then have "ws_read (length ext) (paused (take j (ext @ payload)) s) = (Inl Timed_out, s)"
          by (simp add: read_paused)
        with r2 l(2) e show ?thesis by (simp add: recv_frame_def f)
      next
        case False
        then have "ws_read (length ext) (paused (take j (ext @ payload)) s) = (Inr ext, paused (take (j - length ext) payload) s)"
          by (simp add: read_paused)
        with r2 l(2) e body [of "j - length ext"] False k j show ?thesis by (simp add: recv_frame_def f)
      qed
    qed
  qed
qed

theorem pause_drops_frame_prefix_witness:
  "recv_frame [Bytes [0x82], Silence, Bytes [1, 65]] = (Inl Timed_out, [Bytes [1, 65]])"
  using pause_drops_frame_prefix [of 1 2 "[65]" "[Bytes [1, 65]]"]
  by (simp add: server_frame_def server_length_def paused_def)

end
