(* ===== verification/Mesh_Client.thy ===== *)
theory Mesh_Client
  imports Protocol Ws_Frames
begin

text \<open>
  The bridge of the monitor to the mesh: \<open>MeshClient\<close> and \<open>MeshHub\<close> of \<open>netpulse/mesh.py\<close>. A client
  runs a receiving thread beside the threads that call; what they share is the table of pending calls.
  Each access of a thread to the shared state is one step: registering a call, waking from its event,
  giving up, taking a packet, and the two halves of \<open>_resolve_all\<close>, which the waiting threads can come
  between, because they take their entry off without the lock.
\<close>

section \<open>Configuration\<close>

record client_env =
  cl_repr :: "pyval \<Rightarrow> string"
  cl_float :: "pyval \<Rightarrow> exn + real"
  cl_mac :: "string \<Rightarrow> string \<Rightarrow> string"

definition str_of :: "client_env \<Rightarrow> pyval \<Rightarrow> string" where
  "str_of e v = (case v of PStr s \<Rightarrow> s | _ \<Rightarrow> cl_repr e v)"

record waiting =
  w_event :: bool
  w_result :: "pyval option"
  w_error :: "pyval option"

record client =
  mc_enabled :: bool
  mc_host :: string
  mc_port :: int
  mc_node :: string
  mc_target :: string
  mc_reconnect :: real
  mc_timeout :: real
  mc_secret :: string
  mc_session :: string
  mc_connected :: bool
  mc_last_error :: string
  mc_version :: string
  mc_nodes :: pyval
  mc_services :: pyval
  mc_ws :: "bool option"                 \<comment> \<open>the socket object and whether it is open\<close>
  mc_pending :: "(string, nat) dict"
  mc_calls :: "(nat, waiting) dict"      \<comment> \<open>the shared events and result dictionaries\<close>
  mc_next :: nat
  mc_out :: "(string, pyval) dict list"  \<comment> \<open>packets written to the socket\<close>

definition cfg_or :: "(string, pyval) dict \<Rightarrow> string \<Rightarrow> pyval \<Rightarrow> pyval" where
  "cfg_or cfg k d = py_or (get_default cfg k PNone) d"

definition new_client :: "client_env \<Rightarrow> string \<Rightarrow> (string, pyval) dict \<Rightarrow> exn + client" where
  "new_client e sess cfg =
     (case py_int (cfg_or cfg ''port'' (PInt 9000)) of
        Inl x \<Rightarrow> Inl x
      | Inr port \<Rightarrow>
          (case cl_float e (cfg_or cfg ''reconnect_sec'' (PInt 5)) of
             Inl x \<Rightarrow> Inl x
           | Inr rc \<Rightarrow>
               (case cl_float e (cfg_or cfg ''call_timeout'' (PInt 15)) of
                  Inl x \<Rightarrow> Inl x
                | Inr tmo \<Rightarrow>
                    Inr \<lparr>mc_enabled = truthy (get_default cfg ''enabled'' (PBool True)),
                      mc_host = str_of e (cfg_or cfg ''host'' (PStr ''127.0.0.1'')), mc_port = port,
                      mc_node = str_of e (cfg_or cfg ''node_id'' (PStr ''NetPulseHub'')),
                      mc_target = str_of e (cfg_or cfg ''target_node'' (PStr ''Node0'')),
                      mc_reconnect = rc, mc_timeout = tmo,
                      mc_secret = str_of e (cfg_or cfg ''secret'' (PStr [])), mc_session = sess,
                      mc_connected = False, mc_last_error = [], mc_version = [],
                      mc_nodes = PList [], mc_services = PList [], mc_ws = None, mc_pending = [],
                      mc_calls = [], mc_next = 0, mc_out = []\<rparr>)))"

section \<open>Calls\<close>

datatype call_failure =
    No_link
  | Send_failed string
  | Rpc_timeout string string
  | Rpc_error pyval

definition call_dict :: "client \<Rightarrow> string \<Rightarrow> pyval \<Rightarrow> string \<Rightarrow> string \<Rightarrow> pyval \<Rightarrow> (string, pyval) dict" where
  "call_dict c lbl d svc mth v =
     [(''type'', PStr ''request''), (''source'', PStr (mc_node c)), (''dst'', d), (''service'', PStr svc),
      (''method'', PStr mth), (''data'', py_or v (PDict [])), (''label'', PStr lbl)]"

definition drop_conn :: "string \<Rightarrow> client \<Rightarrow> client" where
  "drop_conn err c = c\<lparr>mc_last_error := err, mc_ws := map_option (\<lambda>_. False) (mc_ws c)\<rparr>"

text \<open>Up to the wait: \<open>fault\<close> is the exception text of the write, if it fails.\<close>

definition mc_call ::
  "client_env \<Rightarrow> string \<Rightarrow> string \<Rightarrow> string \<Rightarrow> pyval \<Rightarrow> pyval \<Rightarrow> string option \<Rightarrow> client \<Rightarrow> (call_failure + nat) \<times> client" where
  "mc_call e lbl svc mth v d fault c =
     (if \<not> mc_connected c \<or> mc_ws c = None then (Inl No_link, c)
      else
        let r = mc_next c;
            c1 = c\<lparr>mc_next := Suc r, mc_calls := dict_set r \<lparr>w_event = False, w_result = None, w_error = None\<rparr> (mc_calls c),
                   mc_pending := dict_set lbl r (mc_pending c)\<rparr>
        in case fault of
             Some err \<Rightarrow> (Inl (Send_failed err), drop_conn err (c1\<lparr>mc_pending := dict_pop lbl (mc_pending c1)\<rparr>))
           | None \<Rightarrow> (Inr r, c1\<lparr>mc_out := mc_out c1 @ [call_dict c1 lbl (PStr (str_of e (py_or d (PStr (mc_target c))))) svc mth v]\<rparr>))"

definition entry_of :: "client \<Rightarrow> string \<Rightarrow> waiting option" where
  "entry_of c lbl = Option.bind (dict_get (mc_pending c) lbl) (dict_get (mc_calls c))"

text \<open>The event of call \<open>r\<close> was set: its entry is taken off the table; a missing one is an empty state.\<close>

definition mc_wake :: "string \<Rightarrow> nat \<Rightarrow> client \<Rightarrow> ((call_failure + pyval) option) \<times> client" where
  "mc_wake lbl r c =
     (if map_option w_event (dict_get (mc_calls c) r) \<noteq> Some True then (None, c)
      else
        (Some (case entry_of c lbl of
                 None \<Rightarrow> Inr PNone
               | Some w \<Rightarrow> (case w_error w of Some err \<Rightarrow> Inl (Rpc_error err) | None \<Rightarrow> Inr (case w_result w of None \<Rightarrow> PNone | Some v \<Rightarrow> v))),
         c\<lparr>mc_pending := dict_pop lbl (mc_pending c)\<rparr>))"

definition mc_limit :: "string \<Rightarrow> string \<Rightarrow> string \<Rightarrow> client \<Rightarrow> call_failure \<times> client" where
  "mc_limit lbl svc mth c = (Rpc_timeout svc mth, c\<lparr>mc_pending := dict_pop lbl (mc_pending c)\<rparr>)"

section \<open>Packets\<close>

definition set_state :: "nat \<Rightarrow> (waiting \<Rightarrow> waiting) \<Rightarrow> client \<Rightarrow> client" where
  "set_state r f c =
     (case dict_get (mc_calls c) r of None \<Rightarrow> c | Some w \<Rightarrow> c\<lparr>mc_calls := dict_set r ((f w)\<lparr>w_event := True\<rparr>) (mc_calls c)\<rparr>)"

definition mc_resolve :: "pyval \<Rightarrow> (waiting \<Rightarrow> waiting) \<Rightarrow> client \<Rightarrow> exn option \<times> client" where
  "mc_resolve lbl f c =
     (case lbl of
        PStr l \<Rightarrow> (None, case dict_get (mc_pending c) l of None \<Rightarrow> c | Some r \<Rightarrow> set_state r f c)
      | _ \<Rightarrow> (if hashable lbl then None else Some TypeError, c))"

definition rpc_error_text :: string where
  "rpc_error_text = utf8 [208, 190, 209, 136, 208, 184, 208, 177, 208, 186, 208, 176, 32, 82, 80, 67]"

definition link_lost_text :: string where
  "link_lost_text = utf8 [209, 129, 208, 190, 208, 181, 208, 180, 208, 184, 208, 189, 208, 181, 208, 189, 208, 184, 208, 181,
     32, 209, 129, 32, 209, 128, 208, 181, 209, 136, 209, 145, 209, 130, 208, 186, 208, 190, 208, 185, 32, 209, 128, 208, 176,
     208, 183, 208, 190, 209, 128, 208, 178, 208, 176, 208, 189, 208, 190]"

definition body_list :: "(string, pyval) dict \<Rightarrow> string \<Rightarrow> exn + pyval" where
  "body_list p k = map_sum id (\<lambda>v. py_or v (PList [])) (val_get (py_or (get_default p ''data'' PNone) (PDict [])) k PNone)"

definition on_pack :: "pyval \<Rightarrow> client \<Rightarrow> exn option \<times> client" where
  "on_pack v c =
     (case v of
        PDict p \<Rightarrow>
          (let t = get_default p ''type'' PNone; lbl = get_default p ''label'' PNone
           in if t = PStr ''response'' then mc_resolve lbl (w_result_update (\<lambda>_. Some (get_default p ''data'' PNone))) c
              else if t = PStr ''error'' then
                mc_resolve lbl (w_error_update (\<lambda>_. Some (py_or (get_default p ''error'' PNone) (PStr rpc_error_text)))) c
              else if t = PStr ''gossip'' then
                (case body_list p ''neighbors'' of Inl x \<Rightarrow> (Some x, c) | Inr ns \<Rightarrow> (None, c\<lparr>mc_nodes := ns\<rparr>))
              else if t = PStr ''announce'' then
                (case body_list p ''services'' of Inl x \<Rightarrow> (Some x, c) | Inr ss \<Rightarrow> (None, c\<lparr>mc_services := ss\<rparr>))
              else (None, c))
      | _ \<Rightarrow> (Some AttributeError, c))"

text \<open>The two halves of \<open>_resolve_all\<close>.\<close>

definition mark_all :: "client \<Rightarrow> client" where
  "mark_all c = fold (\<lambda>r. set_state r (w_error_update (\<lambda>_. Some (PStr link_lost_text)))) (dict_values (mc_pending c)) c"

definition clear_all :: "client \<Rightarrow> client" where
  "clear_all c = c\<lparr>mc_pending := []\<rparr>"

section \<open>The receiving thread\<close>

datatype frame_end = Go_on | Pong bytes | Link_ends string

text \<open>
  One read of the receive loop; \<open>unpack\<close> is msgpack. A pause and a frame that is not a complete
  binary message are skipped, anything that raises ends the link.
\<close>

definition recv_step ::
  "(bytes \<Rightarrow> exn + pyval) \<Rightarrow> (exn \<Rightarrow> string) \<Rightarrow> ws_error + byte \<times> byte \<times> bytes \<Rightarrow> client \<Rightarrow> frame_end \<times> client" where
  "recv_step unpack str fr c =
     (case fr of
        Inl Timed_out \<Rightarrow> (Go_on, c)
      | Inl x \<Rightarrow> (Link_ends ''closed'', c)
      | Inr (fin, op, payload) \<Rightarrow>
          if op = 0x9 then (Pong payload, c)
          else if op = 0x8 then (Link_ends ''closed by server'', c)
          else if op = 0xA then (Go_on, c)
          else if op \<noteq> 0x2 \<or> fin = 0 then (Go_on, c)
          else (case unpack payload of
                  Inl _ \<Rightarrow> (Go_on, c)
                | Inr v \<Rightarrow> (case on_pack v c of (None, c') \<Rightarrow> (Go_on, c') | (Some x, c') \<Rightarrow> (Link_ends (str x), c'))))"

definition link_up :: "string \<Rightarrow> client \<Rightarrow> client" where
  "link_up ver c = c\<lparr>mc_version := ver, mc_ws := Some True, mc_connected := True, mc_last_error := []\<rparr>"

definition link_down :: "string \<Rightarrow> client \<Rightarrow> client" where
  "link_down err c = c\<lparr>mc_last_error := err, mc_connected := False, mc_ws := None\<rparr>"

definition hello_dict :: "client_env \<Rightarrow> string \<Rightarrow> client \<Rightarrow> (string, pyval) dict" where
  "hello_dict e lbl c =
     [(''type'', PStr ''hello''), (''source'', PStr (mc_node c)), (''dst'', PStr (mc_target c)),
      (''data'', PDict [(''node_id'', PStr (mc_node c)), (''host'', PStr ''127.0.0.1''), (''port'', PInt 0),
         (''version'', PStr ''2.0''), (''session_id'', PStr (mc_session c)), (''services'', PList []),
         (''sig'', PStr (case sign_hello (cl_mac e) (mc_node c) (mc_session c) (Some (mc_secret c)) of
                           None \<Rightarrow> [] | Some s \<Rightarrow> s))]),
      (''label'', PStr lbl)]"

datatype ack = Hello_acked string | Refused pyval | No_ack | Hs_closed | Hs_raised exn

text \<open>The frames before the deadline: the version of the peer that acknowledged, or why not.\<close>

fun await_hello :: "client_env \<Rightarrow> (bytes \<Rightarrow> exn + pyval) \<Rightarrow> (ws_error + byte \<times> byte \<times> bytes) list \<Rightarrow> ack" where
  "await_hello e unpack [] = No_ack"
| "await_hello e unpack (Inl Timed_out # fs) = No_ack"
| "await_hello e unpack (Inl x # fs) = Hs_closed"
| "await_hello e unpack (Inr (fin, op, payload) # fs) =
     (if op = 0x8 then Hs_closed
      else if op \<noteq> 0x2 then await_hello e unpack fs
      else (case unpack payload of
              Inl _ \<Rightarrow> await_hello e unpack fs
            | Inr (PDict p) \<Rightarrow>
                if get_default p ''type'' PNone = PStr ''hello_ack'' then
                  (case val_get (py_or (get_default p ''data'' PNone) (PDict [])) ''version'' PNone of
                     Inl x \<Rightarrow> Hs_raised x | Inr v \<Rightarrow> Hello_acked (str_of e (py_or v (PStr []))))
                else if get_default p ''type'' PNone = PStr ''hello_reject'' then
                  (case val_get (py_or (get_default p ''data'' PNone) (PDict [])) ''reason'' PNone of
                     Inl x \<Rightarrow> Hs_raised x | Inr v \<Rightarrow> Refused v)
                else await_hello e unpack fs
            | Inr _ \<Rightarrow> Hs_raised AttributeError))"

section \<open>Runs of a client\<close>

datatype client_event =
    C_call string string string pyval pyval "string option"
  | C_wake string nat
  | C_limit string string string
  | C_pack pyval
  | C_mark
  | C_clear
  | C_up string
  | C_down string

datatype client_obs = O_sent string nat | O_ret string "call_failure + pyval" | O_pack pyval | O_marked

fun client_step :: "client_env \<Rightarrow> client_event \<Rightarrow> client \<Rightarrow> client_obs list \<times> client" where
  "client_step e (C_call lbl svc mth v d fault) c =
     (case mc_call e lbl svc mth v d fault c of
        (Inl x, c') \<Rightarrow> ((if x = No_link then [] else [O_sent lbl (mc_next c)]) @ [O_ret lbl (Inl x)], c')
      | (Inr r, c') \<Rightarrow> ([O_sent lbl r], c'))"
| "client_step e (C_wake lbl r) c =
     (case mc_wake lbl r c of (None, c') \<Rightarrow> ([], c') | (Some x, c') \<Rightarrow> ([O_ret lbl x], c'))"
| "client_step e (C_limit lbl svc mth) c = (case mc_limit lbl svc mth c of (x, c') \<Rightarrow> ([O_ret lbl (Inl x)], c'))"
| "client_step e (C_pack v) c = ([O_pack v], snd (on_pack v c))"
| "client_step e C_mark c = ([O_marked], mark_all c)"
| "client_step e C_clear c = ([], clear_all c)"
| "client_step e (C_up ver) c = ([], link_up ver c)"
| "client_step e (C_down err) c = ([], link_down err c)"

fun client_run :: "client_env \<Rightarrow> client_event list \<Rightarrow> client \<Rightarrow> client_obs list \<times> client" where
  "client_run e [] c = ([], c)"
| "client_run e (x # xs) c = (let (os, c1) = client_step e x c; (os', c2) = client_run e xs c1 in (os @ os', c2))"

text \<open>The packets that answer label \<open>l\<close>, with a value or with an error.\<close>

definition responded :: "client_obs list \<Rightarrow> string \<Rightarrow> pyval \<Rightarrow> bool" where
  "responded os l v \<longleftrightarrow>
     (\<exists>p. O_pack (PDict p) \<in> set os \<and> get_default p ''type'' PNone = PStr ''response''
        \<and> get_default p ''label'' PNone = PStr l \<and> get_default p ''data'' PNone = v)"

definition refused :: "client_obs list \<Rightarrow> string \<Rightarrow> pyval \<Rightarrow> bool" where
  "refused os l v \<longleftrightarrow>
     (\<exists>p. O_pack (PDict p) \<in> set os \<and> get_default p ''type'' PNone = PStr ''error''
        \<and> get_default p ''label'' PNone = PStr l \<and> py_or (get_default p ''error'' PNone) (PStr rpc_error_text) = v)
     \<or> O_marked \<in> set os \<and> v = PStr link_lost_text"

definition client_inv :: "client_obs list \<Rightarrow> client \<Rightarrow> bool" where
  "client_inv os c \<longleftrightarrow>
     (\<forall>r. dict_get (mc_calls c) r \<noteq> None \<longrightarrow> r < mc_next c)
     \<and> (\<forall>l r. dict_get (mc_pending c) l = Some r \<longrightarrow> O_sent l r \<in> set os)
     \<and> (\<forall>l r. O_sent l r \<in> set os \<longrightarrow> r < mc_next c)
     \<and> (\<forall>l l' r. O_sent l r \<in> set os \<longrightarrow> O_sent l' r \<in> set os \<longrightarrow> l = l')
     \<and> (\<forall>r w l. dict_get (mc_calls c) r = Some w \<longrightarrow> O_sent l r \<in> set os \<longrightarrow>
          (\<forall>v. w_result w = Some v \<longrightarrow> responded os l v) \<and> (\<forall>v. w_error w = Some v \<longrightarrow> refused os l v))"

definition rets_ok :: "client_obs list \<Rightarrow> bool" where
  "rets_ok os \<longleftrightarrow>
     (\<forall>l v. O_ret l (Inr v) \<in> set os \<longrightarrow> v = PNone \<or> responded os l v)
     \<and> (\<forall>l v. O_ret l (Inl (Rpc_error v)) \<in> set os \<longrightarrow> refused os l v)"

lemma responded_mono: "responded os l v \<Longrightarrow> responded (os @ os') l v"
  and refused_mono: "refused os l v \<Longrightarrow> refused (os @ os') l v"
  by (auto simp: responded_def refused_def)

lemma set_state_simps [simp]:
  "mc_pending (set_state r f c) = mc_pending c" "mc_next (set_state r f c) = mc_next c"
  "dict_get (mc_calls (set_state r f c)) r' =
     (if r' = r then map_option (\<lambda>w. (f w)\<lparr>w_event := True\<rparr>) (dict_get (mc_calls c) r) else dict_get (mc_calls c) r')"
  by (simp_all add: set_state_def split: option.split)

lemma client_invD:
  assumes "client_inv os c"
  shows "dict_get (mc_calls c) r = Some w \<Longrightarrow> r < mc_next c"
    and "dict_get (mc_pending c) l = Some r \<Longrightarrow> O_sent l r \<in> set os"
    and "O_sent l r \<in> set os \<Longrightarrow> r < mc_next c"
    and "O_sent l r \<in> set os \<Longrightarrow> O_sent l' r \<in> set os \<Longrightarrow> l = l'"
    and "dict_get (mc_calls c) r = Some w \<Longrightarrow> O_sent l r \<in> set os \<Longrightarrow> w_result w = Some v \<Longrightarrow> responded os l v"
    and "dict_get (mc_calls c) r = Some w \<Longrightarrow> O_sent l r \<in> set os \<Longrightarrow> w_error w = Some v \<Longrightarrow> refused os l v"
  using assms unfolding client_inv_def by simp_all

lemma client_invI:
  assumes "\<And>r w. dict_get (mc_calls c) r = Some w \<Longrightarrow> r < mc_next c"
    and "\<And>l r. dict_get (mc_pending c) l = Some r \<Longrightarrow> O_sent l r \<in> set os"
    and "\<And>l r. O_sent l r \<in> set os \<Longrightarrow> r < mc_next c"
    and "\<And>l l' r. O_sent l r \<in> set os \<Longrightarrow> O_sent l' r \<in> set os \<Longrightarrow> l = l'"
    and "\<And>r w l v. dict_get (mc_calls c) r = Some w \<Longrightarrow> O_sent l r \<in> set os \<Longrightarrow> w_result w = Some v \<Longrightarrow> responded os l v"
    and "\<And>r w l v. dict_get (mc_calls c) r = Some w \<Longrightarrow> O_sent l r \<in> set os \<Longrightarrow> w_error w = Some v \<Longrightarrow> refused os l v"
  shows "client_inv os c"
  unfolding client_inv_def using assms by (intro conjI allI impI) (simp_all, blast)

text \<open>A step without a new call keeps the invariant when it keeps the table of calls or adds justified values.\<close>

lemma client_inv_change:
  assumes inv: "client_inv os c" and "mc_next c' = mc_next c"
    and pend: "\<And>l r. dict_get (mc_pending c') l = Some r \<Longrightarrow> dict_get (mc_pending c) l = Some r"
    and quiet: "\<And>l r. O_sent l r \<notin> set os'"
    and calls: "\<And>r w'. dict_get (mc_calls c') r = Some w' \<Longrightarrow> \<exists>w. dict_get (mc_calls c) r = Some w
      \<and> (\<forall>v l. w_result w' = Some v \<longrightarrow> O_sent l r \<in> set os \<longrightarrow> w_result w = Some v \<or> responded (os @ os') l v)
      \<and> (\<forall>v l. w_error w' = Some v \<longrightarrow> O_sent l r \<in> set os \<longrightarrow> w_error w = Some v \<or> refused (os @ os') l v)"
  shows "client_inv (os @ os') c'"
proof (rule client_invI)
  have old: "O_sent l r \<in> set os" if "O_sent l r \<in> set (os @ os')" for l r
    using that quiet by simp
  show "r < mc_next c'" if "dict_get (mc_calls c') r = Some w'" for r w'
    using calls [OF that] client_invD(1) [OF inv] assms(2) by auto
  show "O_sent l r \<in> set (os @ os')" if "dict_get (mc_pending c') l = Some r" for l r
    using client_invD(2) [OF inv pend [OF that]] by simp
  show "r < mc_next c'" if "O_sent l r \<in> set (os @ os')" for l r
    using client_invD(3) [OF inv old [OF that]] assms(2) by simp
  show "l = l'" if "O_sent l r \<in> set (os @ os')" "O_sent l' r \<in> set (os @ os')" for l l' r
    by (rule client_invD(4) [OF inv old [OF that(1)] old [OF that(2)]])
  show "responded (os @ os') l v"
    if "dict_get (mc_calls c') r = Some w'" "O_sent l r \<in> set (os @ os')" "w_result w' = Some v" for r w' l v
    using calls [OF that(1)] old [OF that(2)] that(3) client_invD(5) [OF inv] responded_mono by meson
  show "refused (os @ os') l v"
    if "dict_get (mc_calls c') r = Some w'" "O_sent l r \<in> set (os @ os')" "w_error w' = Some v" for r w' l v
    using calls [OF that(1)] old [OF that(2)] that(3) client_invD(6) [OF inv] refused_mono by meson
qed

lemma client_mark_all_get:
  "dict_get (mc_calls (mark_all c)) r =
     (if r \<in> set (dict_values (mc_pending c))
      then map_option (\<lambda>w. w\<lparr>w_error := Some (PStr link_lost_text), w_event := True\<rparr>) (dict_get (mc_calls c) r)
      else dict_get (mc_calls c) r)"
  "mc_pending (mark_all c) = mc_pending c" "mc_next (mark_all c) = mc_next c"
proof -
  let ?g = "\<lambda>r. set_state r (w_error_update (\<lambda>_. Some (PStr link_lost_text)))"
  have "dict_get (mc_calls (fold ?g rs c)) r =
     (if r \<in> set rs then map_option (\<lambda>w. w\<lparr>w_error := Some (PStr link_lost_text), w_event := True\<rparr>) (dict_get (mc_calls c) r)
      else dict_get (mc_calls c) r) \<and> mc_pending (fold ?g rs c) = mc_pending c \<and> mc_next (fold ?g rs c) = mc_next c" for rs
    by (induction rs arbitrary: c) (auto simp: option.map_comp comp_def)
  then show "dict_get (mc_calls (mark_all c)) r =
     (if r \<in> set (dict_values (mc_pending c))
      then map_option (\<lambda>w. w\<lparr>w_error := Some (PStr link_lost_text), w_event := True\<rparr>) (dict_get (mc_calls c) r)
      else dict_get (mc_calls c) r)"
    "mc_pending (mark_all c) = mc_pending c" "mc_next (mark_all c) = mc_next c"
    by (simp_all add: mark_all_def)
qed

lemma client_step_call:
  assumes inv: "client_inv os c"
  shows "client_inv (os @ fst (client_step e (C_call lbl svc mth v d fault) c)) (snd (client_step e (C_call lbl svc mth v d fault) c))"
proof (cases "\<not> mc_connected c \<or> mc_ws c = None")
  case True
  then show ?thesis by (simp add: mc_call_def) (rule client_inv_change [OF inv]; auto)
next
  case False
  let ?st = "client_step e (C_call lbl svc mth v d fault) c"
  have nx: "mc_next (snd ?st) = Suc (mc_next c)" and
    cs: "mc_calls (snd ?st) = dict_set (mc_next c) \<lparr>w_event = False, w_result = None, w_error = None\<rparr> (mc_calls c)" and
    os: "O_sent l r \<in> set (fst ?st) \<longleftrightarrow> l = lbl \<and> r = mc_next c" and
    pd: "dict_get (mc_pending (snd ?st)) l = Some r \<Longrightarrow> l = lbl \<and> r = mc_next c \<or> dict_get (mc_pending c) l = Some r" for l r
    using False by (cases fault; auto simp: mc_call_def Let_def drop_conn_def split: if_splits)+
  have fresh: "O_sent l (mc_next c) \<notin> set os" for l
    using client_invD(3) [OF inv, of l "mc_next c"] by auto
  have cget: "r \<noteq> mc_next c \<and> dict_get (mc_calls c) r = Some w \<or> r = mc_next c \<and> w = \<lparr>w_event = False, w_result = None, w_error = None\<rparr>"
    if "dict_get (mc_calls (snd ?st)) r = Some w" for r w
    using that unfolding cs by (auto split: if_splits)
  have old: "O_sent l r \<in> set os" if "O_sent l r \<in> set (os @ fst ?st)" "r \<noteq> mc_next c" for l r
    using that os by auto
  show ?thesis
  proof (rule client_invI)
    show "r < mc_next (snd ?st)" if "dict_get (mc_calls (snd ?st)) r = Some w" for r w
      using cget [OF that] client_invD(1) [OF inv, of r w] nx by auto
    show "O_sent l r \<in> set (os @ fst ?st)" if "dict_get (mc_pending (snd ?st)) l = Some r" for l r
      using pd [OF that] client_invD(2) [OF inv, of l r] os by auto
    show "r < mc_next (snd ?st)" if "O_sent l r \<in> set (os @ fst ?st)" for l r
      using that client_invD(3) [OF inv, of l r] nx os by auto
    show "l = l'" if "O_sent l r \<in> set (os @ fst ?st)" "O_sent l' r \<in> set (os @ fst ?st)" for l l' r
      using that client_invD(4) [OF inv, of l r l'] os fresh by (cases "r = mc_next c") simp_all
    show "responded (os @ fst ?st) l x"
      if "dict_get (mc_calls (snd ?st)) r = Some w" "O_sent l r \<in> set (os @ fst ?st)" "w_result w = Some x" for r w l x
      using cget [OF that(1)] old [OF that(2)] that(3) client_invD(5) [OF inv, of r w l x] responded_mono by auto
    show "refused (os @ fst ?st) l x"
      if "dict_get (mc_calls (snd ?st)) r = Some w" "O_sent l r \<in> set (os @ fst ?st)" "w_error w = Some x" for r w l x
      using cget [OF that(1)] old [OF that(2)] that(3) client_invD(6) [OF inv, of r w l x] refused_mono by auto
  qed
qed

lemma client_step_pack:
  assumes "client_inv os c"
  shows "client_inv (os @ [O_pack v]) (snd (on_pack v c))"
proof -
  have same: "client_inv (os @ [O_pack v]) c'"
    if "mc_calls c' = mc_calls c" "mc_pending c' = mc_pending c" "mc_next c' = mc_next c" for c'
    by (rule client_inv_change [OF assms]) (use that in auto)
  have res: "client_inv (os @ [O_pack v]) (snd (mc_resolve lbl f c))"
    if just: "\<And>l w x. lbl = PStr l \<Longrightarrow> w_result (f w) = Some x \<Longrightarrow> w_result w = Some x \<or> responded [O_pack v] l x"
      "\<And>l w x. lbl = PStr l \<Longrightarrow> w_error (f w) = Some x \<Longrightarrow> w_error w = Some x \<or> refused [O_pack v] l x" for lbl f
  proof (cases "\<exists>l r. lbl = PStr l \<and> dict_get (mc_pending c) l = Some r")
    case True
    then obtain l r where l: "lbl = PStr l" "dict_get (mc_pending c) l = Some r" by blast
    have own: "l' = l" if "O_sent l' r \<in> set os" for l'
      using that l(2) assms unfolding client_inv_def by blast
    have j: "w_result w = Some x \<or> responded (os @ [O_pack v]) l x" if "w_result (f w) = Some x" for w x
      using just(1) [OF l(1) that] by (auto simp: responded_def)
    have k: "w_error w = Some x \<or> refused (os @ [O_pack v]) l x" if "w_error (f w) = Some x" for w x
      using just(2) [OF l(1) that] by (auto simp: refused_def)
    have "snd (mc_resolve lbl f c) = set_state r f c" using l by (simp add: mc_resolve_def)
    moreover have "client_inv (os @ [O_pack v]) (set_state r f c)"
    proof (rule client_inv_change [OF assms])
      fix r' w' assume w': "dict_get (mc_calls (set_state r f c)) r' = Some w'"
      show "\<exists>w. dict_get (mc_calls c) r' = Some w
        \<and> (\<forall>v' l'. w_result w' = Some v' \<longrightarrow> O_sent l' r' \<in> set os \<longrightarrow> w_result w = Some v' \<or> responded (os @ [O_pack v]) l' v')
        \<and> (\<forall>v' l'. w_error w' = Some v' \<longrightarrow> O_sent l' r' \<in> set os \<longrightarrow> w_error w = Some v' \<or> refused (os @ [O_pack v]) l' v')"
      proof (cases "r' = r")
        case True
        with w' obtain w where "dict_get (mc_calls c) r = Some w" "w' = (f w)\<lparr>w_event := True\<rparr>" by auto
        with True show ?thesis using own j [of w] k [of w] by auto
      next
        case False
        with w' show ?thesis by auto
      qed
    qed simp_all
    ultimately show ?thesis by simp
  next
    case False
    then have "snd (mc_resolve lbl f c) = c" by (auto simp: mc_resolve_def split: pyval.split option.split)
    with same show ?thesis by simp
  qed
  show ?thesis
  proof (cases v)
    case (PDict p)
    let ?t = "get_default p ''type'' PNone" and ?l = "get_default p ''label'' PNone"
    have "client_inv (os @ [O_pack v]) (snd (mc_resolve ?l (w_result_update (\<lambda>_. Some (get_default p ''data'' PNone))) c))"
      if "?t = PStr ''response''"
      by (rule res) (use that PDict in \<open>auto simp: responded_def\<close>)
    moreover have "client_inv (os @ [O_pack v])
        (snd (mc_resolve ?l (w_error_update (\<lambda>_. Some (py_or (get_default p ''error'' PNone) (PStr rpc_error_text)))) c))"
      if "?t = PStr ''error''"
      by (rule res) (use that PDict in \<open>auto simp: refused_def\<close>)
    ultimately show ?thesis
      using PDict same by (simp add: on_pack_def Let_def split: sum.split)
  qed (use same in \<open>simp_all add: on_pack_def\<close>)
qed

lemma client_step_mark:
  assumes "client_inv os c"
  shows "client_inv (os @ [O_marked]) (mark_all c)"
proof (rule client_inv_change [OF assms])
  fix r w' assume w': "dict_get (mc_calls (mark_all c)) r = Some w'"
  then obtain w where w: "dict_get (mc_calls c) r = Some w"
    "w' = w \<or> w' = w\<lparr>w_error := Some (PStr link_lost_text), w_event := True\<rparr>"
    by (auto simp: client_mark_all_get split: if_splits)
  show "\<exists>w. dict_get (mc_calls c) r = Some w
      \<and> (\<forall>v l. w_result w' = Some v \<longrightarrow> O_sent l r \<in> set os \<longrightarrow> w_result w = Some v \<or> responded (os @ [O_marked]) l v)
      \<and> (\<forall>v l. w_error w' = Some v \<longrightarrow> O_sent l r \<in> set os \<longrightarrow> w_error w = Some v \<or> refused (os @ [O_marked]) l v)"
    using w(2) by (intro exI [of _ w] conjI w(1)) (auto simp: refused_def)
qed (simp_all add: client_mark_all_get)

text \<open>What leaves the table of pending calls.\<close>

lemma client_wake_parts:
  "mc_wake lbl r c = (x, c') \<Longrightarrow> mc_calls c' = mc_calls c \<and> mc_next c' = mc_next c
     \<and> (mc_pending c' = mc_pending c \<or> mc_pending c' = dict_pop lbl (mc_pending c))"
  by (auto simp: mc_wake_def split: if_splits)

lemma client_pending_kept:
  assumes "client_inv os c" "mc_calls c' = mc_calls c" "mc_next c' = mc_next c"
    and "\<And>l r. dict_get (mc_pending c') l = Some r \<Longrightarrow> dict_get (mc_pending c) l = Some r"
    and "\<And>l r. O_sent l r \<notin> set os'"
  shows "client_inv (os @ os') c'"
  by (rule client_inv_change [OF assms(1,3-5)]) (simp_all add: assms(2))

text \<open>Connecting and losing the link leave the calls alone.\<close>

lemma link_inv: "client_inv os c \<Longrightarrow> client_inv os (link_up ver c)" "client_inv os c \<Longrightarrow> client_inv os (link_down err c)"
  by (simp_all add: client_inv_def link_up_def link_down_def)

lemma client_step_inv:
  assumes inv: "client_inv os c"
  shows "client_inv (os @ fst (client_step e x c)) (snd (client_step e x c))"
proof (cases x)
  case (C_call lbl svc mth v d fault)
  then show ?thesis using client_step_call [OF inv] by simp
next
  case (C_wake lbl r)
  obtain y c' where w: "mc_wake lbl r c = (y, c')" by force
  have "client_inv (os @ os') c'" if "\<And>l r. O_sent l r \<notin> set os'" for os'
    using client_wake_parts [OF w] by (intro client_pending_kept [OF inv _ _ _ that]) (auto split: if_splits)
  from this [of "[]"] this [of "[O_ret lbl (the y)]"] show ?thesis using C_wake w by (cases y) simp_all
next
  case (C_limit lbl svc mth)
  have "client_inv (os @ [O_ret lbl (Inl (Rpc_timeout svc mth))]) (c\<lparr>mc_pending := dict_pop lbl (mc_pending c)\<rparr>)"
    by (rule client_pending_kept [OF inv]) (auto split: if_splits)
  then show ?thesis using C_limit by (simp add: mc_limit_def)
next
  case C_clear
  have "client_inv (os @ []) (clear_all c)" by (rule client_pending_kept [OF inv]) (auto simp: clear_all_def)
  then show ?thesis using C_clear by simp
qed (simp_all add: client_step_pack [OF inv] client_step_mark [OF inv] link_inv [OF inv])

text \<open>What a step returns is justified by what was observed before it.\<close>

lemma client_step_rets:
  assumes inv: "client_inv os c" and ret: "O_ret l z \<in> set (fst (client_step e x c))"
  shows "(\<forall>v. z = Inr v \<longrightarrow> v = PNone \<or> responded os l v) \<and> (\<forall>v. z = Inl (Rpc_error v) \<longrightarrow> refused os l v)"
proof (cases x)
  case (C_call lbl svc mth v d fault)
  then have "z = Inl No_link \<or> (\<exists>err. z = Inl (Send_failed err))"
    using ret by (auto simp: mc_call_def Let_def split: if_splits option.splits)
  then show ?thesis by auto
next
  case (C_wake lbl r)
  then have l: "lbl = l" and out: "z = (case entry_of c l of None \<Rightarrow> Inr PNone
      | Some w \<Rightarrow> (case w_error w of Some err \<Rightarrow> Inl (Rpc_error err) | None \<Rightarrow> Inr (case w_result w of None \<Rightarrow> PNone | Some v \<Rightarrow> v)))"
    using ret by (auto simp: mc_wake_def split: if_splits)
  show ?thesis
  proof (cases "entry_of c l")
    case None
    then show ?thesis using out by simp
  next
    case (Some w)
    then obtain r' where r': "dict_get (mc_pending c) l = Some r'" "dict_get (mc_calls c) r' = Some w"
      by (auto simp: entry_of_def bind_eq_Some_conv)
    have sent: "O_sent l r' \<in> set os" by (rule client_invD(2) [OF inv r'(1)])
    show ?thesis
      using out Some client_invD(5) [OF inv r'(2) sent] client_invD(6) [OF inv r'(2) sent]
      by (simp split: option.splits)
  qed
qed (use ret in \<open>auto simp: mc_limit_def\<close>)

lemma client_run_keeps:
  "client_inv os c \<Longrightarrow> rets_ok os \<Longrightarrow> rets_ok (os @ fst (client_run e xs c)) \<and> client_inv (os @ fst (client_run e xs c)) (snd (client_run e xs c))"
proof (induction xs arbitrary: os c)
  case (Cons x xs)
  let ?st = "client_step e x c"
  have "rets_ok (os @ fst ?st)"
    unfolding rets_ok_def
  proof (intro conjI allI impI)
    show "v = PNone \<or> responded (os @ fst ?st) l v" if "O_ret l (Inr v) \<in> set (os @ fst ?st)" for l v
      using that Cons.prems(2) client_step_rets [OF Cons.prems(1), of l "Inr v" e x] responded_mono [of os l v "fst ?st"]
      unfolding rets_ok_def by (cases "O_ret l (Inr v) \<in> set os") auto
    show "refused (os @ fst ?st) l v" if "O_ret l (Inl (Rpc_error v)) \<in> set (os @ fst ?st)" for l v
      using that Cons.prems(2) client_step_rets [OF Cons.prems(1), of l "Inl (Rpc_error v)" e x] refused_mono [of os l v "fst ?st"]
      unfolding rets_ok_def by auto
  qed
  with Cons.IH [OF client_step_inv [OF Cons.prems(1), of e x]] show ?case
    by (simp add: split_beta Let_def)
qed simp

lemma new_client_inv: "new_client e sess cfg = Inr c \<Longrightarrow> client_inv [] c"
  by (auto simp: new_client_def client_inv_def split: sum.splits)

text \<open>C22: Whatever order the calling threads and the receiving thread of a client run in, and whatever the
  peer sends, the value a call returns is the \<open>data\<close> of a response that carries the label of that call,
  or \<open>None\<close>; and the error it raises for the peer is the text of an error packet that carries its label, or
  the text of a lost link, which only a lost link gives.\<close>

theorem call_returns_only_its_response:
  assumes "new_client e sess cfg = Inr c0"
    and "client_run e xs c0 = (os, c)"
  shows "(O_ret l (Inr v) \<in> set os \<longrightarrow> v = PNone \<or> responded os l v)
    \<and> (O_ret l (Inl (Rpc_error v)) \<in> set os \<longrightarrow> refused os l v)"
proof -
  from client_run_keeps [OF new_client_inv [OF assms(1)], of e xs] have "rets_ok os" using assms(2) by (simp add: rets_ok_def)
  then show ?thesis by (simp add: rets_ok_def)
qed

definition ex_cl_env :: client_env where
  "ex_cl_env = \<lparr>cl_repr = (\<lambda>_. []), cl_float = (\<lambda>v. case v of PInt n \<Rightarrow> Inr (real_of_int n) | _ \<Rightarrow> Inl TypeError),
     cl_mac = (\<lambda>s t. s @ t)\<rparr>"

definition ex_client :: client where
  "ex_client = (case new_client ex_cl_env ''s'' [] of Inr c \<Rightarrow> c)"

definition ex_response :: "string \<Rightarrow> int \<Rightarrow> pyval" where
  "ex_response l n = PDict [(''type'', PStr ''response''), (''data'', PInt n), (''label'', PStr l)]"

text \<open>Two calls whose responses come back in the other order.\<close>

definition ex_calls :: "client_event list" where
  "ex_calls = [C_up ''2.0'', C_call ''a'' ''files'' ''info'' PNone PNone None, C_call ''b'' ''files'' ''list_dir'' PNone PNone None,
     C_pack (ex_response ''b'' 2), C_pack (ex_response ''a'' 1), C_wake ''a'' 0, C_wake ''b'' 1]"

lemma ex_client_new: "new_client ex_cl_env ''s'' [] = Inr ex_client"
  by (simp add: ex_client_def new_client_def ex_cl_env_def cfg_or_def py_or_def get_default_def)

lemma ex_calls_run: "fst (client_run ex_cl_env ex_calls ex_client) =
    [O_sent ''a'' 0, O_sent ''b'' 1, O_pack (ex_response ''b'' 2), O_pack (ex_response ''a'' 1),
     O_ret ''a'' (Inr (PInt 1)), O_ret ''b'' (Inr (PInt 2))]"
  by code_simp

theorem call_returns_only_its_response_witness:
  "O_ret ''b'' (Inr (PInt 2)) \<in> set (fst (client_run ex_cl_env ex_calls ex_client))
    \<and> (PInt 2 = PNone \<or> responded (fst (client_run ex_cl_env ex_calls ex_client)) ''b'' (PInt 2))"
proof -
  have "O_ret ''b'' (Inr (PInt 2)) \<in> set (fst (client_run ex_cl_env ex_calls ex_client))"
    unfolding ex_calls_run by simp
  with call_returns_only_its_response [OF ex_client_new prod.collapse [symmetric], of "''b''" "PInt 2" ex_calls]
  show ?thesis by blast
qed

text \<open>When the link is lost, what a waiting call gives its caller depends on when its thread runs. Between
  the two halves of \<open>_resolve_all\<close> it raises the lost link; after the table was cleared its entry is gone,
  and the call returns \<open>None\<close>, as if the peer had answered it with no data.\<close>

theorem lost_link_returns_none:
  assumes "dict_get (mc_pending c) l = Some r" and "dict_get (mc_calls c) r = Some w"
  shows "fst (client_run e [C_mark, C_wake l r, C_clear] c) = [O_marked, O_ret l (Inl (Rpc_error (PStr link_lost_text)))]
    \<and> fst (client_run e [C_mark, C_clear, C_wake l r] c) = [O_marked, O_ret l (Inr PNone)]"
proof -
  have r: "r \<in> set (dict_values (mc_pending c))"
    using assms(1) by (rule dict_get_values)
  have "mc_wake l r (mark_all c) = (Some (Inl (Rpc_error (PStr link_lost_text))), (mark_all c)\<lparr>mc_pending := dict_pop l (mc_pending c)\<rparr>)"
    using assms r by (simp add: mc_wake_def entry_of_def client_mark_all_get)
  moreover have "fst (mc_wake l r (clear_all (mark_all c))) = Some (Inr PNone)"
    using assms r by (simp add: mc_wake_def entry_of_def client_mark_all_get clear_all_def)
  ultimately show ?thesis by (simp add: split_beta split: prod.splits option.splits)
qed

theorem lost_link_returns_none_witness:
  "fst (client_run ex_cl_env [C_mark, C_clear, C_wake ''b'' 1]
      (snd (client_run ex_cl_env (take 3 ex_calls) ex_client))) = [O_marked, O_ret ''b'' (Inr PNone)]"
proof -
  have "dict_get (mc_pending (snd (client_run ex_cl_env (take 3 ex_calls) ex_client))) ''b'' = Some 1"
    "dict_get (mc_calls (snd (client_run ex_cl_env (take 3 ex_calls) ex_client))) 1 = Some \<lparr>w_event = False, w_result = None, w_error = None\<rparr>"
    by code_simp+
  from lost_link_returns_none [OF this] show ?thesis by blast
qed

section \<open>The hub\<close>

record hub =
  hub_enabled :: bool
  hub_node :: string
  hub_clients :: "client list"
  hub_target :: string

definition default_targets :: "(string, pyval) dict \<Rightarrow> pyval list" where
  "default_targets cfg = [PDict [(''node_id'', get_default cfg ''target_node'' PNone), (''port'', get_default cfg ''port'' PNone)]]"

definition target_cfg :: "(string, pyval) dict \<Rightarrow> pyval \<Rightarrow> exn + (string, pyval) dict" where
  "target_cfg cfg t =
     (case (val_get t ''node_id'' PNone, val_get t ''port'' PNone) of
        (Inr n, Inr p) \<Rightarrow> Inr (dict_set ''port'' (py_or p (get_default cfg ''port'' PNone))
                              (dict_set ''target_node'' (py_or n (get_default cfg ''target_node'' PNone)) cfg))
      | _ \<Rightarrow> Inl AttributeError)"

text \<open>The clients in the order of the targets; \<open>sess\<close> gives the session id of each.\<close>

fun hub_links :: "client_env \<Rightarrow> (nat \<Rightarrow> string) \<Rightarrow> (string, pyval) dict \<Rightarrow> nat \<Rightarrow> pyval list \<Rightarrow> exn + client list" where
  "hub_links e sess cfg i [] = Inr []"
| "hub_links e sess cfg i (t # ts) =
     (case target_cfg cfg t of
        Inl x \<Rightarrow> Inl x
      | Inr d \<Rightarrow> (case new_client e (sess i) d of
                    Inl x \<Rightarrow> Inl x
                  | Inr c \<Rightarrow> map_sum id (Cons c) (hub_links e sess cfg (Suc i) ts)))"

definition new_hub :: "client_env \<Rightarrow> (nat \<Rightarrow> string) \<Rightarrow> (string, pyval) dict \<Rightarrow> exn + hub" where
  "new_hub e sess cfg =
     (case py_iter (py_or (get_default cfg ''targets'' PNone) (PList (default_targets cfg))) of
        Inl x \<Rightarrow> Inl x
      | Inr ts \<Rightarrow>
          (case hub_links e sess cfg 0 ts of
             Inl x \<Rightarrow> Inl x
           | Inr cs \<Rightarrow> Inr \<lparr>hub_enabled = truthy (get_default cfg ''enabled'' (PBool True)),
               hub_node = str_of e (cfg_or cfg ''node_id'' (PStr ''NetPulseHub'')), hub_clients = cs,
               hub_target = (case cs of [] \<Rightarrow> [] | c # _ \<Rightarrow> mc_target c)\<rparr>))"

definition hub_connected :: "hub \<Rightarrow> bool" where
  "hub_connected h = list_ex mc_connected (hub_clients h)"

text \<open>The index of the client a call is sent through; \<open>lower\<close> is \<open>str.lower\<close>.\<close>

fun find_index :: "('a \<Rightarrow> bool) \<Rightarrow> 'a list \<Rightarrow> nat option" where
  "find_index P [] = None"
| "find_index P (x # xs) = (if P x then Some 0 else map_option Suc (find_index P xs))"

lemma find_index_Some: "find_index P xs = Some i \<Longrightarrow> i < length xs \<and> P (xs ! i) \<and> (\<forall>j < i. \<not> P (xs ! j))"
  by (induction xs arbitrary: i) (auto split: if_splits simp: less_Suc_eq_0_disj)

lemma find_index_None: "find_index P xs = None \<longleftrightarrow> (\<forall>x \<in> set xs. \<not> P x)"
  by (induction xs) auto

definition hub_pick :: "(string \<Rightarrow> string) \<Rightarrow> string option \<Rightarrow> hub \<Rightarrow> nat option" where
  "hub_pick lower to h =
     (let named = (case to of None \<Rightarrow> None | Some [] \<Rightarrow> None
                   | Some d \<Rightarrow> find_index (\<lambda>c. lower (mc_target c) = lower d) (hub_clients h))
      in case named of
           Some i \<Rightarrow> Some i
         | None \<Rightarrow> (case find_index mc_connected (hub_clients h) of
                      Some i \<Rightarrow> Some i
                    | None \<Rightarrow> if hub_clients h = [] then None else Some 0))"

definition hub_call ::
  "client_env \<Rightarrow> (string \<Rightarrow> string) \<Rightarrow> string \<Rightarrow> string \<Rightarrow> string \<Rightarrow> pyval \<Rightarrow> string option \<Rightarrow> string option \<Rightarrow> hub
     \<Rightarrow> (call_failure + nat \<times> nat) \<times> hub" where
  "hub_call e lower lbl svc mth v to fault h =
     (case hub_pick lower to h of
        None \<Rightarrow> (Inl No_link, h)
      | Some i \<Rightarrow>
          (let c = hub_clients h ! i;
               d = (case to of None \<Rightarrow> mc_target c | Some [] \<Rightarrow> mc_target c | Some d \<Rightarrow> d)
           in case mc_call e lbl svc mth v (PStr d) fault c of
                (res, c') \<Rightarrow> (map_sum id (Pair i) res, h\<lparr>hub_clients := (hub_clients h)[i := c']\<rparr>)))"

text \<open>The pick never leaves the list, and a connected link is used when there is one.\<close>

lemma hub_pick_in_range: "hub_pick lower to h = Some i \<Longrightarrow> i < length (hub_clients h)"
  by (cases "hub_clients h") (auto simp: hub_pick_def Let_def dest!: find_index_Some split: option.splits list.splits if_splits)

lemma hub_pick_connected:
  "hub_connected h \<Longrightarrow> to = None \<Longrightarrow> \<exists>i. hub_pick lower to h = Some i \<and> mc_connected (hub_clients h ! i)"
  by (auto simp: hub_pick_def hub_connected_def list_ex_iff find_index_None split: option.split dest: find_index_Some)

section \<open>Status and keepalive\<close>

definition client_uri :: "client \<Rightarrow> string" where
  "client_uri c = ''ws://'' @ mc_host c @ '':'' @ string_of_int (mc_port c) @ ''/ws/'' @ mc_node c"

definition client_status :: "client \<Rightarrow> (string, pyval) dict" where
  "client_status c =
     [(''enabled'', PBool (mc_enabled c)), (''connected'', PBool (mc_connected c \<and> mc_ws c = Some True)),
      (''node_id'', PStr (mc_node c)), (''target_node'', PStr (mc_target c)), (''uri'', PStr (client_uri c)),
      (''peer_version'', PStr (mc_version c)), (''last_error'', PStr (mc_last_error c)),
      (''nodes'', mc_nodes c), (''services'', mc_services c)]"

definition add_new :: "'a \<Rightarrow> 'a list \<Rightarrow> 'a list" where
  "add_new x xs = (if x \<in> set xs then xs else xs @ [x])"

text \<open>The items of every link without repetitions; the lists are what the peers sent, so they may not be lists.\<close>

fun gather :: "(client \<Rightarrow> pyval) \<Rightarrow> client list \<Rightarrow> pyval list \<Rightarrow> exn + pyval list" where
  "gather f [] acc = Inr acc"
| "gather f (c # cs) acc =
     (case py_iter (py_or (f c) (PList [])) of Inl x \<Rightarrow> Inl x | Inr vs \<Rightarrow> gather f cs (fold add_new vs acc))"

definition hub_status :: "hub \<Rightarrow> exn + (string, pyval) dict" where
  "hub_status h =
     (let cs = hub_clients h; errs = filter (\<lambda>s. s \<noteq> []) (map mc_last_error cs)
      in case (gather mc_nodes cs [], gather mc_services cs []) of
           (Inr ns, Inr ss) \<Rightarrow> Inr
             [(''enabled'', PBool (hub_enabled h)),
              (''connected'', PBool (list_ex (\<lambda>c. mc_connected c \<and> mc_ws c = Some True) cs)),
              (''node_id'', PStr (hub_node h)), (''target_node'', PStr (join '', '' (map mc_target cs))),
              (''uri'', PStr (join ''; '' (map client_uri cs))),
              (''peer_version'', PStr (case filter (\<lambda>s. s \<noteq> []) (map mc_version cs) of [] \<Rightarrow> [] | v # _ \<Rightarrow> v)),
              (''last_error'', PStr (take 400 (join '' | '' (fold add_new errs [])))),
              (''nodes'', PList ns), (''services'', PList ss),
              (''links'', PList (map (PDict \<circ> client_status) cs))]
         | (Inl x, _) \<Rightarrow> Inl x
         | (_, Inl x) \<Rightarrow> Inl x)"

text \<open>
  One tick of the keepalive thread, every three seconds: the new counter, whether a ping is written and
  whether the panel service is called.
\<close>

definition client_beat :: "client \<Rightarrow> nat \<Rightarrow> nat \<times> bool \<times> bool" where
  "client_beat c n =
     (if \<not> mc_connected c \<or> mc_ws c = None then (n, False, False)
      else if 4 \<le> Suc n then (0, True, True) else (Suc n, True, False))"

text \<open>The half seconds between two attempts.\<close>

definition pause_steps :: "client \<Rightarrow> nat" where
  "pause_steps c = nat (max 1 (case py_int (PFloat (mc_reconnect c / (1 / 2))) of Inl _ \<Rightarrow> 0 | Inr k \<Rightarrow> k))"

lemma fold_add_new: "distinct acc \<Longrightarrow> distinct (fold add_new vs acc) \<and> set (fold add_new vs acc) = set acc \<union> set vs"
  by (induction vs arbitrary: acc) (auto simp: add_new_def)

text \<open>The status lists every item once, and every item a link announced.\<close>

lemma gather_exact:
  "gather f cs acc = Inr xs \<Longrightarrow> distinct acc \<Longrightarrow>
     distinct xs \<and> set xs = set acc \<union> (\<Union>c \<in> set cs. case py_iter (py_or (f c) (PList [])) of Inr vs \<Rightarrow> set vs | Inl _ \<Rightarrow> {})"
  by (induction f cs acc rule: gather.induct) (auto simp: fold_add_new split: sum.splits)

end
