(* ===== verification/Incidents.thy ===== *)
theory Incidents
  imports Prelude "HOL-Library.List_Lexorder"
begin

text \<open>
  Device context and incidents of the monitor: the class \<open>Operations\<close> of \<open>netpulse/operations.py\<close>.
  The SQLite tables are the state, a row a record; the unique index over active incidents and the
  primary key are checked by the insertion. \<open>now i\<close> is the \<open>i\<close>-th reading of the clock within one
  operation, a new id is an argument. A transaction that raises leaves the tables as they were.
\<close>

section \<open>Tables\<close>

datatype status = Open | Acknowledged | Resolved

record incident =
  i_id :: string
  i_key :: string
  i_device :: string
  i_title :: string
  i_severity :: string
  i_status :: status
  i_owner :: string
  i_opened :: real
  i_updated :: real
  i_acked :: "real option"
  i_resolved :: "real option"
  i_count :: int

record line =
  l_incident :: string
  l_ts :: real
  l_actor :: string
  l_action :: string
  l_message :: string

record dev_context =
  x_site :: string
  x_owner :: string
  x_tags :: "string list"
  x_until :: real
  x_updated :: real

record health =
  h_failures :: int
  h_success :: "real option"
  h_check :: real

record ops =
  o_contexts :: "(string, dev_context) dict"
  o_incidents :: "incident list"
  o_lines :: "line list"
  o_health :: "(string, health) dict"

definition new_ops :: ops where
  "new_ops = \<lparr>o_contexts = [], o_incidents = [], o_lines = [], o_health = []\<rparr>"

definition active :: "incident \<Rightarrow> bool" where
  "active i \<longleftrightarrow> i_status i = Open \<or> i_status i = Acknowledged"

fun status_name :: "status \<Rightarrow> string" where
  "status_name Open = ''open''"
| "status_name Acknowledged = ''acknowledged''"
| "status_name Resolved = ''resolved''"

definition text_field :: "pyval \<Rightarrow> nat \<Rightarrow> exn + string" where
  "text_field v most =
     (case v of PStr s \<Rightarrow> if length s > most then Inl ValueError else Inr (py_strip s) | _ \<Rightarrow> Inl ValueError)"

definition integrity_error :: exn where
  "integrity_error = ServiceError ''IntegrityError'' []"

definition find_active :: "string \<Rightarrow> ops \<Rightarrow> incident option" where
  "find_active key st = find (\<lambda>i. i_key i = key \<and> active i) (o_incidents st)"

definition find_incident :: "string \<Rightarrow> ops \<Rightarrow> incident option" where
  "find_incident ident st = find (\<lambda>i. i_id i = ident) (o_incidents st)"

definition update_incident :: "string \<Rightarrow> (incident \<Rightarrow> incident) \<Rightarrow> ops \<Rightarrow> ops" where
  "update_incident ident f st =
     st\<lparr>o_incidents := map (\<lambda>i. if i_id i = ident then f i else i) (o_incidents st)\<rparr>"

text \<open>The table refuses a second row with the id, or a second active row with the key.\<close>

definition insert_incident :: "incident \<Rightarrow> ops \<Rightarrow> exn + ops" where
  "insert_incident i st =
     (if find_incident (i_id i) st \<noteq> None \<or> (active i \<and> find_active (i_key i) st \<noteq> None) then Inl integrity_error
      else Inr (st\<lparr>o_incidents := o_incidents st @ [i]\<rparr>))"

definition timeline :: "string \<Rightarrow> real \<Rightarrow> string \<Rightarrow> string \<Rightarrow> string \<Rightarrow> ops \<Rightarrow> ops" where
  "timeline ident t actor action message st =
     st\<lparr>o_lines := o_lines st @ [\<lparr>l_incident = ident, l_ts = t, l_actor = take 160 actor, l_action = action,
                                   l_message = take 2000 message\<rparr>]\<rparr>"

section \<open>Incidents\<close>

definition severities :: "string list" where
  "severities = [''info'', ''warning'', ''critical'']"

text \<open>\<open>uid\<close> is the id a new row gets; \<open>key\<close> is \<open>None\<close> or empty for a manual incident, which gets \<open>mid\<close>.\<close>

definition open_incident ::
  "(nat \<Rightarrow> real) \<Rightarrow> string \<Rightarrow> string \<Rightarrow> pyval \<Rightarrow> pyval \<Rightarrow> pyval \<Rightarrow> string option \<Rightarrow> string \<Rightarrow> ops \<Rightarrow> (exn + string \<times> bool) \<times> ops" where
  "open_incident now uid mid device title severity event_key actor st =
     (case text_field device 64 of
        Inl x \<Rightarrow> (Inl x, st)
      | Inr dev \<Rightarrow>
          (case text_field title 300 of
             Inl x \<Rightarrow> (Inl x, st)
           | Inr ttl \<Rightarrow>
               if ttl = [] \<or> severity \<notin> PStr ` set severities then (Inl ValueError, st)
               else
                 let key = (case event_key of None \<Rightarrow> ''manual:'' @ mid | Some [] \<Rightarrow> ''manual:'' @ mid | Some k \<Rightarrow> k)
                 in (case find_active key st of
                       Some old \<Rightarrow>
                         (Inr (i_id old, False),
                          update_incident (i_id old) (\<lambda>i. i\<lparr>i_updated := now 0, i_count := i_count i + 1\<rparr>) st)
                     | None \<Rightarrow>
                         (case insert_incident \<lparr>i_id = uid, i_key = key, i_device = dev, i_title = ttl,
                                 i_severity = (case severity of PStr s \<Rightarrow> s | _ \<Rightarrow> []), i_status = Open, i_owner = [],
                                 i_opened = now 0, i_updated = now 0, i_acked = None, i_resolved = None, i_count = 1\<rparr> st of
                            Inl x \<Rightarrow> (Inl x, st)
                          | Inr st' \<Rightarrow> (Inr (uid, True), timeline uid (now 1) actor ''opened'' ttl st')))))"

text \<open>The incident and the last hundred lines of its timeline, oldest first.\<close>

definition incident_view :: "string \<Rightarrow> ops \<Rightarrow> exn + incident \<times> line list" where
  "incident_view ident st =
     (case find_incident ident st of
        None \<Rightarrow> Inl ValueError
      | Some i \<Rightarrow>
          (let ls = filter (\<lambda>l. l_incident l = ident) (o_lines st)
           in Inr (i, rev (take 100 (rev ls)))))"

datatype action = Acknowledge | Resolve | Assign | Comment

fun action_name :: "action \<Rightarrow> string" where
  "action_name Acknowledge = ''acknowledge''"
| "action_name Resolve = ''resolve''"
| "action_name Assign = ''assign''"
| "action_name Comment = ''comment''"

definition parse_action :: "pyval \<Rightarrow> exn + action" where
  "parse_action v =
     (case find (\<lambda>a. v = PStr (action_name a)) [Acknowledge, Resolve, Assign, Comment] of
        None \<Rightarrow> Inl ValueError | Some a \<Rightarrow> Inr a)"

text \<open>The clock readings of the updates before the one of the timeline.\<close>

fun stamps :: "action \<Rightarrow> nat" where
  "stamps Acknowledge = 2"
| "stamps Resolve = 2"
| "stamps Assign = 1"
| "stamps Comment = 0"

text \<open>What an action does to the row, and the text it leaves in the timeline.\<close>

definition row_change ::
  "(nat \<Rightarrow> real) \<Rightarrow> action \<Rightarrow> (string, pyval) dict \<Rightarrow> string \<Rightarrow> incident \<Rightarrow> exn + (incident \<Rightarrow> incident) \<times> string" where
  "row_change now a body message row =
     (case a of
        Acknowledge \<Rightarrow>
          (if i_status row \<noteq> Open then Inl ValueError
           else Inr (\<lambda>i. i\<lparr>i_status := Acknowledged, i_acked := Some (now 0), i_updated := now 1\<rparr>, message))
      | Resolve \<Rightarrow>
          (if i_status row = Resolved then Inl ValueError
           else Inr (\<lambda>i. i\<lparr>i_status := Resolved, i_resolved := Some (now 0), i_updated := now 1\<rparr>, message))
      | Assign \<Rightarrow> map_sum id (\<lambda>o'. (\<lambda>i. i\<lparr>i_owner := o', i_updated := now 0\<rparr>, o'))
                    (text_field (get_default body ''owner'' (PStr [])) 160)
      | Comment \<Rightarrow> (if message = [] then Inl ValueError else Inr (id, message)))"

definition change_incident ::
  "(nat \<Rightarrow> real) \<Rightarrow> (string, pyval) dict \<Rightarrow> string \<Rightarrow> ops \<Rightarrow> (exn + incident \<times> line list) \<times> ops" where
  "change_incident now body actor st =
     (case text_field (get_default body ''id'' PNone) 64 of
        Inl x \<Rightarrow> (Inl x, st)
      | Inr ident \<Rightarrow>
          (case parse_action (get_default body ''action'' PNone) of
             Inl x \<Rightarrow> (Inl x, st)
           | Inr a \<Rightarrow>
               (case text_field (get_default body ''message'' (PStr [])) 2000 of
                  Inl x \<Rightarrow> (Inl x, st)
                | Inr message \<Rightarrow>
                    (case find_incident ident st of
                       None \<Rightarrow> (Inl ValueError, st)
                     | Some row \<Rightarrow>
                         (case row_change now a body message row of
                            Inl x \<Rightarrow> (Inl x, st)
                          | Inr (f, note) \<Rightarrow>
                              (let st' = timeline ident (now (stamps a)) actor (action_name a) note (update_incident ident f st)
                               in (incident_view ident st', st')))))))"

section \<open>Routers and alerts\<close>

record router_row =
  r_id :: string
  r_name :: string
  r_ok :: bool

datatype change = Opened | Closed

definition unreachable_key :: "string \<Rightarrow> string" where
  "unreachable_key r = ''router-unreachable:'' @ r"

definition restored_text :: string where
  "restored_text = utf8 [208, 161, 208, 178, 209, 143, 208, 183, 209, 140, 32, 208, 178, 208, 190, 209, 129, 209, 129, 209, 130,
     208, 176, 208, 189, 208, 190, 208, 178, 208, 187, 208, 181, 208, 189, 208, 176]"

definition no_link_text :: string where
  "no_link_text = utf8 [208, 157, 208, 181, 209, 130, 32, 209, 129, 208, 178, 209, 143, 208, 183, 208, 184, 58, 32]"

definition resolve_body :: "string \<Rightarrow> string \<Rightarrow> (string, pyval) dict" where
  "resolve_body ident msg = [(''id'', PStr ident), (''action'', PStr ''resolve''), (''message'', PStr msg)]"

definition note_health :: "real \<Rightarrow> router_row \<Rightarrow> ops \<Rightarrow> ops" where
  "note_health t row st =
     (let ident = ''router:'' @ r_id row; old = dict_get (o_health st) ident
      in st\<lparr>o_health := dict_set ident
              \<lparr>h_failures = (if r_ok row then 0 else (case old of None \<Rightarrow> 0 | Some h \<Rightarrow> h_failures h) + 1),
               h_success = (if r_ok row then Some t else Option.bind old h_success), h_check = t\<rparr> (o_health st)\<rparr>)"

definition in_maintenance :: "real \<Rightarrow> string \<Rightarrow> ops \<Rightarrow> bool" where
  "in_maintenance t device st \<longleftrightarrow> (case dict_get (o_contexts st) device of None \<Rightarrow> False | Some x \<Rightarrow> x_until x > t)"

definition failures_of :: "string \<Rightarrow> ops \<Rightarrow> int" where
  "failures_of device st = (case dict_get (o_health st) device of None \<Rightarrow> 0 | Some h \<Rightarrow> h_failures h)"

text \<open>
  A poll is three transactions: it writes the health of the router and reads its window, looks for
  the active incident, and closes or opens one. Between them other threads may change the tables;
  the last transaction only has what the ones before it have read.
\<close>

definition observe_due :: "real \<Rightarrow> router_row \<Rightarrow> ops \<Rightarrow> bool" where
  "observe_due t row st1 \<longleftrightarrow>
     \<not> in_maintenance t (''router:'' @ r_id row) st1 \<and> failures_of (''router:'' @ r_id row) st1 \<ge> 2"

definition observe_answer :: "(nat \<Rightarrow> real) \<Rightarrow> string \<Rightarrow> string \<Rightarrow> router_row \<Rightarrow> bool \<Rightarrow> incident option \<Rightarrow> ops
    \<Rightarrow> (exn + change option) \<times> ops" where
  "observe_answer now uid mid row due found st =
     (if r_ok row then
        (case found of
           None \<Rightarrow> (Inr None, st)
         | Some i \<Rightarrow>
             (case change_incident (\<lambda>k. now (Suc k)) (resolve_body (i_id i) restored_text) ''collector'' st of
                (Inl x, st2) \<Rightarrow> (Inl x, st2) | (Inr _, st2) \<Rightarrow> (Inr (Some Closed), st2)))
      else if due then
        (case open_incident (\<lambda>k. now (Suc k)) uid mid (PStr (''router:'' @ r_id row)) (PStr (no_link_text @ r_name row))
                (PStr ''critical'') (Some (unreachable_key (r_id row))) ''system'' st of
           (Inl x, st2) \<Rightarrow> (Inl x, st2)
         | (Inr (_, created), st2) \<Rightarrow> (Inr (if created then Some Opened else None), st2))
      else (Inr None, st))"

text \<open>\<open>f\<close> and \<open>g\<close> are what other threads do after the first and after the second transaction.\<close>

definition observe_among :: "(ops \<Rightarrow> ops) \<Rightarrow> (ops \<Rightarrow> ops) \<Rightarrow> (nat \<Rightarrow> real) \<Rightarrow> string \<Rightarrow> string \<Rightarrow> router_row \<Rightarrow> ops
    \<Rightarrow> (exn + change option) \<times> ops" where
  "observe_among f g now uid mid row st =
     (let st1 = note_health (now 0) row st; st2 = f st1
      in observe_answer now uid mid row (observe_due (now 0) row st1) (find_active (unreachable_key (r_id row)) st2) (g st2))"

definition observe_router :: "(nat \<Rightarrow> real) \<Rightarrow> string \<Rightarrow> string \<Rightarrow> router_row \<Rightarrow> ops \<Rightarrow> (exn + change option) \<times> ops" where
  "observe_router = observe_among id id"

text \<open>
  A batch of alerts is checked as a whole before the first one is applied. \<open>digest\<close> is the hash of the
  labels, \<open>routers\<close> the ids of the configured devices.
\<close>

record alert =
  a_firing :: bool
  a_labels :: "(string, string) dict"
  a_title :: string

record alert_outcome =
  ao_opened :: nat
  ao_resolved :: nat
  ao_ignored :: nat
  ao_notes :: "(string \<times> string) list"

fun label_texts :: "(string, pyval) dict \<Rightarrow> string list \<Rightarrow> exn + (string, string) dict" where
  "label_texts ls [] = Inr []"
| "label_texts ls (k # ks) =
     (case text_field (get_default ls k (PStr [])) 256 of
        Inl x \<Rightarrow> Inl x
      | Inr s \<Rightarrow> map_sum id (Cons (k, s)) (label_texts ls ks))"

definition validate_alert :: "pyval \<Rightarrow> exn + alert" where
  "validate_alert v =
     (case v of
        PDict d \<Rightarrow>
          if get_default d ''status'' PNone \<notin> {PStr ''firing'', PStr ''resolved''} then Inl ValueError
          else (case py_or (get_default d ''labels'' PNone) (PDict []) of
                  PDict ls \<Rightarrow>
                    (case label_texts ls [''alertname'', ''job'', ''instance'', ''router''] of
                       Inl x \<Rightarrow> Inl x
                     | Inr labels \<Rightarrow>
                         if get_default labels ''alertname'' [] = [] then Inl ValueError
                         else (case py_or (get_default d ''annotations'' PNone) (PDict []) of
                                 PDict an \<Rightarrow>
                                   map_sum id (\<lambda>t. \<lparr>a_firing = (get_default d ''status'' PNone = PStr ''firing''),
                                                   a_labels = labels, a_title = t\<rparr>)
                                     (text_field (py_or (get_default an ''summary'' PNone) (PStr (get_default labels ''alertname'' []))) 300)
                               | _ \<Rightarrow> Inl ValueError))
                | _ \<Rightarrow> Inl ValueError)
      | _ \<Rightarrow> Inl ValueError)"

fun validate_alerts :: "pyval list \<Rightarrow> exn + alert list" where
  "validate_alerts [] = Inr []"
| "validate_alerts (v # vs) =
     (case validate_alert v of Inl x \<Rightarrow> Inl x | Inr a \<Rightarrow> map_sum id (Cons a) (validate_alerts vs))"

definition ignored :: "alert_outcome \<Rightarrow> alert_outcome" where
  "ignored out = out\<lparr>ao_ignored := ao_ignored out + 1\<rparr>"

definition recovered_text :: string where
  "recovered_text = ''Alertmanager: '' @ utf8 [208, 178, 208, 190, 209, 129, 209, 129, 209, 130, 208, 176, 208, 189, 208, 190,
     208, 178, 208, 187, 208, 181, 208, 189, 208, 184, 208, 181]"

definition apply_alert ::
  "((string, string) dict \<Rightarrow> string) \<Rightarrow> string list \<Rightarrow> (nat \<Rightarrow> real) \<Rightarrow> string \<Rightarrow> string \<Rightarrow> alert \<Rightarrow> alert_outcome \<Rightarrow> ops
     \<Rightarrow> (exn + alert_outcome) \<times> ops" where
  "apply_alert digest routers now uid mid a out st =
     (let router = (if get_default (a_labels a) ''router'' [] \<in> set routers then get_default (a_labels a) ''router'' [] else []);
          device = (if router = [] then [] else ''router:'' @ router);
          shared = (get_default (a_labels a) ''alertname'' [] = ''MikroTikUnreachable'' \<and> router \<noteq> []);
          key = (if shared then unreachable_key router else ''prometheus:'' @ digest (a_labels a))
      in if a_firing a then
           (if in_maintenance (now 0) device st then (Inr (ignored out), st)
            else case open_incident (\<lambda>k. now (Suc k)) uid mid (PStr device) (PStr (a_title a)) (PStr ''critical'') (Some key) ''alertmanager'' st of
                   (Inl x, st') \<Rightarrow> (Inl x, st')
                 | (Inr (_, True), st') \<Rightarrow>
                     (Inr (out\<lparr>ao_opened := ao_opened out + 1, ao_notes := ao_notes out @ [(''ALERT_OPENED'', a_title a)]\<rparr>), st')
                 | (Inr (_, False), st') \<Rightarrow> (Inr (ignored out), st'))
         else
           (case find_active key st of
              None \<Rightarrow> (Inr (ignored out), st)
            | Some i \<Rightarrow>
                if shared \<and> failures_of device st \<noteq> 0 then (Inr (ignored out), st)
                else (case change_incident now (resolve_body (i_id i) recovered_text) ''alertmanager'' st of
                        (Inl x, st') \<Rightarrow> (if x = ValueError then Inr (ignored out) else Inl x, st')
                      | (Inr _, st') \<Rightarrow>
                          (Inr (out\<lparr>ao_resolved := ao_resolved out + 1, ao_notes := ao_notes out @ [(''ALERT_RESOLVED'', a_title a)]\<rparr>), st'))))"

fun apply_alerts ::
  "((string, string) dict \<Rightarrow> string) \<Rightarrow> string list \<Rightarrow> (nat \<Rightarrow> nat \<Rightarrow> real) \<Rightarrow> (nat \<Rightarrow> string) \<Rightarrow> nat \<Rightarrow> alert list \<Rightarrow> alert_outcome \<Rightarrow> ops
     \<Rightarrow> (exn + alert_outcome) \<times> ops" where
  "apply_alerts digest routers now uid k [] out st = (Inr out, st)"
| "apply_alerts digest routers now uid k (a # as) out st =
     (case apply_alert digest routers (now k) (uid k) (uid k) a out st of
        (Inl x, st') \<Rightarrow> (Inl x, st')
      | (Inr out', st') \<Rightarrow> apply_alerts digest routers now uid (Suc k) as out' st')"

definition no_alerts :: alert_outcome where
  "no_alerts = \<lparr>ao_opened = 0, ao_resolved = 0, ao_ignored = 0, ao_notes = []\<rparr>"

definition receive_alerts ::
  "((string, string) dict \<Rightarrow> string) \<Rightarrow> string list \<Rightarrow> (nat \<Rightarrow> nat \<Rightarrow> real) \<Rightarrow> (nat \<Rightarrow> string) \<Rightarrow> (string, pyval) dict \<Rightarrow> ops
     \<Rightarrow> (exn + alert_outcome) \<times> ops" where
  "receive_alerts digest routers now uid body st =
     (case get_default body ''alerts'' PNone of
        PList vs \<Rightarrow>
          if length vs > 100 then (Inl ValueError, st)
          else (case validate_alerts vs of
                  Inl x \<Rightarrow> (Inl x, st)
                | Inr as \<Rightarrow> apply_alerts digest routers now uid 0 as no_alerts st)
      | _ \<Rightarrow> (Inl ValueError, st))"

section \<open>Device context\<close>

record dev_row =
  d_id :: string
  d_name :: string
  d_address :: string
  d_site :: string
  d_owner :: string
  d_tags :: "string list"
  d_until :: real
  d_maintenance :: bool

definition add_context :: "real \<Rightarrow> ops \<Rightarrow> dev_row \<Rightarrow> dev_row" where
  "add_context t st d =
     (case dict_get (o_contexts st) (d_id d) of
        None \<Rightarrow> d\<lparr>d_site := [], d_owner := [], d_tags := [], d_until := 0, d_maintenance := (0 > t)\<rparr>
      | Some x \<Rightarrow> d\<lparr>d_site := x_site x, d_owner := x_owner x, d_tags := x_tags x, d_until := x_until x,
                      d_maintenance := (x_until x > t)\<rparr>)"

text \<open>\<open>rows\<close> are the rows of the routers and the hosts, \<open>now i\<close> the clock at the \<open>i\<close>-th of them.\<close>

definition devices ::
  "(nat \<Rightarrow> real) \<Rightarrow> dev_row list \<Rightarrow> string \<Rightarrow> string \<Rightarrow> string \<Rightarrow> ops \<Rightarrow> dev_row list" where
  "devices now rows query site tag st =
     (let q = take 160 (py_strip (py_lower query));
          all = map (\<lambda>(i, d). add_context (now i) st d) (enumerate 0 rows);
          line = (\<lambda>d. py_lower (d_id d @ '' '' @ d_name d @ '' '' @ d_address d @ '' '' @ d_site d @ '' '' @ d_owner d))
      in filter (\<lambda>d. (q = [] \<or> contains q (line d)) \<and> (site = [] \<or> d_site d = site) \<and> (tag = [] \<or> tag \<in> set (d_tags d))) all)"

definition incident_list :: "string \<Rightarrow> string \<Rightarrow> int \<Rightarrow> ops \<Rightarrow> exn + incident list" where
  "incident_list st_name device most st =
     (if st_name \<noteq> [] \<and> st_name \<notin> status_name ` {Open, Acknowledged, Resolved} then Inl ValueError
      else Inr (take (nat (min 500 (max 1 most)))
             (sort_key (\<lambda>i. - i_updated i)
               (filter (\<lambda>i. (st_name = [] \<or> status_name (i_status i) = st_name) \<and> (device = [] \<or> i_device i = device))
                  (o_incidents st)))))"

definition device :: "(nat \<Rightarrow> real) \<Rightarrow> dev_row list \<Rightarrow> string \<Rightarrow> ops \<Rightarrow> exn + dev_row \<times> incident list" where
  "device now rows ident st =
     (case find (\<lambda>d. d_id d = ident) (devices now rows [] [] [] st) of
        None \<Rightarrow> Inl ValueError
      | Some d \<Rightarrow> map_sum id (Pair d) (incident_list [] ident 100 st))"

fun tag_texts :: "pyval list \<Rightarrow> exn + string list" where
  "tag_texts [] = Inr []"
| "tag_texts (v # vs) =
     (if \<not> truthy v then tag_texts vs
      else case text_field v 40 of Inl x \<Rightarrow> Inl x | Inr s \<Rightarrow> map_sum id (Cons s) (tag_texts vs))"

text \<open>\<open>flt\<close> is \<open>float\<close>: an exception, a finite number, or \<open>None\<close> for an infinity or a NaN.\<close>

definition save_context ::
  "(pyval \<Rightarrow> exn + real option) \<Rightarrow> (nat \<Rightarrow> real) \<Rightarrow> dev_row list \<Rightarrow> (string, pyval) dict \<Rightarrow> ops
     \<Rightarrow> (exn + dev_row \<times> incident list) \<times> ops" where
  "save_context flt now rows body st =
     (case text_field (get_default body ''id'' PNone) 64 of
        Inl x \<Rightarrow> (Inl x, st)
      | Inr ident \<Rightarrow>
     (case device now rows ident st of
        Inl x \<Rightarrow> (Inl x, st)
      | Inr _ \<Rightarrow>
     (case (text_field (get_default body ''site'' (PStr [])) 160, text_field (get_default body ''owner'' (PStr [])) 160) of
        (Inr site, Inr owner) \<Rightarrow>
          (case get_default body ''tags'' (PList []) of
             PList vs \<Rightarrow>
               if length vs > 16 then (Inl ValueError, st)
               else (case tag_texts vs of
                       Inl x \<Rightarrow> (Inl x, st)
                     | Inr ts \<Rightarrow>
                         (case flt (get_default body ''maintenance_until'' (PInt 0)) of
                            Inl x \<Rightarrow> (Inl x, st)
                          | Inr None \<Rightarrow> (Inl ValueError, st)
                          | Inr (Some until) \<Rightarrow>
                              let t = now (length rows)
                              in if until < 0 \<or> until > t + 7 * 86400 then (Inl ValueError, st)
                                 else let st' = st\<lparr>o_contexts := dict_set ident \<lparr>x_site = site, x_owner = owner,
                                                    x_tags = sort (remdups ts), x_until = until,
                                                    x_updated = now (Suc (length rows))\<rparr> (o_contexts st)\<rparr>
                                      in (device (\<lambda>i. now (i + length rows + 2)) rows ident st', st')))
           | _ \<Rightarrow> (Inl ValueError, st))
      | _ \<Rightarrow> (Inl ValueError, st))))"

definition summary :: "ops \<Rightarrow> (string, nat) dict" where
  "summary st =
     (case incident_list [] [] 500 st of
        Inl _ \<Rightarrow> []
      | Inr is \<Rightarrow> map (\<lambda>s. (status_name s, length (filter (\<lambda>i. i_status i = s) is))) [Open, Acknowledged, Resolved])"

section \<open>Histories of the tables\<close>

record ops_env =
  oe_digest :: "(string, string) dict \<Rightarrow> string"
  oe_routers :: "string list"
  oe_float :: "pyval \<Rightarrow> exn + real option"
  oe_rows :: "dev_row list"
  oe_now :: "nat \<Rightarrow> nat \<Rightarrow> nat \<Rightarrow> real"   \<comment> \<open>operation, alert of the batch, reading\<close>
  oe_uid :: "nat \<Rightarrow> nat \<Rightarrow> string"

text \<open>A poll is one event when nobody comes between its transactions; otherwise its transactions are
  events of their own, the last one with whatever was read before.\<close>

datatype ops_event =
    E_open pyval pyval pyval "string option" string
  | E_change "(string, pyval) dict" string
  | E_observe router_row
  | E_health router_row
  | E_answer router_row bool "incident option"
  | E_alerts "(string, pyval) dict"
  | E_context "(string, pyval) dict"

fun ops_step :: "ops_env \<Rightarrow> nat \<Rightarrow> ops_event \<Rightarrow> ops \<Rightarrow> ops" where
  "ops_step e k (E_open dev title sev key actor) st =
     snd (open_incident (oe_now e k 0) (oe_uid e k 0) (oe_uid e k 1) dev title sev key actor st)"
| "ops_step e k (E_change body actor) st = snd (change_incident (oe_now e k 0) body actor st)"
| "ops_step e k (E_observe row) st = snd (observe_router (oe_now e k 0) (oe_uid e k 0) (oe_uid e k 1) row st)"
| "ops_step e k (E_health row) st = note_health (oe_now e k 0 0) row st"
| "ops_step e k (E_answer row due found) st =
     snd (observe_answer (oe_now e k 0) (oe_uid e k 0) (oe_uid e k 1) row due found st)"
| "ops_step e k (E_alerts body) st = snd (receive_alerts (oe_digest e) (oe_routers e) (oe_now e k) (oe_uid e k) body st)"
| "ops_step e k (E_context body) st = snd (save_context (oe_float e) (oe_now e k 0) (oe_rows e) body st)"

fun ops_run :: "ops_env \<Rightarrow> nat \<Rightarrow> ops_event list \<Rightarrow> ops \<Rightarrow> ops" where
  "ops_run e k [] st = st"
| "ops_run e k (x # xs) st = ops_run e (Suc k) xs (ops_step e k x st)"

subsection \<open>Well-formed tables\<close>

definition incident_ok :: "incident \<Rightarrow> bool" where
  "incident_ok i \<longleftrightarrow>
     (i_status i = Resolved \<longleftrightarrow> i_resolved i \<noteq> None) \<and> (i_status i = Acknowledged \<longrightarrow> i_acked i \<noteq> None)
     \<and> (i_status i = Open \<longrightarrow> i_acked i = None)
     \<and> i_severity i \<in> set severities \<and> i_title i \<noteq> [] \<and> 1 \<le> i_count i"

definition ops_inv :: "ops \<Rightarrow> bool" where
  "ops_inv st \<longleftrightarrow>
     distinct (map i_id (o_incidents st)) \<and> distinct (map i_key (filter active (o_incidents st)))
     \<and> (\<forall>i \<in> set (o_incidents st). incident_ok i)
     \<and> (\<forall>l \<in> set (o_lines st). l_incident l \<in> i_id ` set (o_incidents st))"

fun stage :: "status \<Rightarrow> nat" where
  "stage Open = 0" | "stage Acknowledged = 1" | "stage Resolved = 2"

text \<open>What an incident may become: the identity stays, the stage never goes back, stamps are final.\<close>

definition evolves :: "incident \<Rightarrow> incident \<Rightarrow> bool" where
  "evolves i j \<longleftrightarrow>
     (i_id j, i_key j, i_device j, i_title j, i_severity j, i_opened j)
       = (i_id i, i_key i, i_device i, i_title i, i_severity i, i_opened i)
     \<and> stage (i_status i) \<le> stage (i_status j) \<and> i_count i \<le> i_count j
     \<and> (i_acked i \<noteq> None \<longrightarrow> i_acked j = i_acked i) \<and> (i_resolved i \<noteq> None \<longrightarrow> i_resolved j = i_resolved i)"

definition successor :: "ops \<Rightarrow> ops \<Rightarrow> bool" where
  "successor st st' \<longleftrightarrow>
     (\<forall>i \<in> set (o_incidents st). \<exists>j \<in> set (o_incidents st'). evolves i j) \<and> (\<exists>ls. o_lines st' = o_lines st @ ls)"

definition good_step :: "ops \<Rightarrow> ops \<Rightarrow> bool" where
  "good_step st st' \<longleftrightarrow> ops_inv st' \<and> successor st st'"

lemma evolves_refl [simp]: "evolves i i"
  by (simp add: evolves_def)

lemma evolves_trans: "evolves i j \<Longrightarrow> evolves j k \<Longrightarrow> evolves i k"
proof -
  assume ij: "evolves i j" and jk: "evolves j k"
  have "stage (i_status i) \<le> stage (i_status k)" "i_count i \<le> i_count k"
    using ij jk le_trans order_trans unfolding evolves_def by blast+
  moreover have "i_acked k = i_acked i" if "i_acked i \<noteq> None"
    using ij jk that unfolding evolves_def by (metis (no_types))
  moreover have "i_resolved k = i_resolved i" if "i_resolved i \<noteq> None"
    using ij jk that unfolding evolves_def by (metis (no_types))
  ultimately show "evolves i k" using ij jk by (simp add: evolves_def)
qed

lemma successor_trans:
  assumes "successor s t" "successor t u"
  shows "successor s u"
  using assms unfolding successor_def by (metis append.assoc evolves_trans)

lemma successor_more:
  "set (o_incidents st) \<subseteq> set (o_incidents st') \<Longrightarrow> o_lines st' = o_lines st @ ls \<Longrightarrow> successor st st'"
  unfolding successor_def by (meson evolves_refl subsetD)

lemma good_refl: "ops_inv st \<Longrightarrow> good_step st st"
  by (simp add: good_step_def successor_more [where ls = "[]"])

lemma good_trans: "good_step s t \<Longrightarrow> good_step t u \<Longrightarrow> good_step s u"
  by (auto simp: good_step_def intro: successor_trans)

text \<open>A step that leaves the incidents and their timeline alone.\<close>

lemma good_same:
  "ops_inv st \<Longrightarrow> o_incidents st' = o_incidents st \<Longrightarrow> o_lines st' = o_lines st \<Longrightarrow> good_step st st'"
  by (simp add: good_step_def successor_more [where ls = "[]"] ops_inv_def)

lemma find_incident_Some:
  "find_incident ident st = Some i \<Longrightarrow> i \<in> set (o_incidents st) \<and> i_id i = ident"
  by (auto simp: find_incident_def find_Some_iff)

lemma find_active_Some:
  "find_active key st = Some i \<Longrightarrow> i \<in> set (o_incidents st) \<and> i_key i = key \<and> active i"
  by (auto simp: find_active_def find_Some_iff)

lemma find_active_None: "find_active key st = None \<longleftrightarrow> key \<notin> i_key ` set (filter active (o_incidents st))"
  by (auto simp: find_active_def find_None_iff)

lemma find_incident_None: "find_incident ident st = None \<longleftrightarrow> ident \<notin> i_id ` set (o_incidents st)"
  by (auto simp: find_incident_def find_None_iff)

text \<open>Every update of one row follows from what it does to the row.\<close>

lemma distinct_keys_sub:
  assumes "distinct (map i_key (filter active xs))"
    and "\<And>i. i \<in> set xs \<Longrightarrow> i_key (f i) = i_key i" "\<And>i. i \<in> set xs \<Longrightarrow> active (f i) \<Longrightarrow> active i"
  shows "distinct (map i_key (filter active (map f xs)))"
  using assms
proof (induction xs)
  case (Cons x xs)
  have sub: "i_key ` set (filter active (map f xs)) \<subseteq> i_key ` set (filter active xs)"
    using Cons.prems(2,3) by force
  have "distinct (map i_key (filter active (map f xs)))"
    by (rule Cons.IH) (use Cons.prems in \<open>auto split: if_splits\<close>)
  with sub Cons.prems show ?case by (auto split: if_splits)
qed simp

lemma good_update:
  assumes inv: "ops_inv st" and row: "find_incident ident st = Some i"
    and f: "evolves i (f i)" "incident_ok (f i)" "active (f i) \<Longrightarrow> active i"
  shows "good_step st (update_incident ident f st)"
proof -
  let ?g = "\<lambda>j. if i_id j = ident then f j else j"
  have i: "i \<in> set (o_incidents st)" "i_id i = ident" using find_incident_Some [OF row] by auto
  have only: "j = i" if "j \<in> set (o_incidents st)" "i_id j = ident" for j
    using that i inv by (auto simp: ops_inv_def distinct_map dest: inj_onD)
  have ev: "evolves j (?g j)" if "j \<in> set (o_incidents st)" for j
    using f(1) only [OF that] by auto
  have ids: "map i_id (map ?g (o_incidents st)) = map i_id (o_incidents st)"
    using ev by (auto simp: evolves_def)
  have keys: "distinct (map i_key (filter active (map ?g (o_incidents st))))"
    by (rule distinct_keys_sub) (use inv ev only f(3) in \<open>auto simp: ops_inv_def evolves_def split: if_splits\<close>)
  have ok: "incident_ok (?g j)" if "j \<in> set (o_incidents st)" for j
    using that inv only f(2) by (auto simp: ops_inv_def)
  have lines: "l_incident l \<in> i_id ` set (map ?g (o_incidents st))" if "l \<in> set (o_lines st)" for l
    using that inv unfolding ops_inv_def by (metis ids list.set_map)
  have rows: "o_incidents (update_incident ident f st) = map ?g (o_incidents st)"
    "o_lines (update_incident ident f st) = o_lines st"
    by (simp_all add: update_incident_def)
  have "ops_inv (update_incident ident f st)"
    unfolding ops_inv_def rows
  proof (intro conjI ballI)
    show "distinct (map i_id (map ?g (o_incidents st)))" using ids inv by (simp only: ops_inv_def)
    show "distinct (map i_key (filter active (map ?g (o_incidents st))))" by (rule keys)
    show "incident_ok j" if "j \<in> set (map ?g (o_incidents st))" for j
      using that ok unfolding set_map by blast
    show "l_incident l \<in> i_id ` set (map ?g (o_incidents st))" if "l \<in> set (o_lines st)" for l
      by (rule lines [OF that])
  qed
  moreover have "\<exists>k \<in> set (o_incidents (update_incident ident f st)). evolves j k" if "j \<in> set (o_incidents st)" for j
    using ev [OF that] that by (intro bexI [of _ "?g j"]) (simp_all add: update_incident_def)
  then have "successor st (update_incident ident f st)"
    by (simp add: successor_def update_incident_def)
  ultimately show ?thesis by (simp add: good_step_def)
qed

lemma good_timeline:
  "ops_inv st \<Longrightarrow> ident \<in> i_id ` set (o_incidents st) \<Longrightarrow> good_step st (timeline ident t actor a m st)"
  by (auto simp: good_step_def ops_inv_def timeline_def intro!: successor_more)

lemma good_insert:
  assumes "ops_inv st" "insert_incident i st = Inr st'" "incident_ok i"
  shows "good_step st st' \<and> o_incidents st' = o_incidents st @ [i]"
proof -
  have st': "st' = st\<lparr>o_incidents := o_incidents st @ [i]\<rparr>"
    and new: "i_id i \<notin> i_id ` set (o_incidents st)" "active i \<Longrightarrow> i_key i \<notin> i_key ` set (filter active (o_incidents st))"
    using assms(2) unfolding insert_incident_def find_incident_None [symmetric] find_active_None [symmetric]
    by (auto split: if_splits)
  have "ops_inv st'" using assms(1,3) new unfolding st' ops_inv_def by auto
  moreover have "successor st st'" by (rule successor_more [where ls = "[]"]) (auto simp: st')
  ultimately show ?thesis by (simp add: good_step_def st')
qed

subsection \<open>The operations\<close>

lemma open_good:
  assumes inv: "ops_inv st" and run: "open_incident now uid mid dev title sev key actor st = (x, st')"
  shows "good_step st st'"
proof (cases "st' = st")
  case True
  then show ?thesis using inv by (simp add: good_refl)
next
  case False
  define k where "k = (case key of None \<Rightarrow> ''manual:'' @ mid | Some [] \<Rightarrow> ''manual:'' @ mid | Some k \<Rightarrow> k)"
  obtain d t where texts: "text_field dev 64 = Inr d" "text_field title 300 = Inr t"
    using run False by (auto simp: open_incident_def split: sum.splits)
  then have ok: "t \<noteq> []" "sev \<in> PStr ` set severities"
    using run False by (auto simp: open_incident_def split: if_splits)
  show ?thesis
  proof (cases "find_active k st")
    case (Some i)
    let ?f = "\<lambda>i. i\<lparr>i_updated := now 0, i_count := i_count i + 1\<rparr>"
    have st': "st' = update_incident (i_id i) ?f st"
      using run texts ok Some by (simp add: open_incident_def k_def [symmetric] Let_def)
    have i: "i \<in> set (o_incidents st)" using find_active_Some [OF Some] by blast
    have only: "find_incident (i_id i) st = Some i"
      using i inv unfolding find_incident_def
      by (cases "find (\<lambda>j. i_id j = i_id i) (o_incidents st)")
        (auto simp: find_None_iff find_Some_iff ops_inv_def distinct_map dest!: inj_onD)
    show ?thesis
      unfolding st'
      by (rule good_update [OF inv only])
        (use i inv in \<open>auto simp: evolves_def ops_inv_def incident_ok_def active_def\<close>)
  next
    case None
    define i where "i = \<lparr>i_id = uid, i_key = k, i_device = d, i_title = t,
      i_severity = (case sev of PStr s \<Rightarrow> s | _ \<Rightarrow> []), i_status = Open, i_owner = [], i_opened = now 0, i_updated = now 0,
      i_acked = None, i_resolved = None, i_count = 1\<rparr>"
    have ins: "(x, st') = (case insert_incident i st of Inl y \<Rightarrow> (Inl y, st)
        | Inr st2 \<Rightarrow> (Inr (uid, True), timeline uid (now 1) actor ''opened'' t st2))"
      using run texts ok None by (simp add: open_incident_def k_def [symmetric] i_def Let_def)
    with False obtain st2 where st2: "insert_incident i st = Inr st2" "st' = timeline uid (now 1) actor ''opened'' t st2"
      by (auto split: sum.splits)
    have "incident_ok i" using ok by (auto simp: incident_ok_def i_def)
    from good_insert [OF inv st2(1) this]
    have g: "good_step st st2" and m: "uid \<in> i_id ` set (o_incidents st2)" by (auto simp: i_def)
    have "good_step st2 st'"
      unfolding st2(2) by (rule good_timeline) (use g m in \<open>auto simp: good_step_def\<close>)
    with g show ?thesis by (rule good_trans)
  qed
qed

lemma row_change_good:
  assumes "row_change now a body m row = Inr (f, nt)" "incident_ok row"
  shows "evolves row (f row) \<and> incident_ok (f row) \<and> (active (f row) \<longrightarrow> active row)"
proof -
  consider (ack) "i_status row = Open" "f = (\<lambda>i. i\<lparr>i_status := Acknowledged, i_acked := Some (now 0), i_updated := now 1\<rparr>)"
    | (res) "i_status row \<noteq> Resolved" "f = (\<lambda>i. i\<lparr>i_status := Resolved, i_resolved := Some (now 0), i_updated := now 1\<rparr>)"
    | (own) w where "f = (\<lambda>i. i\<lparr>i_owner := w, i_updated := now 0\<rparr>)"
    | (com) "f = id"
    using assms(1)
    by (cases a; cases "text_field (get_default body ''owner'' (PStr [])) 160") (auto simp: row_change_def split: if_splits)
  then show ?thesis
  proof cases
    case ack
    then show ?thesis using assms(2) by (simp add: evolves_def incident_ok_def active_def)
  next
    case res
    then show ?thesis using assms(2)
      by (cases "i_status row") (simp_all add: evolves_def incident_ok_def active_def)
  next
    case own
    then show ?thesis using assms(2) by (simp add: evolves_def incident_ok_def active_def)
  next
    case com
    then show ?thesis using assms(2) by simp
  qed
qed

lemma change_good:
  assumes inv: "ops_inv st" and run: "change_incident now body actor st = (x, st')"
  shows "good_step st st'"
proof (cases "st' = st")
  case True
  then show ?thesis using inv by (simp add: good_refl)
next
  case False
  then obtain ident a m row f nt where
    row: "find_incident ident st = Some row" "row_change now a body m row = Inr (f, nt)"
      "st' = timeline ident (now (stamps a)) actor (action_name a) nt (update_incident ident f st)"
    using run unfolding change_incident_def
    by (auto simp: Let_def split: sum.splits option.splits prod.splits)
  have "incident_ok row" using row(1) inv find_incident_Some unfolding ops_inv_def by blast
  note a = row_change_good [OF row(2) this]
  have g: "good_step st (update_incident ident f st)" 
    by (rule good_update [where f = f, OF inv row(1) conjunct1 [OF a] conjunct1 [OF conjunct2 [OF a]] mp [OF conjunct2 [OF conjunct2 [OF a]]]])
  moreover have "ident \<in> i_id ` set (o_incidents (update_incident ident f st))"
  proof -
    have "f row \<in> set (o_incidents (update_incident ident f st))"
      using find_incident_Some [OF row(1)] by (force simp: update_incident_def)
    moreover have "i_id (f row) = ident"
      using find_incident_Some [OF row(1)] conjunct1 [OF a] by (simp add: evolves_def)
    ultimately show ?thesis by blast
  qed
  ultimately have "good_step (update_incident ident f st) st'"
    unfolding row(3) by (intro good_timeline) (auto simp: good_step_def)
  with g show ?thesis by (rule good_trans)
qed

lemma health_good: "ops_inv st \<Longrightarrow> good_step st (note_health t row st)"
  by (rule good_same) (simp_all add: note_health_def Let_def)

lemma answer_good:
  assumes inv: "ops_inv st" and run: "observe_answer now uid mid row due found st = (x, st')"
  shows "good_step st st'"
  using run good_refl [OF inv] open_good [OF inv] change_good [OF inv]
  unfolding observe_answer_def
  by (auto split: if_splits option.splits prod.splits sum.splits)

lemma observe_good:
  assumes inv: "ops_inv st" and run: "observe_router now uid mid row st = (x, st')"
  shows "good_step st st'"
proof -
  note g = health_good [OF inv, of "now 0" row]
  then have i: "ops_inv (note_health (now 0) row st)" by (simp add: good_step_def)
  have "good_step (note_health (now 0) row st) st'"
    using run by (intro answer_good [OF i]) (simp add: observe_router_def observe_among_def Let_def)
  with g show ?thesis by (rule good_trans)
qed

lemma alert_good:
  assumes inv: "ops_inv st" and run: "apply_alert digest routers now uid mid a out st = (x, st')"
  shows "good_step st st'"
  using run good_refl [OF inv] open_good [OF inv] change_good [OF inv]
  unfolding apply_alert_def Let_def
  by (auto split: if_splits option.splits prod.splits sum.splits bool.splits)

lemma alerts_good:
  "ops_inv st \<Longrightarrow> apply_alerts digest routers now uid k as out st = (x, st') \<Longrightarrow> good_step st st'"
proof (induction digest routers now uid k as out st rule: apply_alerts.induct)
  case (2 digest routers now uid k a as out st)
  obtain y s where y: "apply_alert digest routers (now k) (uid k) (uid k) a out st = (y, s)" by force
  note g = alert_good [OF "2.prems"(1) y]
  show ?case
  proof (cases y)
    case (Inl e)
    with "2.prems"(2) y g show ?thesis by simp
  next
    case (Inr o')
    have "good_step s st'"
      using "2.IH" [OF y [symmetric] Inr] g "2.prems"(2) y Inr by (simp add: good_step_def)
    with g show ?thesis by (rule good_trans)
  qed
qed (simp add: good_refl)

lemma context_good:
  "ops_inv st \<Longrightarrow> save_context flt now rows body st = (x, st') \<Longrightarrow> good_step st st'"
  unfolding save_context_def Let_def
  by (rule good_same) (auto split: sum.splits pyval.splits option.splits if_splits)

lemma step_good: "ops_inv st \<Longrightarrow> good_step st (ops_step e k x st)"
proof (cases x)
  case (E_alerts body)
  assume inv: "ops_inv st"
  show ?thesis
    using E_alerts good_refl [OF inv] alerts_good [OF inv, OF prod.collapse [symmetric]]
    by (auto simp: receive_alerts_def split: pyval.split sum.split)
qed (simp_all add: open_good [OF _ prod.collapse [symmetric]] change_good [OF _ prod.collapse [symmetric]]
    observe_good [OF _ prod.collapse [symmetric]] health_good answer_good [OF _ prod.collapse [symmetric]] context_good [OF _ prod.collapse [symmetric]])

lemma ops_run_good: "ops_inv st \<Longrightarrow> good_step st (ops_run e k xs st)"
proof (induction xs arbitrary: k st)
  case (Cons x xs)
  have g: "good_step st (ops_step e k x st)" by (rule step_good [OF Cons.prems])
  with Cons.IH [of "ops_step e k x st" "Suc k"] show ?case by (auto simp: good_step_def intro: successor_trans)
qed (simp add: good_refl)

lemma new_ops_inv [simp]: "ops_inv new_ops"
  by (simp add: ops_inv_def new_ops_def)

lemma reachable_inv: "ops_inv (ops_run e k xs new_ops)"
  using ops_run_good [OF new_ops_inv] by (simp add: good_step_def)

lemma find_append: "find P (xs @ ys) = (case find P xs of None \<Rightarrow> find P ys | Some x \<Rightarrow> Some x)"
  by (induction xs) auto

lemma open_result:
  assumes inv: "ops_inv st" and uid: "uid \<notin> i_id ` set (o_incidents st)"
    and run: "open_incident now uid mid dev title sev (Some key) actor st = (x, st')" and key: "key \<noteq> []"
  shows "x \<noteq> Inl integrity_error
    \<and> (\<forall>ident new. x = Inr (ident, new) \<longrightarrow> (new \<longleftrightarrow> find_active key st = None)
         \<and> (\<exists>i. find_active key st' = Some i \<and> i_id i = ident))"
proof (cases "(\<exists>d t. text_field dev 64 = Inr d \<and> text_field title 300 = Inr t \<and> t \<noteq> []) \<and> sev \<in> PStr ` set severities")
  case False
  have "text_field v n = Inl y \<Longrightarrow> y = ValueError" for v n y
    by (auto simp: text_field_def split: pyval.splits if_splits)
  then have "x = Inl ValueError"
    using False run by (auto simp: open_incident_def split: sum.splits if_splits)
  then show ?thesis by (simp add: integrity_error_def)
next
  case True
  then obtain d t where texts: "text_field dev 64 = Inr d" "text_field title 300 = Inr t" "t \<noteq> []" by blast
  have k: "(case Some key of None \<Rightarrow> ''manual:'' @ mid | Some [] \<Rightarrow> ''manual:'' @ mid | Some k \<Rightarrow> k) = key"
    using key by (cases key) simp_all
  show ?thesis
  proof (cases "find_active key st")
    case None
    define i where "i = \<lparr>i_id = uid, i_key = key, i_device = d, i_title = t,
      i_severity = (case sev of PStr s \<Rightarrow> s | _ \<Rightarrow> []), i_status = Open, i_owner = [], i_opened = now 0, i_updated = now 0,
      i_acked = None, i_resolved = None, i_count = 1\<rparr>"
    have ins: "insert_incident i st = Inr (st\<lparr>o_incidents := o_incidents st @ [i]\<rparr>)"
      using uid None by (simp add: insert_incident_def i_def find_incident_None [of uid])
    have run': "x = Inr (uid, True)" "st' = timeline uid (now 1) actor ''opened'' t (st\<lparr>o_incidents := o_incidents st @ [i]\<rparr>)"
      using run True texts None ins unfolding open_incident_def Let_def k i_def by auto
    have "find_active key st' = Some i"
      using None by (simp add: run' find_active_def timeline_def i_def find_append) (simp add: active_def)
    then show ?thesis using run' None by (simp add: i_def)
  next
    case (Some i)
    have run': "x = Inr (i_id i, False)"
      "st' = update_incident (i_id i) (\<lambda>i. i\<lparr>i_updated := now 0, i_count := i_count i + 1\<rparr>) st"
      using run True texts Some unfolding open_incident_def Let_def k by auto
    let ?i = "i\<lparr>i_updated := now 0, i_count := i_count i + 1\<rparr>"
    have "?i \<in> set (o_incidents st')" "i_key ?i = key" "active ?i"
      using find_active_Some [OF Some] by (auto simp: run'(2) update_incident_def active_def image_iff)
    then have "find_active key st' \<noteq> None"
      unfolding find_active_None by (auto simp: image_iff)
    then obtain j where j: "find_active key st' = Some j" by blast
    obtain j0 where j0: "j0 \<in> set (o_incidents st)" "i_id j0 = i_id j" "i_key j0 = key" "active j0"
      using find_active_Some [OF j] unfolding run'(2) by (force simp: update_incident_def active_def)
    have "j0 = i"
      using inv j0(1,3,4) find_active_Some [OF Some] by (auto simp: ops_inv_def distinct_map dest!: inj_onD)
    then show ?thesis using run' Some j j0 by simp
  qed
qed

text \<open>C23: In every reachable state at most one incident of an event is active. Opening an incident under an id
  that is not in use never runs into the unique indexes, and leaves exactly one active incident of its event:
  a new one if there was none, the old one otherwise.\<close>

theorem one_active_incident_per_key:
  assumes "st = ops_run e k xs new_ops" and "uid \<notin> i_id ` set (o_incidents st)" and "key \<noteq> []"
    and "open_incident now uid mid dev title sev (Some key) actor st = (x, st')"
  shows "distinct (map i_key (filter active (o_incidents st)))
    \<and> distinct (map i_key (filter active (o_incidents st')))
    \<and> x \<noteq> Inl integrity_error
    \<and> (\<forall>ident new. x = Inr (ident, new) \<longrightarrow> (new \<longleftrightarrow> find_active key st = None)
         \<and> (\<exists>i. find_active key st' = Some i \<and> i_id i = ident))"
proof -
  have inv: "ops_inv st" using assms(1) reachable_inv by simp
  moreover have "ops_inv st'" using open_good [OF inv assms(4)] by (simp add: good_step_def)
  ultimately show ?thesis using open_result [OF inv assms(2,4,3)] by (simp add: ops_inv_def)
qed

definition ex_ops_env :: ops_env where
  "ex_ops_env = \<lparr>oe_digest = (\<lambda>d. concat (map snd d)), oe_routers = [''r1''], oe_float = (\<lambda>v. Inr None), oe_rows = [],
     oe_now = (\<lambda>k i j. real (100 * k + 10 * i + j)), oe_uid = (\<lambda>k i. string_of_nat (10 * k + i))\<rparr>"

definition ex_ops_events :: "ops_event list" where
  "ex_ops_events = [E_open (PStr ''host:1'') (PStr ''disk full'') (PStr ''warning'') (Some ''disk:1'') ''probe'',
     E_open (PStr ''host:1'') (PStr ''disk full'') (PStr ''warning'') (Some ''disk:1'') ''probe'',
     E_change [(''id'', PStr ''0''), (''action'', PStr ''acknowledge'')] ''ann'']"

lemma ex_ops_ids: "i_id ` set (o_incidents (ops_run ex_ops_env 0 ex_ops_events new_ops)) = {''0''}"
  by code_simp

theorem one_active_incident_per_key_witness:
  "distinct (map i_key (filter active (o_incidents (snd (open_incident real ''9'' ''9'' (PStr ''host:1'') (PStr ''disk full'')
     (PStr ''critical'') (Some ''disk:1'') ''probe'' (ops_run ex_ops_env 0 ex_ops_events new_ops))))))"
  using one_active_incident_per_key [OF refl _ _ prod.collapse [symmetric], of "''9''" ex_ops_env 0 ex_ops_events "''disk:1''" real "''9''"
      "PStr ''host:1''" "PStr ''disk full''" "PStr ''critical''" "''probe''"]
  unfolding ex_ops_ids by simp

text \<open>C25: An incident that is in the tables at some moment is in them ever after, under the same id, event,
  device, title and severity; its status only moves from open to acknowledged to resolved, a resolved incident
  is never active again, the times of its acknowledgement and its resolution are final, and the lines of the
  timeline are never changed or removed.\<close>

theorem incident_history_is_final:
  assumes "st = ops_run e k xs new_ops" and "i \<in> set (o_incidents st)" and "st' = ops_run e k' ys st"
  shows "(\<exists>j \<in> set (o_incidents st'). evolves i j \<and> (active j \<longrightarrow> active i)) \<and> (\<exists>ls. o_lines st' = o_lines st @ ls)"
proof -
  have "good_step st st'" unfolding assms(1,3) by (rule ops_run_good [OF reachable_inv])
  then obtain j where "j \<in> set (o_incidents st')" "evolves i j" "\<exists>ls. o_lines st' = o_lines st @ ls"
    using assms(2) unfolding good_step_def successor_def by blast
  moreover from this(2) have "active j \<longrightarrow> active i"
    by (cases "i_status i"; cases "i_status j") (simp_all add: evolves_def active_def)
  ultimately show ?thesis by blast
qed

theorem incident_history_is_final_witness:
  "\<exists>ls. o_lines (ops_run ex_ops_env 3 [E_change [(''id'', PStr ''0''), (''action'', PStr ''resolve'')] ''ann'']
      (ops_run ex_ops_env 0 ex_ops_events new_ops)) = o_lines (ops_run ex_ops_env 0 ex_ops_events new_ops) @ ls"
proof -
  obtain i where "i \<in> set (o_incidents (ops_run ex_ops_env 0 ex_ops_events new_ops))"
    using ex_ops_ids by blast
  from incident_history_is_final [OF refl this refl] show ?thesis by blast
qed

subsection \<open>The alarm of a router\<close>

text \<open>
  The contract. \<open>f\<close> is the number of failures in a row so far and \<open>up\<close> tells whether an incident is active.
  A poll is a success or a failure, inside or outside a maintenance window: the alarm is raised by the
  first failure that is not the first in a row and outside every window, once, and cleared by the next
  success. Failures inside a window are counted all the same.
\<close>

fun alarms :: "nat \<Rightarrow> bool \<Rightarrow> (bool \<times> bool) list \<Rightarrow> change option list" where
  "alarms f up [] = []"
| "alarms f up ((True, w) # ps) = (if up then Some Closed else None) # alarms 0 False ps"
| "alarms f up ((False, w) # ps) =
     (let ring = (1 \<le> f \<and> \<not> w) in (if ring \<and> \<not> up then Some Opened else None) # alarms (Suc f) (up \<or> ring) ps)"

text \<open>The polls of one router; the \<open>k\<close>-th has its own clock and its own id for a new incident.\<close>

fun observe_all :: "(nat \<Rightarrow> nat \<Rightarrow> real) \<Rightarrow> (nat \<Rightarrow> string) \<Rightarrow> string \<Rightarrow> string \<Rightarrow> nat \<Rightarrow> bool list \<Rightarrow> ops
    \<Rightarrow> (exn + change option) list \<times> ops" where
  "observe_all now uid r name k [] st = ([], st)"
| "observe_all now uid r name k (ok # oks) st =
     (let (x, st1) = observe_router (now k) (uid k) (uid k) \<lparr>r_id = r, r_name = name, r_ok = ok\<rparr> st;
          (xs, st2) = observe_all now uid r name (Suc k) oks st1
      in (x # xs, st2))"

definition id_ok :: "string \<Rightarrow> bool" where
  "id_ok s \<longleftrightarrow> py_strip s = s \<and> length s \<le> 64"

definition alarm_state :: "string \<Rightarrow> nat \<Rightarrow> bool \<Rightarrow> ops \<Rightarrow> bool" where
  "alarm_state r f up st \<longleftrightarrow>
     failures_of (''router:'' @ r) st = int f \<and> (up \<longleftrightarrow> find_active (unreachable_key r) st \<noteq> None)
     \<and> (\<forall>i. find_active (unreachable_key r) st = Some i \<longrightarrow> id_ok (i_id i))"

lemma update_frame:
  "o_health (update_incident ident f st) = o_health st" "o_contexts (update_incident ident f st) = o_contexts st"
  "(\<And>i. i_id (f i) = i_id i) \<Longrightarrow> map i_id (o_incidents (update_incident ident f st)) = map i_id (o_incidents st)"
  by (simp_all add: update_incident_def)

lemma update_ids:
  "(\<And>i. i_id (f i) = i_id i) \<Longrightarrow> i_id ` set (o_incidents (update_incident ident f st)) = i_id ` set (o_incidents st)"
  using update_frame(3) by (metis list.set_map)

lemma update_row_id:
  "(\<And>i. i_id (f i) = i_id i) \<Longrightarrow> j \<in> set (o_incidents (update_incident ident f st)) \<Longrightarrow> i_id j \<in> i_id ` set (o_incidents st)"
  using update_ids [of f ident st] by blast

lemma open_frame:
  assumes "open_incident now uid mid dev title sev (Some key) actor st = (x, st')" "key \<noteq> []"
  shows "o_health st' = o_health st \<and> o_contexts st' = o_contexts st
    \<and> i_id ` set (o_incidents st') \<subseteq> insert uid (i_id ` set (o_incidents st))
    \<and> (\<forall>ident new. x = Inr (ident, new) \<longrightarrow> ident = (case find_active key st of None \<Rightarrow> uid | Some old \<Rightarrow> i_id old))"
proof -
  have k: "(case Some key of None \<Rightarrow> ''manual:'' @ mid | Some [] \<Rightarrow> ''manual:'' @ mid | Some k \<Rightarrow> k) = key"
    using assms(2) by (cases key) simp_all
  show ?thesis
    using assms(1) unfolding open_incident_def Let_def k
    by (auto simp: timeline_def insert_incident_def update_frame split: sum.splits option.splits if_splits
        dest!: update_row_id [rotated])
qed

lemma no_link_title:
  assumes "length name \<le> 128"
  shows "\<exists>t. text_field (PStr (no_link_text @ name)) 300 = Inr t \<and> t \<noteq> []"
proof -
  have "length no_link_text = 19" by (simp add: no_link_text_def utf8_def)
  moreover obtain c cs where "no_link_text = c # cs" "\<not> py_isspace c"
    by (simp add: no_link_text_def utf8_def py_isspace_def Let_def)
  then have "dropWhile py_isspace (no_link_text @ name) = c # cs @ name" by (metis append_Cons dropWhile.simps(2))
  with \<open>\<not> py_isspace c\<close> have "py_strip (no_link_text @ name) \<noteq> []" by (simp add: py_strip_def)
  ultimately show ?thesis using assms by (simp add: text_field_def)
qed

lemma answer_failure:
  assumes inv: "ops_inv st" and len: "length r \<le> 57" "length name \<le> 128"
    and uid: "uid \<notin> i_id ` set (o_incidents st)" "id_ok uid"
    and ids: "\<And>i. find_active (unreachable_key r) st = Some i \<Longrightarrow> id_ok (i_id i)"
    and run: "observe_answer now uid mid \<lparr>r_id = r, r_name = name, r_ok = False\<rparr> True found st = (x, st')"
  shows "x = Inr (if find_active (unreachable_key r) st = None then Some Opened else None)
    \<and> (\<exists>i. find_active (unreachable_key r) st' = Some i \<and> id_ok (i_id i))
    \<and> o_health st' = o_health st \<and> o_contexts st' = o_contexts st
    \<and> i_id ` set (o_incidents st') \<subseteq> insert uid (i_id ` set (o_incidents st))"
proof -
  let ?key = "unreachable_key r"
  obtain y st2 where o: "open_incident (\<lambda>k. now (Suc k)) uid mid (PStr (''router:'' @ r)) (PStr (no_link_text @ name))
      (PStr ''critical'') (Some ?key) ''system'' st = (y, st2)" by force
  obtain t where t: "text_field (PStr (no_link_text @ name)) 300 = Inr t" "t \<noteq> []" using no_link_title [OF len(2)] by blast
  have key: "?key \<noteq> []" by (simp add: unreachable_key_def)
  have dev: "text_field (PStr (''router:'' @ r)) 64 = Inr (py_strip (''router:'' @ r))" using len(1) by (simp add: text_field_def)
  have "\<exists>ident new. y = Inr (ident, new)"
    using o t dev open_result [OF inv uid(1) o key]
    by (auto simp: open_incident_def Let_def severities_def integrity_error_def insert_incident_def split: option.splits if_splits)
  then obtain ident new where y: "y = Inr (ident, new)" by blast
  note res = open_result [OF inv uid(1) o key, unfolded y, simplified] and fr = open_frame [OF o key, unfolded y]
  have x: "x = Inr (if new then Some Opened else None)" "st' = st2"
    using run o y by (simp_all add: observe_answer_def)
  have "id_ok ident" using fr ids uid(2) by (auto split: option.splits)
  then show ?thesis using res x fr by auto
qed

lemma observe_failure:
  assumes inv: "ops_inv st" and a: "alarm_state r f up st" and len: "length r \<le> 57" "length name \<le> 128"
    and uid: "uid \<notin> i_id ` set (o_incidents st)" "id_ok uid"
    and run: "observe_router now uid mid \<lparr>r_id = r, r_name = name, r_ok = False\<rparr> st = (x, st')"
    and ring: "ring \<longleftrightarrow> 1 \<le> f \<and> \<not> in_maintenance (now 0) (''router:'' @ r) st"
  shows "x = Inr (if ring \<and> \<not> up then Some Opened else None) \<and> alarm_state r (Suc f) (up \<or> ring) st'
    \<and> o_contexts st' = o_contexts st \<and> i_id ` set (o_incidents st') \<subseteq> insert uid (i_id ` set (o_incidents st))"
proof -
  let ?row = "\<lparr>r_id = r, r_name = name, r_ok = False\<rparr>" and ?key = "unreachable_key r"
  let ?s = "note_health (now 0) ?row st"
  have s: "o_incidents ?s = o_incidents st" "o_contexts ?s = o_contexts st" "find_active ?key ?s = find_active ?key st"
    "failures_of (''router:'' @ r) ?s = int (Suc f)"
    using a by (simp_all add: note_health_def Let_def find_active_def failures_of_def alarm_state_def split: option.splits)
  have inv': "ops_inv ?s" using health_good [OF inv] by (simp add: good_step_def)
  have "in_maintenance (now 0) (''router:'' @ r) ?s = in_maintenance (now 0) (''router:'' @ r) st"
    using s(2) by (simp add: in_maintenance_def)
  then have due: "observe_due (now 0) ?row ?s \<longleftrightarrow> ring" using s(4) ring by (auto simp: observe_due_def)
  have ans: "observe_answer now uid mid ?row ring (find_active ?key ?s) ?s = (x, st')"
    using run due by (simp add: observe_router_def observe_among_def Let_def)
  show ?thesis
  proof (cases ring)
    case False
    with ans have "x = Inr None" "st' = ?s" by (simp_all add: observe_answer_def)
    then show ?thesis using False a s by (auto simp: alarm_state_def)
  next
    case True
    have ids: "id_ok (i_id i)" if "find_active ?key ?s = Some i" for i using that s(3) a by (simp add: alarm_state_def)
    have uid': "uid \<notin> i_id ` set (o_incidents ?s)" using uid(1) s(1) by simp
    have "observe_answer now uid mid ?row True (find_active ?key ?s) ?s = (x, st')" using ans True by simp
    then have res: "x = Inr (if find_active ?key ?s = None then Some Opened else None)
        \<and> (\<exists>i. find_active ?key st' = Some i \<and> id_ok (i_id i)) \<and> o_health st' = o_health ?s
        \<and> o_contexts st' = o_contexts ?s \<and> i_id ` set (o_incidents st') \<subseteq> insert uid (i_id ` set (o_incidents ?s))"
      by (rule answer_failure [OF inv' len uid' uid(2), rotated]) (rule ids)
    moreover have "failures_of (''router:'' @ r) st' = int (Suc f)"
      using res s(4) by (simp add: failures_of_def)
    ultimately show ?thesis using True a s by (auto simp: alarm_state_def)
  qed
qed

lemma active_unique:
  assumes "ops_inv st" "i \<in> set (o_incidents st)" "j \<in> set (o_incidents st)" "active i" "active j" "i_key i = i_key j"
  shows "i = j"
proof -
  have "inj_on i_key (set (filter active (o_incidents st)))"
    using assms(1) unfolding ops_inv_def distinct_map by blast
  then show ?thesis by (rule inj_onD) (use assms in auto)
qed

lemma change_resolve:
  assumes row: "find_incident (i_id i) st = Some i" and i: "i_status i \<noteq> Resolved" "id_ok (i_id i)"
    and m: "text_field (PStr msg) 2000 = Inr m"
  shows "\<exists>v. change_incident now (resolve_body (i_id i) msg) actor st
    = (Inr v, timeline (i_id i) (now 2) actor ''resolve'' m
         (update_incident (i_id i) (\<lambda>j. j\<lparr>i_status := Resolved, i_resolved := Some (now 0), i_updated := now 1\<rparr>) st))"
proof -
  let ?st = "timeline (i_id i) (now 2) actor ''resolve'' m
         (update_incident (i_id i) (\<lambda>j. j\<lparr>i_status := Resolved, i_resolved := Some (now 0), i_updated := now 1\<rparr>) st)"
  have "i_id i \<in> i_id ` set (o_incidents ?st)"
    using find_incident_Some [OF row] update_ids [of "\<lambda>j. j\<lparr>i_status := Resolved, i_resolved := Some (now 0), i_updated := now 1\<rparr>" "i_id i" st]
    by (auto simp: timeline_def)
  then have "find_incident (i_id i) ?st \<noteq> None" by (simp add: find_incident_None)
  then obtain v where "incident_view (i_id i) ?st = Inr v" by (auto simp: incident_view_def Let_def)
  then show ?thesis
    using row i m by (simp add: change_incident_def resolve_body_def get_default_def text_field_def id_ok_def parse_action_def row_change_def Let_def)
qed

lemma restored_ok: "\<exists>m. text_field (PStr restored_text) 2000 = Inr m"
  by (simp add: text_field_def restored_text_def utf8_def)

lemma answer_success:
  assumes inv: "ops_inv st" and j: "j \<in> set (o_incidents st)" "active j" "id_ok (i_id j)" "i_id i = i_id j"
    and run: "observe_answer now uid mid \<lparr>r_id = r, r_name = name, r_ok = True\<rparr> due (Some i) st = (x, st')"
  shows "x = Inr (Some Closed) \<and> find_active (i_key j) st' = None \<and> o_health st' = o_health st
    \<and> o_contexts st' = o_contexts st \<and> i_id ` set (o_incidents st') = i_id ` set (o_incidents st)"
proof -
  let ?f = "\<lambda>j. j\<lparr>i_status := Resolved, i_resolved := Some (now 1), i_updated := now 2\<rparr>"
  have "find_incident (i_id j) st \<noteq> None" using j(1) by (simp add: find_incident_None)
  then obtain j' where j': "find_incident (i_id j) st = Some j'" by blast
  have row: "find_incident (i_id j) st = Some j"
    using find_incident_Some [OF j'] j(1) inv j' by (auto simp: ops_inv_def distinct_map dest: inj_onD)
  obtain m where m: "text_field (PStr restored_text) 2000 = Inr m" using restored_ok by blast
  have st': "x = Inr (Some Closed)"
    "st' = timeline (i_id j) (now 3) ''collector'' ''resolve'' m (update_incident (i_id j) ?f st)"
    using run change_resolve [OF row _ j(3) m, of "\<lambda>k. now (Suc k)" "''collector''"] j(2,4)
    by (auto simp: observe_answer_def active_def eval_nat_numeral)
  have "find_active (i_key j) st' = None"
    unfolding find_active_None
  proof
    assume "i_key j \<in> i_key ` set (filter active (o_incidents st'))"
    then obtain l where l: "l \<in> set (o_incidents st')" "i_key l = i_key j" "active l" by auto
    then have "l \<in> set (o_incidents st)" "i_id l \<noteq> i_id j"
      by (auto simp: st'(2) timeline_def update_incident_def active_def)
    with l(2,3) j(1,2) show False using active_unique [OF inv, of l j] by simp
  qed
  moreover have "i_id ` set (o_incidents st') = i_id ` set (o_incidents st)"
    using update_ids [of ?f "i_id j" st] by (simp add: st'(2) timeline_def)
  ultimately show ?thesis using st' by (simp add: timeline_def update_frame)
qed

lemma observe_success:
  assumes inv: "ops_inv st" and a: "alarm_state r f up st"
    and run: "observe_router now uid mid \<lparr>r_id = r, r_name = name, r_ok = True\<rparr> st = (x, st')"
  shows "x = Inr (if up then Some Closed else None) \<and> alarm_state r 0 False st'
    \<and> o_contexts st' = o_contexts st \<and> i_id ` set (o_incidents st') \<subseteq> i_id ` set (o_incidents st)"
proof -
  let ?row = "\<lparr>r_id = r, r_name = name, r_ok = True\<rparr>" and ?key = "unreachable_key r"
  let ?s = "note_health (now 0) ?row st"
  have s: "o_incidents ?s = o_incidents st" "o_contexts ?s = o_contexts st" "find_active ?key ?s = find_active ?key st"
    "failures_of (''router:'' @ r) ?s = 0"
    by (simp_all add: note_health_def Let_def find_active_def failures_of_def split: option.splits)
  have inv': "ops_inv ?s" using health_good [OF inv] by (simp add: good_step_def)
  have ans: "observe_answer now uid mid ?row (observe_due (now 0) ?row ?s) (find_active ?key st) ?s = (x, st')"
    using run s(3) by (simp add: observe_router_def observe_among_def Let_def)
  show ?thesis
  proof (cases "find_active ?key st")
    case None
    with ans have "x = Inr None" "st' = ?s" by (simp_all add: observe_answer_def)
    then show ?thesis using None a s by (simp add: alarm_state_def)
  next
    case (Some i)
    have i: "i \<in> set (o_incidents ?s)" "i_key i = ?key" "active i" "id_ok (i_id i)"
      using find_active_Some [OF Some] a Some s(1) by (auto simp: alarm_state_def)
    from answer_success [OF inv' i(1,3,4) refl ans [unfolded Some]] show ?thesis
      using Some a s i(2) by (simp add: alarm_state_def failures_of_def)
  qed
qed

text \<open>The ids the polls may use for new incidents: well formed, distinct and not taken.\<close>

definition fresh_ids :: "(nat \<Rightarrow> string) \<Rightarrow> nat \<Rightarrow> nat \<Rightarrow> ops \<Rightarrow> bool" where
  "fresh_ids uid k n st \<longleftrightarrow>
     (let ids = map uid [k..<k + n]
      in distinct ids \<and> list_all id_ok ids \<and> list_all (\<lambda>i. i_id i \<notin> set ids) (o_incidents st))"

lemma fresh_ids_Suc:
  assumes "fresh_ids uid k (Suc n) st"
  shows "uid k \<notin> i_id ` set (o_incidents st)" "id_ok (uid k)"
    and "i_id ` set (o_incidents st') \<subseteq> insert (uid k) (i_id ` set (o_incidents st)) \<Longrightarrow> fresh_ids uid (Suc k) n st'"
proof -
  define ids where "ids = map uid [Suc k..<Suc k + n]"
  have "map uid [k..<k + Suc n] = uid k # ids" by (simp add: ids_def upt_rec)
  then have f: "distinct (uid k # ids)" "id_ok (uid k)" "list_all id_ok ids"
    "\<And>i. i \<in> set (o_incidents st) \<Longrightarrow> i_id i \<noteq> uid k \<and> i_id i \<notin> set ids"
    using assms unfolding fresh_ids_def Let_def list_all_iff by auto
  show "uid k \<notin> i_id ` set (o_incidents st)" "id_ok (uid k)" using f(2,4) by (metis imageE)+
  assume sub: "i_id ` set (o_incidents st') \<subseteq> insert (uid k) (i_id ` set (o_incidents st))"
  have "i_id i \<notin> set ids" if "i \<in> set (o_incidents st')" for i
  proof -
    have "i_id i = uid k \<or> (\<exists>j \<in> set (o_incidents st). i_id i = i_id j)" using sub that by blast
    with f(1,4) show ?thesis by auto
  qed
  then show "fresh_ids uid (Suc k) n st'"
    using f(1,3) unfolding fresh_ids_def Let_def ids_def [symmetric] by (simp add: list_all_iff)
qed

text \<open>The windows the polls fall into, as the context of the router says.\<close>

definition windows :: "(nat \<Rightarrow> nat \<Rightarrow> real) \<Rightarrow> string \<Rightarrow> nat \<Rightarrow> nat \<Rightarrow> ops \<Rightarrow> bool list" where
  "windows now r k n st = map (\<lambda>i. in_maintenance (now i 0) (''router:'' @ r) st) [k..<k + n]"

lemma windows_Suc:
  "windows now r k (Suc n) st = in_maintenance (now k 0) (''router:'' @ r) st # windows now r (Suc k) n st"
  by (simp add: windows_def upt_rec)

lemma windows_context: "o_contexts st' = o_contexts st \<Longrightarrow> windows now r k n st' = windows now r k n st"
  by (simp add: windows_def in_maintenance_def)

lemma alarm_run:
  assumes "ops_inv st" "alarm_state r f up st" "length r \<le> 57" "length name \<le> 128" "fresh_ids uid k (length oks) st"
  shows "fst (observe_all now uid r name k oks st)
    = map Inr (alarms f up (zip oks (windows now r k (length oks) st)))"
  using assms(1,2,5)
proof (induction oks arbitrary: k f up st)
  case (Cons ok oks)
  obtain x st1 where x: "observe_router (now k) (uid k) (uid k) \<lparr>r_id = r, r_name = name, r_ok = ok\<rparr> st = (x, st1)" by force
  let ?w = "in_maintenance (now k 0) (''router:'' @ r) st"
  define ring where "ring \<longleftrightarrow> 1 \<le> f \<and> \<not> ?w"
  have fresh: "fresh_ids uid k (Suc (length oks)) st" using Cons.prems(3) by simp
  have inv1: "ops_inv st1" using observe_good [OF Cons.prems(1) x] by (simp add: good_step_def)
  have step: "x = Inr (hd (alarms f up ((ok, ?w) # zip oks (windows now r (Suc k) (length oks) st))))
      \<and> alarm_state r (if ok then 0 else Suc f) (\<not> ok \<and> (up \<or> ring)) st1 \<and> o_contexts st1 = o_contexts st
      \<and> i_id ` set (o_incidents st1) \<subseteq> insert (uid k) (i_id ` set (o_incidents st))"
  proof (cases ok)
    case True
    then have "observe_router (now k) (uid k) (uid k) \<lparr>r_id = r, r_name = name, r_ok = True\<rparr> st = (x, st1)" using x by simp
    from observe_success [OF Cons.prems(1,2) this] True show ?thesis by auto
  next
    case False
    then have "observe_router (now k) (uid k) (uid k) \<lparr>r_id = r, r_name = name, r_ok = False\<rparr> st = (x, st1)" using x by simp
    from observe_failure [OF Cons.prems(1,2) assms(3,4) fresh_ids_Suc(1,2) [OF fresh] this, of ring] False show ?thesis
      by (simp add: ring_def Let_def)
  qed
  have "fresh_ids uid (Suc k) (length oks) st1" by (rule fresh_ids_Suc(3) [OF fresh]) (use step in blast)
  with Cons.IH [OF inv1] step
  have "fst (observe_all now uid r name (Suc k) oks st1)
      = map Inr (alarms (if ok then 0 else Suc f) (\<not> ok \<and> (up \<or> ring)) (zip oks (windows now r (Suc k) (length oks) st1)))" by blast
  moreover have "windows now r (Suc k) (length oks) st1 = windows now r (Suc k) (length oks) st"
    using step windows_context by blast
  ultimately show ?case using x step by (cases ok) (simp_all add: split_beta windows_Suc ring_def Let_def)
qed simp

text \<open>What other threads do between the transactions of a successful poll matters in one case only: the
  incident it has found is resolved before it closes it. Then the poll raises, the tables stay as the other
  threads left them, and the caller does not tell anybody that the router is back.\<close>

theorem resolved_meanwhile_raises:
  assumes "observe_among f g now uid mid \<lparr>r_id = r, r_name = name, r_ok = True\<rparr> st = (x, st')"
    and "st2 = f (note_health (now 0) \<lparr>r_id = r, r_name = name, r_ok = True\<rparr> st)" and "ops_inv st2"
    and "good_step st2 (g st2)" and "find_active (unreachable_key r) st2 = Some i" and "id_ok (i_id i)"
  shows "if i_id i \<in> i_id ` set (filter active (o_incidents (g st2)))
    then x = Inr (Some Closed) \<and> find_active (unreachable_key r) st' = None else x = Inl ValueError \<and> st' = g st2"
proof -
  let ?row = "\<lparr>r_id = r, r_name = name, r_ok = True\<rparr>"
  have inv: "ops_inv (g st2)" using assms(4) by (simp add: good_step_def)
  have ans: "observe_answer now uid mid ?row (observe_due (now 0) ?row (note_health (now 0) ?row st)) (Some i) (g st2) = (x, st')"
    using assms(1,2,5) by (simp add: observe_among_def Let_def)
  have i: "i \<in> set (o_incidents st2)" "i_key i = unreachable_key r" using find_active_Some [OF assms(5)] by auto
  then obtain j where j: "j \<in> set (o_incidents (g st2))" "evolves i j"
    using assms(4) by (auto simp: good_step_def successor_def)
  then have same: "i_id i = i_id j" "i_key j = unreachable_key r" using i(2) by (simp_all add: evolves_def)
  have only: "l = j" if "l \<in> set (o_incidents (g st2))" "i_id l = i_id j" for l
    using that j(1) inv by (auto simp: ops_inv_def distinct_map dest: inj_onD)
  have act: "i_id i \<in> i_id ` set (filter active (o_incidents (g st2))) \<longleftrightarrow> active j"
    using only j(1) same(1) by auto
  show ?thesis
  proof (cases "active j")
    case True
    from answer_success [OF inv j(1) True _ same(1) ans] assms(6) same True act show ?thesis by simp
  next
    case False
    have "find_incident (i_id j) (g st2) \<noteq> None" using j(1) by (simp add: find_incident_None)
    then obtain l where l: "find_incident (i_id j) (g st2) = Some l" by blast
    with only find_incident_Some [OF l] have row: "find_incident (i_id j) (g st2) = Some j" by auto
    obtain m where m: "text_field (PStr restored_text) 2000 = Inr m" using restored_ok by blast
    have resolved: "i_status j = Resolved" using False by (cases "i_status j") (simp_all add: active_def)
    have "change_incident (\<lambda>k. now (Suc k)) (resolve_body (i_id j) restored_text) ''collector'' (g st2) = (Inl ValueError, g st2)"
      using row resolved assms(6) same(1) m
      by (simp add: change_incident_def resolve_body_def get_default_def text_field_def id_ok_def parse_action_def row_change_def
          Let_def)
    with ans same(1) False act show ?thesis by (simp add: observe_answer_def)
  qed
qed

text \<open>C28: In every reachable state the next polls of a router follow the contract of the alarm, when nobody
  else changes its incident between them or between the transactions of a poll: no poll raises, the first
  failure outside every maintenance window that is not the first in a row opens one incident, further
  failures open none, failures inside a window open none but count, and the next success closes what is
  open. \<open>f\<close> and \<open>up\<close> are the number of failures and whether an incident is active when the polls begin.\<close>

theorem router_alarm_refines:
  assumes "st = ops_run e n xs new_ops" and "alarm_state r f up st" and "length r \<le> 57" and "length name \<le> 128"
    and "fresh_ids uid k (length oks) st"
  shows "fst (observe_all now uid r name k oks st)
    = map Inr (alarms f up (zip oks (windows now r k (length oks) st)))"
  by (rule alarm_run [OF _ assms(2-5)]) (simp add: assms(1) reachable_inv)

text \<open>A window until 25: the failures at 10 and 20 open nothing, the one at 30 does.\<close>

definition ex_window_env :: ops_env where
  "ex_window_env = ex_ops_env\<lparr>oe_float := (\<lambda>v. Inr (Some 25)),
     oe_rows := [\<lparr>d_id = ''router:r1'', d_name = ''Edge'', d_address = ''10.0.0.1'', d_site = [], d_owner = [],
       d_tags = [], d_until = 0, d_maintenance = False\<rparr>]\<rparr>"

definition ex_window_events :: "ops_event list" where
  "ex_window_events = ex_ops_events @ [E_context [(''id'', PStr ''router:r1'')]]"

theorem router_alarm_refines_witness:
  "fst (observe_all (\<lambda>k j. real (10 * k + j)) string_of_nat ''r1'' ''Edge'' 1 [False, False, False, False, True, True]
      (ops_run ex_window_env 0 ex_window_events new_ops))
    = [Inr None, Inr None, Inr (Some Opened), Inr None, Inr (Some Closed), Inr None]"
proof -
  let ?st = "ops_run ex_window_env 0 ex_window_events new_ops" and ?oks = "[False, False, False, False, True, True]"
  have "find_active (unreachable_key ''r1'') ?st = None" "failures_of (''router:'' @ ''r1'') ?st = int 0"
    by code_simp+
  then have "alarm_state ''r1'' 0 False ?st" by (simp add: alarm_state_def)
  moreover have "fresh_ids string_of_nat 1 (length ?oks) ?st" by code_simp
  moreover have "windows (\<lambda>k j. real (10 * k + j)) ''r1'' 1 (length ?oks) ?st = [True, True, False, False, False, False]"
    by code_simp
  ultimately show ?thesis
    using router_alarm_refines [OF refl, of "''r1''" 0 False ex_window_env 0 ex_window_events "''Edge''" string_of_nat 1
        ?oks "\<lambda>k j. real (10 * k + j)"] by simp
qed

text \<open>An operator resolves the incident between the second and the third transaction of a poll.\<close>

theorem resolved_meanwhile_raises_witness:
  "\<exists>st st'. observe_among id (ops_step ex_ops_env 9 (E_change (resolve_body ''0'' ''seen'') ''ann'')) (\<lambda>j. real j) ''9'' ''9''
      \<lparr>r_id = ''r1'', r_name = ''Edge'', r_ok = True\<rparr> st = (Inl ValueError, st')"
proof -
  define st where "st = ops_run ex_ops_env 0 [E_open (PStr ''router:r1'') (PStr ''no link'') (PStr ''critical'')
    (Some (unreachable_key ''r1'')) ''system''] new_ops"
  let ?row = "\<lparr>r_id = ''r1'', r_name = ''Edge'', r_ok = True\<rparr>"
  let ?g = "ops_step ex_ops_env 9 (E_change (resolve_body ''0'' ''seen'') ''ann'')"
  define st2 where "st2 = note_health 0 ?row st"
  obtain x st' where run: "observe_among id ?g (\<lambda>j. real j) ''9'' ''9'' ?row st = (x, st')" by fastforce
  have "ops_inv st" unfolding st_def by (rule reachable_inv)
  from health_good [OF this, of 0 ?row] have inv: "ops_inv st2" by (simp add: st2_def good_step_def)
  have "map i_id (filter active (o_incidents (?g st2))) = []" "map_option i_id (find_active (unreachable_key ''r1'') st2) = Some ''0''"
    unfolding st2_def st_def by code_simp+
  then obtain i where i: "find_active (unreachable_key ''r1'') st2 = Some i" "i_id i = ''0''" "filter active (o_incidents (?g st2)) = []"
    by auto
  have "id_ok ''0''" by code_simp
  moreover have "i_id i \<notin> i_id ` set (filter active (o_incidents (?g st2)))" using i(3) by (metis empty_iff image_empty list.set(1))
  ultimately have "x = Inl ValueError"
    using resolved_meanwhile_raises [OF run _ inv step_good [OF inv] i(1)] i(2) by (simp add: st2_def)
  with run show ?thesis by blast
qed

text \<open>A batch of alerts is not applied as a whole. An alert whose summary is blank passes the check of the
  batch, because only an absent summary is replaced by the name of the alert, and the empty title is refused
  when it is applied: the request fails, what the alerts before it did stays in the tables, and their
  notifications are never sent.\<close>

theorem blank_summary_aborts_batch:
  assumes "get_default body ''alerts'' PNone = PList [u, v]"
    and "validate_alert u = Inr a" and "validate_alert v = Inr b" and "a_title b = []" and "a_firing b"
    and "apply_alert digest routers (now 0) (uid 0) (uid 0) a no_alerts st = (Inr out, st1)" and "\<forall>d. \<not> in_maintenance (now 1 0) d st1"
  shows "receive_alerts digest routers now uid body st = (Inl ValueError, st1)"
proof -
  have "validate_alerts [u, v] = Inr [a, b]" using assms(2,3) by simp
  moreover have "apply_alert digest routers (now 1) (uid 1) (uid 1) b out st1 = (Inl ValueError, st1)"
    using assms(4,5,7) by (auto simp: apply_alert_def Let_def open_incident_def text_field_def py_strip_def split: sum.split)
  ultimately show ?thesis using assms(1,6) by (simp add: receive_alerts_def)
qed

definition ex_alert :: "string \<Rightarrow> pyval" where
  "ex_alert t = PDict [(''status'', PStr ''firing''), (''labels'', PDict [(''alertname'', PStr ''DiskFull'')]),
     (''annotations'', PDict [(''summary'', PStr t)])]"

definition ex_bad_batch :: "(string, pyval) dict" where
  "ex_bad_batch = [(''alerts'', PList [ex_alert ''disk'', ex_alert '' ''])]"

theorem blank_summary_aborts_batch_witness:
  "\<exists>st1. receive_alerts (\<lambda>d. ''h'') [''r1''] (\<lambda>k i. 0) (\<lambda>k. ''u'') ex_bad_batch new_ops = (Inl ValueError, st1)
     \<and> map i_title (o_incidents st1) = [''disk'']"
proof -
  define a where "a = \<lparr>a_firing = True, a_labels = [(''alertname'', ''DiskFull''), (''job'', []), (''instance'', []), (''router'', [])],
    a_title = ''disk''\<rparr>"
  define b where "b = a\<lparr>a_title := []\<rparr>"
  have v: "validate_alert (ex_alert ''disk'') = Inr a" "validate_alert (ex_alert '' '') = Inr b"
    unfolding a_def b_def by code_simp+
  have b: "a_title b = []" "a_firing b" by (simp_all add: b_def a_def)
  have body: "get_default ex_bad_batch ''alerts'' PNone = PList [ex_alert ''disk'', ex_alert '' '']"
    by (simp add: ex_bad_batch_def get_default_def)
  let ?run = "apply_alert (\<lambda>d. ''h'') [''r1''] (\<lambda>i. 0) ''u'' ''u'' a no_alerts new_ops"
  have st: "o_contexts (snd ?run) = []" "map i_title (o_incidents (snd ?run)) = [''disk'']"
    "fst ?run = Inr \<lparr>ao_opened = 1, ao_resolved = 0, ao_ignored = 0, ao_notes = [(''ALERT_OPENED'', ''disk'')]\<rparr>"
    unfolding a_def by code_simp+
  have run: "?run = (Inr \<lparr>ao_opened = 1, ao_resolved = 0, ao_ignored = 0, ao_notes = [(''ALERT_OPENED'', ''disk'')]\<rparr>, snd ?run)"
    using st(3) by (metis prod.collapse)
  have calm: "\<forall>d. \<not> in_maintenance 0 d (snd ?run)" using st(1) by (simp add: in_maintenance_def)
  from blank_summary_aborts_batch [where now = "\<lambda>k i. 0" and uid = "\<lambda>k. ''u''", OF body v b run calm]
  show ?thesis by (intro exI [of _ "snd ?run"] conjI st(2))
qed

end
