(* ===== verification/Runbooks.thy ===== *)
theory Runbooks
  imports Protocol "HOL-Library.List_Lexorder"
begin

text \<open>
  Prepared operations run by a button or by a healing rule: \<open>RunbookRunner\<close> of \<open>netpulse/runbooks.py\<close> and
  \<open>Healing\<close> of \<open>netpulse/healing.py\<close>. A definition is a JSON object; its command is a template whose
  placeholders are replaced by checked parameters. What the process or the disk query gives back is an
  argument, what the code writes elsewhere (log, alert, inventory event, journal) is an output.
\<close>

section \<open>Templates\<close>

definition safe_char :: "char \<Rightarrow> bool" where
  "safe_char c \<longleftrightarrow>
     (let n = of_char c :: nat
      in 65 \<le> n \<and> n \<le> 90 \<or> 97 \<le> n \<and> n \<le> 122 \<or> 48 \<le> n \<and> n \<le> 57 \<or> c \<in> {CHR ''.'', CHR ''_'', CHR ''-''})"

text \<open>\<open>PARAM_RE.match\<close>: the end anchor of the pattern also matches before a final line feed.\<close>

definition param_ok :: "string \<Rightarrow> bool" where
  "param_ok s \<longleftrightarrow>
     (let t = (if s \<noteq> [] \<and> last s = char_of (10 :: nat) then butlast s else s)
      in t \<noteq> [] \<and> length t \<le> 64 \<and> list_all safe_char t)"

definition name_char :: "char \<Rightarrow> bool" where
  "name_char c \<longleftrightarrow> (let n = of_char c :: nat in 97 \<le> n \<and> n \<le> 122) \<or> c = CHR ''_''"

datatype token = Lit char | Hole string

definition brace_open :: char where "brace_open = CHR ''{''"
definition brace_close :: char where "brace_close = CHR ''}''"

text \<open>A placeholder is a non-empty run of name characters between braces; anything else is literal text.\<close>

function tokens :: "string \<Rightarrow> token list" where
  "tokens [] = []"
| "tokens (c # cs) =
     (let n = takeWhile name_char cs; rest = dropWhile name_char cs
      in if c = brace_open \<and> n \<noteq> [] \<and> rest \<noteq> [] \<and> hd rest = brace_close then Hole n # tokens (tl rest)
         else Lit c # tokens cs)"
  by pat_completeness auto

termination
proof (relation "measure length")
  show "(tl rest, c # cs) \<in> measure length"
    if "n = takeWhile name_char cs" "rest = dropWhile name_char cs" for n rest c cs
    using that length_dropWhile_le [of name_char cs] by simp
qed simp_all

definition hole_names :: "string \<Rightarrow> string list" where
  "hole_names s = concat (map (\<lambda>t. case t of Lit _ \<Rightarrow> [] | Hole n \<Rightarrow> [n]) (tokens s))"

definition fill :: "(string, string) dict \<Rightarrow> token \<Rightarrow> string" where
  "fill vals t =
     (case t of Lit c \<Rightarrow> [c]
      | Hole n \<Rightarrow> (case dict_get vals n of None \<Rightarrow> brace_open # n @ [brace_close] | Some v \<Rightarrow> v))"

definition render :: "(string, string) dict \<Rightarrow> string \<Rightarrow> string" where
  "render vals s = concat (map (fill vals) (tokens s))"

section \<open>Definitions\<close>

type_synonym runbook = "(string, pyval) dict"

text \<open>\<open>files\<close> is the sorted directory, each JSON file with what reading it gives; \<open>str\<close> is Python's.\<close>

definition load_file :: "(pyval \<Rightarrow> string) \<Rightarrow> string \<times> (exn + pyval) \<Rightarrow> (string, runbook) dict \<Rightarrow> (string, runbook) dict" where
  "load_file str f defs =
     (case f of
        (fn, Inr (PDict rb)) \<Rightarrow>
          (let rid = str (py_or (get_default rb ''id'' PNone) (PStr (take (length fn - 5) fn)))
           in dict_set rid (dict_set ''id'' (PStr rid) rb) defs)
      | _ \<Rightarrow> defs)"

definition ends_with :: "string \<Rightarrow> string \<Rightarrow> bool" where
  "ends_with s ending \<longleftrightarrow> length ending \<le> length s \<and> drop (length s - length ending) s = ending"

definition load :: "(pyval \<Rightarrow> string) \<Rightarrow> (string \<times> (exn + pyval)) list \<Rightarrow> (string, runbook) dict" where
  "load str files = fold (load_file str) (filter (\<lambda>(fn, _). ends_with fn ''.json'') files) []"

definition is_builtin :: "runbook \<Rightarrow> bool" where
  "is_builtin rb \<longleftrightarrow> get_default rb ''builtin'' PNone = PStr ''disk_space''"

fun param_names :: "pyval list \<Rightarrow> exn + (pyval \<times> bool) list" where
  "param_names [] = Inr []"
| "param_names (p # ps) =
     (case (val_get p ''name'' PNone, val_get p ''required'' PNone) of
        (Inr n, Inr r) \<Rightarrow> map_sum id (Cons (n, truthy r)) (param_names ps)
      | _ \<Rightarrow> Inl AttributeError)"

definition describe :: "(string \<Rightarrow> string) \<Rightarrow> bool \<Rightarrow> runbook \<Rightarrow> exn + (string, pyval) dict" where
  "describe unescape win rb =
     (case (get_default rb ''description'' (PStr []), py_iter (py_or (get_default rb ''params'' PNone) (PList []))) of
        (PStr d, Inr ps) \<Rightarrow>
          (case param_names ps of
             Inl x \<Rightarrow> Inl x
           | Inr ns \<Rightarrow> Inr
               [(''id'', get_default rb ''id'' PNone), (''name'', get_default rb ''name'' (get_default rb ''id'' PNone)),
                (''description'', PStr (unescape d)), (''scope'', get_default rb ''scope'' (PStr ''local'')),
                (''params'', PList (map fst ns)), (''fields'', py_or (get_default rb ''params'' PNone) (PList [])),
                (''supported'', PBool (is_builtin rb \<or> win)), (''changes_state'', PBool (\<not> is_builtin rb))])
      | (PStr d, Inl x) \<Rightarrow> Inl x
      | _ \<Rightarrow> Inl TypeError)"

section \<open>Parameters\<close>

datatype param_error = Bad_param string | Missing_param pyval | Extra_params "string list"

fun clean_params :: "(pyval \<Rightarrow> string) \<Rightarrow> (string, pyval) dict \<Rightarrow> (string, string) dict \<Rightarrow> param_error + (string, string) dict" where
  "clean_params str [] acc = Inr acc"
| "clean_params str ((k, v) # kvs) acc =
     (let w = py_strip (str v)
      in if \<not> param_ok k \<or> \<not> param_ok w then Inl (Bad_param k) else clean_params str kvs (dict_set k w acc))"

definition validate_params ::
  "(pyval \<Rightarrow> string) \<Rightarrow> runbook \<Rightarrow> (string, pyval) dict \<Rightarrow> exn + param_error + (string, string) dict" where
  "validate_params str rb params =
     (case py_iter (py_or (get_default rb ''params'' PNone) (PList [])) of
        Inl x \<Rightarrow> Inl x
      | Inr ps \<Rightarrow>
          (case param_names ps of
             Inl x \<Rightarrow> Inl x
           | Inr ns \<Rightarrow>
               if list_ex (\<lambda>(n, _). \<not> hashable n) ns then Inl TypeError else
               let names = fold (\<lambda>(n, r). dict_set n r) ns [] in
               Inr (case clean_params str params [] of
                      Inl e \<Rightarrow> Inl e
                    | Inr clean \<Rightarrow>
                        (case find (\<lambda>(n, r). r \<and> n \<notin> PStr ` set (dict_keys clean)) names of
                           Some (n, _) \<Rightarrow> Inl (Missing_param n)
                         | None \<Rightarrow>
                             let unknown = filter (\<lambda>k. PStr k \<notin> set (dict_keys names)) (dict_keys clean)
                             in if unknown \<noteq> [] then Inl (Extra_params (sort unknown)) else Inr clean))))"

section \<open>Execution\<close>

datatype refusal = Disabled | Unknown_runbook | Needs_windows | Bad_params param_error | Unset_holes "string list" | Needs_host

datatype job = Disk_job | Shell_job string

text \<open>Up to the run. A command that is not a text is converted by \<open>str\<close>.\<close>

definition shell_prefix :: string where
  "shell_prefix = ''$ErrorActionPreference='' @ [char_of (39 :: nat)] @ ''Stop'' @ [char_of (39 :: nat)]
     @ ''; [Console]::OutputEncoding=[System.Text.Encoding]::UTF8; ''"

definition remote_script :: "string \<Rightarrow> string \<Rightarrow> string" where
  "remote_script host body =
     ''Invoke-Command -ComputerName '' @ [char_of (39 :: nat)] @ host @ [char_of (39 :: nat)] @ '' -ScriptBlock { '' @ body @ '' }''"

definition remote_scope :: "runbook \<Rightarrow> bool" where
  "remote_scope rb \<longleftrightarrow> get_default rb ''scope'' (PStr ''local'') = PStr ''remote''"

definition command_of :: "(pyval \<Rightarrow> string) \<Rightarrow> runbook \<Rightarrow> string" where
  "command_of str rb = str (get_default rb ''command'' (PStr []))"

definition prepare ::
  "(pyval \<Rightarrow> string) \<Rightarrow> bool \<Rightarrow> bool \<Rightarrow> (string, runbook) dict \<Rightarrow> string \<Rightarrow> (string, pyval) dict
     \<Rightarrow> exn + refusal + runbook \<times> (string, string) dict \<times> job" where
  "prepare str enabled win defs rid params =
     (if \<not> enabled then Inr (Inl Disabled)
      else case dict_get defs rid of
        None \<Rightarrow> Inr (Inl Unknown_runbook)
      | Some rb \<Rightarrow>
          if rb = [] then Inr (Inl Unknown_runbook)
          else if \<not> is_builtin rb \<and> \<not> win then Inr (Inl Needs_windows)
          else (case validate_params str rb params of
                  Inl x \<Rightarrow> Inl x
                | Inr (Inl e) \<Rightarrow> Inr (Inl (Bad_params e))
                | Inr (Inr clean) \<Rightarrow>
                    let command = command_of str rb; host = get_default clean ''host'' [];
                        unset = filter (\<lambda>n. n \<notin> set (dict_keys clean)) (remdups (hole_names command));
                        rendered = render clean command
                    in Inr (if unset \<noteq> [] then Inl (Unset_holes unset)
                            else if remote_scope rb \<and> host = [] then Inl Needs_host
                            else Inr (rb, clean, if is_builtin rb then Disk_job
                                      else Shell_job (shell_prefix @ (if remote_scope rb then remote_script host rendered else rendered))))))"

datatype run_outcome = Exited int string | Timed_out_run | Run_failed string

record log_row =
  lr_time :: string
  lr_runbook :: string
  lr_params :: "(string, string) dict"
  lr_actor :: string
  lr_target :: string
  lr_exit :: int
  lr_output :: string

record run_result =
  rr_ok :: bool
  rr_exit :: int
  rr_output :: string
  rr_target :: string
  rr_runbook :: string

datatype run_effect =
    Alert bool pyval string int
  | Host_event string bool pyval

definition timeout_text :: string where
  "timeout_text = utf8 [209, 130, 208, 176, 208, 185, 208, 188, 208, 176, 209, 131, 209, 130, 32, 49, 50, 48, 115]"

definition this_server :: string where
  "this_server = utf8 [208, 173, 209, 130, 208, 190, 209, 130, 32, 209, 129, 208, 181, 209, 128, 208, 178, 208, 181, 209, 128]"

definition outcome_code :: "run_outcome \<Rightarrow> int" where
  "outcome_code r = (case r of Exited n _ \<Rightarrow> n | _ \<Rightarrow> -1)"

definition outcome_text :: "job \<Rightarrow> run_outcome \<Rightarrow> string" where
  "outcome_text j r =
     (case r of
        Exited _ s \<Rightarrow> (case j of Disk_job \<Rightarrow> s | Shell_job _ \<Rightarrow> take 2000 s)
      | Timed_out_run \<Rightarrow> timeout_text
      | Run_failed s \<Rightarrow> take 500 s)"

text \<open>\<open>run\<close> does the job; \<open>resolves\<close> tells whether the inventory knows the host. The log row is always written.\<close>

definition execute_runbook ::
  "(pyval \<Rightarrow> string) \<Rightarrow> bool \<Rightarrow> bool \<Rightarrow> (job \<Rightarrow> run_outcome) \<Rightarrow> (string \<Rightarrow> bool) \<Rightarrow> string \<Rightarrow> (string, runbook) dict \<Rightarrow> string
     \<Rightarrow> (string, pyval) dict \<Rightarrow> string \<Rightarrow> log_row list \<Rightarrow> (exn + refusal + run_result \<times> run_effect list) \<times> log_row list" where
  "execute_runbook str enabled win run resolves time defs rid params actor rows =
     (case prepare str enabled win defs rid params of
        Inl x \<Rightarrow> (Inl x, rows)
      | Inr (Inl e) \<Rightarrow> (Inr (Inl e), rows)
      | Inr (Inr (rb, clean, j)) \<Rightarrow>
          (let r = run j; host = get_default clean ''host'' []; code = outcome_code r; text = outcome_text j r;
               name = get_default rb ''name'' (PStr rid);
               row = \<lparr>lr_time = time, lr_runbook = rid, lr_params = clean, lr_actor = take 60 actor,
                      lr_target = (if host = [] then ''-'' else host), lr_exit = code, lr_output = text\<rparr>
           in (Inr (Inr (\<lparr>rr_ok = (code = 0), rr_exit = code, rr_output = py_strip text,
                          rr_target = (if host = [] then this_server else host), rr_runbook = rid\<rparr>,
                    Alert (code = 0) name host code #
                    (if host \<noteq> [] \<and> resolves host then [Host_event host (code = 0) name] else []))),
               rows @ [row])))"

definition recent_log :: "pyval \<Rightarrow> log_row list \<Rightarrow> exn + log_row list" where
  "recent_log v rows =
     (case py_int (py_or v (PInt 50)) of
        Inl x \<Rightarrow> Inl x
      | Inr n \<Rightarrow> Inr (take (nat (min (max n 1) 200)) (rev rows)))"

section \<open>Healing\<close>

type_synonym healing_state = "(nat \<times> string, real) dict"

definition rate_ok :: "real \<Rightarrow> nat \<Rightarrow> string \<Rightarrow> int \<Rightarrow> healing_state \<Rightarrow> bool \<times> healing_state" where
  "rate_ok now idx host max_per_hour st =
     (if now - get_default st (idx, host) 0 < 3600 / real_of_int (max 1 max_per_hour) then (False, st)
      else (True, dict_set (idx, host) now st))"

record heal_attempt =
  at_time :: real
  at_rule :: nat
  at_host :: string
  at_runbook :: string
  at_params :: "(string, pyval) dict"

text \<open>
  The rules of the configuration in order; \<open>now i\<close> is the clock at rule \<open>i\<close>. An attempt runs the runbook
  and notes the journal; whatever it gives, it changes nothing here. A limit that is not a number ends the event.
\<close>

definition try_rule ::
  "(pyval \<Rightarrow> string) \<Rightarrow> (nat \<Rightarrow> real) \<Rightarrow> string \<Rightarrow> string \<Rightarrow> string \<Rightarrow> nat \<Rightarrow> pyval \<Rightarrow> healing_state
     \<Rightarrow> (exn + heal_attempt option) \<times> healing_state" where
  "try_rule str now kind severity host idx r st =
     (case r of
        PDict rule \<Rightarrow>
          if str (get_default rule ''on_event'' PNone) \<noteq> kind \<or> truthy (get_default rule ''confirm'' PNone) \<or> severity = ''LOW''
          then (Inr None, st)
          else (case py_int (py_or (get_default rule ''max_per_hour'' PNone) (PInt 1)) of
                  Inl x \<Rightarrow> (Inl x, st)
                | Inr n \<Rightarrow>
                    (case rate_ok (now idx) idx host n st of
                       (False, st') \<Rightarrow> (Inr None, st')
                     | (True, st') \<Rightarrow>
                         (Inr (Some \<lparr>at_time = now idx, at_rule = idx, at_host = host,
                            at_runbook = str (py_or (get_default rule ''runbook'' PNone) (PStr [])),
                            at_params = (if host = [] then [] else [(''host'', PStr host)])\<rparr>), st')))
      | _ \<Rightarrow> (Inr None, st))"

fun on_rules ::
  "(pyval \<Rightarrow> string) \<Rightarrow> (nat \<Rightarrow> real) \<Rightarrow> string \<Rightarrow> string \<Rightarrow> string \<Rightarrow> nat \<Rightarrow> pyval list \<Rightarrow> healing_state
     \<Rightarrow> heal_attempt list \<times> exn option \<times> healing_state" where
  "on_rules str now kind severity host idx [] st = ([], None, st)"
| "on_rules str now kind severity host idx (r # rules) st =
     (case try_rule str now kind severity host idx r st of
        (Inl x, st') \<Rightarrow> ([], Some x, st')
      | (Inr a, st') \<Rightarrow>
          (let (as, x, st2) = on_rules str now kind severity host (Suc idx) rules st'
           in (case a of None \<Rightarrow> as | Some b \<Rightarrow> b # as, x, st2)))"

definition healing_event ::
  "(pyval \<Rightarrow> string) \<Rightarrow> (string, pyval) dict \<Rightarrow> (nat \<Rightarrow> real) \<Rightarrow> string \<Rightarrow> string \<Rightarrow> string \<Rightarrow> healing_state
     \<Rightarrow> heal_attempt list \<times> exn option \<times> healing_state" where
  "healing_event str cfg now kind severity host st =
     (if \<not> truthy (get_default cfg ''enabled'' (PBool False)) then ([], None, st)
      else case py_iter (py_or (get_default cfg ''rules'' PNone) (PList [])) of
             Inl x \<Rightarrow> ([], Some x, st)
           | Inr rules \<Rightarrow> on_rules str now kind severity host 0 rules st)"

text \<open>The rules with the last run shown for them: the code looks it up under the empty host.\<close>

definition healing_status :: "(string, pyval) dict \<Rightarrow> healing_state \<Rightarrow> exn + (pyval \<times> pyval \<times> bool \<times> real option) list" where
  "healing_status cfg st =
     map_sum id (\<lambda>rules. concat (map (\<lambda>(i, r). case r of
          PDict d \<Rightarrow> [(get_default d ''on_event'' PNone, get_default d ''runbook'' PNone, truthy (get_default d ''confirm'' PNone),
                       dict_get st (i, []))]
        | _ \<Rightarrow> []) (enumerate 0 rules)))
       (py_iter (py_or (get_default cfg ''rules'' PNone) (PList [])))"

section \<open>What a parameter can put into a command\<close>

definition literal_text :: "string \<Rightarrow> string" where
  "literal_text s = concat (map (\<lambda>t. case t of Lit c \<Rightarrow> [c] | Hole _ \<Rightarrow> []) (tokens s))"

definition special :: "string \<Rightarrow> string" where
  "special s = filter (\<lambda>c. \<not> safe_char c) s"

definition safe_value :: "string \<Rightarrow> bool" where
  "safe_value v \<longleftrightarrow> v \<noteq> [] \<and> length v \<le> 64 \<and> list_all safe_char v"

lemma special_append [simp]: "special (s @ t) = special s @ special t"
  by (simp add: special_def)

lemma special_safe [simp]: "list_all safe_char v \<Longrightarrow> special v = []"
  by (simp add: special_def list_all_iff)

lemma py_strip_last: "py_strip s \<noteq> [] \<Longrightarrow> \<not> py_isspace (last (py_strip s))"
  using hd_dropWhile [of py_isspace "rev (dropWhile py_isspace s)"] by (simp add: py_strip_def last_rev del: dropWhile_eq_Nil_conv)

lemma special_remote:
  assumes "special h = []" "special b = special b'"
  shows "special (remote_script h b) = special (remote_script [] b')"
  unfolding remote_script_def special_append assms by (simp add: special_def)

lemma stripped_param: "param_ok (py_strip s) \<Longrightarrow> safe_value (py_strip s)"
  using py_strip_last [of s] by (auto simp: param_ok_def safe_value_def Let_def py_isspace_def split: if_splits)

lemma clean_params_safe:
  "clean_params str kvs acc = Inr clean \<Longrightarrow> list_all safe_value (dict_values acc) \<Longrightarrow> list_all safe_value (dict_values clean)"
proof (induction kvs arbitrary: acc)
  case (Cons kv kvs)
  obtain k v where kv: "kv = (k, v)" by force
  then have ok: "param_ok (py_strip (str v))" and run: "clean_params str kvs (dict_set k (py_strip (str v)) acc) = Inr clean"
    using Cons.prems(1) by (auto simp: Let_def split: if_splits)
  have "list_all safe_value (dict_values (dict_set k (py_strip (str v)) acc))"
    using Cons.prems(2) stripped_param [OF ok] set_dict_set [of k "py_strip (str v)" acc]
    unfolding list_all_iff dict_values_def by auto
  from Cons.IH [OF run this] show ?case .
qed simp

lemma validate_safe: "validate_params str rb params = Inr (Inr clean) \<Longrightarrow> list_all safe_value (dict_values clean)"
  by (auto simp: validate_params_def Let_def dict_values_def split: sum.splits if_splits option.splits
      intro!: clean_params_safe [of str params "[]" clean, unfolded dict_values_def])

lemma special_render:
  assumes "list_all safe_value (dict_values vals)" and "\<And>n. n \<in> set (hole_names s) \<Longrightarrow> n \<in> set (dict_keys vals)"
  shows "special (render vals s) = special (literal_text s)"
proof -
  have "special (concat (map (fill vals) ts)) = special (concat (map (\<lambda>t. case t of Lit c \<Rightarrow> [c] | Hole _ \<Rightarrow> []) ts))"
    if "\<And>n. Hole n \<in> set ts \<Longrightarrow> n \<in> set (dict_keys vals)" for ts
    using that
  proof (induction ts)
    case (Cons t ts)
    have "special (fill vals t) = special (case t of Lit c \<Rightarrow> [c] | Hole _ \<Rightarrow> [])"
    proof (cases t)
      case (Hole n)
      then obtain v where v: "dict_get vals n = Some v" using Cons.prems [of n] by (auto simp: set_dict_keys)
      then have "safe_value v" using assms(1) dict_get_values [OF v] by (simp add: list_all_iff)
      with Hole v show ?thesis by (simp add: fill_def safe_value_def)
    qed (simp add: fill_def)
    with Cons show ?case by simp
  qed (simp add: special_def)
  moreover have "n \<in> set (hole_names s)" if "Hole n \<in> set (tokens s)" for n
    using that by (force simp: hole_names_def)
  ultimately show ?thesis using assms(2) by (simp add: render_def literal_text_def)
qed

text \<open>C30: Whatever a caller passes, the parameters put nothing but letters, digits, dots, underscores and
  hyphens into the script of a runbook: the other characters of the script (quotes, separators, pipes,
  braces) are those of the template and its fixed wrapper, in their order. Every value is one to
  sixty-four such characters, and no placeholder is left unfilled.\<close>

theorem runbook_injects_nothing:
  assumes "prepare str enabled win defs rid params = Inr (Inr (rb, clean, Shell_job script))"
  shows "special script = special (shell_prefix @
      (if remote_scope rb then remote_script [] (literal_text (command_of str rb)) else literal_text (command_of str rb)))
    \<and> list_all safe_value (dict_values clean)
    \<and> set (hole_names (command_of str rb)) \<subseteq> set (dict_keys clean)"
proof -
  let ?cmd = "command_of str rb" and ?host = "get_default clean ''host'' []"
  have p: "validate_params str rb params = Inr (Inr clean)"
    "filter (\<lambda>n. n \<notin> set (dict_keys clean)) (remdups (hole_names ?cmd)) = []"
    "script = shell_prefix @ (if remote_scope rb then remote_script ?host (render clean ?cmd) else render clean ?cmd)"
    using assms by (auto simp: prepare_def Let_def split: if_splits option.splits sum.splits)
  have safe: "list_all safe_value (dict_values clean)" by (rule validate_safe [OF p(1)])
  have holes: "n \<in> set (dict_keys clean)" if "n \<in> set (hole_names ?cmd)" for n
    using that p(2) by (simp add: filter_empty_conv)
  have body: "special (render clean ?cmd) = special (literal_text ?cmd)" by (rule special_render [OF safe holes])
  have "special ?host = []"
  proof (cases "dict_get clean ''host''")
    case (Some v)
    then have "safe_value v" using safe dict_get_values [OF Some] by (simp add: list_all_iff)
    with Some show ?thesis by (simp add: get_default_def safe_value_def)
  qed (simp add: get_default_def special_def)
  then have "special script = special (shell_prefix @
      (if remote_scope rb then remote_script [] (literal_text ?cmd) else literal_text ?cmd))"
    unfolding p(3) special_append using special_remote [OF _ body, of ?host] body by simp
  with safe holes show ?thesis by blast
qed

definition ex_spooler :: runbook where
  "ex_spooler = [(''id'', PStr ''sp''), (''scope'', PStr ''remote''), (''command'', PStr ''Restart-Service -Name {svc} -Force''),
     (''params'', PList [PDict [(''name'', PStr ''host''), (''required'', PBool True)], PDict [(''name'', PStr ''svc'')]])]"

definition ex_str :: "pyval \<Rightarrow> string" where
  "ex_str v = (case v of PStr s \<Rightarrow> s | _ \<Rightarrow> [])"

definition ex_params :: "(string, pyval) dict" where
  "ex_params = [(''host'', PStr '' pc-07 ''), (''svc'', PStr ''Spooler'')]"

theorem runbook_injects_nothing_witness:
  "\<exists>script. prepare ex_str True True [(''sp'', ex_spooler)] ''sp'' ex_params
       = Inr (Inr (ex_spooler, [(''host'', ''pc-07''), (''svc'', ''Spooler'')], Shell_job script))
     \<and> special script = special (shell_prefix @ remote_script [] ''Restart-Service -Name  -Force'')"
proof -
  have run: "prepare ex_str True True [(''sp'', ex_spooler)] ''sp'' ex_params
      = Inr (Inr (ex_spooler, [(''host'', ''pc-07''), (''svc'', ''Spooler'')], Shell_job
          (shell_prefix @ remote_script ''pc-07'' ''Restart-Service -Name Spooler -Force'')))"
  proof -
    have v: "validate_params ex_str ex_spooler ex_params = Inr (Inr [(''host'', ''pc-07''), (''svc'', ''Spooler'')])" by code_simp
    have h: "hole_names (command_of ex_str ex_spooler) = [''svc'']" by code_simp
    have t: "render [(''host'', ''pc-07''), (''svc'', ''Spooler'')] (command_of ex_str ex_spooler) = ''Restart-Service -Name Spooler -Force''"
      by code_simp
    have b: "\<not> is_builtin ex_spooler" "remote_scope ex_spooler" "ex_spooler \<noteq> []" by code_simp+
    show ?thesis using v h t b by (simp add: prepare_def get_default_def dict_keys_def Let_def del: append.simps)
  qed
  have "remote_scope ex_spooler" "literal_text (command_of ex_str ex_spooler) = ''Restart-Service -Name  -Force''"
    by code_simp+
  with runbook_injects_nothing [OF run] run show ?thesis by auto
qed

section \<open>How often a rule runs\<close>

record healing_input =
  hi_now :: "nat \<Rightarrow> real"
  hi_kind :: string
  hi_severity :: string
  hi_host :: string

fun healing_run ::
  "(pyval \<Rightarrow> string) \<Rightarrow> (string, pyval) dict \<Rightarrow> healing_input list \<Rightarrow> healing_state \<Rightarrow> heal_attempt list \<times> healing_state" where
  "healing_run str cfg [] st = ([], st)"
| "healing_run str cfg (e # es) st =
     (let (as, _, st1) = healing_event str cfg (hi_now e) (hi_kind e) (hi_severity e) (hi_host e) st;
          (bs, st2) = healing_run str cfg es st1
      in (as @ bs, st2))"

text \<open>The times of the attempts of one rule for one host, and the gaps they keep from \<open>l\<close> on.\<close>

definition run_times :: "nat \<Rightarrow> string \<Rightarrow> heal_attempt list \<Rightarrow> real list" where
  "run_times idx host as = map at_time (filter (\<lambda>a. at_rule a = idx \<and> at_host a = host) as)"

fun spaced :: "real \<Rightarrow> real \<Rightarrow> real list \<Rightarrow> bool" where
  "spaced d l [] = True"
| "spaced d l (x # xs) = (l + d \<le> x \<and> spaced d x xs)"

lemma spaced_append: "spaced d l (xs @ ys) \<longleftrightarrow> spaced d l xs \<and> spaced d (last (l # xs)) ys"
  by (induction xs arbitrary: l) auto

lemma spaced_later: "spaced d l xs \<Longrightarrow> 0 < d \<Longrightarrow> y \<in> set xs \<Longrightarrow> l + d \<le> y"
  by (induction xs arbitrary: l) force+

lemma spaced_count:
  "spaced d l xs \<Longrightarrow> 0 < d \<Longrightarrow> length (filter (\<lambda>x. t \<le> x \<and> x < t + d * real m) xs) \<le> m"
proof (induction xs arbitrary: l t m)
  case (Cons x xs)
  have later: "x + d \<le> y" if "y \<in> set xs" for y
    using spaced_later [of d x xs y] Cons.prems that by simp
  show ?case
  proof (cases "t \<le> x \<and> x < t + d * real m")
    case False
    then show ?thesis using Cons.IH [of x t m] Cons.prems by auto
  next
    case True
    then obtain k where k: "m = Suc k" by (cases m) auto
    have "filter (\<lambda>y. t \<le> y \<and> y < t + d * real m) xs = filter (\<lambda>y. t + d \<le> y \<and> y < t + d + d * real k) xs"
      by (rule filter_cong [OF refl]) (use True Cons.prems(2) k later in \<open>force simp: algebra_simps\<close>)
    then show ?thesis using Cons.IH [of x "t + d" k] Cons.prems True k by simp
  qed
qed simp

lemma run_times_simps [simp]:
  "run_times i h [] = []" "run_times i h (a # as) = (if at_rule a = i \<and> at_host a = h then [at_time a] else []) @ run_times i h as"
  "run_times i h (as @ bs) = run_times i h as @ run_times i h bs"
  by (simp_all add: run_times_def)

definition limit_of :: "pyval \<Rightarrow> exn + real" where
  "limit_of r =
     (case r of
        PDict rule \<Rightarrow> map_sum id (\<lambda>m. 3600 / real_of_int (max 1 m)) (py_int (py_or (get_default rule ''max_per_hour'' PNone) (PInt 1)))
      | _ \<Rightarrow> Inl TypeError)"

lemma try_spaced:
  assumes "idx = i \<Longrightarrow> limit_of r = Inr d" and "try_rule str now kind sev host idx r st = (y, st')"
  shows "spaced d (get_default st (i, h) 0) (run_times i h (case y of Inr (Some a) \<Rightarrow> [a] | _ \<Rightarrow> []))
    \<and> get_default st' (i, h) 0 = last (get_default st (i, h) 0 # run_times i h (case y of Inr (Some a) \<Rightarrow> [a] | _ \<Rightarrow> []))"
proof (cases "\<exists>a. y = Inr (Some a)")
  case False
  then have "st' = st" using assms(2)
    by (auto simp: try_rule_def rate_ok_def split: pyval.splits if_splits sum.splits)
  then show ?thesis using False by (auto split: sum.split option.split)
next
  case True
  then obtain rule n where r: "r = PDict rule" "py_int (py_or (get_default rule ''max_per_hour'' PNone) (PInt 1)) = Inr n"
    "\<not> now idx - get_default st (idx, host) 0 < 3600 / real_of_int (max 1 n)" "st' = dict_set (idx, host) (now idx) st"
    "\<exists>a. y = Inr (Some a) \<and> at_time a = now idx \<and> at_rule a = idx \<and> at_host a = host"
    using assms(2) by (auto simp: try_rule_def rate_ok_def split: pyval.splits if_splits sum.splits)
  then show ?thesis using assms(1) by (auto simp: get_default_def limit_of_def)
qed

lemma rules_spaced:
  assumes "idx \<le> i \<Longrightarrow> i < idx + length rules \<Longrightarrow> limit_of (rules ! (i - idx)) = Inr d"
    and "on_rules str now kind sev host idx rules st = (as, x, st')"
  shows "spaced d (get_default st (i, h) 0) (run_times i h as)
    \<and> get_default st' (i, h) 0 = last (get_default st (i, h) 0 # run_times i h as)"
  using assms
proof (induction rules arbitrary: idx st as)
  case (Cons r rules)
  obtain y st1 where y: "try_rule str now kind sev host idx r st = (y, st1)" by force
  have first: "limit_of r = Inr d" if "idx = i" using Cons.prems(1) that by simp
  note t = try_spaced [where h = h, OF first y]
  show ?case
  proof (cases y)
    case (Inl e)
    with y t Cons.prems(2) show ?thesis by simp
  next
    case (Inr a)
    obtain bs where run: "on_rules str now kind sev host (Suc idx) rules st1 = (bs, x, st')"
      and as: "as = (case a of None \<Rightarrow> bs | Some b \<Rightarrow> b # bs)"
      using Cons.prems(2) y Inr by (auto split: prod.splits)
    have "limit_of (rules ! (i - Suc idx)) = Inr d" if "Suc idx \<le> i" "i < Suc idx + length rules"
      using Cons.prems(1) that by (simp add: nth_Cons' Suc_diff_Suc)
    note ih = Cons.IH [OF this run]
    have "run_times i h as = run_times i h (case y of Inr (Some a) \<Rightarrow> [a] | _ \<Rightarrow> []) @ run_times i h bs"
      using as Inr by (cases a) simp_all
    then show ?thesis using t ih by (simp add: spaced_append)
  qed
qed simp

definition rules_of :: "(string, pyval) dict \<Rightarrow> pyval list" where
  "rules_of cfg = (case py_iter (py_or (get_default cfg ''rules'' PNone) (PList [])) of Inl _ \<Rightarrow> [] | Inr rs \<Rightarrow> rs)"

lemma event_spaced:
  assumes "i < length (rules_of cfg) \<Longrightarrow> limit_of (rules_of cfg ! i) = Inr d"
    and "healing_event str cfg now kind sev host st = (as, x, st')"
  shows "spaced d (get_default st (i, h) 0) (run_times i h as)
    \<and> get_default st' (i, h) 0 = last (get_default st (i, h) 0 # run_times i h as)"
  using assms rules_spaced [of 0 i "rules_of cfg" d str now kind sev host st as x st' h]
  by (auto simp: healing_event_def rules_of_def split: if_splits sum.splits)

lemma run_spaced:
  assumes "i < length (rules_of cfg) \<Longrightarrow> limit_of (rules_of cfg ! i) = Inr d"
  shows "spaced d (get_default st (i, h) 0) (run_times i h (fst (healing_run str cfg es st)))"
proof (induction es arbitrary: st)
  case (Cons e es)
  obtain as x st1 where ev: "healing_event str cfg (hi_now e) (hi_kind e) (hi_severity e) (hi_host e) st = (as, x, st1)"
    by (metis prod_cases3)
  have "spaced d (get_default st (i, h) 0) (run_times i h as)"
    "get_default st1 (i, h) 0 = last (get_default st (i, h) 0 # run_times i h as)"
    using event_spaced [where h = h, OF assms ev] by blast+
  then show ?case using Cons.IH [of st1] ev by (simp add: split_beta spaced_append)
qed simp

text \<open>C32: Over any sequence of events with one configuration, whatever the clock does, a rule runs for a host at
  most as often as its limit allows in any window of one hour.\<close>

theorem healing_at_most_per_hour:
  assumes "i < length (rules_of cfg)" and "rules_of cfg ! i = PDict rule"
    and "py_int (py_or (get_default rule ''max_per_hour'' PNone) (PInt 1)) = Inr n"
  shows "length (filter (\<lambda>a. at_rule a = i \<and> at_host a = h \<and> t \<le> at_time a \<and> at_time a < t + 3600)
           (fst (healing_run str cfg es st))) \<le> nat (max 1 n)"
proof -
  let ?m = "max 1 n" and ?as = "fst (healing_run str cfg es st)"
  let ?d = "3600 / real_of_int ?m"
  have sp: "spaced ?d (get_default st (i, h) 0) (run_times i h ?as)"
    by (rule run_spaced) (simp add: assms limit_of_def)
  have d: "0 < ?d" and w: "?d * real (nat ?m) = 3600" by simp_all
  have "length (filter (\<lambda>x. t \<le> x \<and> x < t + 3600) (run_times i h ?as)) \<le> nat ?m"
    using spaced_count [OF sp d, of t "nat ?m"] unfolding w .
  moreover have "length (filter (\<lambda>x. t \<le> x \<and> x < t + 3600) (run_times i h as))
    = length (filter (\<lambda>a. at_rule a = i \<and> at_host a = h \<and> t \<le> at_time a \<and> at_time a < t + 3600) as)" for as
    by (induction as) auto
  ultimately show ?thesis by simp
qed

definition ex_healing :: "(string, pyval) dict" where
  "ex_healing = [(''enabled'', PBool True), (''rules'', PList [PDict [(''on_event'', PStr ''disk''), (''runbook'', PStr ''cleanup''),
     (''max_per_hour'', PInt 2)]])]"

definition ex_disk_events :: "healing_input list" where
  "ex_disk_events = map (\<lambda>k. \<lparr>hi_now = (\<lambda>_. 5000 + 600 * real k), hi_kind = ''disk'', hi_severity = ''HIGH'', hi_host = ''pc''\<rparr>) [0..<6]"

theorem healing_at_most_per_hour_witness:
  "length (filter (\<lambda>a. at_rule a = 0 \<and> at_host a = ''pc'' \<and> 5000 \<le> at_time a \<and> at_time a < 5000 + 3600)
           (fst (healing_run ex_str ex_healing ex_disk_events []))) \<le> 2
   \<and> length (fst (healing_run ex_str ex_healing ex_disk_events [])) = 2"
proof -
  have "0 < length (rules_of ex_healing)"
    "rules_of ex_healing ! 0 = PDict [(''on_event'', PStr ''disk''), (''runbook'', PStr ''cleanup''), (''max_per_hour'', PInt 2)]"
    "py_int (py_or (get_default [(''on_event'', PStr ''disk''), (''runbook'', PStr ''cleanup''), (''max_per_hour'', PInt 2)]
       ''max_per_hour'' PNone) (PInt 1)) = Inr 2"
    by code_simp+
  moreover have "length (fst (healing_run ex_str ex_healing ex_disk_events [])) = 2" by code_simp
  ultimately show ?thesis
    using healing_at_most_per_hour [of 0 ex_healing _ 2 "''pc''" 5000 ex_str ex_disk_events "[]"] by simp
qed

end
