(* ===== verification/Recovery.thy ===== *)
theory Recovery
  imports Prelude
begin

text \<open>
  Backups of the monitor: \<open>netpulse/recovery.py\<close>. A file is its bytes, a directory a dictionary of files, an
  archive the list of its members. JSON, SHA-256, the checks of SQLite and its snapshot are parameters.
\<close>

section \<open>Limits and errors\<close>

definition max_bytes :: nat where "max_bytes = 2 * 1024 ^ 3"
definition max_config :: nat where "max_config = 4 * 1024 ^ 2"
definition max_manifest :: nat where "max_manifest = 16384"

definition recovery_error :: exn where
  "recovery_error = ServiceError ''RecoveryError'' []"

text \<open>The exceptions that are reported as a damaged archive; the others go to the caller.\<close>

definition damaged :: "exn \<Rightarrow> exn" where
  "damaged x =
     (case x of
        ServiceError n _ \<Rightarrow>
          (if n \<in> {''BadZipFile'', ''RuntimeError'', ''KeyError'', ''UnicodeError'', ''SQLiteError'', ''JSONDecodeError'', ''RecursionError''}
           then recovery_error else x)
      | _ \<Rightarrow> x)"

type_synonym files = "(string, string) dict"

record recovery_env =
  re_json :: "string \<Rightarrow> exn + pyval"     \<comment> \<open>json.loads\<close>
  re_dump :: "pyval \<Rightarrow> string"           \<comment> \<open>json.dumps\<close>
  re_sha :: "string \<Rightarrow> string"
  re_tables :: "string \<Rightarrow> exn + int"      \<comment> \<open>check_database\<close>
  re_version :: string

definition config_name :: string where "config_name = ''config.json''"
definition database_name :: string where "database_name = ''network_stats.db''"
definition manifest_name :: string where "manifest_name = ''manifest.json''"

definition payloads :: "string list" where
  "payloads = [config_name, database_name]"

section \<open>Checks\<close>

text \<open>The number of protected values in a configuration.\<close>

fun encrypted :: "pyval \<Rightarrow> nat" where
  "encrypted (PStr s) = (if begins ''dpapi:'' s then 1 else 0)"
| "encrypted (PList vs) = sum_list (map encrypted vs)"
| "encrypted (PDict d) = sum_list (map (\<lambda>(_, v). encrypted v) d)"
| "encrypted _ = 0"

definition check_config :: "recovery_env \<Rightarrow> string \<Rightarrow> exn + nat" where
  "check_config e raw =
     (if length raw > max_config then Inl recovery_error
      else case re_json e raw of
             Inr (PDict d) \<Rightarrow> Inr (encrypted (PDict d))
           | _ \<Rightarrow> Inl recovery_error)"

text \<open>\<open>v == n\<close> for a number \<open>n\<close>.\<close>

fun equals_int :: "pyval \<Rightarrow> int \<Rightarrow> bool" where
  "equals_int (PInt m) n = (m = n)"
| "equals_int (PBool b) n = ((if b then 1 else 0) = n)"
| "equals_int (PFloat x) n = (x = real_of_int n)"
| "equals_int _ n = False"

section \<open>Reading an archive\<close>

record member =
  z_name :: string
  z_size :: nat
  z_data :: "exn + string"

definition member_of :: "member list \<Rightarrow> string \<Rightarrow> member option" where
  "member_of zs n = find (\<lambda>z. z_name z = n) (rev zs)"

definition size_limit :: "string \<Rightarrow> nat" where
  "size_limit n = (if n = config_name then max_config else max_bytes)"

text \<open>One payload: its entry in the manifest, its size, and its digest after it was copied.\<close>

definition copy_payload :: "recovery_env \<Rightarrow> member list \<Rightarrow> (string, pyval) dict \<Rightarrow> string \<Rightarrow> exn + string" where
  "copy_payload e zs listed n =
     (case (get_default listed n PNone, member_of zs n) of
        (PDict entry, Some z) \<Rightarrow>
          (if \<not> equals_int (get_default entry ''size'' PNone) (int (z_size z)) then Inl recovery_error
           else case z_data z of
                  Inl x \<Rightarrow> Inl (damaged x)
                | Inr raw \<Rightarrow>
                    if length raw > size_limit n then Inl recovery_error
                    else if get_default entry ''sha256'' PNone \<noteq> PStr (re_sha e raw) then Inl recovery_error
                    else Inr raw)
      | _ \<Rightarrow> Inl recovery_error)"

record report =
  rp_version :: pyval
  rp_created :: pyval
  rp_listed :: "(string, pyval) dict"
  rp_tables :: int
  rp_dpapi :: nat

definition read_manifest :: "recovery_env \<Rightarrow> member list \<Rightarrow> exn + (string, pyval) dict" where
  "read_manifest e zs =
     (case member_of zs manifest_name of
        None \<Rightarrow> Inl recovery_error
      | Some z \<Rightarrow>
          if z_size z > max_manifest then Inl recovery_error
          else case z_data z of
                 Inl x \<Rightarrow> Inl (damaged x)
               | Inr raw \<Rightarrow>
                   (case re_json e raw of
                      Inl x \<Rightarrow> Inl (damaged x)
                    | Inr (PDict m) \<Rightarrow>
                        if get_default m ''format'' PNone \<noteq> PStr ''netpulse-recovery'' \<or> \<not> equals_int (get_default m ''schema'' PNone) 1
                        then Inl recovery_error else Inr m
                    | Inr _ \<Rightarrow> Inl recovery_error))"

definition unpack_verified :: "recovery_env \<Rightarrow> nat \<Rightarrow> exn + member list \<Rightarrow> exn + report \<times> files" where
  "unpack_verified e arc_bytes archive =
     (if arc_bytes > max_bytes then Inl recovery_error
      else case archive of
        Inl x \<Rightarrow> Inl (damaged x)
      | Inr zs \<Rightarrow>
     (if length zs \<noteq> 3 \<or> set (map z_name zs) \<noteq> set (manifest_name # payloads) then Inl recovery_error
      else if sum_list (map z_size zs) > max_bytes then Inl recovery_error
      else case read_manifest e zs of
        Inl x \<Rightarrow> Inl x
      | Inr m \<Rightarrow>
     (case get_default m ''files'' PNone of
        PDict listed \<Rightarrow>
          if set (dict_keys listed) \<noteq> set payloads then Inl recovery_error
          else (case copy_payload e zs listed config_name of
                  Inl x \<Rightarrow> Inl x
                | Inr cfg \<Rightarrow>
                    (case copy_payload e zs listed database_name of
                       Inl x \<Rightarrow> Inl x
                     | Inr db \<Rightarrow>
                         (case re_tables e db of
                            Inl x \<Rightarrow> Inl (damaged x)
                          | Inr t \<Rightarrow>
                              (case check_config e cfg of
                                 Inl x \<Rightarrow> Inl x
                               | Inr k \<Rightarrow> Inr (\<lparr>rp_version = get_default m ''version'' PNone,
                                   rp_created = get_default m ''created'' PNone, rp_listed = listed, rp_tables = t, rp_dpapi = k\<rparr>,
                                   [(config_name, cfg), (database_name, db)])))))
      | _ \<Rightarrow> Inl recovery_error)))"

section \<open>Restoring\<close>

text \<open>
  \<open>fs\<close> are the directories with their files, \<open>raced\<close> says that another process creates the target after it
  was checked, \<open>fault\<close> after how many files copying fails. A partial copy is kept.
\<close>

type_synonym disk = "(string, files) dict"

definition restore ::
  "recovery_env \<Rightarrow> nat \<Rightarrow> exn + member list \<Rightarrow> bool \<Rightarrow> nat option \<Rightarrow> string \<Rightarrow> string \<Rightarrow> disk \<Rightarrow> (exn + report) \<times> disk" where
  "restore e arc_bytes archive raced fault parent dest fs =
     (if dict_get fs dest \<noteq> None then (Inl recovery_error, fs)
      else if dict_get fs parent = None then (Inl recovery_error, fs)
      else case unpack_verified e arc_bytes archive of
             Inl x \<Rightarrow> (Inl x, fs)
           | Inr (r, staged) \<Rightarrow>
               if raced then (Inl (ServiceError ''FileExistsError'' []), fs)
               else (case fault of
                       None \<Rightarrow> (Inr r, dict_set dest staged fs)
                     | Some k \<Rightarrow> (Inl recovery_error, dict_set dest (take k staged) fs)))"

section \<open>Creating\<close>

text \<open>
  \<open>snapshot\<close> is what the backup of the live database writes, \<open>created\<close> the time. The result is the archive;
  the name of its file and the lock against a second backup are not part of it.
\<close>

definition file_entry :: "recovery_env \<Rightarrow> string \<Rightarrow> pyval" where
  "file_entry e raw = PDict [(''size'', PInt (int (length raw))), (''sha256'', PStr (re_sha e raw))]"

definition manifest :: "recovery_env \<Rightarrow> string \<Rightarrow> string \<Rightarrow> string \<Rightarrow> int \<Rightarrow> nat \<Rightarrow> pyval" where
  "manifest e created cfg db tables dpapi =
     PDict [(''format'', PStr ''netpulse-recovery''), (''schema'', PInt 1), (''version'', PStr (re_version e)),
       (''created'', PStr created), (''files'', PDict [(config_name, file_entry e cfg), (database_name, file_entry e db)]),
       (''tables'', PInt tables), (''dpapi_values'', PInt (int dpapi))]"

definition zip_member :: "string \<Rightarrow> string \<Rightarrow> member" where
  "zip_member n raw = \<lparr>z_name = n, z_size = length raw, z_data = Inr raw\<rparr>"

definition create :: "recovery_env \<Rightarrow> string \<Rightarrow> files \<Rightarrow> exn + string \<Rightarrow> exn + member list" where
  "create e created source snapshot =
     (case (dict_get source config_name, dict_get source database_name) of
        (Some cfg, Some live) \<Rightarrow>
          (if length cfg > max_config \<or> length live > max_bytes then Inl recovery_error
           else case check_config e cfg of
                  Inl x \<Rightarrow> Inl x
                | Inr k \<Rightarrow>
                    (case snapshot of
                       Inl x \<Rightarrow> Inl x
                     | Inr db \<Rightarrow>
                         (case re_tables e db of
                            Inl x \<Rightarrow> Inl x
                          | Inr t \<Rightarrow>
                              if length cfg + length db > max_bytes then Inl recovery_error
                              else Inr [zip_member config_name cfg,
                                        zip_member manifest_name (re_dump e (manifest e created cfg db t k)),
                                        zip_member database_name db])))
      | _ \<Rightarrow> Inl recovery_error)"

section \<open>What a restored directory holds\<close>

lemma copy_payload_ok:
  "copy_payload e zs listed n = Inr raw \<Longrightarrow>
     \<exists>entry z. get_default listed n PNone = PDict entry \<and> member_of zs n = Some z \<and> z_data z = Inr raw
       \<and> get_default entry ''sha256'' PNone = PStr (re_sha e raw)"
  by (auto simp: copy_payload_def split: pyval.splits option.splits sum.splits if_splits)

lemma unpack_ok:
  assumes "unpack_verified e arc_bytes (Inr zs) = Inr (r, staged)"
  shows "\<exists>cfg db. staged = [(config_name, cfg), (database_name, db)]
    \<and> copy_payload e zs (rp_listed r) config_name = Inr cfg \<and> copy_payload e zs (rp_listed r) database_name = Inr db
    \<and> check_config e cfg = Inr (rp_dpapi r) \<and> re_tables e db = Inr (rp_tables r)"
  using assms
  by (auto simp: unpack_verified_def split: pyval.splits option.splits sum.splits if_splits)

text \<open>A restore that succeeds puts exactly the configuration and the database into a directory that was not
  there, each with the digest its archive's manifest lists, the configuration being a JSON object and the
  database having passed its check; every other directory is as it was. A restore that fails before copying
  changes nothing.\<close>

theorem restore_only_verified:
  assumes "restore e arc_bytes archive raced fault parent dest fs = (res, fs')"
  shows "(\<forall>r. res = Inr r \<longrightarrow> dict_get fs dest = None \<and>
           (\<exists>cfg db. dict_get fs' dest = Some [(config_name, cfg), (database_name, db)]
              \<and> (\<exists>entry. get_default (rp_listed r) config_name PNone = PDict entry
                   \<and> get_default entry ''sha256'' PNone = PStr (re_sha e cfg))
              \<and> (\<exists>entry. get_default (rp_listed r) database_name PNone = PDict entry
                   \<and> get_default entry ''sha256'' PNone = PStr (re_sha e db))
              \<and> (\<exists>d. re_json e cfg = Inr (PDict d)) \<and> re_tables e db = Inr (rp_tables r)))
    \<and> (\<forall>d. d \<noteq> dest \<longrightarrow> dict_get fs' d = dict_get fs d)
    \<and> (dict_get fs dest \<noteq> None \<or> fault = None \<and> (\<exists>x. res = Inl x) \<longrightarrow> fs' = fs)"
proof (cases "dict_get fs dest = None \<and> dict_get fs parent \<noteq> None \<and> (\<exists>ok. unpack_verified e arc_bytes archive = Inr ok) \<and> \<not> raced")
  case False
  then have "(\<exists>x. res = Inl x) \<and> fs' = fs"
    using assms by (auto simp: restore_def split: if_splits sum.splits)
  then show ?thesis by auto
next
  case True
  then obtain r staged where u0: "unpack_verified e arc_bytes archive = Inr (r, staged)" by auto
  obtain zs where zs: "archive = Inr zs" using u0 by (cases archive) (simp_all add: unpack_verified_def split: if_splits)
  note u = u0 [unfolded zs]
  have res: "fault = None \<Longrightarrow> res = Inr r \<and> fs' = dict_set dest staged fs"
    "fault \<noteq> None \<Longrightarrow> res = Inl recovery_error \<and> (\<exists>k. fs' = dict_set dest (take k staged) fs)"
    using assms True u0 by (auto simp: restore_def split: option.splits)
  obtain cfg db where st: "staged = [(config_name, cfg), (database_name, db)]"
    "copy_payload e zs (rp_listed r) config_name = Inr cfg" "copy_payload e zs (rp_listed r) database_name = Inr db"
    "check_config e cfg = Inr (rp_dpapi r)" "re_tables e db = Inr (rp_tables r)"
    using unpack_ok [OF u] by blast
  have json: "\<exists>d. re_json e cfg = Inr (PDict d)"
    using st(4) by (auto simp: check_config_def split: if_splits sum.splits pyval.splits)
  have others: "dict_get fs' d = dict_get fs d" if "d \<noteq> dest" for d
    using res that by (cases fault) auto
  show ?thesis
  proof (cases fault)
    case None
    with res(1) have "res = Inr r" "dict_get fs' dest = Some [(config_name, cfg), (database_name, db)]" using st(1) by auto
    moreover have "\<exists>entry. get_default (rp_listed r) config_name PNone = PDict entry \<and> get_default entry ''sha256'' PNone = PStr (re_sha e cfg)"
      "\<exists>entry. get_default (rp_listed r) database_name PNone = PDict entry \<and> get_default entry ''sha256'' PNone = PStr (re_sha e db)"
      using copy_payload_ok [OF st(2)] copy_payload_ok [OF st(3)] by blast+
    ultimately show ?thesis using True others json st(5) by auto
  next
    case (Some k)
    with res(2) True others show ?thesis by auto
  qed
qed

section \<open>Backup and restore\<close>

lemma distinct_names: "config_name \<noteq> database_name" "config_name \<noteq> manifest_name" "database_name \<noteq> manifest_name"
  by (simp_all add: config_name_def database_name_def manifest_name_def)

lemma create_restores:
  assumes "create e created source (Inr db) = Inr zs" and "dict_get source config_name = Some cfg"
    and "re_tables e db = Inr t" and "check_config e cfg = Inr k"
    and "re_json e (re_dump e (manifest e created cfg db t k)) = Inr (manifest e created cfg db t k)"
    and "length (re_dump e (manifest e created cfg db t k)) \<le> max_manifest"
    and "length cfg + length db + length (re_dump e (manifest e created cfg db t k)) \<le> max_bytes"
    and "arc_bytes \<le> max_bytes" and "dict_get fs dest = None" and "dict_get fs parent = Some d"
  shows "\<exists>r. restore e arc_bytes (Inr zs) False None parent dest fs
    = (Inr r, dict_set dest [(config_name, cfg), (database_name, db)] fs)"
proof -
  obtain live where c: "dict_get source database_name = Some live" "length cfg \<le> max_config" "length cfg + length db \<le> max_bytes"
    "zs = [zip_member config_name cfg, zip_member manifest_name (re_dump e (manifest e created cfg db t k)), zip_member database_name db]"
    using assms(1-4) by (auto simp: create_def split: option.splits if_splits sum.splits)
  let ?listed = "[(config_name, file_entry e cfg), (database_name, file_entry e db)]"
  have members: "member_of zs config_name = Some (zip_member config_name cfg)"
    "member_of zs manifest_name = Some (zip_member manifest_name (re_dump e (manifest e created cfg db t k)))"
    "member_of zs database_name = Some (zip_member database_name db)"
    using distinct_names by (simp_all add: c(4) member_of_def zip_member_def)
  have copy: "copy_payload e zs ?listed config_name = Inr cfg" "copy_payload e zs ?listed database_name = Inr db"
    using members distinct_names c(2,3)
    by (simp_all add: copy_payload_def get_default_def file_entry_def zip_member_def size_limit_def)
  have m: "read_manifest e zs = Inr [(''format'', PStr ''netpulse-recovery''), (''schema'', PInt 1), (''version'', PStr (re_version e)),
       (''created'', PStr created), (''files'', PDict ?listed), (''tables'', PInt t), (''dpapi_values'', PInt (int k))]"
    using members(2) assms(5,6) by (simp add: read_manifest_def zip_member_def manifest_def get_default_def not_less [symmetric])
  have shape: "length zs = 3" "set (map z_name zs) = set (manifest_name # payloads)" "sum_list (map z_size zs) \<le> max_bytes"
    using c(4) assms(7) by (auto simp: zip_member_def payloads_def)
  have "\<exists>r. unpack_verified e arc_bytes (Inr zs) = Inr (r, [(config_name, cfg), (database_name, db)])"
    using shape m copy assms(3,4,8) distinct_names
    by (simp add: unpack_verified_def get_default_def payloads_def dict_keys_def)
  then show ?thesis using assms(9,10) by (auto simp: restore_def)
qed

text \<open>C34: What was backed up is restored byte for byte: an archive that a backup wrote, and that is within the
  limits of the reader, restores into a new directory that holds the configuration that was saved and the
  snapshot of the database. The limits are those of the manifest, of the payloads together with the manifest,
  and of the archive; a backup does not check the last two before it writes. The directory must not exist
  and its parent must; JSON is assumed to read the manifest back as it was written.\<close>

theorem backup_restore_roundtrip:
  assumes "create e created source (Inr db) = Inr zs" and "dict_get source config_name = Some cfg"
    and "re_tables e db = Inr t" and "check_config e cfg = Inr k"
    and "re_json e (re_dump e (manifest e created cfg db t k)) = Inr (manifest e created cfg db t k)"
    and "length (re_dump e (manifest e created cfg db t k)) \<le> max_manifest"
    and "length cfg + length db + length (re_dump e (manifest e created cfg db t k)) \<le> max_bytes"
    and "arc_bytes \<le> max_bytes" and "dict_get fs dest = None" and "dict_get fs parent = Some d"
  shows "\<exists>r. restore e arc_bytes (Inr zs) False None parent dest fs
    = (Inr r, dict_set dest [(config_name, cfg), (database_name, db)] fs)"
  by (rule create_restores [OF assms])

definition ex_recovery :: recovery_env where
  "ex_recovery = \<lparr>re_json = (\<lambda>s. if s = ''M'' then Inr (PDict [(''format'', PStr ''netpulse-recovery''), (''schema'', PInt 1),
       (''version'', PStr ''1''), (''created'', PStr ''now''), (''files'', PDict
         [(config_name, PDict [(''size'', PInt 2), (''sha256'', PStr ''}{'')]), (database_name, PDict [(''size'', PInt 3), (''sha256'', PStr ''BDS'')])]),
       (''tables'', PInt 7), (''dpapi_values'', PInt 0)])
      else if s = ''{}'' then Inr (PDict []) else Inl (ServiceError ''JSONDecodeError'' [])),
     re_dump = (\<lambda>v. ''M''), re_sha = rev, re_tables = (\<lambda>s. Inr 7), re_version = ''1''\<rparr>"

lemma ex_backup: "create ex_recovery ''now'' [(config_name, ''{}''), (database_name, ''live'')] (Inr ''SDB'') =
    Inr [zip_member config_name ''{}'', zip_member manifest_name ''M'', zip_member database_name ''SDB'']"
  by (simp add: create_def ex_recovery_def check_config_def max_config_def max_bytes_def distinct_names [symmetric])

lemma ex_checks:
  "re_tables ex_recovery ''SDB'' = Inr 7" "check_config ex_recovery ''{}'' = Inr 0"
  "re_json ex_recovery (re_dump ex_recovery (manifest ex_recovery ''now'' ''{}'' ''SDB'' 7 0)) = Inr (manifest ex_recovery ''now'' ''{}'' ''SDB'' 7 0)"
  "length (re_dump ex_recovery (manifest ex_recovery ''now'' ''{}'' ''SDB'' 7 0)) \<le> max_manifest"
  "length ''{}'' + length ''SDB'' + length (re_dump ex_recovery (manifest ex_recovery ''now'' ''{}'' ''SDB'' 7 0)) \<le> max_bytes"
  "(100 :: nat) \<le> max_bytes" "dict_get [(config_name, ''{}''), (database_name, ''live'')] config_name = Some ''{}''"
  "dict_get [(''/srv'', [])] ''/srv/new'' = (None :: files option)" "dict_get [(''/srv'', [])] ''/srv'' = Some ([] :: files)"
  by (simp_all add: ex_recovery_def check_config_def max_config_def max_manifest_def max_bytes_def manifest_def file_entry_def)

definition ex_archive :: "member list" where
  "ex_archive = [zip_member config_name ''{}'', zip_member manifest_name ''M'', zip_member database_name ''SDB'']"

theorem backup_restore_roundtrip_witness:
  "\<exists>r. restore ex_recovery 100 (Inr ex_archive) False None ''/srv'' ''/srv/new'' [(''/srv'', [])]
    = (Inr r, dict_set ''/srv/new'' [(config_name, ''{}''), (database_name, ''SDB'')] [(''/srv'', [])])"
  unfolding ex_archive_def
  by (rule backup_restore_roundtrip [OF ex_backup ex_checks(7) ex_checks(1-6,8,9)])

theorem restore_only_verified_witness:
  "\<exists>cfg db. dict_get (snd (restore ex_recovery 100 (Inr ex_archive) False None ''/srv'' ''/srv/new'' [(''/srv'', [])])) ''/srv/new''
    = Some [(config_name, cfg), (database_name, db)]"
proof -
  obtain r where "restore ex_recovery 100 (Inr ex_archive) False None ''/srv'' ''/srv/new'' [(''/srv'', [])]
    = (Inr r, dict_set ''/srv/new'' [(config_name, ''{}''), (database_name, ''SDB'')] [(''/srv'', [])])" (is "?run = _")
    unfolding ex_archive_def using create_restores [OF ex_backup ex_checks(7) ex_checks(1-6,8,9)] by blast
  then have run: "?run = (Inr r, snd ?run)" by simp
  have "\<exists>cfg db. dict_get (snd ?run) ''/srv/new'' = Some [(config_name, cfg), (database_name, db)]"
    using conjunct1 [OF restore_only_verified [OF run]] by auto
  then show ?thesis .
qed

end
