(* ===== verification/Versions.thy ===== *)
theory Versions
  imports Prelude "HOL-Library.Product_Lexorder" "HOL-Library.List_Lexorder"
begin

text \<open>
  The version of a node and the order of versions: \<open>internal_modules/app_version.py\<close>. A version that is
  absent (\<open>None\<close>) is the empty text, as the code reads it.
\<close>

definition is_digit :: "char \<Rightarrow> bool" where
  "is_digit c \<longleftrightarrow> (let n = of_char c :: nat in 48 \<le> n \<and> n \<le> 57)"

text \<open>A run of digits, as long as possible, and what follows it.\<close>

definition number :: "string \<Rightarrow> (nat \<times> string) option" where
  "number s =
     (let ds = takeWhile is_digit s
      in if ds = [] then None
         else map_option (\<lambda>n. (nat n, dropWhile is_digit s)) (digits_val ds 0 False))"

definition skip :: "string \<Rightarrow> string \<Rightarrow> string option" where
  "skip p s = (if begins p s then Some (drop (length p) s) else None)"

type_synonym version = "nat \<times> nat \<times> nat \<times> nat"

definition build_of :: "string \<Rightarrow> nat \<times> string" where
  "build_of s =
     (case Option.bind (skip ''-build'' s) number of None \<Rightarrow> (0, s) | Some r \<Rightarrow> r)"

definition parse_version :: "string \<Rightarrow> version option" where
  "parse_version s =
     (let t = dropWhile py_isspace s;
          u = (if t \<noteq> [] \<and> hd t = CHR ''v'' then tl t else t)
      in Option.bind (number u) (\<lambda>(maj, r1).
         Option.bind (skip ''.'' r1) (\<lambda>r2.
         Option.bind (number r2) (\<lambda>(mi, r3).
         Option.bind (skip ''.'' r3) (\<lambda>r4.
         Option.bind (number r4) (\<lambda>(pat, r5).
           let (b, r6) = build_of r5
           in if list_all py_isspace r6 then Some (maj, mi, pat, b) else None))))))"

definition sign_of :: "'a::linorder \<Rightarrow> 'a \<Rightarrow> int" where
  "sign_of a b = (if a < b then -1 else if b < a then 1 else 0)"

definition compare_versions :: "string \<Rightarrow> string \<Rightarrow> int" where
  "compare_versions a b =
     (case (parse_version a, parse_version b) of
        (Some v, Some w) \<Rightarrow> sign_of v w
      | _ \<Rightarrow> sign_of (py_lower a) (py_lower b))"

definition is_newer :: "string \<Rightarrow> string \<Rightarrow> bool" where
  "is_newer candidate current =
     (case parse_version candidate of
        None \<Rightarrow> False
      | Some c \<Rightarrow> (case parse_version current of None \<Rightarrow> True | Some v \<Rightarrow> v < c))"

definition dev_version :: string where "dev_version = ''0.0.0-dev''"

text \<open>\<open>files\<close> are the candidates in order: not a file, unreadable, or its text.\<close>

fun read_version :: "(exn + string) option list \<Rightarrow> string" where
  "read_version [] = dev_version"
| "read_version (f # fs) =
     (case f of
        Some (Inr t) \<Rightarrow> if py_strip t \<noteq> [] then py_strip t else read_version fs
      | _ \<Rightarrow> read_version fs)"

section \<open>The order of releases\<close>

definition format_version :: "version \<Rightarrow> string" where
  "format_version v =
     (case v of (maj, mi, pat, b) \<Rightarrow>
        string_of_nat maj @ ''.'' @ string_of_nat mi @ ''.'' @ string_of_nat pat
          @ (if b = 0 then [] else ''-build'' @ string_of_nat b))"

lemma is_digit_digit_char [simp]: "d < 10 \<Longrightarrow> is_digit (digit_char d)"
  by (simp add: is_digit_def Let_def)

lemma digits_of_nat: "list_all is_digit (string_of_nat n)"
  unfolding list_all_iff using string_of_nat_digits by force

lemma string_of_nat_not_Nil [simp]: "string_of_nat n \<noteq> []"
  by (subst string_of_nat.simps) simp

lemma number_of_nat: "rest = [] \<or> \<not> is_digit (hd rest) \<Longrightarrow> number (string_of_nat n @ rest) = Some (n, rest)"
proof -
  assume rest: "rest = [] \<or> \<not> is_digit (hd rest)"
  have t: "takeWhile is_digit (string_of_nat n @ rest) = string_of_nat n"
    using rest digits_of_nat [of n] by (cases rest) (auto simp: takeWhile_append list_all_iff)
  have d: "dropWhile is_digit (string_of_nat n @ rest) = rest"
    using rest digits_of_nat [of n] by (cases rest) (auto simp: dropWhile_append list_all_iff)
  show ?thesis by (simp add: number_def t d digits_val_string_of_nat)
qed

lemma skip_append [simp]: "skip p (p @ s) = Some s"
  by (auto simp: skip_def begins_iff)

lemma skip_dot [simp]: "skip ''.'' (CHR ''.'' # s) = Some s"
  using skip_append [of "''.''" s] by simp

lemma dot_not_digit [simp]: "\<not> is_digit (CHR ''.'')" "\<not> is_digit (CHR ''-'')"
  by (simp_all add: is_digit_def)

lemma digit_not_space: "is_digit c \<Longrightarrow> \<not> py_isspace c \<and> c \<noteq> CHR ''v''"
  by (auto simp: is_digit_def py_isspace_def Let_def)

lemma parse_format: "parse_version (format_version v) = Some v"
proof -
  obtain maj mi pat b where v: "v = (maj, mi, pat, b)" by (cases v)
  let ?tail = "if b = 0 then [] else ''-build'' @ string_of_nat b"
  obtain c cs where c: "string_of_nat maj = c # cs" by (cases "string_of_nat maj") auto
  then have dig: "is_digit c" using digits_of_nat [of maj] by simp
  have start: "dropWhile py_isspace (format_version v) = format_version v" "hd (format_version v) \<noteq> CHR ''v''"
    using digit_not_space [OF dig] c by (auto simp: v format_version_def)
  have tail: "?tail = [] \<or> \<not> is_digit (hd ?tail)" by simp
  have build: "build_of ?tail = (b, [])"
  proof (cases "b = 0")
    case True
    then show ?thesis by (simp add: build_of_def skip_def)
  next
    case False
    have "skip ''-build'' (''-build'' @ string_of_nat b) = Some (string_of_nat b)" by (rule skip_append)
    with False number_of_nat [of "[]" b] show ?thesis by (simp add: build_of_def)
  qed
  have steps: "number (format_version v) = Some (maj, ''.'' @ string_of_nat mi @ ''.'' @ string_of_nat pat @ ?tail)"
    "number (string_of_nat mi @ ''.'' @ string_of_nat pat @ ?tail) = Some (mi, ''.'' @ string_of_nat pat @ ?tail)"
    "number (string_of_nat pat @ ?tail) = Some (pat, ?tail)"
    unfolding v format_version_def prod.case by (rule number_of_nat; simp)+
  show ?thesis
    unfolding parse_version_def Let_def start(1) using start(2) steps build by (simp add: v)
qed

text \<open>On released versions, whatever their build, the comparison is the order of the four numbers: it is
  total, antisymmetric and transitive, and a version is newer than another exactly when its numbers are
  greater. A text that is not a version is never newer, and older than any version.\<close>

theorem version_order:
  "compare_versions (format_version v) (format_version w) = sign_of v w
   \<and> (is_newer (format_version v) (format_version w) \<longleftrightarrow> w < v)
   \<and> (parse_version s = None \<longrightarrow> \<not> is_newer s t \<and> is_newer (format_version v) s)"
  by (simp add: compare_versions_def is_newer_def parse_format)

theorem version_order_witness:
  "\<not> is_newer ''latest'' ''1.0.0'' \<and> is_newer (format_version (1, 0, 0, 0)) ''latest''"
proof -
  have "parse_version ''latest'' = None" by code_simp
  with version_order [of "(1, 0, 0, 0)" "(1, 0, 0, 0)" "''latest''" "''1.0.0''"] show ?thesis by blast
qed

text \<open>With a text that is not a version the comparison is not an order: it goes round in a circle.\<close>

lemma version_cycle:
  "compare_versions ''9.0.0'' ''10.0.0'' = -1 \<and> compare_versions ''10.0.0'' ''1z'' = -1 \<and> compare_versions ''1z'' ''9.0.0'' = -1"
  by code_simp

end
