(* ===== verification/Inventory.thy ===== *)
theory Inventory
  imports Prelude "HOL-Library.List_Lexorder"
begin

text \<open>
  The machines of the monitor, their events and scores, and the work journal: \<open>netpulse/inventory.py\<close> and
  \<open>netpulse/journal.py\<close>. The SQLite tables are lists of rows in the order of their ids. A time stamp is a
  date and a time, written as \<open>isoformat\<close> writes them; \<open>datetime\<close> of SQLite writes a blank between them,
  and the code compares the two as texts.
\<close>

section \<open>Time stamps\<close>

record stamp =
  ts_date :: string
  ts_time :: string

definition iso :: "stamp \<Rightarrow> string" where
  "iso t = ts_date t @ ''T'' @ ts_time t"

definition sql_text :: "stamp \<Rightarrow> string" where
  "sql_text t = ts_date t @ '' '' @ ts_time t"

text \<open>\<open>timestamp > datetime(...)\<close>: the row is inside the window that begins at \<open>since\<close>.\<close>

definition in_window :: "stamp \<Rightarrow> stamp \<Rightarrow> bool" where
  "in_window since t \<longleftrightarrow> sql_text since < iso t"

section \<open>Tables\<close>

record machine =
  ma_id :: int
  ma_name :: string
  ma_ip :: string
  ma_os :: string
  ma_first :: stamp
  ma_last :: stamp
  ma_updated :: stamp
  ma_online :: bool
  ma_score :: int

record event =
  ev_stamp :: stamp
  ev_host :: "int option"
  ev_kind :: string
  ev_severity :: string
  ev_source :: string
  ev_text :: string
  ev_key :: "string option"

record entry_row =
  en_id :: int
  en_stamp :: stamp
  en_source :: string
  en_host :: "int option"
  en_user :: "string option"
  en_text :: string
  en_minutes :: int

record karma =
  ka_stamp :: stamp
  ka_host :: int
  ka_score :: int

record park =
  pk_machines :: "machine list"
  pk_next_machine :: int
  pk_events :: "event list"
  pk_entries :: "entry_row list"
  pk_next_entry :: int
  pk_karma :: "karma list"

definition new_park :: park where
  "new_park = \<lparr>pk_machines = [], pk_next_machine = 1, pk_events = [], pk_entries = [], pk_next_entry = 1, pk_karma = []\<rparr>"

section \<open>Machines\<close>

definition update_machine :: "int \<Rightarrow> (machine \<Rightarrow> machine) \<Rightarrow> park \<Rightarrow> park" where
  "update_machine hid f s = s\<lparr>pk_machines := map (\<lambda>m. if ma_id m = hid then f m else m) (pk_machines s)\<rparr>"

definition upsert_host :: "stamp \<Rightarrow> string \<Rightarrow> string \<Rightarrow> string \<Rightarrow> park \<Rightarrow> int option \<times> park" where
  "upsert_host now nm ip os s =
     (let n = py_strip nm in
      if n = [] then (None, s)
      else case find (\<lambda>m. ma_name m = n) (pk_machines s) of
             Some m \<Rightarrow>
               (Some (ma_id m),
                update_machine (ma_id m) (\<lambda>m. m\<lparr>ma_last := now, ma_updated := now,
                  ma_ip := (if ip = [] then ma_ip m else ip), ma_os := (if os = [] then ma_os m else os)\<rparr>) s)
           | None \<Rightarrow>
               (Some (pk_next_machine s),
                s\<lparr>pk_machines := pk_machines s @ [\<lparr>ma_id = pk_next_machine s, ma_name = n, ma_ip = ip, ma_os = os,
                    ma_first = now, ma_last = now, ma_updated = now, ma_online = False, ma_score = 100\<rparr>],
                  pk_next_machine := pk_next_machine s + 1\<rparr>))"

definition resolve_host_id :: "stamp \<Rightarrow> string \<Rightarrow> park \<Rightarrow> int option \<times> park" where
  "resolve_host_id now name_or_ip s =
     (let key = py_strip name_or_ip in
      if key = [] then (None, s)
      else case find (\<lambda>m. ma_name m = key \<or> ma_ip m = key) (pk_machines s) of
             Some m \<Rightarrow> (Some (ma_id m), s)
           | None \<Rightarrow> upsert_host now key [] [] s)"

definition mark_online :: "stamp \<Rightarrow> int \<Rightarrow> bool \<Rightarrow> park \<Rightarrow> park" where
  "mark_online now hid on s = update_machine hid (\<lambda>m. m\<lparr>ma_online := on, ma_updated := now\<rparr>) s"

definition list_hosts :: "park \<Rightarrow> machine list" where
  "list_hosts s = sort_key ma_score (sort_key ma_name (pk_machines s))"

definition clamp :: "int \<Rightarrow> int \<Rightarrow> int \<Rightarrow> nat" where
  "clamp lo hi n = nat (min (max n lo) hi)"

definition worst_hosts :: "int \<Rightarrow> park \<Rightarrow> machine list" where
  "worst_hosts n s = take (clamp 1 20 n) (sort_key ma_score (pk_machines s))"

section \<open>Events\<close>

definition severity_weight :: "(string, int) dict" where
  "severity_weight = [(''CRITICAL'', 8), (''HIGH'', 4), (''MEDIUM'', 2), (''LOW'', 1)]"

definition machine_name :: "int option \<Rightarrow> park \<Rightarrow> string option" where
  "machine_name hid s =
     Option.bind hid (\<lambda>h. if h = 0 then None else map_option ma_name (find (\<lambda>m. ma_id m = h) (pk_machines s)))"

text \<open>What an event that is recorded causes: an alert, and the healing rules with the name of the machine.\<close>

datatype event_effect =
    Raise_alert string string string string "string option"
  | Try_healing string string "string option"

text \<open>\<open>back n\<close> is the stamp \<open>n\<close> hours ago; \<open>None\<close> and the empty text are no key.\<close>

definition note_event ::
  "stamp \<Rightarrow> (int \<Rightarrow> stamp) \<Rightarrow> int option \<Rightarrow> string \<Rightarrow> string \<Rightarrow> string \<Rightarrow> string \<Rightarrow> string option \<Rightarrow> int \<Rightarrow> park
     \<Rightarrow> bool \<times> event_effect list \<times> park" where
  "note_event now back hid kind severity src txt key hours s =
     (let sev = (if severity \<in> set (dict_keys severity_weight) then severity else ''MEDIUM'')
      in if key \<noteq> None \<and> key \<noteq> Some [] \<and>
            list_ex (\<lambda>v. ev_key v = key \<and> in_window (back (max 1 hours)) (ev_stamp v)) (pk_events s)
         then (True, [], s)
         else (False,
               [Raise_alert kind sev txt src (machine_name hid s), Try_healing kind sev (machine_name hid s)],
               s\<lparr>pk_events := pk_events s @ [\<lparr>ev_stamp = now, ev_host = hid, ev_kind = take 32 kind, ev_severity = sev,
                   ev_source = take 16 src, ev_text = take 1000 txt, ev_key = key\<rparr>]\<rparr>))"

definition recent_events :: "pyval \<Rightarrow> int option \<Rightarrow> park \<Rightarrow> exn + (event \<times> string) list" where
  "recent_events v hid s =
     (case py_int (py_or v (PInt 80)) of
        Inl x \<Rightarrow> Inl x
      | Inr n \<Rightarrow> Inr (map (\<lambda>e. (e, case Option.bind (ev_host e) (\<lambda>h. find (\<lambda>m. ma_id m = h) (pk_machines s)) of
                                     None \<Rightarrow> [] | Some m \<Rightarrow> ma_name m))
                      (take (clamp 1 300 n) (rev (filter (\<lambda>e. hid = None \<or> hid = Some 0 \<or> ev_host e = hid) (pk_events s))))))"

section \<open>Scores\<close>

definition penalty :: "real \<Rightarrow> string \<Rightarrow> real" where
  "penalty age sev =
     of_int (get_default severity_weight sev 1) * max 0 (1 - max 0 age / 90)"

definition score_of :: "(event \<Rightarrow> real) \<Rightarrow> event list \<Rightarrow> int" where
  "score_of age evs = max 0 (min 100 (py_round (100 - sum_list (map (\<lambda>e. penalty (age e) (ev_severity e)) evs))))"

definition snapshot_due :: "(stamp \<Rightarrow> real option) \<Rightarrow> int \<Rightarrow> park \<Rightarrow> bool" where
  "snapshot_due hours hid s =
     (case find (\<lambda>k. ka_host k = hid) (rev (pk_karma s)) of
        None \<Rightarrow> True
      | Some k \<Rightarrow> (case hours (ka_stamp k) of None \<Rightarrow> True | Some h \<Rightarrow> h \<ge> 6))"

text \<open>\<open>since\<close> is the stamp ninety days ago, \<open>age\<close> the days since an event, \<open>hours\<close> the hours since a stamp.\<close>

definition recompute_one ::
  "stamp \<Rightarrow> stamp \<Rightarrow> (event \<Rightarrow> real) \<Rightarrow> (stamp \<Rightarrow> real option) \<Rightarrow> int \<Rightarrow> park \<Rightarrow> park" where
  "recompute_one now since age hours hid s =
     (let evs = filter (\<lambda>e. ev_host e = Some hid \<and> in_window since (ev_stamp e)) (pk_events s);
          score = score_of age evs;
          s1 = update_machine hid (\<lambda>m. m\<lparr>ma_score := score, ma_updated := now\<rparr>) s
      in if snapshot_due hours hid s1 then s1\<lparr>pk_karma := pk_karma s1 @ [\<lparr>ka_stamp = now, ka_host = hid, ka_score = score\<rparr>]\<rparr> else s1)"

definition recompute_health ::
  "stamp \<Rightarrow> stamp \<Rightarrow> (event \<Rightarrow> real) \<Rightarrow> (stamp \<Rightarrow> real option) \<Rightarrow> park \<Rightarrow> park" where
  "recompute_health now since age hours s = fold (recompute_one now since age hours) (map ma_id (pk_machines s)) s"

definition karma_history :: "int \<Rightarrow> int \<Rightarrow> park \<Rightarrow> int list" where
  "karma_history hid n s =
     rev (take (clamp 2 400 n) (rev (map ka_score (filter (\<lambda>k. ka_host k = hid) (pk_karma s)))))"

section \<open>Journal\<close>

definition journal_add ::
  "stamp \<Rightarrow> string \<Rightarrow> string \<Rightarrow> string option \<Rightarrow> string option \<Rightarrow> pyval \<Rightarrow> park \<Rightarrow> int option \<times> park" where
  "journal_add now txt src host user minutes s =
     (let t = py_strip txt in
      if t = [] then (None, s)
      else
        let m = (case py_int (py_or minutes (PInt 0)) of Inl _ \<Rightarrow> 0 | Inr k \<Rightarrow> max 0 k);
            (hid, s1) = (case host of None \<Rightarrow> (None, s) | Some [] \<Rightarrow> (None, s) | Some h \<Rightarrow> resolve_host_id now h s)
        in (Some (pk_next_entry s1),
            s1\<lparr>pk_entries := pk_entries s1 @ [\<lparr>en_id = pk_next_entry s1, en_stamp = now, en_source = take 16 src, en_host = hid,
                 en_user = (case user of None \<Rightarrow> None | Some [] \<Rightarrow> None | Some u \<Rightarrow> Some (take 80 u)),
                 en_text = take 4000 t, en_minutes = m\<rparr>],
               pk_next_entry := pk_next_entry s1 + 1\<rparr>))"

definition journal_delete :: "pyval \<Rightarrow> park \<Rightarrow> bool option \<times> park" where
  "journal_delete v s =
     (case py_int v of
        Inl _ \<Rightarrow> (None, s)
      | Inr k \<Rightarrow> (Some (list_ex (\<lambda>e. en_id e = k) (pk_entries s)),
                  s\<lparr>pk_entries := filter (\<lambda>e. en_id e \<noteq> k) (pk_entries s)\<rparr>))"

text \<open>\<open>like\<close> is the operator of SQLite.\<close>

definition list_entries ::
  "(string \<Rightarrow> string \<Rightarrow> bool) \<Rightarrow> pyval \<Rightarrow> string \<Rightarrow> string \<Rightarrow> park \<Rightarrow> exn + entry_row list" where
  "list_entries like v src q s =
     (case py_int (py_or v (PInt 150)) of
        Inl x \<Rightarrow> Inl x
      | Inr n \<Rightarrow> Inr (take (clamp 1 500 n) (rev (filter (\<lambda>e.
            (src = [] \<or> en_source e = take 16 src)
            \<and> (q = [] \<or> like (en_text e) (''%'' @ q @ ''%'') \<or> (case en_user e of None \<Rightarrow> False | Some u \<Rightarrow> like u (''%'' @ q @ ''%'')))) (pk_entries s)))))"

text \<open>Groups of a report: the key, the number of entries and their minutes.\<close>

definition tally :: "(entry_row \<Rightarrow> 'k) \<Rightarrow> entry_row list \<Rightarrow> ('k \<times> nat \<times> int) list" where
  "tally f rows =
     map (\<lambda>k. (k, length (filter (\<lambda>e. f e = k) rows), sum_list (map en_minutes (filter (\<lambda>e. f e = k) rows))))
       (rev (remdups (rev (map f rows))))"

record month_report =
  mr_days :: int
  mr_entries :: nat
  mr_minutes :: int
  mr_by_source :: "(string \<times> nat \<times> int) list"
  mr_users :: "(string \<times> nat \<times> int) list"
  mr_hosts :: "(string \<times> nat \<times> int) list"
  mr_per_day :: "(string \<times> nat \<times> int) list"

definition no_name :: string where
  "no_name = utf8 [40, 208, 177, 208, 181, 208, 183, 32, 208, 184, 208, 188, 208, 181, 208, 189, 208, 184, 41]"

definition no_host :: string where
  "no_host = utf8 [40, 208, 189, 208, 181, 32, 209, 131, 208, 186, 208, 176, 208, 183, 208, 176, 208, 189, 208, 176, 41]"

text \<open>\<open>back n\<close> is the stamp \<open>n\<close> days ago.\<close>

definition month_report_of :: "(int \<Rightarrow> stamp) \<Rightarrow> pyval \<Rightarrow> park \<Rightarrow> month_report" where
  "month_report_of back v s =
     (let days = (case py_int (py_or v (PInt 30)) of Inl _ \<Rightarrow> 30 | Inr n \<Rightarrow> min (max n 1) 365);
          rows = filter (\<lambda>e. in_window (back days) (en_stamp e)) (pk_entries s);
          host = (\<lambda>e. case Option.bind (en_host e) (\<lambda>h. find (\<lambda>m. ma_id m = h) (pk_machines s)) of
                        None \<Rightarrow> no_host | Some m \<Rightarrow> ma_name m)
      in \<lparr>mr_days = days, mr_entries = length rows, mr_minutes = sum_list (map en_minutes rows),
          mr_by_source = sort_key (\<lambda>(_, n, _). - int n) (tally en_source rows),
          mr_users = take 7 (sort_key (\<lambda>(_, _, m). - m) (sort_key (\<lambda>(_, n, _). - int n)
                       (tally (\<lambda>e. case en_user e of None \<Rightarrow> no_name | Some u \<Rightarrow> u) rows))),
          mr_hosts = take 7 (sort_key (\<lambda>(_, n, _). - int n) (tally host rows)),
          mr_per_day = sort_key fst (tally (ts_date \<circ> en_stamp) rows)\<rparr>)"

section \<open>The window of an event\<close>

lemma less_append_same: "length xs = length ys \<Longrightarrow> xs @ us < ys @ vs \<longleftrightarrow> xs < ys \<or> xs = ys \<and> (us :: 'a::linorder list) < vs"
  by (induction xs ys rule: list_induct2) auto

text \<open>The texts agree in their dates or differ there, and a \<open>T\<close> is above a blank.\<close>

lemma in_window_date:
  assumes "length (ts_date since) = length (ts_date t)"
  shows "in_window since t \<longleftrightarrow> ts_date since \<le> ts_date t"
proof -
  have "'' '' @ ts_time since < ''T'' @ ts_time t" by (simp add: less_char_def)
  then show ?thesis
    using less_append_same [OF assms, of "'' '' @ ts_time since" "''T'' @ ts_time t"]
    unfolding in_window_def iso_def sql_text_def le_less by blast
qed

definition dated :: "park \<Rightarrow> bool" where
  "dated s \<longleftrightarrow> list_all (\<lambda>e. length (ts_date (ev_stamp e)) = 10) (pk_events s)"

text \<open>An event is dropped as a repetition exactly when an event with its key was recorded on the day the
  window begins or later, whatever the time of that day: the window of a few hours reaches back to
  midnight, because the stamps are compared as texts written in two formats. Otherwise the event is recorded,
  last, and its alert and its healing rules follow.\<close>

theorem dedup_window_begins_at_midnight:
  assumes "dated s" and "length (ts_date (back (max 1 hours))) = 10" and "key \<noteq> []"
    and "note_event now back hid kind severity src txt (Some key) hours s = (dup, effects, s')"
  shows "(dup \<longleftrightarrow> (\<exists>e \<in> set (pk_events s). ev_key e = Some key \<and> ts_date (back (max 1 hours)) \<le> ts_date (ev_stamp e)))
    \<and> (dup \<longrightarrow> effects = [] \<and> s' = s)
    \<and> (\<not> dup \<longrightarrow> (\<exists>e. pk_events s' = pk_events s @ [e] \<and> ev_stamp e = now \<and> ev_key e = Some key) \<and> length effects = 2)"
proof -
  have w: "in_window (back (max 1 hours)) (ev_stamp e) \<longleftrightarrow> ts_date (back (max 1 hours)) \<le> ts_date (ev_stamp e)"
    if "e \<in> set (pk_events s)" for e
    using assms(1,2) that by (intro in_window_date) (simp add: dated_def list_all_iff)
  show ?thesis
  proof (cases "list_ex (\<lambda>v. ev_key v = Some key \<and> in_window (back (max 1 hours)) (ev_stamp v)) (pk_events s)")
    case True
    then have "dup \<and> effects = [] \<and> s' = s" using assms(3,4) by (auto simp: note_event_def Let_def)
    with True w show ?thesis by (auto simp: list_ex_iff)
  next
    case False
    then have "\<not> dup \<and> (\<exists>e. pk_events s' = pk_events s @ [e] \<and> ev_stamp e = now \<and> ev_key e = Some key) \<and> length effects = 2"
      using assms(3,4) by (auto simp: note_event_def Let_def)
    with False w show ?thesis by (auto simp: list_ex_iff)
  qed
qed

text \<open>A one-hour window at eleven at night still holds an event of the early morning.\<close>

definition ex_now :: stamp where "ex_now = \<lparr>ts_date = ''2024-05-02'', ts_time = ''23:30:00''\<rparr>"
definition ex_early :: stamp where "ex_early = \<lparr>ts_date = ''2024-05-02'', ts_time = ''00:05:00''\<rparr>"
definition ex_hour_ago :: stamp where "ex_hour_ago = \<lparr>ts_date = ''2024-05-02'', ts_time = ''22:30:00''\<rparr>"

definition ex_park :: park where
  "ex_park = new_park\<lparr>pk_events := [\<lparr>ev_stamp = ex_early, ev_host = Some 1, ev_kind = ''ram'', ev_severity = ''HIGH'',
     ev_source = ''watchdog'', ev_text = ''low'', ev_key = Some ''pc:ram''\<rparr>]\<rparr>"

theorem dedup_window_begins_at_midnight_witness:
  "fst (note_event ex_now (\<lambda>_. ex_hour_ago) (Some 1) ''ram'' ''HIGH'' ''watchdog'' ''low'' (Some ''pc:ram'') 1 ex_park)"
proof -
  have "dated ex_park" "length (ts_date ex_hour_ago) = 10"
    "\<exists>e \<in> set (pk_events ex_park). ev_key e = Some ''pc:ram'' \<and> ts_date ex_hour_ago \<le> ts_date (ev_stamp e)"
    by code_simp+
  moreover obtain dup effects s' where run: "note_event ex_now (\<lambda>_. ex_hour_ago) (Some 1) ''ram'' ''HIGH'' ''watchdog'' ''low''
      (Some ''pc:ram'') 1 ex_park = (dup, effects, s')"
    by (metis prod_cases3)
  ultimately have "dup" using dedup_window_begins_at_midnight [OF _ _ _ run] by blast
  then show ?thesis using run by simp
qed

section \<open>Invariants\<close>

lemma score_between: "0 \<le> score_of age evs \<and> score_of age evs \<le> 100"
  by (simp add: score_of_def)

text \<open>Ids and names of machines are unique, ids are below the counter, scores are percentages.\<close>

definition park_ok :: "park \<Rightarrow> bool" where
  "park_ok s \<longleftrightarrow>
     distinct (map ma_id (pk_machines s)) \<and> distinct (map ma_name (pk_machines s))
     \<and> (\<forall>m \<in> set (pk_machines s). 0 < ma_id m \<and> ma_id m < pk_next_machine s \<and> ma_name m \<noteq> [] \<and> 0 \<le> ma_score m \<and> ma_score m \<le> 100)
     \<and> 0 < pk_next_machine s
     \<and> distinct (map en_id (pk_entries s)) \<and> (\<forall>e \<in> set (pk_entries s). en_id e < pk_next_entry s \<and> 0 \<le> en_minutes e \<and> en_text e \<noteq> [])
     \<and> (\<forall>k \<in> set (pk_karma s). 0 \<le> ka_score k \<and> ka_score k \<le> 100)"

lemma park_ok_update:
  assumes "park_ok s" "\<And>m. ma_id (f m) = ma_id m \<and> ma_name (f m) = ma_name m"
    and "\<And>m. 0 \<le> ma_score m \<and> ma_score m \<le> 100 \<Longrightarrow> 0 \<le> ma_score (f m) \<and> ma_score (f m) \<le> 100"
  shows "park_ok (update_machine hid f s)"
proof -
  let ?ms = "map (\<lambda>m. if ma_id m = hid then f m else m) (pk_machines s)"
  have ids: "map ma_id ?ms = map ma_id (pk_machines s)" and names: "map ma_name ?ms = map ma_name (pk_machines s)"
    using assms(2) by auto
  have "distinct (map ma_id ?ms)" "distinct (map ma_name ?ms)" unfolding ids names using assms(1) by (simp_all add: park_ok_def)
  with assms show ?thesis unfolding park_ok_def update_machine_def by (auto simp del: map_map)
qed

lemma upsert_host_ok:
  assumes "park_ok s"
  shows "park_ok (snd (upsert_host now nm ip os s))"
proof (cases "py_strip nm = []")
  case False
  show ?thesis
  proof (cases "find (\<lambda>m. ma_name m = py_strip nm) (pk_machines s)")
    case None
    then have "py_strip nm \<notin> ma_name ` set (pk_machines s)" by (auto simp: find_None_iff)
    with None False assms show ?thesis by (fastforce simp: upsert_host_def park_ok_def)
  next
    case (Some m)
    have "park_ok (update_machine (ma_id m) (\<lambda>m. m\<lparr>ma_last := now, ma_updated := now,
        ma_ip := (if ip = [] then ma_ip m else ip), ma_os := (if os = [] then ma_os m else os)\<rparr>) s)"
      by (rule park_ok_update [OF assms]) simp_all
    with Some False show ?thesis by (simp add: upsert_host_def)
  qed
qed (simp add: upsert_host_def assms)

lemma resolve_host_ok: "park_ok s \<Longrightarrow> park_ok (snd (resolve_host_id now h s))"
  using upsert_host_ok by (auto simp: resolve_host_id_def Let_def split: option.split)

lemma mark_online_ok: "park_ok s \<Longrightarrow> park_ok (mark_online now hid on s)"
  by (simp add: mark_online_def park_ok_update)

lemma note_event_ok: "park_ok s \<Longrightarrow> note_event now back hid kind sev src txt key hours s = (dup, effects, s') \<Longrightarrow> park_ok s'"
  by (auto simp: note_event_def Let_def park_ok_def split: if_splits)

lemma recompute_health_ok: "park_ok s \<Longrightarrow> park_ok (recompute_health now since age hours s)"
proof -
  have one: "park_ok (recompute_one now since age hours hid s)" if "park_ok s" for hid s
  proof -
    let ?score = "score_of age (filter (\<lambda>e. ev_host e = Some hid \<and> in_window since (ev_stamp e)) (pk_events s))"
    have "park_ok (update_machine hid (\<lambda>m. m\<lparr>ma_score := ?score, ma_updated := now\<rparr>) s)"
      by (rule park_ok_update [OF that]) (simp_all add: score_between)
    then show ?thesis using score_between by (auto simp: recompute_one_def Let_def park_ok_def)
  qed
  have "park_ok s \<Longrightarrow> park_ok (fold (recompute_one now since age hours) hids s)" for hids s
    by (induction hids arbitrary: s) (simp_all add: one)
  then show "park_ok s \<Longrightarrow> park_ok (recompute_health now since age hours s)" by (simp add: recompute_health_def)
qed

lemma journal_add_ok:
  assumes "park_ok s"
  shows "park_ok (snd (journal_add now txt src host user minutes s))"
proof -
  obtain hid s1 where h: "(case host of None \<Rightarrow> (None, s) | Some [] \<Rightarrow> (None, s) | Some h \<Rightarrow> resolve_host_id now h s) = (hid, s1)" by force
  have "park_ok s1" using h assms resolve_host_ok [OF assms, of now] by (auto split: option.splits list.splits) (metis snd_conv)
  moreover have "take 4000 t \<noteq> []" if "t \<noteq> []" for t :: string using that by (cases t) simp_all
  ultimately show ?thesis using assms h
    by (fastforce simp: journal_add_def Let_def park_ok_def split: sum.split)
qed

lemma journal_delete_ok: "park_ok s \<Longrightarrow> park_ok (snd (journal_delete v s))"
  by (auto simp: journal_delete_def park_ok_def distinct_map inj_on_def split: sum.split)

section \<open>Histories\<close>

inductive park_step :: "park \<Rightarrow> park \<Rightarrow> bool" where
  seen: "park_step s (snd (upsert_host now nm ip os s))"
| resolved: "park_step s (snd (resolve_host_id now h s))"
| marked: "park_step s (mark_online now hid on s)"
| noted: "note_event now back hid kind sev src txt key hours s = (dup, effects, s') \<Longrightarrow> park_step s s'"
| scored: "park_step s (recompute_health now since age hours' s)"
| written: "park_step s (snd (journal_add now txt src host user minutes s))"
| deleted: "park_step s (snd (journal_delete v s))"

inductive park_reachable :: "park \<Rightarrow> bool" where
  start: "park_reachable new_park"
| step: "park_reachable s \<Longrightarrow> park_step s s' \<Longrightarrow> park_reachable s'"

lemma park_step_ok: "park_step s s' \<Longrightarrow> park_ok s \<Longrightarrow> park_ok s'"
  by (induction rule: park_step.induct)
    (simp_all add: upsert_host_ok resolve_host_ok mark_online_ok note_event_ok recompute_health_ok journal_add_ok journal_delete_ok)

text \<open>In every reachable state the tables are well formed: ids and names of machines are unique, every id is
  below the counter that gives the next one, no name and no journal text is empty, minutes are not negative,
  and every score, current or historic, is a percentage.\<close>

theorem park_well_formed: "park_reachable s \<Longrightarrow> park_ok s"
proof (induction rule: park_reachable.induct)
  case start
  then show ?case by (simp add: new_park_def park_ok_def)
next
  case (step s s')
  then show ?case by (simp add: park_step_ok)
qed

theorem park_well_formed_witness:
  "park_ok (snd (journal_add ex_now '' call '' ''manual'' (Some ''PC-7'') None (PInt 15) new_park))
   \<and> map ma_name (pk_machines (snd (journal_add ex_now '' call '' ''manual'' (Some ''PC-7'') None (PInt 15) new_park))) = [''PC-7'']"
proof
  show "park_ok (snd (journal_add ex_now '' call '' ''manual'' (Some ''PC-7'') None (PInt 15) new_park))"
    by (rule park_well_formed [OF park_reachable.step [OF park_reachable.start park_step.written]])
  show "map ma_name (pk_machines (snd (journal_add ex_now '' call '' ''manual'' (Some ''PC-7'') None (PInt 15) new_park))) = [''PC-7'']"
    by code_simp
qed

end
