(* ===== verification/Updates.thy ===== *)
theory Updates
  imports Versions "HOL-Library.Char_ord" "HOL-Library.List_Lexorder"
begin

text \<open>
  The update of a node: \<open>internal_modules/updater.py\<close> (search, download, installation, confirmation of a start and
  rollback) and \<open>internal_modules/update.py\<close> (the process that replaces the program). An installation is its files by
  path, the state file and what was started. Answers of the other nodes, the digest, the check_updates of signatures and which
  operations of the system fail are arguments. What an interrupted copy leaves behind is one of them. Absent or
  unreadable state files are \<open>None\<close>; saving the state succeeds; questions to other nodes are answered in their order.
\<close>

section \<open>The system\<close>

text \<open>
  A copy that fails leaves the target as it was, or a part of the content in it. \<open>us_unlink\<close> tells which files can be
  deleted, \<open>us_reads\<close> which ones can be read again when the digest of a replaced program is taken.
\<close>

datatype copy_result = Copied | Copy_Failed "string option"

record update_system =
  us_copy :: "string \<Rightarrow> string \<Rightarrow> copy_result"
  us_move :: "string \<Rightarrow> string \<Rightarrow> bool"
  us_unlink :: "string \<Rightarrow> bool"
  us_reads :: "string \<Rightarrow> bool"
  us_popen :: "string \<Rightarrow> bool"
  us_digest :: "string \<Rightarrow> string"
  us_signature :: "string \<Rightarrow> bool \<times> string"

datatype upd_event = Confirm_After int | Check_Loop | Starts string | Launches "string list" | Exits

record installation =
  inst_files :: "(string, string) dict"
  inst_state :: "pyval option"
  inst_events :: "upd_event list"

definition os_error :: exn where "os_error = ServiceError ''OSError'' []"

definition is_file :: "string \<Rightarrow> installation \<Rightarrow> bool" where
  "is_file p n \<longleftrightarrow> dict_get (inst_files n) p \<noteq> None"

definition put_file :: "string \<Rightarrow> string \<Rightarrow> installation \<Rightarrow> installation" where
  "put_file p c n = n\<lparr>inst_files := dict_set p c (inst_files n)\<rparr>"

definition remove_file :: "string \<Rightarrow> installation \<Rightarrow> installation" where
  "remove_file p n = n\<lparr>inst_files := dict_pop p (inst_files n)\<rparr>"

definition copy_file :: "update_system \<Rightarrow> string \<Rightarrow> string \<Rightarrow> installation \<Rightarrow> (exn + unit) \<times> installation" where
  "copy_file y src dst n =
     (case dict_get (inst_files n) src of
        None \<Rightarrow> (Inl os_error, n)
      | Some c \<Rightarrow>
          (case us_copy y src dst of
             Copied \<Rightarrow> (Inr (), put_file dst c n)
           | Copy_Failed None \<Rightarrow> (Inl os_error, n)
           | Copy_Failed (Some part) \<Rightarrow> (Inl os_error, put_file dst part n)))"

definition move_file :: "update_system \<Rightarrow> string \<Rightarrow> string \<Rightarrow> installation \<Rightarrow> (exn + unit) \<times> installation" where
  "move_file y src dst n =
     (case dict_get (inst_files n) src of
        None \<Rightarrow> (Inl os_error, n)
      | Some c \<Rightarrow> if us_move y src dst then (Inr (), put_file dst c (remove_file src n)) else (Inl os_error, n))"

definition emit :: "upd_event \<Rightarrow> installation \<Rightarrow> installation" where
  "emit v n = n\<lparr>inst_events := inst_events n @ [v]\<rparr>"

section \<open>The state file\<close>

text \<open>What is not an object has no \<open>get\<close>.\<close>

definition load_state :: "installation \<Rightarrow> exn + (string, pyval) dict" where
  "load_state n =
     (case inst_state n of
        None \<Rightarrow> Inr []
      | Some (PDict d) \<Rightarrow> Inr d
      | Some _ \<Rightarrow> Inl AttributeError)"

definition save_state :: "(string, pyval) dict \<Rightarrow> installation \<Rightarrow> installation" where
  "save_state d n = n\<lparr>inst_state := Some (PDict d)\<rparr>"

definition flag :: "(string, pyval) dict \<Rightarrow> string \<Rightarrow> bool" where
  "flag d k \<longleftrightarrow> truthy (get_default d k PNone)"

definition awaiting :: "(string, pyval) dict \<Rightarrow> bool" where
  "awaiting d \<longleftrightarrow> flag d ''pending_boot_confirm'' \<and> \<not> flag d ''boot_ok''"

definition locked_add :: "pyval \<Rightarrow> installation \<Rightarrow> (exn + unit) \<times> installation" where
  "locked_add v n =
     (case load_state n of
        Inl x \<Rightarrow> (Inl x, n)
      | Inr d \<Rightarrow>
          (case get_default d ''locked_versions'' (PList []) of
             PList vs \<Rightarrow>
               if v \<in> set vs then (Inr (), n)
               else (Inr (), save_state (dict_set ''locked_versions'' (PList (vs @ [v])) d) n)
           | _ \<Rightarrow> (Inl TypeError, n)))"

definition clear_state :: "installation \<Rightarrow> installation" where
  "clear_state n = n\<lparr>inst_state := None\<rparr>"

definition or_empty :: "string option \<Rightarrow> string" where
  "or_empty v = (case v of None \<Rightarrow> [] | Some s \<Rightarrow> s)"

section \<open>Confirming a start\<close>

definition max_attempts :: int where "max_attempts = 2"

record update_config =
  uc_frozen :: bool
  uc_exe :: string
  uc_current :: string
  uc_exe_name :: string
  uc_downloads :: string
  uc_work_dir :: string
  uc_dist :: string
  uc_pid :: nat
  uc_enabled :: bool
  uc_auto_check :: bool
  uc_require_signed :: bool
  uc_allow_downgrade :: bool
  uc_sources :: "(string \<times> string) list"
  uc_health :: int

definition path_value :: "(string, pyval) dict \<Rightarrow> string \<Rightarrow> exn + string" where
  "path_value d k = (case py_or (get_default d k PNone) (PStr []) of PStr s \<Rightarrow> Inr s | _ \<Rightarrow> Inl TypeError)"

definition do_rollback :: "update_system \<Rightarrow> real \<Rightarrow> (string, pyval) dict \<Rightarrow> installation \<Rightarrow> (exn + unit) \<times> installation" where
  "do_rollback y now d n =
     (case (path_value d ''exe'', path_value d ''old_exe'') of
        (Inr exe, Inr old) \<Rightarrow>
          if \<not> is_file old n then (Inr (), save_state (dict_set ''rolled_back'' (PBool True) d) n)
          else if exe = [] then (Inl ValueError, n)
          else
            (case move_file y exe (exe @ ''.failed'') n of
               (Inl x, n1) \<Rightarrow> (Inr (), n1)
             | (Inr _, n1) \<Rightarrow>
                 (case copy_file y old exe n1 of
                    (Inl x, n2) \<Rightarrow> (Inl x, n2)
                  | (Inr _, n2) \<Rightarrow>
                      (let d' = dict_set ''rolled_back_at'' (PFloat now) (dict_set ''rolled_back'' (PBool True) d);
                           n3 = save_state d' n2
                       in case dict_get d' ''to'' of
                            None \<Rightarrow> (Inl (ServiceError ''KeyError'' ''to''), n3)
                          | Some v \<Rightarrow>
                              (case locked_add v n3 of
                                 (Inl x, n4) \<Rightarrow> (Inl x, n4)
                               | (Inr _, n4) \<Rightarrow>
                                   if us_popen y exe then (Inr (), emit Exits (emit (Starts exe) n4))
                                   else (Inl os_error, n4)))))
      | (Inl x, _) \<Rightarrow> (Inl x, n)
      | (_, Inl x) \<Rightarrow> (Inl x, n))"

definition normal_start :: "update_config \<Rightarrow> installation \<Rightarrow> installation" where
  "normal_start c n =
     (if uc_auto_check c \<and> uc_enabled c \<and> uc_sources c \<noteq> [] \<and> uc_frozen c then emit Check_Loop n else n)"

definition start_updater :: "update_system \<Rightarrow> update_config \<Rightarrow> real \<Rightarrow> installation \<Rightarrow> (exn + unit) \<times> installation" where
  "start_updater y c now n =
     (case load_state n of
        Inl x \<Rightarrow> (Inl x, n)
      | Inr d \<Rightarrow>
          if awaiting d then
            (case py_int (get_default d ''attempts'' (PInt 0)) of
               Inl x \<Rightarrow> (Inl x, n)
             | Inr k \<Rightarrow>
                 (let d' = dict_set ''attempt_started_at'' (PFloat now) (dict_set ''attempts'' (PInt (k + 1)) d);
                      n1 = save_state d' n
                  in if max_attempts < k + 1 then do_rollback y now d' n1
                     else (Inr (), normal_start c (emit (Confirm_After (max 5 (uc_health c))) n1))))
          else (Inr (), normal_start c n))"

definition confirm_boot :: "real \<Rightarrow> installation \<Rightarrow> (exn + unit) \<times> installation" where
  "confirm_boot now n =
     (case load_state n of
        Inl x \<Rightarrow> (Inl x, n)
      | Inr d \<Rightarrow>
          if awaiting d
          then (Inr (), save_state (dict_set ''confirmed_at'' (PFloat now) (dict_set ''boot_ok'' (PBool True) d)) n)
          else (Inr (), n))"

section \<open>Searching for versions\<close>

text \<open>
  \<open>un_call\<close> is a question to the file transport of a node (method and data), \<open>un_json\<close> reads bytes as UTF-8 and JSON
  (\<open>None\<close> is a \<open>ValueError\<close>), \<open>un_text\<close> is \<open>str\<close>.
\<close>

record update_net =
  un_call :: "string \<Rightarrow> string \<Rightarrow> pyval \<Rightarrow> exn + pyval"
  un_json :: "string \<Rightarrow> pyval option"
  un_text :: "pyval \<Rightarrow> string"
  un_error :: "exn \<Rightarrow> string"
  un_self :: "string list"
  un_hosts :: "(string \<times> string) list"

definition resolve_dst :: "update_net \<Rightarrow> string \<Rightarrow> string" where
  "resolve_dst w h =
     (if h \<in> set (un_self w) then hd (un_self w)
      else case find (\<lambda>(node, host). host = h \<or> node = h) (un_hosts w) of
             Some (node, _) \<Rightarrow> if node = [] then h else node
           | None \<Rightarrow> h)"

record offered_release =
  rl_manifest :: "(string, pyval) dict"
  rl_node :: string
  rl_share :: string
  rl_path :: string

record offer =
  of_version :: string
  of_node :: string
  of_size :: pyval
  of_notes :: pyval
  of_min :: pyval
  of_newer :: bool

text \<open>The text of the parent of a path, and \<open>replace('//', '/')\<close>.\<close>

definition parent_text :: "string \<Rightarrow> string" where
  "parent_text p =
     (let ps = butlast (List.filter (\<lambda>x. x \<noteq> [] \<and> x \<noteq> ''.'') (split_on (CHR ''/'') p));
          t = (if begins ''/'' p then CHR ''/'' # join ''/'' ps else if ps = [] then ''.'' else join ''/'' ps)
      in map (\<lambda>c. if c = CHR 0x5C then CHR ''/'' else c) t)"

fun squeeze :: "string \<Rightarrow> string" where
  "squeeze (a # b # cs) =
     (if a = CHR ''/'' \<and> b = CHR ''/'' then CHR ''/'' # squeeze cs else a # squeeze (b # cs))"
| "squeeze cs = cs"

definition good_reply :: "pyval \<Rightarrow> bool" where
  "good_reply v \<longleftrightarrow> (case v of PDict d \<Rightarrow> truthy (get_default d ''ok'' PNone) | _ \<Rightarrow> False)"

definition the_dict :: "pyval \<Rightarrow> (string, pyval) dict" where
  "the_dict v = (case v of PDict d \<Rightarrow> d | _ \<Rightarrow> [])"

text \<open>One entry: an exception here ends the questions to the whole source, \<open>None\<close> skips the entry.\<close>

definition read_release ::
  "update_net \<Rightarrow> update_config \<Rightarrow> string \<times> string \<Rightarrow> string \<Rightarrow> pyval \<Rightarrow> exn + (offer \<times> offered_release) option" where
  "read_release w c src dst entry =
     (case dict_get (the_dict entry) ''path'' of
        None \<Rightarrow> Inr None
      | Some p \<Rightarrow>
          (case un_call w dst ''read'' (PDict [(''share'', PStr (snd src)), (''path'', p)]) of
             Inl _ \<Rightarrow> Inr None
           | Inr r \<Rightarrow>
               if \<not> good_reply r then Inr None
               else (case dict_get (the_dict r) ''data'' of
                  None \<Rightarrow> Inl (ServiceError ''KeyError'' ''data'')
                | Some (PBytes b) \<Rightarrow>
                    (case un_json w b of
                       None \<Rightarrow> Inr None
                     | Some (PDict man) \<Rightarrow>
                         (case py_or (get_default man ''version'' (PStr [])) (PStr []) of
                            PStr ver \<Rightarrow>
                              if parse_version ver = None then Inr None
                              else (case p of
                                 PStr path \<Rightarrow>
                                   Inr (Some
                                     (\<lparr>of_version = ver, of_node = fst src, of_size = get_default man ''size'' PNone,
                                       of_notes = get_default man ''notes'' (PStr []),
                                       of_min = get_default man ''min_compatible'' (PStr []),
                                       of_newer = is_newer ver (uc_current c)\<rparr>,
                                      \<lparr>rl_manifest = man, rl_node = fst src, rl_share = snd src,
                                       rl_path = squeeze (parent_text path @ ''/'' @
                                         un_text w (py_or (get_default man ''exe_name'' PNone) (PStr (uc_exe_name c))))\<rparr>))
                               | _ \<Rightarrow> Inl TypeError)
                          | _ \<Rightarrow> Inl TypeError)
                     | Some _ \<Rightarrow> Inl AttributeError)
                | Some _ \<Rightarrow> Inl AttributeError)))"

fun read_releases ::
  "update_net \<Rightarrow> update_config \<Rightarrow> string \<times> string \<Rightarrow> string \<Rightarrow> pyval list \<Rightarrow> exn + (offer \<times> offered_release) list" where
  "read_releases w c src dst [] = Inr []"
| "read_releases w c src dst (v # vs) =
     bind_sum (read_release w c src dst v) (\<lambda>r.
     bind_sum (read_releases w c src dst vs) (\<lambda>rs. Inr (case r of None \<Rightarrow> rs | Some x \<Rightarrow> x # rs)))"

definition probe_source :: "update_net \<Rightarrow> update_config \<Rightarrow> string \<times> string \<Rightarrow> exn + (offer \<times> offered_release) list" where
  "probe_source w c src =
     (let dst = resolve_dst w (fst src) in
      bind_sum (un_call w dst ''find'' (PDict [(''share'', PStr (snd src)), (''pattern'', PStr ''*/manifest.json'')])) (\<lambda>found.
      if \<not> good_reply found
      then Inl (PyException (case found of PDict d \<Rightarrow> un_text w (get_default d ''error'' (PStr ''files.find failed''))
                                      | _ \<Rightarrow> utf8 [208, 189, 208, 181, 209, 130, 32, 208, 190, 209,
      130, 208, 178, 208, 181, 209, 130, 208, 176]))
      else bind_sum (py_iter (py_or (get_default (the_dict found) ''entries'' PNone) (PList []))) (read_releases w c src dst)))"

record updater =
  ud_known :: "(string, offered_release) dict"
  ud_offers :: "offer list"
  ud_errors :: "(string, string) dict"

text \<open>Sorted by version as text, descending; of each version the first stays.\<close>

fun first_of_each :: "string list \<Rightarrow> offer list \<Rightarrow> offer list" where
  "first_of_each seen [] = []"
| "first_of_each seen (a # as) =
     (if of_version a \<in> set seen then first_of_each seen as
      else a # first_of_each (of_version a # seen) as)"

definition show_offers :: "offer list \<Rightarrow> offer list" where
  "show_offers as = first_of_each [] (rev (sort_key of_version (rev as)))"

definition learn :: "(offer \<times> offered_release) list \<Rightarrow> (string, offered_release) dict \<Rightarrow> (string, offered_release) dict" where
  "learn rs known = fold (\<lambda>(a, r). dict_set (of_version a) r) rs known"

datatype update_error =
    No_Sources
  | Check_Failed "(string, string) dict"
  | Not_Found "string option"
  | Download_Failed pyval
  | Digest_Differs
  | Download_Timeout
  | Disabled
  | Not_Frozen
  | Same_Version
  | Downgrade_Refused
  | Unconfirmed
  | Unavailable "string option"
  | No_File
  | Signature_Refused string
  | No_Updater
  | No_Launch
  | No_Version
  | No_Program

definition check_updates :: "update_net \<Rightarrow> update_config \<Rightarrow> string option \<Rightarrow> updater \<Rightarrow> (update_error + offer list \<times> (string, string) dict) \<times> updater" where
  "check_updates w c wanted u =
     (let srcs = (case wanted of Some (x # xs) \<Rightarrow> List.filter (\<lambda>s. fst s = x # xs) (uc_sources c) | _ \<Rightarrow> uc_sources c) in
      if srcs = [] then (Inl No_Sources, u)
      else (let ps = map (\<lambda>s. (resolve_dst w (fst s), probe_source w c s)) srcs;
                found = concat (map (\<lambda>(_, r). case r of Inl _ \<Rightarrow> [] | Inr rs \<Rightarrow> rs) ps);
                errs = fold (\<lambda>(d, r). case r of Inl x \<Rightarrow> dict_set d (un_error w x) | Inr _ \<Rightarrow> id) ps [];
                offers = show_offers (map fst found)
            in (Inr (offers, errs),
                u\<lparr>ud_known := learn found (ud_known u), ud_offers := offers, ud_errors := errs\<rparr>)))"

section \<open>Downloading\<close>

text \<open>
  What happens while the download waits: \<open>ug_files 0\<close> during the call that starts it, \<open>ug_files (Suc i)\<close> during pause
  \<open>i\<close>, and whether the file transport reports an error of the transfer at look \<open>i\<close>.
\<close>

record progress =
  ug_files :: "nat \<Rightarrow> (string, string) dict \<Rightarrow> (string, string) dict"
  ug_failed :: "nat \<Rightarrow> pyval option"

definition other_tasks :: "progress \<Rightarrow> nat \<Rightarrow> installation \<Rightarrow> installation" where
  "other_tasks g i n = n\<lparr>inst_files := ug_files g i (inst_files n)\<rparr>"

definition staged_name :: "update_config \<Rightarrow> string \<Rightarrow> string" where
  "staged_name c ver = ver @ ''_'' @ uc_exe_name c"

definition staged_path :: "update_config \<Rightarrow> string \<Rightarrow> string" where
  "staged_path c ver = uc_downloads c @ ''/'' @ staged_name c ver"

text \<open>Whether the content at a path has the digest that is expected; without an expectation every content has it.\<close>

definition digest_fits :: "update_system \<Rightarrow> pyval \<Rightarrow> string \<Rightarrow> installation \<Rightarrow> bool" where
  "digest_fits y expected p n \<longleftrightarrow>
     (truthy expected \<longrightarrow> map_option (PStr \<circ> us_digest y) (dict_get (inst_files n) p) = Some expected)"

definition check_staged ::
  "update_system \<Rightarrow> pyval \<Rightarrow> string \<Rightarrow> installation \<Rightarrow> (update_error + string) \<times> installation" where
  "check_staged y expected p n =
     (if digest_fits y expected p n then (Inr p, n) else (Inl Digest_Differs, remove_file p n))"

fun wait_staged ::
  "update_system \<Rightarrow> progress \<Rightarrow> pyval \<Rightarrow> string \<Rightarrow> nat \<Rightarrow> nat \<Rightarrow> installation \<Rightarrow> (update_error + string) \<times> installation" where
  "wait_staged y g expected p i 0 n =
     (if is_file p n then check_staged y expected p n else (Inl Download_Timeout, n))"
| "wait_staged y g expected p i (Suc k) n =
     (if is_file p n then check_staged y expected p n
      else case ug_failed g i of
             Some v \<Rightarrow> (Inl (Download_Failed (py_or v (PStr ''download failed''))), n)
           | None \<Rightarrow> wait_staged y g expected p (i + 1) k (other_tasks g (i + 1) n))"

definition await_release ::
  "update_system \<Rightarrow> update_net \<Rightarrow> progress \<Rightarrow> update_config \<Rightarrow> string \<Rightarrow> offered_release \<Rightarrow> installation
     \<Rightarrow> (exn + update_error + string) \<times> installation" where
  "await_release y w g c ver info n =
     (case un_call w (hd (un_self w)) ''download''
             (PDict [(''dst'', PStr (rl_node info)), (''share'', PStr (rl_share info)), (''path'', PStr (rl_path info)),
                     (''save_as'', PStr (staged_name c ver))]) of
        Inl x \<Rightarrow> (Inl x, other_tasks g 0 n)
      | Inr res \<Rightarrow>
          (let n1 = other_tasks g 0 n in
           if \<not> good_reply res
           then (case py_or res (PDict []) of
                   PDict d \<Rightarrow> (Inr (Inl (Download_Failed (get_default d ''error'' (PStr ''download failed'')))), n1)
                 | _ \<Rightarrow> (Inl AttributeError, n1))
           else if truthy (get_default (the_dict res) ''done'' PNone) \<and> truthy (get_default (the_dict res) ''path'' PNone)
           then (Inr (Inr (un_text w (get_default (the_dict res) ''path'' PNone))), n1)
           else (case wait_staged y g (py_or (get_default (rl_manifest info) ''exe_sha256'' PNone)
                                             (get_default (rl_manifest info) ''id'' PNone))
                        (staged_path c ver) 0 120 n1 of
                   (r, n2) \<Rightarrow> (Inr r, n2))))"

definition download ::
  "update_system \<Rightarrow> update_net \<Rightarrow> progress \<Rightarrow> update_config \<Rightarrow> string option \<Rightarrow> updater \<Rightarrow> installation
     \<Rightarrow> (exn + update_error + string) \<times> updater \<times> installation" where
  "download y w g c ver u n =
     (let known = get_opt (ud_known u) ver;
          (r, u1) = (if known = None then check_updates w c None u else (Inr ([], []), u))
      in case (known, r) of
           (None, Inr ([], e # es)) \<Rightarrow> (Inr (Inl (Check_Failed (e # es))), u1, n)
         | _ \<Rightarrow>
             (case (ver, get_opt (ud_known u1) ver) of
                (Some v, Some info) \<Rightarrow> (case await_release y w g c v info n of (a, n1) \<Rightarrow> (a, u1, n1))
              | _ \<Rightarrow> (Inr (Inl (Not_Found ver)), u1, n)))"

section \<open>Installing\<close>

definition validate_transition :: "string \<Rightarrow> string \<Rightarrow> bool \<Rightarrow> bool \<Rightarrow> update_error option" where
  "validate_transition current target allow force =
     (if compare_versions target current = 0 then Some Same_Version
      else if is_newer target current then None
      else if allow \<or> force then None
      else Some Downgrade_Refused)"

definition base_name :: "string \<Rightarrow> string" where
  "base_name p = rev (takeWhile (\<lambda>c. c \<noteq> CHR ''/'') (rev p))"

text \<open>A name has a suffix when its last dot is neither the first nor the last character.\<close>

definition updater_exe_path :: "string \<Rightarrow> string" where
  "updater_exe_path p =
     (let name = base_name p;
          ext = takeWhile (\<lambda>c. c \<noteq> CHR ''.'') (rev name);
          stem = take (length name - length ext - 1) name
      in if CHR ''.'' \<in> set name \<and> ext \<noteq> [] \<and> stem \<noteq> []
         then take (length p - length name) p @ stem @ ''_update.exe''
         else p @ ''_update.exe'')"

definition update_state :: "update_config \<Rightarrow> string \<Rightarrow> real \<Rightarrow> (string, pyval) dict" where
  "update_state c ver now =
     [(''from'', PStr (uc_current c)), (''to'', PStr ver), (''exe'', PStr (uc_exe c)),
      (''old_exe'', PStr (uc_exe c @ ''.old'')), (''staged_from'', PStr (staged_path c ver)), (''attempts'', PInt 0),
      (''pending_boot_confirm'', PBool True), (''boot_ok'', PBool False), (''rolled_back'', PBool False),
      (''staged_at'', PFloat now)]"

definition updater_args :: "update_config \<Rightarrow> string \<Rightarrow> string list" where
  "updater_args c ver =
     [updater_exe_path (uc_exe c), ''--updater'', ''--old-pid'', string_of_nat (uc_pid c), ''--old-exe'', uc_exe c,
      ''--staged'', staged_path c ver, ''--work-dir'', uc_work_dir c, ''--health-confirm-sec'', string_of_int (uc_health c),
      ''--from-version'', uc_current c, ''--to-version'', ver]"

text \<open>From the second step on: the digest of the manifest known before, the signature, the copy of the program, the state, the start.\<close>

definition install ::
  "update_system \<Rightarrow> update_config \<Rightarrow> real \<Rightarrow> string \<Rightarrow> offered_release option \<Rightarrow> installation \<Rightarrow> (update_error + unit) \<times> installation" where
  "install y c now ver info n =
     (let staged = staged_path c ver;
          expected = (case info of None \<Rightarrow> PNone | Some r \<Rightarrow> get_default (rl_manifest r) ''exe_sha256'' PNone);
          (sig_ok, sig_detail) = us_signature y (or_empty (dict_get (inst_files n) staged));
          upd = updater_exe_path (uc_exe c)
      in if \<not> digest_fits y expected staged n then (Inl Digest_Differs, n)
         else if uc_require_signed c \<and> \<not> sig_ok then (Inl (Signature_Refused sig_detail), n)
         else case copy_file y (uc_exe c) upd n of
                (Inl _, n1) \<Rightarrow> (Inl No_Updater, n1)
              | (Inr _, n1) \<Rightarrow>
                  (let n2 = save_state (update_state c ver now) n1
                   in if us_popen y upd then (Inr (), emit Exits (emit (Launches (updater_args c ver)) n2))
                      else (Inl No_Launch, remove_file upd n2)))"

definition apply_update ::
  "update_system \<Rightarrow> update_net \<Rightarrow> progress \<Rightarrow> update_config \<Rightarrow> real \<Rightarrow> string option \<Rightarrow> bool \<Rightarrow> updater \<Rightarrow> installation
     \<Rightarrow> (exn + update_error + unit) \<times> updater \<times> installation" where
  "apply_update y w g c now version force u n =
     (if \<not> uc_enabled c then (Inr (Inl Disabled), u, n)
      else if \<not> uc_frozen c then (Inr (Inl Not_Frozen), u, n)
      else case validate_transition (uc_current c) (or_empty version) (uc_allow_downgrade c) force of
        Some e \<Rightarrow> (Inr (Inl e), u, n)
      | None \<Rightarrow>
          (case load_state n of
             Inl x \<Rightarrow> (Inl x, u, n)
           | Inr d \<Rightarrow>
               if awaiting d then (Inr (Inl Unconfirmed), u, n)
               else
                 (let info = get_opt (ud_known u) version;
                      (r, u1) = (if info = None then check_updates w c None u else (Inr ([], []), u));
                      offered = (case r of Inr (offers, _) \<Rightarrow> version \<in> set (map (Some \<circ> of_version) offers) | Inl _ \<Rightarrow> False)
                  in case version of
                       None \<Rightarrow> (Inr (Inl (Unavailable version)), u1, n)
                     | Some ver \<Rightarrow>
                         if info = None \<and> \<not> offered then (Inr (Inl (Unavailable version)), u1, n)
                         else if is_file (staged_path c ver) n
                         then (case install y c now ver info n of (a, n1) \<Rightarrow> (Inr a, u1, n1))
                         else (case download y w g c version u1 n of
                                 (Inl x, u2, n1) \<Rightarrow> (Inl x, u2, n1)
                               | (Inr (Inl e), u2, n1) \<Rightarrow> (Inr (Inl e), u2, n1)
                               | (Inr (Inr _), u2, n1) \<Rightarrow>
                                   if is_file (staged_path c ver) n1
                                   then (case install y c now ver info n1 of (a, n2) \<Rightarrow> (Inr a, u2, n2))
                                   else (Inr (Inl No_File), u2, n1)))))"

section \<open>The process that replaces the program\<close>

definition replace_binary :: "update_system \<Rightarrow> string \<Rightarrow> string \<Rightarrow> installation \<Rightarrow> bool \<times> installation" where
  "replace_binary y exe staged n =
     (let old = exe @ ''.old'' in
      if \<not> is_file staged n then (False, n)
      else
        (let n1 = (if us_unlink y old then remove_file old n else n);
             (moved, n2) = (if is_file exe n1 then move_file y exe old n1 else (Inr (), n1))
         in case moved of
              Inl _ \<Rightarrow> (False, n2)
            | Inr _ \<Rightarrow>
                (case copy_file y staged exe n2 of
                   (Inl _, n3) \<Rightarrow>
                     if is_file old n3 \<and> \<not> is_file exe n3 then (False, snd (move_file y old exe n3)) else (False, n3)
                 | (Inr _, n3) \<Rightarrow>
                     if \<not> us_reads y exe \<or> \<not> us_reads y staged then (False, n3)
                     else if us_digest y (or_empty (dict_get (inst_files n3) exe)) \<noteq> us_digest y (or_empty (dict_get (inst_files n3) staged))
                     then (False, snd (move_file y old exe n3))
                     else (True, n3))))"

definition rollback_binary :: "update_system \<Rightarrow> string \<Rightarrow> string \<Rightarrow> installation \<Rightarrow> installation" where
  "rollback_binary y upd exe n =
     (case copy_file y upd exe n of
        (Inl _, n1) \<Rightarrow> n1
      | (Inr _, n1) \<Rightarrow> if us_popen y exe then emit (Launches [exe, ''--update-failed'']) n1 else n1)"

text \<open>
  \<open>looks\<close> tells for each look at the new process whether it is alive, until the time is over; the last look follows the
  deadline. The result is the exit code. Before the replacement the process waits for the old one to be gone.
\<close>

definition updater_main ::
  "update_system \<Rightarrow> string \<Rightarrow> string \<Rightarrow> string \<Rightarrow> bool list \<Rightarrow> real \<Rightarrow> installation \<Rightarrow> int \<times> installation" where
  "updater_main y upd exe staged looks now n =
     (case replace_binary y exe staged n of
        (False, n1) \<Rightarrow> (2, n1)
      | (True, n1) \<Rightarrow>
          if \<not> us_popen y exe then (3, rollback_binary y upd exe n1)
          else
            (let n2 = emit (Launches [exe]) n1 in
             if False \<in> set looks then (4, rollback_binary y upd exe n2)
             else (0, case inst_state n2 of
                        Some (PDict d) \<Rightarrow>
                          save_state (dict_set ''confirmed_at'' (PFloat now) (dict_set ''boot_ok'' (PBool True) d)) n2
                      | _ \<Rightarrow> n2)))"

section \<open>Packing and the status\<close>

text \<open>\<open>dump\<close> is the text of the JSON that is written.\<close>

definition build_release ::
  "update_system \<Rightarrow> ((string, pyval) dict \<Rightarrow> string) \<Rightarrow> update_config \<Rightarrow> pyval \<Rightarrow> pyval \<Rightarrow> installation
     \<Rightarrow> (exn + update_error + (string, pyval) dict) \<times> installation" where
  "build_release y dump c notes min_compatible n =
     (if \<not> uc_frozen c then (Inr (Inl Not_Frozen), n)
      else if uc_current c = [] \<or> uc_current c = dev_version then (Inr (Inl No_Version), n)
      else if \<not> is_file (uc_exe c) n then (Inr (Inl No_Program), n)
      else
        (let dest = uc_dist c @ ''/'' @ uc_current c @ ''/'' @ base_name (uc_exe c) in
         case copy_file y (uc_exe c) dest n of
           (Inl x, n1) \<Rightarrow> (Inl x, n1)
         | (Inr _, n1) \<Rightarrow>
             (let packed = or_empty (dict_get (inst_files n1) dest);
                  manifest = [(''version'', PStr (uc_current c)), (''exe_name'', PStr (base_name (uc_exe c))),
                    (''exe_sha256'', PStr (us_digest y packed)), (''size'', PInt (int (length packed))),
                    (''notes'', notes), (''min_compatible'', min_compatible)]
              in (Inr (Inr manifest), put_file (uc_dist c @ ''/'' @ uc_current c @ ''/manifest.json'') (dump manifest) n1))))"

text \<open>The state, whether the version of the state is downloaded, and the offers of the last search.\<close>

definition update_status ::
  "update_config \<Rightarrow> update_net \<Rightarrow> updater \<Rightarrow> installation \<Rightarrow> exn + pyval \<times> bool \<times> offer list" where
  "update_status c w u n =
     bind_sum (load_state n) (\<lambda>d.
     Inr (if d = [] then PNone else PDict d,
          flag d ''to'' \<and> is_file (staged_path c (un_text w (get_default d ''to'' PNone))) n, ud_offers u))"

section \<open>Starts that fail\<close>

text \<open>The starts of a node, each at its time, when nothing confirms them.\<close>

definition boots :: "update_system \<Rightarrow> update_config \<Rightarrow> real list \<Rightarrow> installation \<Rightarrow> installation" where
  "boots y c ts n = fold (\<lambda>t m. snd (start_updater y c t m)) ts n"

lemma boots_simps [simp]:
  "boots y c [] n = n"
  "boots y c (t # ts) n = boots y c ts (snd (start_updater y c t n))"
  by (simp_all add: boots_def)

lemmas file_defs = is_file_def put_file_def remove_file_def copy_file_def move_file_def emit_def save_state_def

lemma flag_set [simp]: "flag (dict_set k v d) j \<longleftrightarrow> (if j = k then truthy v else flag d j)"
  by (simp add: flag_def get_default_def)

lemma get_default_set [simp]: "get_default (dict_set k v d) j x = (if j = k then v else get_default d j x)"
  by (simp add: get_default_def)

lemma path_value_set [simp]: "j \<noteq> k \<Longrightarrow> path_value (dict_set k v d) j = path_value d j"
  by (simp add: path_value_def)

text \<open>A node that has to roll back: the start was not confirmed, the attempts are used up and the old program is there.\<close>

definition must_roll_back :: "string \<Rightarrow> string \<Rightarrow> string \<Rightarrow> installation \<Rightarrow> bool" where
  "must_roll_back exe old prog n \<longleftrightarrow>
     (case inst_state n of
        Some (PDict d) \<Rightarrow>
          awaiting d \<and> (\<exists>k \<ge> 2. get_default d ''attempts'' (PInt 0) = PInt k)
          \<and> path_value d ''exe'' = Inr exe \<and> path_value d ''old_exe'' = Inr old \<and> dict_get d ''to'' \<noteq> None
          \<and> (\<exists>vs. get_default d ''locked_versions'' (PList []) = PList vs)
      | _ \<Rightarrow> False)
     \<and> is_file exe n \<and> dict_get (inst_files n) old = Some prog"

text \<open>The system lets the rollback happen.\<close>

definition rollback_works :: "update_system \<Rightarrow> string \<Rightarrow> string \<Rightarrow> bool" where
  "rollback_works y exe old \<longleftrightarrow>
     exe \<noteq> [] \<and> old \<noteq> exe \<and> old \<noteq> exe @ ''.failed'' \<and> us_move y exe (exe @ ''.failed'') \<and> us_copy y old exe = Copied \<and> us_popen y exe"

lemma start_rolls_back:
  assumes "must_roll_back exe old prog n" and "rollback_works y exe old"
  shows "must_roll_back exe old prog (snd (start_updater y c t n))
    \<and> dict_get (inst_files (snd (start_updater y c t n))) exe = Some prog
    \<and> inst_events (snd (start_updater y c t n)) = inst_events n @ [Starts exe, Exits]"
proof -
  obtain d where st: "inst_state n = Some (PDict d)" "awaiting d" "path_value d ''exe'' = Inr exe" "path_value d ''old_exe'' = Inr old"
    using assms(1) by (auto simp: must_roll_back_def split: option.splits pyval.splits)
  obtain k vs v where d: "2 \<le> k" "get_default d ''attempts'' (PInt 0) = PInt k" "dict_get d ''to'' = Some v"
    "get_default d ''locked_versions'' (PList []) = PList vs"
    using assms(1) st by (auto simp: must_roll_back_def)
  obtain cur where files: "dict_get (inst_files n) exe = Some cur" "dict_get (inst_files n) old = Some prog"
    using assms(1) by (auto simp: must_roll_back_def is_file_def)
  show ?thesis
    using assms(2) st d files
    by (auto simp: start_updater_def load_state_def max_attempts_def do_rollback_def file_defs rollback_works_def Let_def
      locked_add_def must_roll_back_def awaiting_def)
qed

lemma rollbacks_forever:
  assumes "must_roll_back exe old prog n" and "rollback_works y exe old"
  shows "must_roll_back exe old prog (boots y c ts n)
    \<and> inst_events (boots y c ts n) = inst_events n @ concat (replicate (length ts) [Starts exe, Exits])
    \<and> (ts \<noteq> [] \<longrightarrow> dict_get (inst_files (boots y c ts n)) exe = Some prog)"
  using assms(1)
proof (induction ts arbitrary: n)
  case (Cons t ts)
  with start_rolls_back [OF Cons.prems assms(2), of c t] Cons.IH [of "snd (start_updater y c t n)"] show ?case
    by (cases "ts = []") auto
qed simp

lemma unconfirmed_start:
  assumes "inst_state n = Some (PDict d)" and "awaiting d" and "get_default d ''attempts'' (PInt 0) = PInt k" and "k < 2"
  shows "start_updater y c t n =
    (Inr (), normal_start c (emit (Confirm_After (max 5 (uc_health c)))
       (save_state (dict_set ''attempt_started_at'' (PFloat t) (dict_set ''attempts'' (PInt (k + 1)) d)) n)))"
  using assms by (simp add: start_updater_def load_state_def max_attempts_def)

lemma normal_start_rest [simp]:
  "inst_files (normal_start c n) = inst_files n" "inst_state (normal_start c n) = inst_state n"
  "inst_files (emit v n) = inst_files n" "inst_state (emit v n) = inst_state n"
  "inst_files (save_state d n) = inst_files n" "inst_state (save_state d n) = Some (PDict d)"
  by (simp_all add: normal_start_def emit_def save_state_def)

lemma two_boots:
  fixes y :: update_system and r t :: real
  assumes "inst_state n = Some (PDict (update_state c ver since))"
  defines "m \<equiv> boots y c [r, t] n"
  shows "inst_files m = inst_files n
    \<and> (\<exists>d. inst_state m = Some (PDict d) \<and> awaiting d \<and> get_default d ''attempts'' (PInt 0) = PInt 2
          \<and> path_value d ''exe'' = Inr (uc_exe c) \<and> path_value d ''old_exe'' = Inr (uc_exe c @ ''.old'')
          \<and> dict_get d ''to'' = Some (PStr ver) \<and> get_default d ''locked_versions'' (PList []) = PList [])"
proof -
  let ?d = "\<lambda>t k d. dict_set ''attempt_started_at'' (PFloat t) (dict_set ''attempts'' (PInt k) d)"
  let ?s = "update_state c ver since"
  have facts: "awaiting ?s" "get_default ?s ''attempts'' (PInt 0) = PInt 0" "dict_get ?s ''to'' = Some (PStr ver)"
    "get_default ?s ''locked_versions'' (PList []) = PList []"
    "path_value ?s ''exe'' = Inr (uc_exe c)" "path_value ?s ''old_exe'' = Inr (uc_exe c @ ''.old'')"
    by (auto simp: update_state_def awaiting_def flag_def get_default_def path_value_def py_or_def)
  have one: "awaiting (?d r 1 ?s)" "get_default (?d r 1 ?s) ''attempts'' (PInt 0) = PInt 1"
    using facts(1) by (simp_all add: awaiting_def)
  have m: "m = snd (start_updater y c t (snd (start_updater y c r n)))"
    by (simp add: m_def)
  have first: "snd (start_updater y c r n)
      = normal_start c (emit (Confirm_After (max 5 (uc_health c))) (save_state (?d r 1 ?s) n))"
    using unconfirmed_start [OF assms(1) facts(1,2), of y c r] by simp
  have second: "m = normal_start c (emit (Confirm_After (max 5 (uc_health c)))
      (save_state (?d t 2 (?d r 1 ?s)) (snd (start_updater y c r n))))"
    unfolding m using unconfirmed_start [of "snd (start_updater y c r n)" "?d r 1 ?s" 1 y c t] one first by simp
  show ?thesis
    unfolding second using facts by (simp add: first awaiting_def)
qed

text \<open>C20: 
  An update whose starts are never confirmed: the third start puts the old program back, restarts it and exits, but the
  state stays as it is, so every later start, which is one of the old program, does the same again. The node is never up.
\<close>

theorem rollback_never_ends:
  fixes y :: update_system and c :: update_config and n :: installation
  assumes "inst_state n = Some (PDict (update_state c ver since))"
    and "dict_get (inst_files n) (uc_exe c) = Some new" and "dict_get (inst_files n) (uc_exe c @ ''.old'') = Some prog"
    and "rollback_works y (uc_exe c) (uc_exe c @ ''.old'')"
  shows "dict_get (inst_files (boots y c (t1 # t2 # t3 # ts) n)) (uc_exe c) = Some prog
    \<and> inst_events (boots y c (t1 # t2 # t3 # ts) n)
        = inst_events (boots y c [t1, t2] n) @ concat (replicate (length (t3 # ts)) [Starts (uc_exe c), Exits])"
proof -
  let ?m = "boots y c [t1, t2] n"
  have "must_roll_back (uc_exe c) (uc_exe c @ ''.old'') prog ?m"
    using two_boots [OF assms(1), where y = y and r = t1 and t = t2] assms(2,3) by (auto simp: must_roll_back_def is_file_def)
  moreover have "boots y c (t1 # t2 # t3 # ts) n = boots y c (t3 # ts) ?m" by (simp only: boots_simps)
  ultimately show ?thesis
    using rollbacks_forever [of _ _ _ _ y c "t3 # ts"] assms(4) by (metis list.distinct(1))
qed

definition ex_update_config :: update_config where
  "ex_update_config = \<lparr>uc_frozen = True, uc_exe = ''C:/n/node.exe'', uc_current = ''1.0.0'', uc_exe_name = ''node.exe'',
     uc_downloads = ''C:/n/downloads'', uc_work_dir = ''C:/n'', uc_dist = ''C:/n/dist'', uc_pid = 7, uc_enabled = True,
     uc_auto_check = True, uc_require_signed = False, uc_allow_downgrade = False, uc_sources = [(''hub'', ''releases'')],
     uc_health = 90\<rparr>"

definition ex_update_system :: update_system where
  "ex_update_system = \<lparr>us_copy = (\<lambda>_ _. Copied), us_move = (\<lambda>_ _. True), us_unlink = (\<lambda>_. True), us_reads = (\<lambda>_. True), us_popen = (\<lambda>_. True),
     us_digest = (\<lambda>b. b @ ''!''), us_signature = (\<lambda>b. (b = ''good'', []))\<rparr>"

theorem rollback_never_ends_witness:
  "inst_events (boots ex_update_system ex_update_config [1, 2, 3, 4, 5]
     \<lparr>inst_files = [(''C:/n/node.exe'', ''new''), (''C:/n/node.exe.old'', ''old'')],
      inst_state = Some (PDict (update_state ex_update_config ''1.1.0'' 0)), inst_events = []\<rparr>)
   = [Confirm_After 90, Check_Loop, Confirm_After 90, Check_Loop, Starts ''C:/n/node.exe'', Exits, Starts ''C:/n/node.exe'', Exits,
      Starts ''C:/n/node.exe'', Exits]"
proof -
  let ?n = "\<lparr>inst_files = [(''C:/n/node.exe'', ''new''), (''C:/n/node.exe.old'', ''old'')],
      inst_state = Some (PDict (update_state ex_update_config ''1.1.0'' 0)), inst_events = []\<rparr>"
  have exe: "uc_exe ex_update_config = ''C:/n/node.exe''" by (simp add: ex_update_config_def)
  have first: "inst_events (boots ex_update_system ex_update_config [1, 2] ?n)
      = [Confirm_After 90, Check_Loop, Confirm_After 90, Check_Loop]"
    by code_simp
  have "inst_events (boots ex_update_system ex_update_config (1 # 2 # 3 # [4, 5]) ?n)
      = inst_events (boots ex_update_system ex_update_config [1, 2] ?n)
        @ concat (replicate (length (3 # [4, 5])) [Starts (uc_exe ex_update_config), Exits])"
    using rollback_never_ends [of ?n ex_update_config "''1.1.0''" 0 "''new''" "''old''" ex_update_system 1 2 3 "[4, 5]"]
    by (simp del: boots_simps add: exe rollback_works_def ex_update_system_def)
  then show ?thesis unfolding first exe by (simp del: boots_simps)
qed

section \<open>What is installed\<close>

lemma copy_file_cases:
  assumes "copy_file y src dst n = (r, m)"
  obtains (done_) b where "r = Inr ()" "dict_get (inst_files n) src = Some b" "m = put_file dst b n"
    | (failed) "r = Inl os_error" "m = n \<or> (\<exists>part. us_copy y src dst = Copy_Failed (Some part) \<and> m = put_file dst part n)"
  using assms by (auto simp: copy_file_def split: option.splits copy_result.splits)

lemma file_put [simp]: "dict_get (inst_files (put_file p b n)) q = (if q = p then Some b else dict_get (inst_files n) q)"
  by (simp add: put_file_def)

lemma file_remove [simp]: "dict_get (inst_files (remove_file p n)) q = (if q = p then None else dict_get (inst_files n) q)"
  by (simp add: remove_file_def)

lemma install_done:
  assumes "install y c now ver info n = (Inr (), m)" and "staged_path c ver \<noteq> updater_exe_path (uc_exe c)"
  shows "digest_fits y (case info of None \<Rightarrow> PNone | Some r \<Rightarrow> get_default (rl_manifest r) ''exe_sha256'' PNone) (staged_path c ver) m
    \<and> (uc_require_signed c \<longrightarrow> fst (us_signature y (or_empty (dict_get (inst_files m) (staged_path c ver)))))
    \<and> inst_state m = Some (PDict (update_state c ver now))
    \<and> dict_get (inst_files m) (updater_exe_path (uc_exe c)) = dict_get (inst_files n) (uc_exe c)"
  using assms
  by (auto simp: install_def Let_def digest_fits_def split: if_splits prod.splits elim!: copy_file_cases)

lemma apply_done:
  assumes "apply_update y w g c now (Some ver) force u n = (Inr (Inr ()), u', n')"
  shows "validate_transition (uc_current c) ver (uc_allow_downgrade c) force = None
    \<and> (\<exists>m. install y c now ver (get_opt (ud_known u) (Some ver)) m = (Inr (), n'))"
  using assms
  by (auto simp: apply_update_def Let_def or_empty_def split: if_splits option.splits sum.splits prod.splits)

text \<open>C1: 
  An update that is started is a version other than the running one, newer unless downgrades are allowed or forced, its file
  carries a signature that is accepted when signatures are required, and when the version was known from a search before
  the request and its manifest has a digest, the file has this digest.
\<close>

theorem update_is_what_was_offered:
  assumes "apply_update y w g c now (Some ver) force u n = (Inr (Inr ()), u', n')"
    and "get_opt (ud_known u) (Some ver) = Some info" and "truthy (get_default (rl_manifest info) ''exe_sha256'' PNone)"
    and "staged_path c ver \<noteq> updater_exe_path (uc_exe c)"
  shows "compare_versions ver (uc_current c) \<noteq> 0 \<and> (is_newer ver (uc_current c) \<or> uc_allow_downgrade c \<or> force)
    \<and> map_option (PStr \<circ> us_digest y) (dict_get (inst_files n') (staged_path c ver))
        = Some (get_default (rl_manifest info) ''exe_sha256'' PNone)
    \<and> (\<not> uc_require_signed c \<or> fst (us_signature y (or_empty (dict_get (inst_files n') (staged_path c ver)))))"
proof -
  obtain m where m: "install y c now ver (Some info) m = (Inr (), n')"
    and v: "validate_transition (uc_current c) ver (uc_allow_downgrade c) force = None"
    using apply_done [OF assms(1)] assms(2) by auto
  show ?thesis
    using install_done [OF m assms(4)] v assms(3) by (auto simp: digest_fits_def validate_transition_def split: if_splits)
qed

text \<open>
  A version that the node has not seen in a search before the request is looked up, but its manifest is not used: when a file
  of its name is there, it is installed whatever its digest is. No digest is computed at all.
\<close>

theorem unseen_version_is_not_checked:
  assumes "get_opt (ud_known u) (Some ver) = None" and "is_file (staged_path c ver) n"
  shows "apply_update (y\<lparr>us_digest := h\<rparr>) w g c now (Some ver) force u n = apply_update y w g c now (Some ver) force u n"
proof -
  have "install (y\<lparr>us_digest := h\<rparr>) c now ver None m = install y c now ver None m" for m
    by (auto simp: install_def digest_fits_def copy_file_def Let_def split: prod.splits option.splits copy_result.splits)
  with assms show ?thesis
    by (simp add: apply_update_def Let_def split: option.splits sum.splits prod.splits)
qed

text \<open>What a download reports as complete has the digest of the manifest, however long it took and whatever was there.\<close>

lemma wait_staged_fits:
  "wait_staged y g expected p i k n = (Inr q, m) \<Longrightarrow> q = p \<and> is_file p m \<and> digest_fits y expected p m"
  by (induction y g expected p i k n rule: wait_staged.induct)
    (auto simp: check_staged_def split: if_splits option.splits)

section \<open>The replacement of the program\<close>

lemma rollback_binary_files:
  "inst_files (rollback_binary y upd exe n) = inst_files (snd (copy_file y upd exe n))"
  by (auto simp: rollback_binary_def emit_def split: prod.splits sum.splits)

lemma replace_binary_program:
  assumes "replace_binary y exe staged n = (ok, m)" and "exe \<noteq> staged" and "exe @ ''.old'' \<noteq> staged"
    and "dict_get (inst_files n) exe = Some a" and "dict_get (inst_files n) staged = Some b"
    and "\<And>part. us_copy y staged exe \<noteq> Copy_Failed (Some part)" and "us_move y (exe @ ''.old'') exe"
  shows "(if us_reads y exe \<and> us_reads y staged then dict_get (inst_files m) exe = Some (if ok then b else a)
      else \<not> ok \<and> dict_get (inst_files m) exe \<in> {Some a, Some b})
    \<and> (\<forall>p. p \<noteq> exe \<longrightarrow> p \<noteq> exe @ ''.old'' \<longrightarrow> dict_get (inst_files m) p = dict_get (inst_files n) p)
    \<and> inst_state m = inst_state n"
proof -
  let ?n1 = "if us_unlink y (exe @ ''.old'') then remove_file (exe @ ''.old'') n else n"
  have n1: "dict_get (inst_files ?n1) exe = Some a" "dict_get (inst_files ?n1) staged = Some b" "inst_state ?n1 = inst_state n"
    "\<And>p. p \<noteq> exe @ ''.old'' \<Longrightarrow> dict_get (inst_files ?n1) p = dict_get (inst_files n) p"
    using assms(3-5) by (auto simp: remove_file_def)
  obtain n1 where n1_def: "n1 = ?n1" by blast
  note n1 = n1 [folded n1_def]
  have r: "replace_binary y exe staged n =
     (case move_file y exe (exe @ ''.old'') n1 of
        (Inl _, n2) \<Rightarrow> (False, n2)
      | (Inr _, n2) \<Rightarrow>
          (case copy_file y staged exe n2 of
             (Inl _, n3) \<Rightarrow>
               if is_file (exe @ ''.old'') n3 \<and> \<not> is_file exe n3 then (False, snd (move_file y (exe @ ''.old'') exe n3)) else (False, n3)
           | (Inr _, n3) \<Rightarrow>
               if \<not> us_reads y exe \<or> \<not> us_reads y staged then (False, n3)
               else if us_digest y (or_empty (dict_get (inst_files n3) exe)) \<noteq> us_digest y (or_empty (dict_get (inst_files n3) staged))
               then (False, snd (move_file y (exe @ ''.old'') exe n3))
               else (True, n3)))"
    using assms(4,5) n1 by (auto simp: replace_binary_def is_file_def n1_def [symmetric] Let_def split: prod.splits sum.splits)
  show ?thesis
  proof (cases "us_move y exe (exe @ ''.old'')")
    case False
    then have "(ok, m) = (False, n1)" using r n1 assms(1) by (simp add: move_file_def)
    then show ?thesis using n1 by simp
  next
    case True
    let ?n2 = "put_file (exe @ ''.old'') a (remove_file exe n1)"
    have moved: "move_file y exe (exe @ ''.old'') n1 = (Inr (), ?n2)" using True n1 by (simp add: move_file_def)
    have there: "dict_get (inst_files ?n2) staged = Some b" "dict_get (inst_files ?n2) (exe @ ''.old'') = Some a"
      "dict_get (inst_files ?n2) exe = None" "inst_state ?n2 = inst_state n"
      using n1 assms(2,3) by (simp_all add: put_file_def remove_file_def)
    have put_back: "snd (move_file y (exe @ ''.old'') exe k) = put_file exe a (remove_file (exe @ ''.old'') k)"
      if "dict_get (inst_files k) (exe @ ''.old'') = Some a" for k
      using that assms(7) by (simp add: move_file_def)
    show ?thesis
    proof (cases "us_copy y staged exe")
      case Copied
      let ?n3 = "put_file exe b ?n2"
      have "copy_file y staged exe ?n2 = (Inr (), ?n3)" using Copied there by (simp add: copy_file_def)
      moreover have "dict_get (inst_files ?n3) exe = Some b" "dict_get (inst_files ?n3) (exe @ ''.old'') = Some a"
        "inst_state ?n3 = inst_state n" using there by (simp_all add: put_file_def)
      ultimately have "(ok, m) = (False, ?n3) \<and> \<not> (us_reads y exe \<and> us_reads y staged)
          \<or> (ok, m) = (False, put_file exe a (remove_file (exe @ ''.old'') ?n3))
          \<or> (ok, m) = (True, ?n3) \<and> us_reads y exe \<and> us_reads y staged"
        using assms(1) put_back [of ?n3] by (auto simp: r moved split: if_splits)
      then show ?thesis using n1 there by (auto simp: put_file_def remove_file_def)
    next
      case (Copy_Failed part)
      then have "copy_file y staged exe ?n2 = (Inl os_error, ?n2)" using assms(6) there by (cases part) (simp_all add: copy_file_def)
      then have "(ok, m) = (False, put_file exe a (remove_file (exe @ ''.old'') ?n2))"
        using assms(1) put_back [of ?n2] there by (simp add: r moved is_file_def)
      then show ?thesis using n1 there by (auto simp: put_file_def remove_file_def)
    qed
  qed
qed

text \<open>C2: 
  Whatever happens while a program is replaced, started and watched, a whole program is at its place afterwards: the new one
  exactly when the exit code is 0, else the old one. That is, provided that a copy that fails leaves its target alone, that
  the program that was set aside can be moved back and that the copy of the updater can be copied back. When a digest cannot be
  read the code is 2 and either of the two programs can be there.
\<close>

theorem program_survives:
  assumes "updater_main y upd exe staged looks now n = (code, m)"
    and "dict_get (inst_files n) exe = Some a" and "dict_get (inst_files n) upd = Some a" and "dict_get (inst_files n) staged = Some b"
    and "exe \<notin> {staged, upd}" and "exe @ ''.old'' \<notin> {staged, upd}"
    and "\<And>part. us_copy y staged exe \<noteq> Copy_Failed (Some part)" and "us_move y (exe @ ''.old'') exe" and "us_copy y upd exe = Copied"
  shows "if us_reads y exe \<and> us_reads y staged
    then code \<in> {0, 2, 3, 4} \<and> dict_get (inst_files m) exe = Some (if code = 0 then b else a)
    else code = 2 \<and> dict_get (inst_files m) exe \<in> {Some a, Some b}"
proof -
  obtain ok k where r: "replace_binary y exe staged n = (ok, k)" by fastforce
  have apart: "exe \<noteq> staged" "exe @ ''.old'' \<noteq> staged" "upd \<noteq> exe" "upd \<noteq> exe @ ''.old''"
    using assms(5,6) by auto
  note P = replace_binary_program [OF r apart(1,2) assms(2,4,7,8)]
  show ?thesis
  proof (cases "us_reads y exe \<and> us_reads y staged")
    case True
    then have k: "dict_get (inst_files k) exe = Some (if ok then b else a)" "dict_get (inst_files k) upd = Some a"
      using P assms(3) apart by simp_all
    let ?k = "emit (Launches [exe]) k"
    have restored: "dict_get (inst_files (rollback_binary y upd exe k)) exe = Some a"
      "dict_get (inst_files (rollback_binary y upd exe ?k)) exe = Some a"
      using k(2) assms(9) by (simp_all add: rollback_binary_files copy_file_def)
    consider (kept) "\<not> ok" | (dead) "ok" "\<not> us_popen y exe" | (died) "ok" "us_popen y exe" "False \<in> set looks"
      | (up) "ok" "us_popen y exe" "False \<notin> set looks" by blast
    then show ?thesis
      using True assms(1) k(1) restored unfolding updater_main_def r Let_def
      by cases (auto split: option.splits pyval.splits)
  next
    case False
    then have "\<not> ok" "dict_get (inst_files k) exe \<in> {Some a, Some b}" using conjunct1 [OF P] by (simp_all only: if_False simp_thms)
    then have "(code, m) = (2, k)" using assms(1) by (simp add: updater_main_def r)
    with False \<open>dict_get (inst_files k) exe \<in> {Some a, Some b}\<close> show ?thesis by (simp only: if_False prod.inject)
  qed
qed

text \<open>
  When the digest cannot be read after the copy, the process ends as after a failed update (code 2, nothing is started, the state
  is not touched) and leaves the new, unchecked program in place of the old one.
\<close>

theorem unread_digest_keeps_new_program:
  assumes "dict_get (inst_files n) exe = Some a" and "dict_get (inst_files n) staged = Some b" and "exe \<noteq> staged" and "exe @ ''.old'' \<noteq> staged"
    and "us_move y exe (exe @ ''.old'')" and "us_copy y staged exe = Copied" and "\<not> us_reads y staged"
  shows "fst (updater_main y upd exe staged looks now n) = 2
    \<and> dict_get (inst_files (snd (updater_main y upd exe staged looks now n))) exe = Some b
    \<and> inst_events (snd (updater_main y upd exe staged looks now n)) = inst_events n"
  using assms
  by (auto simp: updater_main_def replace_binary_def Let_def is_file_def copy_file_def move_file_def put_file_def remove_file_def)

text \<open>
  When the copy of the new program breaks off in the middle (a full disk), what was copied stays in place of the program: the
  file exists, so the old one is not put back, the process ends with code 2 and starts nothing.
\<close>

theorem broken_copy_stays:
  assumes "dict_get (inst_files n) exe = Some a" and "dict_get (inst_files n) staged = Some b" and "exe \<noteq> staged" and "exe @ ''.old'' \<noteq> staged"
    and "us_move y exe (exe @ ''.old'')" and "us_copy y staged exe = Copy_Failed (Some part)"
  shows "fst (updater_main y upd exe staged looks now n) = 2
    \<and> dict_get (inst_files (snd (updater_main y upd exe staged looks now n))) exe = Some part
    \<and> inst_events (snd (updater_main y upd exe staged looks now n)) = inst_events n"
  using assms
  by (auto simp: updater_main_def replace_binary_def Let_def is_file_def copy_file_def move_file_def put_file_def remove_file_def)

lemma rollback_binary_state [simp]: "inst_state (rollback_binary y upd exe n) = inst_state n"
  by (auto simp: rollback_binary_def copy_file_def emit_def put_file_def split: option.splits copy_result.splits)

lemma failed_update_state: "updater_main y upd exe staged looks now n = (code, m) \<Longrightarrow> code \<noteq> 0 \<Longrightarrow> inst_state m = inst_state n"
  by (auto simp: updater_main_def replace_binary_def Let_def copy_file_def move_file_def put_file_def remove_file_def emit_def
    split: if_splits option.splits copy_result.splits pyval.splits)

text \<open>C21: 
  A failed update is confirmed by the program it was rolled back to: the state still waits for a confirmation, the old program
  takes itself for the new one, and after its delay the state says that the new version was started.
\<close>

theorem rolled_back_update_is_confirmed:
  fixes y :: update_system and c :: update_config and n :: installation
  assumes "inst_state n = Some (PDict (update_state c ver since))"
    and "updater_main y upd (uc_exe c) staged looks now n = (code, m)" and "code \<noteq> 0"
  shows "\<exists>d. inst_state (snd (confirm_boot t (snd (start_updater y c s m)))) = Some (PDict d)
    \<and> flag d ''boot_ok'' \<and> dict_get d ''to'' = Some (PStr ver)"
proof -
  let ?s = "update_state c ver since"
  have facts: "awaiting ?s" "get_default ?s ''attempts'' (PInt 0) = PInt 0" "dict_get ?s ''to'' = Some (PStr ver)"
    by (auto simp: update_state_def awaiting_def flag_def get_default_def)
  have "inst_state m = Some (PDict ?s)" using failed_update_state [OF assms(2,3)] assms(1) by simp
  then show ?thesis
    using unconfirmed_start [of m ?s 0 y c s] facts by (simp add: confirm_boot_def load_state_def awaiting_def)
qed

text \<open>
  While an update waits for its confirmation no other is installed: a request changes nothing but what a search found. That
  includes an update whose process could not be started at all, since its state is written before and not taken back.
\<close>

theorem one_update_at_a_time:
  assumes "inst_state n = Some (PDict d)" and "awaiting d"
  shows "snd (snd (apply_update y w g c now version force u n)) = n
    \<and> (\<exists>e. fst (apply_update y w g c now version force u n) = Inr (Inl e))"
  using assms by (auto simp: apply_update_def load_state_def split: option.splits)

theorem failed_launch_blocks_updates:
  assumes "install y c now ver info n = (Inl No_Launch, m)"
  shows "\<exists>e. fst (apply_update y' w g c' later version force u m) = Inr (Inl e)"
proof -
  have "inst_state m = Some (PDict (update_state c ver now))"
    using assms by (auto simp: install_def Let_def remove_file_def split: if_splits prod.splits sum.splits)
  moreover have "awaiting (update_state c ver now)" by (simp add: update_state_def awaiting_def flag_def get_default_def)
  ultimately show ?thesis by (auto simp: apply_update_def load_state_def split: option.splits)
qed

section \<open>Examples\<close>

definition ex_update_net :: update_net where
  "ex_update_net = \<lparr>
     un_call = (\<lambda>dst q v.
       if q = ''find'' then Inr (PDict [(''ok'', PBool True), (''entries'', PList [PDict [(''path'', PStr ''1.1.0/manifest.json'')]])])
       else if q = ''read'' then Inr (PDict [(''ok'', PBool True), (''data'', PBytes ''m'')])
       else Inr (PDict [(''ok'', PBool True), (''label'', PStr ''l'')])),
     un_json = (\<lambda>b. Some (PDict [(''version'', PStr ''1.1.0''), (''exe_sha256'', PStr ''good!'')])),
     un_text = (\<lambda>v. case v of PStr t \<Rightarrow> t | _ \<Rightarrow> []), un_error = (\<lambda>_. ''error''), un_self = [''me''], un_hosts = []\<rparr>"

definition ex_progress :: "string \<Rightarrow> progress" where
  "ex_progress b = \<lparr>ug_files = (\<lambda>i d. if i = 3 then dict_set ''C:/n/downloads/1.1.0_node.exe'' b d else d), ug_failed = (\<lambda>_. None)\<rparr>"

definition ex_installation :: "(string, string) dict \<Rightarrow> installation" where
  "ex_installation d = \<lparr>inst_files = (''C:/n/node.exe'', ''old'') # d, inst_state = None, inst_events = []\<rparr>"

definition ex_updater :: updater where
  "ex_updater = \<lparr>ud_known = [], ud_offers = [], ud_errors = []\<rparr>"

definition ex_seen :: updater where
  "ex_seen = snd (check_updates ex_update_net ex_update_config None ex_updater)"

text \<open>A whole update: searched, downloaded in the third pause, checked, replaced.\<close>

definition ex_applied :: "(exn + update_error + unit) \<times> updater \<times> installation" where
  "ex_applied = apply_update ex_update_system ex_update_net (ex_progress ''good'') ex_update_config 5 (Some ''1.1.0'') False ex_seen
     (ex_installation [])"

lemma ex_applied_works: "fst ex_applied = Inr (Inr ())"
  by code_simp

theorem update_is_what_was_offered_witness:
  "map_option (PStr \<circ> us_digest ex_update_system)
     (dict_get (inst_files (snd (snd ex_applied))) (staged_path ex_update_config ''1.1.0'')) = Some (PStr ''good!'')"
proof -
  have a: "apply_update ex_update_system ex_update_net (ex_progress ''good'') ex_update_config 5 (Some ''1.1.0'') False ex_seen
      (ex_installation []) = (Inr (Inr ()), fst (snd ex_applied), snd (snd ex_applied))"
    using ex_applied_works by (simp add: ex_applied_def prod_eq_iff)
  have k: "map_option (\<lambda>r. get_default (rl_manifest r) ''exe_sha256'' PNone) (get_opt (ud_known ex_seen) (Some ''1.1.0''))
      = Some (PStr ''good!'')" by code_simp
  then obtain info where i: "get_opt (ud_known ex_seen) (Some ''1.1.0'') = Some info"
    "get_default (rl_manifest info) ''exe_sha256'' PNone = PStr ''good!''" by auto
  have p: "staged_path ex_update_config ''1.1.0'' \<noteq> updater_exe_path (uc_exe ex_update_config)" by code_simp
  show ?thesis
    using update_is_what_was_offered [OF a i(1) _ p] i(2) by simp
qed

text \<open>The same node before any search installs what lies there under the name, \<open>bad\<close> as well.\<close>

theorem unseen_version_is_not_checked_witness:
  "apply_update (ex_update_system\<lparr>us_digest := (\<lambda>_. ''another'')\<rparr>) ex_update_net (ex_progress []) ex_update_config 5 (Some ''1.1.0'')
      False ex_updater (ex_installation [(''C:/n/downloads/1.1.0_node.exe'', ''bad'')])
    = apply_update ex_update_system ex_update_net (ex_progress []) ex_update_config 5 (Some ''1.1.0'') False ex_updater
        (ex_installation [(''C:/n/downloads/1.1.0_node.exe'', ''bad'')])
   \<and> fst (apply_update ex_update_system ex_update_net (ex_progress []) ex_update_config 5 (Some ''1.1.0'') False ex_updater
        (ex_installation [(''C:/n/downloads/1.1.0_node.exe'', ''bad'')])) = Inr (Inr ())"
proof
  have "get_opt (ud_known ex_updater) (Some ''1.1.0'') = None"
    "is_file (staged_path ex_update_config ''1.1.0'') (ex_installation [(''C:/n/downloads/1.1.0_node.exe'', ''bad'')])"
    by code_simp+
  then show "apply_update (ex_update_system\<lparr>us_digest := (\<lambda>_. ''another'')\<rparr>) ex_update_net (ex_progress []) ex_update_config 5
      (Some ''1.1.0'') False ex_updater (ex_installation [(''C:/n/downloads/1.1.0_node.exe'', ''bad'')])
    = apply_update ex_update_system ex_update_net (ex_progress []) ex_update_config 5 (Some ''1.1.0'') False ex_updater
        (ex_installation [(''C:/n/downloads/1.1.0_node.exe'', ''bad'')])"
    by (rule unseen_version_is_not_checked)
  show "fst (apply_update ex_update_system ex_update_net (ex_progress []) ex_update_config 5 (Some ''1.1.0'') False ex_updater
        (ex_installation [(''C:/n/downloads/1.1.0_node.exe'', ''bad'')])) = Inr (Inr ())"
    by code_simp
qed

definition ex_staged :: installation where
  "ex_staged = \<lparr>inst_files = [(''e'', ''old''), (''e_update.exe'', ''old''), (''s'', ''new'')], inst_state = None, inst_events = []\<rparr>"

theorem program_survives_witness:
  "dict_get (inst_files (snd (updater_main ex_update_system ''e_update.exe'' ''e'' ''s'' [True, False] 0 ex_staged))) ''e'' = Some ''old''
   \<and> dict_get (inst_files (snd (updater_main ex_update_system ''e_update.exe'' ''e'' ''s'' [True, True] 0 ex_staged))) ''e'' = Some ''new''"
proof -
  have "fst (updater_main ex_update_system ''e_update.exe'' ''e'' ''s'' [True, False] 0 ex_staged) = 4"
    "fst (updater_main ex_update_system ''e_update.exe'' ''e'' ''s'' [True, True] 0 ex_staged) = 0"
    by code_simp+
  moreover have "dict_get (inst_files (snd (updater_main ex_update_system ''e_update.exe'' ''e'' ''s'' looks 0 ex_staged))) ''e''
      = Some (if fst (updater_main ex_update_system ''e_update.exe'' ''e'' ''s'' looks 0 ex_staged) = 0 then ''new'' else ''old'')" for looks
    using program_survives [where y = ex_update_system and upd = "''e_update.exe''" and exe = "''e''" and staged = "''s''"
      and looks = looks and now = 0 and n = ex_staged and a = "''old''" and b = "''new''", OF surjective_pairing]
    by (simp add: ex_staged_def ex_update_system_def)
  ultimately show ?thesis by simp
qed

theorem unread_digest_keeps_new_program_witness:
  "dict_get (inst_files (snd (updater_main (ex_update_system\<lparr>us_reads := (\<lambda>_. False)\<rparr>)
     ''e_update.exe'' ''e'' ''s'' [] 0 ex_staged))) ''e'' = Some ''new''"
  using unread_digest_keeps_new_program [of ex_staged "''e''" "''old''" "''s''" "''new''"
    "ex_update_system\<lparr>us_reads := (\<lambda>_. False)\<rparr>" "''e_update.exe''" "[]" 0]
  by (simp add: ex_staged_def ex_update_system_def)

theorem broken_copy_stays_witness:
  "dict_get (inst_files (snd (updater_main (ex_update_system\<lparr>us_copy := (\<lambda>_ _. Copy_Failed (Some ''ne''))\<rparr>)
     ''e_update.exe'' ''e'' ''s'' [] 0 ex_staged))) ''e'' = Some ''ne''"
  using broken_copy_stays [of ex_staged "''e''" "''old''" "''s''" "''new''"
    "ex_update_system\<lparr>us_copy := (\<lambda>_ _. Copy_Failed (Some ''ne''))\<rparr>" "''ne''" "''e_update.exe''" "[]" 0]
  by (simp add: ex_staged_def ex_update_system_def)

definition ex_updating :: installation where
  "ex_updating = save_state (update_state ex_update_config ''1.1.0'' 0) (ex_installation [(''u'', ''old''), (''s'', ''new'')])"

theorem rolled_back_update_is_confirmed_witness:
  "\<exists>d. inst_state (snd (confirm_boot 99 (snd (start_updater ex_update_system ex_update_config 9
      (snd (updater_main ex_update_system ''u'' (uc_exe ex_update_config) ''s'' [False] 0 ex_updating)))))) = Some (PDict d)
    \<and> flag d ''boot_ok'' \<and> dict_get d ''to'' = Some (PStr ''1.1.0'')"
proof -
  have code: "fst (updater_main ex_update_system ''u'' (uc_exe ex_update_config) ''s'' [False] 0 ex_updating) = 4" by code_simp
  have "inst_state ex_updating = Some (PDict (update_state ex_update_config ''1.1.0'' 0))" by (simp add: ex_updating_def)
  then show ?thesis
    by (rule rolled_back_update_is_confirmed [OF _ surjective_pairing]) (simp add: code)
qed

theorem one_update_at_a_time_witness:
  "snd (snd (apply_update ex_update_system ex_update_net (ex_progress []) ex_update_config 5 (Some ''1.2.0'') True ex_updater
     (snd (snd ex_applied)))) = snd (snd ex_applied)"
proof -
  obtain d where "inst_state (snd (snd ex_applied)) = Some (PDict d)" "awaiting d"
  proof -
    have "(case inst_state (snd (snd ex_applied)) of Some (PDict d) \<Rightarrow> awaiting d | _ \<Rightarrow> False)" by code_simp
    then show ?thesis using that by (auto split: option.splits pyval.splits)
  qed
  then show ?thesis by (rule one_update_at_a_time [THEN conjunct1])
qed

theorem failed_launch_blocks_updates_witness:
  "\<exists>e. fst (apply_update ex_update_system ex_update_net (ex_progress []) ex_update_config 6 (Some ''1.1.0'') False ex_updater
     (snd (install (ex_update_system\<lparr>us_popen := (\<lambda>_. False)\<rparr>) ex_update_config 5 ''1.1.0'' None (ex_installation [])))) = Inr (Inl e)"
proof -
  have "fst (install (ex_update_system\<lparr>us_popen := (\<lambda>_. False)\<rparr>) ex_update_config 5 ''1.1.0'' None (ex_installation [])) = Inl No_Launch"
    by code_simp
  then show ?thesis by (intro failed_launch_blocks_updates) (simp add: prod_eq_iff)
qed

end
