(* ===== verification/Ber.thy ===== *)
theory Ber
  imports Prelude "HOL-Library.Word"
begin

unbundle bit_operations_syntax

text \<open>
  The messages of the monitor to routers and switches: \<open>netpulse/infra.py\<close> (lengths, values, object identifiers, the request,
  reading an answer) and \<open>netpulse/l2map.py\<close> (\<open>snmp_getnext\<close>). Bytes are numbers below 256. \<open>None\<close> is any exception of
  the reading functions; their callers catch all of them. Numbers that are written are not negative.
\<close>

section \<open>Writing\<close>

lemma shifted_less [termination_simp]: "0 < (n::nat) \<Longrightarrow> 0 < k \<Longrightarrow> drop_bit k n < n"
proof -
  assume "0 < n" "0 < k"
  then have "1 * n < 2 ^ k * n" by (intro mult_strict_right_mono one_less_power) simp_all
  then show ?thesis by (simp add: drop_bit_eq_div div_less_iff_less_mult mult.commute)
qed

lemma shifted_less_again [termination_simp]: "0 < drop_bit k (n::nat) \<Longrightarrow> 0 < k \<Longrightarrow> drop_bit k n < n"
  by (cases "n = 0") (simp_all add: shifted_less)

text \<open>The digits of the long form of a length, and the bytes of a number; the loops stop when nothing is left.\<close>

fun length_digits :: "nat \<Rightarrow> nat list" where
  "length_digits n = (if n = 0 then [] else length_digits (drop_bit 7 n) @ [n AND 0x7F])"

declare length_digits.simps [simp del]

definition ber_len :: "nat \<Rightarrow> nat list" where
  "ber_len n =
     (if n < 0x80 then [n]
      else let out = length_digits n in (0x80 OR length out) # out)"

definition tlv :: "nat \<Rightarrow> nat list \<Rightarrow> nat list" where
  "tlv tag content = tag # ber_len (length content) @ content"

fun int_bytes :: "nat \<Rightarrow> nat list" where
  "int_bytes v = (if drop_bit 8 v = 0 then [v AND 0xFF] else int_bytes (drop_bit 8 v) @ [v AND 0xFF])"

declare int_bytes.simps [simp del]

definition int_enc :: "nat \<Rightarrow> nat list" where
  "int_enc v = (let out = int_bytes v in tlv 0x02 (if hd out AND 0x80 \<noteq> 0 then 0 # out else out))"

text \<open>One part of an identifier: seven bits in each byte, the highest bit set in all but the last.\<close>

fun part_chunk :: "nat \<Rightarrow> nat list" where
  "part_chunk p = (if p = 0 then [] else part_chunk (drop_bit 7 p) @ [(p AND 0x7F) OR 0x80])"

declare part_chunk.simps [simp del]

definition part_enc :: "nat \<Rightarrow> nat list" where
  "part_enc p =
     (if p < 0x80 then [p]
      else let chunk = part_chunk p in butlast chunk @ [List.last chunk AND 0x7F])"

definition all_nats :: "int list \<Rightarrow> nat list option" where
  "all_nats vs = (if list_all (\<lambda>v. 0 \<le> v) vs then Some (map nat vs) else None)"

fun ints_of :: "string list \<Rightarrow> int list option" where
  "ints_of [] = Some []"
| "ints_of (t # ts) =
     (case int_of_string t of
        Inl _ \<Rightarrow> None
      | Inr v \<Rightarrow> map_option (Cons v) (ints_of ts))"

definition oid_content :: "nat list \<Rightarrow> nat list option" where
  "oid_content ps =
     (case ps of
        a # b # rest \<Rightarrow> if 40 * a + b < 256 then Some ((40 * a + b) # concat (map part_enc rest)) else None
      | _ \<Rightarrow> None)"

text \<open>A negative part has no byte and raises, as does a first byte above 255.\<close>

definition oid_enc :: "string \<Rightarrow> nat list option" where
  "oid_enc oid =
     Option.bind (ints_of (split_on (CHR ''.'') (py_strip oid))) (\<lambda>vs.
     Option.bind (all_nats vs) (\<lambda>ps. map_option (tlv 0x06) (oid_content ps)))"

definition octet :: "nat list \<Rightarrow> nat list" where
  "octet s = tlv 0x04 s"

section \<open>Reading\<close>

definition from_bytes :: "nat list \<Rightarrow> nat" where
  "from_bytes bs = foldl (\<lambda>v b. v * 256 + b) 0 bs"

definition slice :: "nat list \<Rightarrow> nat \<Rightarrow> nat \<Rightarrow> nat list" where
  "slice buf from to = take (to - from) (drop from buf)"

definition tlv_parse :: "nat list \<Rightarrow> nat \<Rightarrow> (nat \<times> nat list \<times> nat) option" where
  "tlv_parse buf pos =
     (if pos + 1 < length buf then
        (let tag = buf ! pos; l = buf ! (pos + 1);
             n = l AND 0x7F;
             (ln, hlen) = (if l AND 0x80 \<noteq> 0 then (from_bytes (slice buf (pos + 2) (pos + 2 + n)), 2 + n) else (l, 2))
         in Some (tag, slice buf (pos + hlen) (pos + hlen + ln), pos + hlen + ln))
      else None)"

fun oid_parts :: "nat \<Rightarrow> nat list \<Rightarrow> nat list" where
  "oid_parts v [] = []"
| "oid_parts v (b # bs) =
     (let w = push_bit 7 v OR (b AND 0x7F)
      in if b AND 0x80 = 0 then w # oid_parts 0 bs else oid_parts w bs)"

definition oid_text :: "nat list \<Rightarrow> string" where
  "oid_text ps = join ''.'' (map string_of_nat ps)"

definition oid_dec :: "nat list \<Rightarrow> string" where
  "oid_dec content =
     (case content of
        [] \<Rightarrow> ''?''
      | b # bs \<Rightarrow> oid_text (b div 40 # b mod 40 # oid_parts 0 bs))"

definition hex_digit :: "nat \<Rightarrow> char" where
  "hex_digit d = (if d < 10 then digit_char d else char_of (87 + d))"

definition hex_text :: "nat list \<Rightarrow> string" where
  "hex_text bs = concat (map (\<lambda>b. [hex_digit (b div 16), hex_digit (b mod 16)]) bs)"

text \<open>\<open>dec\<close> reads bytes as UTF-8 with replacements.\<close>

definition val_convert :: "(nat list \<Rightarrow> string) \<Rightarrow> nat \<Rightarrow> nat list \<Rightarrow> pyval" where
  "val_convert dec tag raw =
     (if tag = 0x04 \<or> tag = 0x16 then PStr (py_strip (dec raw))
      else if tag \<in> {0x02, 0x41, 0x43, 0x46, 0x47, 0x48} then PInt (int (foldl (\<lambda>v b. push_bit 8 v OR b) 0 raw))
      else if tag = 0x05 then PStr []
      else PStr (hex_text raw))"

lemma tlv_parse_moves: "tlv_parse buf pos = Some (tag, c, q) \<Longrightarrow> pos < q \<and> pos < length buf"
  by (auto simp: tlv_parse_def Let_def split: if_splits)

text \<open>The pairs of a list of bindings; anything else than a pair ends the list.\<close>

function bindings :: "(nat list \<Rightarrow> string) \<Rightarrow> nat list \<Rightarrow> nat \<Rightarrow> (string \<times> pyval) list option" where
  "bindings dec vb q =
     (if q < length vb then
        (case tlv_parse vb q of
           None \<Rightarrow> None
         | Some (tag, c, q') \<Rightarrow>
             if tag \<noteq> 0x30 then Some []
             else
               Option.bind (tlv_parse c 0) (\<lambda>(_, oid, q2).
               Option.bind (tlv_parse c q2) (\<lambda>(vtag, raw, _).
               map_option (Cons (oid_dec oid, val_convert dec vtag raw)) (bindings dec vb q'))))
      else Some [])"
  by pat_completeness auto

termination
  by (relation "measure (\<lambda>(dec, vb, q). length vb - q)") (auto dest!: tlv_parse_moves)

declare bindings.simps [simp del]

text \<open>The parts of an answer: its tag, the error status, the tag of the list and its bindings.\<close>

definition answer_parts :: "(nat list \<Rightarrow> string) \<Rightarrow> nat list \<Rightarrow> (nat \<times> nat \<times> nat \<times> nat list) option" where
  "answer_parts dec data =
     Option.bind (tlv_parse data 0) (\<lambda>(_, outer, _).
     Option.bind (tlv_parse outer 0) (\<lambda>(_, _, p1).
     Option.bind (tlv_parse outer p1) (\<lambda>(_, _, p2).
     Option.bind (tlv_parse outer p2) (\<lambda>(ptag, pdu, _).
     Option.bind (tlv_parse pdu 0) (\<lambda>(_, _, r1).
     Option.bind (tlv_parse pdu r1) (\<lambda>(_, err, r2).
     Option.bind (tlv_parse pdu r2) (\<lambda>(_, _, r3).
     Option.bind (tlv_parse pdu r3) (\<lambda>(vtag, vb, _).
     Some (ptag, from_bytes err, vtag, vb)))))))))"

definition system_oids :: "(string, string) dict" where
  "system_oids =
    [(''1.3.6.1.2.1.1.1.0'', ''sysDescr''), (''1.3.6.1.2.1.1.2.0'', ''sysObjectID''), (''1.3.6.1.2.1.1.3.0'', ''sysUpTime''),
     (''1.3.6.1.2.1.1.4.0'', ''sysContact''), (''1.3.6.1.2.1.1.5.0'', ''sysName''), (''1.3.6.1.2.1.1.6.0'', ''sysLocation''),
     (''1.3.6.1.2.1.2.1.0'', ''ifNumber'')]"

definition name_error :: exn where "name_error = ServiceError ''NameError'' ''ip''"

definition known_values :: "(string \<times> pyval) list \<Rightarrow> (string, pyval) dict" where
  "known_values vs =
     fold (\<lambda>(oid, v) d. case dict_get system_oids oid of None \<Rightarrow> d | Some k \<Rightarrow> dict_set k v d) vs []"

text \<open>The handler of the exceptions names a variable that does not exist, so it raises itself.\<close>

definition parse_snmp_response :: "(nat list \<Rightarrow> string) \<Rightarrow> nat list \<Rightarrow> exn + (string, pyval) dict option" where
  "parse_snmp_response dec data =
     (case answer_parts dec data of
        None \<Rightarrow> if (case Option.bind (tlv_parse data 0) (\<lambda>(_, outer, _).
                       Option.bind (tlv_parse outer 0) (\<lambda>(_, _, p1).
                       Option.bind (tlv_parse outer p1) (\<lambda>(_, _, p2). tlv_parse outer p2))) of
                   Some (ptag, _, _) \<Rightarrow> ptag \<noteq> 0xA2 | None \<Rightarrow> False)
                then Inr None else Inl name_error
      | Some (ptag, err, vtag, vb) \<Rightarrow>
          if ptag \<noteq> 0xA2 \<or> vtag \<noteq> 0x30 then Inr None
          else (case bindings dec vb 0 of
                  None \<Rightarrow> Inl name_error
                | Some vs \<Rightarrow>
                    (let d = known_values vs;
                         d' = (if err \<noteq> 0 then dict_set ''_error'' (PStr (''SNMP errstatus '' @ string_of_nat err)) d else d)
                     in Inr (if d' = [] then None else Some d'))))"

section \<open>Requests\<close>

definition binding :: "string \<Rightarrow> nat list option" where
  "binding oid = map_option (\<lambda>o'. tlv 0x30 (o' @ tlv 0x05 [])) (oid_enc oid)"

fun bindings_of :: "string list \<Rightarrow> nat list option" where
  "bindings_of [] = Some []"
| "bindings_of (o' # os) = Option.bind (binding o') (\<lambda>b. map_option ((@) b) (bindings_of os))"

definition snmp_request :: "nat \<Rightarrow> nat list \<Rightarrow> nat \<Rightarrow> string list \<Rightarrow> nat list option" where
  "snmp_request kind community req_id oids =
     map_option
       (\<lambda>vbs. tlv 0x30 (int_enc 1 @ octet community
          @ tlv kind (int_enc req_id @ int_enc 0 @ int_enc 0 @ tlv 0x30 vbs)))
       (bindings_of oids)"

text \<open>\<open>send\<close> is the exchange of one datagram: what comes back within the time, if anything.\<close>

definition snmp_get ::
  "(nat list \<Rightarrow> nat list option) \<Rightarrow> (nat list \<Rightarrow> string) \<Rightarrow> nat list \<Rightarrow> nat \<Rightarrow> exn + (string, pyval) dict option" where
  "snmp_get send dec community req_id =
     (case Option.bind (snmp_request 0xA0 community req_id (dict_keys system_oids)) send of
        None \<Rightarrow> Inr None
      | Some data \<Rightarrow> parse_snmp_response dec data)"

definition snmp_getnext ::
  "(nat list \<Rightarrow> nat list option) \<Rightarrow> (nat list \<Rightarrow> string) \<Rightarrow> nat list \<Rightarrow> nat \<Rightarrow> string \<Rightarrow> exn + string option \<times> (string \<times> pyval) list" where
  "snmp_getnext send dec community req_id oid =
     (case snmp_request 0xA1 community req_id [oid] of
        None \<Rightarrow> Inl ValueError
      | Some packet \<Rightarrow>
          (case send packet of
             None \<Rightarrow> Inr (None, [])
           | Some data \<Rightarrow>
               (case answer_parts dec data of
                  None \<Rightarrow> Inr (None, [])
                | Some (_, err, vtag, vb) \<Rightarrow>
                    if vtag \<noteq> 0x30 \<or> err \<noteq> 0 then Inr (None, [])
                    else (case bindings dec vb 0 of
                            None \<Rightarrow> Inr (None, [])
                          | Some [] \<Rightarrow> Inr (None, [])
                          | Some vs \<Rightarrow> Inr (Some (fst (List.last vs)), vs)))))"

section \<open>Bits as arithmetic\<close>

named_theorems bits "masks, shifts and disjoint sums as arithmetic"

lemma mask7 [bits]: "(n::nat) AND 0x7F = n mod 128"
  using take_bit_eq_mask [of 7 n] by (simp add: mask_eq_exp_minus_1 take_bit_eq_mod)

lemma mask8 [bits]: "(n::nat) AND 0xFF = n mod 256"
  using take_bit_eq_mask [of 8 n] by (simp add: mask_eq_exp_minus_1 take_bit_eq_mod)

lemma shift7 [bits]: "drop_bit 7 (n::nat) = n div 128" "push_bit 7 n = n * 128"
  by (simp_all add: drop_bit_eq_div push_bit_eq_mult)

lemma shift8 [bits]: "drop_bit 8 (n::nat) = n div 256" "push_bit 8 n = n * 256"
  by (simp_all add: drop_bit_eq_div push_bit_eq_mult)

lemma low_or_high: "a < 2 ^ k \<Longrightarrow> a OR (b * 2 ^ k) = a + b * 2 ^ k" for a b k :: nat
proof -
  assume "a < 2 ^ k"
  then have "take_bit k a = a" by (simp add: take_bit_nat_eq_self)
  then have "\<not> bit a i \<or> \<not> bit (b * 2 ^ k) i" for i
    by (metis bit_take_bit_iff bit_push_bit_iff push_bit_eq_mult not_less)
  then show ?thesis by (simp add: disjunctive_add_eq_or bit_eq_iff bit_and_iff)
qed

lemma high_bit_set [bits]: "a mod 128 OR 0x80 = a mod 128 + (128 :: nat)"
  using low_or_high [of "a mod 128" 7 1] by simp

lemma seven_more [bits]: "x < 128 \<Longrightarrow> v * 128 OR x = v * 128 + (x :: nat)"
  using low_or_high [of x 7 v] by (simp add: or.commute add.commute)

lemma eight_more [bits]: "b < 256 \<Longrightarrow> v * 256 OR b = v * 256 + (b :: nat)"
  using low_or_high [of b 8 v] by (simp add: or.commute add.commute)

lemma high_bit [bits]: "b < 256 \<Longrightarrow> (b::nat) AND 0x80 = 0 \<longleftrightarrow> b < 128"
proof -
  assume b: "b < 256"
  have "b AND 0x80 = 0 \<longleftrightarrow> \<not> bit b 7" using and_exp_eq_0_iff_not_bit [of b 7] by simp
  also have "\<dots> \<longleftrightarrow> even (b div 128)" by (simp add: bit_iff_odd)
  also have "b div 128 = (if b < 128 then 0 else 1)" using b by (auto simp: div_if)
  then have "even (b div 128) \<longleftrightarrow> b < 128" by simp
  finally show ?thesis .
qed

section \<open>Identifiers and numbers\<close>

lemma part_chunk_step: "0 < p \<Longrightarrow> part_chunk p = part_chunk (p div 128) @ [p mod 128 + 128]"
  by (subst part_chunk.simps) (simp add: bits)

lemma part_enc_step: "128 \<le> p \<Longrightarrow> part_enc p = part_chunk (p div 128) @ [p mod 128]"
  using part_chunk_step [of p] by (simp add: part_enc_def Let_def mask7)

lemma oid_parts_more: "x < 128 \<Longrightarrow> oid_parts v ((x + 128) # bs) = oid_parts (v * 128 + x) bs"
  by (simp add: bits Let_def)

lemma oid_parts_end: "x < 128 \<Longrightarrow> oid_parts v (x # bs) = (v * 128 + x) # oid_parts 0 bs"
  by (simp add: bits Let_def)

lemma read_chunk: "0 < p \<Longrightarrow> oid_parts 0 (part_chunk p @ bs) = oid_parts p bs"
proof (induction p arbitrary: bs rule: less_induct)
  case (less p)
  have step: "oid_parts (p div 128) ((p mod 128 + 128) # bs) = oid_parts p bs"
    using oid_parts_more [of "p mod 128" "p div 128" bs] by (simp add: mult.commute)
  show ?case
  proof (cases "p div 128 = 0")
    case True
    then show ?thesis using less.prems step by (simp add: part_chunk_step part_chunk.simps [of 0])
  next
    case False
    then show ?thesis using less.IH [of "p div 128"] less.prems step by (simp add: part_chunk_step)
  qed
qed

lemma read_part: "oid_parts 0 (part_enc p @ bs) = p # oid_parts 0 bs"
proof (cases "p < 128")
  case True
  then show ?thesis using oid_parts_end [of p 0 bs] by (simp add: part_enc_def)
next
  case False
  then have "0 < p div 128" by (simp add: div_greater_zero_iff)
  with False show ?thesis
    using read_chunk [of "p div 128" "(p mod 128) # bs"] oid_parts_end [of "p mod 128" "p div 128" bs]
    by (simp add: part_enc_step mult.commute)
qed

lemma read_parts: "oid_parts 0 (concat (map part_enc ps)) = ps"
  by (induction ps) (simp_all add: read_part)

text \<open>An identifier is read as it was written.\<close>

lemma oid_dec_content: "b < 40 \<Longrightarrow> oid_content (a # b # ps) = Some c \<Longrightarrow> oid_dec c = oid_text (a # b # ps)"
  by (auto simp: oid_content_def oid_dec_def read_parts split: if_splits)

lemma strip_plain: "list_all (\<lambda>c. \<not> py_isspace c) s \<Longrightarrow> py_strip s = s"
proof -
  have keep: "dropWhile py_isspace t = t" if "list_all (\<lambda>c. \<not> py_isspace c) t" for t
    using that by (cases t) auto
  assume "list_all (\<lambda>c. \<not> py_isspace c) s"
  then show ?thesis by (simp add: py_strip_def keep)
qed

lemma text_char: "c \<in> set (string_of_nat n) \<Longrightarrow> \<not> py_isspace c \<and> c \<noteq> CHR ''.'' \<and> c \<noteq> CHR ''-'' \<and> c \<noteq> CHR ''+''"
proof -
  assume "c \<in> set (string_of_nat n)"
  then obtain d where d: "d < 10" "c = digit_char d" using string_of_nat_digits by blast
  then have "(of_char c :: nat) = 48 + d" by simp
  then show ?thesis using d(1) by (auto simp: py_isspace_def)
qed

lemma int_of_nat_text: "int_of_string (string_of_nat n) = Inr (int n)"
proof -
  obtain c cs where t: "string_of_nat n = c # cs"
    by (cases "string_of_nat n") (use digits_val_string_of_nat [of n] in simp_all)
  then have "c \<noteq> CHR ''-''" "c \<noteq> CHR ''+''" using text_char [of c n] by simp_all
  then have "signed_val (string_of_nat n) = Some (int n)"
    using digits_val_string_of_nat [of n] by (simp add: t)
  moreover have "py_strip (string_of_nat n) = string_of_nat n"
    by (rule strip_plain) (simp add: list_all_iff text_char)
  ultimately show ?thesis by (simp add: int_of_string_def)
qed

lemma ints_of_texts: "ints_of (map string_of_nat ps) = Some (map int ps)"
  by (induction ps) (simp_all add: int_of_nat_text)

lemma set_join: "set (join sep ts) \<subseteq> set sep \<union> \<Union> (set (map set ts))"
  by (induction sep ts rule: join.induct) auto

lemma oid_enc_text:
  assumes "ps \<noteq> []"
  shows "oid_enc (oid_text ps) = map_option (tlv 0x06) (oid_content ps)"
proof -
  have chars: "\<not> py_isspace c" if "c \<in> set (oid_text ps)" for c
    using that set_join [of "''.''" "map string_of_nat ps"] text_char by (fastforce simp: oid_text_def py_isspace_def)
  have "split_on (CHR ''.'') (oid_text ps) = map string_of_nat ps"
    unfolding oid_text_def by (rule split_on_join) (use assms text_char in auto)
  moreover have "py_strip (oid_text ps) = oid_text ps"
    by (rule strip_plain) (simp add: list_all_iff chars)
  moreover have "all_nats (map int ps) = Some ps" by (simp add: all_nats_def list_all_iff comp_def)
  ultimately show ?thesis by (simp add: oid_enc_def ints_of_texts)
qed

lemma ber_len_short: "n < 128 \<Longrightarrow> ber_len n = [n]"
  by (simp add: ber_len_def)

lemma slice_middle: "slice (pre @ mid @ post) (length pre) (length pre + length mid) = mid"
  by (simp add: slice_def)

lemma tlv_length [simp]: "length content < 128 \<Longrightarrow> length (tlv tag content) = 2 + length content"
  by (simp add: tlv_def ber_len_short)

text \<open>A short value is read back at any place.\<close>

lemma tlv_read:
  assumes "length content < 128"
  shows "tlv_parse (pre @ tlv tag content @ rest) (length pre) = Some (tag, content, length pre + 2 + length content)"
proof -
  have "slice (pre @ tag # length content # content @ rest) (length pre + 2) (length pre + 2 + length content) = content"
    using slice_middle [of "pre @ [tag, length content]" content rest] by simp
  moreover have "length content AND 0x80 = 0" using assms high_bit by simp
  ultimately show ?thesis
    using assms by (simp add: tlv_parse_def tlv_def ber_len_short nth_append Let_def)
qed

lemma tlv_first: "length content < 128 \<Longrightarrow> tlv_parse (tlv tag content @ rest) 0 = Some (tag, content, 2 + length content)"
  using tlv_read [of content "[]"] by simp

lemma int_bytes_less: "b \<in> set (int_bytes v) \<Longrightarrow> b < 256"
  by (induction v rule: int_bytes.induct) (subst (asm) (2) int_bytes.simps, auto simp: bits split: if_splits)

lemma int_value: "foldl (\<lambda>v b. push_bit 8 v OR b) 0 (int_bytes v) = v"
proof (induction v rule: int_bytes.induct)
  case (1 v)
  show ?case
  proof (cases "v div 256 = 0")
    case True
    then show ?thesis by (simp add: int_bytes.simps [of v] bits)
  next
    case False
    with 1 have "foldl (\<lambda>v b. push_bit 8 v OR b) 0 (int_bytes (v div 256)) = v div 256" by (simp add: bits)
    with False show ?thesis by (simp add: int_bytes.simps [of v] bits)
  qed
qed

lemma int_bytes_nonempty: "int_bytes v \<noteq> []"
  by (subst int_bytes.simps) simp

text \<open>A number is read as it was written, whatever its size.\<close>

lemma int_roundtrip:
  obtains c where "int_enc v = tlv 0x02 c" "val_convert dec 0x02 c = PInt (int v)" "length c \<le> Suc (length (int_bytes v))"
proof
  let ?c = "if hd (int_bytes v) AND 0x80 \<noteq> 0 then 0 # int_bytes v else int_bytes v"
  show "int_enc v = tlv 0x02 ?c" by (simp add: int_enc_def Let_def)
  show "val_convert dec 0x02 ?c = PInt (int v)" by (simp add: val_convert_def int_value)
  show "length ?c \<le> Suc (length (int_bytes v))" by simp
qed

text \<open>
  What the agent of a device is asked for is what was meant: an identifier of the standard (a first part below seven, a second one below
  forty) is written and read back as the same text, as is every number.
\<close>

theorem identifiers_are_read_back:
  assumes "a < 6" and "b < 40"
  shows "\<exists>c. oid_enc (oid_text (a # b # ps)) = Some (tlv 0x06 c) \<and> oid_dec c = oid_text (a # b # ps)"
proof -
  have "40 * a + b < 256" using assms by linarith
  then obtain c where c: "oid_content (a # b # ps) = Some c" by (simp add: oid_content_def)
  then have "oid_enc (oid_text (a # b # ps)) = Some (tlv 0x06 c)" by (simp add: oid_enc_text)
  then show ?thesis using oid_dec_content [OF assms(2) c] by blast
qed

theorem identifiers_are_read_back_witness:
  "\<exists>c. oid_enc (oid_text [1, 3, 6, 1, 4, 1, 300]) = Some (tlv 0x06 c) \<and> oid_dec c = ''1.3.6.1.4.1.300''"
proof -
  have "oid_text [1, 3, 6, 1, 4, 1, 300] = ''1.3.6.1.4.1.300''" by code_simp
  then show ?thesis
    using identifiers_are_read_back [of 1 3 "[6, 1, 4, 1, 300]"] by simp
qed

section \<open>Long values\<close>

lemma length_digits_two: "128 \<le> n \<Longrightarrow> n < 16384 \<Longrightarrow> length_digits n = [n div 128, n mod 128]"
proof -
  assume n: "128 \<le> n" "n < 16384"
  then have "n div 128 < 128" "0 < n div 128" by (simp_all add: less_mult_imp_div_less div_greater_zero_iff)
  then have "length_digits (n div 128) = [n div 128]"
    by (subst length_digits.simps) (simp add: bits length_digits.simps [of 0])
  then show ?thesis using n by (subst length_digits.simps) (simp add: bits)
qed

text \<open>
  The long form of a length is written in digits of seven bits and read in digits of eight: from 128 bytes on a value claims
  to be longer than it is, and reading it takes what follows into it.
\<close>

theorem long_values_are_misread:
  assumes "128 \<le> length content" and "length content < 16384"
  shows "\<exists>q. tlv_parse (tlv tag content @ rest) 0 = Some (tag, take q (content @ rest), 4 + q)
    \<and> q = length content + 128 * (length content div 128)"
proof -
  let ?n = "length content"
  have two: "0x80 OR Suc (Suc 0) = (130 :: nat)" unfolding numeral_2_eq_2 [symmetric] by simp
  have len: "ber_len ?n = [130, ?n div 128, ?n mod 128]"
    using assms two by (simp add: ber_len_def length_digits_two)
  have said: "from_bytes (slice (tag # 130 # ?n div 128 # ?n mod 128 # content @ rest) 2 4) = ?n div 128 * 256 + ?n mod 128"
    by (simp add: from_bytes_def slice_def)
  have "?n div 128 * 256 + ?n mod 128 = ?n + 128 * (?n div 128)"
    using div_mult_mod_eq [of ?n 128] by linarith
  with said show ?thesis
    by (simp add: tlv_parse_def tlv_def len slice_def mask7)
qed

section \<open>Requests and answers\<close>

lemma int_bytes_step: "256 \<le> v \<Longrightarrow> int_bytes v = int_bytes (v div 256) @ [v mod 256]"
  by (subst int_bytes.simps) (simp add: bits div_eq_0_iff)

lemma int_bytes_one: "v < 256 \<Longrightarrow> int_bytes v = [v]"
  by (subst int_bytes.simps) (simp add: bits)

text \<open>The identifier of a request is the time in seconds, which has four bytes.\<close>

lemma int_enc_time:
  assumes "2 ^ 24 \<le> r" and "r < 2 ^ 31"
  shows "length (int_enc r) = 6"
proof -
  have "r div 256 div 256 div 256 = r div 2 ^ 24" by (simp add: div_mult2_eq [symmetric])
  moreover have "r div 2 ^ 24 < 128" using assms(2) by (simp add: less_mult_imp_div_less)
  moreover have "256 \<le> r" "256 \<le> r div 256" "256 \<le> r div 256 div 256"
    using assms(1) by (simp_all add: less_eq_div_iff_mult_less_eq)
  ultimately have "int_bytes r = [r div 2 ^ 24, r div 256 div 256 mod 256, r div 256 mod 256, r mod 256]"
    by (simp add: int_bytes_step int_bytes_one)
  moreover have "r div 2 ^ 24 AND 0x80 = 0" using \<open>r div 2 ^ 24 < 128\<close> high_bit by simp
  ultimately show ?thesis by (simp add: int_enc_def)
qed

lemma system_bindings: "map_option length (bindings_of (dict_keys system_oids)) = Some 98"
  by code_simp

lemma small_ints: "length (int_enc 0) = 3" "length (int_enc 1) = 3" "length (int_enc (Suc 0)) = 3"
  by (simp_all add: int_enc_def int_bytes_one tlv_def ber_len_short)

text \<open>C39: 
  The request for the description of a device is a well-formed message exactly when the community, the password of the protocol, has at most eight
  bytes. With nine the outermost length has a long form, and the message claims to be longer than the datagram.
\<close>

theorem community_limit:
  assumes "2 ^ 24 \<le> r" and "r < 2 ^ 31" and "length community < 128"
  shows "\<exists>p tag c q. snmp_request 0xA0 community r (dict_keys system_oids) = Some p \<and> tlv_parse p 0 = Some (tag, c, q)
    \<and> (q = length p \<longleftrightarrow> length community \<le> 8)"
proof -
  obtain vbs where vbs: "bindings_of (dict_keys system_oids) = Some vbs" "length vbs = 98"
    using system_bindings by auto
  let ?body = "int_enc 1 @ octet community @ tlv 0xA0 (int_enc r @ int_enc 0 @ int_enc 0 @ tlv 0x30 vbs)"
  have p: "snmp_request 0xA0 community r (dict_keys system_oids) = Some (tlv 0x30 ?body)"
    by (simp add: snmp_request_def vbs)
  have len: "length ?body = 119 + length community"
    using assms(3) by (simp add: octet_def int_enc_time [OF assms(1,2)] small_ints vbs(2))
  show ?thesis
  proof (cases "length community \<le> 8")
    case True
    then have "tlv_parse (tlv 0x30 ?body) 0 = Some (0x30, ?body, length (tlv 0x30 ?body))"
      using tlv_first [of ?body 48 "[]"] len by simp
    with p True show ?thesis by blast
  next
    case False
    let ?q = "length ?body + 128 * (length ?body div 128)"
    have big: "128 \<le> length ?body" "length ?body < 16384" using False assms(3) len by simp_all
    have "tlv_parse (tlv 0x30 ?body) 0 = Some (0x30, take ?q ?body, 4 + ?q)"
      using long_values_are_misread [OF big, of 48 "[]"] by simp
    moreover have "length (tlv 0x30 ?body) = 4 + length ?body"
      using big by (simp add: tlv_def ber_len_def length_digits_two)
    moreover have "0 < length ?body div 128" using big(1) by (simp add: div_greater_zero_iff)
    ultimately show ?thesis using p False by auto
  qed
qed

theorem community_limit_witness:
  "\<exists>p tag c q. snmp_request 0xA0 (replicate 9 0x61) 1700000000 (dict_keys system_oids) = Some p \<and> tlv_parse p 0 = Some (tag, c, q) \<and> q \<noteq> length p"
  using community_limit [of 1700000000 "replicate 9 0x61"] by simp

text \<open>An answer of an agent to a question for one identifier, with short parts.\<close>

definition answer_of :: "nat list \<Rightarrow> nat \<Rightarrow> nat list \<Rightarrow> nat \<Rightarrow> nat list \<Rightarrow> nat list" where
  "answer_of community r c vtag raw =
     tlv 0x30 (int_enc 1 @ octet community
       @ tlv 0xA2 (int_enc r @ int_enc 0 @ int_enc 0 @ tlv 0x30 (tlv 0x30 (tlv 0x06 c @ tlv vtag raw))))"

lemma tlv_longer: "length content + 2 \<le> length (tlv tag content)"
  by (simp add: tlv_def ber_len_def Let_def)

lemma tlv_read_after:
  "length content < 128 \<Longrightarrow> k = length pre \<Longrightarrow> tlv_parse (pre @ tlv tag content @ rest) k = Some (tag, content, k + 2 + length content)"
  using tlv_read by simp

lemma bindings_one:
  assumes "length c + length raw + 4 < 128" and "oid_dec c = oid"
  shows "bindings dec (tlv 0x30 (tlv 0x06 c @ tlv vtag raw)) 0 = Some [(oid, val_convert dec vtag raw)]"
proof -
  let ?b = "tlv 0x06 c @ tlv vtag raw" and ?vb = "tlv 0x30 (tlv 0x06 c @ tlv vtag raw)"
  have len: "length ?b < 128" using assms(1) by simp
  have "tlv_parse ?vb 0 = Some (0x30, ?b, length ?vb)" using tlv_first [OF len, of 48 "[]"] len by simp
  moreover have "tlv_parse ?b 0 = Some (0x06, c, 2 + length c)" using tlv_first [of c 6] assms(1) by simp
  moreover have "tlv_parse ?b (2 + length c) = Some (vtag, raw, 2 + length c + 2 + length raw)"
    using tlv_read_after [of raw "2 + length c" "tlv 0x06 c" vtag "[]"] assms(1) by simp
  moreover have "bindings dec ?vb (length ?vb) = Some []" by (subst bindings.simps) simp
  moreover have "0 < length ?vb" by (simp add: tlv_def)
  ultimately show ?thesis using assms(2) by (subst bindings.simps) simp
qed

lemma answer_parts_of:
  assumes "length (answer_of community r c vtag raw) < 130"
  shows "answer_parts dec (answer_of community r c vtag raw) = Some (0xA2, 0, 0x30, tlv 0x30 (tlv 0x06 c @ tlv vtag raw))
    \<and> length c + length raw + 4 < 128"
proof -
  define vb where "vb = tlv 0x30 (tlv 0x06 c @ tlv vtag raw)"
  obtain v where v: "int_enc 1 = tlv 0x02 v" by (rule int_roundtrip [of 1 "\<lambda>_. []"])
  obtain q where q: "int_enc r = tlv 0x02 q" by (rule int_roundtrip [of r "\<lambda>_. []"])
  have z: "int_enc 0 = tlv 0x02 [0]" by (simp add: int_enc_def int_bytes_one)
  define pdu where "pdu = tlv 0x02 q @ tlv 0x02 [0] @ tlv 0x02 [0] @ tlv 0x30 vb"
  define outer where "outer = tlv 0x02 v @ tlv 0x04 community @ tlv 0xA2 pdu"
  have whole: "answer_of community r c vtag raw = tlv 0x30 outer"
    unfolding answer_of_def v q z octet_def pdu_def outer_def vb_def by simp
  have o: "length outer < 128" using assms tlv_longer [of outer 48] whole by simp
  have lens: "length v < 128" "length community < 128" "length pdu < 128"
    using o tlv_longer [of v 2] tlv_longer [of community 4] tlv_longer [of pdu 162] by (simp_all add: outer_def)
  have more: "length q < 128" "length vb < 128"
    using lens(3) tlv_longer [of q 2] tlv_longer [of vb 48] by (simp_all add: pdu_def)
  have "tlv_parse (tlv 0x30 outer) 0 = Some (0x30, outer, 2 + length outer)"
    using tlv_first [OF o, of 48 "[]"] by simp
  moreover have "tlv_parse outer 0 = Some (0x02, v, 2 + length v)"
    using tlv_first [OF lens(1), of 2] by (simp add: outer_def)
  moreover have "tlv_parse outer (2 + length v) = Some (0x04, community, 2 + length v + 2 + length community)"
    using tlv_read_after [OF lens(2), of "2 + length v" "tlv 0x02 v" 4 "tlv 0xA2 pdu"] lens by (simp add: outer_def)
  moreover have "tlv_parse outer (2 + length v + 2 + length community)
      = Some (0xA2, pdu, 2 + length v + 2 + length community + 2 + length pdu)"
    using tlv_read_after [OF lens(3), of _ "tlv 0x02 v @ tlv 0x04 community" 162 "[]"] lens by (simp add: outer_def)
  moreover have "tlv_parse pdu 0 = Some (0x02, q, 2 + length q)"
    using tlv_first [OF more(1), of 2] by (simp add: pdu_def)
  moreover have "tlv_parse pdu (2 + length q) = Some (0x02, [0], 2 + length q + 3)"
    using tlv_read_after [of "[0]" "2 + length q" "tlv 0x02 q" 2 "tlv 2 [0] @ tlv 0x30 vb"] more by (simp add: pdu_def)
  moreover have "tlv_parse pdu (2 + length q + 3) = Some (0x02, [0], 2 + length q + 6)"
    using tlv_read_after [of "[0]" "2 + length q + 3" "tlv 0x02 q @ tlv 0x02 [0]" 2 "tlv 0x30 vb"] more by (simp add: pdu_def)
  moreover have "tlv_parse pdu (2 + length q + 6) = Some (0x30, vb, 2 + length q + 8 + length vb)"
    using tlv_read_after [OF more(2), of "2 + length q + 6" "tlv 2 q @ tlv 2 [0] @ tlv 0x02 [0]" 48 "[]"] more
    by (simp add: pdu_def)
  moreover have "length c + length raw + 4 < 128"
    using more(2) tlv_longer [of "tlv 0x06 c @ tlv vtag raw" 48] tlv_longer [of c 6] tlv_longer [of raw vtag] by (simp add: vb_def)
  ultimately show ?thesis by (simp add: answer_parts_def whole from_bytes_def vb_def)
qed

text \<open>
  A short answer to a question is understood: whatever the agent sends back for the identifier it found is what the caller gets, with the
  value converted by its tag.
\<close>

theorem short_answers_are_understood:
  assumes "oid_enc oid \<noteq> None" and "b < 40" and "oid_content (a # b # ps) = Some c"
    and "length (answer_of community' r c vtag raw) < 130"
    and "\<And>p. send p = Some (answer_of community' r c vtag raw)"
  shows "snmp_getnext send dec community req_id oid
    = Inr (Some (oid_text (a # b # ps)), [(oid_text (a # b # ps), val_convert dec vtag raw)])"
proof -
  obtain p where p: "snmp_request 0xA1 community req_id [oid] = Some p"
    using assms(1) by (auto simp: snmp_request_def binding_def)
  note parts = answer_parts_of [OF assms(4)]
  show ?thesis
    unfolding snmp_getnext_def p assms(5)
    using parts bindings_one [OF parts [THEN conjunct2] oid_dec_content [OF assms(2,3)]] by simp
qed

theorem short_answers_are_understood_witness:
  "snmp_getnext (\<lambda>_. Some (answer_of [0x70] 5 [43, 6, 1] 0x02 [1, 44])) (\<lambda>_. []) [0x70] 5 ''1.3.6''
    = Inr (Some ''1.3.6.1'', [(''1.3.6.1'', PInt 300)])"
proof -
  have oid: "oid_text [1, 3, 6, 1] = ''1.3.6.1''" "oid_enc ''1.3.6'' \<noteq> None" by code_simp+
  have c: "oid_content [1, 3, 6, 1] = Some [43, 6, 1]" by (simp add: oid_content_def part_enc_def)
  have len: "length (answer_of [0x70] 5 [43, 6, 1] 0x02 [1, 44]) < 130" by code_simp
  have v: "val_convert (\<lambda>_. []) 0x02 [1, 44] = PInt 300" by code_simp
  have small: "(3::nat) < 40" by simp
  show ?thesis
    by (rule short_answers_are_understood [where send = "\<lambda>_. Some (answer_of [0x70] 5 [43, 6, 1] 0x02 [1, 44])" and dec = "\<lambda>_. []"
        and community = "[0x70]" and req_id = 5, OF oid(2) small c len refl, unfolded oid(1) v])
qed

theorem long_values_are_misread_witness:
  "map_option (\<lambda>(tag, c, q). (tag, length c, q)) (tlv_parse (tlv 0x04 (replicate 130 7) @ replicate 200 8) 0) = Some (0x04, 258, 262)"
proof -
  obtain q where "tlv_parse (tlv 0x04 (replicate 130 7) @ replicate 200 8) 0
      = Some (0x04, take q (replicate 130 7 @ replicate 200 8), 4 + q)" "q = 258"
    using long_values_are_misread [of "replicate 130 7" 4 "replicate 200 8"] by auto
  then show ?thesis by simp
qed

text \<open>Whatever cannot be read makes the reader itself raise, since its handler names a variable of the caller.\<close>

theorem unreadable_answer_raises:
  assumes "tlv_parse data 0 = None"
  shows "parse_snmp_response dec data = Inl name_error"
    and "(\<And>p. send p = Some data) \<Longrightarrow> snmp_request 0xA0 community r (dict_keys system_oids) = Some p
      \<Longrightarrow> snmp_get send dec community r = Inl name_error"
  using assms by (simp_all add: parse_snmp_response_def answer_parts_def snmp_get_def)

end
