(* ===== verification/Topology.thy ===== *)
theory Topology
  imports Ber "HOL-Library.Char_ord" "HOL-Library.List_Lexorder"
begin

text \<open>
  What the monitor learns from routers and switches: walking a table of a device, the ports of the machines and the
  neighbours (\<open>netpulse/l2map.py\<close>), and the periodic poll with its snapshots (\<open>netpulse/infra.py\<close>). A question to an agent is
  an argument (\<open>Ber\<close> says how it is written and read), as are pings, names and thresholds. The tables of the
  database are lists and dictionaries.
\<close>

section \<open>Walking a table\<close>

type_synonym agent = "string \<Rightarrow> exn + string option \<times> (string \<times> pyval) list"

text \<open>The pairs below the base, until the limit is reached.\<close>

fun add_pairs :: "string \<Rightarrow> nat \<Rightarrow> (string \<times> pyval) list \<Rightarrow> (string \<times> pyval) list \<Rightarrow> bool \<times> (string \<times> pyval) list" where
  "add_pairs base limit res [] = (False, res)"
| "add_pairs base limit res (p # ps) =
     (if \<not> begins (base @ ''.'') (fst p) then add_pairs base limit res ps
      else if limit \<le> length (res @ [p]) then (True, res @ [p])
      else add_pairs base limit (res @ [p]) ps)"

fun walk :: "agent \<Rightarrow> string \<Rightarrow> nat \<Rightarrow> nat \<Rightarrow> string \<Rightarrow> (string \<times> pyval) list \<Rightarrow> exn + (string \<times> pyval) list" where
  "walk ask base limit 0 cur res = Inr res"
| "walk ask base limit (Suc k) cur res =
     (if cur = [] then Inr res
      else bind_sum (ask cur) (\<lambda>(last_oid, pairs).
        case last_oid of
          None \<Rightarrow> Inr res
        | Some e \<Rightarrow>
            if e = [] \<or> \<not> begins base e then Inr res
            else (case add_pairs base limit res pairs of
                    (True, res') \<Rightarrow> Inr res'
                  | (False, res') \<Rightarrow> walk ask base limit k e res')))"

definition snmp_walk :: "agent \<Rightarrow> string \<Rightarrow> nat \<Rightarrow> exn + (string \<times> pyval) list" where
  "snmp_walk ask base limit = walk ask base limit limit base []"

section \<open>Ports and neighbours\<close>

fun pairs_of :: "string \<Rightarrow> string list" where
  "pairs_of (a # b # cs) = [a, b] # pairs_of cs"
| "pairs_of [c] = [[c]]"
| "pairs_of [] = []"

definition mac_iso :: "string \<Rightarrow> string option" where
  "mac_iso raw =
     (let r = py_lower (take 12 (List.filter (\<lambda>c. c \<noteq> CHR '':'' \<and> c \<noteq> CHR ''-'') raw))
      in if length r = 12 then Some (join '':'' (pairs_of r)) else None)"

text \<open>\<open>str\<close> of a list of texts without quotes in them.\<close>

definition list_text :: "string list \<Rightarrow> string" where
  "list_text ts = ''['' @ join '', '' (map (\<lambda>t. [CHR 0x27] @ t @ [CHR 0x27]) ts) @ '']''"

definition last_parts :: "nat \<Rightarrow> string list \<Rightarrow> string list" where
  "last_parts n ts = drop (length ts - n) ts"

text \<open>The address of a row of the table of addresses, as the code computes it.\<close>

definition row_mac :: "string \<Rightarrow> string option" where
  "row_mac oid = mac_iso (list_text (last_parts 6 (split_on (CHR ''.'') oid)))"

definition plain_text :: "pyval \<Rightarrow> string" where
  "plain_text v = (case v of PStr s \<Rightarrow> s | PInt n \<Rightarrow> string_of_int n | _ \<Rightarrow> [])"

definition opt_int :: "pyval \<Rightarrow> int option" where
  "opt_int v = (case py_int v of Inl _ \<Rightarrow> None | Inr n \<Rightarrow> Some n)"

definition fdb_port :: string where "fdb_port = ''1.3.6.1.2.1.17.4.3.1.2''"
definition port_ifindex :: string where "port_ifindex = ''1.3.6.1.2.1.17.1.4.1.2''"
definition if_name :: string where "if_name = ''1.3.6.1.2.1.31.1.1.1.1''"
definition if_descr :: string where "if_descr = ''1.3.6.1.2.1.2.2.1.2''"
definition lldp_chassis :: string where "lldp_chassis = ''1.0.8802.1.1.2.1.4.1.1.5''"
definition lldp_portid :: string where "lldp_portid = ''1.0.8802.1.1.2.1.4.1.1.6''"
definition lldp_sysname :: string where "lldp_sysname = ''1.0.8802.1.1.2.1.4.1.1.9''"

record port_row =
  pr_mac :: string
  pr_port :: int
  pr_if_index :: "int option"
  pr_if_name :: string

definition mac_ports :: "(string \<times> pyval) list \<Rightarrow> (string, int) dict" where
  "mac_ports rows =
     fold (\<lambda>(oid, v) d. case (row_mac oid, opt_int v) of (Some m, Some p) \<Rightarrow> dict_set m p d | _ \<Rightarrow> d) rows []"

definition index_map :: "(string \<times> pyval) list \<Rightarrow> (int, int) dict" where
  "index_map rows =
     fold (\<lambda>(oid, v) d. case (opt_int (PStr (List.last (split_on (CHR ''.'') oid))), opt_int v) of
             (Some i, Some n) \<Rightarrow> dict_set i n d | _ \<Rightarrow> d) rows []"

text \<open>A name that is there stays; the empty ones are replaced.\<close>

definition if_names :: "(string \<times> pyval) list \<Rightarrow> (int, string) dict" where
  "if_names rows =
     fold (\<lambda>(oid, v) d. case opt_int (PStr (List.last (split_on (CHR ''.'') oid))) of
             None \<Rightarrow> d
           | Some i \<Rightarrow> if get_default d i [] \<noteq> [] then d else dict_set i (take 32 (plain_text v)) d) rows []"

definition port_map :: "agent \<Rightarrow> exn + (string, port_row) dict" where
  "port_map ask =
     bind_sum (snmp_walk ask fdb_port 4000) (\<lambda>fdb.
     if fdb = [] then Inr []
     else
       bind_sum (snmp_walk ask port_ifindex 500) (\<lambda>indexes.
       bind_sum (snmp_walk ask if_name 500) (\<lambda>n1.
       bind_sum (snmp_walk ask if_descr 500) (\<lambda>n2.
       let port_if = index_map indexes; names = if_names (n1 @ n2)
       in Inr (map (\<lambda>(mac, port).
            let ix = dict_get port_if port;
                name = (case ix of None \<Rightarrow> [] | Some i \<Rightarrow> get_default names i [])
            in (mac, \<lparr>pr_mac = mac, pr_port = port, pr_if_index = ix,
                       pr_if_name = (if name = [] then ''port '' @ string_of_int port else name)\<rparr>)) (mac_ports fdb))))))"

record l2_row =
  lr_time :: string
  lr_index :: "int option"
  lr_name :: string

record l2_map =
  l2_table :: "(string \<times> string, l2_row) dict"
  l2_ports :: "(string \<times> port_row) list"
  l2_lldp :: "(string \<times> pyval option \<times> pyval \<times> string) list"
  l2_scanning :: bool

definition find_switches :: "(string \<times> string \<times> bool) list \<Rightarrow> (string \<times> string) list" where
  "find_switches hosts =
     (let up = List.filter (\<lambda>(_, _, online). online) hosts
      in if up = [] then [(''192.168.1.1'', ''192.168.1.1'')] else map (\<lambda>(n, ip, _). (n, ip)) up)"

text \<open>\<open>ask ip\<close> is the agent of a device; a device that does not answer a ping or whose tables raise is skipped.\<close>

definition device_ports :: "(string \<Rightarrow> bool) \<Rightarrow> (string \<Rightarrow> agent) \<Rightarrow> string \<Rightarrow> (string \<times> port_row) list" where
  "device_ports ping ask ip =
     (if ping ip then (case port_map (ask ip) of Inl _ \<Rightarrow> [] | Inr d \<Rightarrow> map (\<lambda>(mac, r). (ip, r)) d) else [])"

definition scan_ports :: "(string \<Rightarrow> bool) \<Rightarrow> (string \<Rightarrow> agent) \<Rightarrow> string \<Rightarrow> (string \<times> string \<times> bool) list \<Rightarrow> l2_map \<Rightarrow> nat \<times> l2_map" where
  "scan_ports ping ask now hosts m =
     (let found = concat (map (\<lambda>(_, ip). device_ports ping ask ip) (find_switches hosts));
          table = fold (\<lambda>(ip, r). dict_set (pr_mac r, ip) \<lparr>lr_time = now, lr_index = pr_if_index r, lr_name = pr_if_name r\<rparr>)
                    found (l2_table m)
      in (length found, m\<lparr>l2_table := table, l2_ports := found, l2_scanning := False\<rparr>))"

definition ports_for :: "string \<Rightarrow> l2_map \<Rightarrow> ((string \<times> string) \<times> l2_row) list" where
  "ports_for mac m =
     (case mac_iso (py_lower mac) of
        None \<Rightarrow> []
      | Some x \<Rightarrow> rev (sort_key (\<lambda>(_, r). lr_time r) (List.filter (\<lambda>((k, _), _). k = x) (l2_table m))))"

text \<open>\<open>oid.replace(base, '', 1)\<close> for an identifier that begins with the base.\<close>

definition strip_dots :: "string \<Rightarrow> string" where
  "strip_dots s = (let d = dropWhile (\<lambda>c. c = CHR ''.'') in rev (d (rev (d s))))"

definition lldp_neighbors :: "agent \<Rightarrow> l2_map \<Rightarrow> exn + (string \<times> pyval option \<times> pyval \<times> string) list \<times> l2_map" where
  "lldp_neighbors ask m =
     bind_sum (snmp_walk ask lldp_chassis 800) (\<lambda>rows.
     if rows = [] then Inr ([], m)
     else
       bind_sum (snmp_walk ask lldp_portid 800) (\<lambda>ids.
       bind_sum (snmp_walk ask lldp_sysname 800) (\<lambda>sys.
       let port_ids = fold (\<lambda>(k, v). dict_set k v) ids []; names = fold (\<lambda>(k, v). dict_set k v) sys [];
           out = concat (map (\<lambda>(oid, _).
             let place = drop (length lldp_chassis) oid;
                 parts = split_on (CHR ''.'') (strip_dots place)
             in if length parts < 3 then []
                else (case mac_iso (list_text (last_parts 6 parts)) of
                        None \<Rightarrow> []
                      | Some mac \<Rightarrow> [(mac, dict_get port_ids place, get_default names place (PStr []), place)])) rows)
       in Inr (out, m\<lparr>l2_lldp := out\<rparr>))))"

text \<open>Devices without a name get the one that the resolver knows.\<close>

definition resolve_ptrs :: "(string \<Rightarrow> string option) \<Rightarrow> (string \<times> string option) list \<Rightarrow> nat \<times> (string \<times> string option) list" where
  "resolve_ptrs lookup devices =
     (let wants = (\<lambda>(ip, name). (name = None \<or> name = Some ''-'' \<or> name = Some []) \<and> py_strip ip \<noteq> [] \<and> \<not> begins ''127.'' (py_strip ip)
                     \<and> lookup (py_strip ip) \<noteq> None)
      in (length (List.filter wants devices),
          fold (\<lambda>(ip, name) ds. if wants (ip, name) then map (\<lambda>(i, n). if i = py_strip ip then (i, lookup (py_strip ip)) else (i, n)) ds else ds)
            devices devices))"

definition l2_scan ::
  "(string \<Rightarrow> bool) \<Rightarrow> (string \<Rightarrow> agent) \<Rightarrow> (string \<Rightarrow> string option) \<Rightarrow> string \<Rightarrow> (string \<times> string \<times> bool) list
     \<Rightarrow> (string \<times> string option) list \<Rightarrow> l2_map \<Rightarrow> (nat option \<times> l2_map) \<times> (string \<times> string option) list" where
  "l2_scan ping ask lookup now hosts devices m =
     (if l2_scanning m then ((None, m), devices)
      else (let (n, m') = scan_ports ping ask now hosts (m\<lparr>l2_scanning := True\<rparr>)
            in ((Some n, m'), snd (resolve_ptrs lookup devices))))"

definition l2_status :: "l2_map \<Rightarrow> nat \<times> nat \<times> bool" where
  "l2_status m = (length (l2_ports m), length (l2_lldp m), l2_scanning m)"

section \<open>The poll of the devices\<close>

record polled_device =
  dv_id :: int
  dv_name :: string
  dv_ip :: string
  dv_dtype :: "string option"
  dv_manual :: bool
  dv_online :: bool
  dv_seen :: "string option"
  dv_sys_name :: "string option"
  dv_sys_descr :: "string option"
  dv_uptime :: "real option"
  dv_polled :: "string option"

record infra_snap =
  is_time :: string
  is_host :: int
  is_values :: "(string, pyval) dict"

datatype infra_alert =
    Profile_Limit string real string real
  | Infra_Diff string "(string \<times> pyval \<times> pyval) list"
  | Infra_Scan nat nat nat

record infra =
  in_devices :: "polled_device list"
  in_snaps :: "infra_snap list"
  in_alerts :: "infra_alert list"

record infra_env =
  ie_now :: string
  ie_ping :: "string \<Rightarrow> bool"
  ie_snmp :: "string \<Rightarrow> exn + (string, pyval) dict option"
  ie_gateway :: "string option"
  ie_profile :: "string \<Rightarrow> real option"
  ie_ping_ms :: "string \<Rightarrow> real option"

text \<open>The columns of a device in a snapshot.\<close>

definition text_or_none :: "string option \<Rightarrow> pyval" where
  "text_or_none v = (case v of None \<Rightarrow> PNone | Some s \<Rightarrow> PStr s)"

definition snap_values :: "polled_device \<Rightarrow> (string, pyval) dict" where
  "snap_values h =
    [(''dtype'', text_or_none (dv_dtype h)), (''ip'', PStr (dv_ip h)), (''name'', PStr (dv_name h)),
     (''sys_descr'', text_or_none (dv_sys_descr h)), (''sys_name'', text_or_none (dv_sys_name h)),
     (''uptime_h'', (case dv_uptime h of None \<Rightarrow> PNone | Some x \<Rightarrow> PFloat x))]"

definition find_device :: "int \<Rightarrow> polled_device list \<Rightarrow> polled_device option" where
  "find_device hid hs = List.find (\<lambda>h. dv_id h = hid) hs"

definition save_snapshot :: "string \<Rightarrow> int \<Rightarrow> infra \<Rightarrow> infra" where
  "save_snapshot now hid s =
     (case find_device hid (in_devices s) of
        None \<Rightarrow> s
      | Some h \<Rightarrow> s\<lparr>in_snaps := in_snaps s @ [\<lparr>is_time = now, is_host = hid, is_values = snap_values h\<rparr>]\<rparr>)"

text \<open>The newest first, at most as many as asked for.\<close>

definition snapshots_list :: "nat \<Rightarrow> int \<Rightarrow> infra \<Rightarrow> infra_snap list" where
  "snapshots_list n hid s = take n (rev (List.filter (\<lambda>x. is_host x = hid) (in_snaps s)))"

definition snap_changes :: "(string, pyval) dict \<Rightarrow> (string, pyval) dict \<Rightarrow> (string \<times> pyval \<times> pyval) list" where
  "snap_changes old new =
     concat (map (\<lambda>k. let a = get_default old k PNone; b = get_default new k PNone in if b \<noteq> a then [(k, a, b)] else [])
       (sort (remdups (dict_keys new @ dict_keys old))))"

definition snap_diff :: "nat \<Rightarrow> int \<Rightarrow> infra \<Rightarrow> (string \<times> pyval \<times> pyval) list option" where
  "snap_diff limit hid s =
     (case snapshots_list (max 2 limit) hid s of
        new # old # _ \<Rightarrow> Some (snap_changes (is_values old) (is_values new))
      | _ \<Rightarrow> None)"

definition watched_fields :: "string list" where
  "watched_fields = [''sys_name'', ''sys_descr'', ''dtype'', ''uptime_h'']"

definition raise_infra :: "infra_alert \<Rightarrow> infra \<Rightarrow> infra" where
  "raise_infra a s = s\<lparr>in_alerts := in_alerts s @ [a]\<rparr>"

definition auto_diff :: "int \<Rightarrow> string \<Rightarrow> string \<Rightarrow> infra \<Rightarrow> infra" where
  "auto_diff hid name ip s =
     (let seen = List.filter (\<lambda>(k, _, _). k \<in> set watched_fields) (case snap_diff 2 hid s of None \<Rightarrow> [] | Some cs \<Rightarrow> cs)
      in if seen = [] then s else raise_infra (Infra_Diff (if name = [] then ip else name) (take 4 seen)) s)"

definition classify :: "infra_env \<Rightarrow> string \<Rightarrow> (string, pyval) dict option \<Rightarrow> bool \<Rightarrow> string option" where
  "classify e ip snmp winrm =
     (if ip \<noteq> [] \<and> ie_gateway e = Some ip then Some ''router''
      else case snmp of
        Some d \<Rightarrow>
          (let descr = py_lower (plain_text (get_default d ''sysDescr'' (PStr [])) @ '' '' @ plain_text (get_default d ''sysName'' (PStr [])))
           in if contains ''switch'' descr \<or> contains ''catalyst'' descr \<or> contains ''procurve'' descr then Some ''switch''
              else if contains ''router'' descr \<or> contains ''mikrotik'' descr \<or> contains ''ios '' descr \<or> contains ''juniper'' descr
              then Some ''router'' else Some ''infra'')
      | None \<Rightarrow> if winrm then Some ''pc'' else None)"

definition set_dtype :: "int \<Rightarrow> string \<Rightarrow> bool \<Rightarrow> infra \<Rightarrow> bool \<times> infra" where
  "set_dtype hid t manual s =
     (if t \<notin> set [''router'', ''switch'', ''server'', ''pc'', ''infra'', ''host'', ''unknown''] then (False, s)
      else (True, s\<lparr>in_devices := map (\<lambda>h. if dv_id h = hid then h\<lparr>dv_dtype := Some t, dv_manual := manual\<rparr> else h) (in_devices s)\<rparr>))"

text \<open>The update of a row: what the poll found, on top of what is there.\<close>

definition polled :: "infra_env \<Rightarrow> polled_device \<Rightarrow> bool \<Rightarrow> (string, pyval) dict option \<Rightarrow> polled_device \<Rightarrow> polled_device" where
  "polled e h alive snmp row =
     (let r1 = row\<lparr>dv_online := alive, dv_polled := Some (ie_now e)\<rparr>;
          r2 = (if alive then r1\<lparr>dv_seen := Some (ie_now e)\<rparr> else r1);
          r3 = (case snmp of
                  None \<Rightarrow> r2
                | Some d \<Rightarrow>
                    r2\<lparr>dv_sys_name := Some (take 80 (plain_text (py_or (get_default d ''sysName'' PNone) (PStr [])))),
                       dv_sys_descr := Some (take 200 (plain_text (py_or (get_default d ''sysDescr'' PNone) (PStr [])))),
                       dv_uptime := (case get_default d ''sysUpTime'' PNone of
                                       PInt up \<Rightarrow> Some (of_int (py_round (of_int up / 36000)) / 10)
                                     | _ \<Rightarrow> None)\<rparr>)
      in if dv_manual h then r3
         else case classify e (py_strip (dv_ip h)) snmp False of None \<Rightarrow> r3 | Some t \<Rightarrow> r3\<lparr>dv_dtype := Some t\<rparr>)"

definition profile_alert :: "infra_env \<Rightarrow> polled_device \<Rightarrow> infra \<Rightarrow> infra" where
  "profile_alert e h s =
     (case Option.bind (dv_dtype h) (\<lambda>t. if t = [] then None else map_option (Pair t) (ie_profile e t)) of
        None \<Rightarrow> s
      | Some (t, high) \<Rightarrow>
          (case ie_ping_ms e (py_strip (dv_ip h)) of
             None \<Rightarrow> s
           | Some ms \<Rightarrow>
               if high < ms then raise_infra (Profile_Limit (if dv_name h = [] then py_strip (dv_ip h) else dv_name h) ms t high) s
               else s))"

text \<open>One device. An unreadable answer raises, and nothing of the device is written.\<close>

definition poll_device :: "infra_env \<Rightarrow> polled_device \<Rightarrow> infra \<Rightarrow> (exn + bool \<times> bool) \<times> infra" where
  "poll_device e h s =
     (let ip = py_strip (dv_ip h); alive = ie_ping e ip in
      case (if alive then ie_snmp e ip else Inr None) of
        Inl x \<Rightarrow> (Inl x, s)
      | Inr snmp \<Rightarrow>
          (let s1 = (if alive then profile_alert e h s else s);
               s2 = (if snmp \<noteq> None then auto_diff (dv_id h) (dv_name h) ip (save_snapshot (ie_now e) (dv_id h) s1) else s1)
           in (Inr (alive, snmp \<noteq> None),
               s2\<lparr>in_devices := map (\<lambda>r. if dv_id r = dv_id h then polled e h alive snmp r else r) (in_devices s2)\<rparr>)))"

definition to_poll :: "polled_device \<Rightarrow> bool" where
  "to_poll h \<longleftrightarrow> py_strip (dv_ip h) \<noteq> [] \<and> \<not> begins ''127.'' (py_strip (dv_ip h))"

fun poll_devices :: "infra_env \<Rightarrow> polled_device list \<Rightarrow> infra \<Rightarrow> (exn + (bool \<times> bool) list) \<times> infra" where
  "poll_devices e [] s = (Inr [], s)"
| "poll_devices e (h # hs) s =
     (if \<not> to_poll h then poll_devices e hs s
      else (case poll_device e h s of
              (Inl x, s1) \<Rightarrow> (Inl x, s1)
            | (Inr r, s1) \<Rightarrow>
                (case poll_devices e hs s1 of (Inl x, s2) \<Rightarrow> (Inl x, s2) | (Inr rs, s2) \<Rightarrow> (Inr (r # rs), s2))))"

definition scan_infra :: "infra_env \<Rightarrow> infra \<Rightarrow> (exn + (bool \<times> bool) list) \<times> infra" where
  "scan_infra e s =
     (case poll_devices e (in_devices s) s of
        (Inl x, s1) \<Rightarrow> (Inl x, s1)
      | (Inr rs, s1) \<Rightarrow>
          (Inr rs, raise_infra (Infra_Scan (length (List.filter fst rs)) (length rs) (length (List.filter snd rs))) s1))"

text \<open>A rule matches when every field it names is contained in the value, and it names at least one.\<close>

definition wl_match :: "pyval list \<Rightarrow> (string, pyval) dict \<Rightarrow> bool" where
  "wl_match rules vals \<longleftrightarrow>
     list_ex (\<lambda>r. case r of
        PDict d \<Rightarrow>
          list_all (\<lambda>(k, v). let rv = get_default d k PNone in
             truthy rv \<longrightarrow> contains (py_lower (plain_text rv)) (py_lower (plain_text v))) vals
          \<and> list_ex (\<lambda>(k, v). truthy (get_default d k PNone)) vals
      | _ \<Rightarrow> False) rules"

section \<open>What a walk returns\<close>

text \<open>The pairs gathered lie below the base and are not more than the limit.\<close>

definition gathered :: "string \<Rightarrow> nat \<Rightarrow> (string \<times> pyval) list \<Rightarrow> bool" where
  "gathered base limit res \<longleftrightarrow> list_all (\<lambda>p. begins (base @ ''.'') (fst p)) res \<and> length res \<le> limit"

lemma add_pairs_gathered:
  "gathered base limit res \<Longrightarrow> length res < limit \<Longrightarrow> add_pairs base limit res ps = (stop, res')
     \<Longrightarrow> gathered base limit res' \<and> (\<not> stop \<longrightarrow> length res' < limit)"
  by (induction base limit res ps rule: add_pairs.induct) (auto simp: gathered_def split: if_splits)

lemma walk_gathered:
  "walk ask base limit k cur res = Inr out \<Longrightarrow> gathered base limit res \<Longrightarrow> k = 0 \<or> length res < limit \<Longrightarrow> gathered base limit out"
proof (induction k arbitrary: cur res)
  case (Suc k)
  show ?case
  proof (cases "cur = []")
    case True
    with Suc.prems show ?thesis by simp
  next
    case False
    then obtain last_oid ps where ask: "ask cur = Inr (last_oid, ps)"
      using Suc.prems(1) by (cases "ask cur") auto
    obtain stop res' where add: "add_pairs base limit res ps = (stop, res')" by fastforce
    show ?thesis
      using Suc.prems False ask add add_pairs_gathered [OF Suc.prems(2) _ add] Suc.IH [of _ res']
      by (auto split: option.splits if_splits bool.splits)
  qed
qed simp

text \<open>Whatever the agent answers, a walk ends, and returns at most as many pairs as its limit, all of them below its base.\<close>

theorem walk_stays_below:
  assumes "snmp_walk ask base limit = Inr out"
  shows "length out \<le> limit \<and> list_all (\<lambda>p. begins (base @ ''.'') (fst p)) out"
  using walk_gathered [of ask base limit limit base "[]" out] assms by (cases limit) (auto simp: snmp_walk_def gathered_def)

text \<open>An agent that answers a question with the next pair of its table, the table ending outside of the base.\<close>

fun answers_in_turn :: "agent \<Rightarrow> string \<Rightarrow> string \<Rightarrow> (string \<times> pyval) list \<Rightarrow> bool" where
  "answers_in_turn ask base cur [] \<longleftrightarrow>
     (case ask cur of Inr (None, _) \<Rightarrow> True | Inr (Some e, _) \<Rightarrow> \<not> begins base e | Inl _ \<Rightarrow> False)"
| "answers_in_turn ask base cur (p # ps) \<longleftrightarrow>
     ask cur = Inr (Some (fst p), [p]) \<and> begins (base @ ''.'') (fst p) \<and> answers_in_turn ask base (fst p) ps"

lemma begins_append: "begins (xs @ ys) zs \<Longrightarrow> begins xs zs"
  by (auto simp: begins_iff)

lemma walk_in_turn:
  "answers_in_turn ask base cur es \<Longrightarrow> cur \<noteq> [] \<Longrightarrow> base \<noteq> [] \<Longrightarrow> length res + k = limit \<Longrightarrow> length res < limit
     \<Longrightarrow> walk ask base limit k cur res = Inr (res @ take k es)"
proof (induction es arbitrary: cur res k)
  case Nil
  then obtain j where "k = Suc j" by (cases k) auto
  with Nil show ?case by (auto split: sum.splits option.splits)
next
  case (Cons p es)
  then obtain j where k: "k = Suc j" by (cases k) auto
  have ask: "ask cur = Inr (Some (fst p), [p])" and b: "begins (base @ ''.'') (fst p)"
    and more: "answers_in_turn ask base (fst p) es" using Cons.prems(1) by simp_all
  have oid: "fst p \<noteq> []" "begins base (fst p)" using b Cons.prems(3) begins_append by (auto simp: begins_iff)
  show ?case
  proof (cases "limit \<le> length (res @ [p])")
    case True
    then have "j = 0" using Cons.prems(4) k by simp
    with True show ?thesis using Cons.prems(2) ask b oid by (simp add: k)
  next
    case False
    then have "walk ask base limit j (fst p) (res @ [p]) = Inr ((res @ [p]) @ take j es)"
      using Cons.IH [OF more oid(1) Cons.prems(3), of "res @ [p]" j] Cons.prems(4) k by simp
    with False show ?thesis using Cons.prems(2) ask b oid by (simp add: k)
  qed
qed

text \<open>C36: 
  Asked in turn, a device that answers every question with the next pair of its table is read completely: the walk returns the pairs below
  the base in their order, as many as the limit allows.
\<close>

theorem walk_reads_the_table:
  assumes "answers_in_turn ask base base es" and "base \<noteq> []"
  shows "snmp_walk ask base limit = Inr (take limit es)"
  using walk_in_turn [OF assms(1,2,2), of "[]" limit limit] by (cases limit) (simp_all add: snmp_walk_def)

text \<open>
  When the table is the last one of the device, the agent repeats the last identifier with an empty value, and the walk takes each
  repetition for a pair: the rest of the limit is filled with them, one question each.
\<close>

lemma walk_repeats:
  assumes "ask cur = Inr (Some cur, [(cur, v)])" and "begins (base @ ''.'') cur" and "base \<noteq> []"
  shows "length res + k = limit \<Longrightarrow> length res < limit \<Longrightarrow> walk ask base limit k cur res = Inr (res @ replicate k (cur, v))"
proof (induction k arbitrary: res)
  case (Suc k)
  have cur: "cur \<noteq> []" "begins base cur" using assms(2,3) begins_append by (auto simp: begins_iff)
  show ?case
  proof (cases "limit \<le> length (res @ [(cur, v)])")
    case True
    then have "k = 0" using Suc.prems by simp
    with True show ?thesis using assms cur by simp
  next
    case False
    then show ?thesis using Suc.IH [of "res @ [(cur, v)]"] Suc.prems assms cur by simp
  qed
qed simp

theorem end_of_table_repeats:
  assumes "ask base = Inr (Some oid, [(oid, v)])" and "ask oid = Inr (Some oid, [(oid, PStr [])])"
    and "begins (base @ ''.'') oid" and "base \<noteq> []" and "1 < limit"
  shows "snmp_walk ask base limit = Inr ((oid, v) # replicate (limit - 1) (oid, PStr []))"
proof -
  obtain k where k: "limit = Suc k" "0 < k" using assms(5) by (cases limit) auto
  have oid: "oid \<noteq> []" "begins base oid" using assms(3,4) begins_append by (auto simp: begins_iff)
  have "walk ask base limit k oid [(oid, v)] = Inr ([(oid, v)] @ replicate k (oid, PStr []))"
    by (rule walk_repeats [where ask = ask and cur = oid and v = "PStr []" and base = base, OF assms(2,3,4)]) (use k in simp_all)
  then show ?thesis using assms oid k by (simp add: snmp_walk_def)
qed

section \<open>Addresses and neighbours\<close>

lemma keys_fold_set: "dict_get (fold (\<lambda>(k, v). dict_set k v) ps d) k = Some v \<Longrightarrow> dict_get d k = Some v \<or> k \<in> fst ` set ps"
  by (induction ps arbitrary: d) (fastforce split: if_splits)+

text \<open>
  The neighbours of a device never have a name or a port: they are looked up by the end of the identifier in tables whose keys
  are whole identifiers.
\<close>

theorem neighbours_are_nameless:
  assumes "lldp_neighbors ask m = Inr (out, m')"
  shows "list_all (\<lambda>(mac, port, name, _). port = None \<and> name = PStr []) out"
proof (cases "out = []")
  case False
  then obtain rows ids sys where w: "snmp_walk ask lldp_chassis 800 = Inr rows" "snmp_walk ask lldp_portid 800 = Inr ids"
    "snmp_walk ask lldp_sysname 800 = Inr sys"
    using assms by (auto simp: lldp_neighbors_def elim!: bind_sum_InrE split: if_splits)
  have absent: "dict_get (fold (\<lambda>(k, v). dict_set k v) ps []) (drop (length lldp_chassis) (fst row)) = None"
    if "row \<in> set rows" "snmp_walk ask base 800 = Inr ps" "base = CHR ''1'' # t" for row ps base t
  proof (rule ccontr)
    assume "dict_get (fold (\<lambda>(k, v). dict_set k v) ps []) (drop (length lldp_chassis) (fst row)) \<noteq> None"
    then have k: "drop (length lldp_chassis) (fst row) \<in> fst ` set ps" using keys_fold_set [of ps "[]"] by fastforce
    have "begins (base @ ''.'') (drop (length lldp_chassis) (fst row))"
      using k walk_stays_below [OF that(2)] by (auto simp: list_all_iff)
    moreover have "begins (lldp_chassis @ ''.'') (fst row)"
      using that(1) walk_stays_below [OF w(1)] by (auto simp: list_all_iff)
    ultimately show False using that(3) by (auto simp: begins_iff)
  qed
  have "dict_get (fold (\<lambda>(k, v). dict_set k v) ids []) (drop (length lldp_chassis) oid) = None"
    "get_default (fold (\<lambda>(k, v). dict_set k v) sys []) (drop (length lldp_chassis) oid) (PStr []) = PStr []"
    if "(oid, v) \<in> set rows" for oid v
    using absent [OF that w(2), of _] absent [OF that w(3), of _] by (simp_all add: lldp_portid_def lldp_sysname_def get_default_def)
  then show ?thesis
    using assms w False by (auto simp: lldp_neighbors_def list_all_iff Let_def split: if_splits option.splits)
qed simp

lemma list_text_two:
  "cs \<noteq> [] \<Longrightarrow> list_text (a # b # cs) = [CHR ''['', CHR 0x27] @ a @ [CHR 0x27, CHR '','', CHR '' '', CHR 0x27] @ b @ [CHR 0x27, CHR '','', CHR '' '']
     @ join '', '' (map (\<lambda>t. [CHR 0x27] @ t @ [CHR 0x27]) cs) @ '']''"
  by (cases cs) (simp_all add: list_text_def)

definition plain_number :: "string \<Rightarrow> bool" where
  "plain_number t \<longleftrightarrow> CHR '':'' \<notin> set t \<and> CHR ''-'' \<notin> set t"

lemma filter_plain: "plain_number t \<Longrightarrow> List.filter (\<lambda>c. c \<noteq> CHR '':'' \<and> c \<noteq> CHR ''-'') t = t"
  by (auto simp: plain_number_def intro!: filter_True)

text \<open>
  Of the six bytes of an address only the first two are in the key that the code computes: two machines whose addresses begin alike, as
  those of one vendor do, take each other's place in the table of ports.
\<close>

theorem machines_share_a_key:
  assumes "plain_number a" and "plain_number b" and "3 \<le> length a + length b" and "cs \<noteq> []" and "ds \<noteq> []"
  shows "mac_iso (list_text (a # b # cs)) = mac_iso (list_text (a # b # ds))"
proof -
  let ?f = "List.filter (\<lambda>c. c \<noteq> CHR '':'' \<and> c \<noteq> CHR ''-'')"
  let ?start = "[CHR ''['', CHR 0x27] @ a @ [CHR 0x27, CHR '','', CHR '' '', CHR 0x27] @ b @ [CHR 0x27, CHR '','', CHR '' '']"
  have cut: "take 12 (?f (list_text (a # b # es))) = take 12 ?start" if ne: "es \<noteq> []" for es
  proof -
    obtain rest where "list_text (a # b # es) = ?start @ rest" using list_text_two [OF ne] by simp
    then have "?f (list_text (a # b # es)) = ?start @ ?f rest"
      using filter_plain [OF assms(1)] filter_plain [OF assms(2)] by simp
    moreover have "12 \<le> length ?start" using assms(3) by simp
    ultimately show ?thesis by (simp only: take_append) simp
  qed
  show ?thesis using cut [OF assms(4)] cut [OF assms(5)] by (simp add: mac_iso_def)
qed

lemma join_pairs_hd: "r \<noteq> [] \<Longrightarrow> hd (join '':'' (pairs_of r)) = hd r"
proof (induction r rule: pairs_of.induct)
  case (1 a b cs)
  then show ?case by (cases "pairs_of cs") simp_all
qed simp_all

lemma mac_iso_hd:
  assumes "mac_iso raw = Some x"
  shows "hd x = py_lower_char (hd (List.filter (\<lambda>c. c \<noteq> CHR '':'' \<and> c \<noteq> CHR ''-'') raw)) \<and> hd x \<in> py_lower_char ` set raw"
proof -
  define f where "f = List.filter (\<lambda>c. c \<noteq> CHR '':'' \<and> c \<noteq> CHR ''-'') raw"
  have x: "length (py_lower (take 12 f)) = 12" "x = join '':'' (pairs_of (py_lower (take 12 f)))"
    using assms by (auto simp: mac_iso_def Let_def f_def split: if_splits)
  then obtain c cs where f: "f = c # cs" by (cases f) (simp_all add: py_lower_def)
  have "hd x = hd (py_lower (take 12 f))" using x f by (simp add: join_pairs_hd py_lower_def)
  then have "hd x = py_lower_char c" by (simp add: f py_lower_def)
  moreover have "c \<in> set raw" using f by (metis f_def filter_is_subset list.set_intros(1) subsetD)
  ultimately show ?thesis by (simp add: f f_def [symmetric])
qed

lemma row_mac_hd: "row_mac oid = Some x \<Longrightarrow> hd x = CHR ''[''"
proof -
  assume "row_mac oid = Some x"
  then have "hd x = py_lower_char (hd (List.filter (\<lambda>c. c \<noteq> CHR '':'' \<and> c \<noteq> CHR ''-'')
      (list_text (last_parts 6 (split_on (CHR ''.'') oid)))))"
    unfolding row_mac_def using mac_iso_hd by blast
  then show "hd x = CHR ''[''" by (simp add: list_text_def py_lower_char_def)
qed

lemma lower_bracket: "py_lower_char c = CHR ''['' \<Longrightarrow> c = CHR ''[''"
proof -
  assume a: "py_lower_char c = CHR ''[''"
  have "of_char (py_lower_char c) = (91 :: nat)" unfolding a by simp
  then have n: "(of_char c :: nat) = 91" by (auto simp: py_lower_char_def Let_def split: if_splits)
  have "(of_char (CHR ''['') :: nat) = 91" by simp
  with n have "of_char c = (of_char (CHR ''['') :: nat)" by (rule trans [OF _ sym])
  then show "c = CHR ''[''" by (simp only: of_char_eq_iff)
qed

lemma mac_ports_keys: "(k, p) \<in> set (mac_ports rows) \<Longrightarrow> hd k = CHR ''[''"
proof -
  have "(k, p) \<in> set (fold (\<lambda>(oid, v) d. case (row_mac oid, opt_int v) of (Some m, Some p) \<Rightarrow> dict_set m p d | _ \<Rightarrow> d) rows d)
      \<Longrightarrow> (k, p) \<in> set d \<or> hd k = CHR ''[''" for d
  proof (induction rows arbitrary: d)
    case (Cons r rows)
    obtain oid v where r: "r = (oid, v)" by fastforce
    show ?case
      using Cons.IH [of "case (row_mac oid, opt_int v) of (Some m, Some p) \<Rightarrow> dict_set m p d | _ \<Rightarrow> d"] Cons.prems
        set_dict_set row_mac_hd [of oid]
      by (fastforce simp: r split: option.splits)
  qed simp
  then show "(k, p) \<in> set (mac_ports rows) \<Longrightarrow> hd k = CHR ''[''" unfolding mac_ports_def by force
qed

lemma port_map_macs: "port_map ask = Inr d \<Longrightarrow> (k, r) \<in> set d \<Longrightarrow> hd (pr_mac r) = CHR ''[''"
  by (auto simp: port_map_def Let_def elim!: bind_sum_InrE split: if_splits)
    (use mac_ports_keys in blast)+

lemma device_ports_macs:
  assumes "(i, r) \<in> set (device_ports ping ask ip)"
  shows "hd (pr_mac r) = CHR ''[''"
proof -
  obtain d where d: "port_map (ask ip) = Inr d" "(i, r) \<in> set (map (\<lambda>(mac, r). (ip, r)) d)"
    using assms unfolding device_ports_def by (cases "ping ip"; cases "port_map (ask ip)") simp_all
  then obtain k where "(k, r) \<in> set d" by auto
  with d(1) show ?thesis by (rule port_map_macs)
qed

lemma fold_set_keys: "x \<in> set (fold (\<lambda>(ip, r). dict_set (f ip r) (g ip r)) ps d) \<Longrightarrow> x \<in> set d \<or> (\<exists>(ip, r) \<in> set ps. fst x = f ip r)"
proof (induction ps arbitrary: d)
  case (Cons p ps)
  obtain ip r where p: "p = (ip, r)" by fastforce
  show ?case using Cons.IH [of "dict_set (f ip r) (g ip r) d"] Cons.prems set_dict_set [of "f ip r" "g ip r" d] by (auto simp: p)
qed simp

text \<open>
  The port of a machine is never found: from a table without such keys, a scan of any switches adds only keys that begin with a bracket,
  the text of a list, and the address that is asked for has none.
\<close>

theorem ports_are_never_found:
  assumes "list_all (\<lambda>((k, _), _). hd k = CHR ''['') (l2_table m)" and "CHR ''['' \<notin> set mac"
  shows "ports_for mac (snd (scan_ports ping ask now hosts m)) = []"
proof -
  have keys: "hd (fst (fst x)) = CHR ''[''" if here: "x \<in> set (l2_table (snd (scan_ports ping ask now hosts m)))" for x
  proof -
    define found where "found = concat (map (\<lambda>(_, ip). device_ports ping ask ip) (find_switches hosts))"
    have "l2_table (snd (scan_ports ping ask now hosts m)) = fold (\<lambda>(ip, r). dict_set (pr_mac r, ip)
        \<lparr>lr_time = now, lr_index = pr_if_index r, lr_name = pr_if_name r\<rparr>) found (l2_table m)"
      by (simp add: scan_ports_def Let_def found_def)
    then consider (kept) "x \<in> set (l2_table m)" | (added) ip r where "(ip, r) \<in> set found" "fst x = (pr_mac r, ip)"
      using here fold_set_keys [of x "\<lambda>ip r. (pr_mac r, ip)" "\<lambda>ip r. \<lparr>lr_time = now, lr_index = pr_if_index r, lr_name = pr_if_name r\<rparr>" found "l2_table m"]
      by auto
    moreover have macs: "hd (pr_mac r) = CHR ''[''" if here_found: "(ip, r) \<in> set found" for ip r
      using here_found device_ports_macs by (fastforce simp: found_def)
    ultimately show ?thesis
    proof cases
      case kept
      then show ?thesis using assms(1) by (cases x) (auto simp: list_all_iff)
    next
      case added
      then show ?thesis using macs [OF added(1)] by simp
    qed
  qed
  show ?thesis
  proof (cases "mac_iso (py_lower mac)")
    case (Some x)
    have "hd x \<noteq> CHR ''[''"
    proof
      assume "hd x = CHR ''[''"
      then obtain c where "c \<in> set (py_lower mac)" "py_lower_char c = CHR ''[''"
        using mac_iso_hd [OF Some] by (metis imageE)
      then obtain c' where "c' \<in> set mac" "py_lower_char c' = CHR ''[''" using lower_bracket by (auto simp: py_lower_def)
      then show False using lower_bracket assms(2) by blast
    qed
    then have "List.filter (\<lambda>((k, _), _). k = x) (l2_table (snd (scan_ports ping ask now hosts m))) = []"
      using keys by (fastforce simp: filter_empty_conv)
    then show ?thesis by (simp add: ports_for_def Some)
  qed (simp add: ports_for_def)
qed

section \<open>The poll\<close>

lemma polled_id [simp]: "dv_id (polled e h alive snmp r) = dv_id r"
  by (auto simp: polled_def Let_def split: option.splits)

lemma quiet_rest [simp]:
  "in_devices (raise_infra a s) = in_devices s" "in_snaps (raise_infra a s) = in_snaps s"
  "in_devices (auto_diff hid name ip s) = in_devices s" "in_snaps (auto_diff hid name ip s) = in_snaps s"
  "in_devices (save_snapshot now hid s) = in_devices s"
  "in_devices (profile_alert e h s) = in_devices s" "in_snaps (profile_alert e h s) = in_snaps s"
  by (auto simp: raise_infra_def auto_diff_def save_snapshot_def profile_alert_def Let_def split: option.splits)

text \<open>What a poll of a device does to the rows: only its own changes.\<close>

lemma poll_device_rows:
  assumes "poll_device e h s = (Inr r, s')"
  shows "in_devices s' = map (\<lambda>x. if dv_id x = dv_id h then polled e h (ie_ping e (py_strip (dv_ip h)))
      (if ie_ping e (py_strip (dv_ip h)) then case ie_snmp e (py_strip (dv_ip h)) of Inr v \<Rightarrow> v | Inl _ \<Rightarrow> None else None) x else x)
      (in_devices s)"
  using assms by (auto simp: poll_device_def Let_def split: if_splits sum.splits)

lemma poll_device_others:
  "poll_device e h s = (Inr r, s') \<Longrightarrow> dv_id h \<notin> dv_id ` set ds \<Longrightarrow> in_devices s = pre @ ds
     \<Longrightarrow> \<exists>pre'. in_devices s' = pre' @ ds \<and> length pre' = length pre"
  using poll_device_rows [of e h s r s'] by (auto simp: image_iff intro!: map_idI)

lemma poll_device_readable: "(\<And>y. ie_snmp e (py_strip (dv_ip a)) \<noteq> Inl y) \<Longrightarrow> \<exists>r s1. poll_device e a s = (Inr r, s1)"
  by (cases "ie_snmp e (py_strip (dv_ip a))") (auto simp: poll_device_def Let_def)

lemma poll_devices_stop:
  assumes "ie_ping e (py_strip (dv_ip h))" and "ie_snmp e (py_strip (dv_ip h)) = Inl x" and "to_poll h"
    and "\<And>a y. a \<in> set as \<Longrightarrow> ie_snmp e (py_strip (dv_ip a)) \<noteq> Inl y"
    and "dv_id ` set as \<inter> dv_id ` set (h # bs) = {}"
  shows "in_devices s = pre @ h # bs \<Longrightarrow>
    \<exists>s' pre'. poll_devices e (as @ h # bs) s = (Inl x, s') \<and> in_devices s' = pre' @ h # bs \<and> length pre' = length pre"
  using assms(4,5)
proof (induction as arbitrary: s pre)
  case Nil
  then show ?case using assms(1-3) by (simp add: poll_device_def Let_def)
next
  case (Cons a as)
  show ?case
  proof (cases "to_poll a")
    case False
    then show ?thesis using Cons.IH [OF Cons.prems(1)] Cons.prems by simp
  next
    case True
    obtain r s1 where p: "poll_device e a s = (Inr r, s1)"
      using poll_device_readable Cons.prems(2) [of a] by (metis list.set_intros(1))
    obtain pre1 where "in_devices s1 = pre1 @ h # bs" "length pre1 = length pre"
      using poll_device_others [OF p _ Cons.prems(1)] Cons.prems(3) by auto
    then obtain s' pre' where "poll_devices e (as @ h # bs) s1 = (Inl x, s')" "in_devices s' = pre' @ h # bs" "length pre' = length pre"
      using Cons.IH [of s1 pre1] Cons.prems by auto
    with True p show ?thesis by simp
  qed
qed

text \<open>The summary of a poll is announced after all devices, never while one is polled.\<close>

fun is_summary :: "infra_alert \<Rightarrow> bool" where
  "is_summary (Infra_Scan a b c) = True"
| "is_summary _ = False"

definition summaries :: "infra \<Rightarrow> infra_alert list" where
  "summaries s = List.filter is_summary (in_alerts s)"

lemma summaries_raised: "\<not> is_summary a \<Longrightarrow> summaries (raise_infra a s) = summaries s"
  by (simp add: summaries_def raise_infra_def)

lemma summaries_in [simp]: "summaries (s\<lparr>in_devices := ds\<rparr>) = summaries s" "summaries (s\<lparr>in_snaps := ns\<rparr>) = summaries s"
  by (simp_all add: summaries_def)

lemma summaries_profile [simp]: "summaries (profile_alert e h s) = summaries s"
  unfolding profile_alert_def by (simp split: option.split add: summaries_raised)

lemma summaries_diff [simp]: "summaries (auto_diff hid name ip s) = summaries s"
  unfolding auto_diff_def by (simp add: Let_def summaries_raised)

lemma summaries_snapshot [simp]: "summaries (save_snapshot now hid s) = summaries s"
  unfolding save_snapshot_def by (simp split: option.split)

lemma poll_device_summaries: "summaries (snd (poll_device e h s)) = summaries s"
  unfolding poll_device_def by (simp add: Let_def split: sum.split)

lemma poll_devices_summaries: "summaries (snd (poll_devices e hs s)) = summaries s"
proof (induction hs arbitrary: s)
  case (Cons h hs)
  obtain r s1 where p: "poll_device e h s = (r, s1)" by (cases "poll_device e h s")
  with poll_device_summaries [of e h s] Cons.IH [of s1] have "summaries (snd (poll_devices e hs s1)) = summaries s" "summaries s1 = summaries s"
    by simp_all
  with Cons.IH [of s] p show ?case
    by (cases r; cases "poll_devices e hs s1"; cases "fst (poll_devices e hs s1)") simp_all
qed simp

text \<open>C40: 
  One device that answers with something unreadable ends the poll: the exception leaves the loop, and neither this device nor the ones
  after it are updated. No summary is announced.
\<close>

theorem unreadable_device_ends_the_poll:
  assumes "in_devices s = as @ h # bs" and "distinct (map dv_id (in_devices s))"
    and "to_poll h" and "ie_ping e (py_strip (dv_ip h))" and "ie_snmp e (py_strip (dv_ip h)) = Inl x"
    and "\<And>a y. a \<in> set as \<Longrightarrow> ie_snmp e (py_strip (dv_ip a)) \<noteq> Inl y"
  shows "fst (scan_infra e s) = Inl x \<and> drop (length as) (in_devices (snd (scan_infra e s))) = h # bs
    \<and> summaries (snd (scan_infra e s)) = summaries s"
proof (intro conjI)
  have "dv_id ` set as \<inter> dv_id ` set (h # bs) = {}" using assms(1,2) by auto
  then obtain s' pre' where p: "poll_devices e (as @ h # bs) s = (Inl x, s')" "in_devices s' = pre' @ h # bs" "length pre' = length as"
    using poll_devices_stop [OF assms(4,5,3,6), of as bs s as] assms(1) by blast
  then show "fst (scan_infra e s) = Inl x" "drop (length as) (in_devices (snd (scan_infra e s))) = h # bs"
    by (simp_all add: scan_infra_def assms(1))
  show "summaries (snd (scan_infra e s)) = summaries s"
    using p(1) poll_devices_summaries [of e "as @ h # bs" s] by (simp add: scan_infra_def assms(1))
qed

text \<open>
  The snapshot of a poll shows the poll before it: it is taken from the row before the row is updated, so a change is noticed one poll
  later than it was seen.
\<close>

theorem snapshot_is_one_poll_late:
  assumes "find_device (dv_id h) (in_devices s) = Some h" and "ie_ping e (py_strip (dv_ip h))"
    and "ie_snmp e (py_strip (dv_ip h)) = Inr (Some d)"
  shows "map is_values (in_snaps (snd (poll_device e h s))) = map is_values (in_snaps s) @ [snap_values h]
    \<and> find_device (dv_id h) (in_devices (snd (poll_device e h s))) = Some (polled e h True (Some d) h)"
proof -
  have found: "List.find (\<lambda>x. dv_id x = i) (map (\<lambda>r. if dv_id r = i then f r else r) ds) = map_option f (List.find (\<lambda>x. dv_id x = i) ds)"
    if "\<And>r. dv_id (f r) = dv_id r" for i f ds
    using that by (induction ds) auto
  show ?thesis
    using assms found [of "polled e h (ie_ping e (py_strip (dv_ip h))) (Some d)" "dv_id h" "in_devices s"]
    by (simp add: poll_device_def Let_def save_snapshot_def find_device_def)
qed

text \<open>Every other value of the time a device is up is reported as a change of its configuration, its growth as well.\<close>

theorem growing_uptime_is_reported:
  assumes "snap_diff 2 hid s = Some cs" and "(''uptime_h'', PFloat a, PFloat b) \<in> set cs"
  shows "\<exists>cs'. in_alerts (auto_diff hid name ip s) = in_alerts s @ [Infra_Diff (if name = [] then ip else name) cs']"
proof -
  have "List.filter (\<lambda>(k, _, _). k \<in> set watched_fields) cs \<noteq> []"
    using assms(2) by (force simp: filter_empty_conv watched_fields_def)
  with assms(1) show ?thesis by (simp add: auto_diff_def Let_def raise_infra_def)
qed

section \<open>Examples\<close>

definition ex_agent :: "(string, string \<times> pyval) dict \<Rightarrow> agent" where
  "ex_agent d = (\<lambda>cur. case dict_get d cur of Some p \<Rightarrow> Inr (Some (fst p), [p]) | None \<Rightarrow> Inr (None, []))"

theorem walk_stays_below_witness:
  "length [(''1.3.6.1'', PInt 7)] \<le> 5 \<and> list_all (\<lambda>p. begins (''1.3'' @ ''.'') (fst p)) [(''1.3.6.1'', PInt 7)]"
proof -
  have "snmp_walk (ex_agent [(''1.3'', (''1.3.6.1'', PInt 7))]) ''1.3'' 5 = Inr [(''1.3.6.1'', PInt 7)]" by code_simp
  then show ?thesis by (rule walk_stays_below)
qed

theorem walk_reads_the_table_witness:
  "snmp_walk (ex_agent [(''1.3'', (''1.3.1'', PInt 7)), (''1.3.1'', (''1.3.2'', PInt 8)), (''1.3.2'', (''1.4.1'', PInt 9))]) ''1.3'' 5
    = Inr [(''1.3.1'', PInt 7), (''1.3.2'', PInt 8)]"
  using walk_reads_the_table [of "ex_agent [(''1.3'', (''1.3.1'', PInt 7)), (''1.3.1'', (''1.3.2'', PInt 8)), (''1.3.2'', (''1.4.1'', PInt 9))]"
    "''1.3''" "[(''1.3.1'', PInt 7), (''1.3.2'', PInt 8)]" 5]
  by (simp add: ex_agent_def)

theorem end_of_table_repeats_witness:
  "snmp_walk (\<lambda>cur. if cur = ''1.3'' then Inr (Some ''1.3.1'', [(''1.3.1'', PInt 7)]) else Inr (Some cur, [(cur, PStr [])])) ''1.3'' 4
    = Inr [(''1.3.1'', PInt 7), (''1.3.1'', PStr []), (''1.3.1'', PStr []), (''1.3.1'', PStr [])]"
  using end_of_table_repeats [of "\<lambda>cur. if cur = ''1.3'' then Inr (Some ''1.3.1'', [(''1.3.1'', PInt 7)]) else Inr (Some cur, [(cur, PStr [])])"
    "''1.3''" "''1.3.1''" "PInt 7" 4]
  by (simp add: numeral_3_eq_3)

definition ex_l2 :: l2_map where
  "ex_l2 = \<lparr>l2_table = [], l2_ports = [], l2_lldp = [], l2_scanning = False\<rparr>"

text \<open>A device with one neighbour whose port and name are in its tables.\<close>

definition ex_switch :: agent where
  "ex_switch = ex_agent
     [(lldp_chassis, (lldp_chassis @ ''.0.1.2'', PStr ''chassis'')), (lldp_portid, (lldp_portid @ ''.0.1.2'', PStr ''eth1'')),
      (lldp_sysname, (lldp_sysname @ ''.0.1.2'', PStr ''core'')),
      (fdb_port, (fdb_port @ ''.0.17.34.51.68.85'', PInt 3))]"

theorem neighbours_are_nameless_witness:
  "(case lldp_neighbors ex_switch ex_l2 of Inl _ \<Rightarrow> False
    | Inr (out, _) \<Rightarrow> out \<noteq> [] \<and> list_all (\<lambda>(mac, port, name, _). port = None \<and> name = PStr []) out)"
proof -
  have "(case lldp_neighbors ex_switch ex_l2 of Inl _ \<Rightarrow> False | Inr (out, _) \<Rightarrow> out \<noteq> [])" by code_simp
  then obtain out m' where out: "lldp_neighbors ex_switch ex_l2 = Inr (out, m')" "out \<noteq> []"
    by (auto split: sum.splits)
  then show ?thesis using neighbours_are_nameless [OF out(1)] by simp
qed

theorem machines_share_a_key_witness:
  "mac_iso (list_text [''0'', ''17'', ''34'', ''51'', ''68'', ''85'']) = mac_iso (list_text [''0'', ''17'', ''200'', ''1'', ''2'', ''3''])"
  by (rule machines_share_a_key) (simp_all add: plain_number_def)

theorem ports_are_never_found_witness:
  "ports_for ''00:11:22:33:44:55'' (snd (scan_ports (\<lambda>_. True) (\<lambda>_. ex_switch) ''now'' [(''s'', ''10.0.0.1'', True)] ex_l2)) = []
   \<and> fst (scan_ports (\<lambda>_. True) (\<lambda>_. ex_switch) ''now'' [(''s'', ''10.0.0.1'', True)] ex_l2) = 1"
proof
  show "ports_for ''00:11:22:33:44:55'' (snd (scan_ports (\<lambda>_. True) (\<lambda>_. ex_switch) ''now'' [(''s'', ''10.0.0.1'', True)] ex_l2)) = []"
    by (rule ports_are_never_found) (simp_all add: ex_l2_def)
  show "fst (scan_ports (\<lambda>_. True) (\<lambda>_. ex_switch) ''now'' [(''s'', ''10.0.0.1'', True)] ex_l2) = 1" by code_simp
qed

definition ex_device :: "int \<Rightarrow> string \<Rightarrow> polled_device" where
  "ex_device i ip = \<lparr>dv_id = i, dv_name = ''r'', dv_ip = ip, dv_dtype = None, dv_manual = False, dv_online = False, dv_seen = None,
     dv_sys_name = None, dv_sys_descr = None, dv_uptime = None, dv_polled = None\<rparr>"

definition ex_infra :: infra where
  "ex_infra = \<lparr>in_devices = [ex_device 1 ''10.0.0.1'', ex_device 2 ''10.0.0.2'', ex_device 3 ''10.0.0.3''], in_snaps = [], in_alerts = []\<rparr>"

definition ex_infra_env :: infra_env where
  "ex_infra_env = \<lparr>ie_now = ''now'', ie_ping = (\<lambda>_. True),
     ie_snmp = (\<lambda>ip. if ip = ''10.0.0.2'' then parse_snmp_response (\<lambda>_. []) [0x30] else Inr (Some [(''sysName'', PStr ''core'')])),
     ie_gateway = None, ie_profile = (\<lambda>_. None), ie_ping_ms = (\<lambda>_. None)\<rparr>"

theorem unreadable_device_ends_the_poll_witness:
  "fst (scan_infra ex_infra_env ex_infra) = Inl name_error
   \<and> drop 1 (in_devices (snd (scan_infra ex_infra_env ex_infra))) = [ex_device 2 ''10.0.0.2'', ex_device 3 ''10.0.0.3'']
   \<and> summaries (snd (scan_infra ex_infra_env ex_infra)) = summaries ex_infra"
proof -
  have ips: "py_strip ''10.0.0.1'' = ''10.0.0.1''" "py_strip ''10.0.0.2'' = ''10.0.0.2''" by code_simp+
  have bad: "parse_snmp_response (\<lambda>_. []) [0x30] = Inl name_error" by code_simp
  show ?thesis
    using unreadable_device_ends_the_poll [of ex_infra "[ex_device 1 ''10.0.0.1'']" "ex_device 2 ''10.0.0.2''" "[ex_device 3 ''10.0.0.3'']"
      ex_infra_env name_error]
    by (simp add: ex_infra_def ex_infra_env_def ex_device_def to_poll_def ips bad)
qed

theorem snapshot_is_one_poll_late_witness:
  "map is_values (in_snaps (snd (poll_device ex_infra_env (ex_device 1 ''10.0.0.1'') ex_infra))) = [snap_values (ex_device 1 ''10.0.0.1'')]"
proof -
  have ip: "py_strip ''10.0.0.1'' = ''10.0.0.1''" by code_simp
  show ?thesis
    using snapshot_is_one_poll_late [of "ex_device 1 ''10.0.0.1''" ex_infra ex_infra_env "[(''sysName'', PStr ''core'')]"]
    by (simp add: ex_infra_def ex_infra_env_def ex_device_def find_device_def ip)
qed

end
