(* ===== verification/Routeros.thy ===== *)
theory Routeros
  imports Ber Versions
begin

text \<open>
  The clients for MikroTik routers, \<open>netpulse/routeros.py\<close>: the check of a configured device, words of the API with their lengths,
  one exchange over a connection whose bytes arrive in any pieces, the REST client, and the collection of the tables; and
  \<open>netpulse/mikrotik.py\<close>: normalising what was collected, and the poll. Connections, the parser of addresses, UTF-8, JSON and
  \<open>float\<close> are arguments; time appears as what arrived before the deadline.
\<close>

section \<open>Devices\<close>

datatype router_error =
    Not_Object | Bad_Id | Bad_Transport | Bad_Url | Not_Origin | Bad_Port | No_User | No_Password_Env | Bad_Timeout | Bad_Tables
  | No_Password | Word_Too_Large | Timed_Out | Connection_Closed | Control_Byte | Limit_Exceeded | Rejected | Denied | Too_Many_Rows
  | Not_Allowed | Transport_Failed | Too_Large | Invalid_Rows | Auth_Failed | Permission_Denied | No_Rest | Http_Failed | Unreachable
  | Invalid_Json | Redirected | No_Resource | Invalid_Section | Too_Many_Devices | Same_Id

definition api_max_bytes :: nat where "api_max_bytes = 2 * 1024 * 1024"
definition max_rows :: nat where "max_rows = 256"

definition router_fields :: "(string, string list) dict" where
  "router_fields = [
    (''system/resource'', [''uptime'', ''version'', ''board-name'', ''cpu-load'', ''free-memory'', ''total-memory'']),
    (''system/identity'', [''name'']),
    (''interface'', [''name'', ''type'', ''running'', ''disabled'', ''rx-byte'', ''tx-byte'', ''rx-error'', ''tx-error'', ''rx-drop'', ''tx-drop'']),
    (''ip/dhcp-server/lease'', [''address'', ''mac-address'', ''host-name'', ''status'', ''server'', ''expires-after'']),
    (''ip/arp'', [''address'', ''mac-address'', ''interface'', ''complete'', ''dynamic'']),
    (''ip/address'', [''address'', ''network'', ''interface'', ''disabled'']),
    (''interface/bridge/vlan'', [''bridge'', ''vlan-ids'', ''tagged'', ''untagged'', ''current-tagged'', ''current-untagged'']),
    (''interface/bridge/host'', [''mac-address'', ''vid'', ''on-interface'', ''bridge'', ''local'', ''dynamic'']),
    (''ppp/active'', [''name'', ''service'', ''address'', ''uptime'']),
    (''system/health'', [''name'', ''value'', ''type'']),
    (''interface/wifi/registration-table'', [''interface'', ''mac-address'', ''signal'', ''uptime'', ''tx-rate'', ''rx-rate'']),
    (''interface/wireless/registration-table'', [''interface'', ''mac-address'', ''signal-strength'', ''uptime'', ''tx-rate'', ''rx-rate''])]"

definition table_groups :: "(string, string) dict" where
  "table_groups = [
    (''dhcp'', ''ip/dhcp-server/lease''), (''arp'', ''ip/arp''), (''addresses'', ''ip/address''), (''vlan'', ''interface/bridge/vlan''),
    (''bridge_hosts'', ''interface/bridge/host''), (''ppp'', ''ppp/active''), (''health'', ''system/health''),
    (''wifi'', ''interface/wifi/registration-table''), (''wireless'', ''interface/wireless/registration-table'')]"

definition core_paths :: "string list" where
  "core_paths = [''system/resource'', ''system/identity'', ''interface'']"

definition is_letter :: "char \<Rightarrow> bool" where
  "is_letter c \<longleftrightarrow> (let n = of_char c :: nat in 65 \<le> n \<and> n \<le> 90 \<or> 97 \<le> n \<and> n \<le> 122)"

definition good_id :: "string \<Rightarrow> bool" where
  "good_id s \<longleftrightarrow> 1 \<le> length s \<and> length s \<le> 48
     \<and> list_all (\<lambda>c. is_letter c \<or> is_digit c \<or> c = CHR ''_'' \<or> c = CHR ''-'') s"

definition good_env :: "string \<Rightarrow> bool" where
  "good_env s \<longleftrightarrow> s \<noteq> [] \<and> length s \<le> 128 \<and> (is_letter (hd s) \<or> hd s = CHR ''_'')
     \<and> list_all (\<lambda>c. is_letter c \<or> is_digit c \<or> c = CHR ''_'') s"

text \<open>The parts of an address as the parser of Python gives them; \<open>url_port\<close> is an exception for a port out of range.\<close>

record url =
  url_scheme :: string
  url_host :: "string option"
  url_user :: "string option"
  url_password :: "string option"
  url_query :: string
  url_fragment :: string
  url_path :: string
  url_port :: "exn + int option"

definition no_text :: "string option \<Rightarrow> bool" where
  "no_text v \<longleftrightarrow> v = None \<or> v = Some []"

record validated =
  vd_host :: string
  vd_port :: int
  vd_timeout :: real

text \<open>\<open>url_of\<close> is \<open>urlsplit\<close>, \<open>float_of\<close> is \<open>float\<close>; \<open>None\<close> is their \<open>TypeError\<close> or \<open>ValueError\<close>.\<close>

definition validate_device :: "(pyval \<Rightarrow> url option) \<Rightarrow> (pyval \<Rightarrow> real option) \<Rightarrow> pyval \<Rightarrow> router_error + validated" where
  "validate_device url_of float_of device =
     (case device of
        PDict d \<Rightarrow>
          (if (case get_default d ''id'' (PStr []) of PStr s \<Rightarrow> \<not> good_id s | _ \<Rightarrow> True) then Inl Bad_Id
           else if get_default d ''transport'' (PStr ''rest'') \<notin> set [PStr ''rest'', PStr ''api_ssl''] then Inl Bad_Transport
           else case url_of (get_default d ''url'' (PStr [])) of
             None \<Rightarrow> Inl Bad_Url
           | Some u \<Rightarrow>
               if url_scheme u \<noteq> ''https'' \<or> no_text (url_host u) \<or> \<not> no_text (url_user u) \<or> \<not> no_text (url_password u)
                  \<or> url_query u \<noteq> [] \<or> url_fragment u \<noteq> [] \<or> url_path u \<notin> set [[], ''/''] then Inl Not_Origin
               else (case url_port u of
                 Inl _ \<Rightarrow> Inl Bad_Port
               | Inr p \<Rightarrow>
                   (let port = (case p of Some n \<Rightarrow> if n \<noteq> 0 then n else if get_default d ''transport'' (PStr ''rest'') = PStr ''rest'' then 443 else 8729
                                | None \<Rightarrow> if get_default d ''transport'' (PStr ''rest'') = PStr ''rest'' then 443 else 8729) in
                    if \<not> (1 \<le> port \<and> port \<le> 65535) then Inl Bad_Port
                    else if (case get_default d ''username'' (PStr []) of
                               PStr s \<Rightarrow> s = [] \<or> CHR '':'' \<in> set s \<or> 128 < length s | _ \<Rightarrow> True) then Inl No_User
                    else if (case get_default d ''password_env'' (PStr []) of PStr s \<Rightarrow> \<not> good_env s | _ \<Rightarrow> True) then Inl No_Password_Env
                    else (case float_of (get_default d ''timeout_sec'' (PInt 5)) of
                      None \<Rightarrow> Inl Bad_Timeout
                    | Some t \<Rightarrow>
                        if \<not> (1 \<le> t \<and> t \<le> 10) then Inl Bad_Timeout
                        else if (case get_default d ''tables'' (PList []) of
                                   PList ts \<Rightarrow> length table_groups < length ts
                                     \<or> list_ex (\<lambda>v. case v of PStr s \<Rightarrow> dict_get table_groups s = None | _ \<Rightarrow> True) ts
                                 | _ \<Rightarrow> True) then Inl Bad_Tables
                        else Inr \<lparr>vd_host = (case url_host u of Some h \<Rightarrow> h | None \<Rightarrow> []), vd_port = port, vd_timeout = t\<rparr>))))
      | _ \<Rightarrow> Inl Not_Object)"

section \<open>Words of the API\<close>

definition octets_of :: "nat \<Rightarrow> nat \<Rightarrow> nat list" where
  "octets_of n v = map (\<lambda>i. drop_bit (8 * i) v AND 0xFF) (rev [0..<n])"

definition encode_length :: "nat \<Rightarrow> router_error + nat list" where
  "encode_length n =
     (if api_max_bytes < n then Inl Word_Too_Large
      else if n < 0x80 then Inr [n]
      else if n < 0x4000 then Inr (octets_of 2 (n OR 0x8000))
      else if n < 0x200000 then Inr (octets_of 3 (n OR 0xC00000))
      else Inr (octets_of 4 (n OR 0xE0000000)))"

text \<open>
  A connection is what arrives before the deadline, in pieces; an empty piece is its end. Nothing more to arrive means that the deadline
  passes.
\<close>

type_synonym connection = "nat list list"

fun api_recv :: "nat \<Rightarrow> connection \<Rightarrow> (router_error + nat list) \<times> connection" where
  "api_recv n [] = (if n = 0 then (Inr [], []) else (Inl Timed_Out, []))"
| "api_recv n (b # bs) =
     (if n = 0 then (Inr [], b # bs)
      else if b = [] then (Inl Connection_Closed, bs)
      else if n < length b then (Inr (take n b), drop n b # bs)
      else (case api_recv (n - length b) bs of
              (Inr r, rest) \<Rightarrow> (Inr (b @ r), rest)
            | (Inl e, rest) \<Rightarrow> (Inl e, rest)))"

definition recv_bind :: "(router_error + 'a) \<times> connection \<Rightarrow> ('a \<Rightarrow> connection \<Rightarrow> (router_error + 'b) \<times> connection)
    \<Rightarrow> (router_error + 'b) \<times> connection" where
  "recv_bind x f = (case x of (Inl e, c) \<Rightarrow> (Inl e, c) | (Inr a, c) \<Rightarrow> f a c)"

lemma recv_bind_simps [simp]: "recv_bind (Inl e, c) f = (Inl e, c)" "recv_bind (Inr a, c) f = f a c"
  by (simp_all add: recv_bind_def)

definition api_length :: "connection \<Rightarrow> (router_error + nat) \<times> connection" where
  "api_length c =
     recv_bind (api_recv 1 c) (\<lambda>bs c1.
       let first = hd bs;
           more = (\<lambda>k high. recv_bind (api_recv k c1) (\<lambda>r c2. (Inr (push_bit (8 * k) high OR from_bytes r), c2)))
       in if first < 0x80 then (Inr first, c1)
          else if first < 0xC0 then more 1 (first AND 0x3F)
          else if first < 0xE0 then more 2 (first AND 0x1F)
          else if first < 0xF0 then more 3 (first AND 0x0F)
          else if first = 0xF0 then recv_bind (api_recv 4 c1) (\<lambda>r c2. (Inr (from_bytes r), c2))
          else (Inl Control_Byte, c1))"

definition encode_word :: "nat list \<Rightarrow> router_error + nat list" where
  "encode_word w = (case encode_length (length w) of Inl e \<Rightarrow> Inl e | Inr l \<Rightarrow> Inr (l @ w))"

fun encode_words :: "nat list list \<Rightarrow> router_error + nat list" where
  "encode_words [] = Inr []"
| "encode_words (w # ws) =
     (case encode_word w of Inl e \<Rightarrow> Inl e
      | Inr b \<Rightarrow> (case encode_words ws of Inl e \<Rightarrow> Inl e | Inr bs \<Rightarrow> Inr (b @ bs)))"

text \<open>The words of a sentence that name an attribute, \<open>=name=value\<close>.\<close>

definition word_attr :: "string \<Rightarrow> (string \<times> string) option" where
  "word_attr w =
     (case w of
        c # t \<Rightarrow>
          if c = CHR ''='' \<and> CHR ''='' \<in> set t
          then Some (takeWhile (\<lambda>x. x \<noteq> CHR ''='') t, tl (dropWhile (\<lambda>x. x \<noteq> CHR ''='') t)) else None
      | [] \<Rightarrow> None)"

definition sentence_attrs :: "string list \<Rightarrow> (string, string) dict" where
  "sentence_attrs ws = fold (\<lambda>w d. case word_attr w of None \<Rightarrow> d | Some (k, v) \<Rightarrow> dict_set k v d) (tl ws) []"

type_synonym rows = "(string, string) dict list"

text \<open>
  The loop of an exchange. \<open>k\<close> words may still be read, \<open>dec\<close> reads UTF-8; its failure ends as a failed transport. The arguments are the rows,
  the words of the sentence so far, the bytes so far, and whether a trap was seen.
\<close>

fun read_reply ::
  "(nat list \<Rightarrow> string option) \<Rightarrow> nat \<Rightarrow> rows \<Rightarrow> string list \<Rightarrow> nat \<Rightarrow> bool \<Rightarrow> connection
     \<Rightarrow> (router_error + rows \<times> (string, string) dict) \<times> connection" where
  "read_reply dec 0 rows sentence seen denied c = recv_bind (api_length c) (\<lambda>_ c1. (Inl Limit_Exceeded, c1))"
| "read_reply dec (Suc k) rows sentence seen denied c =
     recv_bind (api_length c) (\<lambda>n c1.
       if api_max_bytes < n \<or> api_max_bytes < seen + n then (Inl Limit_Exceeded, c1)
       else if n \<noteq> 0 then
         recv_bind (api_recv n c1) (\<lambda>bs c2.
           case dec bs of
             None \<Rightarrow> (Inl Transport_Failed, c2)
           | Some w \<Rightarrow> read_reply dec k rows (sentence @ [w]) (seen + n) denied c2)
       else if sentence = [] then read_reply dec k rows [] seen denied c1
       else
         (let kind = hd sentence; attrs = sentence_attrs sentence in
          if kind = ''!fatal'' then (Inl Rejected, c1)
          else
            (let denied' = (denied \<or> kind = ''!trap'') in
             if kind = ''!done'' then (if denied' then (Inl Denied, c1) else (Inr (rows, attrs), c1))
             else if kind = ''!re'' then
               (if max_rows < length (rows @ [attrs]) then (Inl Too_Many_Rows, c1)
                else read_reply dec k (rows @ [attrs]) [] seen denied' c1)
             else read_reply dec k rows [] seen denied' c1)))"

definition max_words :: nat where "max_words = 16384"

text \<open>What is sent is the words and an empty one; the answer is read up to its end.\<close>

definition exchange ::
  "(nat list \<Rightarrow> string option) \<Rightarrow> nat list list \<Rightarrow> connection \<Rightarrow> ((router_error + rows \<times> (string, string) dict) \<times> connection) \<times> nat list" where
  "exchange dec ws c =
     (case encode_words ws of
        Inl e \<Rightarrow> ((Inl e, c), [])
      | Inr b \<Rightarrow> (read_reply dec max_words [] [] 0 False c, b @ [0]))"

section \<open>Sessions and collection\<close>

definition the_pairs :: "pyval \<Rightarrow> (string, pyval) dict" where
  "the_pairs v = (case v of PDict d \<Rightarrow> d | _ \<Rightarrow> [])"


definition credentials :: "(string, string) dict \<Rightarrow> string \<Rightarrow> string \<Rightarrow> router_error + string \<times> string" where
  "credentials env username password_env =
     (let v = get_default env password_env [] in if v = [] then Inl No_Password else Inr (username, v))"

text \<open>What a client answers for a path: rows of values.\<close>

type_synonym 'v reader = "string \<Rightarrow> router_error + (string, 'v) dict list"

text \<open>\<open>exch\<close> is one exchange on the open connection. Any failure of the connection or the login is told as one error.\<close>

definition api_login ::
  "(string \<Rightarrow> nat list option) \<Rightarrow> (nat list \<Rightarrow> string) \<Rightarrow> (string list \<Rightarrow> router_error + rows \<times> (string, string) dict) \<Rightarrow> bool \<Rightarrow> string \<Rightarrow> nat list
     \<Rightarrow> router_error + unit" where
  "api_login unhex md5 exch legacy username password =
     (let done = (\<lambda>r. case r of Inl _ \<Rightarrow> Inl Transport_Failed | Inr _ \<Rightarrow> Inr ()) in
      if legacy then
        (case exch [''/login''] of
           Inl _ \<Rightarrow> Inl Transport_Failed
         | Inr (_, answer) \<Rightarrow>
             (case unhex (get_default answer ''ret'' []) of
                None \<Rightarrow> Inl Transport_Failed
              | Some challenge \<Rightarrow>
                  if length challenge \<noteq> 16 then Inl Transport_Failed
                  else done (exch [''/login'', ''=name='' @ username, ''=response=00'' @ md5 (0 # password @ challenge)])))
      else done (exch [''/login'', ''=name='' @ username, ''=password='' @ map char_of password]))"

definition api_read :: "(string list \<Rightarrow> router_error + rows \<times> (string, string) dict) \<Rightarrow> string reader" where
  "api_read exch path =
     (case dict_get router_fields path of
        None \<Rightarrow> Inl Not_Allowed
      | Some fs \<Rightarrow>
          (case exch ([''/'' @ path @ ''/print'', ''=.proplist='' @ join '','' fs] @ (if path = ''interface'' then [''=stats=''] else [])) of
             Inl e \<Rightarrow> Inl e
           | Inr (rs, _) \<Rightarrow> Inr rs))"

text \<open>The answer of the web server of a router: a status, an unreachable server, or its bytes.\<close>

datatype http_result = Http_Status int | Http_Down | Http_Redirect | Http_Bytes nat "pyval option"

definition rest_read :: "(string \<Rightarrow> http_result) \<Rightarrow> pyval reader" where
  "rest_read http path =
     (if dict_get router_fields path = None then Inl Not_Allowed
      else case http path of
        Http_Status n \<Rightarrow>
          Inl (if n = 401 then Auth_Failed else if n = 403 then Permission_Denied else if n = 404 then No_Rest else Http_Failed)
      | Http_Down \<Rightarrow> Inl Unreachable
      | Http_Redirect \<Rightarrow> Inl Redirected
      | Http_Bytes n v \<Rightarrow>
          if api_max_bytes < n then Inl Too_Large
          else (case v of
             None \<Rightarrow> Inl Invalid_Json
           | Some (PList vs) \<Rightarrow>
               if max_rows < length vs \<or> list_ex (\<lambda>r. case r of PDict _ \<Rightarrow> False | _ \<Rightarrow> True) vs then Inl Invalid_Rows
               else Inr (map the_pairs vs)
           | Some _ \<Rightarrow> Inl Invalid_Rows))"

text \<open>The core tables must be read; a failure of an optional one is noted.\<close>

fun read_core :: "'v reader \<Rightarrow> string list \<Rightarrow> router_error + (string, (string, 'v) dict list) dict" where
  "read_core rd [] = Inr []"
| "read_core rd (p # ps) =
     (case rd p of Inl e \<Rightarrow> Inl e
      | Inr rs \<Rightarrow> (case read_core rd ps of Inl e \<Rightarrow> Inl e | Inr d \<Rightarrow> Inr ((p, rs) # d)))"

fun read_tables ::
  "'v reader \<Rightarrow> string list \<Rightarrow> (string, (string, 'v) dict list) dict \<Rightarrow> (string, router_error) dict
     \<Rightarrow> (string, (string, 'v) dict list) dict \<times> (string, router_error) dict" where
  "read_tables rd [] tables errs = (tables, errs)"
| "read_tables rd (p # ps) tables errs =
     (case rd p of
        Inl e \<Rightarrow> read_tables rd ps tables (dict_set p e errs)
      | Inr rs \<Rightarrow> read_tables rd ps (dict_set p rs tables) errs)"

definition first_seen :: "'a list \<Rightarrow> 'a list" where
  "first_seen xs = rev (remdups (rev xs))"

definition collect_device ::
  "'v reader \<Rightarrow> string list \<Rightarrow> router_error + (string, (string, 'v) dict list) dict \<times> (string, router_error) dict" where
  "collect_device rd groups =
     (case read_core rd core_paths of
        Inl e \<Rightarrow> Inl e
      | Inr d \<Rightarrow> Inr (read_tables rd (map (\<lambda>g. get_default table_groups g []) (first_seen groups)) d []))"

section \<open>Normalising\<close>

definition unit_seconds :: "char \<Rightarrow> nat option" where
  "unit_seconds c =
     (if c = CHR ''w'' then Some 604800 else if c = CHR ''d'' then Some 86400 else if c = CHR ''h'' then Some 3600
      else if c = CHR ''m'' then Some 60 else if c = CHR ''s'' then Some 1 else None)"

lemma number_shorter [termination_simp]: "number s = Some (n, c # r) \<Longrightarrow> length r < length s"
proof -
  assume "number s = Some (n, c # r)"
  then have "c # r = dropWhile is_digit s" by (auto simp: number_def Let_def split: if_splits option.splits)
  then show ?thesis using length_dropWhile_le [of is_digit s] by (metis Suc_le_eq length_Cons)
qed

text \<open>Numbers with units, added up; the whole text has to be of them.\<close>

fun sum_units :: "string \<Rightarrow> nat option" where
  "sum_units s =
     (case number s of
        Some (n, c # r) \<Rightarrow>
          (case unit_seconds c of
             None \<Rightarrow> None
           | Some u \<Rightarrow> if r = [] then Some (n * u) else map_option ((+) (n * u)) (sum_units r))
      | _ \<Rightarrow> None)"

declare sum_units.simps [simp del]

text \<open>A number followed by a unit, if it is there.\<close>

definition opt_unit :: "char \<Rightarrow> string \<Rightarrow> nat \<times> string" where
  "opt_unit u s = (case number s of Some (n, c # r) \<Rightarrow> if c = u then (n, r) else (0, s) | _ \<Rightarrow> (0, s))"

definition two_digits :: "string \<Rightarrow> (nat \<times> string) option" where
  "two_digits s =
     (case s of
        a # b # r \<Rightarrow> if is_digit a \<and> is_digit b then Some ((of_char a - 48) * 10 + (of_char b - 48), r) else None
      | _ \<Rightarrow> None)"

definition clock_seconds :: "string \<Rightarrow> nat option" where
  "clock_seconds s =
     (let (w, r1) = opt_unit (CHR ''w'') s; (d, r2) = opt_unit (CHR ''d'') r1 in
      Option.bind (number r2) (\<lambda>(h, r3).
      Option.bind (skip '':'' r3) (\<lambda>r4.
      Option.bind (two_digits r4) (\<lambda>(m, r5).
      Option.bind (skip '':'' r5) (\<lambda>r6.
      Option.bind (two_digits r6) (\<lambda>(sec, r7).
        if r7 = [] \<and> m < 60 \<and> sec < 60 then Some (w * 604800 + d * 86400 + h * 3600 + m * 60 + sec) else None))))))"

definition uptime_seconds :: "string \<Rightarrow> nat option" where
  "uptime_seconds s = (case sum_units s of Some n \<Rightarrow> Some n | None \<Rightarrow> clock_seconds s)"

record iface =
  if_label :: string
  if_type :: string
  if_running :: bool
  if_disabled :: bool
  if_counters :: "real option list"

record router_data =
  rd_identity :: string
  rd_version :: string
  rd_board :: string
  rd_cpu :: "real option"
  rd_free :: "real option"
  rd_total :: "real option"
  rd_uptime :: "nat option"
  rd_interfaces :: "iface list"
  rd_details :: "(string, (string, string) dict list) dict"
  rd_errors :: "(string, router_error) dict"

text \<open>\<open>num\<close> is \<open>number\<close>: a finite value that is not negative; \<open>shown\<close> is \<open>str\<close>, with \<open>None\<close> as the empty text where the code has \<open>or ''\<close>.\<close>

definition yes_text :: "string \<Rightarrow> bool" where
  "yes_text s \<longleftrightarrow> py_lower s \<in> set [''true'', ''yes'', ''1'']"

definition counter_names :: "string list" where
  "counter_names = [''rx-byte'', ''tx-byte'', ''rx-error'', ''tx-error'', ''rx-drop'', ''tx-drop'']"

fun interfaces_of :: "(pyval \<Rightarrow> string) \<Rightarrow> (pyval \<Rightarrow> real option) \<Rightarrow> string list \<Rightarrow> (string, pyval) dict list \<Rightarrow> iface list" where
  "interfaces_of shown num names [] = []"
| "interfaces_of shown num names (row # rws) =
     (let name = take 128 (shown (get_default row ''name'' (PStr []))) in
      if name = [] \<or> name \<in> set names then interfaces_of shown num names rws
      else \<lparr>if_label = name, if_type = take 64 (shown (get_default row ''type'' (PStr []))),
             if_running = yes_text (shown (get_default row ''running'' (PStr []))),
             if_disabled = yes_text (shown (get_default row ''disabled'' (PStr []))),
             if_counters = map (\<lambda>k. num (get_default row k PNone)) counter_names\<rparr>
           # interfaces_of shown num (name # names) rws)"

definition normalize ::
  "(pyval \<Rightarrow> string) \<Rightarrow> (pyval \<Rightarrow> real option) \<Rightarrow> (string, (string, pyval) dict list) dict \<times> (string, router_error) dict
     \<Rightarrow> router_error + router_data" where
  "normalize shown num raw =
     (let (tables, errs) = raw in
      case get_default tables ''system/resource'' [] of
        [] \<Rightarrow> Inl No_Resource
      | res # _ \<Rightarrow>
          (let identity = (case get_default tables ''system/identity'' [] of [] \<Rightarrow> [] | i # _ \<Rightarrow> i) in
           Inr \<lparr>rd_identity = take 128 (shown (get_default identity ''name'' (PStr []))),
                rd_version = take 64 (shown (get_default res ''version'' (PStr []))),
                rd_board = take 64 (shown (get_default res ''board-name'' (PStr []))),
                rd_cpu = num (get_default res ''cpu-load'' PNone), rd_free = num (get_default res ''free-memory'' PNone),
                rd_total = num (get_default res ''total-memory'' PNone),
                rd_uptime = uptime_seconds (shown (py_or (get_default res ''uptime'' PNone) (PStr []))),
                rd_interfaces = interfaces_of shown num [] (get_default tables ''interface'' []),
                rd_details = concat (map (\<lambda>(g, p). case dict_get tables p of None \<Rightarrow> []
                    | Some rs \<Rightarrow> [(g, map (map (\<lambda>(k, v). (k, take 256 (shown v)))) (take 256 rs))]) table_groups),
                rd_errors = concat (map (\<lambda>(g, p). case dict_get errs p of None \<Rightarrow> [] | Some e \<Rightarrow> [(g, e)]) table_groups)\<rparr>))"

section \<open>The poll\<close>

text \<open>The configured devices, each checked, at most sixteen and with different identifiers.\<close>

fun check_ids :: "(pyval \<Rightarrow> router_error + validated) \<Rightarrow> pyval list \<Rightarrow> pyval list \<Rightarrow> router_error option" where
  "check_ids vd seen [] = None"
| "check_ids vd seen (v # vs) =
     (case vd v of
        Inl e \<Rightarrow> Some e
      | Inr _ \<Rightarrow>
          (let i = get_default (the_pairs v) ''id'' PNone in
           if i \<in> set seen then Some Same_Id else check_ids vd (i # seen) vs))"

definition configured_devices :: "(pyval \<Rightarrow> router_error + validated) \<Rightarrow> pyval \<Rightarrow> router_error + pyval list" where
  "configured_devices vd section_value =
     (case py_or section_value (PDict []) of
        PDict cfg \<Rightarrow>
          (case py_or (get_default cfg ''devices'' PNone) (PList []) of
             PList vs \<Rightarrow>
               if 16 < length vs then Inl Too_Many_Devices
               else (case check_ids vd [] vs of Some e \<Rightarrow> Inl e | None \<Rightarrow> Inr vs)
           | _ \<Rightarrow> Inl Too_Many_Devices)
      | _ \<Rightarrow> Inl Invalid_Section)"

record device_status =
  ds_id :: string
  ds_result :: "router_error + router_data"
  ds_checked :: real
  ds_success :: "real option"

record router_monitor =
  rm_enabled :: bool
  rm_devices :: "device_status list"
  rm_error :: "router_error option"

text \<open>One device at a time \<open>t\<close>; the last success of a device that fails is taken from the status before.\<close>

definition last_success :: "router_monitor \<Rightarrow> string \<Rightarrow> real option" where
  "last_success st i = Option.bind (List.find (\<lambda>d. ds_id d = i) (rev (rm_devices st))) ds_success"

definition device_poll :: "(string \<Rightarrow> router_error + router_data) \<Rightarrow> real \<Rightarrow> router_monitor \<Rightarrow> string \<Rightarrow> device_status" where
  "device_poll col t st i =
     (case col i of
        Inr d \<Rightarrow> \<lparr>ds_id = i, ds_result = Inr d, ds_checked = t, ds_success = Some t\<rparr>
      | Inl e \<Rightarrow> \<lparr>ds_id = i, ds_result = Inl e, ds_checked = t, ds_success = last_success st i\<rparr>)"

definition poll_routers ::
  "(pyval \<Rightarrow> router_error + validated) \<Rightarrow> (string \<Rightarrow> router_error + router_data) \<Rightarrow> real \<Rightarrow> pyval \<Rightarrow> router_monitor \<Rightarrow> router_monitor" where
  "poll_routers vd col t section_value st =
     (let cfg = (case py_or section_value (PDict []) of PDict d \<Rightarrow> d | _ \<Rightarrow> [(''enabled'', PBool True), (''devices'', PStr ''invalid'')]) in
      if \<not> truthy (get_default cfg ''enabled'' PNone) then \<lparr>rm_enabled = False, rm_devices = [], rm_error = None\<rparr>
      else (case configured_devices vd section_value of
              Inl e \<Rightarrow> \<lparr>rm_enabled = True, rm_devices = [], rm_error = Some e\<rparr>
            | Inr vs \<Rightarrow>
                \<lparr>rm_enabled = True,
                 rm_devices = map (\<lambda>v. device_poll col t st (case get_default (the_pairs v) ''id'' PNone of PStr s \<Rightarrow> s | _ \<Rightarrow> [])) vs,
                 rm_error = None\<rparr>))"

text \<open>The pause between two polls.\<close>

definition poll_interval :: "pyval \<Rightarrow> int" where
  "poll_interval section_value =
     (case py_or section_value (PDict []) of
        PDict d \<Rightarrow> (case py_int (get_default d ''poll_interval_sec'' (PInt 30)) of Inl _ \<Rightarrow> 30 | Inr n \<Rightarrow> max 15 (min 3600 n))
      | _ \<Rightarrow> 30)"

section \<open>Reading what was written, in any pieces\<close>

text \<open>The bytes that a connection still delivers.\<close>

definition delivers :: "connection \<Rightarrow> nat list \<Rightarrow> bool" where
  "delivers c bs \<longleftrightarrow> concat c = bs \<and> [] \<notin> set c"

lemma api_recv_delivers:
  "delivers c (bs @ rest) \<Longrightarrow> n = length bs \<Longrightarrow> \<exists>c'. api_recv n c = (Inr bs, c') \<and> delivers c' rest"
proof (induction c arbitrary: n bs)
  case Nil
  then show ?case by (simp add: delivers_def)
next
  case (Cons b c)
  have b: "b \<noteq> []" "b @ concat c = bs @ rest" "[] \<notin> set c" using Cons.prems(1) by (auto simp: delivers_def)
  show ?case
  proof (cases "n < length b")
    case True
    then have "take n b = bs" "drop n b @ concat c = rest"
      using b(2) Cons.prems(2) by (metis append_eq_append_conv_if less_imp_le_nat)+
    moreover from True have "drop n b \<noteq> []" by simp
    ultimately show ?thesis using b True Cons.prems by (cases "n = 0") (auto simp: delivers_def)
  next
    case False
    then obtain bs' where bs': "bs = b @ bs'" "concat c = bs' @ rest"
      using b(2) Cons.prems(2) by (metis append_eq_append_conv_if append_take_drop_id not_less)
    then have "delivers c (bs' @ rest)" using b(3) by (simp add: delivers_def)
    then obtain c' where "api_recv (n - length b) c = (Inr bs', c')" "delivers c' rest"
      using Cons.IH [of bs' "n - length b"] Cons.prems(2) bs'(1) by auto
    with b(1) False bs'(1) show ?thesis by (cases "n = 0") auto
  qed
qed

lemma masks: "(x::nat) AND 0x3F = x mod 64" "(x::nat) AND 0x1F = x mod 32" "(x::nat) AND 0x0F = x mod 16"
  using take_bit_eq_mask [of 6 x] take_bit_eq_mask [of 5 x] take_bit_eq_mask [of 4 x]
  by (simp_all add: mask_eq_exp_minus_1 take_bit_eq_mod)

lemma counted_down: "rev [0..<2] = [1, 0 :: nat]" "rev [0..<3] = [2, 1, 0 :: nat]" "rev [0..<4] = [3, 2, 1, 0 :: nat]"
  by code_simp+

lemma octets_of_simps:
  "octets_of 2 v = [v div 256 mod 256, v mod 256]"
  "octets_of 3 v = [v div 65536 mod 256, v div 256 mod 256, v mod 256]"
  by (simp_all add: octets_of_def counted_down mask8 drop_bit_eq_div)

lemma shifted_or: "b < 256 \<Longrightarrow> push_bit 8 v OR b = v * 256 + (b :: nat)" "b < 65536 \<Longrightarrow> push_bit 16 v OR b = v * 65536 + b"
  using low_or_high [of b 8 v] low_or_high [of b 16 v] by (simp_all add: push_bit_eq_mult or.commute add.commute)

lemma delivers_Cons: "delivers c (b # rest) \<Longrightarrow> \<exists>c'. api_recv 1 c = (Inr [b], c') \<and> delivers c' rest"
  using api_recv_delivers [of c "[b]" rest 1] by simp

text \<open>A length that may be sent is read back, however its bytes arrive.\<close>

theorem lengths_are_read_back:
  assumes "encode_length n = Inr e" and "delivers c (e @ rest)"
  shows "\<exists>c'. api_length c = (Inr n, c') \<and> delivers c' rest"
proof -
  have n: "n \<le> 0x200000" using assms(1) by (simp add: encode_length_def api_max_bytes_def split: if_splits)
  consider (one) "n < 0x80" | (two) "0x80 \<le> n" "n < 0x4000" | (three) "0x4000 \<le> n" "n < 0x200000" | (four) "n = 0x200000"
    using n by linarith
  then show ?thesis
  proof cases
    case one
    then have e: "e = [n]" using assms(1) by (simp add: encode_length_def api_max_bytes_def)
    obtain c' where "api_recv 1 c = (Inr [n], c')" "delivers c' rest" using delivers_Cons [of c "hd e" "tl e @ rest"] assms(2) by (auto simp: e)
    then show ?thesis using one by (simp add: api_length_def)
  next
    case two
    have "(n + 32768) div 256 = n div 256 + 128" "(n + 32768) mod 256 = n mod 256"
      using div_mult_self1 [of 256 n 128] mod_mult_self1 [of n 128 256] by simp_all
    moreover have "(n div 256 + 128) mod 256 = n div 256 + 128" using two(2) by (simp add: less_mult_imp_div_less)
    ultimately have e: "e = [n div 256 + 128, n mod 256]"
      using two assms(1) low_or_high [of n 15 1] by (simp add: encode_length_def api_max_bytes_def octets_of_simps)
    obtain c1 where c1: "api_recv 1 c = (Inr [n div 256 + 128], c1)" "delivers c1 ([n mod 256] @ rest)"
      using delivers_Cons [of c "hd e" "tl e @ rest"] assms(2) by (auto simp: e)
    obtain c2 where c2: "api_recv 1 c1 = (Inr [n mod 256], c2)" "delivers c2 rest"
      using api_recv_delivers [OF c1(2), of 1] by auto
    have "n div 256 < 64" using two(2) by (simp add: less_mult_imp_div_less)
    then have "(n div 256 + 128) mod 64 = n div 256" by (simp add: mod_if)
    then show ?thesis
      using c1(1) c2 \<open>n div 256 < 64\<close> shifted_or(1) [of "n mod 256" "n div 256"]
      by (simp add: api_length_def Let_def masks from_bytes_def)
  next
    case three
    have "(n + 12582912) div 65536 = n div 65536 + 192" "(n + 12582912) mod 256 = n mod 256"
      "(n + 12582912) div 256 mod 256 = n div 256 mod 256"
      using div_mult_self1 [of 65536 n 192] mod_mult_self1 [of n 49152 256] div_mult_self1 [of 256 n 49152] mod_mult_self1 [of "n div 256" 192 256]
      by (simp_all add: add.commute)
    moreover have "(n div 65536 + 192) mod 256 = n div 65536 + 192" using three(2) by (simp add: less_mult_imp_div_less)
    ultimately have e: "e = [n div 65536 + 192, n div 256 mod 256, n mod 256]"
      using three assms(1) low_or_high [of n 21 6] by (simp add: encode_length_def api_max_bytes_def octets_of_simps)
    obtain c1 where c1: "api_recv 1 c = (Inr [n div 65536 + 192], c1)" "delivers c1 ([n div 256 mod 256, n mod 256] @ rest)"
      using delivers_Cons [of c "hd e" "tl e @ rest"] assms(2) by (auto simp: e)
    obtain c2 where c2: "api_recv 2 c1 = (Inr [n div 256 mod 256, n mod 256], c2)" "delivers c2 rest"
      using api_recv_delivers [OF c1(2), of 2] by auto
    have small: "n div 65536 < 32" using three(2) by (simp add: less_mult_imp_div_less)
    then have "(n div 65536 + 192) mod 32 = n div 65536" by (simp add: mod_if)
    moreover have "n div 256 mod 256 * 256 + n mod 256 = n mod 65536"
      using mod_mult2_eq [of n 256 256] by simp
    ultimately show ?thesis
      using c1(1) c2 small shifted_or(2) [of "n mod 65536" "n div 65536"]
      by (simp add: api_length_def Let_def masks from_bytes_def numeral_2_eq_2)
  next
    case four
    have e: "e = [0xE0, 0x20, 0, 0]"
      using four assms(1) by (simp add: encode_length_def api_max_bytes_def octets_of_def counted_down mask8 drop_bit_eq_div)
    obtain c1 where c1: "api_recv 1 c = (Inr [0xE0], c1)" "delivers c1 ([0x20, 0, 0] @ rest)"
      using delivers_Cons [of c "hd e" "tl e @ rest"] assms(2) by (auto simp: e)
    obtain c2 where c2: "api_recv 3 c1 = (Inr [0x20, 0, 0], c2)" "delivers c2 rest"
      using api_recv_delivers [OF c1(2), of 3] by auto
    show ?thesis using c1(1) c2 four by (simp add: api_length_def Let_def masks from_bytes_def)
  qed
qed

lemma length_of_word: "encode_word w = Inr b \<Longrightarrow> \<exists>e. encode_length (length w) = Inr e \<and> b = e @ w"
  by (auto simp: encode_word_def split: sum.splits)

lemma read_word:
  assumes "encode_word w = Inr b" and "delivers c (b @ rest)" and "w \<noteq> []" and "dec w = Some t" and "seen + length w \<le> api_max_bytes"
  shows "\<exists>c'. delivers c' rest
    \<and> read_reply dec (Suc k) rs sentence seen denied c = read_reply dec k rs (sentence @ [t]) (seen + length w) denied c'"
proof -
  obtain e where e: "encode_length (length w) = Inr e" "b = e @ w" using length_of_word [OF assms(1)] by blast
  obtain c1 where c1: "api_length c = (Inr (length w), c1)" "delivers c1 (w @ rest)"
    using lengths_are_read_back [OF e(1), of c "w @ rest"] assms(2) e(2) by auto
  obtain c2 where "api_recv (length w) c1 = (Inr w, c2)" "delivers c2 rest"
    using api_recv_delivers [OF c1(2) refl] by blast
  then show ?thesis using c1(1) assms(3-5) by auto
qed

lemma read_empty:
  assumes "encode_word [] = Inr b" and "delivers c (b @ rest)"
  shows "\<exists>c'. api_length c = (Inr 0, c') \<and> delivers c' rest"
proof -
  obtain e where "encode_length 0 = Inr e" "b = e" using length_of_word [OF assms(1)] by auto
  then show ?thesis using lengths_are_read_back [of 0 e c rest] assms(2) by simp
qed

lemma encode_words_split:
  "encode_words (ws @ vs) = (case encode_words ws of Inl e \<Rightarrow> Inl e
     | Inr b1 \<Rightarrow> (case encode_words vs of Inl e \<Rightarrow> Inl e | Inr b2 \<Rightarrow> Inr (b1 @ b2)))"
  by (induction ws) (auto split: sum.splits)

lemma encode_words_append:
  "encode_words (ws @ vs) = Inr b \<longleftrightarrow> (\<exists>b1 b2. encode_words ws = Inr b1 \<and> encode_words vs = Inr b2 \<and> b = b1 @ b2)"
  by (auto simp: encode_words_split split: sum.splits)

text \<open>The words of one sentence are gathered.\<close>

lemma read_words:
  assumes "\<And>t. dec (enc t) = Some t" and "\<And>t. t \<in> set ts \<Longrightarrow> enc t \<noteq> []"
  shows "encode_words (map enc ts) = Inr b \<Longrightarrow> delivers c (b @ rest) \<Longrightarrow> seen + sum_list (map (length \<circ> enc) ts) \<le> api_max_bytes
    \<Longrightarrow> \<exists>c'. delivers c' rest \<and> read_reply dec (length ts + k) rs sentence seen denied c
        = read_reply dec k rs (sentence @ ts) (seen + sum_list (map (length \<circ> enc) ts)) denied c'"
  using assms(2)
proof (induction ts arbitrary: b c seen sentence)
  case Nil
  then show ?case by auto
next
  case (Cons t ts)
  obtain b1 b2 where b: "encode_word (enc t) = Inr b1" "encode_words (map enc ts) = Inr b2" "b = b1 @ b2"
    using Cons.prems(1) by (auto split: sum.splits)
  have fits: "seen + length (enc t) \<le> api_max_bytes" using Cons.prems(3) by simp
  obtain c1 where c1: "delivers c1 (b2 @ rest)"
    "read_reply dec (Suc (length ts + k)) rs sentence seen denied c
      = read_reply dec (length ts + k) rs (sentence @ [t]) (seen + length (enc t)) denied c1"
    using read_word [where w = "enc t" and t = t and dec = dec and seen = seen and rest = "b2 @ rest" and c = c and b = b1
        and k = "length ts + k" and rs = rs and sentence = sentence and denied = denied] b(1,3) Cons.prems(2,4) assms(1) fits by auto
  then show ?case
    using Cons.IH [OF b(2) c1(1), of "seen + length (enc t)" "sentence @ [t]"] Cons.prems(3,4) by (auto simp: add.assoc)
qed

definition sentence_words :: "(string \<Rightarrow> nat list) \<Rightarrow> string list \<Rightarrow> nat list list" where
  "sentence_words enc ts = map enc ts @ [[]]"

text \<open>One sentence up to the empty word after it.\<close>

lemma read_sentence:
  assumes "\<And>t. dec (enc t) = Some t" and "\<And>t. t \<in> set ts \<Longrightarrow> enc t \<noteq> []"
    and "encode_words (sentence_words enc ts) = Inr b" and "delivers c (b @ rest)"
    and "seen + sum_list (map (length \<circ> enc) ts) \<le> api_max_bytes"
  shows "\<exists>c1 c2. read_reply dec (length ts + Suc k) rs [] seen denied c
        = read_reply dec (Suc k) rs ts (seen + sum_list (map (length \<circ> enc) ts)) denied c1
      \<and> api_length c1 = (Inr 0, c2) \<and> delivers c2 rest"
proof -
  obtain b1 b2 where b: "encode_words (map enc ts) = Inr b1" "encode_word [] = Inr b2" "b = b1 @ b2"
    using assms(3) by (auto simp: sentence_words_def encode_words_append split: sum.splits)
  have "delivers c (b1 @ b2 @ rest)" using assms(4) b(3) by simp
  from read_words [OF assms(1,2) b(1) this assms(5), of "Suc k" rs "[]" denied]
  obtain c1 where "delivers c1 (b2 @ rest)" "read_reply dec (length ts + Suc k) rs [] seen denied c
      = read_reply dec (Suc k) rs ts (seen + sum_list (map (length \<circ> enc) ts)) denied c1" by auto
  then show ?thesis using read_empty [OF b(2)] by blast
qed

definition word_bytes :: "(string \<Rightarrow> nat list) \<Rightarrow> string list list \<Rightarrow> nat" where
  "word_bytes enc ss = sum_list (map (\<lambda>ts. sum_list (map (length \<circ> enc) ts)) ss)"

definition word_count :: "string list list \<Rightarrow> nat" where
  "word_count ss = sum_list (map (\<lambda>ts. Suc (length ts)) ss)"

lemma read_rows:
  assumes dec: "\<And>t. dec (enc t) = Some t" and "\<And>t. enc t = [] \<Longrightarrow> t = []"
  shows "encode_words (concat (map (sentence_words enc) (map (Cons ''!re'') rws))) = Inr b \<Longrightarrow> delivers c (b @ rest)
    \<Longrightarrow> seen + word_bytes enc (map (Cons ''!re'') rws) \<le> api_max_bytes \<Longrightarrow> length rs + length rws \<le> max_rows
    \<Longrightarrow> [] \<notin> \<Union> (set (map set rws))
    \<Longrightarrow> \<exists>c'. delivers c' rest \<and> read_reply dec (word_count (map (Cons ''!re'') rws) + k) rs [] seen False c
        = read_reply dec k (rs @ map (\<lambda>r. sentence_attrs (''!re'' # r)) rws) [] (seen + word_bytes enc (map (Cons ''!re'') rws)) False c'"
proof (induction rws arbitrary: b c seen rs)
  case Nil
  then show ?case by (auto simp: word_count_def word_bytes_def)
next
  case (Cons r rws)
  let ?s = "''!re'' # r" and ?n = "sum_list (map (length \<circ> enc) (''!re'' # r))" and ?more = "map (Cons ''!re'') rws"
  obtain b1 b2 where b: "encode_words (sentence_words enc ?s) = Inr b1"
    "encode_words (concat (map (sentence_words enc) ?more)) = Inr b2" "b = b1 @ b2"
    using Cons.prems(1) by (auto simp: encode_words_append)
  have words: "enc t \<noteq> []" if "t \<in> set ?s" for t using that Cons.prems(5) assms(2) by auto
  have bytes: "word_bytes enc (map (Cons ''!re'') (r # rws)) = ?n + word_bytes enc ?more" by (simp add: word_bytes_def)
  have d: "delivers c (b1 @ b2 @ rest)" using Cons.prems(2) b(3) by simp
  have fits: "seen + ?n \<le> api_max_bytes" using Cons.prems(3) bytes by linarith
  obtain c1 c2 where c: "read_reply dec (length ?s + Suc (word_count ?more + k)) rs [] seen False c
        = read_reply dec (Suc (word_count ?more + k)) rs ?s (seen + ?n) False c1"
      "api_length c1 = (Inr 0, c2)" "delivers c2 (b2 @ rest)"
    using read_sentence [where dec = dec and enc = enc and ts = ?s and rest = "b2 @ rest" and k = "word_count ?more + k" and rs = rs
        and denied = False, OF dec words b(1) d fits] by blast
  have "read_reply dec (Suc (word_count ?more + k)) rs ?s (seen + ?n) False c1
      = read_reply dec (word_count ?more + k) (rs @ [sentence_attrs ?s]) [] (seen + ?n) False c2"
    using c(2) Cons.prems(3,4) bytes by (simp add: Let_def)
  moreover have "word_count (map (Cons ''!re'') (r # rws)) + k = length ?s + Suc (word_count ?more + k)"
    by (simp add: word_count_def)
  ultimately show ?case
    using Cons.IH [OF b(2) c(3), of "seen + ?n" "rs @ [sentence_attrs ?s]"] Cons.prems(3-5) bytes c(1) by (auto simp: add.assoc)
qed

text \<open>C33: 
  The answer of a router is read completely and exactly: its rows in their order and the attributes of its end, however its bytes are cut
  into pieces, as long as the answer keeps the limits of two megabytes, 256 rows and 16384 words. What follows it is left on the connection.
\<close>

theorem exchange_reads_the_answer:
  fixes dec :: "nat list \<Rightarrow> string option" and enc :: "string \<Rightarrow> nat list"
  assumes "\<And>t. dec (enc t) = Some t" and "\<And>t. enc t = [] \<Longrightarrow> t = []"
    and "encode_words question = Inr asked"
    and "encode_words (concat (map (sentence_words enc) (map (Cons ''!re'') rws @ [''!done'' # fin]))) = Inr b"
    and "delivers c (b @ rest)"
    and "word_bytes enc (map (Cons ''!re'') rws @ [''!done'' # fin]) \<le> api_max_bytes" and "length rws \<le> max_rows"
    and "word_count (map (Cons ''!re'') rws @ [''!done'' # fin]) \<le> max_words" and "[] \<notin> \<Union> (set (map set (fin # rws)))"
  shows "\<exists>c'. exchange dec question c
      = ((Inr (map (\<lambda>r. sentence_attrs (''!re'' # r)) rws, sentence_attrs (''!done'' # fin)), c'), asked @ [0]) \<and> delivers c' rest"
proof -
  let ?f = "''!done'' # fin" and ?rs = "map (\<lambda>r. sentence_attrs (''!re'' # r)) rws" and ?seen = "word_bytes enc (map (Cons ''!re'') rws)"
  obtain b1 b2 where b: "encode_words (concat (map (sentence_words enc) (map (Cons ''!re'') rws))) = Inr b1"
    "encode_words (sentence_words enc ?f) = Inr b2" "b = b1 @ b2"
    using assms(4) by (auto simp: encode_words_append)
  have total: "?seen + sum_list (map (length \<circ> enc) ?f) \<le> api_max_bytes" using assms(6) by (simp add: word_bytes_def)
  obtain k where "max_words = word_count (map (Cons ''!re'') rws @ [?f]) + k" using assms(8) le_Suc_ex by blast
  then have k: "max_words = word_count (map (Cons ''!re'') rws) + (length ?f + Suc k)" by (simp add: word_count_def)
  have d: "delivers c (b1 @ b2 @ rest)" using assms(5) b(3) by simp
  obtain c1 where c1: "delivers c1 (b2 @ rest)" "read_reply dec max_words [] [] 0 False c = read_reply dec (length ?f + Suc k) ?rs [] ?seen False c1"
    using read_rows [where dec = dec and enc = enc and rs = "[]" and seen = 0 and k = "length ?f + Suc k", OF assms(1,2) b(1) d] total assms(7,9)
    unfolding k by auto
  have words: "enc t \<noteq> []" if "t \<in> set ?f" for t using that assms(2,9) by auto
  obtain c2 c3 where c2: "read_reply dec (length ?f + Suc k) ?rs [] ?seen False c1
        = read_reply dec (Suc k) ?rs ?f (?seen + sum_list (map (length \<circ> enc) ?f)) False c2"
      "api_length c2 = (Inr 0, c3)" "delivers c3 rest"
    using read_sentence [where dec = dec and enc = enc and ts = ?f and k = k and rs = ?rs and denied = False, OF assms(1) words b(2) c1(1) total]
    by blast
  have "read_reply dec (Suc k) ?rs ?f (?seen + sum_list (map (length \<circ> enc) ?f)) False c2 = (Inr (?rs, sentence_attrs ?f), c3)"
    using c2(2) total by (simp add: Let_def)
  then show ?thesis using c1(2) c2(1,3) assms(3) by (simp add: exchange_def)
qed

section \<open>What is made of the tables\<close>

text \<open>The time a router is up, in any units, each with its number.\<close>

definition uptime_text :: "(nat \<times> char) list \<Rightarrow> string" where
  "uptime_text ps = concat (map (\<lambda>(n, u). string_of_nat n @ [u]) ps)"

lemma unit_not_digit: "unit_seconds u = Some k \<Longrightarrow> \<not> is_digit u"
  by (auto simp: unit_seconds_def is_digit_def split: if_splits)

lemma sum_units_text:
  "ps \<noteq> [] \<Longrightarrow> (\<And>n u. (n, u) \<in> set ps \<Longrightarrow> unit_seconds u \<noteq> None)
    \<Longrightarrow> sum_units (uptime_text ps) = Some (sum_list (map (\<lambda>(n, u). n * (case unit_seconds u of Some k \<Rightarrow> k | None \<Rightarrow> 0)) ps))"
proof (induction ps)
  case (Cons p ps)
  obtain n u where p: "p = (n, u)" by fastforce
  obtain k where k: "unit_seconds u = Some k" using Cons.prems(2) [of n u] by (auto simp: p)
  have num: "number (string_of_nat n @ u # rest) = Some (n, u # rest)" for rest
    using number_of_nat [of "u # rest" n] unit_not_digit [OF k] by simp
  show ?case
  proof (cases "ps = []")
    case True
    then show ?thesis by (simp add: uptime_text_def p sum_units.simps num k)
  next
    case False
    have "uptime_text ps \<noteq> []" using False by (cases ps) (auto simp: uptime_text_def)
    then show ?thesis
      using Cons.IH [OF False] Cons.prems(2) num [of "uptime_text ps"]
      by (auto simp: p k sum_units.simps [of "string_of_nat n @ u # uptime_text ps"] uptime_text_def [of "(n, u) # ps"] uptime_text_def [of ps, symmetric])
  qed
qed simp

theorem uptimes_are_understood:
  assumes "ps \<noteq> []" and "\<And>n u. (n, u) \<in> set ps \<Longrightarrow> unit_seconds u \<noteq> None"
  shows "uptime_seconds (uptime_text ps) = Some (sum_list (map (\<lambda>(n, u). n * (case unit_seconds u of Some k \<Rightarrow> k | None \<Rightarrow> 0)) ps))"
  using sum_units_text [OF assms] by (simp add: uptime_seconds_def)

theorem uptimes_are_understood_witness:
  "uptime_seconds ''1w2d3s'' = Some 777603"
proof -
  have "uptime_text [(1, CHR ''w''), (2, CHR ''d''), (3, CHR ''s'')] = ''1w2d3s''" by code_simp
  moreover have "uptime_seconds (uptime_text [(1, CHR ''w''), (2, CHR ''d''), (3, CHR ''s'')]) = Some 777603"
    by (subst uptimes_are_understood) (auto simp: unit_seconds_def)
  ultimately show ?thesis by simp
qed

text \<open>Every interface is there once, under a name of one to 128 characters.\<close>

lemma interfaces_of_names:
  "list_all (\<lambda>x. if_label x \<noteq> [] \<and> length (if_label x) \<le> 128 \<and> if_label x \<notin> set names) (interfaces_of shown num names rws)
   \<and> distinct (map if_label (interfaces_of shown num names rws))"
proof (induction shown num names rws rule: interfaces_of.induct)
  case (2 shown num names row rws)
  let ?name = "take 128 (shown (get_default row ''name'' (PStr [])))"
  show ?case
  proof (cases "?name = [] \<or> ?name \<in> set names")
    case True
    then have "interfaces_of shown num names (row # rws) = interfaces_of shown num names rws" by (simp add: Let_def)
    then show ?thesis using 2(1) [OF refl True] by simp
  next
    case False
    have rest: "list_all (\<lambda>x. if_label x \<noteq> [] \<and> length (if_label x) \<le> 128 \<and> if_label x \<notin> set (?name # names))
        (interfaces_of shown num (?name # names) rws) \<and> distinct (map if_label (interfaces_of shown num (?name # names) rws))"
      using 2(2) [OF refl False] by simp
    obtain x where x: "interfaces_of shown num names (row # rws) = x # interfaces_of shown num (?name # names) rws" "if_label x = ?name"
      using False by (simp add: Let_def)
    have "if_label x \<noteq> [] \<and> length (if_label x) \<le> 128 \<and> if_label x \<notin> set names" using False unfolding x(2) by simp
    moreover have "if_label x \<notin> set (map if_label (interfaces_of shown num (?name # names) rws))"
      using rest unfolding x(2) by (auto simp: list_all_iff)
    ultimately show ?thesis using rest unfolding x(1) by (auto simp: list_all_iff)
  qed
qed simp

theorem interfaces_are_named_once:
  assumes "normalize shown num raw = Inr d"
  shows "distinct (map if_label (rd_interfaces d)) \<and> [] \<notin> set (map if_label (rd_interfaces d))"
proof -
  have "rd_interfaces d = interfaces_of shown num [] (get_default (fst raw) ''interface'' [])"
    using assms by (auto simp: normalize_def Let_def split: prod.splits list.splits)
  then show ?thesis using interfaces_of_names [of "[]" shown num "get_default (fst raw) ''interface'' []"] by (force simp: list_all_iff)
qed

lemma read_tables_get:
  "read_tables rd ps d errs = (d', errs') \<Longrightarrow>
     dict_get d' p = (if p \<in> set ps then (case rd p of Inr rs \<Rightarrow> Some rs | Inl _ \<Rightarrow> dict_get d p) else dict_get d p)
     \<and> dict_get errs' p = (if p \<in> set ps then (case rd p of Inl e \<Rightarrow> Some e | Inr _ \<Rightarrow> dict_get errs p) else dict_get errs p)"
  by (induction rd ps d errs rule: read_tables.induct) (auto split: sum.splits)

lemma read_core_get:
  "read_core rd ps = Inr d \<Longrightarrow> dict_get d p = (if p \<in> set ps then (case rd p of Inr rs \<Rightarrow> Some rs | Inl _ \<Rightarrow> None) else None)"
  by (induction ps arbitrary: d) (auto split: sum.splits)

lemma first_seen_set [simp]: "set (first_seen xs) = set xs"
  by (simp add: first_seen_def)

text \<open>
  A table that was asked for is either collected or its error is noted, never both; a failure of an optional table loses no other.
\<close>

theorem tables_are_collected_or_noted:
  assumes "collect_device rd groups = Inr (tables, errs)" and "g \<in> set groups" and "dict_get table_groups g = Some p" and "p \<notin> set core_paths"
  shows "(dict_get tables p, dict_get errs p) = (case rd p of Inr rs \<Rightarrow> (Some rs, None) | Inl e \<Rightarrow> (None, Some e))"
proof -
  obtain d where d: "read_core rd core_paths = Inr d"
    "read_tables rd (map (\<lambda>g. get_default table_groups g []) (first_seen groups)) d [] = (tables, errs)"
    using assms(1) by (auto simp: collect_device_def split: sum.splits)
  have "p \<in> set (map (\<lambda>g. get_default table_groups g []) (first_seen groups))"
    using assms(2,3) by (force simp: get_default_def)
  then show ?thesis
    using read_tables_get [OF d(2), of p] read_core_get [OF d(1), of p] assms(4) by (auto split: sum.splits)
qed

theorem tables_are_collected_or_noted_witness:
  "(case collect_device (\<lambda>p. if p = ''ip/arp'' then Inl Denied else Inr [[(''name'', ''r'')]]) [''arp'', ''dhcp''] of
      Inl _ \<Rightarrow> False
    | Inr (tables, errs) \<Rightarrow> dict_get errs ''ip/arp'' = Some Denied \<and> dict_get tables ''ip/dhcp-server/lease'' = Some [[(''name'', ''r'')]])"
proof -
  let ?rd = "\<lambda>p. if p = ''ip/arp'' then Inl Denied else Inr [[(''name'', ''r'')]]"
  have "(case collect_device ?rd [''arp'', ''dhcp''] of Inl _ \<Rightarrow> False | Inr _ \<Rightarrow> True)" by code_simp
  then obtain tables errs where c: "collect_device ?rd [''arp'', ''dhcp''] = Inr (tables, errs)" by (auto split: sum.splits)
  have "dict_get errs ''ip/arp'' = Some Denied"
    using tables_are_collected_or_noted [OF c, of "''arp''" "''ip/arp''"] by (simp add: table_groups_def core_paths_def)
  moreover have "dict_get tables ''ip/dhcp-server/lease'' = Some [[(''name'', ''r'')]]"
    using tables_are_collected_or_noted [OF c, of "''dhcp''" "''ip/dhcp-server/lease''"] by (simp add: table_groups_def core_paths_def)
  ultimately show ?thesis by (simp add: c)
qed

section \<open>The last success\<close>

definition device_ids :: "pyval list \<Rightarrow> string list" where
  "device_ids vs = map (\<lambda>v. case get_default (the_pairs v) ''id'' PNone of PStr s \<Rightarrow> s | _ \<Rightarrow> []) vs"

lemma find_poll: "i \<in> set is \<Longrightarrow> List.find (\<lambda>d. ds_id d = i) (map (device_poll col t st) is) = Some (device_poll col t st i)"
  by (induction "is") (auto simp: device_poll_def split: sum.splits)

lemma last_success_poll:
  assumes "configured_devices vd cfg = Inr vs" and "py_or cfg (PDict []) = PDict d" and "truthy (get_default d ''enabled'' PNone)"
    and "i \<in> set (device_ids vs)"
  shows "last_success (poll_routers vd col t cfg st) i = (case col i of Inr _ \<Rightarrow> Some t | Inl _ \<Rightarrow> last_success st i)"
proof -
  have devices: "rm_devices (poll_routers vd col t cfg st) = map (device_poll col t st) (device_ids vs)"
    using assms(1-3) by (simp add: poll_routers_def Let_def device_ids_def)
  have "List.find (\<lambda>d. ds_id d = i) (rev (map (device_poll col t st) (device_ids vs))) = Some (device_poll col t st i)"
    using find_poll [of i "rev (device_ids vs)"] assms(4) by (simp add: rev_map)
  then show ?thesis by (simp add: last_success_def devices device_poll_def split: sum.splits)
qed

definition router_polls ::
  "(pyval \<Rightarrow> router_error + validated) \<Rightarrow> pyval \<Rightarrow> (real \<times> (string \<Rightarrow> router_error + router_data)) list \<Rightarrow> router_monitor \<Rightarrow> router_monitor" where
  "router_polls vd cfg ps st = fold (\<lambda>(t, col). poll_routers vd col t cfg) ps st"

text \<open>C35: 
  However often a router fails, its last success is the time of the last poll in which it answered, as long as the configuration
  stays as it is.
\<close>

theorem last_success_is_kept:
  assumes "configured_devices vd cfg = Inr vs" and "py_or cfg (PDict []) = PDict d" and "truthy (get_default d ''enabled'' PNone)"
    and "i \<in> set (device_ids vs)"
  shows "last_success (router_polls vd cfg ps st) i
    = (case List.filter (\<lambda>(t, col). case col i of Inr _ \<Rightarrow> True | Inl _ \<Rightarrow> False) ps of
         [] \<Rightarrow> last_success st i
       | oks \<Rightarrow> Some (fst (List.last oks)))"
proof (induction ps rule: rev_induct)
  case (snoc p ps)
  obtain t col where p: "p = (t, col)" by fastforce
  have "router_polls vd cfg (ps @ [p]) st = poll_routers vd col t cfg (router_polls vd cfg ps st)" by (simp add: router_polls_def p)
  then show ?case
    using last_success_poll [OF assms, of col t "router_polls vd cfg ps st"] snoc by (auto simp: p split: sum.splits list.splits)
qed (simp add: router_polls_def)

text \<open>One poll with a configuration that is not valid, or with the polling switched off, forgets every last success.\<close>

theorem invalid_configuration_forgets:
  assumes "configured_devices vd cfg = Inl e"
  shows "last_success (poll_routers vd col t cfg st) i = None"
  using assms by (auto simp: poll_routers_def Let_def last_success_def)

section \<open>Examples\<close>

theorem lengths_are_read_back_witness:
  "\<exists>c'. api_length [[0x81], [0x2C, 7]] = (Inr 300, c') \<and> delivers c' [7]"
proof -
  have e: "encode_length 300 = Inr [0x81, 0x2C]" by (simp add: encode_length_def api_max_bytes_def octets_of_simps)
  show ?thesis
    by (rule lengths_are_read_back [OF e]) (simp add: delivers_def)
qed

definition ex_enc :: "string \<Rightarrow> nat list" where "ex_enc = map of_char"
definition ex_dec :: "nat list \<Rightarrow> string option" where "ex_dec bs = Some (map char_of bs)"

definition ex_reply_bytes :: "nat list" where
  "ex_reply_bytes = [3] @ ex_enc ''!re'' @ [8] @ ex_enc ''=name=r1'' @ [0, 5] @ ex_enc ''!done'' @ [0]"

text \<open>The same answer in two pieces.\<close>

theorem exchange_reads_the_answer_witness:
  "fst (fst (exchange ex_dec [ex_enc ''/login''] [take 6 ex_reply_bytes, drop 6 ex_reply_bytes])) = Inr ([[(''name'', ''r1'')]], [])"
proof -
  have dec: "ex_dec (ex_enc t) = Some t" for t by (simp add: ex_dec_def ex_enc_def comp_def)
  have empty: "ex_enc t = [] \<Longrightarrow> t = []" for t by (simp add: ex_enc_def)
  have asked: "encode_words [ex_enc ''/login''] = Inr ([6] @ ex_enc ''/login'')"
    by (simp add: encode_word_def encode_length_def api_max_bytes_def ex_enc_def)
  have answer: "encode_words (concat (map (sentence_words ex_enc) (map (Cons ''!re'') [[''=name=r1'']] @ [''!done'' # []]))) = Inr ex_reply_bytes"
    by (simp add: encode_word_def encode_length_def api_max_bytes_def ex_enc_def sentence_words_def ex_reply_bytes_def)
  have d: "delivers [take 6 ex_reply_bytes, drop 6 ex_reply_bytes] (ex_reply_bytes @ [])" by (simp add: delivers_def ex_reply_bytes_def ex_enc_def)
  have bounds: "word_bytes ex_enc (map (Cons ''!re'') [[''=name=r1'']] @ [''!done'' # []]) \<le> api_max_bytes"
    "length [[''=name=r1'']] \<le> max_rows" "word_count (map (Cons ''!re'') [[''=name=r1'']] @ [''!done'' # []]) \<le> max_words"
    by (simp_all add: word_bytes_def word_count_def api_max_bytes_def max_rows_def max_words_def ex_enc_def)
  have words: "[] \<notin> \<Union> (set (map set ([] # [[''=name=r1'']])))" by simp
  have attrs: "map (\<lambda>r. sentence_attrs (''!re'' # r)) [[''=name=r1'']] = [[(''name'', ''r1'')]]" "sentence_attrs (''!done'' # []) = []"
    by code_simp+
  show ?thesis
    using exchange_reads_the_answer [OF dec empty asked answer d bounds words] unfolding attrs by auto
qed

definition ex_routers :: pyval where
  "ex_routers = PDict [(''enabled'', PBool True), (''devices'', PList [PDict [(''id'', PStr ''r1'')]])]"

definition ex_valid :: "pyval \<Rightarrow> router_error + validated" where
  "ex_valid v = Inr \<lparr>vd_host = ''h'', vd_port = 443, vd_timeout = 5\<rparr>"

definition ex_data :: router_data where
  "ex_data = \<lparr>rd_identity = [], rd_version = [], rd_board = [], rd_cpu = None, rd_free = None, rd_total = None, rd_uptime = None,
     rd_interfaces = [], rd_details = [], rd_errors = []\<rparr>"

theorem last_success_is_kept_witness:
  "last_success (router_polls ex_valid ex_routers [(1, \<lambda>_. Inr ex_data), (2, \<lambda>_. Inl Unreachable), (3, \<lambda>_. Inl Timed_Out)]
     \<lparr>rm_enabled = False, rm_devices = [], rm_error = None\<rparr>) ''r1'' = Some 1"
proof -
  have c: "configured_devices ex_valid ex_routers = Inr [PDict [(''id'', PStr ''r1'')]]"
    by (simp add: configured_devices_def ex_routers_def get_default_def ex_valid_def py_or_def)
  have p: "py_or ex_routers (PDict []) = PDict [(''enabled'', PBool True), (''devices'', PList [PDict [(''id'', PStr ''r1'')]])]"
    by (simp add: ex_routers_def py_or_def)
  have e: "truthy (get_default [(''enabled'', PBool True), (''devices'', PList [PDict [(''id'', PStr ''r1'')]])] ''enabled'' PNone)"
    by (simp add: get_default_def)
  have i: "''r1'' \<in> set (device_ids [PDict [(''id'', PStr ''r1'')]])" by (simp add: device_ids_def the_pairs_def get_default_def)
  show ?thesis by (subst last_success_is_kept [OF c p e i]) simp
qed

end
