(* ===== verification/Shares.thy ===== *)
theory Shares
  imports Prelude "HOL-Library.List_Lexorder" "HOL-Library.Char_ord"
begin

text \<open>
  The files that a node offers to the mesh: paths, the catalogue, manifests and the sending side of
  \<open>p2p_core/services/files/service.py\<close>. A path is the list of its parts below the root of a POSIX file system. What the file system
  holds is an argument: the files by their real path, the real path of a path (links and \<open>..\<close> followed), the walk of a directory.
\<close>

section \<open>Paths\<close>

type_synonym path = "string list"

definition path_parts :: "string \<Rightarrow> string list" where
  "path_parts s = filter (\<lambda>p. p \<noteq> [] \<and> p \<noteq> ''.'') (split_on CHR ''/'' s)"

definition is_absolute :: "string \<Rightarrow> bool" where
  "is_absolute s \<longleftrightarrow> begins ''/'' s"

definition posix :: "path \<Rightarrow> string" where
  "posix p = join ''/'' p"

record stored_file =
  fi_bytes :: string
  fi_mtime :: int

record share =
  sh_name :: string
  sh_path :: string
  sh_allow :: "string list"
  sh_chunk :: int

text \<open>\<open>fe_walk\<close> are the files below a directory, by their parts relative to it; \<open>None\<close> when it is none. \<open>fi_mtime\<close> is in nanoseconds.\<close>

record files_env =
  fe_cwd :: path
  fe_real :: "path \<Rightarrow> path"
  fe_file :: "path \<Rightarrow> stored_file option"
  fe_walk :: "path \<Rightarrow> path list option"
  fe_sha :: "string \<Rightarrow> string"
  fe_max_chunk :: int

definition located :: "files_env \<Rightarrow> string \<Rightarrow> path" where
  "located e s = (if is_absolute s then path_parts s else fe_cwd e @ path_parts s)"

definition root_of :: "files_env \<Rightarrow> share \<Rightarrow> path" where
  "root_of e s = fe_real e (located e (sh_path s))"

definition safe_join :: "files_env \<Rightarrow> string \<Rightarrow> string \<Rightarrow> path option" where
  "safe_join e dir rel =
     (if rel = [] \<or> is_absolute rel \<or> ''..'' \<in> set (path_parts rel) then None
      else let p = fe_real e (located e dir @ path_parts rel); base = fe_real e (located e dir)
           in if take (length base) p = base then Some p else None)"

section \<open>Names that match a pattern\<close>

text \<open>\<open>fnmatch.fnmatch\<close> on POSIX: \<open>*\<close>, \<open>?\<close> and sets in brackets; an open bracket that is never closed stands for itself.\<close>

fun upto_close :: "string \<Rightarrow> (string \<times> string) option" where
  "upto_close [] = None"
| "upto_close (c # cs) = (if c = CHR '']'' then Some ([], cs) else map_option (apfst (Cons c)) (upto_close cs))"

definition bracket :: "string \<Rightarrow> (string \<times> string) option" where
  "bracket s =
     (let n1 = (case s of c # _ \<Rightarrow> if c = CHR ''!'' then 1 else 0 | [] \<Rightarrow> 0);
          n2 = (case drop n1 s of c # _ \<Rightarrow> if c = CHR '']'' then n1 + 1 else n1 | [] \<Rightarrow> n1)
      in map_option (apfst (\<lambda>x. take n2 s @ x)) (upto_close (drop n2 s)))"

fun ranges :: "string \<Rightarrow> (char \<times> char) list" where
  "ranges (a # m # b # cs) = (if m = CHR ''-'' then (a, b) # ranges cs else (a, a) # ranges (m # b # cs))"
| "ranges (a # cs) = (a, a) # ranges cs"
| "ranges [] = []"

definition in_bracket :: "string \<Rightarrow> char \<Rightarrow> bool" where
  "in_bracket body c =
     (let inside = (\<lambda>x. list_ex (\<lambda>(a, b). a \<le> c \<and> c \<le> b) (ranges x))
      in case body of [] \<Rightarrow> False | k # x \<Rightarrow> if k = CHR ''!'' then \<not> inside x else inside body)"

lemma upto_close_shorter: "upto_close s = Some (x, r) \<Longrightarrow> length r < length s"
  by (induction s arbitrary: x) (auto split: if_splits)

lemma bracket_shorter: "bracket s = Some (x, r) \<Longrightarrow> length r < length s"
  using upto_close_shorter by (fastforce simp: bracket_def Let_def)

function fnmatch :: "string \<Rightarrow> string \<Rightarrow> bool" where
  "fnmatch [] s = (s = [])"
| "fnmatch (c # p) s =
     (if c = CHR ''*'' then fnmatch p s \<or> (case s of [] \<Rightarrow> False | _ # t \<Rightarrow> fnmatch (c # p) t)
      else if c = CHR ''?'' then s \<noteq> [] \<and> fnmatch p (tl s)
      else case (if c = CHR ''['' then bracket p else None) of
             Some (body, r) \<Rightarrow> s \<noteq> [] \<and> in_bracket body (hd s) \<and> fnmatch r (tl s)
           | None \<Rightarrow> s \<noteq> [] \<and> hd s = c \<and> fnmatch p (tl s))"
  by pat_completeness auto
termination
  by (relation "measure (\<lambda>(p, s). length p + length s)") (auto dest!: bracket_shorter split: if_splits)

section \<open>The catalogue\<close>

record listed_file =
  en_path :: string
  en_size :: nat
  en_mtime :: int

definition listed_entry :: "path \<Rightarrow> stored_file \<Rightarrow> listed_file" where
  "listed_entry r f = \<lparr>en_path = posix r, en_size = length (fi_bytes f), en_mtime = fi_mtime f div 10 ^ 9\<rparr>"

definition scan :: "files_env \<Rightarrow> share \<Rightarrow> listed_file list" where
  "scan e s =
     (case fe_walk e (located e (sh_path s)) of
        None \<Rightarrow> []
      | Some rs \<Rightarrow> sort_key en_path (List.map_filter (\<lambda>r. map_option (listed_entry r) (fe_file e (fe_real e (located e (sh_path s) @ r)))) rs))"

type_synonym hash_cache = "(path, (nat \<times> int) \<times> string) dict"

definition missing_file :: exn where
  "missing_file = ServiceError ''FileNotFoundError'' []"

text \<open>\<open>_ensure_id\<close>: the digest of a file, remembered by its size and time.\<close>

definition ensure_id :: "files_env \<Rightarrow> path \<Rightarrow> hash_cache \<Rightarrow> (exn + string) \<times> hash_cache" where
  "ensure_id e p cache =
     (case fe_file e p of
        None \<Rightarrow> (Inl missing_file, cache)
      | Some f \<Rightarrow>
          (let key = (length (fi_bytes f), fi_mtime f); fresh = fe_sha e (fi_bytes f)
           in case dict_get cache p of
                Some (k, h) \<Rightarrow> if k = key then (Inr h, cache) else (Inr fresh, dict_set p (key, fresh) cache)
              | None \<Rightarrow> (Inr fresh, dict_set p (key, fresh) cache)))"

fun find_entry :: "files_env \<Rightarrow> string \<Rightarrow> share \<Rightarrow> listed_file list \<Rightarrow> hash_cache \<Rightarrow> (exn + (string \<times> string) option) \<times> hash_cache" where
  "find_entry e fid s [] cache = (Inr None, cache)"
| "find_entry e fid s (x # xs) cache =
     (case safe_join e (sh_path s) (en_path x) of
        None \<Rightarrow> find_entry e fid s xs cache
      | Some p \<Rightarrow>
          (case ensure_id e p cache of
             (Inl err, cache') \<Rightarrow> (Inl err, cache')
           | (Inr h, cache') \<Rightarrow> if h = fid then (Inr (Some (sh_name s, en_path x)), cache') else find_entry e fid s xs cache'))"

fun find_by_id :: "files_env \<Rightarrow> string \<Rightarrow> share list \<Rightarrow> hash_cache \<Rightarrow> (exn + (string \<times> string) option) \<times> hash_cache" where
  "find_by_id e fid [] cache = (Inr None, cache)"
| "find_by_id e fid (s # ss) cache =
     (case find_entry e fid s (scan e s) cache of
        (Inr None, cache') \<Rightarrow> find_by_id e fid ss cache'
      | found \<Rightarrow> found)"

text \<open>A reference: a share and a path in it, or the digest of the content. A part that is missing is the empty text.\<close>

record file_ref =
  rf_share :: string
  rf_path :: string
  rf_id :: string

datatype ref_error = Unknown_Id string | Unknown_Share string | Unknown_File string string

definition locate :: "files_env \<Rightarrow> share list \<Rightarrow> string \<Rightarrow> string \<Rightarrow> ref_error + share \<times> path" where
  "locate e shares name rel =
     (case find (\<lambda>s. sh_name s = name) shares of
        None \<Rightarrow> Inl (Unknown_Share name)
      | Some s \<Rightarrow>
          (case safe_join e (sh_path s) rel of
             None \<Rightarrow> Inl (Unknown_File name rel)
           | Some p \<Rightarrow> if fe_file e p = None then Inl (Unknown_File name rel) else Inr (s, p)))"

definition resolve_ref :: "files_env \<Rightarrow> share list \<Rightarrow> file_ref \<Rightarrow> hash_cache \<Rightarrow> (exn + ref_error + share \<times> path) \<times> hash_cache" where
  "resolve_ref e shares ref cache =
     (if rf_id ref \<noteq> [] \<and> rf_share ref = [] then
        (case find_by_id e (rf_id ref) shares cache of
           (Inl x, cache') \<Rightarrow> (Inl x, cache')
         | (Inr None, cache') \<Rightarrow> (Inr (Inl (Unknown_Id (take 12 (rf_id ref)))), cache')
         | (Inr (Some (name, rel)), cache') \<Rightarrow> (Inr (locate e shares name rel), cache'))
      else (Inr (locate e shares (rf_share ref) (rf_path ref)), cache))"

definition acl_ok :: "share \<Rightarrow> string \<Rightarrow> bool" where
  "acl_ok s node \<longleftrightarrow> sh_allow s = [] \<or> canon node \<in> set (map canon (sh_allow s))"

record file_manifest =
  mf_id :: string
  mf_share :: string
  mf_path :: string
  mf_size :: nat
  mf_mtime :: int
  mf_chunk :: int

definition build_manifest :: "files_env \<Rightarrow> share \<Rightarrow> path \<Rightarrow> int \<Rightarrow> hash_cache \<Rightarrow> (exn + file_manifest) \<times> hash_cache" where
  "build_manifest e s p chunk cache =
     (case fe_file e p of
        None \<Rightarrow> (Inl missing_file, cache)
      | Some f \<Rightarrow>
          (case ensure_id e p cache of
             (Inl x, cache') \<Rightarrow> (Inl x, cache')
           | (Inr h, cache') \<Rightarrow>
               if take (length (root_of e s)) p \<noteq> root_of e s then (Inl ValueError, cache')
               else (Inr \<lparr>mf_id = h, mf_share = sh_name s, mf_path = posix (drop (length (root_of e s)) p), mf_size = length (fi_bytes f),
                          mf_mtime = fi_mtime f div 10 ^ 9, mf_chunk = chunk\<rparr>, cache')))"

section \<open>Requests\<close>

definition list_shares :: "files_env \<Rightarrow> share list \<Rightarrow> (string \<times> nat \<times> nat) list" where
  "list_shares e shares = map (\<lambda>s. (sh_name s, length (scan e s), sum_list (map en_size (scan e s)))) shares"

text \<open>\<open>_find_sync\<close>: rows until there are as many as the limit, and whether it stopped there. A limit of zero is 500.\<close>

fun collect_rows :: "int \<Rightarrow> 'a list \<Rightarrow> 'a list \<Rightarrow> 'a list \<times> bool" where
  "collect_rows n rows [] = (rows, False)"
| "collect_rows n rows (x # xs) = (if n \<le> int (length rows) + 1 then (rows @ [x], True) else collect_rows n (rows @ [x]) xs)"

definition find_files :: "files_env \<Rightarrow> share list \<Rightarrow> string \<Rightarrow> string \<Rightarrow> int \<Rightarrow> (string \<times> listed_file) list \<times> bool" where
  "find_files e shares want pattern limit =
     collect_rows (if limit = 0 then 500 else limit) []
       (concat (map (\<lambda>s. map (Pair (sh_name s)) (filter (\<lambda>x. fnmatch (if pattern = [] then ''*'' else pattern) (en_path x)) (scan e s)))
          (filter (\<lambda>s. want = [] \<or> sh_name s = want) shares)))"

text \<open>The size of the chunks: what is asked for, or that of the share, but no more than the configured limit.\<close>

definition chunk_size_for :: "files_env \<Rightarrow> share \<Rightarrow> int \<Rightarrow> int" where
  "chunk_size_for e s asked = min (if asked = 0 then sh_chunk s else asked) (fe_max_chunk e)"

definition stat_file :: "files_env \<Rightarrow> share list \<Rightarrow> file_ref \<Rightarrow> int \<Rightarrow> hash_cache \<Rightarrow> (exn + ref_error + file_manifest) \<times> hash_cache" where
  "stat_file e shares ref asked cache =
     (case resolve_ref e shares ref cache of
        (Inl x, cache') \<Rightarrow> (Inl x, cache')
      | (Inr (Inl err), cache') \<Rightarrow> (Inr (Inl err), cache')
      | (Inr (Inr (s, p)), cache') \<Rightarrow> apfst (map_sum id Inr) (build_manifest e s p (chunk_size_for e s asked) cache'))"

datatype read_answer = Read_Bytes string | Read_Refused ref_error | Read_Too_Big nat int

definition read_limit :: "int \<Rightarrow> int" where
  "read_limit asked = min (max (if asked = 0 then 262144 else asked) 1) (1024 * 1024)"

definition read_file :: "files_env \<Rightarrow> share list \<Rightarrow> file_ref \<Rightarrow> int \<Rightarrow> hash_cache \<Rightarrow> (exn + read_answer) \<times> hash_cache" where
  "read_file e shares ref asked cache =
     (case resolve_ref e shares ref cache of
        (Inl x, cache') \<Rightarrow> (Inl x, cache')
      | (Inr (Inl err), cache') \<Rightarrow> (Inr (Read_Refused err), cache')
      | (Inr (Inr (s, p)), cache') \<Rightarrow>
          (case fe_file e p of
             None \<Rightarrow> (Inl missing_file, cache')
           | Some f \<Rightarrow>
               (Inr (if read_limit asked < int (length (fi_bytes f)) then Read_Too_Big (length (fi_bytes f)) (read_limit asked)
                     else Read_Bytes (fi_bytes f)), cache')))"

section \<open>Sharing a directory\<close>

datatype share_error = Need_Path | No_Directory string | Bad_Name | Name_Taken string | Already_Shared string | Not_Saved | No_Share string

definition chunk_for_share :: "files_env \<Rightarrow> int \<Rightarrow> int" where
  "chunk_for_share e asked = max 1024 (min (if asked = 0 then 262144 else asked) (fe_max_chunk e))"

text \<open>What the configuration keeps of a share: its validator canonises the names of the nodes.\<close>

definition validated_share :: "share \<Rightarrow> share" where
  "validated_share s = s\<lparr>sh_allow := map canon (sh_allow s)\<rparr>"

definition add_share ::
  "files_env \<Rightarrow> bool \<Rightarrow> string \<Rightarrow> string \<Rightarrow> string list \<Rightarrow> int \<Rightarrow> share list \<Rightarrow> (share_error + share) \<times> share list" where
  "add_share e saved raw name allow asked shares =
     (if raw = [] then (Inl Need_Path, shares)
      else let real = fe_real e (located e raw)
           in if fe_walk e real = None then (Inl (No_Directory raw), shares)
              else let nm = (if py_strip name = [] then (if real = [] then [] else last real) else py_strip name)
                   in if CHR ''/'' \<in> set nm \<or> CHR 0x5C \<in> set nm then (Inl Bad_Name, shares)
                      else if list_ex (\<lambda>s. sh_name s = nm) shares then (Inl (Name_Taken nm), shares)
                      else case find (\<lambda>s. root_of e s = real) shares of
                             Some s \<Rightarrow> (Inl (Already_Shared (sh_name s)), shares)
                           | None \<Rightarrow>
                               (let new = \<lparr>sh_name = nm, sh_path = CHR ''/'' # posix real, sh_allow = allow, sh_chunk = chunk_for_share e asked\<rparr>
                                in if saved then (Inr new, map validated_share (shares @ [new])) else (Inl Not_Saved, shares)))"

definition remove_share :: "bool \<Rightarrow> string \<Rightarrow> share list \<Rightarrow> (share_error + unit) \<times> share list" where
  "remove_share saved name shares =
     (let left = filter (\<lambda>s. sh_name s \<noteq> name) shares
      in if length left = length shares then (Inl (No_Share name), shares)
         else if saved then (Inr (), map validated_share left) else (Inl Not_Saved, shares))"

section \<open>Sending a file\<close>

text \<open>\<open>_chunk_file\<close>: \<open>read(n)\<close> with a negative number reads everything, or raises when it is not -1.\<close>

function read_chunks :: "nat \<Rightarrow> string \<Rightarrow> string list" where
  "read_chunks n bs = (if bs = [] \<or> n = 0 then [] else take n bs # read_chunks n (drop n bs))"
  by pat_completeness auto
termination by (relation "measure (\<lambda>(n, bs). length bs)") auto

declare read_chunks.simps [simp del]

definition chunk_file :: "string \<Rightarrow> nat \<Rightarrow> int \<Rightarrow> exn + string list" where
  "chunk_file bs offset n =
     (if n < -1 then Inl ValueError
      else Inr (if n = -1 then (if drop offset bs = [] then [] else [drop offset bs]) else read_chunks (nat n) (drop offset bs)))"

record serving =
  sv_peer :: string
  sv_share :: string
  sv_path :: string
  sv_size :: nat
  sv_offset :: nat

record serve_request =
  rq_label :: string
  rq_peer :: string
  rq_ref :: file_ref
  rq_chunk :: int
  rq_offset :: int

datatype serve_error = Need_Label_And_Peer | Label_Busy | No_Ref ref_error | Access_Denied string

record source =
  so_serves :: "(string, serving) dict"
  so_cache :: hash_cache

text \<open>\<open>serve\<close>: the manifest and the chunks that the dispatcher will take from the generator.\<close>

definition serve :: "files_env \<Rightarrow> share list \<Rightarrow> serve_request \<Rightarrow> source \<Rightarrow> (exn + serve_error + file_manifest \<times> (exn + string list)) \<times> source" where
  "serve e shares rq st =
     (if rq_label rq = [] \<or> rq_peer rq = [] then (Inr (Inl Need_Label_And_Peer), st)
      else if dict_get (so_serves st) (rq_label rq) \<noteq> None then (Inr (Inl Label_Busy), st)
      else case resolve_ref e shares (rq_ref rq) (so_cache st) of
             (Inl x, c) \<Rightarrow> (Inl x, st\<lparr>so_cache := c\<rparr>)
           | (Inr (Inl err), c) \<Rightarrow> (Inr (Inl (No_Ref err)), st\<lparr>so_cache := c\<rparr>)
           | (Inr (Inr (s, p)), c) \<Rightarrow>
               if \<not> acl_ok s (rq_peer rq) then (Inr (Inl (Access_Denied (sh_name s))), st\<lparr>so_cache := c\<rparr>)
               else case build_manifest e s p (chunk_size_for e s (rq_chunk rq)) c of
                      (Inl x, c') \<Rightarrow> (Inl x, st\<lparr>so_cache := c'\<rparr>)
                    | (Inr man, c') \<Rightarrow>
                        (let offset = nat (max 0 (rq_offset rq)); bs = (case fe_file e p of None \<Rightarrow> [] | Some f \<Rightarrow> fi_bytes f)
                         in (Inr (Inr (man, chunk_file bs offset (mf_chunk man))),
                             \<lparr>so_serves = dict_set (rq_label rq) \<lparr>sv_peer = rq_peer rq, sv_share = sh_name s, sv_path = mf_path man,
                                sv_size = length bs, sv_offset = offset\<rparr> (so_serves st), so_cache = c'\<rparr>)))"

text \<open>The \<open>finally\<close> of \<open>_tracked_read\<close>\<close>

definition end_serve :: "string \<Rightarrow> source \<Rightarrow> source" where
  "end_serve label st = st\<lparr>so_serves := dict_pop label (so_serves st)\<rparr>"

section \<open>Chunks\<close>

lemma read_chunks_simps:
  "read_chunks n [] = []" "0 < n \<Longrightarrow> bs \<noteq> [] \<Longrightarrow> read_chunks n bs = take n bs # read_chunks n (drop n bs)"
  by (simp_all add: read_chunks.simps [of n])

lemma read_chunks_rejoin:
  assumes "0 < n"
  shows "concat (read_chunks n bs) = bs" and "\<forall>c \<in> set (read_chunks n bs). c \<noteq> [] \<and> length c \<le> n"
proof -
  have "concat (read_chunks n bs) = bs \<and> (\<forall>c \<in> set (read_chunks n bs). c \<noteq> [] \<and> length c \<le> n)"
  proof (induction bs rule: length_induct)
    case (1 bs)
    show ?case
    proof (cases "bs = []")
      case False
      then have "length (drop n bs) < length bs" using assms by simp
      with "1.IH" have "concat (read_chunks n (drop n bs)) = drop n bs \<and> (\<forall>c \<in> set (read_chunks n (drop n bs)). c \<noteq> [] \<and> length c \<le> n)"
        by blast
      with False assms show ?thesis unfolding read_chunks_simps(2) [OF assms False] by simp
    qed (simp add: read_chunks_simps(1))
  qed
  then show "concat (read_chunks n bs) = bs" "\<forall>c \<in> set (read_chunks n bs). c \<noteq> [] \<and> length c \<le> n" by blast+
qed

section \<open>Nothing outside the shares\<close>

lemma safe_join_Some:
  "safe_join e dir rel = Some p \<longleftrightarrow> rel \<noteq> [] \<and> \<not> is_absolute rel \<and> ''..'' \<notin> set (path_parts rel)
     \<and> p = fe_real e (located e dir @ path_parts rel) \<and> take (length (fe_real e (located e dir))) p = fe_real e (located e dir)"
  by (auto simp: safe_join_def Let_def)

lemma locate_Inr:
  assumes "locate e shares name rel = Inr (s, p)"
  shows "s \<in> set shares" and "sh_name s = name" and "\<exists>rest. p = root_of e s @ rest" and "\<exists>f. fe_file e p = Some f"
proof -
  from assms have s: "find (\<lambda>s. sh_name s = name) shares = Some s" and p: "safe_join e (sh_path s) rel = Some p" and f: "fe_file e p \<noteq> None"
    by (auto simp: locate_def split: option.splits if_splits)
  from s show "s \<in> set shares" "sh_name s = name" by (auto simp: find_Some_iff)
  from p have "take (length (root_of e s)) p = root_of e s" unfolding safe_join_Some root_of_def by blast
  then have "p = root_of e s @ drop (length (root_of e s)) p" by (metis append_take_drop_id)
  then show "\<exists>rest. p = root_of e s @ rest" ..
  from f show "\<exists>f. fe_file e p = Some f" by auto
qed

lemma resolve_ref_Inr:
  assumes "resolve_ref e shares ref cache = (Inr (Inr (s, p)), cache')"
  shows "\<exists>name rel. locate e shares name rel = Inr (s, p)"
  using assms by (auto simp: resolve_ref_def split: if_splits prod.splits sum.splits option.splits)

text \<open>Bytes of a file whose real path lies below the real path of a share.\<close>

definition offered :: "files_env \<Rightarrow> share list \<Rightarrow> string \<Rightarrow> bool" where
  "offered e shares bs \<longleftrightarrow> (\<exists>s \<in> set shares. \<exists>rest f. fe_file e (root_of e s @ rest) = Some f \<and> fi_bytes f = bs)"

lemma resolved_is_offered:
  assumes "resolve_ref e shares ref cache = (Inr (Inr (s, p)), cache')" and "fe_file e p = Some f"
  shows "offered e shares (fi_bytes f)"
proof -
  from resolve_ref_Inr [OF assms(1)] obtain name rel where l: "locate e shares name rel = Inr (s, p)" by blast
  from locate_Inr(3) [OF l] obtain rest where "p = root_of e s @ rest" ..
  with locate_Inr(1) [OF l] assms(2) show ?thesis unfolding offered_def by blast
qed

lemma read_file_bytes:
  assumes "fst (read_file e shares ref n cache) = Inr (Read_Bytes bs)"
  shows "offered e shares bs"
  using assms resolved_is_offered [of e shares ref cache]
  by (auto simp: read_file_def split: prod.splits sum.splits option.splits if_splits)

lemma build_manifest_Inr:
  assumes "build_manifest e s p n cache = (Inr man, cache')" and "fe_file e p = Some f"
  shows "mf_share man = sh_name s" and "mf_path man = posix (drop (length (root_of e s)) p)"
  using assms by (auto simp: build_manifest_def split: prod.splits sum.splits if_splits)

lemma serve_chunks:
  assumes "fst (serve e shares rq st) = Inr (Inr (man, Inr chunks))"
  shows "\<exists>s \<in> set shares. \<exists>rest f. sh_name s = mf_share man \<and> acl_ok s (rq_peer rq) \<and> fe_file e (root_of e s @ rest) = Some f
    \<and> mf_path man = posix rest \<and> chunk_file (fi_bytes f) (nat (max 0 (rq_offset rq))) (mf_chunk man) = Inr chunks"
proof -
  from assms obtain s p c where r: "resolve_ref e shares (rq_ref rq) (so_cache st) = (Inr (Inr (s, p)), c)" and acl: "acl_ok s (rq_peer rq)"
    by (auto simp: serve_def Let_def split: if_splits prod.splits sum.splits)
  from resolve_ref_Inr [OF r] obtain name rel where l: "locate e shares name rel = Inr (s, p)" by blast
  from locate_Inr(4) [OF l] obtain f where f: "fe_file e p = Some f" ..
  from locate_Inr(3) [OF l] obtain rest where rest: "p = root_of e s @ rest" ..
  have "chunk_file (fi_bytes f) (nat (max 0 (rq_offset rq))) (mf_chunk man) = Inr chunks"
    and "\<exists>n c'. build_manifest e s p n c = (Inr man, c')"
    using assms r acl f by (auto simp: serve_def Let_def split: if_splits prod.splits sum.splits)
  moreover from this(2) obtain n c' where "build_manifest e s p n c = (Inr man, c')" by blast
  note build_manifest_Inr [OF this f]
  ultimately show ?thesis using locate_Inr(1) [OF l] acl f rest by (intro bexI [of _ s] exI [of _ rest] exI [of _ f]) simp_all
qed

lemma chunk_file_part:
  assumes "chunk_file bs k n = Inr chunks"
  shows "\<exists>us vs. bs = us @ concat chunks @ vs"
proof -
  have "\<not> n < -1" using assms by (auto simp: chunk_file_def)
  then consider "n = -1" | "n = 0" | "0 < n" by linarith
  then have "concat chunks = drop k bs \<or> chunks = []"
  proof cases
    case 3
    with assms have "chunks = read_chunks (nat n) (drop k bs)" by (auto simp: chunk_file_def split: if_splits)
    with 3 read_chunks_rejoin(1) [of "nat n" "drop k bs"] show ?thesis by simp
  qed (use assms in \<open>auto simp: chunk_file_def read_chunks.simps split: if_splits\<close>)
  moreover have "bs = take k bs @ drop k bs @ []" by simp
  ultimately show ?thesis by (metis append_Nil concat.simps(1) append_Nil2)
qed

text \<open>C7: 
  Whatever a request names (dots, links, absolute paths, digests), the bytes that are read belong to a file whose real path lies
  below the real path of a share. What is sent to a peer is a piece of the file that the manifest names, in the share it names,
  and that share lets the peer in.
\<close>

theorem only_shared_files_leave:
  "(fst (read_file e shares ref n cache) = Inr (Read_Bytes bs) \<longrightarrow> offered e shares bs)
   \<and> (fst (serve e shares rq st) = Inr (Inr (man, Inr chunks)) \<longrightarrow>
       (\<exists>s \<in> set shares. \<exists>rest f us vs. sh_name s = mf_share man \<and> acl_ok s (rq_peer rq) \<and> fe_file e (root_of e s @ rest) = Some f
          \<and> mf_path man = posix rest \<and> fi_bytes f = us @ concat chunks @ vs))"
proof (intro conjI impI)
  assume "fst (read_file e shares ref n cache) = Inr (Read_Bytes bs)"
  then show "offered e shares bs" by (rule read_file_bytes)
next
  assume "fst (serve e shares rq st) = Inr (Inr (man, Inr chunks))"
  from serve_chunks [OF this] obtain s rest f
    where s: "s \<in> set shares" "sh_name s = mf_share man" "acl_ok s (rq_peer rq)" "fe_file e (root_of e s @ rest) = Some f" "mf_path man = posix rest"
    and c: "chunk_file (fi_bytes f) (nat (max 0 (rq_offset rq))) (mf_chunk man) = Inr chunks" by blast
  from chunk_file_part [OF c] obtain us vs where "fi_bytes f = us @ concat chunks @ vs" by blast
  with s show "\<exists>s \<in> set shares. \<exists>rest f us vs. sh_name s = mf_share man \<and> acl_ok s (rq_peer rq) \<and> fe_file e (root_of e s @ rest) = Some f
      \<and> mf_path man = posix rest \<and> fi_bytes f = us @ concat chunks @ vs" by blast
qed

text \<open>
  The chunks of a file, read from an offset with any positive size of chunk, put together are the file from that offset on, and none is
  empty or longer than its size.
\<close>

theorem chunks_rejoin:
  assumes "0 < n"
  shows "\<exists>chunks. chunk_file bs k n = Inr chunks \<and> concat chunks = drop k bs \<and> (\<forall>c \<in> set chunks. c \<noteq> [] \<and> length c \<le> nat n)"
  using assms read_chunks_rejoin [of "nat n" "drop k bs"] by (auto simp: chunk_file_def)

text \<open>
  The list of allowed nodes guards only the transfer: what a share refuses to send to a peer, the request \<open>read\<close> answers to everyone,
  as long as it is small.
\<close>

theorem read_ignores_acl:
  assumes "resolve_ref e shares ref (so_cache st) = (Inr (Inr (s, p)), c)" and "fe_file e p = Some f" and "length (fi_bytes f) \<le> 262144"
    and "\<not> acl_ok s (rq_peer rq)" and "rq_ref rq = ref" and "rq_label rq \<noteq> []" and "rq_peer rq \<noteq> []" and "dict_get (so_serves st) (rq_label rq) = None"
  shows "fst (serve e shares rq st) = Inr (Inl (Access_Denied (sh_name s)))
    \<and> fst (read_file e shares ref 0 (so_cache st)) = Inr (Read_Bytes (fi_bytes f))"
  using assms by (simp add: serve_def read_file_def read_limit_def)

text \<open>
  A negative size of chunk passes the limit on it: with -1 the whole rest of the file is one chunk, however large, and below that the
  stream breaks before its first chunk.
\<close>

theorem negative_chunk_passes_limit:
  assumes "resolve_ref e shares (rq_ref rq) (so_cache st) = (Inr (Inr (s, p)), c)" and "fe_file e p = Some f" and "acl_ok s (rq_peer rq)"
    and "rq_label rq \<noteq> []" and "rq_peer rq \<noteq> []" and "dict_get (so_serves st) (rq_label rq) = None" and "rq_offset rq = 0" and "fi_bytes f \<noteq> []"
    and "rq_chunk rq < 0" and "0 < fe_max_chunk e"
  shows "\<exists>man. fst (serve e shares rq st) = Inr (Inr (man, if rq_chunk rq = -1 then Inr [fi_bytes f] else Inl ValueError))"
proof -
  from resolve_ref_Inr [OF assms(1)] obtain name rel where l: "locate e shares name rel = Inr (s, p)" by blast
  from locate_Inr(3) [OF l] have pre: "take (length (root_of e s)) p = root_of e s" by auto
  have "\<exists>h. fst (ensure_id e p c) = Inr h" using assms(2) by (auto simp: ensure_id_def Let_def split: option.split)
  then obtain h c' where h: "ensure_id e p c = (Inr h, c')" by (cases "ensure_id e p c") auto
  have "chunk_size_for e s (rq_chunk rq) = rq_chunk rq" using assms(9,10) by (simp add: chunk_size_for_def)
  then have "\<exists>man. build_manifest e s p (chunk_size_for e s (rq_chunk rq)) c = (Inr man, c') \<and> mf_chunk man = rq_chunk rq"
    using assms(2) pre h by (simp add: build_manifest_def)
  then show ?thesis using assms by (auto simp: serve_def Let_def chunk_file_def)
qed

section \<open>Digests\<close>

text \<open>A sequence of questions for digests while the disk changes, answered through the cache, and the answers without it.\<close>

fun ids_asked :: "(files_env \<times> path) list \<Rightarrow> hash_cache \<Rightarrow> (exn + string) list" where
  "ids_asked [] cache = []"
| "ids_asked ((e, p) # qs) cache = (let (h, cache') = ensure_id e p cache in h # ids_asked qs cache')"

definition digest_of :: "files_env \<Rightarrow> path \<Rightarrow> exn + string" where
  "digest_of e p = (case fe_file e p of None \<Rightarrow> Inl missing_file | Some f \<Rightarrow> Inr (fe_sha e (fi_bytes f)))"

definition file_stamp :: "stored_file \<Rightarrow> nat \<times> int" where
  "file_stamp f = (length (fi_bytes f), fi_mtime f)"

text \<open>Size and time tell the contents of a file apart.\<close>

definition stamps_tell :: "(files_env \<times> path) set \<Rightarrow> bool" where
  "stamps_tell Q \<longleftrightarrow> (\<forall>e e' p f f'. (e, p) \<in> Q \<longrightarrow> (e', p) \<in> Q \<longrightarrow> fe_file e p = Some f \<longrightarrow> fe_file e' p = Some f' \<longrightarrow>
     file_stamp f = file_stamp f' \<longrightarrow> fi_bytes f = fi_bytes f')"

definition cache_true :: "(string \<Rightarrow> string) \<Rightarrow> (files_env \<times> path) set \<Rightarrow> hash_cache \<Rightarrow> bool" where
  "cache_true sha Q cache \<longleftrightarrow> (\<forall>p k h. dict_get cache p = Some (k, h) \<longrightarrow>
     (\<exists>e f. (e, p) \<in> Q \<and> fe_file e p = Some f \<and> k = file_stamp f \<and> h = sha (fi_bytes f)))"

lemma ensure_id_true:
  assumes "stamps_tell Q" and "(e, p) \<in> Q" and "fe_sha e = sha" and "cache_true sha Q cache"
  shows "fst (ensure_id e p cache) = digest_of e p" and "cache_true sha Q (snd (ensure_id e p cache))"
proof -
  have old: "h = sha (fi_bytes f)" if "fe_file e p = Some f" "dict_get cache p = Some (file_stamp f, h)" for f h
    using assms that unfolding cache_true_def stamps_tell_def by metis
  show "fst (ensure_id e p cache) = digest_of e p"
    using old assms(3) by (auto simp: ensure_id_def digest_of_def file_stamp_def Let_def split: option.splits prod.splits if_splits)
  have "cache_true sha Q (dict_set p (file_stamp f, sha (fi_bytes f)) cache)" if "fe_file e p = Some f" for f
    using assms(2,4) that unfolding cache_true_def by auto
  then show "cache_true sha Q (snd (ensure_id e p cache))"
    using assms(3,4) by (auto simp: ensure_id_def file_stamp_def Let_def split: option.splits)
qed

lemma ids_asked_true:
  "set qs \<subseteq> Q \<Longrightarrow> stamps_tell Q \<Longrightarrow> (\<forall>(e, p) \<in> Q. fe_sha e = sha) \<Longrightarrow> cache_true sha Q cache \<Longrightarrow>
    ids_asked qs cache = map (\<lambda>(e, p). digest_of e p) qs"
proof (induction qs arbitrary: cache)
  case (Cons q qs)
  obtain e p where q: "q = (e, p)" by (cases q)
  then have "(e, p) \<in> Q" "fe_sha e = sha" using Cons.prems by auto
  note step = ensure_id_true [OF Cons.prems(2) this Cons.prems(4)]
  have "ids_asked qs (snd (ensure_id e p cache)) = map (\<lambda>(e, p). digest_of e p) qs"
    using Cons.prems step(2) by (intro Cons.IH) auto
  with step(1) show ?case by (simp add: q case_prod_unfold)
qed simp

text \<open>
  As long as files with the same size and time have the same content, every digest that is told is that of the content at that
  moment, whatever was asked before and however the disk has changed since.
\<close>

theorem cached_digests_are_true:
  assumes "stamps_tell (set qs)" and "\<forall>(e, p) \<in> set qs. fe_sha e = sha"
  shows "ids_asked qs [] = map (\<lambda>(e, p). digest_of e p) qs"
  by (rule ids_asked_true [OF order_refl assms]) (simp add: cache_true_def)

section \<open>The list of shares\<close>

text \<open>What \<open>resolve\<close> documents: the real path of a real path is itself, and its parts are names.\<close>

definition plain_part :: "string \<Rightarrow> bool" where
  "plain_part p \<longleftrightarrow> p \<noteq> [] \<and> p \<noteq> ''.'' \<and> CHR ''/'' \<notin> set p"

definition real_ok :: "files_env \<Rightarrow> bool" where
  "real_ok e \<longleftrightarrow> (\<forall>p. fe_real e (fe_real e p) = fe_real e p \<and> list_all plain_part (fe_real e p))"

lemma parts_posix: "list_all plain_part p \<Longrightarrow> path_parts (posix p) = p"
proof (cases "p = []")
  case False
  assume "list_all plain_part p"
  with False show ?thesis
    by (auto simp: path_parts_def posix_def split_on_join plain_part_def list_all_iff filter_id_conv)
qed (simp add: path_parts_def posix_def)

lemma parts_rooted: "list_all plain_part p \<Longrightarrow> path_parts (CHR ''/'' # posix p) = p"
  using parts_posix [of p] by (simp add: path_parts_def)

definition slash_free :: "string \<Rightarrow> bool" where
  "slash_free n \<longleftrightarrow> CHR ''/'' \<notin> set n \<and> CHR 0x5C \<notin> set n"

definition shares_ok :: "files_env \<Rightarrow> share list \<Rightarrow> bool" where
  "shares_ok e shares \<longleftrightarrow> distinct (map sh_name shares) \<and> distinct (map (root_of e) shares) \<and> (\<forall>s \<in> set shares. slash_free (sh_name s))"

lemma validated_frame [simp]: "sh_name (validated_share s) = sh_name s" "root_of e (validated_share s) = root_of e s"
  by (simp_all add: validated_share_def root_of_def)

lemma shares_ok_validated [simp]: "shares_ok e (map validated_share shares) \<longleftrightarrow> shares_ok e shares"
  by (simp add: shares_ok_def comp_def)

lemma shares_ok_add:
  assumes "real_ok e" and "shares_ok e shares"
  shows "shares_ok e (snd (add_share e saved raw name allow asked shares))"
proof -
  have "root_of e \<lparr>sh_name = n, sh_path = CHR ''/'' # posix (fe_real e p), sh_allow = a, sh_chunk = c\<rparr> = fe_real e p" for n a c p
    using assms(1) by (simp add: real_ok_def root_of_def located_def is_absolute_def parts_rooted)
  note new = this
  show ?thesis
  proof (cases "add_share e saved raw name allow asked shares")
    case (Pair answer left)
    show ?thesis
    proof (cases answer)
      case (Inl err)
      with Pair have "left = shares"
        unfolding add_share_def Let_def by (simp split: if_splits option.splits)
      with Pair assms(2) show ?thesis by simp
    next
      case (Inr x)
      define real where "real = fe_real e (located e raw)"
      define nm where "nm = (if py_strip name = [] then (if real = [] then [] else last real) else py_strip name)"
      from Pair Inr have x: "x = \<lparr>sh_name = nm, sh_path = CHR ''/'' # posix real, sh_allow = allow, sh_chunk = chunk_for_share e asked\<rparr>"
        and left: "left = map validated_share (shares @ [x])" and nm: "slash_free nm" "\<not> list_ex (\<lambda>s. sh_name s = nm) shares"
        and other: "find (\<lambda>s. root_of e s = real) shares = None"
        unfolding add_share_def Let_def real_def [symmetric] nm_def [symmetric] slash_free_def by (auto split: if_split_asm option.split_asm)
      have "shares_ok e (shares @ [x])"
        using assms(2) nm other new [of nm "located e raw" allow "chunk_for_share e asked"]
        by (auto simp: x shares_ok_def real_def [symmetric] list_ex_iff find_None_iff)
      then show ?thesis using Pair left by (simp only: snd_conv shares_ok_validated)
    qed
  qed
qed

lemma shares_ok_remove: "shares_ok e shares \<Longrightarrow> shares_ok e (snd (remove_share saved name shares))"
proof -
  assume ok: "shares_ok e shares"
  then have "shares_ok e (filter P shares)" for P by (auto simp: shares_ok_def intro: distinct_map_filter)
  then show ?thesis using ok unfolding remove_share_def Let_def by (auto simp del: map_map)
qed

datatype share_request = Add_Share string string "string list" int bool | Remove_Share string bool

fun share_step :: "files_env \<Rightarrow> share_request \<Rightarrow> share list \<Rightarrow> share list" where
  "share_step e (Add_Share raw name allow asked saved) shares = snd (add_share e saved raw name allow asked shares)"
| "share_step e (Remove_Share name saved) shares = snd (remove_share saved name shares)"

text \<open>Over any requests no two shares have one name or one directory, and no name can be taken for a path.\<close>

theorem shares_stay_distinct:
  assumes "real_ok e" and "shares_ok e shares"
  shows "shares_ok e (fold (share_step e) requests shares)"
  using assms
proof (induction requests arbitrary: shares)
  case (Cons r rs)
  have "shares_ok e (share_step e r shares)" using Cons.prems by (cases r) (auto intro: shares_ok_add shares_ok_remove)
  with Cons show ?case by simp
qed simp

text \<open>
  What the catalogue lists can be fetched under the name it is listed with: when the file does not leave its share by a link, the
  request finds it, and with the size that was listed.
\<close>

theorem listed_files_are_found:
  assumes "shares_ok e shares" and "s \<in> set shares" and "fe_walk e (located e (sh_path s)) = Some rs" and "r \<in> set rs"
    and "r \<noteq> []" and "list_all plain_part r" and "''..'' \<notin> set r" and "fe_file e (fe_real e (located e (sh_path s) @ r)) = Some f"
    and "take (length (root_of e s)) (fe_real e (located e (sh_path s) @ r)) = root_of e s"
  shows "listed_entry r f \<in> set (scan e s)
    \<and> locate e shares (sh_name s) (en_path (listed_entry r f)) = Inr (s, fe_real e (located e (sh_path s) @ r))
    \<and> en_size (listed_entry r f) = length (fi_bytes f)"
proof -
  have found: "find (\<lambda>t. sh_name t = sh_name s) shares = Some s"
  proof -
    have "find (\<lambda>t. sh_name t = sh_name s) shares \<noteq> None" using assms(2) by (auto simp: find_None_iff)
    then obtain t where t: "find (\<lambda>t. sh_name t = sh_name s) shares = Some t" by blast
    then have "t \<in> set shares" "sh_name t = sh_name s" by (auto simp: find_Some_iff)
    then have "t = s" using assms(1,2) by (auto simp: shares_ok_def distinct_map inj_on_def)
    with t show ?thesis by simp
  qed
  have parts: "path_parts (posix r) = r" by (rule parts_posix [OF assms(6)])
  have "posix r \<noteq> []" using parts assms(5) by (auto simp: path_parts_def)
  moreover have "\<not> is_absolute (posix r)"
  proof (cases r)
    case (Cons p ps)
    with assms(6) have "p \<noteq> []" "CHR ''/'' \<notin> set p" by (auto simp: plain_part_def)
    moreover from this have "hd p \<noteq> CHR ''/''" using hd_in_set [of p] by metis
    moreover have "hd (posix r) = hd p" using Cons \<open>p \<noteq> []\<close> by (cases ps) (simp_all add: posix_def)
    ultimately show ?thesis using \<open>posix r \<noteq> []\<close> by (cases "posix r") (auto simp: is_absolute_def)
  qed (use assms(5) in simp)
  ultimately have "safe_join e (sh_path s) (posix r) = Some (fe_real e (located e (sh_path s) @ r))"
    using assms(7,9) by (simp add: safe_join_Some parts root_of_def)
  then show ?thesis
    using assms(3,4,8) found by (force simp: locate_def listed_entry_def scan_def map_filter_def)
qed

section \<open>An example\<close>

definition ex_share :: share where
  "ex_share = \<lparr>sh_name = ''media'', sh_path = ''/srv'', sh_allow = [''nas''], sh_chunk = 4\<rparr>"

definition ex_files_env :: files_env where
  "ex_files_env = \<lparr>fe_cwd = [], fe_real = id, fe_file = (\<lambda>p. if p = [''srv'', ''a.txt''] then Some \<lparr>fi_bytes = ''hello'', fi_mtime = 7\<rparr> else None),
     fe_walk = (\<lambda>p. if p = [''srv''] then Some [[''a.txt'']] else None), fe_sha = (\<lambda>bs. CHR ''#'' # bs), fe_max_chunk = 100\<rparr>"

definition ex_ref :: file_ref where
  "ex_ref = \<lparr>rf_share = ''media'', rf_path = ''a.txt'', rf_id = []\<rparr>"

definition ex_serve_request :: "string \<Rightarrow> int \<Rightarrow> serve_request" where
  "ex_serve_request peer chunk = \<lparr>rq_label = ''l1'', rq_peer = peer, rq_ref = ex_ref, rq_chunk = chunk, rq_offset = 0\<rparr>"

definition ex_source :: source where
  "ex_source = \<lparr>so_serves = [], so_cache = []\<rparr>"

lemma ex_resolves: "resolve_ref ex_files_env [ex_share] ex_ref [] = (Inr (Inr (ex_share, [''srv'', ''a.txt''])), [])"
  by code_simp

theorem only_shared_files_leave_witness:
  "offered ex_files_env [ex_share] ''hello''
   \<and> (\<exists>man chunks rest f us vs. fst (serve ex_files_env [ex_share] (ex_serve_request ''nas'' 2) ex_source) = Inr (Inr (man, Inr chunks))
        \<and> sh_name ex_share = mf_share man \<and> acl_ok ex_share ''nas'' \<and> fe_file ex_files_env (root_of ex_files_env ex_share @ rest) = Some f
        \<and> mf_path man = posix rest \<and> fi_bytes f = us @ concat chunks @ vs)"
proof
  have "fst (read_file ex_files_env [ex_share] ex_ref 0 []) = Inr (Read_Bytes ''hello'')" by code_simp
  with only_shared_files_leave [of ex_files_env "[ex_share]" ex_ref 0 "[]" "''hello''"] show "offered ex_files_env [ex_share] ''hello''" by blast
  have "case fst (serve ex_files_env [ex_share] (ex_serve_request ''nas'' 2) ex_source) of Inr (Inr (man, Inr chunks)) \<Rightarrow> True | _ \<Rightarrow> False"
    by code_simp
  then have "\<exists>man chunks. fst (serve ex_files_env [ex_share] (ex_serve_request ''nas'' 2) ex_source) = Inr (Inr (man, Inr chunks))"
    by (auto split: sum.splits prod.splits) (metis sumE)
  then obtain man chunks where m: "fst (serve ex_files_env [ex_share] (ex_serve_request ''nas'' 2) ex_source) = Inr (Inr (man, Inr chunks))"
    by blast
  with only_shared_files_leave [of ex_files_env "[ex_share]" ex_ref 0 "[]" "''hello''" "ex_serve_request ''nas'' 2" ex_source man chunks]
  show "\<exists>man chunks rest f us vs. fst (serve ex_files_env [ex_share] (ex_serve_request ''nas'' 2) ex_source) = Inr (Inr (man, Inr chunks))
        \<and> sh_name ex_share = mf_share man \<and> acl_ok ex_share ''nas'' \<and> fe_file ex_files_env (root_of ex_files_env ex_share @ rest) = Some f
        \<and> mf_path man = posix rest \<and> fi_bytes f = us @ concat chunks @ vs"
    by (auto simp: ex_serve_request_def)
qed

theorem chunks_rejoin_witness: "\<exists>chunks. chunk_file ''hello'' 1 3 = Inr chunks \<and> concat chunks = ''ello''"
  using chunks_rejoin [of 3 "''hello''" 1] by auto

theorem read_ignores_acl_witness:
  "fst (serve ex_files_env [ex_share] (ex_serve_request ''stranger'' 0) ex_source) = Inr (Inl (Access_Denied ''media''))
   \<and> fst (read_file ex_files_env [ex_share] ex_ref 0 []) = Inr (Read_Bytes ''hello'')"
proof -
  have "\<not> acl_ok ex_share ''stranger''" by code_simp
  then show ?thesis
    using read_ignores_acl [of ex_files_env "[ex_share]" ex_ref ex_source ex_share "[''srv'', ''a.txt'']" "[]" "\<lparr>fi_bytes = ''hello'', fi_mtime = 7\<rparr>"
        "ex_serve_request ''stranger'' 0"] ex_resolves
    by (simp add: ex_serve_request_def ex_source_def ex_files_env_def [of] ex_share_def [of])
qed

theorem negative_chunk_passes_limit_witness:
  "\<exists>man. fst (serve ex_files_env [ex_share] (ex_serve_request ''nas'' (-1)) ex_source) = Inr (Inr (man, Inr [''hello'']))"
proof -
  have "acl_ok ex_share ''nas''" by code_simp
  moreover have "fe_file ex_files_env [''srv'', ''a.txt''] = Some \<lparr>fi_bytes = ''hello'', fi_mtime = 7\<rparr>" "0 < fe_max_chunk ex_files_env" by (simp_all add: ex_files_env_def)
  ultimately show ?thesis
    using negative_chunk_passes_limit [of ex_files_env "[ex_share]" "ex_serve_request ''nas'' (-1)" ex_source ex_share "[''srv'', ''a.txt'']" "[]"
        "\<lparr>fi_bytes = ''hello'', fi_mtime = 7\<rparr>"] ex_resolves
    by (simp add: ex_serve_request_def ex_source_def)
qed

theorem cached_digests_are_true_witness:
  "ids_asked [(ex_files_env, [''srv'', ''a.txt'']), (ex_files_env\<lparr>fe_file := (\<lambda>_. Some \<lparr>fi_bytes = ''bye'', fi_mtime = 8\<rparr>)\<rparr>, [''srv'', ''a.txt''])] []
     = [Inr ''#hello'', Inr ''#bye'']"
proof -
  let ?qs = "[(ex_files_env, [''srv'', ''a.txt'']), (ex_files_env\<lparr>fe_file := (\<lambda>_. Some \<lparr>fi_bytes = ''bye'', fi_mtime = 8\<rparr>)\<rparr>, [''srv'', ''a.txt''])]"
  have "stamps_tell (set ?qs)" by (auto simp: stamps_tell_def ex_files_env_def file_stamp_def)
  moreover have "\<forall>(e, p) \<in> set ?qs. fe_sha e = fe_sha ex_files_env" by simp
  ultimately show ?thesis using cached_digests_are_true [of ?qs "fe_sha ex_files_env"] by (simp add: digest_of_def ex_files_env_def)
qed

theorem shares_stay_distinct_witness:
  "shares_ok (ex_files_env\<lparr>fe_real := (\<lambda>_. [''srv''])\<rparr>)
     (fold (share_step (ex_files_env\<lparr>fe_real := (\<lambda>_. [''srv''])\<rparr>)) [Add_Share ''/srv'' ''b'' [] 0 True, Remove_Share ''media'' True] [ex_share])"
  by (rule shares_stay_distinct)
    (simp_all add: real_ok_def plain_part_def shares_ok_def slash_free_def ex_share_def)

theorem listed_files_are_found_witness:
  "locate ex_files_env [ex_share] ''media'' ''a.txt'' = Inr (ex_share, [''srv'', ''a.txt''])"
  using listed_files_are_found [of ex_files_env "[ex_share]" ex_share "[[''a.txt'']]" "[''a.txt'']" "\<lparr>fi_bytes = ''hello'', fi_mtime = 7\<rparr>"]
  by (simp add: shares_ok_def slash_free_def ex_share_def ex_files_env_def located_def path_parts_def is_absolute_def plain_part_def root_of_def
      listed_entry_def posix_def)

end
