(* ===== verification/Transfers.thy ===== *)
theory Transfers
  imports Shares
begin

text \<open>
  The receiving side of the transport of files, \<open>p2p_core/services/files/service.py\<close>: a download, the consumer of its stream, the check of
  what arrived and the move to its final name. The disk has names and contents apart, as POSIX has: a file that is open goes on being
  written when its name is moved or removed. The dictionary of a download is an object that the table and the consumer share.
\<close>

section \<open>The disk\<close>

record disk_state =
  dk_names :: "(path, nat) dict"
  dk_nodes :: "string list"
  dk_dirs :: "path list"

definition content :: "disk_state \<Rightarrow> path \<Rightarrow> string option" where
  "content d p = map_option (\<lambda>i. dk_nodes d ! i) (dict_get (dk_names d) p)"

definition put_node :: "nat \<Rightarrow> string \<Rightarrow> disk_state \<Rightarrow> disk_state" where
  "put_node i bs d = d\<lparr>dk_nodes := (dk_nodes d)[i := bs]\<rparr>"

definition create_file :: "path \<Rightarrow> disk_state \<Rightarrow> nat \<times> disk_state" where
  "create_file p d = (length (dk_nodes d), d\<lparr>dk_names := dict_set p (length (dk_nodes d)) (dk_names d), dk_nodes := dk_nodes d @ [[]]\<rparr>)"

text \<open>\<open>open(p, "wb")\<close> and \<open>open(p, "ab")\<close>\<close>

definition open_write :: "path \<Rightarrow> disk_state \<Rightarrow> nat \<times> disk_state" where
  "open_write p d = (case dict_get (dk_names d) p of Some i \<Rightarrow> (i, put_node i [] d) | None \<Rightarrow> create_file p d)"

definition open_append :: "path \<Rightarrow> disk_state \<Rightarrow> nat \<times> disk_state" where
  "open_append p d = (case dict_get (dk_names d) p of Some i \<Rightarrow> (i, d) | None \<Rightarrow> create_file p d)"

text \<open>A write at a position, filling a gap with zero bytes, or at the end for a file opened to append.\<close>

definition written :: "nat option \<Rightarrow> string \<Rightarrow> string \<Rightarrow> string" where
  "written pos bs old =
     (case pos of
        None \<Rightarrow> old @ bs
      | Some k \<Rightarrow> take k (old @ replicate (k - length old) (char_of (0::nat))) @ bs @ drop (k + length bs) old)"

definition write_node :: "nat \<Rightarrow> nat option \<Rightarrow> string \<Rightarrow> disk_state \<Rightarrow> disk_state" where
  "write_node i pos bs d = put_node i (written pos bs (dk_nodes d ! i)) d"

definition unlink :: "path \<Rightarrow> disk_state \<Rightarrow> disk_state" where
  "unlink p d = d\<lparr>dk_names := dict_pop p (dk_names d)\<rparr>"

text \<open>\<open>os.replace\<close>\<close>

definition replace_file :: "path \<Rightarrow> path \<Rightarrow> disk_state \<Rightarrow> exn + disk_state" where
  "replace_file from_path to_path d =
     (case dict_get (dk_names d) from_path of
        None \<Rightarrow> Inl missing_file
      | Some i \<Rightarrow> if to_path \<in> set (dk_dirs d) then Inl (ServiceError ''IsADirectoryError'' [])
                  else Inr (d\<lparr>dk_names := dict_set to_path i (dict_pop from_path (dk_names d))\<rparr>))"

section \<open>Downloads\<close>

datatype tr_status = Tr_Running | Tr_Done | Tr_Error

datatype tr_failure = Wrong_Size nat int | Wrong_Digest | Part_Gone | Cut_Off nat int | Serve_Failed string | Copy_Failed | Move_Failed exn

record transfer =
  tr_src :: string
  tr_final :: path
  tr_tmp :: path
  tr_id :: string
  tr_size :: int
  tr_received :: nat
  tr_resumed :: nat
  tr_status :: tr_status
  tr_failure :: "tr_failure option"
  tr_started :: real
  tr_finished :: real
  tr_window :: "(real \<times> nat) list"

text \<open>A consumer of a stream: the label of the stream, its download, the open file with the position in it.\<close>

record consumer =
  cs_label :: string
  cs_object :: nat
  cs_node :: nat
  cs_pos :: "nat option"
  cs_received :: nat
  cs_open :: bool

record receiver =
  rv_objects :: "transfer list"
  rv_table :: "(string, nat) dict"
  rv_disk :: disk_state
  rv_consumers :: "consumer list"
  rv_acks :: "string list"

record receiver_env =
  re_dir :: path
  re_digest :: "string \<Rightarrow> string"

definition new_receiver :: "disk_state \<Rightarrow> receiver" where
  "new_receiver d = \<lparr>rv_objects = [], rv_table = [], rv_disk = d, rv_consumers = [], rv_acks = []\<rparr>"

text \<open>\<open>_target_path\<close>: the last part of the name that is asked for, whichever slashes it has, in the directory of the downloads.\<close>

definition save_name :: "string \<Rightarrow> string" where
  "save_name s = (let ps = path_parts (map (\<lambda>c. if c = CHR 0x5C then CHR ''/'' else c) s) in if ps = [] then ''unnamed'' else last ps)"

definition target_path :: "receiver_env \<Rightarrow> string \<Rightarrow> path" where
  "target_path e s = re_dir e @ [save_name s]"

definition part_path :: "receiver_env \<Rightarrow> string \<Rightarrow> path" where
  "part_path e s = re_dir e @ [save_name s @ ''.part'']"

text \<open>The fields of a reference, nested under \<open>ref\<close> or flat.\<close>

definition ref_fields :: "(string, pyval) dict \<Rightarrow> (string, pyval) dict" where
  "ref_fields d = filter (\<lambda>(k, v). k \<in> {''share'', ''path'', ''id''} \<and> truthy v) d"

definition download_ref :: "(string, pyval) dict \<Rightarrow> (string, pyval) dict" where
  "download_ref data =
     (case dict_get data ''ref'' of
        Some (PDict d) \<Rightarrow> if ref_fields d = [] then ref_fields data else ref_fields d
      | _ \<Rightarrow> ref_fields data)"

definition part_size :: "disk_state \<Rightarrow> path \<Rightarrow> nat" where
  "part_size d p = (case content d p of None \<Rightarrow> 0 | Some bs \<Rightarrow> length bs)"

definition resume_offset :: "bool \<Rightarrow> int \<Rightarrow> disk_state \<Rightarrow> path \<Rightarrow> nat" where
  "resume_offset resume size_told d p = (let k = (if resume then part_size d p else 0) in if size_told < int k then 0 else k)"

definition set_object :: "nat \<Rightarrow> transfer \<Rightarrow> receiver \<Rightarrow> receiver" where
  "set_object r x s = s\<lparr>rv_objects := (rv_objects s)[r := x]\<rparr>"

text \<open>
  \<open>download\<close> after the manifest came (its digest and size): \<open>None\<close> when the file is there already, otherwise the offset that the source
  is asked to start at.
\<close>

definition start_download :: "receiver_env \<Rightarrow> string \<Rightarrow> real \<Rightarrow> string \<Rightarrow> string \<Rightarrow> string \<Rightarrow> int \<Rightarrow> bool \<Rightarrow> receiver \<Rightarrow> nat option \<times> receiver" where
  "start_download e label now src save_as digest size_told resume s =
     (let final = target_path e save_as; tmp = part_path e save_as
      in if (case content (rv_disk s) final of None \<Rightarrow> False | Some bs \<Rightarrow> re_digest e bs = digest) then (None, s)
         else let k = resume_offset resume size_told (rv_disk s) tmp
              in (Some k, s\<lparr>rv_objects := rv_objects s @ [\<lparr>tr_src = src, tr_final = final, tr_tmp = tmp, tr_id = digest, tr_size = size_told,
                     tr_received = k, tr_resumed = k, tr_status = Tr_Running, tr_failure = None, tr_started = now, tr_finished = 0,
                     tr_window = [(now, k)]\<rparr>], rv_table := dict_set label (length (rv_objects s)) (rv_table s)\<rparr>))"

definition fail_download :: "string \<Rightarrow> tr_failure \<Rightarrow> real \<Rightarrow> receiver \<Rightarrow> receiver" where
  "fail_download label why now s =
     (case dict_get (rv_table s) label of
        None \<Rightarrow> s
      | Some r \<Rightarrow> set_object r ((rv_objects s ! r)\<lparr>tr_status := Tr_Error, tr_failure := Some why, tr_finished := now\<rparr>) s)"

definition on_disk :: "(disk_state \<Rightarrow> disk_state) \<Rightarrow> receiver \<Rightarrow> receiver" where
  "on_disk f s = s\<lparr>rv_disk := f (rv_disk s)\<rparr>"

text \<open>\<open>_finalize\<close>: the size, the digest, the move; the download must be in the table.\<close>

definition finalize :: "receiver_env \<Rightarrow> string \<Rightarrow> path \<Rightarrow> real \<Rightarrow> receiver \<Rightarrow> exn + receiver" where
  "finalize e label tmp now s =
     (case dict_get (rv_table s) label of
        None \<Rightarrow> Inl (ServiceError ''KeyError'' label)
      | Some r \<Rightarrow>
          (let x = rv_objects s ! r
           in Inr (case content (rv_disk s) tmp of
                     None \<Rightarrow> fail_download label Part_Gone now s
                   | Some bs \<Rightarrow>
                       if int (length bs) \<noteq> tr_size x then on_disk (unlink tmp) (fail_download label (Wrong_Size (length bs) (tr_size x)) now s)
                       else if re_digest e bs \<noteq> tr_id x then on_disk (unlink tmp) (fail_download label Wrong_Digest now s)
                       else case replace_file tmp (tr_final x) (rv_disk s) of
                              Inl err \<Rightarrow> fail_download label (Move_Failed err) now s
                            | Inr d \<Rightarrow> set_object r (x\<lparr>tr_status := Tr_Done, tr_received := nat (tr_size x), tr_finished := now\<rparr>)
                                         (s\<lparr>rv_disk := d\<rparr>))))"

text \<open>A file of this node itself is copied; \<open>None\<close> stands for a file that cannot be copied.\<close>

definition copy_local :: "receiver_env \<Rightarrow> string \<Rightarrow> string option \<Rightarrow> real \<Rightarrow> receiver \<Rightarrow> exn + receiver" where
  "copy_local e label source now s =
     (case dict_get (rv_table s) label of
        None \<Rightarrow> Inr s
      | Some r \<Rightarrow>
          (case source of
             None \<Rightarrow> Inr (fail_download label Copy_Failed now s)
           | Some bs \<Rightarrow>
               (let tmp = tr_tmp (rv_objects s ! r); (i, d) = open_write tmp (rv_disk s)
                in finalize e label tmp now (s\<lparr>rv_disk := put_node i bs d\<rparr>))))"

definition cancel_download :: "string \<Rightarrow> receiver \<Rightarrow> bool \<times> receiver" where
  "cancel_download label s =
     (case dict_get (rv_table s) label of
        None \<Rightarrow> (False, s)
      | Some r \<Rightarrow> (True, on_disk (unlink (tr_tmp (rv_objects s ! r))) (s\<lparr>rv_table := dict_pop label (rv_table s)\<rparr>)))"

section \<open>The stream\<close>

text \<open>
  \<open>prepare_file_in\<close> and the beginning of \<open>consume_file_in\<close>: the download is found by the label in the data of the stream; one that is not
  known gets no consumer that writes. The first acknowledgement comes before the file is opened.
\<close>

definition begin_consumer :: "string \<Rightarrow> string \<Rightarrow> receiver \<Rightarrow> receiver" where
  "begin_consumer stream_label data_label s =
     (case dict_get (rv_table s) data_label of
        None \<Rightarrow> s
      | Some r \<Rightarrow>
          (let x = rv_objects s ! r;
               (i, d) = (if tr_resumed x \<noteq> 0 then open_append (tr_tmp x) (rv_disk s) else open_write (tr_tmp x) (rv_disk s))
           in s\<lparr>rv_disk := d, rv_acks := rv_acks s @ [stream_label],
                rv_consumers := rv_consumers s @ [\<lparr>cs_label = stream_label, cs_object = r, cs_node = i,
                  cs_pos = (if tr_resumed x \<noteq> 0 then None else Some 0), cs_received = tr_resumed x, cs_open = True\<rparr>]\<rparr>))"

definition set_consumer :: "nat \<Rightarrow> consumer \<Rightarrow> receiver \<Rightarrow> receiver" where
  "set_consumer k c s = s\<lparr>rv_consumers := (rv_consumers s)[k := c]\<rparr>"

definition leave_consumer :: "nat \<Rightarrow> receiver \<Rightarrow> receiver" where
  "leave_consumer k s = set_consumer k ((rv_consumers s ! k)\<lparr>cs_open := False\<rparr>) s"

text \<open>A chunk; \<open>room\<close> is whether the pipe has become emptier than its size, so that more is asked for.\<close>

definition consume_chunk :: "nat \<Rightarrow> string \<Rightarrow> bool \<Rightarrow> real \<Rightarrow> receiver \<Rightarrow> receiver" where
  "consume_chunk k chunk room now s =
     (let c = rv_consumers s ! k; r = cs_object c; x = rv_objects s ! r; n = cs_received c + length chunk
      in if tr_status x \<noteq> Tr_Running then leave_consumer k s
         else set_consumer k (c\<lparr>cs_received := n, cs_pos := map_option (\<lambda>q. q + length chunk) (cs_pos c)\<rparr>)
                (set_object r (x\<lparr>tr_received := n, tr_window := drop (length (tr_window x) - 63) (tr_window x) @ [(now, n)]\<rparr>)
                   (s\<lparr>rv_disk := write_node (cs_node c) (cs_pos c) chunk (rv_disk s),
                      rv_acks := (if room then rv_acks s @ [cs_label c] else rv_acks s)\<rparr>)))"

text \<open>The end of the stream. An exception ends the consumer and changes nothing else.\<close>

definition consume_end :: "receiver_env \<Rightarrow> nat \<Rightarrow> real \<Rightarrow> receiver \<Rightarrow> receiver" where
  "consume_end e k now s =
     (let c = rv_consumers s ! k; x = rv_objects s ! cs_object c
      in if tr_status x \<noteq> Tr_Running then leave_consumer k s
         else if int (cs_received c) \<noteq> tr_size x then leave_consumer k (fail_download (cs_label c) (Cut_Off (cs_received c) (tr_size x)) now s)
         else case finalize e (cs_label c) (tr_tmp x) now s of Inl err \<Rightarrow> leave_consumer k s | Inr s' \<Rightarrow> leave_consumer k s')"

section \<open>What the page shows\<close>

definition percent_done :: "transfer \<Rightarrow> int" where
  "percent_done x = min (if tr_size x = 0 then 0 else py_round (100 * real (tr_received x) / of_int (tr_size x))) 100"

text \<open>Bytes per second over the entries of the last ten seconds.\<close>

definition speed_of :: "real \<Rightarrow> transfer \<Rightarrow> real" where
  "speed_of now x =
     (let w = filter (\<lambda>e. now - fst e \<le> 10) (tr_window x)
      in if tr_status x \<noteq> Tr_Running \<or> length w < 2 then 0
         else let dt = fst (last w) - fst (hd w) in if 0 < dt then max 0 ((real (snd (last w)) - real (snd (hd w))) / dt) else 0)"

definition download_rows :: "real \<Rightarrow> receiver \<Rightarrow> (string \<times> transfer \<times> int \<times> int) list" where
  "download_rows now s =
     map (\<lambda>(label, x). (label, x, percent_done x, py_round (speed_of now x)))
       (sort_key (\<lambda>(label, x). - tr_started x) (map (\<lambda>(label, r). (label, rv_objects s ! r)) (rv_table s)))"

section \<open>Any order of these events\<close>

text \<open>
  A label is fresh for every download. A peer chooses both labels of a stream: the one it is opened under and the one in its data. Writes
  reach the disk at once.
\<close>

inductive transfer_step :: "receiver_env \<Rightarrow> receiver \<Rightarrow> receiver \<Rightarrow> bool" for e where
  start: "dict_get (rv_table s) label = None \<Longrightarrow> label \<notin> cs_label ` set (rv_consumers s) \<Longrightarrow>
    start_download e label now src save_as digest size_told resume s = (k, s') \<Longrightarrow> transfer_step e s s'"
| no_serve: "transfer_step e s (fail_download label (Serve_Failed m) now s)"
| copy: "dict_get (rv_table s) label = Some r \<Longrightarrow> tr_status (rv_objects s ! r) = Tr_Running \<Longrightarrow>
    copy_local e label source now s = Inr s' \<Longrightarrow> transfer_step e s s'"
| open_stream: "transfer_step e s (begin_consumer stream_label data_label s)"
| chunk: "i < length (rv_consumers s) \<Longrightarrow> cs_open (rv_consumers s ! i) \<Longrightarrow> transfer_step e s (consume_chunk i bs room now s)"
| at_end: "i < length (rv_consumers s) \<Longrightarrow> cs_open (rv_consumers s ! i) \<Longrightarrow> transfer_step e s (consume_end e i now s)"
| cancel: "transfer_step e s (snd (cancel_download label s))"

text \<open>The streams that \<open>serve\<close> opens carry one label.\<close>

definition one_label :: "receiver \<Rightarrow> receiver \<Rightarrow> bool" where
  "one_label s s' \<longleftrightarrow> (\<forall>sl dl. s' = begin_consumer sl dl s \<longrightarrow> sl = dl \<or> s' = s)"

definition served_step :: "receiver_env \<Rightarrow> receiver \<Rightarrow> receiver \<Rightarrow> bool" where
  "served_step e s s' \<longleftrightarrow> transfer_step e s s' \<and> one_label s s'"

section \<open>What arrives\<close>

lemma content_put_node: "content (put_node i bs d) p =
    (if dict_get (dk_names d) p = Some i \<and> i < length (dk_nodes d) then Some bs else content d p)"
  by (cases "dict_get (dk_names d) p"; cases "i < length (dk_nodes d)") (auto simp: content_def put_node_def nth_list_update list_update_beyond)

lemma disk_frames [simp]:
  "dk_names (put_node i bs d) = dk_names d" "dk_dirs (put_node i bs d) = dk_dirs d" "length (dk_nodes (put_node i bs d)) = length (dk_nodes d)"
  "dk_names (write_node i pos bs d) = dk_names d" "dk_dirs (write_node i pos bs d) = dk_dirs d"
  "length (dk_nodes (write_node i pos bs d)) = length (dk_nodes d)"
  "dk_nodes (unlink p d) = dk_nodes d" "dk_dirs (unlink p d) = dk_dirs d"
  by (simp_all add: put_node_def write_node_def unlink_def)

lemma fail_download_frame [simp]:
  "rv_disk (fail_download l why now s) = rv_disk s" "rv_consumers (fail_download l why now s) = rv_consumers s"
  "rv_table (fail_download l why now s) = rv_table s" "rv_acks (fail_download l why now s) = rv_acks s"
  "length (rv_objects (fail_download l why now s)) = length (rv_objects s)"
  by (auto simp: fail_download_def set_object_def split: option.split)

lemma leave_consumer_frame [simp]:
  "rv_disk (leave_consumer k s) = rv_disk s" "rv_objects (leave_consumer k s) = rv_objects s" "rv_table (leave_consumer k s) = rv_table s"
  "length (rv_consumers (leave_consumer k s)) = length (rv_consumers s)"
  by (simp_all add: leave_consumer_def set_consumer_def)

lemma written_at_end: "pos \<in> {None, Some (length acc)} \<Longrightarrow> written pos bs acc = acc @ bs"
  by (auto simp: written_def)

text \<open>What a download is about, and that its consumer \<open>k\<close> has received \<open>acc\<close> so far.\<close>

definition aim :: "transfer \<Rightarrow> path \<times> path \<times> string \<times> int" where
  "aim x = (tr_tmp x, tr_final x, tr_id x, tr_size x)"

definition feeding :: "path \<times> path \<times> string \<times> int \<Rightarrow> string \<Rightarrow> nat \<Rightarrow> nat \<Rightarrow> string \<Rightarrow> receiver \<Rightarrow> bool" where
  "feeding a label r k acc s \<longleftrightarrow>
     dict_get (rv_table s) label = Some r \<and> r < length (rv_objects s) \<and> aim (rv_objects s ! r) = a \<and> tr_status (rv_objects s ! r) = Tr_Running
     \<and> k < length (rv_consumers s) \<and> cs_label (rv_consumers s ! k) = label \<and> cs_object (rv_consumers s ! k) = r
     \<and> cs_received (rv_consumers s ! k) = length acc \<and> cs_pos (rv_consumers s ! k) \<in> {None, Some (length acc)}
     \<and> dict_get (dk_names (rv_disk s)) (fst a) = Some (cs_node (rv_consumers s ! k))
     \<and> cs_node (rv_consumers s ! k) < length (dk_nodes (rv_disk s)) \<and> dk_nodes (rv_disk s) ! cs_node (rv_consumers s ! k) = acc"

lemma feeding_chunk:
  assumes "feeding a label r k acc s"
  shows "feeding a label r k (acc @ bs) (consume_chunk k bs room now s)"
    and "dk_names (rv_disk (consume_chunk k bs room now s)) = dk_names (rv_disk s)"
    and "dk_dirs (rv_disk (consume_chunk k bs room now s)) = dk_dirs (rv_disk s)"
  using assms
  by (auto simp: feeding_def consume_chunk_def Let_def set_consumer_def set_object_def aim_def written_at_end write_node_def put_node_def)

lemma feeding_chunks:
  assumes "feeding a label r k acc s"
  shows "feeding a label r k (acc @ concat bss) (fold (\<lambda>bs. consume_chunk k bs room now) bss s)
    \<and> dk_names (rv_disk (fold (\<lambda>bs. consume_chunk k bs room now) bss s)) = dk_names (rv_disk s)
    \<and> dk_dirs (rv_disk (fold (\<lambda>bs. consume_chunk k bs room now) bss s)) = dk_dirs (rv_disk s)"
  using assms
proof (induction bss arbitrary: acc s)
  case (Cons bs bss)
  note step = feeding_chunk [OF Cons.prems, of bs room now]
  from Cons.IH [OF step(1)] step(2,3) show ?case by simp
qed simp

lemma feeding_complete:
  fixes now :: real
  assumes f: "feeding (tmp, final, digest, n) label r k acc s" and n: "int (length acc) = n" and d: "re_digest e acc = digest"
    and "final \<notin> set (dk_dirs (rv_disk s))"
  defines "s' \<equiv> consume_end e k now s"
  shows "content (rv_disk s') final = Some acc" and "tr_status (rv_objects s' ! r) = Tr_Done"
proof -
  define x where "x = rv_objects s ! r"
  have x: "tr_tmp x = tmp" "tr_final x = final" "tr_id x = digest" "tr_size x = n" "tr_status x = Tr_Running" and r: "r < length (rv_objects s)"
    and t: "dict_get (rv_table s) label = Some r" and c: "cs_label (rv_consumers s ! k) = label" "cs_object (rv_consumers s ! k) = r"
      "cs_received (rv_consumers s ! k) = length acc"
    and i: "dict_get (dk_names (rv_disk s)) tmp = Some (cs_node (rv_consumers s ! k))" "dk_nodes (rv_disk s) ! cs_node (rv_consumers s ! k) = acc"
    using f by (simp_all add: feeding_def aim_def x_def)
  have "content (rv_disk s) tmp = Some acc" using i by (simp add: content_def)
  then have "\<exists>d'. replace_file tmp final (rv_disk s) = Inr d' \<and> content d' final = Some acc
      \<and> finalize e label tmp now s = Inr (set_object r (x\<lparr>tr_status := Tr_Done, tr_received := nat n, tr_finished := now\<rparr>) (s\<lparr>rv_disk := d'\<rparr>))"
    using t x n d i assms(4) by (simp add: finalize_def x_def [symmetric] replace_file_def content_def)
  then obtain d' where d': "content d' final = Some acc"
      "finalize e label tmp now s = Inr (set_object r (x\<lparr>tr_status := Tr_Done, tr_received := nat n, tr_finished := now\<rparr>) (s\<lparr>rv_disk := d'\<rparr>))"
    by blast
  have "s' = leave_consumer k (set_object r (x\<lparr>tr_status := Tr_Done, tr_received := nat n, tr_finished := now\<rparr>) (s\<lparr>rv_disk := d'\<rparr>))"
    using d'(2) x c n by (simp add: s'_def consume_end_def x_def [symmetric] Let_def)
  then show "content (rv_disk s') final = Some acc" "tr_status (rv_objects s' ! r) = Tr_Done"
    using d'(1) r by (simp_all add: set_object_def)
qed

lemma feeding_short:
  fixes now :: real and e :: receiver_env
  assumes "feeding (tmp, final, digest, n) label r k acc s" and "int (length acc) \<noteq> n"
  defines "s' \<equiv> consume_end e k now s"
  shows "rv_disk s' = rv_disk s" and "content (rv_disk s') tmp = Some acc"
    and "tr_status (rv_objects s' ! r) = Tr_Error" and "tr_failure (rv_objects s' ! r) = Some (Cut_Off (length acc) n)"
  using assms by (simp_all add: feeding_def aim_def consume_end_def Let_def content_def fail_download_def set_object_def)

text \<open>The beginning of a stream for a part file that holds what was received before.\<close>

definition disk_ok :: "disk_state \<Rightarrow> bool" where
  "disk_ok d \<longleftrightarrow> (\<forall>p i. dict_get (dk_names d) p = Some i \<longrightarrow> i < length (dk_nodes d))"

lemma begin_feeds:
  assumes "disk_ok (rv_disk s)" and "dict_get (rv_table s) label = Some r" and "r < length (rv_objects s)"
    and "x = rv_objects s ! r" and "tr_status x = Tr_Running" and "tr_resumed x = length acc"
    and "acc \<noteq> [] \<Longrightarrow> content (rv_disk s) (tr_tmp x) = Some acc"
  shows "feeding (aim x) label r (length (rv_consumers s)) acc (begin_consumer label label s)"
    and "dk_dirs (rv_disk (begin_consumer label label s)) = dk_dirs (rv_disk s)"
    and "p \<noteq> tr_tmp x \<Longrightarrow> dict_get (dk_names (rv_disk (begin_consumer label label s))) p = dict_get (dk_names (rv_disk s)) p"
proof -
  show "feeding (aim x) label r (length (rv_consumers s)) acc (begin_consumer label label s)"
  proof (cases "acc = []")
    case True
    then show ?thesis using assms
      by (auto simp: feeding_def begin_consumer_def Let_def open_write_def create_file_def put_node_def aim_def disk_ok_def split: option.split)
  next
    case False
    with assms(7) obtain i where "dict_get (dk_names (rv_disk s)) (tr_tmp x) = Some i" "dk_nodes (rv_disk s) ! i = acc"
      by (auto simp: content_def)
    then show ?thesis using assms False
      by (auto simp: feeding_def begin_consumer_def Let_def open_append_def aim_def disk_ok_def)
  qed
  show "dk_dirs (rv_disk (begin_consumer label label s)) = dk_dirs (rv_disk s)"
    using assms by (simp add: begin_consumer_def Let_def open_append_def open_write_def create_file_def split: option.split)
  show "p \<noteq> tr_tmp x \<Longrightarrow> dict_get (dk_names (rv_disk (begin_consumer label label s))) p = dict_get (dk_names (rv_disk s)) p"
    using assms by (simp add: begin_consumer_def Let_def open_append_def open_write_def create_file_def split: option.split)
qed

section \<open>Interruptions\<close>

lemma concat_take_read_chunks: "0 < c \<Longrightarrow> concat (take n (read_chunks c bs)) = take (n * c) bs"
proof (induction n arbitrary: bs)
  case (Suc n)
  show ?case
  proof (cases "bs = []")
    case False
    show ?thesis unfolding read_chunks_simps(2) [OF Suc.prems False] using Suc by (simp add: take_add)
  qed (simp add: read_chunks_simps(1))
qed simp

text \<open>
  One attempt to fetch a file from its source: the download is started, the stream is cut into chunks of a size by the source, and it breaks
  off after \<open>n\<close> chunks, or ends when there are not more.
\<close>

definition fetch :: "receiver_env \<Rightarrow> string \<Rightarrow> string \<Rightarrow> string \<times> nat \<times> nat \<Rightarrow> receiver \<Rightarrow> receiver" where
  "fetch e whole save_as att s =
     (case att of (label, chunk_size, n) \<Rightarrow>
        case start_download e label 0 [] save_as (re_digest e whole) (int (length whole)) True s of
          (None, s1) \<Rightarrow> s1
        | (Some k, s1) \<Rightarrow>
            (let i = length (rv_consumers s1); chunks = (case chunk_file whole k (int chunk_size) of Inl err \<Rightarrow> [] | Inr bss \<Rightarrow> take n bss)
             in consume_end e i 0 (fold (\<lambda>bs. consume_chunk i bs True 0) chunks (begin_consumer label label s1))))"

text \<open>The file is there, or at least its first \<open>m\<close> bytes are in the part file.\<close>

definition fetched :: "receiver_env \<Rightarrow> string \<Rightarrow> string \<Rightarrow> nat \<Rightarrow> receiver \<Rightarrow> bool" where
  "fetched e whole save_as m s \<longleftrightarrow>
     disk_ok (rv_disk s) \<and> target_path e save_as \<notin> set (dk_dirs (rv_disk s))
     \<and> (content (rv_disk s) (target_path e save_as) = Some whole
        \<or> content (rv_disk s) (target_path e save_as) = None
           \<and> (\<exists>j \<ge> m. j \<le> length whole \<and> content (rv_disk s) (part_path e save_as) = Some (take j whole) 
                     \<or> m = 0 \<and> content (rv_disk s) (part_path e save_as) = None))"

lemma part_not_target: "part_path e s \<noteq> target_path e s'" if "save_name s' = save_name s"
  using that by (simp add: part_path_def target_path_def)

lemma disk_ok_replace: "disk_ok d \<Longrightarrow> replace_file p q d = Inr d' \<Longrightarrow> disk_ok d'"
  by (auto simp: disk_ok_def replace_file_def split: option.splits if_splits)

lemma finalize_disk_ok:
  assumes "finalize e label tmp now s = Inr s'" and "disk_ok (rv_disk s)"
  shows "disk_ok (rv_disk s') \<and> dk_dirs (rv_disk s') = dk_dirs (rv_disk s)"
proof -
  have "disk_ok (unlink p d)" if "disk_ok d" for p d using that by (simp add: disk_ok_def unlink_def)
  moreover have "dk_dirs d' = dk_dirs d" if "replace_file p q d = Inr d'" for p q d d'
    using that by (auto simp: replace_file_def split: option.splits if_splits)
  ultimately show ?thesis
    using assms by (auto simp: finalize_def Let_def on_disk_def set_object_def disk_ok_replace split: option.splits if_splits sum.splits)
qed

lemma consume_end_disk_ok:
  assumes "disk_ok (rv_disk s)"
  shows "disk_ok (rv_disk (consume_end e k now s)) \<and> dk_dirs (rv_disk (consume_end e k now s)) = dk_dirs (rv_disk s)"
  using assms finalize_disk_ok [of e _ _ now s] by (auto simp: consume_end_def Let_def split: sum.split)

lemma fetch_step:
  assumes s: "fetched e whole save_as m s" and c: "0 < c"
  shows "fetched e whole save_as (min (length whole) (m + n * c)) (fetch e whole save_as (label, c, n) s)
    \<and> (length whole \<le> m + n * c \<longrightarrow> content (rv_disk (fetch e whole save_as (label, c, n) s)) (target_path e save_as) = Some whole)"
proof (cases "content (rv_disk s) (target_path e save_as) = Some whole")
  case True
  then show ?thesis using s by (simp add: fetch_def start_download_def Let_def fetched_def)
next
  case False
  let ?final = "target_path e save_as" and ?tmp = "part_path e save_as"
  define k where "k = resume_offset True (int (length whole)) (rv_disk s) ?tmp"
  define acc where "acc = take k whole"
  have none: "content (rv_disk s) ?final = None" and ok: "disk_ok (rv_disk s)" and dir: "?final \<notin> set (dk_dirs (rv_disk s))"
    using s False by (auto simp: fetched_def)
  have k: "k \<le> length whole" "m \<le> k \<or> m = 0" "acc \<noteq> [] \<Longrightarrow> content (rv_disk s) ?tmp = Some acc" "length acc = k"
    using s False by (auto simp: fetched_def k_def acc_def resume_offset_def part_size_def)
  define x where "x = \<lparr>tr_src = [], tr_final = ?final, tr_tmp = ?tmp, tr_id = re_digest e whole, tr_size = int (length whole),
     tr_received = k, tr_resumed = k, tr_status = Tr_Running, tr_failure = None, tr_started = 0, tr_finished = 0, tr_window = [(0, k)]\<rparr>"
  define s1 where "s1 = s\<lparr>rv_objects := rv_objects s @ [x], rv_table := dict_set label (length (rv_objects s)) (rv_table s)\<rparr>"
  define i where "i = length (rv_consumers s1)"
  define chunks where "chunks = take n (read_chunks c (drop k whole))"
  define s2 where "s2 = begin_consumer label label s1"
  define s3 where "s3 = fold (\<lambda>bs. consume_chunk i bs True 0) chunks s2"
  have "length (rv_consumers s) = i" by (simp add: i_def s1_def)
  then have run: "fetch e whole save_as (label, c, n) s = consume_end e i 0 s3"
    using none c by (simp add: fetch_def start_download_def Let_def k_def [symmetric] x_def [symmetric] s1_def [symmetric] chunk_file_def
        chunks_def [symmetric] s2_def [symmetric] s3_def)
  have b: "feeding (aim x) label (length (rv_objects s)) i acc s2" "dk_dirs (rv_disk s2) = dk_dirs (rv_disk s1)"
    "dict_get (dk_names (rv_disk s2)) ?final = dict_get (dk_names (rv_disk s1)) ?final"
  proof -
    have "disk_ok (rv_disk s1)" "dict_get (rv_table s1) label = Some (length (rv_objects s))" "length (rv_objects s) < length (rv_objects s1)"
      "x = rv_objects s1 ! length (rv_objects s)" "tr_status x = Tr_Running" "tr_resumed x = length acc"
      "acc \<noteq> [] \<Longrightarrow> content (rv_disk s1) (tr_tmp x) = Some acc" "?final \<noteq> tr_tmp x"
      using ok k part_not_target [of save_as save_as e] by (simp_all add: s1_def x_def)
    note opened = begin_feeds [OF this(1-7)] and apart = this(8)
    show "feeding (aim x) label (length (rv_objects s)) i acc s2" "dk_dirs (rv_disk s2) = dk_dirs (rv_disk s1)"
      unfolding s2_def i_def by (simp_all add: opened(1,2))
    show "dict_get (dk_names (rv_disk s2)) ?final = dict_get (dk_names (rv_disk s1)) ?final"
      unfolding s2_def by (rule opened(3) [OF _ apart])
  qed
  note f = feeding_chunks [OF b(1), where room = True and now = 0 and bss = chunks, folded s3_def]
  define got where "got = acc @ concat chunks"
  have got: "got = take (k + n * c) whole"
    using c k(1) by (simp add: got_def acc_def chunks_def concat_take_read_chunks take_add)
  have feed: "feeding (?tmp, ?final, re_digest e whole, int (length whole)) label (length (rv_objects s)) i got s3"
    using f by (simp add: got_def aim_def x_def)
  have ok3: "disk_ok (rv_disk s3)"
  proof -
    have "disk_ok (rv_disk s2)" using ok
      by (auto simp: s2_def s1_def disk_ok_def begin_consumer_def Let_def open_append_def open_write_def create_file_def
          intro: less_SucI split: option.splits if_splits)
    moreover have "length (dk_nodes (rv_disk s3)) = length (dk_nodes (rv_disk s2))"
      unfolding s3_def
      by (induction chunks arbitrary: s2) (auto simp: consume_chunk_def Let_def set_consumer_def set_object_def)
    ultimately show ?thesis using f by (simp add: disk_ok_def)
  qed
  have dir3: "?final \<notin> set (dk_dirs (rv_disk s3))" using f b(2) dir by (simp add: s1_def)
  note keeps = consume_end_disk_ok [OF ok3, of e i 0]
  show ?thesis
  proof (cases "length whole \<le> k + n * c")
    case True
    then have "got = whole" by (simp add: got)
    with feeding_complete(1) [OF feed _ _ dir3, of e 0] have "content (rv_disk (consume_end e i 0 s3)) ?final = Some whole" by simp
    then show ?thesis using keeps dir3 by (simp add: run fetched_def)
  next
    case False
    then have "length got < length whole" by (simp add: got)
    then have "int (length got) \<noteq> int (length whole)" unfolding of_nat_eq_iff by simp
    note short = feeding_short [OF feed this, of e 0]
    have "content (rv_disk s3) ?final = None" using none f b(3) by (simp add: content_def s1_def)
    then have "fetched e whole save_as (min (length whole) (m + n * c)) (consume_end e i 0 s3)"
      using short(1,2) keeps dir3 got False k(2) by (auto simp: fetched_def intro!: exI [of _ "k + n * c"])
    then show ?thesis using False k(2) by (auto simp: run)
  qed
qed

text \<open>C5: 
  However often the transfer of a file breaks off, nothing that was received is lost: after attempts that brought enough chunks all
  together the file is complete under its name, whatever the sizes of the chunks were.
\<close>

theorem interrupted_transfers_complete:
  assumes "disk_ok (rv_disk s)" and "target_path e save_as \<notin> set (dk_dirs (rv_disk s))"
    and "content (rv_disk s) (target_path e save_as) = None" and "content (rv_disk s) (part_path e save_as) = None"
    and "atts \<noteq> []" and "\<forall>(label, c, n) \<in> set atts. 0 < c"
    and "length whole \<le> sum_list (map (\<lambda>(label, c, n). n * c) atts)"
  shows "content (rv_disk (fold (fetch e whole save_as) atts s)) (target_path e save_as) = Some whole"
proof -
  have "fetched e whole save_as (min (length whole) (m + sum_list (map (\<lambda>(label, c, n). n * c) as))) (fold (fetch e whole save_as) as s)
      \<and> (as \<noteq> [] \<and> length whole \<le> m + sum_list (map (\<lambda>(label, c, n). n * c) as) \<longrightarrow>
           content (rv_disk (fold (fetch e whole save_as) as s)) (target_path e save_as) = Some whole)"
    if "fetched e whole save_as m s" "m \<le> length whole" "\<forall>(label, c, n) \<in> set as. 0 < c" for as m s
    using that
  proof (induction as arbitrary: m s)
    case (Cons a as)
    obtain label c n where a: "a = (label, c, n)" by (cases a) auto
    from fetch_step [OF Cons.prems(1), of c n label] Cons.prems(3) a
    have step: "fetched e whole save_as (min (length whole) (m + n * c)) (fetch e whole save_as a s)"
        "length whole \<le> m + n * c \<Longrightarrow> content (rv_disk (fetch e whole save_as a s)) (target_path e save_as) = Some whole" by auto
    note rest = Cons.IH [OF step(1)]
    show ?case
    proof (cases "as = []")
      case True
      with step show ?thesis by (simp add: a)
    next
      case False
      define S where "S = sum_list (map (\<lambda>(label, c, n). n * c) as)"
      have "min (length whole) (min (length whole) (m + n * c) + S) = min (length whole) (m + (n * c + S))" by simp
      moreover have "length whole \<le> m + (n * c + S) \<Longrightarrow> length whole \<le> min (length whole) (m + n * c) + S" by simp
      moreover have "\<forall>(label, c, n) \<in> set as. 0 < c" using Cons.prems(3) by simp
      ultimately show ?thesis using rest False by (simp add: a S_def)
    qed
  qed (use that in simp)
  from this [of 0 s atts] assms show ?thesis by (simp add: fetched_def)
qed

section \<open>What is done is verified\<close>

definition targets :: "transfer \<Rightarrow> path set" where
  "targets x = {tr_tmp x, tr_final x}"

text \<open>No two downloads, and not the two files of one, share a name.\<close>

definition apart :: "receiver \<Rightarrow> bool" where
  "apart s \<longleftrightarrow> (\<forall>i < length (rv_objects s). \<forall>j < length (rv_objects s). i \<noteq> j \<longrightarrow> targets (rv_objects s ! i) \<inter> targets (rv_objects s ! j) = {})
     \<and> (\<forall>x \<in> set (rv_objects s). tr_tmp x \<noteq> tr_final x)"

definition names_ok :: "disk_state \<Rightarrow> bool" where
  "names_ok d \<longleftrightarrow> disk_ok d \<and> (\<forall>p q i. dict_get (dk_names d) p = Some i \<longrightarrow> dict_get (dk_names d) q = Some i \<longrightarrow> p = q)"

definition verified :: "receiver_env \<Rightarrow> receiver \<Rightarrow> nat \<Rightarrow> bool" where
  "verified e s r \<longleftrightarrow> (\<exists>bs. content (rv_disk s) (tr_final (rv_objects s ! r)) = Some bs \<and> re_digest e bs = tr_id (rv_objects s ! r)
     \<and> int (length bs) = tr_size (rv_objects s ! r))"

definition handle_ok :: "receiver \<Rightarrow> consumer \<Rightarrow> bool" where
  "handle_ok s c \<longleftrightarrow> cs_object c < length (rv_objects s) \<and> cs_node c < length (dk_nodes (rv_disk s))
     \<and> (\<forall>p. dict_get (dk_names (rv_disk s)) p = Some (cs_node c) \<longrightarrow> p \<in> targets (rv_objects s ! cs_object c))
     \<and> (\<forall>r. dict_get (rv_table s) (cs_label c) = Some r \<longrightarrow> r = cs_object c)"

definition receiver_ok :: "receiver_env \<Rightarrow> receiver \<Rightarrow> bool" where
  "receiver_ok e s \<longleftrightarrow> names_ok (rv_disk s) \<and> (\<forall>label r. dict_get (rv_table s) label = Some r \<longrightarrow> r < length (rv_objects s))
     \<and> (\<forall>c \<in> set (rv_consumers s). handle_ok s c)
     \<and> (\<forall>r < length (rv_objects s). tr_status (rv_objects s ! r) = Tr_Done \<longrightarrow> verified e s r)"

lemma apartD:
  assumes "apart s" and "i < length (rv_objects s)" and "j < length (rv_objects s)"
    and "p \<in> targets (rv_objects s ! i)" and "p \<in> targets (rv_objects s ! j)"
  shows "i = j"
  using assms unfolding apart_def by blast

lemma apart_own: "apart s \<Longrightarrow> i < length (rv_objects s) \<Longrightarrow> tr_tmp (rv_objects s ! i) \<noteq> tr_final (rv_objects s ! i)"
  by (simp add: apart_def)

lemma in_targets [simp]: "tr_tmp x \<in> targets x" "tr_final x \<in> targets x"
  by (simp_all add: targets_def)

text \<open>The disk changes and the rest stays.\<close>

lemma receiver_ok_disk:
  assumes ok: "receiver_ok e s" and "names_ok d" and "length (dk_nodes (rv_disk s)) \<le> length (dk_nodes d)"
    and names: "\<And>c p. c \<in> set (rv_consumers s) \<Longrightarrow> dict_get (dk_names d) p = Some (cs_node c) \<Longrightarrow>
        dict_get (dk_names (rv_disk s)) p = Some (cs_node c) \<or> p \<in> targets (rv_objects s ! cs_object c)"
    and done_kept: "\<And>r. r < length (rv_objects s) \<Longrightarrow> tr_status (rv_objects s ! r) = Tr_Done \<Longrightarrow>
        content d (tr_final (rv_objects s ! r)) = content (rv_disk s) (tr_final (rv_objects s ! r))"
  shows "receiver_ok e (s\<lparr>rv_disk := d\<rparr>)"
proof -
  have "handle_ok (s\<lparr>rv_disk := d\<rparr>) c" if c: "c \<in> set (rv_consumers s)" for c
  proof -
    have h: "handle_ok s c" using ok c by (simp add: receiver_ok_def)
    have "p \<in> targets (rv_objects s ! cs_object c)" if "dict_get (dk_names d) p = Some (cs_node c)" for p
      using names [OF c that] h by (auto simp: handle_ok_def)
    with h assms(3) show ?thesis by (simp add: handle_ok_def)
  qed
  moreover have "verified e (s\<lparr>rv_disk := d\<rparr>) r" if "r < length (rv_objects s)" "tr_status (rv_objects s ! r) = Tr_Done" for r
    using ok that done_kept [OF that] by (simp add: receiver_ok_def verified_def)
  ultimately show ?thesis using ok assms(2) by (simp add: receiver_ok_def)
qed

lemma receiver_ok_put:
  assumes "receiver_ok e s"
    and "\<And>r. r < length (rv_objects s) \<Longrightarrow> tr_status (rv_objects s ! r) = Tr_Done \<Longrightarrow>
        dict_get (dk_names (rv_disk s)) (tr_final (rv_objects s ! r)) \<noteq> Some i"
  shows "receiver_ok e (s\<lparr>rv_disk := put_node i bs (rv_disk s)\<rparr>)"
  using assms
  by (intro receiver_ok_disk [OF assms(1)]) (auto simp: receiver_ok_def names_ok_def disk_ok_def content_put_node)

lemma receiver_ok_unlink:
  assumes "receiver_ok e s" and "apart s" and "r < length (rv_objects s)"
  shows "receiver_ok e (s\<lparr>rv_disk := unlink (tr_tmp (rv_objects s ! r)) (rv_disk s)\<rparr>)"
proof (rule receiver_ok_disk [OF assms(1)])
  fix j assume j: "j < length (rv_objects s)"
  have "tr_final (rv_objects s ! j) \<noteq> tr_tmp (rv_objects s ! r)"
    using apartD [OF assms(2) j assms(3), of "tr_final (rv_objects s ! j)"] apart_own [OF assms(2,3)] by (auto simp: targets_def)
  then show "content (unlink (tr_tmp (rv_objects s ! r)) (rv_disk s)) (tr_final (rv_objects s ! j)) = content (rv_disk s) (tr_final (rv_objects s ! j))"
    by (simp add: content_def unlink_def)
qed (use assms(1) in \<open>auto simp: receiver_ok_def names_ok_def disk_ok_def unlink_def split: if_splits\<close>)

text \<open>Opening the part file of a download.\<close>

lemma opened_part:
  assumes "receiver_ok e s" and "apart s" and "r < length (rv_objects s)" and "tmp = tr_tmp (rv_objects s ! r)"
    and "(i, d) = (if q then open_append tmp (rv_disk s) else open_write tmp (rv_disk s))"
  shows "receiver_ok e (s\<lparr>rv_disk := d\<rparr>)" and "i < length (dk_nodes d)" and "\<And>p. dict_get (dk_names d) p = Some i \<Longrightarrow> p = tmp"
proof -
  have names: "names_ok (rv_disk s)" using assms(1) by (simp add: receiver_ok_def)
  have final: "tr_final (rv_objects s ! j) \<noteq> tmp" if "j < length (rv_objects s)" for j
    using apartD [OF assms(2) that assms(3), of "tr_final (rv_objects s ! j)"] apart_own [OF assms(2,3)] by (auto simp: targets_def assms(4))
  have "receiver_ok e (s\<lparr>rv_disk := d\<rparr>) \<and> i < length (dk_nodes d) \<and> (\<forall>p. dict_get (dk_names d) p = Some i \<longrightarrow> p = tmp)"
  proof (cases "dict_get (dk_names (rv_disk s)) tmp")
    case None
    then have id: "i = length (dk_nodes (rv_disk s))" "d = snd (create_file tmp (rv_disk s))"
      using assms(5) by (auto simp: open_append_def open_write_def create_file_def split: if_splits)
    have old: "j < i" if "dict_get (dk_names (rv_disk s)) p = Some j" for p j
      using names that by (simp add: names_ok_def disk_ok_def id)
    have "names_ok d"
      using names old by (auto simp: id create_file_def names_ok_def disk_ok_def intro: less_SucI split: if_splits)
    moreover have "cs_node c \<noteq> i" if "c \<in> set (rv_consumers s)" for c
      using assms(1) that by (auto simp: receiver_ok_def handle_ok_def id)
    moreover have "content d (tr_final (rv_objects s ! j)) = content (rv_disk s) (tr_final (rv_objects s ! j))" if "j < length (rv_objects s)" for j
      using final [OF that] old by (cases "dict_get (dk_names (rv_disk s)) (tr_final (rv_objects s ! j))")
        (auto simp: content_def id create_file_def nth_append)
    ultimately have "receiver_ok e (s\<lparr>rv_disk := d\<rparr>)"
      by (intro receiver_ok_disk [OF assms(1)]) (auto simp: id create_file_def split: if_splits)
    then show ?thesis using old by (auto simp: id create_file_def split: if_splits)
  next
    case (Some j)
    then have i: "i = j" and d: "d = rv_disk s \<or> d = put_node j [] (rv_disk s)"
      using assms(5) by (auto simp: open_append_def open_write_def split: if_splits)
    have "dict_get (dk_names (rv_disk s)) (tr_final (rv_objects s ! k)) \<noteq> Some j" if "k < length (rv_objects s)" for k
      using names Some final [OF that] unfolding names_ok_def by metis
    then have "receiver_ok e (s\<lparr>rv_disk := put_node j [] (rv_disk s)\<rparr>)" by (intro receiver_ok_put [OF assms(1)]) auto
    then show ?thesis using d assms(1) names Some by (auto simp: i names_ok_def disk_ok_def)
  qed
  then show "receiver_ok e (s\<lparr>rv_disk := d\<rparr>)" "i < length (dk_nodes d)" "\<And>p. dict_get (dk_names d) p = Some i \<Longrightarrow> p = tmp" by blast+
qed

lemma set_frame [simp]:
  "rv_disk (set_object r x s) = rv_disk s" "rv_table (set_object r x s) = rv_table s" "rv_consumers (set_object r x s) = rv_consumers s"
  "rv_disk (set_consumer k c s) = rv_disk s" "rv_table (set_consumer k c s) = rv_table s" "rv_objects (set_consumer k c s) = rv_objects s"
  by (simp_all add: set_object_def set_consumer_def)

lemma verified_set_object: "aim x = aim (rv_objects s ! r) \<Longrightarrow> r < length (rv_objects s) \<Longrightarrow> verified e (set_object r x s) j \<longleftrightarrow> verified e s j"
  by (cases "j = r") (auto simp: verified_def set_object_def aim_def)

lemma targets_set_object:
  assumes "aim x = aim (rv_objects s ! r)"
  shows "targets (rv_objects (set_object r x s) ! j) = targets (rv_objects s ! j)"
  using assms by (cases "r < length (rv_objects s)"; cases "j = r") (auto simp: targets_def set_object_def aim_def list_update_beyond)

lemma receiver_ok_set_object:
  assumes ok: "receiver_ok e s" and r: "r < length (rv_objects s)" and a: "aim x = aim (rv_objects s ! r)"
    and d: "tr_status x = Tr_Done \<Longrightarrow> verified e s r"
  shows "receiver_ok e (set_object r x s)"
proof -
  have "handle_ok (set_object r x s) c" if "c \<in> set (rv_consumers s)" for c
  proof -
    have "handle_ok s c" using ok that by (simp add: receiver_ok_def)
    then show ?thesis unfolding handle_ok_def targets_set_object [OF a] by (simp add: set_object_def)
  qed
  moreover have "verified e (set_object r x s) j" if "j < length (rv_objects s)" "tr_status (rv_objects (set_object r x s) ! j) = Tr_Done" for j
    using ok that d r unfolding verified_set_object [OF a r] by (cases "j = r") (simp_all add: receiver_ok_def set_object_def)
  moreover have "names_ok (rv_disk s)" "\<forall>label j. dict_get (rv_table s) label = Some j \<longrightarrow> j < length (rv_objects s)"
    using ok by (simp_all add: receiver_ok_def)
  ultimately show ?thesis by (simp add: receiver_ok_def set_object_def)
qed

lemma receiver_ok_fail: "receiver_ok e s \<Longrightarrow> receiver_ok e (fail_download label why now s)"
  by (auto simp: fail_download_def receiver_ok_def [of e s] aim_def split: option.split intro!: receiver_ok_set_object)

lemma receiver_ok_set_consumer:
  assumes "receiver_ok e s" and "cs_label c = cs_label (rv_consumers s ! k)" and "cs_object c = cs_object (rv_consumers s ! k)"
    and "cs_node c = cs_node (rv_consumers s ! k)"
  shows "receiver_ok e (set_consumer k c s)"
proof (cases "k < length (rv_consumers s)")
  case True
  then have "handle_ok s c" using assms by (simp add: receiver_ok_def handle_ok_def)
  then have "handle_ok (set_consumer k c s) c'" if "c' \<in> set (rv_consumers (set_consumer k c s))" for c'
    using assms(1) that set_update_subset_insert [of "rv_consumers s" k c] by (auto simp: receiver_ok_def handle_ok_def set_consumer_def)
  then show ?thesis using assms(1) by (simp add: receiver_ok_def set_consumer_def verified_def)
qed (use assms(1) in \<open>simp add: set_consumer_def list_update_beyond\<close>)

lemma receiver_ok_leave: "receiver_ok e s \<Longrightarrow> receiver_ok e (leave_consumer k s)"
  by (simp add: leave_consumer_def receiver_ok_set_consumer)

lemma receiver_ok_acks [simp]: "receiver_ok e (s\<lparr>rv_acks := a\<rparr>) = receiver_ok e s"
  by (simp add: receiver_ok_def handle_ok_def verified_def)

lemma set_object_aims: "aim x = aim (rv_objects s ! r) \<Longrightarrow> map aim (rv_objects (set_object r x s)) = map aim (rv_objects s)"
  by (cases "r < length (rv_objects s)") (simp_all add: set_object_def map_update list_update_beyond list_update_same_conv)

lemma fail_download_objects: "map aim (rv_objects (fail_download label why now s)) = map aim (rv_objects s)"
  by (auto simp: fail_download_def aim_def split: option.split intro!: set_object_aims)

lemma targets_of_aim: "aim x = aim y \<Longrightarrow> targets x = targets y"
  by (simp add: aim_def targets_def)

lemma apart_same_aims:
  assumes "apart s" and m: "map aim (rv_objects s') = map aim (rv_objects s)"
  shows "apart s'"
proof -
  have l: "length (rv_objects s') = length (rv_objects s)" using arg_cong [OF m, of length] by simp
  have a: "aim (rv_objects s' ! i) = aim (rv_objects s ! i)" if "i < length (rv_objects s)" for i
    using arg_cong [OF m, of "\<lambda>xs. xs ! i"] that l by simp
  have "targets (rv_objects s' ! i) \<inter> targets (rv_objects s' ! j) = {}"
    if "i < length (rv_objects s)" "j < length (rv_objects s)" "i \<noteq> j" for i j
    using assms(1) that unfolding apart_def targets_of_aim [OF a [OF that(1)]] targets_of_aim [OF a [OF that(2)]] by blast
  moreover have "tr_tmp (rv_objects s' ! i) \<noteq> tr_final (rv_objects s' ! i)" if "i < length (rv_objects s)" for i
    using apart_own [OF assms(1) that] a [OF that] by (simp add: aim_def)
  ultimately show ?thesis unfolding apart_def l by (auto simp: in_set_conv_nth l)
qed

text \<open>The check of what arrived under the right label.\<close>

lemma receiver_ok_finalize:
  assumes ok: "receiver_ok e s" and ap: "apart s" and t: "dict_get (rv_table s) label = Some r"
    and running: "tr_status (rv_objects s ! r) = Tr_Running" and f: "finalize e label (tr_tmp (rv_objects s ! r)) now s = Inr s'"
  shows "receiver_ok e s' \<and> map aim (rv_objects s') = map aim (rv_objects s)"
proof -
  define x where "x = rv_objects s ! r"
  have r: "r < length (rv_objects s)" using ok t by (simp add: receiver_ok_def)
  have removed: "receiver_ok e (on_disk (unlink (tr_tmp x)) (fail_download label why now s))" for why
  proof -
    let ?t = "fail_download label why now s"
    have "apart ?t" by (rule apart_same_aims [OF ap fail_download_objects])
    moreover have "tr_tmp (rv_objects ?t ! r) = tr_tmp x"
      using r t by (simp add: fail_download_def set_object_def x_def)
    ultimately show ?thesis
      using receiver_ok_unlink [OF receiver_ok_fail [OF ok], of label why now r] r by (simp add: on_disk_def)
  qed
  show ?thesis
  proof (cases "\<exists>i bs. dict_get (dk_names (rv_disk s)) (tr_tmp x) = Some i \<and> dk_nodes (rv_disk s) ! i = bs \<and> int (length bs) = tr_size x
      \<and> re_digest e bs = tr_id x \<and> tr_final x \<notin> set (dk_dirs (rv_disk s))")
    case False
    then show ?thesis
      using f t ok removed
      by (auto simp: finalize_def Let_def x_def [symmetric] content_def replace_file_def on_disk_def fail_download_objects receiver_ok_fail
          split: option.splits if_splits)
  next
    case True
    then obtain i bs where i: "dict_get (dk_names (rv_disk s)) (tr_tmp x) = Some i" "dk_nodes (rv_disk s) ! i = bs"
      and bs: "int (length bs) = tr_size x" "re_digest e bs = tr_id x" and dir: "tr_final x \<notin> set (dk_dirs (rv_disk s))" by blast
    define d where "d = (rv_disk s)\<lparr>dk_names := dict_set (tr_final x) i (dict_pop (tr_tmp x) (dk_names (rv_disk s)))\<rparr>"
    define y where "y = x\<lparr>tr_status := Tr_Done, tr_received := nat (tr_size x), tr_finished := now\<rparr>"
    have s': "s' = set_object r y (s\<lparr>rv_disk := d\<rparr>)"
      using f t i bs dir by (auto simp: finalize_def Let_def x_def [symmetric] content_def replace_file_def d_def y_def)
    have "receiver_ok e (s\<lparr>rv_disk := d\<rparr>)"
    proof (rule receiver_ok_disk [OF ok])
      show "names_ok d" using ok i by (auto simp: receiver_ok_def names_ok_def disk_ok_def d_def split: if_splits)
      show "length (dk_nodes (rv_disk s)) \<le> length (dk_nodes d)" by (simp add: d_def)
    next
      fix c p assume c: "c \<in> set (rv_consumers s)" and p: "dict_get (dk_names d) p = Some (cs_node c)"
      have h: "handle_ok s c" using ok c by (simp add: receiver_ok_def)
      show "dict_get (dk_names (rv_disk s)) p = Some (cs_node c) \<or> p \<in> targets (rv_objects s ! cs_object c)"
      proof (cases "p = tr_final x")
        case True
        with p i have "dict_get (dk_names (rv_disk s)) (tr_tmp x) = Some (cs_node c)" by (simp add: d_def)
        with h have "tr_tmp x \<in> targets (rv_objects s ! cs_object c)" "cs_object c < length (rv_objects s)" by (simp_all add: handle_ok_def)
        then have "cs_object c = r" using apartD [OF ap _ r] by (simp add: x_def)
        with True show ?thesis by (simp add: x_def)
      qed (use p in \<open>auto simp: d_def split: if_splits\<close>)
    next
      fix j assume j: "j < length (rv_objects s)" "tr_status (rv_objects s ! j) = Tr_Done"
      show "content d (tr_final (rv_objects s ! j)) = content (rv_disk s) (tr_final (rv_objects s ! j))"
      proof -
        have "j \<noteq> r" using j(2) running by auto
        then have "tr_final (rv_objects s ! j) \<noteq> tr_final x" "tr_final (rv_objects s ! j) \<noteq> tr_tmp x"
          using apartD [OF ap j(1) r] in_targets x_def by metis+
        then show ?thesis by (simp add: content_def d_def)
      qed
    qed
    moreover have "verified e (s\<lparr>rv_disk := d\<rparr>) r" using i bs by (simp add: verified_def content_def d_def x_def)
    moreover have "aim y = aim (rv_objects s ! r)" by (simp add: y_def aim_def x_def)
    ultimately show ?thesis
      using r receiver_ok_set_object [of e "s\<lparr>rv_disk := d\<rparr>" r y] set_object_aims [of y "s\<lparr>rv_disk := d\<rparr>" r] by (simp add: s')
  qed
qed

section \<open>Every run\<close>

lemma receiver_ok_start:
  assumes ok: "receiver_ok e s" and fresh: "label \<notin> cs_label ` set (rv_consumers s)"
    and run: "start_download e label now src save_as digest n resume s = (k, s')"
  shows "receiver_ok e s' \<and> (\<exists>zs. map aim (rv_objects s') = map aim (rv_objects s) @ zs)"
proof (cases k)
  case None
  then show ?thesis using run ok by (auto simp: start_download_def Let_def split: if_splits)
next
  case (Some j)
  then obtain x where s': "s' = s\<lparr>rv_objects := rv_objects s @ [x], rv_table := dict_set label (length (rv_objects s)) (rv_table s)\<rparr>"
    and x: "tr_status x = Tr_Running"
    using run by (auto simp: start_download_def Let_def split: if_splits)
  have "handle_ok s' c" if "c \<in> set (rv_consumers s)" for c
    using ok that fresh by (fastforce simp: receiver_ok_def handle_ok_def s' nth_append)
  moreover have "verified e s' r" if "r < length (rv_objects s')" "tr_status (rv_objects s' ! r) = Tr_Done" for r
  proof -
    have "r < length (rv_objects s)" using that x by (auto simp: s' nth_append split: if_splits)
    then show ?thesis using ok that by (simp add: receiver_ok_def verified_def s' nth_append)
  qed
  moreover have "dict_get (rv_table s') l = Some r \<Longrightarrow> r < length (rv_objects s')" for l r
    using ok by (auto simp: receiver_ok_def s' intro: less_SucI split: if_splits)
  ultimately show ?thesis using ok by (simp add: receiver_ok_def s')
qed

lemma receiver_ok_begin:
  assumes ok: "receiver_ok e s" and ap: "apart s"
  shows "receiver_ok e (begin_consumer label label s) \<and> rv_objects (begin_consumer label label s) = rv_objects s"
proof (cases "dict_get (rv_table s) label")
  case (Some r)
  define x where "x = rv_objects s ! r"
  obtain i d where id: "(i, d) = (if tr_resumed x \<noteq> 0 then open_append (tr_tmp x) (rv_disk s) else open_write (tr_tmp x) (rv_disk s))"
    by (metis prod.exhaust)
  have r: "r < length (rv_objects s)" using ok Some by (simp add: receiver_ok_def)
  note o = opened_part [OF ok ap r x_def [THEN arg_cong, of tr_tmp] id]
  define c where "c = \<lparr>cs_label = label, cs_object = r, cs_node = i, cs_pos = (if tr_resumed x \<noteq> 0 then None else Some 0),
     cs_received = tr_resumed x, cs_open = True\<rparr>"
  have s': "begin_consumer label label s = s\<lparr>rv_disk := d, rv_acks := rv_acks s @ [label], rv_consumers := rv_consumers s @ [c]\<rparr>"
    using Some id [symmetric] by (simp add: begin_consumer_def x_def [symmetric] c_def Let_def)
  have "p \<in> targets x" if "dict_get (dk_names d) p = Some i" for p using o(3) [OF that] by (simp add: x_def)
  then have "handle_ok (s\<lparr>rv_disk := d\<rparr>) c" using o(2) r Some by (simp add: handle_ok_def c_def x_def)
  with o(1) show ?thesis by (auto simp: s' receiver_ok_def handle_ok_def verified_def)
qed (simp add: begin_consumer_def ok)

lemma receiver_ok_chunk:
  assumes ok: "receiver_ok e s" and ap: "apart s" and k: "k < length (rv_consumers s)"
  shows "receiver_ok e (consume_chunk k bs room now s) \<and> map aim (rv_objects (consume_chunk k bs room now s)) = map aim (rv_objects s)"
proof -
  define c where "c = rv_consumers s ! k"
  define x where "x = rv_objects s ! cs_object c"
  show ?thesis
  proof (cases "tr_status x = Tr_Running")
    case False
    then show ?thesis using ok by (simp add: consume_chunk_def Let_def c_def x_def receiver_ok_leave)
  next
    case True
    have h: "handle_ok s c" using ok k by (simp add: receiver_ok_def c_def)
    define s1 where "s1 = s\<lparr>rv_disk := write_node (cs_node c) (cs_pos c) bs (rv_disk s)\<rparr>"
    have "receiver_ok e s1"
      unfolding s1_def write_node_def
    proof (rule receiver_ok_put [OF ok])
      fix r assume r: "r < length (rv_objects s)" "tr_status (rv_objects s ! r) = Tr_Done"
      show "dict_get (dk_names (rv_disk s)) (tr_final (rv_objects s ! r)) \<noteq> Some (cs_node c)"
      proof
        assume "dict_get (dk_names (rv_disk s)) (tr_final (rv_objects s ! r)) = Some (cs_node c)"
        with h have "tr_final (rv_objects s ! r) \<in> targets x" "cs_object c < length (rv_objects s)" by (simp_all add: handle_ok_def x_def)
        then have "r = cs_object c" using apartD [OF ap r(1) _ in_targets(2)] by (simp add: x_def)
        with r(2) True show False by (simp add: x_def)
      qed
    qed
    define y where "y = x\<lparr>tr_received := cs_received c + length bs,
        tr_window := drop (length (tr_window x) - 63) (tr_window x) @ [(now, cs_received c + length bs)]\<rparr>"
    define s2 where "s2 = set_object (cs_object c) y (s1\<lparr>rv_acks := (if room then rv_acks s @ [cs_label c] else rv_acks s)\<rparr>)"
    have y: "aim y = aim (rv_objects s ! cs_object c)" "tr_status y = Tr_Running" using True by (simp_all add: y_def x_def aim_def)
    define t where "t = s1\<lparr>rv_acks := (if room then rv_acks s @ [cs_label c] else rv_acks s)\<rparr>"
    have t: "receiver_ok e t" "rv_objects t = rv_objects s" "rv_consumers t = rv_consumers s"
      using \<open>receiver_ok e s1\<close> by (simp_all add: t_def) (simp_all add: s1_def)
    have s2: "receiver_ok e s2" "map aim (rv_objects s2) = map aim (rv_objects s)" "rv_consumers s2 = rv_consumers s"
      unfolding s2_def t_def [symmetric]
      using receiver_ok_set_object [OF t(1), of "cs_object c" y] set_object_aims [of y t "cs_object c"] y h t(2,3) by (simp_all add: handle_ok_def)
    have "consume_chunk k bs room now s = set_consumer k (c\<lparr>cs_received := cs_received c + length bs, cs_pos := map_option (\<lambda>q. q + length bs) (cs_pos c)\<rparr>) s2"
      using True by (simp add: consume_chunk_def Let_def c_def [symmetric] x_def [symmetric] y_def s2_def s1_def)
    then show ?thesis
      using s2 by (simp add: receiver_ok_set_consumer c_def)
  qed
qed

lemma receiver_ok_end:
  assumes ok: "receiver_ok e s" and ap: "apart s" and k: "k < length (rv_consumers s)"
  shows "receiver_ok e (consume_end e k now s) \<and> map aim (rv_objects (consume_end e k now s)) = map aim (rv_objects s)"
proof -
  define c where "c = rv_consumers s ! k"
  define x where "x = rv_objects s ! cs_object c"
  have h: "handle_ok s c" using ok k by (simp add: receiver_ok_def c_def)
  show ?thesis
  proof (cases "tr_status x = Tr_Running \<and> int (cs_received c) = tr_size x")
    case False
    then show ?thesis using ok
      by (auto simp: consume_end_def Let_def c_def x_def receiver_ok_leave receiver_ok_fail fail_download_objects)
  next
    case True
    then have run: "consume_end e k now s = (case finalize e (cs_label c) (tr_tmp x) now s of Inl err \<Rightarrow> leave_consumer k s | Inr s' \<Rightarrow> leave_consumer k s')"
      by (simp add: consume_end_def Let_def c_def x_def)
    show ?thesis
    proof (cases "finalize e (cs_label c) (tr_tmp x) now s")
      case (Inl err)
      then show ?thesis using ok by (simp add: run receiver_ok_leave)
    next
      case (Inr s')
      then have "dict_get (rv_table s) (cs_label c) \<noteq> None" by (auto simp: finalize_def split: option.splits)
      with h have t: "dict_get (rv_table s) (cs_label c) = Some (cs_object c)" by (auto simp: handle_ok_def)
      have "receiver_ok e s' \<and> map aim (rv_objects s') = map aim (rv_objects s)"
        using receiver_ok_finalize [OF ok ap t, of now s'] True Inr by (simp add: x_def)
      with Inr show ?thesis by (simp add: run receiver_ok_leave)
    qed
  qed
qed

lemma receiver_ok_copy:
  assumes ok: "receiver_ok e s" and ap: "apart s" and t: "dict_get (rv_table s) label = Some r"
    and running: "tr_status (rv_objects s ! r) = Tr_Running" and run: "copy_local e label source now s = Inr s'"
  shows "receiver_ok e s' \<and> map aim (rv_objects s') = map aim (rv_objects s)"
proof (cases source)
  case None
  then have "s' = fail_download label Copy_Failed now s" using run t by (simp add: copy_local_def)
  then show ?thesis using ok by (simp add: receiver_ok_fail fail_download_objects)
next
  case (Some bs)
  have r: "r < length (rv_objects s)" using ok t by (simp add: receiver_ok_def)
  define tmp where "tmp = tr_tmp (rv_objects s ! r)"
  obtain i d where id: "(i, d) = open_write tmp (rv_disk s)" by (metis prod.exhaust)
  note o = opened_part [OF ok ap r tmp_def, of i d False]
  have o: "receiver_ok e (s\<lparr>rv_disk := d\<rparr>)" "\<And>p. dict_get (dk_names d) p = Some i \<Longrightarrow> p = tmp" using o id by simp_all
  define s1 where "s1 = s\<lparr>rv_disk := put_node i bs d\<rparr>"
  have "receiver_ok e s1"
  proof -
    have "dict_get (dk_names d) (tr_final (rv_objects s ! j)) \<noteq> Some i" if "j < length (rv_objects s)" for j
      using o(2) apartD [OF ap that r, of tmp] apart_own [OF ap r] in_targets tmp_def by (metis targets_def insertI1 insertI2)
    then show ?thesis using receiver_ok_put [OF o(1), of i bs] by (simp add: s1_def)
  qed
  moreover have "apart s1" using ap by (simp add: apart_def s1_def)
  moreover have "finalize e label (tr_tmp (rv_objects s1 ! r)) now s1 = Inr s'"
    using run t Some id [symmetric] by (simp add: copy_local_def Let_def tmp_def s1_def)
  ultimately show ?thesis using receiver_ok_finalize [of e s1 label r now s'] t running by (simp add: s1_def)
qed

lemma receiver_ok_cancel:
  assumes ok: "receiver_ok e s" and ap: "apart s"
  shows "receiver_ok e (snd (cancel_download label s)) \<and> rv_objects (snd (cancel_download label s)) = rv_objects s"
proof (cases "dict_get (rv_table s) label")
  case (Some r)
  then have "r < length (rv_objects s)" using ok by (simp add: receiver_ok_def)
  from receiver_ok_unlink [OF ok ap this] Some show ?thesis
    by (auto simp: cancel_download_def on_disk_def receiver_ok_def handle_ok_def verified_def split: if_splits)
qed (simp add: cancel_download_def ok)

inductive_cases transfer_stepE: "transfer_step e s s'"

lemma receiver_ok_step:
  assumes "served_step e s s'" and "receiver_ok e s" and "apart s"
  shows "receiver_ok e s'"
proof -
  have one: "one_label s s'" using assms(1) by (simp add: served_step_def)
  have "transfer_step e s s'" using assms(1) by (simp add: served_step_def)
  then show ?thesis
  proof cases
    case (start label now src save_as digest size_told resume k)
    then show ?thesis using receiver_ok_start [OF assms(2)] by blast
  next
    case (open_stream sl dl)
    with one have "sl = dl \<or> s' = s" by (simp add: one_label_def)
    then show ?thesis using open_stream assms(2,3) receiver_ok_begin by blast
  qed (use assms(2,3) receiver_ok_copy receiver_ok_chunk receiver_ok_end receiver_ok_cancel receiver_ok_fail in \<open>auto\<close>)
qed

lemma finalize_aims: "finalize e label tmp now s = Inr s' \<Longrightarrow> map aim (rv_objects s') = map aim (rv_objects s)"
proof -
  assume f: "finalize e label tmp now s = Inr s'"
  then obtain r where r: "dict_get (rv_table s) label = Some r" by (auto simp: finalize_def split: option.splits)
  have "map aim (rv_objects (set_object r ((rv_objects s ! r)\<lparr>tr_status := st, tr_received := n, tr_finished := now\<rparr>) (s\<lparr>rv_disk := d\<rparr>))) = map aim (rv_objects s)"
    for st n d using set_object_aims [of _ "s\<lparr>rv_disk := d\<rparr>" r] by (simp add: aim_def)
  with f r show ?thesis
    by (auto simp: finalize_def Let_def on_disk_def fail_download_objects split: option.splits if_splits sum.splits)
qed

lemma consume_chunk_aims: "map aim (rv_objects (consume_chunk k bs room now s)) = map aim (rv_objects s)"
proof -
  have "map aim (rv_objects (set_object r ((rv_objects s ! r)\<lparr>tr_received := n, tr_window := w\<rparr>) (s\<lparr>rv_disk := d, rv_acks := a\<rparr>))) = map aim (rv_objects s)"
    for r n w d a using set_object_aims [of _ "s\<lparr>rv_disk := d, rv_acks := a\<rparr>" r] by (simp add: aim_def)
  then show ?thesis by (simp add: consume_chunk_def Let_def)
qed

lemma consume_end_aims: "map aim (rv_objects (consume_end e k now s)) = map aim (rv_objects s)"
  by (auto simp: consume_end_def Let_def fail_download_objects finalize_aims split: sum.split)

lemma begin_consumer_objects: "rv_objects (begin_consumer l l' s) = rv_objects s"
  by (auto simp: begin_consumer_def Let_def split: option.split prod.split)

lemma cancel_download_objects: "rv_objects (snd (cancel_download label s)) = rv_objects s"
  by (auto simp: cancel_download_def on_disk_def split: option.split)

lemma copy_local_aims: "copy_local e label source now s = Inr s' \<Longrightarrow> map aim (rv_objects s') = map aim (rv_objects s)"
  by (auto simp: copy_local_def Let_def fail_download_objects dest!: finalize_aims split: option.splits prod.splits)

lemma start_download_aims:
  "start_download e label now src save_as digest n resume s = (k, s') \<Longrightarrow> \<exists>zs. map aim (rv_objects s') = map aim (rv_objects s) @ zs"
  by (auto simp: start_download_def Let_def split: if_splits)

lemma step_keeps_aims:
  assumes "transfer_step e s s'"
  shows "\<exists>zs. map aim (rv_objects s') = map aim (rv_objects s) @ zs"
  using assms
  by cases (auto simp: start_download_aims fail_download_objects copy_local_aims begin_consumer_objects consume_chunk_aims consume_end_aims
      cancel_download_objects)

lemma apart_before:
  assumes "apart s'" and "map aim (rv_objects s') = map aim (rv_objects s) @ zs"
  shows "apart s"
proof -
  have n: "length (rv_objects s) \<le> length (rv_objects s')" using arg_cong [OF assms(2), of length] by simp
  have a: "aim (rv_objects s ! i) = aim (rv_objects s' ! i)" if "i < length (rv_objects s)" for i
    using arg_cong [OF assms(2), of "\<lambda>xs. xs ! i"] that n by (simp add: nth_append)
  have "apart (s'\<lparr>rv_objects := take (length (rv_objects s)) (rv_objects s')\<rparr>)"
    using assms(1) n by (auto simp: apart_def dest: in_set_takeD)
  moreover have "map aim (rv_objects s) = map aim (take (length (rv_objects s)) (rv_objects s'))"
    using n a by (intro nth_equalityI) simp_all
  ultimately show ?thesis using apart_same_aims by fastforce
qed

lemma receiver_ok_reachable:
  assumes "(served_step e)\<^sup>*\<^sup>* (new_receiver d) s" and "names_ok d" and "apart s"
  shows "receiver_ok e s"
  using assms(1,3)
proof (induction rule: rtranclp_induct)
  case base
  then show ?case using assms(2) by (simp add: receiver_ok_def new_receiver_def)
next
  case (step s s')
  from step.hyps(2) have "transfer_step e s s'" by (simp add: served_step_def)
  from step_keeps_aims [OF this] obtain zs where "map aim (rv_objects s') = map aim (rv_objects s) @ zs" ..
  then have "apart s" by (rule apart_before [OF step.prems])
  with step.IH receiver_ok_step [OF step.hyps(2)] show ?case by blast
qed

text \<open>C3: 
  However downloads, their streams and cancellations interleave, as long as every stream is opened under the label of its data, as
  \<open>serve\<close> opens it, and no two downloads share a file name: the file of a download that is done has, now and later, the size and
  the digest that its manifest told.
\<close>

theorem done_stays_verified:
  assumes "(served_step e)\<^sup>*\<^sup>* (new_receiver d) s" and "names_ok d" and "apart s"
    and "r < length (rv_objects s)" and "tr_status (rv_objects s ! r) = Tr_Done"
  shows "\<exists>bs. content (rv_disk s) (tr_final (rv_objects s ! r)) = Some bs \<and> re_digest e bs = tr_id (rv_objects s ! r)
    \<and> int (length bs) = tr_size (rv_objects s ! r)"
  using receiver_ok_reachable [OF assms(1-3)] assms(4,5) by (simp add: receiver_ok_def verified_def)

text \<open>What any peer may send, under any labels: a file is checked at the moment its download becomes done.\<close>

lemma finalize_checked:
  assumes "finalize e label tmp now s = Inr s'" and "tr_status (rv_objects s ! r) \<noteq> Tr_Done" and "tr_status (rv_objects s' ! r) = Tr_Done"
    and "r < length (rv_objects s)"
  shows "verified e s' r"
proof -
  obtain j where j: "dict_get (rv_table s) label = Some j" using assms(1) by (auto simp: finalize_def split: option.splits)
  define x where "x = rv_objects s ! j"
  have not_failed: "tr_status (rv_objects (fail_download label why now s) ! r) \<noteq> Tr_Done" for why
    using assms(2,4) by (cases "r = j") (simp_all add: fail_download_def j set_object_def)
  obtain bs d where bs: "content (rv_disk s) tmp = Some bs" "int (length bs) = tr_size x" "re_digest e bs = tr_id x"
    and d: "replace_file tmp (tr_final x) (rv_disk s) = Inr d"
    and s': "s' = set_object j (x\<lparr>tr_status := Tr_Done, tr_received := nat (tr_size x), tr_finished := now\<rparr>) (s\<lparr>rv_disk := d\<rparr>)"
    using assms(1,3) not_failed
    by (auto simp: finalize_def j Let_def x_def [symmetric] on_disk_def split: option.splits if_splits sum.splits)
  have "r = j" using assms(2,3) by (cases "r = j") (simp_all add: s' set_object_def)
  have "content d (tr_final x) = Some bs"
    using d bs(1) by (auto simp: replace_file_def content_def split: option.splits if_splits)
  then show ?thesis using bs assms(4) by (simp add: verified_def s' set_object_def \<open>r = j\<close>)
qed

theorem finished_file_was_checked:
  assumes "transfer_step e s s'" and "r < length (rv_objects s)"
    and "tr_status (rv_objects s ! r) \<noteq> Tr_Done" and "tr_status (rv_objects s' ! r) = Tr_Done"
  shows "\<exists>bs. content (rv_disk s') (tr_final (rv_objects s' ! r)) = Some bs \<and> re_digest e bs = tr_id (rv_objects s' ! r)
    \<and> int (length bs) = tr_size (rv_objects s' ! r)"
proof -
  have failed: "tr_status (rv_objects (fail_download label why now s) ! r) \<noteq> Tr_Done" for label why now
  proof (cases "dict_get (rv_table s) label")
    case (Some j)
    then show ?thesis using assms(2,3) by (cases "r = j") (simp_all add: fail_download_def set_object_def)
  qed (simp add: fail_download_def assms(3))
  have "verified e s' r"
    using assms(1)
  proof cases
    case (start label now src save_as digest size_told resume k)
    then show ?thesis using assms(2-4) by (auto simp: start_download_def Let_def nth_append split: if_splits)
  next
    case (copy label j source now)
    show ?thesis
    proof (cases source)
      case None
      then have "s' = fail_download label Copy_Failed now s" using copy by (simp add: copy_local_def)
      with failed [of label Copy_Failed now] assms(4) show ?thesis by simp
    next
      case (Some bs)
      obtain i d where "open_write (tr_tmp (rv_objects s ! j)) (rv_disk s) = (i, d)" by fastforce
      with Some copy have "finalize e label (tr_tmp (rv_objects s ! j)) now (s\<lparr>rv_disk := put_node i bs d\<rparr>) = Inr s'"
        by (simp add: copy_local_def Let_def)
      then show ?thesis by (rule finalize_checked) (use assms in simp_all)
    qed
  next
    case (at_end k now)
    then have "tr_status (rv_objects s ! r) \<noteq> Tr_Done \<Longrightarrow> \<exists>label tmp t. finalize e label tmp now s = Inr t \<and> s' = leave_consumer k t"
      using failed assms(4) by (auto simp: consume_end_def Let_def split: if_splits sum.splits)
    then obtain label tmp t where t: "finalize e label tmp now s = Inr t" "s' = leave_consumer k t" using assms(3) by blast
    then have "verified e t r" using finalize_checked [OF t(1) assms(3) _ assms(2)] assms(4) by simp
    then show ?thesis by (simp add: t(2) verified_def)
  next
    case (chunk k bs room now)
    have "tr_status (rv_objects (consume_chunk k bs room now s) ! r) = tr_status (rv_objects s ! r)"
      using assms(2) by (cases "r = cs_object (rv_consumers s ! k)") (simp_all add: consume_chunk_def Let_def set_consumer_def set_object_def)
    with chunk assms(3,4) show ?thesis by simp
  qed (use assms failed in \<open>auto simp: begin_consumer_objects cancel_download_objects\<close>)
  then show ?thesis by (simp add: verified_def)
qed

section \<open>A cancelled transfer\<close>

definition writing :: "nat \<Rightarrow> nat \<Rightarrow> string \<Rightarrow> receiver \<Rightarrow> bool" where
  "writing r k acc s \<longleftrightarrow>
     r < length (rv_objects s) \<and> tr_status (rv_objects s ! r) = Tr_Running
     \<and> k < length (rv_consumers s) \<and> cs_object (rv_consumers s ! k) = r
     \<and> cs_received (rv_consumers s ! k) = length acc \<and> cs_pos (rv_consumers s ! k) \<in> {None, Some (length acc)}
     \<and> cs_node (rv_consumers s ! k) < length (dk_nodes (rv_disk s)) \<and> dk_nodes (rv_disk s) ! cs_node (rv_consumers s ! k) = acc"

lemma writing_chunk:
  assumes "writing r k acc s"
  shows "writing r k (acc @ bs) (consume_chunk k bs True now s)"
    and "rv_acks (consume_chunk k bs True now s) = rv_acks s @ [cs_label (rv_consumers s ! k)]"
    and "cs_label (rv_consumers (consume_chunk k bs True now s) ! k) = cs_label (rv_consumers s ! k)"
    and "rv_table (consume_chunk k bs True now s) = rv_table s"
  using assms
  by (auto simp: writing_def consume_chunk_def Let_def set_consumer_def set_object_def written_at_end write_node_def put_node_def)

lemma writing_chunks:
  fixes now :: real and bss :: "string list"
  assumes "writing r k acc s"
  defines "s' \<equiv> fold (\<lambda>bs. consume_chunk k bs True now) bss s"
  shows "writing r k (acc @ concat bss) s' \<and> rv_acks s' = rv_acks s @ replicate (length bss) (cs_label (rv_consumers s ! k))
    \<and> cs_label (rv_consumers s' ! k) = cs_label (rv_consumers s ! k) \<and> rv_table s' = rv_table s"
  unfolding s'_def using assms(1)
proof (induction bss arbitrary: acc s)
  case (Cons bs bss)
  note step = writing_chunk [OF Cons.prems, of bs now]
  from Cons.IH [OF step(1)] step(2-4) show ?case by simp
qed simp

text \<open>
  Cancelling a download does not stop its transfer: the consumer goes on to write every chunk (to a file without a name) and to
  acknowledge it, and when everything has arrived its end raises because the download is not in the table.
\<close>

theorem cancelled_transfer_goes_on:
  assumes "feeding (tmp, final, digest, n) label r k acc s"
    and "s' = fold (\<lambda>bs. consume_chunk k bs True now) bss (snd (cancel_download label s))"
  shows "rv_acks s' = rv_acks s @ replicate (length bss) label \<and> tr_status (rv_objects s' ! r) = Tr_Running
    \<and> dk_nodes (rv_disk s') ! cs_node (rv_consumers s' ! k) = acc @ concat bss
    \<and> finalize e label tmp now s' = Inl (ServiceError ''KeyError'' label)"
proof -
  let ?t = "snd (cancel_download label s)"
  have t: "writing r k acc ?t" "rv_acks ?t = rv_acks s" "cs_label (rv_consumers ?t ! k) = label" "dict_get (rv_table ?t) label = None"
    using assms(1) by (simp_all add: feeding_def writing_def cancel_download_def on_disk_def)
  from writing_chunks [OF t(1), of bss now] t(2-4) show ?thesis
    by (simp add: assms(2) writing_def finalize_def)
qed

section \<open>Two downloads with one name\<close>

definition empty_disk :: disk_state where
  "empty_disk = \<lparr>dk_names = [], dk_nodes = [], dk_dirs = []\<rparr>"

definition ask :: "receiver_env \<Rightarrow> string \<Rightarrow> string \<Rightarrow> string \<Rightarrow> receiver \<Rightarrow> receiver" where
  "ask e name label bs s = snd (start_download e label 0 [] name (re_digest e bs) (int (length bs)) False s)"

text \<open>
  Two downloads, the second under \<open>name\<close>. Both streams are open when the first file has arrived and was checked, in a stream whose data
  has the label \<open>dl\<close>.
\<close>

definition one_checked :: "string \<Rightarrow> string \<Rightarrow> receiver_env \<Rightarrow> string \<Rightarrow> string \<Rightarrow> receiver" where
  "one_checked name dl e c1 c2 =
     consume_end e 1 0 (consume_chunk 1 c1 True 0 (begin_consumer ''a'' dl (begin_consumer ''b'' ''b''
       (ask e name ''b'' c2 (ask e ''x'' ''a'' c1 (new_receiver empty_disk))))))"

lemmas transfer_eval = ask_def start_download_def begin_consumer_def consume_chunk_def consume_end_def finalize_def resume_offset_def part_size_def
  content_def open_write_def open_append_def create_file_def put_node_def write_node_def written_def replace_file_def set_object_def set_consumer_def
  leave_consumer_def new_receiver_def empty_disk_def Let_def

lemma one_checked_run: "(transfer_step e)\<^sup>*\<^sup>* (new_receiver empty_disk) (one_checked name dl e c1 c2)"
  if "dl \<in> {''a'', ''b''}"
proof -
  let ?s0 = "new_receiver empty_disk"
  let ?s1 = "ask e ''x'' ''a'' c1 ?s0"
  let ?s2 = "ask e name ''b'' c2 ?s1"
  let ?s3 = "begin_consumer ''b'' ''b'' ?s2"
  let ?s4 = "begin_consumer ''a'' dl ?s3"
  let ?s5 = "consume_chunk 1 c1 True 0 ?s4"
  have "transfer_step e ?s0 ?s1" unfolding ask_def
    by (rule transfer_step.start [where label = "''a''", OF _ _ prod.collapse [symmetric]]) (simp_all add: new_receiver_def)
  moreover have "dict_get (rv_table ?s1) ''b'' = None" "rv_consumers ?s1 = []" by (simp_all add: transfer_eval)
  then have "transfer_step e ?s1 ?s2" unfolding ask_def [of e name]
    by (intro transfer_step.start [where label = "''b''", OF _ _ prod.collapse [symmetric]]) simp_all
  moreover have "transfer_step e ?s2 ?s3" "transfer_step e ?s3 ?s4" by (simp_all add: transfer_step.open_stream)
  moreover have n: "length (rv_consumers ?s4) = 2" "cs_open (rv_consumers ?s4 ! 1)"
    using that by (auto simp: transfer_eval split: prod.splits option.splits)
  then have "transfer_step e ?s4 ?s5" by (simp add: transfer_step.chunk)
  moreover have "1 < length (rv_consumers ?s5) \<and> cs_open (rv_consumers ?s5 ! 1)"
    using that by (auto simp: transfer_eval split: prod.splits option.splits)
  then have "transfer_step e ?s5 (one_checked name dl e c1 c2)" unfolding one_checked_def by (simp add: transfer_step.at_end)
  ultimately show ?thesis by (meson converse_rtranclp_into_rtranclp rtranclp.rtrancl_refl)
qed

text \<open>
  Two downloads that are saved under one name spoil each other: the first is checked and done, and then a chunk of the second is
  written into its file, because the part file that both had open has become the finished one.
\<close>

theorem same_name_spoils_a_checked_file:
  assumes "re_digest e c1 \<noteq> re_digest e c2" and "length c1 \<le> length c2"
  shows "\<exists>s. (transfer_step e)\<^sup>*\<^sup>* (new_receiver empty_disk) s \<and> tr_status (rv_objects s ! 0) = Tr_Done
    \<and> content (rv_disk s) (tr_final (rv_objects s ! 0)) = Some c2 \<and> re_digest e c2 \<noteq> tr_id (rv_objects s ! 0)"
proof -
  let ?t = "one_checked ''x'' ''a'' e c1 c2"
  let ?s = "consume_chunk 0 c2 True 0 ?t"
  have "0 < length (rv_consumers ?t) \<and> cs_open (rv_consumers ?t ! 0)"
    by (simp add: one_checked_def transfer_eval target_path_def part_path_def)
  then have "transfer_step e ?t ?s" by (simp add: transfer_step.chunk)
  with one_checked_run have "(transfer_step e)\<^sup>*\<^sup>* (new_receiver empty_disk) ?s" by (rule rtranclp.rtrancl_into_rtrancl) simp
  moreover have "tr_status (rv_objects ?s ! 0) = Tr_Done \<and> content (rv_disk ?s) (tr_final (rv_objects ?s ! 0)) = Some c2
      \<and> tr_id (rv_objects ?s ! 0) = re_digest e c1"
    using assms(2) by (simp add: one_checked_def transfer_eval target_path_def part_path_def)
  ultimately show ?thesis using assms(1) by metis
qed

text \<open>
  A stream that is opened under the label of one download with the label of another in its data does the same to two downloads with
  names of their own: the part file of the second is checked and becomes the file of the first, and the stream of the second
  goes on writing into it.
\<close>

theorem mixed_labels_spoil_a_checked_file:
  assumes "re_digest e c1 \<noteq> re_digest e c2" and "length c1 = length c2"
  shows "\<exists>s. (transfer_step e)\<^sup>*\<^sup>* (new_receiver empty_disk) s \<and> tr_final (rv_objects s ! 0) \<noteq> tr_final (rv_objects s ! 1)
    \<and> tr_status (rv_objects s ! 0) = Tr_Done \<and> content (rv_disk s) (tr_final (rv_objects s ! 0)) = Some c2
    \<and> re_digest e c2 \<noteq> tr_id (rv_objects s ! 0)"
proof -
  let ?t = "one_checked ''y'' ''b'' e c1 c2"
  let ?s = "consume_chunk 0 c2 True 0 ?t"
  have names: "save_name ''x'' = ''x''" "save_name ''y'' = ''y''" by code_simp+
  have "0 < length (rv_consumers ?t) \<and> cs_open (rv_consumers ?t ! 0)"
    by (simp add: one_checked_def transfer_eval target_path_def part_path_def names assms(2))
  then have "transfer_step e ?t ?s" by (simp add: transfer_step.chunk)
  with one_checked_run have "(transfer_step e)\<^sup>*\<^sup>* (new_receiver empty_disk) ?s" by (rule rtranclp.rtrancl_into_rtrancl) simp
  moreover have "tr_final (rv_objects ?s ! 0) \<noteq> tr_final (rv_objects ?s ! 1) \<and> tr_status (rv_objects ?s ! 0) = Tr_Done
      \<and> content (rv_disk ?s) (tr_final (rv_objects ?s ! 0)) = Some c2 \<and> tr_id (rv_objects ?s ! 0) = re_digest e c1"
    using assms(2) by (simp add: one_checked_def transfer_eval target_path_def part_path_def names)
  ultimately show ?thesis using assms(1) by metis
qed

section \<open>Where it is saved\<close>

lemma split_on_pieces: "p \<in> set (split_on c s) \<Longrightarrow> c \<notin> set p"
  by (induction s arbitrary: p) (auto split: if_splits list.splits)

text \<open>Whatever name a source or a request gives, the file is saved directly in the directory of the downloads.\<close>

theorem saved_in_download_dir:
  "\<exists>name. target_path e save_as = re_dir e @ [name] \<and> part_path e save_as = re_dir e @ [name @ ''.part'']
     \<and> name \<noteq> [] \<and> name \<noteq> ''.'' \<and> CHR ''/'' \<notin> set name"
proof -
  define ps where "ps = path_parts (map (\<lambda>c. if c = CHR 0x5C then CHR ''/'' else c) save_as)"
  have "p \<noteq> [] \<and> p \<noteq> ''.'' \<and> CHR ''/'' \<notin> set p" if "p \<in> set ps" for p
    using that split_on_pieces by (auto simp: ps_def path_parts_def)
  then have "save_name save_as \<noteq> [] \<and> save_name save_as \<noteq> ''.'' \<and> CHR ''/'' \<notin> set (save_name save_as)"
    by (auto simp: save_name_def ps_def [symmetric] Let_def)
  then show ?thesis by (auto simp: target_path_def part_path_def)
qed

section \<open>Examples\<close>

definition ex_receiver_env :: receiver_env where
  "ex_receiver_env = \<lparr>re_dir = [''dl''], re_digest = (\<lambda>bs. CHR ''#'' # bs)\<rparr>"

definition ex_finished :: receiver where
  "ex_finished = consume_end ex_receiver_env 0 0 (consume_chunk 0 ''hi'' True 0 (begin_consumer ''a'' ''a'' (ask ex_receiver_env ''x'' ''a'' ''hi'' (new_receiver empty_disk))))"

lemma one_label_run: "one_label s s'" if "rv_acks s' = rv_acks s \<or> length (rv_consumers s') \<noteq> Suc (length (rv_consumers s))"
  using that by (auto simp: one_label_def begin_consumer_def Let_def split: option.splits prod.splits)

lemma ex_finished_run: "(served_step ex_receiver_env)\<^sup>*\<^sup>* (new_receiver empty_disk) ex_finished"
proof -
  let ?e = ex_receiver_env
  let ?s0 = "new_receiver empty_disk" and ?s1 = "ask ?e ''x'' ''a'' ''hi'' (new_receiver empty_disk)"
  let ?s2 = "begin_consumer ''a'' ''a'' ?s1"
  let ?s3 = "consume_chunk 0 ''hi'' True 0 ?s2"
  have n: "length (rv_consumers ?s1) = 0" "length (rv_consumers ?s2) = 1" "length (rv_consumers ?s3) = 1" "length (rv_consumers ex_finished) = 1"
    "rv_acks ?s1 = []" "cs_open (rv_consumers ?s2 ! 0)" "cs_open (rv_consumers ?s3 ! 0)" by code_simp+
  have "transfer_step ?e ?s0 ?s1" unfolding ask_def
    by (rule transfer_step.start [where label = "''a''", OF _ _ prod.collapse [symmetric]]) (simp_all add: new_receiver_def)
  moreover have z: "rv_acks ?s0 = []" by (simp add: new_receiver_def)
  have "one_label ?s0 ?s1" by (rule one_label_run) (simp only: n(5) z simp_thms)
  moreover have "transfer_step ?e ?s1 ?s2" by (simp add: transfer_step.open_stream)
  moreover have "one_label ?s1 ?s2"
  proof -
    have "(\<forall>dl. ?s2 = begin_consumer sl dl ?s1 \<longrightarrow> sl = ''a'' \<and> dict_get (rv_table ?s1) dl \<noteq> None)" for sl
    proof (intro allI impI)
      fix dl assume b: "?s2 = begin_consumer sl dl ?s1"
      have "rv_acks ?s2 = [''a'']" by code_simp
      with b n(5) show "sl = ''a'' \<and> dict_get (rv_table ?s1) dl \<noteq> None"
        by (auto simp: begin_consumer_def Let_def split: option.splits prod.splits)
    qed
    moreover have "dict_get (rv_table ?s1) dl \<noteq> None \<Longrightarrow> dl = ''a''" for dl by (auto simp: transfer_eval split: if_splits)
    ultimately show ?thesis unfolding one_label_def by blast
  qed
  moreover have "transfer_step ?e ?s2 ?s3" "one_label ?s2 ?s3" using n by (simp_all add: transfer_step.chunk one_label_run)
  moreover have "transfer_step ?e ?s3 ex_finished" "one_label ?s3 ex_finished"
  proof -
    show "transfer_step ?e ?s3 ex_finished" unfolding ex_finished_def using n(3,7) by (intro transfer_step.at_end) simp_all
    show "one_label ?s3 ex_finished" using n(3,4) by (intro one_label_run) simp
  qed
  ultimately have "served_step ?e ?s0 ?s1" "served_step ?e ?s1 ?s2" "served_step ?e ?s2 ?s3" "served_step ?e ?s3 ex_finished"
    by (simp_all add: served_step_def)
  then show ?thesis by (meson converse_rtranclp_into_rtranclp rtranclp.rtrancl_refl)
qed

theorem done_stays_verified_witness: "\<exists>bs. content (rv_disk ex_finished) [''dl'', ''x''] = Some bs \<and> CHR ''#'' # bs = ''#hi''"
proof -
  have l: "length (rv_objects ex_finished) = 1" by code_simp
  have o: "tr_status (rv_objects ex_finished ! 0) = Tr_Done"
    "tr_final (rv_objects ex_finished ! 0) = [''dl'', ''x'']" "tr_tmp (rv_objects ex_finished ! 0) = [''dl'', ''x.part'']"
    "tr_id (rv_objects ex_finished ! 0) = ''#hi''"
    by code_simp+
  have "apart ex_finished" by (auto simp: apart_def in_set_conv_nth l o)
  moreover have "names_ok empty_disk" by (simp add: names_ok_def disk_ok_def empty_disk_def)
  ultimately show ?thesis
    using done_stays_verified [OF ex_finished_run, of 0] l o by (auto simp: ex_receiver_env_def)
qed

theorem interrupted_transfers_complete_witness:
  "content (rv_disk (fold (fetch ex_receiver_env ''hello'' ''f'') [(''a'', 2, 1), (''b'', 1, 2), (''c'', 3, 1)] (new_receiver empty_disk))) [''dl'', ''f'']
     = Some ''hello''"
proof -
  have "target_path ex_receiver_env ''f'' = [''dl'', ''f'']" by code_simp
  then show ?thesis
    using interrupted_transfers_complete [of "new_receiver empty_disk" ex_receiver_env "''f''" "[(''a'', 2, 1), (''b'', 1, 2), (''c'', 3, 1)]" "''hello''"]
    by (simp add: new_receiver_def empty_disk_def disk_ok_def content_def)
qed

theorem cancelled_transfer_goes_on_witness:
  "\<exists>(s :: receiver) (s' :: receiver). rv_table s' = [] \<and> rv_acks s' = rv_acks s @ [''a'', ''a'']"
proof -
  let ?s1 = "ask ex_receiver_env ''x'' ''a'' ''hello'' (new_receiver empty_disk)"
  let ?s = "begin_consumer ''a'' ''a'' ?s1"
  let ?s' = "fold (\<lambda>bs. consume_chunk 0 bs True 0) [''he'', ''llo''] (snd (cancel_download ''a'' ?s))"
  have "feeding ([''dl'', ''x.part''], [''dl'', ''x''], ''#hello'', 5) ''a'' 0 0 [] ?s" unfolding feeding_def aim_def by code_simp
  from cancelled_transfer_goes_on [OF this refl, of 0 "[''he'', ''llo'']"]
  have "rv_acks ?s' = rv_acks ?s @ [''a'', ''a'']" by simp
  moreover have "rv_table ?s' = []" by code_simp
  ultimately show ?thesis by blast
qed

theorem same_name_spoils_a_checked_file_witness:
  "\<exists>s. (transfer_step ex_receiver_env)\<^sup>*\<^sup>* (new_receiver empty_disk) s \<and> content (rv_disk s) (tr_final (rv_objects s ! 0)) = Some ''xy''"
proof -
  have "re_digest ex_receiver_env ''hi'' \<noteq> re_digest ex_receiver_env ''xy''" by (simp add: ex_receiver_env_def)
  from same_name_spoils_a_checked_file [OF this] show ?thesis by auto
qed

theorem finished_file_was_checked_witness:
  "\<exists>bs. content (rv_disk ex_finished) [''dl'', ''x''] = Some bs \<and> CHR ''#'' # bs = ''#hi'' \<and> int (length bs) = 2"
proof -
  let ?s = "consume_chunk 0 ''hi'' True 0 (begin_consumer ''a'' ''a'' (ask ex_receiver_env ''x'' ''a'' ''hi'' (new_receiver empty_disk)))"
  have "length (rv_consumers ?s) = 1" "cs_open (rv_consumers ?s ! 0)" "length (rv_objects ?s) = 1" by code_simp+
  then have step: "transfer_step ex_receiver_env ?s ex_finished" unfolding ex_finished_def by (simp add: transfer_step.at_end)
  have o: "tr_status (rv_objects ?s ! 0) = Tr_Running" "tr_status (rv_objects ex_finished ! 0) = Tr_Done"
    "tr_final (rv_objects ex_finished ! 0) = [''dl'', ''x'']" "tr_id (rv_objects ex_finished ! 0) = ''#hi''" "tr_size (rv_objects ex_finished ! 0) = 2"
    by code_simp+
  show ?thesis
    using finished_file_was_checked [OF step, of 0] by (simp only: o \<open>length (rv_objects ?s) = 1\<close>) (simp add: ex_receiver_env_def)
qed

theorem mixed_labels_spoil_a_checked_file_witness:
  "\<exists>s. (transfer_step ex_receiver_env)\<^sup>*\<^sup>* (new_receiver empty_disk) s \<and> content (rv_disk s) (tr_final (rv_objects s ! 0)) = Some ''xy''"
proof -
  have "re_digest ex_receiver_env ''hi'' \<noteq> re_digest ex_receiver_env ''xy''" by (simp add: ex_receiver_env_def)
  from mixed_labels_spoil_a_checked_file [OF this] show ?thesis by auto
qed

end
