(* ===== verification/Settings.thy ===== *)
theory Settings
  imports Prelude
begin

text \<open>
  The configuration of the monitor: \<open>netpulse/config.py\<close>. Its defaults, the merge of a saved configuration and
  of the environment over them, and the check that follows. JSON and the protection of secrets are
  parameters; what is printed is left out.
\<close>

section \<open>Defaults\<close>

definition defaults :: "(string, pyval) dict" where
  "defaults =
     [(''mikrotik'', PDict [(''enabled'', PBool False), (''poll_interval_sec'', PInt 30), (''devices'',
         PList [])]),
      (''metrics'', PDict [(''token_env'', PStr ''NP_METRICS_TOKEN'')]),
      (''alertmanager'', PDict [(''token_env'', PStr ''NP_ALERTMANAGER_TOKEN'')]),
      (''web_port'', PInt 8770),
      (''web_host'', PStr ''127.0.0.1''),
      (''web_auth_enabled'', PBool False),
      (''web_token'', PStr []),
      (''web_admins'', PList []),
      (''theme'', PStr ''dark''),
      (''ping_interval_sec'', PInt 1),
      (''db_cleanup_days'', PInt 30),
      (''ping_target'', PStr ''8.8.8.8''),
      (''quality'', PDict [(''good_ping_ms'', PInt 50), (''warn_ping_ms'', PInt 120), (''max_jitter_ms'',
         PInt 15), (''max_loss_pct'', PInt 2), (''profiles'', PDict [])]),
      (''quota'', PDict [(''daily_mb'', PInt 0), (''monthly_gb'', PInt 0), (''warn_pct'', PInt 80)]),
      (''ai'', PDict [(''enabled'', PBool True), (''anomaly_threshold'', PFloat (6 / 10)),
         (''training_interval'', PInt 300), (''features'', PList [PStr ''speed'', PStr ''bytes_in'',
         PStr ''bytes_out'', PStr ''ping_ms'', PStr ''jitter''])]),
      (''security'', PDict [(''suspicious_ports'', PList [PInt 4444, PInt 1337, PInt 31337, PInt 6667,
         PInt 4443, PInt 8080, PInt 8888, PInt 3389, PInt 5900, PInt 22, PInt 23]),
         (''scan_detection_threshold'', PInt 15)]),
      (''ids'', PDict [(''enabled'', PBool True), (''window_sec'', PInt 120), (''whitelist'', PList [])]),
      (''infra'', PDict [(''community'', PStr ''public'')]),
      (''lan'', PDict [(''auto_scan_min'', PInt 10), (''trusted_macs'', PList [])]),
      (''diagnostics'', PDict [(''trace_targets'', PList [PStr ''8.8.8.8'', PStr ''1.1.1.1'',
         PStr ''77.88.8.8'']), (''resolve_hosts'', PList [PStr ''google.com'', PStr ''youtube.com'',
         PStr ''vk.com'', PStr ''github.com'', PStr ''wikipedia.org''])]),
      (''mtr'', PDict [(''target'', PStr ''8.8.8.8''), (''max_hops'', PInt 12), (''cycle_sec'', PInt 10),
         (''pings_per_hop'', PInt 2), (''targets'', PList []), (''rotate_sec'', PInt 600)]),
      (''speedtest'', PDict [(''url_down'', PStr ''https://speed.cloudflare.com/__down?bytes={bytes}''),
         (''url_up'', PStr ''https://speed.cloudflare.com/__up''), (''bytes'', PInt 8000000),
         (''timeout_sec'', PInt 20)]),
      (''webhook'', PDict [(''enabled'', PBool False), (''url'', PStr [])]),
      (''healing'', PDict [(''enabled'', PBool False), (''rules'', PList [])]),
      (''email'', PDict [(''enabled'', PBool False), (''smtp_host'', PStr []), (''smtp_port'', PInt 25),
         (''use_tls'', PBool True), (''user'', PStr []), (''password'', PStr []), (''from'',
         PStr ''netpulse@localhost''), (''to'', PStr [])]),
      (''telegram'', PDict [(''enabled'', PBool False), (''token'', PStr []), (''chat_id'', PStr [])]),
      (''backup'', PDict [(''enabled'', PBool False), (''time'', PStr ''03:00''), (''keep'', PInt 7),
         (''dir'', PStr (''C:'' @ [char_of (92 :: nat)] @ ''Backups''))]),
      (''p2p'', PDict [(''enabled'', PBool True), (''host'', PStr ''127.0.0.1''), (''port'', PInt 9000),
         (''node_id'', PStr ''NetPulseHub''), (''target_node'', PStr ''Node0''), (''reconnect_sec'',
         PInt 5), (''call_timeout'', PInt 15), (''secret'', PStr [])]),
      (''ip_allowlist'', PDict [(''enabled'', PBool False), (''networks'', PList [PStr ''192.168.1.0/24'',
         PStr ''127.0.0.0/8''])]),
      (''journal'', PDict [(''default_minutes'', PInt 0)]),
      (''watchdog'', PDict [(''enabled'', PBool False), (''interval_min'', PInt 15), (''timeout_sec'',
         PInt 25), (''hosts'', PList [PStr ''auto'']), (''disk_free_pct'', PInt 10), (''ram_free_mb'',
         PInt 500), (''event_ids'', PList [PInt 41, PInt 6008, PInt 7, PInt 153, PInt 7031, PInt 7034]),
         (''event_hours'', PInt 24), (''offline_after_polls'', PInt 3)]),
      (''runbooks'', PDict [(''enabled'', PBool True)]),
      (''backupwatch'', PDict [(''enabled'', PBool False), (''drill_reminder'', PBool True), (''resources'',
         PList [])]),
      (''planner'', PDict [(''enabled'', PBool False), (''tasks'', PList [])]),
      (''web_users'', PList []),
      (''proxmox'', PDict [(''enabled'', PBool False), (''host'', PStr []), (''port'', PInt 8006),
         (''verify_tls'', PBool True), (''token_id'', PStr []), (''token_secret'', PStr [])]),
      (''report'', PDict [(''weekly'', PDict [(''enabled'', PBool False), (''day'', PStr ''mon''),
         (''time'', PStr ''08:00''), (''to_email'', PStr [])])]),
      (''geo'', PDict [(''enabled'', PBool False)]),
      (''cve'', PDict [(''enabled'', PBool False)]),
      (''escalate'', PDict [(''enabled'', PBool False), (''unack_min'', PInt 30)]),
      (''web_tls'', PDict [(''enabled'', PBool False), (''cert'', PStr ''netpulse/certs/cert.pem''),
         (''key'', PStr ''netpulse/certs/key.pem'')])]"

section \<open>Merging\<close>

text \<open>Sections are merged key by key, anything else replaces what was there.\<close>

function deep_merge :: "(string, pyval) dict \<Rightarrow> (string, pyval) dict \<Rightarrow> (string, pyval) dict" where
  "deep_merge base [] = base"
| "deep_merge base ((k, v) # kvs) =
     deep_merge (dict_set k (case v of
         PDict e \<Rightarrow> (case dict_get base k of Some (PDict b) \<Rightarrow> PDict (deep_merge b e) | _ \<Rightarrow> v)
       | _ \<Rightarrow> v) base) kvs"
  by pat_completeness auto

termination
  by (relation "measure (\<lambda>(_, e). size (PDict e))") auto

section \<open>The check\<close>

definition num_ok :: "pyval \<Rightarrow> bool" where
  "num_ok v = (case v of PInt n \<Rightarrow> 0 \<le> n | PFloat x \<Rightarrow> 0 \<le> x | _ \<Rightarrow> False)"

definition port_ok :: "pyval \<Rightarrow> bool" where
  "port_ok v = (case v of PInt n \<Rightarrow> 1 \<le> n \<and> n \<le> 65535 | PFloat x \<Rightarrow> 1 \<le> x \<and> x \<le> 65535 | _ \<Rightarrow> False)"

text \<open>\<open>reset\<close> with a path of one key, and of a section and a key.\<close>

definition reset_key :: "string \<Rightarrow> (string, pyval) dict \<Rightarrow> (string, pyval) dict" where
  "reset_key k cfg = (case dict_get defaults k of None \<Rightarrow> cfg | Some v \<Rightarrow> dict_set k v cfg)"

definition default_in :: "string \<Rightarrow> string \<Rightarrow> pyval option" where
  "default_in sec k = (case dict_get defaults sec of Some (PDict d) \<Rightarrow> dict_get d k | _ \<Rightarrow> None)"

definition reset_in :: "string \<Rightarrow> string \<Rightarrow> (string, pyval) dict \<Rightarrow> (string, pyval) dict" where
  "reset_in sec k d = (case default_in sec k of None \<Rightarrow> d | Some v \<Rightarrow> dict_set k v d)"

definition numeric :: "(string \<times> string list) list" where
  "numeric =
     [(''watchdog'', [''interval_min'', ''timeout_sec'', ''disk_free_pct'', ''ram_free_mb'', ''event_hours'', ''offline_after_polls'']),
      (''mtr'', [''max_hops'', ''cycle_sec'', ''pings_per_hop'', ''rotate_sec'']),
      (''quota'', [''warn_pct'']), (''lan'', [''auto_scan_min'']), (''escalate'', [''unack_min'']),
      (''ping_interval_sec'', []), (''db_cleanup_days'', [])]"

fun check_keys :: "string \<Rightarrow> string list \<Rightarrow> (string, pyval) dict \<Rightarrow> (string, pyval) dict" where
  "check_keys sec [] d = d"
| "check_keys sec (k # ks) d =
     check_keys sec ks (if num_ok (get_default d k PNone) then d else reset_in sec k d)"

definition check_entry :: "string \<times> string list \<Rightarrow> (string, pyval) dict \<Rightarrow> (string, pyval) dict" where
  "check_entry p cfg =
     (case p of (sec, ks) \<Rightarrow>
        if ks \<noteq> [] then
          (case dict_get cfg sec of
             Some (PDict d) \<Rightarrow> dict_set sec (PDict (check_keys sec ks d)) cfg
           | _ \<Rightarrow> dict_set sec (get_default defaults sec (PDict [])) cfg)
        else if num_ok (get_default cfg sec PNone) then cfg else reset_key sec cfg)"

definition validate :: "(string, pyval) dict \<Rightarrow> (string, pyval) dict" where
  "validate cfg =
     (let c1 = (if \<not> num_ok (get_default cfg ''web_port'' PNone) \<or> \<not> port_ok (get_default cfg ''web_port'' PNone)
                then reset_key ''web_port'' cfg else cfg);
          c2 = (case get_default c1 ''web_host'' PNone of PStr _ \<Rightarrow> c1 | _ \<Rightarrow> reset_key ''web_host'' c1)
      in fold check_entry numeric c2)"

section \<open>The environment\<close>

text \<open>One line of the \<open>.env\<close> file.\<close>

definition env_line :: "string \<Rightarrow> (string \<times> string) option" where
  "env_line l =
     (let t = py_strip l
      in if t = [] \<or> hd t = CHR ''#'' \<or> CHR ''='' \<notin> set t then None
         else Some (py_strip (takeWhile (\<lambda>c. c \<noteq> CHR ''='') t), py_strip (tl (dropWhile (\<lambda>c. c \<noteq> CHR ''='') t))))"

text \<open>The file wins over the process environment.\<close>

definition env_raw :: "string list \<Rightarrow> (string, string) dict \<Rightarrow> (string, string) dict" where
  "env_raw ls environ =
     fold (\<lambda>(k, v) d. if dict_get d k = None then dict_set k v d else d) environ
       (fold (\<lambda>l d. case env_line l of None \<Rightarrow> d | Some (k, v) \<Rightarrow> dict_set k v d) ls [])"

text \<open>Walks to the section, creating it; on the way down everything must be a section.\<close>

fun put_env :: "string list \<Rightarrow> pyval \<Rightarrow> (string, pyval) dict \<Rightarrow> exn + (string, pyval) dict" where
  "put_env [] v d = Inr d"
| "put_env [k] v d = (case dict_get d k of Some (PDict _) \<Rightarrow> Inr d | _ \<Rightarrow> Inr (dict_set k v d))"
| "put_env (k # k' # ks) v d =
     (case get_default d k (PDict []) of
        PDict e \<Rightarrow> map_sum id (\<lambda>e'. dict_set k (PDict e') d) (put_env (k' # ks) v e)
      | _ \<Rightarrow> Inl AttributeError)"

definition env_prefix :: string where "env_prefix = ''NETPULSE_''"

definition env_value :: "(string \<Rightarrow> exn + pyval) \<Rightarrow> string \<Rightarrow> pyval" where
  "env_value json s = (case json s of Inl _ \<Rightarrow> PStr s | Inr v \<Rightarrow> py_or v (PStr s))"

fun put_all :: "(string \<Rightarrow> exn + pyval) \<Rightarrow> (string, string) dict \<Rightarrow> (string, pyval) dict \<Rightarrow> exn + (string, pyval) dict" where
  "put_all json [] d = Inr d"
| "put_all json ((k, s) # kvs) d =
     (if \<not> begins env_prefix k then put_all json kvs d
      else case put_env (split_on (CHR ''_'') (py_lower (drop (length env_prefix) k))) (env_value json s) d of
             Inl x \<Rightarrow> Inl x
           | Inr d' \<Rightarrow> put_all json kvs d')"

definition env_overrides ::
  "(string \<Rightarrow> exn + pyval) \<Rightarrow> string list \<Rightarrow> (string, string) dict \<Rightarrow> exn + (string, pyval) dict" where
  "env_overrides json ls environ = put_all json (env_raw ls environ) []"

section \<open>Loading\<close>

text \<open>
  \<open>saved\<close> is the parsed file, if it is there and parses; \<open>decrypt\<close> reveals secrets, \<open>token\<close> is a fresh one. The
  flag says that the configuration is written back.
\<close>

definition load_config ::
  "(string \<Rightarrow> exn + pyval) \<Rightarrow> ((string, pyval) dict \<Rightarrow> (string, pyval) dict) \<Rightarrow> string \<Rightarrow> pyval option \<Rightarrow> string list
     \<Rightarrow> (string, string) dict \<Rightarrow> exn + (string, pyval) dict \<times> bool" where
  "load_config json decrypt token saved ls environ =
     (let c1 = (case saved of Some (PDict d) \<Rightarrow> deep_merge defaults d | _ \<Rightarrow> defaults)
      in case env_overrides json ls environ of
           Inl x \<Rightarrow> Inl x
         | Inr env \<Rightarrow>
             (let c = validate (decrypt (deep_merge c1 env))
              in if truthy (get_default c ''web_auth_enabled'' PNone) \<and> \<not> truthy (get_default c ''web_token'' PNone)
                 then Inr (dict_set ''web_token'' (PStr token) c, True) else Inr (c, False)))"

definition merge_updates :: "(string, pyval) dict \<Rightarrow> (string, pyval) dict \<Rightarrow> (string, pyval) dict" where
  "merge_updates cfg updates = deep_merge cfg updates"

section \<open>What the check guarantees\<close>

text \<open>The numbers the check is for: in their sections, and two at the top of the configuration.\<close>

definition checked_numbers :: "(string \<times> string) list" where
  "checked_numbers =
     [(''watchdog'', ''interval_min''), (''watchdog'', ''timeout_sec''), (''watchdog'', ''disk_free_pct''),
      (''watchdog'', ''ram_free_mb''), (''watchdog'', ''event_hours''), (''watchdog'', ''offline_after_polls''),
      (''mtr'', ''max_hops''), (''mtr'', ''cycle_sec''), (''mtr'', ''pings_per_hop''), (''mtr'', ''rotate_sec''),
      (''quota'', ''warn_pct''), (''lan'', ''auto_scan_min''), (''escalate'', ''unack_min'')]"

definition settings_ok :: "(string, pyval) dict \<Rightarrow> bool" where
  "settings_ok cfg \<longleftrightarrow>
     port_ok (get_default cfg ''web_port'' PNone) \<and> (\<exists>s. dict_get cfg ''web_host'' = Some (PStr s))
     \<and> list_all (\<lambda>(sec, k). \<exists>d. dict_get cfg sec = Some (PDict d) \<and> num_ok (get_default d k PNone)) checked_numbers
     \<and> num_ok (get_default cfg ''ping_interval_sec'' PNone) \<and> num_ok (get_default cfg ''db_cleanup_days'' PNone)"

lemma numeric_defaults:
  "list_all (\<lambda>(sec, ks).
      if ks = [] then (case dict_get defaults sec of Some v \<Rightarrow> num_ok v | None \<Rightarrow> False)
      else list_all (\<lambda>k. case default_in sec k of Some v \<Rightarrow> num_ok v | None \<Rightarrow> False) ks
        \<and> (case dict_get defaults sec of Some (PDict _) \<Rightarrow> True | _ \<Rightarrow> False)) numeric"
  "distinct (map fst numeric)" "list_all (\<lambda>(sec, _). sec \<noteq> ''web_port'' \<and> sec \<noteq> ''web_host'') numeric"
  "dict_get defaults ''web_port'' = Some (PInt 8770)" "dict_get defaults ''web_host'' = Some (PStr ''127.0.0.1'')"
  by code_simp+

lemma check_keys_ok:
  assumes "list_all (\<lambda>k. case default_in sec k of Some v \<Rightarrow> num_ok v | None \<Rightarrow> False) ks"
  shows "(\<forall>k \<in> set ks. num_ok (get_default (check_keys sec ks d) k PNone))
    \<and> (\<forall>k. num_ok (get_default d k PNone) \<longrightarrow> num_ok (get_default (check_keys sec ks d) k PNone))"
  using assms
proof (induction ks arbitrary: d)
  case (Cons k ks)
  obtain v where v: "default_in sec k = Some v" "num_ok v" using Cons.prems by (auto split: option.splits)
  let ?d = "if num_ok (get_default d k PNone) then d else reset_in sec k d"
  have "num_ok (get_default ?d k PNone)" using v by (simp add: reset_in_def get_default_def)
  moreover have "num_ok (get_default ?d j PNone)" if "num_ok (get_default d j PNone)" for j
    using that v by (auto simp: reset_in_def get_default_def)
  moreover note Cons.IH [of ?d] Cons.prems
  ultimately show ?case by simp
qed simp

definition entry_ok :: "string \<times> string list \<Rightarrow> (string, pyval) dict \<Rightarrow> bool" where
  "entry_ok p cfg =
     (case p of (sec, ks) \<Rightarrow>
        if ks = [] then num_ok (get_default cfg sec PNone)
        else \<exists>d. dict_get cfg sec = Some (PDict d) \<and> (\<forall>k \<in> set ks. num_ok (get_default d k PNone)))"

lemma check_entry_other: "k \<noteq> fst p \<Longrightarrow> dict_get (check_entry p cfg) k = dict_get cfg k"
  by (cases p) (auto simp: check_entry_def reset_key_def split: option.split pyval.split)

lemma entry_ok_cong: "dict_get cfg (fst p) = dict_get cfg' (fst p) \<Longrightarrow> entry_ok p cfg = entry_ok p cfg'"
  by (cases p) (simp add: entry_ok_def get_default_def)

lemma default_section_ok:
  assumes "dict_get defaults sec = Some (PDict d)" "list_all (\<lambda>k. case default_in sec k of Some v \<Rightarrow> num_ok v | None \<Rightarrow> False) ks" "k \<in> set ks"
  shows "num_ok (get_default d k PNone)"
  using assms by (auto simp: default_in_def list_all_iff get_default_def split: option.splits)

lemma check_entry_ok:
  assumes "p \<in> set numeric"
  shows "entry_ok p (check_entry p cfg)"
proof -
  obtain sec ks where p: "p = (sec, ks)" by (cases p)
  note dflt = bspec [OF numeric_defaults(1) [unfolded list_all_iff] assms, unfolded p prod.case]
  show ?thesis
  proof (cases "ks = []")
    case True
    then show ?thesis using dflt by (auto simp: p entry_ok_def check_entry_def reset_key_def get_default_def split: option.splits)
  next
    case False
    then have all: "list_all (\<lambda>k. case default_in sec k of Some v \<Rightarrow> num_ok v | None \<Rightarrow> False) ks"
      and "\<exists>d. dict_get defaults sec = Some (PDict d)"
      using dflt by (auto simp: list_all_iff split: option.splits pyval.splits)
    then obtain d where d: "dict_get defaults sec = Some (PDict d)" by blast
    show ?thesis
    proof (cases "\<exists>e. dict_get cfg sec = Some (PDict e)")
      case True
      then obtain e where "dict_get cfg sec = Some (PDict e)" by blast
      then show ?thesis using False check_keys_ok [OF all, of e] by (simp add: p entry_ok_def check_entry_def)
    next
      case no: False
      then have "check_entry p cfg = dict_set sec (PDict d) cfg"
        using False d by (auto simp: p check_entry_def get_default_def split: option.split pyval.split)
      then show ?thesis using False default_section_ok [OF d all] by (simp add: p entry_ok_def)
    qed
  qed
qed

lemma fold_check_other: "k \<notin> fst ` set ps \<Longrightarrow> dict_get (fold check_entry ps cfg) k = dict_get cfg k"
  by (induction ps arbitrary: cfg) (simp_all add: check_entry_other)

lemma fold_check_ok:
  "distinct (map fst ps) \<Longrightarrow> set ps \<subseteq> set numeric \<Longrightarrow> \<forall>p \<in> set ps. entry_ok p (fold check_entry ps cfg)"
proof (induction ps arbitrary: cfg)
  case (Cons p ps)
  have "dict_get (fold check_entry ps (check_entry p cfg)) (fst p) = dict_get (check_entry p cfg) (fst p)"
    by (rule fold_check_other) (use Cons.prems(1) in auto)
  then have "entry_ok p (fold check_entry ps (check_entry p cfg))"
    using check_entry_ok [of p cfg] Cons.prems(2) entry_ok_cong [of "fold check_entry ps (check_entry p cfg)" p "check_entry p cfg"]
    by simp
  with Cons.IH [of "check_entry p cfg"] Cons.prems show ?case by auto
qed simp

text \<open>C38: Whatever a saved configuration and the environment contain, after the check the port of the web server
  is a number between 1 and 65535 and its host a text; the sections of the watchdog, of the path trace, of the
  quota, of the local network and of the escalation are sections; and the thirteen numbers of them that are
  checked, the ping interval and the age of the clean-up are numbers that are not negative. The other settings
  are not checked.\<close>

theorem validated_settings: "settings_ok (validate cfg)"
proof -
  define c1 where "c1 = (if \<not> num_ok (get_default cfg ''web_port'' PNone) \<or> \<not> port_ok (get_default cfg ''web_port'' PNone)
                        then reset_key ''web_port'' cfg else cfg)"
  define c2 where "c2 = (case get_default c1 ''web_host'' PNone of PStr _ \<Rightarrow> c1 | _ \<Rightarrow> reset_key ''web_host'' c1)"
  have v: "validate cfg = fold check_entry numeric c2" unfolding validate_def Let_def c1_def c2_def by (rule refl)
  have "k \<notin> fst ` set numeric" if "k = ''web_port'' \<or> k = ''web_host''" for k
    using numeric_defaults(3) that by (auto simp: list_all_iff)
  then have same: "dict_get (validate cfg) ''web_port'' = dict_get c2 ''web_port''" "dict_get (validate cfg) ''web_host'' = dict_get c2 ''web_host''"
    unfolding v by (simp_all add: fold_check_other)
  have c1: "port_ok (get_default c1 ''web_port'' PNone)"
    using numeric_defaults(4) by (auto simp: c1_def reset_key_def get_default_def port_ok_def)
  have "dict_get c2 ''web_port'' = dict_get c1 ''web_port''"
    by (simp add: c2_def reset_key_def numeric_defaults(5) split: pyval.split)
  with c1 same(1) have port: "port_ok (get_default (validate cfg) ''web_port'' PNone)" by (simp add: get_default_def)
  have "\<exists>s. dict_get c2 ''web_host'' = Some (PStr s)"
    using numeric_defaults(5) by (auto simp: c2_def reset_key_def get_default_def split: pyval.split option.split)
  with same(2) have host: "\<exists>s. dict_get (validate cfg) ''web_host'' = Some (PStr s)" by simp
  have "\<forall>p \<in> set numeric. entry_ok p (validate cfg)"
    unfolding v by (rule fold_check_ok [OF numeric_defaults(2) order_refl])
  then have "list_all (\<lambda>(sec, k). \<exists>d. dict_get (validate cfg) sec = Some (PDict d) \<and> num_ok (get_default d k PNone)) checked_numbers"
    and "num_ok (get_default (validate cfg) ''ping_interval_sec'' PNone)" "num_ok (get_default (validate cfg) ''db_cleanup_days'' PNone)"
    by (auto simp: numeric_def checked_numbers_def entry_ok_def)
  with port host show ?thesis by (simp add: settings_ok_def)
qed

section \<open>What the environment cannot reach\<close>

lemma split_on_free: "w \<in> set (split_on s cs) \<Longrightarrow> s \<notin> set w"
  by (induction s cs arbitrary: w rule: split_on.induct) (auto split: if_splits list.splits)

lemma put_env_keys: "put_env ks v d = Inr d' \<Longrightarrow> k \<in> set (dict_keys d') \<Longrightarrow> k \<in> set ks \<or> k \<in> set (dict_keys d)"
proof (cases "(ks, v, d)" rule: put_env.cases)
  case (3 a b cs w e)
  assume "put_env ks v d = Inr d'" and k: "k \<in> set (dict_keys d')"
  then obtain x where "d' = dict_set a (PDict x) e"
    using 3 by (auto simp: map_sum_def split: pyval.splits sum.splits)
  then show ?thesis using k 3 by (auto simp: set_dict_keys split: if_splits)
qed (auto simp: set_dict_keys split: option.splits pyval.splits if_splits)

lemma put_all_keys:
  "put_all json kvs d = Inr d' \<Longrightarrow> k \<in> set (dict_keys d') \<Longrightarrow> CHR ''_'' \<notin> set k \<or> k \<in> set (dict_keys d)"
proof (induction json kvs d rule: put_all.induct)
  case (2 json nm s kvs d)
  show ?case
  proof (cases "begins env_prefix nm")
    case False
    with "2.IH"(1) "2.prems" show ?thesis by simp
  next
    case True
    then obtain d1 where p: "put_env (split_on (CHR ''_'') (py_lower (drop (length env_prefix) nm))) (env_value json s) d = Inr d1"
      "put_all json kvs d1 = Inr d'"
      using "2.prems"(1) by (auto split: sum.splits)
    have "\<not> \<not> begins env_prefix nm" using True by simp
    from "2.IH"(2) [OF this p "2.prems"(2)] show ?thesis
      using put_env_keys [OF p(1), of k] split_on_free by blast
  qed
qed simp

lemma deep_merge_other: "k \<notin> set (dict_keys e) \<Longrightarrow> dict_get (deep_merge b e) k = dict_get b k"
proof (induction e arbitrary: b)
  case (Cons kv e)
  then show ?case by (cases kv) (simp add: dict_keys_def)
qed simp

text \<open>No variable of the environment or of the \<open>.env\<close> file changes a setting whose name contains an
  underscore at the top of the configuration: the name of a variable is cut at its underscores into a path of
  sections. The documented \<open>NETPULSE_WEB_PORT\<close> sets the port of a section \<open>web\<close> that nothing reads.\<close>

theorem environment_misses_flat_settings:
  assumes "env_overrides json ls environ = Inr env" and "CHR ''_'' \<in> set k"
  shows "dict_get (deep_merge cfg env) k = dict_get cfg k"
proof (rule deep_merge_other)
  show "k \<notin> set (dict_keys env)"
    using put_all_keys [of json "env_raw ls environ" "[]" env k] assms by (auto simp: env_overrides_def dict_keys_def)
qed

theorem environment_misses_flat_settings_witness:
  "\<exists>env. env_overrides (\<lambda>s. Inr (PInt 9999)) [] [(''NETPULSE_WEB_PORT'', ''9999'')] = Inr env
     \<and> dict_get (deep_merge defaults env) ''web_port'' = Some (PInt 8770)
     \<and> dict_get (deep_merge defaults env) ''web'' = Some (PDict [(''port'', PInt 9999)])"
proof -
  let ?env = "[(''web'', PDict [(''port'', PInt 9999)])]"
  have run: "env_overrides (\<lambda>s. Inr (PInt 9999)) [] [(''NETPULSE_WEB_PORT'', ''9999'')] = Inr ?env" by code_simp
  have "dict_get defaults ''web'' = None" by code_simp
  then have "dict_get (deep_merge defaults ?env) ''web'' = Some (PDict [(''port'', PInt 9999)])" by simp
  moreover have "dict_get (deep_merge defaults ?env) ''web_port'' = Some (PInt 8770)"
    using environment_misses_flat_settings [OF run, of "''web_port''" defaults] numeric_defaults(4) by simp
  ultimately show ?thesis using run by blast
qed

end
