(* ===== verification/Watchdog.thy ===== *)
theory Watchdog
  imports Inventory
begin

text \<open>
  The watchdog of the machines: \<open>netpulse/watchdog.py\<close> with \<open>netpulse/customchecks.py\<close> and \<open>netpulse/sysadmin.py\<close>.
  A poll runs a script on a machine, turns its answer into events of the inventory and counts the polls that
  fail. The process that runs the script, ping, JSON, \<open>float\<close> and \<open>str\<close> are fields of \<open>watch_env\<close>, and one poll
  happens at one time. The guess of the kind of a device after a failed poll is not modelled.
\<close>

section \<open>State and surroundings\<close>

record disk_row =
  dk_stamp :: stamp
  dk_host :: int
  dk_drive :: string
  dk_free :: real
  dk_total :: real

record watch =
  wa_park :: park
  wa_streak :: "(string, int) dict"
  wa_disks :: "disk_row list"
  wa_effects :: "event_effect list"

definition new_watch :: "park \<Rightarrow> watch" where
  "new_watch p = \<lparr>wa_park = p, wa_streak = [], wa_disks = [], wa_effects = []\<rparr>"

text \<open>
  \<open>we_back n\<close> is the stamp \<open>n\<close> hours ago, \<open>we_me\<close> the name of this machine, \<open>we_my_ip\<close> its address, \<open>we_body\<close> the script
  with its placeholder replaced.
\<close>

record watch_env =
  we_now :: stamp
  we_back :: "int \<Rightarrow> stamp"
  we_me :: string
  we_my_ip :: "exn + string"
  we_body :: string
  we_run :: "string list \<Rightarrow> exn + string"
  we_json :: "string \<Rightarrow> exn + pyval"
  we_ping :: "string \<Rightarrow> bool"
  we_float :: "pyval \<Rightarrow> exn + real"
  we_str :: "pyval \<Rightarrow> string"
  we_exn :: "exn \<Rightarrow> string"

definition watch_defaults :: "(string, pyval) dict" where
  "watch_defaults =
     [(''enabled'', PBool False), (''interval_min'', PInt 15), (''timeout_sec'', PInt 25),
      (''hosts'', PList [PStr ''127.0.0.1'']), (''disk_free_pct'', PInt 10), (''ram_free_mb'', PInt 500),
      (''event_ids'', PList [PInt 41, PInt 6008, PInt 7, PInt 153, PInt 7031, PInt 7034]), (''event_hours'', PInt 24),
      (''offline_after_polls'', PInt 3)]"

definition watch_config :: "(string, pyval) dict \<Rightarrow> (string, pyval) dict" where
  "watch_config sec = fold (\<lambda>(k, v). dict_set k v) sec watch_defaults"

text \<open>\<open>str(v)\<close>, which is a text itself for a text.\<close>

definition py_text :: "watch_env \<Rightarrow> pyval \<Rightarrow> string" where
  "py_text e v = (case v of PStr s \<Rightarrow> s | _ \<Rightarrow> we_str e v)"

section \<open>Asking a machine\<close>

definition is_local :: "watch_env \<Rightarrow> string \<Rightarrow> bool" where
  "is_local e h \<longleftrightarrow> py_strip (py_lower h) \<in> {''127.0.0.1'', ''localhost'', ''::1'', py_lower (we_me e)}"

definition collect_command :: "watch_env \<Rightarrow> string \<Rightarrow> string list" where
  "collect_command e h =
     [''powershell'', ''-NoProfile'', ''-NonInteractive'', ''-Command'',
      if is_local e h then we_body e
      else ''Invoke-Command -ComputerName '' @ h @ '' -ScriptBlock { '' @ we_body e @ '' }'']"

definition empty_answer :: string where
  "empty_answer = utf8 [208, 191, 209, 131, 209, 129, 209, 130, 208, 190, 208, 185, 32, 208, 190, 209, 130,
      208, 178, 208, 181, 209, 130]"

definition collect :: "watch_env \<Rightarrow> string \<Rightarrow> exn + pyval" where
  "collect e h =
     bind_sum (we_run e (collect_command e h)) (\<lambda>raw.
       if py_strip raw = [] then Inl (PyException empty_answer)
       else bind_sum (we_json e (py_strip raw)) (\<lambda>v.
         case v of PList vs \<Rightarrow> Inr (case vs of [] \<Rightarrow> PDict [] | a # _ \<Rightarrow> a) | _ \<Rightarrow> Inr v))"

section \<open>Rules\<close>

text \<open>A hit: kind, severity, text, key and hours of its window.\<close>

type_synonym hit = "string \<times> string \<times> string \<times> string \<times> int"

definition ymd :: "stamp \<Rightarrow> string" where
  "ymd t = filter (\<lambda>c. c \<noteq> CHR ''-'') (ts_date t)"

definition ymdh :: "stamp \<Rightarrow> string" where
  "ymdh t = ymd t @ take 2 (ts_time t)"

text \<open>\<open>{x:.0f}\<close>\<close>

definition fixed0 :: "real \<Rightarrow> string" where
  "fixed0 x = (if x < 0 \<and> py_round x = 0 then ''-0'' else string_of_int (py_round x))"

text \<open>\<open>float(d.get(k) or 0)\<close>\<close>

definition float_at :: "watch_env \<Rightarrow> pyval \<Rightarrow> string \<Rightarrow> exn + real" where
  "float_at e d k = bind_sum (val_get d k PNone) (\<lambda>v. we_float e (py_or v (PInt 0)))"

definition disk_hit :: "watch_env \<Rightarrow> (string, pyval) dict \<Rightarrow> string \<Rightarrow> pyval \<Rightarrow> exn + hit list" where
  "disk_hit e cfg h d =
     bind_sum (float_at e d ''total'') (\<lambda>size_gb.
     bind_sum (float_at e d ''free'') (\<lambda>free.
       if size_gb \<le> 0 then Inr []
       else bind_sum (we_float e (get_default cfg ''disk_free_pct'' PNone)) (\<lambda>bound.
         if free / size_gb * 100 \<le> bound then
           bind_sum (val_get d ''drive'' PNone) (\<lambda>drive.
             Inr [(''disk'', ''CRITICAL'',
                   utf8 [208, 148, 208, 184, 209, 129, 208, 186, 32] @ py_text e drive @ utf8 [32, 208, 183,
      208, 176, 208, 191, 208, 190, 208, 187, 208, 189, 208, 181, 208, 189, 58, 32, 209, 129, 208, 178, 208, 190, 208, 177, 208, 190, 208, 180, 208, 189, 208, 190, 32] @ fixed0 (free / size_gb * 100) @ ''% ('' @ we_str e (PFloat free) @ '' GB)'',
                   h @ '':disk:'' @ py_text e drive, 12)])
         else Inr [])))"

fun disk_hits :: "watch_env \<Rightarrow> (string, pyval) dict \<Rightarrow> string \<Rightarrow> pyval list \<Rightarrow> exn + hit list" where
  "disk_hits e cfg h [] = Inr []"
| "disk_hits e cfg h (d # ds) = bind_sum (disk_hit e cfg h d) (\<lambda>xs. map_sum id (append xs) (disk_hits e cfg h ds))"

definition ram_hits :: "watch_env \<Rightarrow> (string, pyval) dict \<Rightarrow> string \<Rightarrow> pyval \<Rightarrow> exn + hit list" where
  "ram_hits e cfg h ram =
     (if ram = PNone then Inr []
      else bind_sum (we_float e ram) (\<lambda>x. bind_sum (we_float e (get_default cfg ''ram_free_mb'' PNone)) (\<lambda>bound.
        Inr (if x < bound then [(''ram'', ''HIGH'', utf8 [208, 156, 208, 176, 208, 187, 208, 190, 32, 208, 191,
      208, 176, 208, 188, 209, 143, 209, 130, 208, 184, 58, 32, 209, 129, 208, 178, 208, 190, 208, 177, 208, 190, 208, 180, 208, 189, 208, 190, 32] @ py_text e ram @ '' MB'',
                                 h @ '':ram:'' @ ymdh (we_now e), 2)] else []))))"

fun int_all :: "pyval list \<Rightarrow> exn + int list" where
  "int_all [] = Inr []"
| "int_all (v # vs) = bind_sum (py_int v) (\<lambda>n. map_sum id (Cons n) (int_all vs))"

fun event_hits :: "watch_env \<Rightarrow> string \<Rightarrow> int list \<Rightarrow> int list \<Rightarrow> pyval list \<Rightarrow> exn + hit list" where
  "event_hits e h watched seen [] = Inr []"
| "event_hits e h watched seen (v # vs) =
     bind_sum (val_get v ''id'' PNone) (\<lambda>i.
       case py_int (py_or i (PInt 0)) of
         Inl _ \<Rightarrow> event_hits e h watched seen vs
       | Inr n \<Rightarrow>
           if n \<notin> set watched \<or> n \<in> set seen then event_hits e h watched seen vs
           else bind_sum (val_get v ''text'' PNone) (\<lambda>t.
             case py_or t (PStr []) of
               PStr s \<Rightarrow>
                 map_sum id (Cons (''eventlog'', if n \<in> {41, 6008} then ''HIGH'' else ''MEDIUM'',
                     ''Event ID '' @ string_of_int n @ '': '' @ take 160 (py_strip s),
                     h @ '':ev:'' @ string_of_int n @ '':'' @ ymd (we_now e), 20))
                   (event_hits e h watched (n # seen) vs)
             | _ \<Rightarrow> Inl AttributeError))"

definition no_reason :: string where
  "no_reason = utf8 [208, 177, 208, 181, 208, 183, 32, 208, 191, 209, 128, 208, 184, 209, 135, 208, 184, 208,
      189, 209, 139]"

fun smart_hits :: "watch_env \<Rightarrow> string \<Rightarrow> pyval list \<Rightarrow> exn + hit list" where
  "smart_hits e h [] = Inr []"
| "smart_hits e h (v # vs) =
     bind_sum (val_get v ''reason'' PNone) (\<lambda>r.
       let reason = take 100 (py_strip (py_text e (py_or r (PStr []))))
       in map_sum id (Cons (''smart'', ''CRITICAL'',
            utf8 [83, 46, 77, 46, 65, 46, 82, 46, 84, 46, 32, 208, 191, 209, 128, 208, 181, 208, 180, 209, 129,
      208, 186, 208, 176, 208, 183, 209, 139, 208, 178, 208, 176, 208, 181, 209, 130, 32, 208, 190, 209, 130, 208, 186, 208, 176, 208, 183, 32, 208, 180, 208, 184, 209, 129, 208, 186, 208, 176, 32, 40] @ (if reason = [] then no_reason else reason) @ '')'',
            h @ '':smart'', 24)) (smart_hits e h vs))"

text \<open>\<open>data.get(k) or []\<close> as a loop sees it.\<close>

definition items_at :: "pyval \<Rightarrow> string \<Rightarrow> exn + pyval list" where
  "items_at v k = bind_sum (val_get v k PNone) (\<lambda>w. py_iter (py_or w (PList [])))"

definition rule_hits :: "watch_env \<Rightarrow> (string, pyval) dict \<Rightarrow> string \<Rightarrow> pyval \<Rightarrow> exn + hit list" where
  "rule_hits e cfg h v =
     bind_sum (items_at v ''disks'') (\<lambda>ds.
     bind_sum (disk_hits e cfg h ds) (\<lambda>a.
     bind_sum (val_get v ''ramFreeMB'' PNone) (\<lambda>ram.
     bind_sum (ram_hits e cfg h ram) (\<lambda>b.
     bind_sum (py_iter (py_or (get_default cfg ''event_ids'' PNone) (PList []))) (\<lambda>ids.
     bind_sum (int_all ids) (\<lambda>watched.
     bind_sum (items_at v ''errors'') (\<lambda>errs.
     bind_sum (event_hits e h watched [] errs) (\<lambda>c.
     bind_sum (items_at v ''smart'') (\<lambda>ss.
     bind_sum (smart_hits e h ss) (\<lambda>d. Inr (a @ b @ c @ d)))))))))))"

definition note_from :: "watch_env \<Rightarrow> string \<Rightarrow> int option \<Rightarrow> hit \<Rightarrow> watch \<Rightarrow> watch" where
  "note_from e src hid x w =
     (case x of (kind, sev, txt, key, hours) \<Rightarrow>
        case note_event (we_now e) (we_back e) hid kind sev src txt (Some key) hours (wa_park w) of
          (_, fx, p) \<Rightarrow> w\<lparr>wa_park := p, wa_effects := wa_effects w @ fx\<rparr>)"

abbreviation note_in :: "watch_env \<Rightarrow> int option \<Rightarrow> hit \<Rightarrow> watch \<Rightarrow> watch" where
  "note_in e \<equiv> note_from e ''watchdog''"

definition apply_rules :: "watch_env \<Rightarrow> (string, pyval) dict \<Rightarrow> string \<Rightarrow> int \<Rightarrow> pyval \<Rightarrow> watch \<Rightarrow> (exn + nat) \<times> watch" where
  "apply_rules e cfg h hid v w =
     (case rule_hits e cfg h v of
        Inl x \<Rightarrow> (Inl x, w)
      | Inr hits \<Rightarrow> (Inr (length hits), fold (note_in e (Some hid)) hits w))"

text \<open>One row per disk of an answer; a size that is not a number skips the disk.\<close>

fun disk_rows :: "watch_env \<Rightarrow> int \<Rightarrow> pyval list \<Rightarrow> exn + disk_row list" where
  "disk_rows e hid [] = Inr []"
| "disk_rows e hid (d # ds) =
     bind_sum (val_get d ''drive'' PNone) (\<lambda>drive.
       case bind_sum (float_at e d ''free'') (\<lambda>free. bind_sum (float_at e d ''total'') (\<lambda>size_gb. Inr (free, size_gb))) of
         Inr (free, size_gb) \<Rightarrow>
           map_sum id (Cons \<lparr>dk_stamp = we_now e, dk_host = hid, dk_drive = py_text e drive, dk_free = free, dk_total = size_gb\<rparr>)
             (disk_rows e hid ds)
       | Inl x \<Rightarrow> if x = ValueError \<or> x = TypeError then disk_rows e hid ds else Inl x)"

definition record_disks :: "watch_env \<Rightarrow> int \<Rightarrow> pyval \<Rightarrow> watch \<Rightarrow> exn option \<times> watch" where
  "record_disks e hid v w =
     (case bind_sum (items_at v ''disks'') (disk_rows e hid) of
        Inl x \<Rightarrow> (Some x, w)
      | Inr rows \<Rightarrow> (None, w\<lparr>wa_disks := wa_disks w @ rows\<rparr>))"

section \<open>A poll\<close>

definition ping_target :: "watch_env \<Rightarrow> string \<Rightarrow> string" where
  "ping_target e h =
     (if is_local e h then (case we_my_ip e of Inl _ \<Rightarrow> ''127.0.0.1'' | Inr s \<Rightarrow> if s = [] then ''127.0.0.1'' else s) else h)"

definition offline_after :: "(string, pyval) dict \<Rightarrow> exn + int" where
  "offline_after cfg = py_int (get_default cfg ''offline_after_polls'' (PInt 3))"

definition no_winrm_text :: string where
  "no_winrm_text = utf8 [208, 158, 209, 130, 208, 178, 208, 181, 209, 135, 208, 176, 208, 181, 209, 130, 32,
      208, 189, 208, 176, 32, 112, 105, 110, 103, 44, 32, 208, 189, 208, 190, 32, 208, 189, 208, 181, 209, 130, 32, 87, 105, 110, 82, 77, 32, 226, 128, 148, 32, 208, 189, 208, 181, 32, 87, 105, 110, 100, 111, 119, 115, 32, 208, 184, 208, 187, 208, 184, 32, 208, 178, 209, 139, 208, 186, 208, 187, 209, 142, 209, 135, 208, 181, 208, 189, 32, 87, 105, 110, 82, 77]"

definition offline_text :: "watch_env \<Rightarrow> int \<Rightarrow> exn \<Rightarrow> string" where
  "offline_text e n x = utf8 [208, 156, 208, 176, 209, 136, 208, 184, 208, 189, 208, 176, 32, 208, 189, 208,
      181, 208, 180, 208, 190, 209, 129, 209, 130, 209, 131, 208, 191, 208, 189, 208, 176,
      32] @ string_of_int n @ utf8 [32, 208, 190, 208, 191, 209, 128, 208, 190, 209, 129, 208, 190, 208, 178,
      32, 208, 191, 208, 190, 208, 180, 209, 128, 209, 143, 208, 180, 32, 40] @ take 80 (we_exn e x) @ '')''"

definition count_failure :: "string \<Rightarrow> watch \<Rightarrow> watch" where
  "count_failure h w = w\<lparr>wa_streak := dict_set h (get_default (wa_streak w) h 0 + 1) (wa_streak w)\<rparr>"

text \<open>A poll whose collection failed with \<open>x\<close>, after the failure was counted.\<close>

definition answers_ping :: "watch_env \<Rightarrow> (string, pyval) dict \<Rightarrow> string \<Rightarrow> watch \<Rightarrow> exn option \<times> watch" where
  "answers_ping e cfg h w =
     (case upsert_host (we_now e) h (ping_target e h) [] (wa_park w) of
        (None, p) \<Rightarrow> (None, w\<lparr>wa_park := p\<rparr>)
      | (Some hid, p) \<Rightarrow>
          (let w' = w\<lparr>wa_park := mark_online (we_now e) hid True p\<rparr>
           in case offline_after cfg of
                Inl y \<Rightarrow> (Some y, w')
              | Inr n \<Rightarrow> (None, if n \<le> get_default (wa_streak w) h 0
                               then note_in e (Some hid) (''nowinrm'', ''LOW'', no_winrm_text, h @ '':nowinrm'', 168) w' else w')))"

definition answers_nothing :: "watch_env \<Rightarrow> (string, pyval) dict \<Rightarrow> string \<Rightarrow> exn \<Rightarrow> watch \<Rightarrow> exn option \<times> watch" where
  "answers_nothing e cfg h x w =
     (case offline_after cfg of
        Inl y \<Rightarrow> (Some y, w)
      | Inr n \<Rightarrow>
          if get_default (wa_streak w) h 0 < n then (None, w)
          else case upsert_host (we_now e) h (if is_local e h then [] else h) [] (wa_park w) of
                 (None, p) \<Rightarrow> (None, w\<lparr>wa_park := p\<rparr>)
               | (Some hid, p) \<Rightarrow>
                   (None, note_in e (Some hid) (''offline'', ''HIGH'', offline_text e (get_default (wa_streak w) h 0) x,
                                                h @ '':offline:'' @ ymd (we_now e), 6)
                            (w\<lparr>wa_park := mark_online (we_now e) hid False p\<rparr>)))"

definition poll_failed :: "watch_env \<Rightarrow> (string, pyval) dict \<Rightarrow> string \<Rightarrow> exn \<Rightarrow> watch \<Rightarrow> exn option \<times> watch" where
  "poll_failed e cfg h x w =
     (if we_ping e (ping_target e h) then answers_ping e cfg h (count_failure h w)
      else answers_nothing e cfg h x (count_failure h w))"

definition back_online_text :: string where
  "back_online_text = utf8 [208, 161, 208, 189, 208, 190, 208, 178, 208, 176, 32, 208, 178, 32, 209, 129, 208,
      181, 209, 130, 208, 184]"

definition answered :: "watch_env \<Rightarrow> string \<Rightarrow> int option \<Rightarrow> watch \<Rightarrow> watch" where
  "answered e h hid w =
     (let w1 = (case hid of None \<Rightarrow> w | Some i \<Rightarrow> w\<lparr>wa_park := mark_online (we_now e) i True (wa_park w)\<rparr>);
          w2 = (if 0 < get_default (wa_streak w1) h 0
                then note_in e hid (''online'', ''LOW'', back_online_text, h @ '':online:'' @ ymd (we_now e), 6) w1 else w1)
      in w2\<lparr>wa_streak := dict_set h 0 (wa_streak w2)\<rparr>)"

definition poll_answered :: "watch_env \<Rightarrow> (string, pyval) dict \<Rightarrow> string \<Rightarrow> pyval \<Rightarrow> watch \<Rightarrow> exn option \<times> watch" where
  "poll_answered e cfg h v w =
     (case bind_sum (val_get v ''host'' PNone) (\<lambda>nm. bind_sum (val_get v ''os'' PNone) (\<lambda>os. Inr (nm, os))) of
        Inl x \<Rightarrow> (Some x, w)
      | Inr (nm, os) \<Rightarrow>
          (case upsert_host (we_now e) (py_text e (py_or nm (PStr h))) (ping_target e h)
                  (take 120 (py_text e (py_or os (PStr [])))) (wa_park w) of
             (None, p) \<Rightarrow> (None, answered e h None (w\<lparr>wa_park := p\<rparr>))
           | (Some hid, p) \<Rightarrow>
               (case apply_rules e cfg h hid v (answered e h (Some hid) (w\<lparr>wa_park := p\<rparr>)) of
                  (Inl x, w') \<Rightarrow> (Some x, w')
                | (Inr _, w') \<Rightarrow> record_disks e hid v w')))"

definition poll_host :: "watch_env \<Rightarrow> (string, pyval) dict \<Rightarrow> string \<Rightarrow> watch \<Rightarrow> exn option \<times> watch" where
  "poll_host e cfg h w =
     (case py_int (get_default cfg ''timeout_sec'' (PInt 25)) of
        Inl x \<Rightarrow> (Some x, w)
      | Inr _ \<Rightarrow> (case collect e h of Inl x \<Rightarrow> poll_failed e cfg h x w | Inr v \<Rightarrow> poll_answered e cfg h v w))"

section \<open>Whom to poll\<close>

text \<open>\<open>lan\<close> holds name and address of the devices found in the network.\<close>

fun stripped_hosts :: "watch_env \<Rightarrow> pyval list \<Rightarrow> exn + string list" where
  "stripped_hosts e [] = Inr []"
| "stripped_hosts e (v # vs) =
     (if py_strip (py_text e v) = [] then stripped_hosts e vs
      else case v of PStr s \<Rightarrow> map_sum id (Cons (py_strip s)) (stripped_hosts e vs) | _ \<Rightarrow> Inl AttributeError)"

definition lan_name :: "string option \<times> string option \<Rightarrow> string option" where
  "lan_name d = (case d of (Some nm, ip) \<Rightarrow> if nm = ''-'' then ip else Some nm | (None, ip) \<Rightarrow> ip)"

definition known_names :: "park \<Rightarrow> (string option \<times> string option) list \<Rightarrow> string list" where
  "known_names p lan =
     concat (map (\<lambda>m. [ma_name m, ma_ip m]) (pk_machines p))
     @ concat (map (\<lambda>d. [case lan_name d of None \<Rightarrow> [] | Some s \<Rightarrow> s, case snd d of None \<Rightarrow> [] | Some s \<Rightarrow> s]) lan)"

definition add_target :: "string \<Rightarrow> string list \<Rightarrow> string list" where
  "add_target v out = (let t = py_strip v in if t = [] \<or> t \<in> set out \<or> begins ''127.'' t then out else out @ [t])"

definition resolve_hosts :: "watch_env \<Rightarrow> (string, pyval) dict \<Rightarrow> (string option \<times> string option) list \<Rightarrow> park \<Rightarrow> exn + string list" where
  "resolve_hosts e cfg lan p =
     bind_sum (py_iter (py_or (get_default cfg ''hosts'' PNone) (PList []))) (\<lambda>vs.
     bind_sum (stripped_hosts e vs) (\<lambda>raw.
       if \<not> list_ex (\<lambda>h. py_lower h = ''auto'') raw then Inr raw
       else let out = fold add_target (known_names p lan) (filter (\<lambda>h. py_lower h \<noteq> ''auto'') raw)
            in Inr (take 60 (if py_lower (we_me e) \<in> set (map py_lower out) then out else we_me e # out))))"

section \<open>Checks of the operator\<close>

record check =
  ck_path :: string
  ck_name :: string
  ck_interval :: int
  ck_callable :: bool

record check_result =
  cr_name :: string
  cr_ok :: bool
  cr_text :: string
  cr_ms :: int

record checks =
  cs_mods :: "check list"
  cs_last :: "(string, real) dict"
  cs_results :: "check_result list"

text \<open>What a check returns and raises, and the clock before and after it; \<open>ce_gateway\<close> is empty when there is none.\<close>

record check_env =
  ce_start :: real
  ce_run :: "string \<Rightarrow> exn + pyval"
  ce_before :: "string \<Rightarrow> real"
  ce_after :: "string \<Rightarrow> real"
  ce_gateway :: string

definition check_failed_text :: string where
  "check_failed_text = utf8 [208, 190, 209, 136, 208, 184, 208, 177, 208, 186, 208, 176, 32, 208, 191, 209,
      128, 208, 190, 208, 178, 208, 181, 209, 128, 208, 186, 208, 184, 58, 32]"

definition check_answer :: "watch_env \<Rightarrow> exn + pyval \<Rightarrow> bool \<times> string" where
  "check_answer e r =
     (case bind_sum r (\<lambda>v. let d = py_or v (PDict []) in
             bind_sum (val_get d ''ok'' PNone) (\<lambda>ok. bind_sum (val_get d ''text'' PNone) (\<lambda>t.
               Inr (truthy ok, take 200 (py_text e (py_or t (PStr []))))))) of
        Inl x \<Rightarrow> (False, check_failed_text @ we_exn e x)
      | Inr a \<Rightarrow> a)"

definition run_due :: "watch_env \<Rightarrow> check_env \<Rightarrow> check \<Rightarrow> checks \<times> watch \<Rightarrow> check_result \<times> checks \<times> watch" where
  "run_due e c m cw =
     (case cw of (cs, w) \<Rightarrow> case check_answer e (ce_run c (ck_path m)) of (ok, t) \<Rightarrow>
        let item = \<lparr>cr_name = ck_name m, cr_ok = ok, cr_text = t,
                    cr_ms = py_round ((ce_after c (ck_path m) - ce_before c (ck_path m)) * 1000)\<rparr>;
            cs' = cs\<lparr>cs_last := dict_set (ck_path m) (ce_after c (ck_path m)) (cs_last cs),
                     cs_results := filter (\<lambda>r. cr_name r \<noteq> ck_name m) (cs_results cs) @ [item]\<rparr>
        in if ok then (item, cs', w)
           else case resolve_host_id (we_now e) (if ce_gateway c = [] then [] else we_me e) (wa_park w) of
                  (None, p) \<Rightarrow> (item, cs', w\<lparr>wa_park := p\<rparr>)
                | (Some hid, p) \<Rightarrow>
                    (item, cs', note_from e ''custom_check'' (Some hid)
                       (''custom'', ''WARN'', ck_name m @ '': '' @ t, ''cc:'' @ ck_name m @ '':'' @ ymdh (we_now e), 1)
                       (w\<lparr>wa_park := p\<rparr>)))"

fun run_checks :: "watch_env \<Rightarrow> check_env \<Rightarrow> bool \<Rightarrow> check list \<Rightarrow> checks \<times> watch \<Rightarrow> check_result list \<times> checks \<times> watch" where
  "run_checks e c force [] cw = ([], cw)"
| "run_checks e c force (m # ms) cw =
     (if \<not> ck_callable m then run_checks e c force ms cw
      else if \<not> force \<and> ce_start c - get_default (cs_last (fst cw)) (ck_path m) 0 < of_int (ck_interval m * 60)
      then (case run_checks e c force ms cw of
              (rs, cw') \<Rightarrow> ((case find (\<lambda>r. cr_name r = ck_name m) (cs_results (fst cw)) of None \<Rightarrow> rs | Some r \<Rightarrow> r # rs), cw'))
      else (case run_due e c m cw of (item, cw') \<Rightarrow>
              case run_checks e c force ms cw' of (rs, cw'') \<Rightarrow> (item # rs, cw'')))"

definition run_all :: "watch_env \<Rightarrow> check_env \<Rightarrow> bool \<Rightarrow> checks \<times> watch \<Rightarrow> check_result list \<times> checks \<times> watch" where
  "run_all e c force cw = run_checks e c force (cs_mods (fst cw)) cw"

section \<open>A round\<close>

text \<open>\<open>stop i\<close>: the watchdog was told to stop before its target number \<open>i\<close>. A poll that raises is logged.\<close>

fun poll_all :: "(nat \<Rightarrow> watch_env) \<Rightarrow> (nat \<Rightarrow> bool) \<Rightarrow> (string, pyval) dict \<Rightarrow> nat \<Rightarrow> string list \<Rightarrow> watch \<Rightarrow> watch" where
  "poll_all env stop cfg i [] w = w"
| "poll_all env stop cfg i (h # hs) w =
     (if stop i then w else poll_all env stop cfg (Suc i) hs (snd (poll_host (env i) cfg h w)))"

text \<open>\<open>since\<close> is the stamp 180 days ago.\<close>

definition forget_disks :: "stamp \<Rightarrow> watch \<Rightarrow> watch" where
  "forget_disks since w = w\<lparr>wa_disks := filter (\<lambda>r. \<not> iso (dk_stamp r) < sql_text since) (wa_disks w)\<rparr>"

definition poll_cycle ::
  "(nat \<Rightarrow> watch_env) \<Rightarrow> (nat \<Rightarrow> bool) \<Rightarrow> check_env \<Rightarrow> stamp \<Rightarrow> stamp \<Rightarrow> (event \<Rightarrow> real) \<Rightarrow> (stamp \<Rightarrow> real option)
     \<Rightarrow> (string, pyval) dict \<Rightarrow> (string option \<times> string option) list \<Rightarrow> checks \<times> watch \<Rightarrow> (exn + nat) \<times> checks \<times> watch" where
  "poll_cycle env stop c since180 since90 age hours cfg lan cw =
     (case resolve_hosts (env 0) cfg lan (wa_park (snd cw)) of
        Inl x \<Rightarrow> (Inl x, cw)
      | Inr hosts \<Rightarrow>
          let w1 = forget_disks since180 (poll_all env stop cfg 0 (take 60 hosts) (snd cw));
              e = env (length hosts);
              (cs, w2) = snd (run_all e c False (fst cw, w1))
          in (Inr (length hosts), cs, w2\<lparr>wa_park := recompute_health (we_now e) since90 age hours (wa_park w2)\<rparr>))"

section \<open>When a disk will be full\<close>

record forecast =
  fc_host :: string
  fc_drive :: string
  fc_free :: real
  fc_rate :: real
  fc_days :: int

definition round_to :: "nat \<Rightarrow> real \<Rightarrow> real" where
  "round_to n x = of_int (py_round (x * 10 ^ n)) / 10 ^ n"

text \<open>\<open>int(x)\<close>\<close>

definition trunc :: "real \<Rightarrow> int" where
  "trunc x = (if x < 0 then - \<lfloor>- x\<rfloor> else \<lfloor>x\<rfloor>)"

text \<open>
  The rows of one disk in the order of their stamps: the slope between the first one ever kept and the newest
  one. \<open>days t u\<close> are the days from \<open>t\<close> to \<open>u\<close>, \<open>None\<close> when a stamp does not parse.
\<close>

definition forecast_disk :: "(stamp \<Rightarrow> stamp \<Rightarrow> real option) \<Rightarrow> stamp \<Rightarrow> int \<Rightarrow> string \<Rightarrow> disk_row list \<Rightarrow> forecast option" where
  "forecast_disk days since horizon nm rows =
     (let recent = filter (\<lambda>r. in_window since (dk_stamp r)) rows;
          ordered = sort_key (iso \<circ> dk_stamp) rows
      in if length ordered < 2 then None
         else let first = hd ordered; newest = last rows; lst = last (sort_key (iso \<circ> dk_stamp) recent)
              in case days (dk_stamp first) (dk_stamp lst) of
                   None \<Rightarrow> None
                 | Some d0 \<Rightarrow>
                     let d = max (1 / 2) d0; slope = (dk_free newest - dk_free first) / d; left = trunc (dk_free newest / - slope)
                     in if d < 3 / 4 \<or> slope \<ge> - (2 / 100) \<or> left > horizon then None
                        else Some \<lparr>fc_host = nm, fc_drive = dk_drive newest, fc_free = round_to 1 (dk_free newest),
                                   fc_rate = round_to 2 slope, fc_days = left\<rparr>)"

text \<open>The groups of the query: the disks with a row in the window, of machines that exist.\<close>

definition disk_groups :: "stamp \<Rightarrow> watch \<Rightarrow> (int \<times> string \<times> string) list" where
  "disk_groups since w =
     concat (map (\<lambda>m. map (\<lambda>dr. (ma_id m, ma_name m, dr))
        (sort (remdups (map dk_drive (filter (\<lambda>r. dk_host r = ma_id m \<and> in_window since (dk_stamp r)) (wa_disks w))))))
       (sort_key ma_id (pk_machines (wa_park w))))"

text \<open>\<open>back n\<close> is the stamp \<open>n\<close> days ago.\<close>

definition disk_forecast :: "(stamp \<Rightarrow> stamp \<Rightarrow> real option) \<Rightarrow> (int \<Rightarrow> stamp) \<Rightarrow> int \<Rightarrow> int \<Rightarrow> watch \<Rightarrow> forecast list" where
  "disk_forecast days back window horizon w =
     sort_key fc_days (List.map_filter (\<lambda>(hid, nm, dr).
         forecast_disk days (back (max 7 window)) horizon nm (filter (\<lambda>r. dk_host r = hid \<and> dk_drive r = dr) (wa_disks w)))
       (disk_groups (back (max 7 window)) w))"

section \<open>Availability\<close>

record availability =
  av_sla :: "real option"
  av_observed :: "real option"
  av_coverage :: real
  av_up :: int
  av_down :: int
  av_unknown :: int

definition up_kinds :: "string list" where "up_kinds = [''ONLINE'', ''WATCH_ONLINE'']"
definition down_kinds :: "string list" where "down_kinds = [''OFFLINE'', ''WATCH_OFFLINE'']"

text \<open>Seconds up and down from \<open>cursor\<close> on, in \<open>state\<close>, over transitions in the order of time.\<close>

fun spans :: "real \<Rightarrow> real \<Rightarrow> bool option \<Rightarrow> (real \<times> bool option) list \<Rightarrow> real \<times> real" where
  "spans start cursor state [] = (0, 0)"
| "spans start cursor state ((t, new) # ts) =
     (if t < start then spans start cursor new ts
      else case spans start t new ts of (u, d) \<Rightarrow>
             (case state of None \<Rightarrow> (u, d)
              | Some up \<Rightarrow> if up then (u + max 0 (t - cursor), d) else (u, d + max 0 (t - cursor))))"

text \<open>\<open>clock t\<close> is the time of a stamp, \<open>None\<close> when it does not parse.\<close>

definition transitions :: "(stamp \<Rightarrow> real option) \<Rightarrow> real \<Rightarrow> event list \<Rightarrow> (real \<times> bool option) list" where
  "transitions clock stop evs =
     sort_key fst (List.map_filter (\<lambda>v. case clock (ev_stamp v) of None \<Rightarrow> None
       | Some t \<Rightarrow> if ev_kind v \<in> set (up_kinds @ down_kinds) \<and> t \<le> stop
                    then Some (t, Some (ev_kind v \<in> set up_kinds)) else None) evs)"

definition availability_of :: "(stamp \<Rightarrow> real option) \<Rightarrow> event list \<Rightarrow> real \<Rightarrow> real \<Rightarrow> availability" where
  "availability_of clock evs start stop =
     (case spans start start None (transitions clock stop evs @ [(stop, None)]) of (up, down) \<Rightarrow>
        let known = up + down; window = max (stop - start) 1;
            observed = (if known \<noteq> 0 then Some (round_to 3 (100 * up / known)) else None);
            coverage = min 100 (round_to 2 (100 * known / window))
        in \<lparr>av_sla = (if coverage \<ge> 95 then observed else None), av_observed = observed, av_coverage = coverage,
            av_up = py_round up, av_down = py_round down, av_unknown = py_round (max 0 (window - known))\<rparr>)"

text \<open>\<open>sla_period\<close> for one machine: its newest 10000 transitions.\<close>

definition sla_events :: "int \<Rightarrow> park \<Rightarrow> event list" where
  "sla_events hid p =
     take 10000 (rev (sort_key (iso \<circ> ev_stamp)
       (filter (\<lambda>v. ev_host v = Some hid \<and> ev_kind v \<in> set (up_kinds @ down_kinds)) (pk_events p))))"

definition sla_of :: "(stamp \<Rightarrow> real option) \<Rightarrow> real \<Rightarrow> int \<Rightarrow> int \<Rightarrow> park \<Rightarrow> availability" where
  "sla_of clock now days hid p =
     availability_of clock (sla_events hid p) (now - of_int (min (max days 1) 90) * 86400) now"


section \<open>The count of failures\<close>

lemma note_from_frame [simp]:
  "wa_streak (note_from e src hid x w) = wa_streak w" "wa_disks (note_from e src hid x w) = wa_disks w"
  by (cases x; simp add: note_from_def split: prod.split)+

lemma fold_note_frame [simp]:
  "wa_streak (fold (note_from e src hid) xs w) = wa_streak w" "wa_disks (fold (note_from e src hid) xs w) = wa_disks w"
  by (induction xs arbitrary: w) simp_all

lemma apply_rules_frame [simp]:
  "wa_streak (snd (apply_rules e cfg h hid v w)) = wa_streak w" "wa_disks (snd (apply_rules e cfg h hid v w)) = wa_disks w"
  by (simp_all add: apply_rules_def split: sum.split)

lemma record_disks_streak [simp]: "wa_streak (snd (record_disks e hid v w)) = wa_streak w"
  by (simp add: record_disks_def split: sum.split)

lemma answered_streak [simp]: "wa_streak (answered e h hid w) = dict_set h 0 (wa_streak w)"
  by (simp add: answered_def Let_def split: option.split)

lemma poll_answered_streak:
  "wa_streak (snd (poll_answered e cfg h v w)) = (case v of PDict _ \<Rightarrow> dict_set h 0 (wa_streak w) | _ \<Rightarrow> wa_streak w)"
proof (cases v)
  case (PDict d)
  obtain hid p where u: "upsert_host (we_now e) (py_text e (py_or (get_default d ''host'' PNone) (PStr h))) (ping_target e h)
      (take 120 (py_text e (py_or (get_default d ''os'' PNone) (PStr [])))) (wa_park w) = (hid, p)" by force
  show ?thesis
  proof (cases hid)
    case (Some i)
    obtain r w' where a: "apply_rules e cfg h i v (answered e h (Some i) (w\<lparr>wa_park := p\<rparr>)) = (r, w')" by force
    then have "wa_streak w' = dict_set h 0 (wa_streak w)"
      using apply_rules_frame(1) [of e cfg h i v "answered e h (Some i) (w\<lparr>wa_park := p\<rparr>)"] by simp
    then show ?thesis using u a Some PDict by (cases r) (simp_all add: poll_answered_def)
  qed (use u PDict in \<open>simp add: poll_answered_def\<close>)
qed (simp_all add: poll_answered_def)

lemma poll_failed_streak: "wa_streak (snd (poll_failed e cfg h x w)) = wa_streak (count_failure h w)"
  by (simp add: poll_failed_def answers_ping_def answers_nothing_def Let_def split: prod.split option.split sum.split)

definition polls :: "(string, pyval) dict \<Rightarrow> (watch_env \<times> string) list \<Rightarrow> watch \<Rightarrow> watch" where
  "polls cfg ps w = fold (\<lambda>(e, h) w. snd (poll_host e cfg h w)) ps w"

text \<open>The collections of \<open>h\<close> that failed since its last answer; the newest poll comes first.\<close>

fun misses :: "string \<Rightarrow> (watch_env \<times> string) list \<Rightarrow> int" where
  "misses h [] = 0"
| "misses h ((e, k) # ps) =
     (if k \<noteq> h then misses h ps
      else case collect e h of Inl _ \<Rightarrow> misses h ps + 1 | Inr (PDict _) \<Rightarrow> 0 | Inr _ \<Rightarrow> misses h ps)"

lemma poll_host_streak:
  assumes "py_int (get_default cfg ''timeout_sec'' (PInt 25)) = Inr secs"
  shows "get_default (wa_streak (snd (poll_host e cfg k w))) h 0 =
    (if k \<noteq> h then get_default (wa_streak w) h 0
     else case collect e h of Inl _ \<Rightarrow> get_default (wa_streak w) h 0 + 1 | Inr (PDict _) \<Rightarrow> 0 | Inr _ \<Rightarrow> get_default (wa_streak w) h 0)"
  using assms
  by (auto simp: poll_host_def poll_failed_streak poll_answered_streak count_failure_def get_default_def
      split: sum.split pyval.split)

lemma polls_streak:
  assumes "py_int (get_default cfg ''timeout_sec'' (PInt 25)) = Inr secs"
  shows "get_default (wa_streak (polls cfg ps (new_watch p))) h 0 = misses h (rev ps)"
proof (induction ps rule: rev_induct)
  case Nil
  then show ?case by (simp add: polls_def new_watch_def get_default_def)
next
  case (snoc q ps)
  obtain e k where q: "q = (e, k)" by force
  show ?case using snoc poll_host_streak [OF assms, of e k "polls cfg ps (new_watch p)" h]
    by (simp add: polls_def q split: sum.split pyval.split)
qed

lemma note_event_recorded:
  assumes "note_event now back hid kind sev src txt (Some key) hours s = (dup, fx, s')" and "key \<noteq> []"
  shows "\<exists>v \<in> set (pk_events s'). ev_key v = Some key" and "pk_machines s' = pk_machines s"
  using assms by (auto simp: note_event_def Let_def list_ex_iff split: if_splits)

lemma note_from_recorded:
  assumes "key \<noteq> []"
  shows "\<exists>v \<in> set (pk_events (wa_park (note_from e src hid (kind, sev, txt, key, hours) w))). ev_key v = Some key"
    and "pk_machines (wa_park (note_from e src hid x w)) = pk_machines (wa_park w)"
proof -
  obtain dup fx p where n: "note_event (we_now e) (we_back e) hid kind sev src txt (Some key) hours (wa_park w) = (dup, fx, p)"
    by (metis prod_cases3)
  show "\<exists>v \<in> set (pk_events (wa_park (note_from e src hid (kind, sev, txt, key, hours) w))). ev_key v = Some key"
    using note_event_recorded(1) [OF n assms] n by (simp add: note_from_def)
  show "pk_machines (wa_park (note_from e src hid x w)) = pk_machines (wa_park w)"
    by (cases x) (auto simp: note_from_def note_event_def Let_def)
qed

lemma update_machine_in: "m \<in> set (pk_machines s) \<Longrightarrow> f m \<in> set (pk_machines (update_machine (ma_id m) f s))"
  by (simp add: update_machine_def)

lemma upsert_host_named:
  assumes "upsert_host now nm ip os s = (r, s')" and "py_strip nm \<noteq> []"
  shows "\<exists>m \<in> set (pk_machines s'). r = Some (ma_id m) \<and> ma_name m = py_strip nm"
proof (cases "find (\<lambda>m. ma_name m = py_strip nm) (pk_machines s)")
  case None
  then show ?thesis using assms by (auto simp: upsert_host_def Let_def)
next
  case (Some m)
  then have "m \<in> set (pk_machines s)" "ma_name m = py_strip nm" by (auto simp: find_Some_iff)
  moreover have "(r, s') = (Some (ma_id m), update_machine (ma_id m) (\<lambda>m. m\<lparr>ma_last := now, ma_updated := now,
      ma_ip := (if ip = [] then ma_ip m else ip), ma_os := (if os = [] then ma_os m else os)\<rparr>) s)" (is "_ = (_, update_machine _ ?f _)")
    using Some assms by (simp add: upsert_host_def)
  ultimately show ?thesis using update_machine_in [of m s ?f] by (auto intro!: bexI [of _ "?f m"])
qed

lemma mark_online_named:
  assumes "m \<in> set (pk_machines s)"
  shows "\<exists>m' \<in> set (pk_machines (mark_online now (ma_id m) on s)). ma_name m' = ma_name m \<and> ma_online m' = on"
  using update_machine_in [OF assms, of "\<lambda>m. m\<lparr>ma_online := on, ma_updated := now\<rparr>"]
  by (auto simp: mark_online_def intro!: bexI [of _ "m\<lparr>ma_online := on, ma_updated := now\<rparr>"])

text \<open>A machine that answers neither the script nor the ping in a poll is recorded as offline, with an event
  that says that it was unavailable for that many polls, exactly when the scripts of the last polls of it
  failed; whether it answered the ping in those earlier polls makes no difference. A machine that answers
  every ping and has no WinRM is therefore reported offline after one lost ping.\<close>

theorem offline_by_failed_scripts:
  assumes "py_int (get_default cfg ''timeout_sec'' (PInt 25)) = Inr secs" and "offline_after cfg = Inr n"
    and "collect e h = Inl x" and "\<not> we_ping e (ping_target e h)" and "py_strip h \<noteq> []"
    and "w = polls cfg ps (new_watch p)" and "poll_host e cfg h w = (r, w')"
  shows "(misses h (rev ps) + 1 < n \<longrightarrow> wa_park w' = wa_park w)
    \<and> (n \<le> misses h (rev ps) + 1 \<longrightarrow>
        (\<exists>m \<in> set (pk_machines (wa_park w')). ma_name m = py_strip h \<and> \<not> ma_online m)
        \<and> (\<exists>v \<in> set (pk_events (wa_park w')). ev_key v = Some (h @ '':offline:'' @ ymd (we_now e))))"
proof -
  let ?w = "count_failure h w"
  let ?hit = "(''offline'', ''HIGH'', offline_text e (get_default (wa_streak ?w) h 0) x, h @ '':offline:'' @ ymd (we_now e), 6 :: int)"
  have s: "get_default (wa_streak ?w) h 0 = misses h (rev ps) + 1"
    using polls_streak [OF assms(1), of ps p h] by (simp add: assms(6) count_failure_def get_default_def)
  have p: "poll_host e cfg h w = answers_nothing e cfg h x ?w"
    using assms(1,3,4) by (simp add: poll_host_def poll_failed_def)
  obtain i q where u: "upsert_host (we_now e) h (if is_local e h then [] else h) [] (wa_park ?w) = (i, q)" by force
  obtain m where m: "m \<in> set (pk_machines q)" "i = Some (ma_id m)" "ma_name m = py_strip h"
    using upsert_host_named [OF u assms(5)] by blast
  let ?off = "?w\<lparr>wa_park := mark_online (we_now e) (ma_id m) False q\<rparr>"
  show ?thesis
  proof (cases "misses h (rev ps) + 1 < n")
    case True
    then show ?thesis using p s assms(2,7) by (simp add: answers_nothing_def count_failure_def)
  next
    case False
    then have w': "w' = note_in e (Some (ma_id m)) ?hit ?off"
      using p s u m(2) assms(2,7) by (simp add: answers_nothing_def)
    have "\<exists>v \<in> set (pk_events (wa_park w')). ev_key v = Some (h @ '':offline:'' @ ymd (we_now e))"
      unfolding w' by (rule note_from_recorded(1)) simp
    moreover obtain m' where "m' \<in> set (pk_machines (wa_park ?off))" "ma_name m' = py_strip h" "\<not> ma_online m'"
      using mark_online_named [OF m(1), of "we_now e" False] m(3) by auto
    moreover have "pk_machines (wa_park w') = pk_machines (wa_park ?off)"
      unfolding w' by (rule note_from_recorded(2) [of "''x''"]) simp
    ultimately show ?thesis using False by auto
  qed
qed

definition ex_watch_env :: "bool \<Rightarrow> watch_env" where
  "ex_watch_env ping =
     \<lparr>we_now = ex_now, we_back = (\<lambda>_. ex_hour_ago), we_me = ''HUB'', we_my_ip = Inr ''10.0.0.2'', we_body = ''Get-Date'',
      we_run = (\<lambda>_. Inl TimeoutError), we_json = (\<lambda>_. Inl ValueError), we_ping = (\<lambda>_. ping),
      we_float = (\<lambda>_. Inl ValueError), we_str = (\<lambda>_. ''?''), we_exn = (\<lambda>_. ''timed out'')\<rparr>"

theorem offline_by_failed_scripts_witness:
  "\<exists>v \<in> set (pk_events (wa_park (snd (poll_host (ex_watch_env False) watch_defaults ''nas''
      (polls watch_defaults [(ex_watch_env True, ''nas''), (ex_watch_env True, ''nas'')] (new_watch new_park)))))).
     ev_key v = Some (''nas'' @ '':offline:'' @ ymd ex_now)"
proof -
  let ?ps = "[(ex_watch_env True, ''nas''), (ex_watch_env True, ''nas'')]"
  let ?w = "polls watch_defaults ?ps (new_watch new_park)"
  have t: "py_int (get_default watch_defaults ''timeout_sec'' (PInt 25)) = Inr 25" "offline_after watch_defaults = Inr 3"
    "collect (ex_watch_env b) ''nas'' = Inl TimeoutError" "\<not> we_ping (ex_watch_env False) y" "py_strip ''nas'' \<noteq> []" for b y
    by (cases b) (simp_all add: watch_defaults_def get_default_def offline_after_def collect_def ex_watch_env_def py_strip_def
        py_isspace_def)
  have "misses ''nas'' (rev ?ps) = 2" using t(3) by simp
  moreover obtain r w' where run: "poll_host (ex_watch_env False) watch_defaults ''nas'' ?w = (r, w')" by force
  ultimately have "\<exists>v \<in> set (pk_events (wa_park w')). ev_key v = Some (''nas'' @ '':offline:'' @ ymd (we_now (ex_watch_env False)))"
    using offline_by_failed_scripts [OF t(1,2) t(3,4,5) refl run] by simp
  moreover have "we_now (ex_watch_env False) = ex_now" by (simp add: ex_watch_env_def)
  ultimately show ?thesis using run by simp
qed

section \<open>An answer with one disk\<close>

text \<open>A loop over a dictionary sees its keys, which are texts.\<close>

lemma rule_hits_one_disk:
  assumes "get_default d ''disks'' PNone = PDict (kv # kvs)"
  shows "rule_hits e cfg h (PDict d) = Inl AttributeError"
  using assms by (simp add: rule_hits_def items_at_def py_or_def disk_hit_def float_at_def)

lemma answered_events:
  assumes "v \<in> set (pk_events (wa_park (answered e h hid w)))"
  shows "v \<in> set (pk_events (wa_park w)) \<or> ev_kind v = ''online''"
  using assms
  by (auto simp: answered_def Let_def note_from_def note_event_def mark_online_def update_machine_def
      split: option.splits if_splits)

lemma upsert_host_events [simp]: "pk_events (snd (upsert_host now nm ip os s)) = pk_events s"
  by (simp add: upsert_host_def update_machine_def Let_def split: option.split)

text \<open>When the answer of a machine lists its disks as one object instead of a list of objects, which is how
  PowerShell writes a pipeline with one result, the poll raises: no rule applies, neither to the disk nor to the
  memory, the system log or the health of the drives, and no size of the disk is recorded. The machine still
  counts as answered.\<close>

theorem one_disk_answer_unchecked:
  assumes "py_int (get_default cfg ''timeout_sec'' (PInt 25)) = Inr secs" and "collect e h = Inr (PDict d)"
    and "get_default d ''disks'' PNone = PDict (kv # kvs)"
    and "py_strip (py_text e (py_or (get_default d ''host'' PNone) (PStr h))) \<noteq> []"
    and "poll_host e cfg h w = (r, w')"
  shows "r = Some AttributeError \<and> wa_disks w' = wa_disks w \<and> get_default (wa_streak w') h 0 = 0
    \<and> (\<forall>v \<in> set (pk_events (wa_park w')). v \<in> set (pk_events (wa_park w)) \<or> ev_kind v = ''online'')"
proof -
  obtain hid p where u: "upsert_host (we_now e) (py_text e (py_or (get_default d ''host'' PNone) (PStr h))) (ping_target e h)
      (take 120 (py_text e (py_or (get_default d ''os'' PNone) (PStr [])))) (wa_park w) = (hid, p)" by force
  obtain i where i: "hid = Some i" using upsert_host_named [OF u assms(4)] by blast
  have ev: "pk_events p = pk_events (wa_park w)"
    using upsert_host_events [of "we_now e" "py_text e (py_or (get_default d ''host'' PNone) (PStr h))" "ping_target e h"
        "take 120 (py_text e (py_or (get_default d ''os'' PNone) (PStr [])))" "wa_park w"] by (simp add: u)
  let ?w = "answered e h (Some i) (w\<lparr>wa_park := p\<rparr>)"
  have "poll_host e cfg h w = (Some AttributeError, ?w)"
    using assms(1,2) rule_hits_one_disk [OF assms(3)] by (simp add: poll_host_def poll_answered_def u i apply_rules_def)
  then have rw: "r = Some AttributeError" "w' = ?w" using assms(5) by simp_all
  moreover have "wa_disks ?w = wa_disks w" by (simp add: answered_def Let_def)
  ultimately show ?thesis
    using answered_events [of _ e h "Some i" "w\<lparr>wa_park := p\<rparr>"] ev by (simp add: get_default_def)
qed

definition ex_one_disk :: "(string, pyval) dict" where
  "ex_one_disk = [(''host'', PStr ''PC-7''), (''ramFreeMB'', PInt 100),
     (''disks'', PDict [(''drive'', PStr ''C:''), (''free'', PInt 0), (''total'', PInt 100)])]"

definition ex_answer_env :: watch_env where
  "ex_answer_env = (ex_watch_env True)\<lparr>we_run := (\<lambda>_. Inr ''{...}''), we_json := (\<lambda>_. Inr (PDict ex_one_disk)),
     we_float := (\<lambda>v. case v of PInt n \<Rightarrow> Inr (of_int n) | _ \<Rightarrow> Inl TypeError)\<rparr>"

theorem one_disk_answer_unchecked_witness:
  "fst (poll_host ex_answer_env watch_defaults ''pc-7'' (new_watch new_park)) = Some AttributeError
   \<and> wa_disks (snd (poll_host ex_answer_env watch_defaults ''pc-7'' (new_watch new_park))) = []"
proof -
  have t: "py_int (get_default watch_defaults ''timeout_sec'' (PInt 25)) = Inr 25"
    by (simp add: watch_defaults_def get_default_def)
  have c: "collect ex_answer_env ''pc-7'' = Inr (PDict ex_one_disk)"
    by (simp add: collect_def ex_answer_env_def py_strip_def py_isspace_def)
  have d: "get_default ex_one_disk ''disks'' PNone = PDict ((''drive'', PStr ''C:'') # [(''free'', PInt 0), (''total'', PInt 100)])"
    by (simp add: ex_one_disk_def get_default_def)
  have n: "py_strip (py_text ex_answer_env (py_or (get_default ex_one_disk ''host'' PNone) (PStr ''pc-7''))) \<noteq> []"
    by (simp add: ex_one_disk_def get_default_def py_text_def py_strip_def py_isspace_def)
  obtain r w' where run: "poll_host ex_answer_env watch_defaults ''pc-7'' (new_watch new_park) = (r, w')" by force
  show ?thesis using one_disk_answer_unchecked [OF t c d n run] run by (simp add: new_watch_def)
qed

section \<open>Kinds of events\<close>

text \<open>What the watchdog and the checks write into the column that the availability report reads.\<close>

definition watch_kinds :: "string list" where
  "watch_kinds = [''disk'', ''ram'', ''eventlog'', ''smart'', ''nowinrm'', ''offline'', ''online'', ''custom'']"

lemma watch_kinds_report: "k \<in> set watch_kinds \<Longrightarrow> k \<notin> set (up_kinds @ down_kinds) \<and> take 32 k = k"
proof -
  have "list_all (\<lambda>k. k \<notin> set (up_kinds @ down_kinds) \<and> take 32 k = k) watch_kinds" by code_simp
  then show "k \<in> set watch_kinds \<Longrightarrow> k \<notin> set (up_kinds @ down_kinds) \<and> take 32 k = k" by (simp add: list_all_iff)
qed

definition silent :: "park \<Rightarrow> bool" where
  "silent p \<longleftrightarrow> (\<forall>v \<in> set (pk_events p). ev_kind v \<notin> set (up_kinds @ down_kinds))"

lemma silent_note:
  assumes "silent (wa_park w)" and "kind \<in> set watch_kinds"
  shows "silent (wa_park (note_from e src hid (kind, sev, txt, key, hours) w))"
  using assms watch_kinds_report [OF assms(2)] by (auto simp: silent_def note_from_def note_event_def Let_def)

lemma silent_notes:
  "silent (wa_park w) \<Longrightarrow> \<forall>x \<in> set xs. fst x \<in> set watch_kinds \<Longrightarrow> silent (wa_park (fold (note_from e src hid) xs w))"
  by (induction xs arbitrary: w) (auto simp: silent_note)

lemma silent_same: "pk_events p = pk_events q \<Longrightarrow> silent p = silent q"
  by (simp add: silent_def)

lemma mark_online_events [simp]: "pk_events (mark_online now hid on s) = pk_events s"
  by (simp add: mark_online_def update_machine_def)

lemma silent_upsert: "upsert_host now nm ip os s = (r, p) \<Longrightarrow> silent p = silent s"
  using upsert_host_events [of now nm ip os s] by (simp add: silent_def)

lemma silent_mark [simp]: "silent (mark_online now hid on p) = silent p"
  by (simp add: silent_def)

lemma map_sum_Inr: "map_sum id f s = Inr y \<longleftrightarrow> (\<exists>x. s = Inr x \<and> y = f x)"
  by (cases s) auto

lemma disk_hits_kinds: "disk_hits e cfg h ds = Inr xs \<Longrightarrow> \<forall>x \<in> set xs. fst x = ''disk''"
proof (induction ds arbitrary: xs)
  case (Cons d ds)
  have one: "\<forall>x \<in> set ys. fst x = ''disk''" if "disk_hit e cfg h d = Inr ys" for ys
    using that by (auto simp: disk_hit_def elim!: bind_sum_InrE split: if_splits)
  obtain a b where "disk_hit e cfg h d = Inr a" "disk_hits e cfg h ds = Inr b" "xs = a @ b"
    using Cons.prems by (auto elim!: bind_sum_InrE simp: map_sum_Inr)
  with one Cons.IH show ?case by auto
qed simp

lemma event_hits_kinds: "event_hits e h watched seen vs = Inr xs \<Longrightarrow> \<forall>x \<in> set xs. fst x = ''eventlog''"
  by (induction vs arbitrary: seen xs)
    (fastforce elim!: bind_sum_InrE simp: map_sum_Inr split: sum.splits if_splits pyval.splits)+

lemma smart_hits_kinds: "smart_hits e h vs = Inr xs \<Longrightarrow> \<forall>x \<in> set xs. fst x = ''smart''"
  by (induction vs arbitrary: xs) (fastforce elim!: bind_sum_InrE simp: map_sum_Inr Let_def)+

lemma rule_hits_kinds:
  assumes "rule_hits e cfg h v = Inr xs"
  shows "\<forall>x \<in> set xs. fst x \<in> set watch_kinds"
proof -
  obtain ds a ram b watched errs c ss d where
    "disk_hits e cfg h ds = Inr a" "ram_hits e cfg h ram = Inr b" "event_hits e h watched [] errs = Inr c" "smart_hits e h ss = Inr d"
    "xs = a @ b @ c @ d"
    using assms by (auto simp: rule_hits_def elim!: bind_sum_InrE)
  moreover have "\<forall>x \<in> set b. fst x = ''ram''" if "ram_hits e cfg h ram = Inr b"
    using that by (auto simp: ram_hits_def elim!: bind_sum_InrE split: if_splits)
  ultimately show ?thesis
    using disk_hits_kinds event_hits_kinds smart_hits_kinds by (fastforce simp: watch_kinds_def)
qed

lemma silent_answered: "silent (wa_park w) \<Longrightarrow> silent (wa_park (answered e h hid w))"
proof -
  assume s: "silent (wa_park w)"
  let ?w = "case hid of None \<Rightarrow> w | Some i \<Rightarrow> w\<lparr>wa_park := mark_online (we_now e) i True (wa_park w)\<rparr>"
  have "silent (wa_park ?w)" using s by (simp split: option.split)
  then have "silent (wa_park (note_in e hid (''online'', ''LOW'', back_online_text, h @ '':online:'' @ ymd (we_now e), 6) ?w))"
    by (rule silent_note) (simp add: watch_kinds_def)
  with \<open>silent (wa_park ?w)\<close> show ?thesis by (simp add: answered_def Let_def)
qed

lemma silent_failed:
  assumes "silent (wa_park w)"
  shows "silent (wa_park (snd (poll_failed e cfg h x w)))"
proof -
  have c: "silent (wa_park (count_failure h w))" using assms by (simp add: count_failure_def)
  have n: "silent (wa_park (note_in e hid (kind, sev, t, key, hours) (w1\<lparr>wa_park := mark_online (we_now e) i on p\<rparr>)))"
    if "silent p" "kind \<in> {''nowinrm'', ''offline''}" for hid kind sev t key hours w1 i on p
    by (rule silent_note) (use that in \<open>auto simp: watch_kinds_def\<close>)
  show ?thesis
    using c by (auto simp: poll_failed_def answers_ping_def answers_nothing_def Let_def n dest: silent_upsert
        split: prod.splits option.splits sum.splits)
qed

lemma silent_answer:
  assumes "silent (wa_park w)"
  shows "silent (wa_park (snd (poll_answered e cfg h v w)))"
proof -
  have rules: "silent (wa_park (snd (apply_rules e cfg h i v w1)))" if "silent (wa_park w1)" for i w1
    using that rule_hits_kinds by (auto simp: apply_rules_def silent_notes split: sum.split)
  have disks: "wa_park (snd (record_disks e i v w1)) = wa_park w1" for i w1
    by (simp add: record_disks_def split: sum.split)
  have two: "silent (wa_park (snd (case apply_rules e cfg h i v w1 of (Inl x, w') \<Rightarrow> (Some x, w') | (Inr _, w') \<Rightarrow> record_disks e i v w')))"
    if "silent (wa_park w1)" for i w1
    using rules [OF that, of i] disks by (auto split: prod.split sum.split)
  show ?thesis
    using assms silent_upsert
    by (auto simp: poll_answered_def two silent_answered simp del: bind_sum_simps split: prod.split option.split sum.split)
qed

lemma silent_poll: "silent (wa_park w) \<Longrightarrow> silent (wa_park (snd (poll_host e cfg h w)))"
  by (simp add: poll_host_def silent_failed silent_answer split: sum.split)

lemma silent_poll_all: "silent (wa_park w) \<Longrightarrow> silent (wa_park (poll_all env stop cfg i hs w))"
  by (induction hs arbitrary: i w) (simp_all add: silent_poll)

lemma resolve_host_events [simp]: "pk_events (snd (resolve_host_id now nm s)) = pk_events s"
  by (simp add: resolve_host_id_def Let_def split: option.split)

lemma silent_due:
  assumes "silent (wa_park (snd cw))"
  shows "silent (wa_park (snd (snd (run_due e c m cw))))"
proof -
  obtain cs w where cw: "cw = (cs, w)" by force
  obtain hid p where r: "resolve_host_id (we_now e) (if ce_gateway c = [] then [] else we_me e) (wa_park w) = (hid, p)" by force
  have "silent p"
    using resolve_host_events [of "we_now e" "if ce_gateway c = [] then [] else we_me e" "wa_park w"] assms silent_same [of p "wa_park w"]
    by (simp add: r cw)
  then have "silent (wa_park (note_from e ''custom_check'' hid (''custom'', sev, t, key, hours) (w\<lparr>wa_park := p\<rparr>)))" for sev t key hours
    by (intro silent_note) (simp_all add: watch_kinds_def)
  moreover obtain ok t where "check_answer e (ce_run c (ck_path m)) = (ok, t)" by force
  ultimately show ?thesis using \<open>silent p\<close> assms
    by (cases ok; cases hid) (simp_all add: run_due_def cw r Let_def split del: if_split)
qed

lemma silent_checks: "silent (wa_park (snd cw)) \<Longrightarrow> silent (wa_park (snd (snd (run_checks e c force ms cw))))"
proof (induction ms arbitrary: cw)
  case (Cons m ms)
  have "silent (wa_park (snd (snd (run_checks e c force ms cw))))" by (rule Cons.IH [OF Cons.prems])
  moreover have "silent (wa_park (snd (snd (run_checks e c force ms (snd (run_due e c m cw))))))"
    by (rule Cons.IH [OF silent_due [OF Cons.prems]])
  ultimately show ?case by (cases force) (simp_all add: case_prod_unfold)
qed simp

lemma recompute_events [simp]: "pk_events (recompute_health now since age hours s) = pk_events s"
proof -
  have "pk_events (recompute_one now since age hours i s) = pk_events s" for i s
    by (simp add: recompute_one_def update_machine_def Let_def)
  then have "pk_events (fold (recompute_one now since age hours) is s) = pk_events s" for "is" s
    by (induction "is" arbitrary: s) simp_all
  then show ?thesis by (simp add: recompute_health_def)
qed

lemma silent_cycle:
  assumes "silent (wa_park (snd cw))"
  shows "silent (wa_park (snd (snd (poll_cycle env stop c s180 s90 age hours cfg lan cw))))"
proof (cases "resolve_hosts (env 0) cfg lan (wa_park (snd cw))")
  case (Inr hosts)
  let ?w1 = "forget_disks s180 (poll_all env stop cfg 0 (take 60 hosts) (snd cw))"
  let ?r = "snd (run_all (env (length hosts)) c False (fst cw, ?w1))"
  have "silent (wa_park ?w1)" using silent_poll_all [OF assms] by (simp add: forget_disks_def)
  then have "silent (wa_park (snd ?r))" using silent_checks [of "(fst cw, ?w1)"] by (simp add: run_all_def)
  moreover have "silent (recompute_health now s90 age hours (wa_park (snd ?r))) = silent (wa_park (snd ?r))" for now
    by (rule silent_same) simp
  ultimately show ?thesis by (simp add: poll_cycle_def Inr Let_def case_prod_unfold)
qed (simp add: poll_cycle_def assms)

section \<open>What the availability report sees\<close>

text \<open>Rounds of the watchdog over an inventory that starts empty.\<close>

inductive watching :: "checks \<times> watch \<Rightarrow> bool" where
  start: "watching (cs, new_watch new_park)"
| round: "watching cw \<Longrightarrow> watching (snd (poll_cycle env stop c s180 s90 age hours cfg lan cw))"

lemma watching_silent: "watching cw \<Longrightarrow> silent (wa_park (snd cw))"
proof (induction rule: watching.induct)
  case (start cs)
  then show ?case by (simp add: silent_def new_watch_def new_park_def)
next
  case (round cw env stop c s180 s90 age hours cfg lan)
  then show ?case using silent_cycle by blast
qed

text \<open>However many rounds the watchdog makes and whatever it finds, the availability report has no data for any
  machine and any period: the watchdog writes the kinds \<open>offline\<close> and \<open>online\<close>, and the report reads \<open>OFFLINE\<close>, \<open>ONLINE\<close>,
  \<open>WATCH_OFFLINE\<close> and \<open>WATCH_ONLINE\<close>.\<close>

theorem report_sees_no_outage:
  assumes "watching cw"
  shows "sla_events hid (wa_park (snd cw)) = []
    \<and> av_sla (sla_of clock now days hid (wa_park (snd cw))) = None
    \<and> av_observed (sla_of clock now days hid (wa_park (snd cw))) = None
    \<and> av_down (sla_of clock now days hid (wa_park (snd cw))) = 0"
proof -
  have "filter (\<lambda>v. ev_host v = Some hid \<and> ev_kind v \<in> set (up_kinds @ down_kinds)) (pk_events (wa_park (snd cw))) = []"
    using watching_silent [OF assms] by (auto simp: filter_empty_conv silent_def)
  then have none: "sla_events hid (wa_park (snd cw)) = []" by (simp add: sla_events_def)
  have "spans s s None (transitions clock now [] @ [(now, None)]) = (0, 0)" for s
    by (simp add: transitions_def map_filter_def)
  then show ?thesis by (simp add: none sla_of_def availability_of_def Let_def py_round_def)
qed

lemma spans_bounds:
  assumes "spans start cursor state ts = (u, d)" and "sorted (map fst ts)" and "start \<le> cursor"
    and "\<forall>x \<in> set ts. fst x \<le> stop" and "cursor \<le> stop" and "\<forall>x \<in> set ts. fst x < start \<or> cursor \<le> fst x"
  shows "0 \<le> u \<and> 0 \<le> d \<and> u + d \<le> stop - cursor"
  using assms
proof (induction ts arbitrary: cursor state u d)
  case (Cons x ts)
  obtain t new where x: "x = (t, new)" by force
  show ?case
  proof (cases "t < start")
    case True
    with Cons show ?thesis by (simp add: x)
  next
    case False
    obtain u1 d1 where r: "spans start t new ts = (u1, d1)" by force
    have "\<forall>y \<in> set ts. fst y < start \<or> t \<le> fst y" using Cons.prems(2) by (auto simp: x)
    then have "0 \<le> u1 \<and> 0 \<le> d1 \<and> u1 + d1 \<le> stop - t"
      using Cons.IH [OF r] Cons.prems False by (simp add: x)
    moreover have "cursor \<le> t" using Cons.prems(6) False by (simp add: x)
    ultimately show ?thesis using Cons.prems(1) False r by (auto simp: x split: option.splits if_splits)
  qed
qed simp

lemma py_round_mono_nonneg: "0 \<le> x \<Longrightarrow> 0 \<le> py_round x"
  by (auto simp: py_round_def Let_def)

lemma py_round_le: "x \<le> of_int n \<Longrightarrow> py_round x \<le> n"
proof -
  assume "x \<le> of_int n"
  then have f: "\<lfloor>x\<rfloor> \<le> n" by linarith
  show "py_round x \<le> n"
  proof (cases "\<lfloor>x\<rfloor> = n")
    case True
    then have "x - of_int \<lfloor>x\<rfloor> = 0" using \<open>x \<le> of_int n\<close> by linarith
    then show ?thesis using True by (simp add: py_round_def Let_def)
  qed (use f in \<open>auto simp: py_round_def Let_def\<close>)
qed

text \<open>For any events and any window the availability report accounts for time that passed: seconds up and
  down are not negative and at most the window together, the share of time up and the coverage are percentages,
  and a figure for the service level is given only for a coverage of at least 95 percent.\<close>

theorem availability_accounts:
  assumes "start \<le> stop" and "r = availability_of clock evs start stop"
  shows "0 \<le> av_up r \<and> 0 \<le> av_down r \<and> 0 \<le> av_unknown r
    \<and> (\<exists>u d. av_up r = py_round u \<and> av_down r = py_round d \<and> 0 \<le> u \<and> 0 \<le> d \<and> u + d \<le> stop - start)
    \<and> (\<forall>x. av_observed r = Some x \<longrightarrow> 0 \<le> x \<and> x \<le> 100) \<and> 0 \<le> av_coverage r \<and> av_coverage r \<le> 100
    \<and> (av_sla r \<noteq> None \<longrightarrow> av_sla r = av_observed r \<and> 95 \<le> av_coverage r)"
proof -
  let ?ts = "transitions clock stop evs"
  obtain u d where s: "spans start start None (?ts @ [(stop, None)]) = (u, d)" by force
  have le: "\<forall>x \<in> set ?ts. fst x \<le> stop"
    by (auto simp: transitions_def map_filter_def split: option.splits if_splits)
  have "sorted (map fst ?ts)" by (simp add: transitions_def)
  with le have "sorted (map fst (?ts @ [(stop, None)]))" by (simp add: sorted_append)
  moreover have "\<forall>x \<in> set (?ts @ [(stop, None)]). fst x < start \<or> start \<le> fst x" by (intro ballI) linarith
  ultimately have ud: "0 \<le> u" "0 \<le> d" "u + d \<le> stop - start"
    using spans_bounds [OF s, of stop] le assms(1) by simp_all
  have r3: "0 \<le> round_to 3 (100 * u / (u + d)) \<and> round_to 3 (100 * u / (u + d)) \<le> 100" if "u + d \<noteq> 0"
  proof -
    have p: "0 \<le> 100 * u / (u + d)" "100 * u / (u + d) \<le> 100" using ud that by (simp_all add: divide_le_eq)
    then have "100 * u / (u + d) * 10 ^ 3 \<le> of_int 100000" by simp
    then have "py_round (100 * u / (u + d) * 10 ^ 3) \<le> 100000" by (rule py_round_le)
    moreover have "0 \<le> py_round (100 * u / (u + d) * 10 ^ 3)" by (rule py_round_mono_nonneg) (use p in simp)
    ultimately show ?thesis by (simp add: round_to_def)
  qed
  have "0 \<le> round_to 2 (100 * (u + d) / max (stop - start) 1)"
    using py_round_mono_nonneg [of "100 * (u + d) / max (stop - start) 1 * 10 ^ 2"] ud by (simp add: round_to_def)
  then show ?thesis
    using r3 ud py_round_mono_nonneg unfolding assms(2) availability_of_def s prod.case Let_def by auto
qed

definition ex_outage :: "event list" where
  "ex_outage = [\<lparr>ev_stamp = ex_early, ev_host = Some 1, ev_kind = ''ONLINE'', ev_severity = ''LOW'', ev_source = [], ev_text = [], ev_key = None\<rparr>,
     \<lparr>ev_stamp = ex_hour_ago, ev_host = Some 1, ev_kind = ''OFFLINE'', ev_severity = ''HIGH'', ev_source = [], ev_text = [], ev_key = None\<rparr>]"

theorem availability_accounts_witness:
  "av_coverage (availability_of (\<lambda>t. Some (if t = ex_early then 0 else 80)) ex_outage 0 100) \<le> 100
   \<and> spans 0 0 None (transitions (\<lambda>t. Some (if t = ex_early then 0 else 80)) 100 ex_outage @ [(100, None)]) = (80, 20)"
proof
  show "av_coverage (availability_of (\<lambda>t. Some (if t = ex_early then 0 else 80)) ex_outage 0 100) \<le> 100"
    using availability_accounts [OF _ refl, of 0 100] by simp
  show "spans 0 0 None (transitions (\<lambda>t. Some (if t = ex_early then 0 else 80)) 100 ex_outage @ [(100, None)]) = (80, 20)"
    by (simp add: transitions_def ex_outage_def map_filter_simps up_kinds_def down_kinds_def ex_early_def ex_hour_ago_def)
qed

text \<open>Three rounds in which one machine answers nothing: it is recorded offline, and the report has no data.\<close>

definition ex_round :: "checks \<times> watch \<Rightarrow> checks \<times> watch" where
  "ex_round cw = snd (poll_cycle (\<lambda>_. ex_watch_env False) (\<lambda>_. False)
     \<lparr>ce_start = 0, ce_run = (\<lambda>_. Inl ValueError), ce_before = (\<lambda>_. 0), ce_after = (\<lambda>_. 0), ce_gateway = []\<rparr>
     ex_early ex_early (\<lambda>_. 0) (\<lambda>_. None) (watch_config [(''hosts'', PList [PStr ''nas''])]) [] cw)"

definition ex_three_rounds :: "checks \<times> watch" where
  "ex_three_rounds = ex_round (ex_round (ex_round (\<lparr>cs_mods = [], cs_last = [], cs_results = []\<rparr>, new_watch new_park)))"

theorem report_sees_no_outage_witness:
  "map ev_kind (pk_events (wa_park (snd ex_three_rounds))) = [''offline'']
   \<and> av_observed (sla_of (\<lambda>_. Some 0) 100 1 1 (wa_park (snd ex_three_rounds))) = None"
proof
  have "watching ex_three_rounds"
    unfolding ex_three_rounds_def ex_round_def by (intro watching.intros)
  from report_sees_no_outage [OF this]
  show "av_observed (sla_of (\<lambda>_. Some 0) 100 1 1 (wa_park (snd ex_three_rounds))) = None" by blast
  show "map ev_kind (pk_events (wa_park (snd ex_three_rounds))) = [''offline'']"
    by code_simp
qed
end
