(* ===== verification/Masking.thy ===== *)
theory Masking
  imports Settings
begin

text \<open>
  What the web interface shows of the configuration and what it writes back (\<open>redact_audit\<close>, \<open>discard_masked\<close>,
  \<open>settings_get\<close>, \<open>settings_post\<close> and the masking of \<open>meta\<close> in \<open>netpulse/server.py\<close>).
\<close>

type_synonym config = "(string, pyval) dict"

section \<open>Masking\<close>

definition secret_words :: "string list" where
  "secret_words = [''token'', ''password'', ''secret'', ''community'', ''api_key'']"

definition secret_key :: "string \<Rightarrow> bool" where
  "secret_key k \<longleftrightarrow> list_ex (\<lambda>w. contains w (py_lower k)) secret_words"

definition mask :: pyval where "mask = PStr ''***''"

text \<open>\<open>redact_audit\<close> and \<open>discard_masked\<close>\<close>

fun redact :: "pyval \<Rightarrow> pyval" where
  "redact (PDict d) = PDict (map (\<lambda>(k, v). (k, if secret_key k then mask else redact v)) d)"
| "redact (PList vs) = PList (map redact vs)"
| "redact v = v"

fun discard :: "pyval \<Rightarrow> pyval" where
  "discard (PDict d) = PDict (map (\<lambda>(k, v). (k, discard v)) (filter (\<lambda>(k, v). v \<noteq> mask) d))"
| "discard (PList vs) = PList (map discard vs)"
| "discard v = v"

definition redact_dict :: "config \<Rightarrow> config" where
  "redact_dict d = map (\<lambda>(k, v). (k, if secret_key k then mask else redact v)) d"

definition discard_dict :: "config \<Rightarrow> config" where
  "discard_dict d = map (\<lambda>(k, v). (k, discard v)) (filter (\<lambda>(k, v). v \<noteq> mask) d)"

text \<open>Whether the JSON of a value contains the mask.\<close>

fun mentions_mask :: "pyval \<Rightarrow> bool" where
  "mentions_mask (PStr s) = contains ''***'' s"
| "mentions_mask (PDict d) = list_ex (\<lambda>(k, v). contains ''***'' k \<or> mentions_mask v) d"
| "mentions_mask (PList vs) = list_ex mentions_mask vs"
| "mentions_mask v = False"

definition protected_settings :: "string list" where
  "protected_settings = [''web_auth_enabled'', ''mikrotik'', ''metrics'', ''alertmanager'']"

definition settings_get :: "config \<Rightarrow> exn + config" where
  "settings_get cfg =
     (let c = redact_dict cfg in
      bind_sum (val_get (py_or (get_default c ''webhook'' PNone) (PDict [])) ''url'' PNone) (\<lambda>u.
        let c1 = (if truthy u then (case get_default c ''webhook'' PNone of PDict h \<Rightarrow> dict_set ''webhook'' (PDict (dict_set ''url'' mask h)) c | _ \<Rightarrow> c) else c)
        in Inr (dict_set ''web_token_masked'' (if truthy (get_default cfg ''web_token'' PNone) then mask else PStr []) c1)))"

text \<open>\<open>settings_post\<close> up to the merge, with a fresh token for the case that a new one is asked for.\<close>

definition settings_update :: "string \<Rightarrow> config \<Rightarrow> config" where
  "settings_update fresh body =
     (let regen = truthy (get_default body ''_regen_token'' (PBool False));
          b1 = fold dict_pop protected_settings (dict_pop ''_regen_token'' body);
          b2 = (if regen then dict_set ''web_token'' (PStr fresh) b1 else b1);
          b3 = (if mentions_mask (get_default b2 ''web_users'' (PList [])) then dict_pop ''web_users'' b2 else b2)
      in discard_dict b3)"

definition settings_post :: "string \<Rightarrow> config \<Rightarrow> config \<Rightarrow> config" where
  "settings_post fresh body cfg = deep_merge cfg (settings_update fresh body)"

text \<open>The configuration that \<open>meta\<close> shows.\<close>

definition meta_config :: "config \<Rightarrow> config" where
  "meta_config cfg =
     (let c = (if truthy (get_default cfg ''web_token'' PNone) then dict_set ''web_token'' mask cfg else cfg) in
      case get_default c ''telegram'' PNone of
        PDict t \<Rightarrow> if truthy (get_default t ''token'' PNone) then dict_set ''telegram'' (PDict (dict_set ''token'' mask t)) c else c
      | _ \<Rightarrow> c)"

section \<open>Masked values\<close>

fun masked :: "pyval \<Rightarrow> bool" where
  "masked (PDict d) = list_all (\<lambda>(k, v). if secret_key k then v = mask else masked v) d"
| "masked (PList vs) = list_all masked vs"
| "masked v = True"

lemma masked_redact: "masked (redact v)"
  by (induction v rule: redact.induct) (auto simp: list_all_iff)

lemma redact_dict_eq: "redact (PDict d) = PDict (redact_dict d)"
  by (simp add: redact_dict_def)

lemma discard_dict_eq: "discard (PDict d) = PDict (discard_dict d)"
  by (simp add: discard_dict_def)

section \<open>Saving what was shown\<close>

text \<open>\<open>e\<close> holds nothing that \<open>d\<close> does not hold at the same place.\<close>

fun below :: "pyval \<Rightarrow> pyval \<Rightarrow> bool" where
  "below (PDict e) (PDict d) = list_all (\<lambda>(k, v). case dict_get d k of Some w \<Rightarrow> below v w | None \<Rightarrow> False) e"
| "below v w = (v = w)"

lemma dict_set_same: "dict_get d k = Some v \<Longrightarrow> dict_set k v d = d"
  by (induction d) (auto simp: dict_set_simps split: if_splits)

lemma deep_merge_below: "below (PDict e) (PDict b) \<Longrightarrow> deep_merge b e = b"
proof (induction b e rule: deep_merge.induct)
  case (2 base k v kvs)
  obtain w where w: "dict_get base k = Some w" "below v w" and rest: "below (PDict kvs) (PDict base)"
    using "2.prems" by (auto split: option.splits)
  have same: "(case v of PDict e \<Rightarrow> (case dict_get base k of Some (PDict b) \<Rightarrow> PDict (deep_merge b e) | _ \<Rightarrow> v) | _ \<Rightarrow> v) = w"
  proof (cases v)
    case (PDict e)
    then obtain b where b: "w = PDict b" using w(2) by (cases w) auto
    have "deep_merge b e = b" using "2.IH"(1) [OF PDict w(1) b] w PDict b by simp
    then show ?thesis using PDict w(1) b by simp
  qed (use w in auto)
  show ?case using "2.IH"(2) rest by (simp add: same dict_set_same [OF w(1)])
qed simp

lemma below_discard_dict:
  assumes "\<And>k v. (k, v) \<in> set e \<Longrightarrow> v = mask \<or> (\<exists>w. dict_get d k = Some w \<and> below (discard v) w)"
  shows "below (PDict (discard_dict e)) (PDict d)"
  using assms by (fastforce simp: discard_dict_def list_all_iff)

text \<open>Distinct keys everywhere, and no list that masking would change.\<close>

fun plain :: "pyval \<Rightarrow> bool" where
  "plain (PDict d) = (distinct (map fst d) \<and> list_all (\<lambda>(k, v). plain v) d)"
| "plain (PList vs) = (discard (redact (PList vs)) = PList vs)"
| "plain v = True"

lemma redact_dict_entry:
  assumes "(k, v) \<in> set (redact_dict d)" and "distinct (map fst d)"
    and "\<And>k v. (k, v) \<in> set d \<Longrightarrow> \<not> secret_key k \<Longrightarrow> below (discard (redact v)) v"
  shows "v = mask \<or> (\<exists>w. dict_get d k = Some w \<and> below (discard v) w)"
proof -
  obtain w where w: "(k, w) \<in> set d" "v = (if secret_key k then mask else redact w)"
    using assms(1) by (auto simp: redact_dict_def)
  then have "dict_get d k = Some w" using assms(2) dict_in_set_iff [of d k w] by (simp add: dict_ok_def)
  with w assms(3) show ?thesis by auto
qed

lemma below_redact: "plain v \<Longrightarrow> below (discard (redact v)) v"
proof (induction v rule: redact.induct)
  case (1 d)
  have "below (discard (redact v)) v" if "(k, v) \<in> set d" "\<not> secret_key k" for k v
    using "1.IH" [OF that(1)] "1.prems" that by (auto simp: list_all_iff)
  then show ?case
    unfolding redact_dict_eq discard_dict_eq
    by (intro below_discard_dict redact_dict_entry) (use "1.prems" in auto)
qed simp_all

lemma dict_set_subset: "(k, v) \<in> set (dict_set j w d) \<Longrightarrow> (k, v) = (j, w) \<or> (k, v) \<in> set d"
  using set_dict_set [of j w d] by auto

lemma dict_pop_subset: "x \<in> set (dict_pop k d) \<Longrightarrow> x \<in> set d"
  by (auto simp: dict_pop_def AList.delete_eq)

lemma fold_pop_subset: "x \<in> set (fold dict_pop ks d) \<Longrightarrow> x \<in> set d"
  by (induction ks arbitrary: d) (auto dest: dict_pop_subset)

lemma redact_dict_get: "dict_get (redact_dict d) k = map_option (\<lambda>v. if secret_key k then mask else redact v) (dict_get d k)"
  by (induction d) (auto simp: redact_dict_def)

text \<open>What a form shows belongs to the configuration or is masked.\<close>

lemma settings_get_below:
  assumes "settings_get cfg = Inr body" and "plain (PDict cfg)" and "(k, v) \<in> set body" and "k \<noteq> ''web_token_masked''"
  shows "v = mask \<or> (\<exists>w. dict_get cfg k = Some w \<and> below (discard v) w)"
proof -
  have ok: "distinct (map fst cfg)" using assms(2) by simp
  have entry: "v = mask \<or> (\<exists>w. dict_get cfg k = Some w \<and> below (discard v) w)" if "(k, v) \<in> set (redact_dict cfg)" for k v
    by (rule redact_dict_entry [OF that ok]) (use below_redact assms(2) in \<open>auto simp: list_all_iff\<close>)
  let ?c = "redact_dict cfg"
  obtain u c1 m where u: "c1 = (if truthy u then (case get_default ?c ''webhook'' PNone of PDict h \<Rightarrow> dict_set ''webhook'' (PDict (dict_set ''url'' mask h)) ?c | _ \<Rightarrow> ?c) else ?c)"
    and body: "body = dict_set ''web_token_masked'' m c1"
    using assms(1) by (auto simp: settings_get_def Let_def elim!: bind_sum_InrE)
  consider "(k, v) \<in> set ?c" | "v = mask" | h where "k = ''webhook''" "v = PDict (dict_set ''url'' mask h)" "get_default ?c ''webhook'' PNone = PDict h"
    using assms(3,4) unfolding body u
    by (auto dest!: dict_set_subset split: if_splits pyval.splits)
  then show ?thesis
  proof cases
    case (3 h)
    then have "dict_get ?c ''webhook'' = Some (PDict h)" by (auto simp: get_default_def split: option.splits)
    moreover have "\<not> secret_key ''webhook''" by code_simp
    ultimately obtain w where w: "dict_get cfg ''webhook'' = Some w" "redact w = PDict h" by (auto simp: redact_dict_get)
    then obtain g where g: "w = PDict g" "h = redact_dict g" by (cases w) (auto simp: redact_dict_def)
    have "\<forall>(k, v) \<in> set cfg. plain v" using assms(2) by (simp add: list_all_iff)
    then have pg: "plain (PDict g)" using dict_get_in [OF w(1)] g(1) by blast
    have "v = mask \<or> (\<exists>w. dict_get g k = Some w \<and> below (discard v) w)" if "(k, v) \<in> set (redact_dict g)" for k v
      by (rule redact_dict_entry [OF that]) (use pg below_redact in \<open>auto simp: list_all_iff\<close>)
    then have "below (PDict (discard_dict (dict_set ''url'' mask h))) (PDict g)"
      using g(2) by (intro below_discard_dict) (auto dest!: dict_set_subset)
    then show ?thesis using w(1) g(1) 3 by (simp add: discard_dict_eq del: below.simps discard.simps)
  qed (use entry in auto)
qed

text \<open>A merge that puts one entry in and finds every other one there already.\<close>

lemma deep_merge_one:
  assumes "\<forall>(k, w) \<in> set e. if k = j then w = v else (\<exists>u. dict_get b k = Some u \<and> below w u)" and "\<And>d. v \<noteq> PDict d"
  shows "deep_merge b e = (if j \<in> set (dict_keys e) then dict_set j v b else b)"
  using assms(1)
proof (induction e arbitrary: b)
  case (Cons x e)
  obtain k w where x: "x = (k, w)" by force
  have v: "(case v of PDict e \<Rightarrow> f e | _ \<Rightarrow> v) = v" for f using assms(2) by (cases v) auto
  show ?case
  proof (cases "k = j")
    case True
    then have w: "w = v" using Cons.prems x by simp
    have "deep_merge (dict_set j v b) e = (if j \<in> set (dict_keys e) then dict_set j v (dict_set j v b) else dict_set j v b)"
      by (rule Cons.IH) (use Cons.prems in \<open>auto split: if_splits\<close>)
    moreover have "dict_set j v (dict_set j v b) = dict_set j v b" by (rule dict_set_same) simp
    ultimately show ?thesis using x True w v by (simp add: dict_keys_def)
  next
    case False
    have one: "deep_merge b [(k, w)] = b" by (rule deep_merge_below) (use Cons.prems x False in auto)
    have "deep_merge b (x # e) = deep_merge (deep_merge b [(k, w)]) e" by (simp add: x)
    also have "\<dots> = (if j \<in> set (dict_keys e) then dict_set j v b else b)"
      unfolding one by (rule Cons.IH) (use Cons.prems in auto)
    finally show ?thesis using x False by (simp add: dict_keys_def)
  qed
qed (simp add: dict_keys_def)

lemma settings_get_shape:
  assumes "settings_get cfg = Inr body" and "dict_ok cfg"
  shows "dict_ok body" and "dict_get body ''web_token_masked'' = Some (if truthy (get_default cfg ''web_token'' PNone) then mask else PStr [])"
proof -
  have "dict_ok (redact_dict cfg)" using assms(2) by (simp add: dict_ok_def redact_dict_def comp_def case_prod_unfold)
  then show "dict_ok body" "dict_get body ''web_token_masked'' = Some (if truthy (get_default cfg ''web_token'' PNone) then mask else PStr [])"
    using assms(1) by (auto simp: settings_get_def Let_def elim!: bind_sum_InrE split: pyval.split)
qed

text \<open>C17: 
  Saving the settings form as it was shown leaves every setting as it was, at any depth: the secrets that the form hides stay what
  they were, as long as no list holds one. Without a token of the server the entry \<open>web_token_masked\<close>, which the form adds, is stored
  too, with an empty text; with a token nothing at all changes.
\<close>

theorem saving_the_form_changes_nothing:
  assumes "settings_get cfg = Inr body" and "plain (PDict cfg)" and "dict_get cfg ''_regen_token'' = None"
  shows "settings_post fresh body cfg
    = (if truthy (get_default cfg ''web_token'' PNone) then cfg else dict_set ''web_token_masked'' (PStr []) cfg)"
proof -
  have ok: "dict_ok cfg" using assms(2) by (simp add: dict_ok_def)
  note shape = settings_get_shape [OF assms(1) ok]
  have k: "dict_get body ''_regen_token'' = None"
    using assms(1,3)
    by (auto simp: settings_get_def Let_def redact_dict_get elim!: bind_sum_InrE split: if_splits pyval.splits)
  let ?b = "fold dict_pop protected_settings (dict_pop ''_regen_token'' body)"
  define e where "e = (if mentions_mask (get_default ?b ''web_users'' (PList [])) then dict_pop ''web_users'' ?b else ?b)"
  have upd: "settings_update fresh body = discard_dict e"
    using k by (simp add: settings_update_def Let_def e_def get_default_def)
  have sub: "x \<in> set e \<Longrightarrow> x \<in> set body" for x
    by (auto simp: e_def dest!: dict_pop_subset fold_pop_subset split: if_splits)
  have "dict_get e ''web_token_masked'' = dict_get body ''web_token_masked''"
    by (simp add: e_def protected_settings_def)
  then have m: "dict_get e ''web_token_masked'' = Some (if truthy (get_default cfg ''web_token'' PNone) then mask else PStr [])"
    using shape(2) by simp
  have entry: "v = mask \<or> (\<exists>w. dict_get cfg j = Some w \<and> below (discard v) w)" if "(j, v) \<in> set e" "j \<noteq> ''web_token_masked''" for j v
    by (rule settings_get_below [OF assms(1,2) sub [OF that(1)] that(2)])
  have own: "v = (if truthy (get_default cfg ''web_token'' PNone) then mask else PStr [])" if "(''web_token_masked'', v) \<in> set e" for v
    using sub [OF that] shape dict_in_set_iff [of body "''web_token_masked''" v] by simp
  show ?thesis
  proof (cases "truthy (get_default cfg ''web_token'' PNone)")
    case True
    have "below (PDict (discard_dict e)) (PDict cfg)"
      by (rule below_discard_dict) (use entry own True in \<open>metis (full_types)\<close>)
    then show ?thesis using True unfolding settings_post_def upd by (simp add: deep_merge_below del: below.simps)
  next
    case False
    have "PStr [] \<noteq> mask" by (simp add: mask_def)
    moreover have "(''web_token_masked'', PStr []) \<in> set e" using m False by (simp add: dict_get_in)
    ultimately have "''web_token_masked'' \<in> set (dict_keys (discard_dict e))"
      by (force simp: discard_dict_def dict_keys_def)
    moreover have "\<forall>(j, w) \<in> set (discard_dict e). if j = ''web_token_masked'' then w = PStr [] else (\<exists>u. dict_get cfg j = Some u \<and> below w u)"
      using entry own False by (fastforce simp: discard_dict_def)
    ultimately show ?thesis
      using False deep_merge_one [of "discard_dict e" "''web_token_masked''" "PStr []" cfg] unfolding settings_post_def upd by simp
  qed
qed

definition ex_settings :: config where
  "ex_settings = [(''web_token'', PStr ''s3cret''), (''web_port'', PInt 8770), (''webhook'', PDict [(''url'', PStr ''https://x'')]),
     (''p2p'', PDict [(''port'', PInt 9000), (''secret'', PStr ''meshkey'')]), (''web_admins'', PList [])]"

theorem saving_the_form_changes_nothing_witness:
  "\<exists>body. settings_get ex_settings = Inr body \<and> dict_get body ''p2p'' = Some (PDict [(''port'', PInt 9000), (''secret'', mask)])
     \<and> settings_post ''f00d'' body ex_settings = ex_settings
     \<and> (\<exists>b. settings_get (dict_pop ''web_token'' ex_settings) = Inr b
          \<and> settings_post ''f00d'' b (dict_pop ''web_token'' ex_settings) = dict_pop ''web_token'' ex_settings @ [(''web_token_masked'', PStr [])])"
proof -
  let ?rest = "[(''web_port'', PInt 8770), (''webhook'', PDict [(''url'', mask)]),
     (''p2p'', PDict [(''port'', PInt 9000), (''secret'', mask)]), (''web_admins'', PList [])]"
  let ?body = "(''web_token'', mask) # ?rest @ [(''web_token_masked'', mask)]"
  have h: "settings_get ex_settings = Inr ?body" "plain (PDict ex_settings)" "dict_get ex_settings ''_regen_token'' = None"
    "truthy (get_default ex_settings ''web_token'' PNone)"
    by code_simp+
  let ?cfg = "dict_pop ''web_token'' ex_settings"
  have e: "settings_get ?cfg = Inr (?rest @ [(''web_token_masked'', PStr [])])" "plain (PDict ?cfg)" "dict_get ?cfg ''_regen_token'' = None"
    "\<not> truthy (get_default ?cfg ''web_token'' PNone)"
    "dict_set ''web_token_masked'' (PStr []) ?cfg = ?cfg @ [(''web_token_masked'', PStr [])]"
    by code_simp+
  show ?thesis
    using saving_the_form_changes_nothing [OF h(1-3), of "''f00d''"] h(1,4) saving_the_form_changes_nothing [OF e(1-3), of "''f00d''"] e(1,4,5)
    by (intro exI [of _ ?body] exI [of _ "?rest @ [(''web_token_masked'', PStr [])]"] conjI) simp_all
qed

lemma deep_merge_get:
  assumes "distinct (map fst e)" and "dict_get e k = Some v" and "\<And>d. v \<noteq> PDict d"
  shows "dict_get (deep_merge b e) k = Some v"
  using assms
proof (induction e arbitrary: b)
  case (Cons x e)
  obtain j w where x: "x = (j, w)" by force
  show ?case
  proof (cases "j = k")
    case True
    then have w: "w = v" using Cons.prems(2) x by simp
    have "k \<notin> set (dict_keys e)" using Cons.prems(1) x True by (simp add: dict_keys_def)
    moreover have "\<forall>d. v \<noteq> PDict d" using Cons.prems(3) by simp
    ultimately show ?thesis using w x True by (cases v) (simp_all add: deep_merge_other)
  next
    case False
    then show ?thesis using Cons x by simp
  qed
qed simp

lemma redacted_secret_gone: "secret_key k \<Longrightarrow> dict_get (discard_dict (redact_dict d)) k = None"
  by (induction d) (auto simp: discard_dict_def redact_dict_def)

lemma discard_dict_get:
  "distinct (map fst d) \<Longrightarrow> dict_get (discard_dict d) k = (case dict_get d k of Some v \<Rightarrow> if v = mask then None else Some (discard v) | None \<Rightarrow> None)"
  using dict_get_filter [of d "\<lambda>(k, v). v \<noteq> mask" k] dict_get_map_values [of discard "filter (\<lambda>(k, v). v \<noteq> mask) d" k]
  by (auto simp: dict_ok_def discard_dict_def split: option.splits)

lemma distinct_pop: "distinct (map fst d) \<Longrightarrow> distinct (map fst (dict_pop k d))"
  using dict_ok_pop by (simp add: dict_ok_def)

lemma distinct_set: "distinct (map fst d) \<Longrightarrow> distinct (map fst (dict_set k v d))"
  using dict_ok_set by (simp add: dict_ok_def)

end
