(* ===== verification/Access.thy ===== *)
theory Access
  imports Masking "HOL-Library.List_Lexorder"
begin

text \<open>
  Who may do what over HTTP: \<open>netpulse/server.py\<close>. The counters against guessing, the identity of a request, its
  origin, and the guards of GET and POST before a handler runs. A handler is a parameter; that it was
  called, for whom and with which body, is logged in the state (what the code caches for a handler is in a
  \<open>threading.local\<close>, so it belongs to one request). Of an error reply the status is kept. Every connection has a thread: a request
  goes through stages, and between two stages of one request any other requests go on. One call of \<open>_auth_fail\<close> or
  \<open>_auth_blocked\<close> is taken as indivisible, the configuration as fixed.
\<close>

section \<open>Against guessing\<close>

record guard =
  gd_fails :: "(string, nat \<times> real) dict"
  gd_block :: "(string, real) dict"

definition new_guard :: guard where
  "new_guard = \<lparr>gd_fails = [], gd_block = []\<rparr>"

definition auth_max_fails :: nat where "auth_max_fails = 5"
definition auth_block_sec :: real where "auth_block_sec = 600"

definition auth_fail :: "real \<Rightarrow> string \<Rightarrow> guard \<Rightarrow> bool \<times> guard" where
  "auth_fail now ip g =
     (let (cnt, t0) = get_default (gd_fails g) ip (0, now);
          (cnt', t0') = (if now - t0 > auth_block_sec then (0, now) else (cnt, t0))
      in if Suc cnt' \<ge> auth_max_fails
         then (True, g\<lparr>gd_fails := dict_pop ip (gd_fails g), gd_block := dict_set ip (now + auth_block_sec) (gd_block g)\<rparr>)
         else (False, g\<lparr>gd_fails := dict_set ip (Suc cnt', t0') (gd_fails g)\<rparr>))"

text \<open>The seconds to wait, cut to an integer; zero means that the request goes on.\<close>

definition auth_blocked :: "real \<Rightarrow> string \<Rightarrow> guard \<Rightarrow> int \<times> guard" where
  "auth_blocked now ip g =
     (case dict_get (gd_block g) ip of
        None \<Rightarrow> (0, g)
      | Some until \<Rightarrow>
          if until \<noteq> 0 \<and> now < until then (\<lfloor>until - now\<rfloor>, g)
          else if until \<noteq> 0 then (0, g\<lparr>gd_block := dict_pop ip (gd_block g)\<rparr>) else (0, g))"

definition forgive :: "string \<Rightarrow> guard \<Rightarrow> guard" where
  "forgive ip g = g\<lparr>gd_fails := dict_pop ip (gd_fails g), gd_block := dict_pop ip (gd_block g)\<rparr>"

section \<open>Requests\<close>

text \<open>\<open>rq_path\<close> is the path of the URL, \<open>rq_body\<close> what reading the body gives, \<open>rq_left\<close> the actor and the role that an earlier
  request on the connection left behind.\<close>

record request =
  rq_ip :: string
  rq_path :: string
  rq_headers :: "(string \<times> string) list"
  rq_tls :: bool
  rq_body :: "exn + string"
  rq_left :: "(string \<times> string) option"

definition header_values :: "request \<Rightarrow> string \<Rightarrow> string list" where
  "header_values r k = map snd (filter (\<lambda>(n, _). py_lower n = py_lower k) (rq_headers r))"

definition header :: "request \<Rightarrow> string \<Rightarrow> string" where
  "header r k = (case header_values r k of [] \<Rightarrow> [] | v # _ \<Rightarrow> v)"

definition strip_right :: "char \<Rightarrow> string \<Rightarrow> string" where
  "strip_right c s = rev (dropWhile (\<lambda>x. x = c) (rev s))"

text \<open>The value after \<open>name=\<close> at the start of the text or after a semicolon and blanks; it is not empty.\<close>

definition cookie_here :: "string \<Rightarrow> string \<Rightarrow> string option" where
  "cookie_here nm s =
     (if begins (nm @ ''='') s then
        (case takeWhile (\<lambda>c. \<not> py_isspace c \<and> c \<noteq> CHR '';'') (drop (length nm + 1) s) of [] \<Rightarrow> None | v \<Rightarrow> Some v)
      else None)"

fun cookie_later :: "string \<Rightarrow> string \<Rightarrow> string option" where
  "cookie_later nm [] = None"
| "cookie_later nm (c # cs) =
     (if c = CHR '';'' then (case cookie_here nm (dropWhile py_isspace cs) of Some v \<Rightarrow> Some v | None \<Rightarrow> cookie_later nm cs)
      else cookie_later nm cs)"

definition cookie :: "string \<Rightarrow> string \<Rightarrow> string option" where
  "cookie nm s = (case cookie_here nm s of Some v \<Rightarrow> Some v | None \<Rightarrow> cookie_later nm s)"

section \<open>Identity\<close>

text \<open>What the server takes from outside: \<open>str\<close>, the test of an address against a network, environment variables, JSON.\<close>

record web =
  wb_cfg :: config
  wb_str :: "pyval \<Rightarrow> string"
  wb_in_net :: "string \<Rightarrow> string \<Rightarrow> bool"
  wb_env :: "string \<Rightarrow> string"
  wb_json :: "string \<Rightarrow> exn + pyval"
  wb_ready :: bool

definition as_text :: "web \<Rightarrow> pyval \<Rightarrow> string" where
  "as_text b v = (case v of PStr s \<Rightarrow> s | _ \<Rightarrow> wb_str b v)"

text \<open>The dictionaries with a token among the items of a list.\<close>

definition tokens_in :: "pyval list \<Rightarrow> config list" where
  "tokens_in vs = concat (map (\<lambda>a. case a of PDict d \<Rightarrow> if truthy (get_default d ''token'' PNone) then [d] else [] | _ \<Rightarrow> []) vs)"

definition with_token :: "pyval \<Rightarrow> config list" where
  "with_token v = (case v of PList vs \<Rightarrow> tokens_in vs | _ \<Rightarrow> [])"

definition name_of :: "web \<Rightarrow> config \<Rightarrow> string" where
  "name_of b d = as_text b (py_or (get_default d ''name'' PNone) (PStr ''?''))"

definition token_of :: "web \<Rightarrow> config \<Rightarrow> string" where
  "token_of b d = as_text b (get_default d ''token'' PNone)"

definition role_of :: "web \<Rightarrow> config \<Rightarrow> string" where
  "role_of b d =
     (let r = as_text b (get_default d ''role'' (PStr ''viewer'')) in
      if r \<in> {''admin'', ''operator'', ''viewer''} then r else ''viewer'')"

text \<open>Name, token and role of everyone who may log in.\<close>

definition candidates :: "web \<Rightarrow> (string \<times> string \<times> string) list" where
  "candidates b =
     map (\<lambda>d. (name_of b d, token_of b d, ''admin'')) (with_token (get_default (wb_cfg b) ''web_admins'' PNone))
     @ map (\<lambda>d. (name_of b d, token_of b d, role_of b d)) (with_token (get_default (wb_cfg b) ''web_users'' PNone))
     @ (let t = get_default (wb_cfg b) ''web_token'' PNone in if truthy t then [(''admin'', as_text b t, ''admin'')] else [])"

definition supplied :: "request \<Rightarrow> string list" where
  "supplied r =
     header r ''X-Auth'' # concat (map (\<lambda>nm. case cookie nm (header r ''Cookie'') of None \<Rightarrow> [] | Some v \<Rightarrow> [v]) [''np_session'', ''np_token''])"

definition auth_enabled :: "web \<Rightarrow> bool" where
  "auth_enabled b = truthy (get_default (wb_cfg b) ''web_auth_enabled'' PNone)"

definition identity :: "web \<Rightarrow> request \<Rightarrow> (string \<times> string) option" where
  "identity b r =
     (if \<not> auth_enabled b then Some (''admin'', ''admin'')
      else map_option (\<lambda>(nm, _, role). (nm, role))
             (find (\<lambda>(_, tok, _). list_ex (\<lambda>s. s \<noteq> [] \<and> s = tok) (supplied r)) (candidates b)))"

text \<open>\<open>_receiver_authed\<close> and \<open>_metrics_authed\<close>: the token of an environment variable as a bearer.\<close>

definition bearer_ok :: "web \<Rightarrow> string \<Rightarrow> string \<Rightarrow> request \<Rightarrow> exn + bool" where
  "bearer_ok b sec dflt r =
     bind_sum (val_get (py_or (get_default (wb_cfg b) sec PNone) (PDict [])) ''token_env'' (PStr dflt)) (\<lambda>v.
       case v of PStr nm \<Rightarrow>
         Inr (wb_env b nm \<noteq> [] \<and> begins ''Bearer '' (header r ''Authorization'') \<and> drop 7 (header r ''Authorization'') = wb_env b nm)
       | _ \<Rightarrow> Inl TypeError)"

section \<open>Network and origin\<close>

definition allowlist_denied :: "web \<Rightarrow> string \<Rightarrow> exn + bool" where
  "allowlist_denied b ip =
     (let aw = py_or (get_default (wb_cfg b) ''ip_allowlist'' PNone) (PDict []) in
      bind_sum (val_get aw ''enabled'' PNone) (\<lambda>on.
        if \<not> truthy on then Inr False
        else bind_sum (val_get aw ''networks'' PNone) (\<lambda>nets.
               bind_sum (py_iter (py_or nets (PList []))) (\<lambda>ns. Inr (\<not> list_ex (\<lambda>n. wb_in_net b ip (as_text b n)) ns)))))"

definition own_origin :: "request \<Rightarrow> string option" where
  "own_origin r =
     (if header r ''Host'' = [] then None
      else Some (strip_right (CHR ''/'') ((if rq_tls r then ''https://'' else ''http://'') @ header r ''Host'')))"

definition allowed_origins :: "web \<Rightarrow> request \<Rightarrow> exn + string list" where
  "allowed_origins b r =
     bind_sum (py_iter (py_or (get_default (wb_cfg b) ''web_cors_origins'' PNone) (PList []))) (\<lambda>vs.
       Inr ((case own_origin r of None \<Rightarrow> [] | Some s \<Rightarrow> [s])
            @ concat (map (\<lambda>v. case v of PStr s \<Rightarrow> if py_strip s = [] then [] else [strip_right (CHR ''/'') (py_strip s)] | _ \<Rightarrow> []) vs)))"

definition origin_allowed :: "web \<Rightarrow> request \<Rightarrow> exn + bool" where
  "origin_allowed b r =
     (let o' = strip_right (CHR ''/'') (py_strip (header r ''Origin'')) in
      if o' = [] then Inr True else map_sum id (\<lambda>os. o' \<in> set os) (allowed_origins b r))"

section \<open>Routes\<close>

definition routes_get :: "(string, string) dict" where
  "routes_get =
     [(''operations'', ''operations_state''), (''device'', ''device_detail''), (''incident'', ''incident_detail''),
      (''deviceconfig'', ''device_configuration''), (''health'', ''health_get''), (''state'', ''state''),
      (''history'', ''history''), (''dbhistory'', ''db_history''), (''interfaces'', ''interfaces''),
      (''connections'', ''connections''), (''topprocesses'', ''top_processes''), (''apps'', ''apps''),
      (''appnewconn'', ''app_new_connections''), (''appexe'', ''app_exe''), (''idsfeed'', ''ids_feed''),
      (''firewallrules'', ''firewall_rules''), (''ping'', ''ping_probe''), (''trace'', ''trace''),
      (''traceall'', ''trace_targets''), (''dnsbest'', ''dns_best''), (''dnsresolve'', ''dns_resolve''),
      (''speedtest'', ''speedtest''), (''uploadtest'', ''speedtest_upload''), (''speedlog'', ''speedtest_log''),
      (''mtrstats'', ''mtr_stats''), (''landevices'', ''lan_devices''), (''capturestate'', ''capture_state''),
      (''securityresult'', ''security_result''), (''alerts'', ''alerts''), (''ai'', ''ai_stats''),
      (''settings'', ''settings_get''), (''backuplist'', ''backup_list''), (''audit'', ''audit''),
      (''journal'', ''journal_list''), (''journalreport'', ''journal_report''), (''hosts'', ''hosts_list''),
      (''hostdetail'', ''host_detail_ep''), (''events'', ''events_feed''), (''runbooks'', ''runbooks_list''),
      (''backupstatus'', ''backup_status_list''), (''planner'', ''planner_list''),
      (''softsearch'', ''software_search''), (''gposcript'', ''gpo_script''),
      (''diskforecast'', ''disk_forecast_ep''), (''selftest'', ''selftest''), (''meta'', ''meta''),
      (''whoami'', ''whoami''), (''infra'', ''infra_list''), (''infradtype'', ''infra_dtype''),
      (''infradiff'', ''infra_diff''), (''healing'', ''healing_status''), (''map'', ''map''),
      (''swagger'', ''swagger''), (''customchecks'', ''customchecks''), (''sla'', ''sla_ep''),
      (''geomap'', ''geo_ep''), (''ramforecast'', ''ram_forecast_ep''), (''l2map'', ''l2_map_ep''),
      (''ptrs'', ''ptrs_ep''), (''mtrhistory'', ''mtr_history_ep''), (''mikrotik'', ''mikrotik_status''),
      (''cvestatus'', ''cve_status''), (''proxmox'', ''proxmox_status''), (''reportpdf'', ''report_pdf''),
      (''p2pstatus'', ''p2p_status''), (''p2pnodes'', ''p2p_nodes''), (''p2pservices'', ''p2p_services''),
      (''p2pmetrics'', ''p2p_metrics'')]"

definition routes_post :: "(string, string) dict" where
  "routes_post =
     [(''devicemeta'', ''device_metadata''), (''incidentchange'', ''incident_change''),
      (''incidentcreate'', ''incident_create''), (''alertmanager'', ''alertmanager_receive''),
      (''devicesave'', ''device_save''), (''deviceprobe'', ''device_probe''),
      (''notificationtest'', ''notifications_test''), (''settings'', ''settings_post''),
      (''alertsack'', ''alerts_ack''), (''aitrain'', ''ai_train''), (''securityscan'', ''security_scan''),
      (''mtrstart'', ''mtr_start''), (''mtrstop'', ''mtr_stop''), (''lanscan'', ''lan_scan''),
      (''lanscanjob'', ''lan_scan_job''), (''portscan'', ''port_scan''), (''capturestart'', ''capture_start''),
      (''capturestop'', ''capture_stop''), (''fwblockip'', ''firewall_block_ip''),
      (''fwblockapp'', ''firewall_block_app''), (''fwunblock'', ''firewall_unblock''),
      (''backuprun'', ''backup_run''), (''backupjob'', ''backup_job''), (''backupverify'', ''backup_verify''),
      (''journaladd'', ''journal_add''), (''journaldel'', ''journal_delete''), (''runbookexec'', ''runbook_exec''),
      (''watchdogpoll'', ''watchdog_poll''), (''healthrecompute'', ''health_recompute''),
      (''backupcheck'', ''backup_check_now''), (''plannerdone'', ''planner_done''),
      (''invreport'', ''inv_report''), (''wol'', ''wol_wake''), (''lanalias'', ''lan_alias''),
      (''infrascan'', ''infra_scan''), (''infradtype'', ''infra_dtype''), (''idswl'', ''ids_wl_add''),
      (''customchecksrun'', ''customchecks_run''), (''l2scan'', ''l2_scan''), (''cvescan'', ''cve_scan''),
      (''mikrotikpoll'', ''mikrotik_poll''), (''proxmoxpoll'', ''proxmox_poll''), (''mtrfan'', ''mtr_fan''),
      (''p2pcall'', ''p2p_call'')]"

definition public_endpoints :: "string list" where
  "public_endpoints = [''whoami'', ''meta'', ''login'']"

definition operator_actions :: "string list" where
  "operator_actions = [''alertsack'', ''lanalias'', ''devicemeta'', ''incidentchange'', ''incidentcreate'']"

section \<open>The result of meta\<close>

text \<open>The result of \<open>meta\<close>, with the tables of the database and the descriptions of the modules.\<close>

definition endpoint_names :: "(string, string) dict \<Rightarrow> pyval" where
  "endpoint_names routes = PList (map PStr (sort (dict_keys routes)))"

definition meta_answer :: "web \<Rightarrow> string \<Rightarrow> pyval \<Rightarrow> pyval \<Rightarrow> config" where
  "meta_answer b version tables modules =
     [(''app'', PStr (''NetPulse '' @ version)), (''endpoints_get'', endpoint_names routes_get),
      (''endpoints_post'', endpoint_names routes_post),
      (''special_paths'', PList (map PStr [''/api/stream'', ''/api/rdp'', ''/api/gposcript'', ''/journal.txt'', ''/journal.csv'',
         ''/report.txt'', ''/metrics''])),
      (''db_tables'', tables), (''config'', PDict (meta_config (wb_cfg b))), (''modules'', modules)]"

section \<open>The server\<close>

text \<open>A call of a handler: its name, the actor, the role and the body.\<close>

record call =
  ca_handler :: string
  ca_actor :: string
  ca_role :: string
  ca_body :: config

record audit_row =
  ar_user :: string
  ar_ip :: string
  ar_action :: string
  ar_status :: nat
  ar_details :: config

record server =
  sv_guard :: guard
  sv_calls :: "call list"
  sv_reads :: "call list"
  sv_audit :: "audit_row list"
  sv_alerts :: nat

datatype api_result = Result pyval | Coded nat pyval | Busy | Bad_input | Failed | Gone

text \<open>What a request gets: a status, the result of a handler, a page, or nothing when the connection breaks.\<close>

datatype web_answer = Status nat | Answer nat pyval | Page string | Session string string | Broken

text \<open>\<open>handle\<close> is what a handler returns.\<close>

type_synonym handlers = "call \<Rightarrow> api_result"

definition refuse :: "nat \<Rightarrow> server \<Rightarrow> web_answer \<times> server" where
  "refuse n s = (Status n, s)"

definition with_guard :: "(guard \<Rightarrow> guard) \<Rightarrow> server \<Rightarrow> server" where
  "with_guard f s = s\<lparr>sv_guard := f (sv_guard s)\<rparr>"

definition auth_alert :: "server \<Rightarrow> server" where
  "auth_alert s = s\<lparr>sv_alerts := Suc (sv_alerts s)\<rparr>"

definition log_call :: "call \<Rightarrow> server \<Rightarrow> server" where
  "log_call c s = s\<lparr>sv_calls := sv_calls s @ [c]\<rparr>"

definition log_read :: "call \<Rightarrow> server \<Rightarrow> server" where
  "log_read c s = s\<lparr>sv_reads := sv_reads s @ [c]\<rparr>"

definition left_actor :: "request \<Rightarrow> string" where
  "left_actor r = (case rq_left r of None \<Rightarrow> [] | Some (u, _) \<Rightarrow> u)"

definition left_role :: "request \<Rightarrow> string" where
  "left_role r = (case rq_left r of None \<Rightarrow> [] | Some (_, x) \<Rightarrow> x)"

section \<open>GET\<close>

definition get_path :: "request \<Rightarrow> string" where
  "get_path r = (let p = strip_right (CHR ''/'') (rq_path r) in if p = [] then ''/'' else p)"

definition api_prefix :: string where "api_prefix = ''/api/''"

definition endpoint :: "string \<Rightarrow> string" where
  "endpoint path = (if begins api_prefix path then drop (length api_prefix) path else [])"

definition guarded :: "string \<Rightarrow> bool" where
  "guarded path \<longleftrightarrow> begins api_prefix path \<or> path \<in> {''/metrics'', ''/journal.txt'', ''/journal.csv'', ''/report.txt''}"

fun get_answer :: "api_result \<Rightarrow> web_answer" where
  "get_answer (Result v) = Answer 200 v"
| "get_answer (Coded n v) = Answer n v"
| "get_answer Bad_input = Status 400"
| "get_answer Busy = Status 500"
| "get_answer Failed = Status 500"
| "get_answer Gone = Broken"

text \<open>Without a login every failure is an error 500, and a coded result is sent as it is.\<close>

fun public_answer :: "api_result \<Rightarrow> web_answer" where
  "public_answer (Result v) = Answer 200 v"
| "public_answer (Coded n v) = Answer 200 (PList [PInt (int n), v])"
| "public_answer _ = Status 500"

text \<open>The paths that are not in the table of routes, with what answers them.\<close>

definition special_pages :: "(string, string) dict" where
  "special_pages =
     [(''/metrics'', ''_prometheus''), (''/api/stream'', ''stream''), (''/api/rdp'', ''rdp_download''), (''/api/gposcript'', ''gpo_script''),
      (''/journal.csv'', ''journal.csv''), (''/journal.txt'', ''journal.txt''), (''/report.txt'', ''report_data'')]"

text \<open>Only the journals and the report catch what is raised.\<close>

definition special_answer :: "string \<Rightarrow> api_result \<Rightarrow> web_answer" where
  "special_answer path v =
     (case v of
        Result _ \<Rightarrow> Page path
      | Coded _ _ \<Rightarrow> Page path
      | Gone \<Rightarrow> Broken
      | _ \<Rightarrow> if path \<in> {''/journal.csv'', ''/journal.txt'', ''/report.txt''} then Status 500 else Broken)"

definition get_page :: "handlers \<Rightarrow> string \<Rightarrow> string \<Rightarrow> string \<Rightarrow> server \<Rightarrow> web_answer \<times> server" where
  "get_page handle path user role s =
     (case dict_get special_pages path of
        Some h \<Rightarrow>
          let c = \<lparr>ca_handler = h, ca_actor = user, ca_role = role, ca_body = []\<rparr>
          in (special_answer path (handle c), log_read c s)
      | None \<Rightarrow>
          if \<not> begins api_prefix path then (Page path, s)
          else case dict_get routes_get (endpoint path) of
                 None \<Rightarrow> refuse 404 s
               | Some h \<Rightarrow>
                   let c = \<lparr>ca_handler = h, ca_actor = user, ca_role = role, ca_body = []\<rparr>
                   in (get_answer (handle c), log_read c s))"

definition get_unauthorized :: "handlers \<Rightarrow> real \<Rightarrow> request \<Rightarrow> string \<Rightarrow> server \<Rightarrow> web_answer \<times> server" where
  "get_unauthorized handle now r path s =
     (if endpoint path \<notin> set public_endpoints then
        refuse 401 (auth_alert (if header r ''X-Auth'' \<noteq> [] then with_guard (\<lambda>g. snd (auth_fail now (rq_ip r) g)) s else s))
      else case dict_get routes_get (endpoint path) of
             None \<Rightarrow> refuse 401 s
           | Some h \<Rightarrow>
               let c = \<lparr>ca_handler = h, ca_actor = left_actor r, ca_role = left_role r, ca_body = []\<rparr>
               in (public_answer (handle c), log_read c s))"

definition get_open :: "web \<Rightarrow> handlers \<Rightarrow> real \<Rightarrow> request \<Rightarrow> server \<Rightarrow> web_answer \<times> server" where
  "get_open b handle now r s =
     (let path = get_path r in
      if \<not> guarded path then get_page handle path (left_actor r) (left_role r) s
      else case identity b r of
             Some (user, role) \<Rightarrow> get_page handle path (if user = [] then ''admin'' else user) (if role = [] then ''admin'' else role) s
           | None \<Rightarrow>
               (case if path = ''/metrics'' then bearer_ok b ''metrics'' ''NP_METRICS_TOKEN'' r else Inr False of
                  Inl _ \<Rightarrow> (Broken, s)
                | Inr ok \<Rightarrow> if ok then get_page handle path ''admin'' ''admin'' s else get_unauthorized handle now r path s))"

text \<open>What comes before: an answer, or the request goes on. \<open>do_get\<close> is a request during which no other one goes on.\<close>

definition get_enter :: "web \<Rightarrow> real \<Rightarrow> request \<Rightarrow> server \<Rightarrow> web_answer option \<times> server" where
  "get_enter b now r s =
     (case allowlist_denied b (rq_ip r) of
        Inl _ \<Rightarrow> (Some Broken, s)
      | Inr denied \<Rightarrow>
          if denied then (Some (Status 403), s)
          else if get_path r = ''/healthz'' then (Some (Status 200), s)
          else if get_path r = ''/readyz'' then (Some (Status (if wb_ready b then 200 else 503)), s)
          else case auth_blocked now (rq_ip r) (sv_guard s) of (wait, g) \<Rightarrow>
                 (if wait \<noteq> 0 then Some (Status 429) else None, s\<lparr>sv_guard := g\<rparr>))"

definition do_get :: "web \<Rightarrow> handlers \<Rightarrow> real \<Rightarrow> request \<Rightarrow> server \<Rightarrow> web_answer \<times> server" where
  "do_get b handle now r s =
     (case get_enter b now r s of
        (Some a, s1) \<Rightarrow> (a, s1)
      | (None, s1) \<Rightarrow> get_open b handle now r s1)"

lemma do_get_unfold:
  "do_get b handle now r s =
     (case allowlist_denied b (rq_ip r) of
        Inl _ \<Rightarrow> (Broken, s)
      | Inr denied \<Rightarrow>
          if denied then refuse 403 s
          else if get_path r = ''/healthz'' then (Status 200, s)
          else if get_path r = ''/readyz'' then (Status (if wb_ready b then 200 else 503), s)
          else case auth_blocked now (rq_ip r) (sv_guard s) of (wait, g) \<Rightarrow>
                 if wait \<noteq> 0 then refuse 429 (s\<lparr>sv_guard := g\<rparr>) else get_open b handle now r (s\<lparr>sv_guard := g\<rparr>))"
  by (simp add: do_get_def get_enter_def refuse_def split: sum.split prod.split)

section \<open>POST\<close>

definition max_body :: int where "max_body = 1048576"

text \<open>The body as a dictionary, or the status of the refusal.\<close>

definition read_body :: "web \<Rightarrow> request \<Rightarrow> nat + config" where
  "read_body b r =
     (if header r ''Transfer-Encoding'' \<noteq> [] then Inl 400
      else let ls = header_values r ''Content-Length'' in
        if length ls > 1 then Inl 400
        else case (case ls of [] \<Rightarrow> Inr 0 | l # _ \<Rightarrow> int_of_string l) of
               Inl _ \<Rightarrow> Inl 400
             | Inr n \<Rightarrow>
                 if n < 0 then Inl 400
                 else if n > max_body then Inl 413
                 else if n = 0 then Inr []
                 else case rq_body r of
                        Inl _ \<Rightarrow> Inl 408
                      | Inr raw \<Rightarrow>
                          if int (length raw) \<noteq> n then Inl 400
                          else case wb_json b raw of Inr (PDict d) \<Rightarrow> Inr d | _ \<Rightarrow> Inl 400)"

definition login_candidates :: "web \<Rightarrow> exn + (string \<times> string) list" where
  "login_candidates b =
     bind_sum (py_iter (py_or (get_default (wb_cfg b) ''web_admins'' PNone) (PList []))) (\<lambda>admins.
     bind_sum (py_iter (py_or (get_default (wb_cfg b) ''web_users'' PNone) (PList []))) (\<lambda>users.
       Inr (map (\<lambda>d. (name_of b d, token_of b d)) (tokens_in admins)
            @ (let t = get_default (wb_cfg b) ''web_token'' PNone in if truthy t then [(''admin'', as_text b t)] else [])
            @ map (\<lambda>d. (name_of b d, token_of b d)) (tokens_in users))))"

definition login :: "web \<Rightarrow> real \<Rightarrow> string \<Rightarrow> config \<Rightarrow> server \<Rightarrow> web_answer \<times> server" where
  "login b now ip body s =
     (let token = py_strip (as_text b (py_or (get_default body ''token'' PNone) (PStr []))) in
      case login_candidates b of
        Inl _ \<Rightarrow> (Broken, s)
      | Inr cs \<Rightarrow>
          (case find (\<lambda>(_, tok). token \<noteq> [] \<and> token = tok) cs of
             Some (nm, _) \<Rightarrow> (Session nm token, with_guard (forgive ip) s)
           | None \<Rightarrow> refuse 401 (auth_alert (with_guard (\<lambda>g. snd (auth_fail now ip g)) s))))"

text \<open>The checks against requests that another site makes: the type of the body, the origin, the own header.\<close>

definition csrf_refusal :: "web \<Rightarrow> bool \<Rightarrow> request \<Rightarrow> exn + nat option" where
  "csrf_refusal b receiver r =
     (if \<not> contains ''application/json'' (py_lower (header r ''Content-Type'')) then Inr (Some 415)
      else map_sum id (\<lambda>ok.
        if \<not> ok then Some 403
        else if auth_enabled b \<and> \<not> receiver \<and> header r ''X-Auth'' = [] then Some 403 else None) (origin_allowed b r))"

definition may_do :: "string \<Rightarrow> string \<Rightarrow> bool" where
  "may_do role nm \<longleftrightarrow> \<not> (role = ''viewer'' \<or> role = ''operator'' \<and> nm \<notin> set operator_actions)"

fun post_answer :: "api_result \<Rightarrow> web_answer \<times> nat option" where
  "post_answer (Result v) = (Answer 200 v, Some 200)"
| "post_answer (Coded n v) = (Answer n v, Some n)"
| "post_answer Busy = (Status 503, Some 503)"
| "post_answer Bad_input = (Status 400, Some 400)"
| "post_answer Failed = (Status 500, Some 500)"
| "post_answer Gone = (Broken, None)"

definition post_call :: "handlers \<Rightarrow> string \<Rightarrow> string \<Rightarrow> call \<Rightarrow> server \<Rightarrow> web_answer \<times> server" where
  "post_call handle ip nm c s =
     (case post_answer (handle c) of
        (a, None) \<Rightarrow> (a, log_call c s)
      | (a, Some n) \<Rightarrow>
          (a, (log_call c s)\<lparr>sv_audit := sv_audit s @ [\<lparr>ar_user = ca_actor c, ar_ip = ip, ar_action = nm, ar_status = n, ar_details = redact_dict (ca_body c)\<rparr>]\<rparr>))"

definition post_action :: "web \<Rightarrow> handlers \<Rightarrow> bool \<Rightarrow> request \<Rightarrow> string \<Rightarrow> config \<Rightarrow> server \<Rightarrow> web_answer \<times> server" where
  "post_action b handle receiver r nm body s =
     (case dict_get routes_post nm of
        None \<Rightarrow> refuse 404 s
      | Some h \<Rightarrow>
          (case identity b r of
             Some (user, role) \<Rightarrow>
               if \<not> may_do role nm then refuse 403 s
               else post_call handle (rq_ip r) nm
                      \<lparr>ca_handler = h, ca_actor = (if receiver then ''alertmanager'' else user),
                       ca_role = (if receiver then ''receiver'' else role), ca_body = body\<rparr> s
           | None \<Rightarrow>
               post_call handle (rq_ip r) nm
                 \<lparr>ca_handler = h, ca_actor = (if receiver then ''alertmanager'' else ''admin''),
                  ca_role = (if receiver then ''receiver'' else ''admin''), ca_body = body\<rparr> s))"

text \<open>
  The stages of a POST: up to the check whether the address is blocked (the result tells whether the receiver of alerts has been
  recognised); the identity and the checks against other sites; and the rest, from the reading of the body on.
\<close>

definition post_path :: "request \<Rightarrow> string" where
  "post_path r = strip_right (CHR ''/'') (rq_path r)"

definition post_enter :: "web \<Rightarrow> real \<Rightarrow> request \<Rightarrow> server \<Rightarrow> (web_answer + bool) \<times> server" where
  "post_enter b now r s =
     (if \<not> begins api_prefix (post_path r) then (Inl (Status 404), s)
      else case allowlist_denied b (rq_ip r) of
        Inl _ \<Rightarrow> (Inl Broken, s)
      | Inr denied \<Rightarrow>
          if denied then (Inl (Status 403), s)
          else case auth_blocked now (rq_ip r) (sv_guard s) of (wait, g) \<Rightarrow>
            let s1 = s\<lparr>sv_guard := g\<rparr> in
            if wait \<noteq> 0 then (Inl (Status 429), s1)
            else case (if post_path r = ''/api/alertmanager'' then bearer_ok b ''alertmanager'' ''NP_ALERTMANAGER_TOKEN'' r else Inr False) of
                   Inl _ \<Rightarrow> (Inl Broken, s1)
                 | Inr receiver \<Rightarrow>
                     if post_path r = ''/api/alertmanager'' \<and> \<not> receiver then (Inl (Status 401), s1) else (Inr receiver, s1))"

definition post_identify :: "web \<Rightarrow> real \<Rightarrow> request \<Rightarrow> bool \<Rightarrow> server \<Rightarrow> web_answer option \<times> server" where
  "post_identify b now r receiver s =
     (if post_path r = ''/api/login'' then (None, s)
      else if \<not> receiver \<and> identity b r = None then
        (Some (Status 401), auth_alert (with_guard (\<lambda>g. snd (auth_fail now (rq_ip r) g)) s))
      else case csrf_refusal b receiver r of
             Inl _ \<Rightarrow> (Some Broken, s)
           | Inr v \<Rightarrow> (map_option Status v, s))"

definition post_finish :: "web \<Rightarrow> handlers \<Rightarrow> real \<Rightarrow> request \<Rightarrow> bool \<Rightarrow> server \<Rightarrow> web_answer \<times> server" where
  "post_finish b handle now r receiver s =
     (case read_body b r of
        Inl n \<Rightarrow> refuse n s
      | Inr body \<Rightarrow>
          if post_path r = ''/api/login'' then login b now (rq_ip r) body s
          else post_action b handle receiver r (endpoint (post_path r)) body s)"

text \<open>A request during which no other one goes on.\<close>

definition do_post :: "web \<Rightarrow> handlers \<Rightarrow> real \<Rightarrow> request \<Rightarrow> server \<Rightarrow> web_answer \<times> server" where
  "do_post b handle now r s =
     (case post_enter b now r s of
        (Inl a, s1) \<Rightarrow> (a, s1)
      | (Inr receiver, s1) \<Rightarrow>
          (case post_identify b now r receiver s1 of
             (Some a, s2) \<Rightarrow> (a, s2)
           | (None, s2) \<Rightarrow> post_finish b handle now r receiver s2))"

section \<open>Requests at the same time\<close>

datatype stage = Checked | Reading | Getting

record flight =
  fl_request :: request
  fl_receiver :: bool
  fl_stage :: stage

text \<open>A POST or GET arrives, or the request in this place goes on. What is answered carries whether it was a POST.\<close>

datatype web_event = Posts real request | Gets real request | Goes_on nat real

type_synonym reply_to = "request \<times> bool \<times> web_answer"

definition without :: "nat \<Rightarrow> 'a list \<Rightarrow> 'a list" where
  "without i xs = take i xs @ drop (Suc i) xs"

fun web_step :: "web \<Rightarrow> handlers \<Rightarrow> web_event \<Rightarrow> server \<times> flight list \<Rightarrow> reply_to list \<times> server \<times> flight list" where
  "web_step b handle (Posts now r) (s, fs) =
     (case post_enter b now r s of
        (Inl a, s') \<Rightarrow> ([(r, True, a)], s', fs)
      | (Inr receiver, s') \<Rightarrow> ([], s', fs @ [\<lparr>fl_request = r, fl_receiver = receiver, fl_stage = Checked\<rparr>]))"
| "web_step b handle (Gets now r) (s, fs) =
     (case get_enter b now r s of
        (Some a, s') \<Rightarrow> ([(r, False, a)], s', fs)
      | (None, s') \<Rightarrow> ([], s', fs @ [\<lparr>fl_request = r, fl_receiver = False, fl_stage = Getting\<rparr>]))"
| "web_step b handle (Goes_on i now) (s, fs) =
     (if length fs \<le> i then ([], s, fs)
      else let f = fs ! i; r = fl_request f in
        case fl_stage f of
          Checked \<Rightarrow>
            (case post_identify b now r (fl_receiver f) s of
               (Some a, s') \<Rightarrow> ([(r, True, a)], s', without i fs)
             | (None, s') \<Rightarrow> ([], s', fs[i := f\<lparr>fl_stage := Reading\<rparr>]))
        | Reading \<Rightarrow> (case post_finish b handle now r (fl_receiver f) s of (a, s') \<Rightarrow> ([(r, True, a)], s', without i fs))
        | Getting \<Rightarrow> (case get_open b handle now r s of (a, s') \<Rightarrow> ([(r, False, a)], s', without i fs)))"

fun run_web :: "web \<Rightarrow> handlers \<Rightarrow> web_event list \<Rightarrow> server \<times> flight list \<Rightarrow> reply_to list \<times> server \<times> flight list" where
  "run_web b handle [] st = ([], st)"
| "run_web b handle (v # vs) st =
     (case web_step b handle v st of (as, st1) \<Rightarrow> case run_web b handle vs st1 of (bs, st2) \<Rightarrow> (as @ bs, st2))"

lemma run_web_append:
  "run_web b handle (vs @ ws) st =
     (case run_web b handle vs st of (as, st1) \<Rightarrow> case run_web b handle ws st1 of (bs, st2) \<Rightarrow> (as @ bs, st2))"
  by (induction vs arbitrary: st) (auto split: prod.split)

section \<open>Start\<close>

text \<open>\<open>run\<close> forces the login when the server is reachable from outside; \<open>fresh\<close> is a new token.\<close>

definition loopback :: "string \<Rightarrow> bool" where
  "loopback h \<longleftrightarrow> h \<in> {''127.0.0.1'', ''localhost'', ''::1'', []}"

definition web_address :: "web \<Rightarrow> string" where
  "web_address b = py_strip (as_text b (py_or (get_default (wb_cfg b) ''web_host'' PNone) (PStr ''127.0.0.1'')))"

definition secure_start :: "string \<Rightarrow> web \<Rightarrow> web" where
  "secure_start fresh b =
     (if \<not> loopback (web_address b) \<and> (\<not> auth_enabled b \<or> \<not> truthy (get_default (wb_cfg b) ''web_token'' PNone)) then
        (let c = dict_set ''web_auth_enabled'' (PBool True) (wb_cfg b)
         in b\<lparr>wb_cfg := (if truthy (get_default c ''web_token'' PNone) then c else dict_set ''web_token'' (PStr fresh) c)\<rparr>)
      else b)"

section \<open>How many guesses are tested\<close>



lemma auth_blocked_fails [simp]: "gd_fails (snd (auth_blocked now ip g)) = gd_fails g"
  by (simp add: auth_blocked_def split: option.split)
















lemma post_enter_guard:
  assumes "post_enter b now r s = (x, s')"
  shows "(x = Inl (Status 401) \<longrightarrow> post_path r = ''/api/alertmanager'')
    \<and> (sv_guard s' = sv_guard s \<and> (\<exists>a. x = Inl a) \<or> sv_guard s' = snd (auth_blocked now (rq_ip r) (sv_guard s)))
    \<and> ((\<exists>rc. x = Inr rc) \<longrightarrow> fst (auth_blocked now (rq_ip r) (sv_guard s)) = 0)"
  using assms by (auto simp: post_enter_def Let_def split: if_splits sum.splits prod.splits)


lemma get_page_guard [simp]: "sv_guard (snd (get_page handle path u x s)) = sv_guard s"
  by (simp add: get_page_def refuse_def log_read_def Let_def split: option.split)








definition tested :: "string \<Rightarrow> reply_to list \<Rightarrow> nat" where
  "tested ip as = length (filter (\<lambda>(r, posted, x). posted \<and> rq_ip r = ip \<and> post_path r \<noteq> ''/api/alertmanager'' \<and> x = Status 401) as)"



lemma tested_simps [simp]:
  "tested ip [] = 0"
  "tested ip (as @ bs) = tested ip as + tested ip bs"
  "tested ip [(r, p, x)] = (if p \<and> rq_ip r = ip \<and> post_path r \<noteq> ''/api/alertmanager'' \<and> x = Status 401 then 1 else 0)"
  by (simp_all add: tested_def)








definition ex_web :: web where
  "ex_web = \<lparr>wb_cfg = [(''web_auth_enabled'', PBool True), (''web_token'', PStr ''s3cret''),
       (''web_users'', PList [PDict [(''name'', PStr ''ann''), (''token'', PStr ''viewtok''), (''role'', PStr ''viewer'')],
          PDict [(''name'', PStr ''bob''), (''token'', PStr ''optok''), (''role'', PStr ''operator'')]]),
       (''p2p'', PDict [(''secret'', PStr ''meshkey'')])],
     wb_str = (\<lambda>_. ''?''), wb_in_net = (\<lambda>_ _. True), wb_env = (\<lambda>_. []),
     wb_json = (\<lambda>_. Inr (PDict [])), wb_ready = True\<rparr>"

definition ex_web_request :: "string \<Rightarrow> (string \<times> string) list \<Rightarrow> request" where
  "ex_web_request path hs = \<lparr>rq_ip = ''10.0.0.9'', rq_path = path, rq_headers = hs, rq_tls = False, rq_body = Inr [], rq_left = None\<rparr>"

definition ex_web_server :: server where
  "ex_web_server = \<lparr>sv_guard = new_guard, sv_calls = [], sv_reads = [], sv_audit = [], sv_alerts = 0\<rparr>"





section \<open>Guesses that are not counted\<close>

lemma get_uncounted:
  assumes "header r ''X-Auth'' = []" and "dict_get (gd_block (sv_guard s)) (rq_ip r) = None"
  shows "sv_guard (snd (do_get b handle now r s)) = sv_guard s"
proof -
  have bl: "auth_blocked now (rq_ip r) (sv_guard s) = (0, sv_guard s)" using assms(2) by (simp add: auth_blocked_def)
  have un: "sv_guard (snd (get_unauthorized handle now r path t)) = sv_guard t" for path t
    using assms(1) by (simp add: get_unauthorized_def refuse_def auth_alert_def log_read_def Let_def split: option.split)
  have "sv_guard (snd (get_open b handle now r t)) = sv_guard t" for t
    by (simp add: get_open_def Let_def un split: option.split sum.split)
  then show ?thesis by (simp add: do_get_unfold refuse_def bl split: sum.split)
qed

fun serve_gets :: "web \<Rightarrow> handlers \<Rightarrow> (real \<times> request) list \<Rightarrow> server \<Rightarrow> server" where
  "serve_gets b handle [] s = s"
| "serve_gets b handle ((now, r) # qs) s = serve_gets b handle qs (snd (do_get b handle now r s))"

lemma serve_gets_guard:
  "\<forall>(t, r) \<in> set qs. rq_ip r = ip \<and> header r ''X-Auth'' = [] \<Longrightarrow> dict_get (gd_block (sv_guard s)) ip = None
     \<Longrightarrow> sv_guard (serve_gets b handle qs s) = sv_guard s"
proof (induction qs arbitrary: s)
  case (Cons q qs)
  obtain t r where q: "q = (t, r)" by force
  have g: "sv_guard (snd (do_get b handle t r s)) = sv_guard s" by (rule get_uncounted) (use Cons.prems q in auto)
  then have "sv_guard (serve_gets b handle qs (snd (do_get b handle t r s))) = sv_guard (snd (do_get b handle t r s))"
    using Cons.prems by (intro Cons.IH) auto
  with g show ?case by (simp add: q)
qed simp

text \<open>Guesses sent as the session cookie of GET requests are never counted: after any number of them from an
  address that is not blocked, a request with the right token as its cookie is still served. The block that ends
  a series of guesses by POST does not exist for them.\<close>

theorem cookie_guesses_unlimited:
  assumes "allowlist_denied b (rq_ip r) = Inr False" and "dict_get (gd_block (sv_guard s)) (rq_ip r) = None"
    and "\<forall>(t, r') \<in> set qs. rq_ip r' = rq_ip r \<and> header r' ''X-Auth'' = []"
    and "identity b r = Some (u, role)" and "get_path r = api_prefix @ nm" and "dict_get routes_get nm = Some h"
    and "get_path r \<notin> {''/api/stream'', ''/api/rdp'', ''/api/gposcript''}"
  shows "\<exists>c. ca_handler c = h \<and> fst (do_get b handle now r (serve_gets b handle qs s)) = get_answer (handle c)"
proof -
  let ?s = "serve_gets b handle qs s"
  have "sv_guard ?s = sv_guard s" using serve_gets_guard [OF assms(3,2)] by simp
  then have bl: "auth_blocked now (rq_ip r) (sv_guard ?s) = (0, sv_guard ?s)" using assms(2) by (simp add: auth_blocked_def)
  have path: "get_path r \<noteq> ''/healthz''" "get_path r \<noteq> ''/readyz''" "guarded (get_path r)" "begins api_prefix (get_path r)"
    "endpoint (get_path r) = nm"
    using assms(5) by (auto simp: guarded_def begins_iff endpoint_def api_prefix_def)
  let ?c = "\<lparr>ca_handler = h, ca_actor = (if u = [] then ''admin'' else u), ca_role = (if role = [] then ''admin'' else role), ca_body = []\<rparr>"
  have "dict_get special_pages (get_path r) = None"
    using assms(5,7) by (auto simp: special_pages_def api_prefix_def)
  then have page: "fst (get_page handle (get_path r) (ca_actor ?c) (ca_role ?c) t) = get_answer (handle ?c)" for t
    using path(4,5) assms(6) by (simp add: get_page_def Let_def)
  have op: "get_open b handle now r t = get_page handle (get_path r) (ca_actor ?c) (ca_role ?c) t" for t
    using path(3) assms(4) by (simp add: get_open_def)
  have "do_get b handle now r ?s = get_open b handle now r ?s"
    using assms(1) path(1,2) bl by (simp add: do_get_unfold)
  then have "fst (do_get b handle now r ?s) = get_answer (handle ?c)" unfolding op page by (simp only: page)
  then show ?thesis by (intro exI [of _ ?c] conjI) (simp_all only: call.select_convs)
qed

theorem cookie_guesses_unlimited_witness:
  "fst (do_get ex_web (\<lambda>_. Result PNone) 7 (ex_web_request ''/api/settings'' [(''Cookie'', ''np_session=s3cret'')])
       (serve_gets ex_web (\<lambda>_. Result PNone) (replicate 1000 (6, ex_web_request ''/api/settings'' [(''Cookie'', ''np_session=wrong'')])) ex_web_server))
     = Answer 200 PNone"
proof -
  let ?r = "ex_web_request ''/api/settings'' [(''Cookie'', ''np_session=s3cret'')]"
  let ?w = "ex_web_request ''/api/settings'' [(''Cookie'', ''np_session=wrong'')]"
  have r: "allowlist_denied ex_web (rq_ip ?r) = Inr False" "dict_get (gd_block (sv_guard ex_web_server)) (rq_ip ?r) = None"
    "identity ex_web ?r = Some (''admin'', ''admin'')" "get_path ?r = api_prefix @ ''settings''"
    "dict_get routes_get ''settings'' = Some ''settings_get''" "get_path ?r \<notin> {''/api/stream'', ''/api/rdp'', ''/api/gposcript''}"
    by code_simp+
  have "header ?w ''X-Auth'' = []" "rq_ip ?w = rq_ip ?r" by code_simp+
  then have "\<forall>(t, r') \<in> set (replicate n (6, ?w)). rq_ip r' = rq_ip ?r \<and> header r' ''X-Auth'' = []" for n by auto
  from this [of 1000] have w: "\<forall>(t, r') \<in> set (replicate 1000 (6, ?w)). rq_ip r' = rq_ip ?r \<and> header r' ''X-Auth'' = []" .
  obtain c :: call where "fst (do_get ex_web (\<lambda>_. Result PNone) 7 ?r (serve_gets ex_web (\<lambda>_. Result PNone) (replicate 1000 (6, ?w)) ex_web_server))
      = get_answer (Result PNone)"
    using cookie_guesses_unlimited [OF r(1,2) w r(3-6), of "\<lambda>_. Result PNone" 7] by blast
  then show ?thesis by simp
qed

section \<open>What a change needs\<close>

lemma map_sum_Inr_iff: "map_sum id f x = Inr y \<longleftrightarrow> (\<exists>a. x = Inr a \<and> y = f a)"
  by (cases x) auto

lemma refuse_calls [simp]: "sv_calls (snd (refuse n s)) = sv_calls s"
  by (simp add: refuse_def)

lemma post_call_calls: "sv_calls (snd (post_call handle ip nm c s)) = sv_calls s @ [c]"
  by (cases "handle c"; simp add: post_call_def log_call_def)

lemma login_calls [simp]: "sv_calls (snd (login b now ip body s)) = sv_calls s"
  by (simp add: login_def Let_def auth_alert_def with_guard_def refuse_def split: sum.split option.split)

text \<open>Who may call the action, by the identity of the request or as the receiver of alerts.\<close>

definition entitled :: "web \<Rightarrow> request \<Rightarrow> string \<Rightarrow> bool" where
  "entitled b r nm \<longleftrightarrow>
     (case identity b r of
        Some (_, role) \<Rightarrow> role \<noteq> ''viewer'' \<and> (role \<noteq> ''operator'' \<or> nm \<in> set operator_actions)
      | None \<Rightarrow> nm = ''alertmanager'' \<and> bearer_ok b ''alertmanager'' ''NP_ALERTMANAGER_TOKEN'' r = Inr True)"

lemma may_do_roles: "may_do role nm \<longleftrightarrow> role \<noteq> ''viewer'' \<and> (role \<noteq> ''operator'' \<or> nm \<in> set operator_actions)"
  by (auto simp: may_do_def)

lemma post_action_calls:
  assumes "post_action b handle receiver r nm body s = (ans, s')" and "sv_calls s' \<noteq> sv_calls s"
    and "receiver \<or> identity b r \<noteq> None"
    and "receiver \<Longrightarrow> nm = ''alertmanager'' \<and> bearer_ok b ''alertmanager'' ''NP_ALERTMANAGER_TOKEN'' r = Inr True"
  shows "\<exists>c. sv_calls s' = sv_calls s @ [c] \<and> dict_get routes_post nm = Some (ca_handler c) \<and> ca_body c = body \<and> entitled b r nm"
proof (cases "dict_get routes_post nm")
  case None
  then show ?thesis using assms by (simp add: post_action_def refuse_def)
next
  case (Some h)
  have ne: "sv_calls (snd (post_action b handle receiver r nm body s)) \<noteq> sv_calls s" using assms(1,2) by simp
  let ?user = "case identity b r of None \<Rightarrow> ''admin'' | Some (u, _) \<Rightarrow> u"
  let ?role = "case identity b r of None \<Rightarrow> ''admin'' | Some (_, x) \<Rightarrow> x"
  define c where "c = \<lparr>ca_handler = h, ca_actor = (if receiver then ''alertmanager'' else ?user),
    ca_role = (if receiver then ''receiver'' else ?role), ca_body = body\<rparr>"
  have c: "post_action b handle receiver r nm body s = post_call handle (rq_ip r) nm c s" "ca_handler c = h" "ca_body c = body"
    and "case identity b r of Some (_, role) \<Rightarrow> may_do role nm | None \<Rightarrow> True"
    using ne Some by (auto simp: post_action_def c_def split: option.splits if_splits)
  then have "entitled b r nm" using assms(3,4) by (auto simp: entitled_def may_do_roles split: option.splits)
  moreover have "sv_calls s' = sv_calls s @ [c]" by (metis snd_conv assms(1) c(1) post_call_calls)
  ultimately show ?thesis using c(2,3) Some by auto
qed

lemma post_finish_calls:
  assumes "post_finish b handle now r receiver s = (ans, s')" and "sv_calls s' \<noteq> sv_calls s"
    and "post_path r = ''/api/login'' \<or> receiver \<or> identity b r \<noteq> None"
    and "receiver \<Longrightarrow> post_path r = ''/api/alertmanager'' \<and> bearer_ok b ''alertmanager'' ''NP_ALERTMANAGER_TOKEN'' r = Inr True"
  shows "post_path r \<noteq> ''/api/login'' \<and> (\<exists>c. sv_calls s' = sv_calls s @ [c] \<and> read_body b r = Inr (ca_body c)
    \<and> dict_get routes_post (endpoint (post_path r)) = Some (ca_handler c) \<and> entitled b r (endpoint (post_path r)))"
proof -
  have snd: "sv_calls (snd (post_finish b handle now r receiver s)) \<noteq> sv_calls s" using assms(1,2) by simp
  obtain body where body: "read_body b r = Inr body" and nl: "post_path r \<noteq> ''/api/login''"
    using snd by (auto simp: post_finish_def split: sum.splits if_splits)
  then have act: "post_action b handle receiver r (endpoint (post_path r)) body s = (ans, s')" using assms(1) by (simp add: post_finish_def)
  have "endpoint ''/api/alertmanager'' = ''alertmanager''" by code_simp
  then show ?thesis using post_action_calls [OF act assms(2)] assms(3,4) body nl by auto
qed

text \<open>Before the body is read, and in a GET, only the guard, the number of alerts and the log of the reads change.\<close>

definition same_logs :: "server \<Rightarrow> server \<Rightarrow> bool" where
  "same_logs s s' \<longleftrightarrow> sv_calls s' = sv_calls s \<and> sv_audit s' = sv_audit s"

lemma post_enter_quiet: "same_logs s (snd (post_enter b now r s)) \<and> sv_reads (snd (post_enter b now r s)) = sv_reads s"
proof (cases "allowlist_denied b (rq_ip r)")
  case (Inr denied)
  obtain w g where bl: "auth_blocked now (rq_ip r) (sv_guard s) = (w, g)" by force
  show ?thesis
  proof (cases "if post_path r = ''/api/alertmanager'' then bearer_ok b ''alertmanager'' ''NP_ALERTMANAGER_TOKEN'' r else Inr False")
    case (Inl x)
    then show ?thesis using bl Inr by (simp add: post_enter_def same_logs_def Let_def)
  next
    case rc: (Inr rc)
    then show ?thesis using bl Inr by (simp add: post_enter_def same_logs_def Let_def)
  qed
qed (simp add: post_enter_def same_logs_def)

lemma post_identify_quiet:
  "same_logs s (snd (post_identify b now r receiver s)) \<and> sv_reads (snd (post_identify b now r receiver s)) = sv_reads s"
  by (simp add: post_identify_def same_logs_def auth_alert_def with_guard_def split: sum.split)

lemma get_enter_quiet: "same_logs s (snd (get_enter b now r s)) \<and> sv_reads (snd (get_enter b now r s)) = sv_reads s"
  by (simp add: get_enter_def same_logs_def case_prod_unfold split: sum.split)

lemma get_open_quiet: "same_logs s (snd (get_open b handle now r s))"
proof -
  have "same_logs s (snd (get_page handle path u x s))" for path u x
    by (simp add: get_page_def same_logs_def refuse_def log_read_def Let_def split: option.split)
  moreover have "same_logs s (snd (get_unauthorized handle now r path s))" for path
    by (simp add: get_unauthorized_def same_logs_def refuse_def auth_alert_def with_guard_def log_read_def Let_def split: option.split)
  ultimately show ?thesis by (simp add: get_open_def Let_def case_prod_unfold same_logs_def split: option.split sum.split)
qed

lemmas quiet_stages =
  post_enter_quiet [unfolded same_logs_def] post_identify_quiet [unfolded same_logs_def] get_enter_quiet [unfolded same_logs_def]
  get_open_quiet [unfolded same_logs_def]

lemma post_finish_reads: "sv_reads (snd (post_finish b handle now r receiver s)) = sv_reads s"
proof -
  have "sv_reads (snd (post_call handle ip nm c t)) = sv_reads t" for ip nm c t
    by (cases "handle c") (simp_all add: post_call_def log_call_def)
  then have "sv_reads (snd (post_action b handle receiver r nm body t)) = sv_reads t" for nm body t
    by (simp add: post_action_def refuse_def split: option.split)
  moreover have "sv_reads (snd (login b now ip body t)) = sv_reads t" for ip body t
    by (simp add: login_def Let_def auth_alert_def with_guard_def refuse_def split: sum.split option.split)
  ultimately show ?thesis by (simp add: post_finish_def refuse_def split: sum.split)
qed

text \<open>What the stages behind a request in progress have checked.\<close>

definition accepted :: "web \<Rightarrow> flight \<Rightarrow> bool" where
  "accepted b f \<longleftrightarrow>
     allowlist_denied b (rq_ip (fl_request f)) = Inr False
     \<and> (fl_receiver f \<longrightarrow> post_path (fl_request f) = ''/api/alertmanager''
          \<and> bearer_ok b ''alertmanager'' ''NP_ALERTMANAGER_TOKEN'' (fl_request f) = Inr True)
     \<and> (fl_stage f = Reading \<longrightarrow> post_path (fl_request f) = ''/api/login''
          \<or> (fl_receiver f \<or> identity b (fl_request f) \<noteq> None) \<and> csrf_refusal b (fl_receiver f) (fl_request f) = Inr None)"

lemma post_enter_accepted:
  "post_enter b now r s = (Inr receiver, s') \<Longrightarrow> accepted b \<lparr>fl_request = r, fl_receiver = receiver, fl_stage = Checked\<rparr>"
  by (auto simp: post_enter_def accepted_def Let_def split: if_splits sum.splits prod.splits)

lemma get_enter_accepted:
  "get_enter b now r s = (None, s') \<Longrightarrow> accepted b \<lparr>fl_request = r, fl_receiver = False, fl_stage = Getting\<rparr>"
  by (auto simp: get_enter_def accepted_def split: if_splits sum.splits prod.splits)

lemma post_identify_accepted:
  "post_identify b now (fl_request f) (fl_receiver f) s = (None, s') \<Longrightarrow> accepted b f \<Longrightarrow> accepted b (f\<lparr>fl_stage := Reading\<rparr>)"
  by (auto simp: post_identify_def accepted_def split: if_splits sum.splits)

text \<open>A POST arrived when its address was not blocked.\<close>

definition let_in :: "web \<Rightarrow> handlers \<Rightarrow> web_event list \<Rightarrow> server \<Rightarrow> request \<Rightarrow> bool" where
  "let_in b handle vs s r \<longleftrightarrow>
     (\<exists>before t after. vs = before @ Posts t r # after
        \<and> fst (auth_blocked t (rq_ip r) (sv_guard (fst (snd (run_web b handle before (s, [])))))) = 0)"

lemma let_in_later: "let_in b handle vs s r \<Longrightarrow> let_in b handle (vs @ ws) s r"
  by (force simp: let_in_def)

text \<open>What stands behind a call of a handler.\<close>

definition authorised :: "web \<Rightarrow> handlers \<Rightarrow> web_event list \<Rightarrow> server \<Rightarrow> call \<Rightarrow> bool" where
  "authorised b handle vs s c \<longleftrightarrow>
     (\<exists>r. let_in b handle vs s r \<and> allowlist_denied b (rq_ip r) = Inr False
        \<and> contains ''application/json'' (py_lower (header r ''Content-Type'')) \<and> origin_allowed b r = Inr True
        \<and> read_body b r = Inr (ca_body c) \<and> dict_get routes_post (endpoint (post_path r)) = Some (ca_handler c)
        \<and> entitled b r (endpoint (post_path r))
        \<and> (auth_enabled b \<and> endpoint (post_path r) \<noteq> ''alertmanager'' \<longrightarrow> header r ''X-Auth'' \<noteq> []))"

lemma authorised_later: "authorised b handle vs s c \<Longrightarrow> authorised b handle (vs @ ws) s c"
  using let_in_later unfolding authorised_def by meson

lemma finish_authorised:
  assumes run: "post_finish b handle now (fl_request f) (fl_receiver f) s = (ans, s')"
    and f: "accepted b f" "fl_stage f = Reading" "let_in b handle vs s0 (fl_request f)"
  shows "\<exists>cs. sv_calls s' = sv_calls s @ cs \<and> (\<forall>c \<in> set cs. authorised b handle vs s0 c)"
proof (cases "sv_calls s' = sv_calls s")
  case False
  let ?r = "fl_request f"
  have acc: "post_path ?r = ''/api/login'' \<or> fl_receiver f \<or> identity b ?r \<noteq> None"
    "fl_receiver f \<Longrightarrow> post_path ?r = ''/api/alertmanager'' \<and> bearer_ok b ''alertmanager'' ''NP_ALERTMANAGER_TOKEN'' ?r = Inr True"
    using f(1,2) by (auto simp: accepted_def)
  from post_finish_calls [OF run False acc] obtain c where nl: "post_path ?r \<noteq> ''/api/login''" and c: "sv_calls s' = sv_calls s @ [c]"
    "read_body b ?r = Inr (ca_body c)" "dict_get routes_post (endpoint (post_path ?r)) = Some (ca_handler c)" "entitled b ?r (endpoint (post_path ?r))"
    by blast
  have csrf: "csrf_refusal b (fl_receiver f) ?r = Inr None" and al: "allowlist_denied b (rq_ip ?r) = Inr False"
    using f(1,2) nl by (auto simp: accepted_def)
  have e: "endpoint ''/api/alertmanager'' = ''alertmanager''" by code_simp
  have "contains ''application/json'' (py_lower (header ?r ''Content-Type''))" "origin_allowed b ?r = Inr True"
    "auth_enabled b \<and> \<not> fl_receiver f \<longrightarrow> header ?r ''X-Auth'' \<noteq> []"
    using csrf by (auto simp: csrf_refusal_def map_sum_Inr_iff split: if_splits)
  with c f(3) al acc(2) e have "authorised b handle vs s0 c" unfolding authorised_def by (intro exI [of _ ?r]) auto
  with c(1) show ?thesis by (intro exI [of _ "[c]"]) simp
qed auto

lemma set_without: "set (without i xs) \<subseteq> set xs"
  by (auto simp: without_def dest: in_set_takeD in_set_dropD)

definition in_order :: "web \<Rightarrow> handlers \<Rightarrow> web_event list \<Rightarrow> server \<Rightarrow> server \<times> flight list \<Rightarrow> bool" where
  "in_order b handle vs s st \<longleftrightarrow>
     (\<forall>f \<in> set (snd st). accepted b f \<and> (fl_stage f \<noteq> Getting \<longrightarrow> let_in b handle vs s (fl_request f)))
     \<and> (\<exists>cs. sv_calls (fst st) = sv_calls s @ cs \<and> (\<forall>c \<in> set cs. authorised b handle vs s c))"

lemma in_order_step:
  assumes "run_web b handle vs (s0, []) = (as0, s, fs)" and ok: "in_order b handle vs s0 (s, fs)"
    and step: "web_step b handle v (s, fs) = (as, s', fs')"
  shows "in_order b handle (vs @ [v]) s0 (s', fs')"
proof -
  have keep: "\<forall>f \<in> set fs. accepted b f \<and> (fl_stage f \<noteq> Getting \<longrightarrow> let_in b handle (vs @ [v]) s0 (fl_request f))"
    using ok let_in_later by (auto simp: in_order_def)
  obtain cs where cs: "sv_calls s = sv_calls s0 @ cs" "\<forall>c \<in> set cs. authorised b handle (vs @ [v]) s0 c"
    using ok authorised_later by (auto simp: in_order_def)
  have quiet: ?thesis if "sv_calls s' = sv_calls s"
    and "\<forall>f \<in> set fs' - set fs. accepted b f \<and> (fl_stage f \<noteq> Getting \<longrightarrow> let_in b handle (vs @ [v]) s0 (fl_request f))"
    using that keep cs by (auto simp: in_order_def)
  show ?thesis
  proof (cases v)
    case (Posts t r)
    obtain x s1 where x: "post_enter b t r s = (x, s1)" by force
    have "sv_calls s1 = sv_calls s" using quiet_stages(1) [of b t r s] x by simp
    moreover have "let_in b handle (vs @ [v]) s0 r" if "x = Inr rc" for rc
      unfolding let_in_def using post_enter_guard [OF x] that assms(1) Posts
      by (intro exI [of _ vs] exI [of _ t] exI [of _ "[]"]) simp
    ultimately show ?thesis using step Posts x post_enter_accepted [of b t r s]
      by (intro quiet) (auto split: sum.splits)
  next
    case (Gets t r)
    obtain x s1 where x: "get_enter b t r s = (x, s1)" by force
    have "sv_calls s1 = sv_calls s" using quiet_stages(3) [of b t r s] x by simp
    then show ?thesis using step Gets x get_enter_accepted [of b t r s]
      by (intro quiet) (auto split: option.splits)
  next
    case (Goes_on i t)
    show ?thesis
    proof (cases "i < length fs")
      case False
      then show ?thesis using step Goes_on by (intro quiet) auto
    next
      case True
      let ?f = "fs ! i"
      have f: "accepted b ?f" "fl_stage ?f \<noteq> Getting \<longrightarrow> let_in b handle (vs @ [v]) s0 (fl_request ?f)" using keep True by auto
      show ?thesis
      proof (cases "fl_stage ?f")
        case Checked
        obtain x s1 where x: "post_identify b t (fl_request ?f) (fl_receiver ?f) s = (x, s1)" by force
        have "sv_calls s1 = sv_calls s" using quiet_stages(2) [of b t "fl_request ?f" "fl_receiver ?f" s] x by simp
        moreover have "x = None \<Longrightarrow> accepted b (?f\<lparr>fl_stage := Reading\<rparr>)" using post_identify_accepted x f(1) by blast
        ultimately show ?thesis using step Goes_on True Checked x f(2) set_without [of i fs] set_update_subset_insert [of fs i "?f\<lparr>fl_stage := Reading\<rparr>"]
          by (intro quiet) (auto simp: Let_def split: option.splits)
      next
        case Reading
        obtain y s1 where y: "post_finish b handle t (fl_request ?f) (fl_receiver ?f) s = (y, s1)" by force
        then have r: "s' = s1" "fs' = without i fs" using step Goes_on True Reading by (auto simp: Let_def)
        have "let_in b handle (vs @ [v]) s0 (fl_request ?f)" using f(2) Reading by simp
        from finish_authorised [OF y f(1) Reading this] obtain ds
          where ds: "sv_calls s1 = sv_calls s @ ds" "\<forall>c \<in> set ds. authorised b handle (vs @ [v]) s0 c" by blast
        then have "sv_calls s' = sv_calls s0 @ cs @ ds \<and> (\<forall>c \<in> set (cs @ ds). authorised b handle (vs @ [v]) s0 c)"
          using cs r(1) by auto
        moreover have "\<forall>f \<in> set fs'. accepted b f \<and> (fl_stage f \<noteq> Getting \<longrightarrow> let_in b handle (vs @ [v]) s0 (fl_request f))"
          using keep set_without [of i fs] r(2) by auto
        ultimately show ?thesis unfolding in_order_def by (simp only: fst_conv snd_conv) blast
      next
        case Getting
        then show ?thesis using step Goes_on True quiet_stages(4) [of b handle t "fl_request ?f" s] set_without [of i fs]
          by (intro quiet) (auto simp: Let_def split: prod.splits)
      qed
    qed
  qed
qed

lemma in_order_run:
  "run_web b handle vs (s, []) = (as, st) \<Longrightarrow> in_order b handle vs s st"
proof (induction vs arbitrary: as st rule: rev_induct)
  case (snoc v vs)
  obtain as1 s1 fs1 where one: "run_web b handle vs (s, []) = (as1, s1, fs1)" by (metis prod.exhaust)
  obtain as2 s2 fs2 where two: "web_step b handle v (s1, fs1) = (as2, s2, fs2)" by (metis prod.exhaust)
  have "st = (s2, fs2)" using snoc.prems one two by (simp add: run_web_append)
  with in_order_step [OF one snoc.IH [OF one] two] show ?case by simp
qed (simp add: in_order_def)


definition ex_change :: request where
  "ex_change = (ex_web_request ''/api/alertsack'' [(''X-Auth'', ''optok''), (''Content-Type'', ''application/json''), (''Content-Length'', ''2'')])
     \<lparr>rq_body := Inr ''{}''\<rparr>"

text \<open>An operator acknowledges an alert while another request is in progress.\<close>

definition ex_changes :: "web_event list" where
  "ex_changes = [Posts 7 ex_change, Posts 8 (ex_web_request ''/api/settings'' [(''X-Auth'', ''optok'')]), Goes_on 0 9, Goes_on 1 9, Goes_on 0 9]"


section \<open>A server that is open to the network\<close>

lemma secure_start_auth:
  assumes "\<not> loopback (web_address b)" and "fresh \<noteq> []"
  shows "auth_enabled (secure_start fresh b) \<and> truthy (get_default (wb_cfg (secure_start fresh b)) ''web_token'' PNone)"
  using assms by (auto simp: secure_start_def auth_enabled_def Let_def get_default_def split: option.split)

lemma identity_none:
  assumes "auth_enabled b" and "\<forall>(nm, tok, role) \<in> set (candidates b). tok = [] \<or> tok \<notin> set (supplied r)"
  shows "identity b r = None"
  using assms by (fastforce simp: identity_def find_None_iff list_ex_iff)

text \<open>A request without any of the tokens of the configuration and without those of the receiver of alerts and of the metrics.\<close>

definition tokenless :: "web \<Rightarrow> request \<Rightarrow> bool" where
  "tokenless b r \<longleftrightarrow>
     (\<forall>(nm, tok, role) \<in> set (candidates b). tok = [] \<or> tok \<notin> set (supplied r))
     \<and> bearer_ok b ''alertmanager'' ''NP_ALERTMANAGER_TOKEN'' r \<noteq> Inr True \<and> bearer_ok b ''metrics'' ''NP_METRICS_TOKEN'' r \<noteq> Inr True"

fun requests_of :: "web_event \<Rightarrow> request list" where
  "requests_of (Posts t r) = [r]"
| "requests_of (Gets t r) = [r]"
| "requests_of (Goes_on i t) = []"

definition public_call :: "call \<Rightarrow> bool" where
  "public_call c \<longleftrightarrow> (\<exists>nm \<in> set public_endpoints. dict_get routes_get nm = Some (ca_handler c))"

lemma get_open_public:
  assumes "identity b r = None" and "bearer_ok b ''metrics'' ''NP_METRICS_TOKEN'' r \<noteq> Inr True"
  shows "\<exists>cs. sv_reads (snd (get_open b handle now r s)) = sv_reads s @ cs \<and> (\<forall>c \<in> set cs. public_call c)"
proof -
  have un: "\<exists>cs. sv_reads (snd (get_unauthorized handle now r path s)) = sv_reads s @ cs \<and> (\<forall>c \<in> set cs. public_call c)" for path
    by (auto simp: get_unauthorized_def refuse_def auth_alert_def with_guard_def log_read_def public_call_def Let_def split: option.split)
  have "dict_get special_pages p = None" if "\<not> guarded p" for p
    using that by (auto simp: special_pages_def guarded_def begins_iff api_prefix_def)
  then have "sv_reads (snd (get_page handle p u x s)) = sv_reads s" if "\<not> guarded p" for p u x
    using that by (simp add: get_page_def guarded_def)
  then show ?thesis using assms un by (auto simp: get_open_def Let_def split: sum.split)
qed

lemma tokenless_reads:
  assumes "\<And>r. tokenless b r \<Longrightarrow> identity b r = None" and "\<forall>v \<in> set vs. \<forall>r \<in> set (requests_of v). tokenless b r"
    and "run_web b handle vs (s, []) = (as, st)"
  shows "(\<forall>f \<in> set (snd st). tokenless b (fl_request f))
    \<and> (\<exists>cs. sv_reads (fst st) = sv_reads s @ cs \<and> (\<forall>c \<in> set cs. public_call c))"
  using assms(2,3)
proof (induction vs arbitrary: as st rule: rev_induct)
  case (snoc v vs)
  obtain as1 s1 fs1 where one: "run_web b handle vs (s, []) = (as1, s1, fs1)" by (metis prod.exhaust)
  obtain as2 s2 fs2 where two: "web_step b handle v (s1, fs1) = (as2, s2, fs2)" by (metis prod.exhaust)
  have st: "st = (s2, fs2)" using snoc.prems one two by (simp add: run_web_append)
  obtain cs where IH: "\<forall>f \<in> set fs1. tokenless b (fl_request f)" "sv_reads s1 = sv_reads s @ cs" "\<forall>c \<in> set cs. public_call c"
    using snoc.IH [OF _ one] snoc.prems(1) by auto
  have "(\<forall>f \<in> set fs2. tokenless b (fl_request f)) \<and> (\<exists>ds. sv_reads s2 = sv_reads s1 @ ds \<and> (\<forall>c \<in> set ds. public_call c))"
  proof (cases v)
    case (Posts t r)
    then have "tokenless b r" using snoc.prems(1) by simp
    then show ?thesis using two IH(1) Posts quiet_stages(1) [of b t r s1] by (auto split: sum.splits prod.splits)
  next
    case (Gets t r)
    then have "tokenless b r" using snoc.prems(1) by simp
    then show ?thesis using two IH(1) Gets quiet_stages(3) [of b t r s1] by (auto split: option.splits prod.splits)
  next
    case (Goes_on i t)
    show ?thesis
    proof (cases "i < length fs1")
      case True
      let ?f = "fs1 ! i"
      have f: "tokenless b (fl_request ?f)" using IH(1) True by simp
      from get_open_public [OF assms(1) [OF this], of handle t s1] f
      have "\<exists>ds. sv_reads (snd (get_open b handle t (fl_request ?f) s1)) = sv_reads s1 @ ds \<and> (\<forall>c \<in> set ds. public_call c)"
        by (simp add: tokenless_def)
      then show ?thesis
        using two Goes_on True f IH(1) set_without [of i fs1] set_update_subset_insert [of fs1 i "?f\<lparr>fl_stage := Reading\<rparr>"]
          quiet_stages(2) [of b t "fl_request ?f" "fl_receiver ?f" s1] post_finish_reads [of b handle t "fl_request ?f" "fl_receiver ?f" s1]
        by (cases "fl_stage ?f") (auto simp: Let_def split: option.splits prod.splits)
    qed (use two Goes_on IH(1) in auto)
  qed
  with IH(2,3) st show ?case by fastforce
qed simp

text \<open>C10: 
  A server whose configured address is neither a loopback one nor blank, whatever else is configured, lets nobody change anything
  without a token: once it has started the login is on, and of any number of requests at the same time that carry none of the
  configured tokens, nor those of the receiver and of the metrics, none reaches a handler by POST, and by GET (the special pages
  included) they reach only those of the public endpoints.
\<close>

theorem open_server_needs_token:
  assumes "\<not> loopback (web_address b)" and "fresh \<noteq> []" and "b' = secure_start fresh b"
    and "\<forall>v \<in> set vs. \<forall>r \<in> set (requests_of v). tokenless b' r" and "run_web b' handle vs (s, []) = (as, s', fs')"
  shows "sv_calls s' = sv_calls s \<and> (\<exists>cs. sv_reads s' = sv_reads s @ cs
    \<and> (\<forall>c \<in> set cs. \<exists>nm \<in> set public_endpoints. dict_get routes_get nm = Some (ca_handler c)))"
proof -
  have none: "identity b' r = None" if "tokenless b' r" for r
    using identity_none [of b' r] that secure_start_auth [OF assms(1,2)] assms(3) by (simp add: tokenless_def)
  have "\<not> authorised b' handle vs s c" for c
  proof
    assume "authorised b' handle vs s c"
    then obtain r where "let_in b' handle vs s r" "entitled b' r (endpoint (post_path r))" by (auto simp: authorised_def)
    then have "tokenless b' r" using assms(4) by (force simp: let_in_def)
    with none [OF this] \<open>entitled b' r _\<close> show False by (simp add: entitled_def tokenless_def)
  qed
  then have "sv_calls s' = sv_calls s" using in_order_run [OF assms(5)] by (auto simp: in_order_def)
  moreover note tokenless_reads [OF none assms(4,5)]
  ultimately show ?thesis by (simp add: public_call_def)
qed

definition ex_open_web :: web where
  "ex_open_web = ex_web\<lparr>wb_cfg := [(''web_host'', PStr ''0.0.0.0'')]\<rparr>"

definition ex_strangers :: "web_event list" where
  "ex_strangers = [Posts 7 ex_change, Gets 7 (ex_web_request ''/api/rdp'' []), Gets 7 (ex_web_request ''/api/meta'' []), Goes_on 0 8, Goes_on 0 8,
     Goes_on 0 8, Goes_on 0 8]"

theorem open_server_needs_token_witness:
  "sv_calls (fst (snd (run_web (secure_start ''f00d'' ex_open_web) (\<lambda>_. Result PNone) ex_strangers (ex_web_server, [])))) = []
   \<and> map ca_handler (sv_reads (fst (snd (run_web (secure_start ''f00d'' ex_open_web) (\<lambda>_. Result PNone) ex_strangers (ex_web_server, []))))) = [''meta'']
   \<and> map ca_handler (sv_calls (fst (snd (run_web ex_open_web (\<lambda>_. Result PNone) ex_strangers (ex_web_server, []))))) = [''alerts_ack'']"
proof (intro conjI)
  let ?b = "secure_start ''f00d'' ex_open_web"
  obtain as s' fs' where run: "run_web ?b (\<lambda>_. Result PNone) ex_strangers (ex_web_server, []) = (as, s', fs')" by (metis prod.exhaust)
  have h: "\<not> loopback (web_address ex_open_web)" "''f00d'' \<noteq> []" by code_simp+
  have "list_all (\<lambda>v. list_all (\<lambda>r. list_all (\<lambda>(nm, tok, role). tok = [] \<or> tok \<notin> set (supplied r)) (candidates ?b)
      \<and> bearer_ok ?b ''alertmanager'' ''NP_ALERTMANAGER_TOKEN'' r \<noteq> Inr True \<and> bearer_ok ?b ''metrics'' ''NP_METRICS_TOKEN'' r \<noteq> Inr True)
      (requests_of v)) ex_strangers" by code_simp
  then have c: "\<forall>v \<in> set ex_strangers. \<forall>r \<in> set (requests_of v). tokenless ?b r"
    unfolding tokenless_def list_all_iff by blast
  show "sv_calls (fst (snd (run_web ?b (\<lambda>_. Result PNone) ex_strangers (ex_web_server, [])))) = []"
    using open_server_needs_token [OF h refl c run] run by (simp add: ex_web_server_def)
  show "map ca_handler (sv_reads (fst (snd (run_web ?b (\<lambda>_. Result PNone) ex_strangers (ex_web_server, []))))) = [''meta'']"
    "map ca_handler (sv_calls (fst (snd (run_web ex_open_web (\<lambda>_. Result PNone) ex_strangers (ex_web_server, []))))) = [''alerts_ack'']"
    by code_simp+
qed

text \<open>A blank address counts as a loopback one, but a socket that is bound to it listens on every interface: the login stays off.\<close>

theorem blank_host_stays_open:
  assumes "dict_get (wb_cfg b) ''web_host'' = Some (PStr '' '')"
  shows "web_address b = [] \<and> secure_start fresh b = b"
proof -
  have "py_strip '' '' = []" by code_simp
  then have "web_address b = []" using assms by (simp add: web_address_def get_default_def as_text_def)
  then show ?thesis by (simp add: secure_start_def loopback_def)
qed

theorem blank_host_stays_open_witness:
  "\<not> auth_enabled (secure_start ''f00d'' (ex_web\<lparr>wb_cfg := [(''web_host'', PStr '' '')]\<rparr>))"
proof -
  have "\<not> auth_enabled (ex_web\<lparr>wb_cfg := [(''web_host'', PStr '' '')]\<rparr>)" by code_simp
  then show ?thesis
    using blank_host_stays_open [of "ex_web\<lparr>wb_cfg := [(''web_host'', PStr '' '')]\<rparr>" "''f00d''"] by simp
qed

section \<open>What anyone can read\<close>

lemma meta_config_other: "k \<noteq> ''web_token'' \<Longrightarrow> k \<noteq> ''telegram'' \<Longrightarrow> dict_get (meta_config cfg) k = dict_get cfg k"
  by (simp add: meta_config_def Let_def split: pyval.split)

text \<open>C8: A request without any token reads the configuration with its secrets: \<open>meta\<close> is a public endpoint, and of the
  whole configuration it hides the token of the server and that of the messenger, while the tokens of the admins
  and of the users, the passwords and the key of the mesh are in its answer as they are stored.\<close>

theorem anyone_reads_the_secrets:
  assumes "allowlist_denied b (rq_ip r) = Inr False" and "fst (auth_blocked now (rq_ip r) (sv_guard s)) = 0"
    and "identity b r = None" and "get_path r = ''/api/meta''"
    and "\<And>c. ca_handler c = ''meta'' \<Longrightarrow> handle c = Result (PDict (meta_answer b version tables modules))"
  shows "\<exists>d cfg. fst (do_get b handle now r s) = Answer 200 (PDict d) \<and> dict_get d ''config'' = Some (PDict cfg)
    \<and> (\<forall>k. k \<noteq> ''web_token'' \<and> k \<noteq> ''telegram'' \<longrightarrow> dict_get cfg k = dict_get (wb_cfg b) k)"
proof -
  have route: "dict_get routes_get ''meta'' = Some ''meta''" "endpoint ''/api/meta'' = ''meta''" "''meta'' \<in> set public_endpoints"
    "guarded ''/api/meta''"
    by code_simp+
  have "fst (get_unauthorized handle now r ''/api/meta'' t) = Answer 200 (PDict (meta_answer b version tables modules))" for t
    using route(1-3) assms(5) by (simp add: get_unauthorized_def Let_def)
  then have "fst (get_open b handle now r t) = Answer 200 (PDict (meta_answer b version tables modules))" for t
    using assms(3,4) route(4) by (simp add: get_open_def)
  then have "fst (do_get b handle now r s) = Answer 200 (PDict (meta_answer b version tables modules))"
    using assms(1,2,4) by (simp add: do_get_unfold case_prod_unfold)
  moreover have "dict_get (meta_answer b version tables modules) ''config'' = Some (PDict (meta_config (wb_cfg b)))"
    by (simp add: meta_answer_def)
  ultimately show ?thesis using meta_config_other by blast
qed

theorem anyone_reads_the_secrets_witness:
  "\<exists>d cfg. fst (do_get ex_web (\<lambda>_. Result (PDict (meta_answer ex_web ''1'' PNone PNone))) 7 (ex_web_request ''/api/meta'' []) ex_web_server)
       = Answer 200 (PDict d) \<and> dict_get d ''config'' = Some (PDict cfg)
     \<and> dict_get cfg ''p2p'' = Some (PDict [(''secret'', PStr ''meshkey'')])
     \<and> identity ex_web (ex_web_request ''/api/meta'' [(''X-Auth'', ''viewtok'')]) = Some (''ann'', ''viewer'')"
proof -
  let ?r = "ex_web_request ''/api/meta'' []"
  have h: "allowlist_denied ex_web (rq_ip ?r) = Inr False" "fst (auth_blocked 7 (rq_ip ?r) (sv_guard ex_web_server)) = 0"
    "identity ex_web ?r = None" "get_path ?r = ''/api/meta''"
    by code_simp+
  have "dict_get (wb_cfg ex_web) ''p2p'' = Some (PDict [(''secret'', PStr ''meshkey'')])"
    "identity ex_web (ex_web_request ''/api/meta'' [(''X-Auth'', ''viewtok'')]) = Some (''ann'', ''viewer'')"
    by code_simp+
  moreover obtain d cfg where "fst (do_get ex_web (\<lambda>_. Result (PDict (meta_answer ex_web ''1'' PNone PNone))) 7 ?r ex_web_server) = Answer 200 (PDict d)"
    "dict_get d ''config'' = Some (PDict cfg)" "\<forall>k. k \<noteq> ''web_token'' \<and> k \<noteq> ''telegram'' \<longrightarrow> dict_get cfg k = dict_get (wb_cfg ex_web) k"
    using anyone_reads_the_secrets [OF h, of "\<lambda>_. Result (PDict (meta_answer ex_web ''1'' PNone PNone))" "''1''" PNone PNone] by blast
  ultimately show ?thesis by (intro exI [of _ d] exI [of _ cfg]) simp
qed

section \<open>The audit log\<close>

definition audit_masked :: "server \<Rightarrow> bool" where
  "audit_masked s \<longleftrightarrow> (\<forall>a \<in> set (sv_audit s). masked (PDict (ar_details a)))"

lemma post_call_masked: "audit_masked s \<Longrightarrow> audit_masked (snd (post_call handle ip nm c s))"
  using masked_redact [of "PDict (ca_body c)"] unfolding redact_dict_eq
  by (cases "handle c") (auto simp: post_call_def audit_masked_def log_call_def)

lemma login_audit [simp]: "sv_audit (snd (login b now ip body s)) = sv_audit s"
  by (simp add: login_def Let_def auth_alert_def with_guard_def refuse_def split: sum.split option.split)

lemma post_finish_masked:
  assumes "audit_masked s"
  shows "audit_masked (snd (post_finish b handle now r receiver s))"
proof -
  have "audit_masked (snd (login b now ip body s))" for ip body using assms by (simp add: audit_masked_def)
  moreover have "audit_masked (snd (post_action b handle receiver r nm body s))" for nm body
    using assms post_call_masked by (simp add: post_action_def refuse_def split: option.split)
  ultimately show ?thesis using assms by (simp add: post_finish_def refuse_def split: sum.split)
qed

lemma web_step_masked: "audit_masked (fst st) \<Longrightarrow> audit_masked (fst (snd (web_step b handle v st)))"
proof -
  assume s: "audit_masked (fst st)"
  obtain s fs where st: "st = (s, fs)" by force
  have same: "sv_audit s1 = sv_audit s \<Longrightarrow> audit_masked s1" for s1 using s st by (simp add: audit_masked_def)
  show ?thesis
  proof (cases v)
    case (Posts t r)
    have "audit_masked (snd (post_enter b t r s))" by (rule same) (simp add: quiet_stages(1))
    then show ?thesis by (cases "post_enter b t r s") (auto simp: st Posts split: sum.split)
  next
    case (Gets t r)
    have "audit_masked (snd (get_enter b t r s))" by (rule same) (simp add: quiet_stages(3))
    then show ?thesis by (cases "get_enter b t r s") (auto simp: st Gets split: option.split)
  next
    case (Goes_on i t)
    let ?r = "fl_request (fs ! i)"
    let ?rc = "fl_receiver (fs ! i)"
    have "audit_masked (snd (post_identify b t ?r ?rc s))" "audit_masked (snd (get_open b handle t ?r s))"
      by (rule same; simp add: quiet_stages(2,4))+
    moreover have "audit_masked (snd (post_finish b handle t ?r ?rc s))" using s st post_finish_masked by simp
    ultimately show ?thesis using s
      by (cases "post_identify b t ?r ?rc s"; cases "get_open b handle t ?r s"; cases "post_finish b handle t ?r ?rc s")
        (auto simp: st Goes_on Let_def split: stage.split option.split)
  qed
qed

text \<open>The audit log holds no value of a key that names a secret: whatever bodies are posted, in every row that the
  server adds, at any depth of dictionaries and lists, such a value is the mask.\<close>

theorem audit_hides_secrets: "audit_masked (fst st) \<Longrightarrow> audit_masked (fst (snd (run_web b handle vs st)))"
proof (induction vs arbitrary: st)
  case (Cons v vs)
  from Cons.IH [OF web_step_masked [OF Cons.prems]] show ?case by (simp add: case_prod_unfold)
qed simp

theorem audit_hides_secrets_witness:
  "audit_masked (fst (snd (run_web ex_web (\<lambda>_. Result PNone) ex_changes (ex_web_server, []))))
   \<and> map ar_action (sv_audit (fst (snd (run_web ex_web (\<lambda>_. Result PNone) ex_changes (ex_web_server, []))))) = [''alertsack'']"
proof
  show "audit_masked (fst (snd (run_web ex_web (\<lambda>_. Result PNone) ex_changes (ex_web_server, []))))"
    by (rule audit_hides_secrets) (simp add: audit_masked_def ex_web_server_def)
  show "map ar_action (sv_audit (fst (snd (run_web ex_web (\<lambda>_. Result PNone) ex_changes (ex_web_server, []))))) = [''alertsack'']"
    by code_simp
qed

section \<open>Lists of admins\<close>

lemma redacted_tokens: "tokens_in (map discard (map redact vs)) = []"
proof -
  have "secret_key ''token''" by code_simp
  then have "get_default (discard_dict (redact_dict d)) ''token'' PNone = PNone" for d
    by (simp add: get_default_def redacted_secret_gone)
  moreover have "\<exists>e. discard (redact v) = PDict (discard_dict (redact_dict e))" if "discard (redact v) = PDict d" for v d
    using that by (cases v) (auto simp: redact_dict_def discard_dict_def)
  ultimately have "(case discard (redact v) of PDict d \<Rightarrow> if truthy (get_default d ''token'' PNone) then [d] else [] | _ \<Rightarrow> []) = []" for v
    by (fastforce split: pyval.split)
  then show ?thesis by (simp add: tokens_in_def comp_def)
qed

text \<open>Saving the settings form as it was shown removes the token of every admin in the list of admins, because the
  form shows it masked and the merge replaces a list as a whole: none of them can log in any more. The list of the
  users is protected against this, that of the admins is not.\<close>

theorem saving_the_form_removes_admins:
  assumes "settings_get cfg = Inr body" and "distinct (map fst cfg)" and "dict_get cfg ''web_admins'' = Some (PList vs)"
  shows "with_token (get_default (settings_post fresh body cfg) ''web_admins'' PNone) = []"
proof -
  have ns: "\<not> secret_key ''web_admins''" by code_simp
  have ok: "distinct (map fst (redact_dict cfg))" using assms(2) by (simp add: redact_dict_def comp_def case_prod_unfold)
  have body: "dict_get body ''web_admins'' = Some (redact (PList vs))" "distinct (map fst body)"
    using assms(1,3) ns ok
    by (auto simp: settings_get_def Let_def redact_dict_get intro!: distinct_set elim!: bind_sum_InrE split: pyval.splits if_splits)
  have upd: "distinct (map fst (settings_update fresh body))"
    "dict_get (settings_update fresh body) ''web_admins'' = Some (discard (redact (PList vs)))"
  proof -
    have d: "distinct (map fst (fold dict_pop ks e)) \<and> (k \<notin> set ks \<longrightarrow> dict_get (fold dict_pop ks e) k = dict_get e k)"
      if "distinct (map fst e)" for ks e and k :: string
      using that by (induction ks arbitrary: e) (simp_all add: distinct_pop)
    have dd: "distinct (map fst (discard_dict e))" if "distinct (map fst e)" for e
      using that by (simp add: discard_dict_def comp_def case_prod_unfold distinct_map_filter)
    let ?b = "fold dict_pop protected_settings (dict_pop ''_regen_token'' body)"
    have b: "distinct (map fst ?b)" "dict_get ?b ''web_admins'' = Some (redact (PList vs))"
      using d [of "dict_pop ''_regen_token'' body" "protected_settings" "''web_admins''"] body
      by (simp_all add: distinct_pop protected_settings_def)
    then show "distinct (map fst (settings_update fresh body))"
      unfolding settings_update_def Let_def by (intro dd) (simp add: distinct_pop distinct_set)
    show "dict_get (settings_update fresh body) ''web_admins'' = Some (discard (redact (PList vs)))"
      unfolding settings_update_def Let_def
      by (subst discard_dict_get) (use b in \<open>simp_all add: distinct_pop distinct_set mask_def\<close>)
  qed
  then have "dict_get (settings_post fresh body cfg) ''web_admins'' = Some (discard (redact (PList vs)))"
    unfolding settings_post_def by (intro deep_merge_get) simp_all
  then show ?thesis using redacted_tokens [of vs] by (simp add: with_token_def get_default_def)
qed

theorem saving_the_form_removes_admins_witness:
  "\<exists>body. settings_get [(''web_admins'', PList [PDict [(''name'', PStr ''eve''), (''token'', PStr ''t0k'')]])] = Inr body
     \<and> with_token (get_default (settings_post ''f00d'' body
          [(''web_admins'', PList [PDict [(''name'', PStr ''eve''), (''token'', PStr ''t0k'')]])]) ''web_admins'' PNone) = []"
proof -
  let ?cfg = "[(''web_admins'', PList [PDict [(''name'', PStr ''eve''), (''token'', PStr ''t0k'')]])]"
  have h: "settings_get ?cfg = Inr [(''web_admins'', PList [PDict [(''name'', PStr ''eve''), (''token'', mask)]]), (''web_token_masked'', PStr [])]"
    by code_simp
  have "distinct (map fst ?cfg)" "dict_get ?cfg ''web_admins'' = Some (PList [PDict [(''name'', PStr ''eve''), (''token'', PStr ''t0k'')]])"
    by simp_all
  from saving_the_form_removes_admins [OF h this, of "''f00d''"] show ?thesis using h by blast
qed

end
