(* ===== verification/Slot_Pool.thy ===== *)
theory Slot_Pool
  imports Prelude
begin

text \<open>
  A \<open>threading.BoundedSemaphore\<close> that bounds how many pieces of work are admitted at a time. The jobs of the web
  server and the deliveries of notifications are admitted by one each. The contract \<open>slot_pool\<close> says what a component
  has to keep about its own semaphore, and what follows for every run of it.
\<close>

section \<open>The semaphore\<close>

text \<open>\<open>acquire(blocking=False)\<close> and \<open>release()\<close>, which raises when every slot is free already.\<close>

definition sem_acquire :: "nat \<Rightarrow> nat option" where
  "sem_acquire n = (if n = 0 then None else Some (n - 1))"

definition sem_release :: "nat \<Rightarrow> nat \<Rightarrow> exn + nat" where
  "sem_release capacity n = (if capacity \<le> n then Inl ValueError else Inr (n + 1))"

lemma sem_acquire_Some: "sem_acquire n = Some m \<longleftrightarrow> n = Suc m"
  by (auto simp: sem_acquire_def)

lemma sem_acquire_None: "sem_acquire n = None \<longleftrightarrow> n = 0"
  by (auto simp: sem_acquire_def)

lemma sem_release_Inr: "sem_release c n = Inr m \<longleftrightarrow> n < c \<and> m = Suc n"
  by (auto simp: sem_release_def)

section \<open>The contract\<close>

locale slot_pool =
  fixes free_slots :: "'s \<Rightarrow> nat"
    and holders :: "'s \<Rightarrow> nat"
    and capacity :: nat
    and step :: "'s \<Rightarrow> 's \<Rightarrow> bool"
    and start :: 's
  assumes starts_full: "free_slots start = capacity" "holders start = 0"
    and step_conserves: "step s s' \<Longrightarrow> free_slots s + holders s = capacity \<Longrightarrow> free_slots s' + holders s' = capacity"
begin

lemma conserved: "step\<^sup>*\<^sup>* start s \<Longrightarrow> free_slots s + holders s = capacity"
  by (induction rule: rtranclp_induct) (simp add: starts_full, rule step_conserves)

lemma holders_bounded: "step\<^sup>*\<^sup>* start s \<Longrightarrow> holders s \<le> capacity"
  using conserved by fastforce

lemma refused_when_full: "step\<^sup>*\<^sup>* start s \<Longrightarrow> sem_acquire (free_slots s) = None \<longleftrightarrow> holders s = capacity"
  using conserved by (fastforce simp: sem_acquire_None)

lemma all_free_when_idle: "step\<^sup>*\<^sup>* start s \<Longrightarrow> holders s = 0 \<Longrightarrow> free_slots s = capacity"
  using conserved by fastforce

text \<open>Whoever holds a slot can give it back: the semaphore never refuses a release.\<close>

lemma release_accepted: "step\<^sup>*\<^sup>* start s \<Longrightarrow> 0 < holders s \<Longrightarrow> sem_release capacity (free_slots s) = Inr (Suc (free_slots s))"
  using conserved by (fastforce simp: sem_release_Inr)

end

section \<open>Phases of admitted work\<close>

text \<open>A table of threads: how many of them satisfy a predicate after one of them moves.\<close>

definition count_by :: "('a \<Rightarrow> bool) \<Rightarrow> 'a list \<Rightarrow> nat" where
  "count_by P xs = length (filter P xs)"

lemma count_by_simps [simp]:
  "count_by P [] = 0"
  "count_by P (x # xs) = (if P x then Suc (count_by P xs) else count_by P xs)"
  "count_by P (xs @ ys) = count_by P xs + count_by P ys"
  by (simp_all add: count_by_def)

lemma count_by_update_same:
  "i < length xs \<Longrightarrow> P (xs ! i) = P x \<Longrightarrow> count_by P (xs[i := x]) = count_by P xs"
  by (induction xs arbitrary: i) (auto split: nat.splits)

lemma count_by_update_leaves:
  "i < length xs \<Longrightarrow> P (xs ! i) \<Longrightarrow> \<not> P x \<Longrightarrow> Suc (count_by P (xs[i := x])) = count_by P xs"
  by (induction xs arbitrary: i) (auto split: nat.splits)

lemma count_by_pos: "i < length xs \<Longrightarrow> P (xs ! i) \<Longrightarrow> 0 < count_by P xs"
  by (auto simp: count_by_def filter_empty_conv intro: nth_mem)

lemma count_by_mono: "(\<And>x. x \<in> set xs \<Longrightarrow> P x \<Longrightarrow> Q x) \<Longrightarrow> count_by P xs \<le> count_by Q xs"
  by (induction xs) (auto intro: le_SucI)

end
