(* ===== verification/Jobs.thy ===== *)
theory Jobs
  imports Slot_Pool
begin

text \<open>
  The background jobs of the web server: \<open>submit_job\<close>, \<open>prune_jobs\<close> and what the handlers read of a job in
  \<open>netpulse/server.py\<close>. A request thread takes a slot, lists its job, hands it to the workers; a worker runs it,
  writes the result into the job and gives the slot back. A job is an object of a store: the table \<open>JOBS\<close> and
  the worker share it. Each section under the lock is one step, and any threads may run between two steps.
  The time and the fresh identifier are arguments; the queue of the workers is their phase \<open>Working\<close>.
\<close>

section \<open>State\<close>

datatype job_status = Running | Job_Done | Job_Error

record job_object =
  jb_status :: job_status
  jb_result :: pyval
  jb_error :: "string option"
  jb_started :: real
  jb_finished :: "real option"

text \<open>Where the thread of a job stands; \<open>Ending\<close> is in front of the release of its slot.\<close>

datatype job_phase = Admitted | Listed string nat | Working nat | Ending | Gone

record board =
  bd_slots :: nat
  bd_jobs :: "(string, nat) dict"
  bd_objects :: "job_object list"
  bd_threads :: "job_phase list"

definition job_slots :: nat where
  "job_slots = 64"

definition new_board :: board where
  "new_board = \<lparr>bd_slots = job_slots, bd_jobs = [], bd_objects = [], bd_threads = []\<rparr>"

definition new_job :: "real \<Rightarrow> job_object" where
  "new_job now = \<lparr>jb_status = Running, jb_result = PNone, jb_error = None, jb_started = now, jb_finished = None\<rparr>"

text \<open>\<open>job.get("finished", job["started"])\<close>\<close>

definition job_age :: "job_object \<Rightarrow> real" where
  "job_age j = (case jb_finished j of Some t \<Rightarrow> t | None \<Rightarrow> jb_started j)"

section \<open>Operations\<close>

text \<open>\<open>prune_jobs\<close>: the finished jobs older than \<open>max_age\<close>, then the oldest finished ones beyond 1024 jobs.\<close>

definition expired :: "real \<Rightarrow> job_object list \<Rightarrow> string \<times> nat \<Rightarrow> bool" where
  "expired cutoff objs entry =
     (let j = objs ! snd entry in jb_status j \<noteq> Running \<and> job_age j < cutoff)"

definition over_limit :: "job_object list \<Rightarrow> (string, nat) dict \<Rightarrow> string list" where
  "over_limit objs jobs =
     map fst (take (length jobs - 1024)
       (sort_key (\<lambda>e. job_age (objs ! snd e)) (filter (\<lambda>e. jb_status (objs ! snd e) \<noteq> Running) jobs)))"

definition prune_jobs :: "real \<Rightarrow> real \<Rightarrow> board \<Rightarrow> board" where
  "prune_jobs now max_age s =
     (let young = filter (\<lambda>e. \<not> expired (now - max_age) (bd_objects s) e) (bd_jobs s)
      in s\<lparr>bd_jobs := fold dict_pop (over_limit (bd_objects s) young) young\<rparr>)"

definition admit :: "board \<Rightarrow> exn + board" where
  "admit s =
     (case sem_acquire (bd_slots s) of
        None \<Rightarrow> Inl (ServiceError ''JobCapacityError'' (utf8 [208, 158, 209, 135, 208, 181, 209,
      128, 208, 181, 208, 180, 209, 140, 32, 208, 183, 208, 176, 208, 189, 209, 143, 209, 130, 208, 176, 59, 32, 208, 191, 208, 190, 208, 178, 209, 130, 208, 190, 209, 128, 208, 184, 209, 130, 208, 181, 32, 208, 183, 208, 176, 208, 191, 209, 128, 208, 190, 209, 129, 32, 208, 191, 208, 190, 208, 183, 208, 182, 208, 181]))
      | Some n \<Rightarrow> Inr (s\<lparr>bd_slots := n, bd_threads := bd_threads s @ [Admitted]\<rparr>))"

definition move :: "nat \<Rightarrow> job_phase \<Rightarrow> board \<Rightarrow> board" where
  "move i p s = s\<lparr>bd_threads := (bd_threads s)[i := p]\<rparr>"

definition enlist :: "nat \<Rightarrow> string \<Rightarrow> real \<Rightarrow> board \<Rightarrow> board" where
  "enlist i job_id now s =
     (let s1 = prune_jobs now 1800 s; r = length (bd_objects s1)
      in move i (Listed job_id r) (s1\<lparr>bd_objects := bd_objects s1 @ [new_job now], bd_jobs := dict_set job_id r (bd_jobs s1)\<rparr>))"

text \<open>\<open>WORKERS.submit(wrap)\<close>, which may refuse; then the job leaves the table before the slot is released.\<close>

definition hand_over :: "nat \<Rightarrow> string \<Rightarrow> nat \<Rightarrow> bool \<Rightarrow> board \<Rightarrow> board" where
  "hand_over i job_id r accepted s =
     (if accepted then move i (Working r) s else move i Ending (s\<lparr>bd_jobs := dict_pop job_id (bd_jobs s)\<rparr>))"

text \<open>The end of \<open>fn\<close> in \<open>wrap\<close>: \<open>Inl\<close> is the text of an exception.\<close>

definition job_end :: "real \<Rightarrow> string + pyval \<Rightarrow> job_object \<Rightarrow> job_object" where
  "job_end now outcome j =
     (case outcome of
        Inr v \<Rightarrow> j\<lparr>jb_result := v, jb_status := Job_Done, jb_finished := Some now\<rparr>
      | Inl msg \<Rightarrow> j\<lparr>jb_status := Job_Error, jb_error := Some msg, jb_finished := Some now\<rparr>)"

definition finish :: "nat \<Rightarrow> nat \<Rightarrow> real \<Rightarrow> string + pyval \<Rightarrow> board \<Rightarrow> board" where
  "finish i r now outcome s =
     move i Ending (s\<lparr>bd_objects := (bd_objects s)[r := job_end now outcome (bd_objects s ! r)]\<rparr>)"

definition release :: "nat \<Rightarrow> board \<Rightarrow> exn + board" where
  "release i s = map_sum id (\<lambda>n. move i Gone (s\<lparr>bd_slots := n\<rparr>)) (sem_release job_slots (bd_slots s))"

text \<open>\<open>submit_job\<close> when no other thread runs in between.\<close>

definition submit_job :: "real \<Rightarrow> string \<Rightarrow> bool \<Rightarrow> board \<Rightarrow> (exn + string) \<times> board" where
  "submit_job now job_id accepted s =
     (case admit s of
        Inl e \<Rightarrow> (Inl e, s)
      | Inr s1 \<Rightarrow>
          (let i = length (bd_threads s); s2 = enlist i job_id now s1; r = length (bd_objects s); s3 = hand_over i job_id r accepted s2
           in if accepted then (Inr job_id, s3)
              else case release i s3 of Inl e \<Rightarrow> (Inl e, s3) | Inr s4 \<Rightarrow> (Inl (PyException ''refused''), s4)))"

text \<open>\<open>JOBS.get(job_id)\<close>\<close>

definition job_at :: "string \<Rightarrow> board \<Rightarrow> job_object option" where
  "job_at job_id s = map_option (\<lambda>r. bd_objects s ! r) (dict_get (bd_jobs s) job_id)"

section \<open>Any threads in any order\<close>

inductive job_step :: "board \<Rightarrow> board \<Rightarrow> bool" where
  admit: "admit s = Inr s' \<Longrightarrow> job_step s s'"
| enlist: "i < length (bd_threads s) \<Longrightarrow> bd_threads s ! i = Admitted \<Longrightarrow> job_step s (enlist i job_id now s)"
| hand: "i < length (bd_threads s) \<Longrightarrow> bd_threads s ! i = Listed job_id r \<Longrightarrow> job_step s (hand_over i job_id r accepted s)"
| finish: "i < length (bd_threads s) \<Longrightarrow> bd_threads s ! i = Working r \<Longrightarrow> job_step s (finish i r now outcome s)"
| release: "i < length (bd_threads s) \<Longrightarrow> bd_threads s ! i = Ending \<Longrightarrow> release i s = Inr s' \<Longrightarrow> job_step s s'"
| prune: "job_step s (prune_jobs now max_age s)"

inductive_cases job_stepE: "job_step s s'"

definition holds_slot :: "job_phase \<Rightarrow> bool" where
  "holds_slot p \<longleftrightarrow> p \<noteq> Gone"

definition job_holders :: "board \<Rightarrow> nat" where
  "job_holders s = count_by holds_slot (bd_threads s)"

section \<open>The slots\<close>

lemmas job_op_defs = move_def prune_jobs_def enlist_def hand_over_def finish_def Let_def

lemma prune_frame [simp]:
  "bd_slots (prune_jobs now a s) = bd_slots s" "bd_objects (prune_jobs now a s) = bd_objects s"
  "bd_threads (prune_jobs now a s) = bd_threads s"
  by (simp_all add: prune_jobs_def Let_def)

lemma move_frame [simp]:
  "bd_slots (move i p s) = bd_slots s" "bd_objects (move i p s) = bd_objects s" "bd_jobs (move i p s) = bd_jobs s"
  "bd_threads (move i p s) = (bd_threads s)[i := p]"
  by (simp_all add: move_def)

lemma job_holders_move: "holds_slot (bd_threads s ! i) = holds_slot p \<Longrightarrow> i < length (bd_threads s) \<Longrightarrow>
    count_by holds_slot ((bd_threads s)[i := p]) = job_holders s"
  by (simp add: job_holders_def count_by_update_same)

interpretation job_slots: slot_pool bd_slots job_holders job_slots job_step new_board
proof
  show "bd_slots new_board = job_slots" "job_holders new_board = 0"
    by (simp_all add: new_board_def job_holders_def)
next
  fix s s' assume "job_step s s'" and fit: "bd_slots s + job_holders s = job_slots"
  from this(1) show "bd_slots s' + job_holders s' = job_slots"
  proof cases
    case admit
    then show ?thesis using fit
      by (auto simp: admit_def sem_acquire_Some job_holders_def holds_slot_def split: option.splits)
  next
    case (release i)
    then have "bd_slots s' = Suc (bd_slots s)" "bd_threads s' = (bd_threads s)[i := Gone]"
      by (auto simp: release_def map_sum_def sem_release_Inr split: sum.splits)
    moreover have "Suc (count_by holds_slot ((bd_threads s)[i := Gone])) = job_holders s"
      unfolding job_holders_def using release by (intro count_by_update_leaves) (auto simp: holds_slot_def)
    ultimately show ?thesis using fit by (simp add: job_holders_def)
  qed (use fit in \<open>auto simp: enlist_def hand_over_def finish_def Let_def job_holders_def [of "_\<lparr>bd_jobs := _\<rparr>"]
        job_holders_def [of "move _ _ _"] job_holders_def [of "prune_jobs _ _ _"] job_holders_move holds_slot_def\<close>,
      simp_all add: job_holders_def)
qed

section \<open>Pruning\<close>

lemma fold_dict_pop: "fold dict_pop ks d = filter (\<lambda>e. fst e \<notin> set ks) d"
proof (induction ks arbitrary: d)
  case (Cons k ks)
  have "dict_pop k d = filter (\<lambda>e. fst e \<noteq> k) d"
    by (auto simp: dict_pop_def AList.delete_eq case_prod_unfold intro: filter_cong)
  with Cons show ?case by simp
qed simp

lemma length_filter_keys:
  assumes "distinct (map fst d)" and "distinct ks" and "set ks \<subseteq> fst ` set d"
  shows "length (filter (\<lambda>e. fst e \<notin> set ks) d) = length d - length ks"
proof -
  have "length (filter (\<lambda>e. fst e \<in> set ks) d) = length (filter (\<lambda>k. k \<in> set ks) (map fst d))"
    by (simp add: filter_map comp_def)
  also have "\<dots> = card (set (filter (\<lambda>k. k \<in> set ks) (map fst d)))"
    using assms(1) by (subst distinct_card) simp_all
  also have "set (filter (\<lambda>k. k \<in> set ks) (map fst d)) = set ks"
    using assms(3) by auto
  also have "card (set ks) = length ks" using assms(2) by (rule distinct_card)
  finally show ?thesis
    using sum_length_filter_compl [of "\<lambda>e. fst e \<in> set ks" d] by simp
qed

definition job_running :: "job_object list \<Rightarrow> string \<times> nat \<Rightarrow> bool" where
  "job_running objs e \<longleftrightarrow> jb_status (objs ! snd e) = Running"

abbreviation kept_young :: "real \<Rightarrow> real \<Rightarrow> board \<Rightarrow> (string, nat) dict" where
  "kept_young now a s \<equiv> filter (\<lambda>e. \<not> expired (now - a) (bd_objects s) e) (bd_jobs s)"

abbreviation completed :: "job_object list \<Rightarrow> (string, nat) dict \<Rightarrow> (string, nat) dict" where
  "completed objs jobs \<equiv> sort_key (\<lambda>e. job_age (objs ! snd e)) (filter (\<lambda>e. \<not> job_running objs e) jobs)"

lemma over_limit_completed: "over_limit objs jobs = map fst (take (length jobs - 1024) (completed objs jobs))"
  by (simp add: over_limit_def job_running_def)

lemma bd_jobs_prune:
  "bd_jobs (prune_jobs now a s) = filter (\<lambda>e. fst e \<notin> set (over_limit (bd_objects s) (kept_young now a s))) (kept_young now a s)"
  by (simp add: prune_jobs_def Let_def fold_dict_pop)

lemma prune_subset: "set (bd_jobs (prune_jobs now a s)) \<subseteq> set (bd_jobs s)"
  by (auto simp: bd_jobs_prune)

lemma distinct_map_filter2: "distinct (map f xs) \<Longrightarrow> distinct (map f (filter P xs))"
  by (simp add: distinct_map_filter)

lemma completed_facts:
  assumes "distinct (map fst d)"
  shows "distinct (map fst (completed objs d))" and "set (completed objs d) \<subseteq> set d"
    and "sorted (map (\<lambda>e. job_age (objs ! snd e)) (completed objs d))"
proof -
  have "distinct (filter (\<lambda>e. \<not> job_running objs e) d)" "inj_on fst (set d)"
    using assms by (simp_all add: distinct_map)
  then show "distinct (map fst (completed objs d))"
    by (simp add: distinct_map) (auto intro: inj_on_subset)
qed auto

lemma length_prune:
  assumes "distinct (map fst (bd_jobs s))"
  shows "length (bd_jobs (prune_jobs now a s)) \<le> max 1024 (length (filter (job_running (bd_objects s)) (bd_jobs s)))"
proof -
  let ?y = "kept_young now a s" and ?o = "bd_objects s"
  let ?c = "completed ?o ?y" and ?ks = "over_limit ?o ?y"
  have dy: "distinct (map fst ?y)" using assms by (rule distinct_map_filter2)
  have "distinct (map fst (take n ?c @ drop n ?c))" for n using completed_facts(1) [OF dy] by simp
  then have dk: "distinct ?ks" unfolding over_limit_completed map_append by (metis distinct_append)
  have "set ?ks \<subseteq> fst ` set ?y"
    unfolding over_limit_completed set_map
    by (rule image_mono) (rule order_trans [OF set_take_subset completed_facts(2) [OF dy]])
  then have len: "length (bd_jobs (prune_jobs now a s)) = length ?y - length ?ks"
    unfolding bd_jobs_prune using length_filter_keys [OF dy dk] by simp
  have "length ?c = length (filter (\<lambda>e. \<not> job_running ?o e) ?y)" by simp
  then have "length ?c + length (filter (job_running ?o) ?y) = length ?y"
    using sum_length_filter_compl [of "job_running ?o" ?y] by simp
  moreover have "length ?ks = min (length ?c) (length ?y - 1024)" unfolding over_limit_completed by simp
  moreover have "length (filter (job_running ?o) ?y) \<le> length (filter (job_running ?o) (bd_jobs s))"
    using count_by_mono [of "bd_jobs s" "\<lambda>e. \<not> expired (now - a) ?o e \<and> job_running ?o e" "job_running ?o"]
    by (simp add: count_by_def)
  ultimately show ?thesis unfolding len by linarith
qed

lemma prune_keeps_running:
  assumes "distinct (map fst (bd_jobs s))" and "e \<in> set (bd_jobs s)" and "job_running (bd_objects s) e"
  shows "e \<in> set (bd_jobs (prune_jobs now a s))"
proof -
  let ?y = "kept_young now a s" and ?o = "bd_objects s"
  have ey: "e \<in> set ?y" using assms(2,3) by (simp add: expired_def job_running_def Let_def)
  have dy: "inj_on fst (set ?y)" using assms(1) by (simp add: distinct_map inj_on_def)
  have "fst e \<notin> set (over_limit ?o ?y)"
  proof
    assume "fst e \<in> set (over_limit ?o ?y)"
    then obtain e' where "fst e' = fst e" "e' \<in> set (completed ?o ?y)"
      unfolding over_limit_completed by (auto dest: in_set_takeD simp del: set_sort)
    then have "e' \<in> set ?y" "\<not> job_running ?o e'" by auto
    from inj_onD [OF dy \<open>fst e' = fst e\<close> \<open>e' \<in> set ?y\<close> ey] have "e' = e" .
    with \<open>\<not> job_running ?o e'\<close> assms(3) show False by simp
  qed
  with ey show ?thesis by (simp add: bd_jobs_prune)
qed

section \<open>What every run keeps\<close>

text \<open>The job that a thread looks after.\<close>

fun thread_job :: "job_phase \<Rightarrow> nat option" where
  "thread_job (Listed job_id r) = Some r"
| "thread_job (Working r) = Some r"
| "thread_job _ = None"

definition looks_after :: "job_phase \<Rightarrow> string \<times> nat \<Rightarrow> bool" where
  "looks_after p e \<longleftrightarrow> p = Working (snd e) \<or> p = Listed (fst e) (snd e)"

definition board_ok :: "board \<Rightarrow> bool" where
  "board_ok s \<longleftrightarrow>
     distinct (map fst (bd_jobs s)) \<and> distinct (map snd (bd_jobs s))
     \<and> (\<forall>e \<in> set (bd_jobs s). snd e < length (bd_objects s))
     \<and> (\<forall>i < length (bd_threads s). \<forall>r. thread_job (bd_threads s ! i) = Some r \<longrightarrow>
          r < length (bd_objects s) \<and> jb_status (bd_objects s ! r) = Running)
     \<and> (\<forall>i < length (bd_threads s). \<forall>j < length (bd_threads s). \<forall>r.
          thread_job (bd_threads s ! i) = Some r \<longrightarrow> thread_job (bd_threads s ! j) = Some r \<longrightarrow> i = j)
     \<and> (\<forall>e \<in> set (bd_jobs s). job_running (bd_objects s) e \<longrightarrow> (\<exists>p \<in> set (bd_threads s). looks_after p e))"

lemma board_ok_intro:
  assumes "distinct (map fst (bd_jobs s))" and "distinct (map snd (bd_jobs s))"
    and "\<And>e. e \<in> set (bd_jobs s) \<Longrightarrow> snd e < length (bd_objects s)"
    and "\<And>i r. i < length (bd_threads s) \<Longrightarrow> thread_job (bd_threads s ! i) = Some r \<Longrightarrow>
           r < length (bd_objects s) \<and> jb_status (bd_objects s ! r) = Running"
    and "\<And>i j r. i < length (bd_threads s) \<Longrightarrow> j < length (bd_threads s) \<Longrightarrow>
           thread_job (bd_threads s ! i) = Some r \<Longrightarrow> thread_job (bd_threads s ! j) = Some r \<Longrightarrow> i = j"
    and "\<And>e. e \<in> set (bd_jobs s) \<Longrightarrow> job_running (bd_objects s) e \<Longrightarrow> \<exists>p \<in> set (bd_threads s). looks_after p e"
  shows "board_ok s"
  using assms unfolding board_ok_def by blast

lemma board_okD:
  assumes "board_ok s"
  shows "distinct (map fst (bd_jobs s))" and "distinct (map snd (bd_jobs s))"
    and "e \<in> set (bd_jobs s) \<Longrightarrow> snd e < length (bd_objects s)"
    and "i < length (bd_threads s) \<Longrightarrow> thread_job (bd_threads s ! i) = Some r \<Longrightarrow>
           r < length (bd_objects s) \<and> jb_status (bd_objects s ! r) = Running"
    and "i < length (bd_threads s) \<Longrightarrow> j < length (bd_threads s) \<Longrightarrow>
           thread_job (bd_threads s ! i) = Some r \<Longrightarrow> thread_job (bd_threads s ! j) = Some r \<Longrightarrow> i = j"
    and "e \<in> set (bd_jobs s) \<Longrightarrow> job_running (bd_objects s) e \<Longrightarrow> \<exists>p \<in> set (bd_threads s). looks_after p e"
  using assms unfolding board_ok_def by blast+

lemma board_ok_new: "board_ok new_board"
  by (simp add: board_ok_def new_board_def)

text \<open>Fewer entries, and threads that give up their job or pass it on.\<close>

definition serves :: "board \<Rightarrow> nat \<Rightarrow> nat \<Rightarrow> bool" where
  "serves s i r \<longleftrightarrow> i < length (bd_threads s) \<and> thread_job (bd_threads s ! i) = Some r"

lemma board_ok_serves:
  assumes "board_ok s" and "serves s i r"
  shows "r < length (bd_objects s)" and "jb_status (bd_objects s ! r) = Running" and "serves s j r \<Longrightarrow> i = j"
  using assms(2) board_okD(4) [OF assms(1), of i r] board_okD(5) [OF assms(1), of i j r] by (auto simp: serves_def)

lemma board_ok_fewer:
  assumes ok: "board_ok s" and same: "bd_objects s' = bd_objects s"
    and dist: "distinct (map fst (bd_jobs s'))" "distinct (map snd (bd_jobs s'))"
    and sub: "set (bd_jobs s') \<subseteq> set (bd_jobs s)"
    and srv: "\<And>i r. serves s' i r \<Longrightarrow> serves s i r"
    and looks: "\<And>e p. e \<in> set (bd_jobs s') \<Longrightarrow> job_running (bd_objects s) e \<Longrightarrow> p \<in> set (bd_threads s) \<Longrightarrow> looks_after p e \<Longrightarrow>
         \<exists>p' \<in> set (bd_threads s'). looks_after p' e"
  shows "board_ok s'"
proof (rule board_ok_intro)
  show "snd e < length (bd_objects s')" if "e \<in> set (bd_jobs s')" for e
    using board_okD(3) [OF ok subsetD [OF sub that]] by (simp add: same)
  show "r < length (bd_objects s') \<and> jb_status (bd_objects s' ! r) = Running"
    if "i < length (bd_threads s')" "thread_job (bd_threads s' ! i) = Some r" for i r
    using board_ok_serves [OF ok srv [of i r]] that by (simp add: serves_def same)
  show "i = j" if "i < length (bd_threads s')" "j < length (bd_threads s')"
    "thread_job (bd_threads s' ! i) = Some r" "thread_job (bd_threads s' ! j) = Some r" for i j r
    using board_ok_serves(3) [OF ok srv [of i r] srv [of j r]] that by (simp add: serves_def)
  show "\<exists>p \<in> set (bd_threads s'). looks_after p e" if e: "e \<in> set (bd_jobs s')" "job_running (bd_objects s') e" for e
  proof -
    have "e \<in> set (bd_jobs s)" "job_running (bd_objects s) e" using sub e by (auto simp: same)
    then obtain p where "p \<in> set (bd_threads s)" "looks_after p e" using board_okD(6) [OF ok] by blast
    then show ?thesis using looks [OF e(1) \<open>job_running (bd_objects s) e\<close>] by blast
  qed
qed (rule dist)+

lemma serves_update:
  assumes "bd_threads s' = (bd_threads s)[i := p]" and "thread_job p = None \<or> thread_job p = thread_job (bd_threads s ! i)"
  shows "serves s' k r \<Longrightarrow> serves s k r"
  using assms by (cases "k = i") (auto simp: serves_def)

lemma looks_after_update:
  assumes "q \<in> set ts" and "looks_after q e" and "looks_after (ts ! i) e \<Longrightarrow> looks_after p e" and "i < length ts"
  shows "\<exists>q' \<in> set (ts[i := p]). looks_after q' e"
proof -
  obtain k where k: "k < length ts" "ts ! k = q" using assms(1) by (auto simp: in_set_conv_nth)
  show ?thesis
  proof (cases "k = i")
    case True
    then show ?thesis using assms k by (intro bexI [of _ p]) (auto simp: set_update_memI)
  next
    case False
    then have "ts[i := p] ! k = q" "k < length (ts[i := p])" using k by simp_all
    then show ?thesis using assms(2) by (metis nth_mem)
  qed
qed

lemma board_ok_prune:
  assumes "board_ok s"
  shows "board_ok (prune_jobs now a s)"
proof (rule board_ok_fewer [OF assms _ _ _ prune_subset])
  show "distinct (map fst (bd_jobs (prune_jobs now a s)))" "distinct (map snd (bd_jobs (prune_jobs now a s)))"
    unfolding bd_jobs_prune using board_okD(1,2) [OF assms] by (auto intro: distinct_map_filter2)
qed (auto simp: serves_def)

lemma board_ok_admit: "board_ok s \<Longrightarrow> admit s = Inr s' \<Longrightarrow> board_ok s'"
  by (rule board_ok_fewer [of s])
    (auto simp: admit_def serves_def nth_append less_Suc_eq dest: board_okD(1,2) split: option.splits)

lemma board_ok_move:
  assumes ok: "board_ok s" and i: "i < length (bd_threads s)"
    and s': "bd_objects s' = bd_objects s" "bd_threads s' = (bd_threads s)[i := p]"
    and dist: "distinct (map fst (bd_jobs s'))" "distinct (map snd (bd_jobs s'))"
    and sub: "set (bd_jobs s') \<subseteq> set (bd_jobs s)"
    and job: "thread_job p = None \<or> thread_job p = thread_job (bd_threads s ! i)"
    and pass_on: "\<And>e. e \<in> set (bd_jobs s') \<Longrightarrow> looks_after (bd_threads s ! i) e \<Longrightarrow> looks_after p e"
  shows "board_ok s'"
proof (rule board_ok_fewer [OF ok s'(1) dist sub serves_update [OF s'(2) job]])
  show "\<exists>p' \<in> set (bd_threads s'). looks_after p' e"
    if "e \<in> set (bd_jobs s')" "q \<in> set (bd_threads s)" "looks_after q e" for e q
    unfolding s'(2) using looks_after_update [OF that(2,3) pass_on [OF that(1)] i] .
qed

lemma board_ok_release:
  assumes "board_ok s" and "i < length (bd_threads s)" and "bd_threads s ! i = Ending" and "release i s = Inr s'"
  shows "board_ok s'"
proof -
  have s': "bd_jobs s' = bd_jobs s" "bd_objects s' = bd_objects s" "bd_threads s' = (bd_threads s)[i := Gone]"
    using assms(4) by (auto simp: release_def map_sum_def split: sum.splits)
  show ?thesis
    by (rule board_ok_move [OF assms(1,2) s'(2,3)])
      (use s'(1) assms(3) board_okD(1,2) [OF assms(1)] in \<open>simp_all add: looks_after_def\<close>)
qed

lemma snd_dict_pop: "set (dict_pop k d) \<subseteq> set d" "distinct (map snd d) \<Longrightarrow> distinct (map snd (dict_pop k d))"
  "e \<in> set (dict_pop k d) \<Longrightarrow> fst e \<noteq> k"
  by (auto simp: dict_pop_def AList.delete_eq distinct_map_filter)

lemma board_ok_hand:
  assumes ok: "board_ok s" and i: "i < length (bd_threads s)" "bd_threads s ! i = Listed job_id r"
  shows "board_ok (hand_over i job_id r accepted s)"
proof (cases accepted)
  case True
  then show ?thesis unfolding hand_over_def if_P [OF True]
    by (intro board_ok_move [OF ok i(1), of _ "Working r"])
      (use i(2) board_okD(1,2) [OF ok] in \<open>auto simp: looks_after_def\<close>)
next
  case False
  then show ?thesis unfolding hand_over_def if_not_P [OF False]
    by (intro board_ok_move [OF ok i(1), of _ Ending])
      (use i(2) board_okD(1,2) [OF ok] in
        \<open>auto simp: looks_after_def dict_ok_def [symmetric] snd_dict_pop(2) dest: snd_dict_pop(3) subsetD [OF snd_dict_pop(1)]\<close>)
qed

lemma dict_set_fresh_ref:
  assumes "distinct (map snd d)" and "r \<notin> snd ` set d"
  shows "distinct (map snd (dict_set k r d))"
  using assms
proof (induction d)
  case (Cons e d)
  have "snd ` set (dict_set k r d) \<subseteq> insert r (snd ` set d)" using set_dict_set [of k r d] by fastforce
  with Cons show ?case by (cases e) (auto simp: dict_set_simps)
qed (simp add: dict_set_simps)

lemma board_ok_enlist:
  assumes ok: "board_ok s" and i: "i < length (bd_threads s)" "bd_threads s ! i = Admitted"
  shows "board_ok (enlist i job_id now s)"
proof -
  let ?p = "prune_jobs now 1800 s" and ?s = "enlist i job_id now s"
  let ?r = "length (bd_objects s)"
  have ok1: "board_ok ?p" using ok by (rule board_ok_prune)
  have s': "bd_objects ?s = bd_objects s @ [new_job now]" "bd_jobs ?s = dict_set job_id ?r (bd_jobs ?p)"
    "bd_threads ?s = (bd_threads s)[i := Listed job_id ?r]"
    by (simp_all add: enlist_def Let_def)
  have old: "e = (job_id, ?r) \<or> e \<in> set (bd_jobs ?p) \<and> snd e < ?r \<and> fst e \<noteq> job_id" if "e \<in> set (bd_jobs ?s)" for e
  proof -
    have ok2: "dict_ok (bd_jobs ?p)" using board_okD(1) [OF ok1] by (simp add: dict_ok_def)
    have "dict_get (dict_set job_id ?r (bd_jobs ?p)) (fst e) = Some (snd e)"
      using that ok2 dict_in_set_iff [of "dict_set job_id ?r (bd_jobs ?p)" "fst e" "snd e"] by (simp add: s'(2))
    then have "e = (job_id, ?r) \<or> fst e \<noteq> job_id \<and> (fst e, snd e) \<in> set (bd_jobs ?p)"
      by (auto split: if_splits dest: dict_get_in simp: prod_eq_iff)
    then show ?thesis using board_okD(3) [OF ok1, of e] by auto
  qed
  have srv: "k = i \<and> r = ?r \<or> k \<noteq> i \<and> serves s k r \<and> r < ?r" if "serves ?s k r" for k r
    using that board_ok_serves(1) [OF ok, of k r] i by (cases "k = i") (auto simp: serves_def s')
  show ?thesis
  proof (rule board_ok_intro)
    show "distinct (map fst (bd_jobs ?s))"
      unfolding s' using board_okD(1) [OF ok1] by (simp add: dict_ok_def [symmetric])
    show "distinct (map snd (bd_jobs ?s))"
      unfolding s' using board_okD(2,3) [OF ok1] by (intro dict_set_fresh_ref) force+
    show "snd e < length (bd_objects ?s)" if "e \<in> set (bd_jobs ?s)" for e
      using old [OF that] by (auto simp: s'(1))
    show "r < length (bd_objects ?s) \<and> jb_status (bd_objects ?s ! r) = Running"
      if "k < length (bd_threads ?s)" "thread_job (bd_threads ?s ! k) = Some r" for k r
      using srv [of k r] that board_ok_serves(2) [OF ok, of k r]
      by (auto simp: serves_def s'(1) nth_append new_job_def)
    show "k = j" if "k < length (bd_threads ?s)" "j < length (bd_threads ?s)"
      "thread_job (bd_threads ?s ! k) = Some r" "thread_job (bd_threads ?s ! j) = Some r" for k j r
      using srv [of k r] srv [of j r] that board_ok_serves(3) [OF ok, of k r j] by (auto simp: serves_def)
    show "\<exists>p \<in> set (bd_threads ?s). looks_after p e" if e: "e \<in> set (bd_jobs ?s)" "job_running (bd_objects ?s) e" for e
    proof -
      from old [OF e(1)] show ?thesis
      proof
        assume "e = (job_id, ?r)"
        then show ?thesis unfolding s'(3) using i(1)
          by (intro bexI [of _ "Listed job_id ?r"]) (auto simp: looks_after_def set_update_memI)
      next
        assume o: "e \<in> set (bd_jobs ?p) \<and> snd e < ?r \<and> fst e \<noteq> job_id"
        with e(2) have "job_running (bd_objects s) e" by (simp add: job_running_def s'(1) nth_append)
        with o board_okD(6) [OF ok1, of e] obtain q where "q \<in> set (bd_threads s)" "looks_after q e" by auto
        then show ?thesis unfolding s'(3) by (rule looks_after_update) (use i in \<open>simp_all add: looks_after_def\<close>)
      qed
    qed
  qed
qed

lemma board_ok_finish:
  assumes ok: "board_ok s" and i: "i < length (bd_threads s)" "bd_threads s ! i = Working r"
  shows "board_ok (finish i r now outcome s)"
proof -
  let ?s = "finish i r now outcome s"
  have s': "bd_jobs ?s = bd_jobs s" "bd_threads ?s = (bd_threads s)[i := Ending]"
    "bd_objects ?s = (bd_objects s)[r := job_end now outcome (bd_objects s ! r)]"
    by (simp_all add: finish_def)
  have me: "serves s i r" using i by (simp add: serves_def)
  have ended: "jb_status (job_end now outcome j) \<noteq> Running" for j
    by (simp add: job_end_def split: sum.split)
  have srv: "serves s k q \<and> q \<noteq> r" if "serves ?s k q" for k q
    using that board_ok_serves(3) [OF ok me, of k] by (cases "k = i") (auto simp: serves_def s')
  show ?thesis
  proof (rule board_ok_intro)
    show "q < length (bd_objects ?s) \<and> jb_status (bd_objects ?s ! q) = Running"
      if "k < length (bd_threads ?s)" "thread_job (bd_threads ?s ! k) = Some q" for k q
      using srv [of k q] that board_ok_serves(1,2) [OF ok, of k q] by (auto simp: serves_def s'(3))
    show "k = j" if "k < length (bd_threads ?s)" "j < length (bd_threads ?s)"
      "thread_job (bd_threads ?s ! k) = Some q" "thread_job (bd_threads ?s ! j) = Some q" for k j q
      using srv [of k q] srv [of j q] that board_ok_serves(3) [OF ok, of k q j] by (auto simp: serves_def)
    show "\<exists>p \<in> set (bd_threads ?s). looks_after p e" if e: "e \<in> set (bd_jobs ?s)" "job_running (bd_objects ?s) e" for e
    proof -
      have "snd e \<noteq> r" using e(2) ended board_ok_serves(1) [OF ok me] by (auto simp: job_running_def s'(3))
      then have "job_running (bd_objects s) e" using e(2) by (simp add: job_running_def s'(3))
      with e(1) board_okD(6) [OF ok, of e] obtain q where "q \<in> set (bd_threads s)" "looks_after q e" by (auto simp: s'(1))
      then show ?thesis unfolding s'(2)
        by (rule looks_after_update) (use i \<open>snd e \<noteq> r\<close> in \<open>simp_all add: looks_after_def\<close>)
    qed
  qed (use board_okD(1-3) [OF ok] in \<open>simp_all add: s'\<close>)
qed

lemma board_ok_step: "job_step s s' \<Longrightarrow> board_ok s \<Longrightarrow> board_ok s'"
  by (induction rule: job_step.induct)
    (blast intro: board_ok_admit board_ok_enlist board_ok_hand board_ok_finish board_ok_release board_ok_prune)+

lemma board_ok_reachable: "job_step\<^sup>*\<^sup>* new_board s \<Longrightarrow> board_ok s"
  by (induction rule: rtranclp_induct) (auto intro: board_ok_new board_ok_step)

section \<open>Bounds and the answers of a job\<close>

lemma running_jobs_held:
  assumes "board_ok s"
  shows "length (filter (job_running (bd_objects s)) (bd_jobs s)) \<le> job_holders s"
proof -
  let ?run = "filter (job_running (bd_objects s)) (bd_jobs s)"
  let ?busy = "filter (\<lambda>p. thread_job p \<noteq> None) (bd_threads s)"
  have "length ?run = card (snd ` set ?run)"
    using board_okD(2) [OF assms] distinct_card [of "map snd ?run"] by (simp add: distinct_map_filter)
  also have "snd ` set ?run \<subseteq> (the \<circ> thread_job) ` set ?busy"
  proof
    fix r assume "r \<in> snd ` set ?run"
    then obtain e where e: "r = snd e" "e \<in> set (bd_jobs s)" "job_running (bd_objects s) e" by auto
    with board_okD(6) [OF assms] obtain p where "p \<in> set (bd_threads s)" "looks_after p e" by blast
    with e(1) have "p \<in> set ?busy" "r = (the \<circ> thread_job) p" by (auto simp: looks_after_def)
    then show "r \<in> (the \<circ> thread_job) ` set ?busy" by blast
  qed
  then have "card (snd ` set ?run) \<le> card ((the \<circ> thread_job) ` set ?busy)" by (intro card_mono) simp_all
  also have "\<dots> \<le> length ?busy" by (meson card_image_le card_length finite_set order_trans)
  also have "\<dots> \<le> job_holders s"
    unfolding job_holders_def count_by_def [symmetric] by (rule count_by_mono) (auto simp: holds_slot_def)
  finally show ?thesis .
qed

lemma length_prune_bound:
  assumes "board_ok s" and "job_holders s \<le> 1024"
  shows "length (bd_jobs (prune_jobs now a s)) \<le> 1024"
  using length_prune [OF board_okD(1) [OF assms(1)], of now a] running_jobs_held [OF assms(1)] assms(2) by simp

lemma length_dict_set: "length (dict_set k v d) \<le> Suc (length d)"
  by (induction d) (auto simp: dict_set_simps)

lemma length_dict_pop: "length (dict_pop k d) \<le> length d"
  by (simp add: dict_pop_def AList.delete_eq)

lemma job_table_step:
  assumes "job_step s s'" and "board_ok s" and "job_holders s \<le> 1024" and "length (bd_jobs s) \<le> 1025"
  shows "length (bd_jobs s') \<le> 1025"
  using assms(1)
proof cases
  case (enlist i job_id now)
  have "length (bd_jobs s') \<le> Suc (length (bd_jobs (prune_jobs now 1800 s)))"
    by (simp add: enlist(1) enlist_def Let_def length_dict_set)
  then show ?thesis using length_prune_bound [OF assms(2,3), of now 1800] by simp
next
  case (prune now a)
  then show ?thesis using length_prune_bound [OF assms(2,3), of now a] by simp
qed (use assms(4) length_dict_pop [of _ "bd_jobs s"] in
      \<open>auto simp: admit_def hand_over_def finish_def release_def map_sum_def split: option.splits sum.splits intro: le_trans\<close>)

text \<open>C24: 
  However requests, workers and pruning interleave: the free slots and the threads that hold one make 64, no
  release fails, the running jobs in the table are at most the held slots, and the table never exceeds 1025 jobs.
\<close>

theorem job_slots_conserved:
  assumes "job_step\<^sup>*\<^sup>* new_board s"
  shows "bd_slots s + job_holders s = job_slots
    \<and> length (filter (job_running (bd_objects s)) (bd_jobs s)) \<le> job_holders s
    \<and> length (bd_jobs s) \<le> 1025
    \<and> (\<forall>i < length (bd_threads s). bd_threads s ! i = Ending \<longrightarrow> (\<exists>s'. release i s = Inr s'))"
proof (intro conjI allI impI)
  show "bd_slots s + job_holders s = job_slots" using assms by (rule job_slots.conserved)
  show "length (filter (job_running (bd_objects s)) (bd_jobs s)) \<le> job_holders s"
    by (rule running_jobs_held [OF board_ok_reachable [OF assms]])
  show "length (bd_jobs s) \<le> 1025"
    using assms
  proof (induction rule: rtranclp_induct)
    case (step s s')
    have "job_holders s \<le> 1024" using job_slots.holders_bounded [OF step(1)] by (simp add: job_slots_def)
    then show ?case using step.IH by (rule job_table_step [OF step(2) board_ok_reachable [OF step(1)]])
  qed (simp add: new_board_def)
  fix i assume i: "i < length (bd_threads s)" "bd_threads s ! i = Ending"
  have "0 < job_holders s" unfolding job_holders_def by (rule count_by_pos [OF i(1)]) (simp add: i(2) holds_slot_def)
  then show "\<exists>s'. release i s = Inr s'" using job_slots.release_accepted [OF assms] by (simp add: release_def)
qed

text \<open>
  Pruning removes only finished jobs, and of these one that is older than half an hour or, when more than 1024 jobs
  are left, one that is no younger than any finished job that stays.
\<close>

theorem pruning_removes_oldest:
  assumes "board_ok s" and "e \<in> set (bd_jobs s)" and "e \<notin> set (bd_jobs (prune_jobs now a s))"
  shows "\<not> job_running (bd_objects s) e
    \<and> (job_age (bd_objects s ! snd e) < now - a
      \<or> 1024 < length (kept_young now a s)
        \<and> (\<forall>e' \<in> set (bd_jobs (prune_jobs now a s)). job_running (bd_objects s) e'
              \<or> job_age (bd_objects s ! snd e) \<le> job_age (bd_objects s ! snd e')))"
proof
  let ?o = "bd_objects s" and ?y = "kept_young now a s"
  let ?c = "completed ?o ?y" and ?n = "length ?y - 1024" and ?age = "\<lambda>e. job_age (?o ! snd e)"
  have dist: "distinct (map fst (bd_jobs s))" by (rule board_okD(1) [OF assms(1)])
  then have dy: "distinct (map fst ?y)" by (rule distinct_map_filter2)
  show nr: "\<not> job_running ?o e" using prune_keeps_running [OF dist assms(2)] assms(3) by blast
  show "?age e < now - a \<or> 1024 < length ?y \<and> (\<forall>e' \<in> set (bd_jobs (prune_jobs now a s)). job_running ?o e' \<or> ?age e \<le> ?age e')"
  proof (cases "expired (now - a) ?o e")
    case True
    then show ?thesis by (simp add: expired_def Let_def)
  next
    case False
    with assms(2) have ey: "e \<in> set ?y" by simp
    with assms(3) have "fst e \<in> fst ` set (take ?n ?c)" by (simp add: bd_jobs_prune over_limit_completed)
    then obtain e1 where e1: "e1 \<in> set (take ?n ?c)" "fst e1 = fst e" by auto
    have inj: "inj_on fst (set ?y)" using dy by (simp add: distinct_map)
    have "e1 \<in> set ?y" by (rule subsetD [OF completed_facts(2) [OF dy] in_set_takeD [OF e1(1)]])
    from inj_onD [OF inj e1(2) this ey] e1(1) have et: "e \<in> set (take ?n ?c)" by simp
    then have full: "1024 < length ?y" by (cases ?n) auto
    have "?age e \<le> ?age e'" if e': "e' \<in> set (bd_jobs (prune_jobs now a s))" "\<not> job_running ?o e'" for e'
    proof -
      have "e' \<in> set ?c" using e' by (auto simp: bd_jobs_prune)
      moreover have "e' \<notin> set (take ?n ?c)" using e'(1) by (auto simp: bd_jobs_prune over_limit_completed)
      ultimately have "e' \<in> set (drop ?n ?c)" by (metis Un_iff append_take_drop_id set_append)
      moreover have "sorted (map ?age (take ?n ?c) @ map ?age (drop ?n ?c))"
        using completed_facts(3) [OF dy] by (simp flip: map_append)
      ultimately show ?thesis using et by (auto simp: sorted_append)
    qed
    with full show ?thesis by blast
  qed
qed

section \<open>What a request is answered\<close>

text \<open>A job that has no result yet, or never gets one, shows none.\<close>

definition results_honest :: "board \<Rightarrow> bool" where
  "results_honest s \<longleftrightarrow> (\<forall>j \<in> set (bd_objects s). jb_status j \<noteq> Job_Done \<longrightarrow> jb_result j = PNone)"

lemma results_honest_step:
  assumes "job_step s s'" and "board_ok s" and "results_honest s"
  shows "results_honest s'"
  using assms(1)
proof cases
  case (finish i r now outcome)
  then have "serves s i r" by (simp add: serves_def)
  from board_ok_serves(1,2) [OF assms(2) this] have r: "bd_objects s ! r \<in> set (bd_objects s)" "jb_status (bd_objects s ! r) = Running"
    by simp_all
  then have "jb_result (bd_objects s ! r) = PNone" using assms(3) by (simp add: results_honest_def)
  then have "jb_status j \<noteq> Job_Done \<longrightarrow> jb_result j = PNone" if "j = job_end now outcome (bd_objects s ! r)" for j
    using that by (simp add: job_end_def split: sum.split)
  with assms(3) show ?thesis
    unfolding finish(1) finish_def results_honest_def by (auto dest: set_update_subset_insert [THEN subsetD])
qed (use assms(3) in \<open>auto simp: results_honest_def enlist_def hand_over_def admit_def release_def map_sum_def new_job_def Let_def
      split: option.splits sum.splits\<close>)

lemma results_honest_reachable: "job_step\<^sup>*\<^sup>* new_board s \<Longrightarrow> results_honest s"
proof (induction rule: rtranclp_induct)
  case (step s s')
  then show ?case using results_honest_step board_ok_reachable by blast
qed (simp add: results_honest_def new_board_def)

text \<open>\<open>len(v)\<close>, and the sum that \<open>security_scan\<close> reports once its job runs no more.\<close>

fun py_len :: "pyval \<Rightarrow> exn + int" where
  "py_len (PStr s) = Inr (int (length s))"
| "py_len (PBytes s) = Inr (int (length s))"
| "py_len (PList vs) = Inr (int (length vs))"
| "py_len (PDict d) = Inr (int (length d))"
| "py_len _ = Inl TypeError"

fun sum_lens :: "pyval list \<Rightarrow> exn + int" where
  "sum_lens [] = Inr 0"
| "sum_lens (v # vs) = bind_sum (py_len v) (\<lambda>n. bind_sum (sum_lens vs) (\<lambda>m. Inr (n + m)))"

fun threats :: "pyval \<Rightarrow> exn + int" where
  "threats (PDict d) = sum_lens (map snd d)"
| "threats _ = Inr 0"

definition scan_alert :: "bool \<Rightarrow> int \<Rightarrow> string" where
  "scan_alert quick n =
     utf8 [208, 161, 208, 186, 208, 176, 208, 189, 32, 208, 183, 208, 176, 208, 178, 208, 181, 209, 128, 209,
      136, 209, 145, 208, 189, 58, 32, 209, 131, 208, 179, 209, 128, 208, 190, 208, 183, 32] @ string_of_int n @ '' (''
     @ (if quick then utf8 [208, 177, 209, 139, 209, 129, 209, 130, 209, 128, 209, 139, 208,
      185] else utf8 [208, 191, 208, 190, 208, 187, 208, 189, 209, 139, 208, 185]) @ '')''"

text \<open>One round of \<open>finalize\<close>: \<open>None\<close> while the job runs. A job that is not in the table has no result.\<close>

definition finalize_round :: "bool \<Rightarrow> string \<Rightarrow> board \<Rightarrow> (exn + string) option" where
  "finalize_round quick job_id s =
     (let answer = (\<lambda>res. Some (map_sum id (scan_alert quick) (threats (py_or res (PDict [])))))
      in case job_at job_id s of
           None \<Rightarrow> answer PNone
         | Some j \<Rightarrow> if jb_status j = Running then None else answer (jb_result j))"

text \<open>\<open>security_result\<close>: the answer to a question about a job.\<close>

definition status_text :: "job_status \<Rightarrow> string" where
  "status_text st = (case st of Running \<Rightarrow> ''running'' | Job_Done \<Rightarrow> ''done'' | Job_Error \<Rightarrow> ''error'')"

definition job_answer :: "string \<Rightarrow> board \<Rightarrow> (string, pyval) dict option" where
  "job_answer job_id s =
     map_option (\<lambda>j. [(''status'', PStr (status_text (jb_status j))), (''result'', jb_result j),
         (''error'', case jb_error j of None \<Rightarrow> PNone | Some m \<Rightarrow> PStr m)]) (job_at job_id s)"

lemma admit_Inr: "admit s = Inr s1 \<longleftrightarrow> (\<exists>n. bd_slots s = Suc n \<and> s1 = s\<lparr>bd_slots := n, bd_threads := bd_threads s @ [Admitted]\<rparr>)"
  by (auto simp: admit_def sem_acquire_def split: if_splits intro: exI [of _ "bd_slots s - 1"])

lemma submit_job_run: "job_step\<^sup>*\<^sup>* s (snd (submit_job now job_id accepted s))"
proof (cases "bd_slots s")
  case 0
  then show ?thesis by (simp add: submit_job_def admit_def sem_acquire_def)
next
  case (Suc n)
  let ?i = "length (bd_threads s)" and ?r = "length (bd_objects s)"
  let ?s1 = "s\<lparr>bd_slots := n, bd_threads := bd_threads s @ [Admitted]\<rparr>"
  let ?s2 = "enlist ?i job_id now ?s1" and ?s3 = "hand_over ?i job_id ?r accepted (enlist ?i job_id now ?s1)"
  have a: "admit s = Inr ?s1" using Suc by (simp add: admit_Inr)
  have t2: "bd_threads ?s2 = bd_threads s @ [Listed job_id ?r]" by (simp add: enlist_def Let_def)
  have t3: "bd_threads ?s3 = bd_threads s @ [if accepted then Working ?r else Ending]" by (simp add: hand_over_def t2)
  have "job_step s ?s1" using a by (rule job_step.admit)
  moreover have "job_step ?s1 ?s2" by (rule job_step.enlist) simp_all
  moreover have "job_step ?s2 ?s3" by (rule job_step.hand) (simp_all add: t2)
  ultimately have run: "job_step\<^sup>*\<^sup>* s ?s3"
    by (rule converse_rtranclp_into_rtranclp [OF _ converse_rtranclp_into_rtranclp [OF _ r_into_rtranclp]])
  show ?thesis
  proof (cases "accepted \<or> (\<exists>e. release ?i ?s3 = Inl e)")
    case True
    then show ?thesis using run a by (auto simp: submit_job_def Let_def)
  next
    case False
    then obtain s' where s': "release ?i ?s3 = Inr s'" by (cases "release ?i ?s3") auto
    then have "snd (submit_job now job_id accepted s) = s'" using False a by (simp add: submit_job_def Let_def)
    moreover have "bd_threads ?s3 = bd_threads s @ [Ending]" unfolding t3 using False by simp
    then have "job_step ?s3 s'"
      using s' by (intro job_step.release [of ?i]) (simp_all only: nth_append_length length_append, simp_all)
    ultimately show ?thesis using run by (auto intro: rtranclp.rtrancl_into_rtrancl)
  qed
qed

text \<open>Apart from its own job, a submission only prunes the table.\<close>

lemma prune_jobs_only_table:
  "bd_jobs (prune_jobs now a (s\<lparr>bd_slots := n, bd_threads := ts\<rparr>)) = bd_jobs (prune_jobs now a s)"
  by (simp add: prune_jobs_def Let_def)

lemma submit_job_others:
  assumes "board_ok s" "0 < bd_slots s" "j \<noteq> job_id"
  shows "job_at j (snd (submit_job now job_id accepted s)) = job_at j (prune_jobs now 1800 s)"
proof -
  let ?d = "bd_jobs (prune_jobs now 1800 s)" and ?s' = "snd (submit_job now job_id accepted s)"
  from assms(2) obtain n where n: "bd_slots s = Suc n" by (cases "bd_slots s") auto
  have "dict_get (bd_jobs ?s') j = dict_get ?d j \<and> bd_objects ?s' = bd_objects s @ [new_job now]"
    using assms(3) n
    by (simp add: submit_job_def Let_def admit_def sem_acquire_def release_def sem_release_def hand_over_def enlist_def
        move_def prune_jobs_only_table split: option.split)
  moreover have "r < length (bd_objects s)" if "dict_get ?d j = Some r" for r
    using dict_get_in [OF that] board_okD(3) [OF assms(1)] prune_subset [of now 1800 s] by fastforce
  ultimately show ?thesis
    by (cases "dict_get ?d j") (simp_all add: job_at_def nth_append)
qed

text \<open>C37: \<open>submit_job\<close> is one run of the steps. Without a free slot it raises and changes nothing. Otherwise it first
  prunes the table, and what it does to the other jobs is only that. When the workers refuse the job, every slot is
  free that was and the job is not in the table; when they take it, the job is in the table as running, and what its
  function returns or raises is what the table shows when it ends.\<close>

theorem submit_job_refines_steps:
  assumes reach: "job_step\<^sup>*\<^sup>* new_board s" and sub: "submit_job now job_id accepted s = (ans, s')"
  shows "job_step\<^sup>*\<^sup>* s s'
    \<and> (bd_slots s = 0 \<longrightarrow> (\<exists>m. ans = Inl (ServiceError ''JobCapacityError'' m)) \<and> s' = s)
    \<and> (0 < bd_slots s \<longrightarrow> (\<forall>j. j \<noteq> job_id \<longrightarrow> job_at j s' = job_at j (prune_jobs now 1800 s)))
    \<and> (0 < bd_slots s \<and> \<not> accepted \<longrightarrow> ans = Inl (PyException ''refused'') \<and> bd_slots s' = bd_slots s \<and> job_at job_id s' = None)
    \<and> (0 < bd_slots s \<and> accepted \<longrightarrow> ans = Inr job_id \<and> job_at job_id s' = Some (new_job now)
      \<and> job_at job_id (finish (length (bd_threads s)) (length (bd_objects s)) later outcome s') = Some (job_end later outcome (new_job now)))"
proof (intro conjI)
  have full: "bd_slots s \<le> job_slots" using job_slots.conserved [OF reach] by simp
  show "job_step\<^sup>*\<^sup>* s s'" using submit_job_run [of s now job_id accepted] sub by simp
  show "bd_slots s = 0 \<longrightarrow> (\<exists>m. ans = Inl (ServiceError ''JobCapacityError'' m)) \<and> s' = s"
    using sub by (auto simp: submit_job_def admit_def sem_acquire_def)
  show "0 < bd_slots s \<longrightarrow> (\<forall>j. j \<noteq> job_id \<longrightarrow> job_at j s' = job_at j (prune_jobs now 1800 s))"
    using submit_job_others [OF board_ok_reachable [OF reach]] sub by (metis snd_conv)
  show "0 < bd_slots s \<and> \<not> accepted \<longrightarrow> ans = Inl (PyException ''refused'') \<and> bd_slots s' = bd_slots s \<and> job_at job_id s' = None"
    using sub full
    by (auto simp: submit_job_def Let_def admit_def sem_acquire_def release_def sem_release_def hand_over_def enlist_def job_at_def
        split: if_splits)
  show "0 < bd_slots s \<and> accepted \<longrightarrow> ans = Inr job_id \<and> job_at job_id s' = Some (new_job now)
      \<and> job_at job_id (finish (length (bd_threads s)) (length (bd_objects s)) later outcome s') = Some (job_end later outcome (new_job now))"
    using sub by (auto simp: submit_job_def Let_def admit_def sem_acquire_def hand_over_def enlist_def job_at_def finish_def nth_append)
qed

theorem submit_job_refines_steps_witness:
  "job_at ''a1'' (finish 0 0 9 (Inl ''boom'') (snd (submit_job 5 ''a1'' True new_board))) = Some (job_end 9 (Inl ''boom'') (new_job 5))
   \<and> bd_slots (snd (submit_job 5 ''a1'' False new_board)) = job_slots"
proof
  note at_start = submit_job_refines_steps [OF rtranclp.rtrancl_refl prod.collapse [symmetric]]
  have slots: "bd_slots new_board = 64" "bd_threads new_board = []" "bd_objects new_board = []"
    by (simp_all add: new_board_def job_slots_def)
  show "job_at ''a1'' (finish 0 0 9 (Inl ''boom'') (snd (submit_job 5 ''a1'' True new_board))) = Some (job_end 9 (Inl ''boom'') (new_job 5))"
    using at_start [of 5 "''a1''" True 9 "Inl ''boom''"] by (simp add: slots)
  show "bd_slots (snd (submit_job 5 ''a1'' False new_board)) = job_slots"
    using at_start [of 5 "''a1''" False 9 "Inl ''boom''"] by (simp add: slots job_slots_def)
qed

definition ex_board :: board where
  "ex_board = finish 0 0 6 (Inl ''boom'') (snd (submit_job 5 ''a1'' True new_board))"

lemma ex_board_reachable: "job_step\<^sup>*\<^sup>* new_board ex_board"
proof -
  have "bd_threads (snd (submit_job 5 ''a1'' True new_board)) = [Working 0]" by code_simp
  then have "job_step (snd (submit_job 5 ''a1'' True new_board)) ex_board"
    unfolding ex_board_def by (intro job_step.finish) simp_all
  then show ?thesis using submit_job_run [of new_board 5 "''a1''" True] by (rule rtranclp.rtrancl_into_rtrancl [rotated])
qed

theorem job_slots_conserved_witness:
  "bd_slots ex_board + job_holders ex_board = job_slots \<and> bd_slots ex_board = 63 \<and> (\<exists>s. release 0 ex_board = Inr s)"
proof -
  have "bd_slots ex_board = 63" "bd_threads ex_board = [Ending]" by code_simp+
  then show ?thesis using job_slots_conserved [OF ex_board_reachable] by simp
qed

theorem pruning_removes_oldest_witness:
  "job_age (bd_objects ex_board ! 0) < 1807 - 1800 \<and> bd_jobs ex_board = [(''a1'', 0)] \<and> bd_jobs (prune_jobs 1807 1800 ex_board) = []"
proof -
  have e: "bd_jobs ex_board = [(''a1'', 0)]" "bd_jobs (prune_jobs 1807 1800 ex_board) = []"
    "length (kept_young 1807 1800 ex_board) = 0"
    by code_simp+
  then show ?thesis
    using pruning_removes_oldest [OF board_ok_reachable [OF ex_board_reachable], of "(''a1'', 0)" 1807 1800] by simp
qed

text \<open>
  A security scan that fails is announced as one that found nothing: as soon as its job has raised, the alert
  counts no threats.
\<close>

theorem failed_scan_reports_clean:
  assumes "job_step\<^sup>*\<^sup>* new_board s" and "i < length (bd_threads s)" and "bd_threads s ! i = Working r"
    and "dict_get (bd_jobs s) job_id = Some r"
  shows "finalize_round quick job_id s = None
    \<and> finalize_round quick job_id (finish i r now (Inl msg) s) = Some (Inr (scan_alert quick 0))
    \<and> finalize_round quick job_id (finish i r now (Inr (PDict [])) s) = Some (Inr (scan_alert quick 0))"
proof -
  have "serves s i r" using assms(2,3) by (simp add: serves_def)
  note job = board_ok_serves(1,2) [OF board_ok_reachable [OF assms(1)] this]
  then have "jb_result (bd_objects s ! r) = PNone"
    using results_honest_reachable [OF assms(1)] by (simp add: results_honest_def)
  with job assms(4) show ?thesis
    by (simp add: finalize_round_def job_at_def finish_def job_end_def py_or_def)
qed

theorem failed_scan_reports_clean_witness:
  "finalize_round True ''a1'' (finish 0 0 6 (Inl ''boom'') (snd (submit_job 5 ''a1'' True new_board))) = Some (Inr (scan_alert True 0))"
proof -
  have "bd_threads (snd (submit_job 5 ''a1'' True new_board)) = [Working 0]"
    "dict_get (bd_jobs (snd (submit_job 5 ''a1'' True new_board))) ''a1'' = Some 0"
    by code_simp+
  then show ?thesis using failed_scan_reports_clean [OF submit_job_run, of 0 5 "''a1''" True 0 "''a1''" True 6 "''boom''"] by simp
qed

end
