(* ===== verification/Database.thy ===== *)
theory Database
  imports Inventory Slot_Pool "HOL-Library.Multiset"
begin

text \<open>
  The database of the monitor: \<open>core/database.py\<close>. Threads borrow connections from a queue of bounded length, replace broken ones,
  and give them back unless the manager has been closed meanwhile; \<open>execute\<close> tries a query again while the database is locked and never
  raises; \<open>cleanup_old_records\<close> deletes old rows. Connections are numbers, what SQLite answers is an argument of each step, and the
  steps of a borrowing thread are those between which other threads can run.
\<close>

section \<open>Connections\<close>

text \<open>
  \<open>Waiting\<close> has passed the test of \<open>_closed\<close>, \<open>Probing c\<close> has a connection, \<open>Using c\<close> has yielded it, \<open>Giving c\<close> is in the \<open>finally\<close>
  block, \<open>Broken c\<close> is there with a connection that is closed already.
\<close>

datatype borrow_phase = Waiting | Probing nat | Using nat | Giving nat | Broken nat | Finished

record db_pool =
  dp_queue :: "nat list"
  dp_max :: nat
  dp_closed :: bool
  dp_open :: "nat list"
  dp_next :: nat
  dp_threads :: "borrow_phase list"

text \<open>\<open>__init__\<close> and \<open>_create_connection\<close>: for each place, whether SQLite opens a connection.\<close>

definition create_connection :: "db_pool \<Rightarrow> nat \<times> db_pool" where
  "create_connection s = (dp_next s, s\<lparr>dp_open := dp_open s @ [dp_next s], dp_next := Suc (dp_next s)\<rparr>)"

fun fill_pool :: "bool list \<Rightarrow> db_pool \<Rightarrow> db_pool" where
  "fill_pool [] s = s"
| "fill_pool (ok # oks) s =
     fill_pool oks (if ok then (let (c, s') = create_connection s in s'\<lparr>dp_queue := dp_queue s' @ [c]\<rparr>) else s)"

definition new_pool :: "bool list \<Rightarrow> exn + db_pool" where
  "new_pool oks =
     (if length oks < 1 then Inl ValueError
      else Inr (fill_pool oks \<lparr>dp_queue = [], dp_max = length oks, dp_closed = False, dp_open = [], dp_next = 0, dp_threads = []\<rparr>))"

definition close_connection :: "nat \<Rightarrow> db_pool \<Rightarrow> db_pool" where
  "close_connection c s = s\<lparr>dp_open := filter (\<lambda>d. d \<noteq> c) (dp_open s)\<rparr>"

definition at_phase :: "nat \<Rightarrow> borrow_phase \<Rightarrow> db_pool \<Rightarrow> db_pool" where
  "at_phase i p s = s\<lparr>dp_threads := (dp_threads s)[i := p]\<rparr>"

text \<open>The beginning of \<open>connection\<close>, which raises on a closed manager.\<close>

definition borrow :: "db_pool \<Rightarrow> exn + db_pool" where
  "borrow s = (if dp_closed s then Inl (ServiceError ''RuntimeError'' []) else Inr (s\<lparr>dp_threads := dp_threads s @ [Waiting]\<rparr>))"

text \<open>\<open>_pool.get\<close>, or a temporary connection when the queue stays empty.\<close>

definition borrow_connection :: "nat \<Rightarrow> bool \<Rightarrow> db_pool \<Rightarrow> db_pool" where
  "borrow_connection i opens s =
     (case dp_queue s of
        c # cs \<Rightarrow> at_phase i (Probing c) (s\<lparr>dp_queue := cs\<rparr>)
      | [] \<Rightarrow> if opens then (let (c, s') = create_connection s in at_phase i (Probing c) s') else at_phase i Finished s)"

text \<open>\<open>SELECT 1\<close>; a broken connection is closed and replaced.\<close>

definition probe :: "nat \<Rightarrow> nat \<Rightarrow> bool \<Rightarrow> bool \<Rightarrow> db_pool \<Rightarrow> db_pool" where
  "probe i c alive opens s =
     (if alive then at_phase i (Using c) s
      else let s1 = close_connection c s
           in if opens then (let (d, s2) = create_connection s1 in at_phase i (Using d) s2) else at_phase i (Broken c) s1)"

definition end_use :: "nat \<Rightarrow> nat \<Rightarrow> db_pool \<Rightarrow> db_pool" where
  "end_use i c s = at_phase i (Giving c) s"

text \<open>The \<open>finally\<close> block: the return to the queue and \<open>close\<close> exclude each other.\<close>

definition give_back :: "nat \<Rightarrow> nat \<Rightarrow> bool \<Rightarrow> db_pool \<Rightarrow> db_pool" where
  "give_back i c rolled_back s =
     at_phase i Finished
       (if rolled_back \<and> \<not> dp_closed s \<and> length (dp_queue s) < dp_max s then s\<lparr>dp_queue := dp_queue s @ [c]\<rparr> else close_connection c s)"

definition close_pool :: "db_pool \<Rightarrow> db_pool" where
  "close_pool s =
     (if dp_closed s then s
      else (fold close_connection (dp_queue s) s)\<lparr>dp_closed := True, dp_queue := []\<rparr>)"

inductive db_step :: "db_pool \<Rightarrow> db_pool \<Rightarrow> bool" where
  borrow: "borrow s = Inr s' \<Longrightarrow> db_step s s'"
| "take": "i < length (dp_threads s) \<Longrightarrow> dp_threads s ! i = Waiting \<Longrightarrow> db_step s (borrow_connection i opens s)"
| probe: "i < length (dp_threads s) \<Longrightarrow> dp_threads s ! i = Probing c \<Longrightarrow> db_step s (probe i c alive opens s)"
| end_use: "i < length (dp_threads s) \<Longrightarrow> dp_threads s ! i = Using c \<Longrightarrow> db_step s (end_use i c s)"
| give: "i < length (dp_threads s) \<Longrightarrow> dp_threads s ! i = Giving c \<Longrightarrow> db_step s (give_back i c rolled_back s)"
| give_broken: "i < length (dp_threads s) \<Longrightarrow> dp_threads s ! i = Broken c \<Longrightarrow> db_step s (give_back i c False s)"
| close: "db_step s (close_pool s)"

text \<open>The connections of the threads.\<close>

fun held :: "borrow_phase \<Rightarrow> nat list" where
  "held (Probing c) = [c]"
| "held (Using c) = [c]"
| "held (Giving c) = [c]"
| "held _ = []"

definition held_all :: "db_pool \<Rightarrow> nat list" where
  "held_all s = concat (map held (dp_threads s))"

text \<open>
  Every open connection is in the queue or with exactly one thread; the queue has at most \<open>pool_size\<close>, and none once it is closed. A
  thread whose connection broke holds a number that nothing else will have.
\<close>

definition pool_ok :: "db_pool \<Rightarrow> bool" where
  "pool_ok s \<longleftrightarrow>
     mset (dp_open s) = mset (dp_queue s) + mset (held_all s) \<and> distinct (dp_open s)
     \<and> (\<forall>c \<in> set (dp_open s). c < dp_next s)
     \<and> (\<forall>c. Broken c \<in> set (dp_threads s) \<longrightarrow> c < dp_next s \<and> c \<notin> set (dp_open s))
     \<and> length (dp_queue s) \<le> dp_max s \<and> (dp_closed s \<longrightarrow> dp_queue s = [])"

lemma held_update:
  assumes "i < length ps"
  shows "mset (concat (map held (ps[i := p]))) + mset (held (ps ! i)) = mset (concat (map held ps)) + mset (held p)"
  using assms by (induction ps arbitrary: i) (auto split: nat.splits simp: ac_simps)

lemma held_all_at_phase:
  assumes "i < length (dp_threads s)" and "dp_threads s ! i = q"
  shows "mset (held_all (at_phase i p s)) + mset (held q) = mset (held_all s) + mset (held p)"
  using held_update [OF assms(1), of p] assms(2) by (simp add: held_all_def at_phase_def)

lemma held_all_cong: "dp_threads s' = dp_threads s \<Longrightarrow> held_all s' = held_all s"
  by (simp add: held_all_def)

lemma create_connection_frame [simp]:
  "fst (create_connection s) = dp_next s" "dp_open (snd (create_connection s)) = dp_open s @ [dp_next s]"
  "dp_queue (snd (create_connection s)) = dp_queue s" "dp_max (snd (create_connection s)) = dp_max s"
  "dp_closed (snd (create_connection s)) = dp_closed s" "dp_next (snd (create_connection s)) = Suc (dp_next s)"
  "dp_threads (snd (create_connection s)) = dp_threads s"
  by (simp_all add: create_connection_def)

lemma close_connection_frame [simp]:
  "dp_queue (close_connection c s) = dp_queue s" "dp_max (close_connection c s) = dp_max s"
  "dp_closed (close_connection c s) = dp_closed s" "dp_next (close_connection c s) = dp_next s"
  "dp_threads (close_connection c s) = dp_threads s" "dp_open (close_connection c s) = filter (\<lambda>d. d \<noteq> c) (dp_open s)"
  by (simp_all add: close_connection_def)

lemma at_phase_frame [simp]:
  "dp_queue (at_phase i p s) = dp_queue s" "dp_max (at_phase i p s) = dp_max s" "dp_closed (at_phase i p s) = dp_closed s"
  "dp_next (at_phase i p s) = dp_next s" "dp_open (at_phase i p s) = dp_open s"
  "dp_threads (at_phase i p s) = (dp_threads s)[i := p]"
  by (simp_all add: at_phase_def)

lemma mset_put_back: "distinct xs \<Longrightarrow> c \<in> set xs \<Longrightarrow> add_mset c (mset (filter (\<lambda>d. d \<noteq> c) xs)) = mset xs"
proof (induction xs)
  case (Cons x xs)
  show ?case
  proof (cases "x = c")
    case True
    with Cons.prems have "filter (\<lambda>d. d \<noteq> c) xs = xs" by (auto simp: filter_id_conv)
    with True show ?thesis by (simp del: mset_filter)
  next
    case False
    with Cons show ?thesis by (simp del: mset_filter add: add_mset_commute)
  qed
qed simp

text \<open>The general step: thread \<open>i\<close> changes its phase, connections move accordingly.\<close>

lemma pool_ok_move:
  assumes ok: "pool_ok s" and i: "i < length (dp_threads s)" "dp_threads s ! i = q"
    and th: "dp_threads s' = (dp_threads s)[i := p]"
    and bal: "mset (dp_open s') + mset (dp_queue s) + mset (held q) = mset (dp_open s) + mset (dp_queue s') + mset (held p)"
    and dist: "distinct (dp_open s')" and nxt: "dp_next s \<le> dp_next s'"
    and opn: "\<And>c. c \<in> set (dp_open s') \<Longrightarrow> c \<in> set (dp_open s) \<or> dp_next s \<le> c \<and> c < dp_next s'"
    and brk: "\<And>c. p = Broken c \<Longrightarrow> c < dp_next s \<and> c \<notin> set (dp_open s')"
    and len: "length (dp_queue s') \<le> dp_max s'" and cl: "dp_closed s' \<longrightarrow> dp_queue s' = []"
  shows "pool_ok s'"
proof -
  have "mset (held_all s') + mset (held q) = mset (held_all s) + mset (held p)"
    using held_update [OF i(1), of p] i(2) by (simp add: held_all_def th)
  moreover have "mset (dp_open s) = mset (dp_queue s) + mset (held_all s)" using ok by (simp add: pool_ok_def)
  ultimately have "mset (dp_open s') + mset (dp_queue s) + mset (held q) = mset (dp_queue s') + mset (held_all s') + (mset (dp_queue s) + mset (held q))"
    using bal by (simp add: ac_simps)
  then have "mset (dp_open s') = mset (dp_queue s') + mset (held_all s')" by (simp add: add.assoc)
  moreover have "c < dp_next s'" if "c \<in> set (dp_open s')" for c
    using opn [OF that] ok nxt by (fastforce simp: pool_ok_def)
  moreover have "c < dp_next s' \<and> c \<notin> set (dp_open s')" if "Broken c \<in> set (dp_threads s')" for c
  proof -
    have "c < dp_next s \<and> c \<notin> set (dp_open s')"
    proof (cases "Broken c = p")
      case True
      then show ?thesis using brk [of c] by simp
    next
      case False
      then have "Broken c \<in> set (dp_threads s)"
        using that set_update_subset_insert [of "dp_threads s" i p] by (auto simp: th)
      then show ?thesis using ok opn [of c] by (fastforce simp: pool_ok_def)
    qed
    then show ?thesis using nxt by simp
  qed
  ultimately show ?thesis using dist len cl by (simp add: pool_ok_def)
qed

lemma pool_okD:
  assumes "pool_ok s"
  shows "mset (dp_open s) = mset (dp_queue s) + mset (held_all s)" and "distinct (dp_open s)"
    and "c \<in> set (dp_open s) \<Longrightarrow> c < dp_next s" and "length (dp_queue s) \<le> dp_max s" and "dp_closed s \<Longrightarrow> dp_queue s = []"
    and "Broken c \<in> set (dp_threads s) \<Longrightarrow> c < dp_next s \<and> c \<notin> set (dp_open s)"
  using assms unfolding pool_ok_def by blast+

lemma held_open:
  assumes "pool_ok s" and "i < length (dp_threads s)" and "c \<in> set (held (dp_threads s ! i))"
  shows "c \<in> set (dp_open s)"
proof -
  have "c \<in> set (held_all s)" using assms(2,3) by (auto simp: held_all_def)
  then show ?thesis using arg_cong [OF pool_okD(1) [OF assms(1)], of set_mset] by auto
qed

lemma pool_ok_probe:
  assumes ok: "pool_ok s" and i: "i < length (dp_threads s)" "dp_threads s ! i = Probing c"
  shows "pool_ok (probe i c alive opens s)"
proof -
  have c: "c \<in> set (dp_open s)" by (rule held_open [OF ok i(1)]) (simp add: i(2))
  note facts = pool_okD(2,4,5) [OF ok] pool_okD(3) [OF ok]
  have gone: "add_mset c (mset (filter (\<lambda>d. d \<noteq> c) (dp_open s))) = mset (dp_open s)"
    by (rule mset_put_back [OF facts(1) c])
  consider "alive" | "\<not> alive" "opens" | "\<not> alive" "\<not> opens" by blast
  then show ?thesis
  proof cases
    case 1
    then show ?thesis
      by (intro pool_ok_move [OF ok i, of _ "Using c"]) (use facts in \<open>auto simp: probe_def\<close>)
  next
    case 2
    have fresh: "dp_next s \<notin> set (dp_open s)" using facts(4) by blast
    from 2 show ?thesis
      by (intro pool_ok_move [OF ok i, of _ "Using (dp_next s)"])
        (use facts fresh gone in \<open>auto simp: probe_def case_prod_unfold Let_def ac_simps\<close>)
  next
    case 3
    then show ?thesis
      by (intro pool_ok_move [OF ok i, of _ "Broken c"]) (use facts c gone in \<open>auto simp: probe_def Let_def ac_simps\<close>)
  qed
qed

lemma pool_ok_take:
  assumes ok: "pool_ok s" and i: "i < length (dp_threads s)" "dp_threads s ! i = Waiting"
  shows "pool_ok (borrow_connection i opens s)"
proof (cases "dp_queue s")
  case (Cons c cs)
  then show ?thesis
    by (intro pool_ok_move [OF ok i, of _ "Probing c"])
      (use pool_okD(2,4,5) [OF ok] in \<open>auto simp: borrow_connection_def\<close>)
next
  case Nil
  have fresh: "dp_next s \<notin> set (dp_open s)" using pool_okD(3) [OF ok] by blast
  show ?thesis
  proof (cases opens)
    case True
    then show ?thesis using Nil
      by (intro pool_ok_move [OF ok i, of _ "Probing (dp_next s)"])
        (use pool_okD(2,4,5) [OF ok] fresh in \<open>auto simp: borrow_connection_def case_prod_unfold Let_def\<close>)
  next
    case False
    then show ?thesis using Nil
      by (intro pool_ok_move [OF ok i, of _ Finished]) (use pool_okD(2,4,5) [OF ok] in \<open>auto simp: borrow_connection_def\<close>)
  qed
qed

lemma pool_ok_give:
  assumes ok: "pool_ok s" and i: "i < length (dp_threads s)" "dp_threads s ! i = Giving c \<or> dp_threads s ! i = Broken c \<and> \<not> rb"
  shows "pool_ok (give_back i c rb s)"
proof -
  note facts = pool_okD(2,4,5) [OF ok]
  from i(2) show ?thesis
  proof
    assume q: "dp_threads s ! i = Giving c"
    have "c \<in> set (dp_open s)" by (rule held_open [OF ok i(1)]) (simp add: q)
    from mset_put_back [OF facts(1) this]
    have "add_mset c (mset (filter (\<lambda>d. d \<noteq> c) (dp_open s))) = mset (dp_open s)" .
    then show ?thesis
      by (intro pool_ok_move [OF ok i(1) q, of _ Finished]) (use facts in \<open>auto simp: give_back_def ac_simps\<close>)
  next
    assume q: "dp_threads s ! i = Broken c \<and> \<not> rb"
    then have "c \<notin> set (dp_open s)" using pool_okD(6) [OF ok, of c] i(1) nth_mem by metis
    then have "filter (\<lambda>d. d \<noteq> c) (dp_open s) = dp_open s" by (auto simp: filter_id_conv)
    then show ?thesis
      by (intro pool_ok_move [OF ok i(1) conjunct1 [OF q], of _ Finished]) (use facts q in \<open>auto simp: give_back_def\<close>)
  qed
qed

lemma fold_close_connection:
  "dp_open (fold close_connection cs s) = filter (\<lambda>d. d \<notin> set cs) (dp_open s)"
  "dp_next (fold close_connection cs s) = dp_next s" "dp_threads (fold close_connection cs s) = dp_threads s"
  "dp_max (fold close_connection cs s) = dp_max s"
  by (induction cs arbitrary: s) (auto intro: filter_cong)

lemma pool_ok_close:
  assumes ok: "pool_ok s"
  shows "pool_ok (close_pool s)"
proof (cases "dp_closed s")
  case False
  let ?q = "dp_queue s"
  have "distinct (?q @ held_all s)"
    using pool_okD(1,2) [OF ok] by (metis mset_append mset_eq_imp_distinct_iff)
  then have "filter_mset (\<lambda>d. d \<notin> set ?q) (mset (held_all s)) = mset (held_all s)"
    by (auto simp: filter_mset_eq_conv)
  moreover have "mset (filter (\<lambda>d. d \<notin> set ?q) ?q) = {#}" by (simp add: filter_empty_conv del: mset_filter)
  ultimately have "mset (filter (\<lambda>d. d \<notin> set ?q) (dp_open s)) = mset (held_all s)"
    using pool_okD(1) [OF ok] by simp
  then show ?thesis
    using False pool_okD(2) [OF ok] pool_okD(3,6) [OF ok]
    by (auto simp: close_pool_def pool_ok_def fold_close_connection held_all_def)
qed (simp add: close_pool_def ok)

lemma pool_ok_step: "db_step s s' \<Longrightarrow> pool_ok s \<Longrightarrow> pool_ok s'"
proof (induction rule: db_step.induct)
  case (borrow s s')
  then show ?case by (auto simp: borrow_def pool_ok_def held_all_def split: if_splits)
next
  case (end_use i s c)
  then show ?case
    by (intro pool_ok_move [OF end_use(3,1,2), of _ "Giving c"]) (use pool_okD(2,4,5) [OF end_use(3)] in \<open>auto simp: end_use_def\<close>)
qed (auto intro: pool_ok_take pool_ok_probe pool_ok_give pool_ok_close)

lemma pool_ok_fill: "pool_ok s \<Longrightarrow> \<not> dp_closed s \<Longrightarrow> length (dp_queue s) + length oks \<le> dp_max s \<Longrightarrow> pool_ok (fill_pool oks s)"
proof (induction oks arbitrary: s)
  case (Cons ok oks)
  have "dp_next s \<notin> set (dp_open s)" using pool_okD(3) [OF Cons.prems(1)] by blast
  then have "pool_ok (let (c, s') = create_connection s in s'\<lparr>dp_queue := dp_queue s' @ [c]\<rparr>)"
    using Cons.prems by (auto simp: pool_ok_def case_prod_unfold Let_def held_all_def dest: less_SucI)
  then show ?case using Cons by (auto simp: case_prod_unfold Let_def)
qed simp

lemma pool_ok_new: "new_pool oks = Inr s \<Longrightarrow> pool_ok s"
  unfolding new_pool_def by (auto split: if_splits intro!: pool_ok_fill) (simp add: pool_ok_def held_all_def)

lemma pool_ok_run: "db_step\<^sup>*\<^sup>* s s' \<Longrightarrow> pool_ok s \<Longrightarrow> pool_ok s'"
  by (induction rule: rtranclp_induct) (auto intro: pool_ok_step)

text \<open>C29: 
  However threads borrow, lose and return connections while the manager is closed: no connection is with two threads or with one
  and the queue, the queue never exceeds its size, and once the manager is closed and every thread has finished none is open.
\<close>

theorem no_connection_leaks:
  assumes "new_pool oks = Inr s0" and "db_step\<^sup>*\<^sup>* s0 s"
  shows "distinct (dp_queue s @ held_all s) \<and> set (dp_open s) = set (dp_queue s) \<union> set (held_all s)
    \<and> length (dp_queue s) \<le> dp_max s
    \<and> (dp_closed s \<and> (\<forall>p \<in> set (dp_threads s). p = Finished) \<longrightarrow> dp_open s = [])"
proof -
  have ok: "pool_ok s" by (rule pool_ok_run [OF assms(2) pool_ok_new [OF assms(1)]])
  have bal: "mset (dp_open s) = mset (dp_queue s @ held_all s)" using pool_okD(1) [OF ok] by simp
  have "distinct (dp_queue s @ held_all s)" using mset_eq_imp_distinct_iff [OF bal] pool_okD(2) [OF ok] by blast
  moreover have "set (dp_open s) = set (dp_queue s) \<union> set (held_all s)" using mset_eq_setD [OF bal] by simp
  moreover have "dp_open s = []" if "dp_closed s" "\<forall>p \<in> set (dp_threads s). p = Finished"
  proof -
    have "held_all s = []" using that(2) by (auto simp: held_all_def)
    then show ?thesis using bal pool_okD(5) [OF ok that(1)] by simp
  qed
  ultimately show ?thesis using pool_okD(4) [OF ok] by blast
qed

definition ex_pool :: db_pool where
  "ex_pool = \<lparr>dp_queue = [], dp_max = 1, dp_closed = True, dp_open = [], dp_next = 1, dp_threads = [Finished]\<rparr>"

theorem no_connection_leaks_witness: "dp_open ex_pool = [] \<and> dp_closed ex_pool \<and> length (dp_queue ex_pool) \<le> dp_max ex_pool"
proof -
  let ?s0 = "\<lparr>dp_queue = [0], dp_max = 1, dp_closed = False, dp_open = [0], dp_next = 1, dp_threads = []\<rparr>"
  let ?s1 = "?s0\<lparr>dp_threads := [Waiting]\<rparr>" and ?s2 = "?s0\<lparr>dp_threads := [Probing 0], dp_queue := []\<rparr>"
  let ?s3 = "?s2\<lparr>dp_threads := [Using 0]\<rparr>" and ?s4 = "?s2\<lparr>dp_threads := [Using 0], dp_closed := True\<rparr>"
  let ?s5 = "?s4\<lparr>dp_threads := [Giving 0]\<rparr>"
  have h: "borrow_connection 0 True ?s1 = ?s2" "probe 0 0 True True ?s2 = ?s3" "close_pool ?s3 = ?s4" "end_use 0 0 ?s4 = ?s5"
    "give_back 0 0 True ?s5 = ex_pool" "borrow ?s0 = Inr ?s1"
    by code_simp+
  have "db_step ?s0 ?s1" by (rule db_step.borrow) (rule h(6))
  moreover have "db_step ?s1 ?s2" using db_step.take [of 0 ?s1 True] unfolding h by simp
  moreover have "db_step ?s2 ?s3" using db_step.probe [of 0 ?s2 0 True True] unfolding h by simp
  moreover have "db_step ?s3 ?s4" using db_step.close [of ?s3] unfolding h .
  moreover have "db_step ?s4 ?s5" using db_step.end_use [of 0 ?s4 0] unfolding h by simp
  moreover have "db_step ?s5 ex_pool" using db_step.give [of 0 ?s5 0 True] unfolding h by simp
  ultimately have "db_step\<^sup>*\<^sup>* ?s0 ex_pool"
    by (intro converse_rtranclp_into_rtranclp [of db_step ?s0 ?s1] converse_rtranclp_into_rtranclp [of db_step ?s1 ?s2]
        converse_rtranclp_into_rtranclp [of db_step ?s2 ?s3] converse_rtranclp_into_rtranclp [of db_step ?s3 ?s4]
        converse_rtranclp_into_rtranclp [of db_step ?s4 ?s5] r_into_rtranclp)
  moreover have "new_pool [True] = Inr ?s0" by code_simp
  ultimately show ?thesis using no_connection_leaks [of "[True]" ?s0 ex_pool] by (simp add: ex_pool_def)
qed

section \<open>Queries\<close>

text \<open>What one attempt meets: a result, a locked database, or another exception.\<close>

datatype 'a db_answer = Rows 'a | Locked | Db_Error exn

record 'a db_result =
  dr_value :: "'a option"
  dr_errors :: nat
  dr_sleeps :: "real list"

fun attempts :: "nat \<Rightarrow> nat \<Rightarrow> (nat \<Rightarrow> 'a db_answer) \<Rightarrow> 'a db_result" where
  "attempts 0 k ans = \<lparr>dr_value = None, dr_errors = 0, dr_sleeps = []\<rparr>"
| "attempts (Suc left) k ans =
     (case ans k of
        Rows v \<Rightarrow> \<lparr>dr_value = Some v, dr_errors = 0, dr_sleeps = []\<rparr>
      | Locked \<Rightarrow>
          if left = 0 then \<lparr>dr_value = None, dr_errors = 1, dr_sleeps = []\<rparr>
          else let r = attempts left (Suc k) ans in r\<lparr>dr_sleeps := 1 / 10 * 2 ^ k # dr_sleeps r\<rparr>
      | Db_Error e \<Rightarrow> \<lparr>dr_value = None, dr_errors = 1, dr_sleeps = []\<rparr>)"

text \<open>\<open>execute\<close> with the counters of \<open>_metrics\<close>; \<open>None\<close> is what its callers get instead of an exception.\<close>

definition db_execute :: "bool \<Rightarrow> nat \<Rightarrow> (nat \<Rightarrow> 'a db_answer) \<Rightarrow> nat \<times> nat \<Rightarrow> 'a option \<times> real list \<times> nat \<times> nat" where
  "db_execute shut retries ans metrics =
     (if shut then (None, [], metrics)
      else let r = attempts retries 0 ans in (dr_value r, dr_sleeps r, fst metrics + 1, snd metrics + dr_errors r))"

text \<open>\<open>execute_many\<close> counts nothing and answers whether it wrote.\<close>

definition execute_many :: "bool \<Rightarrow> nat \<Rightarrow> (nat \<Rightarrow> unit db_answer) \<Rightarrow> 'p list \<Rightarrow> bool" where
  "execute_many shut retries ans params =
     (\<not> shut \<and> params \<noteq> [] \<and> dr_value (attempts retries 0 ans) \<noteq> None)"

lemma attempts_outcome:
  "(dr_value (attempts n k ans) = Some v \<longleftrightarrow> (\<exists>j < n. ans (k + j) = Rows v \<and> (\<forall>i < j. ans (k + i) = Locked)))
   \<and> dr_errors (attempts n k ans) = (if n = 0 \<or> dr_value (attempts n k ans) \<noteq> None then 0 else 1)
   \<and> length (dr_sleeps (attempts n k ans)) < max 1 n \<and> (\<forall>j < length (dr_sleeps (attempts n k ans)). ans (k + j) = Locked)"
proof (induction n arbitrary: k)
  case (Suc n)
  have ex: "(\<exists>j < Suc n. ans (k + j) = Rows v \<and> (\<forall>i < j. ans (k + i) = Locked)) \<longleftrightarrow>
      ans k = Rows v \<or> ans k = Locked \<and> (\<exists>j < n. ans (Suc k + j) = Rows v \<and> (\<forall>i < j. ans (Suc k + i) = Locked))"
    by (auto simp: Ex_less_Suc2 All_less_Suc2)
  show ?case
  proof (cases "ans k = Locked \<and> n \<noteq> 0")
    case True
    with Suc.IH [of "Suc k"] show ?thesis
      unfolding ex by (auto simp: Let_def All_less_Suc2)
  next
    case False
    then show ?thesis unfolding ex by (auto split: db_answer.splits)
  qed
qed simp

text \<open>
  A query yields rows exactly when one of its three attempts does and all before it found the database locked; every other outcome
  is a missing value, one counted error and no exception.
\<close>

theorem execute_outcome:
  "((\<exists>sleeps m. db_execute False 3 ans (q, e) = (Some v, sleeps, m)) \<longleftrightarrow>
      (\<exists>k < 3. ans k = Rows v \<and> (\<forall>j < k. ans j = Locked)))
   \<and> (\<exists>r sleeps. db_execute False 3 ans (q, e) = (r, sleeps, q + 1, e + (if r = None then 1 else 0)) \<and> length sleeps \<le> 2
        \<and> (\<forall>j < length sleeps. ans j = Locked))
   \<and> db_execute True n ans (q, e) = (None, [], q, e)"
  using attempts_outcome [of 3 0 ans v] by (auto simp: db_execute_def Let_def)

theorem execute_outcome_witness:
  "fst (db_execute False 3 (\<lambda>k. if k < 2 then Locked else Rows 5) (0, 0)) = Some (5::nat)"
proof -
  let ?ans = "\<lambda>k. if k < 2 then Locked else Rows (5::nat)"
  have "\<exists>k < 3::nat. ?ans k = Rows 5 \<and> (\<forall>j < k. ?ans j = Locked)" by (intro exI [of _ 2]) auto
  with execute_outcome [of ?ans 0 0 5 3] obtain sl m where "db_execute False 3 ?ans (0, 0) = (Some 5, sl, m)" by blast
  then show ?thesis by simp
qed

section \<open>Retention\<close>

definition retention_days :: "pyval \<Rightarrow> int" where
  "retention_days v =
     (case v of PNone \<Rightarrow> 30 | _ \<Rightarrow> (case py_int v of Inl e \<Rightarrow> 30 | Inr n \<Rightarrow> if n < 1 then 30 else n))"

definition retained_tables :: "string list" where
  "retained_tables = [''traffic'', ''pings'', ''traces'', ''alerts'', ''security_log'', ''ai_predictions'']"

text \<open>
  \<open>cleanup_old_records\<close>: \<open>days_ago n\<close> is the stamp \<open>n\<close> days ago, \<open>fails\<close> that a statement raises before the commit, \<open>vacuum_fails\<close> that the
  compaction after the deletion of more than 1000 rows does.
\<close>

definition cleanup_old_records ::
  "(int \<Rightarrow> stamp) \<Rightarrow> bool \<Rightarrow> bool \<Rightarrow> bool \<Rightarrow> pyval \<Rightarrow> (string \<Rightarrow> stamp list) \<Rightarrow> bool \<times> (string \<Rightarrow> stamp list)" where
  "cleanup_old_records days_ago shut fails vacuum_fails days tables =
     (if shut \<or> fails then (False, tables)
      else let since = sql_text (days_ago (retention_days days));
               kept = (\<lambda>t. if t \<in> set retained_tables then filter (\<lambda>row. \<not> iso row < since) (tables t) else tables t);
               deleted = sum_list (map (\<lambda>t. length (tables t) - length (kept t)) retained_tables)
           in (\<not> (1000 < deleted \<and> vacuum_fails), kept))"

lemma iso_before_date:
  assumes "length (ts_date t) = length (ts_date u)"
  shows "iso t < sql_text u \<longleftrightarrow> ts_date t < ts_date u"
proof -
  have "iso t \<noteq> sql_text u" using assms by (auto simp: iso_def sql_text_def)
  then have "iso t < sql_text u \<longleftrightarrow> \<not> in_window u t" unfolding in_window_def by (simp add: not_less order.order_iff_strict)
  also have "\<dots> \<longleftrightarrow> \<not> ts_date u \<le> ts_date t" using in_window_date [of u t] assms by simp
  finally show ?thesis by (simp add: not_le)
qed

text \<open>
  The cleanup deletes a row exactly when its date lies before the date of the cutoff, whatever its time; fewer than one day or a
  value that is no number means thirty days; a failure deletes nothing; and tables that are not on the list stay.
\<close>

theorem cleanup_by_date:
  assumes "cleanup_old_records days_ago False fails vacuum_fails days tables = (ok, tables')"
    and "\<And>n t row. row \<in> set (tables t) \<Longrightarrow> length (ts_date row) = length (ts_date (days_ago n))"
  shows "(fails \<longrightarrow> \<not> ok \<and> tables' = tables)
    \<and> (\<not> fails \<longrightarrow> tables' t = (if t \<in> set retained_tables
         then filter (\<lambda>row. ts_date (days_ago (retention_days days)) \<le> ts_date row) (tables t) else tables t))
    \<and> 1 \<le> retention_days days"
proof -
  have "1 \<le> retention_days days" by (auto simp: retention_days_def split: pyval.split sum.split)
  moreover have "filter (\<lambda>row. \<not> iso row < sql_text (days_ago n)) (tables t) = filter (\<lambda>row. ts_date (days_ago n) \<le> ts_date row) (tables t)" for n
    using assms(2) [of _ t n] iso_before_date [of _ "days_ago n"] by (intro filter_cong) (auto simp: not_less)
  ultimately show ?thesis using assms(1) by (auto simp: cleanup_old_records_def Let_def split: if_splits)
qed

theorem cleanup_by_date_witness:
  "snd (cleanup_old_records (\<lambda>n. \<lparr>ts_date = ''2024-05-01'', ts_time = ''12:00:00''\<rparr>) False False False (PInt 0)
     (\<lambda>t. if t = ''alerts'' then [\<lparr>ts_date = ''2024-05-01'', ts_time = ''00:00:01''\<rparr>, \<lparr>ts_date = ''2024-04-30'', ts_time = ''23:59:59''\<rparr>] else []))
     ''alerts'' = [\<lparr>ts_date = ''2024-05-01'', ts_time = ''00:00:01''\<rparr>]"
proof -
  let ?days_ago = "\<lambda>n::int. \<lparr>ts_date = ''2024-05-01'', ts_time = ''12:00:00''\<rparr>"
  let ?t = "\<lambda>t. if t = ''alerts'' then [\<lparr>ts_date = ''2024-05-01'', ts_time = ''00:00:01''\<rparr>, \<lparr>ts_date = ''2024-04-30'', ts_time = ''23:59:59''\<rparr>] else []"
  obtain ok tables' where run: "cleanup_old_records ?days_ago False False False (PInt 0) ?t = (ok, tables')" by (cases "cleanup_old_records ?days_ago False False False (PInt 0) ?t")
  have "length (ts_date row) = length (ts_date (?days_ago n))" if "row \<in> set (?t t)" for n t row using that by (auto split: if_splits)
  note cleanup_by_date [OF run this, where t = "''alerts''"]
  moreover have "filter (\<lambda>row. ts_date (?days_ago 0) \<le> ts_date row) (?t ''alerts'') = [\<lparr>ts_date = ''2024-05-01'', ts_time = ''00:00:01''\<rparr>]"
    by code_simp
  ultimately show ?thesis unfolding run by (simp add: retained_tables_def)
qed

end
