(* ===== verification/Notices.thy ===== *)
theory Notices
  imports Slot_Pool
begin

text \<open>
  Delivery of notifications: \<open>netpulse/notifications.py\<close>. A notification is accepted per channel when a slot is free,
  gets a row of the table \<open>notification_delivery\<close>, and a worker tries to send it up to three times. What a receiver or the
  database answers is an argument of each step, so runs range over all of their behaviours; \<open>stop\<close> may come at any
  point. The worker's thread is a list of phases; \<open>nt_accepted\<close> records which attempts receivers have accepted, and
  \<open>nt_confirmed\<close> those whose call has returned: a receiver may accept and its answer be lost.
\<close>

section \<open>State\<close>

datatype notice_status = Queued | In_Sending | Sent | Failed_Notice | Interrupted

record notice_row =
  nr_id :: string
  nr_channel :: string
  nr_title :: string
  nr_status :: notice_status
  nr_attempts :: nat
  nr_error :: string
  nr_created :: real
  nr_updated :: real

text \<open>
  The phases of \<open>_deliver\<close>: \<open>Ready k\<close> is the top of the loop with attempt \<open>k\<close>, \<open>Posting k\<close> the call of \<open>_send\<close>, \<open>Posted k\<close>
  its return, \<open>Tried k\<close> the handler of its exception, \<open>Leaving\<close> the release of the slot.
\<close>

datatype notice_phase = Ready nat | Posting nat | Posted nat | Tried nat | Leaving | Left

record delivery =
  dl_id :: string
  dl_channel :: string
  dl_config :: "(string, pyval) dict"
  dl_title :: string
  dl_message :: string
  dl_phase :: notice_phase

record notices =
  nt_slots :: nat
  nt_stopped :: bool
  nt_rows :: "notice_row list"
  nt_threads :: "delivery list"
  nt_accepted :: "(string \<times> nat) list"
  nt_confirmed :: "(string \<times> nat) list"

definition notice_slots :: nat where
  "notice_slots = 32"

definition unfinished :: "notice_row \<Rightarrow> bool" where
  "unfinished row \<longleftrightarrow> nr_status row \<in> {Queued, In_Sending}"

text \<open>\<open>__init__\<close>: what the last run left open is marked.\<close>

definition open_notices :: "notice_row list \<Rightarrow> notices" where
  "open_notices rows =
     \<lparr>nt_slots = notice_slots, nt_stopped = False,
      nt_rows = map (\<lambda>row. if unfinished row then row\<lparr>nr_status := Interrupted\<rparr> else row) rows,
      nt_threads = [], nt_accepted = [], nt_confirmed = []\<rparr>"

section \<open>The table\<close>

text \<open>\<open>_status\<close>\<close>

definition set_status :: "string \<Rightarrow> notice_status \<Rightarrow> nat \<Rightarrow> string \<Rightarrow> real \<Rightarrow> notices \<Rightarrow> notices" where
  "set_status ident st attempts err now s =
     s\<lparr>nt_rows := map (\<lambda>row. if nr_id row = ident
          then row\<lparr>nr_status := st, nr_attempts := attempts, nr_error := err, nr_updated := now\<rparr> else row) (nt_rows s)\<rparr>"

text \<open>\<open>ORDER BY created DESC LIMIT 100\<close>\<close>

definition newest_first :: "notice_row list \<Rightarrow> notice_row list" where
  "newest_first rows = sort_key (\<lambda>row. - nr_created row) rows"

definition history :: "notices \<Rightarrow> notice_row list" where
  "history s = take 100 (newest_first (nt_rows s))"

text \<open>The rows that the retention deletes: the finished ones after the newest 2000.\<close>

definition overdue :: "notice_row list \<Rightarrow> string list" where
  "overdue rows = map nr_id (drop 2000 (newest_first (filter (\<lambda>row. \<not> unfinished row) rows)))"

definition insert_notice :: "notice_row \<Rightarrow> notice_row list \<Rightarrow> exn + notice_row list" where
  "insert_notice row rows =
     (if nr_id row \<in> set (map nr_id rows) then Inl (ServiceError ''IntegrityError'' [])
      else let rows1 = rows @ [row] in Inr (filter (\<lambda>r. nr_id r \<notin> set (overdue rows1)) rows1))"

section \<open>Accepting a notification\<close>

definition channels :: "string list" where
  "channels = [''telegram'', ''webhook'', ''email'']"

text \<open>What one channel meets: a fresh identifier, the time, and whether the database and the pool take it.\<close>

record chance =
  ch_id :: string
  ch_now :: real
  ch_db :: bool
  ch_pool :: bool

definition accept_notice :: "string \<Rightarrow> (string, pyval) dict \<Rightarrow> string \<Rightarrow> string \<Rightarrow> chance \<Rightarrow> notices \<Rightarrow> (exn + string) \<times> notices" where
  "accept_notice channel cfg title message c s =
     (case sem_acquire (nt_slots s) of
        None \<Rightarrow> (Inl QueueFull, s)
      | Some n \<Rightarrow>
          (case (if ch_db c then insert_notice \<lparr>nr_id = ch_id c, nr_channel = channel, nr_title = take 160 title, nr_status = Queued,
                    nr_attempts = 0, nr_error = [], nr_created = ch_now c, nr_updated = ch_now c\<rparr> (nt_rows s)
                 else Inl (ServiceError ''OperationalError'' [])) of
             Inl e \<Rightarrow> (Inl e, s)
           | Inr rows \<Rightarrow>
               if ch_pool c then
                 (Inr (ch_id c), s\<lparr>nt_slots := n, nt_rows := rows, nt_threads := nt_threads s @ [\<lparr>dl_id = ch_id c, dl_channel = channel,
                    dl_config = cfg, dl_title = take 160 title, dl_message = take 3500 message, dl_phase = Ready 1\<rparr>]\<rparr>)
               else (Inl (ServiceError ''RuntimeError'' []), s\<lparr>nt_rows := rows\<rparr>)))"

text \<open>
  \<open>enqueue\<close>: the channels in their order, with the configuration of each. A full pool ends the loop; an exception gives the
  slot back and leaves the loop, and the identifiers accepted before it are not returned.
\<close>

fun enqueue_from :: "(string \<Rightarrow> (string, pyval) dict) \<Rightarrow> string \<Rightarrow> string \<Rightarrow> (string \<times> chance) list \<Rightarrow> notices \<Rightarrow> (exn + string list) \<times> notices" where
  "enqueue_from cfg title message [] s = (Inr [], s)"
| "enqueue_from cfg title message ((channel, c) # cs) s =
     (if \<not> truthy (get_default (cfg channel) ''enabled'' PNone) \<or> nt_stopped s then enqueue_from cfg title message cs s
      else if sem_acquire (nt_slots s) = None then (Inr [], s)
      else case accept_notice channel (cfg channel) title message c s of
             (Inl e, s') \<Rightarrow> (Inl e, s')
           | (Inr ident, s') \<Rightarrow> apfst (map_sum id (Cons ident)) (enqueue_from cfg title message cs s'))"

definition enqueue :: "(string \<Rightarrow> (string, pyval) dict) \<Rightarrow> string \<Rightarrow> string \<Rightarrow> (string \<Rightarrow> chance) \<Rightarrow> notices \<Rightarrow> (exn + string list) \<times> notices" where
  "enqueue cfg title message chances s = enqueue_from cfg title message (map (\<lambda>ch. (ch, chances ch)) channels) s"

section \<open>Delivering it\<close>

definition advice :: string where
  "advice = utf8 [208, 159, 209, 128, 208, 190, 208, 178, 208, 181, 209, 128, 209, 140, 209, 130, 208, 181, 32,
      209, 129, 208, 181, 209, 130, 209, 140, 44, 32, 84, 76, 83, 44, 32, 208, 176, 208, 180, 209, 128, 208, 181, 209, 129, 32, 208, 184, 32, 209, 131, 209, 135, 209, 145, 209, 130, 208, 189, 209, 139, 208, 181, 32, 208, 180, 208, 176, 208, 189, 208, 189, 209, 139, 208, 181, 32, 208, 191, 208, 190, 208, 187, 209, 131, 209, 135, 208, 176, 209, 130, 208, 181, 208, 187, 209, 143]"

definition to_phase :: "nat \<Rightarrow> notice_phase \<Rightarrow> notices \<Rightarrow> notices" where
  "to_phase i p s = s\<lparr>nt_threads := (nt_threads s)[i := (nt_threads s ! i)\<lparr>dl_phase := p\<rparr>]\<rparr>"

text \<open>A write of the status that may fail, with the phase after success and after failure.\<close>

definition write_status :: "bool \<Rightarrow> nat \<Rightarrow> notice_status \<Rightarrow> nat \<Rightarrow> string \<Rightarrow> real \<Rightarrow> notice_phase \<Rightarrow> notice_phase \<Rightarrow> notices \<Rightarrow> notices" where
  "write_status db i st attempts err now ok bad s =
     (if db then to_phase i ok (set_status (dl_id (nt_threads s ! i)) st attempts err now s) else to_phase i bad s)"

definition try_send :: "bool \<Rightarrow> nat \<Rightarrow> nat \<Rightarrow> real \<Rightarrow> notices \<Rightarrow> notices" where
  "try_send db i k now s =
     (if nt_stopped s then write_status db i Interrupted (k - 1) [] now Leaving Leaving s
      else write_status db i In_Sending k [] now (Posting k) Leaving s)"

text \<open>
  What a call of \<open>_send\<close> comes to: it returns, and the receiver has the message; it raises although the receiver has the
  message, because the answer is lost, cannot be read or is an error of the end of the session; or it raises and the
  receiver has nothing.
\<close>

datatype post_outcome = Confirmed | Unconfirmed | Refused

definition posted :: "post_outcome \<Rightarrow> nat \<Rightarrow> nat \<Rightarrow> notices \<Rightarrow> notices" where
  "posted out i k s =
     (let this = (dl_id (nt_threads s ! i), k)
      in case out of
           Confirmed \<Rightarrow> to_phase i (Posted k) (s\<lparr>nt_accepted := nt_accepted s @ [this], nt_confirmed := nt_confirmed s @ [this]\<rparr>)
         | Unconfirmed \<Rightarrow> to_phase i (Tried k) (s\<lparr>nt_accepted := nt_accepted s @ [this]\<rparr>)
         | Refused \<Rightarrow> to_phase i (Tried k) s)"

text \<open>A status that cannot be written after the receiver has accepted counts as a failed attempt.\<close>

definition record_sent :: "bool \<Rightarrow> nat \<Rightarrow> nat \<Rightarrow> real \<Rightarrow> notices \<Rightarrow> notices" where
  "record_sent db i k now s = write_status db i Sent k [] now Leaving (Tried k) s"

definition give_up :: "bool \<Rightarrow> nat \<Rightarrow> nat \<Rightarrow> real \<Rightarrow> notices \<Rightarrow> notices" where
  "give_up db i k now s =
     (if k = 3 then write_status db i Failed_Notice k advice now Leaving Leaving s else to_phase i (Ready (k + 1)) s)"

definition leave :: "nat \<Rightarrow> notices \<Rightarrow> exn + notices" where
  "leave i s = map_sum id (\<lambda>n. to_phase i Left (s\<lparr>nt_slots := n\<rparr>)) (sem_release notice_slots (nt_slots s))"

definition stop :: "notices \<Rightarrow> notices" where
  "stop s = s\<lparr>nt_stopped := True\<rparr>"

abbreviation phase_at :: "notices \<Rightarrow> nat \<Rightarrow> notice_phase \<Rightarrow> bool" where
  "phase_at s i p \<equiv> i < length (nt_threads s) \<and> dl_phase (nt_threads s ! i) = p"

text \<open>
  Any threads in any order. With \<open>sound\<close>, the database takes every write. The fresh identifier is one no delivery had. An
  acceptance may come after \<open>stop\<close>: its thread has tested the flag before.
\<close>

inductive notice_step :: "bool \<Rightarrow> notices \<Rightarrow> notices \<Rightarrow> bool" for sound where
  accept: "ch_id c \<notin> set (map dl_id (nt_threads s)) \<Longrightarrow> accept_notice channel cfg title message c s = (ans, s') \<Longrightarrow>
     notice_step sound s s'"
| try_send: "phase_at s i (Ready k) \<Longrightarrow> db \<or> \<not> sound \<Longrightarrow> notice_step sound s (try_send db i k now s)"
| posted: "phase_at s i (Posting k) \<Longrightarrow> notice_step sound s (posted out i k s)"
| record_sent: "phase_at s i (Posted k) \<Longrightarrow> db \<or> \<not> sound \<Longrightarrow> notice_step sound s (record_sent db i k now s)"
| give_up: "phase_at s i (Tried k) \<Longrightarrow> db \<or> \<not> sound \<Longrightarrow> notice_step sound s (give_up db i k now s)"
| leave: "phase_at s i Leaving \<Longrightarrow> leave i s = Inr s' \<Longrightarrow> notice_step sound s s'"
| stop: "notice_step sound s (stop s)"

definition notice_holders :: "notices \<Rightarrow> nat" where
  "notice_holders s = count_by (\<lambda>d. dl_phase d \<noteq> Left) (nt_threads s)"

section \<open>Slots\<close>


lemma to_phase_frame [simp]:
  "nt_slots (to_phase i p s) = nt_slots s" "nt_stopped (to_phase i p s) = nt_stopped s"
  "nt_rows (to_phase i p s) = nt_rows s" "nt_accepted (to_phase i p s) = nt_accepted s" "nt_confirmed (to_phase i p s) = nt_confirmed s"
  "nt_threads (to_phase i p s) = (nt_threads s)[i := (nt_threads s ! i)\<lparr>dl_phase := p\<rparr>]"
  by (simp_all add: to_phase_def)

lemma set_status_frame [simp]:
  "nt_slots (set_status x st k e now s) = nt_slots s" "nt_stopped (set_status x st k e now s) = nt_stopped s"
  "nt_threads (set_status x st k e now s) = nt_threads s" "nt_accepted (set_status x st k e now s) = nt_accepted s"
  "nt_confirmed (set_status x st k e now s) = nt_confirmed s"
  by (simp_all add: set_status_def)

text \<open>Each move of thread \<open>i\<close> changes only its own phase among the threads.\<close>

lemma move_slots [simp]:
  "nt_slots (write_status db i st k e now p q s) = nt_slots s" "nt_slots (try_send db i k now s) = nt_slots s"
  "nt_slots (posted out i k s) = nt_slots s" "nt_slots (record_sent db i k now s) = nt_slots s"
  "nt_slots (give_up db i k now s) = nt_slots s"
  by (simp_all add: write_status_def try_send_def posted_def record_sent_def give_up_def Let_def split: post_outcome.split)

lemma move_threads:
  "nt_threads (write_status db i st k e now p q s) = nt_threads (to_phase i (if db then p else q) s)"
  "nt_threads (try_send db i k now s) = nt_threads (to_phase i (if nt_stopped s \<or> \<not> db then Leaving else Posting k) s)"
  "nt_threads (posted out i k s) = nt_threads (to_phase i (if out = Confirmed then Posted k else Tried k) s)"
  "nt_threads (record_sent db i k now s) = nt_threads (to_phase i (if db then Leaving else Tried k) s)"
  "nt_threads (give_up db i k now s) = nt_threads (to_phase i (if k = 3 then Leaving else Ready (k + 1)) s)"
  by (simp_all add: write_status_def try_send_def posted_def record_sent_def give_up_def Let_def split: post_outcome.split)

lemma holders_to_phase:
  "phase_at s i p \<Longrightarrow> p \<noteq> Left \<Longrightarrow> q \<noteq> Left \<Longrightarrow> nt_threads s' = nt_threads (to_phase i q s) \<Longrightarrow> notice_holders s' = notice_holders s"
  unfolding notice_holders_def by (simp add: count_by_update_same)

lemma leave_Inr:
  "leave i s = Inr s' \<longleftrightarrow> nt_slots s < notice_slots \<and> s' = to_phase i Left (s\<lparr>nt_slots := Suc (nt_slots s)\<rparr>)"
  by (auto simp: leave_def map_sum_def sem_release_def)

abbreviation queued_row :: "string \<Rightarrow> string \<Rightarrow> chance \<Rightarrow> notice_row" where
  "queued_row channel title c \<equiv> \<lparr>nr_id = ch_id c, nr_channel = channel, nr_title = take 160 title, nr_status = Queued,
     nr_attempts = 0, nr_error = [], nr_created = ch_now c, nr_updated = ch_now c\<rparr>"

abbreviation first_delivery :: "string \<Rightarrow> (string, pyval) dict \<Rightarrow> string \<Rightarrow> string \<Rightarrow> chance \<Rightarrow> delivery" where
  "first_delivery channel cfg title message c \<equiv> \<lparr>dl_id = ch_id c, dl_channel = channel, dl_config = cfg,
     dl_title = take 160 title, dl_message = take 3500 message, dl_phase = Ready 1\<rparr>"

lemma accept_notice_cases:
  assumes "accept_notice channel cfg title message c s = (ans, s')"
  obtains (same) e where "ans = Inl e" "s' = s"
  | (no_pool) rows where "ans = Inl (ServiceError ''RuntimeError'' [])" "s' = s\<lparr>nt_rows := rows\<rparr>"
      "insert_notice (queued_row channel title c) (nt_rows s) = Inr rows"
  | (accepted) n rows where "ans = Inr (ch_id c)" "nt_slots s = Suc n"
      "insert_notice (queued_row channel title c) (nt_rows s) = Inr rows"
      "s' = s\<lparr>nt_slots := n, nt_rows := rows, nt_threads := nt_threads s @ [first_delivery channel cfg title message c]\<rparr>"
proof (cases "nt_slots s")
  case 0
  with assms have "ans = Inl QueueFull" "s' = s" by (simp_all add: accept_notice_def sem_acquire_def)
  then show ?thesis by (rule same)
next
  case (Suc n)
  let ?ins = "insert_notice (queued_row channel title c) (nt_rows s)"
  show ?thesis
  proof (cases "ch_db c \<and> (\<exists>rows. ?ins = Inr rows)")
    case False
    then have "(if ch_db c then ?ins else Inl (ServiceError ''OperationalError'' [])) = Inl (if ch_db c then projl ?ins else ServiceError ''OperationalError'' [])"
      by (cases ?ins) auto
    with assms Suc have "ans = Inl (if ch_db c then projl ?ins else ServiceError ''OperationalError'' [])" "s' = s"
      by (simp_all add: accept_notice_def sem_acquire_def del: if_split)
    then show ?thesis by (rule same)
  next
    case True
    then obtain rows where "ch_db c" "?ins = Inr rows" by blast
    with assms Suc no_pool [of rows] accepted [of n rows] show ?thesis
      by (cases "ch_pool c") (simp_all add: accept_notice_def sem_acquire_def)
  qed
qed

interpretation notice_pool: slot_pool nt_slots notice_holders notice_slots "notice_step False" "open_notices rows" for rows
proof
  show "nt_slots (open_notices rows) = notice_slots" "notice_holders (open_notices rows) = 0"
    by (simp_all add: open_notices_def notice_holders_def)
next
  fix s s' assume "notice_step False s s'" and fit: "nt_slots s + notice_holders s = notice_slots"
  from this(1) show "nt_slots s' + notice_holders s' = notice_slots"
  proof cases
    case (accept c channel cfg title message ans)
    from accept(2) show ?thesis by (cases rule: accept_notice_cases) (use fit in \<open>simp_all add: notice_holders_def\<close>)
  next
    case (leave i)
    then have "Suc (notice_holders s') = notice_holders s"
      by (auto simp: leave_Inr notice_holders_def intro!: count_by_update_leaves)
    with leave(2) fit show ?thesis by (simp add: leave_Inr)
  next
    case stop
    then show ?thesis using fit by (simp add: stop_def notice_holders_def)
  next
    case (try_send i k db now)
    then show ?thesis using fit holders_to_phase [OF try_send(2) _ _ move_threads(2) [of db i k now s]] by simp
  next
    case (posted i k out)
    then show ?thesis using fit holders_to_phase [OF posted(2) _ _ move_threads(3) [of out i k s]] by simp
  next
    case (record_sent i k db now)
    then show ?thesis using fit holders_to_phase [OF record_sent(2) _ _ move_threads(4) [of db i k now s]] by simp
  next
    case (give_up i k db now)
    then show ?thesis using fit holders_to_phase [OF give_up(2) _ _ move_threads(5) [of db i k now s]] by simp
  qed
qed

lemma notice_step_unsound: "notice_step sound s s' \<Longrightarrow> notice_step False s s'"
  by (induction rule: notice_step.induct) (blast intro: notice_step.intros)+

lemma notice_run_unsound: "(notice_step sound)\<^sup>*\<^sup>* s s' \<Longrightarrow> (notice_step False)\<^sup>*\<^sup>* s s'"
  by (induction rule: rtranclp_induct) (auto dest: notice_step_unsound)

section \<open>What the table never shows\<close>

fun tries :: "notice_phase \<Rightarrow> nat" where
  "tries (Ready k) = k"
| "tries (Posting k) = k"
| "tries (Posted k) = k"
| "tries (Tried k) = k"
| "tries _ = 1"

definition row_plain :: "notice_row \<Rightarrow> bool" where
  "row_plain row \<longleftrightarrow> nr_attempts row \<le> 3 \<and> nr_error row \<in> {[], advice}
     \<and> (nr_status row = Failed_Notice \<longrightarrow> nr_attempts row = 3 \<and> nr_error row = advice)"

definition table_plain :: "notices \<Rightarrow> bool" where
  "table_plain s \<longleftrightarrow> (\<forall>row \<in> set (nt_rows s). row_plain row)
     \<and> (\<forall>d \<in> set (nt_threads s). 1 \<le> tries (dl_phase d) \<and> tries (dl_phase d) \<le> 3)"

lemma table_plain_move:
  assumes "table_plain s" and "nt_threads s' = nt_threads (to_phase i q s)" and "1 \<le> tries q" and "tries q \<le> 3"
    and "\<And>row. row \<in> set (nt_rows s') \<Longrightarrow> row \<in> set (nt_rows s) \<or> row_plain row"
  shows "table_plain s'"
  using assms by (auto simp: table_plain_def dest!: set_update_subset_insert [THEN subsetD])

lemma set_status_rows:
  "row \<in> set (nt_rows (set_status x st k e now s)) \<Longrightarrow> row \<in> set (nt_rows s)
     \<or> nr_status row = st \<and> nr_attempts row = k \<and> nr_error row = e \<and> nr_id row = x"
  by (auto simp: set_status_def split: if_splits)

lemma write_status_rows:
  "row \<in> set (nt_rows (write_status db i st k e now p q s)) \<Longrightarrow> row \<in> set (nt_rows s)
     \<or> nr_status row = st \<and> nr_attempts row = k \<and> nr_error row = e \<and> nr_id row = dl_id (nt_threads s ! i)"
  by (auto simp: write_status_def split: if_splits dest: set_status_rows)

lemma insert_notice_rows:
  "insert_notice row rows = Inr rows' \<Longrightarrow> r \<in> set rows' \<Longrightarrow> r = row \<or> r \<in> set rows"
  "insert_notice row rows = Inr rows' \<Longrightarrow> nr_id row \<notin> nr_id ` set rows"
  by (auto simp: insert_notice_def Let_def split: if_splits)

lemma table_plain_step:
  assumes "notice_step sound s s'" and plain: "table_plain s"
  shows "table_plain s'"
  using assms(1)
proof cases
  case (accept c channel cfg title message ans)
  have row: "row_plain (queued_row channel title c)" by (simp add: row_plain_def)
  from accept(2) show ?thesis
    by (cases rule: accept_notice_cases)
      (use plain row in \<open>auto simp: table_plain_def dest: insert_notice_rows(1)\<close>)
next
  case (try_send i k db now)
  then have "1 \<le> k" "k \<le> 3" using plain by (auto simp: table_plain_def dest!: nth_mem)
  then show ?thesis using try_send(1)
    by (intro table_plain_move [OF plain move_threads(2) [of db i k now s, folded try_send(1)]])
      (auto simp: try_send_def row_plain_def split: if_splits dest!: write_status_rows)
next
  case (posted i k out)
  then have "1 \<le> k" "k \<le> 3" using plain by (auto simp: table_plain_def dest!: nth_mem)
  then show ?thesis using posted(1)
    by (intro table_plain_move [OF plain move_threads(3) [of out i k s, folded posted(1)]])
      (auto simp: posted_def Let_def split: post_outcome.splits if_splits)
next
  case (record_sent i k db now)
  then have "1 \<le> k" "k \<le> 3" using plain by (auto simp: table_plain_def dest!: nth_mem)
  then show ?thesis using record_sent(1)
    by (intro table_plain_move [OF plain move_threads(4) [of db i k now s, folded record_sent(1)]])
      (auto simp: record_sent_def row_plain_def dest!: write_status_rows)
next
  case (give_up i k db now)
  then have "1 \<le> k" "k \<le> 3" using plain by (auto simp: table_plain_def dest!: nth_mem)
  then show ?thesis using give_up(1)
    by (intro table_plain_move [OF plain move_threads(5) [of db i k now s, folded give_up(1)]])
      (auto simp: give_up_def row_plain_def split: if_splits dest!: write_status_rows)
next
  case (leave i)
  then show ?thesis by (intro table_plain_move [OF plain, of _ i Left]) (auto simp: leave_Inr)
next
  case stop
  then show ?thesis using plain by (simp add: table_plain_def stop_def)
qed

lemma table_plain_run: "(notice_step sound)\<^sup>*\<^sup>* s s' \<Longrightarrow> table_plain s \<Longrightarrow> table_plain s'"
  by (induction rule: rtranclp_induct) (auto intro: table_plain_step)

lemma table_plain_open: "\<forall>row \<in> set rows. row_plain row \<Longrightarrow> table_plain (open_notices rows)"
  by (auto simp: table_plain_def open_notices_def row_plain_def unfinished_def)

section \<open>What the table says is what happened\<close>












lemma write_status_frame [simp]:
  "nt_accepted (write_status db i st k e now p q s) = nt_accepted s" "nt_confirmed (write_status db i st k e now p q s) = nt_confirmed s" "nt_stopped (write_status db i st k e now p q s) = nt_stopped s"
  by (simp_all add: write_status_def)

lemma insert_notice_own:
  assumes "insert_notice row rows = Inr rows'" and "r \<in> set rows'"
  shows "r = row \<or> r \<in> set rows \<and> nr_id r \<noteq> nr_id row"
  using insert_notice_rows(1) [OF assms] insert_notice_rows(2) [OF assms(1)] by (metis imageI)






section \<open>What receivers have\<close>








section \<open>Every delivery ends\<close>

fun phase_left :: "notice_phase \<Rightarrow> nat" where
  "phase_left (Ready k) = 4 * (3 - k) + 5"
| "phase_left (Posting k) = 4 * (3 - k) + 4"
| "phase_left (Posted k) = 4 * (3 - k) + 3"
| "phase_left (Tried k) = 4 * (3 - k) + 2"
| "phase_left Leaving = 1"
| "phase_left Left = 0"

definition notice_pending :: "notices \<Rightarrow> nat" where
  "notice_pending s = sum_list (map (phase_left \<circ> dl_phase) (nt_threads s))"

text \<open>A step of a delivery itself: no acceptance, no \<open>stop\<close>.\<close>

definition busy_step :: "notices \<Rightarrow> notices \<Rightarrow> bool" where
  "busy_step s s' \<longleftrightarrow> notice_step False s s' \<and> length (nt_threads s') = length (nt_threads s) \<and> nt_threads s' \<noteq> nt_threads s"

lemma sum_list_update_less:
  "i < length xs \<Longrightarrow> f x < f (xs ! i) \<Longrightarrow> sum_list (map f (xs[i := x])) < (sum_list (map f xs) :: nat)"
  by (induction xs arbitrary: i) (auto split: nat.splits)

lemma pending_move:
  assumes "phase_at s i p" and "nt_threads s' = nt_threads (to_phase i q s)" and "phase_left q < phase_left p"
  shows "notice_pending s' < notice_pending s"
  using assms unfolding notice_pending_def by (simp add: sum_list_update_less)

lemma busy_step_decreases:
  assumes "busy_step s s'" and plain: "table_plain s"
  shows "notice_pending s' < notice_pending s"
proof -
  have step: "notice_step False s s'" and moved: "length (nt_threads s') = length (nt_threads s)" "nt_threads s' \<noteq> nt_threads s"
    using assms(1) by (simp_all add: busy_step_def)
  have k3: "k \<le> 3" if "phase_at s i p" "tries p = k" for i p k
    using plain that by (auto simp: table_plain_def dest!: nth_mem)
  from step show ?thesis
  proof cases
    case (accept c channel cfg title message ans)
    from accept(2) show ?thesis by (cases rule: accept_notice_cases) (use moved in simp_all)
  next
    case (try_send i k db now)
    then show ?thesis by (intro pending_move [OF try_send(2) move_threads(2) [of db i k now s, folded try_send(1)]]) simp
  next
    case (posted i k out)
    then show ?thesis by (intro pending_move [OF posted(2) move_threads(3) [of out i k s, folded posted(1)]]) simp
  next
    case (record_sent i k db now)
    then show ?thesis by (intro pending_move [OF record_sent(2) move_threads(4) [of db i k now s, folded record_sent(1)]]) simp
  next
    case (give_up i k db now)
    then show ?thesis using k3 [OF give_up(2), of k]
      by (intro pending_move [OF give_up(2) move_threads(5) [of db i k now s, folded give_up(1)]]) auto
  next
    case (leave i)
    then show ?thesis by (intro pending_move [OF leave(1), of _ Left]) (auto simp: leave_Inr)
  next
    case stop
    then show ?thesis using moved by (simp add: stop_def)
  qed
qed

lemma phases_left_bound:
  "\<forall>d \<in> set ds. 1 \<le> tries (dl_phase d) \<Longrightarrow> sum_list (map (phase_left \<circ> dl_phase) ds) \<le> 13 * count_by (\<lambda>d. dl_phase d \<noteq> Left) ds"
proof (induction ds)
  case (Cons d ds)
  then show ?case by (cases "dl_phase d") auto
qed simp

lemma pending_le: "table_plain s \<Longrightarrow> notice_pending s \<le> 13 * notice_holders s"
  unfolding notice_pending_def notice_holders_def by (rule phases_left_bound) (simp add: table_plain_def)

lemma busy_run_bounded: "(busy_step ^^ n) s s' \<Longrightarrow> table_plain s \<Longrightarrow> n + notice_pending s' \<le> notice_pending s"
proof (induction n arbitrary: s')
  case (Suc n)
  then obtain s1 where s1: "(busy_step ^^ n) s s1" "busy_step s1 s'" by auto
  have "table_plain s1"
    using s1(1) Suc.prems(2)
  proof (induction n arbitrary: s1)
    case (Suc n)
    then show ?case by (auto simp: busy_step_def intro: table_plain_step)
  qed simp
  with Suc.IH [OF s1(1) Suc.prems(2)] busy_step_decreases [OF s1(2)] show ?case by simp
qed simp

lemma move_is_busy:
  assumes "notice_step False s s'" and "phase_at s i p" and "nt_threads s' = nt_threads (to_phase i q s)" and "q \<noteq> p"
  shows "busy_step s s'"
proof -
  have "dl_phase (nt_threads s' ! i) = q" using assms(2,3) by simp
  then have "nt_threads s' \<noteq> nt_threads s" using assms(2,4) by metis
  with assms(1,3) show ?thesis by (simp add: busy_step_def)
qed

text \<open>C27: 
  Whatever receivers and the database answer, every accepted notification is finished: as long as a slot is held some
  delivery can go on, and together they go on at most thirteen times for each held slot.
\<close>

theorem deliveries_end:
  assumes rows: "\<forall>row \<in> set rows. row_plain row" and run: "(notice_step False)\<^sup>*\<^sup>* (open_notices rows) s"
  shows "(0 < notice_holders s \<longrightarrow> (\<exists>s'. busy_step s s')) \<and> (\<forall>n s'. (busy_step ^^ n) s s' \<longrightarrow> n \<le> 13 * notice_holders s)"
proof (intro conjI allI impI)
  have plain: "table_plain s" by (rule table_plain_run [OF run table_plain_open [OF rows]])
  then show "n \<le> 13 * notice_holders s" if "(busy_step ^^ n) s s'" for n s'
    using busy_run_bounded [OF that plain] pending_le [OF plain] by simp
  assume held: "0 < notice_holders s"
  then obtain d where "d \<in> set (nt_threads s)" "dl_phase d \<noteq> Left"
    by (auto simp: notice_holders_def count_by_def filter_empty_conv)
  then obtain i where i: "i < length (nt_threads s)" "dl_phase (nt_threads s ! i) \<noteq> Left" by (auto simp: in_set_conv_nth)
  show "\<exists>s'. busy_step s s'"
  proof (cases "dl_phase (nt_threads s ! i)")
    case (Ready k)
    with i show ?thesis
      by (intro exI [of _ "try_send False i k 0 s"] move_is_busy [OF notice_step.try_send, OF _ _ _ move_threads(2)]) auto
  next
    case (Posting k)
    with i show ?thesis
      by (intro exI [of _ "posted Refused i k s"] move_is_busy [OF notice_step.posted, OF _ _ move_threads(3)]) auto
  next
    case (Posted k)
    with i show ?thesis
      by (intro exI [of _ "record_sent False i k 0 s"] move_is_busy [OF notice_step.record_sent, OF _ _ _ move_threads(4)]) auto
  next
    case (Tried k)
    with i show ?thesis
      by (intro exI [of _ "give_up False i k 0 s"] move_is_busy [OF notice_step.give_up, OF _ _ _ move_threads(5)]) auto
  next
    case Leaving
    have "leave i s = Inr (to_phase i Left (s\<lparr>nt_slots := Suc (nt_slots s)\<rparr>))"
      using notice_pool.release_accepted [OF run held] by (simp add: leave_def)
    with i Leaving show ?thesis
      by (intro exI [of _ "to_phase i Left (s\<lparr>nt_slots := Suc (nt_slots s)\<rparr>)"] move_is_busy [OF notice_step.leave, where i = i and p = Leaving and q = Left]) auto
  qed (use i in simp)
qed

definition ex_chance :: "string \<Rightarrow> chance" where
  "ex_chance ident = \<lparr>ch_id = ident, ch_now = 7, ch_db = True, ch_pool = True\<rparr>"

definition ex_notices :: notices where
  "ex_notices = snd (accept_notice ''email'' [] ''ALERT'' ''down'' (ex_chance ''n1'') (open_notices []))"

lemma ex_notices_reachable: "notice_step sound (open_notices []) ex_notices"
  unfolding ex_notices_def
  by (rule notice_step.accept [where c = "ex_chance ''n1''", OF _ prod.collapse [symmetric]]) (simp add: open_notices_def)

theorem deliveries_end_witness:
  "notice_holders ex_notices = 1 \<and> (\<exists>s'. busy_step ex_notices s')"
proof -
  have "notice_holders ex_notices = 1" by code_simp
  then show ?thesis
    using deliveries_end [of "[]" ex_notices, OF _ r_into_rtranclp, OF _ ex_notices_reachable] by simp
qed

text \<open>
  In every run, with any failures of receivers and database: slots and unfinished deliveries make 32, no release fails, no
  row counts more than three attempts, a row is failed only after three, and no row holds a text of an exception.
\<close>

theorem notice_table_safe:
  assumes rows: "\<forall>row \<in> set rows. row_plain row" and run: "(notice_step False)\<^sup>*\<^sup>* (open_notices rows) s"
  shows "nt_slots s + notice_holders s = notice_slots
    \<and> (\<forall>i. phase_at s i Leaving \<longrightarrow> (\<exists>s'. leave i s = Inr s'))
    \<and> (\<forall>row \<in> set (nt_rows s). nr_attempts row \<le> 3 \<and> nr_error row \<in> {[], advice}
         \<and> (nr_status row = Failed_Notice \<longrightarrow> nr_attempts row = 3 \<and> nr_error row = advice))"
proof (intro conjI allI impI)
  show "nt_slots s + notice_holders s = notice_slots" using run by (rule notice_pool.conserved)
  show "\<exists>s'. leave i s = Inr s'" if "phase_at s i Leaving" for i
  proof -
    have "0 < notice_holders s" unfolding notice_holders_def by (rule count_by_pos [of i]) (use that in simp_all)
    then show ?thesis using notice_pool.release_accepted [OF run] by (simp add: leave_def)
  qed
  have "table_plain s" by (rule table_plain_run [OF run table_plain_open [OF rows]])
  then show "\<forall>row \<in> set (nt_rows s). nr_attempts row \<le> 3 \<and> nr_error row \<in> {[], advice}
      \<and> (nr_status row = Failed_Notice \<longrightarrow> nr_attempts row = 3 \<and> nr_error row = advice)"
    by (simp add: table_plain_def row_plain_def)
qed

theorem notice_table_safe_witness:
  "nt_slots ex_notices + notice_holders ex_notices = notice_slots \<and> map nr_attempts (nt_rows ex_notices) = [0]"
proof -
  have "map nr_attempts (nt_rows ex_notices) = [0]" by code_simp
  then show ?thesis using notice_table_safe [of "[]" ex_notices, OF _ r_into_rtranclp, OF _ ex_notices_reachable] by simp
qed





text \<open>
  A receiver that has the message and whose answer is lost three times has it three times, and the row says that it failed:
  the database need not fail for this.
\<close>

definition one_attempt :: "nat \<Rightarrow> notices \<Rightarrow> notices" where
  "one_attempt k s = give_up True 0 k 9 (posted Unconfirmed 0 k (try_send True 0 k 8 s))"

theorem lost_answers_fail_a_delivered_notice:
  assumes "s = one_attempt 3 (one_attempt 2 (one_attempt 1 ex_notices))"
  shows "(notice_step True)\<^sup>*\<^sup>* (open_notices []) s \<and> nt_accepted s = [(''n1'', 1), (''n1'', 2), (''n1'', 3)]
    \<and> map nr_status (nt_rows s) = [Failed_Notice]"
proof (intro conjI)
  have go: "(notice_step True)\<^sup>*\<^sup>* t (one_attempt k t)" if "phase_at t 0 (Ready k)" "\<not> nt_stopped t" for k t
  proof -
    let ?a = "try_send True 0 k 8 t" and ?b = "posted Unconfirmed 0 k (try_send True 0 k 8 t)"
    have "phase_at ?a 0 (Posting k)" "phase_at ?b 0 (Tried k)"
      using that by (simp_all add: try_send_def write_status_def posted_def Let_def)
    with that have "notice_step True t ?a" "notice_step True ?a ?b" "notice_step True ?b (one_attempt k t)"
      unfolding one_attempt_def by (auto intro: notice_step.intros)
    then show ?thesis by (meson rtranclp.rtrancl_into_rtrancl rtranclp.rtrancl_refl)
  qed
  have "phase_at ex_notices 0 (Ready 1)" "\<not> nt_stopped ex_notices"
    "phase_at (one_attempt 1 ex_notices) 0 (Ready 2)" "\<not> nt_stopped (one_attempt 1 ex_notices)"
    "phase_at (one_attempt 2 (one_attempt 1 ex_notices)) 0 (Ready 3)" "\<not> nt_stopped (one_attempt 2 (one_attempt 1 ex_notices))"
    by code_simp+
  note run = go [OF this(1,2)] go [OF this(3,4)] go [OF this(5,6)]
  show "(notice_step True)\<^sup>*\<^sup>* (open_notices []) s"
    unfolding assms
    by (rule rtranclp_trans [OF r_into_rtranclp [of "notice_step True", OF ex_notices_reachable] rtranclp_trans [OF run(1) rtranclp_trans [OF run(2,3)]]])
  show "nt_accepted s = [(''n1'', 1), (''n1'', 2), (''n1'', 3)]" "map nr_status (nt_rows s) = [Failed_Notice]"
    unfolding assms by code_simp+
qed

theorem lost_answers_fail_a_delivered_notice_witness:
  "map nr_status (nt_rows (one_attempt 3 (one_attempt 2 (one_attempt 1 ex_notices)))) = [Failed_Notice]"
  using lost_answers_fail_a_delivered_notice [OF refl] by simp

text \<open>
  When the receiver has accepted the first or second attempt and the row cannot be updated, the delivery counts the attempt
  as failed and sends the notification again.
\<close>

theorem lost_record_sends_again:
  assumes "phase_at s i (Posted k)" and "k \<noteq> 3" and "\<not> nt_stopped s" and "ident = dl_id (nt_threads s ! i)"
    and "s' = posted Confirmed i (k + 1) (try_send True i (k + 1) now (give_up db i k now (record_sent False i k now s)))"
  shows "(notice_step False)\<^sup>*\<^sup>* s s' \<and> nt_accepted s' = nt_accepted s @ [(ident, k + 1)]"
proof
  let ?a = "record_sent False i k now s"
  let ?b = "give_up db i k now ?a"
  let ?c = "try_send True i (k + 1) now ?b"
  have "phase_at ?a i (Tried k)" "phase_at ?b i (Ready (k + 1))" "phase_at ?c i (Posting (k + 1))"
    using assms(1-3) by (simp_all add: record_sent_def give_up_def try_send_def write_status_def)
  then have "notice_step False s ?a" "notice_step False ?a ?b" "notice_step False ?b ?c" "notice_step False ?c s'"
    unfolding assms(5) using assms(1) by (auto intro: notice_step.intros)
  then show "(notice_step False)\<^sup>*\<^sup>* s s'" by (meson rtranclp.rtrancl_into_rtrancl rtranclp.rtrancl_refl)
  show "nt_accepted s' = nt_accepted s @ [(ident, k + 1)]"
    using assms(1-4) by (simp add: assms(5) posted_def Let_def record_sent_def give_up_def try_send_def write_status_def)
qed

theorem lost_record_sends_again_witness:
  "nt_accepted (posted Confirmed 0 2 (try_send True 0 2 9 (give_up True 0 1 9 (record_sent False 0 1 9
     (posted Confirmed 0 1 (try_send True 0 1 8 ex_notices)))))) = [(''n1'', 1), (''n1'', 2)]"
proof -
  let ?s = "posted Confirmed 0 1 (try_send True 0 1 8 ex_notices)"
  have h: "phase_at ?s 0 (Posted 1)" "\<not> nt_stopped ?s" "nt_accepted ?s = [(''n1'', 1)]" "''n1'' = dl_id (nt_threads ?s ! 0)"
    by code_simp+
  have "nt_accepted (posted Confirmed 0 (1 + 1) (try_send True 0 (1 + 1) 9 (give_up True 0 1 9 (record_sent False 0 1 9 ?s))))
      = nt_accepted ?s @ [(''n1'', 1 + 1)]"
    using lost_record_sends_again [OF h(1) _ h(2,4) refl, of 9 True] by simp
  then show ?thesis unfolding h(3) by (simp only: one_add_one append.simps)
qed

section \<open>What a caller is told\<close>

lemma insert_notice_fresh: "nr_id row \<notin> set (map nr_id rows) \<Longrightarrow> \<exists>rows'. insert_notice row rows = Inr rows'"
  by (simp add: insert_notice_def Let_def)

definition enabled_channel :: "(string \<Rightarrow> (string, pyval) dict) \<Rightarrow> string \<Rightarrow> bool" where
  "enabled_channel cfg channel \<longleftrightarrow> truthy (get_default (cfg channel) ''enabled'' PNone)"

lemma enqueue_from_outcome:
  assumes "\<forall>(channel, c) \<in> set cs. ch_db c \<and> ch_pool c" and "distinct (map (ch_id \<circ> snd) cs)"
    and "\<forall>(channel, c) \<in> set cs. ch_id c \<notin> set (map nr_id (nt_rows s))" and "\<not> nt_stopped s"
    and "sent = take (nt_slots s) (filter (\<lambda>e. enabled_channel cfg (fst e)) cs)"
  shows "\<exists>s'. enqueue_from cfg title message cs s = (Inr (map (ch_id \<circ> snd) sent), s')
    \<and> nt_slots s' + length sent = nt_slots s
    \<and> nt_threads s' = nt_threads s @ map (\<lambda>(channel, c). first_delivery channel (cfg channel) title message c) sent"
  using assms
proof (induction cs arbitrary: s sent)
  case (Cons e cs)
  obtain channel c where e: "e = (channel, c)" by (cases e)
  show ?case
  proof (cases "enabled_channel cfg channel \<and> nt_slots s \<noteq> 0")
    case False
    then consider "\<not> enabled_channel cfg channel" | "enabled_channel cfg channel" "nt_slots s = 0" by blast
    then show ?thesis
    proof cases
      case 1
      then show ?thesis using Cons.IH [of s sent] Cons.prems by (simp add: e enabled_channel_def)
    next
      case 2
      then show ?thesis using Cons.prems by (simp add: e enabled_channel_def sem_acquire_def)
    qed
  next
    case True
    obtain rows where rows: "insert_notice (queued_row channel title c) (nt_rows s) = Inr rows"
      using insert_notice_fresh [of "queued_row channel title c" "nt_rows s"] Cons.prems(3) by (auto simp: e)
    obtain n where n: "nt_slots s = Suc n" using True by (cases "nt_slots s") auto
    let ?s = "s\<lparr>nt_slots := n, nt_rows := rows, nt_threads := nt_threads s @ [first_delivery channel (cfg channel) title message c]\<rparr>"
    have acc: "accept_notice channel (cfg channel) title message c s = (Inr (ch_id c), ?s)"
      using rows n Cons.prems(1) by (simp add: e accept_notice_def sem_acquire_def)
    have "ch_id c' \<notin> set (map nr_id rows)" if "(ch', c') \<in> set cs" for ch' c'
    proof
      assume "ch_id c' \<in> set (map nr_id rows)"
      then obtain r where "r \<in> set rows" "nr_id r = ch_id c'" by auto
      with insert_notice_own [OF rows this(1)] that Cons.prems(2,3) show False by (force simp: e)
    qed
    moreover obtain rest where sent: "sent = (channel, c) # rest" "rest = take n (filter (\<lambda>e. enabled_channel cfg (fst e)) cs)"
      using Cons.prems(5) True by (simp add: e n)
    ultimately have "\<exists>s'. enqueue_from cfg title message cs ?s = (Inr (map (ch_id \<circ> snd) rest), s')
      \<and> nt_slots s' + length rest = nt_slots ?s
      \<and> nt_threads s' = nt_threads ?s @ map (\<lambda>(channel, c). first_delivery channel (cfg channel) title message c) rest"
      using Cons.prems by (intro Cons.IH) (auto simp: e)
    then obtain s' where "enqueue_from cfg title message cs ?s = (Inr (map (ch_id \<circ> snd) rest), s')"
      "nt_slots s' + length rest = n"
      "nt_threads s' = nt_threads ?s @ map (\<lambda>(channel, c). first_delivery channel (cfg channel) title message c) rest"
      by auto
    then show ?thesis
      using True acc Cons.prems(4) by (simp add: sent(1) n e enabled_channel_def sem_acquire_def)
  qed
qed simp

text \<open>
  \<open>enqueue\<close> accepts the notification for the enabled channels, in the order telegram, webhook, email, as far as slots are
  free; for the others it is dropped without a row or an error.
\<close>

theorem enqueue_outcome:
  assumes "\<forall>ch \<in> set channels. ch_db (chances ch) \<and> ch_pool (chances ch) \<and> ch_id (chances ch) \<notin> set (map nr_id (nt_rows s))"
    and "distinct (map (ch_id \<circ> chances) channels)" and "\<not> nt_stopped s"
    and "taken = take (nt_slots s) (filter (enabled_channel cfg) channels)"
  shows "\<exists>s'. enqueue cfg title message chances s = (Inr (map (ch_id \<circ> chances) taken), s')
    \<and> nt_slots s' + length taken = nt_slots s
    \<and> nt_threads s' = nt_threads s @ map (\<lambda>ch. first_delivery ch (cfg ch) title message (chances ch)) taken"
proof -
  let ?cs = "map (\<lambda>ch. (ch, chances ch)) channels"
  have taken: "take (nt_slots s) (filter (\<lambda>e. enabled_channel cfg (fst e)) ?cs) = map (\<lambda>ch. (ch, chances ch)) taken"
    by (simp add: assms(4) filter_map comp_def take_map)
  have "\<forall>(channel, c) \<in> set ?cs. ch_db c \<and> ch_pool c" "distinct (map (ch_id \<circ> snd) ?cs)"
    "\<forall>(channel, c) \<in> set ?cs. ch_id c \<notin> set (map nr_id (nt_rows s))"
    using assms(1,2) by (auto simp: comp_def)
  from enqueue_from_outcome [OF this assms(3) taken [symmetric], of title message] show ?thesis
    by (simp add: enqueue_def comp_def)
qed

theorem enqueue_outcome_witness:
  "fst (enqueue (\<lambda>_. [(''enabled'', PBool True)]) ''A'' ''b'' (\<lambda>ch. ex_chance ch) ((open_notices [])\<lparr>nt_slots := 2\<rparr>))
     = Inr [''telegram'', ''webhook'']"
proof -
  have c: "channels = [''telegram'', ''webhook'', ''email'']" by (simp add: channels_def)
  have "\<exists>s'. enqueue (\<lambda>_. [(''enabled'', PBool True)]) ''A'' ''b'' (\<lambda>ch. ex_chance ch) ((open_notices [])\<lparr>nt_slots := 2\<rparr>)
      = (Inr (map (ch_id \<circ> (\<lambda>ch. ex_chance ch)) [''telegram'', ''webhook'']), s')
    \<and> nt_slots s' + length [''telegram'', ''webhook''] = nt_slots ((open_notices [])\<lparr>nt_slots := 2\<rparr>)
    \<and> nt_threads s' = nt_threads ((open_notices [])\<lparr>nt_slots := 2\<rparr>)
        @ map (\<lambda>ch. first_delivery ch [(''enabled'', PBool True)] ''A'' ''b'' (ex_chance ch)) [''telegram'', ''webhook'']"
    by (rule enqueue_outcome) (simp_all add: c ex_chance_def open_notices_def enabled_channel_def get_default_def)
  then show ?thesis by (auto simp: ex_chance_def)
qed

end
