(* ===== verification/Alerts.thy ===== *)
theory Alerts
  imports Inventory Notices
begin

text \<open>
  The alerts of the monitor and what raises them by the clock: \<open>push_alert\<close>, \<open>notify_external\<close>, \<open>_escalate_loop\<close> and \<open>QuotaManager\<close> of
  \<open>netpulse/services.py\<close>, the handlers \<open>alerts\<close> and \<open>alerts_ack\<close> of \<open>netpulse/server.py\<close>, and \<open>netpulse/planner.py\<close>. The database
  answers every query of these parts with rows or with nothing (\<open>execute\<close> never raises); what it, the channels and the clock do is in
  \<open>alert_env\<close>.
\<close>

section \<open>The desk of alerts\<close>

record alert_row =
  al_id :: int
  al_stamp :: stamp
  al_type :: string
  al_message :: string
  al_source :: string
  al_acknowledged :: bool

record live_alert =
  lv_stamp :: stamp
  lv_type :: string
  lv_message :: string
  lv_source :: string

record desk =
  de_rows :: "alert_row list"
  de_next :: int
  de_live :: "live_alert list"
  de_rate :: "(string, real) dict"
  de_notices :: notices

record alert_env =
  ae_now :: real
  ae_stamp :: stamp
  ae_writes :: bool
  ae_section :: "string \<Rightarrow> (string, pyval) dict"
  ae_chance :: "string \<Rightarrow> chance"

definition new_desk :: "notice_row list \<Rightarrow> desk" where
  "new_desk rows = \<lparr>de_rows = [], de_next = 1, de_live = [], de_rate = [], de_notices = open_notices rows\<rparr>"

definition rate_key :: "string \<Rightarrow> string \<Rightarrow> string" where
  "rate_key source alert_type = source @ '':'' @ alert_type"

definition notify_external :: "alert_env \<Rightarrow> string \<Rightarrow> string \<Rightarrow> desk \<Rightarrow> (exn + string list) \<times> desk" where
  "notify_external e alert_type message s =
     (case enqueue (ae_section e) alert_type message (ae_chance e) (de_notices s) of (r, n) \<Rightarrow> (r, s\<lparr>de_notices := n\<rparr>))"

text \<open>Whether the rate lets an alert pass; a rate of zero is none.\<close>

definition rate_allows :: "real \<Rightarrow> string \<Rightarrow> real \<Rightarrow> desk \<Rightarrow> bool" where
  "rate_allows now key rate s \<longleftrightarrow> \<not> (rate \<noteq> 0 \<and> now - get_default (de_rate s) key 0 < rate)"

definition push_alert :: "alert_env \<Rightarrow> string \<Rightarrow> string \<Rightarrow> string \<Rightarrow> real \<Rightarrow> desk \<Rightarrow> desk" where
  "push_alert e alert_type message source rate s =
     (let key = rate_key source alert_type
      in if \<not> rate_allows (ae_now e) key rate s then s
         else let s1 = s\<lparr>de_rate := dict_set key (ae_now e) (de_rate s)\<rparr>;
                  s2 = (if ae_writes e then s1\<lparr>de_rows := de_rows s1 @ [\<lparr>al_id = de_next s1, al_stamp = ae_stamp e, al_type = alert_type,
                          al_message = message, al_source = source, al_acknowledged = False\<rparr>], de_next := de_next s1 + 1\<rparr> else s1);
                  s3 = s2\<lparr>de_live := take 60 (\<lparr>lv_stamp = ae_stamp e, lv_type = alert_type, lv_message = message, lv_source = source\<rparr> # de_live s2)\<rparr>
              in snd (notify_external e alert_type message s3))"

text \<open>\<open>alerts\<close>: the newest rows, the number of unread ones, the live ones.\<close>

definition alerts_answer :: "int \<Rightarrow> desk \<Rightarrow> alert_row list \<times> int \<times> live_alert list" where
  "alerts_answer limit s =
     ((if min limit 300 < 0 then rev (de_rows s) else take (nat (min limit 300)) (rev (de_rows s))),
      int (length (filter (\<lambda>r. \<not> al_acknowledged r) (de_rows s))), take 20 (de_live s))"

text \<open>\<open>alerts_ack\<close>: one row, or all of them when no identifier is given.\<close>

definition alerts_ack :: "bool \<Rightarrow> int option \<Rightarrow> desk \<Rightarrow> desk" where
  "alerts_ack db_writes ident s =
     (if \<not> db_writes then s
      else s\<lparr>de_rows := map (\<lambda>r. if (case ident of None \<Rightarrow> True | Some n \<Rightarrow> n = 0 \<or> al_id r = n) then r\<lparr>al_acknowledged := True\<rparr> else r) (de_rows s)\<rparr>)"

section \<open>Escalation\<close>

definition escalation_title :: "string \<Rightarrow> string" where
  "escalation_title alert_type = utf8 [208, 173, 208, 161, 208, 154, 208, 144, 208, 155, 208, 144, 208, 166,
      208, 152, 208, 175, 58, 32] @ alert_type"

definition escalation_text :: "alert_row \<Rightarrow> string" where
  "escalation_text r = al_message r @ utf8 [32, 40, 209, 129, 32] @ iso (al_stamp r) @ '')''"

text \<open>The rows of a round: not acknowledged, and their stamp is, as a text, at most the one of \<open>datetime(...)\<close>.\<close>

definition overdue_alerts :: "stamp \<Rightarrow> desk \<Rightarrow> alert_row list" where
  "overdue_alerts cutoff s = filter (\<lambda>r. \<not> al_acknowledged r \<and> iso (al_stamp r) \<le> sql_text cutoff) (de_rows s)"

text \<open>
  A round of \<open>_escalate_loop\<close> over these rows with the identifiers notified before. An identifier is noted before its
  notification is queued, and an exception leaves the round.
\<close>

fun escalate_rows :: "(int \<Rightarrow> alert_env) \<Rightarrow> alert_row list \<Rightarrow> int list \<Rightarrow> desk \<Rightarrow> int list \<times> desk" where
  "escalate_rows env [] notified s = (notified, s)"
| "escalate_rows env (r # rs) notified s =
     (if al_id r \<in> set notified then escalate_rows env rs notified s
      else case notify_external (env (al_id r)) (escalation_title (al_type r)) (escalation_text r) s of
             (Inl x, s') \<Rightarrow> (notified @ [al_id r], s')
           | (Inr ids, s') \<Rightarrow> escalate_rows env rs (notified @ [al_id r]) s')"

definition escalate_round :: "(int \<Rightarrow> alert_env) \<Rightarrow> stamp \<Rightarrow> int list \<Rightarrow> desk \<Rightarrow> int list \<times> desk" where
  "escalate_round env cutoff notified s = escalate_rows env (overdue_alerts cutoff s) notified s"

section \<open>Planned work\<close>

record plan_env =
  pn_alert :: alert_env
  pn_str :: "pyval \<Rightarrow> string"

text \<open>\<open>planner_state\<close>, written by \<open>mark_done\<close> only: the time a task was done last. \<open>pl_journal\<close> is what it entered in the journal.\<close>

record plan =
  pl_state :: "(string, real) dict"
  pl_journal :: "(string \<times> string) list"
  pl_desk :: desk

definition planner_config :: "(string, pyval) dict \<Rightarrow> (string, pyval) dict" where
  "planner_config sec = fold (\<lambda>(k, v). dict_set k v) sec [(''enabled'', PBool False), (''tasks'', PList [])]"

definition planner_tasks :: "(string, pyval) dict \<Rightarrow> exn + pyval list" where
  "planner_tasks sec = py_iter (py_or (get_default (planner_config sec) ''tasks'' PNone) (PList []))"

text \<open>The set of the names; a list or a dictionary cannot be put into a set.\<close>

fun task_names :: "pyval list \<Rightarrow> exn + pyval list" where
  "task_names [] = Inr []"
| "task_names (t # ts) =
     bind_sum (val_get t ''name'' PNone) (\<lambda>n.
       case n of PList _ \<Rightarrow> Inl TypeError | PDict _ \<Rightarrow> Inl TypeError | _ \<Rightarrow> map_sum id (Cons n) (task_names ts))"

definition done_text :: "string \<Rightarrow> string" where
  "done_text name = utf8 [226, 156, 147, 32, 208, 159, 208, 187, 208, 176, 208, 189, 208, 190, 208, 178, 208,
      176, 209, 143, 32, 209, 128, 208, 176, 208, 177, 208, 190, 209, 130, 208, 176, 58, 32] @ name"

text \<open>\<open>mark_done\<close>; \<open>None\<close> is the answer that the task is unknown.\<close>

definition mark_done :: "plan_env \<Rightarrow> (string, pyval) dict \<Rightarrow> string \<Rightarrow> string option \<Rightarrow> plan \<Rightarrow> (exn + bool) \<times> plan" where
  "mark_done e sec name actor s =
     (case bind_sum (planner_tasks sec) task_names of
        Inl x \<Rightarrow> (Inl x, s)
      | Inr names \<Rightarrow>
          if PStr name \<notin> set names then (Inr False, s)
          else (Inr True, s\<lparr>pl_state := dict_set name (ae_now (pn_alert e)) (pl_state s),
                  pl_journal := pl_journal s @ [(done_text name, case actor of None \<Rightarrow> ''admin'' | Some a \<Rightarrow> if a = [] then ''admin'' else a)],
                  pl_desk := push_alert (pn_alert e) ''PLANNER_DONE'' (utf8 [208, 146, 209, 139, 208, 191, 208,
      190, 208, 187, 208, 189, 208, 181, 208, 189, 208, 190, 58, 32] @ name) ''planner'' 60 (pl_desk s)\<rparr>))"

record task_status =
  ts_name :: string
  ts_every :: int
  ts_done :: "real option"
  ts_left :: int
  ts_due :: bool

definition every_days :: "pyval \<Rightarrow> int" where
  "every_days v = (case py_int (py_or v (PInt 30)) of Inl x \<Rightarrow> 30 | Inr n \<Rightarrow> max 1 n)"

text \<open>\<open>(now - last).days\<close> rounds down.\<close>

definition days_between :: "real \<Rightarrow> real \<Rightarrow> int" where
  "days_between now then_at = \<lfloor>(now - then_at) / 86400\<rfloor>"

definition plan_text :: "plan_env \<Rightarrow> pyval \<Rightarrow> string" where
  "plan_text e v = (case v of PStr t \<Rightarrow> t | _ \<Rightarrow> pn_str e v)"

definition task_status_of :: "plan_env \<Rightarrow> plan \<Rightarrow> pyval \<Rightarrow> exn + task_status option" where
  "task_status_of e s t =
     bind_sum (val_get t ''name'' PNone) (\<lambda>n.
       let name = py_strip (plan_text e (py_or n (PStr [])))
       in if name = [] then Inr None
          else bind_sum (val_get t ''every_days'' PNone) (\<lambda>d.
            let every = every_days d; done_at = dict_get (pl_state s) name;
                left = (case done_at of None \<Rightarrow> -1 | Some l \<Rightarrow> every - days_between (ae_now (pn_alert e)) l)
            in Inr (Some \<lparr>ts_name = name, ts_every = every, ts_done = done_at, ts_left = left, ts_due = (left \<le> 0)\<rparr>)))"

fun task_statuses :: "plan_env \<Rightarrow> plan \<Rightarrow> pyval list \<Rightarrow> exn + task_status list" where
  "task_statuses e s [] = Inr []"
| "task_statuses e s (t # ts) =
     bind_sum (task_status_of e s t) (\<lambda>o1. map_sum id (\<lambda>xs. case o1 of None \<Rightarrow> xs | Some x \<Rightarrow> x # xs) (task_statuses e s ts))"

definition status_list :: "plan_env \<Rightarrow> (string, pyval) dict \<Rightarrow> plan \<Rightarrow> exn + task_status list" where
  "status_list e sec s = bind_sum (planner_tasks sec) (\<lambda>ts. map_sum id (sort_key ts_left) (task_statuses e s ts))"

definition due_text :: "task_status \<Rightarrow> string" where
  "due_text t = utf8 [208, 159, 208, 187, 208, 176, 208, 189, 208, 190, 208, 178, 208, 176, 209, 143, 32, 209,
      128, 208, 176, 208, 177, 208, 190, 209, 130, 208, 176, 32, 208, 191, 209, 128, 208, 190, 209, 129, 209,
      128, 208, 190, 209, 135, 208, 181, 208, 189, 208, 176, 58, 32] @ ts_name t @ utf8 [32, 40, 208, 186, 208,
      176, 208, 182, 208, 180, 209, 139, 208, 181, 32] @ string_of_int (ts_every t) @ utf8 [32, 208, 180, 208,
      189, 41]"

definition check_alerts :: "plan_env \<Rightarrow> (string, pyval) dict \<Rightarrow> plan \<Rightarrow> (exn + unit) \<times> plan" where
  "check_alerts e sec s =
     (case status_list e sec s of
        Inl x \<Rightarrow> (Inl x, s)
      | Inr ts \<Rightarrow> (Inr (), s\<lparr>pl_desk := fold (\<lambda>t. push_alert (pn_alert e) ''PLANNER_DUE'' (due_text t) ''planner'' 86400)
                       (filter ts_due ts) (pl_desk s)\<rparr>))"

section \<open>Quotas of traffic\<close>

text \<open>\<open>round(x, n)\<close>\<close>

definition py_round_to :: "nat \<Rightarrow> real \<Rightarrow> real" where
  "py_round_to n x = of_int (py_round (x * 10 ^ n)) / 10 ^ n"

record quota_use =
  qu_daily_mb :: real
  qu_daily_limit :: real
  qu_daily_pct :: "real option"
  qu_monthly_gb :: real
  qu_monthly_limit :: real
  qu_monthly_pct :: "real option"

record quota =
  qa_stamp :: real
  qa_data :: "quota_use option"
  qa_desk :: desk

text \<open>\<open>qe_day\<close> and \<open>qe_month\<close> are the sums of the table \<open>traffic\<close>, \<open>None\<close> without rows.\<close>

record quota_env =
  qe_alert :: alert_env
  qe_day :: "real option"
  qe_month :: "real option"
  qe_float :: "pyval \<Rightarrow> exn + real"
  qe_str :: "real \<Rightarrow> string"

definition used :: "real option \<Rightarrow> real \<Rightarrow> real" where
  "used total_bytes unit_bytes = (case total_bytes of None \<Rightarrow> 0 | Some b \<Rightarrow> b) / unit_bytes"

definition percent :: "real \<Rightarrow> real \<Rightarrow> real option" where
  "percent amount limit = (if limit = 0 then None else Some (py_round_to 1 (100 * amount / limit)))"

text \<open>One of the two limits: exhausted, or beyond the warning, or neither.\<close>

definition quota_alert :: "quota_env \<Rightarrow> string \<Rightarrow> string \<Rightarrow> (string \<Rightarrow> string) \<Rightarrow> real \<Rightarrow> real option \<Rightarrow> real \<Rightarrow> desk \<Rightarrow> desk" where
  "quota_alert e alert_type exhausted warning rate pct warn s =
     (case pct of
        None \<Rightarrow> s
      | Some p \<Rightarrow>
          if 100 \<le> p then push_alert (qe_alert e) alert_type exhausted ''quota'' rate s
          else if warn \<le> p then push_alert (qe_alert e) alert_type (warning (qe_str e p)) ''quota'' rate s
          else s)"

definition day_exhausted :: string where
  "day_exhausted = utf8 [208, 148, 208, 189, 208, 181, 208, 178, 208, 189, 208, 190, 208, 185, 32, 208, 187,
      208, 184, 208, 188, 208, 184, 209, 130, 32, 209, 130, 209, 128, 208, 176, 209, 132, 208, 184, 208, 186, 208, 176, 32, 208, 184, 209, 129, 209, 135, 208, 181, 209, 128, 208, 191, 208, 176, 208, 189, 33]"

definition month_exhausted :: string where
  "month_exhausted = utf8 [208, 156, 208, 181, 209, 129, 209, 143, 209, 135, 208, 189, 209, 139, 208, 185, 32,
      208, 187, 208, 184, 208, 188, 208, 184, 209, 130, 32, 209, 130, 209, 128, 208, 176, 209, 132, 208, 184, 208, 186, 208, 176, 32, 208, 184, 209, 129, 209, 135, 208, 181, 209, 128, 208, 191, 208, 176, 208, 189, 33]"

definition day_warning :: "string \<Rightarrow> string" where
  "day_warning p = utf8 [208, 152, 209, 129, 208, 191, 208, 190, 208, 187, 209, 140, 208, 183, 208, 190, 208,
      178, 208, 176, 208, 189, 208, 190, 32] @ p @ utf8 [37, 32, 208, 180, 208, 189, 208, 181, 208, 178, 208,
      189, 208, 190, 208, 179, 208, 190, 32, 208, 187, 208, 184, 208, 188, 208, 184, 209, 130, 208, 176]"

definition month_warning :: "string \<Rightarrow> string" where
  "month_warning p = utf8 [208, 152, 209, 129, 208, 191, 208, 190, 208, 187, 209, 140, 208, 183, 208, 190, 208,
      178, 208, 176, 208, 189, 208, 190, 32] @ p @ utf8 [37, 32, 208, 188, 208, 181, 209, 129, 209, 143, 209,
      135, 208, 189, 208, 190, 208, 179, 208, 190, 32, 208, 187, 208, 184, 208, 188, 208, 184, 209, 130, 208, 176]"

definition quota_refresh :: "quota_env \<Rightarrow> (string, pyval) dict \<Rightarrow> quota \<Rightarrow> (exn + quota_use) \<times> quota" where
  "quota_refresh e q s =
     (let day_mb = used (qe_day e) 1048576; month_gb = used (qe_month e) 1073741824
      in case bind_sum (qe_float e (py_or (get_default q ''daily_mb'' PNone) (PInt 0))) (\<lambda>day_limit.
              bind_sum (qe_float e (py_or (get_default q ''monthly_gb'' PNone) (PInt 0))) (\<lambda>month_limit.
              bind_sum (qe_float e (get_default q ''warn_pct'' (PInt 80))) (\<lambda>warn. Inr (day_limit, month_limit, warn)))) of
           Inl x \<Rightarrow> (Inl x, s)
         | Inr (day_limit, month_limit, warn) \<Rightarrow>
             (let d = \<lparr>qu_daily_mb = py_round_to 1 day_mb, qu_daily_limit = day_limit, qu_daily_pct = percent day_mb day_limit,
                       qu_monthly_gb = py_round_to 3 month_gb, qu_monthly_limit = month_limit, qu_monthly_pct = percent month_gb month_limit\<rparr>;
                  s1 = quota_alert e ''QUOTA_DAY'' day_exhausted day_warning 3600 (qu_daily_pct d) warn (qa_desk s);
                  s2 = quota_alert e ''QUOTA_MONTH'' month_exhausted month_warning 21600 (qu_monthly_pct d) warn s1
              in (Inr d, \<lparr>qa_stamp = ae_now (qe_alert e), qa_data = Some d, qa_desk = s2\<rparr>)))"

text \<open>\<open>usage\<close>: what was computed less than a minute ago is answered again.\<close>

definition quota_usage :: "quota_env \<Rightarrow> (string, pyval) dict \<Rightarrow> quota \<Rightarrow> (exn + quota_use) \<times> quota" where
  "quota_usage e q s =
     (case qa_data s of
        Some d \<Rightarrow> if ae_now (qe_alert e) - qa_stamp s < 60 then (Inr d, s) else quota_refresh e q s
      | None \<Rightarrow> quota_refresh e q s)"

section \<open>The rate of an alert\<close>

lemma notify_external_frame [simp]:
  "de_rows (snd (notify_external e t m s)) = de_rows s" "de_live (snd (notify_external e t m s)) = de_live s"
  "de_rate (snd (notify_external e t m s)) = de_rate s" "de_next (snd (notify_external e t m s)) = de_next s"
  by (simp_all add: notify_external_def case_prod_unfold)

lemma push_alert_rate:
  "de_rate (push_alert e t m src rate s) =
     (if rate_allows (ae_now e) (rate_key src t) rate s then dict_set (rate_key src t) (ae_now e) (de_rate s) else de_rate s)"
  by (simp add: push_alert_def Let_def)

lemma push_alert_live:
  "de_live (push_alert e t m src rate s) =
     (if rate_allows (ae_now e) (rate_key src t) rate s
      then take 60 (\<lparr>lv_stamp = ae_stamp e, lv_type = t, lv_message = m, lv_source = src\<rparr> # de_live s) else de_live s)"
  by (simp add: push_alert_def Let_def)

lemma push_alert_refused: "\<not> rate_allows (ae_now e) (rate_key src t) rate s \<Longrightarrow> push_alert e t m src rate s = s"
  by (simp add: push_alert_def)

lemma push_alert_rows:
  "de_rows (push_alert e t m src rate s) =
     (if rate_allows (ae_now e) (rate_key src t) rate s \<and> ae_writes e
      then de_rows s @ [\<lparr>al_id = de_next s, al_stamp = ae_stamp e, al_type = t, al_message = m, al_source = src, al_acknowledged = False\<rparr>]
      else de_rows s)"
  by (simp add: push_alert_def Let_def)

lemma push_alert_next:
  "de_next (push_alert e t m src rate s) = (if rate_allows (ae_now e) (rate_key src t) rate s \<and> ae_writes e then de_next s + 1 else de_next s)"
  by (simp add: push_alert_def Let_def)

lemmas push_alert_simps = push_alert_rate push_alert_live push_alert_rows push_alert_next

text \<open>A push of the history: when, of which type and source, with which rate. \<open>passed\<close> tells which were let through.\<close>

type_synonym push = "alert_env \<times> string \<times> string \<times> string \<times> real"

definition push_one :: "push \<Rightarrow> desk \<Rightarrow> desk" where
  "push_one p s = (case p of (e, t, m, src, rate) \<Rightarrow> push_alert e t m src rate s)"

definition lets_pass :: "push \<Rightarrow> desk \<Rightarrow> bool" where
  "lets_pass p s = (case p of (e, t, m, src, rate) \<Rightarrow> rate_allows (ae_now e) (rate_key src t) rate s)"

fun passed :: "push list \<Rightarrow> desk \<Rightarrow> push list" where
  "passed [] s = []"
| "passed (p # ps) s = (if lets_pass p s then p # passed ps (push_one p s) else passed ps (push_one p s))"

definition push_time :: "push \<Rightarrow> real" where
  "push_time p = ae_now (fst p)"

definition push_key :: "push \<Rightarrow> string" where
  "push_key p = (case p of (e, t, m, src, rate) \<Rightarrow> rate_key src t)"

definition push_rate :: "push \<Rightarrow> real" where
  "push_rate p = (case p of (e, t, m, src, rate) \<Rightarrow> rate)"

definition live_of :: "push \<Rightarrow> live_alert" where
  "live_of p = (case p of (e, t, m, src, rate) \<Rightarrow> \<lparr>lv_stamp = ae_stamp e, lv_type = t, lv_message = m, lv_source = src\<rparr>)"

lemma push_one_live:
  "de_live (push_one p s) = (if lets_pass p s then take 60 (live_of p # de_live s) else de_live s)"
  "dict_get (de_rate (push_one p s)) k = (if lets_pass p s \<and> k = push_key p then Some (push_time p) else dict_get (de_rate s) k)"
  by (cases p; simp add: push_one_def lets_pass_def live_of_def push_key_def push_time_def push_alert_simps)+

lemma lets_pass_gap:
  "lets_pass p s \<Longrightarrow> dict_get (de_rate s) (push_key p) = Some t \<Longrightarrow> push_rate p \<noteq> 0 \<Longrightarrow> push_rate p \<le> push_time p - t"
  by (cases p) (simp add: lets_pass_def rate_allows_def push_key_def push_time_def push_rate_def get_default_def)

text \<open>After a push at time \<open>t\<close>, whatever passes later with its key and a rate comes at least that rate after \<open>t\<close>.\<close>

lemma passed_later:
  assumes "\<forall>p \<in> set ps. t0 \<le> push_time p" and "sorted (map push_time ps)"
    and "dict_get (de_rate s) key = Some t1" and "t0 \<le> t1" and "\<forall>p \<in> set ps. t1 \<le> push_time p"
    and "q \<in> set (passed ps s)" and "push_key q = key" and "push_rate q \<noteq> 0"
  shows "push_rate q \<le> push_time q - t0"
  using assms
proof (induction ps arbitrary: s t1)
  case (Cons p ps)
  show ?case
  proof (cases "lets_pass p s \<and> q = p")
    case True
    then show ?thesis using lets_pass_gap [of p s t1] Cons.prems(3,4,7,8) by auto
  next
    case False
    then have q: "q \<in> set (passed ps (push_one p s))" using Cons.prems(6) by (auto split: if_splits)
    show ?thesis
    proof (cases "lets_pass p s \<and> key = push_key p")
      case True
      then show ?thesis
        using Cons.IH [of "push_one p s" "push_time p"] Cons.prems q by (auto simp: push_one_live)
    next
      case False
      then show ?thesis
        using Cons.IH [of "push_one p s" t1] Cons.prems q by (auto simp: push_one_live)
    qed
  qed
qed simp

text \<open>
  An alert with a rate is let through only when none of its source and type was let through less than that time before, whatever
  was pushed in between.
\<close>

theorem alert_rate_kept:
  assumes "sorted (map push_time ps)" and "i < j" and "j < length (passed ps s)"
    and "push_key (passed ps s ! i) = push_key (passed ps s ! j)" and "push_rate (passed ps s ! j) \<noteq> 0"
  shows "push_rate (passed ps s ! j) \<le> push_time (passed ps s ! j) - push_time (passed ps s ! i)"
  using assms
proof (induction ps arbitrary: s i j)
  case (Cons p ps)
  show ?case
  proof (cases "lets_pass p s")
    case True
    obtain j' where j: "j = Suc j'" using Cons.prems(2) by (cases j) auto
    show ?thesis
    proof (cases i)
      case 0
      let ?q = "passed ps (push_one p s) ! j'"
      have q: "?q \<in> set (passed ps (push_one p s))" using Cons.prems(3) True by (simp add: j)
      have "push_rate ?q \<le> push_time ?q - push_time p"
        by (rule passed_later [of ps "push_time p" "push_one p s" "push_key p" "push_time p", OF _ _ _ _ _ q])
          (use Cons.prems 0 j True in \<open>auto simp: push_one_live(2)\<close>)
      then show ?thesis using True 0 j by simp
    next
      case (Suc i')
      then show ?thesis using Cons.IH [of i' j' "push_one p s"] Cons.prems True by (simp add: j)
    qed
  next
    case False
    then show ?thesis using Cons.IH [of i j "push_one p s"] Cons.prems by simp
  qed
qed simp

definition ex_alert_env :: "real \<Rightarrow> alert_env" where
  "ex_alert_env t = \<lparr>ae_now = t, ae_stamp = \<lparr>ts_date = ''2024-05-01'', ts_time = ''10:00:00''\<rparr>, ae_writes = True,
     ae_section = (\<lambda>_. []), ae_chance = (\<lambda>_. ex_chance ''n1'')\<rparr>"

theorem alert_rate_kept_witness:
  "map push_time (passed (map (\<lambda>t. (ex_alert_env t, ''T'', ''m'', ''s'', 60)) [100, 130, 170]) (new_desk [])) = [100, 170]
   \<and> (60::real) \<le> 170 - 100"
proof -
  let ?p = "\<lambda>t::real. (ex_alert_env t, ''T'', ''m'', ''s'', 60::real)"
  have l: "passed (map ?p [100, 130, 170]) (new_desk []) = [?p 100, ?p 170]"
    by (simp add: lets_pass_def push_one_def push_alert_rate rate_allows_def get_default_def new_desk_def ex_alert_env_def)
  have "push_rate (passed (map ?p [100, 130, 170]) (new_desk []) ! 1)
      \<le> push_time (passed (map ?p [100, 130, 170]) (new_desk []) ! 1) - push_time (passed (map ?p [100, 130, 170]) (new_desk []) ! 0)"
    by (rule alert_rate_kept) (simp_all only: l, simp_all add: push_time_def push_key_def push_rate_def ex_alert_env_def)
  then show ?thesis unfolding l by (simp add: push_time_def push_rate_def ex_alert_env_def)
qed

text \<open>The live list is the newest sixty of what was let through.\<close>

lemma take_append_take: "take n (xs @ take n ys) = take n (xs @ ys)"
  by (simp add: min_def)

lemma live_newest: "de_live (fold push_one ps s) = take 60 (rev (map live_of (passed ps s)) @ de_live s)" if "length (de_live s) \<le> 60"
  using that
proof (induction ps arbitrary: s)
  case (Cons p ps)
  show ?case
  proof (cases "lets_pass p s")
    case True
    let ?r = "rev (map live_of (passed ps (push_one p s)))"
    have "de_live (fold push_one ps (push_one p s)) = take 60 (?r @ de_live (push_one p s))"
      by (rule Cons.IH) (simp add: push_one_live True)
    also have "\<dots> = take 60 (?r @ take 60 (live_of p # de_live s))" by (simp add: push_one_live True)
    also have "\<dots> = take 60 (?r @ live_of p # de_live s)" by (rule take_append_take)
    finally show ?thesis using True by simp
  next
    case False
    then show ?thesis using Cons.IH [of "push_one p s"] Cons.prems by (simp add: push_one_live)
  qed
qed simp

section \<open>What the planner announces and forgets\<close>

lemma later_same_key_refused:
  assumes "rate_allows (ae_now e) (rate_key src t) rate s" and "0 < rate"
  shows "fold (\<lambda>m. push_alert e t m src rate) ms (push_alert e t m0 src rate s) = push_alert e t m0 src rate s"
proof -
  let ?s = "push_alert e t m0 src rate s"
  have "\<not> rate_allows (ae_now e) (rate_key src t) rate ?s"
    using assms by (simp add: rate_allows_def push_alert_rate get_default_def)
  then have "push_alert e t m src rate ?s = ?s" for m by (rule push_alert_refused)
  then show ?thesis by (induction ms) simp_all
qed

lemma none_allowed: "\<not> rate_allows (ae_now e) (rate_key src t) rate s \<Longrightarrow> fold (\<lambda>m. push_alert e t m src rate) ms s = s"
  by (induction ms) (simp_all add: push_alert_refused)

text \<open>
  Of all the planned work that is due only one item is announced: the rate of one alert a day counts for the whole planner, and the
  first of the sorted list uses it up.
\<close>

theorem only_first_due_announced:
  assumes "status_list e sec s = Inr ts" and "filter ts_due ts = d # ds" and "check_alerts e sec s = (r, s')"
  shows "pl_desk s' = push_alert (pn_alert e) ''PLANNER_DUE'' (due_text d) ''planner'' 86400 (pl_desk s) \<and> r = Inr ()"
proof -
  let ?e = "pn_alert e"
  have "fold (\<lambda>t. push_alert ?e ''PLANNER_DUE'' (due_text t) ''planner'' 86400) (d # ds) (pl_desk s)
      = fold (\<lambda>m. push_alert ?e ''PLANNER_DUE'' m ''planner'' 86400) (map due_text ds)
          (push_alert ?e ''PLANNER_DUE'' (due_text d) ''planner'' 86400 (pl_desk s))"
    by (simp add: fold_map comp_def)
  also have "\<dots> = push_alert ?e ''PLANNER_DUE'' (due_text d) ''planner'' 86400 (pl_desk s)"
  proof (cases "rate_allows (ae_now ?e) (rate_key ''planner'' ''PLANNER_DUE'') 86400 (pl_desk s)")
    case True
    then show ?thesis by (rule later_same_key_refused) simp
  next
    case False
    then show ?thesis by (simp add: push_alert_refused none_allowed)
  qed
  finally show ?thesis using assms by (auto simp: check_alerts_def)
qed

definition ex_plan_env :: "real \<Rightarrow> plan_env" where
  "ex_plan_env t = \<lparr>pn_alert = ex_alert_env t, pn_str = (\<lambda>_. [])\<rparr>"

definition ex_tasks :: "(string, pyval) dict" where
  "ex_tasks = [(''tasks'', PList [PDict [(''name'', PStr ''toner'')], PDict [(''name'', PStr '' ups''), (''every_days'', PInt 7)]])]"

definition ex_plan :: plan where
  "ex_plan = \<lparr>pl_state = [], pl_journal = [], pl_desk = new_desk []\<rparr>"

theorem only_first_due_announced_witness:
  "map al_message (de_rows (pl_desk (snd (check_alerts (ex_plan_env 90000) ex_tasks ex_plan)))) = [due_text \<lparr>ts_name = ''toner'', ts_every = 30,
     ts_done = None, ts_left = -1, ts_due = True\<rparr>]"
proof -
  let ?t = "\<lparr>ts_name = ''toner'', ts_every = 30, ts_done = None, ts_left = -1, ts_due = True\<rparr>"
  let ?u = "\<lparr>ts_name = ''ups'', ts_every = 7, ts_done = None, ts_left = -1, ts_due = True\<rparr>"
  obtain r s' where run: "check_alerts (ex_plan_env 90000) ex_tasks ex_plan = (r, s')" by force
  have "status_list (ex_plan_env 90000) ex_tasks ex_plan = Inr [?t, ?u]" by code_simp
  from only_first_due_announced [OF this _ run, of ?t "[?u]"]
  have "pl_desk s' = push_alert (ex_alert_env 90000) ''PLANNER_DUE'' (due_text ?t) ''planner'' 86400 (new_desk [])"
    by (simp add: ex_plan_env_def ex_plan_def)
  then show ?thesis
    unfolding run by (simp add: push_alert_rows rate_allows_def new_desk_def get_default_def ex_alert_env_def)
qed

lemma mark_done_state:
  "mark_done e sec name actor s = (r, s') \<Longrightarrow>
     dict_get (pl_state s') k = (if r = Inr True \<and> k = name then Some (ae_now (pn_alert e)) else dict_get (pl_state s) k)"
  by (auto simp: mark_done_def split: sum.splits if_splits)

lemma mark_done_known:
  "mark_done e sec name actor s = (Inr True, s') \<Longrightarrow> \<exists>names. bind_sum (planner_tasks sec) task_names = Inr names \<and> PStr name \<in> set names"
  by (auto simp: mark_done_def split: sum.splits if_splits)

text \<open>
  A task whose configured name has blanks around it can never be marked as done: the list shows its stripped name, under which
  nothing is ever recorded, so it is due for ever, whichever names are marked.
\<close>

theorem padded_task_due_for_ever:
  assumes "bind_sum (planner_tasks sec) task_names = Inr names" and "PStr (py_strip name) \<notin> set names"
    and "dict_get (pl_state s) (py_strip name) = None" and "py_strip name \<noteq> []"
    and "s' = fold (\<lambda>(e, n, actor) s. snd (mark_done e sec n actor s)) marks s"
  shows "task_status_of e s' (PDict [(''name'', PStr name)])
    = Inr (Some \<lparr>ts_name = py_strip name, ts_every = 30, ts_done = None, ts_left = -1, ts_due = True\<rparr>)"
proof -
  have keep: "dict_get (pl_state (snd (mark_done e1 sec n actor s1))) (py_strip name) = dict_get (pl_state s1) (py_strip name)" for e1 n actor s1
  proof -
    obtain r s2 where run: "mark_done e1 sec n actor s1 = (r, s2)" by force
    then have "\<not> (r = Inr True \<and> py_strip name = n)" using mark_done_known [of e1 sec n actor s1 s2] assms(1,2) by auto
    then show ?thesis using mark_done_state [OF run, of "py_strip name"] run by auto
  qed
  have "dict_get (pl_state (fold (\<lambda>(e, n, actor) s. snd (mark_done e sec n actor s)) marks s)) (py_strip name)
      = dict_get (pl_state s) (py_strip name)"
    by (induction marks arbitrary: s) (simp_all add: case_prod_unfold keep)
  then have none: "dict_get (pl_state s') (py_strip name) = None" using assms(3,5) by simp
  have "py_or (PStr name) (PStr []) = PStr name" using assms(4) by (cases name) (simp_all add: py_strip_def)
  then show ?thesis using none assms(4)
    by (simp add: task_status_of_def get_default_def plan_text_def every_days_def py_or_def Let_def)
qed

theorem padded_task_due_for_ever_witness:
  "task_status_of (ex_plan_env 9) (snd (mark_done (ex_plan_env 8) ex_tasks '' ups'' None ex_plan)) (PDict [(''name'', PStr '' ups'')])
     = Inr (Some \<lparr>ts_name = ''ups'', ts_every = 30, ts_done = None, ts_left = -1, ts_due = True\<rparr>)"
proof -
  have h: "bind_sum (planner_tasks ex_tasks) task_names = Inr [PStr ''toner'', PStr '' ups'']" "py_strip '' ups'' = ''ups''"
    by code_simp+
  have "task_status_of (ex_plan_env 9) (snd (mark_done (ex_plan_env 8) ex_tasks '' ups'' None ex_plan)) (PDict [(''name'', PStr '' ups'')])
     = Inr (Some \<lparr>ts_name = py_strip '' ups'', ts_every = 30, ts_done = None, ts_left = -1, ts_due = True\<rparr>)"
    by (rule padded_task_due_for_ever [OF h(1), of _ ex_plan _ "[(ex_plan_env 8, '' ups'', None)]"]) (simp_all add: h(2) ex_plan_def)
  then show ?thesis by (simp add: h(2))
qed

text \<open>A task that is marked under its own name is done now, with the whole interval left.\<close>

lemma marked_task_is_done:
  assumes "mark_done e sec name actor s = (Inr True, s')" and "py_strip name = name" and "name \<noteq> []" and "1 \<le> d"
    and "ae_now (pn_alert e') = ae_now (pn_alert e)"
  shows "task_status_of e' s' (PDict [(''name'', PStr name), (''every_days'', PInt d)])
    = Inr (Some \<lparr>ts_name = name, ts_every = d, ts_done = Some (ae_now (pn_alert e)), ts_left = d, ts_due = False\<rparr>)"
  using mark_done_state [OF assms(1), of name] assms(2-5)
  by (simp add: task_status_of_def get_default_def plan_text_def every_days_def py_or_def Let_def days_between_def)

section \<open>What is escalated\<close>

lemma overdue_by_date:
  assumes "length (ts_date t) = length (ts_date u)"
  shows "iso t \<le> sql_text u \<longleftrightarrow> ts_date t < ts_date u"
  using in_window_date [of u t] assms unfolding in_window_def by (simp add: not_less [symmetric])

lemma escalate_rows_notified:
  "\<exists>new. fst (escalate_rows env rs notified s) = notified @ new \<and> distinct new \<and> set new \<inter> set notified = {}
     \<and> set new \<subseteq> al_id ` set rs"
proof (induction rs arbitrary: notified s)
  case (Cons r rs)
  show ?case
  proof (cases "al_id r \<in> set notified")
    case True
    then show ?thesis using Cons.IH [of notified s] by (auto simp del: ex_simps)
  next
    case False
    obtain res s1 where q: "notify_external (env (al_id r)) (escalation_title (al_type r)) (escalation_text r) s = (res, s1)" by force
    show ?thesis
    proof (cases res)
      case (Inl x)
      then show ?thesis using False q by (intro exI [of _ "[al_id r]"]) simp
    next
      case (Inr ids)
      obtain new where "fst (escalate_rows env rs (notified @ [al_id r]) s1) = (notified @ [al_id r]) @ new" "distinct new"
        "set new \<inter> set (notified @ [al_id r]) = {}" "set new \<subseteq> al_id ` set rs"
        using Cons.IH [of "notified @ [al_id r]" s1] by blast
      then show ?thesis using False q Inr by (intro exI [of _ "al_id r # new"]) auto
    qed
  qed
qed simp

lemma escalate_rows_skip:
  "(\<And>r. r \<in> set rs \<Longrightarrow> al_id r \<in> set notified) \<Longrightarrow> escalate_rows env rs notified s = (notified, s)"
  by (induction rs) simp_all

text \<open>
  Escalation never repeats an alert, and it takes only unacknowledged ones from days before that of the cutoff: an alert waits until
  midnight however short the configured time is.
\<close>

theorem escalation_by_date:
  assumes "escalate_round env cutoff notified s = (notified', s')" and "\<forall>r \<in> set (de_rows s). length (ts_date (al_stamp r)) = length (ts_date cutoff)"
    and "distinct notified"
  shows "distinct notified' \<and> (\<forall>n \<in> set notified' - set notified. \<exists>r \<in> set (de_rows s). al_id r = n \<and> \<not> al_acknowledged r
      \<and> ts_date (al_stamp r) < ts_date cutoff)"
proof -
  obtain new where new: "notified' = notified @ new" "distinct new" "set new \<inter> set notified = {}"
    "set new \<subseteq> al_id ` set (overdue_alerts cutoff s)"
    using escalate_rows_notified [of env "overdue_alerts cutoff s" notified s] assms(1) by (auto simp: escalate_round_def)
  have "\<exists>r \<in> set (de_rows s). al_id r = n \<and> \<not> al_acknowledged r \<and> ts_date (al_stamp r) < ts_date cutoff" if "n \<in> set new" for n
    using new(4) that assms(2) overdue_by_date [of _ cutoff] by (fastforce simp: overdue_alerts_def)
  then show ?thesis using new assms(3) by auto
qed

text \<open>
  An escalation that raises is lost: the alert counts as notified, the rest of the round is dropped, and later rounds
  pass over it.
\<close>

theorem failed_escalation_is_lost:
  assumes "overdue_alerts cutoff s = r # rs" and "al_id r \<notin> set notified"
    and "notify_external (env (al_id r)) (escalation_title (al_type r)) (escalation_text r) s = (Inl x, s1)"
  shows "escalate_round env cutoff notified s = (notified @ [al_id r], s1)
    \<and> (\<forall>env' cutoff' s2. (\<forall>r' \<in> set (overdue_alerts cutoff' s2). al_id r' = al_id r) \<longrightarrow>
         escalate_round env' cutoff' (notified @ [al_id r]) s2 = (notified @ [al_id r], s2))"
  using assms by (auto simp: escalate_round_def intro!: escalate_rows_skip)

definition ex_alert_row :: alert_row where
  "ex_alert_row = \<lparr>al_id = 4, al_stamp = \<lparr>ts_date = ''2024-05-01'', ts_time = ''00:10:00''\<rparr>, al_type = ''T'', al_message = ''m'', al_source = ''s'',
     al_acknowledged = False\<rparr>"

definition ex_noisy_env :: "bool \<Rightarrow> alert_env" where
  "ex_noisy_env db = (ex_alert_env 5)\<lparr>ae_section := (\<lambda>_. [(''enabled'', PBool True)]),
     ae_chance := (\<lambda>ch. (ex_chance ch)\<lparr>ch_db := db\<rparr>)\<rparr>"

theorem escalation_by_date_witness:
  "fst (escalate_round (\<lambda>_. ex_noisy_env True) \<lparr>ts_date = ''2024-05-02'', ts_time = ''00:00:01''\<rparr> [] ((new_desk [])\<lparr>de_rows := [ex_alert_row]\<rparr>)) = [4]
   \<and> fst (escalate_round (\<lambda>_. ex_noisy_env True) \<lparr>ts_date = ''2024-05-01'', ts_time = ''23:59:59''\<rparr> [] ((new_desk [])\<lparr>de_rows := [ex_alert_row]\<rparr>)) = []"
proof
  let ?s = "(new_desk [])\<lparr>de_rows := [ex_alert_row]\<rparr>" and ?late = "\<lparr>ts_date = ''2024-05-01'', ts_time = ''23:59:59''\<rparr>"
  show "fst (escalate_round (\<lambda>_. ex_noisy_env True) \<lparr>ts_date = ''2024-05-02'', ts_time = ''00:00:01''\<rparr> [] ?s) = [4]" by code_simp
  obtain n s' where run: "escalate_round (\<lambda>_. ex_noisy_env True) ?late [] ?s = (n, s')" by force
  have "\<forall>k \<in> set n. \<exists>r \<in> set (de_rows ?s). al_id r = k \<and> \<not> al_acknowledged r \<and> ts_date (al_stamp r) < ts_date ?late"
    using escalation_by_date [OF run] by (simp add: ex_alert_row_def)
  then have "set n = {}" by (auto simp: ex_alert_row_def)
  then show "fst (escalate_round (\<lambda>_. ex_noisy_env True) ?late [] ?s) = []" using run by simp
qed

theorem failed_escalation_is_lost_witness:
  "fst (escalate_round (\<lambda>_. ex_noisy_env True) \<lparr>ts_date = ''2024-05-02'', ts_time = ''00:00:01''\<rparr>
     (fst (escalate_round (\<lambda>_. ex_noisy_env False) \<lparr>ts_date = ''2024-05-02'', ts_time = ''00:00:01''\<rparr> [] ((new_desk [])\<lparr>de_rows := [ex_alert_row]\<rparr>)))
     ((new_desk [])\<lparr>de_rows := [ex_alert_row]\<rparr>)) = [4]"
proof -
  let ?s = "(new_desk [])\<lparr>de_rows := [ex_alert_row]\<rparr>" and ?late = "\<lparr>ts_date = ''2024-05-02'', ts_time = ''00:00:01''\<rparr>"
  have h: "overdue_alerts ?late ?s = [ex_alert_row]" "al_id ex_alert_row = 4" by code_simp+
  obtain x s1 where "notify_external (ex_noisy_env False) (escalation_title (al_type ex_alert_row)) (escalation_text ex_alert_row) ?s = (Inl x, s1)"
    by (simp add: notify_external_def enqueue_def channels_def new_desk_def open_notices_def ex_noisy_env_def ex_alert_env_def get_default_def
        sem_acquire_def notice_slots_def accept_notice_def ex_chance_def)
  from failed_escalation_is_lost [of ?late ?s ex_alert_row "[]" "[]" "\<lambda>_. ex_noisy_env False", OF h(1) _ this] show ?thesis
    by (simp add: h)
qed

section \<open>What a quota announces\<close>

text \<open>The day's alert is the only one of its type, and the month's does not touch its rate.\<close>

lemma quota_alert_cases:
  "quota_alert e t ex w rate pct warn s = s
   \<or> (\<exists>p m. pct = Some p \<and> quota_alert e t ex w rate pct warn s = push_alert (qe_alert e) t m ''quota'' rate s
        \<and> (100 \<le> p \<and> m = ex \<or> p < 100 \<and> warn \<le> p \<and> m = w (qe_str e p)))"
  by (cases pct) (auto simp: quota_alert_def)

lemma push_alert_other_key:
  "rate_key src t \<noteq> k \<Longrightarrow> dict_get (de_rate (push_alert e t m src rate s)) k = dict_get (de_rate s) k"
  by (simp add: push_alert_rate)

text \<open>
  Within an hour after a warning about the daily limit its exhaustion is not announced, although the answer shows a hundred percent:
  both alerts share one rate.
\<close>

theorem exhaustion_hidden_by_warning:
  assumes "push_alert (qe_alert e0) ''QUOTA_DAY'' (day_warning p) ''quota'' 3600 s0 = s"
    and "rate_allows (ae_now (qe_alert e0)) (rate_key ''quota'' ''QUOTA_DAY'') 3600 s0"
    and "ae_now (qe_alert e) < ae_now (qe_alert e0) + 3600"
    and "quota_refresh e q \<lparr>qa_stamp = t, qa_data = old, qa_desk = s\<rparr> = (Inr d, s')"
    and "qu_daily_pct d = Some pct" and "100 \<le> pct" and "qu_monthly_limit d = 0"
  shows "qa_desk s' = s \<and> qa_data s' = Some d"
proof -
  have "dict_get (de_rate s) (rate_key ''quota'' ''QUOTA_DAY'') = Some (ae_now (qe_alert e0))"
    using assms(1,2) by (auto simp: push_alert_rate)
  then have refused: "push_alert (qe_alert e) ''QUOTA_DAY'' m ''quota'' 3600 s = s" for m
    using assms(3) by (intro push_alert_refused) (simp add: rate_allows_def get_default_def)
  have "quota_alert e ''QUOTA_DAY'' day_exhausted day_warning 3600 x warn s = s" for x warn
    using quota_alert_cases [of e "''QUOTA_DAY''" day_exhausted day_warning 3600 x warn s] by (auto simp: refused)
  moreover have "quota_alert e ''QUOTA_MONTH'' month_exhausted month_warning 21600 None warn s2 = s2" for warn s2
    by (simp add: quota_alert_def)
  ultimately show ?thesis
    using assms(4,5,7) by (auto simp: quota_refresh_def percent_def Let_def split: sum.splits)
qed

definition ex_quota_env :: "real \<Rightarrow> real \<Rightarrow> quota_env" where
  "ex_quota_env t mb = \<lparr>qe_alert = ex_alert_env t, qe_day = Some (mb * 1048576), qe_month = None,
     qe_float = (\<lambda>v. case v of PInt n \<Rightarrow> Inr (of_int n) | _ \<Rightarrow> Inl ValueError), qe_str = (\<lambda>x. string_of_int \<lfloor>x\<rfloor>)\<rparr>"

theorem exhaustion_hidden_by_warning_witness:
  "\<exists>d s'. quota_refresh (ex_quota_env 8000 100) [(''daily_mb'', PInt 100)]
       \<lparr>qa_stamp = 0, qa_data = None, qa_desk = push_alert (ex_alert_env 5000) ''QUOTA_DAY'' (day_warning ''80'') ''quota'' 3600 (new_desk [])\<rparr> = (Inr d, s')
     \<and> qu_daily_pct d = Some 100 \<and> map al_message (de_rows (qa_desk s')) = [day_warning ''80'']"
proof -
  let ?s = "push_alert (ex_alert_env 5000) ''QUOTA_DAY'' (day_warning ''80'') ''quota'' 3600 (new_desk [])"
  let ?q = "\<lparr>qa_stamp = 0, qa_data = None, qa_desk = ?s\<rparr>"
  have pass: "rate_allows (ae_now (qe_alert (ex_quota_env 5000 80))) (rate_key ''quota'' ''QUOTA_DAY'') 3600 (new_desk [])"
    by (simp add: rate_allows_def new_desk_def get_default_def ex_quota_env_def ex_alert_env_def)
  obtain d s' where run: "quota_refresh (ex_quota_env 8000 100) [(''daily_mb'', PInt 100)] ?q = (Inr d, s')"
    and d: "qu_daily_pct d = Some 100" "qu_monthly_limit d = 0"
    by (auto simp: quota_refresh_def ex_quota_env_def get_default_def py_or_def percent_def used_def py_round_to_def py_round_def Let_def)
  have env: "qe_alert (ex_quota_env t x) = ex_alert_env t" "ae_now (ex_alert_env t) = t" for t x
    by (simp_all add: ex_quota_env_def ex_alert_env_def)
  have "qa_desk s' = ?s"
    using exhaustion_hidden_by_warning [OF _ pass _ run d(1) _ d(2), of "''80''"] by (simp add: env)
  then have "map al_message (de_rows (qa_desk s')) = [day_warning ''80'']"
    using pass by (simp add: push_alert_rows env) (simp add: new_desk_def ex_alert_env_def)
  then show ?thesis using run d(1) by (intro exI [of _ d] exI [of _ s']) simp
qed

text \<open>Acknowledging without an identifier leaves nothing unread.\<close>

lemma ack_all_unread: "fst (snd (alerts_answer n (alerts_ack True None s))) = 0"
  by (simp add: alerts_answer_def alerts_ack_def filter_empty_conv)

end
