(* ===== verification/Sampler.thy ===== *)
theory Sampler
  imports Alerts
begin

text \<open>
  The intrusion detection of the monitor: \<open>ProcessMonitor\<close> of \<open>netpulse/services.py\<close>. Every two seconds the connections of the machine
  are sampled; new endpoints become events, many ports of one address a scan, a suspicious port an alert. The connections, the process
  names and the counters of input and output are arguments of a sample, as is the order in which Python visits a set of process numbers.
\<close>

section \<open>State\<close>

record conn_row =
  cn_pid :: "int option"
  cn_status :: string
  cn_lport :: "int option"
  cn_remote :: "(string \<times> int) option"

record endpoint_event =
  ee_time :: real
  ee_pid :: int
  ee_process :: string
  ee_remote :: string
  ee_lport :: int
  ee_suspicious :: bool

record ids_event =
  ie_time :: real
  ie_type :: string
  ie_message :: string

record process_row =
  pw_name :: string
  pw_conns :: nat
  pw_established :: nat
  pw_io :: real

record sampler =
  sa_seen :: "(int \<times> string, real) dict"
  sa_windows :: "(string, int list) dict"
  sa_last :: "(string, real) dict"
  sa_io :: "(int, real) dict"
  sa_processes :: "(int, process_row) dict"
  sa_events :: "endpoint_event list"
  sa_ids :: "ids_event list"
  sa_desk :: desk

definition new_sampler :: "desk \<Rightarrow> sampler" where
  "new_sampler d = \<lparr>sa_seen = [], sa_windows = [], sa_last = [], sa_io = [], sa_processes = [], sa_events = [], sa_ids = [], sa_desk = d\<rparr>"

text \<open>\<open>sp_str\<close> is \<open>str\<close> of a value that is no text; \<open>sp_text\<close> formats the window without digits after the point.\<close>

record sample_env =
  sp_alert :: alert_env
  sp_names :: "(int, string) dict"
  sp_window :: real
  sp_suspicious :: "int list"
  sp_threshold :: int
  sp_on :: bool
  sp_whitelist :: "pyval list"
  sp_str :: "pyval \<Rightarrow> string"
  sp_text :: "real \<Rightarrow> string"
  sp_io :: "int \<Rightarrow> real option"
  sp_order :: "int list \<Rightarrow> int list"

section \<open>Raising\<close>

text \<open>\<open>[-10:]\<close> of the events, which are kept newest first, and of which there are at most 150.\<close>

definition last_ten :: "'a list \<Rightarrow> 'a list" where
  "last_ten xs = drop (length xs - 10) xs"

definition raise_ids :: "sample_env \<Rightarrow> string \<Rightarrow> string \<Rightarrow> sampler \<Rightarrow> sampler" where
  "raise_ids e alert_type message s =
     (let dup = list_ex (\<lambda>v. ie_type v = alert_type \<and> ie_message v = message) (last_ten (sa_ids s));
          s1 = s\<lparr>sa_ids := take 150 (\<lparr>ie_time = ae_now (sp_alert e), ie_type = alert_type, ie_message = message\<rparr> # sa_ids s)\<rparr>
      in if dup then s1 else s1\<lparr>sa_desk := push_alert (sp_alert e) alert_type message ''ids'' 0 (sa_desk s1)\<rparr>)"

definition scan_text :: "sample_env \<Rightarrow> string \<Rightarrow> nat \<Rightarrow> string" where
  "scan_text e ip n = utf8 [208, 161, 208, 186, 208, 176, 208, 189, 32, 208, 191, 208, 190, 209, 128, 209, 130,
      208, 190, 208, 178, 32, 209, 129, 32] @ ip @ '': '' @ string_of_nat n @ utf8 [32, 209, 128, 208, 176,
      208, 183, 208, 189, 209, 139, 209, 133, 32, 209, 134, 208, 181, 208, 187, 208, 181, 208, 185, 32, 208,
      183, 208, 176, 32] @ sp_text e (sp_window e) @ utf8 [209, 129]"

definition suspicious_text :: "string \<Rightarrow> int \<Rightarrow> string \<Rightarrow> int \<Rightarrow> string" where
  "suspicious_text pname pid ip port =
     pname @ '' (PID '' @ string_of_int pid @ utf8 [41, 32, 208, 191, 208, 190, 208, 180, 208, 186, 208, 187,
      209, 142, 209, 135, 208, 184, 208, 187, 209, 129, 209, 143, 32, 208, 186, 32, 208, 191, 208, 190, 208, 180, 208, 190, 208, 183, 209, 128, 208, 184, 209, 130, 208, 181, 208, 187, 209, 140, 208, 189, 208, 190, 208, 188, 209, 131, 32, 208, 191, 208, 190, 209, 128, 209, 130, 209, 131, 32] @ ip @ '':'' @ string_of_int port"

section \<open>The whitelist\<close>

definition ids_text :: "sample_env \<Rightarrow> pyval \<Rightarrow> string" where
  "ids_text e v = (case v of PStr t \<Rightarrow> t | _ \<Rightarrow> sp_str e v)"

fun all_ints :: "string list \<Rightarrow> exn + int list" where
  "all_ints [] = Inr []"
| "all_ints (p # ps) = bind_sum (int_of_string p) (\<lambda>n. map_sum id (Cons n) (all_ints ps))"

text \<open>A list of ports that cannot be read allows every port.\<close>

definition ports_ok :: "sample_env \<Rightarrow> pyval \<Rightarrow> int \<Rightarrow> bool" where
  "ports_ok e v port =
     (case all_ints (filter (\<lambda>p. p \<noteq> []) (split_on CHR '','' (filter (\<lambda>c. c \<noteq> CHR '' '') (ids_text e v)))) of
        Inl x \<Rightarrow> True
      | Inr ns \<Rightarrow> port \<in> set ns)"

definition rule_hit :: "sample_env \<Rightarrow> string \<Rightarrow> int \<Rightarrow> pyval \<Rightarrow> bool" where
  "rule_hit e pname port v =
     (case v of
        PDict rule \<Rightarrow>
          (let proc = get_default rule ''process'' PNone; ports = get_default rule ''ports'' PNone
           in (\<not> truthy proc \<or> contains (py_lower (ids_text e proc)) (py_lower pname)) \<and> (\<not> truthy ports \<or> ports_ok e ports port))
      | _ \<Rightarrow> False)"

section \<open>One sample\<close>

definition endpoint_text :: "string \<Rightarrow> int \<Rightarrow> string" where
  "endpoint_text ip port = ip @ '':'' @ string_of_int port"

definition window_of :: "string \<Rightarrow> sampler \<Rightarrow> int list" where
  "window_of ip s = get_default (sa_windows s) ip []"

text \<open>The scan window of an address: another port, and an alert when there are enough, which empties it.\<close>

definition note_port :: "sample_env \<Rightarrow> string \<Rightarrow> int \<Rightarrow> sampler \<Rightarrow> sampler" where
  "note_port e ip port s =
     (let ports = List.insert port (window_of ip s); s1 = s\<lparr>sa_windows := dict_set ip ports (sa_windows s)\<rparr>
      in if sp_threshold e \<le> int (length ports)
         then (raise_ids e ''PORT_SCAN'' (scan_text e ip (length ports)) s1)\<lparr>sa_windows := dict_set ip [] (sa_windows s1)\<rparr>
         else s1)"

definition suspect :: "sample_env \<Rightarrow> int \<Rightarrow> string \<Rightarrow> string \<Rightarrow> int \<Rightarrow> sampler \<Rightarrow> sampler" where
  "suspect e pid pname ip port s =
     (if port \<notin> set (sp_suspicious e) \<or> list_ex (rule_hit e pname port) (sp_whitelist e) then s
      else let key = ''sus:'' @ endpoint_text ip port; now = ae_now (sp_alert e)
           in if now - get_default (sa_last s) key 0 > 300
              then raise_ids e ''SUSPICIOUS_CONN'' (suspicious_text pname pid ip port) (s\<lparr>sa_last := dict_set key now (sa_last s)\<rparr>)
              else s)"

definition begins_local :: "string \<Rightarrow> bool" where
  "begins_local ip \<longleftrightarrow> begins ''127.'' ip \<or> begins ''::1'' ip"

text \<open>What the loop over the connections carries along: counts by process, the endpoints seen now, the events.\<close>

record pass =
  pa_counts :: "(int, nat \<times> nat) dict"
  pa_now :: "(int \<times> string, real) dict"
  pa_events :: "endpoint_event list"
  pa_state :: sampler

definition sample_conn :: "sample_env \<Rightarrow> conn_row \<Rightarrow> pass \<Rightarrow> pass" where
  "sample_conn e c p =
     (let pid = (case cn_pid c of None \<Rightarrow> 0 | Some n \<Rightarrow> n);
          old = get_default (pa_counts p) pid (0, 0);
          p1 = p\<lparr>pa_counts := dict_set pid (fst old + 1, if cn_status c = ''ESTABLISHED'' then snd old + 1 else snd old) (pa_counts p)\<rparr>
      in case cn_remote c of
           None \<Rightarrow> p1
         | Some (ip, port) \<Rightarrow>
             (let now = ae_now (sp_alert e); key = (pid, endpoint_text ip port); p2 = p1\<lparr>pa_now := dict_set key now (pa_now p1)\<rparr>
              in if dict_get (sa_seen (pa_state p)) key \<noteq> None \<or> cn_status c \<notin> {''ESTABLISHED'', ''SYN_SENT''} then p2
                 else let pname = get_default (sp_names e) pid ''?'';
                          p3 = p2\<lparr>pa_events := pa_events p2 @ [\<lparr>ee_time = now, ee_pid = pid, ee_process = pname, ee_remote = endpoint_text ip port,
                                 ee_lport = (case cn_lport c of None \<Rightarrow> 0 | Some n \<Rightarrow> n), ee_suspicious = (port \<in> set (sp_suspicious e))\<rparr>]\<rparr>
                      in if sp_on e \<and> \<not> begins_local ip
                         then p3\<lparr>pa_state := suspect e pid pname ip port (note_port e ip port (pa_state p3))\<rparr> else p3))"

definition io_step :: "sample_env \<Rightarrow> int \<Rightarrow> (int, real) dict \<times> (int, real) dict \<Rightarrow> (int, real) dict \<times> (int, real) dict" where
  "io_step e pid st =
     (case sp_io e pid of
        None \<Rightarrow> (dict_pop pid (fst st), snd st)
      | Some amount \<Rightarrow>
          (dict_set pid amount (fst st),
           case dict_get (fst st) pid of
             None \<Rightarrow> snd st
           | Some before \<Rightarrow> let d = max 0 (amount - before) in if 512 < d then dict_set pid (d / 1024) (snd st) else snd st))"

definition process_row_of :: "sample_env \<Rightarrow> (int, real) dict \<Rightarrow> int \<Rightarrow> nat \<times> nat \<Rightarrow> process_row" where
  "process_row_of e rates pid n =
     \<lparr>pw_name = get_default (sp_names e) pid ''?'', pw_conns = fst n, pw_established = snd n, pw_io = py_round_to 1 (get_default rates pid 0)\<rparr>"

text \<open>\<open>sample\<close>, after the connections could be read.\<close>

definition ids_sample :: "sample_env \<Rightarrow> conn_row list \<Rightarrow> sampler \<Rightarrow> sampler" where
  "ids_sample e conns s =
     (let p = fold (sample_conn e) conns \<lparr>pa_counts = [], pa_now = [], pa_events = [], pa_state = s\<rparr>;
          s1 = pa_state p;
          cutoff = ae_now (sp_alert e) - max (sp_window e * 3) 300;
          seen = fold (\<lambda>(k, v). dict_set k v) (pa_now p) (filter (\<lambda>(k, v). cutoff < v) (sa_seen s1));
          pids = take 400 (sp_order e (List.union (dict_keys (pa_counts p)) (dict_keys (sa_io s1))));
          (io, rates) = fold (io_step e) pids (sa_io s1, [])
      in s1\<lparr>sa_seen := seen, sa_io := io,
            sa_processes := map (\<lambda>(pid, n). (pid, process_row_of e rates pid n)) (pa_counts p),
            sa_events := take 150 (drop (length (pa_events p) - 30) (pa_events p) @ sa_events s1)\<rparr>)"

text \<open>\<open>top_io\<close>, \<open>new_connections\<close>, \<open>ids_feed\<close>\<close>

definition top_io :: "nat \<Rightarrow> sampler \<Rightarrow> process_row list" where
  "top_io limit s = take limit (sort_key (\<lambda>r. - pw_io r) (sort_key (\<lambda>r. - int (pw_established r)) (dict_values (sa_processes s))))"

definition new_connections :: "nat \<Rightarrow> sampler \<Rightarrow> endpoint_event list" where
  "new_connections limit s = take limit (sa_events s)"

definition ids_feed :: "nat \<Rightarrow> sampler \<Rightarrow> ids_event list" where
  "ids_feed limit s = take limit (sa_ids s)"

section \<open>What a sample keeps\<close>

lemma raise_ids_frame [simp]:
  "sa_seen (raise_ids e t m s) = sa_seen s" "sa_windows (raise_ids e t m s) = sa_windows s" "sa_last (raise_ids e t m s) = sa_last s"
  "sa_io (raise_ids e t m s) = sa_io s" "sa_events (raise_ids e t m s) = sa_events s" "sa_processes (raise_ids e t m s) = sa_processes s"
  "sa_ids (raise_ids e t m s) = take 150 (\<lparr>ie_time = ae_now (sp_alert e), ie_type = t, ie_message = m\<rparr> # sa_ids s)"
  by (simp_all add: raise_ids_def Let_def)

lemma note_port_frame [simp]:
  "sa_seen (note_port e ip port s) = sa_seen s" "sa_io (note_port e ip port s) = sa_io s" "sa_events (note_port e ip port s) = sa_events s"
  "sa_last (note_port e ip port s) = sa_last s"
  by (simp_all add: note_port_def Let_def)

lemma suspect_frame [simp]:
  "sa_seen (suspect e pid pn ip port s) = sa_seen s" "sa_io (suspect e pid pn ip port s) = sa_io s"
  "sa_events (suspect e pid pn ip port s) = sa_events s" "sa_windows (suspect e pid pn ip port s) = sa_windows s"
  by (simp_all add: suspect_def Let_def)

text \<open>The reference: which connections are new endpoints, and what is reported of one.\<close>

definition conn_pid :: "conn_row \<Rightarrow> int" where
  "conn_pid c = (case cn_pid c of None \<Rightarrow> 0 | Some n \<Rightarrow> n)"

definition new_endpoint :: "sampler \<Rightarrow> conn_row \<Rightarrow> bool" where
  "new_endpoint s c \<longleftrightarrow>
     (case cn_remote c of
        None \<Rightarrow> False
      | Some (ip, port) \<Rightarrow> dict_get (sa_seen s) (conn_pid c, endpoint_text ip port) = None \<and> cn_status c \<in> {''ESTABLISHED'', ''SYN_SENT''})"

definition new_endpoint_report :: "sample_env \<Rightarrow> conn_row \<Rightarrow> endpoint_event" where
  "new_endpoint_report e c = (case the (cn_remote c) of (ip, port) \<Rightarrow>
     \<lparr>ee_time = ae_now (sp_alert e), ee_pid = conn_pid c, ee_process = get_default (sp_names e) (conn_pid c) ''?'',
      ee_remote = endpoint_text ip port, ee_lport = (case cn_lport c of None \<Rightarrow> 0 | Some n \<Rightarrow> n), ee_suspicious = (port \<in> set (sp_suspicious e))\<rparr>)"

definition conn_tally :: "int \<Rightarrow> conn_row list \<Rightarrow> nat \<times> nat" where
  "conn_tally pid cs = (count_by (\<lambda>c. conn_pid c = pid) cs, count_by (\<lambda>c. conn_pid c = pid \<and> cn_status c = ''ESTABLISHED'') cs)"

lemma sample_conn_step:
  "pa_counts (sample_conn e c p) = dict_set (conn_pid c)
     (fst (get_default (pa_counts p) (conn_pid c) (0, 0)) + 1,
      if cn_status c = ''ESTABLISHED'' then snd (get_default (pa_counts p) (conn_pid c) (0, 0)) + 1
      else snd (get_default (pa_counts p) (conn_pid c) (0, 0))) (pa_counts p)"
  "pa_events (sample_conn e c p) = pa_events p @ (if new_endpoint (pa_state p) c then [new_endpoint_report e c] else [])"
  "sa_seen (pa_state (sample_conn e c p)) = sa_seen (pa_state p)"
  "sa_io (pa_state (sample_conn e c p)) = sa_io (pa_state p)"
  "sa_events (pa_state (sample_conn e c p)) = sa_events (pa_state p)"
  by (auto simp: sample_conn_def Let_def conn_pid_def new_endpoint_def new_endpoint_report_def split: option.splits prod.splits)

lemma new_endpoint_cong: "sa_seen s' = sa_seen s \<Longrightarrow> new_endpoint s' = new_endpoint s"
  by (intro ext) (simp add: new_endpoint_def split: option.split)

lemma sample_fold:
  "sa_seen (pa_state (fold (sample_conn e) cs p)) = sa_seen (pa_state p)
   \<and> sa_events (pa_state (fold (sample_conn e) cs p)) = sa_events (pa_state p)
   \<and> pa_events (fold (sample_conn e) cs p) = pa_events p @ map (new_endpoint_report e) (filter (new_endpoint (pa_state p)) cs)
   \<and> get_default (pa_counts (fold (sample_conn e) cs p)) pid (0, 0)
       = (fst (get_default (pa_counts p) pid (0, 0)) + fst (conn_tally pid cs), snd (get_default (pa_counts p) pid (0, 0)) + snd (conn_tally pid cs))
   \<and> set (dict_keys (pa_counts (fold (sample_conn e) cs p))) = set (dict_keys (pa_counts p)) \<union> conn_pid ` set cs"
proof (induction cs arbitrary: p)
  case Nil
  show ?case by (simp add: conn_tally_def)
next
  case (Cons c cs)
  have cong: "new_endpoint (pa_state (sample_conn e c p)) = new_endpoint (pa_state p)"
    by (rule new_endpoint_cong) (rule sample_conn_step(3))
  have count: "get_default (pa_counts (sample_conn e c p)) pid (0, 0)
      = (fst (get_default (pa_counts p) pid (0, 0)) + fst (conn_tally pid [c]), snd (get_default (pa_counts p) pid (0, 0)) + snd (conn_tally pid [c]))"
    by (simp add: sample_conn_step(1) get_default_def conn_tally_def split: option.split)
  have split: "conn_tally pid (c # cs) = (fst (conn_tally pid [c]) + fst (conn_tally pid cs), snd (conn_tally pid [c]) + snd (conn_tally pid cs))"
    by (simp add: conn_tally_def)
  have keys: "set (dict_keys (pa_counts (sample_conn e c p))) = insert (conn_pid c) (set (dict_keys (pa_counts p)))"
    by (simp add: sample_conn_step(1) dict.keys_insert)
  show ?case
    using Cons.IH [of "sample_conn e c p"] unfolding split cong count keys sample_conn_step(2,3,5) by auto
qed

lemma dict_get_map_with_key:
  "dict_get (map (\<lambda>(k, v). (k, f k v)) d) k = map_option (f k) (dict_get d k)"
  by (induction d) auto

text \<open>
  A sample counts for every process its connections and the established ones among them, and reports, in their order, exactly the
  connections whose endpoint was not seen before; of these the last thirty stay in front of the older events.
\<close>

theorem sample_counts_and_reports:
  assumes "s' = ids_sample e cs s"
  shows "map_option (\<lambda>r. (pw_conns r, pw_established r)) (dict_get (sa_processes s') pid)
       = (if pid \<in> conn_pid ` set cs then Some (conn_tally pid cs) else None)
     \<and> (let news = map (new_endpoint_report e) (filter (new_endpoint s) cs) in sa_events s' = take 150 (drop (length news - 30) news @ sa_events s))"
proof -
  let ?p = "fold (sample_conn e) cs \<lparr>pa_counts = [], pa_now = [], pa_events = [], pa_state = s\<rparr>"
  note f = sample_fold [of e cs "\<lparr>pa_counts = [], pa_now = [], pa_events = [], pa_state = s\<rparr>" pid]
  have "dict_get (pa_counts ?p) pid = (if pid \<in> conn_pid ` set cs then Some (conn_tally pid cs) else None)"
  proof -
    have "{k. dict_get (pa_counts ?p) k \<noteq> None} = conn_pid ` set cs" using f by (simp only: set_dict_keys) simp
    then have "dict_get (pa_counts ?p) pid \<noteq> None \<longleftrightarrow> pid \<in> conn_pid ` set cs" by blast
    then show ?thesis using f by (auto simp: get_default_def split: option.splits)
  qed
  moreover have "\<exists>rates. dict_get (sa_processes s') pid = map_option (process_row_of e rates pid) (dict_get (pa_counts ?p) pid)"
    unfolding assms ids_sample_def Let_def by (auto simp: dict_get_map_with_key split: prod.split)
  ultimately have "map_option (\<lambda>r. (pw_conns r, pw_established r)) (dict_get (sa_processes s') pid)
      = (if pid \<in> conn_pid ` set cs then Some (conn_tally pid cs) else None)"
    by (auto simp: process_row_of_def)
  moreover have "sa_events s' = take 150 (drop (length (pa_events ?p) - 30) (pa_events ?p) @ sa_events (pa_state ?p))"
    unfolding assms ids_sample_def Let_def by (simp add: case_prod_unfold)
  ultimately show ?thesis using f by (simp add: Let_def)
qed

definition ex_sample_env :: "real \<Rightarrow> sample_env" where
  "ex_sample_env t = \<lparr>sp_alert = ex_alert_env t, sp_names = [(7, ''curl'')], sp_window = 120, sp_suspicious = [4444], sp_threshold = 3,
     sp_on = True, sp_whitelist = [], sp_str = (\<lambda>_. []), sp_text = (\<lambda>x. string_of_int \<lfloor>x\<rfloor>), sp_io = (\<lambda>_. None), sp_order = id\<rparr>"

definition ex_conn :: "int \<Rightarrow> string \<Rightarrow> conn_row" where
  "ex_conn port st = \<lparr>cn_pid = Some 7, cn_status = st, cn_lport = Some 5000, cn_remote = Some (''10.0.0.9'', port)\<rparr>"

theorem sample_counts_and_reports_witness:
  "map_option pw_conns (dict_get (sa_processes (ids_sample (ex_sample_env 9) [ex_conn 80 ''ESTABLISHED'', ex_conn 81 ''LISTEN''] (new_sampler (new_desk [])))) 7)
     = Some 2"
proof -
  let ?cs = "[ex_conn 80 ''ESTABLISHED'', ex_conn 81 ''LISTEN'']"
  let ?s = "ids_sample (ex_sample_env 9) ?cs (new_sampler (new_desk []))"
  have t: "7 \<in> conn_pid ` set ?cs" "conn_tally 7 ?cs = (2, 1)"
    by (simp_all add: conn_pid_def ex_conn_def conn_tally_def)
  have "map_option (\<lambda>r. (pw_conns r, pw_established r)) (dict_get (sa_processes ?s) 7) = Some (2, 1)"
    using sample_counts_and_reports [OF refl, of "ex_sample_env 9" ?cs "new_sampler (new_desk [])" 7] unfolding t(2) using t(1) by metis
  then show ?thesis by (cases "dict_get (sa_processes ?s) 7") simp_all
qed

section \<open>Scans and repeated alarms\<close>

definition note_all :: "string \<Rightarrow> (sample_env \<times> int) list \<Rightarrow> sampler \<Rightarrow> sampler" where
  "note_all ip xs s = fold (\<lambda>(e, port). note_port e ip port) xs s"

lemma window_note_port:
  "int (length (List.insert port (window_of ip s))) < sp_threshold e \<Longrightarrow>
     window_of ip (note_port e ip port s) = List.insert port (window_of ip s) \<and> sa_ids (note_port e ip port s) = sa_ids s
     \<and> sa_desk (note_port e ip port s) = sa_desk s"
  by (simp add: note_port_def Let_def window_of_def get_default_def)

lemma note_all_window:
  assumes "\<forall>(e, port) \<in> set xs. sp_threshold e = th" and "distinct (map snd xs)" and "set (map snd xs) \<inter> set (window_of ip s) = {}"
    and "int (length (window_of ip s) + length xs) < th"
  shows "length (window_of ip (note_all ip xs s)) = length (window_of ip s) + length xs \<and> sa_ids (note_all ip xs s) = sa_ids s
    \<and> set (window_of ip (note_all ip xs s)) = set (window_of ip s) \<union> set (map snd xs)"
  using assms
proof (induction xs arbitrary: s)
  case (Cons x xs)
  obtain e port where x: "x = (e, port)" by (cases x)
  have new: "port \<notin> set (window_of ip s)" using Cons.prems(3) by (simp add: x)
  have small: "int (length (List.insert port (window_of ip s))) < sp_threshold e" using Cons.prems(1,4) new by (simp add: x)
  note w = window_note_port [OF small]
  have "length (window_of ip (note_all ip xs (note_port e ip port s))) = length (window_of ip (note_port e ip port s)) + length xs
    \<and> sa_ids (note_all ip xs (note_port e ip port s)) = sa_ids (note_port e ip port s)
    \<and> set (window_of ip (note_all ip xs (note_port e ip port s))) = set (window_of ip (note_port e ip port s)) \<union> set (map snd xs)"
    using Cons.prems w new by (intro Cons.IH) (auto simp: x)
  then show ?case using w new by (auto simp: note_all_def x)
qed (simp add: note_all_def)

text \<open>
  Ports of one address count towards a scan however far apart in time they are seen: the last of as many different ports as the
  threshold raises the alarm, whose text claims that they came within the window.
\<close>

theorem scan_window_never_expires:
  assumes "\<forall>(e, port) \<in> set (xs @ [(e1, port1)]). sp_threshold e = th" and "distinct (map snd (xs @ [(e1, port1)]))"
    and "window_of ip s = []" and "th = int (length xs) + 1"
  shows "sa_ids (note_all ip (xs @ [(e1, port1)]) s)
      = take 150 (\<lparr>ie_time = ae_now (sp_alert e1), ie_type = ''PORT_SCAN'', ie_message = scan_text e1 ip (length xs + 1)\<rparr> # sa_ids s)
    \<and> window_of ip (note_all ip (xs @ [(e1, port1)]) s) = []"
proof -
  let ?s = "note_all ip xs s"
  have w: "length (window_of ip ?s) = length xs" "sa_ids ?s = sa_ids s" "set (window_of ip ?s) = set (map snd xs)"
    using note_all_window [of xs th ip s] assms by auto
  then have "port1 \<notin> set (window_of ip ?s)" using assms(2) by auto
  then have "note_all ip (xs @ [(e1, port1)]) s = note_port e1 ip port1 ?s" "length (List.insert port1 (window_of ip ?s)) = length xs + 1"
    using w(1) by (simp_all add: note_all_def)
  moreover have "sp_threshold e1 = int (length xs) + 1" using assms(1,4) by simp
  ultimately show ?thesis using w(2) by (simp add: note_port_def Let_def) (simp add: window_of_def get_default_def)
qed

theorem scan_window_never_expires_witness:
  "map ie_message (sa_ids (note_all ''10.0.0.9'' [(ex_sample_env 0, 80), (ex_sample_env 86400, 81), (ex_sample_env 172800, 82)] (new_sampler (new_desk []))))
     = [scan_text (ex_sample_env 172800) ''10.0.0.9'' 3]"
proof -
  let ?xs = "[(ex_sample_env 0, 80), (ex_sample_env 86400, 81::int)]"
  have th: "sp_threshold (ex_sample_env t) = 3" for t by (simp add: ex_sample_env_def)
  have w: "window_of ''10.0.0.9'' (new_sampler (new_desk [])) = []" "sa_ids (new_sampler (new_desk [])) = []"
    by (simp_all add: window_of_def new_sampler_def get_default_def)
  have "sa_ids (note_all ''10.0.0.9'' (?xs @ [(ex_sample_env 172800, 82)]) (new_sampler (new_desk [])))
    = take 150 (\<lparr>ie_time = ae_now (sp_alert (ex_sample_env 172800)), ie_type = ''PORT_SCAN'',
        ie_message = scan_text (ex_sample_env 172800) ''10.0.0.9'' (length ?xs + 1)\<rparr> # sa_ids (new_sampler (new_desk [])))"
    by (rule conjunct1 [OF scan_window_never_expires]) (simp_all add: th w)
  then show ?thesis by (simp add: w numeral_3_eq_3)
qed

definition pushes :: "sampler \<Rightarrow> nat" where
  "pushes s = length (de_rows (sa_desk s))"

lemma pushes_raise_ids:
  assumes "ae_writes (sp_alert e)"
  shows "pushes (raise_ids e t m s) = pushes s + (if list_ex (\<lambda>v. ie_type v = t \<and> ie_message v = m) (last_ten (sa_ids s)) then 0 else 1)"
  using assms by (simp add: raise_ids_def Let_def pushes_def push_alert_rows rate_allows_def)

text \<open>
  The test for a repeated alarm looks at the ten oldest events instead of the newest: with ten or more events on the list the
  same alarm is pushed twice in a row, with fewer it is not.
\<close>

theorem repeated_alarm_pushed_again:
  assumes "\<not> list_ex (\<lambda>v. ie_type v = t \<and> ie_message v = m) (sa_ids s)" and "length (sa_ids s) < 150"
    and "ae_writes (sp_alert e)" and "ae_writes (sp_alert e')"
  shows "pushes (raise_ids e' t m (raise_ids e t m s)) = pushes s + (if 10 \<le> length (sa_ids s) then 2 else 1)"
proof -
  let ?ids = "sa_ids s" and ?v = "\<lparr>ie_time = ae_now (sp_alert e), ie_type = t, ie_message = m\<rparr>"
  have sub: "set (last_ten ?ids) \<subseteq> set ?ids" by (simp add: last_ten_def set_drop_subset)
  then have old: "\<not> list_ex (\<lambda>v. ie_type v = t \<and> ie_message v = m) (last_ten ?ids)"
    using assms(1) by (auto simp: list_ex_iff)
  have ids1: "sa_ids (raise_ids e t m s) = ?v # ?ids" using assms(2) by simp
  have "last_ten (?v # ?ids) = (if 10 \<le> length ?ids then last_ten ?ids else ?v # ?ids)"
  proof (cases "10 \<le> length ?ids")
    case True
    then obtain k where "length ?ids = k + 10" using le_iff_add [of 10] by (auto simp: add.commute)
    then show ?thesis by (simp add: last_ten_def)
  qed (simp add: last_ten_def)
  then show ?thesis
    using old by (simp add: pushes_raise_ids [OF assms(3)] pushes_raise_ids [OF assms(4)] ids1 del: raise_ids_frame)
qed

theorem repeated_alarm_pushed_again_witness:
  "pushes (raise_ids (ex_sample_env 8) ''T'' ''again'' (raise_ids (ex_sample_env 6) ''T'' ''again''
     ((new_sampler (new_desk []))\<lparr>sa_ids := map (\<lambda>n. \<lparr>ie_time = 1, ie_type = ''T'', ie_message = [CHR ''a'']\<rparr>) [0::int..9]\<rparr>))) = 2"
proof -
  let ?s = "(new_sampler (new_desk []))\<lparr>sa_ids := map (\<lambda>n. \<lparr>ie_time = 1, ie_type = ''T'', ie_message = [CHR ''a'']\<rparr>) [0::int..9]\<rparr>"
  have "pushes (raise_ids (ex_sample_env 8) ''T'' ''again'' (raise_ids (ex_sample_env 6) ''T'' ''again'' ?s))
      = pushes ?s + (if 10 \<le> length (sa_ids ?s) then 2 else 1)"
    by (rule repeated_alarm_pushed_again) (simp_all add: list_ex_iff ex_sample_env_def ex_alert_env_def)
  then show ?thesis by (simp add: pushes_def new_sampler_def new_desk_def)
qed

end
