(* ===== verification/Traffic.thy ===== *)
theory Traffic
  imports Alerts
begin

text \<open>
  What the monitor measures: the counters of the interfaces, the record of traffic, the score of the connection, the live trace and the
  packet capture of \<open>netpulse/services.py\<close>. Counters, answers to probes and captured bytes are arguments; one turn of a loop is
  a function of the state.
\<close>

section \<open>Traffic by interface\<close>

record snapshot =
  sn_down :: real
  sn_up :: real
  sn_total :: real
  sn_down_mb :: real
  sn_up_mb :: real
  sn_max :: real
  sn_pernic :: "(string, real \<times> real) dict"

record meter =
  mt_last :: "(string, int \<times> int) dict"
  mt_snap :: snapshot
  mt_history :: "(real \<times> real \<times> real \<times> real option) list"

definition new_meter :: meter where
  "new_meter = \<lparr>mt_last = [], mt_snap = \<lparr>sn_down = 0, sn_up = 0, sn_total = 0, sn_down_mb = 0, sn_up_mb = 0, sn_max = 0, sn_pernic = []\<rparr>,
     mt_history = []\<rparr>"

text \<open>Interfaces whose name begins like a loopback, and those that have moved nothing, are left out.\<close>

definition metered :: "string \<times> int \<times> int \<Rightarrow> bool" where
  "metered nic = (case nic of (name, sent, recv) \<Rightarrow>
     \<not> begins ''loopback'' (py_lower name) \<and> \<not> begins ''lo'' (py_lower name) \<and> \<not> (sent = 0 \<and> recv = 0))"

text \<open>The bytes that an interface has moved since the last turn: none for a new one, none when its counters went back.\<close>

definition moved :: "(string, int \<times> int) dict \<Rightarrow> string \<times> int \<times> int \<Rightarrow> int \<times> int" where
  "moved before nic = (case nic of (name, sent, recv) \<Rightarrow>
     (case dict_get before name of None \<Rightarrow> (0, 0) | Some (s0, r0) \<Rightarrow> (max 0 (sent - s0), max 0 (recv - r0))))"

definition kib :: "int \<Rightarrow> real" where
  "kib n = py_round_to 1 (of_int n / 1024)"

definition traffic_turn :: "real \<Rightarrow> real option \<Rightarrow> (string \<times> int \<times> int) list \<Rightarrow> meter \<Rightarrow> meter" where
  "traffic_turn now ping counters s =
     (let cur = filter metered counters;
          deltas = map (\<lambda>nic. (fst nic, moved (mt_last s) nic)) cur;
          up = sum_list (map (fst \<circ> snd) deltas); down = sum_list (map (snd \<circ> snd) deltas);
          snap = mt_snap s;
          snap' = \<lparr>sn_down = kib down, sn_up = kib up, sn_total = kib (down + up), sn_down_mb = sn_down_mb snap + of_int down / 1048576,
                   sn_up_mb = sn_up_mb snap + of_int up / 1048576, sn_max = max (sn_max snap) (kib (down + up)),
                   sn_pernic = map (\<lambda>(name, u, d). (name, kib u, kib d)) (filter (\<lambda>(name, u, d). u \<noteq> 0 \<or> d \<noteq> 0) deltas)\<rparr>;
          hist = mt_history s @ [(now, sn_down snap', sn_up snap', ping)]
      in \<lparr>mt_last = cur, mt_snap = snap', mt_history = drop (length hist - 1800) hist\<rparr>)"

text \<open>\<open>get_history\<close>\<close>

definition get_history :: "real \<Rightarrow> real \<Rightarrow> meter \<Rightarrow> (real \<times> real \<times> real \<times> real option) list" where
  "get_history now seconds s = filter (\<lambda>h. now - seconds \<le> fst h) (mt_history s)"

section \<open>The record of traffic\<close>

record traffic_row =
  tr_stamp :: stamp
  tr_speed :: real
  tr_in :: int
  tr_out :: int
  tr_in_delta :: int
  tr_out_delta :: int

text \<open>\<open>int(x)\<close> of a float that is not negative.\<close>

definition flush_traffic :: "stamp \<Rightarrow> meter \<Rightarrow> traffic_row list \<Rightarrow> traffic_row list" where
  "flush_traffic now s rows =
     (let snap = mt_snap s
      in if sn_down snap \<noteq> 0 \<or> sn_up snap \<noteq> 0
         then rows @ [\<lparr>tr_stamp = now, tr_speed = sn_down snap + sn_up snap, tr_in = \<lfloor>sn_down_mb snap * 1048576\<rfloor>, tr_out = \<lfloor>sn_up_mb snap * 1048576\<rfloor>,
                tr_in_delta = \<lfloor>sn_down snap * 1024 * 5\<rfloor>, tr_out_delta = \<lfloor>sn_up snap * 1024 * 5\<rfloor>\<rparr>]
         else rows)"

section \<open>The score of the connection\<close>

text \<open>
  \<open>quality_score\<close> with the bounds of the settings; the direct lookups raise when a bound that \<open>get\<close> replaces by a default is missing.
\<close>

definition ping_penalty :: "real \<Rightarrow> (string, real) dict \<Rightarrow> exn + real" where
  "ping_penalty ping q =
     (if ping \<le> get_default q ''good_ping_ms'' 50 then Inr 0
      else case (dict_get q ''good_ping_ms'', dict_get q ''warn_ping_ms'') of
             (good, warn) \<Rightarrow>
               if ping \<le> get_default q ''warn_ping_ms'' 120 then
                 (case (good, warn) of (Some g, Some w) \<Rightarrow> Inr ((ping - g) / (w - g) * 25) | _ \<Rightarrow> Inl (ServiceError ''KeyError'' []))
               else (case warn of Some w \<Rightarrow> Inr (25 + min 35 ((ping - w) / 10 * 2)) | None \<Rightarrow> Inl (ServiceError ''KeyError'' [])))"

definition jitter_penalty :: "real \<Rightarrow> (string, real) dict \<Rightarrow> real" where
  "jitter_penalty jitter q = (if 0 < jitter then min 20 (jitter / max 1 (get_default q ''max_jitter_ms'' 15) * 12) else 0)"

definition loss_penalty :: "real \<Rightarrow> (string, real) dict \<Rightarrow> real" where
  "loss_penalty loss q = (if 0 < loss then min 40 (loss / max (1 / 2) (get_default q ''max_loss_pct'' 2) * 18) else 0)"

definition quality_score :: "real option \<Rightarrow> real \<Rightarrow> real \<Rightarrow> (string, real) dict \<Rightarrow> exn + real" where
  "quality_score ping jitter loss q =
     bind_sum (case ping of None \<Rightarrow> Inr 0 | Some p \<Rightarrow> if 0 < p then ping_penalty p q else Inr 0) (\<lambda>a.
       Inr (py_round_to 1 (max 0 (min 100 (100 - a - jitter_penalty jitter q - loss_penalty loss q)))))"

definition quality_label :: "real \<Rightarrow> string \<times> string" where
  "quality_label score =
     (if 85 \<le> score then (utf8 [208, 158, 209, 130, 208, 187, 208, 184, 209, 135, 208, 189, 208, 190],
      ''#22d3a7'')
      else if 65 \<le> score then (utf8 [208, 157, 208, 190, 209, 128, 208, 188, 208, 176, 208, 187, 209, 140,
      208, 189, 208, 190], ''#8bd450'')
      else if 40 \<le> score then (utf8 [208, 159, 209, 128, 208, 190, 208, 177, 208, 187, 208, 181, 208, 188,
      209, 139], ''#f5b942'')
      else (utf8 [208, 159, 208, 187, 208, 190, 209, 133, 208, 190], ''#ff5c74''))"

section \<open>The live trace\<close>

record trace_hop =
  th_hop :: nat
  th_ip :: string
  th_samples :: "(bool \<times> real option) list"

record tracer =
  tc_target :: "string option"
  tc_hops :: "trace_hop list"
  tc_running :: bool
  tc_cycles :: nat

definition new_tracer :: tracer where
  "new_tracer = \<lparr>tc_target = None, tc_hops = [], tc_running = False, tc_cycles = 0\<rparr>"

definition start_trace :: "string \<Rightarrow> nat \<Rightarrow> tracer \<Rightarrow> tracer" where
  "start_trace target max_hops s =
     \<lparr>tc_target = Some target, tc_hops = map (\<lambda>i. \<lparr>th_hop = i, th_ip = ''?'', th_samples = []\<rparr>) [1..<max_hops + 1],
      tc_running = True, tc_cycles = 0\<rparr>"

definition stop_trace :: "tracer \<Rightarrow> tracer" where
  "stop_trace s = s\<lparr>tc_running := False\<rparr>"

text \<open>What a probe of a hop yields: the address that answered, or a star, and the times. The deque keeps ninety samples.\<close>

definition hop_answered :: "string \<Rightarrow> bool" where
  "hop_answered ip \<longleftrightarrow> ip \<noteq> ''*'' \<and> ip \<noteq> ''?''"

definition probe_hop :: "string \<times> real list \<Rightarrow> trace_hop \<Rightarrow> trace_hop" where
  "probe_hop ans h =
     (case ans of (ip, ms) \<Rightarrow>
        (let h1 = (if hop_answered ip then h\<lparr>th_ip := ip\<rparr> else h);
             new = (if ms \<noteq> [] then map (\<lambda>t. (True, Some t)) ms else [(hop_answered ip, None)]);
             all = th_samples h1 @ new
         in h1\<lparr>th_samples := drop (length all - 90) all\<rparr>))"

text \<open>A cycle over the hops, up to the one that the target itself answers.\<close>

fun trace_cycle :: "string \<Rightarrow> (string \<times> real list) list \<Rightarrow> trace_hop list \<Rightarrow> trace_hop list" where
  "trace_cycle target [] hs = hs"
| "trace_cycle target (a # as) [] = []"
| "trace_cycle target (a # as) (h # hs) = probe_hop a h # (if fst a = target then hs else trace_cycle target as hs)"

definition trace_turn :: "(string \<times> real list) list \<Rightarrow> tracer \<Rightarrow> tracer" where
  "trace_turn answers s =
     (if \<not> tc_running s then s
      else s\<lparr>tc_hops := trace_cycle (case tc_target s of None \<Rightarrow> [] | Some t \<Rightarrow> t) answers (tc_hops s), tc_cycles := Suc (tc_cycles s)\<rparr>)"

record hop_stats =
  hs_hop :: nat
  hs_ip :: string
  hs_sent :: nat
  hs_loss :: real
  hs_avg :: "real option"
  hs_min :: "real option"
  hs_max :: "real option"
  hs_graph :: "real option list"

definition hop_stats_of :: "trace_hop \<Rightarrow> hop_stats" where
  "hop_stats_of h =
     (let samples = th_samples h; sent = length samples; replies = filter fst samples;
          oks = map (the \<circ> snd) (filter (\<lambda>x. fst x \<and> snd x \<noteq> None) samples)
      in \<lparr>hs_hop = th_hop h, hs_ip = (if th_ip h \<noteq> ''?'' then th_ip h else ''*''), hs_sent = sent,
          hs_loss = (if sent = 0 then 0 else py_round_to 1 (100 * (real sent - real (length replies)) / real sent)),
          hs_avg = (if oks = [] then None else Some (py_round_to 1 (sum_list oks / real (length oks)))),
          hs_min = (if oks = [] then None else Some (py_round_to 1 (Min (set oks)))),
          hs_max = (if oks = [] then None else Some (py_round_to 1 (Max (set oks)))),
          hs_graph = map (\<lambda>x. map_option (py_round_to 1) (snd x)) (drop (length samples - 60) samples)\<rparr>)"

text \<open>
  The rounds of \<open>schedule_loop\<close>: each asks whether the tracer runs and starts the next target. \<open>stopped\<close> tells for each round whether
  the service has been stopped when it begins.
\<close>

fun schedule_rounds :: "string list \<Rightarrow> nat \<Rightarrow> nat \<Rightarrow> bool list \<Rightarrow> tracer \<Rightarrow> string list \<times> tracer" where
  "schedule_rounds targets max_hops idx [] s = ([], s)"
| "schedule_rounds targets max_hops idx (stopped # rounds) s =
     (if \<not> tc_running s \<or> stopped then ([], s)
      else let t = targets ! (idx mod length targets)
           in apfst (Cons t) (schedule_rounds targets max_hops (Suc idx) rounds (start_trace t max_hops (stop_trace s))))"

section \<open>Rounding\<close>

lemma py_round_bounds: "\<lfloor>x\<rfloor> \<le> py_round x" "py_round x \<le> \<lfloor>x\<rfloor> + 1"
  by (simp_all add: py_round_def Let_def)

lemma py_round_mono: "x \<le> y \<Longrightarrow> py_round x \<le> py_round y"
proof -
  assume xy: "x \<le> y"
  then have f: "\<lfloor>x\<rfloor> \<le> \<lfloor>y\<rfloor>" by (rule floor_mono)
  show ?thesis
  proof (cases "\<lfloor>x\<rfloor> = \<lfloor>y\<rfloor>")
    case True
    then have "x - of_int \<lfloor>x\<rfloor> \<le> y - of_int \<lfloor>y\<rfloor>" using xy by simp
    with True show ?thesis by (auto simp: py_round_def Let_def)
  next
    case False
    with f py_round_bounds(2) [of x] py_round_bounds(1) [of y] show ?thesis by linarith
  qed
qed

lemma py_round_of_int [simp]: "py_round (of_int n) = n"
  by (simp add: py_round_def Let_def)

lemma py_round_to_mono: "x \<le> y \<Longrightarrow> py_round_to n x \<le> py_round_to n y"
  by (simp add: py_round_to_def divide_right_mono py_round_mono)

lemma py_round_to_of_int: "py_round_to n (of_int k) = of_int k"
proof -
  have "of_int k * 10 ^ n = (of_int (k * 10 ^ n) :: real)" by simp
  then have "py_round (of_int k * 10 ^ n :: real) = k * 10 ^ n" by (simp only: py_round_of_int)
  then show ?thesis by (simp add: py_round_to_def)
qed

lemma py_round_to_between: "of_int a \<le> x \<Longrightarrow> x \<le> of_int b \<Longrightarrow> of_int a \<le> py_round_to n x \<and> py_round_to n x \<le> of_int b"
  using py_round_to_mono [of "of_int a" x n] py_round_to_mono [of x "of_int b" n] by (simp add: py_round_to_of_int)

section \<open>The score\<close>

definition bounds_set :: "(string, real) dict \<Rightarrow> bool" where
  "bounds_set q \<longleftrightarrow> (\<exists>g w. dict_get q ''good_ping_ms'' = Some g \<and> dict_get q ''warn_ping_ms'' = Some w \<and> g < w)"

lemma ping_penalty_value:
  assumes "dict_get q ''good_ping_ms'' = Some g" and "dict_get q ''warn_ping_ms'' = Some w"
  shows "ping_penalty p q = Inr (if p \<le> g then 0 else if p \<le> w then (p - g) / (w - g) * 25 else 25 + min 35 ((p - w) / 10 * 2))"
  using assms by (auto simp: ping_penalty_def get_default_def)

lemma capped_share_mono:
  assumes "a \<le> a'" and "0 < m" and "0 \<le> (k::real)" and "0 \<le> c"
  shows "(if 0 < a then min c (a / m * k) else 0) \<le> (if 0 < a' then min c (a' / m * k) else 0)"
proof -
  have "min c (a / m * k) \<le> min c (a' / m * k)"
    using assms by (intro min.mono mult_right_mono divide_right_mono) simp_all
  moreover have "0 \<le> min c (a' / m * k)" if "0 < a'" using assms that by simp
  ultimately show ?thesis using assms(1) by auto
qed

lemma jitter_penalty_mono: "j \<le> j' \<Longrightarrow> jitter_penalty j q \<le> jitter_penalty j' q"
  unfolding jitter_penalty_def by (rule capped_share_mono) simp_all

lemma loss_penalty_mono: "l \<le> l' \<Longrightarrow> loss_penalty l q \<le> loss_penalty l' q"
  unfolding loss_penalty_def by (rule capped_share_mono) simp_all

lemma quality_score_clamped:
  assumes "quality_score ping jitter loss q = Inr x"
  shows "0 \<le> x \<and> x \<le> 100"
proof -
  obtain y where x: "x = py_round_to 1 (max 0 (min 100 y))"
    using assms unfolding quality_score_def by (elim bind_sum_InrE) auto
  have "of_int 0 \<le> py_round_to 1 (max 0 (min 100 y)) \<and> py_round_to 1 (max 0 (min 100 y)) \<le> of_int 100"
    by (rule py_round_to_between) simp_all
  then show ?thesis unfolding x by simp
qed

lemma steps_mono:
  fixes t m :: "real \<Rightarrow> real"
  assumes "p \<le> p'" and "t p \<le> t p'" and "p \<le> w \<Longrightarrow> t p \<le> 25" and "g < p' \<Longrightarrow> 0 \<le> t p'" and "m p \<le> m p'" and "w < p' \<Longrightarrow> 0 \<le> m p'"
  shows "(if p \<le> g then 0 else if p \<le> w then t p else 25 + m p) \<le> (if p' \<le> g then 0 else if p' \<le> w then t p' else 25 + m p')"
  using assms by auto

lemma ping_penalty_mono:
  assumes q: "dict_get q ''good_ping_ms'' = Some g" "dict_get q ''warn_ping_ms'' = Some w" and gw: "g < w" and le: "p \<le> p'"
    and a: "ping_penalty p q = Inr a" "ping_penalty p' q = Inr a'"
  shows "a \<le> a'"
proof -
  have "(p - g) / (w - g) * 25 \<le> (p' - g) / (w - g) * 25"
    using gw le by (intro mult_right_mono divide_right_mono) simp_all
  moreover have "min 35 ((p - w) / 10 * 2) \<le> min 35 ((p' - w) / 10 * 2)" using le by (intro min.mono) simp_all
  moreover have "(p - g) / (w - g) * 25 \<le> 25" if "p \<le> w" using that gw by (simp add: divide_le_eq)
  ultimately have "(if p \<le> g then 0 else if p \<le> w then (p - g) / (w - g) * 25 else 25 + min 35 ((p - w) / 10 * 2))
      \<le> (if p' \<le> g then 0 else if p' \<le> w then (p' - g) / (w - g) * 25 else 25 + min 35 ((p' - w) / 10 * 2))"
    using gw by (intro steps_mono [where t = "\<lambda>r. (r - g) / (w - g) * 25" and m = "\<lambda>r. min 35 ((r - w) / 10 * 2)", OF le]) simp_all
  then show ?thesis using a unfolding ping_penalty_value [OF q] by simp
qed

text \<open>
  When both bounds of the ping are set and ordered, every measurement has a score between 0 and 100, and a longer ping, more
  jitter or more loss never raises it.
\<close>

theorem quality_score_bounded_and_monotone:
  assumes "bounds_set q" and "0 \<le> p" and "p \<le> p'" and "j \<le> j'" and "l \<le> l'"
  shows "\<exists>x x'. quality_score (Some p) j l q = Inr x \<and> quality_score (Some p') j' l' q = Inr x' \<and> 0 \<le> x' \<and> x' \<le> x \<and> x \<le> 100"
proof -
  obtain g w where q: "dict_get q ''good_ping_ms'' = Some g" "dict_get q ''warn_ping_ms'' = Some w" "g < w"
    using assms(1) by (auto simp: bounds_set_def)
  define pen where "pen r = (if 0 < r then projr (ping_penalty r q) else 0)" for r
  have pen: "(if 0 < r then ping_penalty r q else Inr 0) = Inr (pen r)" for r
    by (simp add: pen_def ping_penalty_value [OF q(1,2)])
  have nonneg: "0 \<le> pen r" for r
  proof -
    have "0 \<le> (r - g) / (w - g) * 25" if "g < r" using that q(3) by simp
    moreover have "0 \<le> min 35 ((r - w) / 10 * 2)" if "w < r" using that by simp
    ultimately show ?thesis by (auto simp: pen_def ping_penalty_value [OF q(1,2)])
  qed
  have "pen p \<le> pen p'"
  proof (cases "0 < p")
    case True
    then show ?thesis
      using assms(3) ping_penalty_mono [OF q assms(3)] pen [of p] pen [of p'] by auto
  next
    case False
    then show ?thesis using nonneg [of p'] by (simp add: pen_def)
  qed
  then have less: "100 - pen p' - jitter_penalty j' q - loss_penalty l' q \<le> 100 - pen p - jitter_penalty j q - loss_penalty l q"
    using jitter_penalty_mono [OF assms(4), of q] loss_penalty_mono [OF assms(5), of q] by linarith
  let ?x = "py_round_to 1 (max 0 (min 100 (100 - pen p - jitter_penalty j q - loss_penalty l q)))"
  let ?x' = "py_round_to 1 (max 0 (min 100 (100 - pen p' - jitter_penalty j' q - loss_penalty l' q)))"
  have s: "quality_score (Some p) j l q = Inr ?x" "quality_score (Some p') j' l' q = Inr ?x'"
    by (simp_all add: quality_score_def pen)
  have "?x' \<le> ?x" using less by (intro py_round_to_mono max.mono min.mono order.refl)
  then show ?thesis using s quality_score_clamped [OF s(1)] quality_score_clamped [OF s(2)] by blast
qed

theorem quality_score_bounded_and_monotone_witness:
  "\<exists>x x'. quality_score (Some 10) 0 0 [(''good_ping_ms'', 50), (''warn_ping_ms'', 120)] = Inr x
     \<and> quality_score (Some 200) 3 1 [(''good_ping_ms'', 50), (''warn_ping_ms'', 120)] = Inr x' \<and> 0 \<le> x' \<and> x' \<le> x \<and> x \<le> 100"
  by (rule quality_score_bounded_and_monotone) (simp_all add: bounds_set_def)

section \<open>What the meter counts\<close>

text \<open>A later sample of the same interfaces: no counter has gone back.\<close>

definition counters_grow :: "(string \<times> int \<times> int) list \<Rightarrow> (string \<times> int \<times> int) list \<Rightarrow> bool" where
  "counters_grow as bs \<longleftrightarrow> list_all2 (\<lambda>(n, s, r) (n', s', r'). n = n' \<and> s \<le> s' \<and> r \<le> r') as bs"

definition bytes_received :: "(string \<times> int \<times> int) list \<Rightarrow> int" where
  "bytes_received xs = sum_list (map (snd \<circ> snd) xs)"

definition sent_bytes :: "(string \<times> int \<times> int) list \<Rightarrow> int" where
  "sent_bytes xs = sum_list (map (fst \<circ> snd) xs)"

lemma moved_grown:
  assumes "counters_grow as bs" and "distinct (map fst as)"
  shows "map (moved as) bs = map2 (\<lambda>a b. (fst (snd b) - fst (snd a), snd (snd b) - snd (snd a))) as bs"
proof (rule nth_equalityI)
  have len: "length as = length bs" using assms(1) by (auto simp: counters_grow_def dest: list_all2_lengthD)
  then show "length (map (moved as) bs) = length (map2 (\<lambda>a b. (fst (snd b) - fst (snd a), snd (snd b) - snd (snd a))) as bs)" by simp
  fix i assume "i < length (map (moved as) bs)"
  then have i: "i < length bs" "i < length as" using len by simp_all
  obtain n s r where a: "as ! i = (n, s, r)" by (cases "as ! i") auto
  obtain n' s' r' where b: "bs ! i = (n', s', r')" by (cases "bs ! i") auto
  have "(\<lambda>(n, s, r) (n', s', r'). n = n' \<and> s \<le> s' \<and> r \<le> r') (as ! i) (bs ! i)"
    using assms(1) i(2) unfolding counters_grow_def by (rule list_all2_nthD)
  then have le: "n' = n" "s \<le> s'" "r \<le> r'" by (simp_all add: a b)
  have "dict_get as n = Some (s, r)"
    using assms(2) nth_mem [OF i(2)] a by (simp add: dict_get_def)
  then show "map (moved as) bs ! i = map2 (\<lambda>a b. (fst (snd b) - fst (snd a), snd (snd b) - snd (snd a))) as bs ! i"
    using le i len by (simp add: moved_def a b)
qed

lemma sum_map2_diff:
  fixes f :: "'a \<Rightarrow> int"
  shows "length as = length bs \<Longrightarrow> sum_list (map2 (\<lambda>a b. f b - f a) as bs) = sum_list (map f bs) - sum_list (map f as)"
  by (induction as bs rule: list_induct2) simp_all

lemma moved_sums:
  assumes "counters_grow as bs" and "distinct (map fst as)"
  shows "sum_list (map (snd \<circ> moved as) bs) = bytes_received bs - bytes_received as"
    and "sum_list (map (fst \<circ> moved as) bs) = sent_bytes bs - sent_bytes as"
proof -
  have len: "length as = length bs" using assms(1) by (auto simp: counters_grow_def dest: list_all2_lengthD)
  have s: "map (snd \<circ> moved as) bs = map snd (map (moved as) bs)" "map (fst \<circ> moved as) bs = map fst (map (moved as) bs)"
    by simp_all
  show "sum_list (map (snd \<circ> moved as) bs) = bytes_received bs - bytes_received as"
    unfolding s moved_grown [OF assms] bytes_received_def using sum_map2_diff [OF len, of "snd \<circ> snd"]
    by (simp add: comp_def case_prod_unfold)
  show "sum_list (map (fst \<circ> moved as) bs) = sent_bytes bs - sent_bytes as"
    unfolding s moved_grown [OF assms] sent_bytes_def using sum_map2_diff [OF len, of "fst \<circ> snd"]
    by (simp add: comp_def case_prod_unfold)
qed

lemma traffic_turn_totals:
  assumes "\<forall>nic \<in> set bs. metered nic" and "counters_grow (mt_last s) bs" and "distinct (map fst (mt_last s))"
  shows "mt_last (traffic_turn now ping bs s) = bs"
    and "sn_down_mb (mt_snap (traffic_turn now ping bs s)) = sn_down_mb (mt_snap s) + of_int (bytes_received bs - bytes_received (mt_last s)) / 1048576"
    and "sn_up_mb (mt_snap (traffic_turn now ping bs s)) = sn_up_mb (mt_snap s) + of_int (sent_bytes bs - sent_bytes (mt_last s)) / 1048576"
proof -
  have cur: "filter metered bs = bs" using assms(1) by simp
  show "mt_last (traffic_turn now ping bs s) = bs" by (simp add: traffic_turn_def Let_def cur)
  show "sn_down_mb (mt_snap (traffic_turn now ping bs s)) = sn_down_mb (mt_snap s) + of_int (bytes_received bs - bytes_received (mt_last s)) / 1048576"
    using moved_sums(1) [OF assms(2,3)] by (simp add: traffic_turn_def Let_def cur comp_def)
  show "sn_up_mb (mt_snap (traffic_turn now ping bs s)) = sn_up_mb (mt_snap s) + of_int (sent_bytes bs - sent_bytes (mt_last s)) / 1048576"
    using moved_sums(2) [OF assms(2,3)] by (simp add: traffic_turn_def Let_def cur comp_def)
qed

definition traffic_turns :: "(real \<times> real option \<times> (string \<times> int \<times> int) list) list \<Rightarrow> meter \<Rightarrow> meter" where
  "traffic_turns ts s = fold (\<lambda>(now, ping, cs). traffic_turn now ping cs) ts s"

text \<open>
  While the same interfaces are sampled and no counter goes back, the totals are what the counters have grown since the first
  sample, however many samples were taken in between.
\<close>

theorem totals_telescope:
  assumes "\<forall>(now, ping, cs) \<in> set ts. \<forall>nic \<in> set cs. metered nic"
    and "successively counters_grow (mt_last s # map (snd \<circ> snd) ts)" and "distinct (map fst (mt_last s))"
  shows "sn_down_mb (mt_snap (traffic_turns ts s)) - sn_down_mb (mt_snap s)
      = of_int (bytes_received (mt_last (traffic_turns ts s)) - bytes_received (mt_last s)) / 1048576
    \<and> sn_up_mb (mt_snap (traffic_turns ts s)) - sn_up_mb (mt_snap s)
      = of_int (sent_bytes (mt_last (traffic_turns ts s)) - sent_bytes (mt_last s)) / 1048576"
  using assms
proof (induction ts arbitrary: s)
  case (Cons t ts)
  obtain now ping cs where t: "t = (now, ping, cs)" by (cases t) auto
  let ?s = "traffic_turn now ping cs s"
  have grow: "counters_grow (mt_last s) cs" and met: "\<forall>nic \<in> set cs. metered nic" using Cons.prems(1,2) by (auto simp: t)
  note turn = traffic_turn_totals [OF met grow Cons.prems(3), of now ping]
  have names: "map fst cs = map fst (mt_last s)"
    using grow unfolding counters_grow_def by (induction rule: list_all2_induct) auto
  have "sn_down_mb (mt_snap (traffic_turns ts ?s)) - sn_down_mb (mt_snap ?s)
      = of_int (bytes_received (mt_last (traffic_turns ts ?s)) - bytes_received (mt_last ?s)) / 1048576
    \<and> sn_up_mb (mt_snap (traffic_turns ts ?s)) - sn_up_mb (mt_snap ?s)
      = of_int (sent_bytes (mt_last (traffic_turns ts ?s)) - sent_bytes (mt_last ?s)) / 1048576"
    using Cons.prems names turn(1) by (intro Cons.IH) (auto simp: t)
  moreover have "traffic_turns (t # ts) s = traffic_turns ts ?s" by (simp add: traffic_turns_def t)
  ultimately show ?case using turn by (simp add: diff_divide_distrib algebra_simps)
qed (simp add: traffic_turns_def)

theorem totals_telescope_witness:
  "sn_down_mb (mt_snap (traffic_turns [(2, None, [(''eth0'', 10, 2097152)]), (3, None, [(''eth0'', 20, 3145728)])]
      (traffic_turn 1 None [(''eth0'', 5, 1048576)] new_meter))) = 2"
proof -
  let ?s = "traffic_turn 1 None [(''eth0'', 5, 1048576)] new_meter"
  let ?ts = "[(2, None, [(''eth0'', 10, 2097152)]), (3, None, [(''eth0'', 20, 3145728)])] :: (real \<times> real option \<times> (string \<times> int \<times> int) list) list"
  have met: "metered (''eth0'', a, b)" if "b \<noteq> 0" for a b
  proof -
    have "py_lower ''eth0'' = ''eth0''" by code_simp
    then show ?thesis using that by (simp add: metered_def)
  qed
  have last: "mt_last ?s = [(''eth0'', 5, 1048576)]" "sn_down_mb (mt_snap ?s) = 0"
    using met [of 1048576 5] by (simp_all add: traffic_turn_def Let_def new_meter_def moved_def)
  have last2: "mt_last (traffic_turns ?ts ?s) = [(''eth0'', 20, 3145728)]"
    using met [of 3145728 20] by (simp add: traffic_turns_def traffic_turn_def Let_def)
  have "sn_down_mb (mt_snap (traffic_turns ?ts ?s)) - sn_down_mb (mt_snap ?s)
      = of_int (bytes_received (mt_last (traffic_turns ?ts ?s)) - bytes_received (mt_last ?s)) / 1048576"
    using totals_telescope [of ?ts ?s] met last(1) by (auto simp: counters_grow_def)
  then show ?thesis by (simp add: last last2 bytes_received_def)
qed

text \<open>
  An interface whose name begins with the letters lo in any case is never counted, which is what a loopback is meant to be and what
  a local area connection is as well.
\<close>

theorem lo_interfaces_uncounted:
  assumes "begins ''lo'' (py_lower name)"
  shows "traffic_turn now ping (as @ (name, sent, recv) # bs) s = traffic_turn now ping (as @ bs) s"
  using assms by (simp add: traffic_turn_def metered_def)

theorem lo_interfaces_uncounted_witness:
  "mt_snap (traffic_turn 2 None [(''Local Area Connection'', 9000, 9000)] (traffic_turn 1 None [(''Local Area Connection'', 1, 1)] new_meter))
     = mt_snap (traffic_turn 2 None [] (traffic_turn 1 None [] new_meter))"
proof -
  have lo: "begins ''lo'' (py_lower ''Local Area Connection'')" by code_simp
  show ?thesis using lo_interfaces_uncounted [OF lo, of _ _ "[]" _ _ "[]"] by simp
qed

text \<open>
  The record of traffic, from which the quotas are computed, takes five times the rate of the last second: what was moved in the
  seconds before does not enter it, and when the last second was idle nothing is recorded at all.
\<close>

theorem record_keeps_last_second_only:
  assumes "s = traffic_turn now ping cs prev" and "down = sum_list (map (snd \<circ> moved (mt_last prev)) (filter metered cs))"
    and "up = sum_list (map (fst \<circ> moved (mt_last prev)) (filter metered cs))"
  shows "(kib down = 0 \<and> kib up = 0 \<longrightarrow> flush_traffic t s rows = rows)
    \<and> (kib down \<noteq> 0 \<or> kib up \<noteq> 0 \<longrightarrow> (\<exists>row. flush_traffic t s rows = rows @ [row] \<and> tr_in_delta row = \<lfloor>5120 * kib down\<rfloor> \<and> tr_out_delta row = \<lfloor>5120 * kib up\<rfloor>))"
proof -
  have "sn_down (mt_snap s) = kib down" "sn_up (mt_snap s) = kib up"
    by (simp_all add: assms traffic_turn_def Let_def comp_def)
  then show ?thesis by (simp add: flush_traffic_def Let_def)
qed

theorem record_keeps_last_second_only_witness:
  "flush_traffic \<lparr>ts_date = [], ts_time = []\<rparr>
     (traffic_turn 3 None [(''eth0'', 5, 99999999)] (traffic_turn 2 None [(''eth0'', 5, 99999999)] (traffic_turn 1 None [(''eth0'', 5, 1)] new_meter))) [] = []"
proof -
  have eth: "py_lower ''eth0'' = ''eth0''" by code_simp
  let ?s = "traffic_turn 2 None [(''eth0'', 5, 99999999)] (traffic_turn 1 None [(''eth0'', 5, 1)] new_meter)"
  have last: "mt_last ?s = [(''eth0'', 5, 99999999)]" by (simp add: traffic_turn_def Let_def metered_def eth)
  have "sum_list (map (snd \<circ> moved (mt_last ?s)) (filter metered [(''eth0'', 5, 99999999)])) = 0"
    "sum_list (map (fst \<circ> moved (mt_last ?s)) (filter metered [(''eth0'', 5, 99999999)])) = 0"
    by (simp_all add: last moved_def metered_def eth)
  then show ?thesis
    using record_keeps_last_second_only [OF refl refl refl, where now = 3 and ping = None and cs = "[(''eth0'', 5, 99999999)]" and prev = ?s] py_round_to_of_int [of 1 0]
    by (simp add: kib_def)
qed

section \<open>What the trace shows\<close>

definition hop_ok :: "trace_hop \<Rightarrow> bool" where
  "hop_ok h \<longleftrightarrow> length (th_samples h) \<le> 90 \<and> (\<forall>x \<in> set (th_samples h). \<not> fst x \<longrightarrow> snd x = None)"

lemma hop_ok_probe: "hop_ok h \<Longrightarrow> hop_ok (probe_hop a h)"
  by (auto simp: hop_ok_def probe_hop_def Let_def case_prod_unfold dest!: in_set_dropD)

lemma trace_cycle_ok: "\<forall>h \<in> set hs. hop_ok h \<Longrightarrow> \<forall>h \<in> set (trace_cycle target as hs). hop_ok h"
  by (induction target as hs rule: trace_cycle.induct) (auto simp: hop_ok_probe)

lemma length_trace_cycle: "length (trace_cycle target as hs) = length hs"
  by (induction target as hs rule: trace_cycle.induct) auto

lemma loss_pct_bounds: "0 \<le> hs_loss (hop_stats_of h) \<and> hs_loss (hop_stats_of h) \<le> 100"
proof -
  let ?n = "length (th_samples h)" and ?r = "length (filter fst (th_samples h))"
  have rn: "?r \<le> ?n" by (rule length_filter_le)
  have "of_int 0 \<le> py_round_to 1 (100 * (real ?n - real ?r) / real ?n) \<and> py_round_to 1 (100 * (real ?n - real ?r) / real ?n) \<le> of_int 100" if "?n \<noteq> 0"
  proof (rule py_round_to_between)
    show "of_int 0 \<le> 100 * (real ?n - real ?r) / real ?n" using rn by simp
    show "100 * (real ?n - real ?r) / real ?n \<le> of_int 100" using that by (simp add: divide_le_eq)
  qed
  then show ?thesis by (auto simp: hop_stats_of_def Let_def)
qed

text \<open>
  However a started trace goes on, each hop keeps at most ninety samples, its loss is a percentage, and a hop that answers every
  probe, with a time or without one, has no loss.
\<close>

theorem trace_stats_sound:
  assumes "s = fold trace_turn answers (start_trace target n s0)" and "h \<in> set (tc_hops s)"
  shows "hs_sent (hop_stats_of h) \<le> 90 \<and> 0 \<le> hs_loss (hop_stats_of h) \<and> hs_loss (hop_stats_of h) \<le> 100
    \<and> length (tc_hops s) = n \<and> ((\<forall>x \<in> set (th_samples h). fst x) \<longrightarrow> hs_loss (hop_stats_of h) = 0)"
proof -
  have step: "(\<forall>h \<in> set (tc_hops (fold trace_turn answers s1)). hop_ok h) \<and> length (tc_hops (fold trace_turn answers s1)) = length (tc_hops s1)"
    if "\<forall>h \<in> set (tc_hops s1). hop_ok h" for s1
    using that
  proof (induction answers arbitrary: s1)
    case (Cons a answers)
    have "\<forall>h \<in> set (tc_hops (trace_turn a s1)). hop_ok h" "length (tc_hops (trace_turn a s1)) = length (tc_hops s1)"
      using Cons.prems by (auto simp: trace_turn_def trace_cycle_ok length_trace_cycle)
    then show ?case using Cons.IH [of "trace_turn a s1"] by simp
  qed simp
  have "\<forall>h \<in> set (tc_hops (start_trace target n s0)). hop_ok h" "length (tc_hops (start_trace target n s0)) = n"
    by (auto simp: start_trace_def hop_ok_def)
  with step have "hop_ok h" "length (tc_hops s) = n" using assms by auto
  moreover have "hs_loss (hop_stats_of h) = 0" if "\<forall>x \<in> set (th_samples h). fst x"
  proof -
    have "filter fst (th_samples h) = th_samples h" using that by simp
    then show ?thesis using py_round_to_of_int [of 1 0] by (simp add: hop_stats_of_def Let_def)
  qed
  ultimately show ?thesis using loss_pct_bounds [of h] by (simp add: hop_ok_def hop_stats_of_def Let_def)
qed

theorem trace_stats_sound_witness:
  "\<exists>h. tc_hops (fold trace_turn [[(''10.0.0.1'', []), (''*'', [])]] (start_trace ''10.0.0.1'' 1 new_tracer)) = [h] \<and> hs_loss (hop_stats_of h) = 0"
proof -
  let ?s = "fold trace_turn [[(''10.0.0.1'', []), (''*'', [])]] (start_trace ''10.0.0.1'' 1 new_tracer)"
  let ?h = "\<lparr>th_hop = 1, th_ip = ''10.0.0.1'', th_samples = [(True, None)]\<rparr>"
  have h: "tc_hops ?s = [?h]"
    by (simp add: trace_turn_def start_trace_def probe_hop_def hop_answered_def Let_def)
  then have "hs_loss (hop_stats_of ?h) = 0"
    using trace_stats_sound [OF refl, of ?h "[[(''10.0.0.1'', []), (''*'', [])]]" "''10.0.0.1''" 1 new_tracer] by simp
  with h show ?thesis by blast
qed

text \<open>
  The configured fan of targets is never traced: the loop that should start the first target runs only while a trace is running,
  and none is when the service starts it.
\<close>

theorem fan_never_starts:
  assumes "\<not> tc_running s"
  shows "schedule_rounds targets n idx rounds s = ([], s)"
  using assms by (cases rounds) simp_all

theorem fan_never_starts_witness:
  "schedule_rounds [''8.8.8.8'', ''1.1.1.1''] 12 0 (replicate 100 False) new_tracer = ([], new_tracer)"
  by (rule fan_never_starts) (simp add: new_tracer_def)
end
