(* ===== verification/Capture.thy ===== *)
theory Capture
  imports Prelude "HOL-Library.Word" "HOL-Library.Multiset"
begin

text \<open>
  Packets and ports: \<open>RawCaptureService\<close> and \<open>PortScanner\<close> of \<open>netpulse/services.py\<close>. A captured packet is a list of bytes of eight bits,
  whatever the network sent; what opening the socket and connecting to a port answer are arguments.
\<close>

unbundle bit_operations_syntax

section \<open>Reading a packet\<close>

record packet =
  pk_time :: real
  pk_src :: string
  pk_dst :: string
  pk_proto :: string
  pk_len :: int
  pk_info :: string

definition proto_names :: "(int, string) dict" where
  "proto_names = [(1, ''ICMP''), (6, ''TCP''), (17, ''UDP''), (47, ''GRE''), (2, ''IGMP'')]"

text \<open>\<open>struct.unpack("!H", ...)\<close>: two bytes, the high one first.\<close>

definition big_endian :: "8 word \<Rightarrow> 8 word \<Rightarrow> int" where
  "big_endian hi lo = uint hi * 256 + uint lo"

text \<open>\<open>socket.inet_ntoa\<close>\<close>

fun dotted :: "8 word list \<Rightarrow> string" where
  "dotted [] = []"
| "dotted [b] = string_of_int (uint b)"
| "dotted (b # bs) = string_of_int (uint b) @ ''.'' @ dotted bs"

definition proto_name :: "int \<Rightarrow> string" where
  "proto_name n = get_default proto_names n (''IP-'' @ string_of_int n)"

definition port_info :: "8 word list \<Rightarrow> string" where
  "port_info bs = string_of_int (big_endian (bs ! 0) (bs ! 1)) @ utf8 [32, 226, 134, 146,
      32] @ string_of_int (big_endian (bs ! 2) (bs ! 3))"

definition read_packet :: "real \<Rightarrow> string \<Rightarrow> 8 word list \<Rightarrow> packet option" where
  "read_packet now wanted data =
     (if length data < 20 then None
      else if drop_bit 4 (data ! 0) \<noteq> 4 then None
      else let ihl = unat (data ! 0 AND 15) * 4; proto = uint (data ! 9); pname = proto_name proto
           in if wanted \<noteq> [] \<and> pname \<noteq> wanted then None
              else Some \<lparr>pk_time = now, pk_src = dotted (take 4 (drop 12 data)), pk_dst = dotted (take 4 (drop 16 data)), pk_proto = pname,
                     pk_len = big_endian (data ! 2) (data ! 3),
                     pk_info = (if (proto = 6 \<or> proto = 17) \<and> ihl + 4 \<le> length data then port_info (drop ihl data) else [])\<rparr>)"

section \<open>The capture\<close>

record capture =
  cp_running :: bool
  cp_wanted :: string
  cp_packets :: "packet list"
  cp_stats :: "(string, int) dict"

definition zero_stats :: "(string, int) dict" where
  "zero_stats = [(''total'', 0), (''tcp'', 0), (''udp'', 0), (''icmp'', 0), (''other'', 0), (''bytes'', 0)]"

definition new_capture :: capture where
  "new_capture = \<lparr>cp_running = False, cp_wanted = [], cp_packets = [], cp_stats = zero_stats\<rparr>"

text \<open>\<open>s.upper()\<close>, where the upper case of a character is one character of Latin-1.\<close>

definition py_upper :: "string \<Rightarrow> string" where
  "py_upper s = map (\<lambda>c. let n = of_char c :: nat in if 97 \<le> n \<and> n \<le> 122 \<or> 224 \<le> n \<and> n \<le> 254 \<and> n \<noteq> 247 then char_of (n - 32) else c) s"

datatype start_answer = Started | Already_Running | No_Rights | Socket_Failed string

definition start_capture :: "bool \<Rightarrow> exn + unit \<Rightarrow> (exn \<Rightarrow> string) \<Rightarrow> string \<Rightarrow> capture \<Rightarrow> start_answer \<times> capture" where
  "start_capture admin sock text_of wanted s =
     (if cp_running s then (Already_Running, s)
      else if \<not> admin then (No_Rights, s)
      else case sock of
             Inl x \<Rightarrow> (Socket_Failed (''raw socket: '' @ text_of x), s)
           | Inr _ \<Rightarrow> (Started, \<lparr>cp_running = True, cp_wanted = py_upper wanted, cp_packets = [],
                         cp_stats = map (\<lambda>(k, v). (k, 0)) (cp_stats s)\<rparr>))"

definition stop_capture :: "capture \<Rightarrow> capture" where
  "stop_capture s = s\<lparr>cp_running := False\<rparr>"

definition stats_key :: "string \<Rightarrow> string" where
  "stats_key pname = (if pname \<in> {''TCP'', ''UDP'', ''ICMP''} then py_lower pname else ''other'')"

definition add_stat :: "string \<Rightarrow> int \<Rightarrow> (string, int) dict \<Rightarrow> (string, int) dict" where
  "add_stat k n d = dict_set k (get_default d k 0 + n) d"

definition captured :: "real \<times> 8 word list \<Rightarrow> capture \<Rightarrow> capture" where
  "captured x s =
     (if \<not> cp_running s then s
      else case read_packet (fst x) (cp_wanted s) (snd x) of
             None \<Rightarrow> s
           | Some p \<Rightarrow> s\<lparr>cp_packets := take 600 (p # cp_packets s),
                 cp_stats := add_stat (stats_key (pk_proto p)) 1 (add_stat ''bytes'' (pk_len p) (add_stat ''total'' 1 (cp_stats s)))\<rparr>)"

definition capture_snapshot :: "bool \<Rightarrow> nat \<Rightarrow> capture \<Rightarrow> bool \<times> bool \<times> (string, int) dict \<times> packet list" where
  "capture_snapshot admin limit s = (cp_running s, admin, cp_stats s, take limit (cp_packets s))"

section \<open>Ports\<close>

definition common_ports :: "int list" where
  "common_ports = [21, 22, 23, 25, 53, 80, 110, 111, 135, 139, 143, 443, 445, 993, 995, 1723, 3306, 3389, 5900, 6379, 8080, 8443, 8888, 9200,
     27017, 32400, 5000, 53, 123, 161]"

definition port_names :: "(int, string) dict" where
  "port_names = [(21, ''ftp''), (22, ''ssh''), (23, ''telnet''), (25, ''smtp''), (53, ''dns''), (80, ''http''), (110, ''pop3''), (143, ''imap''),
     (443, ''https''), (445, ''smb''), (3389, ''rdp''), (3306, ''mysql''), (5900, ''vnc''), (6379, ''redis''), (8080, ''http-alt''),
     (8443, ''https-alt''), (27017, ''mongodb''), (32400, ''plex''), (123, ''ntp''), (161, ''snmp'')]"

text \<open>
  \<open>tcp_scan\<close>: \<open>opens\<close> is whether a port accepts within the time that is waited for it, \<open>arrival\<close> the order in which the threads append.
\<close>

definition tcp_scan :: "(int \<Rightarrow> bool) \<Rightarrow> (int list \<Rightarrow> int list) \<Rightarrow> int list option \<Rightarrow> nat \<times> (int \<times> string) list" where
  "tcp_scan opens arrival ports =
     (let ps = (case ports of None \<Rightarrow> common_ports | Some l \<Rightarrow> if l = [] then common_ports else l);
          found = arrival (filter opens (remdups ps))
      in (card (set ps), sort_key fst (map (\<lambda>p. (p, get_default port_names p [])) found)))"

section \<open>What is read\<close>

text \<open>A packet as the network puts it together, with a header of \<open>ihl\<close> words of four bytes.\<close>

definition ipv4_packet :: "8 word \<Rightarrow> 8 word \<Rightarrow> 8 word \<Rightarrow> 8 word \<Rightarrow> 8 word list \<Rightarrow> 8 word list \<Rightarrow> 8 word list \<Rightarrow> 8 word list \<Rightarrow> 8 word list \<Rightarrow> 8 word list" where
  "ipv4_packet ihl len_hi len_lo proto ident src dst options payload =
     [push_bit 4 4 OR ihl, 0, len_hi, len_lo] @ ident @ [proto, 0, 0] @ src @ dst @ options @ payload"

lemma version_nibble:
  fixes ihl :: "8 word"
  assumes "ihl < 16"
  shows "drop_bit 4 (push_bit 4 4 OR ihl) = 4" and "(push_bit 4 4 OR ihl) AND 15 = ihl"
proof -
  have all: "list_all (\<lambda>w::8 word. drop_bit 4 (push_bit 4 4 OR w) = 4 \<and> (push_bit 4 4 OR w) AND 15 = w) (map of_nat [0..<16])"
    by code_simp
  have "unat ihl < 16" using assms by (simp add: word_less_nat_alt)
  then have "ihl \<in> set (map of_nat [0..<16])" by (auto intro!: image_eqI [of _ _ "unat ihl"])
  then show "drop_bit 4 (push_bit 4 4 OR ihl) = 4" "(push_bit 4 4 OR ihl) AND 15 = ihl"
    using all unfolding list_all_iff by blast+
qed

text \<open>
  A packet that is built as the protocol says, with any options and payload, is read with its addresses, its length and the ports in
  front of its payload; with a filter for another protocol it is skipped.
\<close>

theorem packet_is_read_back:
  assumes "length ident = 5" and "length src = 4" and "length dst = 4" and "length options = 4 * unat ihl - 20"
    and "5 \<le> unat ihl" and "ihl < 16" and "payload = a # b # c # d # rest"
    and "p = \<lparr>pk_time = now, pk_src = dotted src, pk_dst = dotted dst, pk_proto = proto_name (uint proto), pk_len = big_endian len_hi len_lo,
           pk_info = (if uint proto = 6 \<or> uint proto = 17 then port_info [a, b, c, d] else [])\<rparr>"
  shows "read_packet now wanted (ipv4_packet ihl len_hi len_lo proto ident src dst options payload)
    = (if wanted = [] \<or> wanted = proto_name (uint proto) then Some p else None)"
proof -
  define data where "data = ipv4_packet ihl len_hi len_lo proto ident src dst options payload"
  obtain i1 i2 i3 i4 i5 where ident: "ident = [i1, i2, i3, i4, i5]"
    using assms(1) by (auto simp: length_Suc_conv eval_nat_numeral)
  obtain s1 s2 s3 s4 where src: "src = [s1, s2, s3, s4]"
    using assms(2) by (auto simp: length_Suc_conv eval_nat_numeral)
  obtain d1 d2 d3 d4 where dst: "dst = [d1, d2, d3, d4]"
    using assms(3) by (auto simp: length_Suc_conv eval_nat_numeral)
  have data: "data = [push_bit 4 4 OR ihl, 0, len_hi, len_lo, i1, i2, i3, i4, i5, proto, 0, 0, s1, s2, s3, s4, d1, d2, d3, d4] @ options @ payload"
    by (simp add: data_def ipv4_packet_def ident src dst)
  have fields: "data ! 0 = push_bit 4 4 OR ihl" "data ! 2 = len_hi" "data ! 3 = len_lo" "data ! 9 = proto"
    "take 4 (drop 12 data) = src" "take 4 (drop 16 data) = dst"
    by (simp_all add: data src dst)
  have len: "length data = 4 * unat ihl + length payload" using assms(4,5) by (simp add: data)
  have payload: "drop (unat ihl * 4) data = payload"
  proof -
    have "unat ihl * 4 = 20 + length options" using assms(4,5) by simp
    moreover have "data = [push_bit 4 4 OR ihl, 0, len_hi, len_lo, i1, i2, i3, i4, i5, proto, 0, 0, s1, s2, s3, s4, d1, d2, d3, d4] @ (options @ payload)"
      by (rule data)
    ultimately show ?thesis by (simp only: drop_append) simp
  qed
  have ports: "port_info payload = port_info [a, b, c, d]" by (simp add: port_info_def assms(7))
  have long: "\<not> length data < 20" "unat ihl * 4 + 4 \<le> length data" using len assms(5,7) by simp_all
  show ?thesis
    unfolding data_def [symmetric] read_packet_def Let_def fields version_nibble [OF assms(6)]
    using long by (simp add: payload ports assms(8))
qed

theorem packet_is_read_back_witness:
  "read_packet 0 ''UDP'' (ipv4_packet 5 0 60 6 [1, 2, 3, 4, 5] [10, 0, 0, 1] [10, 0, 0, 2] [] [0, 80, 4, 1, 9]) = None"
  using packet_is_read_back [of "[1, 2, 3, 4, 5]" "[10, 0, 0, 1]" "[10, 0, 0, 2]" "[]" 5 "[0, 80, 4, 1, 9]" 0 80 4 1 "[9]"
      "\<lparr>pk_time = 0, pk_src = dotted [10, 0, 0, 1], pk_dst = dotted [10, 0, 0, 2], pk_proto = proto_name (uint (6 :: 8 word)), pk_len = big_endian 0 60,
           pk_info = port_info [0, 80, 4, 1]\<rparr>" 0 6 0 60 "''UDP''"]
  by (simp add: proto_name_def proto_names_def get_default_def dict_get_def)

section \<open>What is counted\<close>

abbreviation accepted :: "string \<Rightarrow> (real \<times> 8 word list) list \<Rightarrow> packet list" where
  "accepted w xs \<equiv> List.map_filter (\<lambda>x. read_packet (fst x) w (snd x)) xs"

abbreviation stat :: "capture \<Rightarrow> string \<Rightarrow> int" where
  "stat s k \<equiv> get_default (cp_stats s) k 0"

abbreviation parts :: "capture \<Rightarrow> int" where
  "parts s \<equiv> stat s ''tcp'' + stat s ''udp'' + stat s ''icmp'' + stat s ''other''"

lemma get_add_stat [simp]: "get_default (add_stat k n d) j 0 = (if j = k then get_default d k 0 + n else get_default d j 0)"
  by (simp add: add_stat_def get_default_def)

lemma stats_key_cases: "stats_key p \<in> {''tcp'', ''udp'', ''icmp'', ''other''}"
proof -
  have "py_lower ''TCP'' = ''tcp''" "py_lower ''UDP'' = ''udp''" "py_lower ''ICMP'' = ''icmp''" by code_simp+
  then show ?thesis by (auto simp: stats_key_def)
qed

lemma captured_reads:
  assumes "cp_running s" and "read_packet (fst x) (cp_wanted s) (snd x) = Some p"
  shows "stat (captured x s) ''total'' = stat s ''total'' + 1"
    and "stat (captured x s) ''bytes'' = stat s ''bytes'' + pk_len p"
    and "parts (captured x s) = parts s + 1"
    and "cp_packets (captured x s) = take 600 (p # cp_packets s)"
proof -
  have s': "captured x s = s\<lparr>cp_packets := take 600 (p # cp_packets s),
      cp_stats := add_stat (stats_key (pk_proto p)) 1 (add_stat ''bytes'' (pk_len p) (add_stat ''total'' 1 (cp_stats s)))\<rparr>"
    using assms by (simp add: captured_def)
  consider "stats_key (pk_proto p) = ''tcp''" | "stats_key (pk_proto p) = ''udp''" | "stats_key (pk_proto p) = ''icmp''" | "stats_key (pk_proto p) = ''other''"
    using stats_key_cases [of "pk_proto p"] by auto
  note key = this
  show "stat (captured x s) ''total'' = stat s ''total'' + 1" by (rule key) (simp_all add: s')
  show "stat (captured x s) ''bytes'' = stat s ''bytes'' + pk_len p" by (rule key) (simp_all add: s')
  show "parts (captured x s) = parts s + 1" by (rule key) (simp_all add: s')
  show "cp_packets (captured x s) = take 600 (p # cp_packets s)" by (simp add: s')
qed

lemma captured_kept [simp]: "cp_running (captured x s) = cp_running s" "cp_wanted (captured x s) = cp_wanted s"
  by (auto simp: captured_def split: option.split)

lemma captured_skips:
  "read_packet (fst x) (cp_wanted s) (snd x) = None \<Longrightarrow> captured x s = s"
  by (simp add: captured_def)

lemma take_push: "take n (xs @ take n ys) = take n (xs @ ys)"
  by (simp add: min_def)

text \<open>
  While it runs, the capture counts what passes its filter: the total and the bytes are those of the packets accepted, the four
  protocols add up to the total, and of the packets it keeps the last 600, newest first.
\<close>

theorem capture_counts:
  assumes "cp_running s" and "length (cp_packets s) \<le> 600"
  shows "stat (fold captured xs s) ''total'' = stat s ''total'' + int (length (accepted (cp_wanted s) xs))
    \<and> stat (fold captured xs s) ''bytes'' = stat s ''bytes'' + sum_list (map pk_len (accepted (cp_wanted s) xs))
    \<and> parts (fold captured xs s) - stat (fold captured xs s) ''total'' = parts s - stat s ''total''
    \<and> cp_packets (fold captured xs s) = take 600 (rev (accepted (cp_wanted s) xs) @ cp_packets s)"
  using assms
proof (induction xs arbitrary: s)
  case Nil
  then show ?case by (simp add: map_filter_simps)
next
  case (Cons x xs)
  show ?case
  proof (cases "read_packet (fst x) (cp_wanted s) (snd x)")
    case None
    then show ?thesis using Cons.IH [OF Cons.prems] by (simp add: captured_skips map_filter_simps)
  next
    case (Some p)
    note step = captured_reads [OF Cons.prems(1) Some]
    have "length (cp_packets (captured x s)) \<le> 600" unfolding step(4) by simp
    moreover have "cp_running (captured x s)" using Cons.prems(1) by simp
    ultimately have "stat (fold captured xs (captured x s)) ''total'' = stat (captured x s) ''total'' + int (length (accepted (cp_wanted s) xs))
      \<and> stat (fold captured xs (captured x s)) ''bytes'' = stat (captured x s) ''bytes'' + sum_list (map pk_len (accepted (cp_wanted s) xs))
      \<and> parts (fold captured xs (captured x s)) - stat (fold captured xs (captured x s)) ''total'' = parts (captured x s) - stat (captured x s) ''total''
      \<and> cp_packets (fold captured xs (captured x s)) = take 600 (rev (accepted (cp_wanted s) xs) @ cp_packets (captured x s))"
      using Cons.IH [of "captured x s"] by simp
    then have "stat (fold captured xs (captured x s)) ''total'' = stat s ''total'' + 1 + int (length (accepted (cp_wanted s) xs))
      \<and> stat (fold captured xs (captured x s)) ''bytes'' = stat s ''bytes'' + pk_len p + sum_list (map pk_len (accepted (cp_wanted s) xs))
      \<and> parts (fold captured xs (captured x s)) - stat (fold captured xs (captured x s)) ''total'' = parts s - stat s ''total''
      \<and> cp_packets (fold captured xs (captured x s)) = take 600 (rev (accepted (cp_wanted s) xs) @ p # cp_packets s)"
      unfolding step take_push by simp
    moreover have "accepted (cp_wanted s) (x # xs) = p # accepted (cp_wanted s) xs" using Some by (simp add: map_filter_simps)
    ultimately show ?thesis by simp
  qed
qed

theorem capture_counts_witness:
  "stat (fold captured [(0, ipv4_packet 5 0 60 6 [1, 2, 3, 4, 5] [10, 0, 0, 1] [10, 0, 0, 2] [] [0, 80, 4, 1, 9]), (1, [1, 2, 3])]
      (new_capture\<lparr>cp_running := True\<rparr>)) ''total''
    = int (length (accepted [] [(0, ipv4_packet 5 0 60 6 [1, 2, 3, 4, 5] [10, 0, 0, 1] [10, 0, 0, 2] [] [0, 80, 4, 1, 9]), (1, [1, 2, 3])]))"
  using capture_counts [of "new_capture\<lparr>cp_running := True\<rparr>"
    "[(0, ipv4_packet 5 0 60 6 [1, 2, 3, 4, 5] [10, 0, 0, 1] [10, 0, 0, 2] [] [0, 80, 4, 1, 9]), (1, [1, 2, 3])]"]
  by (simp add: new_capture_def zero_stats_def get_default_def dict_get_def)

text \<open>The scan names the open ports, each once and in order, whatever the order in which the threads answer.\<close>

theorem scan_lists_open_ports:
  assumes "\<And>l. mset (arrival l) = mset l" and "ps \<noteq> []"
  shows "map fst (snd (tcp_scan opens arrival (Some ps))) = sorted_list_of_set (Set.filter opens (set ps))
    \<and> fst (tcp_scan opens arrival (Some ps)) = card (set ps)"
proof -
  define named where "named = (\<lambda>p. (p, get_default port_names p []))"
  have fst_named: "map fst (map named l) = l" for l by (induction l) (simp_all add: named_def)
  define found where "found = arrival (filter opens (remdups ps))"
  have same: "mset found = mset (filter opens (remdups ps))" by (simp add: found_def assms(1))
  have d: "distinct found" using same distinct_filter [OF distinct_remdups] mset_eq_imp_distinct_iff by blast
  have "mset (map fst (sort_key fst (map named found))) = mset found"
    by (simp only: mset_map mset_sort) (simp only: mset_map [symmetric] fst_named)
  then have "map fst (sort_key fst (map named found)) = sort found" by (intro properties_for_sort [symmetric]) simp_all
  also have "\<dots> = sorted_list_of_set (set found)" using d by (simp add: sorted_list_of_set_sort_remdups distinct_remdups_id)
  also have "set found = Set.filter opens (set ps)" using mset_eq_setD [OF same] by auto
  finally show ?thesis using assms(2) by (simp add: tcp_scan_def Let_def found_def named_def)
qed

theorem scan_lists_open_ports_witness:
  "map fst (snd (tcp_scan (\<lambda>p. p < 100) rev (Some [443, 80, 22, 80]))) = [22, 80]"
proof -
  have "sorted_list_of_set (Set.filter (\<lambda>p::int. p < 100) (set [443, 80, 22, 80])) = [22, 80]" by code_simp
  then show ?thesis using scan_lists_open_ports [of rev "[443, 80, 22, 80]" "\<lambda>p. p < 100"] by simp
qed

end
