(* ===== verification/Spec2Isabelle.thy ===== *)
theory Spec2Isabelle
  imports Histories Router_Calls Mesh Pump Mesh_Client Incidents Runbooks Recovery Versions Inventory Updates Topology Routeros Transfers Settings Watchdog Access Jobs Database Sampler Traffic Capture
begin

text \<open>
  A verification development for NetPulse: the peer-to-peer core that the nodes of a mesh run
  (\<open>netpulse/p2p_core\<close>), the client with which the monitor talks to the mesh (\<open>netpulse/mesh.py\<close>), and the
  parts of the monitor that measure, raise alerts and act on what they see (\<open>services.py\<close>, \<open>watchdog.py\<close>, \<open>notifications.py\<close>,
  \<open>operations.py\<close>, \<open>runbooks.py\<close>, \<open>healing.py\<close>, \<open>recovery.py\<close>) behind its web server (\<open>server.py\<close>).

  \<^bold>\<open>How the program fits together.\<close> Nodes hold WebSocket connections to each other. A connection starts with a
  HELLO whose signature is checked (\<open>network.py\<close>); from then on each binary frame is a packet that the router
  (\<open>router.py\<close>) handles: requests are executed by the local services (\<open>services/manager.py\<close>, \<open>executor.py\<close>) or
  forwarded along the neighbour table (\<open>neighbor_table.py\<close>), answers travel back along the recorded path
  and resolve a session (\<open>session_table.py\<close>), streams feed a pipe (\<open>stream_registry.py\<close>, \<open>memory.py\<close>), gossip and
  certificate digests update the tables (\<open>certs_index.py\<close>). A connector (\<open>node_connector.py\<close>) dials the configured
  peers again and again. The monitor is one more peer: its \<open>MeshClient\<close> speaks WebSocket by hand and matches
  answers to calls by label. Router polls and alerts become incidents; events run prepared operations. Loops of the
  monitor sample counters, connections and probes, push alerts onto a desk with rates, and hand them to deliveries; the web
  server runs long work as jobs; all of them borrow connections of one database pool.

  \<^bold>\<open>Theories and what they model.\<close>
  \<^item> \<open>Prelude\<close>: Python values and exceptions, strings, insertion-ordered dictionaries (locales \<open>keyed_store\<close> and
    \<open>named_store\<close>, interpreted on them), computations that return, raise or wait, and the calculus \<open>keeps\<close> for
    their invariants.
  \<^item> \<open>Protocol\<close> (\<open>protocol.py\<close>, \<open>mesh_auth.py\<close>): packets, decoding, HELLO signatures.
  \<^item> \<open>Neighbor_Table\<close> (\<open>neighbor_table.py\<close>): rows, gossip merge, sweep, loss of a peer; its reachable states are an
    inductive set, and its direct rows are what \<open>Histories\<close> relates to the sockets.
  \<^item> \<open>Sessions\<close> (\<open>session_table.py\<close>): futures and queues by label.
  \<^item> \<open>Pipes\<close>, \<open>Dispatch\<close>, \<open>Pump\<close> (\<open>memory.py\<close>): a bounded queue with failure, the distribution of a generator over
    pipes, and the pump of an outbound stream with its acknowledgements. The last two are step functions over the
    waits of their tasks.
  \<^item> \<open>Services\<close>, \<open>Streams\<close> (\<open>services/manager.py\<close>, \<open>services/rpc.py\<close>, \<open>executor.py\<close>, \<open>stream_registry.py\<close>): the registry
    of services, the execution of a request, inbound streams with their consumers.
  \<^item> \<open>Certs_Index\<close> (\<open>certs_index.py\<close>): which node offers which certificate.
  \<^item> \<open>Router\<close>, \<open>Router_Facts\<close>, \<open>Router_Calls\<close>, \<open>Mesh\<close> (\<open>router.py\<close>): transports, forwarding and every packet handler as
    computations over the record \<open>node\<close>; what each handler writes; the caller's side; several nodes in a row.
  \<^item> \<open>Network\<close>, \<open>Network_Facts\<close> (\<open>network.py\<close>): greeting, disconnecting and gossip rounds; \<open>Node_Connector\<close>,
    \<open>Connections\<close> (\<open>node_connector.py\<close>): dialling, retry delays and keepalive; \<open>Histories\<close>: every
    sequence of these events on one node.
  \<^item> \<open>Ws_Frames\<close>, \<open>Mesh_Client\<close> (\<open>netpulse/mesh.py\<close>): frames on bytes of eight bits, reading from a stream cut at
    any place, the pending calls of the client shared by its threads, and the hub over several clients.
  \<^item> \<open>Incidents\<close> (\<open>netpulse/operations.py\<close>): the tables, and every operation on them as a transaction.
  \<^item> \<open>Runbooks\<close> (\<open>netpulse/runbooks.py\<close>, \<open>netpulse/healing.py\<close>): templates, the parameter check, the rate of the rules.
  \<^item> \<open>Inventory\<close> (\<open>netpulse/inventory.py\<close>, \<open>netpulse/journal.py\<close>): machines, events with their window, scores, the journal.
  \<^item> \<open>Recovery\<close> (\<open>netpulse/recovery.py\<close>): writing, checking and restoring a backup; \<open>Versions\<close>
    (\<open>internal_modules/app_version.py\<close>): parsing and ordering versions.
  \<^item> \<open>Watchdog\<close> (\<open>netpulse/watchdog.py\<close>, \<open>customchecks.py\<close>, \<open>sysadmin.py\<close>): the polls of the machines, their rules and events,
    the checks of the operator, the forecast of the disks and the availability report over those events.
  \<^item> \<open>Settings\<close> (\<open>netpulse/config.py\<close>): defaults, merging, the environment, and the check of what was merged.
  \<^item> \<open>Masking\<close>, \<open>Access\<close> (\<open>netpulse/server.py\<close>): what the form of the settings shows and what saving it merges; the
    guards in front of every handler of the web interface: addresses, counted failures, tokens and cookies, roles,
    origins, the body, the login, the audit row, and the token that an open server is started with.
  \<^item> \<open>Slot_Pool\<close>: a bounded semaphore and the contract of work admitted by it (locale \<open>slot_pool\<close>); \<open>Jobs\<close>
    (\<open>netpulse/server.py\<close>): the background jobs, their table and their workers; \<open>Notices\<close> (\<open>netpulse/notifications.py\<close>): the
    deliveries of notifications. Both interpret the contract on their step relations.
  \<^item> \<open>Database\<close> (\<open>core/database.py\<close>): the pool of connections under any interleaving of its borrowers, retries, retention.
  \<^item> \<open>Alerts\<close> (\<open>netpulse/services.py\<close>, \<open>server.py\<close>, \<open>planner.py\<close>): alerts with their rates, escalation, planned work, quotas.
  \<^item> \<open>Sampler\<close>, \<open>Traffic\<close>, \<open>Capture\<close> (\<open>netpulse/services.py\<close>): the intrusion detection, the counters of the interfaces with the
    score of the connection and the live trace, packets byte by byte and the result of a port scan.
  \<^item> \<open>Updates\<close> (\<open>internal_modules/updater.py\<close>, \<open>update.py\<close>): searching and downloading a version, installing it, the process
    that replaces the program, confirmation of a start, and rollback, over the files of an installation and its state file.
  \<^item> \<open>Ber\<close>, \<open>Topology\<close> (\<open>netpulse/infra.py\<close>, \<open>netpulse/l2map.py\<close>): requests to routers and switches byte by byte and the reading of their
    answers; walking tables, ports and neighbours, the poll of the devices with its snapshots.
  \<^item> \<open>Routeros\<close> (\<open>netpulse/routeros.py\<close>, \<open>netpulse/mikrotik.py\<close>): the clients for MikroTik routers, what is collected, and their poll.
  \<^item> \<open>Shares\<close>, \<open>Transfers\<close> (\<open>p2p_core/services/files/service.py\<close>): the shares of a node and how a path is resolved below
    them, the table of what they hold with the digests of its chunks, the answers to peers; downloads with their
    manifest, their part file, verification, resuming, cancelling and the states of a transfer.

  \<^bold>\<open>Correspondence.\<close> A class is a record, an enumeration a datatype, a dictionary an association list in insertion
  order. A method is a function of the state that returns the new state with a value or an exception. An
  \<open>await\<close> is a step boundary: what other tasks do meanwhile is another step, and runs are lists of steps or
  inductive relations. Sockets are numbers, and what was written to them is part of the state. Pipes and
  futures that are shared are references into an explicit store. Time and fresh identifiers are arguments.

  \<^bold>\<open>What the lemmas show.\<close> Answers reach their caller along the path (\<open>Mesh\<close>) and a call returns only an answer
  to it (\<open>Router_Calls\<close>, \<open>Sessions\<close>, \<open>Mesh_Client\<close>); forwarding terminates and writes at most one packet
  (\<open>Router_Facts\<close>, \<open>Mesh\<close>); the tables keep their invariants over all histories (\<open>Neighbor_Table\<close>,
  \<open>Histories\<close>, \<open>Incidents\<close>, \<open>Inventory\<close>); only a peer that knows the secret is accepted (\<open>Network_Facts\<close>); pipes, streams and
  the dispatcher lose and duplicate nothing (\<open>Pipes\<close>, \<open>Dispatch\<close>, \<open>Streams\<close>, \<open>Pump\<close>); a frame is read as it was
  written however it arrives (\<open>Ws_Frames\<close>); the alarm of a router refines its contract (\<open>Incidents\<close>); parameters
  cannot change the shape of a command and rules keep their rate (\<open>Runbooks\<close>); a backup restores to what was
  saved and only verified bytes are restored (\<open>Recovery\<close>); a change through the web interface needs an identity whose
  role permits it and the guesses that an address can post are bounded (\<open>Access\<close>); saving the form as it was shown
  changes nothing (\<open>Masking\<close>); a machine is declared offline after as many failed polls as were configured
  (\<open>Watchdog\<close>); released versions are totally ordered (\<open>Versions\<close>); jobs and deliveries never lose a slot and finish, and the
  table of notifications tells what was delivered (\<open>Jobs\<close>, \<open>Notices\<close>); connections of the database have one owner and none stays open
  (\<open>Database\<close>); alerts keep their rate (\<open>Alerts\<close>); samples, totals and captured packets agree with what was there
  (\<open>Sampler\<close>, \<open>Traffic\<close>, \<open>Capture\<close>); only files of the shares leave a node and an interrupted download completes from
  its part file with the digest of the manifest (\<open>Shares\<close>, \<open>Transfers\<close>); an update that is started is what was offered, and whatever
  happens while the program is replaced a whole one remains (\<open>Updates\<close>); the answers of routers are read as they were sent in
  any pieces, and tables are walked completely (\<open>Routeros\<close>, \<open>Ber\<close>, \<open>Topology\<close>). Several theorems state the
  effect of a defect of the code (an error that ends a stream normally, an answer lost when the link is
  lost, a pause that desynchronises the frames, a batch that fails halfway, a window that begins at midnight, a public endpoint
  that answers with the secrets, cookies that can be guessed without limit, a form that removes the admins, a failed scan that is announced
  as clean, a notification sent again after it was accepted, quotas computed from every fifth second, an escalation that is lost, a
  second download of the same name into a checked file, a cancelled download that goes on, a read without the access list, a rollback that
  never ends, a request that is malformed with a community of nine bytes, a poll that one unreadable answer ends).

  \<^bold>\<open>Bounds and termination.\<close> There is no fuel: loops over data are structural or have a measure
  (\<open>tokens\<close>, \<open>split_all\<close>, \<open>read_head\<close>, the number to text conversion), loops of tasks are lists of steps of any
  length. The theorems about hops use the time to live of the packet as their bound.

  \<^bold>\<open>Parameters.\<close> msgpack, HMAC, SHA-1 with base64, \<open>str\<close>, \<open>float\<close>, the service methods, the handlers of the web
  interface, the processes, the agents of devices and the failures of the file system during an update are arguments. No law is assumed of them except where a theorem names it (decoding what was encoded).

  \<^bold>\<open>Approximations.\<close> Characters are Latin-1; a text of the source outside it stands as its UTF-8 bytes. Keys
  \<open>1\<close> and \<open>True\<close>, which Python identifies, are different. Fields declared as text hold texts (the packet class
  checks it), except the sender of a gossip entry, which is taken as checked. Floats are real numbers. Paths are
  absolute POSIX paths as lists of names, with symbolic links as a parameter of the resolution; what is written to an
  open file is in it at once.

  \<^bold>\<open>Not modelled.\<close> The desktop application and its older versions (\<open>src/ui\<close>, \<open>src/core\<close>, \<open>src/ai\<close>, \<open>src/_legacy\<close>), the
  single handlers behind the routes of the HTTP server and its files, the collectors that call operating-system tools, the pages of the services and
  their methods (certificates, speed tests), the ending of processes at a restart: they are input and output around
  these parts. Sockets, threads and TLS are represented by steps and outputs only. The remaining pure parts
  (discovery of the local network, the text of the metrics, the watch of backups) are the next to be modelled.
\<close>

end
